(* ===== verification/Prelude.thy ===== *)
theory Prelude
  imports Main "HOL-Library.Word" "HOL-Library.Signed_Division"
begin

unbundle bit_operations_syntax

text \<open>
  Shared vocabulary of the development.

  \<^item> Names for the fixed-width C++ integers (\<open>u8\<close> \<dots> \<open>u64\<close>), all of them words of
    HOL-Library.Word: \<open>+\<close>, \<open>-\<close>, \<open>*\<close> wrap as unsigned C++ arithmetic does, and a
    signed integer is read off its word with \<open>sint\<close>.
  \<^item> Reads through a pointer: memory is a list of bytes and \<open>rd\<close> is \<open>None\<close> outside it,
    so that a read past the end of a buffer is visible in the result of a model.
  \<^item> The theorem collections the component theories extend, and the generic facts on
    lists, words and options they share.
\<close>

section \<open>Machine integers\<close>

type_synonym u8 = "8 word"
type_synonym u16 = "16 word"
type_synonym u32 = "32 word"
type_synonym u64 = "64 word"

text \<open>Facts that turn bit-level statements into arithmetic ones.\<close>

named_theorems bitarith \<open>bit operations as arithmetic on nat\<close>

lemma unat_drop_bit [bitarith]: "unat (drop_bit n (x :: 'a::len word)) = unat x div 2 ^ n"
  by (simp only: unsigned_drop_bit_eq) (simp add: drop_bit_eq_div [symmetric] take_bit_nat_eq_self)

lemma unat_and_mask [bitarith]: "unat (x AND mask n :: 'a::len word) = unat x mod 2 ^ n"
  by (simp only: take_bit_eq_mask [symmetric] unsigned_take_bit_eq) (rule take_bit_eq_mod)

lemma word_eq_iff_unat: "x = y \<longleftrightarrow> unat x = unat y" for x y :: "'a::len word"
  by (auto simp: word_unat_eq_iff)

lemma unat_ucast_up: "LENGTH('a::len) \<le> LENGTH('b::len) \<Longrightarrow> unat (ucast (x :: 'a word) :: 'b word) = unat x"
  by (simp add: unsigned_ucast_eq take_bit_nat_eq_self_iff)
    (metis less_le_trans one_less_numeral_iff power_increasing_iff semiring_norm(76) unsigned_less)

lemma bit_unat_iff: "bit (x :: 'a::len word) n \<longleftrightarrow> odd (unat x div 2 ^ n)"
proof -
  have "bit x n \<longleftrightarrow> bit (unat x) n" by (simp add: bit_unsigned_iff)
  then show ?thesis by (simp only: bit_iff_odd)
qed

lemma word_highest_bit:
  fixes x :: "'a::len word"
  assumes "x \<noteq> 0"
  obtains h where "h < LENGTH('a)" "bit x h" "\<And>j. h < j \<Longrightarrow> \<not> bit x j"
    "2 ^ h \<le> unat x" "unat x < 2 ^ Suc h"
proof -
  from assms have "1 \<le> unat x" by (simp add: Suc_leI unat_gt_0)
  then obtain h where h: "2 ^ h \<le> unat x" "unat x < 2 ^ (h + 1)"
    using ex_power_ivl1 [of 2 "unat x"] by auto
  have "h < LENGTH('a)"
  proof (rule ccontr)
    assume "\<not> h < LENGTH('a)"
    then have "(2::nat) ^ LENGTH('a) \<le> 2 ^ h" by (simp add: power_increasing)
    moreover have "unat x < 2 ^ LENGTH('a)" by (rule unsigned_less)
    ultimately show False using h(1) by linarith
  qed
  moreover have "bit x h"
  proof -
    have "unat x div 2 ^ h = 1"
      using h by (intro div_nat_eqI) auto
    then show ?thesis by (simp add: bit_unat_iff)
  qed
  moreover have "\<not> bit x j" if "h < j" for j
  proof -
    from that have "(2::nat) ^ (h + 1) \<le> 2 ^ j" by (intro power_increasing) auto
    with h(2) have "unat x div 2 ^ j = 0" by simp
    then show ?thesis by (simp add: bit_unat_iff)
  qed
  ultimately show thesis using that h by auto
qed

lemma int_and_uminus: "odd (w::int) \<Longrightarrow> (2 ^ k * w) AND - (2 ^ k * w) = 2 ^ k"
proof (induction k)
  case 0
  then obtain q where "w = 2 * q + 1" by (rule oddE)
  then have e: "- w = 2 * NOT q + 1" by (simp add: not_int_def)
  show ?case by (simp add: \<open>w = _\<close> and_int_rec [of "2 * q + 1"] e [unfolded \<open>w = _\<close>] del: minus_add_distrib)
next
  case (Suc k)
  define x where "x = 2 ^ k * w"
  have "(2 * x) AND (2 * - x) = 2 * (x AND - x)"
    by (simp only: and_int_rec [of "2 * x"] nonzero_mult_div_cancel_left) simp
  with Suc show ?case by (simp add: x_def mult.assoc)
qed

lemma word_of_int_and: "word_of_int (a AND b) = word_of_int a AND (word_of_int b :: 'a::len word)"
  by (rule bit_word_eqI) (simp add: bit_simps)

lemma word_and_uminus:
  fixes v :: "'a::len word"
  assumes "bit v k" "\<And>j. j < k \<Longrightarrow> \<not> bit v j"
  shows "v AND - v = 2 ^ k"
proof -
  have "take_bit k (uint v) = 0"
    using assms(2) by (intro bit_eqI) (auto simp: bit_simps bit_unsigned_iff)
  then have "2 ^ k dvd uint v" by (simp add: take_bit_eq_0_iff)
  then obtain w where w: "uint v = 2 ^ k * w" ..
  have "odd w"
    using assms(1) w by (metis bit_iff_odd bit_uint_iff bit_imp_le_length nonzero_mult_div_cancel_left power_not_zero zero_neq_numeral)
  have "v = word_of_int (2 ^ k * w)" using w by (metis word_of_int_uint)
  then have "v AND - v = word_of_int ((2 ^ k * w) AND - (2 ^ k * w))"
    by (simp only: wi_hom_neg word_of_int_and)
  with int_and_uminus [OF \<open>odd w\<close>, of k] show ?thesis by simp
qed

lemma upt_32: "[0..<32] = [0,1,2,3,4,5,6,7,8,9,10,11,12,13,14,15,16,17,18,19,20,21,22,23,24,25,26,27,28,29,30,31]"
  by (simp add: upt_rec)

lemma less_32_cases: "(i::nat) < 32 \<Longrightarrow> i \<in> set [0,1,2,3,4,5,6,7,8,9,10,11,12,13,14,15,16,17,18,19,20,21,22,23,24,25,26,27,28,29,30,31]"
  unfolding upt_32 [symmetric] by simp

lemma unat_exp: "k < LENGTH('a) \<Longrightarrow> unat (2 ^ k :: 'a::len word) = 2 ^ k"
proof -
  assume k: "k < LENGTH('a)"
  have "unat (push_bit k 1 :: 'a word) = take_bit LENGTH('a) (push_bit k (unat (1 :: 'a word)))"
    by (rule unsigned_push_bit_eq)
  with k show ?thesis by (simp add: push_bit_eq_mult take_bit_nat_eq_self)
qed

section \<open>Memory\<close>

definition rd :: "'b list \<Rightarrow> nat \<Rightarrow> 'b option" where
  "rd mem i = (if i < length mem then Some (mem ! i) else None)"

lemma rd_append1 [simp]: "i < length xs \<Longrightarrow> rd (xs @ ys) i = Some (xs ! i)"
  by (simp add: rd_def nth_append)

lemma rd_append2 [simp]: "rd (xs @ ys) (length xs + i) = rd ys i"
  by (simp add: rd_def nth_append)

lemma rd_Cons_0 [simp]: "rd (x # xs) 0 = Some x"
  by (simp add: rd_def)

lemma rd_Cons_Suc [simp]: "rd (x # xs) (Suc i) = rd xs i"
  by (simp add: rd_def)

end
