(* ===== verification/BitUtils.thy ===== *)
theory BitUtils
  imports Prelude
begin

text \<open>
  The bit helpers of \<^verbatim>\<open>libpandabase/utils/bit_utils.h\<close> and
  \<^verbatim>\<open>libpandabase/utils/math_helpers.h\<close>.  The compiler builtins behind the
  macros \<^verbatim>\<open>panda_bit_utils_clz\<close>, \<^verbatim>\<open>ctz\<close> and \<^verbatim>\<open>popcount\<close> are written out as
  \<open>builtin_clz\<close>, \<open>builtin_ctz\<close> and \<open>builtin_popcount\<close>; a template over \<open>T\<close> is a
  definition over \<open>'a word\<close>, with \<open>numeric_limits<T>::digits\<close> as the length of \<open>'a\<close>.
  Shown: the width-dispatching wrappers count in the width of their argument,
  \<open>MinimumBitsToStore\<close> is the least sufficient width, alignment rounds to the nearest
  multiple, the byte and bit reversals permute bit positions, and the two de Bruijn
  table lookups agree with the builtins.
\<close>

section \<open>Compiler builtins\<close>

fun clz_from :: "nat \<Rightarrow> 'a::len word \<Rightarrow> nat" where
  "clz_from 0 x = 0"
| "clz_from (Suc n) x = (if bit x n then 0 else Suc (clz_from n x))"

definition builtin_clz :: "'a::len word \<Rightarrow> nat" where
  "builtin_clz x = clz_from LENGTH('a) x"

fun ctz_from :: "nat \<Rightarrow> nat \<Rightarrow> 'a::len word \<Rightarrow> nat" where
  "ctz_from 0 i x = 0"
| "ctz_from (Suc n) i x = (if bit x i then 0 else Suc (ctz_from n (Suc i) x))"

definition builtin_ctz :: "'a::len word \<Rightarrow> nat" where
  "builtin_ctz x = ctz_from LENGTH('a) 0 x"

definition builtin_popcount :: "'a::len word \<Rightarrow> nat" where
  "builtin_popcount x = length (filter (bit x) [0..<LENGTH('a)])"

section \<open>Counting bits\<close>

definition Clz :: "'a::len word \<Rightarrow> nat" where
  "Clz x = (if LENGTH('a) = 64 then builtin_clz (ucast x :: u64)
            else builtin_clz (ucast x :: u32) - (32 - LENGTH('a)))"

definition Ctz :: "'a::len word \<Rightarrow> nat" where
  "Ctz x = (if LENGTH('a) = 64 then builtin_ctz (ucast x :: u64)
            else builtin_ctz (ucast x :: u32))"

definition Popcount :: "'a::len word \<Rightarrow> nat" where
  "Popcount x = (if LENGTH('a) = 64 then builtin_popcount (ucast x :: u64)
                 else builtin_popcount (ucast x :: u32))"

definition MinimumBitsToStore :: "'a::len word \<Rightarrow> nat" where
  "MinimumBitsToStore v = (if v = 0 then 0 else LENGTH('a) - Clz v)"

definition builtin_ffs :: "'a::len word \<Rightarrow> nat" where
  "builtin_ffs x = (if x = 0 then 0 else Suc (builtin_ctz x))"

definition Ffs :: "'a::len word \<Rightarrow> nat" where
  "Ffs x = (if LENGTH('a) = 64 then builtin_ffs (ucast x :: u64)
            else builtin_ffs (ucast x :: u32))"

section \<open>Alignment\<close>

definition IsAligned :: "u64 \<Rightarrow> u64 \<Rightarrow> bool" where
  "IsAligned value n \<longleftrightarrow> value mod n = 0"

definition RoundUp :: "u64 \<Rightarrow> u64 \<Rightarrow> u64" where
  "RoundUp x n = (x + n - 1) AND (- n)"

definition RoundDown :: "u64 \<Rightarrow> u64 \<Rightarrow> u64" where
  "RoundDown x n = x AND (- n)"

definition BitsToBytesRoundUp :: "u64 \<Rightarrow> u64" where
  "BitsToBytesRoundUp num_bits = RoundUp num_bits 8 div 8"

section \<open>Reversals and fields\<close>

definition SwapBits :: "'a::len word \<Rightarrow> 'a word \<Rightarrow> nat \<Rightarrow> 'a word" where
  "SwapBits v m offset = (drop_bit offset v AND m) OR push_bit offset (v AND m)"

definition GetByteFrom :: "'a::len word \<Rightarrow> u64 \<Rightarrow> u8" where
  "GetByteFrom v index = ucast (drop_bit (unat (push_bit 3 index)) v AND 0xff)"

definition ReverseBytes16 :: "u16 \<Rightarrow> u16" where
  "ReverseBytes16 v = push_bit 8 v OR drop_bit 8 v"

definition ReverseBytes32 :: "u32 \<Rightarrow> u32" where
  "ReverseBytes32 v =
     (let v = SwapBits v 0xff00ff 8 in drop_bit 16 v OR push_bit 16 v)"

definition ReverseBytes64 :: "u64 \<Rightarrow> u64" where
  "ReverseBytes64 v =
     (let v = SwapBits v 0xff00ff00ff00ff 8;
          v = SwapBits v 0xffff0000ffff 16
      in drop_bit 32 v OR push_bit 32 v)"

definition ReverseBits32 :: "u32 \<Rightarrow> u32" where
  "ReverseBits32 v =
     (let v = SwapBits v 0x55555555 1;
          v = SwapBits v 0x33333333 2;
          v = SwapBits v 0x0f0f0f0f 4
      in ReverseBytes32 v)"

definition ReverseBits64 :: "u64 \<Rightarrow> u64" where
  "ReverseBits64 v =
     (let v = SwapBits v 0x5555555555555555 1;
          v = SwapBits v 0x3333333333333333 2;
          v = SwapBits v 0x0f0f0f0f0f0f0f0f 4
      in ReverseBytes64 v)"

text \<open>
  \<open>ExtractBits\<close> builds its mask from the 32-bit literal \<^verbatim>\<open>1U\<close>, whatever the type
  of the value.
\<close>

definition ExtractBits :: "'a::len word \<Rightarrow> nat \<Rightarrow> nat \<Rightarrow> 'a word" where
  "ExtractBits v offset count = drop_bit offset v AND ucast (push_bit count (1 :: u32) - 1)"

definition Low32Bits :: "u64 \<Rightarrow> u32" where
  "Low32Bits v = ucast v"

definition High32Bits :: "u64 \<Rightarrow> u32" where
  "High32Bits v = ucast (drop_bit 32 v)"

section \<open>The integer helpers of math\_helpers.h\<close>

definition IsPowerOfTwo :: "'a::len word \<Rightarrow> bool" where
  "IsPowerOfTwo v \<longleftrightarrow> v AND (v - 1) = 0"

definition GetIntLog2 :: "u32 \<Rightarrow> nat" where
  "GetIntLog2 x = builtin_ctz x"

definition GetPowerOfTwoValue32 :: "u32 \<Rightarrow> u32" where
  "GetPowerOfTwoValue32 v =
     (let v = (if v > 0 then v - 1 else v)
      in if v = 0 then 1 else ucast (push_bit (32 - Clz v) (1 :: u64)))"

definition ctz_table :: "nat list" where
  "ctz_table = [0,  1,  28, 2,  29, 14, 24, 3,  30, 22, 20,
                15, 25, 17, 4,  8,  31, 27, 13, 23, 21, 19,
                16, 7,  26, 12, 18, 6,  11, 5,  10, 9]"

definition math_Ctz :: "u32 \<Rightarrow> nat" where
  "math_Ctz v =
     ctz_table ! unat (drop_bit 27 (ucast ((ucast (v AND (- v)) :: u64) * 0x077CB531) :: u32))"

definition clz_table :: "nat list" where
  "clz_table = [0,  9,  1,  10, 13, 21, 2,  29, 11, 14, 16,
                18, 22, 25, 3,  30, 8,  12, 20, 28, 15, 17,
                24, 7,  19, 27, 23, 6,  26, 5,  4,  31]"

definition math_Clz :: "u32 \<Rightarrow> nat" where
  "math_Clz v =
     (let v = v OR drop_bit 1 v;
          v = v OR drop_bit 2 v;
          v = v OR drop_bit 4 v;
          v = v OR drop_bit 8 v;
          v = v OR drop_bit 16 v
      in 32 - 1 - clz_table ! unat (drop_bit 27 (v * 0x07C4ACDD)))"

definition merge_hashes :: "u64 \<Rightarrow> u64 \<Rightarrow> u64" where
  "merge_hashes lhash rhash =
     lhash XOR (rhash + 0x9e3779b9 + push_bit 6 lhash + drop_bit 2 lhash)"

definition PowerOfTwoTableSlot :: "u64 \<Rightarrow> u64 \<Rightarrow> nat \<Rightarrow> u64" where
  "PowerOfTwoTableSlot key table_size skipped = drop_bit skipped key AND (table_size - 1)"

section \<open>Lemmas\<close>

lemma clz_from_highest:
  "h < n \<Longrightarrow> bit x h \<Longrightarrow> (\<And>j. h < j \<Longrightarrow> j < n \<Longrightarrow> \<not> bit x j) \<Longrightarrow> clz_from n x = n - 1 - h"
proof (induction n)
  case (Suc n)
  show ?case
  proof (cases "h = n")
    case True with Suc.prems show ?thesis by simp
  next
    case False
    with Suc.prems have "h < n" "\<not> bit x n" by auto
    with Suc show ?thesis by auto
  qed
qed simp

lemma clz_from_0: "clz_from n 0 = n"
  by (induction n) auto

lemma builtin_clz_eq:
  fixes x :: "'a::len word"
  assumes "2 ^ h \<le> unat x" "unat x < 2 ^ Suc h"
  shows "builtin_clz x = LENGTH('a) - 1 - h"
proof -
  from assms have "x \<noteq> 0" by (metis gr0I le_zero_eq unat_0 power_not_zero zero_neq_numeral)
  then obtain k where k: "k < LENGTH('a)" "bit x k" "\<And>j. k < j \<Longrightarrow> \<not> bit x j"
    "2 ^ k \<le> unat x" "unat x < 2 ^ Suc k" by (rule word_highest_bit) blast
  have "h = k"
  proof (rule antisym)
    from assms(1) k(5) have "(2::nat) ^ h < 2 ^ Suc k" by linarith
    then have "h < Suc k" by (rule power_less_imp_less_exp [rotated]) simp
    then show "h \<le> k" by simp
    from k(4) assms(2) have "(2::nat) ^ k < 2 ^ Suc h" by linarith
    then have "k < Suc h" by (rule power_less_imp_less_exp [rotated]) simp
    then show "k \<le> h" by simp
  qed
  with k clz_from_highest [of k "LENGTH('a)" x] show ?thesis
    by (simp add: builtin_clz_def)
qed

lemma Clz_eq:
  fixes x :: "'a::len word"
  assumes "LENGTH('a) = 64 \<or> LENGTH('a) \<le> 32" "2 ^ h \<le> unat x" "unat x < 2 ^ Suc h"
  shows "Clz x = LENGTH('a) - 1 - h"
proof (cases "LENGTH('a) = 64")
  case True
  then have "unat (ucast x :: u64) = unat x" by (simp add: unat_ucast_up)
  with assms builtin_clz_eq [of h "ucast x :: u64"] True show ?thesis by (simp add: Clz_def)
next
  case False
  with assms have len: "LENGTH('a) \<le> 32" by simp
  then have u: "unat (ucast x :: u32) = unat x" by (simp add: unat_ucast_up)
  have "builtin_clz (ucast x :: u32) = 31 - h"
    using builtin_clz_eq [of h "ucast x :: u32"] assms u by simp
  with False len show ?thesis by (simp add: Clz_def)
qed
lemma MinimumBitsToStore_le_iff:
  fixes v :: "'a::len word"
  assumes "LENGTH('a) = 64 \<or> LENGTH('a) \<le> 32"
  shows "MinimumBitsToStore v \<le> n \<longleftrightarrow> unat v < 2 ^ n"
proof (cases "v = 0")
  case False
  then obtain h where h: "h < LENGTH('a)" "2 ^ h \<le> unat v" "unat v < 2 ^ Suc h"
    by (rule word_highest_bit) blast
  with assms False have "MinimumBitsToStore v = Suc h"
    by (simp add: MinimumBitsToStore_def Clz_eq [OF assms h(2,3)])
  moreover have "Suc h \<le> n \<longleftrightarrow> unat v < 2 ^ n"
  proof
    assume "Suc h \<le> n"
    then have "(2::nat) ^ Suc h \<le> 2 ^ n" by (intro power_increasing) auto
    with h show "unat v < 2 ^ n" by linarith
  next
    assume "unat v < 2 ^ n"
    with h(2) have "(2::nat) ^ h < 2 ^ n" by linarith
    then have "h < n" by (rule power_less_imp_less_exp [rotated]) simp
    then show "Suc h \<le> n" by simp
  qed
  ultimately show ?thesis by simp
qed (simp add: MinimumBitsToStore_def)

lemma and_uminus_exp:
  fixes x :: u64
  assumes "k < 64"
  shows "unat (x AND - (2 ^ k)) = unat x div 2 ^ k * 2 ^ k"
proof -
  have "- (2 ^ k) = NOT (mask k :: u64)"
    by (simp add: minus_eq_not_minus_1 mask_eq_exp_minus_1)
  then have "x AND - (2 ^ k) = push_bit k (drop_bit k x)"
    by (simp add: bit_eq_iff bit_simps) auto
  moreover have "unat (push_bit k (drop_bit k x)) = unat (drop_bit k x) * 2 ^ k"
  proof -
    have "unat (drop_bit k x) * 2 ^ k \<le> unat x" by (simp add: unat_drop_bit)
    also have "\<dots> < 2 ^ 64" using unsigned_less [of x] by simp
    finally show ?thesis
      by (simp only: unsigned_push_bit_eq) (simp add: push_bit_eq_mult take_bit_nat_eq_self)
  qed
  ultimately show ?thesis by (simp add: unat_drop_bit)
qed

lemma bit_SwapBits:
  "bit (SwapBits (v::'a::len word) m k) i \<longleftrightarrow>
     (bit m i \<and> bit v (i + k)) \<or> (k \<le> i \<and> i < LENGTH('a) \<and> bit m (i - k) \<and> bit v (i - k))"
  by (auto simp: SwapBits_def bit_simps add.commute)

lemma bit_swap_halves:
  "bit (drop_bit k v OR push_bit k v :: 'a::len word) i \<longleftrightarrow>
     bit v (i + k) \<or> (k \<le> i \<and> i < LENGTH('a) \<and> bit v (i - k))"
  by (auto simp: bit_simps add.commute)

lemma SwapBits32_steps:
  fixes v :: u32
  assumes "i < 32"
  shows "bit (SwapBits v 0x55555555 1) i \<longleftrightarrow> bit v (i XOR 1)"
    and "bit (SwapBits v 0x33333333 2) i \<longleftrightarrow> bit v (i XOR 2)"
    and "bit (SwapBits v 0x0f0f0f0f 4) i \<longleftrightarrow> bit v (i XOR 4)"
    and "bit (SwapBits v 0x00ff00ff 8) i \<longleftrightarrow> bit v (i XOR 8)"
    and "bit (drop_bit 16 v OR push_bit 16 v) i \<longleftrightarrow> bit v (i XOR 16)"
proof -
  note c = less_32_cases [OF assms, unfolded set_simps insert_iff empty_iff]
  have top: "\<not> bit v j" if "32 \<le> j" for j using bit_imp_le_length [of v j] that by auto
  show "bit (SwapBits v 0x55555555 1) i \<longleftrightarrow> bit v (i XOR 1)"
    using c unfolding bit_SwapBits by (elim disjE) (simp_all add: top numeral_2_eq_2 [symmetric] numeral_3_eq_3 [symmetric])
  show "bit (SwapBits v 0x33333333 2) i \<longleftrightarrow> bit v (i XOR 2)"
    using c unfolding bit_SwapBits by (elim disjE) (simp_all add: top numeral_2_eq_2 [symmetric] numeral_3_eq_3 [symmetric])
  show "bit (SwapBits v 0x0f0f0f0f 4) i \<longleftrightarrow> bit v (i XOR 4)"
    using c unfolding bit_SwapBits by (elim disjE) (simp_all add: top numeral_2_eq_2 [symmetric] numeral_3_eq_3 [symmetric])
  show "bit (SwapBits v 0x00ff00ff 8) i \<longleftrightarrow> bit v (i XOR 8)"
    using c unfolding bit_SwapBits by (elim disjE) (simp_all add: top numeral_2_eq_2 [symmetric] numeral_3_eq_3 [symmetric])
  show "bit (drop_bit 16 v OR push_bit 16 v) i \<longleftrightarrow> bit v (i XOR 16)"
    using c unfolding bit_swap_halves by (elim disjE) (simp_all add: top numeral_2_eq_2 [symmetric] numeral_3_eq_3 [symmetric])
qed

lemma bit_ReverseBits32: "bit (ReverseBits32 v) i \<longleftrightarrow> i < 32 \<and> bit v (31 - i)"
proof (cases "i < 32")
  case True
  have x: "i < 32 \<Longrightarrow> i XOR j < 32" if "j \<in> {1,2,4,8,16}" for i j :: nat
    using that less_32_cases [of i] by auto
  have "31 - i = i XOR 16 XOR 8 XOR 4 XOR 2 XOR 1"
    using less_32_cases [OF True] by auto
  with True show ?thesis
    unfolding ReverseBits32_def ReverseBytes32_def Let_def
    by (simp add: SwapBits32_steps x del: One_nat_def) (simp add: xor.assoc)
next
  case False
  then show ?thesis using bit_imp_le_length [of "ReverseBits32 v" i] by auto
qed

lemma ctz_from_lowest:
  "bit x (i + k) \<Longrightarrow> (\<And>j. j < k \<Longrightarrow> \<not> bit x (i + j)) \<Longrightarrow> k < n \<Longrightarrow> ctz_from n i x = k"
proof (induction n arbitrary: i k)
  case (Suc n)
  show ?case
  proof (cases k)
    case 0 with Suc.prems show ?thesis by simp
  next
    case (Suc k')
    with Suc.prems have "\<not> bit x i" by (metis add_0_right zero_less_Suc)
    moreover have "ctz_from n (Suc i) x = k'"
    proof (rule Suc.IH)
      show "bit x (Suc i + k')" using Suc.prems(1) Suc by simp
      show "\<not> bit x (Suc i + j)" if "j < k'" for j
        using Suc.prems(2) [of "Suc j"] that Suc by simp
      show "k' < n" using Suc.prems(3) Suc by simp
    qed
    ultimately show ?thesis using Suc by simp
  qed
qed simp

lemma word_lowest_bit:
  fixes v :: "'a::len word"
  assumes "v \<noteq> 0"
  obtains k where "k < LENGTH('a)" "bit v k" "\<And>j. j < k \<Longrightarrow> \<not> bit v j" "builtin_ctz v = k"
proof -
  from assms obtain b where "bit v b" by (metis bit_eqI bit_0_eq bot_apply bot_bool_def)
  define k where "k = (LEAST k. bit v k)"
  have "bit v k" unfolding k_def using \<open>bit v b\<close> by (rule LeastI)
  moreover have nb: "\<not> bit v j" if "j < k" for j using that unfolding k_def by (rule not_less_Least)
  moreover have "k < LENGTH('a)" using \<open>bit v k\<close> by (rule bit_imp_le_length)
  ultimately show thesis
    using that ctz_from_lowest [of v 0 k "LENGTH('a)"] by (simp add: builtin_ctz_def)
qed

lemma math_Ctz_eq: "v \<noteq> 0 \<Longrightarrow> math_Ctz v = builtin_ctz v"
proof -
  assume "v \<noteq> 0"
  then obtain k where k: "k < 32" "bit v k" "\<And>j. j < k \<Longrightarrow> \<not> bit v j" "builtin_ctz v = k"
    by (rule word_lowest_bit) auto
  then have "v AND - v = 2 ^ k" by (intro word_and_uminus)
  then show ?thesis
    using less_32_cases [OF k(1)] unfolding k(4) math_Ctz_def set_simps insert_iff empty_iff
    by (elim disjE) (simp_all add: ctz_table_def)
qed

lemma bit_smear:
  assumes "\<And>j. bit w j \<longleftrightarrow> (\<exists>d<k. bit v (j + d))"
  shows "bit (w OR drop_bit k w :: u32) j \<longleftrightarrow> (\<exists>d<k + k. bit v (j + d))"
proof -
  have "(\<exists>d<k + k. bit v (j + d)) \<longleftrightarrow> (\<exists>d<k. bit v (j + d)) \<or> (\<exists>d<k. bit v (k + j + d))"
  proof
    assume "\<exists>d<k + k. bit v (j + d)"
    then obtain d where d: "d < k + k" "bit v (j + d)" by blast
    show "(\<exists>d<k. bit v (j + d)) \<or> (\<exists>d<k. bit v (k + j + d))"
    proof (cases "d < k")
      case False
      with d have "d - k < k" "bit v (k + j + (d - k))" by (simp_all add: add.commute)
      then show ?thesis by blast
    qed (use d in blast)
  next
    assume "(\<exists>d<k. bit v (j + d)) \<or> (\<exists>d<k. bit v (k + j + d))"
    then show "\<exists>d<k + k. bit v (j + d)"
      by (metis add.assoc add.commute add_less_cancel_left trans_less_add1)
  qed
  with assms show ?thesis by (simp add: bit_simps)
qed

lemma clz_lookup:
  "h < 32 \<Longrightarrow> clz_table ! unat (drop_bit 27 ((mask (Suc h) :: u32) * 0x07C4ACDD)) = h"
proof -
  have "list_all (\<lambda>h. clz_table ! unat (drop_bit 27 ((mask (Suc h) :: u32) * 0x07C4ACDD)) = h) [0..<32]"
    by code_simp
  then show "h < 32 \<Longrightarrow> ?thesis" by (simp add: list_all_iff)
qed

lemma math_Clz_highest:
  assumes "h < 32" "bit v h" "\<And>j. h < j \<Longrightarrow> \<not> bit v j"
  shows "math_Clz v = 31 - h"
proof -
  define v1 where "v1 = v OR drop_bit 1 v"
  define v2 where "v2 = v1 OR drop_bit 2 v1"
  define v3 where "v3 = v2 OR drop_bit 4 v2"
  define v4 where "v4 = v3 OR drop_bit 8 v3"
  define v5 where "v5 = v4 OR drop_bit 16 v4"
  have "bit v1 j \<longleftrightarrow> (\<exists>d<2. bit v (j + d))" for j
    using bit_smear [of v 1 v j] by (simp add: v1_def numeral_2_eq_2)
  then have "bit v2 j \<longleftrightarrow> (\<exists>d<4. bit v (j + d))" for j
    using bit_smear [of v1 2 v j] by (simp add: v2_def)
  then have "bit v3 j \<longleftrightarrow> (\<exists>d<8. bit v (j + d))" for j
    using bit_smear [of v2 4 v j] by (simp add: v3_def)
  then have "bit v4 j \<longleftrightarrow> (\<exists>d<16. bit v (j + d))" for j
    using bit_smear [of v3 8 v j] by (simp add: v4_def)
  then have v5: "bit v5 j \<longleftrightarrow> (\<exists>d<32. bit v (j + d))" for j
    using bit_smear [of v4 16 v j] by (simp add: v5_def)
  have b5: "bit v5 j \<longleftrightarrow> j \<le> h" for j
  proof
    assume "bit v5 j"
    with v5 obtain d where "bit v (j + d)" by blast
    with assms(3) [of "j + d"] show "j \<le> h" by (meson le_add1 le_trans not_le)
  next
    assume "j \<le> h"
    then have "h - j < 32" "bit v (j + (h - j))" using assms by simp_all
    with v5 show "bit v5 j" by blast
  qed
  have "v5 = mask (Suc h)"
  proof (rule bit_word_eqI)
    fix n assume "n < LENGTH(32)"
    then show "bit v5 n \<longleftrightarrow> bit (mask (Suc h) :: u32) n"
      by (simp add: b5 bit_mask_iff less_Suc_eq_le)
  qed
  with clz_lookup [OF assms(1)]
  have "clz_table ! unat (drop_bit 27 (v5 * 0x07C4ACDD)) = h" by (simp only:)
  then have "math_Clz v = 32 - 1 - h"
    unfolding math_Clz_def Let_def v1_def [symmetric] v2_def [symmetric] v3_def [symmetric]
      v4_def [symmetric] v5_def [symmetric] by (rule arg_cong)
  then show ?thesis by simp
qed

lemma unat_exp_64: "k < 64 \<Longrightarrow> unat (2 ^ k :: u64) = 2 ^ k"
  by (rule unat_exp) simp

lemma unat_RoundUp:
  assumes "k < 64" "unat x + 2 ^ k \<le> 2 ^ 64"
  shows "unat (RoundUp x (2 ^ k)) = (unat x + (2 ^ k - 1)) div 2 ^ k * 2 ^ k"
proof -
  have "x + 2 ^ k - 1 = x + (2 ^ k - 1)" by simp
  also have "unat \<dots> = unat x + (2 ^ k - 1)"
  proof -
    have "unat (2 ^ k - 1 :: u64) = 2 ^ k - 1"
      using assms(1) by (simp add: unat_exp_64 unat_sub word_le_nat_alt)
    moreover have "unat x + (2 ^ k - 1) < 2 ^ 64"
    proof -
      have "(0::nat) < 2 ^ k" by simp
      with assms(2) show ?thesis by linarith
    qed
    ultimately show ?thesis by (simp add: unat_word_ariths)
  qed
  finally show ?thesis
    using and_uminus_exp [OF assms(1), of "x + 2 ^ k - 1"] by (simp add: RoundUp_def)
qed

lemma IsAligned_exp: "k < 64 \<Longrightarrow> IsAligned y (2 ^ k) \<longleftrightarrow> 2 ^ k dvd unat y"
  by (simp add: IsAligned_def word_eq_iff_unat unat_mod_distrib unat_exp_64 dvd_eq_mod_eq_0)

lemma RoundUp_bounds:
  assumes "k < 64" "unat x + 2 ^ k \<le> 2 ^ 64"
  shows "unat x \<le> unat (RoundUp x (2 ^ k))" "unat (RoundUp x (2 ^ k)) < unat x + 2 ^ k"
proof -
  let ?n = "(2::nat) ^ k"
  have pos: "0 < ?n" by simp
  have "unat x + (?n - 1) = (unat x + (?n - 1)) div ?n * ?n + (unat x + (?n - 1)) mod ?n"
    by (simp only: div_mult_mod_eq)
  moreover have "(unat x + (?n - 1)) mod ?n < ?n" by simp
  ultimately show "unat x \<le> unat (RoundUp x (2 ^ k))" "unat (RoundUp x (2 ^ k)) < unat x + 2 ^ k"
    unfolding unat_RoundUp [OF assms] using pos by linarith+
qed

lemma math_Clz_eq: "v \<noteq> 0 \<Longrightarrow> math_Clz v = builtin_clz v"
proof -
  assume "v \<noteq> 0"
  then obtain h where h: "h < LENGTH(32)" "bit v h" "\<And>j. h < j \<Longrightarrow> \<not> bit v j"
    "2 ^ h \<le> unat v" "unat v < 2 ^ Suc h" by (rule word_highest_bit) blast
  with math_Clz_highest [of h v] builtin_clz_eq [OF h(4,5)] show ?thesis by simp
qed

section \<open>Properties\<close>

text \<open>
  \<^verbatim>\<open>MinimumBitsToStore\<close> is the least width that holds a value, for the 8, 32 and 64 bit
  instances the LEB128 coder and the bytecode emitter use: a value needs at most \<open>n\<close> bits
  exactly when it is below \<open>2 ^ n\<close>.
\<close>

theorem MinimumBitsToStore_least:
  "(MinimumBitsToStore (a :: u8) \<le> n \<longleftrightarrow> unat a < 2 ^ n) \<and>
   (MinimumBitsToStore (b :: u32) \<le> n \<longleftrightarrow> unat b < 2 ^ n) \<and>
   (MinimumBitsToStore (c :: u64) \<le> n \<longleftrightarrow> unat c < 2 ^ n)"
  by (simp add: MinimumBitsToStore_le_iff)

text \<open>
  The de Bruijn multiplications of \<^verbatim>\<open>helpers::math::Ctz\<close> and \<^verbatim>\<open>helpers::math::Clz\<close>
  compute what the compiler builtins compute, for every non-zero 32-bit value.
\<close>

theorem math_count_zeros_eq_builtin:
  "v \<noteq> 0 \<Longrightarrow> math_Ctz v = builtin_ctz v \<and> math_Clz v = builtin_clz v"
  by (simp add: math_Ctz_eq math_Clz_eq)

theorem math_count_zeros_eq_builtin_witness:
  "(40 :: u32) \<noteq> 0 \<and> math_Ctz 40 = builtin_ctz (40 :: u32) \<and> math_Clz 40 = builtin_clz (40 :: u32)"
  using math_count_zeros_eq_builtin [of 40] by simp

text \<open>
  For an alignment \<open>2 ^ k\<close> and an addition that does not overflow, \<^verbatim>\<open>RoundUp\<close> gives a
  multiple of the alignment, not below its argument, and less than one alignment above it:
  the least aligned address at or after \<open>x\<close>.
\<close>

theorem RoundUp_least_aligned:
  assumes "k < 64" and "unat x + 2 ^ k \<le> 2 ^ 64"
  shows "IsAligned (RoundUp x (2 ^ k)) (2 ^ k) \<and> x \<le> RoundUp x (2 ^ k) \<and>
         unat (RoundUp x (2 ^ k)) < unat x + 2 ^ k"
  using RoundUp_bounds [OF assms]
  by (simp add: IsAligned_exp assms(1) word_le_nat_alt) (simp add: unat_RoundUp [OF assms])

theorem RoundUp_least_aligned_witness:
  "IsAligned (RoundUp 13 (2 ^ 3)) (2 ^ 3) \<and> 13 \<le> RoundUp 13 (2 ^ 3) \<and>
   unat (RoundUp 13 (2 ^ 3)) < unat (13 :: u64) + 2 ^ 3"
  by (rule RoundUp_least_aligned) simp_all

text \<open>
  \<^verbatim>\<open>GetPowerOfTwoValue32\<close> returns the least power of two that is at least its argument
  (its comment says the opposite, a power of two not greater than the argument).
\<close>

theorem GetPowerOfTwoValue32_least:
  assumes "0 < v" "v < 2 ^ 31"
  shows "\<exists>k. unat (GetPowerOfTwoValue32 v) = 2 ^ k \<and> unat v \<le> 2 ^ k \<and> (k = 0 \<or> 2 ^ (k - 1) < unat v)"
proof (cases "v = 1")
  case True
  then show ?thesis by (intro exI [of _ 0]) (simp add: GetPowerOfTwoValue32_def)
next
  case False
  have v1: "unat (v - 1) = unat v - 1" using assms(1) by (simp add: unat_minus_one)
  have "v - 1 \<noteq> 0" using False by simp
  then obtain h where h: "h < LENGTH(32)" "2 ^ h \<le> unat (v - 1)" "unat (v - 1) < 2 ^ Suc h"
    by (rule word_highest_bit) blast
  have "unat v < 2 ^ 31" using assms(2) by (simp add: word_less_nat_alt)
  with h(2) v1 have "(2::nat) ^ h < 2 ^ 31" by linarith
  then have "h < 31" by (rule power_less_imp_less_exp [rotated]) simp
  have "Clz (v - 1) = 31 - h" using Clz_eq [OF _ h(2,3)] by simp
  then have "GetPowerOfTwoValue32 v = ucast (push_bit (32 - (31 - h)) (1::u64))"
    using assms(1) \<open>v - 1 \<noteq> 0\<close> by (simp add: GetPowerOfTwoValue32_def Let_def)
  also have "32 - (31 - h) = Suc h" using \<open>h < 31\<close> by simp
  finally have "unat (GetPowerOfTwoValue32 v) = 2 ^ Suc h"
    using \<open>h < 31\<close> unat_exp [of "Suc h", where 'a = 64]
    by (simp add: push_bit_eq_mult unsigned_ucast_eq take_bit_nat_eq_self del: power_Suc)
  moreover have "unat v \<le> 2 ^ Suc h" "2 ^ h < unat v"
    using h(2,3) v1 assms(1) unfolding word_less_nat_alt by linarith+
  ultimately show ?thesis by (intro exI [of _ "Suc h"]) simp
qed

theorem GetPowerOfTwoValue32_least_witness:
  "\<exists>k. unat (GetPowerOfTwoValue32 5) = 2 ^ k \<and> unat (5 :: u32) \<le> 2 ^ k \<and>
       (k = 0 \<or> 2 ^ (k - 1) < unat (5 :: u32))"
  by (rule GetPowerOfTwoValue32_least) simp_all

end
