(* ===== verification/Leb128.thy ===== *)
theory Leb128
  imports BitUtils
begin

unbundle bit_operations_syntax

text \<open>
  The LEB128 coder of \<^verbatim>\<open>libpandabase/utils/leb128.h\<close>, the variable-length integer format
  of the bytecode file.  An encoder is a function to the bytes it stores through
  \<^verbatim>\<open>out\<close> (the \<^verbatim>\<open>size_t\<close> it returns is their number); a decoder takes the memory its
  pointer sees and is \<open>None\<close> when it would read past it, otherwise the decoded value, the
  number of bytes consumed and the \<^verbatim>\<open>is_full\<close> flag.  Signed values are kept as words and
  read with \<open>sint\<close>.

  The reference codes \<open>uleb\<close> and \<open>sleb\<close> over unbounded numbers are what the encoders
  are shown to produce and the decoders to invert; the locale \<open>leb_codec\<close> is the contract
  the clients of the coder use.
\<close>

section \<open>Encoders\<close>

function EncodeUnsigned_loop :: "'a::len word \<Rightarrow> u8 \<Rightarrow> u8 list" where
  "EncodeUnsigned_loop data byte =
     (if data \<noteq> 0
      then (byte OR 0x80) # EncodeUnsigned_loop (drop_bit 7 data) (ucast (data AND 0x7f))
      else [byte])"
  by pat_completeness auto
termination
proof (relation "measure (\<lambda>(data, byte). unat data)")
  fix data :: "'a word" and byte :: u8
  assume "data \<noteq> 0"
  then have "unat data div 2 ^ 7 < unat data" by (intro div_less_dividend) (simp_all add: unat_gt_0)
  then show "((drop_bit 7 data, ucast (data AND 0x7f)), data, byte) \<in> measure (\<lambda>(data, byte). unat data)"
    by (simp only: in_measure prod.case unat_drop_bit)
qed simp

declare EncodeUnsigned_loop.simps [simp del]

definition EncodeUnsigned :: "'a::len word \<Rightarrow> u8 list" where
  "EncodeUnsigned data = EncodeUnsigned_loop (drop_bit 7 data) (ucast (data AND 0x7f))"

text \<open>The magnitude that an arithmetic shift of a signed value reduces.\<close>

definition smag :: "int \<Rightarrow> nat" where
  "smag z = nat (if z < 0 then - z - 1 else z)"

lemma smag_div: "smag (z div 128) = smag z div 128"
proof (cases "z < 0")
  case True
  then have "z div 128 < 0" by simp
  moreover have "(- z - 1) div 128 = - (z div 128) - 1"
  proof (rule int_div_pos_eq)
    show "- z - 1 = 128 * (- (z div 128) - 1) + (127 - z mod 128)"
      using div_mult_mod_eq [of z 128] by (simp add: algebra_simps)
  qed simp_all
  ultimately show ?thesis using True by (simp add: smag_def nat_div_distrib)
qed (simp add: smag_def nat_div_distrib pos_imp_zdiv_nonneg_iff not_less)

lemma smag_0: "smag z = 0 \<longleftrightarrow> z = 0 \<or> z = - 1"
  by (auto simp: smag_def)

lemma sint_signed_drop_bit_7: "sint (signed_drop_bit 7 data) = sint data div 128"
  by (simp add: sint_signed_drop_bit_eq drop_bit_eq_div)

text \<open>
  One step of the signed encoder: the low seven bits of the sign-extended value are the
  value modulo 128, and the loop stops exactly on the values from -64 to 63.
\<close>

lemma low7_signed: "(ucast ((scast data :: u64) AND 0x7f) :: u8) = word_of_int (sint data mod 128)"
proof (rule bit_word_eqI)
  fix n assume n: "n < LENGTH(8)"
  have m: "(0x7f :: u64) = mask 7" by (simp add: mask_eq_exp_minus_1)
  have t: "sint data mod 128 = take_bit 7 (sint data)" by (simp add: take_bit_eq_mod)
  show "bit (ucast ((scast data :: u64) AND 0x7f) :: u8) n \<longleftrightarrow>
      bit (word_of_int (sint data mod 128) :: u8) n"
    using n unfolding m t bit_ucast_iff bit_and_iff bit_mask_iff bit_word_of_int_iff bit_take_bit_iff
      bit_word_scast_iff bit_sint_iff
    by (auto simp: not_le)
qed

definition sleb_stop :: "int \<Rightarrow> bool" where
  "sleb_stop z \<longleftrightarrow>
     (z div 128 = 0 \<and> word_of_int (z mod 128) AND (0x40 :: u8) = 0) \<or>
     (z div 128 = - 1 \<and> word_of_int (z mod 128) AND (0x40 :: u8) \<noteq> 0)"

lemma and_0x40: "x AND (0x40 :: u8) = 0 \<longleftrightarrow> \<not> bit x 6"
  using and_exp_eq_0_iff_not_bit [of x 6] by simp

lemma bit_6_mod: "bit (z mod 128 :: int) 6 \<longleftrightarrow> 64 \<le> z mod 128"
proof (cases "64 \<le> z mod 128")
  case True
  have "z mod 128 div 64 = 1"
    by (rule int_div_pos_eq [where r = "z mod 128 - 64"]) (use True in simp_all)
  with True show ?thesis by (simp add: bit_iff_odd)
next
  case False
  then have "z mod 128 div 64 = 0" by (simp add: div_pos_pos_trivial)
  with False show ?thesis by (simp add: bit_iff_odd)
qed

lemma sleb_stop_iff: "sleb_stop z \<longleftrightarrow> - 64 \<le> z \<and> z < 64"
proof -
  define q r where "q = z div 128" and "r = z mod 128"
  have z: "z = 128 * q + r" and r: "0 \<le> r" "r < 128" by (simp_all add: q_def r_def)
  have "sleb_stop z \<longleftrightarrow> (q = 0 \<and> r < 64) \<or> (q = - 1 \<and> 64 \<le> r)"
    by (auto simp: sleb_stop_def and_0x40 bit_word_of_int_iff bit_6_mod q_def r_def)
  also have "\<dots> \<longleftrightarrow> - 64 \<le> z \<and> z < 64"
  proof
    assume "- 64 \<le> z \<and> z < 64"
    with z r have "- 2 < q" "q < 1" by linarith+
    then have "q = 0 \<or> q = - 1" by linarith
    with z r \<open>- 64 \<le> z \<and> z < 64\<close> show "(q = 0 \<and> r < 64) \<or> (q = - 1 \<and> 64 \<le> r)" by auto
  qed (use z r in auto)
  finally show ?thesis .
qed

function EncodeSigned :: "'a::len word \<Rightarrow> u8 list" where
  "EncodeSigned data =
     (let byte = ucast ((scast data :: u64) AND 0x7f) :: u8;
          data = signed_drop_bit 7 data;
          more = (\<not> ((data = 0 \<and> byte AND 0x40 = 0) \<or> (data = - 1 \<and> byte AND 0x40 \<noteq> 0)))
      in if more then (byte OR 0x80) # EncodeSigned data else [byte])"
  by pat_completeness auto
termination
proof (relation "measure (\<lambda>data. smag (sint data))")
  fix data :: "'a word" and byte :: u8 and data' more
  assume a: "byte = ucast ((scast data :: u64) AND 0x7f)" "data' = signed_drop_bit 7 data"
    "more = (\<not> ((data' = 0 \<and> byte AND 0x40 = 0) \<or> (data' = - 1 \<and> byte AND 0x40 \<noteq> 0)))" "more"
  have "smag (sint data) \<noteq> 0"
  proof
    assume "smag (sint data) = 0"
    then have s: "sint data = 0 \<or> sint data = - 1" by (simp add: smag_0)
    then have "sint data' = sint data" by (auto simp: a sint_signed_drop_bit_7)
    with s have "data' = 0 \<and> sint data = 0 \<or> data' = - 1 \<and> sint data = - 1"
      by (metis signed_word_eqI sint_0 sint_n1)
    with a show False by (auto simp: low7_signed)
  qed
  then show "(data', data) \<in> measure (\<lambda>data. smag (sint data))"
    by (simp add: a sint_signed_drop_bit_7 smag_div)
qed simp

declare EncodeSigned.simps [simp del]

definition UnsignedEncodingSize :: "'a::len word \<Rightarrow> nat" where
  "UnsignedEncodingSize data = (MinimumBitsToStore (data OR 1) + 7 - 1) div 7"

definition SignedEncodingSize :: "'a::len word \<Rightarrow> nat" where
  "SignedEncodingSize data =
     (let data = data XOR signed_drop_bit (LENGTH('a) - 1 - 1) data
      in MinimumBitsToStore (data OR 1) div 7 + 1)"

section \<open>Decoders\<close>

text \<open>The first argument counts the iterations left of the \<open>for\<close> loop over \<open>i < N\<close>.\<close>

fun DecodeUnsigned_loop :: "nat \<Rightarrow> nat \<Rightarrow> u8 list \<Rightarrow> 'a::len word \<Rightarrow> ('a word \<times> nat \<times> bool) option" where
  "DecodeUnsigned_loop 0 i data result = Some (result, i, False)"
| "DecodeUnsigned_loop (Suc left) i data result =
     (case rd data i of
        None \<Rightarrow> None
      | Some d \<Rightarrow>
          let byte = d AND 0x7f;
              shift = i * 7;
              result = result OR push_bit shift (ucast byte)
          in if d AND 0x80 = 0
             then Some (result, i + 1, MinimumBitsToStore byte \<le> LENGTH('a) - shift)
             else DecodeUnsigned_loop left (i + 1) data result)"

definition DecodeUnsigned :: "u8 list \<Rightarrow> ('a::len word \<times> nat \<times> bool) option" where
  "DecodeUnsigned data = DecodeUnsigned_loop ((LENGTH('a) + 7 - 1) div 7) 0 data 0"

text \<open>The specialisation for \<^verbatim>\<open>uint32_t\<close>, its loop unrolled by hand.\<close>

definition DecodeUnsigned_u32 :: "u8 list \<Rightarrow> (u32 \<times> nat \<times> bool) option" where
  "DecodeUnsigned_u32 p =
     (case rd p 0 of None \<Rightarrow> None | Some b0 \<Rightarrow>
      let result = ucast b0 :: u32 in
      if result > 0x7f then
        (case rd p 1 of None \<Rightarrow> None | Some b1 \<Rightarrow>
         let byte = ucast b1 :: u32;
             result = (result AND 0x7f) OR push_bit 7 (byte AND 0x7f) in
         if byte > 0x7f then
           (case rd p 2 of None \<Rightarrow> None | Some b2 \<Rightarrow>
            let byte = ucast b2 :: u32;
                result = result OR push_bit 14 (byte AND 0x7f) in
            if byte > 0x7f then
              (case rd p 3 of None \<Rightarrow> None | Some b3 \<Rightarrow>
               let byte = ucast b3 :: u32;
                   result = result OR push_bit 21 (byte AND 0x7f) in
               if byte > 0x7f then
                 (case rd p 4 of None \<Rightarrow> None | Some b4 \<Rightarrow>
                  let byte = ucast b4 :: u32;
                      valid = (byte < push_bit 4 1);
                      result = result OR push_bit 28 byte in
                  Some (result, 5, valid))
               else Some (result, 4, True))
            else Some (result, 3, True))
         else Some (result, 2, True))
      else Some (result, 1, True))"

fun DecodeSigned_loop :: "nat \<Rightarrow> nat \<Rightarrow> u8 list \<Rightarrow> 'a::len word \<Rightarrow> ('a word \<times> nat \<times> bool) option" where
  "DecodeSigned_loop 0 i data result = Some (result, i, False)"
| "DecodeSigned_loop (Suc left) i data result =
     (case rd data i of
        None \<Rightarrow> None
      | Some byte \<Rightarrow>
          let shift = i * 7;
              result = result OR push_bit shift (ucast (byte AND 0x7f))
          in if byte AND 0x80 = 0
             then let shift = LENGTH('a) - shift;
                      signed_extended = signed_drop_bit 1 (push_bit 1 byte);
                      masked = (signed_extended XOR signed_drop_bit 7 signed_extended) OR 1;
                      is_full = MinimumBitsToStore masked \<le> shift;
                      result = (if shift > 7
                                then signed_drop_bit (shift - 7) (push_bit (shift - 7) result)
                                else result)
                  in Some (result, i + 1, is_full)
             else DecodeSigned_loop left (i + 1) data result)"

definition DecodeSigned :: "u8 list \<Rightarrow> ('a::len word \<times> nat \<times> bool) option" where
  "DecodeSigned data = DecodeSigned_loop ((LENGTH('a) + 7 - 1) div 7) 0 data 0"

section \<open>Reference codes\<close>

function uleb :: "nat \<Rightarrow> u8 list" where
  "uleb m = (if m < 128 then [word_of_nat m] else (word_of_nat (m mod 128) OR 0x80) # uleb (m div 128))"
  by pat_completeness auto
termination by (relation "measure id") auto

declare uleb.simps [simp del]

function sleb :: "int \<Rightarrow> u8 list" where
  "sleb z = (if - 64 \<le> z \<and> z < 64 then [word_of_int (z mod 128)]
             else (word_of_int (z mod 128) OR 0x80) # sleb (z div 128))"
  by pat_completeness auto
termination
proof (relation "measure smag")
  fix z :: int
  assume "\<not> (- 64 \<le> z \<and> z < 64)"
  then have "smag z \<noteq> 0" by (auto simp: smag_def)
  then show "(z div 128, z) \<in> measure smag" by (simp add: smag_div)
qed simp

declare sleb.simps [simp del]

lemma low7_unsigned: "(ucast (data AND 0x7f) :: u8) = word_of_nat (unat data mod 128)"
proof (rule bit_word_eqI)
  fix n assume n: "n < LENGTH(8)"
  have m: "(0x7f :: 'a word) = mask 7" by (simp add: mask_eq_exp_minus_1)
  have t: "unat data mod 128 = take_bit 7 (unat data)" by (simp add: take_bit_eq_mod)
  show "bit (ucast (data AND 0x7f) :: u8) n \<longleftrightarrow> bit (word_of_nat (unat data mod 128) :: u8) n"
    using n unfolding m t 
    by (auto simp: bit_ucast_iff bit_and_iff bit_mask_iff bit_of_nat_iff bit_take_bit_iff bit_unsigned_iff
        dest: bit_imp_le_length)
qed

lemma EncodeUnsigned_loop_uleb:
  "b < 128 \<Longrightarrow> EncodeUnsigned_loop data (word_of_nat b) = uleb (unat data * 128 + b)"
proof (induction "unat data" arbitrary: data b rule: less_induct)
  case less
  show ?case
  proof (cases "data = 0")
    case True
    with less.prems show ?thesis by (simp add: EncodeUnsigned_loop.simps uleb.simps)
  next
    case False
    then have pos: "0 < unat data" by (simp add: unat_gt_0)
    have d: "unat (drop_bit 7 data) = unat data div 128" by (simp add: unat_drop_bit)
    with pos have IH: "EncodeUnsigned_loop (drop_bit 7 data) (word_of_nat (unat data mod 128)) =
        uleb (unat (drop_bit 7 data) * 128 + unat data mod 128)"
      by (intro less.hyps) simp_all
    have "\<not> unat data * 128 + b < 128" using pos by simp
    with IH False less.prems show ?thesis
      by (subst EncodeUnsigned_loop.simps, subst uleb.simps) (simp add: low7_unsigned d)
  qed
qed

lemma EncodeUnsigned_uleb: "EncodeUnsigned data = uleb (unat data)"
  using EncodeUnsigned_loop_uleb [of "unat data mod 128" "drop_bit 7 data"]
  by (simp add: EncodeUnsigned_def low7_unsigned unat_drop_bit)

lemma EncodeSigned_sleb: "EncodeSigned data = sleb (sint data)"
proof (induction data rule: EncodeSigned.induct)
  case (1 data)
  have e: "signed_drop_bit 7 data = 0 \<longleftrightarrow> sint data div 128 = 0"
    "signed_drop_bit 7 data = - 1 \<longleftrightarrow> sint data div 128 = - 1"
    by (metis sint_signed_drop_bit_7 signed_word_eqI sint_0, metis sint_signed_drop_bit_7 signed_word_eqI sint_n1)
  have st: "((signed_drop_bit 7 data = 0 \<and> word_of_int (sint data mod 128) AND (0x40 :: u8) = 0) \<or>
      (signed_drop_bit 7 data = - 1 \<and> word_of_int (sint data mod 128) AND (0x40 :: u8) \<noteq> 0)) \<longleftrightarrow>
      - 64 \<le> sint data \<and> sint data < 64"
    unfolding e sleb_stop_iff [symmetric] sleb_stop_def ..
  show ?case
  proof (cases "- 64 \<le> sint data \<and> sint data < 64")
    case True
    then show ?thesis
      by (subst EncodeSigned.simps, subst sleb.simps) (simp only: Let_def low7_signed st simp_thms if_True if_False)
  next
    case False
    have "EncodeSigned (signed_drop_bit 7 data) = sleb (sint data div 128)"
      using "1.IH" [OF refl refl refl] st False
      by (simp only: low7_signed sint_signed_drop_bit_7 simp_thms True_implies_equals)
    with False show ?thesis
      by (subst EncodeSigned.simps, subst sleb.simps) (simp only: Let_def low7_signed st simp_thms if_True if_False)
  qed
qed

section \<open>Decoding the reference codes\<close>

lemma mask_7_u8: "(0x7f :: u8) = mask 7"
  by (simp add: mask_eq_exp_minus_1)

lemma and_0x80: "x AND (0x80 :: u8) = 0 \<longleftrightarrow> \<not> bit x 7"
  using and_exp_eq_0_iff_not_bit [of x 7] by simp

lemma bit_0x80: "bit (0x80 :: u8) n \<longleftrightarrow> n = 7"
proof -
  have "(0x80 :: u8) = 2 ^ 7" by simp
  then show ?thesis by (simp only: bit_exp_iff) auto
qed

lemma bit_128_int: "bit (128 :: int) n \<longleftrightarrow> n = 7"
proof -
  have "(128 :: int) = 2 ^ 7" by simp
  then show ?thesis by (simp only: bit_exp_iff) auto
qed

lemma payload:
  assumes "\<not> bit (x :: u8) 7"
  shows "x AND 0x7f = x" and "x AND 0x80 = 0" and "(x OR 0x80) AND 0x7f = x" and "(x OR 0x80) AND 0x80 \<noteq> 0"
proof -
  have lt: "bit x n \<Longrightarrow> n < 7" for n
    using assms bit_imp_le_length [of x n] by (cases "n = 7") auto
  show "x AND 0x7f = x" "(x OR 0x80) AND 0x7f = x" unfolding mask_7_u8
    by (rule bit_word_eqI, auto simp: bit_and_iff bit_or_iff bit_mask_iff bit_128_int dest: lt)+
  show "x AND 0x80 = 0" "(x OR 0x80) AND 0x80 \<noteq> 0"
    using assms by (simp_all add: and_0x80 bit_or_iff bit_128_int)
qed

lemma payload_nat: "b < 128 \<Longrightarrow> \<not> bit (word_of_nat b :: u8) 7"
proof -
  assume "b < 128"
  then have "take_bit 7 b = b" by (simp add: take_bit_nat_eq_self)
  then have "\<not> bit b 7" by (metis bit_take_bit_iff less_irrefl)
  then show ?thesis by (simp add: bit_of_nat_iff)
qed

lemma payload_int: "\<not> bit (word_of_int (z mod 128) :: u8) 7"
proof -
  have "z mod 128 = take_bit 7 z" by (simp add: take_bit_eq_mod)
  then show ?thesis by (simp add: bit_word_of_int_iff bit_take_bit_iff)
qed

lemmas payload_simps = payload [OF payload_nat] payload [OF payload_int]

lemma word_of_nat_split:
  "(word_of_nat m :: 'a::len word) = word_of_nat (m mod 128) OR push_bit 7 (word_of_nat (m div 128))"
proof (rule bit_word_eqI)
  fix n assume "n < LENGTH('a)"
  have e: "m mod 128 = take_bit 7 m" "m div 128 = drop_bit 7 m"
    by (simp_all add: take_bit_eq_mod drop_bit_eq_div)
  show "bit (word_of_nat m :: 'a word) n \<longleftrightarrow>
      bit (word_of_nat (m mod 128) OR push_bit 7 (word_of_nat (m div 128)) :: 'a word) n"
    unfolding e by (auto simp: bit_simps bit_of_nat_iff)
qed

lemma word_of_int_split:
  "(word_of_int z :: 'a::len word) = word_of_int (z mod 128) OR push_bit 7 (word_of_int (z div 128))"
proof (rule bit_word_eqI)
  fix n assume "n < LENGTH('a)"
  have e: "z mod 128 = take_bit 7 z" "z div 128 = drop_bit 7 z"
    by (simp_all add: take_bit_eq_mod drop_bit_eq_div)
  show "bit (word_of_int z :: 'a word) n \<longleftrightarrow>
      bit (word_of_int (z mod 128) OR push_bit 7 (word_of_int (z div 128)) :: 'a word) n"
    unfolding e by (auto simp: bit_simps)
qed

lemma length_uleb: "0 < n \<Longrightarrow> length (uleb m) \<le> n \<longleftrightarrow> m < 2 ^ (7 * n)"
proof (induction m arbitrary: n rule: uleb.induct)
  case (1 m)
  show ?case
  proof (cases "m < 128")
    case True
    have "(2::nat) ^ 7 \<le> 2 ^ (7 * n)" using 1 by (intro power_increasing) auto
    with True 1 show ?thesis by (simp add: uleb.simps)
  next
    case False
    show ?thesis
    proof (cases "n = 1")
      case True
      have "uleb (m div 128) \<noteq> []" by (subst uleb.simps) simp
      with True False show ?thesis by (simp add: uleb.simps [of m])
    next
      case n: False
      then obtain k where k: "n = Suc k" "0 < k" using 1 by (cases n) auto
      have "length (uleb m) \<le> n \<longleftrightarrow> m div 128 < 2 ^ (7 * k)"
        using False k "1.IH" by (simp add: uleb.simps [of m])
      also have "\<dots> \<longleftrightarrow> m < 2 ^ (7 * n)"
        by (simp add: k(1) power_add div_less_iff_less_mult mult.commute)
      finally show ?thesis .
    qed
  qed
qed

lemma DecodeUnsigned_loop_uleb:
  fixes res :: "'a::len word"
  assumes "i = length pre" "7 * i < LENGTH('a)" "m < 2 ^ (LENGTH('a) - 7 * i)" "length (uleb m) \<le> left"
  shows "DecodeUnsigned_loop left i (pre @ uleb m @ rest) res =
    Some (res OR push_bit (7 * i) (word_of_nat m), i + length (uleb m), True)"
  using assms
proof (induction m arbitrary: i pre left res rule: uleb.induct)
  case (1 m)
  obtain left' where left: "left = Suc left'"
    using "1.prems"(4) by (cases left) (auto simp: uleb.simps [of m] split: if_splits)
  show ?case
  proof (cases "m < 128")
    case True
    have "unat (word_of_nat m :: u8) = m" using True by (simp add: unsigned_of_nat take_bit_nat_eq_self)
    then have f: "MinimumBitsToStore (word_of_nat m :: u8) \<le> LENGTH('a) - 7 * i"
      using "1.prems"(3) by (simp add: MinimumBitsToStore_le_iff)
    have c: "(ucast (word_of_nat m :: u8) :: 'a word) = word_of_nat m"
      using True by (simp add: unsigned_of_nat take_bit_nat_eq_self)
    from True f c "1.prems"(1) left show ?thesis
      by (simp add: uleb.simps [of m] rd_def nth_append payload_simps mult.commute)
  next
    case False
    have c: "(ucast (word_of_nat (m mod 128) :: u8) :: 'a word) = word_of_nat (m mod 128)"
      by (simp add: unsigned_of_nat take_bit_nat_eq_self)
    have big: "7 < LENGTH('a) - 7 * i"
    proof (rule ccontr)
      assume "\<not> ?thesis"
      then have "(2::nat) ^ (LENGTH('a) - 7 * i) \<le> 2 ^ 7" by (intro power_increasing) auto
      with "1.prems"(3) False show False by simp
    qed
    have "m div 128 < 2 ^ (LENGTH('a) - 7 * Suc i)"
    proof -
      have e: "LENGTH('a) - 7 * i = (LENGTH('a) - 7 * Suc i) + 7" using big by simp
      have "m < 2 ^ (LENGTH('a) - 7 * Suc i) * 2 ^ 7"
        unfolding power_add [symmetric] e [symmetric] by (rule "1.prems"(3))
      then show ?thesis by (simp add: div_less_iff_less_mult)
    qed
    then have IH: "DecodeUnsigned_loop left' (Suc i)
        ((pre @ [word_of_nat (m mod 128) OR 0x80]) @ uleb (m div 128) @ rest)
        (res OR push_bit (7 * i) (word_of_nat (m mod 128))) =
      Some ((res OR push_bit (7 * i) (word_of_nat (m mod 128))) OR push_bit (7 * Suc i) (word_of_nat (m div 128)),
        Suc i + length (uleb (m div 128)), True)"
      using "1.prems" False big left by (intro "1.IH") (simp_all add: uleb.simps [of m])
    have "push_bit (7 * i) (word_of_nat m :: 'a word) =
      push_bit (7 * i) (word_of_nat (m mod 128)) OR push_bit (7 * Suc i) (word_of_nat (m div 128))"
    proof -
      have "push_bit (7 * i) (word_of_nat m :: 'a word) =
        push_bit (7 * i) (word_of_nat (m mod 128) OR push_bit 7 (word_of_nat (m div 128)))"
        by (rule arg_cong [OF word_of_nat_split])
      then show ?thesis by (simp only: push_bit_or push_bit_push_bit mult_Suc_right add.commute)
    qed
    note split = this
    have r: "rd (pre @ uleb m @ rest) i = Some (word_of_nat (m mod 128) OR 0x80)"
      using False "1.prems"(1) by (simp add: uleb.simps [of m] rd_def nth_append)
    have "DecodeUnsigned_loop left i (pre @ uleb m @ rest) res =
        DecodeUnsigned_loop left' (Suc i) (pre @ uleb m @ rest)
          (res OR push_bit (7 * i) (word_of_nat (m mod 128)))"
      unfolding left by (simp add: r payload_simps c Let_def mult.commute)
    also have "pre @ uleb m @ rest = (pre @ [word_of_nat (m mod 128) OR 0x80]) @ uleb (m div 128) @ rest"
      using False by (simp add: uleb.simps [of m])
    finally show ?thesis
      unfolding IH split using False by (simp add: or.assoc uleb.simps [of m])
  qed
qed

lemma div7_le: "(k::nat) \<le> 7 * ((k + 7 - 1) div 7)"
  by presburger

lemma leb_bytes_pos: "0 < (LENGTH('a::len) + 7 - 1) div 7"
proof -
  have "0 < LENGTH('a)" by (rule len_gt_0)
  then show ?thesis by presburger
qed

lemma DecodeUnsigned_uleb:
  assumes "m < 2 ^ LENGTH('a)"
  shows "DecodeUnsigned (uleb m @ rest) = Some (word_of_nat m :: 'a::len word, length (uleb m), True)"
proof -
  let ?N = "(LENGTH('a) + 7 - 1) div 7"
  have "m < 2 ^ (7 * ?N)"
    by (rule less_le_trans [OF assms]) (intro power_increasing div7_le, simp)
  then have "length (uleb m) \<le> ?N" by (simp only: length_uleb [OF leb_bytes_pos])
  then show ?thesis
    using DecodeUnsigned_loop_uleb [of 0 "[]" m ?N rest "0 :: 'a word"] assms
    by (simp add: DecodeUnsigned_def)
qed

lemma unat_or_1_less:
  assumes "0 < k"
  shows "unat (x OR 1 :: 'a::len word) < 2 ^ k \<longleftrightarrow> unat x < 2 ^ k"
proof -
  have "unat (x OR 1) = unat x OR 1" by (simp only: unsigned_or_eq unsigned_1)
  also have "\<dots> = unat x + of_bool (even (unat x))" by (rule or_one_eq)
  finally have e: "unat (x OR 1) = unat x + of_bool (even (unat x))" .
  obtain j where k: "k = Suc j" using assms by (cases k) auto
  have "\<not> (even (unat x) \<and> unat x + 1 = 2 * 2 ^ j)" by presburger
  then show ?thesis unfolding k e by (auto simp: less_Suc_eq)
qed

lemma or_1_neq_0: "(x OR 1 :: 'a::len word) \<noteq> 0"
proof
  assume "x OR 1 = 0"
  then have "bit (x OR 1) 0 = bit (0 :: 'a word) 0" by simp
  then show False by (simp add: bit_or_iff bit_1_iff)
qed

lemma ceil_div_le: "((x::nat) + 7 - 1) div 7 \<le> n \<longleftrightarrow> x \<le> 7 * n"
proof -
  have "(x + 7 - 1) div 7 < Suc n \<longleftrightarrow> x + 7 - 1 < Suc n * 7"
    by (rule div_less_iff_less_mult) simp
  then show ?thesis by auto
qed

lemma UnsignedEncodingSize_eq:
  assumes "LENGTH('a) = 64 \<or> LENGTH('a) \<le> 32"
  shows "UnsignedEncodingSize (data :: 'a::len word) = length (uleb (unat data))"
proof -
  have "UnsignedEncodingSize data \<le> n \<longleftrightarrow> length (uleb (unat data)) \<le> n" if "0 < n" for n
  proof -
    have "UnsignedEncodingSize data \<le> n \<longleftrightarrow> MinimumBitsToStore (data OR 1) \<le> 7 * n"
      unfolding UnsignedEncodingSize_def by (rule ceil_div_le)
    also have "\<dots> \<longleftrightarrow> unat data < 2 ^ (7 * n)"
      using that by (simp only: MinimumBitsToStore_le_iff [OF assms] unat_or_1_less mult_pos_pos zero_less_numeral)
    finally show ?thesis using that by (simp only: length_uleb)
  qed
  moreover have "0 < UnsignedEncodingSize data"
  proof -
    have "\<not> MinimumBitsToStore (data OR 1) \<le> 0"
      unfolding MinimumBitsToStore_le_iff [OF assms] using or_1_neq_0 [of data] by (simp add: unat_eq_0)
    then show ?thesis unfolding UnsignedEncodingSize_def by presburger
  qed
  moreover have "0 < length (uleb (unat data))" by (subst uleb.simps) simp
  ultimately show ?thesis by (metis order_refl antisym)
qed

lemma bit_7_u8: "bit (b :: u8) 7 \<longleftrightarrow> 128 \<le> unat b"
proof -
  have "unat b < 256" using unsigned_less [of b] by simp
  then have "unat b div 2 ^ 7 = (if 128 \<le> unat b then 1 else 0)" by (auto intro: div_nat_eqI)
  then show ?thesis unfolding bit_unat_iff by simp
qed

lemma gt_0x7f: "(ucast (b :: u8) :: u32) > 0x7f \<longleftrightarrow> b AND 0x80 \<noteq> 0"
proof -
  have "unat (ucast b :: u32) = unat b" by (rule unat_ucast_up) simp
  then show ?thesis unfolding and_0x80 bit_7_u8 word_less_nat_alt by auto
qed

lemma mask_7_u32: "(0x7f :: u32) = mask 7"
  by (simp add: mask_eq_exp_minus_1)

lemma low_bits_u32: "(ucast (b AND 0x7f :: u8) :: u32) = ucast b AND 0x7f"
  unfolding mask_7_u8 mask_7_u32
  by (rule bit_word_eqI) (simp only: bit_ucast_iff bit_and_iff bit_mask_iff, auto dest: bit_imp_le_length)

lemma MinimumBitsToStore_7: "7 \<le> n \<Longrightarrow> MinimumBitsToStore (b AND 0x7f :: u8) \<le> n"
proof -
  assume n: "7 \<le> n"
  have "unat (b AND 0x7f) = unat b mod 2 ^ 7" unfolding mask_7_u8 by (rule unat_and_mask)
  also have "\<dots> < 2 ^ 7" by simp
  also have "(2::nat) ^ 7 \<le> 2 ^ n" using n by (intro power_increasing) auto
  finally show ?thesis by (simp add: MinimumBitsToStore_le_iff)
qed

lemma push_28: "(push_bit 28 (ucast (b :: u8)) :: u32) = push_bit 28 (ucast b AND 0x7f)"
  unfolding mask_7_u32
  by (rule bit_word_eqI) (simp only: bit_push_bit_iff bit_ucast_iff bit_and_iff bit_mask_iff, auto)

lemma fifth_valid:
  "b AND 0x80 = 0 \<Longrightarrow> MinimumBitsToStore (b AND 0x7f :: u8) \<le> 4 \<longleftrightarrow> (ucast b :: u32) < push_bit 4 1"
proof -
  assume a: "b AND 0x80 = 0"
  have "unat (ucast b :: u32) = unat b" by (rule unat_ucast_up) simp
  with a show ?thesis by (simp add: payload(1) and_0x80 MinimumBitsToStore_le_iff word_less_nat_alt)
qed

lemma fifth_invalid: "b AND (0x80::u8) \<noteq> 0 \<Longrightarrow> \<not> (ucast b :: u32) < push_bit 4 1"
proof -
  assume a: "b AND 0x80 \<noteq> 0"
  have "unat (ucast b :: u32) = unat b" by (rule unat_ucast_up) simp
  with a show ?thesis by (simp add: and_0x80 bit_7_u8 word_less_nat_alt)
qed

lemma low_first: "b AND 0x80 = 0 \<Longrightarrow> (ucast (b::u8) :: u32) AND 0x7f = ucast b"
  using payload(1) [of b] low_bits_u32 [of b] by (simp add: and_0x80)

lemma DecodeUnsigned_loop_u32:
  "DecodeUnsigned_loop (Suc left) i data (result :: u32) =
     (case rd data i of
        None \<Rightarrow> None
      | Some d \<Rightarrow>
          if d AND 0x80 = 0
             then Some (result OR push_bit (i * 7) (ucast d AND 0x7f), i + 1, MinimumBitsToStore (d AND 0x7f) \<le> 32 - i * 7)
             else DecodeUnsigned_loop left (i + 1) data (result OR push_bit (i * 7) (ucast d AND 0x7f)))"
  by (simp add: Let_def low_bits_u32 split: option.split)

lemma DecodeUnsigned_u32_generic: "DecodeUnsigned_u32 p = DecodeUnsigned p"
proof -
  have n: "(LENGTH(32) + 7 - 1) div 7 = Suc (Suc (Suc (Suc (Suc 0))))" by simp
  have z: "0 OR x = x" "push_bit 0 x = x" for x :: u32 by simp_all
  have idx: "0 * 7 = (0::nat)" "1 * 7 = (7::nat)" "2 * 7 = (14::nat)" "3 * 7 = (21::nat)" "4 * 7 = (28::nat)"
    "0 + 1 = (1::nat)" "1 + 1 = (2::nat)" "2 + 1 = (3::nat)" "3 + 1 = (4::nat)" "4 + 1 = (5::nat)"
    "32 - 28 = (4::nat)" by simp_all
  have le: "(7::nat) \<le> 32 - 0" "(7::nat) \<le> 32 - 7" "(7::nat) \<le> 32 - 14" "(7::nat) \<le> 32 - 21" by simp_all
  have sw: "(if \<not> c then x else y) = (if c then y else x)" for c and x y :: "'b" by simp
  have fifth: "(if b AND 0x80 = 0 then Some (r, n, MinimumBitsToStore (b AND 0x7f) \<le> 4) else Some (r, n, False)) =
      Some (r, n, (ucast b :: u32) < push_bit 4 1)" for b :: u8 and r :: u32 and n :: nat
    by (cases "b AND 0x80 = 0") (simp_all only: fifth_valid fifth_invalid if_True if_False simp_thms)
  show ?thesis
    unfolding DecodeUnsigned_def n DecodeUnsigned_u32_def Let_def gt_0x7f push_28
    unfolding DecodeUnsigned_loop_u32 idx DecodeUnsigned_loop.simps(1) z sw fifth
    by (intro option.case_cong refl if_cong) (simp_all only: low_first le [THEN MinimumBitsToStore_7])
qed

text \<open>
  The hand-unrolled \<^verbatim>\<open>DecodeUnsigned<uint32_t>\<close> computes, on every memory, exactly what the
  generic loop computes at 32 bits: the value, the number of bytes consumed, the \<^verbatim>\<open>is_full\<close>
  flag and the reads past the end of the memory.
\<close>

theorem DecodeUnsigned_u32_eq: "DecodeUnsigned_u32 p = DecodeUnsigned p"
  by (rule DecodeUnsigned_u32_generic)
lemma smag_less: "smag z < 2 ^ m \<longleftrightarrow> - (2 ^ m) \<le> z \<and> z < 2 ^ m"
  by (auto simp: smag_def nat_less_iff zless_nat_eq_int_zless)

lemma smag_bit:
  assumes "smag z < 2 ^ m" "m \<le> k"
  shows "bit z k \<longleftrightarrow> z < 0"
proof (cases "z < 0")
  case True
  have "(2::int) ^ m \<le> 2 ^ k" using assms(2) by (intro power_increasing) auto
  with assms(1) have "0 \<le> z + 2 ^ k" unfolding smag_less by linarith
  with True have "z div 2 ^ k = - 1"
    by (intro int_div_pos_eq [where r = "z + 2 ^ k"]) simp_all
  with True show ?thesis by (simp add: bit_iff_odd)
next
  case False
  have "(2::int) ^ m \<le> 2 ^ k" using assms(2) by (intro power_increasing) auto
  with assms(1) have "z < 2 ^ k" unfolding smag_less by linarith
  with False have "z div 2 ^ k = 0" by (simp add: div_pos_pos_trivial)
  with False show ?thesis by (simp add: bit_iff_odd)
qed

lemma length_sleb: "0 < n \<Longrightarrow> length (sleb z) \<le> n \<longleftrightarrow> smag z < 2 ^ (7 * n - 1)"
proof (induction z arbitrary: n rule: sleb.induct)
  case (1 z)
  have s: "(- 64 \<le> z \<and> z < 64) \<longleftrightarrow> smag z < 64" using smag_less [of z 6] by simp
  show ?case
  proof (cases "smag z < 64")
    case True
    have "(2::nat) ^ 6 \<le> 2 ^ (7 * n - 1)" using 1 by (intro power_increasing) auto
    with True s 1 show ?thesis by (simp add: sleb.simps)
  next
    case False
    show ?thesis
    proof (cases "n = 1")
      case True
      have "sleb (z div 128) \<noteq> []" by (subst sleb.simps) simp
      with True False s show ?thesis by (simp add: sleb.simps [of z])
    next
      case n: False
      then obtain k where k: "n = Suc k" "0 < k" using 1 by (cases n) auto
      have e: "7 * n - 1 = 7 * k - 1 + 7" using k by simp
      have "length (sleb z) \<le> n \<longleftrightarrow> smag (z div 128) < 2 ^ (7 * k - 1)"
        using False k s "1.IH" [of k] by (subst sleb.simps) auto
      also have "\<dots> \<longleftrightarrow> smag z < 2 ^ (7 * n - 1)"
        unfolding e by (simp add: smag_div power_add div_less_iff_less_mult)
      finally show ?thesis .
    qed
  qed
qed

lemma signed_mag: "(word_of_nat (smag z) :: 'a::len word) = (if z < 0 then NOT (word_of_int z) else word_of_int z)"
proof (cases "z < 0")
  case True
  then have "(word_of_nat (smag z) :: 'a word) = word_of_int (NOT z)"
    by (simp add: smag_def not_int_def)
  also have "(word_of_int (NOT z) :: 'a word) = NOT (word_of_int z)"
    by (rule bit_word_eqI) (simp add: bit_not_iff bit_word_of_int_iff)
  finally show ?thesis using True by simp
qed (simp add: smag_def)

lemma bit_signed_mag: "n < LENGTH('a) \<Longrightarrow> bit (word_of_nat (smag z) :: 'a::len word) n \<longleftrightarrow> (bit z n \<noteq> (z < 0))"
  unfolding signed_mag by (simp add: bit_not_iff bit_word_of_int_iff)

lemma unat_signed_mag: "smag z < 2 ^ m \<Longrightarrow> m \<le> LENGTH('a) \<Longrightarrow> unat (word_of_nat (smag z) :: 'a::len word) = smag z"
proof -
  assume a: "smag z < 2 ^ m" "m \<le> LENGTH('a)"
  have "(2::nat) ^ m \<le> 2 ^ LENGTH('a)" using a(2) by (intro power_increasing) auto
  with a(1) have "smag z < 2 ^ LENGTH('a)" by linarith
  then show ?thesis by (simp add: unsigned_of_nat take_bit_nat_eq_self)
qed

lemma smag_sint: "smag (sint (data :: 'a::len word)) < 2 ^ (LENGTH('a) - 1)"
  using sint_range_size [of data] by (simp add: smag_less word_size)

lemma SignedEncodingSize_masked:
  assumes "2 \<le> LENGTH('a)"
  shows "(data XOR signed_drop_bit (LENGTH('a) - 1 - 1) data) OR 1 = word_of_nat (smag (sint data)) OR (1 :: 'a::len word)"
proof (rule bit_word_eqI)
  fix n assume n: "n < LENGTH('a)"
  have sgn: "bit data (LENGTH('a) - Suc 0) \<longleftrightarrow> sint data < 0"
    using smag_bit [OF smag_sint [of data] order_refl] assms by (simp add: bit_sint_iff)
  show "bit ((data XOR signed_drop_bit (LENGTH('a) - 1 - 1) data) OR 1) n \<longleftrightarrow>
      bit (word_of_nat (smag (sint data)) OR (1 :: 'a word)) n"
  proof (cases "n = 0")
    case False
    have "bit (sint data) n = bit data n" using n by (auto simp: bit_sint_iff)
    moreover have "bit data (if LENGTH('a) - (LENGTH('a) - 1 - 1) \<le> n \<and> n < LENGTH('a)
        then LENGTH('a) - 1 else LENGTH('a) - 1 - 1 + n) = (sint data < 0)"
      using False n assms sgn by (cases "n = 1") (auto simp: Suc_diff_Suc numeral_2_eq_2)
    ultimately show ?thesis using False n
      unfolding bit_or_iff bit_signed_mag [OF n] bit_xor_iff bit_signed_drop_bit_iff bit_1_iff
      by auto
  qed (simp add: bit_or_iff)
qed

lemma SignedEncodingSize_eq:
  assumes "LENGTH('a) = 64 \<or> LENGTH('a) \<le> 32" "2 \<le> LENGTH('a)"
  shows "SignedEncodingSize (data :: 'a::len word) = length (sleb (sint data))"
proof -
  have "SignedEncodingSize data \<le> n \<longleftrightarrow> length (sleb (sint data)) \<le> n" if "0 < n" for n
  proof -
    have u: "unat (word_of_nat (smag (sint data)) :: 'a word) = smag (sint data)"
      by (rule unat_signed_mag [OF smag_sint]) simp
    have "SignedEncodingSize data \<le> n \<longleftrightarrow> 
        MinimumBitsToStore (word_of_nat (smag (sint data)) OR (1 :: 'a word)) div 7 < n"
      unfolding SignedEncodingSize_def Let_def SignedEncodingSize_masked [OF assms(2)] by auto
    also have "\<dots> \<longleftrightarrow> MinimumBitsToStore (word_of_nat (smag (sint data)) OR (1 :: 'a word)) \<le> 7 * n - 1"
      using that by (simp add: div_less_iff_less_mult) auto
    also have "\<dots> \<longleftrightarrow> smag (sint data) < 2 ^ (7 * n - 1)"
      unfolding MinimumBitsToStore_le_iff [OF assms(1)] using that by (subst unat_or_1_less) (auto simp: u)
    finally show ?thesis using that by (simp only: length_sleb)
  qed
  moreover have "0 < SignedEncodingSize data" by (simp add: SignedEncodingSize_def Let_def)
  moreover have "0 < length (sleb (sint data))" by (subst sleb.simps) simp
  ultimately show ?thesis by (metis order_refl antisym)
qed

lemma bit_mod_128: "bit (z mod 128 :: int) k \<longleftrightarrow> k < 7 \<and> bit z k"
proof -
  have "z mod 128 = take_bit 7 z" by (simp add: take_bit_eq_mod)
  then show ?thesis by (simp add: bit_take_bit_iff)
qed

lemma bit_low7: "bit (word_of_int (z mod 128) :: u8) k \<longleftrightarrow> k < 7 \<and> bit z k"
  by (auto simp: bit_word_of_int_iff bit_mod_128)

text \<open>The last byte of a code: its seven payload bits sign-extended, and the check of the bits it needs.\<close>

lemma last_byte_extended:
  assumes "smag z < 64"
  shows "signed_drop_bit 1 (push_bit 1 (word_of_int (z mod 128) :: u8)) = word_of_int z"
proof (rule bit_word_eqI)
  fix n assume n: "n < LENGTH(8)"
  have "bit z 7 = bit z 6" using assms smag_bit [of z 6] by simp
  with n show "bit (signed_drop_bit 1 (push_bit 1 (word_of_int (z mod 128) :: u8))) n \<longleftrightarrow> bit (word_of_int z :: u8) n"
    unfolding bit_signed_drop_bit_iff bit_push_bit_iff bit_low7 bit_word_of_int_iff
    by (cases "n = 7") (auto simp: bit_mod_128)
qed

lemma last_byte_masked:
  assumes "smag z < 64"
  shows "word_of_int z XOR signed_drop_bit 7 (word_of_int z :: u8) = word_of_nat (smag z)"
proof (rule bit_word_eqI)
  fix n assume n: "n < LENGTH(8)"
  have "bit z 7 \<longleftrightarrow> z < 0" using assms smag_bit [of z 6] by simp
  with n show "bit (word_of_int z XOR signed_drop_bit 7 (word_of_int z :: u8)) n \<longleftrightarrow> bit (word_of_nat (smag z) :: u8) n"
    unfolding bit_signed_mag [OF n] by (cases "n = 0") (auto simp: bit_xor_iff bit_signed_drop_bit_iff bit_word_of_int_iff)
qed

lemma last_byte_full:
  assumes "smag z < 64" "smag z < 2 ^ (m - 1)" "0 < m"
  shows "MinimumBitsToStore ((word_of_int z XOR signed_drop_bit 7 (word_of_int z :: u8)) OR 1) \<le> m"
proof -
  have "(2::nat) ^ (m - 1) \<le> 2 ^ m" by (intro power_increasing) auto
  with assms(2) have "smag z < 2 ^ m" by linarith
  moreover have "unat (word_of_nat (smag z) :: u8) = smag z"
    using assms(1) unat_signed_mag [of z 6, where 'a = 8] by simp
  ultimately show ?thesis
    unfolding last_byte_masked [OF assms(1)] using assms(3)
    by (subst MinimumBitsToStore_le_iff, simp, subst unat_or_1_less) simp_all
qed

lemma last_byte_result:
  fixes res :: "'a::len word"
  assumes "smag z < 64" "\<And>n. 7 * i \<le> n \<Longrightarrow> \<not> bit res n" "7 * i < LENGTH('a)"
  defines "r \<equiv> res OR push_bit (7 * i) (ucast (word_of_int (z mod 128) :: u8))"
    and "s \<equiv> LENGTH('a) - 7 * i"
  shows "(if s > 7 then signed_drop_bit (s - 7) (push_bit (s - 7) r) else r) = res OR push_bit (7 * i) (word_of_int z)"
proof (rule bit_word_eqI)
  fix n assume n: "n < LENGTH('a)"
  have r: "bit r k \<longleftrightarrow> k < LENGTH('a) \<and> (bit res k \<or> 7 * i \<le> k \<and> k - 7 * i < 7 \<and> bit z (k - 7 * i))" for k
    by (auto simp: r_def bit_or_iff bit_push_bit_iff bit_ucast_iff bit_low7 dest: bit_imp_le_length)
  have hi: "bit z k = bit z 6" if "6 \<le> k" for k using assms(1) that smag_bit [of z 6] by simp
  have rhs: "bit (res OR push_bit (7 * i) (word_of_int z)) n \<longleftrightarrow> bit res n \<or> 7 * i \<le> n \<and> bit z (n - 7 * i)"
    using n by (auto simp: bit_or_iff bit_push_bit_iff bit_word_of_int_iff)
  show "bit (if s > 7 then signed_drop_bit (s - 7) (push_bit (s - 7) r) else r) n \<longleftrightarrow>
      bit (res OR push_bit (7 * i) (word_of_int z)) n"
  proof (cases "s > 7")
    case False
    with n show ?thesis unfolding rhs by (auto simp: r s_def)
  next
    case True
    let ?k = "if 7 * i + 7 \<le> n then 7 * i + 6 else n"
    have "bit (signed_drop_bit (s - 7) (push_bit (s - 7) r)) n \<longleftrightarrow> bit r ?k"
      using n True assms(3) by (auto simp: bit_signed_drop_bit_iff bit_push_bit_iff s_def add.commute)
    also have "\<dots> \<longleftrightarrow> bit res n \<or> 7 * i \<le> n \<and> bit z (n - 7 * i)"
      using n True assms(2) [of n] assms(2) [of "7 * i + 6"] hi [of "n - 7 * i"] by (auto simp: r s_def)
    finally show ?thesis unfolding rhs using True by simp
  qed
qed

lemma DecodeSigned_loop_sleb:
  fixes res :: "'a::len word"
  assumes "i = length pre" "7 * i < LENGTH('a)" "smag z < 2 ^ (LENGTH('a) - 7 * i - 1)" "length (sleb z) \<le> left"
    "\<And>n. 7 * i \<le> n \<Longrightarrow> \<not> bit res n"
  shows "DecodeSigned_loop left i (pre @ sleb z @ rest) res =
    Some (res OR push_bit (7 * i) (word_of_int z), i + length (sleb z), True)"
  using assms
proof (induction z arbitrary: i pre left res rule: sleb.induct)
  case (1 z)
  obtain left' where left: "left = Suc left'"
    using "1.prems"(4) by (cases left) (auto simp: sleb.simps [of z] split: if_splits)
  have s: "(- 64 \<le> z \<and> z < 64) \<longleftrightarrow> smag z < 64" using smag_less [of z 6] by simp
  have c: "(ucast (word_of_int (z mod 128) :: u8) :: 'a word) = word_of_int (z mod 128)"
    by (rule bit_word_eqI) (auto simp: bit_ucast_iff bit_low7 bit_word_of_int_iff bit_mod_128)
  show ?case
  proof (cases "smag z < 64")
    case True
    have r: "rd (pre @ sleb z @ rest) i = Some (word_of_int (z mod 128))"
      using True s "1.prems"(1) by (simp add: sleb.simps [of z] rd_def nth_append)
    have f: "MinimumBitsToStore ((word_of_int z XOR signed_drop_bit 7 (word_of_int z :: u8)) OR 1) \<le> LENGTH('a) - 7 * i"
      using "1.prems"(2,3) True by (intro last_byte_full) simp_all
    show ?thesis
      using last_byte_result [OF True "1.prems"(5,2)] True s f
      unfolding left DecodeSigned_loop.simps r option.case Let_def payload_simps last_byte_extended [OF True]
      by (simp only: sleb.simps [of z] if_True simp_thms mult.commute [of i 7] list.size prod.inject option.inject)
  next
    case False
    have big: "6 < LENGTH('a) - 7 * i - 1"
    proof (rule ccontr)
      assume "\<not> ?thesis"
      then have "(2::nat) ^ (LENGTH('a) - 7 * i - 1) \<le> 2 ^ 6" by (intro power_increasing) auto
      with "1.prems"(3) False show False by simp
    qed
    have small: "smag (z div 128) < 2 ^ (LENGTH('a) - 7 * Suc i - 1)"
    proof -
      have e: "LENGTH('a) - 7 * i - 1 = (LENGTH('a) - 7 * Suc i - 1) + 7" using big by simp
      have "smag z < 2 ^ (LENGTH('a) - 7 * Suc i - 1) * 2 ^ 7"
        unfolding power_add [symmetric] e [symmetric] by (rule "1.prems"(3))
      then show ?thesis by (simp add: smag_div div_less_iff_less_mult)
    qed
    let ?res = "res OR push_bit (7 * i) (word_of_int (z mod 128))"
    have low: "\<not> bit ?res n" if "7 * Suc i \<le> n" for n
      using that "1.prems"(5) [of n] unfolding c [symmetric]
      by (auto simp: bit_or_iff bit_push_bit_iff bit_ucast_iff bit_low7)
    have IH: "DecodeSigned_loop left' (Suc i) ((pre @ [word_of_int (z mod 128) OR 0x80]) @ sleb (z div 128) @ rest) ?res =
      Some (?res OR push_bit (7 * Suc i) (word_of_int (z div 128)), Suc i + length (sleb (z div 128)), True)"
      using "1.prems"(1,2,4) s False big small low left by (intro "1.IH") (simp_all add: sleb.simps [of z] split: if_splits)
    have split: "push_bit (7 * i) (word_of_int z :: 'a word) =
        push_bit (7 * i) (word_of_int (z mod 128)) OR push_bit (7 * Suc i) (word_of_int (z div 128))"
      by (subst word_of_int_split) (simp only: push_bit_or push_bit_push_bit mult_Suc_right add.commute)
    have u: "sleb z = (word_of_int (z mod 128) OR 0x80) # sleb (z div 128)"
      using False s by (subst sleb.simps) auto
    have r: "rd (pre @ sleb z @ rest) i = Some (word_of_int (z mod 128) OR 0x80)"
      using "1.prems"(1) by (simp add: u rd_def nth_append)
    have "DecodeSigned_loop left i (pre @ sleb z @ rest) res = DecodeSigned_loop left' (Suc i) (pre @ sleb z @ rest) ?res"
      unfolding left by (simp add: r payload_simps c Let_def mult.commute)
    also have "pre @ sleb z @ rest = (pre @ [word_of_int (z mod 128) OR 0x80]) @ sleb (z div 128) @ rest"
      by (simp add: u)
    finally show ?thesis unfolding IH split by (simp add: or.assoc u)
  qed
qed

lemma DecodeSigned_sleb:
  assumes "smag z < 2 ^ (LENGTH('a) - 1)"
  shows "DecodeSigned (sleb z @ rest) = Some (word_of_int z :: 'a::len word, length (sleb z), True)"
proof -
  let ?N = "(LENGTH('a) + 7 - 1) div 7"
  have "smag z < 2 ^ (7 * ?N - 1)"
    by (rule less_le_trans [OF assms]) (intro power_increasing diff_le_mono div7_le, simp)
  then have "length (sleb z) \<le> ?N" by (simp only: length_sleb [OF leb_bytes_pos])
  then show ?thesis
    using DecodeSigned_loop_sleb [where i = 0 and pre = "[]" and z = z and left = ?N and rest = rest and res = "0 :: 'a word"] assms
    by (simp add: DecodeSigned_def)
qed
section \<open>The contract of a coder\<close>

text \<open>
  What the readers and writers of the bytecode file rely on: decoding an encoded value gives it
  back whatever follows it in memory, and the size computed for the layout is the number of
  bytes the encoder writes.
\<close>

fun decode_seq :: "(u8 list \<Rightarrow> ('v \<times> nat \<times> bool) option) \<Rightarrow> nat \<Rightarrow> u8 list \<Rightarrow> ('v list \<times> u8 list) option" where
  "decode_seq dec 0 data = Some ([], data)"
| "decode_seq dec (Suc k) data =
     (case dec data of
        Some (v, n, True) \<Rightarrow> map_option (\<lambda>(vs, rest). (v # vs, rest)) (decode_seq dec k (drop n data))
      | _ \<Rightarrow> None)"

locale leb_codec =
  fixes enc :: "'v \<Rightarrow> u8 list"
    and dec :: "u8 list \<Rightarrow> ('v \<times> nat \<times> bool) option"
    and enc_size :: "'v \<Rightarrow> nat"
  assumes dec_enc: "dec (enc v @ rest) = Some (v, length (enc v), True)"
    and size_enc: "enc_size v = length (enc v)"
begin

lemma enc_prefix_free: "enc v @ r = enc w @ s \<Longrightarrow> v = w \<and> r = s"
  by (metis dec_enc append_same_eq option.inject prod.inject same_append_eq)

lemma enc_inj: "inj enc"
  by (rule injI) (metis append_Nil2 enc_prefix_free)

lemma decode_seq_concat: "decode_seq dec (length vs) (concat (map enc vs) @ rest) = Some (vs, rest)"
  by (induction vs) (simp_all add: dec_enc)

lemma size_concat: "length (concat (map enc vs)) = sum_list (map enc_size vs)"
  by (induction vs) (simp_all add: size_enc)

end

lemma EncodeUnsigned_roundtrip:
  "DecodeUnsigned (EncodeUnsigned x @ rest) = Some (x :: 'a::len word, length (EncodeUnsigned x), True)"
  using DecodeUnsigned_uleb [of "unat x" rest, where 'a = 'a] unsigned_less [of x]
  by (simp add: EncodeUnsigned_uleb)

lemma EncodeSigned_roundtrip:
  "DecodeSigned (EncodeSigned x @ rest) = Some (x :: 'a::len word, length (EncodeSigned x), True)"
  using DecodeSigned_sleb [of "sint x" rest, where 'a = 'a] smag_sint [of x]
  by (simp add: EncodeSigned_sleb)

interpretation uleb32: leb_codec "EncodeUnsigned :: u32 \<Rightarrow> u8 list" DecodeUnsigned_u32 UnsignedEncodingSize
  by unfold_locales
    (simp_all add: DecodeUnsigned_u32_generic EncodeUnsigned_roundtrip UnsignedEncodingSize_eq EncodeUnsigned_uleb [symmetric])

interpretation uleb64: leb_codec "EncodeUnsigned :: u64 \<Rightarrow> u8 list" DecodeUnsigned UnsignedEncodingSize
  by unfold_locales (simp_all add: EncodeUnsigned_roundtrip UnsignedEncodingSize_eq EncodeUnsigned_uleb [symmetric])

interpretation sleb32: leb_codec "EncodeSigned :: u32 \<Rightarrow> u8 list" DecodeSigned SignedEncodingSize
  by unfold_locales (simp_all add: EncodeSigned_roundtrip SignedEncodingSize_eq EncodeSigned_sleb [symmetric])

interpretation sleb64: leb_codec "EncodeSigned :: u64 \<Rightarrow> u8 list" DecodeSigned SignedEncodingSize
  by unfold_locales (simp_all add: EncodeSigned_roundtrip SignedEncodingSize_eq EncodeSigned_sleb [symmetric])

text \<open>
  C13: an unsigned integer of any width is read back from its encoding, whatever bytes follow
  it: \<^verbatim>\<open>DecodeUnsigned\<close> returns the value, consumes the bytes of the code and no more, and
  reports \<^verbatim>\<open>is_full\<close>; the code of a 32- or 64-bit integer has the length
  \<^verbatim>\<open>UnsignedEncodingSize\<close> predicts.
\<close>

theorem unsigned_leb_roundtrip:
  "DecodeUnsigned (EncodeUnsigned x @ rest) = Some (x :: 'a::len word, length (EncodeUnsigned x), True)
   \<and> length (EncodeUnsigned (y :: u32)) = UnsignedEncodingSize y
   \<and> length (EncodeUnsigned (z :: u64)) = UnsignedEncodingSize z"
  by (simp add: EncodeUnsigned_roundtrip uleb32.size_enc uleb64.size_enc)

text \<open>
  C11: the same for signed integers, read as two's complement words: the sign extension of the
  last byte in \<^verbatim>\<open>DecodeSigned\<close> restores every value \<^verbatim>\<open>EncodeSigned\<close> writes, and
  \<^verbatim>\<open>SignedEncodingSize\<close> is the length of its code.
\<close>

theorem signed_leb_roundtrip:
  "DecodeSigned (EncodeSigned x @ rest) = Some (x :: 'a::len word, length (EncodeSigned x), True)
   \<and> length (EncodeSigned (y :: u32)) = SignedEncodingSize y
   \<and> length (EncodeSigned (z :: u64)) = SignedEncodingSize z"
  by (simp add: EncodeSigned_roundtrip sleb32.size_enc sleb64.size_enc)

text \<open>
  A sequence of 32-bit values written one after another with \<^verbatim>\<open>EncodeUnsigned\<close> is read back
  in order by repeated calls of \<^verbatim>\<open>DecodeUnsigned<uint32_t>\<close>, which stop exactly at the bytes that
  follow.
\<close>

theorem uleb_sequence_roundtrip:
  "decode_seq DecodeUnsigned_u32 (length vs) (concat (map EncodeUnsigned vs) @ rest) = Some (vs, rest)"
  by (rule uleb32.decode_seq_concat)

text \<open>
  The \<^verbatim>\<open>is_full\<close> flag of \<^verbatim>\<open>DecodeSigned\<close> does not detect a value one bit too wide: the code of
  \<open>2\<^sup>3\<^sup>1\<close>, which no \<^verbatim>\<open>int32_t\<close> holds, is decoded to \<open>- 2\<^sup>3\<^sup>1\<close> and reported as full, whereas
  \<^verbatim>\<open>DecodeUnsigned\<close> reports the first value that does not fit.
\<close>

theorem DecodeSigned_is_full_overflow:
  "EncodeSigned (0x80000000 :: u64) = [0x80, 0x80, 0x80, 0x80, 0x08]
   \<and> (DecodeSigned [0x80, 0x80, 0x80, 0x80, 0x08] :: (u32 \<times> nat \<times> bool) option) = Some (0x80000000, 5, True)
   \<and> sint (0x80000000 :: u32) = - (2 ^ 31)
   \<and> (DecodeUnsigned (EncodeUnsigned (0x100000000 :: u64)) :: (u32 \<times> nat \<times> bool) option) = Some (0, 5, False)"
  by code_simp

end
