(* ===== verification/IrTypes.thy ===== *)
theory IrTypes
  imports Prelude
begin

unbundle bit_operations_syntax

text \<open>
  The value types and condition codes of the compiler's intermediate representation
  (\<^verbatim>\<open>compiler/optimizer/ir/datatype.h\<close> and the head of \<^verbatim>\<open>compiler/optimizer/ir/inst.h\<close>).

  A switch whose default is \<^verbatim>\<open>UNREACHABLE()\<close> is a function into \<open>option\<close>.  The size of an object
  pointer, a choice of the build, is an argument \<open>ops\<close> of the functions that depend on it.  The
  last section gives the integer types their meaning: \<open>type_min\<close>, \<open>type_max\<close> and the
  wrap-around \<open>wrap\<close> of a result to its type, which the optimisations are proved against.
\<close>

section \<open>Types\<close>

datatype ir_type =
  NO_TYPE | REFERENCE | BOOL | UINT8 | INT8 | UINT16 | INT16 | UINT32 | INT32 | UINT64 | INT64
| FLOAT32 | FLOAT64 | ANY | VOID | POINTER

datatype arch = NONE | AARCH32 | AARCH64 | X86 | X86_64

fun Is64BitsArch :: "arch \<Rightarrow> bool option" where
  "Is64BitsArch NONE = None"
| "Is64BitsArch X86 = Some False"
| "Is64BitsArch X86_64 = Some True"
| "Is64BitsArch AARCH32 = Some False"
| "Is64BitsArch AARCH64 = Some True"

fun GetCommonType :: "ir_type \<Rightarrow> ir_type" where
  "GetCommonType BOOL = INT64"
| "GetCommonType UINT8 = INT64"
| "GetCommonType INT8 = INT64"
| "GetCommonType UINT16 = INT64"
| "GetCommonType INT16 = INT64"
| "GetCommonType UINT32 = INT64"
| "GetCommonType INT32 = INT64"
| "GetCommonType UINT64 = INT64"
| "GetCommonType INT64 = INT64"
| "GetCommonType REFERENCE = POINTER"
| "GetCommonType POINTER = POINTER"
| "GetCommonType t = t"

definition IsInt32Bit :: "ir_type \<Rightarrow> bool" where
  "IsInt32Bit t \<longleftrightarrow> t \<in> {BOOL, UINT8, INT8, UINT16, INT16, UINT32, INT32}"

definition IsTypeNumeric :: "ir_type \<Rightarrow> bool" where
  "IsTypeNumeric t \<longleftrightarrow>
     t \<in> {BOOL, UINT8, INT8, UINT16, INT16, UINT32, INT32, UINT64, INT64, FLOAT32, FLOAT64, POINTER}"

definition IsLessInt32 :: "ir_type \<Rightarrow> bool" where
  "IsLessInt32 t \<longleftrightarrow> t \<in> {BOOL, UINT8, INT8, UINT16, INT16}"

definition GetIntTypeForReference :: "nat \<Rightarrow> arch \<Rightarrow> ir_type option" where
  "GetIntTypeForReference ops arch =
     (if arch = AARCH32 then Some UINT32
      else if ops = 8 then Some UINT64
      else if ops = 4 then Some UINT32
      else None)"

definition GetIntTypeBySize :: "nat \<Rightarrow> bool \<Rightarrow> ir_type option" where
  "GetIntTypeBySize sizeInBytes isSigned =
     (if sizeInBytes \<le> 1 then Some (if isSigned then INT8 else UINT8)
      else if sizeInBytes \<le> 2 then Some (if isSigned then INT16 else UINT16)
      else if sizeInBytes \<le> 4 then Some (if isSigned then INT32 else UINT32)
      else if sizeInBytes \<le> 8 then Some (if isSigned then INT64 else UINT64)
      else None)"

text \<open>
  The recursive call of \<^verbatim>\<open>Is32Bits\<close> and \<^verbatim>\<open>ShiftByType\<close> on the integer type of a reference is
  unfolded: that type is an unsigned integer, so the call ends after one step.
\<close>

definition Is32Bits_int :: "ir_type \<Rightarrow> bool" where
  "Is32Bits_int t \<longleftrightarrow> t \<in> {BOOL, UINT8, INT8, UINT16, INT16, UINT32, INT32, FLOAT32}"

definition Is32Bits :: "nat \<Rightarrow> ir_type \<Rightarrow> arch \<Rightarrow> bool option" where
  "Is32Bits ops t arch =
     (if Is32Bits_int t then Some True
      else if t = POINTER then map_option Not (Is64BitsArch arch)
      else if t = REFERENCE then map_option Is32Bits_int (GetIntTypeForReference ops arch)
      else Some False)"

definition Is64Bits :: "nat \<Rightarrow> ir_type \<Rightarrow> arch \<Rightarrow> bool option" where
  "Is64Bits ops t arch = map_option Not (Is32Bits ops t arch)"

definition IsFloatType :: "ir_type \<Rightarrow> bool" where
  "IsFloatType t \<longleftrightarrow> t \<in> {FLOAT32, FLOAT64}"

definition IsTypeSigned :: "ir_type \<Rightarrow> bool" where
  "IsTypeSigned t \<longleftrightarrow> t \<in> {INT8, INT16, INT32, INT64, FLOAT32, FLOAT64}"

definition IsReference :: "ir_type \<Rightarrow> bool" where
  "IsReference t \<longleftrightarrow> t = REFERENCE"

definition ShiftByType_int :: "ir_type \<Rightarrow> nat option" where
  "ShiftByType_int t =
     (if t \<in> {VOID, BOOL, UINT8, INT8} then Some 0
      else if t \<in> {UINT16, INT16} then Some 1
      else if t \<in> {UINT32, INT32, FLOAT32} then Some 2
      else if t \<in> {UINT64, INT64, FLOAT64, ANY} then Some 3
      else None)"

definition ShiftByType :: "nat \<Rightarrow> ir_type \<Rightarrow> arch \<Rightarrow> nat option" where
  "ShiftByType ops t arch =
     (if t = REFERENCE then Option.bind (GetIntTypeForReference ops arch) ShiftByType_int
      else if t = POINTER then map_option (\<lambda>b. if b then 3 else 2) (Is64BitsArch arch)
      else ShiftByType_int t)"

definition GetTypeSize :: "nat \<Rightarrow> ir_type \<Rightarrow> arch \<Rightarrow> nat option" where
  "GetTypeSize ops t arch = map_option (\<lambda>s. push_bit s 8) (ShiftByType ops t arch)"

definition GetTypeByteSize :: "nat \<Rightarrow> ir_type \<Rightarrow> arch \<Rightarrow> nat option" where
  "GetTypeByteSize ops t arch = map_option (\<lambda>s. push_bit s 1) (ShiftByType ops t arch)"

section \<open>Condition codes\<close>

datatype ConditionCode =
  CC_EQ | CC_NE | CC_LT | CC_LE | CC_GT | CC_GE | CC_B | CC_BE | CC_A | CC_AE | CC_TST_EQ | CC_TST_NE

fun GetInverseConditionCode :: "ConditionCode \<Rightarrow> ConditionCode" where
  "GetInverseConditionCode CC_EQ = CC_NE"
| "GetInverseConditionCode CC_NE = CC_EQ"
| "GetInverseConditionCode CC_LT = CC_GE"
| "GetInverseConditionCode CC_LE = CC_GT"
| "GetInverseConditionCode CC_GT = CC_LE"
| "GetInverseConditionCode CC_GE = CC_LT"
| "GetInverseConditionCode CC_B = CC_AE"
| "GetInverseConditionCode CC_BE = CC_A"
| "GetInverseConditionCode CC_A = CC_BE"
| "GetInverseConditionCode CC_AE = CC_B"
| "GetInverseConditionCode CC_TST_EQ = CC_TST_NE"
| "GetInverseConditionCode CC_TST_NE = CC_TST_EQ"

fun InverseSignednessConditionCode :: "ConditionCode \<Rightarrow> ConditionCode" where
  "InverseSignednessConditionCode CC_EQ = CC_EQ"
| "InverseSignednessConditionCode CC_NE = CC_NE"
| "InverseSignednessConditionCode CC_LT = CC_B"
| "InverseSignednessConditionCode CC_LE = CC_BE"
| "InverseSignednessConditionCode CC_GT = CC_A"
| "InverseSignednessConditionCode CC_GE = CC_AE"
| "InverseSignednessConditionCode CC_B = CC_LT"
| "InverseSignednessConditionCode CC_BE = CC_LE"
| "InverseSignednessConditionCode CC_A = CC_GT"
| "InverseSignednessConditionCode CC_AE = CC_GE"
| "InverseSignednessConditionCode CC_TST_EQ = CC_TST_EQ"
| "InverseSignednessConditionCode CC_TST_NE = CC_TST_NE"

fun IsSignedConditionCode :: "ConditionCode \<Rightarrow> bool" where
  "IsSignedConditionCode CC_LT = True"
| "IsSignedConditionCode CC_LE = True"
| "IsSignedConditionCode CC_GT = True"
| "IsSignedConditionCode CC_GE = True"
| "IsSignedConditionCode _ = False"

fun SwapOperandsConditionCode :: "ConditionCode \<Rightarrow> ConditionCode" where
  "SwapOperandsConditionCode CC_LT = CC_GT"
| "SwapOperandsConditionCode CC_LE = CC_GE"
| "SwapOperandsConditionCode CC_GT = CC_LT"
| "SwapOperandsConditionCode CC_GE = CC_LE"
| "SwapOperandsConditionCode CC_B = CC_A"
| "SwapOperandsConditionCode CC_BE = CC_AE"
| "SwapOperandsConditionCode CC_A = CC_B"
| "SwapOperandsConditionCode CC_AE = CC_BE"
| "SwapOperandsConditionCode code = code"

fun Compare :: "ConditionCode \<Rightarrow> 'a::len word \<Rightarrow> 'a word \<Rightarrow> bool" where
  "Compare CC_EQ lhs rhs = (lhs = rhs)"
| "Compare CC_NE lhs rhs = (lhs \<noteq> rhs)"
| "Compare CC_LT lhs rhs = (sint lhs < sint rhs)"
| "Compare CC_LE lhs rhs = (sint lhs \<le> sint rhs)"
| "Compare CC_GT lhs rhs = (sint lhs > sint rhs)"
| "Compare CC_GE lhs rhs = (sint lhs \<ge> sint rhs)"
| "Compare CC_B lhs rhs = (lhs < rhs)"
| "Compare CC_BE lhs rhs = (lhs \<le> rhs)"
| "Compare CC_A lhs rhs = (lhs > rhs)"
| "Compare CC_AE lhs rhs = (lhs \<ge> rhs)"
| "Compare CC_TST_EQ lhs rhs = (lhs AND rhs = 0)"
| "Compare CC_TST_NE lhs rhs = (lhs AND rhs \<noteq> 0)"

section \<open>Integer types as sets of integers\<close>

text \<open>
  The result of an operation at an integer type is the mathematical result reduced to the bits
  of the type; a boolean is obtained by comparison with zero, as a C++ conversion does.
\<close>

fun type_bits :: "ir_type \<Rightarrow> nat" where
  "type_bits BOOL = 1"
| "type_bits UINT8 = 8"
| "type_bits INT8 = 8"
| "type_bits UINT16 = 16"
| "type_bits INT16 = 16"
| "type_bits UINT32 = 32"
| "type_bits INT32 = 32"
| "type_bits _ = 64"

definition wrap :: "ir_type \<Rightarrow> int \<Rightarrow> int" where
  "wrap t x = (if t = BOOL then of_bool (x \<noteq> 0)
               else if IsTypeSigned t then signed_take_bit (type_bits t - 1) x
               else take_bit (type_bits t) x)"

abbreviation i64 :: "int \<Rightarrow> int" where
  "i64 x \<equiv> signed_take_bit 63 x"

abbreviation is_int_type :: "ir_type \<Rightarrow> bool" where
  "is_int_type t \<equiv> GetCommonType t = INT64"

lemma is_int_type_cases:
  "is_int_type t \<Longrightarrow> t \<in> {BOOL, UINT8, INT8, UINT16, INT16, UINT32, INT32, UINT64, INT64}"
  by (cases t) simp_all

lemma i64_id: "- (2 ^ 63) \<le> x \<Longrightarrow> x < 2 ^ 63 \<Longrightarrow> i64 x = x"
  by (rule signed_take_bit_int_eq_self) simp_all

lemma i64_ge: "- (2 ^ 63) \<le> i64 x" and i64_less: "i64 x < 2 ^ 63"
  by (rule signed_take_bit_int_greater_eq_minus_exp, rule signed_take_bit_int_less_exp)

lemma sint_word_of_int_64: "sint (word_of_int x :: u64) = i64 x"
  by (simp add: signed_of_int)

lemma take_bit_i64: "n \<le> 64 \<Longrightarrow> take_bit n (i64 x) = take_bit n x"
proof (rule bit_eqI)
  fix k assume n: "n \<le> 64"
  then have "k < n \<Longrightarrow> min k 63 = k" by simp
  then show "bit (take_bit n (i64 x)) k = bit (take_bit n x) k"
    by (auto simp: bit_take_bit_iff bit_signed_take_bit_iff)
qed

lemma signed_take_bit_i64: "n \<le> 63 \<Longrightarrow> signed_take_bit n (i64 x) = signed_take_bit n x"
  by (rule bit_eqI) (auto simp: bit_signed_take_bit_iff min_def)

lemma wrap_i64: "is_int_type t \<Longrightarrow> t \<noteq> BOOL \<Longrightarrow> wrap t (i64 x) = wrap t x"
  by (cases t) (simp_all add: wrap_def take_bit_i64 signed_take_bit_i64)

section \<open>The algebra of condition codes\<close>

text \<open>
  The condition-code tables are right for every width of operands: the inverse code holds
  exactly when the code does not, the swapped code holds of the swapped operands, and on
  operands of equal sign bit the code of the other signedness decides the same.
\<close>

theorem condition_codes:
  fixes x y :: "'a::len word"
  shows "Compare (GetInverseConditionCode cc) x y = (\<not> Compare cc x y)
    \<and> Compare (SwapOperandsConditionCode cc) y x = Compare cc x y
    \<and> (bit x (LENGTH('a) - 1) = bit y (LENGTH('a) - 1) \<longrightarrow>
         Compare (InverseSignednessConditionCode cc) x y = Compare cc x y)"
proof -
  have s: "sint w = uint w - of_bool (bit w (LENGTH('a) - 1)) * 2 ^ LENGTH('a)" for w :: "'a word"
  proof -
    obtain n where n: "LENGTH('a) = Suc n" by (cases "LENGTH('a)") simp_all
    have "sint w = signed_take_bit n (uint w)" by (simp add: sint_uint n)
    also have "\<dots> = take_bit (Suc n) (uint w) - 2 ^ Suc n * of_bool (bit (uint w) n)"
      by (rule signed_take_bit_eq_take_bit_minus)
    also have "take_bit (Suc n) (uint w) = uint w"
      unfolding n [symmetric] by (rule take_bit_int_eq_self) simp_all
    finally show ?thesis by (simp add: n bit_uint_iff)
  qed
  show ?thesis
    by (cases cc) (auto simp: and.commute s word_less_def word_le_def)
qed

theorem condition_codes_witness:
  "Compare (GetInverseConditionCode CC_LT) (3 :: u8) 5 = False
   \<and> bit (3 :: u8) 7 = bit (5 :: u8) 7 \<and> Compare (InverseSignednessConditionCode CC_LT) (3 :: u8) 5"
  using condition_codes [of CC_LT "3 :: u8" 5] by simp

end
