(* ===== verification/RangeDomain.thy ===== *)
theory RangeDomain
  imports IrTypes
begin

unbundle bit_operations_syntax

text \<open>
  The value ranges of the bounds analysis: class \<^verbatim>\<open>BoundsRange\<close> of
  \<^verbatim>\<open>compiler/optimizer/analysis/bounds_analysis.cpp\<close>.

  A bound is an \<^verbatim>\<open>int64_t\<close>, modelled as an integer; a C++ operation that can leave the type is
  followed by \<open>i64\<close>, its reduction to 64 bits.  \<open>BoundsRange(l, r)\<close> is \<open>mk_range l r\<close>,
  \<open>BoundsRange(type)\<close> is \<open>type_range type\<close> and \<open>BoundsRange()\<close> is \<open>full_range\<close>.  The assertions of
  the constructor are the invariant \<open>wf_range\<close>, shown to be kept by every operation; the meaning
  of a range is \<open>in_range\<close>, and the locale \<open>range_transfer\<close> is the contract between an operation
  on values and the operation on ranges that approximates it.
\<close>

section \<open>Ranges\<close>

type_synonym inst_id = nat

record BoundsRange =
  GetLeft :: int
  GetRight :: int
  GetLenArray :: "inst_id option"

definition MAX_RANGE_VALUE :: int where "MAX_RANGE_VALUE = 2 ^ 63 - 1"
definition MIN_RANGE_VALUE :: int where "MIN_RANGE_VALUE = - (2 ^ 63)"

text \<open>The switches end in \<^verbatim>\<open>UNREACHABLE()\<close>: their callers pass integer types and references.\<close>

fun GetMin :: "ir_type \<Rightarrow> int" where
  "GetMin BOOL = 0"
| "GetMin UINT8 = 0"
| "GetMin UINT16 = 0"
| "GetMin UINT32 = 0"
| "GetMin UINT64 = 0"
| "GetMin REFERENCE = 0"
| "GetMin INT8 = - (2 ^ 7)"
| "GetMin INT16 = - (2 ^ 15)"
| "GetMin INT32 = - (2 ^ 31)"
| "GetMin INT64 = MIN_RANGE_VALUE"
| "GetMin _ = undefined"

fun GetMax :: "ir_type \<Rightarrow> int" where
  "GetMax BOOL = 1"
| "GetMax UINT8 = 2 ^ 8 - 1"
| "GetMax UINT16 = 2 ^ 16 - 1"
| "GetMax UINT32 = 2 ^ 32 - 1"
| "GetMax INT8 = 2 ^ 7 - 1"
| "GetMax INT16 = 2 ^ 15 - 1"
| "GetMax INT32 = 2 ^ 31 - 1"
| "GetMax INT64 = MAX_RANGE_VALUE"
| "GetMax UINT64 = MAX_RANGE_VALUE"
| "GetMax REFERENCE = MAX_RANGE_VALUE"
| "GetMax _ = undefined"

definition mk_range_len :: "int \<Rightarrow> int \<Rightarrow> inst_id option \<Rightarrow> BoundsRange" where
  "mk_range_len left right inst = \<lparr>GetLeft = left, GetRight = right, GetLenArray = inst\<rparr>"

abbreviation mk_range :: "int \<Rightarrow> int \<Rightarrow> BoundsRange" where
  "mk_range left right \<equiv> mk_range_len left right None"

definition type_range :: "ir_type \<Rightarrow> BoundsRange" where
  "type_range t = mk_range (GetMin t) (GetMax t)"

abbreviation full_range :: BoundsRange where
  "full_range \<equiv> type_range INT64"

definition const_range :: "int \<Rightarrow> BoundsRange" where
  "const_range val = mk_range_len val val None"

definition SetLenArray :: "inst_id \<Rightarrow> BoundsRange \<Rightarrow> BoundsRange" where
  "SetLenArray inst r = r\<lparr>GetLenArray := Some inst\<rparr>"

definition FitInType :: "BoundsRange \<Rightarrow> ir_type \<Rightarrow> BoundsRange" where
  "FitInType r type =
     (let typeMin = GetMin type; typeMax = GetMax type in
      if GetLeft r < typeMin \<or> GetLeft r > typeMax \<or> GetRight r < typeMin \<or> GetRight r > typeMax
      then mk_range typeMin typeMax else r)"

section \<open>Checked arithmetic\<close>

definition AddWithOverflowCheck :: "int \<Rightarrow> int \<Rightarrow> int option" where
  "AddWithOverflowCheck left right =
     (if right = 0 then Some left
      else if right > 0
           then if left \<le> MAX_RANGE_VALUE - right then Some (i64 (left + right)) else None
           else if left \<ge> MIN_RANGE_VALUE - right then Some (i64 (left + right)) else None)"

definition AddWithOverflowCheck_u64 :: "u64 \<Rightarrow> u64 \<Rightarrow> u64 option" where
  "AddWithOverflowCheck_u64 left right =
     (if right = 0 then Some left
      else if left \<le> - 1 - right then Some (left + right) else None)"

definition std_abs :: "int \<Rightarrow> int" where
  "std_abs x = (if x = MIN_RANGE_VALUE then MAX_RANGE_VALUE else \<bar>x\<bar>)"

text \<open>
  The product of \<^verbatim>\<open>INT64_MIN\<close> and -1 passes the check, since the absolute value of the minimum is taken to be the
  maximum, and overflows: undefined behaviour in C++.  The definition has the two's complement result there; the visitor of
  a multiplication in \<open>BoundsAnalysis\<close> has no result when this product is taken.
\<close>

definition MulWithOverflowCheck :: "int \<Rightarrow> int \<Rightarrow> int option" where
  "MulWithOverflowCheck left right =
     (if left = 0 \<or> right = 0 then Some 0
      else let leftAbs = std_abs left; rightAbs = std_abs right in
           if leftAbs \<le> MAX_RANGE_VALUE sdiv rightAbs then Some (i64 (left * right)) else None)"

definition MulWithOverflowCheck_u64 :: "u64 \<Rightarrow> u64 \<Rightarrow> u64 option" where
  "MulWithOverflowCheck_u64 left right =
     (if left = 0 \<or> right = 0 then Some 0
      else if left \<le> (- 1) div right then Some (left * right) else None)"

definition DivWithOverflowCheck :: "int \<Rightarrow> int \<Rightarrow> int option" where
  "DivWithOverflowCheck left right =
     (if left = MIN_RANGE_VALUE \<and> right = - 1 then None else Some (left sdiv right))"

section \<open>Predicates\<close>

definition IsConst_range :: "BoundsRange \<Rightarrow> bool" where
  "IsConst_range r \<longleftrightarrow> GetLeft r = GetRight r"

definition IsMaxRange :: "BoundsRange \<Rightarrow> ir_type \<Rightarrow> bool" where
  "IsMaxRange r type \<longleftrightarrow> GetLeft r \<le> GetMin type \<and> GetRight r \<ge> GetMax type"

definition IsEqual :: "BoundsRange \<Rightarrow> BoundsRange \<Rightarrow> bool" where
  "IsEqual r rng \<longleftrightarrow> GetLeft r = GetLeft rng \<and> GetRight r = GetRight rng"

definition IsLess :: "BoundsRange \<Rightarrow> BoundsRange \<Rightarrow> bool" where
  "IsLess r rng \<longleftrightarrow> GetRight r < GetLeft rng"

definition IsMore :: "BoundsRange \<Rightarrow> BoundsRange \<Rightarrow> bool" where
  "IsMore r rng \<longleftrightarrow> GetLeft r > GetRight rng"

definition IsMoreOrEqual :: "BoundsRange \<Rightarrow> BoundsRange \<Rightarrow> bool" where
  "IsMoreOrEqual r rng \<longleftrightarrow> GetLeft r \<ge> GetRight rng"

definition IsWithin :: "BoundsRange \<Rightarrow> BoundsRange \<Rightarrow> bool" where
  "IsWithin r rng \<longleftrightarrow> GetLeft r > GetLeft rng \<and> GetRight r < GetRight rng"

definition IsNotNegative :: "BoundsRange \<Rightarrow> bool" where
  "IsNotNegative r \<longleftrightarrow> GetLeft r \<ge> 0"

definition IsNegative :: "BoundsRange \<Rightarrow> bool" where
  "IsNegative r \<longleftrightarrow> GetRight r < 0"

definition IsPositive :: "BoundsRange \<Rightarrow> bool" where
  "IsPositive r \<longleftrightarrow> GetLeft r > 0"

definition IsNotPositive :: "BoundsRange \<Rightarrow> bool" where
  "IsNotPositive r \<longleftrightarrow> GetRight r \<le> 0"

definition CanOverflow :: "BoundsRange \<Rightarrow> ir_type \<Rightarrow> bool" where
  "CanOverflow r type \<longleftrightarrow> GetLeft r \<le> GetMin type \<or> GetRight r \<ge> GetMax type"

definition CanOverflowNeg :: "BoundsRange \<Rightarrow> ir_type \<Rightarrow> bool" where
  "CanOverflowNeg r type \<longleftrightarrow> GetRight r \<ge> GetMax type \<or> (GetLeft r \<le> 0 \<and> 0 \<le> GetRight r)"

section \<open>Operations\<close>

definition Range_Neg :: "BoundsRange \<Rightarrow> BoundsRange" where
  "Range_Neg r =
     (let right = (if GetLeft r = MIN_RANGE_VALUE then MAX_RANGE_VALUE else - GetLeft r);
          left = (if GetRight r = MIN_RANGE_VALUE then MAX_RANGE_VALUE else - GetRight r)
      in mk_range left right)"

definition Range_Abs :: "BoundsRange \<Rightarrow> BoundsRange" where
  "Range_Abs r =
     (let val1 = (if GetLeft r = MIN_RANGE_VALUE then MAX_RANGE_VALUE else \<bar>GetLeft r\<bar>);
          val2 = (if GetRight r = MIN_RANGE_VALUE then MAX_RANGE_VALUE else \<bar>GetRight r\<bar>);
          right = max val1 val2;
          left = (if GetLeft r XOR GetRight r \<ge> 0 then min val1 val2 else 0)
      in mk_range left right)"

definition Range_Add :: "BoundsRange \<Rightarrow> BoundsRange \<Rightarrow> BoundsRange" where
  "Range_Add r rng =
     (case (AddWithOverflowCheck (GetLeft r) (GetLeft rng), AddWithOverflowCheck (GetRight r) (GetRight rng)) of
        (Some left, Some right) \<Rightarrow> mk_range left right
      | _ \<Rightarrow> full_range)"

definition Range_Sub :: "BoundsRange \<Rightarrow> BoundsRange \<Rightarrow> BoundsRange" where
  "Range_Sub r rng =
     (let negRight = (if GetRight rng = MIN_RANGE_VALUE then MAX_RANGE_VALUE else - GetRight rng);
          left = AddWithOverflowCheck (GetLeft r) negRight;
          negLeft = (if GetLeft rng = MIN_RANGE_VALUE then MAX_RANGE_VALUE else - GetLeft rng);
          right = AddWithOverflowCheck (GetRight r) negLeft
      in case (left, right) of (Some left, Some right) \<Rightarrow> mk_range left right | _ \<Rightarrow> full_range)"

definition Range_Mul :: "BoundsRange \<Rightarrow> BoundsRange \<Rightarrow> BoundsRange" where
  "Range_Mul r rng =
     (case (MulWithOverflowCheck (GetLeft r) (GetLeft rng), MulWithOverflowCheck (GetLeft r) (GetRight rng),
            MulWithOverflowCheck (GetRight r) (GetLeft rng), MulWithOverflowCheck (GetRight r) (GetRight rng)) of
        (Some m1, Some m2, Some m3, Some m4) \<Rightarrow>
          mk_range (min m1 (min m2 (min m3 m4))) (max m1 (max m2 (max m3 m4)))
      | _ \<Rightarrow> full_range)"

definition Range_Div :: "BoundsRange \<Rightarrow> BoundsRange \<Rightarrow> BoundsRange" where
  "Range_Div r rng =
     (if GetLeft rng \<noteq> GetRight rng \<or> GetLeft rng = 0 then full_range
      else case (DivWithOverflowCheck (GetLeft r) (GetLeft rng), DivWithOverflowCheck (GetRight r) (GetLeft rng)) of
             (Some m1, Some m2) \<Rightarrow> mk_range (min m1 m2) (max m1 m2)
           | _ \<Rightarrow> full_range)"

definition Range_Mod :: "BoundsRange \<Rightarrow> BoundsRange \<Rightarrow> BoundsRange" where
  "Range_Mod r rng =
     (let maxMod = (if GetRight rng > 0 then GetRight rng - 1 else 0);
          maxMod = (if GetLeft rng = MIN_RANGE_VALUE then MAX_RANGE_VALUE
                    else if GetLeft rng < 0 then max maxMod (- GetLeft rng - 1)
                    else maxMod)
      in if maxMod = 0 then full_range
         else mk_range (if GetLeft r < 0 then max (GetLeft r) (- maxMod) else 0)
                       (if GetRight r > 0 then min (GetRight r) maxMod else 0))"

text \<open>
  \<^verbatim>\<open>DataType::GetTypeSize(type, Arch::NONE) - 1\<close>; the shifts are only applied at integer types,
  whose size does not depend on the architecture or the object pointer.
\<close>

definition size_mask :: "ir_type \<Rightarrow> nat" where
  "size_mask type = (case GetTypeSize 8 type NONE of Some s \<Rightarrow> s - 1 | None \<Rightarrow> undefined)"

definition shift_amount :: "int \<Rightarrow> ir_type \<Rightarrow> nat" where
  "shift_amount y type = nat (take_bit 64 y AND int (size_mask type))"

definition Range_Shr :: "BoundsRange \<Rightarrow> BoundsRange \<Rightarrow> ir_type \<Rightarrow> BoundsRange" where
  "Range_Shr r rng type =
     (if \<not> IsConst_range rng \<or> IsNegative rng then full_range
      else let n = shift_amount (GetLeft rng) type;
               narrowed = FitInType r type
           in if GetLeft narrowed < 0 \<and> GetRight narrowed \<ge> 0 \<and> n > 0
              then mk_range 0 (i64 (drop_bit n (mask 64)))
              else mk_range (i64 (drop_bit n (take_bit 64 (GetLeft narrowed))))
                            (i64 (drop_bit n (take_bit 64 (GetRight narrowed)))))"

definition Range_AShr :: "BoundsRange \<Rightarrow> BoundsRange \<Rightarrow> ir_type \<Rightarrow> BoundsRange" where
  "Range_AShr r rng type =
     (if \<not> IsConst_range rng \<or> IsNegative rng then full_range
      else let n = shift_amount (GetLeft rng) type
           in mk_range (drop_bit n (GetLeft r)) (drop_bit n (GetRight r)))"

definition Range_Shl :: "BoundsRange \<Rightarrow> BoundsRange \<Rightarrow> ir_type \<Rightarrow> BoundsRange" where
  "Range_Shl r rng type =
     (if \<not> IsConst_range rng \<or> IsNegative rng then full_range
      else let n = shift_amount (GetLeft rng) type;
               maxBits = 64 - n - 1;
               maxValue = i64 (push_bit maxBits 1)
           in if n > 0 \<and> (GetLeft r < - maxValue \<or> GetRight r \<ge> maxValue) then full_range
              else mk_range (i64 (push_bit n (take_bit 64 (GetLeft r))))
                            (i64 (push_bit n (take_bit 64 (GetRight r)))))"

definition Range_And :: "BoundsRange \<Rightarrow> BoundsRange \<Rightarrow> BoundsRange" where
  "Range_And r rng =
     (if \<not> IsConst_range rng then full_range
      else let n = take_bit 64 (GetLeft rng)
           in if drop_bit 63 n = 1 then full_range else mk_range 0 (i64 n))"

definition Range_Union :: "BoundsRange list \<Rightarrow> BoundsRange" where
  "Range_Union ranges =
     (let (mn, mx) = foldl (\<lambda>(mn, mx) rng. (if GetLeft rng < mn then GetLeft rng else mn,
                                             if GetRight rng > mx then GetRight rng else mx))
                           (MAX_RANGE_VALUE, MIN_RANGE_VALUE) ranges
      in mk_range mn mx)"

section \<open>Narrowing by a condition\<close>

type_synonym range_pair = "BoundsRange \<times> BoundsRange"

definition NarrowBoundsByNE :: "range_pair \<Rightarrow> range_pair" where
  "NarrowBoundsByNE ranges =
     (let (left_range, right_range) = ranges;
          ll = GetLeft left_range; lr = GetRight left_range; rl = GetLeft right_range; rr = GetRight right_range
      in if IsConst_range left_range \<and> \<not> IsConst_range right_range \<and> ll = rl
           then (left_range, mk_range (i64 (rl + 1)) rr)
         else if IsConst_range left_range \<and> \<not> IsConst_range right_range \<and> ll = rr
           then (left_range, mk_range rl (i64 (rr - 1)))
         else if \<not> IsConst_range left_range \<and> IsConst_range right_range \<and> rl = ll
           then (mk_range (i64 (ll + 1)) lr, right_range)
         else if \<not> IsConst_range left_range \<and> IsConst_range right_range \<and> rl = lr
           then (mk_range ll (i64 (lr - 1)), right_range)
         else ranges)"

definition NarrowBoundsCase1 :: "ConditionCode \<Rightarrow> range_pair \<Rightarrow> range_pair" where
  "NarrowBoundsCase1 cc ranges =
     (let (left_range, right_range) = ranges; lr = GetRight left_range; rl = GetLeft right_range
      in if cc = CC_GT \<or> cc = CC_A
           then if rl = lr then (full_range, full_range)
                else (mk_range (i64 (rl + 1)) lr, mk_range rl (i64 (lr - 1)))
         else if cc = CC_GE \<or> cc = CC_AE \<or> cc = CC_EQ then (mk_range rl lr, mk_range rl lr)
         else ranges)"

definition NarrowBoundsCase2 :: "ConditionCode \<Rightarrow> range_pair \<Rightarrow> range_pair" where
  "NarrowBoundsCase2 cc ranges =
     (if cc = CC_GT \<or> cc = CC_GE \<or> cc = CC_EQ \<or> cc = CC_A \<or> cc = CC_AE then (full_range, full_range) else ranges)"

definition NarrowBoundsCase3 :: "ConditionCode \<Rightarrow> range_pair \<Rightarrow> range_pair" where
  "NarrowBoundsCase3 cc ranges =
     (let (left_range, right_range) = ranges;
          ll = GetLeft left_range; lr = GetRight left_range; rl = GetLeft right_range; rr = GetRight right_range
      in if cc = CC_GT \<or> cc = CC_A then (mk_range (i64 (rl + 1)) lr, right_range)
         else if cc = CC_GE \<or> cc = CC_AE then (mk_range rl lr, right_range)
         else if cc = CC_LT \<or> cc = CC_B
           then if ll = rr then (full_range, full_range) else (mk_range ll (i64 (rr - 1)), right_range)
         else if cc = CC_LE \<or> cc = CC_BE then (mk_range ll rr, right_range)
         else if cc = CC_EQ then (mk_range rl rr, right_range)
         else ranges)"

definition NarrowBoundsCase4 :: "ConditionCode \<Rightarrow> range_pair \<Rightarrow> range_pair" where
  "NarrowBoundsCase4 cc ranges =
     (let (left_range, right_range) = ranges; ll = GetLeft left_range; rr = GetRight right_range
      in if cc = CC_LT \<or> cc = CC_B
           then if ll = rr then (full_range, full_range)
                else (mk_range ll (i64 (rr - 1)), mk_range (i64 (ll + 1)) rr)
         else if cc = CC_LE \<or> cc = CC_BE \<or> cc = CC_EQ then (mk_range ll rr, mk_range ll rr)
         else ranges)"

definition NarrowBoundsCase5 :: "ConditionCode \<Rightarrow> range_pair \<Rightarrow> range_pair" where
  "NarrowBoundsCase5 cc ranges =
     (if cc = CC_LT \<or> cc = CC_LE \<or> cc = CC_EQ \<or> cc = CC_B \<or> cc = CC_BE then (full_range, full_range) else ranges)"

definition NarrowBoundsCase6 :: "ConditionCode \<Rightarrow> range_pair \<Rightarrow> range_pair" where
  "NarrowBoundsCase6 cc ranges =
     (let (left_range, right_range) = ranges;
          ll = GetLeft left_range; lr = GetRight left_range; rl = GetLeft right_range; rr = GetRight right_range
      in if cc = CC_GT \<or> cc = CC_A then (left_range, mk_range rl (i64 (lr - 1)))
         else if cc = CC_GE \<or> cc = CC_AE then (left_range, mk_range rl lr)
         else if cc = CC_LT \<or> cc = CC_B then (left_range, mk_range (i64 (ll + 1)) rr)
         else if cc = CC_LE \<or> cc = CC_BE then (left_range, mk_range ll rr)
         else if cc = CC_EQ then (left_range, mk_range ll lr)
         else ranges)"

definition TryNarrowBoundsByCC :: "ConditionCode \<Rightarrow> range_pair \<Rightarrow> range_pair" where
  "TryNarrowBoundsByCC cc ranges =
     (if cc = CC_NE then NarrowBoundsByNE ranges
      else let (left_range, right_range) = ranges;
               ll = GetLeft left_range; lr = GetRight left_range; rl = GetLeft right_range; rr = GetRight right_range
           in if ll \<le> rl \<and> rl \<le> lr \<and> lr \<le> rr then NarrowBoundsCase1 cc ranges
              else if ll \<le> lr \<and> lr < rl \<and> rl \<le> rr then NarrowBoundsCase2 cc ranges
              else if ll \<le> rl \<and> rl \<le> rr \<and> rr \<le> lr then NarrowBoundsCase3 cc ranges
              else if rl \<le> ll \<and> ll \<le> rr \<and> rr \<le> lr then NarrowBoundsCase4 cc ranges
              else if rl \<le> rr \<and> rr < ll \<and> ll \<le> lr then NarrowBoundsCase5 cc ranges
              else if rl \<le> ll \<and> ll \<le> lr \<and> lr \<le> rr then NarrowBoundsCase6 cc ranges
              else ranges)"

section \<open>Meaning and well-formedness\<close>

definition in_range :: "int \<Rightarrow> BoundsRange \<Rightarrow> bool" where
  "in_range x r \<longleftrightarrow> GetLeft r \<le> x \<and> x \<le> GetRight r"

definition wf_range :: "BoundsRange \<Rightarrow> bool" where
  "wf_range r \<longleftrightarrow> MIN_RANGE_VALUE \<le> GetLeft r \<and> GetLeft r \<le> GetRight r \<and> GetRight r \<le> MAX_RANGE_VALUE"

definition bounded_type :: "ir_type \<Rightarrow> bool" where
  "bounded_type t \<longleftrightarrow> t \<in> {UINT8, INT8, UINT16, INT16, UINT32, INT32, INT64}"

text \<open>
  The bounds are \<^verbatim>\<open>int64_t\<close>, so a value of type \<^verbatim>\<open>UINT64\<close> is represented only when it is below \<open>2 ^ 63\<close>; the
  results of every other integer type are.
\<close>

definition representable :: "ir_type \<Rightarrow> int \<Rightarrow> bool" where
  "representable t v \<longleftrightarrow> bounded_type t \<or> t = UINT64 \<and> wrap t v \<le> GetMax t"

text \<open>A range covers a result when, fitted to the type, it contains the result wrapped to the type.\<close>

definition covers :: "ir_type \<Rightarrow> int \<Rightarrow> BoundsRange \<Rightarrow> bool" where
  "covers t v r \<longleftrightarrow> (t = UINT64 \<longrightarrow> wrap t v \<le> GetMax t) \<longrightarrow> in_range (wrap t v) (FitInType r t)"

named_theorems range_defs \<open>bounds, membership and constructors of ranges\<close>

lemmas range_basic [range_defs] = MIN_RANGE_VALUE_def MAX_RANGE_VALUE_def mk_range_len_def type_range_def
  const_range_def in_range_def wf_range_def

lemma range_sel [simp]:
  "GetLeft (mk_range_len l r i) = l" "GetRight (mk_range_len l r i) = r" "GetLenArray (mk_range_len l r i) = i"
  "GetLeft (type_range t) = GetMin t" "GetRight (type_range t) = GetMax t" "GetLenArray (type_range t) = None"
  "GetLeft (const_range c) = c" "GetRight (const_range c) = c" "GetLenArray (const_range c) = None"
  "GetLeft (SetLenArray a q) = GetLeft q" "GetRight (SetLenArray a q) = GetRight q" "GetLenArray (SetLenArray a q) = Some a"
  by (simp_all add: mk_range_len_def type_range_def const_range_def SetLenArray_def)

lemma i64_in [simp]: "MIN_RANGE_VALUE \<le> x \<Longrightarrow> x \<le> MAX_RANGE_VALUE \<Longrightarrow> i64 x = x"
  by (rule i64_id) (simp_all add: range_defs)

lemma i64_bounds [simp]: "MIN_RANGE_VALUE \<le> i64 x" "i64 x \<le> MAX_RANGE_VALUE"
  using i64_ge [of x] i64_less [of x] by (simp_all add: range_defs)

lemma full_range_in [simp]: "in_range (i64 x) full_range"
  by (simp add: in_range_def)

lemma MIN_MAX [simp]: "MIN_RANGE_VALUE \<le> MAX_RANGE_VALUE" "MIN_RANGE_VALUE < 0" "0 < MAX_RANGE_VALUE"
  "MIN_RANGE_VALUE \<le> 0" "0 \<le> MAX_RANGE_VALUE"
  by (simp_all add: range_defs)

lemma wf_full_range [simp]: "wf_range full_range"
  by (simp add: wf_range_def)

lemma wf_mk_range [simp]: "wf_range (mk_range_len l r i) \<longleftrightarrow> MIN_RANGE_VALUE \<le> l \<and> l \<le> r \<and> r \<le> MAX_RANGE_VALUE"
  by (simp add: wf_range_def)

lemma in_mk_range [simp]: "in_range x (mk_range_len l r i) \<longleftrightarrow> l \<le> x \<and> x \<le> r"
  by (simp add: in_range_def)

lemma in_range_i64 [simp]: "wf_range r \<Longrightarrow> in_range x r \<Longrightarrow> i64 x = x"
  by (rule i64_in) (auto simp: wf_range_def in_range_def)

lemma GetMin_GetMax:
  "is_int_type t \<Longrightarrow> MIN_RANGE_VALUE \<le> GetMin t \<and> GetMin t \<le> GetMax t \<and> GetMax t \<le> MAX_RANGE_VALUE"
  by (cases t) (simp_all add: range_defs)

lemma bounded_is_int: "bounded_type t \<Longrightarrow> is_int_type t \<and> t \<noteq> BOOL"
  by (auto simp: bounded_type_def)

lemma wrap_exact: "is_int_type t \<Longrightarrow> GetMin t \<le> v \<Longrightarrow> v \<le> GetMax t \<Longrightarrow> wrap t v = v"
  unfolding wrap_def IsTypeSigned_def
  by (cases t) (auto simp: range_defs intro!: take_bit_int_eq_self signed_take_bit_int_eq_self)

lemma wrap_bounded: "bounded_type t \<Longrightarrow> GetMin t \<le> wrap t v \<and> wrap t v \<le> GetMax t"
proof -
  have s: "- (2 ^ n) \<le> signed_take_bit n v" "signed_take_bit n v \<le> 2 ^ n - 1" for n
    using signed_take_bit_int_greater_eq_minus_exp [of n v] signed_take_bit_int_less_exp [of n v] by simp_all
  have u: "0 \<le> take_bit n v" "take_bit n v \<le> 2 ^ n - 1" for n
    using take_bit_int_less_exp [of n v] by simp_all
  assume "bounded_type t"
  then show ?thesis
    unfolding bounded_type_def wrap_def IsTypeSigned_def
    using s [of 7] s [of 15] s [of 31] s [of 63] u [of 8] u [of 16] u [of 32] by (auto simp: range_defs)
qed

lemma representable_type: "representable t v \<Longrightarrow> is_int_type t \<and> t \<noteq> BOOL"
  using bounded_is_int by (auto simp: representable_def)

lemma representable_iff: "representable t v \<longleftrightarrow> is_int_type t \<and> t \<noteq> BOOL \<and> (t = UINT64 \<longrightarrow> wrap t v \<le> GetMax t)"
  by (cases t) (auto simp: representable_def bounded_type_def)

lemma representable_i64 [simp]: "is_int_type t \<Longrightarrow> representable t (i64 v) = representable t v"
  by (cases "t = BOOL") (simp_all add: representable_iff wrap_i64)

lemma wrap_in_type: "representable t v \<Longrightarrow> GetMin t \<le> wrap t v \<and> wrap t v \<le> GetMax t"
  using wrap_bounded [of t v] by (auto simp: representable_def wrap_def IsTypeSigned_def)

lemma FitInType_wf: "is_int_type t \<Longrightarrow> wf_range r \<Longrightarrow> wf_range (FitInType r t)"
  using GetMin_GetMax [of t] by (simp add: FitInType_def Let_def)

lemma FitInType_in_type:
  "is_int_type t \<Longrightarrow> wf_range r \<Longrightarrow> GetMin t \<le> GetLeft (FitInType r t) \<and> GetRight (FitInType r t) \<le> GetMax t"
  using GetMin_GetMax [of t] by (auto simp: FitInType_def Let_def)

lemma FitInType_sound:
  assumes "representable t v" "in_range v r"
  shows "in_range (wrap t v) (FitInType r t)"
  using assms wrap_in_type [OF assms(1)] wrap_exact [of t v] representable_type [OF assms(1)]
  by (auto simp: FitInType_def Let_def in_range_def)

section \<open>The contract of a range operation\<close>

locale range_transfer =
  fixes f :: "ir_type \<Rightarrow> int \<Rightarrow> int \<Rightarrow> int"
    and F :: "ir_type \<Rightarrow> BoundsRange \<Rightarrow> BoundsRange \<Rightarrow> BoundsRange"
    and pre :: "int \<Rightarrow> int \<Rightarrow> BoundsRange \<Rightarrow> BoundsRange \<Rightarrow> bool"
  assumes keeps_wf: "is_int_type t \<Longrightarrow> wf_range a \<Longrightarrow> wf_range b \<Longrightarrow> wf_range (F t a b)"
    and sound: "\<lbrakk>is_int_type t; wf_range a; wf_range b; in_range x a; in_range y b; pre x y a b\<rbrakk>
      \<Longrightarrow> in_range (i64 (f t x y)) (F t a b)"
begin

lemma sound_at_type:
  assumes "is_int_type t" "t \<noteq> BOOL" "wf_range a" "wf_range b" "in_range x a" "in_range y b" "pre x y a b"
  shows "covers t (f t x y) (F t a b)"
  using FitInType_sound [of t "i64 (f t x y)", OF _ sound [OF assms(1) assms(3-)]] assms(1,2)
  by (simp add: covers_def representable_iff wrap_i64)

lemma exact_at_type:
  assumes "is_int_type t" "t \<noteq> BOOL" "wf_range a" "wf_range b" "in_range x a" "in_range y b" "pre x y a b"
    "\<not> CanOverflow (F t a b) t"
  shows "wrap t (f t x y) = i64 (f t x y)"
proof -
  have "in_range (i64 (f t x y)) (F t a b)"
    using sound assms by blast
  then have "wrap t (i64 (f t x y)) = i64 (f t x y)"
    using assms(1,8) by (intro wrap_exact) (auto simp: CanOverflow_def in_range_def)
  then show ?thesis using assms(1,2) by (simp add: wrap_i64)
qed

lemma wf_at_type: "is_int_type t \<Longrightarrow> wf_range a \<Longrightarrow> wf_range b \<Longrightarrow> wf_range (FitInType (F t a b) t)"
  by (simp add: FitInType_wf keeps_wf)

end

section \<open>Addition, subtraction\<close>

lemma AddWithOverflowCheck_Some:
  assumes "MIN_RANGE_VALUE \<le> a" "a \<le> MAX_RANGE_VALUE" "MIN_RANGE_VALUE \<le> b" "b \<le> MAX_RANGE_VALUE"
  shows "AddWithOverflowCheck a b =
    (if MIN_RANGE_VALUE \<le> a + b \<and> a + b \<le> MAX_RANGE_VALUE then Some (a + b) else None)"
  using assms by (auto simp: AddWithOverflowCheck_def)

lemma Range_Add_eq:
  assumes "wf_range a" "wf_range b"
  shows "Range_Add a b =
    (if MIN_RANGE_VALUE \<le> GetLeft a + GetLeft b \<and> GetRight a + GetRight b \<le> MAX_RANGE_VALUE
     then mk_range (GetLeft a + GetLeft b) (GetRight a + GetRight b) else full_range)"
  using assms unfolding Range_Add_def wf_range_def
  by (subst (1 2) AddWithOverflowCheck_Some) auto

interpretation add_op: range_transfer "\<lambda>t x y. x + y" "\<lambda>t. Range_Add" "\<lambda>x y a b. True"
proof unfold_locales
  fix a b assume "wf_range a" "wf_range b"
  then show "wf_range (Range_Add a b)" by (simp add: Range_Add_eq) (auto simp: wf_range_def)
next
  fix a b x y assume a: "wf_range a" "wf_range b" "in_range x a" "in_range y b"
  show "in_range (i64 (x + y)) (Range_Add a b)"
  proof (cases "MIN_RANGE_VALUE \<le> GetLeft a + GetLeft b \<and> GetRight a + GetRight b \<le> MAX_RANGE_VALUE")
    case True
    with a have "i64 (x + y) = x + y" by (intro i64_in) (auto simp: in_range_def)
    with a True show ?thesis by (auto simp: Range_Add_eq in_range_def)
  qed (use a in \<open>auto simp: Range_Add_eq\<close>)
qed

lemma Range_Sub_eq:
  assumes "wf_range a" "wf_range b"
  defines "nr \<equiv> (if GetRight b = MIN_RANGE_VALUE then MAX_RANGE_VALUE else - GetRight b)"
    and "nl \<equiv> (if GetLeft b = MIN_RANGE_VALUE then MAX_RANGE_VALUE else - GetLeft b)"
  shows "Range_Sub a b =
    (if MIN_RANGE_VALUE \<le> GetLeft a + nr \<and> GetRight a + nl \<le> MAX_RANGE_VALUE
     then mk_range (GetLeft a + nr) (GetRight a + nl) else full_range)" and "nr \<le> nl"
proof -
  have n: "MIN_RANGE_VALUE \<le> nr" "nr \<le> nl" "nl \<le> MAX_RANGE_VALUE"
    using assms(1,2) by (auto simp: nr_def nl_def wf_range_def MIN_RANGE_VALUE_def MAX_RANGE_VALUE_def)
  then show "nr \<le> nl" by simp
  show "Range_Sub a b =
    (if MIN_RANGE_VALUE \<le> GetLeft a + nr \<and> GetRight a + nl \<le> MAX_RANGE_VALUE
     then mk_range (GetLeft a + nr) (GetRight a + nl) else full_range)"
    using assms(1) n unfolding Range_Sub_def Let_def nr_def [symmetric] nl_def [symmetric] wf_range_def
    by (subst (1 2) AddWithOverflowCheck_Some) auto
qed

interpretation sub_op: range_transfer "\<lambda>t x y. x - y" "\<lambda>t. Range_Sub" "\<lambda>x y a b. y \<noteq> MIN_RANGE_VALUE"
proof unfold_locales
  fix a b assume a: "wf_range a" "wf_range b"
  with Range_Sub_eq(2) [OF a] show "wf_range (Range_Sub a b)" unfolding Range_Sub_eq(1) [OF a] by (auto simp: wf_range_def)
next
  fix a b x y assume a: "wf_range a" "wf_range b" "in_range x a" "in_range y b" "y \<noteq> MIN_RANGE_VALUE"
  have n: "(if GetRight b = MIN_RANGE_VALUE then MAX_RANGE_VALUE else - GetRight b) \<le> - y"
    "- y \<le> (if GetLeft b = MIN_RANGE_VALUE then MAX_RANGE_VALUE else - GetLeft b)"
    using a by (auto simp: wf_range_def in_range_def MIN_RANGE_VALUE_def MAX_RANGE_VALUE_def)
  have "in_range (i64 (x - y)) (if MIN_RANGE_VALUE \<le> GetLeft a + l \<and> GetRight a + r \<le> MAX_RANGE_VALUE
      then mk_range (GetLeft a + l) (GetRight a + r) else full_range)" if "l \<le> - y" "- y \<le> r" for l r
  proof (cases "MIN_RANGE_VALUE \<le> GetLeft a + l \<and> GetRight a + r \<le> MAX_RANGE_VALUE")
    case True
    with a that have "i64 (x - y) = x - y" by (intro i64_in) (auto simp: in_range_def)
    with True a that show ?thesis by (auto simp: in_range_def)
  qed auto
  from this [OF n] show "in_range (i64 (x - y)) (Range_Sub a b)" unfolding Range_Sub_eq(1) [OF a(1,2)] .
qed

section \<open>Negation, absolute value\<close>

interpretation neg_op: range_transfer "\<lambda>t x y. - x" "\<lambda>t a b. Range_Neg a" "\<lambda>x y a b. x \<noteq> MIN_RANGE_VALUE"
proof unfold_locales
  fix a b assume "wf_range a" "wf_range b"
  then show "wf_range (Range_Neg a)" by (auto simp: Range_Neg_def Let_def wf_range_def MIN_RANGE_VALUE_def MAX_RANGE_VALUE_def)
next
  fix a b x y assume a: "wf_range a" "in_range x a" "x \<noteq> MIN_RANGE_VALUE"
  then have "i64 (- x) = - x" by (intro i64_in) (auto simp: in_range_def wf_range_def MIN_RANGE_VALUE_def MAX_RANGE_VALUE_def)
  with a show "in_range (i64 (- x)) (Range_Neg a)"
    by (auto simp: Range_Neg_def Let_def in_range_def wf_range_def MIN_RANGE_VALUE_def MAX_RANGE_VALUE_def)
qed

interpretation abs_op: range_transfer "\<lambda>t x y. \<bar>x\<bar>" "\<lambda>t a b. Range_Abs a" "\<lambda>x y a b. x \<noteq> MIN_RANGE_VALUE"
proof unfold_locales
  fix a b assume "wf_range a" "wf_range b"
  then show "wf_range (Range_Abs a)" by (auto simp: Range_Abs_def Let_def wf_range_def MIN_RANGE_VALUE_def MAX_RANGE_VALUE_def)
next
  fix a b x y assume a: "wf_range a" "in_range x a" "x \<noteq> MIN_RANGE_VALUE"
  then have "i64 \<bar>x\<bar> = \<bar>x\<bar>" by (intro i64_in) (auto simp: in_range_def wf_range_def MIN_RANGE_VALUE_def MAX_RANGE_VALUE_def)
  moreover have "GetRight a \<noteq> MIN_RANGE_VALUE" using a by (auto simp: wf_range_def in_range_def)
  moreover have "\<bar>x\<bar> \<le> MAX_RANGE_VALUE" using a by (auto simp: wf_range_def in_range_def MIN_RANGE_VALUE_def MAX_RANGE_VALUE_def)
  moreover have "\<not> 0 \<le> MIN_RANGE_VALUE" by (simp add: MIN_RANGE_VALUE_def)
  ultimately show "in_range (i64 \<bar>x\<bar>) (Range_Abs a)" using a by (auto simp: Range_Abs_def Let_def in_range_def wf_range_def)
qed

section \<open>Multiplication\<close>

lemma MulWithOverflowCheck_exact:
  assumes a: "MIN_RANGE_VALUE \<le> a" "a \<le> MAX_RANGE_VALUE" and b: "MIN_RANGE_VALUE \<le> b" "b \<le> MAX_RANGE_VALUE"
    and pre: "\<not> (a = MIN_RANGE_VALUE \<and> b = - 1)" "\<not> (b = MIN_RANGE_VALUE \<and> a = - 1)"
    and m: "MulWithOverflowCheck a b = Some m"
  shows "m = a * b"
proof (cases "a = 0 \<or> b = 0")
  case False
  then have pos: "0 < std_abs a" "0 < std_abs b" by (auto simp: std_abs_def)
  from m False have le: "std_abs a \<le> MAX_RANGE_VALUE div std_abs b" and "m = i64 (a * b)"
    using pos by (auto simp: MulWithOverflowCheck_def Let_def signed_divide_int_def split: if_splits)
  have "std_abs a * std_abs b \<le> MAX_RANGE_VALUE div std_abs b * std_abs b"
    using le pos by (intro mult_right_mono) auto
  also have "\<dots> \<le> MAX_RANGE_VALUE" using pos by (simp add: minus_mod_eq_div_mult [symmetric])
  finally have p: "std_abs a * std_abs b \<le> MAX_RANGE_VALUE" .
  have "MIN_RANGE_VALUE \<le> a * b \<and> a * b \<le> MAX_RANGE_VALUE"
  proof (cases "a = MIN_RANGE_VALUE \<or> b = MIN_RANGE_VALUE")
    case True
    then show ?thesis
    proof
      assume a: "a = MIN_RANGE_VALUE"
      then have "MAX_RANGE_VALUE * std_abs b \<le> MAX_RANGE_VALUE * 1" using p by (simp add: std_abs_def)
      then have "std_abs b \<le> 1" unfolding mult_le_cancel_left_pos [OF MIN_MAX(3)] .
      with pos have "b = 1 \<or> b = - 1" by (auto simp: std_abs_def MAX_RANGE_VALUE_def split: if_splits)
      with pre a show ?thesis by auto
    next
      assume b: "b = MIN_RANGE_VALUE"
      then have "MAX_RANGE_VALUE * std_abs a \<le> MAX_RANGE_VALUE * 1" using p by (simp add: std_abs_def mult.commute)
      then have "std_abs a \<le> 1" unfolding mult_le_cancel_left_pos [OF MIN_MAX(3)] .
      with pos have "a = 1 \<or> a = - 1" by (auto simp: std_abs_def MAX_RANGE_VALUE_def split: if_splits)
      with pre b show ?thesis by auto
    qed
  next
    case no: False
    then have "\<bar>a * b\<bar> \<le> MAX_RANGE_VALUE" using p by (simp add: std_abs_def abs_mult)
    then show ?thesis by (auto simp: MIN_RANGE_VALUE_def MAX_RANGE_VALUE_def)
  qed
  then show ?thesis using \<open>m = _\<close> by simp
qed (use m in \<open>auto simp: MulWithOverflowCheck_def\<close>)


lemma MulWithOverflowCheck_bounds: "MulWithOverflowCheck a b = Some m \<Longrightarrow> MIN_RANGE_VALUE \<le> m \<and> m \<le> MAX_RANGE_VALUE"
  by (auto simp: MulWithOverflowCheck_def Let_def split: if_splits)

lemma interval_mult:
  fixes x y :: int
  assumes "l \<le> x" "x \<le> r" "l' \<le> y" "y \<le> r'"
  shows "min (l * l') (min (l * r') (min (r * l') (r * r'))) \<le> x * y"
    and "x * y \<le> max (l * l') (max (l * r') (max (r * l') (r * r')))"
proof -
  have f: "min (l * w) (r * w) \<le> x * w \<and> x * w \<le> max (l * w) (r * w)" for w
    using assms(1,2) by (cases "0 \<le> w") (auto simp: mult_right_mono mult_right_mono_neg le_max_iff_disj min_le_iff_disj)
  have g: "min (u * l') (u * r') \<le> u * y \<and> u * y \<le> max (u * l') (u * r')" for u
    using assms(3,4) by (cases "0 \<le> u") (auto simp: mult_left_mono mult_left_mono_neg le_max_iff_disj min_le_iff_disj)
  from g [of x] f [of l'] f [of r']
  show "min (l * l') (min (l * r') (min (r * l') (r * r'))) \<le> x * y"
    and "x * y \<le> max (l * l') (max (l * r') (max (r * l') (r * r')))"
    by (auto simp: min_le_iff_disj le_max_iff_disj)
qed

definition mul_exact :: "BoundsRange \<Rightarrow> BoundsRange \<Rightarrow> bool" where
  "mul_exact a b \<longleftrightarrow>
     \<not> (GetLeft a = MIN_RANGE_VALUE \<and> (GetLeft b = - 1 \<or> GetRight b = - 1)) \<and>
     \<not> (GetLeft b = MIN_RANGE_VALUE \<and> (GetLeft a = - 1 \<or> GetRight a = - 1))"

lemma Range_Mul_wf: "wf_range (Range_Mul a b)"
proof -
  have "wf_range (mk_range (min m1 (min m2 (min m3 m4))) (max m1 (max m2 (max m3 m4))))"
    if "MulWithOverflowCheck (GetLeft a) (GetLeft b) = Some m1" "MulWithOverflowCheck (GetLeft a) (GetRight b) = Some m2"
      "MulWithOverflowCheck (GetRight a) (GetLeft b) = Some m3" "MulWithOverflowCheck (GetRight a) (GetRight b) = Some m4"
    for m1 m2 m3 m4
    using that [THEN MulWithOverflowCheck_bounds] by (auto simp: min_le_iff_disj le_max_iff_disj)
  then show ?thesis by (simp add: Range_Mul_def split: option.split)
qed

lemma Range_Mul_sound:
  assumes a: "wf_range a" and b: "wf_range b" and x: "in_range x a" and y: "in_range y b" and e: "mul_exact a b"
  shows "in_range (i64 (x * y)) (Range_Mul a b)"
proof (cases "Range_Mul a b = full_range")
  case False
  then obtain m1 m2 m3 m4 where
    m: "MulWithOverflowCheck (GetLeft a) (GetLeft b) = Some m1" "MulWithOverflowCheck (GetLeft a) (GetRight b) = Some m2"
      "MulWithOverflowCheck (GetRight a) (GetLeft b) = Some m3" "MulWithOverflowCheck (GetRight a) (GetRight b) = Some m4"
    by (auto simp: Range_Mul_def split: option.splits)
  note ex = MulWithOverflowCheck_exact
  have p: "m1 = GetLeft a * GetLeft b" "m2 = GetLeft a * GetRight b" "m3 = GetRight a * GetLeft b" "m4 = GetRight a * GetRight b"
    by (rule ex [OF _ _ _ _ _ _ m(1)] ex [OF _ _ _ _ _ _ m(2)] ex [OF _ _ _ _ _ _ m(3)] ex [OF _ _ _ _ _ _ m(4)];
        use a b e in \<open>auto simp: wf_range_def mul_exact_def\<close>)+
  have i: "min m1 (min m2 (min m3 m4)) \<le> x * y" "x * y \<le> max m1 (max m2 (max m3 m4))"
    unfolding p using x y interval_mult [of "GetLeft a" x "GetRight a" "GetLeft b" y "GetRight b"] by (auto simp: in_range_def)
  have "wf_range (Range_Mul a b)" by (rule Range_Mul_wf)
  moreover have "in_range (x * y) (Range_Mul a b)" using i m by (simp add: Range_Mul_def)
  ultimately show ?thesis by simp
qed simp

interpretation mul_op: range_transfer "\<lambda>t x y. x * y" "\<lambda>t. Range_Mul" "\<lambda>x y. mul_exact"
  by unfold_locales (simp_all add: Range_Mul_wf Range_Mul_sound)

section \<open>Division and remainder\<close>

lemma sdiv_mono: "(0::int) < c \<Longrightarrow> x \<le> y \<Longrightarrow> x sdiv c \<le> y sdiv c"
proof -
  assume c: "0 < c" and le: "x \<le> y"
  consider "0 \<le> x" | "x < 0" "0 \<le> y" | "y < 0" by linarith
  then show ?thesis
  proof cases
    case 1
    with le c show ?thesis by (cases "x = 0") (simp_all add: signed_divide_int_def sgn_if zdiv_mono1 pos_imp_zdiv_nonneg_iff)
  next
    case 2
    then have "x sdiv c \<le> 0" "0 \<le> y sdiv c" using c by (simp_all add: signed_divide_int_def sgn_if pos_imp_zdiv_nonneg_iff)
    then show ?thesis by linarith
  next
    case 3
    with le have "- y div c \<le> - x div c" using c by (intro zdiv_mono1) simp_all
    with 3 le c show ?thesis by (simp add: signed_divide_int_def sgn_if)
  qed
qed

lemma sdiv_uminus: "x sdiv - c = - (x sdiv c)" for x c :: int
  by (simp add: signed_divide_int_def sgn_minus)

lemma sdiv_antimono: "(c::int) < 0 \<Longrightarrow> x \<le> y \<Longrightarrow> y sdiv c \<le> x sdiv c"
  using sdiv_mono [of "- c" x y] sdiv_uminus [of x "- c"] sdiv_uminus [of y "- c"] by simp

lemma sdiv_abs_le: "\<bar>x sdiv c\<bar> \<le> \<bar>x\<bar>" for x c :: int
  using sdiv_int_range [of x c] by auto

lemma sdiv_in:
  assumes "MIN_RANGE_VALUE \<le> x" "x \<le> MAX_RANGE_VALUE" "\<not> (x = MIN_RANGE_VALUE \<and> c = - 1)"
  shows "MIN_RANGE_VALUE \<le> x sdiv c \<and> x sdiv c \<le> MAX_RANGE_VALUE"
proof (cases "x = MIN_RANGE_VALUE")
  case False
  with assms have "\<bar>x\<bar> \<le> MAX_RANGE_VALUE" by (auto simp: MIN_RANGE_VALUE_def MAX_RANGE_VALUE_def)
  with sdiv_abs_le [of x c] show ?thesis by (auto simp: MIN_RANGE_VALUE_def MAX_RANGE_VALUE_def)
next
  case True
  show ?thesis
  proof (cases "c \<le> 0")
    case False
    then have "x sdiv c \<le> 0" using True by (simp add: signed_divide_int_def sgn_if pos_imp_zdiv_nonneg_iff)
    with sdiv_abs_le [of x c] True show ?thesis by (auto simp: MIN_RANGE_VALUE_def MAX_RANGE_VALUE_def)
  next
    case c: True
    show ?thesis
    proof (cases "c = 0")
      case no: False
      with c assms(3) True have "2 \<le> - c" by auto
      then have "- x div - c \<le> - x div 2" using True by (intro zdiv_mono2) (auto simp: MIN_RANGE_VALUE_def)
      moreover have "0 \<le> - x div - c" using \<open>2 \<le> - c\<close> True by (simp add: pos_imp_zdiv_nonneg_iff MIN_RANGE_VALUE_def)
      moreover have "x sdiv c = - x div - c" using True no c by (simp add: signed_divide_int_def sgn_if)
      ultimately show ?thesis using True by (simp add: MIN_RANGE_VALUE_def MAX_RANGE_VALUE_def)
    qed simp
  qed
qed

lemma Range_Div_eq:
  assumes "GetLeft b = GetRight b" "GetLeft b \<noteq> 0" "wf_range a" "\<not> (GetLeft a = MIN_RANGE_VALUE \<and> GetLeft b = - 1)"
  shows "Range_Div a b = mk_range (min (GetLeft a sdiv GetLeft b) (GetRight a sdiv GetLeft b))
     (max (GetLeft a sdiv GetLeft b) (GetRight a sdiv GetLeft b))"
  using assms by (auto simp: Range_Div_def DivWithOverflowCheck_def wf_range_def)

lemma Range_Div_full:
  assumes "\<not> (GetLeft b = GetRight b \<and> GetLeft b \<noteq> 0) \<or> GetLeft a = MIN_RANGE_VALUE \<and> GetLeft b = - 1"
  shows "Range_Div a b = full_range"
  using assms by (auto simp: Range_Div_def DivWithOverflowCheck_def)

interpretation div_op: range_transfer "\<lambda>t x y. x sdiv y" "\<lambda>t. Range_Div" "\<lambda>x y a b. True"
proof unfold_locales
  fix a b assume a: "wf_range a" "wf_range b"
  show "wf_range (Range_Div a b)"
  proof (cases "\<not> (GetLeft b = GetRight b \<and> GetLeft b \<noteq> 0) \<or> GetLeft a = MIN_RANGE_VALUE \<and> GetLeft b = - 1")
    case False
    with a sdiv_in [of "GetLeft a" "GetLeft b"] sdiv_in [of "GetRight a" "GetLeft b"] show ?thesis
      by (subst Range_Div_eq) (auto simp: wf_range_def min_le_iff_disj le_max_iff_disj)
  qed (simp add: Range_Div_full)
next
  fix a b x y assume a: "wf_range a" "wf_range b" "in_range x a" "in_range y b"
  show "in_range (i64 (x sdiv y)) (Range_Div a b)"
  proof (cases "\<not> (GetLeft b = GetRight b \<and> GetLeft b \<noteq> 0) \<or> GetLeft a = MIN_RANGE_VALUE \<and> GetLeft b = - 1")
    case False
    with a have y: "y = GetLeft b" by (auto simp: in_range_def)
    have "i64 (x sdiv y) = x sdiv y"
      using sdiv_in [of x y] a False y by (intro i64_in) (auto simp: in_range_def wf_range_def)
    moreover have "in_range (x sdiv y) (Range_Div a b)"
      using a False y sdiv_mono [of y] sdiv_antimono [of y]
      by (subst Range_Div_eq) (cases "0 < y"; auto simp: in_range_def min_le_iff_disj le_max_iff_disj)+
    ultimately show ?thesis by simp
  qed (simp add: Range_Div_full)
qed
lemma smod_bounds:
  assumes "(y::int) \<noteq> 0"
  shows "\<bar>x smod y\<bar> \<le> \<bar>y\<bar> - 1" "\<bar>x smod y\<bar> \<le> \<bar>x\<bar>" "0 \<le> x \<Longrightarrow> 0 \<le> x smod y" "x \<le> 0 \<Longrightarrow> x smod y \<le> 0"
proof -
  have m: "0 \<le> \<bar>x\<bar> mod \<bar>y\<bar>" "\<bar>x\<bar> mod \<bar>y\<bar> < \<bar>y\<bar>" using assms by simp_all
  have l: "\<bar>x\<bar> mod \<bar>y\<bar> \<le> \<bar>x\<bar>" by (rule zmod_le_nonneg_dividend) simp
  have a: "\<bar>x smod y\<bar> \<le> \<bar>x\<bar> mod \<bar>y\<bar>" using m by (simp add: smod_int_alt_def abs_mult sgn_if)
  from a m l show "\<bar>x smod y\<bar> \<le> \<bar>y\<bar> - 1" "\<bar>x smod y\<bar> \<le> \<bar>x\<bar>" by linarith+
  show "0 \<le> x \<Longrightarrow> 0 \<le> x smod y" "x \<le> 0 \<Longrightarrow> x smod y \<le> 0"
    using m by (auto simp: smod_int_alt_def sgn_if)
qed

definition max_mod :: "BoundsRange \<Rightarrow> int" where
  "max_mod b = (let m = (if GetRight b > 0 then GetRight b - 1 else 0)
     in if GetLeft b = MIN_RANGE_VALUE then MAX_RANGE_VALUE else if GetLeft b < 0 then max m (- GetLeft b - 1) else m)"

lemma max_mod_props:
  assumes "wf_range b"
  shows "0 \<le> max_mod b" "max_mod b \<le> MAX_RANGE_VALUE" "in_range y b \<Longrightarrow> y \<noteq> 0 \<Longrightarrow> \<bar>y\<bar> - 1 \<le> max_mod b"
  using assms by (auto simp: max_mod_def Let_def wf_range_def in_range_def MIN_RANGE_VALUE_def MAX_RANGE_VALUE_def)

lemma Range_Mod_eq: "Range_Mod a b = (if max_mod b = 0 then full_range
    else mk_range (if GetLeft a < 0 then max (GetLeft a) (- max_mod b) else 0)
                  (if GetRight a > 0 then min (GetRight a) (max_mod b) else 0))"
  unfolding Range_Mod_def max_mod_def Let_def ..

interpretation mod_op: range_transfer "\<lambda>t x y. x smod y" "\<lambda>t. Range_Mod" "\<lambda>x y a b. y \<noteq> 0"
proof unfold_locales
  fix a b assume a: "wf_range a" "wf_range b"
  with max_mod_props(1,2) [OF a(2)] show "wf_range (Range_Mod a b)"
    by (auto simp: Range_Mod_eq wf_range_def MIN_RANGE_VALUE_def MAX_RANGE_VALUE_def)
next
  fix a b x y assume a: "wf_range a" "wf_range b" "in_range x a" "in_range y b" "y \<noteq> 0"
  note s = smod_bounds [OF a(5), of x] and m = max_mod_props [OF a(2)]
  have le: "\<bar>x smod y\<bar> \<le> max_mod b" using s(1) m(3) [OF a(4,5)] by linarith
  have "i64 (x smod y) = x smod y"
    using le m(2) by (intro i64_in) (auto simp: MIN_RANGE_VALUE_def MAX_RANGE_VALUE_def)
  moreover have "in_range (x smod y) (Range_Mod a b)" if "max_mod b \<noteq> 0"
    using that le s a(3) by (cases "0 \<le> x") (auto simp: Range_Mod_eq in_range_def)
  moreover have "in_range (i64 (x smod y)) (Range_Mod a b)" if "max_mod b = 0"
    using that by (simp add: Range_Mod_eq)
  ultimately show "in_range (i64 (x smod y)) (Range_Mod a b)" by metis
qed

section \<open>Shifts and conjunction\<close>

text \<open>The amount of a shift at a type is reduced modulo the size of the type; \<open>Shr\<close> shifts the unsigned reading.\<close>

definition ir_shl :: "ir_type \<Rightarrow> int \<Rightarrow> int \<Rightarrow> int" where
  "ir_shl t x y = push_bit (shift_amount y t) x"

definition ir_ashr :: "ir_type \<Rightarrow> int \<Rightarrow> int \<Rightarrow> int" where
  "ir_ashr t x y = drop_bit (shift_amount y t) x"

definition ir_shr :: "ir_type \<Rightarrow> int \<Rightarrow> int \<Rightarrow> int" where
  "ir_shr t x y = drop_bit (shift_amount y t) (take_bit (type_bits t) x)"

lemma size_mask_eq: "is_int_type t \<Longrightarrow> t \<noteq> BOOL \<Longrightarrow> size_mask t = type_bits t - 1"
  by (cases t) (simp_all add: size_mask_def GetTypeSize_def ShiftByType_def ShiftByType_int_def)

lemma size_mask_le: "is_int_type t \<Longrightarrow> size_mask t \<le> 63"
  by (cases t) (simp_all add: size_mask_def GetTypeSize_def ShiftByType_def ShiftByType_int_def)

lemma shift_amount_le: "shift_amount y t \<le> size_mask t"
proof -
  have "take_bit 64 y AND int (size_mask t) \<le> int (size_mask t)" by (rule AND_upper2) simp
  then show ?thesis by (simp add: shift_amount_def nat_le_iff)
qed

lemma shift_amount_63: "is_int_type t \<Longrightarrow> shift_amount y t \<le> 63"
  using shift_amount_le [of y t] size_mask_le [of t] by linarith

lemma drop_bit_mono: "x \<le> y \<Longrightarrow> drop_bit n x \<le> drop_bit n y" for x y :: int
  by (simp add: drop_bit_eq_div zdiv_mono1)

lemma drop_bit_bounds: "(m::int) \<le> x \<Longrightarrow> m \<le> 0 \<Longrightarrow> m \<le> drop_bit n x" "x \<le> (k::int) \<Longrightarrow> 0 \<le> k \<Longrightarrow> drop_bit n x \<le> k"
proof -
  assume "m \<le> x" "m \<le> 0"
  then have "drop_bit n m \<le> drop_bit n x" by (intro drop_bit_mono)
  moreover have "m \<le> drop_bit n m"
  proof -
    have "m * 2 ^ n \<le> m * 1" using \<open>m \<le> 0\<close> by (intro mult_left_mono_neg) simp_all
    then have "(m * 2 ^ n) div 2 ^ n \<le> m div 2 ^ n" by (intro zdiv_mono1) simp_all
    then show ?thesis by (simp add: drop_bit_eq_div)
  qed
  ultimately show "m \<le> drop_bit n x" by simp
next
  assume "x \<le> k" "0 \<le> k"
  then have "drop_bit n x \<le> drop_bit n k" by (intro drop_bit_mono)
  moreover have "drop_bit n k \<le> k" using \<open>0 \<le> k\<close> zdiv_mono2 [of k 1 "2 ^ n"] by (simp add: drop_bit_eq_div)
  ultimately show "drop_bit n x \<le> k" by simp
qed

interpretation ashr_op: range_transfer ir_ashr "\<lambda>t a b. Range_AShr a b t" "\<lambda>x y a b. True"
proof unfold_locales
  fix a b t assume "wf_range a" "wf_range b"
  then show "wf_range (Range_AShr a b t)"
    by (auto simp: Range_AShr_def Let_def wf_range_def intro!: drop_bit_mono drop_bit_bounds)
next
  fix t a b x y assume a: "wf_range a" "wf_range b" "in_range x a" "in_range y b"
  show "in_range (i64 (ir_ashr t x y)) (Range_AShr a b t)"
  proof (cases "\<not> IsConst_range b \<or> IsNegative b")
    case False
    then have y: "y = GetLeft b" using a by (auto simp: in_range_def IsConst_range_def)
    have "i64 (ir_ashr t x y) = ir_ashr t x y" using a
      by (intro i64_in) (auto simp: ir_ashr_def in_range_def wf_range_def intro!: drop_bit_bounds)
    with a y False show ?thesis
      by (auto simp: Range_AShr_def Let_def ir_ashr_def in_range_def intro: drop_bit_mono)
  qed (simp add: Range_AShr_def)
qed

lemma i64_push_take: "i64 (push_bit n (take_bit 64 x)) = i64 (push_bit n x)"
  by (rule bit_eqI) (auto simp: bit_signed_take_bit_iff bit_push_bit_iff bit_take_bit_iff min_def)

lemma i64_take: "i64 (take_bit 64 x) = i64 x"
  using i64_push_take [of 0 x] by simp

lemma push_bit_mono: "x \<le> y \<Longrightarrow> push_bit n x \<le> push_bit n y" for x y :: int
  by (simp add: push_bit_eq_mult)

lemma push_bit_in:
  assumes "0 < n" "n \<le> 63" "- (2 ^ (63 - n)) \<le> x" "x < (2 :: int) ^ (63 - n)"
  shows "MIN_RANGE_VALUE \<le> push_bit n x \<and> push_bit n x \<le> MAX_RANGE_VALUE"
proof -
  have e: "(2::int) ^ (63 - n) * 2 ^ n = 2 ^ 63" using assms(2) by (simp flip: power_add)
  have "- (2 ^ (63 - n)) * 2 ^ n \<le> x * 2 ^ n" using assms(3) by (intro mult_right_mono) simp_all
  moreover have "x * 2 ^ n < 2 ^ (63 - n) * 2 ^ n" using assms(4) by (intro mult_strict_right_mono) simp_all
  ultimately show ?thesis unfolding e mult_minus_left push_bit_eq_mult MIN_RANGE_VALUE_def MAX_RANGE_VALUE_def by simp
qed

lemma i64_max_value: "0 < n \<Longrightarrow> i64 (push_bit (64 - n - 1) 1) = 2 ^ (63 - n)"
proof -
  assume "0 < n"
  then have "(2::int) ^ (63 - n) \<le> 2 ^ 62" by (intro power_increasing) simp_all
  then have "(2::int) ^ (63 - n) \<le> MAX_RANGE_VALUE" by (rule order_trans) (simp add: MAX_RANGE_VALUE_def)
  moreover have "MIN_RANGE_VALUE \<le> 2 ^ (63 - n)" by (rule order_trans [OF MIN_MAX(4)]) simp
  ultimately have "i64 (2 ^ (63 - n)) = 2 ^ (63 - n)" by (intro i64_in)
  then show ?thesis by (simp add: push_bit_eq_mult)
qed

lemma Range_Shl_eq:
  fixes b :: BoundsRange
  assumes "is_int_type t"
  defines "n \<equiv> shift_amount (GetLeft b) t"
  shows "Range_Shl a b t =
    (if \<not> IsConst_range b \<or> IsNegative b \<or> 0 < n \<and> (GetLeft a < - (2 ^ (63 - n)) \<or> GetRight a \<ge> 2 ^ (63 - n))
     then full_range else mk_range (i64 (push_bit n (GetLeft a))) (i64 (push_bit n (GetRight a))))"
  unfolding Range_Shl_def Let_def n_def [symmetric] i64_push_take
  by (cases "0 < n") (simp_all only: i64_max_value simp_thms, auto)

lemma shl_exact:
  assumes "is_int_type t" "wf_range a" "in_range x a"
    "\<not> (0 < shift_amount y t \<and> (GetLeft a < - (2 ^ (63 - shift_amount y t)) \<or> GetRight a \<ge> 2 ^ (63 - shift_amount y t)))"
  shows "i64 (push_bit (shift_amount y t) x) = push_bit (shift_amount y t) x"
proof (cases "0 < shift_amount y t")
  case True
  with assms push_bit_in [OF True shift_amount_63 [OF assms(1)], of x] show ?thesis
    by (intro i64_in) (auto simp: in_range_def)
next
  case False
  with assms show ?thesis by simp
qed

lemma shl_ends:
  assumes "is_int_type t" "wf_range a"
    "\<not> (0 < shift_amount y t \<and> (GetLeft a < - (2 ^ (63 - shift_amount y t)) \<or> GetRight a \<ge> 2 ^ (63 - shift_amount y t)))"
  shows "i64 (push_bit (shift_amount y t) (GetLeft a)) = push_bit (shift_amount y t) (GetLeft a)"
    and "i64 (push_bit (shift_amount y t) (GetRight a)) = push_bit (shift_amount y t) (GetRight a)"
  by (rule shl_exact [OF assms(1,2) _ assms(3)]; use assms(2) in \<open>simp add: in_range_def wf_range_def\<close>)+

interpretation shl_op: range_transfer ir_shl "\<lambda>t a b. Range_Shl a b t" "\<lambda>x y a b. True"
proof unfold_locales
  fix t a b assume a: "is_int_type t" "wf_range a" "wf_range b"
  show "wf_range (Range_Shl a b t)"
  proof (cases "Range_Shl a b t = full_range")
    case False
    let ?n = "shift_amount (GetLeft b) t"
    have nf: "\<not> (0 < ?n \<and> (GetLeft a < - (2 ^ (63 - ?n)) \<or> GetRight a \<ge> 2 ^ (63 - ?n)))"
      and r: "Range_Shl a b t = mk_range (i64 (push_bit ?n (GetLeft a))) (i64 (push_bit ?n (GetRight a)))"
      using False unfolding Range_Shl_eq [OF a(1)] by (simp_all split: if_splits)
    have "i64 (push_bit ?n (GetLeft a)) \<le> i64 (push_bit ?n (GetRight a))"
      using shl_ends [OF a(1,2) nf] a(2) by (simp add: push_bit_mono wf_range_def)
    then show ?thesis unfolding r by simp
  qed simp
next
  fix t a b x y assume a: "is_int_type t" "wf_range a" "wf_range b" "in_range x a" "in_range y b"
  show "in_range (i64 (ir_shl t x y)) (Range_Shl a b t)"
  proof (cases "Range_Shl a b t = full_range")
    case False
    then have y: "y = GetLeft b" using a by (auto simp: in_range_def IsConst_range_def Range_Shl_eq split: if_splits)
    let ?n = "shift_amount y t"
    have nf: "\<not> (0 < ?n \<and> (GetLeft a < - (2 ^ (63 - ?n)) \<or> GetRight a \<ge> 2 ^ (63 - ?n)))"
      and r: "Range_Shl a b t = mk_range (i64 (push_bit ?n (GetLeft a))) (i64 (push_bit ?n (GetRight a)))"
      using False unfolding Range_Shl_eq [OF a(1)] y by (simp_all split: if_splits)
    show ?thesis unfolding r shl_ends [OF a(1,2) nf] ir_shl_def shl_exact [OF a(1,2,4) nf] using a by (auto simp: in_range_def intro: push_bit_mono)
  qed simp
qed


lemma drop_63: "MIN_RANGE_VALUE \<le> c \<Longrightarrow> c \<le> MAX_RANGE_VALUE \<Longrightarrow> drop_bit 63 (take_bit 64 c) = 1 \<longleftrightarrow> c < 0"
proof -
  assume c: "MIN_RANGE_VALUE \<le> c" "c \<le> MAX_RANGE_VALUE"
  show ?thesis
  proof (cases "c < 0")
    case True
    have "take_bit 64 c = c + 2 ^ 64" using c True
      unfolding take_bit_eq_mod by (intro int_mod_pos_eq [where q = "- 1"]) (simp_all add: MIN_RANGE_VALUE_def)
    moreover have "(c + 2 ^ 64) div 2 ^ 63 = 1" using c True
      by (intro int_div_pos_eq [where r = "c + 2 ^ 63"]) (simp_all add: MIN_RANGE_VALUE_def)
    ultimately show ?thesis using True by (simp add: drop_bit_eq_div)
  next
    case False
    have "take_bit 64 c = c" using c False by (intro take_bit_int_eq_self) (simp_all add: MAX_RANGE_VALUE_def)
    moreover have "c div 2 ^ 63 = 0" using c False by (simp add: MAX_RANGE_VALUE_def)
    ultimately show ?thesis using False by (simp add: drop_bit_eq_div)
  qed
qed

interpretation and_op: range_transfer "\<lambda>t x y. x AND y" "\<lambda>t. Range_And" "\<lambda>x y a b. True"
proof unfold_locales
  fix a b assume a: "wf_range a" "wf_range b"
  have "0 \<le> i64 (take_bit 64 (GetLeft b))" if "\<not> GetLeft b < 0"
    using that a by (simp add: i64_take wf_range_def)
  with a drop_63 [of "GetLeft b"] show "wf_range (Range_And a b)"
    by (auto simp: Range_And_def Let_def wf_range_def)
next
  fix t a b x y assume a: "wf_range a" "wf_range b" "in_range x a" "in_range y b"
  show "in_range (i64 (x AND y)) (Range_And a b)"
  proof (cases "\<not> IsConst_range b \<or> GetLeft b < 0")
    case True
    then show ?thesis using a drop_63 [of "GetLeft b"] by (auto simp: Range_And_def Let_def wf_range_def)
  next
    case False
    then have y: "y = GetLeft b" "0 \<le> y" using a by (auto simp: in_range_def IsConst_range_def)
    have l: "0 \<le> x AND y" "x AND y \<le> y" using y by (simp_all add: AND_upper2)
    then have "i64 (x AND y) = x AND y" using a y by (intro i64_in) (auto simp: wf_range_def in_range_def intro: order_trans [OF MIN_MAX(4)])
    moreover have "Range_And a b = mk_range 0 y" using False a y drop_63 [of "GetLeft b"]
      by (auto simp: Range_And_def Let_def wf_range_def i64_take)
    ultimately show ?thesis using l by simp
  qed
qed

lemma take_64_neg: "MIN_RANGE_VALUE \<le> c \<Longrightarrow> c < 0 \<Longrightarrow> take_bit 64 c = c + 2 ^ 64"
  unfolding take_bit_eq_mod by (intro int_mod_pos_eq [where q = "- 1"]) (simp_all add: MIN_RANGE_VALUE_def)

lemma take_64_nonneg: "0 \<le> c \<Longrightarrow> c \<le> MAX_RANGE_VALUE \<Longrightarrow> take_bit 64 c = c"
  by (intro take_bit_int_eq_self) (simp_all add: MAX_RANGE_VALUE_def)

text \<open>A logical shift by at least one bit of a 64-bit word fits a non-negative \<^verbatim>\<open>int64_t\<close>.\<close>

lemma shr_in:
  fixes c :: int
  assumes "0 < n"
  shows "0 \<le> drop_bit n (take_bit 64 c)" "drop_bit n (take_bit 64 c) \<le> drop_bit n (mask 64)"
    "drop_bit n (mask 64 :: int) \<le> MAX_RANGE_VALUE"
proof -
  show "0 \<le> drop_bit n (take_bit 64 c)" by (simp only: drop_bit_nonnegative_int_iff take_bit_nonnegative)
  have "take_bit 64 c < 2 ^ 64" by (rule take_bit_int_less_exp)
  then have "take_bit 64 c \<le> mask 64" by (simp add: mask_eq_exp_minus_1)
  then show "drop_bit n (take_bit 64 c) \<le> drop_bit n (mask 64)" by (rule drop_bit_mono)
  have "drop_bit n (mask 64 :: int) \<le> drop_bit 1 (mask 64)"
    unfolding drop_bit_eq_div using assms
    by (intro zdiv_mono2) (simp_all add: mask_eq_exp_minus_1 self_le_power)
  then show "drop_bit n (mask 64 :: int) \<le> MAX_RANGE_VALUE"
    by (simp add: drop_bit_eq_div mask_eq_exp_minus_1 MAX_RANGE_VALUE_def)
qed

lemma Range_Shr_wf:
  assumes "is_int_type t" "wf_range a" "wf_range b"
  shows "wf_range (Range_Shr a b t)"
proof -
  define n where "n = shift_amount (GetLeft b) t"
  define m where "m = FitInType a t"
  have m: "wf_range m" unfolding m_def using assms by (intro FitInType_wf)
  have "wf_range (mk_range 0 (i64 (drop_bit n (mask 64))))" if "0 < n"
    using shr_in(3) [OF that] order_trans [OF shr_in(1,2) [OF that]] that by (subst i64_in) (auto intro: order_trans [OF MIN_MAX(4)])
  moreover have "wf_range (mk_range (i64 (drop_bit n (take_bit 64 (GetLeft m)))) (i64 (drop_bit n (take_bit 64 (GetRight m)))))"
    if "\<not> (GetLeft m < 0 \<and> GetRight m \<ge> 0 \<and> n > 0)"
  proof (cases "n = 0")
    case True
    with m show ?thesis by (simp add: i64_take wf_range_def)
  next
    case False
    have "take_bit 64 (GetLeft m) \<le> take_bit 64 (GetRight m)"
      using that False m by (cases "GetLeft m < 0"; cases "GetRight m < 0") (auto simp: take_64_neg take_64_nonneg wf_range_def)
    then have "drop_bit n (take_bit 64 (GetLeft m)) \<le> drop_bit n (take_bit 64 (GetRight m))" by (rule drop_bit_mono)
    moreover have "i64 (drop_bit n (take_bit 64 c)) = drop_bit n (take_bit 64 c)" for c
      using False shr_in(1,2) [of n c] shr_in(3) [of n] by (intro i64_in) (auto intro: order_trans order_trans [OF MIN_MAX(4)])
    ultimately show ?thesis by (metis i64_bounds wf_mk_range)
  qed
  ultimately show ?thesis unfolding Range_Shr_def Let_def n_def [symmetric] m_def [symmetric] by auto
qed

lemma shr_large: "n < 32 \<Longrightarrow> MIN_RANGE_VALUE \<le> c \<Longrightarrow> c < 0 \<Longrightarrow> 2 ^ 32 \<le> drop_bit n (take_bit 64 c)"
proof -
  assume n: "n < 32" and c: "MIN_RANGE_VALUE \<le> c" "c < 0"
  have "(2::int) ^ 32 = 2 ^ 63 div 2 ^ 31" by simp
  also have "\<dots> \<le> 2 ^ 63 div 2 ^ n" using n power_increasing [of n 31 "2 :: int"] by (intro zdiv_mono2) simp_all
  also have "\<dots> \<le> take_bit 64 c div 2 ^ n" using c by (intro zdiv_mono1) (simp_all add: take_64_neg MIN_RANGE_VALUE_def)
  finally show ?thesis by (simp add: drop_bit_eq_div)
qed


lemma wrap_take_bit: "is_int_type t \<Longrightarrow> t \<noteq> BOOL \<Longrightarrow> wrap t (take_bit (type_bits t) x) = wrap t x"
  unfolding wrap_def IsTypeSigned_def
  by (cases t) (auto simp: signed_take_bit_take_bit)

lemma FitInType_unfit:
  assumes "representable t v" "GetMin t \<le> GetLeft r \<and> GetLeft r \<le> GetMax t \<and> GetMin t \<le> GetRight r \<and> GetRight r \<le> GetMax t \<Longrightarrow> in_range (wrap t v) r"
  shows "in_range (wrap t v) (FitInType r t)"
  using assms wrap_in_type [OF assms(1)] by (auto simp: FitInType_def Let_def in_range_def not_less)

lemma FitInType_keeps: "GetMin t \<le> x \<Longrightarrow> x \<le> GetMax t \<Longrightarrow> in_range x r \<Longrightarrow> in_range x (FitInType r t)"
  by (simp add: FitInType_def Let_def in_range_def)

lemma small_type:
  "is_int_type t \<Longrightarrow> t \<notin> {BOOL, INT64, UINT64} \<Longrightarrow> GetMax t < 2 ^ 32 \<and> size_mask t \<le> 31"
  by (cases t) (auto simp: size_mask_def GetTypeSize_def ShiftByType_def ShiftByType_int_def)

lemma shr_nonneg:
  assumes "is_int_type t" "t \<noteq> BOOL" "0 \<le> x" "x \<le> GetMax t"
  shows "ir_shr t x y = drop_bit (shift_amount y t) x" "wrap t (ir_shr t x y) = drop_bit (shift_amount y t) x"
proof -
  have "GetMax t < 2 ^ type_bits t" using assms(1,2) by (cases t) (auto simp: MAX_RANGE_VALUE_def)
  then have "take_bit (type_bits t) x = x" using assms by (intro take_bit_int_eq_self) auto
  then show e: "ir_shr t x y = drop_bit (shift_amount y t) x" by (simp add: ir_shr_def)
  have "GetMin t \<le> 0" using assms(1) by (cases t) (auto simp: MIN_RANGE_VALUE_def)
  moreover have "drop_bit (shift_amount y t) x \<le> x" using drop_bit_bounds(2) [of x x] assms(3) by simp
  moreover have "0 \<le> drop_bit (shift_amount y t) x" using assms(3) by simp
  ultimately have "GetMin t \<le> drop_bit (shift_amount y t) x" "drop_bit (shift_amount y t) x \<le> GetMax t"
    using assms(4) by linarith+
  then show "wrap t (ir_shr t x y) = drop_bit (shift_amount y t) x" unfolding e by (rule wrap_exact [OF assms(1)])
qed

lemma shr_representable:
  assumes "is_int_type t" "t \<noteq> BOOL" "GetMin t \<le> x" "x \<le> GetMax t"
  shows "representable t (ir_shr t x y)"
proof (cases "t = UINT64")
  case True
  with assms shr_nonneg(2) [of t x y] drop_bit_bounds(2) [of x "GetMax t" "shift_amount y t"] show ?thesis
    by (simp add: representable_iff)
qed (use assms in \<open>simp add: representable_iff\<close>)

lemma Range_Shr_sound:
  assumes ti: "is_int_type t" "t \<noteq> BOOL" and a: "wf_range a" and b: "wf_range b"
    and x: "in_range x a" "GetMin t \<le> x" "x \<le> GetMax t" and y: "in_range y b"
  shows "in_range (wrap t (ir_shr t x y)) (FitInType (Range_Shr a b t) t)"
proof (rule FitInType_unfit [OF shr_representable [OF ti x(2,3)]])
  let ?R = "Range_Shr a b t"
  assume fit: "GetMin t \<le> GetLeft ?R \<and> GetLeft ?R \<le> GetMax t \<and> GetMin t \<le> GetRight ?R \<and> GetRight ?R \<le> GetMax t"
  define n where "n = shift_amount y t"
  define m where "m = FitInType a t"
  have m: "wf_range m" "in_range x m" unfolding m_def using ti a x by (auto intro: FitInType_wf FitInType_keeps)
  show "in_range (wrap t (ir_shr t x y)) ?R"
  proof (cases "\<not> IsConst_range b \<or> IsNegative b")
    case True
    then have "?R = full_range" by (auto simp: Range_Shr_def)
    then show ?thesis using wrap_in_type [OF shr_representable [OF ti x(2,3)], of y] GetMin_GetMax [OF ti(1)]
      by (simp add: in_range_def)
  next
    case False
    then have yb: "y = GetLeft b" using y by (auto simp: in_range_def IsConst_range_def)
    have R: "?R = (if GetLeft m < 0 \<and> GetRight m \<ge> 0 \<and> n > 0 then mk_range 0 (i64 (drop_bit n (mask 64)))
        else mk_range (i64 (drop_bit n (take_bit 64 (GetLeft m)))) (i64 (drop_bit n (take_bit 64 (GetRight m)))))"
      using False by (simp add: Range_Shr_def Let_def n_def m_def yb)
    show ?thesis
    proof (cases "n = 0")
      case True
      then have "?R = mk_range (GetLeft m) (GetRight m)" using m by (simp add: R i64_take wf_range_def)
      moreover have "wrap t (ir_shr t x y) = x"
        using True x wrap_take_bit [OF ti] wrap_exact [OF ti(1)] by (simp add: ir_shr_def n_def)
      ultimately show ?thesis using m by (simp add: in_range_def)
    next
      case False
      then have n: "0 < n" by simp
      have id: "i64 (drop_bit n (take_bit 64 c)) = drop_bit n (take_bit 64 c)" for c :: int
        using n shr_in(1,2) [of n c] shr_in(3) [of n] by (intro i64_in) (auto intro: order_trans order_trans [OF MIN_MAX(4)])
      have "i64 (drop_bit n (mask 64)) = drop_bit n (mask 64)"
        using id [of "- 1"] by (simp add: take_bit_minus_one_eq_mask)
      note R' = R [unfolded id this]
      show ?thesis
      proof (cases "t = INT64")
        case True
        have v: "wrap t (ir_shr t x y) = drop_bit n (take_bit 64 x)"
          using True id by (simp add: ir_shr_def n_def wrap_def IsTypeSigned_def)
        have "take_bit 64 (GetLeft m) \<le> take_bit 64 x \<and> take_bit 64 x \<le> take_bit 64 (GetRight m)"
          if "\<not> (GetLeft m < 0 \<and> GetRight m \<ge> 0)"
          using that m by (cases "x < 0") (auto simp: take_64_neg take_64_nonneg in_range_def wf_range_def)
        then show ?thesis unfolding v R' using n shr_in(1,2) [OF n, of x] by (auto intro: drop_bit_mono)
      next
        case s: False
        have nonneg: "0 \<le> GetLeft m"
        proof (cases "t = UINT64")
          case True
          then show ?thesis using FitInType_in_type [OF ti(1) a] by (simp add: m_def)
        next
          case u: False
          note small = small_type [OF ti(1)]
          have n32: "n < 32" using shift_amount_le [of y t] small s u ti(2) by (simp add: n_def)
          show ?thesis
          proof (rule ccontr)
            assume neg: "\<not> 0 \<le> GetLeft m"
            then have big: "2 ^ 32 \<le> drop_bit n (take_bit 64 (GetLeft m))"
              using n32 m by (intro shr_large) (auto simp: wf_range_def)
            then have "2 ^ 32 \<le> drop_bit n (mask 64 :: int)" using shr_in(2) [OF n] by (rule order_trans)
            with fit big neg n small s u ti(2) show False unfolding R' by (auto split: if_splits)
          qed
        qed
        then have pos: "0 \<le> x" "0 \<le> GetRight m" using m by (auto simp: in_range_def wf_range_def)
        have v: "wrap t (ir_shr t x y) = drop_bit n x" using shr_nonneg(2) [OF ti pos(1) x(3)] by (simp add: n_def)
        have "take_bit 64 (GetLeft m) = GetLeft m" "take_bit 64 (GetRight m) = GetRight m"
          using m nonneg pos by (auto intro!: take_64_nonneg simp: wf_range_def)
        then show ?thesis unfolding v R' using nonneg m by (auto simp: in_range_def intro: drop_bit_mono)
      qed
    qed
  qed
qed


section \<open>Union and narrowing\<close>

lemma Range_Union_fold:
  "foldl (\<lambda>(mn, mx) rng. (if GetLeft rng < mn then GetLeft rng else mn, if GetRight rng > mx then GetRight rng else mx))
     (mn, mx) rs = (l, r) \<Longrightarrow>
   l \<le> mn \<and> mx \<le> r \<and> (\<forall>q \<in> set rs. l \<le> GetLeft q \<and> GetRight q \<le> r) \<and>
   (l = mn \<or> (\<exists>q \<in> set rs. l = GetLeft q)) \<and> (r = mx \<or> (\<exists>q \<in> set rs. r = GetRight q))"
proof (induction rs arbitrary: mn mx)
  case (Cons q rs)
  let ?mn = "if GetLeft q < mn then GetLeft q else mn" and ?mx = "if GetRight q > mx then GetRight q else mx"
  from Cons.prems have "foldl (\<lambda>(mn, mx) rng. (if GetLeft rng < mn then GetLeft rng else mn, if GetRight rng > mx then GetRight rng else mx))
     (?mn, ?mx) rs = (l, r)" by simp
  from Cons.IH [OF this] show ?case by (auto split: if_splits)
qed simp

lemma Range_Union_wf:
  assumes "rs \<noteq> []" "\<And>q. q \<in> set rs \<Longrightarrow> wf_range q"
  shows "wf_range (Range_Union rs)"
proof -
  obtain l r where f: "foldl (\<lambda>(mn, mx) rng. (if GetLeft rng < mn then GetLeft rng else mn, if GetRight rng > mx then GetRight rng else mx))
     (MAX_RANGE_VALUE, MIN_RANGE_VALUE) rs = (l, r)" by (cases rule: prod.exhaust)
  note p = Range_Union_fold [OF f]
  obtain q where q: "q \<in> set rs" using assms(1) by (cases rs) auto
  have "l \<le> GetLeft q" "GetRight q \<le> r" "wf_range q" using p q assms(2) by auto
  moreover have "MIN_RANGE_VALUE \<le> l \<and> r \<le> MAX_RANGE_VALUE"
    using p assms(2) by (auto simp: wf_range_def dest!: assms(2))
  ultimately show ?thesis unfolding Range_Union_def f by (auto simp: wf_range_def)
qed

lemma Range_Union_sound: "q \<in> set rs \<Longrightarrow> in_range x q \<Longrightarrow> in_range x (Range_Union rs)"
proof -
  assume q: "q \<in> set rs" "in_range x q"
  obtain l r where f: "foldl (\<lambda>(mn, mx) rng. (if GetLeft rng < mn then GetLeft rng else mn, if GetRight rng > mx then GetRight rng else mx))
     (MAX_RANGE_VALUE, MIN_RANGE_VALUE) rs = (l, r)" by (cases rule: prod.exhaust)
  from Range_Union_fold [OF f] q show ?thesis unfolding Range_Union_def f by (auto simp: in_range_def)
qed

lemmas narrow_defs = NarrowBoundsCase1_def NarrowBoundsCase2_def NarrowBoundsCase3_def NarrowBoundsCase4_def
  NarrowBoundsCase5_def NarrowBoundsCase6_def

lemma TryNarrowBoundsByCC_wf:
  assumes "wf_range a" "wf_range b" "TryNarrowBoundsByCC cc (a, b) = (a', b')"
  shows "wf_range a' \<and> wf_range b'"
proof (cases "cc = CC_NE")
  case True
  with assms show ?thesis
    by (auto simp: TryNarrowBoundsByCC_def NarrowBoundsByNE_def Let_def IsConst_range_def wf_range_def split: if_splits)
next
  case False
  with assms show ?thesis
    unfolding TryNarrowBoundsByCC_def Let_def narrow_defs wf_range_def
    by (cases cc) (auto split: if_splits)
qed

text \<open>
  The comparison of two 64-bit values, read as integers: the unsigned codes coincide with the
  signed ones on non-negative values, and the narrowing does not use the \<^verbatim>\<open>TST\<close> codes.
\<close>

fun cc_int :: "ConditionCode \<Rightarrow> int \<Rightarrow> int \<Rightarrow> bool" where
  "cc_int CC_EQ x y = (x = y)"
| "cc_int CC_NE x y = (x \<noteq> y)"
| "cc_int CC_LT x y = (x < y)"
| "cc_int CC_LE x y = (x \<le> y)"
| "cc_int CC_GT x y = (x > y)"
| "cc_int CC_GE x y = (x \<ge> y)"
| "cc_int CC_B x y = (x < y)"
| "cc_int CC_BE x y = (x \<le> y)"
| "cc_int CC_A x y = (x > y)"
| "cc_int CC_AE x y = (x \<ge> y)"
| "cc_int _ x y = True"

definition cc_unsigned :: "ConditionCode \<Rightarrow> bool" where
  "cc_unsigned cc \<longleftrightarrow> cc \<in> {CC_B, CC_BE, CC_A, CC_AE}"

lemma Compare_int:
  assumes "MIN_RANGE_VALUE \<le> x" "x \<le> MAX_RANGE_VALUE" "MIN_RANGE_VALUE \<le> y" "y \<le> MAX_RANGE_VALUE"
    and "cc_unsigned cc \<Longrightarrow> 0 \<le> x \<and> 0 \<le> y"
    and c: "Compare cc (word_of_int x :: u64) (word_of_int y)"
  shows "cc_int cc x y"
proof -
  define X Y where "X = (word_of_int x :: u64)" and "Y = (word_of_int y :: u64)"
  have s: "sint X = x" "sint Y = y"
    using assms(1-4) by (simp_all add: X_def Y_def sint_word_of_int_64)
  have u: "uint X = x" "uint Y = y" if "cc_unsigned cc"
    using assms(2,4) assms(5) [OF that] by (simp_all add: X_def Y_def unsigned_of_int take_64_nonneg)
  have ne: "X \<noteq> Y \<Longrightarrow> x \<noteq> y" by (auto simp: X_def Y_def)
  have "Compare cc X Y" using c by (simp only: X_def Y_def)
  then show ?thesis
    using s u ne by (cases cc) (auto simp: cc_unsigned_def word_less_def word_le_def)
qed

lemma NarrowBoundsCase1_sound:
  assumes "wf_range a" "wf_range b" "in_range x a" "in_range y b" "cc_int cc x y"
  shows "in_range x (fst (NarrowBoundsCase1 cc (a, b))) \<and> in_range y (snd (NarrowBoundsCase1 cc (a, b)))"
  using assms by (cases cc) (auto simp: NarrowBoundsCase1_def Let_def wf_range_def in_range_def)

lemma NarrowBoundsCase2_sound:
  assumes "wf_range a" "wf_range b" "in_range x a" "in_range y b" "cc_int cc x y"
  shows "in_range x (fst (NarrowBoundsCase2 cc (a, b))) \<and> in_range y (snd (NarrowBoundsCase2 cc (a, b)))"
  using assms by (cases cc) (auto simp: NarrowBoundsCase2_def Let_def wf_range_def in_range_def)

lemma NarrowBoundsCase3_sound:
  assumes "wf_range a" "wf_range b" "in_range x a" "in_range y b" "cc_int cc x y"
  shows "in_range x (fst (NarrowBoundsCase3 cc (a, b))) \<and> in_range y (snd (NarrowBoundsCase3 cc (a, b)))"
  using assms by (cases cc) (auto simp: NarrowBoundsCase3_def Let_def wf_range_def in_range_def)

lemma NarrowBoundsCase4_sound:
  assumes "wf_range a" "wf_range b" "in_range x a" "in_range y b" "cc_int cc x y"
  shows "in_range x (fst (NarrowBoundsCase4 cc (a, b))) \<and> in_range y (snd (NarrowBoundsCase4 cc (a, b)))"
  using assms by (cases cc) (auto simp: NarrowBoundsCase4_def Let_def wf_range_def in_range_def)

lemma NarrowBoundsCase5_sound:
  assumes "wf_range a" "wf_range b" "in_range x a" "in_range y b" "cc_int cc x y"
  shows "in_range x (fst (NarrowBoundsCase5 cc (a, b))) \<and> in_range y (snd (NarrowBoundsCase5 cc (a, b)))"
  using assms by (cases cc) (auto simp: NarrowBoundsCase5_def Let_def wf_range_def in_range_def)

lemma NarrowBoundsCase6_sound:
  assumes "wf_range a" "wf_range b" "in_range x a" "in_range y b" "cc_int cc x y"
  shows "in_range x (fst (NarrowBoundsCase6 cc (a, b))) \<and> in_range y (snd (NarrowBoundsCase6 cc (a, b)))"
  using assms by (cases cc) (auto simp: NarrowBoundsCase6_def Let_def wf_range_def in_range_def)

lemma NarrowBoundsByNE_sound:
  assumes "wf_range a" "wf_range b" "in_range x a" "in_range y b" "x \<noteq> y"
  shows "in_range x (fst (NarrowBoundsByNE (a, b))) \<and> in_range y (snd (NarrowBoundsByNE (a, b)))"
  using assms by (auto simp: NarrowBoundsByNE_def Let_def wf_range_def in_range_def IsConst_range_def)

lemmas narrow_sound = NarrowBoundsCase1_sound NarrowBoundsCase2_sound NarrowBoundsCase3_sound
  NarrowBoundsCase4_sound NarrowBoundsCase5_sound NarrowBoundsCase6_sound

lemma TryNarrow_sound:
  assumes "wf_range a" "wf_range b" "in_range x a" "in_range y b" "cc_int cc x y"
  shows "in_range x (fst (TryNarrowBoundsByCC cc (a, b))) \<and> in_range y (snd (TryNarrowBoundsByCC cc (a, b)))"
proof (cases "cc = CC_NE")
  case True
  with assms NarrowBoundsByNE_sound show ?thesis by (simp add: TryNarrowBoundsByCC_def)
next
  case False
  then show ?thesis
    unfolding TryNarrowBoundsByCC_def Let_def using narrow_sound [OF assms] assms by simp
qed
section \<open>Properties\<close>

text \<open>
  C23: no operation on ranges can fail the assertions of the \<^verbatim>\<open>BoundsRange\<close> constructor: from ranges with
  ordered bounds inside \<^verbatim>\<open>int64_t\<close>, every arithmetic operation, shift, union of at least one range,
  restriction to an integer type and narrowing by a condition code produces such ranges again.
\<close>

theorem range_ops_wf:
  assumes "is_int_type t" "wf_range a" "wf_range b" "\<forall>r \<in> set rs. wf_range r"
  shows "wf_range (Range_Neg a) \<and> wf_range (Range_Abs a) \<and> wf_range (Range_Add a b) \<and> wf_range (Range_Sub a b)
    \<and> wf_range (Range_Mul a b) \<and> wf_range (Range_Div a b) \<and> wf_range (Range_Mod a b) \<and> wf_range (Range_And a b)
    \<and> wf_range (Range_Shr a b t) \<and> wf_range (Range_AShr a b t) \<and> wf_range (Range_Shl a b t)
    \<and> wf_range (Range_Union (a # rs)) \<and> wf_range (FitInType a t)
    \<and> wf_range (fst (TryNarrowBoundsByCC cc (a, b))) \<and> wf_range (snd (TryNarrowBoundsByCC cc (a, b)))"
proof -
  note wf = assms(1,2,3)
  have "wf_range (Range_Union (a # rs))" using assms by (intro Range_Union_wf) auto
  moreover have "wf_range (fst (TryNarrowBoundsByCC cc (a, b))) \<and> wf_range (snd (TryNarrowBoundsByCC cc (a, b)))"
    using TryNarrowBoundsByCC_wf [OF assms(2,3), of cc] by (cases "TryNarrowBoundsByCC cc (a, b)") simp
  ultimately show ?thesis
    using neg_op.keeps_wf [OF wf] abs_op.keeps_wf [OF wf] add_op.keeps_wf [OF wf] sub_op.keeps_wf [OF wf]
      mul_op.keeps_wf [OF wf] div_op.keeps_wf [OF wf] mod_op.keeps_wf [OF wf] and_op.keeps_wf [OF wf]
      Range_Shr_wf [OF wf] ashr_op.keeps_wf [OF wf] shl_op.keeps_wf [OF wf] FitInType_wf [OF wf(1,2)]
    by simp
qed

theorem range_ops_wf_witness:
  "wf_range (Range_Shl (mk_range 1 5) (const_range 2) INT32) \<and> wf_range (Range_Union [mk_range 1 5, mk_range 7 9])"
  using range_ops_wf [of INT32 "mk_range 1 5" "const_range 2" "[mk_range 7 9]"]
  by (simp add: wf_range_def MIN_RANGE_VALUE_def MAX_RANGE_VALUE_def)

text \<open>
  C17: the ranges computed for the integer operations contain the results the operations have at run
  time, wrapped to the type of the instruction, at every integer type but \<^verbatim>\<open>BOOL\<close>; of type \<^verbatim>\<open>UINT64\<close> the results
  below \<open>2 ^ 63\<close>, since the bounds are \<^verbatim>\<open>int64_t\<close>.  For operands in their ranges the sum, quotient, conjunction,
  left and arithmetic right shift always lie in the range of the result fitted to the type.  The difference does
  when the subtrahend is not the least \<^verbatim>\<open>int64_t\<close>, the negation and the absolute value when their operand is not,
  the product when no corner of the two ranges multiplies that value by -1, the remainder for a non-zero divisor,
  and the logical right shift for an operand within the type.  The conditions on the least value are necessary
  (\<open>range_min_value_unsound\<close>).
\<close>

theorem range_ops_sound:
  assumes "is_int_type t" "t \<noteq> BOOL" "wf_range a" "wf_range b" "in_range x a" "in_range y b"
  shows "covers t (x + y) (Range_Add a b)
    \<and> (y \<noteq> MIN_RANGE_VALUE \<longrightarrow> covers t (x - y) (Range_Sub a b))
    \<and> (x \<noteq> MIN_RANGE_VALUE \<longrightarrow> covers t (- x) (Range_Neg a))
    \<and> (x \<noteq> MIN_RANGE_VALUE \<longrightarrow> covers t \<bar>x\<bar> (Range_Abs a))
    \<and> (mul_exact a b \<longrightarrow> covers t (x * y) (Range_Mul a b))
    \<and> covers t (x sdiv y) (Range_Div a b)
    \<and> (y \<noteq> 0 \<longrightarrow> covers t (x smod y) (Range_Mod a b))
    \<and> covers t (x AND y) (Range_And a b)
    \<and> covers t (ir_shl t x y) (Range_Shl a b t)
    \<and> covers t (ir_ashr t x y) (Range_AShr a b t)
    \<and> (GetMin t \<le> x \<and> x \<le> GetMax t \<longrightarrow> covers t (ir_shr t x y) (Range_Shr a b t))"
proof -
  have "covers t (ir_shr t x y) (Range_Shr a b t)" if "GetMin t \<le> x" "x \<le> GetMax t"
    using Range_Shr_sound [OF assms(1-5) that assms(6)] by (simp add: covers_def)
  then show ?thesis
    using add_op.sound_at_type [OF assms] sub_op.sound_at_type [OF assms] neg_op.sound_at_type [OF assms]
      abs_op.sound_at_type [OF assms] mul_op.sound_at_type [OF assms] div_op.sound_at_type [OF assms]
      mod_op.sound_at_type [OF assms] and_op.sound_at_type [OF assms] shl_op.sound_at_type [OF assms]
      ashr_op.sound_at_type [OF assms]
    by blast
qed

theorem range_ops_sound_witness:
  "in_range (wrap INT32 (2 ^ 31 - 1 + 2)) (FitInType (Range_Add (mk_range 0 (2 ^ 31 - 1)) (mk_range 1 3)) INT32)
   \<and> wrap INT32 (2 ^ 31 - 1 + 2) = - (2 ^ 31) + 1"
proof -
  have "in_range (wrap INT32 (2 ^ 31 - 1 + 2)) (FitInType (Range_Add (mk_range 0 (2 ^ 31 - 1)) (mk_range 1 3)) INT32)"
    using range_ops_sound [of INT32 "mk_range 0 (2 ^ 31 - 1)" "mk_range 1 3" "2 ^ 31 - 1" 2]
    by (simp add: covers_def wf_range_def MIN_RANGE_VALUE_def MAX_RANGE_VALUE_def)
  moreover have "wrap INT32 (2 ^ 31 - 1 + 2) = - (2 ^ 31) + 1" by code_simp
  ultimately show ?thesis by blast
qed

text \<open>
  C25: narrowing by a condition loses no value: if two 64-bit operands are in their ranges and the
  comparison holds, they are in the two narrowed ranges, for every condition code; for the unsigned codes
  this needs ranges of non-negative values.
\<close>

theorem TryNarrowBoundsByCC_sound:
  assumes "wf_range a" "wf_range b" "in_range x a" "in_range y b"
    and "Compare cc (word_of_int x :: u64) (word_of_int y)"
    and "cc_unsigned cc \<Longrightarrow> IsNotNegative a \<and> IsNotNegative b"
  shows "in_range x (fst (TryNarrowBoundsByCC cc (a, b))) \<and> in_range y (snd (TryNarrowBoundsByCC cc (a, b)))"
proof (rule TryNarrow_sound [OF assms(1-4)])
  show "cc_int cc x y"
    using assms(1-4,6) by (intro Compare_int [OF _ _ _ _ _ assms(5)]) (auto simp: wf_range_def in_range_def IsNotNegative_def)
qed

theorem TryNarrowBoundsByCC_sound_witness:
  "in_range 3 (fst (TryNarrowBoundsByCC CC_LT (mk_range 0 10, mk_range 2 6)))
   \<and> fst (TryNarrowBoundsByCC CC_LT (mk_range 0 10, mk_range 2 6)) = mk_range 0 5"
proof -
  have "in_range 3 (fst (TryNarrowBoundsByCC CC_LT (mk_range 0 10, mk_range 2 6)))"
    using TryNarrowBoundsByCC_sound [of "mk_range 0 10" "mk_range 2 6" 3 5 CC_LT]
    by (simp add: wf_range_def MIN_RANGE_VALUE_def MAX_RANGE_VALUE_def cc_unsigned_def)
  moreover have "fst (TryNarrowBoundsByCC CC_LT (mk_range 0 10, mk_range 2 6)) = mk_range 0 5" by code_simp
  ultimately show ?thesis by blast
qed

text \<open>
  C40: the unsigned condition codes are narrowed as signed ones, and every negative value of the range is lost.
  Read as an unsigned 64-bit word a negative \<open>x\<close> is above every non-negative \<open>c\<close>, so the comparisons \<open>x > c\<close> and
  \<open>x \<ge> c\<close> by \<^verbatim>\<open>CC_A\<close> and \<^verbatim>\<open>CC_AE\<close> and \<open>c < x\<close> and \<open>c \<le> x\<close> by \<^verbatim>\<open>CC_B\<close> and \<^verbatim>\<open>CC_BE\<close> hold; but when the range of \<open>x\<close> reaches
  above \<open>c\<close>, narrowing it against the constant leaves only values from \<open>c\<close> on.
\<close>

theorem narrow_unsigned_unsound:
  assumes "wf_range a" "in_range x a" "x < 0" "0 \<le> c" "c < GetRight a"
  shows "(\<forall>cc \<in> {CC_A, CC_AE}. Compare cc (word_of_int x :: u64) (word_of_int c)
      \<and> \<not> in_range x (fst (TryNarrowBoundsByCC cc (a, const_range c))))
    \<and> (\<forall>cc \<in> {CC_B, CC_BE}. Compare cc (word_of_int c :: u64) (word_of_int x)
      \<and> \<not> in_range x (snd (TryNarrowBoundsByCC cc (const_range c, a))))"
proof -
  have b: "MIN_RANGE_VALUE \<le> x" "x \<le> MAX_RANGE_VALUE" "c \<le> MAX_RANGE_VALUE" "GetLeft a < c" "c + 1 \<le> MAX_RANGE_VALUE"
    using assms by (auto simp: wf_range_def in_range_def)
  have x: "uint (word_of_int x :: u64) = x + 2 ^ 64" using b(1) assms(3) take_64_neg [OF b(1) assms(3)] by (simp add: unsigned_of_int MIN_RANGE_VALUE_def)
  have c: "uint (word_of_int c :: u64) = c" using b(3) assms(4) by (simp add: unsigned_of_int take_64_nonneg)
  have lt: "(word_of_int c :: u64) < word_of_int x"
    unfolding word_less_def x c using b(1,3) by (simp add: MIN_RANGE_VALUE_def MAX_RANGE_VALUE_def)
  have i: "i64 (c + 1) = c + 1" using b(5) assms(4) by (intro i64_in) (auto intro: order_trans [OF MIN_MAX(4)])
  have n: "\<not> in_range x (fst (TryNarrowBoundsByCC cc (a, const_range c)))" if "cc = CC_A \<or> cc = CC_AE" for cc
    using that assms b i by (auto simp: TryNarrowBoundsByCC_def NarrowBoundsCase3_def Let_def)
  have m: "\<not> in_range x (snd (TryNarrowBoundsByCC cc (const_range c, a)))" if "cc = CC_B \<or> cc = CC_BE" for cc
    using that assms b i by (auto simp: TryNarrowBoundsByCC_def NarrowBoundsCase6_def Let_def)
  from lt n m show ?thesis by (auto simp: order.strict_implies_order)
qed

theorem narrow_unsigned_unsound_witness:
  "Compare CC_A (word_of_int (- 1) :: u64) (word_of_int 5)
   \<and> in_range (- 1) (mk_range (- 10) 10)
   \<and> fst (TryNarrowBoundsByCC CC_A (mk_range (- 10) 10, const_range 5)) = mk_range 6 10
   \<and> \<not> in_range (- 1) (fst (TryNarrowBoundsByCC CC_A (mk_range (- 10) 10, const_range 5)))"
proof -
  have "fst (TryNarrowBoundsByCC CC_A (mk_range (- 10) 10, const_range 5)) = mk_range 6 10" by code_simp
  moreover have "Compare CC_A (word_of_int (- 1) :: u64) (word_of_int 5)
      \<and> \<not> in_range (- 1) (fst (TryNarrowBoundsByCC CC_A (mk_range (- 10) 10, const_range 5)))"
    using narrow_unsigned_unsound [of "mk_range (- 10) 10" "- 1" 5]
    by (simp add: MIN_RANGE_VALUE_def MAX_RANGE_VALUE_def)
  ultimately show ?thesis by simp
qed

text \<open>
  The side conditions on the least \<^verbatim>\<open>int64_t\<close> are necessary.  Negation, subtraction and multiplication
  replace or wrap the negation of that value, and their ranges miss the result: \<open>- MIN\<close> is \<open>MIN\<close>, the
  difference \<open>-1 - MIN\<close> is one more than the bound computed, and \<open>MulWithOverflowCheck\<close> accepts \<open>MIN * -1\<close>,
  so that the negatives of \<open>[MIN, 5]\<close> are given the range \<open>[MIN, -5]\<close>.
\<close>

theorem range_min_value_unsound:
  "\<not> in_range (i64 (- MIN_RANGE_VALUE)) (Range_Neg (const_range MIN_RANGE_VALUE))
   \<and> \<not> in_range (i64 (- 1 - MIN_RANGE_VALUE)) (Range_Sub (const_range (- 1)) (const_range MIN_RANGE_VALUE))
   \<and> MulWithOverflowCheck MIN_RANGE_VALUE (- 1) = Some MIN_RANGE_VALUE
   \<and> in_range (- 100) (mk_range MIN_RANGE_VALUE 5)
   \<and> \<not> in_range (i64 (- 100 * - 1)) (Range_Mul (mk_range MIN_RANGE_VALUE 5) (const_range (- 1)))"
  by code_simp

text \<open>
  The checked arithmetic returns exactly the sums and products that fit the type: the signed addition
  and the two unsigned operations return a value if and only if the mathematical result is representable,
  and then it is that result.
\<close>

theorem overflow_checks_exact:
  assumes "MIN_RANGE_VALUE \<le> a" "a \<le> MAX_RANGE_VALUE" "MIN_RANGE_VALUE \<le> b" "b \<le> MAX_RANGE_VALUE"
  shows "AddWithOverflowCheck a b =
      (if MIN_RANGE_VALUE \<le> a + b \<and> a + b \<le> MAX_RANGE_VALUE then Some (a + b) else None)
    \<and> AddWithOverflowCheck_u64 u v = (if unat u + unat v < 2 ^ 64 then Some (u + v) else None)
    \<and> MulWithOverflowCheck_u64 u v = (if unat u * unat v < 2 ^ 64 then Some (u * v) else None)"
proof (intro conjI)
  show "AddWithOverflowCheck a b =
      (if MIN_RANGE_VALUE \<le> a + b \<and> a + b \<le> MAX_RANGE_VALUE then Some (a + b) else None)"
    by (rule AddWithOverflowCheck_Some [OF assms])
  have m1: "unat (- 1 :: u64) = 2 ^ 64 - 1" by (simp add: unsigned_minus_1_eq_mask mask_eq_exp_minus_1)
  have m: "unat (- 1 - v) = 2 ^ 64 - 1 - unat v"
    unfolding m1 [symmetric] by (rule unat_sub) (rule word_order.extremum)
  have lt: "unat v < 2 ^ 64" "unat u < 2 ^ 64" using unsigned_less [of v] unsigned_less [of u] by simp_all
  show "AddWithOverflowCheck_u64 u v = (if unat u + unat v < 2 ^ 64 then Some (u + v) else None)"
    using lt by (auto simp: AddWithOverflowCheck_u64_def word_le_nat_alt m)
  show "MulWithOverflowCheck_u64 u v = (if unat u * unat v < 2 ^ 64 then Some (u * v) else None)"
    by (auto simp: MulWithOverflowCheck_u64_def word_le_nat_alt unat_div_distrib m1 less_eq_div_iff_mult_less_eq unat_gt_0)
qed

theorem overflow_checks_exact_witness:
  "AddWithOverflowCheck 1 2 = Some 3 \<and> MulWithOverflowCheck_u64 3 5 = Some (15 :: u64)"
  using overflow_checks_exact [of 1 2 3 5] by (simp add: MIN_RANGE_VALUE_def MAX_RANGE_VALUE_def)

end
