(* ===== verification/IrGraph.thy ===== *)
theory IrGraph
  imports RangeDomain
begin

unbundle bit_operations_syntax

text \<open>
  The part of the compiler's graph the modelled passes read and change
  (\<^verbatim>\<open>compiler/optimizer/ir/inst.h\<close>, \<^verbatim>\<open>inst.cpp\<close>, \<^verbatim>\<open>basicblock.h\<close>, \<^verbatim>\<open>graph.h\<close>, \<^verbatim>\<open>graph.cpp\<close>,
  \<^verbatim>\<open>analysis/loop_analyzer.h\<close>).

  A pointer to an instruction, block or loop is its index in the list the graph owns.  The
  answers of the runtime behind \<^verbatim>\<open>RuntimeInterface\<close>, which the compiler only calls, are function
  fields of the graph.  The fields of an instruction that only some opcodes have (the value of a
  constant, the condition code of a comparison) are present in the record of every instruction
  and read only where the source casts to the class that has them.
\<close>

section \<open>Instructions, blocks, loops\<close>

type_synonym block_id = nat
type_synonym loop_id = nat

datatype opcode =
  Op_Constant | Op_NullPtr | Op_Parameter | Op_Phi
| Op_Neg | Op_NegOverflowAndZeroCheck | Op_Abs | Op_Not | Op_Sqrt | Op_Cast
| Op_Add | Op_AddOverflowCheck | Op_Sub | Op_SubOverflowCheck | Op_Mul | Op_Div | Op_Mod | Op_Min | Op_Max
| Op_Shl | Op_Shr | Op_AShr | Op_And | Op_Or | Op_Xor | Op_Cmp | Op_Compare
| Op_If | Op_IfImm | Op_IsInstance | Op_LenArray
| Op_NullCheck | Op_BoundsCheck | Op_BoundsCheckI | Op_ZeroCheck | Op_NegativeCheck | Op_NotPositiveCheck
| Op_AnyTypeCheck | Op_ObjByIndexCheck | Op_HclassCheck | Op_RefTypeCheck
| Op_LoadObject | Op_LoadImmediate | Op_LoadUndefined | Op_LoadStatic | Op_Other

record inst =
  GetOpcode :: opcode
  GetType :: ir_type
  inputs :: "inst_id list"
  operandsType :: ir_type
  GetRawValue :: u64
  GetCc :: ConditionCode
  GetImm :: u64
  GetBasicBlock :: block_id
  IsFcmpg :: bool
  IsAllocation :: bool
  GetArgNumber :: nat
  GetObject :: nat
  bbNums :: "nat list"

record basic_block =
  GetPredsBlocks :: "block_id list"
  GetSuccsBlocks :: "block_id list"
  GetDominator :: "block_id option"
  GetDominatedBlocks :: "block_id list"
  GetLoop :: loop_id
  AllInsts :: "inst_id list"

record loop =
  GetHeader :: block_id
  GetPreHeader :: block_id
  GetBackEdges :: "block_id list"
  GetBlocks :: "block_id list"
  GetOuterLoop :: "loop_id option"
  IsIrreducible :: bool
  IsOsrLoop :: bool
  IsTryCatchLoop :: bool
  IsRoot :: bool
  IsInfinite :: bool

record graph =
  insts :: "inst list"
  blocks :: "basic_block list"
  loops :: "loop list"
  GetBlocksRPO :: "block_id list"
  GetStartBlock :: block_id
  constList :: "inst_id list"
  IsBytecodeOptimizer :: bool
  IsDynamicMethod :: bool
  GetArch :: arch
  objectPointerSize :: nat
  rtMaxArrayLength :: "inst_id \<Rightarrow> int option"
  rtIsMethodStatic :: bool

abbreviation the_inst :: "graph \<Rightarrow> inst_id \<Rightarrow> inst" where
  "the_inst g i \<equiv> insts g ! i"

abbreviation the_block :: "graph \<Rightarrow> block_id \<Rightarrow> basic_block" where
  "the_block g b \<equiv> blocks g ! b"

abbreviation the_loop :: "graph \<Rightarrow> loop_id \<Rightarrow> loop" where
  "the_loop g l \<equiv> loops g ! l"

abbreviation opcode_of :: "graph \<Rightarrow> inst_id \<Rightarrow> opcode" where
  "opcode_of g i \<equiv> GetOpcode (the_inst g i)"

abbreviation type_of :: "graph \<Rightarrow> inst_id \<Rightarrow> ir_type" where
  "type_of g i \<equiv> GetType (the_inst g i)"

definition GetInput :: "graph \<Rightarrow> inst_id \<Rightarrow> nat \<Rightarrow> inst_id" where
  "GetInput g i n = inputs (the_inst g i) ! n"

definition IsConst :: "graph \<Rightarrow> inst_id \<Rightarrow> bool" where
  "IsConst g i \<longleftrightarrow> opcode_of g i = Op_Constant"

definition IsPhi :: "graph \<Rightarrow> inst_id \<Rightarrow> bool" where
  "IsPhi g i \<longleftrightarrow> opcode_of g i = Op_Phi"

definition IsAdd :: "graph \<Rightarrow> inst_id \<Rightarrow> bool" where
  "IsAdd g i \<longleftrightarrow> opcode_of g i = Op_Add \<or> opcode_of g i = Op_AddOverflowCheck"

definition IsSub :: "graph \<Rightarrow> inst_id \<Rightarrow> bool" where
  "IsSub g i \<longleftrightarrow> opcode_of g i = Op_Sub \<or> opcode_of g i = Op_SubOverflowCheck"

definition IsAddSub :: "graph \<Rightarrow> inst_id \<Rightarrow> bool" where
  "IsAddSub g i \<longleftrightarrow> IsAdd g i \<or> IsSub g i"

definition GetTrueSuccessor :: "graph \<Rightarrow> block_id \<Rightarrow> block_id" where
  "GetTrueSuccessor g b = GetSuccsBlocks (the_block g b) ! 0"

definition GetFalseSuccessor :: "graph \<Rightarrow> block_id \<Rightarrow> block_id" where
  "GetFalseSuccessor g b = GetSuccsBlocks (the_block g b) ! 1"

definition GetTrueInputEdgeIdx :: "graph \<Rightarrow> inst_id \<Rightarrow> nat" where
  "GetTrueInputEdgeIdx g i = (if GetCc (the_inst g i) = CC_NE then 0 else 1)"

definition GetEdgeIfInputTrue :: "graph \<Rightarrow> inst_id \<Rightarrow> block_id" where
  "GetEdgeIfInputTrue g i = GetSuccsBlocks (the_block g (GetBasicBlock (the_inst g i))) ! GetTrueInputEdgeIdx g i"

text \<open>The loop over the inputs of a phi; \<open>None\<close> is the \<^verbatim>\<open>UNREACHABLE()\<close> after it.\<close>

definition GetPhiInputBb :: "graph \<Rightarrow> inst_id \<Rightarrow> nat \<Rightarrow> block_id" where
  "GetPhiInputBb g phi index =
     GetPredsBlocks (the_block g (GetBasicBlock (the_inst g phi))) ! (bbNums (the_inst g phi) ! index)"

definition GetPredBlockIndex :: "graph \<Rightarrow> inst_id \<Rightarrow> block_id \<Rightarrow> nat option" where
  "GetPredBlockIndex g phi block =
     find (\<lambda>i. GetPhiInputBb g phi i = block) [0..<length (inputs (the_inst g phi))]"

definition GetPhiInput :: "graph \<Rightarrow> inst_id \<Rightarrow> block_id \<Rightarrow> inst_id option" where
  "GetPhiInput g phi bb = map_option (GetInput g phi) (GetPredBlockIndex g phi bb)"

definition IsInstNotNull :: "graph \<Rightarrow> inst_id \<Rightarrow> bool" where
  "IsInstNotNull g i =
     (if IsAllocation (the_inst g i) \<or> opcode_of g i = Op_NullCheck then True
      else if opcode_of g i = Op_Parameter \<and> GetArgNumber (the_inst g i) = 0 then \<not> rtIsMethodStatic g
      else False)"

definition IsZeroConstant :: "graph \<Rightarrow> inst_id \<Rightarrow> bool" where
  "IsZeroConstant g i \<longleftrightarrow> IsConst g i \<and> type_of g i = INT64 \<and> GetRawValue (the_inst g i) = 0"

definition IsZeroConstantOrNullPtr :: "graph \<Rightarrow> inst_id \<Rightarrow> bool" where
  "IsZeroConstantOrNullPtr g i \<longleftrightarrow> IsZeroConstant g i \<or> opcode_of g i = Op_NullPtr"

section \<open>Data-flow inputs\<close>

text \<open>
  The loop of \<^verbatim>\<open>SkipInstructions\<close> follows a chain of checks; its number of iterations is bounded by the
  number of instructions, the fuel it is called with (see \<open>SkipInstructions_done\<close>).
\<close>

fun SkipInstructions :: "nat \<Rightarrow> graph \<Rightarrow> opcode \<Rightarrow> nat \<Rightarrow> inst_id \<Rightarrow> inst_id" where
  "SkipInstructions 0 g opc idx i = i"
| "SkipInstructions (Suc fuel) g opc idx i =
     (if opcode_of g i = opc then SkipInstructions fuel g opc idx (GetInput g i idx) else i)"

definition GetDataFlowInput :: "graph \<Rightarrow> inst_id \<Rightarrow> inst_id" where
  "GetDataFlowInput g i =
     (let skip = SkipInstructions (length (insts g)) g
      in case opcode_of g i of
           Op_NullCheck \<Rightarrow> skip Op_NullCheck 0 i
         | Op_BoundsCheck \<Rightarrow> skip Op_BoundsCheck 1 i
         | Op_BoundsCheckI \<Rightarrow> skip Op_BoundsCheckI 0 i
         | Op_ZeroCheck \<Rightarrow> skip Op_ZeroCheck 0 i
         | Op_NegativeCheck \<Rightarrow> skip Op_NegativeCheck 0 i
         | Op_NotPositiveCheck \<Rightarrow> skip Op_NotPositiveCheck 0 i
         | Op_AnyTypeCheck \<Rightarrow> skip Op_AnyTypeCheck 0 i
         | Op_ObjByIndexCheck \<Rightarrow> skip Op_ObjByIndexCheck 0 i
         | Op_HclassCheck \<Rightarrow> skip Op_LoadObject 0 (skip Op_HclassCheck 0 i)
         | Op_RefTypeCheck \<Rightarrow>
             (let i = skip Op_RefTypeCheck 1 i
              in if opcode_of g i = Op_NullCheck then skip Op_NullCheck 0 i else i)
         | _ \<Rightarrow> i)"

text \<open>With inputs of smaller index than their users, the fuel is enough for the loop to end at another opcode.\<close>

lemma SkipInstructions_done:
  assumes "\<And>j. j < length (insts g) \<Longrightarrow> opcode_of g j = opc \<Longrightarrow> GetInput g j idx < j" "i < length (insts g)" "i < fuel"
  shows "opcode_of g (SkipInstructions fuel g opc idx i) \<noteq> opc \<and> SkipInstructions fuel g opc idx i \<le> i"
  using assms(2,3)
proof (induction fuel arbitrary: i)
  case (Suc fuel)
  show ?case
  proof (cases "opcode_of g i = opc")
    case True
    then have lt: "GetInput g i idx < i" using assms(1) Suc.prems by simp
    then have "opcode_of g (SkipInstructions fuel g opc idx (GetInput g i idx)) \<noteq> opc \<and>
        SkipInstructions fuel g opc idx (GetInput g i idx) \<le> GetInput g i idx"
      using Suc.prems by (intro Suc.IH) simp_all
    with True lt show ?thesis by simp
  qed simp
qed simp

section \<open>Constants and users\<close>

text \<open>
  \<^verbatim>\<open>FindOrCreateConstant<T>\<close> walks the list of constants and appends a new one at its end.  The three
  integer instances differ in the size of the C++ type: \<^verbatim>\<open>uint32_t\<close> makes an \<^verbatim>\<open>INT32\<close> constant when the
  graph belongs to the bytecode optimizer, the 64-bit types always make an \<^verbatim>\<open>INT64\<close> constant.
\<close>

definition new_const :: "graph \<Rightarrow> ir_type \<Rightarrow> u64 \<Rightarrow> inst" where
  "new_const g type v =
     \<lparr>GetOpcode = Op_Constant, GetType = type, inputs = [], operandsType = NO_TYPE, GetRawValue = v, GetCc = CC_EQ,
      GetImm = 0, GetBasicBlock = GetStartBlock g, IsFcmpg = False, IsAllocation = False, GetArgNumber = 0,
      GetObject = 0, bbNums = []\<rparr>"

definition AddConstInStartBlock :: "graph \<Rightarrow> inst \<Rightarrow> graph \<times> inst_id" where
  "AddConstInStartBlock g c =
     (let i = length (insts g); s = GetStartBlock g; b = the_block g s
      in (g\<lparr>insts := insts g @ [c], constList := constList g @ [i],
            blocks := (blocks g)[s := b\<lparr>AllInsts := AllInsts b @ [i]\<rparr>]\<rparr>, i))"

definition IsEqualConst_typed :: "graph \<Rightarrow> inst_id \<Rightarrow> ir_type \<Rightarrow> u64 \<Rightarrow> bool" where
  "IsEqualConst_typed g i type v \<longleftrightarrow> type_of g i = type \<and> GetRawValue (the_inst g i) = v"

definition IsEqualConst_32 :: "graph \<Rightarrow> inst_id \<Rightarrow> u32 \<Rightarrow> bool \<Rightarrow> bool" where
  "IsEqualConst_32 g i v supportInt32 =
     (if supportInt32 then type_of g i = INT32 \<and> (ucast (GetRawValue (the_inst g i)) :: u32) = v
      else type_of g i = INT64 \<and> GetRawValue (the_inst g i) = ucast v)"

definition find_or_create :: "graph \<Rightarrow> (inst_id \<Rightarrow> bool) \<Rightarrow> inst \<Rightarrow> graph \<times> inst_id" where
  "find_or_create g eq c = (case find eq (constList g) of Some i \<Rightarrow> (g, i) | None \<Rightarrow> AddConstInStartBlock g c)"

definition FindOrCreateConstant_u64 :: "graph \<Rightarrow> u64 \<Rightarrow> graph \<times> inst_id" where
  "FindOrCreateConstant_u64 g v = find_or_create g (\<lambda>i. IsEqualConst_typed g i INT64 v) (new_const g INT64 v)"

definition FindOrCreateConstant_u32 :: "graph \<Rightarrow> u32 \<Rightarrow> graph \<times> inst_id" where
  "FindOrCreateConstant_u32 g v =
     find_or_create g (\<lambda>i. IsEqualConst_32 g i v (IsBytecodeOptimizer g))
       (if IsBytecodeOptimizer g then new_const g INT32 (scast v) else new_const g INT64 (ucast v))"

text \<open>Floating-point constants are their bit patterns.\<close>

definition FindOrCreateConstant_f32 :: "graph \<Rightarrow> u32 \<Rightarrow> graph \<times> inst_id" where
  "FindOrCreateConstant_f32 g v =
     find_or_create g (\<lambda>i. IsEqualConst_typed g i FLOAT32 (ucast v)) (new_const g FLOAT32 (ucast v))"

definition FindOrCreateConstant_f64 :: "graph \<Rightarrow> u64 \<Rightarrow> graph \<times> inst_id" where
  "FindOrCreateConstant_f64 g v = find_or_create g (\<lambda>i. IsEqualConst_typed g i FLOAT64 v) (new_const g FLOAT64 v)"

text \<open>\<^verbatim>\<open>inst->ReplaceUsers(new)\<close>: every input that was \<open>old\<close> becomes \<open>new\<close>.\<close>

definition ReplaceUsers :: "graph \<Rightarrow> inst_id \<Rightarrow> inst_id \<Rightarrow> graph" where
  "ReplaceUsers g old new =
     g\<lparr>insts := map (\<lambda>i. i\<lparr>inputs := map (\<lambda>x. if x = old then new else x) (inputs i)\<rparr>) (insts g)\<rparr>"

end
