(* ===== verification/CountableLoop.thy ===== *)
theory CountableLoop
  imports IrGraph
begin

unbundle bit_operations_syntax

text \<open>
  The recogniser of countable loops, \<^verbatim>\<open>compiler/optimizer/analysis/countable_loop_parser.cpp\<close>: the shape
  of a loop whose exit compares an index that a constant is added to, and the number of iterations of
  such a loop with constant bounds.

  The private fields of \<^verbatim>\<open>CountableLoopParser\<close> that \<^verbatim>\<open>Parse\<close> fills are threaded through the helper
  functions.  A place the source marks \<^verbatim>\<open>UNREACHABLE()\<close> (a loop without exit, a phi without an input
  for the back edge) makes the parse fail.
\<close>

section \<open>Parsing\<close>

record CountableLoopInfo =
  li_ifImm :: inst_id
  li_init :: inst_id
  li_test :: inst_id
  li_update :: inst_id
  li_index :: inst_id
  li_constStep :: u64
  li_normalizedCc :: ConditionCode
  li_isInc :: bool

definition IsInstIncOrDec :: "graph \<Rightarrow> inst_id \<Rightarrow> bool" where
  "IsInstIncOrDec g i \<longleftrightarrow>
     IsAddSub g i \<and>
     (IsConst g (GetInput g i 0) \<and> IsPhi g (GetInput g i 1) \<or>
      IsConst g (GetInput g i 1) \<and> IsPhi g (GetInput g i 0))"

definition FindLoopExitBlock :: "graph \<Rightarrow> loop_id \<Rightarrow> block_id option" where
  "FindLoopExitBlock g l =
     find (\<lambda>b. \<exists>s \<in> set (GetSuccsBlocks (the_block g b)). Some (GetLoop (the_block g s)) = GetOuterLoop (the_loop g l))
       (GetBlocks (the_loop g l))"

text \<open>
  The update and the test of the exit comparison; \<open>Some None\<close> is the result \<^verbatim>\<open>false\<close>.  Here and below \<open>None\<close> means
  that \<^verbatim>\<open>UNREACHABLE()\<close> is reached: a loop without an exit block, or a phi without an input for the back edge.
\<close>

definition SetUpdateAndTestInputs :: "graph \<Rightarrow> loop_id \<Rightarrow> bool \<Rightarrow> inst_id \<Rightarrow> (inst_id \<times> inst_id) option option" where
  "SetUpdateAndTestInputs g l isHeadLoopExit ifImm =
     (let loopExitCmp = GetInput g ifImm 0;
          update = GetInput g loopExitCmp 0;
          test = GetInput g loopExitCmp 1
      in if isHeadLoopExit
         then let (update, test) = (if \<not> IsPhi g update then (test, update) else (update, test))
              in if GetBasicBlock (the_inst g update) \<noteq> GetHeader (the_loop g l) then Some None
                 else map_option (\<lambda>u. Some (u, test)) (GetPhiInput g update (GetBackEdges (the_loop g l) ! 0))
         else Some (Some (if \<not> IsInstIncOrDec g update then (test, update) else (update, test))))"

text \<open>Index, step and direction of an update.\<close>

definition SetIndexAndConstStep :: "graph \<Rightarrow> inst_id \<Rightarrow> inst_id \<times> u64 \<times> bool" where
  "SetIndexAndConstStep g update =
     (let index = GetInput g update 0;
          constInst = GetInput g update 1;
          (index, constInst) = (if IsConst g index then (GetInput g update 1, GetInput g update 0) else (index, constInst));
          cnst = GetRawValue (the_inst g constInst);
          isNeg = (IsTypeSigned (type_of g update) \<and> cnst AND push_bit 63 1 \<noteq> 0);
          isInc = IsAdd g update
      in if isNeg then (index, NOT cnst + 1, \<not> isInc) else (index, cnst, isInc))"

definition SetNormalizedConditionCode :: "graph \<Rightarrow> inst_id \<Rightarrow> inst_id \<Rightarrow> ConditionCode" where
  "SetNormalizedConditionCode g ifImm test =
     (let loopExit = GetBasicBlock (the_inst g ifImm);
          loopExitCmp = GetInput g ifImm 0;
          cc = GetCc (the_inst g loopExitCmp);
          cc = (if test = GetInput g loopExitCmp 0 then SwapOperandsConditionCode cc else cc);
          cc = (if GetCc (the_inst g ifImm) = CC_EQ then GetInverseConditionCode cc else cc);
          lp = GetLoop (the_block g loopExit);
          falseLoop = GetLoop (the_block g (GetFalseSuccessor g loopExit))
      in if falseLoop = lp \<or> GetOuterLoop (the_loop g falseLoop) = Some lp
         then GetInverseConditionCode cc else cc)"

definition IsConditionCodeAcceptable :: "bool \<Rightarrow> ConditionCode \<Rightarrow> bool" where
  "IsConditionCodeAcceptable isInc cc \<longleftrightarrow>
     \<not> (isInc \<and> cc \<noteq> CC_LE \<and> cc \<noteq> CC_LT) \<and> \<not> (\<not> isInc \<and> cc \<noteq> CC_GE \<and> cc \<noteq> CC_GT)"

definition TryProcessBackEdge ::
    "graph \<Rightarrow> loop_id \<Rightarrow> inst_id \<Rightarrow> inst_id \<Rightarrow> inst_id \<Rightarrow> inst_id \<Rightarrow> u64 \<Rightarrow> bool \<Rightarrow> CountableLoopInfo option option" where
  "TryProcessBackEdge g l ifImm test update index constStep isInc =
     (case GetPredBlockIndex g index (GetBackEdges (the_loop g l) ! 0) of
        None \<Rightarrow> None
      | Some backEdgeIdx \<Rightarrow>
          if GetInput g index backEdgeIdx \<noteq> update then Some None
          else let cc = SetNormalizedConditionCode g ifImm test
               in if IsConditionCodeAcceptable isInc cc
                  then Some (Some \<lparr>li_ifImm = ifImm, li_init = GetInput g index (1 - backEdgeIdx), li_test = test,
                                   li_update = update, li_index = index, li_constStep = constStep,
                                   li_normalizedCc = cc, li_isInc = isInc\<rparr>)
                  else Some None)"

definition Parse :: "graph \<Rightarrow> loop_id \<Rightarrow> CountableLoopInfo option option" where
  "Parse g l =
     (let lp = the_loop g l
      in if IsIrreducible lp \<or> IsOsrLoop lp \<or> IsTryCatchLoop lp \<or> length (GetBackEdges lp) \<noteq> 1 \<or> IsRoot lp \<or> IsInfinite lp
         then Some None
         else case FindLoopExitBlock g l of
           None \<Rightarrow> None
         | Some loopExit \<Rightarrow>
             if AllInsts (the_block g loopExit) = [] then Some None
             else if loopExit \<noteq> GetHeader lp \<and> loopExit \<noteq> GetBackEdges lp ! 0 then Some None
             else let isHeadLoopExit = (loopExit = GetHeader lp \<and> loopExit \<noteq> GetBackEdges lp ! 0);
                      ifImm = last (AllInsts (the_block g loopExit))
                  in if opcode_of g ifImm \<noteq> Op_IfImm \<and> opcode_of g ifImm \<noteq> Op_If then Some None
                     else let loopExitCmp = GetInput g ifImm 0
                     in if opcode_of g loopExitCmp \<noteq> Op_Compare then Some None
                     else if isHeadLoopExit \<and> \<not> IsPhi g (GetInput g loopExitCmp 0) \<and> \<not> IsPhi g (GetInput g loopExitCmp 1)
                          then Some None
                     else if GetCommonType (operandsType (the_inst g loopExitCmp)) \<noteq> INT64 then Some None
                     else case SetUpdateAndTestInputs g l isHeadLoopExit ifImm of
                       None \<Rightarrow> None
                     | Some None \<Rightarrow> Some None
                     | Some (Some (update, test)) \<Rightarrow>
                         if \<not> IsInstIncOrDec g update then Some None
                         else let (index, constStep, isInc) = SetIndexAndConstStep g update
                              in if GetBasicBlock (the_inst g index) \<noteq> GetHeader lp then Some None
                                 else TryProcessBackEdge g l ifImm test update index constStep isInc)"

definition HasPreHeaderCompare :: "graph \<Rightarrow> loop_id \<Rightarrow> CountableLoopInfo \<Rightarrow> bool" where
  "HasPreHeaderCompare g l info =
     (let lp = the_loop g l;
          preHeader = GetPreHeader lp;
          backEdge = GetBackEdges lp ! 0;
          ifImm = li_ifImm info
      in if GetBasicBlock (the_inst g ifImm) \<noteq> backEdge \<or> AllInsts (the_block g preHeader) = [] \<or>
            opcode_of g (last (AllInsts (the_block g preHeader))) \<noteq> Op_IfImm
         then False
         else let preHeaderIfImm = last (AllInsts (the_block g preHeader));
                  preHeaderCmp = GetInput g preHeaderIfImm 0
              in if opcode_of g preHeaderCmp \<noteq> Op_Compare then False
                 else let backEdgeCmp = GetInput g ifImm 0
                 in if GetCc (the_inst g preHeaderCmp) \<noteq> GetCc (the_inst g backEdgeCmp) then False
                 else if GetCc (the_inst g ifImm) \<noteq> GetCc (the_inst g preHeaderIfImm) \<or>
                         GetImm (the_inst g ifImm) \<noteq> GetImm (the_inst g preHeaderIfImm) then False
                 else if GetTrueSuccessor g preHeader \<noteq> GetTrueSuccessor g backEdge \<or>
                         GetFalseSuccessor g preHeader \<noteq> GetFalseSuccessor g backEdge then False
                 else let testInputIdx = (if GetInput g backEdgeCmp 0 = li_test info then 0 else 1)
                      in GetInput g preHeaderCmp testInputIdx = li_test info \<and>
                         GetInput g preHeaderCmp (1 - testInputIdx) = li_init info)"

section \<open>Number of iterations\<close>











end
