(* ===== verification/BoundsAnalysis.thy ===== *)
theory BoundsAnalysis
  imports CountableLoop
begin

unbundle bit_operations_syntax

text \<open>
  The bounds analysis over the graph: classes \<^verbatim>\<open>BoundsRangeInfo\<close> and \<^verbatim>\<open>BoundsAnalysis\<close> of
  \<^verbatim>\<open>compiler/optimizer/analysis/bounds_analysis.cpp\<close>.

  The table of ranges is a map from blocks to maps from instructions; a visitor takes the table and
  returns it updated, \<open>None\<close> where the source has undefined behaviour or reaches \<^verbatim>\<open>UNREACHABLE()\<close>.  The
  dominator tree and the loops that \<^verbatim>\<open>RunImpl\<close> has other passes compute are fields of the graph.

  The meaning of a table is given against an assignment of values to instructions, \<open>bri_sound\<close>; the
  lookup finds a range of the value and each transfer function keeps the table sound.
\<close>

section \<open>The table of ranges\<close>

type_synonym bri = "block_id \<rightharpoonup> (inst_id \<rightharpoonup> BoundsRange)"

definition IsStringLength :: "graph \<Rightarrow> inst_id \<Rightarrow> bool" where
  "IsStringLength g i \<longleftrightarrow>
     opcode_of g i = Op_Shr \<and> opcode_of g (GetInput g i 0) = Op_LenArray \<and>
     (let c = GetInput g i 1 in IsConst g c \<and> GetRawValue (the_inst g c) = 1)"

definition IsLenArray :: "graph \<Rightarrow> inst_id \<Rightarrow> bool" where
  "IsLenArray g i \<longleftrightarrow> opcode_of g i = Op_LenArray \<or> IsStringLength g i"

definition IsLess_inst :: "graph \<Rightarrow> BoundsRange \<Rightarrow> inst_id \<Rightarrow> bool" where
  "IsLess_inst g r i \<longleftrightarrow> IsLenArray g i \<and> GetLenArray r = Some i"

text \<open>The walk up the dominator tree; its length is bounded by the number of blocks, the fuel it is called with.\<close>

definition bri_at :: "bri \<Rightarrow> block_id \<Rightarrow> inst_id \<Rightarrow> BoundsRange option" where
  "bri_at bri b i = (case bri b of None \<Rightarrow> None | Some m \<Rightarrow> m i)"

fun find_in_dominators :: "nat \<Rightarrow> graph \<Rightarrow> bri \<Rightarrow> block_id option \<Rightarrow> inst_id \<Rightarrow> BoundsRange option" where
  "find_in_dominators 0 g bri b i = None"
| "find_in_dominators (Suc fuel) g bri None i = None"
| "find_in_dominators (Suc fuel) g bri (Some b) i =
     (case bri_at bri b i of
        Some r \<Rightarrow> Some r
      | None \<Rightarrow> find_in_dominators fuel g bri (GetDominator (the_block g b)) i)"

definition max_length :: "graph \<Rightarrow> inst_id \<Rightarrow> int" where
  "max_length g i =
     (if opcode_of g i = Op_LenArray
      then case rtMaxArrayLength g (GetDataFlowInput g (GetInput g i 0)) of
             Some maxLength \<Rightarrow> maxLength | None \<Rightarrow> 2 ^ 31 - 1
      else 2 ^ 31 - 1)"

definition FindBoundsRange :: "graph \<Rightarrow> bri \<Rightarrow> block_id \<Rightarrow> inst_id \<Rightarrow> BoundsRange" where
  "FindBoundsRange g bri block i =
     (if opcode_of g i = Op_NullPtr then const_range 0
      else if IsInstNotNull g i then mk_range 1 (GetMax REFERENCE)
      else case find_in_dominators (length (blocks g)) g bri (Some block) i of
        Some r \<Rightarrow> r
      | None \<Rightarrow>
          if IsConst g i then const_range (sint (GetRawValue (the_inst g i)))
          else if IsLenArray g i then mk_range 0 (max_length g i)
          else type_range (type_of g i))"

definition SetBoundsRange :: "graph \<Rightarrow> bri \<Rightarrow> block_id \<Rightarrow> inst_id \<Rightarrow> BoundsRange \<Rightarrow> bri" where
  "SetBoundsRange g bri block i r =
     (if IsConst g i \<and> GetLenArray r = None then bri
      else let r = (if IsConst g i
                    then let val = sint (GetRawValue (the_inst g i)) in mk_range_len val val (GetLenArray r)
                    else r)
           in if \<not> IsMaxRange r INT64 \<or> GetLenArray r \<noteq> None
              then bri(block \<mapsto> ((case bri block of None \<Rightarrow> Map.empty | Some m \<Rightarrow> m)(i \<mapsto> r)))
              else bri)"

definition IsInstNotNull_at :: "graph \<Rightarrow> bri \<Rightarrow> inst_id \<Rightarrow> block_id \<Rightarrow> bool" where
  "IsInstNotNull_at g bri i block =
     (if IsInstNotNull g i then True else IsMore (FindBoundsRange g bri block i) (const_range 0))"

section \<open>Transfer functions\<close>

abbreviation bb_of :: "graph \<Rightarrow> inst_id \<Rightarrow> block_id" where
  "bb_of g i \<equiv> GetBasicBlock (the_inst g i)"

definition df_input :: "graph \<Rightarrow> inst_id \<Rightarrow> nat \<Rightarrow> inst_id" where
  "df_input g i n = GetDataFlowInput g (GetInput g i n)"

definition input_range :: "graph \<Rightarrow> bri \<Rightarrow> inst_id \<Rightarrow> nat \<Rightarrow> BoundsRange" where
  "input_range g bri i n = FindBoundsRange g bri (bb_of g i) (df_input g i n)"

definition CalcNewBoundsRangeAdd :: "graph \<Rightarrow> bri \<Rightarrow> inst_id \<Rightarrow> BoundsRange" where
  "CalcNewBoundsRangeAdd g bri i =
     (let input0 = df_input g i 0; input1 = df_input g i 1;
          range0 = input_range g bri i 0; range1 = input_range g bri i 1;
          r = Range_Add range0 range1
      in if \<not> IsMaxRange r (type_of g i) then
           if IsMoreOrEqual (const_range 0) range1 \<and> GetLenArray range0 \<noteq> None
             then SetLenArray (the (GetLenArray range0)) r
           else if IsMoreOrEqual (const_range 0) range0 \<and> GetLenArray range1 \<noteq> None
             then SetLenArray (the (GetLenArray range1)) r
           else if IsLenArray g input0 \<and> IsNegative range1 then SetLenArray input0 r
           else if IsLenArray g input1 \<and> IsNegative range0 then SetLenArray input1 r
           else r
         else r)"

definition CalcNewBoundsRangeSub :: "graph \<Rightarrow> bri \<Rightarrow> inst_id \<Rightarrow> BoundsRange" where
  "CalcNewBoundsRangeSub g bri i =
     (let input0 = df_input g i 0;
          range0 = input_range g bri i 0; range1 = input_range g bri i 1;
          r = Range_Sub range0 range1
      in if \<not> IsMaxRange r (type_of g i) then
           if IsNotNegative range1 \<and> GetLenArray range0 \<noteq> None then SetLenArray (the (GetLenArray range0)) r
           else if IsLenArray g input0 \<and> IsMore range1 (const_range 0) then SetLenArray input0 r
           else r
         else r)"

definition CalcNewBoundsRangeMod :: "graph \<Rightarrow> bri \<Rightarrow> inst_id \<Rightarrow> BoundsRange" where
  "CalcNewBoundsRangeMod g bri i =
     (let input1 = df_input g i 1;
          range0 = input_range g bri i 0; range1 = input_range g bri i 1;
          r = Range_Mod range0 range1
      in if GetLenArray range1 \<noteq> None \<and> IsNotNegative range1 then SetLenArray (the (GetLenArray range1)) r
         else if GetLenArray range0 \<noteq> None then SetLenArray (the (GetLenArray range0)) r
         else if IsLenArray g input1 then SetLenArray input1 r
         else r)"

definition CalcNewBoundsRangeMul :: "graph \<Rightarrow> bri \<Rightarrow> inst_id \<Rightarrow> BoundsRange" where
  "CalcNewBoundsRangeMul g bri i =
     (let range0 = input_range g bri i 0; range1 = input_range g bri i 1
      in if \<not> IsMaxRange range0 INT64 \<or> \<not> IsMaxRange range1 INT64 then Range_Mul range0 range1 else full_range)"

definition CalcNewBoundsRangeDiv :: "graph \<Rightarrow> bri \<Rightarrow> inst_id \<Rightarrow> BoundsRange" where
  "CalcNewBoundsRangeDiv g bri i =
     (let range0 = input_range g bri i 0; range1 = input_range g bri i 1; r = Range_Div range0 range1
      in if IsNotNegative range0 \<and> IsNotNegative range1 \<and> GetLenArray range0 \<noteq> None
         then SetLenArray (the (GetLenArray range0)) r else r)"

definition CalcNewBoundsRangeShr :: "graph \<Rightarrow> bri \<Rightarrow> inst_id \<Rightarrow> BoundsRange" where
  "CalcNewBoundsRangeShr g bri i =
     (let range0 = input_range g bri i 0; range1 = input_range g bri i 1; r = Range_Shr range0 range1 (type_of g i)
      in if IsNotNegative range0 \<and> GetLenArray range0 \<noteq> None
         then SetLenArray (the (GetLenArray range0)) r else r)"

definition CalcNewBoundsRangeAShr :: "graph \<Rightarrow> bri \<Rightarrow> inst_id \<Rightarrow> BoundsRange" where
  "CalcNewBoundsRangeAShr g bri i =
     (let range0 = input_range g bri i 0; range1 = input_range g bri i 1; r = Range_AShr range0 range1 (type_of g i)
      in if GetLenArray range0 \<noteq> None then SetLenArray (the (GetLenArray range0)) r else r)"

definition CalcNewBoundsRangeShl :: "graph \<Rightarrow> bri \<Rightarrow> inst_id \<Rightarrow> BoundsRange" where
  "CalcNewBoundsRangeShl g bri i = Range_Shl (input_range g bri i 0) (input_range g bri i 1) (type_of g i)"

definition CalcNewBoundsRangeAnd :: "graph \<Rightarrow> bri \<Rightarrow> inst_id \<Rightarrow> BoundsRange" where
  "CalcNewBoundsRangeAnd g bri i = Range_And (input_range g bri i 0) (input_range g bri i 1)"

definition CheckBoundsRange :: "graph \<Rightarrow> bri \<Rightarrow> inst_id \<Rightarrow> bool" where
  "CheckBoundsRange g bri i \<longleftrightarrow>
     (let range0 = input_range g bri i 0; range1 = input_range g bri i 1
      in (type_of g (df_input g i 0) \<noteq> UINT64 \<or> \<not> IsMaxRange range0 UINT64 \<or> GetLenArray range0 \<noteq> None) \<and>
         (type_of g (df_input g i 1) \<noteq> UINT64 \<or> \<not> IsMaxRange range1 UINT64 \<or> GetLenArray range1 \<noteq> None))"

definition CalcNewBoundsRangeUnary :: "graph \<Rightarrow> (BoundsRange \<Rightarrow> BoundsRange) \<Rightarrow> bri \<Rightarrow> inst_id \<Rightarrow> bri" where
  "CalcNewBoundsRangeUnary g op bri i =
     (if IsFloatType (type_of g i) \<or> type_of g i = REFERENCE then bri
      else let range0 = FindBoundsRange g bri (bb_of g i) (GetInput g i 0)
           in SetBoundsRange g bri (bb_of g i) i (FitInType (op range0) (type_of g i)))"

definition CalcNewBoundsRangeBinary :: "graph \<Rightarrow> (graph \<Rightarrow> bri \<Rightarrow> inst_id \<Rightarrow> BoundsRange) \<Rightarrow> bri \<Rightarrow> inst_id \<Rightarrow> bri" where
  "CalcNewBoundsRangeBinary g calc bri i =
     (if IsFloatType (type_of g i) \<or> type_of g i = REFERENCE then bri
      else let r = (if CheckBoundsRange g bri i then calc g bri i else full_range)
           in SetBoundsRange g bri (bb_of g i) i (FitInType r (type_of g i)))"

section \<open>Conditions\<close>

definition CheckTriangleCase :: "graph \<Rightarrow> block_id \<Rightarrow> block_id \<Rightarrow> bool" where
  "CheckTriangleCase g block tgtBlock =
     (let preds = GetPredsBlocks (the_block g tgtBlock);
          lp = the_loop g (GetLoop (the_block g tgtBlock));
          backEdges = GetBackEdges lp
      in if length preds = 1 then True
         else if \<not> IsRoot lp \<and> length backEdges = 1 \<and> length preds = 2
              then preds ! 0 = block \<and> preds ! 1 = backEdges ! 0 \<or> preds ! 1 = block \<and> preds ! 0 = backEdges ! 0
              else False)"

definition ProcessNullCheck :: "graph \<Rightarrow> bri \<Rightarrow> inst_id \<Rightarrow> inst_id \<Rightarrow> bri" where
  "ProcessNullCheck g bri checkInst refInput =
     foldl (\<lambda>bri domBlock. SetBoundsRange g bri domBlock refInput (mk_range 1 (GetMax REFERENCE)))
       bri (GetDominatedBlocks (the_block g (bb_of g checkInst)))"

definition CalcNewBoundsRangeForIsInstanceInput :: "graph \<Rightarrow> bri \<Rightarrow> inst_id \<Rightarrow> inst_id \<Rightarrow> bri" where
  "CalcNewBoundsRangeForIsInstanceInput g bri isInstance ifImm =
     (let block = bb_of g ifImm; trueBlock = GetEdgeIfInputTrue g ifImm
      in if CheckTriangleCase g block trueBlock
         then SetBoundsRange g bri trueBlock (GetInput g isInstance 0) (mk_range 1 (GetMax REFERENCE))
         else bri)"

definition CalcNewBoundsRangeForCompare ::
    "graph \<Rightarrow> bri \<Rightarrow> block_id \<Rightarrow> ConditionCode \<Rightarrow> inst_id \<Rightarrow> inst_id \<Rightarrow> block_id \<Rightarrow> bri" where
  "CalcNewBoundsRangeForCompare g bri block cc left right tgtBlock =
     (let leftRange = FindBoundsRange g bri block left;
          rightRange = FindBoundsRange g bri block right
      in if CheckTriangleCase g block tgtBlock
         then let (first, second) = TryNarrowBoundsByCC cc (leftRange, rightRange);
                  (first, second) =
                    (if cc = CC_LT \<and> IsLenArray g right then (SetLenArray right first, second)
                     else if cc = CC_GT \<and> IsLenArray g left then (first, SetLenArray left second)
                     else if GetLenArray leftRange \<noteq> None then (SetLenArray (the (GetLenArray leftRange)) first, second)
                     else if GetLenArray rightRange \<noteq> None then (first, SetLenArray (the (GetLenArray rightRange)) second)
                     else (first, second));
                  bri = SetBoundsRange g bri tgtBlock left (FitInType first (type_of g left))
              in SetBoundsRange g bri tgtBlock right (FitInType second (type_of g right))
         else bri)"

section \<open>Visitors\<close>

text \<open>
  \<^verbatim>\<open>1U << n\<close> is undefined for \<open>n \<ge> 32\<close>.
\<close>

definition shl_1U :: "u64 \<Rightarrow> int option" where
  "shl_1U n = (if n < 32 then Some (2 ^ unat n) else None)"

text \<open>The pattern of a division by \<open>2\<^sup>n\<close> that was replaced by shifts: the dividend and \<open>n\<close>.\<close>

definition ashr_is_div :: "graph \<Rightarrow> nat \<Rightarrow> inst_id \<Rightarrow> (inst_id \<times> u64) option" where
  "ashr_is_div g typeSize i =
     (let add = GetInput g i 0; cnst = GetInput g i 1 in
      if \<not> (IsConst g cnst \<and> opcode_of g add = Op_Add) then None
      else let n = GetRawValue (the_inst g cnst); shr = GetInput g add 0; x = GetInput g add 1 in
        if opcode_of g shr \<noteq> Op_Shr then None
        else let ashr = GetInput g shr 0; cnst = GetInput g shr 1 in
          if \<not> (opcode_of g ashr = Op_AShr \<and> IsConst g cnst \<and> GetRawValue (the_inst g cnst) = word_of_nat typeSize - n)
          then None
          else let cnst = GetInput g ashr 1 in
            if GetInput g ashr 0 = x \<and> IsConst g cnst \<and> GetRawValue (the_inst g cnst) = word_of_nat typeSize - 1
            then Some (x, n) else None)"

definition VisitAShr :: "graph \<Rightarrow> bri \<Rightarrow> inst_id \<Rightarrow> bri option" where
  "VisitAShr g bri i =
     (case GetTypeSize (objectPointerSize g) (type_of g i) (GetArch g) of
        None \<Rightarrow> None
      | Some typeSize \<Rightarrow>
          (case ashr_is_div g typeSize i of
             Some (x, n) \<Rightarrow>
               (case shl_1U n of
                  None \<Rightarrow> None
                | Some d \<Rightarrow>
                    let r = FindBoundsRange g bri (bb_of g i) x;
                        res = Range_Div r (const_range d);
                        res = (if IsNotNegative r \<and> GetLenArray r \<noteq> None
                               then SetLenArray (the (GetLenArray r)) res else res)
                    in Some (SetBoundsRange g bri (bb_of g i) i res))
           | None \<Rightarrow> Some (CalcNewBoundsRangeBinary g CalcNewBoundsRangeAShr bri i)))"

text \<open>The visitor asserts that a boolean branch compares with zero by \<^verbatim>\<open>CC_NE\<close> or \<^verbatim>\<open>CC_EQ\<close>; other codes are \<^verbatim>\<open>UNREACHABLE()\<close>.\<close>

definition VisitIfImm :: "graph \<Rightarrow> bri \<Rightarrow> inst_id \<Rightarrow> bri option" where
  "VisitIfImm g bri i =
     (if operandsType (the_inst g i) \<noteq> BOOL then Some bri
      else if GetCc (the_inst g i) \<notin> {CC_NE, CC_EQ} \<or> GetImm (the_inst g i) \<noteq> 0 then None
      else let input = GetInput g i 0 in
        if opcode_of g input = Op_IsInstance then Some (CalcNewBoundsRangeForIsInstanceInput g bri input i)
        else if opcode_of g input \<noteq> Op_Compare then Some bri
        else let op0 = GetInput g input 0; op1 = GetInput g input 1 in
          if (GetCommonType (type_of g op0) \<noteq> INT64 \<and> type_of g op0 \<noteq> REFERENCE) \<or>
             (GetCommonType (type_of g op1) \<noteq> INT64 \<and> type_of g op1 \<noteq> REFERENCE)
          then Some bri
          else let cc = GetCc (the_inst g input); block = bb_of g i;
                   (trueBlock, falseBlock) =
                     (if GetCc (the_inst g i) = CC_NE then (GetTrueSuccessor g block, GetFalseSuccessor g block)
                      else (GetFalseSuccessor g block, GetTrueSuccessor g block));
                   bri = CalcNewBoundsRangeForCompare g bri block cc op0 op1 trueBlock
               in Some (CalcNewBoundsRangeForCompare g bri block (GetInverseConditionCode cc) op0 op1 falseBlock))"

fun IsInside :: "nat \<Rightarrow> graph \<Rightarrow> loop_id option \<Rightarrow> loop_id \<Rightarrow> bool" where
  "IsInside 0 g outer other = False"
| "IsInside (Suc fuel) g None other = False"
| "IsInside (Suc fuel) g (Some outer) other =
     (if outer = other then True else IsInside fuel g (GetOuterLoop (the_loop g outer)) other)"

definition Loop_IsInside :: "graph \<Rightarrow> loop_id \<Rightarrow> loop_id \<Rightarrow> bool" where
  "Loop_IsInside g l other = IsInside (length (loops g)) g (GetOuterLoop (the_loop g l)) other"

definition ProcessCountableLoop :: "graph \<Rightarrow> bri \<Rightarrow> inst_id \<Rightarrow> (bool \<times> bri) option" where
  "ProcessCountableLoop g bri phi =
     (let phiBlock = bb_of g phi; phiType = type_of g phi; l = GetLoop (the_block g phiBlock); lp = the_loop g l in
      case Parse g l of
        None \<Rightarrow> None
      | Some None \<Rightarrow> Some (False, bri)
      | Some (Some info) \<Rightarrow>
          if phi \<noteq> li_index info then Some (False, bri)
          else
            let cc = li_normalizedCc info;
                lower = (if li_isInc info then li_init info else li_test info);
                upper = (if li_isInc info then li_test info else li_init info);
                lowerRange = FindBoundsRange g bri phiBlock lower;
                upperRange = FindBoundsRange g bri phiBlock upper;
                lowerRange = (if cc = CC_GT then Range_Add lowerRange (const_range 1) else lowerRange);
                upperRange = (if cc \<noteq> CC_GT \<and> cc = CC_LT
                              then let u = Range_Sub upperRange (const_range 1)
                                   in if IsLenArray g upper then SetLenArray upper u else u
                              else upperRange)
            in if GetLeft lowerRange > GetRight upperRange then Some (False, bri)
               else
                 let left = GetLeft lowerRange; right = GetRight upperRange; lenArray = GetLenArray upperRange;
                     isHeadLoopExit = (bb_of g (li_ifImm info) = GetHeader lp)
                 in if \<not> IsMoreOrEqual upperRange lowerRange \<and> \<not> isHeadLoopExit then Some (False, bri)
                    else if \<not> IsMoreOrEqual upperRange lowerRange \<and> \<not> HasPreHeaderCompare g l info
                    then
                      let next = GetTrueSuccessor g phiBlock;
                          nextLoop = GetLoop (the_block g next);
                          nextLoopBlock = (if nextLoop \<noteq> l \<and> \<not> Loop_IsInside g nextLoop l
                                           then GetFalseSuccessor g phiBlock else next);
                          bri = (if bb_of g (li_ifImm info) = phiBlock \<and> nextLoopBlock \<noteq> phiBlock
                                 then SetBoundsRange g bri nextLoopBlock phi
                                        (FitInType (mk_range_len left right lenArray) phiType)
                                 else bri);
                          (left, right, lenArray) =
                            (if cc = CC_LE \<or> cc = CC_LT then (left, max right (GetRight lowerRange), None)
                             else (min left (GetLeft upperRange), right, lenArray))
                      in Some (True, SetBoundsRange g bri phiBlock phi (FitInType (mk_range_len left right lenArray) phiType))
                    else Some (True, SetBoundsRange g bri phiBlock phi (FitInType (mk_range_len left right lenArray) phiType)))"

definition phi_ranges :: "graph \<Rightarrow> bri \<Rightarrow> inst_id \<Rightarrow> BoundsRange list option" where
  "phi_ranges g bri phi =
     those (map (\<lambda>block. map_option (FindBoundsRange g bri block) (GetPhiInput g phi block))
       (GetPredsBlocks (the_block g (bb_of g phi))))"

definition VisitPhi :: "graph \<Rightarrow> bri \<Rightarrow> inst_id \<Rightarrow> bri option" where
  "VisitPhi g bri i =
     (if IsFloatType (type_of g i) \<or> type_of g i = ANY \<or> type_of g i = POINTER then Some bri
      else case (if type_of g i \<noteq> REFERENCE then ProcessCountableLoop g bri i else Some (False, bri)) of
             None \<Rightarrow> None
           | Some (handled, bri) \<Rightarrow>
               if handled then Some bri
               else map_option (\<lambda>ranges. SetBoundsRange g bri (bb_of g i) i (FitInType (Range_Union ranges) (type_of g i)))
                      (phi_ranges g bri i))"

text \<open>
  The product of \<^verbatim>\<open>INT64_MIN\<close> and -1 passes the check of \<^verbatim>\<open>MulWithOverflowCheck\<close> and overflows, which is undefined; all
  four corners are multiplied before any result is looked at.
\<close>

definition VisitMul :: "graph \<Rightarrow> bri \<Rightarrow> inst_id \<Rightarrow> bri option" where
  "VisitMul g bri i =
     (let range0 = input_range g bri i 0; range1 = input_range g bri i 1
      in if \<not> IsFloatType (type_of g i) \<and> type_of g i \<noteq> REFERENCE \<and> CheckBoundsRange g bri i \<and>
            (\<not> IsMaxRange range0 INT64 \<or> \<not> IsMaxRange range1 INT64) \<and> \<not> mul_exact range0 range1
         then None else Some (CalcNewBoundsRangeBinary g CalcNewBoundsRangeMul bri i))"

definition VisitInstruction :: "graph \<Rightarrow> bri \<Rightarrow> inst_id \<Rightarrow> bri option" where
  "VisitInstruction g bri i =
     (case opcode_of g i of
        Op_Neg \<Rightarrow> Some (CalcNewBoundsRangeUnary g Range_Neg bri i)
      | Op_NegOverflowAndZeroCheck \<Rightarrow> Some (CalcNewBoundsRangeUnary g Range_Neg bri i)
      | Op_Abs \<Rightarrow> Some (CalcNewBoundsRangeUnary g Range_Abs bri i)
      | Op_Add \<Rightarrow> Some (CalcNewBoundsRangeBinary g CalcNewBoundsRangeAdd bri i)
      | Op_AddOverflowCheck \<Rightarrow> Some (CalcNewBoundsRangeBinary g CalcNewBoundsRangeAdd bri i)
      | Op_Sub \<Rightarrow> Some (CalcNewBoundsRangeBinary g CalcNewBoundsRangeSub bri i)
      | Op_SubOverflowCheck \<Rightarrow> Some (CalcNewBoundsRangeBinary g CalcNewBoundsRangeSub bri i)
      | Op_Mod \<Rightarrow> Some (CalcNewBoundsRangeBinary g CalcNewBoundsRangeMod bri i)
      | Op_Div \<Rightarrow> Some (CalcNewBoundsRangeBinary g CalcNewBoundsRangeDiv bri i)
      | Op_Mul \<Rightarrow> VisitMul g bri i
      | Op_And \<Rightarrow> Some (CalcNewBoundsRangeBinary g CalcNewBoundsRangeAnd bri i)
      | Op_Shr \<Rightarrow> Some (CalcNewBoundsRangeBinary g CalcNewBoundsRangeShr bri i)
      | Op_AShr \<Rightarrow> VisitAShr g bri i
      | Op_Shl \<Rightarrow> Some (CalcNewBoundsRangeBinary g CalcNewBoundsRangeShl bri i)
      | Op_IfImm \<Rightarrow> VisitIfImm g bri i
      | Op_Phi \<Rightarrow> VisitPhi g bri i
      | Op_NullCheck \<Rightarrow> Some (ProcessNullCheck g bri i (df_input g i 0))
      | _ \<Rightarrow> Some bri)"

definition visit_insts :: "graph \<Rightarrow> inst_id list \<Rightarrow> bri \<Rightarrow> bri option" where
  "visit_insts g is bri = foldl (\<lambda>b i. Option.bind b (\<lambda>b. VisitInstruction g b i)) (Some bri) is"

definition RunImpl :: "graph \<Rightarrow> bri option" where
  "RunImpl g = visit_insts g (concat (map (\<lambda>b. AllInsts (the_block g b)) (GetBlocksRPO g))) Map.empty"

section \<open>Meaning of the table\<close>

text \<open>
  \<open>val i\<close> is the value of instruction \<open>i\<close> at a moment of an execution.  A range is right for a value when it
  is well formed, contains the value, and the value is less than the length it refers to.
\<close>

definition range_ok :: "(inst_id \<Rightarrow> int) \<Rightarrow> BoundsRange \<Rightarrow> int \<Rightarrow> bool" where
  "range_ok val r v \<longleftrightarrow> wf_range r \<and> in_range v r \<and> (\<forall>a. GetLenArray r = Some a \<longrightarrow> v < val a \<and> 0 \<le> val a)"

inductive doms :: "graph \<Rightarrow> block_id \<Rightarrow> block_id \<Rightarrow> bool" for g where
  doms_refl: "doms g b b"
| doms_step: "GetDominator (the_block g b) = Some d \<Longrightarrow> doms g d c \<Longrightarrow> doms g b c"

definition bri_sound :: "graph \<Rightarrow> (inst_id \<Rightarrow> int) \<Rightarrow> bri \<Rightarrow> block_id \<Rightarrow> bool" where
  "bri_sound g val bri b \<longleftrightarrow> (\<forall>d i r. doms g b d \<longrightarrow> bri_at bri d i = Some r \<longrightarrow> range_ok val r (val i))"

definition val_ok :: "graph \<Rightarrow> (inst_id \<Rightarrow> int) \<Rightarrow> inst_id \<Rightarrow> bool" where
  "val_ok g val i \<longleftrightarrow>
     (is_int_type (type_of g i) \<or> type_of g i = REFERENCE) \<and>
     GetMin (type_of g i) \<le> val i \<and> val i \<le> GetMax (type_of g i) \<and>
     (opcode_of g i = Op_NullPtr \<longrightarrow> val i = 0) \<and>
     (IsInstNotNull g i \<longrightarrow> 1 \<le> val i) \<and>
     (IsConst g i \<longrightarrow> val i = sint (GetRawValue (the_inst g i))) \<and>
     (IsLenArray g i \<longrightarrow> 0 \<le> val i \<and> val i \<le> max_length g i \<and> max_length g i \<le> MAX_RANGE_VALUE)"

lemma type_bounds:
  "is_int_type t \<or> t = REFERENCE \<Longrightarrow> MIN_RANGE_VALUE \<le> GetMin t \<and> GetMin t \<le> GetMax t \<and> GetMax t \<le> MAX_RANGE_VALUE"
  using GetMin_GetMax [of t] by auto

lemma find_in_dominators_sound:
  "bri_sound g val bri b \<Longrightarrow> find_in_dominators fuel g bri (Some b) i = Some r \<Longrightarrow> range_ok val r (val i)"
proof (induction fuel arbitrary: b)
  case (Suc fuel)
  show ?case
  proof (cases "bri_at bri b i")
    case None
    with Suc.prems obtain d where d: "GetDominator (the_block g b) = Some d"
      and r: "find_in_dominators fuel g bri (Some d) i = Some r"
      by (cases "GetDominator (the_block g b)"; cases fuel) auto
    have "bri_sound g val bri d" using Suc.prems(1) d by (auto simp: bri_sound_def intro: doms_step)
    from Suc.IH [OF this r] show ?thesis .
  next
    case (Some q)
    with Suc.prems show ?thesis by (auto simp: bri_sound_def intro: doms_refl)
  qed
qed simp

lemma FindBoundsRange_sound:
  assumes "bri_sound g val bri b" "val_ok g val i"
  shows "range_ok val (FindBoundsRange g bri b i) (val i)"
proof (cases "opcode_of g i = Op_NullPtr \<or> IsInstNotNull g i")
  case True
  then show ?thesis using assms(2) type_bounds [of "type_of g i"]
    by (auto simp: FindBoundsRange_def range_ok_def val_ok_def wf_range_def in_range_def MAX_RANGE_VALUE_def MIN_RANGE_VALUE_def)
next
  case False
  show ?thesis
  proof (cases "find_in_dominators (length (blocks g)) g bri (Some b) i")
    case (Some r)
    with False find_in_dominators_sound [OF assms(1) Some] show ?thesis by (simp add: FindBoundsRange_def)
  next
    case None
    have s: "MIN_RANGE_VALUE \<le> sint (w :: u64)" "sint (w :: u64) \<le> MAX_RANGE_VALUE" for w
      using sint_range_size [of w] by (simp_all add: word_size MIN_RANGE_VALUE_def MAX_RANGE_VALUE_def)
    from None False assms(2) s type_bounds [of "type_of g i"] show ?thesis
      by (auto simp: FindBoundsRange_def range_ok_def val_ok_def wf_range_def in_range_def
          intro: order_trans [OF MIN_MAX(4)])
  qed
qed

lemma bri_at_upd: "bri_at (bri(b \<mapsto> (case bri b of None \<Rightarrow> Map.empty | Some m \<Rightarrow> m)(i \<mapsto> r))) c j =
    (if c = b \<and> j = i then Some r else bri_at bri c j)"
  by (auto simp: bri_at_def split: option.split)

lemma SetBoundsRange_sound:
  assumes "bri_sound g val bri c" "doms g c b \<Longrightarrow> range_ok val r (val i)" "IsConst g i \<Longrightarrow> val_ok g val i"
  shows "bri_sound g val (SetBoundsRange g bri b i r) c"
proof -
  have s: "MIN_RANGE_VALUE \<le> sint (w :: u64)" "sint (w :: u64) \<le> MAX_RANGE_VALUE" for w
    using sint_range_size [of w] by (simp_all add: word_size MIN_RANGE_VALUE_def MAX_RANGE_VALUE_def)
  have "range_ok val (mk_range_len (sint (GetRawValue (the_inst g i))) (sint (GetRawValue (the_inst g i))) (GetLenArray r)) (val i)"
    if "IsConst g i" "range_ok val r (val i)"
    using that assms(3) s by (auto simp: range_ok_def val_ok_def)
  then show ?thesis
    using assms(1,2) unfolding bri_sound_def SetBoundsRange_def Let_def
    by (auto simp: bri_at_upd split: if_splits)
qed

lemma fit_ok:
  assumes "representable t v" "wf_range r" "in_range (i64 v) r" "\<And>a. GetLenArray r = Some a \<Longrightarrow> i64 v < val a \<and> 0 \<le> val a"
  shows "range_ok val (FitInType r t) (wrap t v)"
proof -
  have t: "is_int_type t" "t \<noteq> BOOL" using representable_type [OF assms(1)] by simp_all
  have "in_range (wrap t v) (FitInType r t)"
    using FitInType_sound [of t "i64 v" r] assms(1,3) t by (simp add: wrap_i64)
  moreover have "wf_range (FitInType r t)" using FitInType_wf t assms(2) by blast
  moreover have "wrap t v < val a \<and> 0 \<le> val a" if "GetLenArray (FitInType r t) = Some a" for a
  proof -
    have f: "FitInType r t = r" "\<not> (GetLeft r < GetMin t \<or> GetLeft r > GetMax t \<or> GetRight r < GetMin t \<or> GetRight r > GetMax t)"
      using that by (auto simp: FitInType_def Let_def split: if_splits)
    then have "wrap t (i64 v) = i64 v" using assms(3) t by (intro wrap_exact) (auto simp: in_range_def)
    then show ?thesis using that f assms(4) t by (simp add: wrap_i64)
  qed
  ultimately show ?thesis by (simp add: range_ok_def)
qed

section \<open>The contract of a transfer function\<close>

locale range_calc =
  fixes calc :: "graph \<Rightarrow> bri \<Rightarrow> inst_id \<Rightarrow> BoundsRange"
    and f :: "ir_type \<Rightarrow> int \<Rightarrow> int \<Rightarrow> int"
    and pre :: "int \<Rightarrow> int \<Rightarrow> BoundsRange \<Rightarrow> BoundsRange \<Rightarrow> bool"
  assumes calc_ok: "\<lbrakk>representable (type_of g i) (f (type_of g i) (val (df_input g i 0)) (val (df_input g i 1)));
      val_ok g val (df_input g i 0); val_ok g val (df_input g i 1);
      range_ok val (input_range g bri i 0) (val (df_input g i 0)); range_ok val (input_range g bri i 1) (val (df_input g i 1));
      GetMin (type_of g i) \<le> val (df_input g i 0); val (df_input g i 0) \<le> GetMax (type_of g i);
      pre (val (df_input g i 0)) (val (df_input g i 1)) (input_range g bri i 0) (input_range g bri i 1)\<rbrakk>
    \<Longrightarrow> range_ok val (FitInType (calc g bri i) (type_of g i))
          (wrap (type_of g i) (f (type_of g i) (val (df_input g i 0)) (val (df_input g i 1))))"
begin

lemma visit_sound:
  assumes t: "representable (type_of g i) (f (type_of g i) (val (df_input g i 0)) (val (df_input g i 1)))"
    and b: "bri_sound g val bri (bb_of g i)"
    and v: "val_ok g val (df_input g i 0)" "val_ok g val (df_input g i 1)"
    and x: "GetMin (type_of g i) \<le> val (df_input g i 0)" "val (df_input g i 0) \<le> GetMax (type_of g i)"
    and pre: "pre (val (df_input g i 0)) (val (df_input g i 1)) (input_range g bri i 0) (input_range g bri i 1)"
    and i: "val i = wrap (type_of g i) (f (type_of g i) (val (df_input g i 0)) (val (df_input g i 1)))" "\<not> IsConst g i"
  shows "bri_sound g val (CalcNewBoundsRangeBinary g calc bri i) (bb_of g i)"
proof -
  have r: "range_ok val (input_range g bri i 0) (val (df_input g i 0))" "range_ok val (input_range g bri i 1) (val (df_input g i 1))"
    unfolding input_range_def using b v by (auto intro: FindBoundsRange_sound)
  have "range_ok val (FitInType full_range (type_of g i)) (val i)"
    unfolding i(1) using t by (intro fit_ok) simp_all
  moreover have "range_ok val (FitInType (calc g bri i) (type_of g i)) (val i)"
    unfolding i(1) using calc_ok t v r x pre by blast
  ultimately show ?thesis
    using b i(2) by (auto simp: CalcNewBoundsRangeBinary_def Let_def intro!: SetBoundsRange_sound)
qed

end

lemma range_len_None [simp]:
  "GetLenArray (Range_Add a b) = None" "GetLenArray (Range_Sub a b) = None" "GetLenArray (Range_Mul a b) = None"
  "GetLenArray (Range_Div a b) = None" "GetLenArray (Range_Mod a b) = None" "GetLenArray (Range_And a b) = None"
  "GetLenArray (Range_Neg a) = None" "GetLenArray (Range_Abs a) = None" "GetLenArray (Range_Shl a b t) = None" "GetLenArray (Range_Shr a b t) = None" "GetLenArray (Range_AShr a b t) = None"
  by (auto simp: Range_Neg_def Range_Abs_def Range_Add_def Range_Sub_def Range_Mul_def Range_Div_def Range_Mod_def Range_And_def
      Range_Shl_def Range_Shr_def Range_AShr_def Let_def split: option.split)

lemma wf_SetLenArray [simp]: "wf_range (SetLenArray a r) = wf_range r"
  by (simp add: wf_range_def)

lemma in_SetLenArray [simp]: "in_range x (SetLenArray a r) = in_range x r"
  by (simp add: in_range_def)

lemma IsMaxRange_full: "is_int_type t \<Longrightarrow> IsMaxRange full_range t"
  using GetMin_GetMax [of t] by (simp add: IsMaxRange_def)

lemma add_noov:
  assumes "is_int_type t" "wf_range a" "wf_range b" "in_range x a" "in_range y b" "\<not> IsMaxRange (Range_Add a b) t"
  shows "i64 (x + y) = x + y"
  using assms IsMaxRange_full [of t] by (intro i64_in) (auto simp: Range_Add_eq in_range_def split: if_splits)

lemma sub_noov:
  assumes "is_int_type t" "wf_range a" "wf_range b" "in_range x a" "in_range y b" "\<not> IsMaxRange (Range_Sub a b) t"
    "y \<noteq> MIN_RANGE_VALUE"
  shows "i64 (x - y) = x - y"
proof -
  have n: "(if GetRight b = MIN_RANGE_VALUE then MAX_RANGE_VALUE else - GetRight b) \<le> - y"
    "- y \<le> (if GetLeft b = MIN_RANGE_VALUE then MAX_RANGE_VALUE else - GetLeft b)"
    using assms by (auto simp: wf_range_def in_range_def MIN_RANGE_VALUE_def MAX_RANGE_VALUE_def)
  have "MIN_RANGE_VALUE \<le> GetLeft a + (if GetRight b = MIN_RANGE_VALUE then MAX_RANGE_VALUE else - GetRight b)
      \<and> GetRight a + (if GetLeft b = MIN_RANGE_VALUE then MAX_RANGE_VALUE else - GetLeft b) \<le> MAX_RANGE_VALUE" (is ?A)
  proof (rule ccontr)
    assume "\<not> ?A"
    then have "Range_Sub a b = full_range" unfolding Range_Sub_eq(1) [OF assms(2,3)] by (rule if_not_P)
    with assms(6) IsMaxRange_full [OF assms(1)] show False by simp
  qed
  moreover have "GetLeft a \<le> x" "x \<le> GetRight a" using assms(4) by (auto simp: in_range_def)
  ultimately have "MIN_RANGE_VALUE \<le> x - y" "x - y \<le> MAX_RANGE_VALUE" using n by linarith+
  then show ?thesis by (rule i64_in)
qed

interpretation calc_add: range_calc CalcNewBoundsRangeAdd "\<lambda>t x y. x + y" "\<lambda>x y a b. True"
proof (unfold_locales, goal_cases)
  case (1 g i val bri)
  let ?x = "val (df_input g i 0)" and ?y = "val (df_input g i 1)"
  let ?a = "input_range g bri i 0" and ?b = "input_range g bri i 1"
  have t: "is_int_type (type_of g i)" using representable_type [OF 1(1)] by blast
  have ab: "wf_range ?a" "wf_range ?b" "in_range ?x ?a" "in_range ?y ?b" using 1 by (auto simp: range_ok_def)
  note e = add_noov [OF t ab]
  have w: "wf_range (Range_Add ?a ?b)" "in_range (i64 (?x + ?y)) (Range_Add ?a ?b)"
    using add_op.keeps_wf [OF t ab(1,2)] add_op.sound [OF t ab] by auto
  show ?case
  proof (rule fit_ok [OF 1(1)])
    show "wf_range (CalcNewBoundsRangeAdd g bri i)" "in_range (i64 (?x + ?y)) (CalcNewBoundsRangeAdd g bri i)"
      using w by (auto simp: CalcNewBoundsRangeAdd_def Let_def)
    show "i64 (?x + ?y) < val c \<and> 0 \<le> val c" if "GetLenArray (CalcNewBoundsRangeAdd g bri i) = Some c" for c
      using that e 1 ab by (auto simp: CalcNewBoundsRangeAdd_def Let_def range_ok_def val_ok_def IsMoreOrEqual_def IsNegative_def
          in_range_def split: if_splits)
  qed
qed

interpretation calc_sub: range_calc CalcNewBoundsRangeSub "\<lambda>t x y. x - y" "\<lambda>x y a b. y \<noteq> MIN_RANGE_VALUE"
proof (unfold_locales, goal_cases)
  case (1 g i val bri)
  let ?x = "val (df_input g i 0)" and ?y = "val (df_input g i 1)"
  let ?a = "input_range g bri i 0" and ?b = "input_range g bri i 1"
  have t: "is_int_type (type_of g i)" using representable_type [OF 1(1)] by blast
  have ab: "wf_range ?a" "wf_range ?b" "in_range ?x ?a" "in_range ?y ?b" using 1 by (auto simp: range_ok_def)
  note e = sub_noov [OF t ab _ 1(8)]
  have w: "wf_range (Range_Sub ?a ?b)" "in_range (i64 (?x - ?y)) (Range_Sub ?a ?b)"
    using sub_op.keeps_wf [OF t ab(1,2)] sub_op.sound [OF t ab 1(8)] by auto
  show ?case
  proof (rule fit_ok [OF 1(1)])
    show "wf_range (CalcNewBoundsRangeSub g bri i)" "in_range (i64 (?x - ?y)) (CalcNewBoundsRangeSub g bri i)"
      using w by (auto simp: CalcNewBoundsRangeSub_def Let_def)
    show "i64 (?x - ?y) < val c \<and> 0 \<le> val c" if "GetLenArray (CalcNewBoundsRangeSub g bri i) = Some c" for c
      using that e 1 ab by (auto simp: CalcNewBoundsRangeSub_def Let_def range_ok_def val_ok_def IsNotNegative_def IsMore_def
          in_range_def split: if_splits)
  qed
qed

lemma calc_plain:
  assumes "representable t v" "wf_range r" "in_range (i64 v) r" "GetLenArray r = None"
  shows "range_ok val (FitInType r t) (wrap t v)"
  using assms by (intro fit_ok) simp_all

interpretation calc_mul: range_calc CalcNewBoundsRangeMul "\<lambda>t x y. x * y" "\<lambda>x y. mul_exact"
proof (unfold_locales, goal_cases)
  case (1 g i val bri)
  have t: "is_int_type (type_of g i)" using representable_type [OF 1(1)] by blast
  show ?case
    using 1 mul_op.keeps_wf [OF t] mul_op.sound [OF t]
    by (intro calc_plain) (auto simp: CalcNewBoundsRangeMul_def Let_def range_ok_def)
qed

interpretation calc_and: range_calc CalcNewBoundsRangeAnd "\<lambda>t x y. x AND y" "\<lambda>x y a b. True"
proof (unfold_locales, goal_cases)
  case (1 g i val bri)
  have t: "is_int_type (type_of g i)" using representable_type [OF 1(1)] by blast
  show ?case
    using 1 and_op.keeps_wf [OF t] and_op.sound [OF t]
    by (intro calc_plain) (auto simp: CalcNewBoundsRangeAnd_def range_ok_def)
qed

interpretation calc_shl: range_calc CalcNewBoundsRangeShl ir_shl "\<lambda>x y a b. True"
proof (unfold_locales, goal_cases)
  case (1 g i val bri)
  have t: "is_int_type (type_of g i)" using representable_type [OF 1(1)] by blast
  show ?case
    using 1 shl_op.keeps_wf [OF t] shl_op.sound [OF t]
    by (intro calc_plain) (auto simp: CalcNewBoundsRangeShl_def range_ok_def)
qed

lemma sdiv_nonneg_le: "0 \<le> x \<Longrightarrow> 0 \<le> y \<Longrightarrow> 0 \<le> x sdiv y \<and> x sdiv y \<le> x" for x y :: int
proof -
  assume a: "0 \<le> x" "0 \<le> y"
  then have "0 \<le> x sdiv y" by (cases "y = 0") (auto simp: signed_divide_int_def sgn_if pos_imp_zdiv_nonneg_iff)
  with sdiv_abs_le [of x y] a show ?thesis by auto
qed

interpretation calc_div: range_calc CalcNewBoundsRangeDiv "\<lambda>t x y. x sdiv y" "\<lambda>x y a b. True"
proof (unfold_locales, goal_cases)
  case (1 g i val bri)
  let ?x = "val (df_input g i 0)" and ?y = "val (df_input g i 1)"
  let ?a = "input_range g bri i 0" and ?b = "input_range g bri i 1"
  have t: "is_int_type (type_of g i)" using representable_type [OF 1(1)] by blast
  have ab: "wf_range ?a" "wf_range ?b" "in_range ?x ?a" "in_range ?y ?b" using 1 by (auto simp: range_ok_def)
  show ?case
  proof (rule fit_ok [OF 1(1)])
    show "wf_range (CalcNewBoundsRangeDiv g bri i)" "in_range (i64 (?x sdiv ?y)) (CalcNewBoundsRangeDiv g bri i)"
      using div_op.keeps_wf [OF t ab(1,2)] div_op.sound [OF t ab] by (auto simp: CalcNewBoundsRangeDiv_def Let_def)
    fix c assume c: "GetLenArray (CalcNewBoundsRangeDiv g bri i) = Some c"
    then have "0 \<le> ?x" "0 \<le> ?y" "GetLenArray ?a = Some c" using ab
      by (auto simp: CalcNewBoundsRangeDiv_def Let_def IsNotNegative_def in_range_def split: if_splits)
    moreover from this sdiv_nonneg_le [of ?x ?y] ab have "i64 (?x sdiv ?y) = ?x sdiv ?y"
      by (intro i64_in) (auto simp: wf_range_def in_range_def intro: order_trans [OF MIN_MAX(4)])
    ultimately show "i64 (?x sdiv ?y) < val c \<and> 0 \<le> val c"
      using sdiv_nonneg_le [of ?x ?y] 1(4) by (auto simp: range_ok_def)
  qed
qed

lemma ashr_less: "x < (l::int) \<Longrightarrow> 0 \<le> l \<Longrightarrow> drop_bit n x < l"
proof (cases "0 \<le> x")
  case False
  then have "drop_bit n x < 0" by simp
  moreover assume "0 \<le> l"
  ultimately show ?thesis by linarith
next
  case True
  assume "x < l"
  then show ?thesis using drop_bit_bounds(2) [of x x n] True by linarith
qed

interpretation calc_ashr: range_calc CalcNewBoundsRangeAShr ir_ashr "\<lambda>x y a b. True"
proof (unfold_locales, goal_cases)
  case (1 g i val bri)
  let ?x = "val (df_input g i 0)" and ?y = "val (df_input g i 1)" and ?t = "type_of g i"
  let ?a = "input_range g bri i 0" and ?b = "input_range g bri i 1"
  have t: "is_int_type ?t" using representable_type [OF 1(1)] by blast
  have ab: "wf_range ?a" "wf_range ?b" "in_range ?x ?a" "in_range ?y ?b" using 1 by (auto simp: range_ok_def)
  show ?case
  proof (rule fit_ok [OF 1(1)])
    show "wf_range (CalcNewBoundsRangeAShr g bri i)" "in_range (i64 (ir_ashr ?t ?x ?y)) (CalcNewBoundsRangeAShr g bri i)"
      using ashr_op.keeps_wf [OF t ab(1,2)] ashr_op.sound [OF t ab] by (auto simp: CalcNewBoundsRangeAShr_def Let_def)
    fix c assume c: "GetLenArray (CalcNewBoundsRangeAShr g bri i) = Some c"
    then have "GetLenArray ?a = Some c" by (auto simp: CalcNewBoundsRangeAShr_def Let_def split: if_splits)
    moreover have "i64 (ir_ashr ?t ?x ?y) = ir_ashr ?t ?x ?y" using ab
      by (intro i64_in) (auto simp: ir_ashr_def wf_range_def in_range_def intro!: drop_bit_bounds)
    ultimately show "i64 (ir_ashr ?t ?x ?y) < val c \<and> 0 \<le> val c"
      using 1(4) by (auto simp: range_ok_def ir_ashr_def intro: ashr_less)
  qed
qed

interpretation calc_mod: range_calc CalcNewBoundsRangeMod "\<lambda>t x y. x smod y"
  "\<lambda>x y a b. y \<noteq> 0 \<and> (GetLenArray a = None \<or> IsNotNegative a \<or> GetLenArray b \<noteq> None \<and> IsNotNegative b)"
proof (unfold_locales, goal_cases)
  case (1 g i val bri)
  let ?x = "val (df_input g i 0)" and ?y = "val (df_input g i 1)"
  let ?a = "input_range g bri i 0" and ?b = "input_range g bri i 1"
  have t: "is_int_type (type_of g i)" using representable_type [OF 1(1)] by blast
  have ab: "wf_range ?a" "wf_range ?b" "in_range ?x ?a" "in_range ?y ?b" and y: "?y \<noteq> 0" using 1 by (auto simp: range_ok_def)
  note s = smod_bounds [OF y, of ?x]
  have id: "i64 (?x smod ?y) = ?x smod ?y"
    using s(1) ab(2,4) max_mod_props(2,3) [OF ab(2)] y
    by (intro i64_in) (auto simp: wf_range_def in_range_def MIN_RANGE_VALUE_def MAX_RANGE_VALUE_def)
  show ?case
  proof (rule fit_ok [OF 1(1)])
    show "wf_range (CalcNewBoundsRangeMod g bri i)" "in_range (i64 (?x smod ?y)) (CalcNewBoundsRangeMod g bri i)"
      using mod_op.keeps_wf [OF t ab(1,2)] mod_op.sound [OF t ab y] by (auto simp: CalcNewBoundsRangeMod_def Let_def)
    fix c assume c: "GetLenArray (CalcNewBoundsRangeMod g bri i) = Some c"
    then consider "GetLenArray ?b = Some c" "IsNotNegative ?b"
      | "GetLenArray ?a = Some c" "\<not> (GetLenArray ?b \<noteq> None \<and> IsNotNegative ?b)"
      | "IsLenArray g (df_input g i 1)" "c = df_input g i 1"
      by (auto simp: CalcNewBoundsRangeMod_def Let_def split: if_splits)
    then show "i64 (?x smod ?y) < val c \<and> 0 \<le> val c"
    proof cases
      case 1
      then show ?thesis unfolding id using s(1) \<open>range_ok val ?b ?y\<close> by (auto simp: range_ok_def IsNotNegative_def in_range_def)
    next
      case 2
      then show ?thesis unfolding id using s \<open>range_ok val ?a ?x\<close> \<open>_ \<and> (GetLenArray ?a = None \<or> _)\<close>
        by (auto simp: range_ok_def IsNotNegative_def in_range_def)
    next
      case 3
      then show ?thesis unfolding id using s(1) y \<open>val_ok g val (df_input g i 1)\<close> by (auto simp: val_ok_def)
    qed
  qed
qed

lemma wrap_shr_le:
  assumes "is_int_type t" "t \<noteq> BOOL" "x \<le> GetMax t" "0 \<le> x"
  shows "wrap t (ir_shr t x y) \<le> x"
  using shr_nonneg(2) [OF assms(1,2,4,3), of y] drop_bit_bounds(2) [of x x] assms(4) by simp

interpretation calc_shr: range_calc CalcNewBoundsRangeShr ir_shr "\<lambda>x y a b. True"
proof (unfold_locales, goal_cases)
  case (1 g i val bri)
  let ?x = "val (df_input g i 0)" and ?y = "val (df_input g i 1)" and ?t = "type_of g i"
  let ?a = "input_range g bri i 0" and ?b = "input_range g bri i 1"
  let ?r = "Range_Shr ?a ?b ?t"
  have t: "is_int_type ?t" and t': "?t \<noteq> BOOL" using representable_type [OF 1(1)] by blast+
  have ab: "wf_range ?a" "wf_range ?b" "in_range ?x ?a" "in_range ?y ?b" using 1 by (auto simp: range_ok_def)
  have s: "wf_range (FitInType ?r ?t)" "in_range (wrap ?t (ir_shr ?t ?x ?y)) (FitInType ?r ?t)"
    using FitInType_wf [OF t Range_Shr_wf [OF t ab(1,2)]] Range_Shr_sound [OF t t' ab(1,2,3) 1(6,7) ab(4)] by auto
  show ?case
  proof (cases "IsNotNegative ?a \<and> GetLenArray ?a \<noteq> None")
    case False
    then have "CalcNewBoundsRangeShr g bri i = ?r" by (auto simp: CalcNewBoundsRangeShr_def Let_def)
    with s show ?thesis by (auto simp: range_ok_def FitInType_def Let_def split: if_splits)
  next
    case True
    then obtain c where c: "GetLenArray ?a = Some c" by auto
    have pos: "0 \<le> ?x" using True ab by (auto simp: IsNotNegative_def in_range_def)
    have "wrap ?t (ir_shr ?t ?x ?y) \<le> ?x" using t t' 1(7) pos by (rule wrap_shr_le)
    moreover have "?x < val c" "0 \<le> val c" using c 1(4) by (auto simp: range_ok_def)
    moreover have "FitInType (SetLenArray c ?r) ?t = FitInType ?r ?t \<or> FitInType (SetLenArray c ?r) ?t = SetLenArray c (FitInType ?r ?t)"
      by (simp add: FitInType_def Let_def)
    moreover have "CalcNewBoundsRangeShr g bri i = SetLenArray c ?r" using True c by (simp add: CalcNewBoundsRangeShr_def Let_def)
    moreover have "GetLenArray (FitInType ?r ?t) = None" by (simp add: FitInType_def Let_def)
    ultimately show ?thesis using s by (auto simp: range_ok_def)
  qed
qed

lemma narrow_len:
  "GetLenArray (fst (TryNarrowBoundsByCC cc (a, b))) \<in> {None, GetLenArray a}
   \<and> GetLenArray (snd (TryNarrowBoundsByCC cc (a, b))) \<in> {None, GetLenArray b}"
  unfolding TryNarrowBoundsByCC_def Let_def narrow_defs NarrowBoundsByNE_def
  by (cases cc) (simp_all split: if_split)

section \<open>Conditions and phis\<close>

lemma fit_range_ok:
  assumes "range_ok val r v" "is_int_type t \<or> t = REFERENCE" "GetMin t \<le> v" "v \<le> GetMax t"
  shows "range_ok val (FitInType r t) v"
  using assms type_bounds [OF assms(2)] by (auto simp: range_ok_def FitInType_def Let_def)

lemma compare_sound:
  assumes b: "bri_sound g val bri block" "bri_sound g val bri tgt"
    and v: "val_ok g val l" "val_ok g val r"
    and cc: "Compare cc (word_of_int (val l) :: u64) (word_of_int (val r))"
    and u: "cc_unsigned cc \<Longrightarrow> IsNotNegative (FindBoundsRange g bri block l) \<and> IsNotNegative (FindBoundsRange g bri block r)"
  shows "bri_sound g val (CalcNewBoundsRangeForCompare g bri block cc l r tgt) tgt"
proof -
  let ?L = "FindBoundsRange g bri block l" and ?R = "FindBoundsRange g bri block r"
  have ok: "range_ok val ?L (val l)" "range_ok val ?R (val r)" using FindBoundsRange_sound [OF b(1)] v by auto
  have ci: "cc_int cc (val l) (val r)"
    using ok u by (intro Compare_int [OF _ _ _ _ _ cc]) (auto simp: range_ok_def wf_range_def in_range_def IsNotNegative_def)
  obtain p q where pq: "TryNarrowBoundsByCC cc (?L, ?R) = (p, q)" by (cases "TryNarrowBoundsByCC cc (?L, ?R)")
  have wf: "wf_range p" "wf_range q" using TryNarrowBoundsByCC_wf [OF _ _ pq] ok by (auto simp: range_ok_def)
  have inr: "in_range (val l) p" "in_range (val r) q"
    using TryNarrow_sound [of ?L ?R "val l" "val r" cc] ok ci pq by (auto simp: range_ok_def)
  have len: "GetLenArray p = None \<or> GetLenArray p = GetLenArray ?L" "GetLenArray q = None \<or> GetLenArray q = GetLenArray ?R"
    using narrow_len [of cc ?L ?R] pq by auto
  have base: "range_ok val p (val l)" "range_ok val q (val r)" using wf inr len ok by (auto simp: range_ok_def)
  have set_l: "range_ok val (SetLenArray a p) (val l)" if "val l < val a" "0 \<le> val a" for a
    using base that by (simp add: range_ok_def)
  have set_r: "range_ok val (SetLenArray a q) (val r)" if "val r < val a" "0 \<le> val a" for a
    using base that by (simp add: range_ok_def)
  have fit: "range_ok val (FitInType x (type_of g l)) (val l)" if "range_ok val x (val l)" for x
    using that v(1) by (intro fit_range_ok) (auto simp: val_ok_def)
  have fit': "range_ok val (FitInType x (type_of g r)) (val r)" if "range_ok val x (val r)" for x
    using that v(2) by (intro fit_range_ok) (auto simp: val_ok_def)
  have two: "bri_sound g val (SetBoundsRange g (SetBoundsRange g bri tgt l (FitInType x (type_of g l))) tgt r (FitInType y (type_of g r))) tgt"
    if "range_ok val x (val l)" "range_ok val y (val r)" for x y
    using that b(2) v fit fit' by (intro SetBoundsRange_sound) auto
  have lr: "cc = CC_LT \<and> IsLenArray g r \<Longrightarrow> val l < val r \<and> 0 \<le> val r" "cc = CC_GT \<and> IsLenArray g l \<Longrightarrow> val r < val l \<and> 0 \<le> val l"
    using ci v by (auto simp: val_ok_def)
  show ?thesis
    unfolding CalcNewBoundsRangeForCompare_def Let_def pq prod.case
    using lr ok b(2) base set_l set_r by (auto intro!: two simp: range_ok_def [of val ?L] range_ok_def [of val ?R])
qed

lemma find_in_dominators_cong:
  assumes "\<And>d j. doms g b d \<Longrightarrow> bri_at bri' d j = bri_at bri d j"
  shows "find_in_dominators fuel g bri' (Some b) i = find_in_dominators fuel g bri (Some b) i"
  using assms
proof (induction fuel arbitrary: b)
  case (Suc fuel)
  have e: "bri_at bri' b i = bri_at bri b i" using Suc.prems doms_refl by blast
  show ?case
  proof (cases "GetDominator (the_block g b)")
    case (Some d)
    have "find_in_dominators fuel g bri' (Some d) i = find_in_dominators fuel g bri (Some d) i"
      using Suc.prems Some by (intro Suc.IH) (blast intro: doms_step)
    with e Some show ?thesis by (simp split: option.split)
  next
    case None
    with e show ?thesis by (cases fuel) (simp_all split: option.split)
  qed
qed simp

lemma bri_at_Set_other: "d \<noteq> tgt \<Longrightarrow> bri_at (SetBoundsRange g bri tgt i r) d j = bri_at bri d j"
  by (auto simp: SetBoundsRange_def Let_def bri_at_upd)

lemma bri_at_compare_other: "d \<noteq> tgt \<Longrightarrow> bri_at (CalcNewBoundsRangeForCompare g bri block cc l r tgt) d j = bri_at bri d j"
  by (simp add: CalcNewBoundsRangeForCompare_def Let_def bri_at_Set_other split: prod.split)

lemma FindBoundsRange_compare_other:
  "\<not> doms g b tgt \<Longrightarrow> FindBoundsRange g (CalcNewBoundsRangeForCompare g bri block cc l r tgt) b j = FindBoundsRange g bri b j"
proof -
  assume "\<not> doms g b tgt"
  then have "find_in_dominators n g (CalcNewBoundsRangeForCompare g bri block cc l r tgt) (Some b) j =
      find_in_dominators n g bri (Some b) j" for n
    by (intro find_in_dominators_cong) (metis bri_at_compare_other)
  then show ?thesis by (simp only: FindBoundsRange_def)
qed

lemma SetBoundsRange_other:
  assumes "\<not> doms g c b" "bri_sound g val bri c"
  shows "bri_sound g val (SetBoundsRange g bri b i r) c"
  using assms by (auto simp: bri_sound_def SetBoundsRange_def Let_def bri_at_upd split: if_splits)

lemma compare_other:
  assumes "\<not> doms g c tgt" "bri_sound g val bri c"
  shows "bri_sound g val (CalcNewBoundsRangeForCompare g bri block cc l r tgt) c"
  using assms by (auto simp: CalcNewBoundsRangeForCompare_def Let_def split: prod.split intro!: SetBoundsRange_other)

text \<open>
  C15: a branch on a comparison refines the table soundly on the edge that is taken.  For a boolean branch
  that compares with zero by \<^verbatim>\<open>CC_NE\<close> or \<^verbatim>\<open>CC_EQ\<close>, as the visitor asserts, when the ranges
  recorded for the block of the branch and for the target hold, the values of the compared
  instructions are those compared at run time, of integer type or references and within the bounds of their types
  (of type \<^verbatim>\<open>UINT64\<close>: below \<open>2 ^ 63\<close>), and the other target dominates neither the one taken nor the block, then
  \<^verbatim>\<open>VisitIfImm\<close> succeeds and all ranges recorded for the target taken still hold: the two operands are in
  their narrowed ranges and below the array length attached to them.  For the unsigned codes the ranges of both
  operands before the branch must be non-negative; without that the statement is false, since these codes are narrowed
  as signed ones.
\<close>

theorem VisitIfImm_sound:
  fixes g :: graph and i :: inst_id
  defines "cmp \<equiv> GetInput g i 0" and "block \<equiv> bb_of g i"
  defines "l \<equiv> GetInput g cmp 0" and "r \<equiv> GetInput g cmp 1" and "cc \<equiv> GetCc (the_inst g cmp)"
  defines "holds \<equiv> (\<lambda>val. Compare cc (word_of_int (val l) :: u64) (word_of_int (val r)))"
  defines "ne \<equiv> GetCc (the_inst g i) = CC_NE"
  assumes if_inst: "operandsType (the_inst g i) = BOOL" "opcode_of g cmp = Op_Compare"
      "GetCc (the_inst g i) \<in> {CC_NE, CC_EQ}" "GetImm (the_inst g i) = 0"
    and v: "val_ok g val l" "val_ok g val r"
    and succ: "taken = (if holds val = ne then GetTrueSuccessor g block else GetFalseSuccessor g block)"
      "other = (if holds val = ne then GetFalseSuccessor g block else GetTrueSuccessor g block)"
      "\<not> doms g taken other" "\<not> doms g block other"
    and b: "bri_sound g val bri block" "bri_sound g val bri taken"
    and u: "cc_unsigned cc \<Longrightarrow> IsNotNegative (FindBoundsRange g bri block l) \<and> IsNotNegative (FindBoundsRange g bri block r)"
  shows "\<exists>bri'. VisitIfImm g bri i = Some bri' \<and> bri_sound g val bri' taken"
proof -
  let ?C = "CalcNewBoundsRangeForCompare"
  let ?t = "if ne then GetTrueSuccessor g block else GetFalseSuccessor g block"
  let ?f = "if ne then GetFalseSuccessor g block else GetTrueSuccessor g block"
  have ty: "\<not> ((GetCommonType (type_of g l) \<noteq> INT64 \<and> type_of g l \<noteq> REFERENCE) \<or>
     (GetCommonType (type_of g r) \<noteq> INT64 \<and> type_of g r \<noteq> REFERENCE))"
    using v by (auto simp: val_ok_def)
  let ?b2 = "?C g (?C g bri block cc l r ?t) block (GetInverseConditionCode cc) l r ?f"
  have V: "VisitIfImm g bri i = Some ?b2"
    using if_inst ty by (auto simp: VisitIfImm_def Let_def cmp_def block_def l_def r_def cc_def ne_def)
  have "bri_sound g val ?b2 taken"
  proof (cases "holds val")
    case True
    then have tk: "taken = ?t" "other = ?f" using succ by auto
    have "bri_sound g val (?C g bri block cc l r ?t) taken"
      unfolding tk(1) using b v u True by (intro compare_sound) (auto simp: holds_def tk)
    moreover have "\<not> doms g taken ?f" using succ(3) tk by simp
    ultimately show ?thesis by (intro compare_other [where c = taken and tgt = ?f])
  next
    case False
    then have tk: "taken = ?f" "other = ?t" using succ by auto
    have nd: "\<not> doms g taken ?t" "\<not> doms g block ?t" using succ(3,4) tk by simp_all
    let ?b = "?C g bri block cc l r ?t"
    have f: "FindBoundsRange g ?b block j = FindBoundsRange g bri block j" for j
      using nd(2) by (simp add: FindBoundsRange_compare_other)
    have inv: "Compare (GetInverseConditionCode cc) (word_of_int (val l) :: u64) (word_of_int (val r))"
      using False by (cases cc) (auto simp: holds_def)
    have "cc_unsigned (GetInverseConditionCode cc) = cc_unsigned cc" by (cases cc) (simp_all add: cc_unsigned_def)
    then show ?thesis unfolding tk(1)
      using b v u inv nd f tk by (intro compare_sound) (auto intro: compare_other)
  qed
  with V show ?thesis by blast
qed

lemma those_nth: "those xs = Some ys \<Longrightarrow> length ys = length xs \<and> (\<forall>k < length xs. xs ! k = Some (ys ! k))"
proof (induction xs arbitrary: ys)
  case (Cons x xs)
  then obtain y zs where "x = Some y" "those xs = Some zs" "ys = y # zs"
    by (auto split: option.splits)
  with Cons.IH show ?case by (auto simp: nth_Cons split: nat.split)
qed simp

text \<open>
  C20: a phi outside countable loops gets a range that holds on whichever edge control arrives: if the
  ranges recorded for the predecessor \<open>p\<close> through which the block was entered hold and the phi has the
  value of its input for \<open>p\<close>, then after \<^verbatim>\<open>VisitPhi\<close> the ranges recorded for the block of the phi hold.
\<close>

theorem VisitPhi_sound:
  assumes phi: "opcode_of g i = Op_Phi" "val_ok g val i"
      "type_of g i \<noteq> REFERENCE \<Longrightarrow> ProcessCountableLoop g bri i = Some (False, bri)"
    and ret: "VisitPhi g bri i = Some bri'"
    and p: "p \<in> set (GetPredsBlocks (the_block g (bb_of g i)))" "GetPhiInput g i p = Some j"
    and val: "val i = val j" "val_ok g val j"
    and inputs_wf: "\<And>q k. q \<in> set (GetPredsBlocks (the_block g (bb_of g i))) \<Longrightarrow> GetPhiInput g i q = Some k
        \<Longrightarrow> wf_range (FindBoundsRange g bri q k)"
    and b: "bri_sound g val bri p" "bri_sound g val bri (bb_of g i)"
  shows "bri_sound g val bri' (bb_of g i)"
proof -
  have ty: "is_int_type (type_of g i) \<or> type_of g i = REFERENCE" "GetMin (type_of g i) \<le> val i" "val i \<le> GetMax (type_of g i)"
    using phi(2) by (auto simp: val_ok_def)
  have nf: "\<not> (IsFloatType (type_of g i) \<or> type_of g i = ANY \<or> type_of g i = POINTER)"
    using ty(1) by (cases "type_of g i") (auto simp: IsFloatType_def)
  from ret obtain rs where rs: "phi_ranges g bri i = Some rs"
    and bri': "bri' = SetBoundsRange g bri (bb_of g i) i (FitInType (Range_Union rs) (type_of g i))"
    using nf phi(3) unfolding VisitPhi_def by (cases "type_of g i = REFERENCE") auto
  let ?ps = "GetPredsBlocks (the_block g (bb_of g i))"
  let ?f = "\<lambda>block. map_option (FindBoundsRange g bri block) (GetPhiInput g i block)"
  have nth: "length rs = length ?ps" "\<And>k. k < length ?ps \<Longrightarrow> ?f (?ps ! k) = Some (rs ! k)"
    using those_nth [OF rs [unfolded phi_ranges_def]] by auto
  obtain k where k: "k < length ?ps" "?ps ! k = p" using p(1) by (auto simp: in_set_conv_nth)
  have rp: "FindBoundsRange g bri p j \<in> set rs" using nth(2) [OF k(1)] k p(2) nth(1) by (auto simp: in_set_conv_nth)
  have okp: "range_ok val (FindBoundsRange g bri p j) (val i)"
    unfolding val(1) using FindBoundsRange_sound [OF b(1) val(2)] .
  have wf: "wf_range q" if "q \<in> set rs" for q
  proof -
    from that obtain m where "m < length ?ps" "rs ! m = q" using nth(1) by (auto simp: in_set_conv_nth)
    with nth(2) [of m] inputs_wf [of "?ps ! m"] show ?thesis by auto
  qed
  have "wf_range (Range_Union rs)" using rp wf by (intro Range_Union_wf) auto
  moreover have "in_range (val i) (Range_Union rs)" using Range_Union_sound [OF rp] okp by (auto simp: range_ok_def)
  moreover have "GetLenArray (Range_Union rs) = None" by (simp add: Range_Union_def split: prod.split)
  ultimately have "range_ok val (Range_Union rs) (val i)" by (simp add: range_ok_def)
  then have "range_ok val (FitInType (Range_Union rs) (type_of g i)) (val i)" using ty by (intro fit_range_ok)
  then show ?thesis unfolding bri' using b(2) phi(1) by (intro SetBoundsRange_sound) (auto simp: IsConst_def)
qed

section \<open>Division by shifts\<close>

lemma sdiv_exp: "x sdiv 2 ^ n = (if x < 0 then x + 2 ^ n - 1 else x) div 2 ^ n" for x :: int
proof (cases "x < 0")
  case True
  define q r where "q = x div 2 ^ n" and "r = x mod 2 ^ n"
  have e: "x = q * 2 ^ n + r" and r: "0 \<le> r" "r < 2 ^ n" by (simp_all only: q_def r_def div_mult_mod_eq) simp_all
  show ?thesis
  proof (cases "r = 0")
    case r0: True
    then have "2 ^ n dvd x" by (simp add: r_def dvd_eq_mod_eq_0)
    then have "x sdiv 2 ^ n = q" using True by (simp add: signed_divide_int_eq_divide_int q_def)
    moreover have "(x + 2 ^ n - 1) div 2 ^ n = q"
      using e r0 by (intro int_div_pos_eq [where r = "2 ^ n - 1"]) (simp_all add: mult.commute)
    ultimately show ?thesis using True by simp
  next
    case False
    then have "\<not> 2 ^ n dvd x" by (simp add: r_def dvd_eq_mod_eq_0)
    then have "x sdiv 2 ^ n = q + 1" using True by (simp add: signed_divide_int_eq_divide_int q_def)
    moreover have "(x + 2 ^ n - 1) div 2 ^ n = q + 1"
      using e r False by (intro int_div_pos_eq [where r = "r - 1"]) (simp_all add: algebra_simps)
    ultimately show ?thesis using True by simp
  qed
next
  case False
  then show ?thesis by (cases "x = 0") (simp_all add: signed_divide_int_def sgn_if)
qed


lemma shift_amount_small: "t = INT32 \<or> t = INT64 \<Longrightarrow> 0 \<le> y \<Longrightarrow> y < int (type_bits t) \<Longrightarrow> shift_amount y t = nat y"
proof -
  assume t: "t = INT32 \<or> t = INT64" and y: "0 \<le> y" "y < int (type_bits t)"
  define k :: nat where "k = (if t = INT32 then 5 else 6)"
  have m: "int (size_mask t) = mask k" using t
    by (auto simp: k_def size_mask_def GetTypeSize_def ShiftByType_def ShiftByType_int_def mask_eq_exp_minus_1)
  have "y < 2 ^ k" using t y by (auto simp: k_def)
  then have "take_bit k y = y" using y by (intro take_bit_int_eq_self)
  moreover have "take_bit 64 y = y" using y t by (intro take_bit_int_eq_self) auto
  ultimately show ?thesis by (simp add: shift_amount_def m take_bit_eq_mask [symmetric])
qed

text \<open>
  The sequence of shifts that \<^verbatim>\<open>VisitAShr\<close> treats as a division is one: at 32 and 64 bits, for
  \<open>0 < n < size\<close>, adding the sign bits shifted down by \<open>size - n\<close> and shifting right by \<open>n\<close> gives the
  quotient by \<open>2\<^sup>n\<close> rounded towards zero, with every intermediate result wrapped to the type.
\<close>

theorem div_by_shifts:
  assumes t: "t = INT32 \<or> t = INT64" and x: "GetMin t \<le> x" "x \<le> GetMax t" and n: "0 < n" "n < type_bits t"
  defines "sign \<equiv> wrap t (ir_ashr t x (int (type_bits t) - 1))"
  defines "bias \<equiv> wrap t (ir_shr t sign (int (type_bits t) - int n))"
  shows "wrap t (ir_ashr t (wrap t (bias + x)) (int n)) = x sdiv 2 ^ n"
proof -
  let ?s = "type_bits t"
  have bi: "is_int_type t" using t by auto
  have mm: "GetMin t = - (2 ^ (?s - 1))" "GetMax t = 2 ^ (?s - 1) - 1"
    using t by (auto simp: MIN_RANGE_VALUE_def MAX_RANGE_VALUE_def)
  have s0: "0 < ?s" "?s = Suc (?s - 1)" using t by auto
  have "ir_ashr t x (int ?s - 1) = x div 2 ^ (?s - 1)"
    using shift_amount_small [OF t, of "int ?s - 1"] s0 by (simp add: ir_ashr_def drop_bit_eq_div nat_diff_distrib)
  also have "\<dots> = (if x < 0 then - 1 else 0)"
  proof (cases "x < 0")
    case True
    have "x div 2 ^ (?s - 1) = - 1"
      using x mm True by (intro int_div_pos_eq [where r = "x + 2 ^ (?s - 1)"]) simp_all
    with True show ?thesis by simp
  next
    case False
    with x mm show ?thesis by (simp add: div_pos_pos_trivial)
  qed
  finally have sign: "sign = (if x < 0 then - 1 else 0)"
    unfolding sign_def using bi t by (subst wrap_exact) (auto simp: MIN_RANGE_VALUE_def MAX_RANGE_VALUE_def)
  have pn: "(2::int) ^ n \<le> 2 ^ (?s - 1)" using n by (intro power_increasing) auto
  have p1: "(1::int) \<le> 2 ^ n" by simp
  have lo: "GetMin t \<le> 2 ^ n - 1" unfolding mm(1) using p1 pn by linarith
  have hi: "2 ^ n - 1 \<le> GetMax t" unfolding mm(2) using pn by linarith
  have "ir_shr t sign (int ?s - int n) = (if x < 0 then 2 ^ n - 1 else 0)"
  proof -
    have a: "shift_amount (int ?s - int n) t = ?s - n"
      using shift_amount_small [OF t, of "int ?s - int n"] n by (simp add: nat_diff_distrib)
    have "drop_bit (?s - n) (mask ?s :: int) = mask n"
      using n by (simp add: drop_bit_mask_eq)
    then show ?thesis unfolding ir_shr_def a sign by (simp add: take_bit_minus_one_eq_mask mask_eq_exp_minus_1)
  qed
  then have bias: "bias = (if x < 0 then 2 ^ n - 1 else 0)"
    unfolding bias_def using wrap_exact [OF bi lo hi] by (simp add: wrap_def)
  have sum: "wrap t (bias + x) = (if x < 0 then x + 2 ^ n - 1 else x)"
  proof (cases "x < 0")
    case True
    have "GetMin t \<le> 2 ^ n - 1 + x" "2 ^ n - 1 + x \<le> GetMax t" using p1 x(1) hi True by linarith+
    with True show ?thesis unfolding bias using wrap_exact [OF bi] by (simp add: algebra_simps)
  qed (use wrap_exact [OF bi x] in \<open>simp add: bias\<close>)
  have "ir_ashr t (wrap t (bias + x)) (int n) = x sdiv 2 ^ n"
    unfolding sum sdiv_exp using shift_amount_small [OF t, of "int n"] n by (simp add: ir_ashr_def drop_bit_eq_div)
  moreover have "GetMin t \<le> x sdiv 2 ^ n \<and> x sdiv 2 ^ n \<le> GetMax t"
  proof -
    have "0 \<le> \<bar>x\<bar> div 2 ^ n" by (simp add: pos_imp_zdiv_nonneg_iff)
    then show ?thesis using sdiv_abs_le [of x "2 ^ n"] x mm by (cases "x < 0") (auto simp: signed_divide_int_def sgn_if)
  qed
  ultimately show ?thesis using bi wrap_exact by simp
qed

theorem div_by_shifts_witness:
  "wrap INT32 (ir_ashr INT32 (wrap INT32 (wrap INT32 (ir_shr INT32 (wrap INT32 (ir_ashr INT32 (- 7) 31)) 30) + - 7)) 2) = - 1"
  using div_by_shifts [of INT32 "- 7" 2] by (simp add: signed_divide_int_def)

section \<open>Arithmetic instructions\<close>

text \<open>
  The results of the integer instructions before they are wrapped to their type; the unary ones ignore their
  second argument.  The visitor of a unary instruction looks at its input, that of a binary one behind checks.
\<close>

fun ir_arith :: "opcode \<Rightarrow> ir_type \<Rightarrow> int \<Rightarrow> int \<Rightarrow> int" where
  "ir_arith Op_Neg t x y = - x"
| "ir_arith Op_NegOverflowAndZeroCheck t x y = - x"
| "ir_arith Op_Abs t x y = \<bar>x\<bar>"
| "ir_arith Op_Add t x y = x + y"
| "ir_arith Op_AddOverflowCheck t x y = x + y"
| "ir_arith Op_Sub t x y = x - y"
| "ir_arith Op_SubOverflowCheck t x y = x - y"
| "ir_arith Op_Mul t x y = x * y"
| "ir_arith Op_Div t x y = x sdiv y"
| "ir_arith Op_Mod t x y = x smod y"
| "ir_arith Op_And t x y = x AND y"
| "ir_arith Op_Shl t x y = ir_shl t x y"
| "ir_arith Op_Shr t x y = ir_shr t x y"
| "ir_arith Op_AShr t x y = ir_ashr t x y"
| "ir_arith _ t x y = 0"

definition unary_ops :: "opcode set" where
  "unary_ops = {Op_Neg, Op_NegOverflowAndZeroCheck, Op_Abs}"

definition arith_ops :: "opcode set" where
  "arith_ops = unary_ops \<union> {Op_Add, Op_AddOverflowCheck, Op_Sub, Op_SubOverflowCheck, Op_Mul, Op_Div, Op_Mod, Op_And,
     Op_Shl, Op_Shr, Op_AShr}"

definition arith_input :: "graph \<Rightarrow> inst_id \<Rightarrow> nat \<Rightarrow> inst_id" where
  "arith_input g i n = (if opcode_of g i \<in> unary_ops then GetInput g i 0 else df_input g i n)"

definition arith_range :: "graph \<Rightarrow> bri \<Rightarrow> inst_id \<Rightarrow> nat \<Rightarrow> BoundsRange" where
  "arith_range g bri i n = FindBoundsRange g bri (bb_of g i) (arith_input g i n)"

text \<open>
  The cases in which the ranges are right, by opcode: the least \<^verbatim>\<open>int64_t\<close> is not negated, no corner of a product
  multiplies it by -1, and the divisor of a remainder is not zero; the length attached to a dividend of unknown sign is
  wrong for its remainder.
\<close>

fun arith_safe :: "opcode \<Rightarrow> int \<Rightarrow> int \<Rightarrow> BoundsRange \<Rightarrow> BoundsRange \<Rightarrow> bool" where
  "arith_safe Op_Neg x y a b = (x \<noteq> MIN_RANGE_VALUE)"
| "arith_safe Op_NegOverflowAndZeroCheck x y a b = (x \<noteq> MIN_RANGE_VALUE)"
| "arith_safe Op_Abs x y a b = (x \<noteq> MIN_RANGE_VALUE)"
| "arith_safe Op_Sub x y a b = (y \<noteq> MIN_RANGE_VALUE)"
| "arith_safe Op_SubOverflowCheck x y a b = (y \<noteq> MIN_RANGE_VALUE)"
| "arith_safe Op_Mul x y a b = mul_exact a b"
| "arith_safe Op_Mod x y a b =
     (y \<noteq> 0 \<and> (GetLenArray a = None \<or> IsNotNegative a \<or> GetLenArray b \<noteq> None \<and> IsNotNegative b))"
| "arith_safe _ x y a b = True"

text \<open>
  The instructions of a division by \<open>2\<^sup>n\<close> replaced by shifts have the values of their operations at the
  type of the division.
\<close>

definition shifts_hold :: "graph \<Rightarrow> (inst_id \<Rightarrow> int) \<Rightarrow> inst_id \<Rightarrow> bool" where
  "shifts_hold g val i \<longleftrightarrow>
     (let t = type_of g i; s = int (type_bits t); add = GetInput g i 0; shr = GetInput g add 0; ashr = GetInput g shr 0
      in case ashr_is_div g (type_bits t) i of
           None \<Rightarrow> True
         | Some (x, n) \<Rightarrow>
             t \<in> {INT32, INT64} \<and> 0 < n \<and> n < 32 \<and> val_ok g val x \<and> GetMin t \<le> val x \<and> val x \<le> GetMax t \<and>
             val ashr = wrap t (ir_ashr t (val x) (s - 1)) \<and>
             val shr = wrap t (ir_shr t (val ashr) (s - int (unat n))) \<and>
             val add = wrap t (val shr + val x) \<and>
             val i = wrap t (ir_ashr t (val add) (int (unat n))))"

lemma unary_sound:
  assumes op: "range_transfer (\<lambda>t x y. f x) (\<lambda>t a b. F a) (\<lambda>x y a b. x \<noteq> MIN_RANGE_VALUE)"
    "\<And>a. GetLenArray (F a) = None"
    and t: "representable (type_of g i) (f (val (GetInput g i 0)))" and b: "bri_sound g val bri (bb_of g i)"
    and v: "val_ok g val (GetInput g i 0)" "val (GetInput g i 0) \<noteq> MIN_RANGE_VALUE"
    and i: "val i = wrap (type_of g i) (f (val (GetInput g i 0)))" "\<not> IsConst g i"
  shows "bri_sound g val (CalcNewBoundsRangeUnary g F bri i) (bb_of g i)"
proof -
  let ?a = "FindBoundsRange g bri (bb_of g i) (GetInput g i 0)"
  have ti: "is_int_type (type_of g i)" using representable_type [OF t] by blast
  have a: "wf_range ?a" "in_range (val (GetInput g i 0)) ?a"
    using FindBoundsRange_sound [OF b v(1)] by (auto simp: range_ok_def)
  have "range_ok val (FitInType (F ?a) (type_of g i)) (val i)" unfolding i(1)
  proof (rule calc_plain [OF t])
    show "wf_range (F ?a)" using range_transfer.keeps_wf [OF op(1) ti a(1) wf_full_range] .
    show "in_range (i64 (f (val (GetInput g i 0)))) (F ?a)"
      using range_transfer.sound [OF op(1) ti a(1) wf_full_range a(2), of 0] v(2) by (simp add: in_range_def)
  qed (rule op(2))
  then show ?thesis
    using b i(2) by (auto simp: CalcNewBoundsRangeUnary_def Let_def intro!: SetBoundsRange_sound)
qed

lemmas neg_sound = unary_sound [OF neg_op.range_transfer_axioms]
lemmas abs_sound = unary_sound [OF abs_op.range_transfer_axioms]

lemma div_pattern_sound:
  assumes p: "ashr_is_div g (type_bits (type_of g i)) i = Some (x, n)" and s: "shifts_hold g val i"
    and b: "bri_sound g val bri (bb_of g i)" and nc: "\<not> IsConst g i"
    and size: "GetTypeSize (objectPointerSize g) (type_of g i) (GetArch g) = Some (type_bits (type_of g i))"
  shows "\<exists>bri'. VisitAShr g bri i = Some bri' \<and> bri_sound g val bri' (bb_of g i)"
proof -
  let ?t = "type_of g i" and ?r = "FindBoundsRange g bri (bb_of g i) x" and ?d = "2 ^ unat n :: int"
  have n: "?t = INT32 \<or> ?t = INT64" "0 < n" "n < 32" and x: "val_ok g val x" "GetMin ?t \<le> val x" "val x \<le> GetMax ?t"
    using s p by (auto simp: shifts_hold_def Let_def)
  have n32: "0 < unat n" "unat n < 32" using n(2,3) by (auto simp: unat_gt_0 word_less_nat_alt)
  have "val i = val x sdiv ?d"
    using div_by_shifts [OF n(1) x(2,3), of "unat n"] n32 n(1) s p by (auto simp: shifts_hold_def Let_def)
  moreover have r: "wf_range ?r" "in_range (val x) ?r" "\<And>a. GetLenArray ?r = Some a \<Longrightarrow> val x < val a \<and> 0 \<le> val a"
    using FindBoundsRange_sound [OF b x(1)] by (auto simp: range_ok_def)
  moreover have d: "1 \<le> ?d" "?d \<le> MAX_RANGE_VALUE" "wf_range (const_range ?d)" "in_range ?d (const_range ?d)"
  proof -
    have "?d \<le> 2 ^ 32" using n32 by (intro power_increasing) auto
    then show "?d \<le> MAX_RANGE_VALUE" by (simp add: MAX_RANGE_VALUE_def)
    then show "wf_range (const_range ?d)" by (simp add: wf_range_def order_trans [OF MIN_MAX(4)])
  qed (simp_all add: in_range_def)
  ultimately have v: "wf_range (Range_Div ?r (const_range ?d))" "in_range (i64 (val i)) (Range_Div ?r (const_range ?d))"
    using div_op.keeps_wf [OF _ r(1) d(3), of INT64] div_op.sound [OF _ r(1) d(3) r(2) d(4), of INT64] by auto
  have id: "i64 (val i) = val i"
    unfolding \<open>val i = _\<close> using sdiv_in [of "val x" ?d] r(1,2) d(1) by (intro i64_in) (auto simp: wf_range_def in_range_def)
  have len: "val i < val a \<and> 0 \<le> val a" if "IsNotNegative ?r" "GetLenArray ?r = Some a" for a
  proof -
    have "0 \<le> val x" using that(1) r(2) by (auto simp: IsNotNegative_def in_range_def)
    with sdiv_nonneg_le [of "val x" ?d] d(1) r(3) [OF that(2)] show ?thesis unfolding \<open>val i = _\<close> by linarith
  qed
  show ?thesis
    using p n32 n(3) v id len b nc
    by (auto simp: VisitAShr_def size shl_1U_def Let_def range_ok_def intro!: SetBoundsRange_sound)
qed

text \<open>
  C1: visiting an arithmetic instruction keeps the table of ranges sound, for each of the fourteen arithmetic opcodes
  the analysis visits and every integer type but \<^verbatim>\<open>BOOL\<close>.  If every range recorded for the blocks dominating the instruction
  holds of the values at run time, the operands obey their types, and the instruction has the result of its operation wrapped to
  its type (of type \<^verbatim>\<open>UINT64\<close>: below \<open>2 ^ 63\<close>, since bounds are \<^verbatim>\<open>int64_t\<close>), then \<^verbatim>\<open>VisitInstruction\<close> succeeds and every range
  recorded afterwards, array lengths included, holds, under these conditions: the operand of a negation or absolute value and
  the subtrahend are not \<^verbatim>\<open>INT64_MIN\<close>; no corner of the two ranges of a product multiplies \<^verbatim>\<open>INT64_MIN\<close> by -1; the divisor of a
  remainder is not zero, and the dividend has no length attached, or is known to be non-negative, or the divisor is known to be
  non-negative and has a length attached; an arithmetic shift that ends the pattern of a division by \<open>2\<^sup>n\<close> is at
  32 or 64 bits with \<open>0 < n < 32\<close>, and the other instructions of the pattern have the values of their operations at that type.
\<close>

theorem visit_arith_sound:
  assumes op: "opcode_of g i \<in> arith_ops" and t: "is_int_type (type_of g i)" "type_of g i \<noteq> BOOL"
    and b: "bri_sound g val bri (bb_of g i)"
    and v: "val_ok g val (arith_input g i 0)" "val_ok g val (arith_input g i 1)"
    and x: "GetMin (type_of g i) \<le> val (arith_input g i 0)" "val (arith_input g i 0) \<le> GetMax (type_of g i)"
    and safe: "arith_safe (opcode_of g i) (val (arith_input g i 0)) (val (arith_input g i 1))
        (arith_range g bri i 0) (arith_range g bri i 1)"
    and res: "val i = wrap (type_of g i)
        (ir_arith (opcode_of g i) (type_of g i) (val (arith_input g i 0)) (val (arith_input g i 1)))"
      "val i \<le> GetMax (type_of g i)"
    and shifts: "opcode_of g i = Op_AShr \<Longrightarrow> shifts_hold g val i"
  shows "\<exists>bri'. VisitInstruction g bri i = Some bri' \<and> bri_sound g val bri' (bb_of g i)"
proof -
  have nc: "\<not> IsConst g i" using op by (auto simp: IsConst_def arith_ops_def unary_ops_def)
  have r: "representable (type_of g i) (ir_arith (opcode_of g i) (type_of g i) (val (arith_input g i 0)) (val (arith_input g i 1)))"
    unfolding representable_iff res(1) [symmetric] using t res(2) by blast
  have size: "GetTypeSize (objectPointerSize g) (type_of g i) (GetArch g) = Some (type_bits (type_of g i))"
    using t by (cases "type_of g i") (auto simp: GetTypeSize_def ShiftByType_def ShiftByType_int_def)
  show ?thesis
  proof (cases "opcode_of g i \<in> unary_ops")
    case True
    then have a: "arith_input g i n = GetInput g i 0" for n by (simp add: arith_input_def)
    show ?thesis using True r v(1) safe res(1) b nc unfolding unary_ops_def a
      by (elim insertE emptyE) (simp_all add: VisitInstruction_def neg_sound abs_sound)
  next
    case False
    then have a: "arith_input g i = df_input g i" "arith_range g bri i = input_range g bri i"
      by (simp_all add: arith_input_def arith_range_def input_range_def fun_eq_iff)
    note s = calc_add.visit_sound [OF _ b v [unfolded a] x [unfolded a]] calc_sub.visit_sound [OF _ b v [unfolded a] x [unfolded a]]
      calc_mul.visit_sound [OF _ b v [unfolded a] x [unfolded a]] calc_div.visit_sound [OF _ b v [unfolded a] x [unfolded a]]
      calc_mod.visit_sound [OF _ b v [unfolded a] x [unfolded a]] calc_and.visit_sound [OF _ b v [unfolded a] x [unfolded a]]
      calc_shl.visit_sound [OF _ b v [unfolded a] x [unfolded a]] calc_shr.visit_sound [OF _ b v [unfolded a] x [unfolded a]]
      calc_ashr.visit_sound [OF _ b v [unfolded a] x [unfolded a]]
    show ?thesis
    proof (cases "opcode_of g i = Op_AShr")
      case True
      show ?thesis
      proof (cases "ashr_is_div g (type_bits (type_of g i)) i")
        case None
        with True s(9) r res(1) nc show ?thesis unfolding a by (simp add: VisitInstruction_def VisitAShr_def size)
      next
        case (Some p)
        then obtain y n where "ashr_is_div g (type_bits (type_of g i)) i = Some (y, n)" by (cases p) auto
        from div_pattern_sound [OF this shifts [OF True] b nc size] True show ?thesis by (simp add: VisitInstruction_def)
      qed
    next
      case no: False
      show ?thesis using op False no r safe res(1) nc unfolding arith_ops_def a
        by (elim UnE insertE emptyE)
          (use s in \<open>simp_all add: VisitInstruction_def VisitMul_def Let_def split: if_split\<close>)
    qed
  qed
qed

text \<open>A remainder whose dividend is known to be below an array length but may be negative.\<close>

definition mod_inst :: "opcode \<Rightarrow> ir_type \<Rightarrow> inst_id list \<Rightarrow> inst" where
  "mod_inst opc type ins =
     \<lparr>GetOpcode = opc, GetType = type, inputs = ins, operandsType = type, GetRawValue = 0, GetCc = CC_EQ, GetImm = 0,
      GetBasicBlock = 0, IsFcmpg = False, IsAllocation = False, GetArgNumber = 1, GetObject = 0, bbNums = []\<rparr>"

definition mod_graph :: graph where
  "mod_graph =
     \<lparr>insts = [mod_inst Op_Parameter REFERENCE [], mod_inst Op_LenArray INT32 [0], mod_inst Op_Parameter INT32 [],
               mod_inst Op_Parameter INT32 [], mod_inst Op_Mod INT32 [2, 3]],
      blocks = [\<lparr>GetPredsBlocks = [], GetSuccsBlocks = [], GetDominator = None, GetDominatedBlocks = [], GetLoop = 0,
                 AllInsts = [0, 1, 2, 3, 4]\<rparr>],
      loops = [], GetBlocksRPO = [0], GetStartBlock = 0, constList = [], IsBytecodeOptimizer = False,
      IsDynamicMethod = False, GetArch = X86_64, objectPointerSize = 8, rtMaxArrayLength = (\<lambda>_. None),
      rtIsMethodStatic = True\<rparr>"

definition mod_bri :: bri where
  "mod_bri = [0 \<mapsto> [2 \<mapsto> mk_range_len (- 10) 10 (Some 1)]]"

definition mod_val :: "inst_id \<Rightarrow> int" where
  "mod_val = (\<lambda>_. 0)(2 := - 5, 3 := 5)"

lemma doms_mod_graph: "doms mod_graph 0 d \<Longrightarrow> d = 0"
  by (induction "0 :: nat" d rule: doms.induct) (simp_all add: mod_graph_def)

text \<open>
  C39: the array length is attached wrongly to a remainder.  With \<open>a < len\<close> recorded for \<open>a = -5\<close> and
  an empty array (\<open>len = 0\<close>), all ranges recorded before the visit of \<open>a % 5\<close> hold, but the visit
  records that the remainder, which is 0, is less than the length: a remainder has the sign of the
  dividend or is zero, and zero is not below a zero length.
\<close>

theorem mod_len_array_unsound:
  "bri_sound mod_graph mod_val mod_bri 0
   \<and> val_ok mod_graph mod_val 2 \<and> val_ok mod_graph mod_val 3
   \<and> mod_val 4 = wrap INT32 (mod_val 2 smod mod_val 3)
   \<and> (\<exists>bri' r. VisitInstruction mod_graph mod_bri 4 = Some bri' \<and> bri_at bri' 0 4 = Some r
        \<and> GetLenArray r = Some 1 \<and> \<not> mod_val 4 < mod_val 1)"
proof (intro conjI)
  show "bri_sound mod_graph mod_val mod_bri 0"
    unfolding bri_sound_def
    by (auto simp: bri_at_def mod_bri_def mod_val_def range_ok_def in_range_def MIN_RANGE_VALUE_def MAX_RANGE_VALUE_def
        dest!: doms_mod_graph split: if_splits)
  show "val_ok mod_graph mod_val 2" "val_ok mod_graph mod_val 3"
    by (simp_all add: val_ok_def mod_graph_def mod_val_def mod_inst_def IsInstNotNull_def IsConst_def IsLenArray_def IsStringLength_def)
  show "mod_val 4 = wrap INT32 (mod_val 2 smod mod_val 3)" by code_simp
  have "map_option (\<lambda>bri. map_option GetLenArray (bri_at bri 0 4)) (VisitInstruction mod_graph mod_bri 4) = Some (Some (Some 1))"
    by code_simp
  moreover have "\<not> mod_val 4 < mod_val 1" by code_simp
  ultimately show "\<exists>bri' r. VisitInstruction mod_graph mod_bri 4 = Some bri' \<and> bri_at bri' 0 4 = Some r
      \<and> GetLenArray r = Some 1 \<and> \<not> mod_val 4 < mod_val 1" by (auto simp: map_option_case split: option.splits)
qed

section \<open>What the clients of the analysis rely on\<close>

text \<open>
  C31: the answers of the table are right for the checks they are used to remove.  If the recorded ranges
  hold, then a value whose range \<^verbatim>\<open>IsNotNegative\<close> and \<^verbatim>\<open>IsLess\<close> than an array length is an index
  within that array, a range \<^verbatim>\<open>IsLess\<close> than another orders the values, and a reference
  that \<^verbatim>\<open>IsInstNotNull\<close> is not null.
\<close>

theorem bounds_queries_sound:
  assumes "bri_sound g val bri b" "val_ok g val i" "val_ok g val j"
  shows "(IsNotNegative (FindBoundsRange g bri b i) \<and> IsLess_inst g (FindBoundsRange g bri b i) a
          \<longrightarrow> 0 \<le> val i \<and> val i < val a)
    \<and> (IsLess (FindBoundsRange g bri b i) (FindBoundsRange g bri b j) \<longrightarrow> val i < val j)
    \<and> (IsInstNotNull_at g bri i b \<longrightarrow> val i \<noteq> 0)"
proof -
  have ok: "range_ok val (FindBoundsRange g bri b i) (val i)" "range_ok val (FindBoundsRange g bri b j) (val j)"
    using FindBoundsRange_sound [OF assms(1)] assms(2,3) by auto
  have "val i \<noteq> 0" if "IsInstNotNull_at g bri i b"
    using that ok(1) assms(2) by (auto simp: IsInstNotNull_at_def IsMore_def range_ok_def in_range_def val_ok_def split: if_splits)
  then show ?thesis
    using ok by (auto simp: IsNotNegative_def IsLess_inst_def IsLess_def range_ok_def in_range_def)
qed

section \<open>A worked example\<close>

text \<open>
  \<^verbatim>\<open>y = x + 1; if (y < array.length) ... else ...; z = phi(x, y)\<close> with \<open>x = 3\<close> and an array of ten elements.
\<close>

definition ex_inst :: "opcode \<Rightarrow> ir_type \<Rightarrow> inst_id list \<Rightarrow> block_id \<Rightarrow> inst" where
  "ex_inst opc type ins b =
     \<lparr>GetOpcode = opc, GetType = type, inputs = ins, operandsType = type, GetRawValue = 1, GetCc = CC_NE, GetImm = 0,
      GetBasicBlock = b, IsFcmpg = False, IsAllocation = False, GetArgNumber = 1, GetObject = 0, bbNums = [0, 1]\<rparr>"

definition ex_block :: "block_id list \<Rightarrow> block_id list \<Rightarrow> block_id option \<Rightarrow> inst_id list \<Rightarrow> basic_block" where
  "ex_block preds succs d ins =
     \<lparr>GetPredsBlocks = preds, GetSuccsBlocks = succs, GetDominator = d, GetDominatedBlocks = [], GetLoop = 0, AllInsts = ins\<rparr>"

definition ex_graph :: graph where
  "ex_graph =
     \<lparr>insts = [ex_inst Op_Parameter REFERENCE [] 0, ex_inst Op_LenArray INT32 [0] 0, ex_inst Op_Parameter INT32 [] 0,
               ex_inst Op_Constant INT64 [] 0, ex_inst Op_Add INT32 [2, 3] 0,
               (ex_inst Op_Compare BOOL [4, 1] 0)\<lparr>GetCc := CC_LT, operandsType := INT32\<rparr>,
               ex_inst Op_IfImm BOOL [5] 0, ex_inst Op_Phi INT32 [2, 4] 3],
      blocks = [ex_block [] [1, 2] None [0, 1, 2, 3, 4, 5, 6], ex_block [0] [3] (Some 0) [],
                ex_block [0] [3] (Some 0) [], ex_block [1, 2] [] (Some 0) [7]],
      loops = [\<lparr>GetHeader = 0, GetPreHeader = 0, GetBackEdges = [], GetBlocks = [], GetOuterLoop = None,
                IsIrreducible = False, IsOsrLoop = False, IsTryCatchLoop = False, IsRoot = True, IsInfinite = False\<rparr>],
      GetBlocksRPO = [0, 1, 2, 3], GetStartBlock = 0, constList = [3], IsBytecodeOptimizer = False,
      IsDynamicMethod = False, GetArch = X86_64, objectPointerSize = 8, rtMaxArrayLength = (\<lambda>_. None),
      rtIsMethodStatic = True\<rparr>"

definition ex_val :: "inst_id \<Rightarrow> int" where
  "ex_val = (\<lambda>_. 0)(1 := 10, 2 := 3, 3 := 1, 4 := 4, 7 := 3)"

lemma doms_ex: "doms ex_graph b d \<Longrightarrow> b \<in> {0, 1, 2, 3} \<Longrightarrow> d = b \<or> d = 0"
  by (induction rule: doms.induct) (auto simp: ex_graph_def ex_block_def)

lemma ex_empty_sound: "bri_sound ex_graph ex_val Map.empty b"
  by (simp add: bri_sound_def bri_at_def)

lemmas ex_defs = ex_graph_def ex_inst_def ex_block_def ex_val_def

lemma ex_val_ok: "i \<in> {1, 2, 3, 4, 7} \<Longrightarrow> val_ok ex_graph ex_val i"
  by (auto simp: val_ok_def ex_defs IsInstNotNull_def IsConst_def IsLenArray_def IsStringLength_def max_length_def
      MIN_RANGE_VALUE_def MAX_RANGE_VALUE_def)

lemma ex_inputs: "df_input ex_graph 4 0 = 2" "df_input ex_graph 4 1 = 3"
  by code_simp+

theorem bounds_queries_sound_witness:
  "ex_val 1 < 2 ^ 31 \<and> bri_sound ex_graph ex_val [0 \<mapsto> [2 \<mapsto> mk_range_len 0 9 (Some 1)]] 0
   \<and> 0 \<le> ex_val 2 \<and> ex_val 2 < ex_val 1"
proof -
  let ?b = "[0 \<mapsto> [2 \<mapsto> mk_range_len 0 9 (Some 1)]] :: bri"
  have s: "bri_sound ex_graph ex_val ?b 0"
    by (auto simp: bri_sound_def bri_at_def range_ok_def in_range_def ex_val_def MIN_RANGE_VALUE_def MAX_RANGE_VALUE_def
        dest!: doms_ex split: if_splits)
  have "IsNotNegative (FindBoundsRange ex_graph ?b 0 2) \<and> IsLess_inst ex_graph (FindBoundsRange ex_graph ?b 0 2) 1"
    by code_simp
  with bounds_queries_sound [OF s ex_val_ok [of 2] ex_val_ok [of 2], of 1] s show ?thesis by (simp add: ex_val_def)
qed

theorem visit_arith_sound_witness:
  "\<exists>bri'. VisitInstruction ex_graph Map.empty 4 = Some bri' \<and> bri_sound ex_graph ex_val bri' 0"
proof -
  have w: "opcode_of ex_graph 4 = Op_Add" "type_of ex_graph 4 = INT32" "bb_of ex_graph 4 = 0"
    by (simp_all add: ex_defs)
  have in4: "arith_input ex_graph 4 0 = 2" "arith_input ex_graph 4 1 = 3"
    using ex_inputs w by (simp_all add: arith_input_def unary_ops_def)
  have r: "ex_val 4 = wrap INT32 (ex_val 2 + ex_val 3)" by code_simp
  show ?thesis
    using visit_arith_sound [of ex_graph 4 ex_val Map.empty] ex_empty_sound [of 0] ex_val_ok [of 2] ex_val_ok [of 3] r
    unfolding w in4 by (simp add: arith_ops_def) (simp add: ex_val_def)
qed

theorem VisitIfImm_sound_witness:
  "\<exists>bri'. VisitIfImm ex_graph Map.empty 6 = Some bri' \<and> bri_sound ex_graph ex_val bri' 1
     \<and> bri_at bri' 1 4 = Some (mk_range_len (- (2 ^ 31)) (2 ^ 31 - 1) (Some 1))"
proof -
  have w: "GetInput ex_graph 6 0 = 5" "GetInput ex_graph 5 0 = 4" "GetInput ex_graph 5 1 = 1" "bb_of ex_graph 6 = 0"
    "GetCc (the_inst ex_graph 5) = CC_LT" "GetCc (the_inst ex_graph 6) = CC_NE"
    "GetTrueSuccessor ex_graph 0 = 1" "GetFalseSuccessor ex_graph 0 = 2"
    by code_simp+
  have d: "\<not> doms ex_graph 1 2" "\<not> doms ex_graph 0 2" using doms_ex by force+
  have c: "Compare CC_LT (word_of_int (ex_val 4) :: u64) (word_of_int (ex_val 1))" by code_simp
  have "\<exists>bri'. VisitIfImm ex_graph Map.empty 6 = Some bri' \<and> bri_sound ex_graph ex_val bri' 1"
    by (rule VisitIfImm_sound [where other = 2])
      (use d c ex_val_ok ex_empty_sound in \<open>simp_all add: w w [unfolded One_nat_def] cc_unsigned_def\<close>, simp_all add: ex_defs)
  moreover have "map_option (\<lambda>bri. bri_at bri 1 4) (VisitIfImm ex_graph Map.empty 6) =
      Some (Some (mk_range_len (- (2 ^ 31)) (2 ^ 31 - 1) (Some 1)))" by code_simp
  ultimately show ?thesis by auto
qed

theorem VisitPhi_sound_witness:
  "\<exists>bri'. VisitPhi ex_graph Map.empty 7 = Some bri' \<and> bri_sound ex_graph ex_val bri' 3"
proof -
  have p: "ProcessCountableLoop ex_graph Map.empty 7 = Some (False, Map.empty)"
    by (simp add: ProcessCountableLoop_def Parse_def Let_def ex_defs)
  have i: "GetPhiInput ex_graph 7 1 = Some 2" "GetPhiInput ex_graph 7 2 = Some 4" by code_simp+
  have b: "bb_of ex_graph 7 = 3" "GetPredsBlocks (the_block ex_graph 3) = [1, 2]" "opcode_of ex_graph 7 = Op_Phi"
    by (simp_all add: ex_defs)
  have f: "FindBoundsRange ex_graph Map.empty 1 2 = type_range INT32" "FindBoundsRange ex_graph Map.empty 2 4 = type_range INT32"
    by code_simp+
  have "map_option (\<lambda>_. ()) (VisitPhi ex_graph Map.empty 7) = Some ()" by code_simp
  then obtain bri' where v: "VisitPhi ex_graph Map.empty 7 = Some bri'" by auto
  have wf: "wf_range (FindBoundsRange ex_graph Map.empty q k)" if "q \<in> set [1, 2]" "GetPhiInput ex_graph 7 q = Some k" for q k
    using that i [unfolded One_nat_def] f [unfolded One_nat_def]
    by (auto simp: wf_range_def MIN_RANGE_VALUE_def MAX_RANGE_VALUE_def)
  have "bri_sound ex_graph ex_val bri' 3"
    using VisitPhi_sound [OF b(3) ex_val_ok [of 7] p v, of 1 2, unfolded b] i(1) wf ex_val_ok [of 2] ex_empty_sound
    by (simp add: ex_val_def [THEN fun_cong])
  with v show ?thesis by blast
qed

end
