(* ===== verification/ConstFolding.thy ===== *)
theory ConstFolding
  imports IrGraph
begin

unbundle bit_operations_syntax

text \<open>
  Constant folding (\<^verbatim>\<open>compiler/optimizer/optimizations/const_folding.cpp\<close>).

  Every \<^verbatim>\<open>ConstFolding<Op>(Inst *inst)\<close> is a function from a graph and an instruction to the graph
  after the call and the value returned; \<open>None\<close> is an \<^verbatim>\<open>UNREACHABLE()\<close> or a division with
  undefined result.  A pointer that may be \<^verbatim>\<open>nullptr\<close> is an \<open>option\<close>.

  Floating-point constants are bit patterns.  Sign changes, comparisons, \<^verbatim>\<open>isnan\<close>, the conversion of
  an integer to floating point (round to nearest, ties to even) and the truncation to an integer are
  written out on the fields of the pattern.  The operations whose result the hardware rounds
  (and whose NaN payload it chooses) are the fields of the record \<open>fpu\<close>; every statement holds for
  all of them.
\<close>

section \<open>Floating-point bit patterns\<close>

datatype fmt = F32 | F64

fun mant_bits :: "fmt \<Rightarrow> nat" where
  "mant_bits F32 = 23"
| "mant_bits F64 = 52"

fun exp_bits :: "fmt \<Rightarrow> nat" where
  "exp_bits F32 = 8"
| "exp_bits F64 = 11"

fun float_type :: "fmt \<Rightarrow> ir_type" where
  "float_type F32 = FLOAT32"
| "float_type F64 = FLOAT64"

definition fp_bias :: "fmt \<Rightarrow> nat" where
  "fp_bias f = 2 ^ (exp_bits f - 1) - 1"

definition fp_mant :: "fmt \<Rightarrow> u64 \<Rightarrow> nat" where
  "fp_mant f v = unat v mod 2 ^ mant_bits f"

definition fp_exp :: "fmt \<Rightarrow> u64 \<Rightarrow> nat" where
  "fp_exp f v = unat v div 2 ^ mant_bits f mod 2 ^ exp_bits f"

definition signbit :: "fmt \<Rightarrow> u64 \<Rightarrow> bool" where
  "signbit f v = bit v (mant_bits f + exp_bits f)"

definition isnan :: "fmt \<Rightarrow> u64 \<Rightarrow> bool" where
  "isnan f v \<longleftrightarrow> fp_exp f v = 2 ^ exp_bits f - 1 \<and> fp_mant f v \<noteq> 0"

text \<open>The pattern without its sign orders the magnitudes; the two zeros have the same key.\<close>

definition fp_key :: "fmt \<Rightarrow> u64 \<Rightarrow> int" where
  "fp_key f v = (let m = int (unat v mod 2 ^ (mant_bits f + exp_bits f)) in if signbit f v then - m else m)"

definition fp_less :: "fmt \<Rightarrow> u64 \<Rightarrow> u64 \<Rightarrow> bool" where
  "fp_less f a b \<longleftrightarrow> \<not> isnan f a \<and> \<not> isnan f b \<and> fp_key f a < fp_key f b"

definition fp_less_eq :: "fmt \<Rightarrow> u64 \<Rightarrow> u64 \<Rightarrow> bool" where
  "fp_less_eq f a b \<longleftrightarrow> \<not> isnan f a \<and> \<not> isnan f b \<and> fp_key f a \<le> fp_key f b"

definition fp_iszero :: "fmt \<Rightarrow> u64 \<Rightarrow> bool" where
  "fp_iszero f v \<longleftrightarrow> fp_key f v = 0"

definition fp_neg :: "fmt \<Rightarrow> u64 \<Rightarrow> u64" where
  "fp_neg f v = v XOR 2 ^ (mant_bits f + exp_bits f)"

definition fp_abs :: "fmt \<Rightarrow> u64 \<Rightarrow> u64" where
  "fp_abs f v = take_bit (mant_bits f + exp_bits f) v"

text \<open>The integer part of a finite value, with its sign: the conversion to an integer type that holds it.\<close>

definition fp_trunc :: "fmt \<Rightarrow> u64 \<Rightarrow> int" where
  "fp_trunc f v =
     (let e = fp_exp f v; m = mant_bits f; b = fp_bias f;
          n = (if e < b then 0
               else if e \<le> b + m then (2 ^ m + fp_mant f v) div 2 ^ (b + m - e)
               else (2 ^ m + fp_mant f v) * 2 ^ (e - (b + m)))
      in if signbit f v then - int n else int n)"

fun floor_log2 :: "nat \<Rightarrow> nat" where
  "floor_log2 n = (if n \<le> 1 then 0 else Suc (floor_log2 (n div 2)))"

declare floor_log2.simps [simp del]

definition round_half_even :: "nat \<Rightarrow> nat \<Rightarrow> nat" where
  "round_half_even n s =
     (let q = n div 2 ^ s; r = n mod 2 ^ s
      in if 2 * r > 2 ^ s \<or> 2 * r = 2 ^ s \<and> odd q then q + 1 else q)"

definition fp_of_int :: "fmt \<Rightarrow> int \<Rightarrow> u64" where
  "fp_of_int f x =
     (if x = 0 then 0
      else let n = nat \<bar>x\<bar>; l = floor_log2 n; m = mant_bits f;
               q = (if l \<le> m then n * 2 ^ (m - l) else round_half_even n (l - m));
               mag = (l + fp_bias f) * 2 ^ m + (q - 2 ^ m)
           in of_nat (mag + (if x < 0 then 2 ^ (mant_bits f + exp_bits f) else 0)))"

record fpu =
  fp_add :: "fmt \<Rightarrow> u64 \<Rightarrow> u64 \<Rightarrow> u64"
  fp_sub :: "fmt \<Rightarrow> u64 \<Rightarrow> u64 \<Rightarrow> u64"
  fp_mul :: "fmt \<Rightarrow> u64 \<Rightarrow> u64 \<Rightarrow> u64"
  fp_div :: "fmt \<Rightarrow> u64 \<Rightarrow> u64 \<Rightarrow> u64"
  fp_fmod :: "fmt \<Rightarrow> u64 \<Rightarrow> u64 \<Rightarrow> u64"
  fp_sqrt :: "fmt \<Rightarrow> u64 \<Rightarrow> u64"
  fp_convert :: "fmt \<Rightarrow> fmt \<Rightarrow> u64 \<Rightarrow> u64"

definition math_Min :: "fmt \<Rightarrow> u64 \<Rightarrow> u64 \<Rightarrow> u64" where
  "math_Min f a b =
     (if isnan f a then a
      else if fp_iszero f a \<and> fp_iszero f b \<and> signbit f b then b
      else if fp_less_eq f a b then a else b)"

definition math_Max :: "fmt \<Rightarrow> u64 \<Rightarrow> u64 \<Rightarrow> u64" where
  "math_Max f a b =
     (if isnan f a then a
      else if fp_iszero f a \<and> fp_iszero f b \<and> signbit f a then b
      else if fp_less_eq f b a then a else b)"

section \<open>Conversions\<close>

text \<open>
  The template argument is the mathematical value of the C++ argument, whatever its integer type.
\<close>

fun ConvertIntToInt :: "int \<Rightarrow> ir_type \<Rightarrow> u64 option" where
  "ConvertIntToInt v BOOL = Some (of_bool (v \<noteq> 0))"
| "ConvertIntToInt v UINT8 = Some (ucast (word_of_int v :: u8))"
| "ConvertIntToInt v INT8 = Some (scast (word_of_int v :: u8))"
| "ConvertIntToInt v UINT16 = Some (ucast (word_of_int v :: u16))"
| "ConvertIntToInt v INT16 = Some (scast (word_of_int v :: u16))"
| "ConvertIntToInt v UINT32 = Some (ucast (word_of_int v :: u32))"
| "ConvertIntToInt v INT32 = Some (scast (word_of_int v :: u32))"
| "ConvertIntToInt v UINT64 = Some (word_of_int v)"
| "ConvertIntToInt v INT64 = Some (word_of_int v)"
| "ConvertIntToInt v _ = None"

text \<open>The value of \<^verbatim>\<open>static_cast<S>(value)\<close> for the C++ type of an IR type.\<close>

fun static_cast :: "ir_type \<Rightarrow> u64 \<Rightarrow> int option" where
  "static_cast BOOL v = Some (of_bool (v \<noteq> 0))"
| "static_cast UINT8 v = Some (uint (ucast v :: u8))"
| "static_cast INT8 v = Some (sint (ucast v :: u8))"
| "static_cast UINT16 v = Some (uint (ucast v :: u16))"
| "static_cast INT16 v = Some (sint (ucast v :: u16))"
| "static_cast UINT32 v = Some (uint (ucast v :: u32))"
| "static_cast INT32 v = Some (sint (ucast v :: u32))"
| "static_cast UINT64 v = Some (uint v)"
| "static_cast INT64 v = Some (sint v)"
| "static_cast _ v = None"

definition ConvertIntToFloat :: "fmt \<Rightarrow> u64 \<Rightarrow> ir_type \<Rightarrow> u64 option" where
  "ConvertIntToFloat f v source = map_option (fp_of_int f) (static_cast source v)"

text \<open>
  \<^verbatim>\<open>ConvertFloatToInt<To>\<close>: \<open>MIN_INT\<close> and \<open>MAX_INT\<close> are the limits of the target, \<open>cast\<close> its conversion of a
  value strictly between them (truncation; for \<^verbatim>\<open>bool\<close> the comparison with zero).
\<close>

definition ConvertFloatToInt_To :: "fmt \<Rightarrow> int \<Rightarrow> int \<Rightarrow> (u64 \<Rightarrow> int) \<Rightarrow> u64 \<Rightarrow> int" where
  "ConvertFloatToInt_To f MIN_INT MAX_INT cast v =
     (let floatMinInt = fp_of_int f MIN_INT; floatMaxInt = fp_of_int f MAX_INT
      in if fp_less f floatMinInt v
         then (if fp_less f v floatMaxInt then cast v else MAX_INT)
         else if isnan f v then 0 else MIN_INT)"

definition ConvertFloatToInt :: "fmt \<Rightarrow> u64 \<Rightarrow> ir_type \<Rightarrow> u64 option" where
  "ConvertFloatToInt f v target =
     (let conv = (\<lambda>mn mx. Some (word_of_int (ConvertFloatToInt_To f mn mx (fp_trunc f) v)))
      in case target of
           BOOL \<Rightarrow> Some (word_of_int (ConvertFloatToInt_To f 0 1 (\<lambda>v. of_bool (\<not> fp_iszero f v)) v))
         | UINT8 \<Rightarrow> conv 0 (2 ^ 8 - 1)
         | INT8 \<Rightarrow> conv (- (2 ^ 7)) (2 ^ 7 - 1)
         | UINT16 \<Rightarrow> conv 0 (2 ^ 16 - 1)
         | INT16 \<Rightarrow> conv (- (2 ^ 15)) (2 ^ 15 - 1)
         | UINT32 \<Rightarrow> conv 0 (2 ^ 32 - 1)
         | INT32 \<Rightarrow> conv (- (2 ^ 31)) (2 ^ 31 - 1)
         | UINT64 \<Rightarrow> conv 0 (2 ^ 64 - 1)
         | INT64 \<Rightarrow> conv (- (2 ^ 63)) (2 ^ 63 - 1)
         | _ \<Rightarrow> None)"

section \<open>Constants of the result\<close>

definition GetIntValue :: "graph \<Rightarrow> inst_id \<Rightarrow> u64" where
  "GetIntValue g c = GetRawValue (the_inst g c)"

definition GetFloatValue :: "graph \<Rightarrow> inst_id \<Rightarrow> u64" where
  "GetFloatValue g c = ucast (ucast (GetRawValue (the_inst g c)) :: u32)"

definition GetDoubleValue :: "graph \<Rightarrow> inst_id \<Rightarrow> u64" where
  "GetDoubleValue g c = GetRawValue (the_inst g c)"

definition FindOrCreateConstant_fp :: "graph \<Rightarrow> fmt \<Rightarrow> u64 \<Rightarrow> graph \<times> inst_id" where
  "FindOrCreateConstant_fp g f v =
     (case f of F32 \<Rightarrow> FindOrCreateConstant_f32 g (ucast v) | F64 \<Rightarrow> FindOrCreateConstant_f64 g v)"

definition ConstFoldingCreateIntConst :: "graph \<Rightarrow> inst_id \<Rightarrow> u64 \<Rightarrow> bool \<Rightarrow> graph \<times> inst_id" where
  "ConstFoldingCreateIntConst g i v isLiteralData =
     (if IsBytecodeOptimizer g \<and> IsInt32Bit (type_of g i) \<and> \<not> isLiteralData
      then FindOrCreateConstant_u32 g (ucast v) else FindOrCreateConstant_u64 g v)"

text \<open>\<^verbatim>\<open>inst->ReplaceUsers(newCnst); return true;\<close>, and \<^verbatim>\<open>return false;\<close>.\<close>

definition replaced :: "inst_id \<Rightarrow> graph \<times> inst_id \<Rightarrow> graph \<times> bool" where
  "replaced i = (\<lambda>(g, c). (ReplaceUsers g i c, True))"

definition kept :: "graph \<Rightarrow> graph \<times> bool" where
  "kept g = (g, False)"

text \<open>The pattern \<^verbatim>\<open>ConstFoldingCreateIntConst(inst, ConvertIntToInt(v, inst->GetType()))\<close>.\<close>

definition int_const :: "graph \<Rightarrow> inst_id \<Rightarrow> int \<Rightarrow> (graph \<times> inst_id) option" where
  "int_const g i v = map_option (\<lambda>w. ConstFoldingCreateIntConst g i w False) (ConvertIntToInt v (type_of g i))"

text \<open>
  The pattern that chooses the 32-bit computation for the bytecode optimizer:
  \<^verbatim>\<open>FindOrCreateConstant<uint32_t>(ConvertIntToInt(v32, type))\<close> and
  \<^verbatim>\<open>FindOrCreateConstant(ConvertIntToInt(v64, type))\<close>.
\<close>

definition sized_const :: "graph \<Rightarrow> inst_id \<Rightarrow> int \<Rightarrow> int \<Rightarrow> (graph \<times> inst_id) option" where
  "sized_const g i v32 v64 =
     (if IsBytecodeOptimizer g \<and> IsInt32Bit (type_of g i)
      then map_option (\<lambda>w. FindOrCreateConstant_u32 g (ucast w)) (ConvertIntToInt v32 (type_of g i))
      else map_option (FindOrCreateConstant_u64 g) (ConvertIntToInt v64 (type_of g i)))"

definition int32_of :: "u64 \<Rightarrow> int" where
  "int32_of v = sint (ucast v :: u32)"

section \<open>Casts\<close>

definition ConstFoldingCreateConst :: "ir_type \<Rightarrow> graph \<Rightarrow> inst_id \<Rightarrow> inst_id \<Rightarrow> bool \<Rightarrow> (graph \<times> inst_id) option" where
  "ConstFoldingCreateConst T g i c isLiteralData =
     Option.bind (static_cast T (GetIntValue g c)) (\<lambda>v.
     Option.bind (ConvertIntToInt v (type_of g i)) (\<lambda>w.
     Some (ConstFoldingCreateIntConst g i w isLiteralData)))"

text \<open>The outer \<open>None\<close> is undefined, \<open>Some None\<close> the \<^verbatim>\<open>nullptr\<close> of the default branch.\<close>

definition ConstFoldingCastInt2Int :: "graph \<Rightarrow> inst_id \<Rightarrow> inst_id \<Rightarrow> (graph \<times> inst_id) option option" where
  "ConstFoldingCastInt2Int g i c =
     (let S = operandsType (the_inst g i)
      in if GetCommonType S = INT64 then map_option Some (ConstFoldingCreateConst S g i c False) else Some None)"

definition ConstFoldingCastIntConst :: "graph \<Rightarrow> inst_id \<Rightarrow> inst_id \<Rightarrow> bool \<Rightarrow> (graph \<times> inst_id) option option" where
  "ConstFoldingCastIntConst g i c isLiteralData =
     (let S = operandsType (the_inst g i)
      in case GetCommonType (type_of g i) of
           INT64 \<Rightarrow> ConstFoldingCastInt2Int g i c
         | FLOAT32 \<Rightarrow>
             (if IsBytecodeOptimizer g \<and> \<not> isLiteralData then Some None
              else map_option (\<lambda>v. Some (FindOrCreateConstant_fp g F32 v)) (ConvertIntToFloat F32 (GetIntValue g c) S))
         | FLOAT64 \<Rightarrow>
             map_option (\<lambda>v. Some (FindOrCreateConstant_fp g F64 v)) (ConvertIntToFloat F64 (GetIntValue g c) S)
         | _ \<Rightarrow> Some None)"

text \<open>
  \<open>dyn\<close> is the runtime's \<^verbatim>\<open>DynamicCastDoubleToInt\<close>.  The literal-data flag is not handed on to
  \<^verbatim>\<open>ConstFoldingCastIntConst\<close>.
\<close>

definition ConstFoldingCastConst ::
    "fpu \<Rightarrow> (u64 \<Rightarrow> nat \<Rightarrow> u64) \<Rightarrow> graph \<Rightarrow> inst_id \<Rightarrow> inst_id \<Rightarrow> bool \<Rightarrow> (graph \<times> inst_id) option option" where
  "ConstFoldingCastConst fp dyn g i c isLiteralData =
     (let T = type_of g i; instType = GetCommonType T
      in if type_of g c = INT32 \<or> type_of g c = INT64 then ConstFoldingCastIntConst g i c False
         else if type_of g c = FLOAT32 then
           (if IsBytecodeOptimizer g \<and> \<not> isLiteralData then Some None
            else case instType of
                   INT64 \<Rightarrow> map_option (\<lambda>v. Some (FindOrCreateConstant_u64 g v)) (ConvertFloatToInt F32 (GetFloatValue g c) T)
                 | FLOAT32 \<Rightarrow> Some (Some (g, c))
                 | FLOAT64 \<Rightarrow> Some (Some (FindOrCreateConstant_fp g F64 (fp_convert fp F32 F64 (GetFloatValue g c))))
                 | _ \<Rightarrow> Some None)
         else if type_of g c = FLOAT64 then
           (case instType of
              INT64 \<Rightarrow>
                map_option (\<lambda>v. Some (ConstFoldingCreateIntConst g i v isLiteralData))
                  (if IsDynamicMethod g
                   then map_option (dyn (GetDoubleValue g c)) (GetTypeSize (objectPointerSize g) T (GetArch g))
                   else ConvertFloatToInt F64 (GetDoubleValue g c) T)
            | FLOAT32 \<Rightarrow>
                (if IsBytecodeOptimizer g \<and> \<not> isLiteralData then Some None
                 else Some (Some (FindOrCreateConstant_fp g F32 (fp_convert fp F64 F32 (GetDoubleValue g c)))))
            | FLOAT64 \<Rightarrow> Some (Some (g, c))
            | _ \<Rightarrow> Some None)
         else Some None)"

definition ConstFoldingCast :: "fpu \<Rightarrow> (u64 \<Rightarrow> nat \<Rightarrow> u64) \<Rightarrow> graph \<Rightarrow> inst_id \<Rightarrow> (graph \<times> bool) option" where
  "ConstFoldingCast fp dyn g i =
     (let input = GetInput g i 0
      in if IsConst g input
         then map_option (\<lambda>r. case r of Some gc \<Rightarrow> replaced i gc | None \<Rightarrow> kept g) (ConstFoldingCastConst fp dyn g i input False)
         else Some (kept g))"

section \<open>Unary operations\<close>

definition ConstFoldingNeg :: "graph \<Rightarrow> inst_id \<Rightarrow> (graph \<times> bool) option" where
  "ConstFoldingNeg g i =
     (let c = GetInput g i 0
      in if IsConst g c
         then map_option (replaced i)
           (case GetCommonType (type_of g i) of
              INT64 \<Rightarrow> int_const g i (uint (- GetIntValue g c))
            | FLOAT32 \<Rightarrow> Some (FindOrCreateConstant_fp g F32 (fp_neg F32 (GetFloatValue g c)))
            | FLOAT64 \<Rightarrow> Some (FindOrCreateConstant_fp g F64 (fp_neg F64 (GetDoubleValue g c)))
            | _ \<Rightarrow> None)
         else Some (kept g))"

definition ConstFoldingAbs :: "graph \<Rightarrow> inst_id \<Rightarrow> (graph \<times> bool) option" where
  "ConstFoldingAbs g i =
     (let c = GetInput g i 0
      in if IsConst g c
         then map_option (replaced i)
           (case GetCommonType (type_of g i) of
              INT64 \<Rightarrow>
                (let v = sint (GetIntValue g c)
                 in if v = - (2 ^ 63) then Some (g, c) else int_const g i (if v < 0 then - v else v))
            | FLOAT32 \<Rightarrow> Some (FindOrCreateConstant_fp g F32 (fp_abs F32 (GetFloatValue g c)))
            | FLOAT64 \<Rightarrow> Some (FindOrCreateConstant_fp g F64 (fp_abs F64 (GetDoubleValue g c)))
            | _ \<Rightarrow> None)
         else Some (kept g))"

definition ConstFoldingNot :: "graph \<Rightarrow> inst_id \<Rightarrow> (graph \<times> bool) option" where
  "ConstFoldingNot g i =
     (let c = GetInput g i 0
      in if IsConst g c then map_option (replaced i) (int_const g i (uint (NOT (GetIntValue g c))))
         else Some (kept g))"

definition ConstFoldingSqrt :: "fpu \<Rightarrow> graph \<Rightarrow> inst_id \<Rightarrow> (graph \<times> bool) option" where
  "ConstFoldingSqrt fp g i =
     (let c = GetInput g i 0
      in if IsConst g c
         then Some (replaced i
           (if type_of g c = FLOAT32 then FindOrCreateConstant_fp g F32 (fp_sqrt fp F32 (GetFloatValue g c))
            else FindOrCreateConstant_fp g F64 (fp_sqrt fp F64 (GetDoubleValue g c))))
         else Some (kept g))"

section \<open>Arithmetic\<close>

definition ConstFoldingAdd :: "fpu \<Rightarrow> graph \<Rightarrow> inst_id \<Rightarrow> (graph \<times> bool) option" where
  "ConstFoldingAdd fp g i =
     (let c0 = GetInput g i 0; c1 = GetInput g i 1
      in if IsConst g c0 \<and> IsConst g c1
         then map_option (replaced i)
           (case GetCommonType (type_of g i) of
              INT64 \<Rightarrow> int_const g i (uint (GetIntValue g c0 + GetIntValue g c1))
            | FLOAT32 \<Rightarrow> Some (FindOrCreateConstant_fp g F32 (fp_add fp F32 (GetFloatValue g c0) (GetFloatValue g c1)))
            | FLOAT64 \<Rightarrow> Some (FindOrCreateConstant_fp g F64 (fp_add fp F64 (GetDoubleValue g c0) (GetDoubleValue g c1)))
            | _ \<Rightarrow> None)
         else Some (kept g))"

definition ConstFoldingSub :: "fpu \<Rightarrow> graph \<Rightarrow> inst_id \<Rightarrow> (graph \<times> bool) option" where
  "ConstFoldingSub fp g i =
     (let c0 = GetInput g i 0; c1 = GetInput g i 1
      in if IsConst g c0 \<and> IsConst g c1
         then map_option (replaced i)
           (case GetCommonType (type_of g i) of
              INT64 \<Rightarrow> int_const g i (uint (GetIntValue g c0 - GetIntValue g c1))
            | FLOAT32 \<Rightarrow> Some (FindOrCreateConstant_fp g F32 (fp_sub fp F32 (GetFloatValue g c0) (GetFloatValue g c1)))
            | FLOAT64 \<Rightarrow> Some (FindOrCreateConstant_fp g F64 (fp_sub fp F64 (GetDoubleValue g c0) (GetDoubleValue g c1)))
            | _ \<Rightarrow> None)
         else if c0 = c1 \<and> GetCommonType (type_of g i) = INT64
         then Some (replaced i (ConstFoldingCreateIntConst g i 0 False))
         else Some (kept g))"

text \<open>The literal 0 handed to \<^verbatim>\<open>IsEqualConst\<close> is an \<^verbatim>\<open>int\<close>, the 32-bit instance of the template.\<close>

definition ConstFoldingMul :: "fpu \<Rightarrow> graph \<Rightarrow> inst_id \<Rightarrow> (graph \<times> bool) option" where
  "ConstFoldingMul fp g i =
     (let c0 = GetInput g i 0; c1 = GetInput g i 1
      in if IsConst g c0 \<and> IsConst g c1
         then map_option (replaced i)
           (case GetCommonType (type_of g i) of
              INT64 \<Rightarrow> int_const g i (uint (GetIntValue g c0 * GetIntValue g c1))
            | FLOAT32 \<Rightarrow> Some (FindOrCreateConstant_fp g F32 (fp_mul fp F32 (GetFloatValue g c0) (GetFloatValue g c1)))
            | FLOAT64 \<Rightarrow> Some (FindOrCreateConstant_fp g F64 (fp_mul fp F64 (GetDoubleValue g c0) (GetDoubleValue g c1)))
            | _ \<Rightarrow> None)
         else (case (if IsConst g c0 then Some c0 else if IsConst g c1 then Some c1 else None) of
                 Some newCnst \<Rightarrow>
                   Some (if IsEqualConst_32 g newCnst 0 (IsBytecodeOptimizer g) then replaced i (g, newCnst) else kept g)
               | None \<Rightarrow> Some (kept g)))"

definition ConstFoldingDivInt2Int :: "graph \<Rightarrow> inst_id \<Rightarrow> inst_id \<Rightarrow> inst_id \<Rightarrow> (graph \<times> inst_id) option option" where
  "ConstFoldingDivInt2Int g i c0 c1 =
     (let x = GetIntValue g c0; y = GetIntValue g c1; T = type_of g i
      in if y = 0 then Some None
         else if IsTypeSigned T then
           (if IsBytecodeOptimizer g \<and> IsInt32Bit T then
              (if int32_of x = - (2 ^ 31) \<and> int32_of y = -1
               then Some (Some (FindOrCreateConstant_u32 g (word_of_int (- (2 ^ 31)))))
               else if int32_of y = 0 then None
               else map_option (\<lambda>w. Some (FindOrCreateConstant_u32 g (ucast w)))
                      (ConvertIntToInt (int32_of x sdiv int32_of y) T))
            else if sint x = - (2 ^ 63) \<and> sint y = -1
            then Some (Some (FindOrCreateConstant_u64 g (word_of_int (- (2 ^ 63)))))
            else map_option (\<lambda>w. Some (FindOrCreateConstant_u64 g w)) (ConvertIntToInt (sint x sdiv sint y) T))
         else
           Option.bind (ConvertIntToInt (uint x) T) (\<lambda>a. Option.bind (ConvertIntToInt (uint y) T) (\<lambda>b.
             if b = 0 then None else Some (Some (ConstFoldingCreateIntConst g i (a div b) False)))))"

text \<open>\<^verbatim>\<open>inst->GetDataFlowInput(n)\<close>\<close>

definition DataFlowInput :: "graph \<Rightarrow> inst_id \<Rightarrow> nat \<Rightarrow> inst_id" where
  "DataFlowInput g i n = GetDataFlowInput g (GetInput g i n)"

definition ConstFoldingDiv :: "fpu \<Rightarrow> graph \<Rightarrow> inst_id \<Rightarrow> (graph \<times> bool) option" where
  "ConstFoldingDiv fp g i =
     (let c0 = DataFlowInput g i 0; c1 = DataFlowInput g i 1
      in if \<not> IsConst g c0 \<or> \<not> IsConst g c1 then Some (kept g)
         else case GetCommonType (type_of g i) of
                INT64 \<Rightarrow>
                  map_option (\<lambda>r. case r of None \<Rightarrow> kept g | Some gc \<Rightarrow> replaced i gc) (ConstFoldingDivInt2Int g i c0 c1)
              | FLOAT32 \<Rightarrow> Some (replaced i (FindOrCreateConstant_fp g F32 (fp_div fp F32 (GetFloatValue g c0) (GetFloatValue g c1))))
              | FLOAT64 \<Rightarrow> Some (replaced i (FindOrCreateConstant_fp g F64 (fp_div fp F64 (GetDoubleValue g c0) (GetDoubleValue g c1))))
              | _ \<Rightarrow> None)"

definition ConstFoldingMinInt :: "graph \<Rightarrow> inst_id \<Rightarrow> inst_id \<Rightarrow> inst_id \<Rightarrow> (graph \<times> inst_id) option" where
  "ConstFoldingMinInt g i c0 c1 =
     (let x = GetIntValue g c0; y = GetIntValue g c1
      in if IsTypeSigned (type_of g i) then sized_const g i (min (int32_of x) (int32_of y)) (min (sint x) (sint y))
         else int_const g i (uint (min x y)))"

definition ConstFoldingMin :: "graph \<Rightarrow> inst_id \<Rightarrow> (graph \<times> bool) option" where
  "ConstFoldingMin g i =
     (let c0 = GetInput g i 0; c1 = GetInput g i 1
      in if IsConst g c0 \<and> IsConst g c1
         then map_option (replaced i)
           (case GetCommonType (type_of g i) of
              INT64 \<Rightarrow> ConstFoldingMinInt g i c0 c1
            | FLOAT32 \<Rightarrow> Some (FindOrCreateConstant_fp g F32 (math_Min F32 (GetFloatValue g c0) (GetFloatValue g c1)))
            | FLOAT64 \<Rightarrow> Some (FindOrCreateConstant_fp g F64 (math_Min F64 (GetDoubleValue g c0) (GetDoubleValue g c1)))
            | _ \<Rightarrow> None)
         else Some (kept g))"

definition ConstFoldingMaxInt :: "graph \<Rightarrow> inst_id \<Rightarrow> inst_id \<Rightarrow> inst_id \<Rightarrow> (graph \<times> inst_id) option" where
  "ConstFoldingMaxInt g i c0 c1 =
     (let x = GetIntValue g c0; y = GetIntValue g c1
      in if IsTypeSigned (type_of g i) then sized_const g i (max (int32_of x) (int32_of y)) (max (sint x) (sint y))
         else int_const g i (uint (max x y)))"

definition ConstFoldingMax :: "graph \<Rightarrow> inst_id \<Rightarrow> (graph \<times> bool) option" where
  "ConstFoldingMax g i =
     (let c0 = GetInput g i 0; c1 = GetInput g i 1
      in if IsConst g c0 \<and> IsConst g c1
         then map_option (replaced i)
           (case GetCommonType (type_of g i) of
              INT64 \<Rightarrow> ConstFoldingMaxInt g i c0 c1
            | FLOAT32 \<Rightarrow> Some (FindOrCreateConstant_fp g F32 (math_Max F32 (GetFloatValue g c0) (GetFloatValue g c1)))
            | FLOAT64 \<Rightarrow> Some (FindOrCreateConstant_fp g F64 (math_Max F64 (GetDoubleValue g c0) (GetDoubleValue g c1)))
            | _ \<Rightarrow> None)
         else Some (kept g))"

definition ConstFoldingModIntConst :: "graph \<Rightarrow> inst_id \<Rightarrow> inst_id \<Rightarrow> inst_id \<Rightarrow> (graph \<times> inst_id) option" where
  "ConstFoldingModIntConst g i c0 c1 =
     (let x = GetIntValue g c0; y = GetIntValue g c1; T = type_of g i
      in if IsTypeSigned T then
           (if IsBytecodeOptimizer g \<and> IsInt32Bit T then
              (if int32_of x = - (2 ^ 31) \<and> int32_of y = -1 then Some (FindOrCreateConstant_u32 g 0)
               else if int32_of y = 0 then None
               else map_option (\<lambda>w. FindOrCreateConstant_u32 g (ucast w)) (ConvertIntToInt (int32_of x smod int32_of y) T))
            else if sint x = - (2 ^ 63) \<and> sint y = -1 then Some (FindOrCreateConstant_u64 g 0)
            else if sint y = 0 then None
            else map_option (FindOrCreateConstant_u64 g) (ConvertIntToInt (sint x smod sint y) T))
         else
           Option.bind (ConvertIntToInt (uint x) T) (\<lambda>a. Option.bind (ConvertIntToInt (uint y) T) (\<lambda>b.
             if b = 0 then None else Some (ConstFoldingCreateIntConst g i (a mod b) False))))"

text \<open>
  With inputs of other types than the integers, \<^verbatim>\<open>FLOAT32\<close> and \<^verbatim>\<open>FLOAT64\<close> the code hands a null pointer to \<^verbatim>\<open>ReplaceUsers\<close>: \<open>None\<close>.
\<close>

definition ConstFoldingMod :: "fpu \<Rightarrow> graph \<Rightarrow> inst_id \<Rightarrow> (graph \<times> bool) option" where
  "ConstFoldingMod fp g i =
     (let c0 = DataFlowInput g i 0; c1 = DataFlowInput g i 1; T = type_of g i
      in if IsConst g c1 \<and> \<not> IsFloatType T \<and> GetIntValue g c1 = 1
         then Some (replaced i (ConstFoldingCreateIntConst g i 0 False))
         else if \<not> IsConst g c0 \<or> \<not> IsConst g c1 then Some (kept g)
         else if GetCommonType T = INT64 then
           (if GetIntValue g c1 = 0 then Some (kept g) else map_option (replaced i) (ConstFoldingModIntConst g i c0 c1))
         else if T = FLOAT32 then
           Some (if fp_iszero F32 (GetFloatValue g c1) then kept g
                 else replaced i (FindOrCreateConstant_fp g F32 (fp_fmod fp F32 (GetFloatValue g c0) (GetFloatValue g c1))))
         else if T = FLOAT64 then
           Some (if fp_iszero F64 (GetDoubleValue g c1) then kept g
                 else replaced i (FindOrCreateConstant_fp g F64 (fp_fmod fp F64 (GetDoubleValue g c0) (GetDoubleValue g c1))))
         else None)"

section \<open>Shifts and bit operations\<close>

definition ConstFoldingShl :: "graph \<Rightarrow> inst_id \<Rightarrow> (graph \<times> bool) option" where
  "ConstFoldingShl g i =
     (let c0 = GetInput g i 0; c1 = GetInput g i 1
      in if IsConst g c0 \<and> IsConst g c1
         then Option.bind (GetTypeSize (objectPointerSize g) (type_of g i) (GetArch g)) (\<lambda>size.
           let x = GetIntValue g c0; y = GetIntValue g c1; sizeMask = of_nat size - 1 :: u64
           in map_option (replaced i)
                (sized_const g i (uint (push_bit (unat (ucast y AND ucast sizeMask :: u32)) (ucast x :: u32)))
                   (uint (push_bit (unat (y AND sizeMask)) x))))
         else Some (kept g))"

definition ConstFoldingShr :: "graph \<Rightarrow> inst_id \<Rightarrow> (graph \<times> bool) option" where
  "ConstFoldingShr g i =
     (let c0 = GetInput g i 0; c1 = GetInput g i 1
      in if IsConst g c0 \<and> IsConst g c1
         then Option.bind (GetTypeSize (objectPointerSize g) (type_of g i) (GetArch g)) (\<lambda>size.
              Option.bind (GetTypeSize (objectPointerSize g) INT32 (GetArch g)) (\<lambda>size32.
           let y = GetIntValue g c1; sizeMask = of_nat size - 1 :: u64;
               x = (if sizeMask < of_nat size32
                    then GetIntValue g c0 AND (push_bit (unat (sizeMask + 1)) 1 - 1) else GetIntValue g c0)
           in map_option (replaced i)
                (sized_const g i (uint (drop_bit (unat (ucast y AND ucast sizeMask :: u32)) (ucast x :: u32)))
                   (uint (drop_bit (unat (y AND sizeMask)) x)))))
         else Some (kept g))"

definition ConstFoldingAShr :: "graph \<Rightarrow> inst_id \<Rightarrow> (graph \<times> bool) option" where
  "ConstFoldingAShr g i =
     (let c0 = GetInput g i 0; c1 = GetInput g i 1
      in if IsConst g c0 \<and> IsConst g c1
         then Option.bind (GetTypeSize (objectPointerSize g) (type_of g i) (GetArch g)) (\<lambda>size.
           let x = GetIntValue g c0; y = GetIntValue g c1; sizeMask = of_nat size - 1 :: u64
           in map_option (replaced i)
                (sized_const g i (drop_bit (unat (ucast y AND ucast sizeMask :: u32)) (int32_of x))
                   (drop_bit (unat (y AND sizeMask)) (sint x))))
         else Some (kept g))"

definition ConstFoldingAnd :: "graph \<Rightarrow> inst_id \<Rightarrow> (graph \<times> bool) option" where
  "ConstFoldingAnd g i =
     (let c0 = GetInput g i 0; c1 = GetInput g i 1
      in if IsConst g c0 \<and> IsConst g c1
         then map_option (replaced i) (int_const g i (uint (GetIntValue g c0 AND GetIntValue g c1)))
         else (case (if IsConst g c0 then Some c0 else if IsConst g c1 then Some c1 else None) of
                 Some newCnst \<Rightarrow> Some (if GetIntValue g newCnst = 0 then replaced i (g, newCnst) else kept g)
               | None \<Rightarrow> Some (kept g)))"

definition ConstFoldingOr :: "graph \<Rightarrow> inst_id \<Rightarrow> (graph \<times> bool) option" where
  "ConstFoldingOr g i =
     (let c0 = GetInput g i 0; c1 = GetInput g i 1
      in if IsConst g c0 \<and> IsConst g c1
         then map_option (replaced i) (int_const g i (uint (GetIntValue g c0 OR GetIntValue g c1)))
         else (case (if IsConst g c0 then Some c0 else if IsConst g c1 then Some c1 else None) of
                 Some newCnst \<Rightarrow> Some (if GetIntValue g newCnst = - 1 then replaced i (g, newCnst) else kept g)
               | None \<Rightarrow> Some (kept g)))"

definition ConstFoldingXor :: "graph \<Rightarrow> inst_id \<Rightarrow> (graph \<times> bool) option" where
  "ConstFoldingXor g i =
     (let c0 = GetInput g i 0; c1 = GetInput g i 1
      in if IsConst g c0 \<and> IsConst g c1
         then map_option (replaced i) (int_const g i (uint (GetIntValue g c0 XOR GetIntValue g c1)))
         else if c0 = c1 then Some (replaced i (ConstFoldingCreateIntConst g i 0 False))
         else Some (kept g))"

section \<open>Comparisons\<close>

definition GetResult_int :: "int \<Rightarrow> int \<Rightarrow> int" where
  "GetResult_int l r = (if l > r then 1 else if l < r then -1 else 0)"

definition GetResult_fp :: "fmt \<Rightarrow> bool \<Rightarrow> u64 \<Rightarrow> u64 \<Rightarrow> int" where
  "GetResult_fp f isFcmpg l r =
     (if isnan f l \<or> isnan f r then (if isFcmpg then 1 else -1)
      else if fp_less f r l then 1 else if fp_less f l r then -1 else 0)"

definition GetIntResult :: "graph \<Rightarrow> inst_id \<Rightarrow> inst_id \<Rightarrow> ir_type \<Rightarrow> int option" where
  "GetIntResult g c0 c1 inputType =
     Option.bind (ConvertIntToInt (uint (GetIntValue g c0)) inputType) (\<lambda>l.
     Option.bind (ConvertIntToInt (uint (GetIntValue g c1)) inputType) (\<lambda>r.
       Some (if IsTypeSigned inputType then
               (if IsBytecodeOptimizer g \<and> IsInt32Bit inputType then GetResult_int (int32_of l) (int32_of r)
                else GetResult_int (sint l) (sint r))
             else if IsBytecodeOptimizer g \<and> IsInt32Bit inputType
             then GetResult_int (uint (ucast l :: u32)) (uint (ucast r :: u32))
             else GetResult_int (uint l) (uint r))))"

definition ConstFoldingCmp :: "graph \<Rightarrow> inst_id \<Rightarrow> (graph \<times> bool) option" where
  "ConstFoldingCmp g i =
     (let c0 = GetInput g i 0; c1 = GetInput g i 1; inputType = operandsType (the_inst g i); fcmpg = IsFcmpg (the_inst g i)
      in if IsConst g c0 \<and> IsConst g c1
         then map_option (\<lambda>result. replaced i (FindOrCreateConstant_u64 g (word_of_int result)))
           (case GetCommonType inputType of
              INT64 \<Rightarrow> GetIntResult g c0 c1 inputType
            | FLOAT32 \<Rightarrow> Some (GetResult_fp F32 fcmpg (GetFloatValue g c0) (GetFloatValue g c1))
            | FLOAT64 \<Rightarrow> Some (GetResult_fp F64 fcmpg (GetDoubleValue g c0) (GetDoubleValue g c1))
            | _ \<Rightarrow> Some 0)
         else if c0 = c1 \<and> GetCommonType inputType = INT64
         then Some (replaced i (ConstFoldingCreateIntConst g i 0 False))
         else Some (kept g))"

definition ConstFoldingCompareCreateConst :: "graph \<Rightarrow> inst_id \<Rightarrow> bool \<Rightarrow> graph \<times> inst_id" where
  "ConstFoldingCompareCreateConst g i value =
     (if IsBytecodeOptimizer g \<and> IsInt32Bit (type_of g i) then FindOrCreateConstant_u32 g (of_bool value)
      else FindOrCreateConstant_u64 g (of_bool value))"

definition ConstFoldingCompareCreateNewConst :: "graph \<Rightarrow> inst_id \<Rightarrow> u64 \<Rightarrow> u64 \<Rightarrow> graph \<times> inst_id" where
  "ConstFoldingCompareCreateNewConst g i a b =
     ConstFoldingCompareCreateConst g i
       (case GetCc (the_inst g i) of
          CC_EQ \<Rightarrow> a = b
        | CC_NE \<Rightarrow> a \<noteq> b
        | CC_LT \<Rightarrow> sint a < sint b
        | CC_B \<Rightarrow> a < b
        | CC_LE \<Rightarrow> sint a \<le> sint b
        | CC_BE \<Rightarrow> a \<le> b
        | CC_GT \<Rightarrow> sint a > sint b
        | CC_A \<Rightarrow> a > b
        | CC_GE \<Rightarrow> sint a \<ge> sint b
        | CC_AE \<Rightarrow> a \<ge> b
        | CC_TST_EQ \<Rightarrow> a AND b = 0
        | CC_TST_NE \<Rightarrow> a AND b \<noteq> 0)"

definition ConstFoldingCompareEqualInputs :: "graph \<Rightarrow> inst_id \<Rightarrow> inst_id \<Rightarrow> inst_id \<Rightarrow> graph \<times> bool" where
  "ConstFoldingCompareEqualInputs g i input0 input1 =
     (if input0 \<noteq> input1 then kept g
      else let commonType = GetCommonType (type_of g input0); cc = GetCc (the_inst g i)
           in if cc \<in> {CC_EQ, CC_LE, CC_GE, CC_BE, CC_AE} then
                (if commonType = INT64 \<or> commonType = POINTER
                 then replaced i (ConstFoldingCreateIntConst g i 1 False) else kept g)
              else if cc = CC_NE then
                (if commonType = INT64 \<or> commonType = POINTER
                 then replaced i (ConstFoldingCreateIntConst g i 0 False) else kept g)
              else if cc \<in> {CC_LT, CC_GT, CC_B, CC_A}
              then replaced i (ConstFoldingCreateIntConst g i 0 False)
              else kept g)"

definition IsUniqueRef :: "graph \<Rightarrow> inst_id \<Rightarrow> bool" where
  "IsUniqueRef g i \<longleftrightarrow> IsAllocation (the_inst g i) \<or> opcode_of g i = Op_NullPtr \<or> opcode_of g i = Op_LoadUndefined"

definition ConstFoldingCompare :: "graph \<Rightarrow> inst_id \<Rightarrow> (graph \<times> bool) option" where
  "ConstFoldingCompare g i =
     (let input0 = GetInput g i 0; input1 = GetInput g i 1; type = operandsType (the_inst g i); cc = GetCc (the_inst g i)
      in if IsConst g input0 \<and> IsConst g input1 \<and> \<not> IsFloatType (type_of g input0) then
           (if GetCommonType type = INT64 then
              Option.bind (ConvertIntToInt (uint (GetIntValue g input0)) type) (\<lambda>a.
              Option.bind (ConvertIntToInt (uint (GetIntValue g input1)) type) (\<lambda>b.
                Some (replaced i (ConstFoldingCompareCreateNewConst g i a b))))
            else Some (kept g))
         else if opcode_of g input0 = Op_LoadImmediate \<and> opcode_of g input1 = Op_LoadImmediate then
           Some (replaced i (ConstFoldingCompareCreateConst g i
             ((GetObject (the_inst g input0) = GetObject (the_inst g input1)) = (cc = CC_EQ))))
         else if IsZeroConstantOrNullPtr g input0 \<and> IsZeroConstantOrNullPtr g input1 then
           Some (replaced i (ConstFoldingCompareCreateConst g i (cc = CC_EQ)))
         else let r = ConstFoldingCompareEqualInputs g i input0 input1
           in if snd r then Some r
              else if type = REFERENCE \<and> IsUniqueRef g input0 \<and> IsUniqueRef g input1
              then Some (replaced i (ConstFoldingCompareCreateConst g i (cc = CC_NE)))
              else Some (kept g))"

text \<open>The class, flags and value of a static field are the runtime's answers.\<close>

record field_info =
  GetClassForField :: "nat \<Rightarrow> nat"
  IsFieldReadonly :: "nat \<Rightarrow> bool"
  IsClassInitialized :: "nat \<Rightarrow> bool"
  GetStaticFieldValue :: "nat \<Rightarrow> u64"

definition ConstFoldingLoadStatic :: "field_info \<Rightarrow> graph \<Rightarrow> inst_id \<Rightarrow> (graph \<times> bool) option" where
  "ConstFoldingLoadStatic rt g i =
     (let field = GetObject (the_inst g i)
      in if GetCommonType (type_of g i) \<noteq> INT64 then Some (kept g)
         else if IsFieldReadonly rt field \<and> IsClassInitialized rt (GetClassForField rt field)
         then map_option (\<lambda>w. replaced i (FindOrCreateConstant_u64 g w))
                (ConvertIntToInt (uint (GetStaticFieldValue rt field)) (type_of g i))
         else Some (kept g))"

section \<open>Conversions of floating-point values saturate\<close>

text \<open>
  The magnitude of a pattern \<open>p\<close> (its bits without the sign), in units of the smallest subnormal halved: an
  increasing function of the pattern, whose integer part is what \<open>fp_trunc\<close> computes.
\<close>

definition fp_scaled :: "fmt \<Rightarrow> nat \<Rightarrow> nat" where
  "fp_scaled f p =
     (let e = p div 2 ^ mant_bits f; k = p mod 2 ^ mant_bits f in if e = 0 then 2 * k else (2 ^ mant_bits f + k) * 2 ^ e)"

abbreviation fp_pattern :: "fmt \<Rightarrow> u64 \<Rightarrow> nat" where
  "fp_pattern f v \<equiv> unat v mod 2 ^ (mant_bits f + exp_bits f)"

definition fp_unit :: "fmt \<Rightarrow> nat" where
  "fp_unit f = 2 ^ (fp_bias f + mant_bits f)"

lemma fp_scaled_Suc: "fp_scaled f p < fp_scaled f (Suc p)"
proof -
  define M :: nat where "M = 2 ^ mant_bits f"
  have M: "0 < M" by (simp add: M_def)
  define e k where "e = p div M" and "k = p mod M"
  have k: "k < M" using M by (simp add: k_def)
  show ?thesis
  proof (cases "Suc k = M")
    case True
    then have "Suc p div M = Suc e" "Suc p mod M = 0"
      using M by (simp_all add: e_def k_def div_Suc mod_Suc)
    moreover have "(M + k) * 2 ^ e < M * (2 * 2 ^ e)" using k by simp
    ultimately show ?thesis
      using True M by (auto simp: fp_scaled_def M_def [symmetric] e_def [symmetric] k_def [symmetric] Let_def)
  next
    case False
    then have "Suc p div M = e" "Suc p mod M = Suc k"
      using M by (simp_all add: e_def k_def div_Suc mod_Suc)
    then show ?thesis
      by (simp add: fp_scaled_def M_def [symmetric] e_def [symmetric] k_def [symmetric] Let_def)
  qed
qed

lemma fp_scaled_mono: "p < q \<Longrightarrow> fp_scaled f p < fp_scaled f q"
  by (rule lift_Suc_mono_less [of "fp_scaled f"]) (rule fp_scaled_Suc)

lemma fp_scaled_mono_le: "p \<le> q \<Longrightarrow> fp_scaled f p \<le> fp_scaled f q"
  using fp_scaled_mono [of p q f] by (cases "p = q") auto

lemma fp_pattern_fields: "fp_pattern f v div 2 ^ mant_bits f = fp_exp f v" "fp_pattern f v mod 2 ^ mant_bits f = fp_mant f v"
proof -
  show "fp_pattern f v div 2 ^ mant_bits f = fp_exp f v"
    unfolding fp_exp_def power_add by (simp add: mod_mult2_eq)
  show "fp_pattern f v mod 2 ^ mant_bits f = fp_mant f v"
    unfolding fp_mant_def power_add by (simp add: mod_mult2_eq)
qed

lemma fp_trunc_scaled:
  "fp_trunc f v = (let n = int (fp_scaled f (fp_pattern f v) div fp_unit f) in if signbit f v then - n else n)"
proof -
  define e k m b where "e = fp_exp f v" and "k = fp_mant f v" and "m = mant_bits f" and "b = fp_bias f"
  have k: "k < 2 ^ m" by (simp add: k_def fp_mant_def m_def)
  have b: "0 < b" by (cases f) (simp_all add: b_def fp_bias_def)
  have u: "fp_unit f = 2 ^ (b + m)" by (simp add: fp_unit_def b_def m_def)
  have s: "fp_scaled f (fp_pattern f v) = (if e = 0 then 2 * k else (2 ^ m + k) * 2 ^ e)"
    by (simp add: fp_scaled_def fp_pattern_fields e_def k_def m_def)
  have "(if e < b then 0 else if e \<le> b + m then (2 ^ m + k) div 2 ^ (b + m - e) else (2 ^ m + k) * 2 ^ (e - (b + m)))
      = fp_scaled f (fp_pattern f v) div fp_unit f"
  proof -
    consider (sub) "e = 0" | (small) "0 < e" "e < b" | (mid) "b \<le> e" "e \<le> b + m" | (big) "b + m < e" by linarith
    then show ?thesis
    proof cases
      case sub
      have "2 * k < 2 ^ Suc m" using k by simp
      also have "\<dots> \<le> 2 ^ (b + m)" using b by (intro power_increasing) auto
      finally have "2 * k < 2 ^ (b + m)" .
      with sub b show ?thesis by (simp add: s u)
    next
      case small
      have "(2 ^ m + k) * 2 ^ e < 2 ^ Suc m * 2 ^ e" using k by simp
      also have "\<dots> = 2 ^ (Suc m + e)" by (simp only: power_add)
      also have "\<dots> \<le> 2 ^ (b + m)" using small by (intro power_increasing) auto
      finally show ?thesis using small by (simp add: s u)
    next
      case mid
      have "2 ^ (b + m) = (2 ^ (b + m - e) * 2 ^ e :: nat)" using mid by (simp flip: power_add)
      with mid b show ?thesis by (simp add: s u)
    next
      case big
      have "2 ^ e = (2 ^ (e - (b + m)) * 2 ^ (b + m) :: nat)" using big by (simp flip: power_add)
      with big show ?thesis by (simp add: s u mult.assoc [symmetric] del: mult.assoc)
    qed
  qed
  then show ?thesis by (simp only: fp_trunc_def Let_def e_def k_def m_def b_def)
qed


text \<open>The limits of the target, as patterns: the lower one exact, the upper one exact or rounded up by one.\<close>

definition limits_ok :: "fmt \<Rightarrow> int \<Rightarrow> int \<Rightarrow> bool" where
  "limits_ok f mn mx \<longleftrightarrow>
     (let l = fp_of_int f mn; h = fp_of_int f mx; L = fp_pattern f l; H = fp_pattern f h
      in \<not> isnan f l \<and> \<not> isnan f h \<and> (signbit f l \<or> L = 0) \<and> \<not> signbit f h \<and> mn \<le> 0 \<and> 0 < mx
         \<and> int (fp_scaled f L) = - mn * int (fp_unit f)
         \<and> mx * int (fp_unit f) \<le> int (fp_scaled f H) \<and> int (fp_scaled f H) \<le> (mx + 1) * int (fp_unit f))"

lemma ConvertFloatToInt_To_clamp:
  assumes lim: "limits_ok f mn mx" and v: "\<not> isnan f v"
  shows "ConvertFloatToInt_To f mn mx (fp_trunc f) v = max mn (min mx (fp_trunc f v))"
proof -
  define p L H U where "p = fp_pattern f v" and "L = fp_pattern f (fp_of_int f mn)"
    and "H = fp_pattern f (fp_of_int f mx)" and "U = int (fp_unit f)"
  have U: "0 < U" by (simp add: U_def fp_unit_def)
  from lim have l: "mn \<le> 0" "0 < mx" "int (fp_scaled f L) = - mn * U" "mx * U \<le> int (fp_scaled f H)"
      "int (fp_scaled f H) \<le> (mx + 1) * U" "\<not> isnan f (fp_of_int f mn)" "\<not> isnan f (fp_of_int f mx)"
    by (simp_all add: limits_ok_def Let_def L_def H_def U_def)
  have kl: "fp_key f (fp_of_int f mn) = - int L" and kh: "fp_key f (fp_of_int f mx) = int H"
    using lim by (auto simp: limits_ok_def Let_def fp_key_def L_def H_def)
  have H: "0 < H" using l(2,4) U by (cases H) (auto simp: fp_scaled_def Let_def mult_le_0_iff)
  define q where "q = int (fp_scaled f p div fp_unit f)"
  have qU: "q * U \<le> int (fp_scaled f p)" "int (fp_scaled f p) < (q + 1) * U"
  proof -
    have "fp_scaled f p div fp_unit f * fp_unit f \<le> fp_scaled f p" by (rule div_times_less_eq_dividend)
    then show "q * U \<le> int (fp_scaled f p)" unfolding q_def U_def by (metis of_nat_le_iff of_nat_mult)
    have "fp_scaled f p < fp_unit f + fp_scaled f p div fp_unit f * fp_unit f"
      by (rule dividend_less_div_times) (simp add: fp_unit_def)
    then have "int (fp_scaled f p) < int (fp_unit f + fp_scaled f p div fp_unit f * fp_unit f)" by (simp only: of_nat_less_iff)
    then show "int (fp_scaled f p) < (q + 1) * U" unfolding q_def U_def by (simp add: algebra_simps)
  qed
  have tr: "fp_trunc f v = (if signbit f v then - q else q)" by (simp add: fp_trunc_scaled q_def p_def Let_def)
  have key: "fp_key f v = (if signbit f v then - int p else int p)" by (simp add: fp_key_def p_def Let_def)
  have q0: "0 \<le> q" by (simp add: q_def)
  have cancel: "x * U < y * U \<Longrightarrow> x < y" for x y using U by simp
  have pL: "p < L \<Longrightarrow> q < - mn" using fp_scaled_mono [of p L f] l(3) qU(1) by - (rule cancel, linarith)
  have Lp: "L \<le> p \<Longrightarrow> - mn < q + 1" using fp_scaled_mono_le [of L p f] l(3) qU(2) by - (rule cancel, linarith)
  have pH: "p < H \<Longrightarrow> q < mx + 1" using fp_scaled_mono [of p H f] l(5) qU(1) by - (rule cancel, linarith)
  have Hp: "H \<le> p \<Longrightarrow> mx < q + 1" using fp_scaled_mono_le [of H p f] l(4) qU(2) by - (rule cancel, linarith)
  have L0: "L = 0 \<Longrightarrow> mn = 0" using l(3) U by (simp add: fp_scaled_def)
  have less: "fp_less f (fp_of_int f mn) v \<longleftrightarrow> - int L < fp_key f v" "fp_less f v (fp_of_int f mx) \<longleftrightarrow> fp_key f v < int H"
    using v l(6,7) by (simp_all add: fp_less_def kl kh)
  show ?thesis
  proof (cases "signbit f v")
    case True
    then have k: "fp_key f v = - int p" "fp_trunc f v = - q" by (simp_all add: key tr)
    show ?thesis
      using pL Lp v l(2) q0 H unfolding ConvertFloatToInt_To_def Let_def less k by auto
  next
    case False
    then have k: "fp_key f v = int p" "fp_trunc f v = q" by (simp_all add: key tr)
    have "p = 0 \<Longrightarrow> q < 1" using qU(1) U by (simp add: fp_scaled_def Let_def mult_le_0_iff)
    then show ?thesis
      using pH Hp L0 v l(1,2) q0 H unfolding ConvertFloatToInt_To_def Let_def less k by auto
  qed
qed

lemma floor_log2_limits:
  "floor_log2 255 = 7" "floor_log2 127 = 6" "floor_log2 128 = 7" "floor_log2 65535 = 15" "floor_log2 32767 = 14" "floor_log2 32768 = 15"
  "floor_log2 4294967295 = 31" "floor_log2 2147483647 = 30" "floor_log2 2147483648 = 31"
  "floor_log2 18446744073709551615 = 63" "floor_log2 9223372036854775807 = 62" "floor_log2 9223372036854775808 = 63"
  by (simp_all add: floor_log2.simps)

lemma limits_ok_types:
  "limits_ok f 0 255" "limits_ok f (- 128) 127" "limits_ok f 0 65535" "limits_ok f (- 32768) 32767"
  "limits_ok f 0 4294967295" "limits_ok f (- 2147483648) 2147483647"
  "limits_ok f 0 18446744073709551615" "limits_ok f (- 9223372036854775808) 9223372036854775807"
  by (cases f; simp add: limits_ok_def fp_of_int_def floor_log2_limits Let_def round_half_even_def fp_bias_def isnan_def signbit_def
   fp_scaled_def fp_unit_def fp_exp_def fp_mant_def)+

fun int_limits :: "ir_type \<Rightarrow> int \<times> int" where
  "int_limits UINT8 = (0, 255)"
| "int_limits INT8 = (- 128, 127)"
| "int_limits UINT16 = (0, 65535)"
| "int_limits INT16 = (- 32768, 32767)"
| "int_limits UINT32 = (0, 4294967295)"
| "int_limits INT32 = (- 2147483648, 2147483647)"
| "int_limits UINT64 = (0, 18446744073709551615)"
| "int_limits INT64 = (- 9223372036854775808, 9223372036854775807)"
| "int_limits _ = (0, 1)"

lemma ConvertFloatToInt_limits:
  assumes "is_int_type T" "T \<noteq> BOOL"
  shows "ConvertFloatToInt f v T = Some (word_of_int
     (if isnan f v then 0 else max (fst (int_limits T)) (min (snd (int_limits T)) (fp_trunc f v))))"
proof (cases "isnan f v")
  case True
  then have "ConvertFloatToInt_To f mn mx c v = 0" for mn mx c by (simp add: ConvertFloatToInt_To_def fp_less_def Let_def)
  with True assms show ?thesis by (cases T) (simp_all add: ConvertFloatToInt_def Let_def)
next
  case False
  have "limits_ok f (fst (int_limits T)) (snd (int_limits T))" using assms limits_ok_types by (cases T) simp_all
  from ConvertFloatToInt_To_clamp [OF this False] False assms show ?thesis
    by (cases T) (simp_all add: ConvertFloatToInt_def Let_def)
qed

text \<open>
  C33: the conversion of a \<^verbatim>\<open>float\<close> or \<^verbatim>\<open>double\<close> constant to an integer type of the compiler saturates: NaN
  gives 0, every other value (infinities included) its integer part clamped to the limits of the
  type, although the upper limit is not exactly representable for half of the combinations.
\<close>

theorem ConvertFloatToInt_saturates:
  assumes "is_int_type T" "T \<noteq> BOOL"
  shows "ConvertFloatToInt f v T = Some (word_of_int
     (if isnan f v then 0 else max (fst (int_limits T)) (min (snd (int_limits T)) (fp_trunc f v))))"
  using assms by (rule ConvertFloatToInt_limits)

theorem ConvertFloatToInt_saturates_witness:
  "is_int_type INT32 \<and> ConvertFloatToInt F64 0x41F0000000000000 INT32 = Some 0x7FFFFFFF"
  using ConvertFloatToInt_saturates [of INT32 F64 "0x41F0000000000000"]
  by (simp add: isnan_def fp_exp_def fp_mant_def fp_trunc_def fp_bias_def signbit_def)

end
