(* ===== verification/ConstFoldingSound.thy ===== *)
theory ConstFoldingSound
  imports ConstFolding
begin

unbundle bit_operations_syntax

text \<open>
  Soundness of constant folding: what the folded instructions mean (\<open>eval_op\<close> on 64-bit registers), one
  lemma \<open><Op>_ok\<close> per fold, the contract of a fold as the locale \<open>const_fold\<close> with its interpretation for every
  opcode, and the theorem that folding preserves the values of the graph.
\<close>

section \<open>The meaning of the folded instructions\<close>

text \<open>
  The value of a register is a 64-bit word.  \<open>val T w\<close> reads it at an integer type, \<open>canon T x\<close> is the word
  that holds the integer \<open>x\<close> at the type: sign-extended for a signed type, zero-extended for an unsigned one.
  \<open>eval_op\<close> gives the result of an instruction from the values of its inputs, \<open>None\<close> where it says nothing
  about it (a division by zero, which the preceding check excludes, the cast of a floating-point value to \<^verbatim>\<open>BOOL\<close>, a comparison of
  references other than for identity, and the opcodes this pass does not touch).
\<close>

definition val :: "ir_type \<Rightarrow> u64 \<Rightarrow> int" where
  "val T w = wrap T (sint w)"

definition canon :: "ir_type \<Rightarrow> int \<Rightarrow> u64" where
  "canon T x = word_of_int (wrap T x)"

definition canonical :: "ir_type \<Rightarrow> u64 \<Rightarrow> bool" where
  "canonical T w \<longleftrightarrow> word_of_int (val T w) = w"

definition eval_int :: "opcode \<Rightarrow> ir_type \<Rightarrow> u64 \<Rightarrow> u64 \<Rightarrow> int option" where
  "eval_int op T x y =
     (let a = val T x; b = val T y; k = unat y mod type_bits T
      in case op of
           Op_Neg \<Rightarrow> Some (- a) | Op_Abs \<Rightarrow> Some \<bar>a\<bar> | Op_Not \<Rightarrow> Some (NOT a)
         | Op_Add \<Rightarrow> Some (a + b) | Op_Sub \<Rightarrow> Some (a - b) | Op_Mul \<Rightarrow> Some (a * b)
         | Op_Div \<Rightarrow> (if b = 0 then None else Some (a sdiv b))
         | Op_Mod \<Rightarrow> (if b = 0 then None else Some (a smod b))
         | Op_Min \<Rightarrow> Some (min a b) | Op_Max \<Rightarrow> Some (max a b)
         | Op_Shl \<Rightarrow> Some (a * 2 ^ k)
         | Op_Shr \<Rightarrow> Some (take_bit (type_bits T) a div 2 ^ k)
         | Op_AShr \<Rightarrow> (if IsTypeSigned T then Some (a div 2 ^ k) else None)
         | Op_And \<Rightarrow> Some (a AND b) | Op_Or \<Rightarrow> Some (a OR b) | Op_Xor \<Rightarrow> Some (a XOR b)
         | _ \<Rightarrow> None)"

definition eval_fp :: "fpu \<Rightarrow> opcode \<Rightarrow> fmt \<Rightarrow> u64 \<Rightarrow> u64 \<Rightarrow> u64 option" where
  "eval_fp fp op f x y =
     (case op of
        Op_Neg \<Rightarrow> Some (fp_neg f x) | Op_Abs \<Rightarrow> Some (fp_abs f x) | Op_Sqrt \<Rightarrow> Some (fp_sqrt fp f x)
      | Op_Add \<Rightarrow> Some (fp_add fp f x y) | Op_Sub \<Rightarrow> Some (fp_sub fp f x y) | Op_Mul \<Rightarrow> Some (fp_mul fp f x y)
      | Op_Div \<Rightarrow> Some (fp_div fp f x y) | Op_Mod \<Rightarrow> Some (fp_fmod fp f x y)
      | Op_Min \<Rightarrow> Some (math_Min f x y) | Op_Max \<Rightarrow> Some (math_Max f x y)
      | _ \<Rightarrow> None)"

fun fmt_of :: "ir_type \<Rightarrow> fmt option" where
  "fmt_of FLOAT32 = Some F32"
| "fmt_of FLOAT64 = Some F64"
| "fmt_of _ = None"

fun fp_reg :: "fmt \<Rightarrow> u64 \<Rightarrow> u64" where
  "fp_reg F32 v = ucast (ucast v :: u32)"
| "fp_reg F64 v = v"

text \<open>A conversion to an integer type truncates and saturates; NaN becomes zero.\<close>

definition fp_to_int :: "fmt \<Rightarrow> ir_type \<Rightarrow> u64 \<Rightarrow> int" where
  "fp_to_int f T v = (if isnan f v then 0 else max (fst (int_limits T)) (min (snd (int_limits T)) (fp_trunc f v)))"

definition eval_cast :: "fpu \<Rightarrow> ir_type \<Rightarrow> ir_type \<Rightarrow> u64 \<Rightarrow> u64 option" where
  "eval_cast fp S T x =
     (if is_int_type S then
        (if is_int_type T then Some (canon T (val S x))
         else map_option (\<lambda>f. fp_reg f (fp_of_int f (val S x))) (fmt_of T))
      else case (fmt_of S, fmt_of T) of
             (Some f, Some f') \<Rightarrow> Some (if f = f' then fp_reg f x else fp_reg f' (fp_convert fp f f' (fp_reg f x)))
           | (Some f, None) \<Rightarrow> (if is_int_type T \<and> T \<noteq> BOOL then Some (word_of_int (fp_to_int f T (fp_reg f x))) else None)
           | _ \<Rightarrow> None)"

definition eval_cmp :: "bool \<Rightarrow> ir_type \<Rightarrow> u64 \<Rightarrow> u64 \<Rightarrow> u64 option" where
  "eval_cmp fcmpg S x y =
     (if is_int_type S then Some (word_of_int (sgn (val S x - val S y)))
      else map_option (\<lambda>f. word_of_int
             (if isnan f (fp_reg f x) \<or> isnan f (fp_reg f y) then (if fcmpg then 1 else - 1)
              else sgn (fp_key f (fp_reg f x) - fp_key f (fp_reg f y)))) (fmt_of S))"

text \<open>
  The truth of a condition on two floating-point values: with a NaN only \<^verbatim>\<open>CC_NE\<close> holds, and the two zeros are equal.
  References and pointers are compared for identity only.
\<close>

definition fp_compare :: "ConditionCode \<Rightarrow> fmt \<Rightarrow> u64 \<Rightarrow> u64 \<Rightarrow> bool option" where
  "fp_compare cc f a b =
     (let equal = (fp_less_eq f a b \<and> fp_less_eq f b a)
      in case cc of
           CC_EQ \<Rightarrow> Some equal | CC_NE \<Rightarrow> Some (\<not> equal)
         | CC_LT \<Rightarrow> Some (fp_less f a b) | CC_B \<Rightarrow> Some (fp_less f a b)
         | CC_LE \<Rightarrow> Some (fp_less_eq f a b) | CC_BE \<Rightarrow> Some (fp_less_eq f a b)
         | CC_GT \<Rightarrow> Some (fp_less f b a) | CC_A \<Rightarrow> Some (fp_less f b a)
         | CC_GE \<Rightarrow> Some (fp_less_eq f b a) | CC_AE \<Rightarrow> Some (fp_less_eq f b a)
         | _ \<Rightarrow> None)"

definition eval_compare :: "ConditionCode \<Rightarrow> ir_type \<Rightarrow> u64 \<Rightarrow> u64 \<Rightarrow> u64 option" where
  "eval_compare cc S x y =
     (if is_int_type S then Some (of_bool (Compare cc (canon S (sint x)) (canon S (sint y))))
      else if S = REFERENCE \<or> S = POINTER then (if cc \<in> {CC_EQ, CC_NE} then Some (of_bool ((x = y) = (cc = CC_EQ))) else None)
      else Option.bind (fmt_of S) (\<lambda>f. map_option of_bool (fp_compare cc f (fp_reg f x) (fp_reg f y))))"

lemma eval_compare_int [simp]:
  "is_int_type S \<Longrightarrow> eval_compare cc S x y = Some (of_bool (Compare cc (canon S (sint x)) (canon S (sint y))))"
  by (simp add: eval_compare_def)

definition eval_op :: "fpu \<Rightarrow> inst \<Rightarrow> u64 list \<Rightarrow> u64 option" where
  "eval_op fp s xs =
     (let T = GetType s; S = operandsType s; x = xs ! 0; y = xs ! 1
      in case GetOpcode s of
           Op_Constant \<Rightarrow> Some (GetRawValue s) | Op_NullPtr \<Rightarrow> Some 0 | Op_LoadImmediate \<Rightarrow> Some (of_nat (GetObject s))
         | Op_Cast \<Rightarrow> eval_cast fp S T x
         | Op_Cmp \<Rightarrow> eval_cmp (IsFcmpg s) S x y
         | Op_Compare \<Rightarrow> eval_compare (GetCc s) S x y
         | Op_NullCheck \<Rightarrow> Some x | Op_ZeroCheck \<Rightarrow> Some x | Op_NegativeCheck \<Rightarrow> Some x | Op_NotPositiveCheck \<Rightarrow> Some x
         | Op_BoundsCheckI \<Rightarrow> Some x | Op_AnyTypeCheck \<Rightarrow> Some x | Op_ObjByIndexCheck \<Rightarrow> Some x
         | Op_BoundsCheck \<Rightarrow> Some y | Op_RefTypeCheck \<Rightarrow> Some y
         | op \<Rightarrow>
             (if is_int_type T then map_option (canon T) (eval_int op T x y)
              else Option.bind (fmt_of T) (\<lambda>f. map_option (fp_reg f) (eval_fp fp op f (fp_reg f x) (fp_reg f y)))))"

text \<open>A valuation is consistent with a graph when every instruction has the value its inputs give it.\<close>

definition consistent :: "fpu \<Rightarrow> graph \<Rightarrow> (inst_id \<Rightarrow> u64) \<Rightarrow> bool" where
  "consistent fp g \<rho> \<longleftrightarrow>
     (\<forall>i < length (insts g).
        case eval_op fp (the_inst g i) (map \<rho> (inputs (the_inst g i))) of Some v \<Rightarrow> \<rho> i = v | None \<Rightarrow> True)"

lemma consistent_iff:
  "consistent fp g \<rho> \<longleftrightarrow>
     (\<forall>i < length (insts g). \<forall>v. eval_op fp (the_inst g i) (map \<rho> (inputs (the_inst g i))) = Some v \<longrightarrow> \<rho> i = v)"
  by (auto simp: consistent_def split: option.splits)

text \<open>The list of constants holds constants, and constants of the bytecode optimizer's 32-bit type are sign-extended.\<close>

definition wf_consts :: "graph \<Rightarrow> bool" where
  "wf_consts g \<longleftrightarrow>
     (\<forall>c \<in> set (constList g). c < length (insts g) \<and> IsConst g c)
     \<and> (\<forall>c < length (insts g). IsConst g c \<and> type_of g c = INT32 \<longrightarrow>
          GetRawValue (the_inst g c) = scast (ucast (GetRawValue (the_inst g c)) :: u32))"

definition wf_inputs :: "graph \<Rightarrow> bool" where
  "wf_inputs g \<longleftrightarrow> (\<forall>j < length (insts g). \<forall>x \<in> set (inputs (the_inst g j)). x < length (insts g))"

section \<open>Integer types and registers\<close>

lemma int_type_induct [consumes 1, case_names BOOL UINT8 INT8 UINT16 INT16 UINT32 INT32 UINT64 INT64]:
  assumes "is_int_type T" "P BOOL" "P UINT8" "P INT8" "P UINT16" "P INT16" "P UINT32" "P INT32" "P UINT64" "P INT64"
  shows "P T"
  using assms by (cases T) simp_all

lemma ConvertIntToInt_canon: "is_int_type T \<Longrightarrow> ConvertIntToInt v T = Some (canon T v)"
proof (induction rule: int_type_induct)
  case INT64
  show ?case by (simp add: canon_def wrap_def IsTypeSigned_def) (rule bit_word_eqI, simp add: bit_simps)
qed (auto simp: canon_def wrap_def IsTypeSigned_def bit_simps intro!: bit_word_eqI)

lemma static_cast_val: "is_int_type T \<Longrightarrow> static_cast T w = Some (val T w)"
proof (induction rule: int_type_induct)
  case UINT64
  show ?case by (simp add: val_def wrap_def IsTypeSigned_def uint_sint)
qed (auto simp: val_def wrap_def IsTypeSigned_def signed_eq_0_iff bit_simps intro!: bit_eqI)


lemma wrap_word_int: "is_int_type T \<Longrightarrow> T \<noteq> BOOL \<Longrightarrow> wrap T (sint (word_of_int z :: u64)) = wrap T z"
  by (simp add: sint_word_of_int_64 wrap_i64)

lemma canon_sint: "is_int_type T \<Longrightarrow> T \<noteq> BOOL \<Longrightarrow> canon T (sint (word_of_int z :: u64)) = canon T z"
  by (simp only: canon_def wrap_word_int not_False_eq_True)

lemma canon_uint_eq: "is_int_type T \<Longrightarrow> canon T (uint w) = canon T (sint w)" for w :: u64
proof (cases "T = BOOL")
  case False
  assume T: "is_int_type T"
  have "canon T (uint w) = canon T (sint (word_of_int (uint w) :: u64))" using T False by (rule canon_sint [symmetric])
  then show ?thesis by simp
qed (simp add: canon_def wrap_def signed_eq_0_iff unsigned_eq_0_iff)

lemma canon_uint: "is_int_type T \<Longrightarrow> T \<noteq> BOOL \<Longrightarrow> canon T (uint (word_of_int z :: u64)) = canon T z"
  by (simp only: canon_uint_eq canon_sint not_False_eq_True)

lemma wrap_wrap: "is_int_type T \<Longrightarrow> wrap T (wrap T x) = wrap T x"
  by (induction rule: int_type_induct) (simp_all add: wrap_def IsTypeSigned_def)

lemma val_canon: "is_int_type T \<Longrightarrow> val T (canon T x) = wrap T x"
proof (cases "T = BOOL")
  case True
  then show ?thesis by (simp add: val_def canon_def wrap_def)
qed (simp add: val_def canon_def wrap_word_int wrap_wrap)

lemma canonical_canon [simp]: "is_int_type T \<Longrightarrow> canonical T (canon T x)"
  by (simp add: canonical_def val_canon) (simp add: canon_def)

lemma canonicalD: "canonical T w \<Longrightarrow> w = word_of_int (val T w)"
  by (simp add: canonical_def)

lemma sint_canonical:
  assumes "is_int_type T" "IsTypeSigned T" "canonical T w"
  shows "sint w = val T w"
proof -
  have "i64 (val T w) = val T w"
    using assms(1,2) unfolding val_def
    by (induction rule: int_type_induct) (auto simp: wrap_def IsTypeSigned_def bit_simps min_def intro!: bit_eqI)
  then show ?thesis
    using canonicalD [OF assms(3)] sint_word_of_int_64 [of "val T w"] by simp
qed

lemma uint_canonical:
  assumes "is_int_type T" "\<not> IsTypeSigned T" "canonical T w"
  shows "uint w = val T w"
proof -
  have "take_bit 64 (val T w) = val T w"
    using assms(1,2) unfolding val_def
    by (induction rule: int_type_induct) (simp_all add: wrap_def IsTypeSigned_def)
  moreover have "uint (word_of_int (val T w) :: u64) = take_bit 64 (val T w)" by (simp add: unsigned_of_int)
  ultimately show ?thesis using canonicalD [OF assms(3)] by simp
qed

lemma int32_of_canonical:
  assumes "is_int_type T" "IsTypeSigned T" "IsInt32Bit T" "canonical T w"
  shows "int32_of w = val T w"
proof -
  have "signed_take_bit 31 (val T w) = val T w"
    using assms(1-3) unfolding val_def
    by (induction rule: int_type_induct)
      (auto simp: wrap_def IsTypeSigned_def IsInt32Bit_def bit_simps min_def intro!: bit_eqI)
  moreover have "int32_of w = signed_take_bit 31 (sint w)"
    unfolding int32_of_def by (rule bit_eqI) (auto simp: bit_simps min_def)
  ultimately show ?thesis by (simp add: sint_canonical [OF assms(1,2,4)])
qed

text \<open>The 32-bit constants of the bytecode optimizer hold every value of a type of at most 32 bits but \<^verbatim>\<open>UINT32\<close>.\<close>

lemma scast_ucast_canon:
  assumes "is_int_type T" "IsInt32Bit T" "T \<noteq> UINT32"
  shows "scast (ucast (canon T x) :: u32) = canon T x"
  using assms
  by (induction rule: int_type_induct)
    (auto simp: canon_def wrap_def IsTypeSigned_def IsInt32Bit_def bit_simps min_def split: if_splits intro!: bit_word_eqI)

section \<open>Constants found or created\<close>

text \<open>
  \<open>const_result g v (g', c)\<close>: \<open>c\<close> is a constant with value \<open>v\<close> of \<open>g'\<close>, which is \<open>g\<close> or \<open>g\<close> with \<open>c\<close> added.
\<close>

definition const_result :: "graph \<Rightarrow> u64 \<Rightarrow> graph \<times> inst_id \<Rightarrow> bool" where
  "const_result g v gc \<longleftrightarrow>
     (fst gc = g \<and> snd gc < length (insts g) \<and> IsConst g (snd gc) \<and> GetRawValue (the_inst g (snd gc)) = v)
     \<or> (\<exists>type. gc = AddConstInStartBlock g (new_const g type v) \<and> (type = INT32 \<longrightarrow> v = scast (ucast v :: u32)))"

lemma find_or_create_result:
  assumes "wf_consts g"
    and "\<And>c. c \<in> set (constList g) \<Longrightarrow> eq c \<Longrightarrow> GetRawValue (the_inst g c) = v"
    and "type = INT32 \<Longrightarrow> v = scast (ucast v :: u32)"
  shows "const_result g v (find_or_create g eq (new_const g type v))"
proof (cases "find eq (constList g)")
  case None
  then show ?thesis using assms(3) by (auto simp: find_or_create_def const_result_def)
next
  case (Some c)
  then have c: "c \<in> set (constList g)" "eq c" by (auto simp: find_Some_iff)
  with assms(1) have "c < length (insts g)" "IsConst g c" by (auto simp: wf_consts_def)
  with assms(2) [OF c] Some show ?thesis by (simp add: find_or_create_def const_result_def)
qed

lemma u64_const_result: "wf_consts g \<Longrightarrow> const_result g v (FindOrCreateConstant_u64 g v)"
  unfolding FindOrCreateConstant_u64_def by (rule find_or_create_result) (auto simp: IsEqualConst_typed_def)

lemma u32_const_result:
  assumes "wf_consts g" "IsBytecodeOptimizer g" "v = scast w"
  shows "const_result g v (FindOrCreateConstant_u32 g w)"
proof -
  have "ucast (scast w :: u64) = w" by (rule bit_word_eqI) (simp add: bit_simps min_absorb2)
  then show ?thesis
    unfolding FindOrCreateConstant_u32_def using assms
    by (auto intro!: find_or_create_result simp: IsEqualConst_32_def wf_consts_def)
qed

lemma fp_const_result: "wf_consts g \<Longrightarrow> const_result g (fp_reg f v) (FindOrCreateConstant_fp g f v)"
  by (cases f) (auto simp: FindOrCreateConstant_fp_def FindOrCreateConstant_f32_def FindOrCreateConstant_f64_def
      IsEqualConst_typed_def intro!: find_or_create_result)

lemma CreateIntConst_result:
  assumes "wf_consts g" "IsBytecodeOptimizer g \<and> IsInt32Bit (type_of g i) \<Longrightarrow> scast (ucast v :: u32) = v"
  shows "const_result g v (ConstFoldingCreateIntConst g i v False)"
  using assms unfolding ConstFoldingCreateIntConst_def by (auto intro: u64_const_result u32_const_result)

section \<open>Soundness of one fold\<close>

text \<open>
  What the theorems ask of the graph: its constants and inputs are well formed, the instruction is in it and
  the valuation agrees with it.  Results of type \<^verbatim>\<open>UINT32\<close> are left out for the bytecode optimizer, whose
  32-bit constants are signed.
\<close>

definition fold_pre :: "fpu \<Rightarrow> opcode \<Rightarrow> nat \<Rightarrow> graph \<Rightarrow> inst_id \<Rightarrow> (inst_id \<Rightarrow> u64) \<Rightarrow> bool" where
  "fold_pre fp op arity g i \<rho> \<longleftrightarrow>
     wf_consts g \<and> wf_inputs g \<and> i < length (insts g) \<and> opcode_of g i = op \<and> length (inputs (the_inst g i)) = arity
     \<and> consistent fp g \<rho> \<and> \<not> (IsBytecodeOptimizer g \<and> type_of g i = UINT32)"

text \<open>A constant operand has the type the operation reads it at; an integer constant is the word of its value.\<close>

definition operand_ok :: "graph \<Rightarrow> ir_type \<Rightarrow> inst_id \<Rightarrow> bool" where
  "operand_ok g T c \<longleftrightarrow>
     (IsConst g c \<longrightarrow>
        (if is_int_type T then type_of g c \<in> {INT32, INT64} \<and> canonical T (GetRawValue (the_inst g c)) else type_of g c = T))"

definition arith_ok :: "graph \<Rightarrow> inst_id \<Rightarrow> bool" where
  "arith_ok g i \<longleftrightarrow>
     (is_int_type (type_of g i) \<or> IsFloatType (type_of g i)) \<and> type_of g i \<noteq> BOOL
     \<and> (\<forall>c \<in> set (inputs (the_inst g i)). operand_ok g (type_of g i) c)"

definition fold_ok :: "graph \<Rightarrow> inst_id \<Rightarrow> (inst_id \<Rightarrow> u64) \<Rightarrow> (graph \<times> bool) option \<Rightarrow> bool" where
  "fold_ok g i \<rho> r \<longleftrightarrow> r = Some (kept g) \<or> (\<exists>gc. r = Some (replaced i gc) \<and> const_result g (\<rho> i) gc)"

lemma fold_ok_kept [simp]: "fold_ok g i \<rho> (Some (kept g))"
  by (simp add: fold_ok_def)

lemma fold_ok_replaced [intro]: "const_result g (\<rho> i) gc \<Longrightarrow> fold_ok g i \<rho> (Some (replaced i gc))"
  unfolding fold_ok_def by blast

lemma const_value:
  "consistent fp g \<rho> \<Longrightarrow> c < length (insts g) \<Longrightarrow> IsConst g c \<Longrightarrow> \<rho> c = GetRawValue (the_inst g c)"
  by (auto simp: consistent_iff IsConst_def eval_op_def)

lemma fold_pre_value:
  assumes "fold_pre fp op n g i \<rho>" "eval_op fp (the_inst g i) (map \<rho> (inputs (the_inst g i))) = Some v"
  shows "\<rho> i = v"
  using assms by (simp add: fold_pre_def consistent_iff)

lemma input_in: "k < length (inputs (the_inst g i)) \<Longrightarrow> GetInput g i k \<in> set (inputs (the_inst g i))"
  by (simp add: GetInput_def)

lemma fold_pre_input:
  assumes "fold_pre fp op n g i \<rho>" "k < n"
  shows "map \<rho> (inputs (the_inst g i)) ! k = \<rho> (GetInput g i k)" "GetInput g i k < length (insts g)"
  using assms by (auto simp: fold_pre_def GetInput_def wf_inputs_def)

lemma fold_pre_const:
  assumes "fold_pre fp op n g i \<rho>" "k < n" "IsConst g (GetInput g i k)"
  shows "\<rho> (GetInput g i k) = GetIntValue g (GetInput g i k)"
  using assms fold_pre_input(2) [OF assms(1,2)] by (auto simp: fold_pre_def GetIntValue_def intro: const_value)

lemma canonical_input:
  assumes "arith_ok g i" "k < length (inputs (the_inst g i))" "IsConst g (GetInput g i k)" "is_int_type (type_of g i)"
  shows "canonical (type_of g i) (GetIntValue g (GetInput g i k))"
  using assms input_in [OF assms(2)] unfolding arith_ok_def operand_ok_def GetIntValue_def by auto

lemma int_const_ok:
  assumes "fold_pre fp op n g i \<rho>" "is_int_type (type_of g i)" "\<rho> i = canon (type_of g i) v"
  shows "fold_ok g i \<rho> (map_option (replaced i) (int_const g i v))"
proof -
  have "const_result g (\<rho> i) (ConstFoldingCreateIntConst g i (canon (type_of g i) v) False)"
    unfolding assms(3) using assms(1,2)
    by (intro CreateIntConst_result) (auto simp: fold_pre_def scast_ucast_canon)
  then show ?thesis using assms(2) by (auto simp: int_const_def ConvertIntToInt_canon)
qed

lemma sized_const_ok:
  assumes "fold_pre fp op n g i \<rho>" "is_int_type (type_of g i)"
    and "IsBytecodeOptimizer g \<Longrightarrow> IsInt32Bit (type_of g i) \<Longrightarrow> \<rho> i = canon (type_of g i) v32"
    and "\<not> (IsBytecodeOptimizer g \<and> IsInt32Bit (type_of g i)) \<Longrightarrow> \<rho> i = canon (type_of g i) v64"
  shows "fold_ok g i \<rho> (map_option (replaced i) (sized_const g i v32 v64))"
proof (cases "IsBytecodeOptimizer g \<and> IsInt32Bit (type_of g i)")
  case True
  then have "const_result g (\<rho> i) (FindOrCreateConstant_u32 g (ucast (canon (type_of g i) v32)))"
    using assms by (intro u32_const_result) (auto simp: fold_pre_def scast_ucast_canon)
  then show ?thesis using True assms(2) by (auto simp: sized_const_def ConvertIntToInt_canon)
next
  case False
  then have "const_result g (\<rho> i) (FindOrCreateConstant_u64 g (canon (type_of g i) v64))"
    using assms by (simp add: fold_pre_def u64_const_result)
  then show ?thesis using False assms(2) by (auto simp: sized_const_def ConvertIntToInt_canon)
qed

lemma zero_const_ok:
  assumes "fold_pre fp op n g i \<rho>" "\<rho> i = of_bool b"
  shows "fold_ok g i \<rho> (Some (replaced i (ConstFoldingCreateIntConst g i (of_bool b) False)))"
proof -
  have "scast (ucast (of_bool b :: u64) :: u32) = (of_bool b :: u64)" by (cases b) simp_all
  then show ?thesis using assms by (intro fold_ok_replaced) (auto simp: fold_pre_def intro!: CreateIntConst_result)
qed

lemma fp_const_ok:
  assumes "fold_pre fp op n g i \<rho>" "\<rho> i = fp_reg f v"
  shows "fold_ok g i \<rho> (Some (replaced i (FindOrCreateConstant_fp g f v)))"
  using assms by (intro fold_ok_replaced) (simp add: fold_pre_def fp_const_result)

section \<open>Soundness of the folds\<close>

abbreviation is_arith :: "opcode \<Rightarrow> bool" where
  "is_arith op \<equiv> op \<in> {Op_Neg, Op_Abs, Op_Not, Op_Sqrt, Op_Add, Op_Sub, Op_Mul, Op_Div, Op_Mod, Op_Min, Op_Max, Op_Shl,
     Op_Shr, Op_AShr, Op_And, Op_Or, Op_Xor}"

lemma eval_op_arith:
  "is_arith (GetOpcode s) \<Longrightarrow>
   eval_op fp s xs =
     (if is_int_type (GetType s) then map_option (canon (GetType s)) (eval_int (GetOpcode s) (GetType s) (xs ! 0) (xs ! 1))
      else Option.bind (fmt_of (GetType s)) (\<lambda>f. map_option (fp_reg f)
             (eval_fp fp (GetOpcode s) f (fp_reg f (xs ! 0)) (fp_reg f (xs ! 1)))))"
  by (cases "GetOpcode s") (simp_all add: eval_op_def Let_def)

lemma arith_value:
  assumes "fold_pre fp op n g i \<rho>" "is_arith op" "is_int_type (type_of g i)"
    and "eval_int op (type_of g i) (map \<rho> (inputs (the_inst g i)) ! 0) (map \<rho> (inputs (the_inst g i)) ! 1) = Some v"
  shows "\<rho> i = canon (type_of g i) v"
proof -
  have "GetOpcode (the_inst g i) = op" using assms(1) by (simp add: fold_pre_def)
  with assms(2-4) show ?thesis by (intro fold_pre_value [OF assms(1)]) (simp add: eval_op_arith)
qed

lemma fp_value:
  assumes "fold_pre fp op n g i \<rho>" "is_arith op" "fmt_of (type_of g i) = Some f"
    and "eval_fp fp op f (fp_reg f (map \<rho> (inputs (the_inst g i)) ! 0)) (fp_reg f (map \<rho> (inputs (the_inst g i)) ! 1)) = Some v"
  shows "\<rho> i = fp_reg f v"
proof -
  have "GetOpcode (the_inst g i) = op" using assms(1) by (simp add: fold_pre_def)
  moreover have "\<not> is_int_type (type_of g i)" using assms(3) by (cases "type_of g i") simp_all
  ultimately show ?thesis using assms(2-4) by (intro fold_pre_value [OF assms(1)]) (simp add: eval_op_arith)
qed

text \<open>The constant operands of a binary and of a unary integer operation.\<close>

lemma int_operands:
  assumes pre: "fold_pre fp op 2 g i \<rho>" and ok: "arith_ok g i" and int: "is_int_type (type_of g i)"
    and c: "IsConst g (GetInput g i 0)" "IsConst g (GetInput g i 1)" and op: "is_arith op"
  obtains x y where "GetIntValue g (GetInput g i 0) = x" "GetIntValue g (GetInput g i 1) = y"
    "canonical (type_of g i) x" "canonical (type_of g i) y"
    "\<And>v. eval_int op (type_of g i) x y = Some v \<Longrightarrow> \<rho> i = canon (type_of g i) v"
proof -
  have len: "0 < length (inputs (the_inst g i))" "1 < length (inputs (the_inst g i))" using pre by (auto simp: fold_pre_def)
  have "map \<rho> (inputs (the_inst g i)) ! 0 = GetIntValue g (GetInput g i 0)"
       "map \<rho> (inputs (the_inst g i)) ! 1 = GetIntValue g (GetInput g i 1)"
    using fold_pre_input(1) [OF pre] fold_pre_const [OF pre] c by simp_all
  then have "eval_int op (type_of g i) (GetIntValue g (GetInput g i 0)) (GetIntValue g (GetInput g i 1)) = Some v
      \<Longrightarrow> \<rho> i = canon (type_of g i) v" for v
    using arith_value [OF pre op int] by simp
  with that canonical_input [OF ok len(1) c(1) int] canonical_input [OF ok len(2) c(2) int] show thesis by blast
qed

lemma int_operand:
  assumes pre: "fold_pre fp op 1 g i \<rho>" and ok: "arith_ok g i" and int: "is_int_type (type_of g i)"
    and c: "IsConst g (GetInput g i 0)" and op: "op \<in> {Op_Neg, Op_Abs, Op_Not}"
  obtains x where "GetIntValue g (GetInput g i 0) = x" "canonical (type_of g i) x"
    "\<And>v y. eval_int op (type_of g i) x y = Some v \<Longrightarrow> \<rho> i = canon (type_of g i) v"
proof -
  have len: "0 < length (inputs (the_inst g i))" using pre by (auto simp: fold_pre_def)
  have "map \<rho> (inputs (the_inst g i)) ! 0 = GetIntValue g (GetInput g i 0)"
    using fold_pre_input(1) [OF pre] fold_pre_const [OF pre] c by simp
  moreover have "eval_int op T x y = eval_int op T x z" for T x y z using op by (auto simp: eval_int_def)
  ultimately have "eval_int op (type_of g i) (GetIntValue g (GetInput g i 0)) y = Some v
      \<Longrightarrow> \<rho> i = canon (type_of g i) v" for v y
    using arith_value [OF pre _ int] op by (metis insertCI insertE singletonD)
  with that canonical_input [OF ok len(1) c(1) int] show thesis by blast
qed

text \<open>An operation of the ring of words, or a bit operation, agrees with the one on integers.\<close>

lemma ring_ok:
  assumes pre: "fold_pre fp op 2 g i \<rho>" and ok: "arith_ok g i" and int: "is_int_type (type_of g i)"
    and c: "IsConst g (GetInput g i 0)" "IsConst g (GetInput g i 1)" and op: "is_arith op"
    and ev: "\<And>x y. eval_int op (type_of g i) x y = Some (h (val (type_of g i) x) (val (type_of g i) y))"
    and hom: "\<And>a b. H (word_of_int a) (word_of_int b) = (word_of_int (h a b) :: u64)"
  shows "fold_ok g i \<rho> (map_option (replaced i)
     (int_const g i (uint (H (GetIntValue g (GetInput g i 0)) (GetIntValue g (GetInput g i 1))))))"
  using pre ok int c op
proof (rule int_operands)
  fix x y assume xy: "GetIntValue g (GetInput g i 0) = x" "GetIntValue g (GetInput g i 1) = y"
    "canonical (type_of g i) x" "canonical (type_of g i) y"
    and v: "\<And>v. eval_int op (type_of g i) x y = Some v \<Longrightarrow> \<rho> i = canon (type_of g i) v"
  have "H x y = word_of_int (h (val (type_of g i) x) (val (type_of g i) y))"
    using hom [of "val (type_of g i) x" "val (type_of g i) y"] xy(3,4) by (simp add: canonical_def)
  then have "canon (type_of g i) (h (val (type_of g i) x) (val (type_of g i) y)) = canon (type_of g i) (uint (H x y))"
    using ok int by (simp only: canon_uint arith_ok_def not_False_eq_True)
  with v [OF ev] show "fold_ok g i \<rho> (map_option (replaced i)
     (int_const g i (uint (H (GetIntValue g (GetInput g i 0)) (GetIntValue g (GetInput g i 1))))))"
    unfolding xy by (intro int_const_ok [OF pre int]) simp
qed

lemma unary_ok:
  assumes pre: "fold_pre fp op 1 g i \<rho>" and ok: "arith_ok g i" and int: "is_int_type (type_of g i)"
    and c: "IsConst g (GetInput g i 0)" and op: "op \<in> {Op_Neg, Op_Abs, Op_Not}"
    and ev: "\<And>x y. eval_int op (type_of g i) x y = Some (h (val (type_of g i) x))"
    and hom: "\<And>a. H (word_of_int a) = (word_of_int (h a) :: u64)"
  shows "fold_ok g i \<rho> (map_option (replaced i) (int_const g i (uint (H (GetIntValue g (GetInput g i 0))))))"
  using pre ok int c op
proof (rule int_operand)
  fix x assume x: "GetIntValue g (GetInput g i 0) = x" "canonical (type_of g i) x"
    and v: "\<And>v y. eval_int op (type_of g i) x y = Some v \<Longrightarrow> \<rho> i = canon (type_of g i) v"
  have "H x = word_of_int (h (val (type_of g i) x))"
    using hom [of "val (type_of g i) x"] x(2) by (simp add: canonical_def)
  then have "canon (type_of g i) (h (val (type_of g i) x)) = canon (type_of g i) (uint (H x))"
    using ok int by (simp only: canon_uint arith_ok_def not_False_eq_True)
  with v [OF ev] show "fold_ok g i \<rho> (map_option (replaced i) (int_const g i (uint (H (GetIntValue g (GetInput g i 0))))))"
    unfolding x by (intro int_const_ok [OF pre int]) simp
qed

text \<open>Floating-point operands.\<close>

lemma fp_operand:
  assumes "fold_pre fp op n g i \<rho>" "k < n" "IsConst g (GetInput g i k)"
  shows "fp_reg F32 (map \<rho> (inputs (the_inst g i)) ! k) = GetFloatValue g (GetInput g i k)"
    "fp_reg F64 (map \<rho> (inputs (the_inst g i)) ! k) = GetDoubleValue g (GetInput g i k)"
  using fold_pre_input(1) [OF assms(1,2)] fold_pre_const [OF assms]
  by (simp_all add: GetFloatValue_def GetDoubleValue_def GetIntValue_def)

lemma arith_type_cases:
  assumes "arith_ok g i"
  obtains (int) "is_int_type (type_of g i)" "type_of g i \<noteq> BOOL" "GetCommonType (type_of g i) = INT64"
  | (f32) "type_of g i = FLOAT32" "GetCommonType (type_of g i) = FLOAT32"
  | (f64) "type_of g i = FLOAT64" "GetCommonType (type_of g i) = FLOAT64"
  using assms by (auto simp: arith_ok_def IsFloatType_def)

lemma fp2_ok:
  assumes pre: "fold_pre fp op 2 g i \<rho>" and c: "IsConst g (GetInput g i 0)" "IsConst g (GetInput g i 1)"
    and op: "is_arith op" and ev: "\<And>f x y. eval_fp fp op f x y = Some (h f x y)"
  shows "type_of g i = FLOAT32 \<Longrightarrow> fold_ok g i \<rho> (Some (replaced i (FindOrCreateConstant_fp g F32
            (h F32 (GetFloatValue g (GetInput g i 0)) (GetFloatValue g (GetInput g i 1))))))"
    and "type_of g i = FLOAT64 \<Longrightarrow> fold_ok g i \<rho> (Some (replaced i (FindOrCreateConstant_fp g F64
            (h F64 (GetDoubleValue g (GetInput g i 0)) (GetDoubleValue g (GetInput g i 1))))))"
proof -
  assume T: "type_of g i = FLOAT32"
  have "\<rho> i = fp_reg F32 (h F32 (GetFloatValue g (GetInput g i 0)) (GetFloatValue g (GetInput g i 1)))"
    using T ev fp_operand(1) [OF pre _ c(1)] fp_operand(1) [OF pre _ c(2)] by (intro fp_value [OF pre op]) simp_all
  then show "fold_ok g i \<rho> (Some (replaced i (FindOrCreateConstant_fp g F32
      (h F32 (GetFloatValue g (GetInput g i 0)) (GetFloatValue g (GetInput g i 1))))))" by (rule fp_const_ok [OF pre])
next
  assume T: "type_of g i = FLOAT64"
  have "\<rho> i = fp_reg F64 (h F64 (GetDoubleValue g (GetInput g i 0)) (GetDoubleValue g (GetInput g i 1)))"
    using T ev fp_operand(2) [OF pre _ c(1)] fp_operand(2) [OF pre _ c(2)] by (intro fp_value [OF pre op]) simp_all
  then show "fold_ok g i \<rho> (Some (replaced i (FindOrCreateConstant_fp g F64
      (h F64 (GetDoubleValue g (GetInput g i 0)) (GetDoubleValue g (GetInput g i 1))))))" by (rule fp_const_ok [OF pre])
qed

lemma Add_ok: "fold_pre fp Op_Add 2 g i \<rho> \<Longrightarrow> arith_ok g i \<Longrightarrow> fold_ok g i \<rho> (ConstFoldingAdd fp g i)"
proof (cases "IsConst g (GetInput g i 0) \<and> IsConst g (GetInput g i 1)")
  case True
  assume pre: "fold_pre fp Op_Add 2 g i \<rho>" and ok: "arith_ok g i"
  from ok show ?thesis
  proof (cases rule: arith_type_cases)
    case int
    then show ?thesis
      using ring_ok [OF pre ok, where H = "(+)" and h = "(+)"] True by (simp add: ConstFoldingAdd_def eval_int_def)
  qed (use True fp2_ok [OF pre, of "fp_add fp"] in \<open>simp_all add: ConstFoldingAdd_def eval_fp_def\<close>)
qed (auto simp: ConstFoldingAdd_def)

lemma wrap_0 [simp]: "wrap T 0 = 0"
  by (simp add: wrap_def)

lemma val_0 [simp]: "val T 0 = 0"
  by (simp add: val_def)

lemma canon_0 [simp]: "canon T 0 = 0"
  by (simp add: canon_def)

lemma input_ok: "fold_pre fp op n g i \<rho> \<Longrightarrow> arith_ok g i \<Longrightarrow> k < n \<Longrightarrow> operand_ok g (type_of g i) (GetInput g i k)"
  by (simp add: arith_ok_def fold_pre_def input_in)

lemma const_input_result:
  assumes "fold_pre fp op n g i \<rho>" "k < n" "IsConst g (GetInput g i k)" "\<rho> i = GetIntValue g (GetInput g i k)"
  shows "fold_ok g i \<rho> (Some (replaced i (g, GetInput g i k)))"
  using assms fold_pre_input(2) [OF assms(1,2)]
  by (intro fold_ok_replaced) (simp add: const_result_def GetIntValue_def)

lemma Sub_ok: "fold_pre fp Op_Sub 2 g i \<rho> \<Longrightarrow> arith_ok g i \<Longrightarrow> fold_ok g i \<rho> (ConstFoldingSub fp g i)"
proof (cases "IsConst g (GetInput g i 0) \<and> IsConst g (GetInput g i 1)")
  case True
  assume pre: "fold_pre fp Op_Sub 2 g i \<rho>" and ok: "arith_ok g i"
  from ok show ?thesis
  proof (cases rule: arith_type_cases)
    case int
    then show ?thesis
      using ring_ok [OF pre ok, where H = "(-)" and h = "(-)"] True by (simp add: ConstFoldingSub_def Let_def eval_int_def)
  qed (use True fp2_ok [OF pre, of "fp_sub fp"] in \<open>simp_all add: ConstFoldingSub_def Let_def eval_fp_def\<close>)
next
  case False
  assume pre: "fold_pre fp Op_Sub 2 g i \<rho>" and ok: "arith_ok g i"
  have "fold_ok g i \<rho> (Some (replaced i (ConstFoldingCreateIntConst g i (of_bool False) False)))"
    if "GetInput g i 0 = GetInput g i 1" "is_int_type (type_of g i)"
  proof (rule zero_const_ok [OF pre])
    show "\<rho> i = of_bool False"
      using that arith_value [OF pre _ that(2), of 0] fold_pre_input(1) [OF pre, of 0] fold_pre_input(1) [OF pre, of 1]
      by (simp add: eval_int_def)
  qed
  with False show ?thesis by (auto simp: ConstFoldingSub_def Let_def)
qed

text \<open>A constant that absorbs the other operand.\<close>

lemma absorb_ok:
  assumes pre: "fold_pre fp op 2 g i \<rho>" and int: "is_int_type (type_of g i)" and op: "is_arith op"
    and k: "k < 2" "IsConst g (GetInput g i k)"
    and ev: "\<And>x. eval_int op (type_of g i) (GetIntValue g (GetInput g i k)) x = Some (v x)"
      "\<And>x. eval_int op (type_of g i) x (GetIntValue g (GetInput g i k)) = Some (v x)"
    and v: "\<And>x. canon (type_of g i) (v x) = GetIntValue g (GetInput g i k)"
  shows "fold_ok g i \<rho> (Some (replaced i (g, GetInput g i k)))"
proof (rule const_input_result [OF pre k])
  have "map \<rho> (inputs (the_inst g i)) ! k = GetIntValue g (GetInput g i k)"
    using fold_pre_input(1) [OF pre k(1)] fold_pre_const [OF pre k] by simp
  moreover have "k = 0 \<or> k = 1" using k(1) by auto
  ultimately show "\<rho> i = GetIntValue g (GetInput g i k)"
    using arith_value [OF pre op int] ev v by metis
qed

lemma Mul_ok: "fold_pre fp Op_Mul 2 g i \<rho> \<Longrightarrow> arith_ok g i \<Longrightarrow> fold_ok g i \<rho> (ConstFoldingMul fp g i)"
proof (cases "IsConst g (GetInput g i 0) \<and> IsConst g (GetInput g i 1)")
  case True
  assume pre: "fold_pre fp Op_Mul 2 g i \<rho>" and ok: "arith_ok g i"
  from ok show ?thesis
  proof (cases rule: arith_type_cases)
    case int
    then show ?thesis
      using ring_ok [OF pre ok, where H = "(*)" and h = "(*)"] True by (simp add: ConstFoldingMul_def Let_def eval_int_def)
  qed (use True fp2_ok [OF pre, of "fp_mul fp"] in \<open>simp_all add: ConstFoldingMul_def Let_def eval_fp_def\<close>)
next
  case False
  assume pre: "fold_pre fp Op_Mul 2 g i \<rho>" and ok: "arith_ok g i"
  have "fold_ok g i \<rho> (Some (replaced i (g, GetInput g i k)))"
    if k: "k < 2" and c: "IsConst g (GetInput g i k)" and z: "IsEqualConst_32 g (GetInput g i k) 0 (IsBytecodeOptimizer g)" for k
  proof -
    have ty: "type_of g (GetInput g i k) \<in> {INT32, INT64}" using z by (auto simp: IsEqualConst_32_def split: if_splits)
    have int: "is_int_type (type_of g i)"
      using input_ok [OF pre ok k] c ty ok by (auto simp: operand_ok_def arith_ok_def IsFloatType_def split: if_splits)
    have 0: "GetIntValue g (GetInput g i k) = 0"
      using z c pre fold_pre_input(2) [OF pre k]
      by (auto simp: IsEqualConst_32_def GetIntValue_def fold_pre_def wf_consts_def split: if_splits)
    show ?thesis
      using absorb_ok [OF pre int _ k c, where v = "\<lambda>x. 0"] by (simp add: 0 eval_int_def)
  qed
  with False show ?thesis by (auto simp: ConstFoldingMul_def Let_def)
qed


lemma And_ok:
  assumes pre: "fold_pre fp Op_And 2 g i \<rho>" and ok: "arith_ok g i" and int: "is_int_type (type_of g i)"
  shows "fold_ok g i \<rho> (ConstFoldingAnd g i)"
proof (cases "IsConst g (GetInput g i 0) \<and> IsConst g (GetInput g i 1)")
  case True
  then show ?thesis
    using ring_ok [OF pre ok int, where H = "(AND)" and h = "(AND)"] by (simp add: ConstFoldingAnd_def Let_def eval_int_def word_of_int_and)
next
  case False
  have "fold_ok g i \<rho> (Some (replaced i (g, GetInput g i k)))"
    if "k < 2" "IsConst g (GetInput g i k)" "GetIntValue g (GetInput g i k) = 0" for k
    using absorb_ok [OF pre int _ that(1,2), where v = "\<lambda>x. 0"] that(3) by (simp add: eval_int_def)
  with False show ?thesis by (auto simp: ConstFoldingAnd_def Let_def)
qed

lemma word_of_int_or: "word_of_int (a OR b) = word_of_int a OR (word_of_int b :: 'a::len word)"
  by (rule bit_word_eqI) (simp add: bit_simps)

lemma word_of_int_xor: "word_of_int (a XOR b) = word_of_int a XOR (word_of_int b :: 'a::len word)"
  by (rule bit_word_eqI) (auto simp: bit_simps)

lemma word_of_int_not: "word_of_int (NOT a) = NOT (word_of_int a :: 'a::len word)"
  by (rule bit_word_eqI) (simp add: bit_simps)

lemma canon_or_minus_1:
  assumes "is_int_type T" "T \<noteq> BOOL" "canonical T (-1)"
  shows "canon T (val T (- 1) OR val T x) = - 1" "canon T (val T x OR val T (- 1)) = - 1"
proof -
  have "canon T (val T (- 1) OR val T x) = canon T (sint (word_of_int (val T (- 1) OR val T x) :: u64))"
    by (rule canon_sint [OF assms(1,2), symmetric])
  also have "word_of_int (val T (- 1) OR val T x) = (- 1 OR word_of_int (val T x) :: u64)"
    using assms(3) by (simp add: word_of_int_or canonical_def)
  also have "\<dots> = - 1" by (rule bit_word_eqI) (simp add: bit_simps)
  finally show 1: "canon T (val T (- 1) OR val T x) = - 1"
    using assms(3) by (simp add: canonical_def val_def canon_def)
  then show "canon T (val T x OR val T (- 1)) = - 1" by (simp add: or.commute)
qed

lemma Or_ok:
  assumes pre: "fold_pre fp Op_Or 2 g i \<rho>" and ok: "arith_ok g i" and int: "is_int_type (type_of g i)"
  shows "fold_ok g i \<rho> (ConstFoldingOr g i)"
proof (cases "IsConst g (GetInput g i 0) \<and> IsConst g (GetInput g i 1)")
  case True
  then show ?thesis
    using ring_ok [OF pre ok int, where H = "(OR)" and h = "(OR)"] by (simp add: ConstFoldingOr_def Let_def eval_int_def word_of_int_or)
next
  case False
  have "fold_ok g i \<rho> (Some (replaced i (g, GetInput g i k)))"
    if k: "k < 2" "IsConst g (GetInput g i k)" and m: "GetIntValue g (GetInput g i k) = - 1" for k
  proof -
    have "canonical (type_of g i) (- 1)" "type_of g i \<noteq> BOOL"
      using input_ok [OF pre ok k(1)] ok k(2) int m by (auto simp: operand_ok_def GetIntValue_def arith_ok_def)
    from canon_or_minus_1 [OF int this(2,1)] show ?thesis
      using absorb_ok [OF pre int _ k, where v = "\<lambda>x. val (type_of g i) x OR val (type_of g i) (- 1)"] m
      by (simp add: eval_int_def or.commute)
  qed
  with False show ?thesis by (auto simp: ConstFoldingOr_def Let_def)
qed

lemma Xor_ok:
  assumes pre: "fold_pre fp Op_Xor 2 g i \<rho>" and ok: "arith_ok g i" and int: "is_int_type (type_of g i)"
  shows "fold_ok g i \<rho> (ConstFoldingXor g i)"
proof (cases "IsConst g (GetInput g i 0) \<and> IsConst g (GetInput g i 1)")
  case True
  then show ?thesis
    using ring_ok [OF pre ok int, where H = "(XOR)" and h = "(XOR)"] by (simp add: ConstFoldingXor_def Let_def eval_int_def word_of_int_xor)
next
  case False
  have "fold_ok g i \<rho> (Some (replaced i (ConstFoldingCreateIntConst g i (of_bool False) False)))"
    if "GetInput g i 0 = GetInput g i 1"
  proof (rule zero_const_ok [OF pre])
    show "\<rho> i = of_bool False"
      using that arith_value [OF pre _ int, of 0] fold_pre_input(1) [OF pre, of 0] fold_pre_input(1) [OF pre, of 1]
      by (simp add: eval_int_def)
  qed
  with False show ?thesis by (auto simp: ConstFoldingXor_def Let_def)
qed

lemma Not_ok:
  assumes pre: "fold_pre fp Op_Not 1 g i \<rho>" and ok: "arith_ok g i" and int: "is_int_type (type_of g i)"
  shows "fold_ok g i \<rho> (ConstFoldingNot g i)"
  using unary_ok [OF pre ok int, where H = "NOT" and h = "NOT"]
  by (simp add: ConstFoldingNot_def Let_def eval_int_def word_of_int_not)

lemma fp1_ok:
  assumes pre: "fold_pre fp op 1 g i \<rho>" and c: "IsConst g (GetInput g i 0)"
    and op: "is_arith op" and ev: "\<And>f x y. eval_fp fp op f x y = Some (h f x)"
  shows "type_of g i = FLOAT32 \<Longrightarrow> fold_ok g i \<rho> (Some (replaced i (FindOrCreateConstant_fp g F32
            (h F32 (GetFloatValue g (GetInput g i 0))))))"
    and "type_of g i = FLOAT64 \<Longrightarrow> fold_ok g i \<rho> (Some (replaced i (FindOrCreateConstant_fp g F64
            (h F64 (GetDoubleValue g (GetInput g i 0))))))"
proof -
  have "\<rho> i = fp_reg f (h f (fp_reg f (map \<rho> (inputs (the_inst g i)) ! 0)))" if "fmt_of (type_of g i) = Some f" for f
    using ev by (intro fp_value [OF pre op that]) simp
  note v = this
  show "type_of g i = FLOAT32 \<Longrightarrow> fold_ok g i \<rho> (Some (replaced i (FindOrCreateConstant_fp g F32
            (h F32 (GetFloatValue g (GetInput g i 0))))))"
    using v [of F32] fp_operand(1) [OF pre _ c] by (intro fp_const_ok [OF pre]) simp
  show "type_of g i = FLOAT64 \<Longrightarrow> fold_ok g i \<rho> (Some (replaced i (FindOrCreateConstant_fp g F64
            (h F64 (GetDoubleValue g (GetInput g i 0))))))"
    using v [of F64] fp_operand(2) [OF pre _ c] by (intro fp_const_ok [OF pre]) simp
qed

lemma Neg_ok: "fold_pre fp Op_Neg 1 g i \<rho> \<Longrightarrow> arith_ok g i \<Longrightarrow> fold_ok g i \<rho> (ConstFoldingNeg g i)"
proof (cases "IsConst g (GetInput g i 0)")
  case True
  assume pre: "fold_pre fp Op_Neg 1 g i \<rho>" and ok: "arith_ok g i"
  from ok show ?thesis
  proof (cases rule: arith_type_cases)
    case int
    then show ?thesis
      using unary_ok [OF pre ok, where H = uminus and h = uminus] True by (simp add: ConstFoldingNeg_def Let_def eval_int_def)
  qed (use True fp1_ok [OF pre, of fp_neg] in \<open>simp_all add: ConstFoldingNeg_def Let_def eval_fp_def\<close>)
qed (auto simp: ConstFoldingNeg_def Let_def)

lemma Sqrt_ok:
  assumes pre: "fold_pre fp Op_Sqrt 1 g i \<rho>" and ok: "arith_ok g i" and fl: "IsFloatType (type_of g i)"
  shows "fold_ok g i \<rho> (ConstFoldingSqrt fp g i)"
proof (cases "IsConst g (GetInput g i 0)")
  case True
  have "type_of g (GetInput g i 0) = type_of g i"
    using input_ok [OF pre ok, of 0] True fl by (auto simp: operand_ok_def IsFloatType_def)
  with fl True fp1_ok [OF pre, of "fp_sqrt fp"] show ?thesis
    by (auto simp: ConstFoldingSqrt_def Let_def eval_fp_def IsFloatType_def)
qed (auto simp: ConstFoldingSqrt_def Let_def)

lemma Abs_ok:
  assumes pre: "fold_pre fp Op_Abs 1 g i \<rho>" and ok: "arith_ok g i" and sg: "IsTypeSigned (type_of g i)"
  shows "fold_ok g i \<rho> (ConstFoldingAbs g i)"
proof (cases "IsConst g (GetInput g i 0)")
  case True
  from ok show ?thesis
  proof (cases rule: arith_type_cases)
    case int
    obtain x where x: "GetIntValue g (GetInput g i 0) = x" "canonical (type_of g i) x"
      and v: "\<And>v y. eval_int Op_Abs (type_of g i) x y = Some v \<Longrightarrow> \<rho> i = canon (type_of g i) v"
      by (rule int_operand [OF pre ok int(1) True]) auto
    have sx: "sint x = val (type_of g i) x" by (rule sint_canonical [OF int(1) sg x(2)])
    have r: "\<rho> i = canon (type_of g i) \<bar>sint x\<bar>" unfolding sx by (rule v [of 0]) (simp add: eval_int_def)
    have "\<rho> i = x" if "sint x = - (2 ^ 63)"
    proof -
      have "canon (type_of g i) \<bar>sint x\<bar> = canon (type_of g i) (sint (word_of_int \<bar>sint x\<bar> :: u64))"
        by (rule canon_sint [OF int(1,2), symmetric])
      also have "sint (word_of_int \<bar>sint x\<bar> :: u64) = sint x" unfolding that by simp
      also have "canon (type_of g i) (sint x) = x" using x(2) by (simp add: canonical_def canon_def val_def)
      finally show ?thesis using r by simp
    qed
    then have "sint x = - (2 ^ 63) \<Longrightarrow> fold_ok g i \<rho> (Some (replaced i (g, GetInput g i 0)))"
      using True x(1) by (intro const_input_result [OF pre]) simp_all
    moreover have "fold_ok g i \<rho> (map_option (replaced i) (int_const g i (if sint x < 0 then - sint x else sint x)))"
      using r by (intro int_const_ok [OF pre int(1)]) (simp add: abs_if)
    ultimately show ?thesis using True int x(1) by (auto simp: ConstFoldingAbs_def Let_def)
  qed (use True fp1_ok [OF pre, of fp_abs] in \<open>simp_all add: ConstFoldingAbs_def Let_def eval_fp_def\<close>)
qed (auto simp: ConstFoldingAbs_def Let_def)

lemma uint_drop_bit: "uint (drop_bit n w) = uint w div 2 ^ n" for w :: "'a::len word"
  by (simp only: unsigned_drop_bit_eq) (simp add: drop_bit_eq_div [symmetric] take_bit_int_eq_self)

lemma uint_min: "uint (min x y) = min (uint x) (uint y)" for x y :: "'a::len word"
  by (simp add: min_def word_le_def)

lemma uint_max: "uint (max x y) = max (uint x) (uint y)" for x y :: "'a::len word"
  by (simp add: max_def word_le_def)

text \<open>An operation computed on the 32-bit or the 64-bit reading of the operands.\<close>

lemma signed_ok:
  assumes pre: "fold_pre fp op 2 g i \<rho>" and ok: "arith_ok g i" and int: "is_int_type (type_of g i)"
    and c: "IsConst g (GetInput g i 0)" "IsConst g (GetInput g i 1)" and op: "is_arith op"
    and sg: "IsTypeSigned (type_of g i)"
    and ev: "\<And>x y. eval_int op (type_of g i) x y = Some (h (val (type_of g i) x) (val (type_of g i) y))"
  shows "fold_ok g i \<rho> (map_option (replaced i) (sized_const g i
     (h (int32_of (GetIntValue g (GetInput g i 0))) (int32_of (GetIntValue g (GetInput g i 1))))
     (h (sint (GetIntValue g (GetInput g i 0))) (sint (GetIntValue g (GetInput g i 1))))))"
  using pre ok int c op
proof (rule int_operands)
  fix x y assume xy: "GetIntValue g (GetInput g i 0) = x" "GetIntValue g (GetInput g i 1) = y"
    "canonical (type_of g i) x" "canonical (type_of g i) y"
    and v: "\<And>v. eval_int op (type_of g i) x y = Some v \<Longrightarrow> \<rho> i = canon (type_of g i) v"
  from v [OF ev] show "fold_ok g i \<rho> (map_option (replaced i) (sized_const g i
     (h (int32_of (GetIntValue g (GetInput g i 0))) (int32_of (GetIntValue g (GetInput g i 1))))
     (h (sint (GetIntValue g (GetInput g i 0))) (sint (GetIntValue g (GetInput g i 1))))))"
    unfolding xy using int sg xy
    by (intro sized_const_ok [OF pre int]) (simp_all add: sint_canonical int32_of_canonical)
qed

lemma unsigned_ok:
  assumes pre: "fold_pre fp op 2 g i \<rho>" and ok: "arith_ok g i" and int: "is_int_type (type_of g i)"
    and c: "IsConst g (GetInput g i 0)" "IsConst g (GetInput g i 1)" and op: "is_arith op"
    and sg: "\<not> IsTypeSigned (type_of g i)"
    and ev: "\<And>x y. eval_int op (type_of g i) x y = Some (h (val (type_of g i) x) (val (type_of g i) y))"
    and hom: "\<And>x y. uint (H x y) = h (uint x) (uint (y :: u64))"
  shows "fold_ok g i \<rho> (map_option (replaced i)
     (int_const g i (uint (H (GetIntValue g (GetInput g i 0)) (GetIntValue g (GetInput g i 1))))))"
  using pre ok int c op
proof (rule int_operands)
  fix x y assume xy: "GetIntValue g (GetInput g i 0) = x" "GetIntValue g (GetInput g i 1) = y"
    "canonical (type_of g i) x" "canonical (type_of g i) y"
    and v: "\<And>v. eval_int op (type_of g i) x y = Some v \<Longrightarrow> \<rho> i = canon (type_of g i) v"
  from v [OF ev] show "fold_ok g i \<rho> (map_option (replaced i)
     (int_const g i (uint (H (GetIntValue g (GetInput g i 0)) (GetIntValue g (GetInput g i 1))))))"
    unfolding xy using int sg xy by (intro int_const_ok [OF pre int]) (simp add: hom uint_canonical)
qed

lemma Min_ok: "fold_pre fp Op_Min 2 g i \<rho> \<Longrightarrow> arith_ok g i \<Longrightarrow> fold_ok g i \<rho> (ConstFoldingMin g i)"
proof (cases "IsConst g (GetInput g i 0) \<and> IsConst g (GetInput g i 1)")
  case True
  assume pre: "fold_pre fp Op_Min 2 g i \<rho>" and ok: "arith_ok g i"
  from ok show ?thesis
  proof (cases rule: arith_type_cases)
    case int
    then show ?thesis
      using signed_ok [OF pre ok, where h = min] unsigned_ok [OF pre ok, where h = min and H = min] True
      by (simp add: ConstFoldingMin_def ConstFoldingMinInt_def eval_int_def uint_min Let_def)
  qed (use True fp2_ok [OF pre, of math_Min] in \<open>simp_all add: ConstFoldingMin_def eval_fp_def\<close>)
qed (auto simp: ConstFoldingMin_def Let_def)

lemma Max_ok: "fold_pre fp Op_Max 2 g i \<rho> \<Longrightarrow> arith_ok g i \<Longrightarrow> fold_ok g i \<rho> (ConstFoldingMax g i)"
proof (cases "IsConst g (GetInput g i 0) \<and> IsConst g (GetInput g i 1)")
  case True
  assume pre: "fold_pre fp Op_Max 2 g i \<rho>" and ok: "arith_ok g i"
  from ok show ?thesis
  proof (cases rule: arith_type_cases)
    case int
    then show ?thesis
      using signed_ok [OF pre ok, where h = max] unsigned_ok [OF pre ok, where h = max and H = max] True
      by (simp add: ConstFoldingMax_def ConstFoldingMaxInt_def eval_int_def uint_max Let_def)
  qed (use True fp2_ok [OF pre, of math_Max] in \<open>simp_all add: ConstFoldingMax_def eval_fp_def\<close>)
qed (auto simp: ConstFoldingMax_def Let_def)

subsection \<open>Shifts\<close>

lemma GetTypeSize_int: "is_int_type T \<Longrightarrow> T \<noteq> BOOL \<Longrightarrow> GetTypeSize ops T a = Some (type_bits T)"
  by (cases T) (simp_all add: GetTypeSize_def ShiftByType_def ShiftByType_int_def)

lemma shift_count:
  assumes "is_int_type T" "T \<noteq> BOOL"
  shows "unat (y AND (of_nat (type_bits T) - 1) :: u64) = unat y mod type_bits T"
    and "IsInt32Bit T \<Longrightarrow> unat (ucast y AND ucast (of_nat (type_bits T) - 1 :: u64) :: u32) = unat y mod type_bits T"
proof -
  have m: "(7 :: 'a::len word) = mask 3" "(15 :: 'a word) = mask 4" "(31 :: 'a word) = mask 5" "(63 :: 'a word) = mask 6"
    by (simp_all add: mask_eq_exp_minus_1)
  have um: "(ucast (mask n :: u64) :: u32) = mask n" for n by (rule bit_word_eqI) (auto simp: bit_simps)
  have u: "unat (ucast y :: u32) = unat y mod 2 ^ 32" by (simp add: unsigned_ucast_eq take_bit_eq_mod)
  show "unat (y AND (of_nat (type_bits T) - 1) :: u64) = unat y mod type_bits T"
    using assms by (cases T) (simp_all add: m unat_and_mask)
  show "IsInt32Bit T \<Longrightarrow> unat (ucast y AND ucast (of_nat (type_bits T) - 1 :: u64) :: u32) = unat y mod type_bits T"
    using assms by (cases T) (simp_all add: IsInt32Bit_def m um unat_and_mask u mod_mod_cancel)
qed

lemma canon_u32: "is_int_type T \<Longrightarrow> IsInt32Bit T \<Longrightarrow> T \<noteq> BOOL \<Longrightarrow> canon T (uint (word_of_int z :: u32)) = canon T z"
  by (cases T) (auto simp: canon_def wrap_def IsTypeSigned_def IsInt32Bit_def bit_simps min_def intro!: bit_word_eqI)

lemma ucast_word_of_int: "(ucast (word_of_int a :: u64) :: u32) = word_of_int a"
  by (rule bit_word_eqI) (simp add: bit_simps)

lemma Shl_ok:
  assumes pre: "fold_pre fp Op_Shl 2 g i \<rho>" and ok: "arith_ok g i" and int: "is_int_type (type_of g i)"
  shows "fold_ok g i \<rho> (ConstFoldingShl g i)"
proof (cases "IsConst g (GetInput g i 0) \<and> IsConst g (GetInput g i 1)")
  case True
  let ?T = "type_of g i"
  have nb: "?T \<noteq> BOOL" using ok by (simp add: arith_ok_def)
  obtain x y where xy: "GetIntValue g (GetInput g i 0) = x" "GetIntValue g (GetInput g i 1) = y" "canonical ?T x"
    and v: "\<And>v. eval_int Op_Shl ?T x y = Some v \<Longrightarrow> \<rho> i = canon ?T v"
    by (rule int_operands [OF pre ok int conjunct1 [OF True] conjunct2 [OF True]]) auto
  define k where "k = unat y mod type_bits ?T"
  have r: "\<rho> i = canon ?T (val ?T x * 2 ^ k)" by (rule v) (simp add: eval_int_def k_def)
  have "push_bit k x = word_of_int (val ?T x * 2 ^ k)" "push_bit k (ucast x :: u32) = word_of_int (val ?T x * 2 ^ k)"
    using canonicalD [OF xy(3)] ucast_word_of_int [of "val ?T x"] by (simp_all add: push_bit_eq_mult)
  then have "fold_ok g i \<rho> (map_option (replaced i)
      (sized_const g i (uint (push_bit k (ucast x :: u32))) (uint (push_bit k x))))"
    using r nb int by (intro sized_const_ok [OF pre int]) (simp_all only: canon_u32 canon_uint not_False_eq_True)
  then show ?thesis
    using True int nb xy shift_count [OF int nb, of y]
    by (cases "IsBytecodeOptimizer g \<and> IsInt32Bit ?T")
      (auto simp: ConstFoldingShl_def Let_def GetTypeSize_int k_def sized_const_def)
qed (auto simp: ConstFoldingShl_def Let_def)


lemma Shr_ok:
  assumes pre: "fold_pre fp Op_Shr 2 g i \<rho>" and ok: "arith_ok g i" and int: "is_int_type (type_of g i)"
  shows "fold_ok g i \<rho> (ConstFoldingShr g i)"
proof (cases "IsConst g (GetInput g i 0) \<and> IsConst g (GetInput g i 1)")
  case True
  let ?T = "type_of g i"
  have nb: "?T \<noteq> BOOL" using ok by (simp add: arith_ok_def)
  obtain x y where xy: "GetIntValue g (GetInput g i 0) = x" "GetIntValue g (GetInput g i 1) = y" "canonical ?T x"
    and v: "\<And>v. eval_int Op_Shr ?T x y = Some v \<Longrightarrow> \<rho> i = canon ?T v"
    by (rule int_operands [OF pre ok int conjunct1 [OF True] conjunct2 [OF True]]) auto
  define k where "k = unat y mod type_bits ?T"
  have r: "\<rho> i = canon ?T (take_bit (type_bits ?T) (val ?T x) div 2 ^ k)" by (rule v) (simp add: eval_int_def k_def)
  define z where "z = (if of_nat (type_bits ?T) - 1 < (32 :: u64)
      then x AND (push_bit (unat (of_nat (type_bits ?T) - 1 + 1 :: u64)) 1 - 1) else x)"
  have t64: "take_bit 64 x = x" using take_bit_length_eq [of x] by simp
  have z: "z = take_bit (type_bits ?T) x"
    using int nb unfolding z_def by (cases ?T) (simp_all add: t64, simp_all add: take_bit_eq_mask mask_eq_exp_minus_1)
  have "take_bit (type_bits ?T) (val ?T x) = take_bit (type_bits ?T) (sint x)"
    using int nb unfolding val_def wrap_def by (cases ?T) (auto simp: IsTypeSigned_def bit_simps intro!: bit_eqI)
  also have "\<dots> = uint z" unfolding z using int nb by (cases ?T) (auto simp: bit_simps intro!: bit_eqI)
  finally have uz: "take_bit (type_bits ?T) (val ?T x) = uint z" .
  have "uint (ucast z :: u32) = uint z" if "IsInt32Bit ?T"
    using that nb unfolding z by (cases ?T) (auto simp: IsInt32Bit_def bit_simps intro!: bit_eqI)
  then have "fold_ok g i \<rho> (map_option (replaced i)
      (sized_const g i (uint (drop_bit k (ucast z :: u32))) (uint (drop_bit k z))))"
    using r uz by (intro sized_const_ok [OF pre int]) (simp_all add: uint_drop_bit)
  moreover have "GetTypeSize ops INT32 a = Some 32" for ops a by (rule GetTypeSize_int [of INT32, simplified])
  ultimately show ?thesis
    using True int nb xy shift_count [OF int nb, of y]
    by (cases "IsBytecodeOptimizer g \<and> IsInt32Bit ?T")
      (auto simp: ConstFoldingShr_def Let_def GetTypeSize_int k_def sized_const_def z_def split: if_splits)
qed (auto simp: ConstFoldingShr_def Let_def)

lemma AShr_ok:
  assumes pre: "fold_pre fp Op_AShr 2 g i \<rho>" and ok: "arith_ok g i" and int: "is_int_type (type_of g i)"
    and sg: "IsTypeSigned (type_of g i)"
  shows "fold_ok g i \<rho> (ConstFoldingAShr g i)"
proof (cases "IsConst g (GetInput g i 0) \<and> IsConst g (GetInput g i 1)")
  case True
  let ?T = "type_of g i"
  have nb: "?T \<noteq> BOOL" using ok by (simp add: arith_ok_def)
  obtain x y where xy: "GetIntValue g (GetInput g i 0) = x" "GetIntValue g (GetInput g i 1) = y" "canonical ?T x"
    and v: "\<And>v. eval_int Op_AShr ?T x y = Some v \<Longrightarrow> \<rho> i = canon ?T v"
    by (rule int_operands [OF pre ok int conjunct1 [OF True] conjunct2 [OF True]]) auto
  define k where "k = unat y mod type_bits ?T"
  have r: "\<rho> i = canon ?T (val ?T x div 2 ^ k)" by (rule v) (simp add: eval_int_def k_def sg)
  then have "fold_ok g i \<rho> (map_option (replaced i) (sized_const g i (drop_bit k (int32_of x)) (drop_bit k (sint x))))"
    using xy sg int by (intro sized_const_ok [OF pre int])
      (simp_all add: drop_bit_eq_div sint_canonical int32_of_canonical)
  then show ?thesis
    using True int nb xy shift_count [OF int nb, of y]
    by (cases "IsBytecodeOptimizer g \<and> IsInt32Bit ?T")
      (auto simp: ConstFoldingAShr_def Let_def GetTypeSize_int k_def sized_const_def)
qed (auto simp: ConstFoldingAShr_def Let_def)

subsection \<open>Division\<close>

text \<open>
  The checks that \<^verbatim>\<open>GetDataFlowInput\<close> looks through have the value of the input they pass on.
  A \<^verbatim>\<open>HclassCheck\<close> does not (the walk goes on through a load), and is no operand of a division.
\<close>

definition check_index :: "opcode \<Rightarrow> nat option" where
  "check_index op =
     (if op \<in> {Op_NullCheck, Op_ZeroCheck, Op_NegativeCheck, Op_NotPositiveCheck, Op_BoundsCheckI, Op_AnyTypeCheck,
               Op_ObjByIndexCheck} then Some 0
      else if op \<in> {Op_BoundsCheck, Op_RefTypeCheck} then Some 1 else None)"

definition wf_checks :: "graph \<Rightarrow> bool" where
  "wf_checks g \<longleftrightarrow>
     (\<forall>j < length (insts g). case check_index (opcode_of g j) of Some k \<Rightarrow> k < length (inputs (the_inst g j)) | None \<Rightarrow> True)"

definition div_ok :: "graph \<Rightarrow> inst_id \<Rightarrow> bool" where
  "div_ok g i \<longleftrightarrow>
     (is_int_type (type_of g i) \<or> IsFloatType (type_of g i)) \<and> type_of g i \<noteq> BOOL \<and> wf_checks g
     \<and> (\<forall>k < 2. operand_ok g (type_of g i) (DataFlowInput g i k) \<and> opcode_of g (GetInput g i k) \<noteq> Op_HclassCheck)"

lemma check_value:
  assumes "consistent fp g \<rho>" "wf_checks g" "j < length (insts g)" "check_index (opcode_of g j) = Some k"
  shows "\<rho> j = \<rho> (GetInput g j k)" "k < length (inputs (the_inst g j))"
proof -
  show k: "k < length (inputs (the_inst g j))" using assms(2-4) by (auto simp: wf_checks_def split: option.splits)
  have "eval_op fp (the_inst g j) (map \<rho> (inputs (the_inst g j))) = Some (map \<rho> (inputs (the_inst g j)) ! k)"
    using assms(4) by (auto simp: check_index_def eval_op_def Let_def split: if_splits)
  with assms(1,3) k show "\<rho> j = \<rho> (GetInput g j k)" by (simp add: consistent_iff GetInput_def)
qed

lemma skip_value:
  assumes "consistent fp g \<rho>" "wf_inputs g" "wf_checks g" "check_index opc = Some idx" "j < length (insts g)"
  shows "\<rho> (SkipInstructions fuel g opc idx j) = \<rho> j \<and> SkipInstructions fuel g opc idx j < length (insts g)"
  using assms(5)
proof (induction fuel arbitrary: j)
  case (Suc fuel)
  show ?case
  proof (cases "opcode_of g j = opc")
    case True
    note c = check_value [OF assms(1,3) Suc.prems, of idx, unfolded True, OF assms(4)]
    then have "GetInput g j idx < length (insts g)"
      using assms(2) Suc.prems by (auto simp: wf_inputs_def GetInput_def)
    from Suc.IH [OF this] c(1) True show ?thesis by simp
  qed (use Suc.prems in simp)
qed simp

lemma data_flow_value:
  assumes "consistent fp g \<rho>" "wf_inputs g" "wf_checks g" "j < length (insts g)" "opcode_of g j \<noteq> Op_HclassCheck"
  shows "\<rho> (GetDataFlowInput g j) = \<rho> j \<and> GetDataFlowInput g j < length (insts g)"
proof -
  note s = skip_value [OF assms(1-3)]
  have ref: "\<rho> (SkipInstructions n g Op_NullCheck 0 (SkipInstructions n g Op_RefTypeCheck 1 j)) = \<rho> j
      \<and> SkipInstructions n g Op_NullCheck 0 (SkipInstructions n g Op_RefTypeCheck 1 j) < length (insts g)" for n
    using s [of Op_RefTypeCheck 1 j n] s [of Op_NullCheck 0 "SkipInstructions n g Op_RefTypeCheck 1 j" n] assms(4)
    by (simp add: check_index_def)
  show ?thesis
    using assms(4,5) ref s [OF _ assms(4)]
    by (cases "opcode_of g j") (simp_all add: GetDataFlowInput_def check_index_def Let_def)
qed

lemma div_operand:
  assumes pre: "fold_pre fp op 2 g i \<rho>" and ok: "div_ok g i" and k: "k < 2" "IsConst g (DataFlowInput g i k)"
  shows "map \<rho> (inputs (the_inst g i)) ! k = GetIntValue g (DataFlowInput g i k)"
    and "is_int_type (type_of g i) \<Longrightarrow> canonical (type_of g i) (GetIntValue g (DataFlowInput g i k))"
proof -
  have "\<rho> (DataFlowInput g i k) = \<rho> (GetInput g i k) \<and> DataFlowInput g i k < length (insts g)"
    unfolding DataFlowInput_def
    using pre ok k fold_pre_input(2) [OF pre k(1)] by (intro data_flow_value) (auto simp: fold_pre_def div_ok_def)
  then show "map \<rho> (inputs (the_inst g i)) ! k = GetIntValue g (DataFlowInput g i k)"
    using fold_pre_input(1) [OF pre k(1)] pre k(2) const_value [of fp g \<rho> "DataFlowInput g i k"]
    by (simp add: fold_pre_def GetIntValue_def)
  show "is_int_type (type_of g i) \<Longrightarrow> canonical (type_of g i) (GetIntValue g (DataFlowInput g i k))"
    using ok k by (auto simp: div_ok_def operand_ok_def GetIntValue_def)
qed

lemma wrap_below:
  assumes "is_int_type T" "\<not> IsTypeSigned T" "T \<noteq> BOOL" "0 \<le> z" "z \<le> val T x"
  shows "wrap T z = z"
  using assms take_bit_int_less_exp [of "type_bits T" "sint x"]
  by (cases T) (auto simp: val_def wrap_def IsTypeSigned_def take_bit_int_eq_self_iff)

lemma CreateIntConst_ok:
  assumes "fold_pre fp op n g i \<rho>" "is_int_type (type_of g i)" "\<rho> i = v" "v = canon (type_of g i) z"
  shows "fold_ok g i \<rho> (Some (replaced i (ConstFoldingCreateIntConst g i v False)))"
  using assms by (intro fold_ok_replaced) (auto simp: fold_pre_def scast_ucast_canon intro!: CreateIntConst_result)

lemma val_eq_0: "canonical T x \<Longrightarrow> val T x = 0 \<longleftrightarrow> x = 0"
  by (metis canonicalD val_0 of_int_0)

lemma unsigned_quotient:
  assumes T: "is_int_type T" "\<not> IsTypeSigned T" "T \<noteq> BOOL" and c: "canonical T x" "canonical T y"
  shows "x div y = canon T (val T x sdiv val T y)" "y \<noteq> 0 \<Longrightarrow> x mod y = canon T (val T x smod val T y)"
proof -
  have u: "uint x = val T x" "uint y = val T y" by (rule uint_canonical [OF T(1,2)], rule c)+
  then have n: "0 \<le> val T x" "0 \<le> val T y" by (metis unsigned_greater_eq)+
  have "val T x div val T y \<le> val T x"
    using n zdiv_mono2 [of "val T x" 1 "val T y"] by (cases "val T y = 0") auto
  then have q: "wrap T (val T x div val T y) = val T x div val T y"
    using n by (intro wrap_below [OF T, where x = x]) (auto simp: div_int_pos_iff)
  have m: "y \<noteq> 0 \<Longrightarrow> wrap T (val T x mod val T y) = val T x mod val T y"
    using n val_eq_0 [OF c(2)] by (intro wrap_below [OF T, where x = x]) (simp_all add: zmod_le_nonneg_dividend)
  show "x div y = canon T (val T x sdiv val T y)"
    using n q by (simp add: canon_def word_div_def u signed_divide_int_def sgn_if)
  show "y \<noteq> 0 \<Longrightarrow> x mod y = canon T (val T x smod val T y)"
    using n m by (simp add: canon_def word_mod_def u signed_modulo_int_def sgn_if)
qed


lemma min_int32_div:
  assumes "is_int_type T" "IsTypeSigned T" "val T x = - (2 ^ 31)" "IsInt32Bit T"
  shows "canon T (2 ^ 31) = scast (word_of_int (- (2 ^ 31)) :: u32)"
  using assms signed_take_bit_int_greater_eq_minus_exp [of 7 "sint x"] signed_take_bit_int_greater_eq_minus_exp [of 15 "sint x"]
  by (cases T) (auto simp: canon_def val_def wrap_def IsTypeSigned_def IsInt32Bit_def)

lemma min_int64_div:
  assumes "is_int_type T" "IsTypeSigned T" "val T x = - (2 ^ 63)"
  shows "canon T (2 ^ 63) = word_of_int (- (2 ^ 63))"
  using assms signed_take_bit_int_greater_eq_minus_exp [of 7 "sint x"] signed_take_bit_int_greater_eq_minus_exp [of 15 "sint x"]
    signed_take_bit_int_greater_eq_minus_exp [of 31 "sint x"]
  by (cases T) (auto simp: canon_def val_def wrap_def IsTypeSigned_def)

text \<open>The two machine widths of a signed quotient or remainder.\<close>

lemma sized32_ok:
  assumes "fold_pre fp op n g i \<rho>" "is_int_type (type_of g i)" "IsBytecodeOptimizer g" "IsInt32Bit (type_of g i)"
    "\<rho> i = canon (type_of g i) v"
  shows "fold_ok g i \<rho> (map_option (\<lambda>w. replaced i (FindOrCreateConstant_u32 g (ucast w))) (ConvertIntToInt v (type_of g i)))"
  using sized_const_ok [OF assms(1,2), of v v] assms by (simp add: sized_const_def option.map_comp o_def)

lemma sized64_ok:
  assumes "fold_pre fp op n g i \<rho>" "is_int_type (type_of g i)" "\<rho> i = canon (type_of g i) v"
  shows "fold_ok g i \<rho> (map_option (\<lambda>w. replaced i (FindOrCreateConstant_u64 g w)) (ConvertIntToInt v (type_of g i)))"
  using assms by (auto simp: ConvertIntToInt_canon fold_pre_def intro!: u64_const_result)

lemma u32_ok:
  assumes "fold_pre fp op n g i \<rho>" "IsBytecodeOptimizer g" "\<rho> i = scast w"
  shows "fold_ok g i \<rho> (Some (replaced i (FindOrCreateConstant_u32 g w)))"
  using assms by (auto simp: fold_pre_def intro!: u32_const_result)

lemma u64_ok:
  assumes "fold_pre fp op n g i \<rho>" "\<rho> i = w"
  shows "fold_ok g i \<rho> (Some (replaced i (FindOrCreateConstant_u64 g w)))"
  using assms by (auto simp: fold_pre_def intro!: u64_const_result)

lemma div_value:
  assumes pre: "fold_pre fp op 2 g i \<rho>" and ok: "div_ok g i" and int: "is_int_type (type_of g i)" and op: "is_arith op"
    and c: "IsConst g (DataFlowInput g i 0)" "IsConst g (DataFlowInput g i 1)"
    and v: "eval_int op (type_of g i) (GetIntValue g (DataFlowInput g i 0)) (GetIntValue g (DataFlowInput g i 1)) = Some v"
  shows "\<rho> i = canon (type_of g i) v"
  using arith_value [OF pre op int] div_operand(1) [OF pre ok _ c(1)] div_operand(1) [OF pre ok _ c(2)] v by simp

lemma DivInt_ok:
  assumes pre: "fold_pre fp Op_Div 2 g i \<rho>" and ok: "div_ok g i" and int: "is_int_type (type_of g i)"
    and e: "c0 = DataFlowInput g i 0" "c1 = DataFlowInput g i 1" and c: "IsConst g c0" "IsConst g c1"
  shows "fold_ok g i \<rho> (map_option (\<lambda>r. case r of None \<Rightarrow> kept g | Some gc \<Rightarrow> replaced i gc) (ConstFoldingDivInt2Int g i c0 c1))"
proof -
  define T where "T = type_of g i"
  define x where "x = GetIntValue g c0"
  define y where "y = GetIntValue g c1"
  note defs = T_def [symmetric] x_def [symmetric] y_def [symmetric]
  have int': "is_int_type T" and nb: "T \<noteq> BOOL" using int ok by (auto simp: T_def div_ok_def)
  have cx: "canonical T x" "canonical T y"
    unfolding T_def x_def y_def using div_operand(2) [OF pre ok _ c(1) [unfolded e]] div_operand(2) [OF pre ok _ c(2) [unfolded e]] int
    by (simp_all add: e)
  have r: "y \<noteq> 0 \<Longrightarrow> \<rho> i = canon T (val T x sdiv val T y)"
    using div_value [OF pre ok int _ c [unfolded e], of "val T x sdiv val T y"] val_eq_0 [OF cx(2)]
    by (simp add: eval_int_def T_def x_def y_def e)
  have s: "IsTypeSigned T \<Longrightarrow> sint x = val T x" "IsTypeSigned T \<Longrightarrow> sint y = val T y"
    using sint_canonical int' cx by auto
  have s32: "IsTypeSigned T \<Longrightarrow> IsInt32Bit T \<Longrightarrow> int32_of x = val T x" "IsTypeSigned T \<Longrightarrow> IsInt32Bit T \<Longrightarrow> int32_of y = val T y"
    using int32_of_canonical int' cx by auto
  have m1: "(- z) sdiv (- 1) = z" for z :: int by (simp add: signed_divide_int_def sgn_if)
  consider (zero) "y = 0"
    | (s32) "y \<noteq> 0" "IsTypeSigned T" "IsBytecodeOptimizer g" "IsInt32Bit T"
    | (s64) "y \<noteq> 0" "IsTypeSigned T" "\<not> (IsBytecodeOptimizer g \<and> IsInt32Bit T)"
    | (un) "y \<noteq> 0" "\<not> IsTypeSigned T" by blast
  then show ?thesis
  proof cases
    case zero
    then show ?thesis by (simp add: ConstFoldingDivInt2Int_def defs)
  next
    case s32
    then have "val T x = - (2 ^ 31) \<Longrightarrow> val T y = - 1 \<Longrightarrow> \<rho> i = scast (word_of_int (- (2 ^ 31)) :: u32)"
      using r min_int32_div [OF int'] m1 by metis
    then show ?thesis
      using s32 int val_eq_0 [OF cx(2)] s32(1) r \<open>IsTypeSigned T \<Longrightarrow> IsInt32Bit T \<Longrightarrow> int32_of x = val T x\<close>
        \<open>IsTypeSigned T \<Longrightarrow> IsInt32Bit T \<Longrightarrow> int32_of y = val T y\<close>
        sized32_ok [OF pre int, of "val T x sdiv val T y"] u32_ok [OF pre]
      by (auto simp: ConstFoldingDivInt2Int_def defs Let_def option.map_comp o_def)
  next
    case s64
    then have "val T x = - (2 ^ 63) \<Longrightarrow> val T y = - 1 \<Longrightarrow> \<rho> i = word_of_int (- (2 ^ 63))"
      using r min_int64_div [OF int'] m1 by metis
    then show ?thesis
      using s64 int r s sized64_ok [OF pre int, of "val T x sdiv val T y"] u64_ok [OF pre]
      by (auto simp: ConstFoldingDivInt2Int_def defs Let_def option.map_comp o_def)
  next
    case un
    have "canon T (uint x) = x" "canon T (uint y) = y"
      using cx int' by (simp_all add: canon_uint_eq) (simp_all add: canon_def canonical_def val_def)
    then show ?thesis
      using un int' r unsigned_quotient(1) [OF int' un(2) nb cx] CreateIntConst_ok [OF pre int, of "x div y"]
      by (auto simp: ConstFoldingDivInt2Int_def defs Let_def ConvertIntToInt_canon)
  qed
qed


lemma fp_div_ok:
  assumes pre: "fold_pre fp op 2 g i \<rho>" and ok: "div_ok g i" and op: "is_arith op"
    and e: "c0 = DataFlowInput g i 0" "c1 = DataFlowInput g i 1" and c: "IsConst g c0" "IsConst g c1"
    and ev: "\<And>f x y. eval_fp fp op f x y = Some (h f x y)"
  shows "type_of g i = FLOAT32 \<Longrightarrow> fold_ok g i \<rho> (Some (replaced i (FindOrCreateConstant_fp g F32 (h F32 (GetFloatValue g c0) (GetFloatValue g c1)))))"
    and "type_of g i = FLOAT64 \<Longrightarrow> fold_ok g i \<rho> (Some (replaced i (FindOrCreateConstant_fp g F64 (h F64 (GetDoubleValue g c0) (GetDoubleValue g c1)))))"
proof -
  have v: "\<rho> i = fp_reg f (h f (fp_reg f (GetIntValue g c0)) (fp_reg f (GetIntValue g c1)))" if "fmt_of (type_of g i) = Some f" for f
    using div_operand(1) [OF pre ok _ c(1) [unfolded e]] div_operand(1) [OF pre ok _ c(2) [unfolded e]] ev
    by (intro fp_value [OF pre op that]) (simp add: e)
  show "type_of g i = FLOAT32 \<Longrightarrow> fold_ok g i \<rho> (Some (replaced i (FindOrCreateConstant_fp g F32 (h F32 (GetFloatValue g c0) (GetFloatValue g c1)))))"
    using v [of F32] by (intro fp_const_ok [OF pre]) (simp add: GetFloatValue_def GetIntValue_def)
  show "type_of g i = FLOAT64 \<Longrightarrow> fold_ok g i \<rho> (Some (replaced i (FindOrCreateConstant_fp g F64 (h F64 (GetDoubleValue g c0) (GetDoubleValue g c1)))))"
    using v [of F64] by (intro fp_const_ok [OF pre]) (simp add: GetDoubleValue_def GetIntValue_def)
qed

lemma div_type_cases:
  assumes "div_ok g i"
  obtains (int) "is_int_type (type_of g i)" "type_of g i \<noteq> BOOL" "GetCommonType (type_of g i) = INT64" "\<not> IsFloatType (type_of g i)"
  | (f32) "type_of g i = FLOAT32" | (f64) "type_of g i = FLOAT64"
  using assms by (auto simp: div_ok_def IsFloatType_def)

lemma Div_ok: "fold_pre fp Op_Div 2 g i \<rho> \<Longrightarrow> div_ok g i \<Longrightarrow> fold_ok g i \<rho> (ConstFoldingDiv fp g i)"
proof -
  assume pre: "fold_pre fp Op_Div 2 g i \<rho>" and ok: "div_ok g i"
  define c0 where "c0 = DataFlowInput g i 0"
  define c1 where "c1 = DataFlowInput g i 1"
  have e: "ConstFoldingDiv fp g i = (if \<not> IsConst g c0 \<or> \<not> IsConst g c1 then Some (kept g)
         else case GetCommonType (type_of g i) of
                INT64 \<Rightarrow> map_option (\<lambda>r. case r of None \<Rightarrow> kept g | Some gc \<Rightarrow> replaced i gc) (ConstFoldingDivInt2Int g i c0 c1)
              | FLOAT32 \<Rightarrow> Some (replaced i (FindOrCreateConstant_fp g F32 (fp_div fp F32 (GetFloatValue g c0) (GetFloatValue g c1))))
              | FLOAT64 \<Rightarrow> Some (replaced i (FindOrCreateConstant_fp g F64 (fp_div fp F64 (GetDoubleValue g c0) (GetDoubleValue g c1))))
              | _ \<Rightarrow> None)"
    by (simp only: ConstFoldingDiv_def Let_def c0_def c1_def)
  from ok show ?thesis
  proof (cases rule: div_type_cases)
    case int
    then show ?thesis using DivInt_ok [OF pre ok int(1) c0_def c1_def] by (simp add: e)
  qed (use fp_div_ok [OF pre ok _ c0_def c1_def, of "fp_div fp"] in \<open>simp_all add: e eval_fp_def\<close>)
qed

lemma ModInt_ok:
  assumes pre: "fold_pre fp Op_Mod 2 g i \<rho>" and ok: "div_ok g i" and int: "is_int_type (type_of g i)"
    and e: "c0 = DataFlowInput g i 0" "c1 = DataFlowInput g i 1" and c: "IsConst g c0" "IsConst g c1"
    and nz: "GetIntValue g c1 \<noteq> 0"
  shows "fold_ok g i \<rho> (map_option (replaced i) (ConstFoldingModIntConst g i c0 c1))"
proof -
  define T where "T = type_of g i"
  define x where "x = GetIntValue g c0"
  define y where "y = GetIntValue g c1"
  note defs = T_def [symmetric] x_def [symmetric] y_def [symmetric]
  have int': "is_int_type T" and nb: "T \<noteq> BOOL" using int ok by (auto simp: T_def div_ok_def)
  have cx: "canonical T x" "canonical T y"
    unfolding T_def x_def y_def using div_operand(2) [OF pre ok _ c(1) [unfolded e]] div_operand(2) [OF pre ok _ c(2) [unfolded e]] int
    by (simp_all add: e)
  have y: "y \<noteq> 0" "val T y \<noteq> 0" using nz val_eq_0 [OF cx(2)] by (simp_all add: y_def)
  have r: "\<rho> i = canon T (val T x smod val T y)"
    using div_value [OF pre ok int _ c [unfolded e], of "val T x smod val T y"] y
    by (simp add: eval_int_def T_def x_def y_def e)
  have m1: "val T y = - 1 \<Longrightarrow> \<rho> i = 0" using r by (simp add: signed_modulo_int_def)
  consider (s32) "IsTypeSigned T" "IsBytecodeOptimizer g" "IsInt32Bit T"
    | (s64) "IsTypeSigned T" "\<not> (IsBytecodeOptimizer g \<and> IsInt32Bit T)" | (un) "\<not> IsTypeSigned T" by blast
  then show ?thesis
  proof cases
    case s32
    with int32_of_canonical [OF int' s32(1,3)] cx have s: "int32_of x = val T x" "int32_of y = val T y" by auto
    show ?thesis
      using s32 s y r m1 sized32_ok [OF pre int, of "val T x smod val T y"] u32_ok [OF pre, of 0]
      by (auto simp: ConstFoldingModIntConst_def defs Let_def option.map_comp o_def)
  next
    case s64
    with sint_canonical [OF int' s64(1)] cx have s: "sint x = val T x" "sint y = val T y" by auto
    show ?thesis
      using s64 s y r m1 sized64_ok [OF pre int, of "val T x smod val T y"] u64_ok [OF pre, of 0]
      by (auto simp: ConstFoldingModIntConst_def defs Let_def option.map_comp o_def)
  next
    case un
    have "canon T (uint x) = x" "canon T (uint y) = y"
      using cx int' by (simp_all add: canon_uint_eq) (simp_all add: canon_def canonical_def val_def)
    then show ?thesis
      using un int' r y unsigned_quotient(2) [OF int' un nb cx] CreateIntConst_ok [OF pre int, of "x mod y"]
      by (auto simp: ConstFoldingModIntConst_def defs Let_def ConvertIntToInt_canon)
  qed
qed

lemma val_1: "is_int_type T \<Longrightarrow> val T 1 = 1"
  by (induction rule: int_type_induct) (simp_all add: val_def wrap_def IsTypeSigned_def)

lemma Mod_ok: "fold_pre fp Op_Mod 2 g i \<rho> \<Longrightarrow> div_ok g i \<Longrightarrow> fold_ok g i \<rho> (ConstFoldingMod fp g i)"
proof -
  assume pre: "fold_pre fp Op_Mod 2 g i \<rho>" and ok: "div_ok g i"
  define c0 where "c0 = DataFlowInput g i 0"
  define c1 where "c1 = DataFlowInput g i 1"
  note defs = c0_def [symmetric] c1_def [unfolded One_nat_def, symmetric]
  from ok show ?thesis
  proof (cases rule: div_type_cases)
    case int
    have "\<rho> i = 0" if "IsConst g c1" "GetIntValue g c1 = 1"
    proof -
      have "map \<rho> (inputs (the_inst g i)) ! 1 = 1" using div_operand(1) [OF pre ok _ that(1) [unfolded c1_def]] that(2) by (simp add: c1_def)
      then show ?thesis using arith_value [OF pre _ int(1), of 0] int by (simp add: eval_int_def val_1 signed_modulo_int_def)
    qed
    with zero_const_ok [OF pre, of False]
    have "IsConst g c1 \<Longrightarrow> GetIntValue g c1 = 1 \<Longrightarrow> fold_ok g i \<rho> (Some (replaced i (ConstFoldingCreateIntConst g i 0 False)))"
      by simp
    with int show ?thesis
      using ModInt_ok [OF pre ok int(1) c0_def c1_def] by (auto simp: ConstFoldingMod_def Let_def defs)
  qed (use fp_div_ok [OF pre ok _ c0_def c1_def, of "fp_fmod fp"] in
      \<open>simp_all add: ConstFoldingMod_def Let_def defs eval_fp_def IsFloatType_def\<close>)
qed

subsection \<open>Comparisons and casts\<close>

lemma GetResult_int_sgn: "GetResult_int l r = sgn (l - r)"
  by (simp add: GetResult_int_def sgn_if)

lemma convert_uint: "is_int_type S \<Longrightarrow> ConvertIntToInt (uint x) S = Some (canon S (sint x))" for x :: u64
  by (simp add: ConvertIntToInt_canon canon_uint_eq)

lemma uint_u32_canonical:
  assumes "is_int_type T" "\<not> IsTypeSigned T" "IsInt32Bit T" "canonical T w"
  shows "uint (ucast w :: u32) = val T w"
proof -
  have "take_bit 32 (val T w) = val T w"
    using assms(1-3) unfolding val_def
    by (induction rule: int_type_induct) (auto simp: wrap_def IsTypeSigned_def IsInt32Bit_def)
  moreover have "uint (ucast w :: u32) = take_bit 32 (uint w)" by (simp add: unsigned_ucast_eq)
  ultimately show ?thesis by (simp add: uint_canonical [OF assms(1,2,4)])
qed

lemma GetIntResult_sgn:
  assumes "is_int_type S"
  shows "GetIntResult g c0 c1 S = Some (sgn (val S (GetIntValue g c0) - val S (GetIntValue g c1)))"
proof -
  have v: "val S (canon S (sint x)) = val S x" for x by (simp add: val_canon [OF assms]) (simp add: val_def)
  show ?thesis
    using assms by (simp add: GetIntResult_def convert_uint GetResult_int_sgn sint_canonical int32_of_canonical
        uint_canonical uint_u32_canonical v)
qed

lemma GetResult_fp_sgn:
  "GetResult_fp f fcmpg l r = (if isnan f l \<or> isnan f r then (if fcmpg then 1 else - 1) else sgn (fp_key f l - fp_key f r))"
  by (simp add: GetResult_fp_def fp_less_def sgn_if)

definition cmp_ok :: "graph \<Rightarrow> inst_id \<Rightarrow> bool" where
  "cmp_ok g i \<longleftrightarrow> is_int_type (operandsType (the_inst g i)) \<or> IsFloatType (operandsType (the_inst g i))"

lemma cmp_value:
  assumes pre: "fold_pre fp Op_Cmp 2 g i \<rho>"
    and "eval_cmp (IsFcmpg (the_inst g i)) (operandsType (the_inst g i)) (\<rho> (GetInput g i 0)) (\<rho> (GetInput g i 1)) = Some v"
  shows "\<rho> i = v"
proof (rule fold_pre_value [OF pre])
  have "opcode_of g i = Op_Cmp" using pre by (simp add: fold_pre_def)
  with assms(2) fold_pre_input(1) [OF pre, of 0] fold_pre_input(1) [OF pre, of 1]
  show "eval_op fp (the_inst g i) (map \<rho> (inputs (the_inst g i))) = Some v" by (simp add: eval_op_def)
qed

lemma Cmp_ok:
  assumes pre: "fold_pre fp Op_Cmp 2 g i \<rho>" and ok: "cmp_ok g i"
  shows "fold_ok g i \<rho> (ConstFoldingCmp g i)"
proof -
  define c0 where "c0 = GetInput g i 0"
  define c1 where "c1 = GetInput g i 1"
  define S where "S = operandsType (the_inst g i)"
  note defs = c0_def [symmetric] c1_def [unfolded One_nat_def, symmetric] S_def [symmetric]
  have c: "IsConst g c0 \<Longrightarrow> \<rho> c0 = GetIntValue g c0" "IsConst g c1 \<Longrightarrow> \<rho> c1 = GetIntValue g c1"
    using fold_pre_const [OF pre] by (simp_all add: c0_def c1_def)
  note v = cmp_value [OF pre, folded c0_def c1_def S_def]
  note u = u64_ok [OF pre]
  from ok consider (int) "is_int_type S" | (f32) "S = FLOAT32" | (f64) "S = FLOAT64"
    by (auto simp: cmp_ok_def S_def IsFloatType_def)
  then show ?thesis
  proof cases
    case int
    have "c0 = c1 \<Longrightarrow> \<rho> i = 0" using v [of 0] int by (simp add: eval_cmp_def)
    with zero_const_ok [OF pre, of False] have "c0 = c1 \<Longrightarrow> fold_ok g i \<rho> (Some (replaced i (ConstFoldingCreateIntConst g i 0 False)))"
      by simp
    moreover have "IsConst g c0 \<Longrightarrow> IsConst g c1 \<Longrightarrow>
        \<rho> i = word_of_int (sgn (val S (GetIntValue g c0) - val S (GetIntValue g c1)))"
      using int c by (intro v) (simp add: eval_cmp_def)
    ultimately show ?thesis
      using int u by (auto simp: ConstFoldingCmp_def Let_def defs GetIntResult_sgn)
  next
    case f32
    have "IsConst g c0 \<Longrightarrow> IsConst g c1 \<Longrightarrow>
        \<rho> i = word_of_int (GetResult_fp F32 (IsFcmpg (the_inst g i)) (GetFloatValue g c0) (GetFloatValue g c1))"
      using f32 c by (intro v) (auto simp: eval_cmp_def GetResult_fp_sgn GetFloatValue_def GetIntValue_def)
    with f32 u show ?thesis by (auto simp: ConstFoldingCmp_def Let_def defs)
  next
    case f64
    have "IsConst g c0 \<Longrightarrow> IsConst g c1 \<Longrightarrow>
        \<rho> i = word_of_int (GetResult_fp F64 (IsFcmpg (the_inst g i)) (GetDoubleValue g c0) (GetDoubleValue g c1))"
      using f64 c by (intro v) (auto simp: eval_cmp_def GetResult_fp_sgn GetDoubleValue_def GetIntValue_def)
    with f64 u show ?thesis by (auto simp: ConstFoldingCmp_def Let_def defs)
  qed
qed

text \<open>
  Comparisons of integers, of references and pointers for identity, and of floating-point values; the constant operands
  have the type of the comparison.  For references the values of instructions that give a new object, null or undefined
  are pairwise different, as the allocator and the runtime promise.
\<close>

definition unique_refs :: "graph \<Rightarrow> (inst_id \<Rightarrow> u64) \<Rightarrow> inst_id \<Rightarrow> inst_id \<Rightarrow> bool" where
  "unique_refs g \<rho> a b \<longleftrightarrow>
     (a \<noteq> b \<and> IsUniqueRef g a \<and> IsUniqueRef g b \<and> \<not> (opcode_of g a = Op_NullPtr \<and> opcode_of g b = Op_NullPtr) \<longrightarrow> \<rho> a \<noteq> \<rho> b)"

definition compare_ok :: "graph \<Rightarrow> inst_id \<Rightarrow> (inst_id \<Rightarrow> u64) \<Rightarrow> bool" where
  "compare_ok g i \<rho> \<longleftrightarrow>
     (let S = operandsType (the_inst g i); ins = set (inputs (the_inst g i))
      in if is_int_type S then
           (\<forall>c \<in> ins. opcode_of g c \<noteq> Op_LoadImmediate \<and> opcode_of g c \<noteq> Op_NullPtr
              \<and> (IsConst g c \<longrightarrow> type_of g c \<in> {INT32, INT64}))
         else if IsFloatType S then
           (\<forall>c \<in> ins. opcode_of g c \<noteq> Op_LoadImmediate \<and> opcode_of g c \<noteq> Op_NullPtr \<and> type_of g c = S)
         else (S = REFERENCE \<or> S = POINTER) \<and> GetCc (the_inst g i) \<in> {CC_EQ, CC_NE}
           \<and> (\<forall>c \<in> ins. GetCommonType (type_of g c) \<in> {INT64, POINTER}
                \<and> (opcode_of g c = Op_LoadImmediate \<longrightarrow> GetObject (the_inst g c) < 2 ^ 64))
           \<and> (\<forall>a \<in> ins. \<forall>b \<in> ins. unique_refs g \<rho> a b))"

lemma CompareCreateNewConst_Compare:
  "ConstFoldingCompareCreateNewConst g i a b = ConstFoldingCompareCreateConst g i (Compare (GetCc (the_inst g i)) a b)"
  by (cases "GetCc (the_inst g i)") (simp_all add: ConstFoldingCompareCreateNewConst_def)

lemma CompareCreateConst_ok:
  assumes pre: "fold_pre fp op n g i \<rho>" and "\<rho> i = of_bool b"
  shows "fold_ok g i \<rho> (Some (replaced i (ConstFoldingCompareCreateConst g i b)))"
  using assms u64_ok [OF pre, of "of_bool b"] u32_ok [OF pre, of "of_bool b"]
  by (cases b) (auto simp: ConstFoldingCompareCreateConst_def)

lemma Compare_refl:
  "Compare cc x x = (if cc \<in> {CC_EQ, CC_LE, CC_GE, CC_BE, CC_AE} then True
     else if cc \<in> {CC_NE, CC_LT, CC_GT, CC_B, CC_A} then False else (x = 0) = (cc = CC_TST_EQ))"
  by (cases cc) auto

lemma EqualInputs_kept:
  "\<not> snd (ConstFoldingCompareEqualInputs g i a b) \<Longrightarrow> ConstFoldingCompareEqualInputs g i a b = kept g"
  by (auto simp: ConstFoldingCompareEqualInputs_def Let_def kept_def replaced_def split: if_splits prod.splits)

lemma compare_value:
  assumes pre: "fold_pre fp Op_Compare 2 g i \<rho>"
    and "eval_compare (GetCc (the_inst g i)) (operandsType (the_inst g i)) (\<rho> (GetInput g i 0)) (\<rho> (GetInput g i 1)) = Some v"
  shows "\<rho> i = v"
proof (rule fold_pre_value [OF pre])
  have "opcode_of g i = Op_Compare" using pre by (simp add: fold_pre_def)
  with assms(2) fold_pre_input(1) [OF pre, of 0] fold_pre_input(1) [OF pre, of 1]
  show "eval_op fp (the_inst g i) (map \<rho> (inputs (the_inst g i))) = Some v" by (simp add: eval_op_def)
qed

lemma Compare_int_ok:
  assumes pre: "fold_pre fp Op_Compare 2 g i \<rho>" and ok: "compare_ok g i \<rho>" and int: "is_int_type (operandsType (the_inst g i))"
  shows "fold_ok g i \<rho> (ConstFoldingCompare g i)"
proof -
  define c0 where "c0 = GetInput g i 0"
  define c1 where "c1 = GetInput g i 1"
  define S where "S = operandsType (the_inst g i)"
  define cc where "cc = GetCc (the_inst g i)"
  note defs = c0_def [symmetric] c1_def [unfolded One_nat_def, symmetric] S_def [symmetric] cc_def [symmetric]
  have S: "is_int_type S" and S': "S \<noteq> REFERENCE" using int by (auto simp: S_def)
  have "{c0, c1} \<subseteq> set (inputs (the_inst g i))"
    unfolding c0_def c1_def using pre by (simp add: fold_pre_def input_in)
  then have op: "opcode_of g c \<noteq> Op_LoadImmediate" "\<not> IsConst g c \<Longrightarrow> \<not> IsZeroConstantOrNullPtr g c"
      "IsConst g c \<Longrightarrow> \<not> IsFloatType (type_of g c)" if "c \<in> {c0, c1}" for c
    using ok int that by (auto simp: compare_ok_def Let_def IsZeroConstantOrNullPtr_def IsZeroConstant_def IsFloatType_def)
  have v: "\<rho> i = of_bool (Compare cc (canon S (sint (\<rho> c0))) (canon S (sint (\<rho> c1))))"
    using S by (intro compare_value [OF pre]) (simp add: S_def cc_def c0_def c1_def)
  show ?thesis
  proof (cases "IsConst g c0 \<and> IsConst g c1")
    case True
    then have "\<rho> c0 = GetIntValue g c0" "\<rho> c1 = GetIntValue g c1"
      using fold_pre_const [OF pre] by (simp_all add: c0_def c1_def)
    with v have "fold_ok g i \<rho> (Some (replaced i (ConstFoldingCompareCreateConst g i
        (Compare cc (canon S (sint (GetIntValue g c0))) (canon S (sint (GetIntValue g c1)))))))"
      by (intro CompareCreateConst_ok [OF pre]) simp
    with True op S show ?thesis
      by (simp add: ConstFoldingCompare_def Let_def defs convert_uint CompareCreateNewConst_Compare)
  next
    case False
    have "fold_ok g i \<rho> (Some (ConstFoldingCompareEqualInputs g i c0 c1))"
    proof (cases "c0 = c1")
      case True
      with v zero_const_ok [OF pre, of False] zero_const_ok [OF pre, of True] show ?thesis
        by (auto simp: ConstFoldingCompareEqualInputs_def Compare_refl Let_def defs)
    qed (simp add: ConstFoldingCompareEqualInputs_def)
    then show ?thesis
      using False op S' EqualInputs_kept [of g i c0 c1] by (auto simp: ConstFoldingCompare_def Let_def defs)
  qed
qed

text \<open>A comparison of a floating-point value with itself is folded for the strict conditions only: with a NaN the others depend on the value.\<close>

lemma Compare_fp_ok:
  assumes pre: "fold_pre fp Op_Compare 2 g i \<rho>" and ok: "compare_ok g i \<rho>" and fl: "fmt_of (operandsType (the_inst g i)) = Some f"
  shows "fold_ok g i \<rho> (ConstFoldingCompare g i)"
proof -
  define c0 where "c0 = GetInput g i 0"
  define c1 where "c1 = GetInput g i 1"
  define S where "S = operandsType (the_inst g i)"
  note defs = c0_def [symmetric] c1_def [unfolded One_nat_def, symmetric] S_def [symmetric]
  have S: "\<not> is_int_type S" "IsFloatType S" "S \<noteq> REFERENCE" "S \<noteq> POINTER" "S \<noteq> INT64" "GetCommonType S \<noteq> INT64" "GetCommonType S \<noteq> POINTER"
    using fl by (cases S; simp add: S_def [symmetric] IsFloatType_def)+
  have "{c0, c1} \<subseteq> set (inputs (the_inst g i))"
    unfolding c0_def c1_def using pre by (simp add: fold_pre_def input_in)
  then have op: "opcode_of g c \<noteq> Op_LoadImmediate" "\<not> IsZeroConstantOrNullPtr g c" "type_of g c = S" if "c \<in> {c0, c1}" for c
    using ok S that by (auto simp: compare_ok_def Let_def S_def [symmetric] IsZeroConstantOrNullPtr_def IsZeroConstant_def)
  have "fold_ok g i \<rho> (Some (ConstFoldingCompareEqualInputs g i c0 c1))"
  proof (cases "c0 = c1 \<and> GetCc (the_inst g i) \<in> {CC_LT, CC_GT, CC_B, CC_A}")
    case True
    then have "\<rho> i = of_bool False"
      using fl S by (intro compare_value [OF pre])
        (auto simp: defs eval_compare_def fp_compare_def fp_less_def)
    with zero_const_ok [OF pre, of False] True show ?thesis
      by (auto simp: ConstFoldingCompareEqualInputs_def Let_def)
  next
    case False
    then have "ConstFoldingCompareEqualInputs g i c0 c1 = kept g"
      using op(3) [of c0] S by (auto simp: ConstFoldingCompareEqualInputs_def Let_def)
    then show ?thesis by simp
  qed
  then show ?thesis
    using op S EqualInputs_kept [of g i c0 c1] by (auto simp: ConstFoldingCompare_def Let_def defs)
qed

lemma IsZeroConstantOrNullPtr_value:
  assumes "consistent fp g \<rho>" "c < length (insts g)" "IsZeroConstantOrNullPtr g c"
  shows "\<rho> c = 0"
  using assms const_value [of fp g \<rho> c]
  by (auto simp: IsZeroConstantOrNullPtr_def IsZeroConstant_def consistent_iff eval_op_def Let_def)

lemma LoadImmediate_value:
  assumes "consistent fp g \<rho>" "c < length (insts g)" "opcode_of g c = Op_LoadImmediate"
  shows "\<rho> c = of_nat (GetObject (the_inst g c))"
  using assms by (auto simp: consistent_iff eval_op_def Let_def)

lemma Compare_ref_ok:
  assumes pre: "fold_pre fp Op_Compare 2 g i \<rho>" and ok: "compare_ok g i \<rho>"
    and ref: "operandsType (the_inst g i) = REFERENCE \<or> operandsType (the_inst g i) = POINTER"
  shows "fold_ok g i \<rho> (ConstFoldingCompare g i)"
proof -
  define c0 where "c0 = GetInput g i 0"
  define c1 where "c1 = GetInput g i 1"
  define S where "S = operandsType (the_inst g i)"
  define cc where "cc = GetCc (the_inst g i)"
  note defs = c0_def [symmetric] c1_def [unfolded One_nat_def, symmetric] S_def [symmetric] cc_def [symmetric]
  have S: "\<not> is_int_type S" "\<not> IsFloatType S" "GetCommonType S \<noteq> INT64" using ref by (auto simp: S_def IsFloatType_def)
  have ins: "{c0, c1} \<subseteq> set (inputs (the_inst g i))" "c0 < length (insts g)" "c1 < length (insts g)"
    unfolding c0_def c1_def using pre fold_pre_input(2) [OF pre] by (simp_all add: fold_pre_def input_in)
  have con: "consistent fp g \<rho>" using pre by (simp add: fold_pre_def)
  have cc: "cc = CC_EQ \<or> cc = CC_NE" and u: "unique_refs g \<rho> c0 c1"
    and obj: "opcode_of g c = Op_LoadImmediate \<Longrightarrow> GetObject (the_inst g c) < 2 ^ 64"
    and ty: "GetCommonType (type_of g c) \<in> {INT64, POINTER}" if "c \<in> {c0, c1}" for c
    using ok S ins(1) that by (auto simp: compare_ok_def Let_def S_def [symmetric] cc_def [symmetric])
  have v: "\<rho> i = of_bool ((\<rho> c0 = \<rho> c1) = (cc = CC_EQ))"
    using ref S cc by (intro compare_value [OF pre]) (auto simp: defs eval_compare_def)
  note new = CompareCreateConst_ok [OF pre]
  have "fold_ok g i \<rho> (Some (ConstFoldingCompareEqualInputs g i c0 c1))"
    using v cc zero_const_ok [OF pre, of False] zero_const_ok [OF pre, of True]
    by (auto simp: ConstFoldingCompareEqualInputs_def Let_def defs)
  moreover have "fold_ok g i \<rho> (Some (replaced i (ConstFoldingCompareCreateConst g i
      ((GetObject (the_inst g c0) = GetObject (the_inst g c1)) = (cc = CC_EQ)))))"
    if "opcode_of g c0 = Op_LoadImmediate" "opcode_of g c1 = Op_LoadImmediate"
  proof (rule new)
    have "GetObject (the_inst g c0) < 2 ^ 64" "GetObject (the_inst g c1) < 2 ^ 64"
      using obj [of c0] obj [of c1] that by simp_all
    then have "(of_nat (GetObject (the_inst g c0)) = (of_nat (GetObject (the_inst g c1)) :: u64)) =
        (GetObject (the_inst g c0) = GetObject (the_inst g c1))"
      by (simp add: word_of_nat_eq_iff take_bit_nat_eq_self)
    then show "\<rho> i = of_bool ((GetObject (the_inst g c0) = GetObject (the_inst g c1)) = (cc = CC_EQ))"
      using v LoadImmediate_value [OF con ins(2) that(1)] LoadImmediate_value [OF con ins(3) that(2)] by simp
  qed
  moreover have "fold_ok g i \<rho> (Some (replaced i (ConstFoldingCompareCreateConst g i (cc = CC_EQ))))"
    if "IsZeroConstantOrNullPtr g c0" "IsZeroConstantOrNullPtr g c1"
    using v IsZeroConstantOrNullPtr_value [OF con ins(2) that(1)] IsZeroConstantOrNullPtr_value [OF con ins(3) that(2)]
    by (intro new) simp
  moreover have "fold_ok g i \<rho> (Some (replaced i (ConstFoldingCompareCreateConst g i (cc = CC_NE))))"
    if "c0 \<noteq> c1" "IsUniqueRef g c0" "IsUniqueRef g c1" "\<not> (IsZeroConstantOrNullPtr g c0 \<and> IsZeroConstantOrNullPtr g c1)"
  proof (rule new)
    have "\<rho> c0 \<noteq> \<rho> c1" using u that by (auto simp: unique_refs_def IsZeroConstantOrNullPtr_def)
    then show "\<rho> i = of_bool (cc = CC_NE)" using v cc by auto
  qed
  moreover have "snd (ConstFoldingCompareEqualInputs g i c0 c1)" if "c0 = c1"
    using that cc ty [of c0] by (auto simp: ConstFoldingCompareEqualInputs_def Let_def defs replaced_def split: prod.splits)
  ultimately show ?thesis
    using S EqualInputs_kept [of g i c0 c1] by (auto simp: ConstFoldingCompare_def Let_def defs)
qed

lemma Compare_ok:
  assumes pre: "fold_pre fp Op_Compare 2 g i \<rho>" and ok: "compare_ok g i \<rho>"
  shows "fold_ok g i \<rho> (ConstFoldingCompare g i)"
proof -
  consider "is_int_type (operandsType (the_inst g i))" | f where "fmt_of (operandsType (the_inst g i)) = Some f"
    | "operandsType (the_inst g i) = REFERENCE \<or> operandsType (the_inst g i) = POINTER"
    using ok by (cases "operandsType (the_inst g i)") (auto simp: compare_ok_def Let_def IsFloatType_def)
  then show ?thesis using Compare_int_ok [OF assms] Compare_fp_ok [OF assms] Compare_ref_ok [OF assms] by cases blast+
qed

text \<open>
  Casts of a constant whose type is the operand type of the cast.  Left out are the conversion of a floating-point value to \<^verbatim>\<open>BOOL\<close> and
  the conversion of a \<^verbatim>\<open>double\<close> to an integer in a dynamic method, which is the runtime's.
\<close>

lemma wrap_fp_to_int: "is_int_type T \<Longrightarrow> T \<noteq> BOOL \<Longrightarrow> wrap T (fp_to_int f T v) = fp_to_int f T v"
  by (cases T) (auto simp: fp_to_int_def wrap_def IsTypeSigned_def take_bit_int_eq_self_iff signed_take_bit_int_eq_self_iff)

lemma ConvertFloatToInt_fp_to_int:
  assumes "is_int_type T" "T \<noteq> BOOL"
  shows "ConvertFloatToInt f v T = Some (canon T (fp_to_int f T v))"
  using ConvertFloatToInt_limits [OF assms] wrap_fp_to_int [OF assms] by (simp add: canon_def fp_to_int_def)

definition cast_ok :: "graph \<Rightarrow> inst_id \<Rightarrow> bool" where
  "cast_ok g i \<longleftrightarrow>
     (let S = operandsType (the_inst g i)
      in \<forall>c \<in> set (inputs (the_inst g i)). IsConst g c \<longrightarrow>
           (if is_int_type S then type_of g c \<in> {INT32, INT64}
            else type_of g c = S \<and> IsFloatType S
              \<and> (is_int_type (type_of g i) \<longrightarrow> type_of g i \<noteq> BOOL \<and> (S = FLOAT64 \<longrightarrow> \<not> IsDynamicMethod g))
              \<and> (S = FLOAT32 \<longrightarrow> fp_reg F32 (GetRawValue (the_inst g c)) = GetRawValue (the_inst g c))))"

lemma Cast_ok:
  assumes pre: "fold_pre fp Op_Cast 1 g i \<rho>" and ok: "cast_ok g i"
  shows "fold_ok g i \<rho> (ConstFoldingCast fp dyn g i)"
proof (cases "IsConst g (GetInput g i 0)")
  case True
  define c where "c = GetInput g i 0"
  define S where "S = operandsType (the_inst g i)"
  define T where "T = type_of g i"
  note defs = c_def [symmetric] S_def [symmetric] T_def [symmetric]
  have cc: "IsConst g c" and rc: "\<rho> c = GetIntValue g c" using True fold_pre_const [OF pre] by (simp_all add: c_def)
  have "c \<in> set (inputs (the_inst g i))" using pre by (simp add: fold_pre_def c_def input_in)
  with ok cc have c: "if is_int_type S then type_of g c \<in> {INT32, INT64}
      else type_of g c = S \<and> IsFloatType S \<and> (is_int_type T \<longrightarrow> T \<noteq> BOOL \<and> (S = FLOAT64 \<longrightarrow> \<not> IsDynamicMethod g))
        \<and> (S = FLOAT32 \<longrightarrow> fp_reg F32 (GetIntValue g c) = GetIntValue g c)"
    by (auto simp: cast_ok_def S_def T_def GetIntValue_def Let_def)
  have "opcode_of g i = Op_Cast" using pre by (simp add: fold_pre_def)
  with fold_pre_input(1) [OF pre, of 0] rc have v: "eval_cast fp S T (GetIntValue g c) = Some v \<Longrightarrow> \<rho> i = v" for v
    by (intro fold_pre_value [OF pre]) (simp add: eval_op_def S_def T_def c_def)
  have same: "\<rho> i = GetIntValue g c \<Longrightarrow> fold_ok g i \<rho> (Some (replaced i (g, c)))"
    using const_input_result [OF pre, of 0] True by (simp add: c_def)
  show ?thesis
  proof (cases "is_int_type S")
    case S: True
    have ii: "is_int_type T \<Longrightarrow> fold_ok g i \<rho> (Some (replaced i (ConstFoldingCreateIntConst g i (canon T (val S (GetIntValue g c))) False)))"
      using v [of "canon T (val S (GetIntValue g c))"] S
      by (intro CreateIntConst_ok [OF pre, where z = "val S (GetIntValue g c)"]) (simp_all add: eval_cast_def T_def)
    have ff: "fmt_of T = Some f \<Longrightarrow> fold_ok g i \<rho> (Some (replaced i (FindOrCreateConstant_fp g f (fp_of_int f (val S (GetIntValue g c))))))" for f
      using v [of "fp_reg f (fp_of_int f (val S (GetIntValue g c)))"] S
      by (intro fp_const_ok [OF pre]) (cases T; simp add: eval_cast_def)
    show ?thesis
      using S c cc ii ff [of F32] ff [of F64]
      by (cases T) (auto simp: ConstFoldingCast_def ConstFoldingCastConst_def ConstFoldingCastIntConst_def
          ConstFoldingCastInt2Int_def ConstFoldingCreateConst_def ConvertIntToFloat_def Let_def defs static_cast_val ConvertIntToInt_canon
          simp del: ConvertIntToInt.simps static_cast.simps)
  next
    case S: False
    have ff: "fmt_of S = Some f \<Longrightarrow> fmt_of T = Some f' \<Longrightarrow> \<rho> i = (if f = f' then fp_reg f (GetIntValue g c)
        else fp_reg f' (fp_convert fp f f' (fp_reg f (GetIntValue g c))))" for f f'
      using S by (intro v) (simp add: eval_cast_def)
    have wide: "S = FLOAT32 \<Longrightarrow> T = FLOAT64 \<Longrightarrow> fold_ok g i \<rho> (Some (replaced i (FindOrCreateConstant_fp g F64 (fp_convert fp F32 F64 (GetFloatValue g c)))))"
      using ff [of F32 F64] by (intro fp_const_ok [OF pre]) (simp add: GetFloatValue_def GetIntValue_def)
    have narrow: "S = FLOAT64 \<Longrightarrow> T = FLOAT32 \<Longrightarrow> fold_ok g i \<rho> (Some (replaced i (FindOrCreateConstant_fp g F32 (fp_convert fp F64 F32 (GetDoubleValue g c)))))"
      using ff [of F64 F32] by (intro fp_const_ok [OF pre]) (simp add: GetDoubleValue_def GetIntValue_def)
    have fi: "\<rho> i = canon T (fp_to_int f T (fp_reg f (GetIntValue g c)))" if "fmt_of S = Some f" "is_int_type T" "T \<noteq> BOOL" for f
    proof (rule v)
      show "eval_cast fp S T (GetIntValue g c) = Some (canon T (fp_to_int f T (fp_reg f (GetIntValue g c))))"
        using S that wrap_fp_to_int [OF that(2,3)] by (cases T) (simp_all add: eval_cast_def canon_def)
    qed
    have i32: "S = FLOAT32 \<Longrightarrow> is_int_type T \<Longrightarrow> T \<noteq> BOOL \<Longrightarrow>
        fold_ok g i \<rho> (Some (replaced i (FindOrCreateConstant_u64 g (canon T (fp_to_int F32 T (GetFloatValue g c))))))"
      using fi [of F32] by (intro u64_ok [OF pre]) (simp add: GetFloatValue_def GetIntValue_def)
    have i64: "S = FLOAT64 \<Longrightarrow> is_int_type T \<Longrightarrow> T \<noteq> BOOL \<Longrightarrow>
        fold_ok g i \<rho> (Some (replaced i (ConstFoldingCreateIntConst g i (canon T (fp_to_int F64 T (GetDoubleValue g c))) False)))"
      using fi [of F64] by (intro CreateIntConst_ok [OF pre, where z = "fp_to_int F64 T (GetDoubleValue g c)"])
        (simp_all add: T_def [symmetric] GetDoubleValue_def GetIntValue_def)
    show ?thesis
    proof (cases "is_int_type T")
      case True
      moreover have "GetCommonType T = INT64" using True by (cases T) simp_all
      ultimately show ?thesis using S c cc i32 i64
        by (cases S) (auto simp: ConstFoldingCast_def ConstFoldingCastConst_def Let_def defs IsFloatType_def ConvertFloatToInt_fp_to_int)
    next
      case False
      with S c cc ff [of F32 F32] ff [of F64 F64] same wide narrow show ?thesis
        by (cases T) (auto simp: ConstFoldingCast_def ConstFoldingCastConst_def Let_def defs IsFloatType_def)
    qed
  qed
qed (auto simp: ConstFoldingCast_def Let_def)

section \<open>Folding as a transformation of the graph\<close>

text \<open>
  The contract of a fold: on a graph and a valuation it is ready for, it either keeps the graph or replaces
  the users of the instruction by a constant with the instruction's value.  The lemmas of the locale are what
  an optimisation that calls it relies on.
\<close>

locale const_fold =
  fixes fp :: fpu
    and fold :: "graph \<Rightarrow> inst_id \<Rightarrow> (graph \<times> bool) option"
    and ready :: "graph \<Rightarrow> inst_id \<Rightarrow> (inst_id \<Rightarrow> u64) \<Rightarrow> bool"
  assumes fold_sound: "ready g i \<rho> \<Longrightarrow> fold_ok g i \<rho> (fold g i)"
    and ready_pre: "ready g i \<rho> \<Longrightarrow> \<exists>op n. fold_pre fp op n g i \<rho> \<and> op \<noteq> Op_Constant"
begin

lemma fold_total: "ready g i \<rho> \<Longrightarrow> \<exists>g' b. fold g i = Some (g', b)"
  using fold_sound by (fastforce simp: fold_ok_def kept_def replaced_def)

end

text \<open>The graph with a constant added, seen through its accessors.\<close>

lemma const_result_graph:
  assumes "const_result g v (g', c)" "wf_consts g" "wf_inputs g"
  shows "c < length (insts g')" "IsConst g' c" "GetRawValue (the_inst g' c) = v"
    "length (insts g) \<le> length (insts g')" "\<And>j. j < length (insts g) \<Longrightarrow> the_inst g' j = the_inst g j"
    "\<And>j. j < length (insts g') \<Longrightarrow> j \<noteq> c \<Longrightarrow> j < length (insts g)"
    "wf_consts g'" "wf_inputs g'" "c \<ge> length (insts g) \<Longrightarrow> inputs (the_inst g' c) = []"
  using assms unfolding const_result_def
  by (auto simp: AddConstInStartBlock_def Let_def new_const_def IsConst_def wf_consts_def wf_inputs_def nth_append less_Suc_eq)

lemma ReplaceUsers_inst:
  "j < length (insts g) \<Longrightarrow>
   the_inst (ReplaceUsers g i c) j = (the_inst g j)\<lparr>inputs := map (\<lambda>x. if x = i then c else x) (inputs (the_inst g j))\<rparr>"
  by (simp add: ReplaceUsers_def)

lemma ReplaceUsers_simps [simp]:
  "length (insts (ReplaceUsers g i c)) = length (insts g)" "constList (ReplaceUsers g i c) = constList g"
  by (simp_all add: ReplaceUsers_def)

lemma ReplaceUsers_wf:
  assumes "wf_consts g" "wf_inputs g" "c < length (insts g)"
  shows "wf_consts (ReplaceUsers g i c)" "wf_inputs (ReplaceUsers g i c)"
  using assms by (auto simp: wf_consts_def wf_inputs_def ReplaceUsers_inst IsConst_def)

lemma eval_op_inputs: "eval_op fp (s\<lparr>inputs := ys\<rparr>) xs = eval_op fp s xs"
  by (simp add: eval_op_def Let_def cong: opcode.case_cong)

lemma replaced_preserves:
  assumes cr: "const_result g (\<rho> i) (g1, c)" and wf: "wf_consts g" "wf_inputs g" and con: "consistent fp g \<rho>"
    and i: "i < length (insts g)" "\<not> IsConst g i"
  defines "g' \<equiv> ReplaceUsers g1 i c" and "\<rho>' \<equiv> \<rho>(c := \<rho> i)"
  shows "consistent fp g' \<rho>'" "wf_consts g'" "wf_inputs g'" "\<forall>j < length (insts g). \<rho>' j = \<rho> j"
    "\<forall>j < length (insts g). map \<rho>' (inputs (the_inst g' j)) = map \<rho> (inputs (the_inst g j))"
    "\<forall>j < length (insts g). (the_inst g' j)\<lparr>inputs := []\<rparr> = (the_inst g j)\<lparr>inputs := []\<rparr>"
    "\<forall>j < length (insts g'). i \<notin> set (inputs (the_inst g' j))"
proof -
  note G = const_result_graph [OF cr wf]
  have ci: "c \<noteq> i" using G(2,5) i by (auto simp: IsConst_def)
  have old: "\<rho> c = \<rho> i" if "c < length (insts g)"
    using const_value [OF con that] G(2,3,5) that by (simp add: IsConst_def)
  show agree: "\<forall>j < length (insts g). \<rho>' j = \<rho> j" using old by (auto simp: \<rho>'_def)
  have inp: "map \<rho>' (map (\<lambda>x. if x = i then c else x) xs) = map \<rho> xs" if "\<forall>x \<in> set xs. x < length (insts g)" for xs
    using that agree by (auto simp: \<rho>'_def)
  show maps: "\<forall>j < length (insts g). map \<rho>' (inputs (the_inst g' j)) = map \<rho> (inputs (the_inst g j))"
    using wf(2) G(4,5) inp by (simp add: g'_def ReplaceUsers_inst wf_inputs_def del: map_map)
  show "\<forall>j < length (insts g). (the_inst g' j)\<lparr>inputs := []\<rparr> = (the_inst g j)\<lparr>inputs := []\<rparr>"
    using G(4,5) by (simp add: g'_def ReplaceUsers_inst)
  show "\<forall>j < length (insts g'). i \<notin> set (inputs (the_inst g' j))"
    using ci by (auto simp: g'_def ReplaceUsers_inst)
  show "wf_consts g'" "wf_inputs g'" unfolding g'_def by (rule ReplaceUsers_wf [OF G(7,8,1)])+
  show "consistent fp g' \<rho>'"
    unfolding consistent_iff
  proof (intro allI impI)
    fix j v assume j: "j < length (insts g')" and ev: "eval_op fp (the_inst g' j) (map \<rho>' (inputs (the_inst g' j))) = Some v"
    show "\<rho>' j = v"
    proof (cases "j = c")
      case True
      with ev G(1-3) show ?thesis by (simp add: g'_def ReplaceUsers_inst eval_op_def IsConst_def \<rho>'_def)
    next
      case False
      then have j': "j < length (insts g)" using j G(6) by (simp add: g'_def)
      with ev maps G(4,5) have "eval_op fp (the_inst g j) (map \<rho> (inputs (the_inst g j))) = Some v"
        by (simp add: g'_def ReplaceUsers_inst eval_op_inputs del: map_map)
      with con j' agree show ?thesis by (simp add: consistent_iff)
    qed
  qed
qed

context const_fold
begin

theorem fold_preserves:
  assumes "ready g i \<rho>"
  shows "\<exists>g' b \<rho>'. fold g i = Some (g', b) \<and> consistent fp g' \<rho>' \<and> wf_consts g' \<and> wf_inputs g'
    \<and> (\<forall>j < length (insts g). \<rho>' j = \<rho> j \<and> map \<rho>' (inputs (the_inst g' j)) = map \<rho> (inputs (the_inst g j))
         \<and> (the_inst g' j)\<lparr>inputs := []\<rparr> = (the_inst g j)\<lparr>inputs := []\<rparr>)
    \<and> (b \<longrightarrow> (\<forall>j < length (insts g'). i \<notin> set (inputs (the_inst g' j))))"
proof -
  from ready_pre [OF assms] have wf: "wf_consts g" "wf_inputs g" "consistent fp g \<rho>" "i < length (insts g)" "\<not> IsConst g i"
    by (auto simp: fold_pre_def IsConst_def)
  from fold_sound [OF assms] consider (kept) "fold g i = Some (g, False)"
    | (replaced) g1 c where "fold g i = Some (ReplaceUsers g1 i c, True)" "const_result g (\<rho> i) (g1, c)"
    by (force simp: fold_ok_def kept_def replaced_def)
  then show ?thesis
  proof cases
    case kept
    with wf show ?thesis by (intro exI [of _ g] exI [of _ False] exI [of _ \<rho>]) simp
  next
    case replaced
    note P = replaced_preserves [OF replaced(2) wf]
    show ?thesis
      by (rule exI [of _ "ReplaceUsers g1 i c"], rule exI [of _ True], rule exI [of _ "\<rho>(c := \<rho> i)"])
        (use replaced(1) P in simp)
  qed
qed

end

section \<open>The folds of the compiler\<close>

text \<open>What each fold is ready for.\<close>

definition fold_ready :: "fpu \<Rightarrow> opcode \<Rightarrow> graph \<Rightarrow> inst_id \<Rightarrow> (inst_id \<Rightarrow> u64) \<Rightarrow> bool" where
  "fold_ready fp op g i \<rho> \<longleftrightarrow>
     fold_pre fp op (if op \<in> {Op_Neg, Op_Abs, Op_Not, Op_Sqrt, Op_Cast} then 1 else 2) g i \<rho>
     \<and> op \<noteq> Op_Constant
     \<and> (if op \<in> {Op_Div, Op_Mod} then div_ok g i
        else if op = Op_Cast then cast_ok g i
        else if op = Op_Cmp then cmp_ok g i
        else if op = Op_Compare then compare_ok g i \<rho>
        else arith_ok g i
          \<and> (op \<in> {Op_Not, Op_And, Op_Or, Op_Xor, Op_Shl, Op_Shr, Op_AShr} \<longrightarrow> is_int_type (type_of g i))
          \<and> (op \<in> {Op_Abs, Op_AShr} \<longrightarrow> IsTypeSigned (type_of g i))
          \<and> (op = Op_Sqrt \<longrightarrow> IsFloatType (type_of g i)))"

interpretation add_fold: const_fold fp "ConstFoldingAdd fp" "fold_ready fp Op_Add" for fp
  by unfold_locales (auto simp: fold_ready_def intro: Add_ok)

interpretation sub_fold: const_fold fp "ConstFoldingSub fp" "fold_ready fp Op_Sub" for fp
  by unfold_locales (auto simp: fold_ready_def intro: Sub_ok)

interpretation mul_fold: const_fold fp "ConstFoldingMul fp" "fold_ready fp Op_Mul" for fp
  by unfold_locales (auto simp: fold_ready_def intro: Mul_ok)

interpretation div_fold: const_fold fp "ConstFoldingDiv fp" "fold_ready fp Op_Div" for fp
  by unfold_locales (auto simp: fold_ready_def intro: Div_ok)

interpretation mod_fold: const_fold fp "ConstFoldingMod fp" "fold_ready fp Op_Mod" for fp
  by unfold_locales (auto simp: fold_ready_def intro: Mod_ok)

interpretation min_fold: const_fold fp ConstFoldingMin "fold_ready fp Op_Min" for fp
  by unfold_locales (auto simp: fold_ready_def intro: Min_ok)

interpretation max_fold: const_fold fp ConstFoldingMax "fold_ready fp Op_Max" for fp
  by unfold_locales (auto simp: fold_ready_def intro: Max_ok)

interpretation shl_fold: const_fold fp ConstFoldingShl "fold_ready fp Op_Shl" for fp
  by unfold_locales (auto simp: fold_ready_def intro: Shl_ok)

interpretation shr_fold: const_fold fp ConstFoldingShr "fold_ready fp Op_Shr" for fp
  by unfold_locales (auto simp: fold_ready_def intro: Shr_ok)

interpretation ashr_fold: const_fold fp ConstFoldingAShr "fold_ready fp Op_AShr" for fp
  by unfold_locales (auto simp: fold_ready_def intro: AShr_ok)

interpretation and_fold: const_fold fp ConstFoldingAnd "fold_ready fp Op_And" for fp
  by unfold_locales (auto simp: fold_ready_def intro: And_ok)

interpretation or_fold: const_fold fp ConstFoldingOr "fold_ready fp Op_Or" for fp
  by unfold_locales (auto simp: fold_ready_def intro: Or_ok)

interpretation xor_fold: const_fold fp ConstFoldingXor "fold_ready fp Op_Xor" for fp
  by unfold_locales (auto simp: fold_ready_def intro: Xor_ok)

interpretation neg_fold: const_fold fp ConstFoldingNeg "fold_ready fp Op_Neg" for fp
  by unfold_locales (auto simp: fold_ready_def intro: Neg_ok [unfolded One_nat_def])

interpretation abs_fold: const_fold fp ConstFoldingAbs "fold_ready fp Op_Abs" for fp
  by unfold_locales (auto simp: fold_ready_def intro: Abs_ok [unfolded One_nat_def])

interpretation not_fold: const_fold fp ConstFoldingNot "fold_ready fp Op_Not" for fp
  by unfold_locales (auto simp: fold_ready_def intro: Not_ok [unfolded One_nat_def])

interpretation sqrt_fold: const_fold fp "ConstFoldingSqrt fp" "fold_ready fp Op_Sqrt" for fp
  by unfold_locales (auto simp: fold_ready_def intro: Sqrt_ok [unfolded One_nat_def])

interpretation cast_fold: const_fold fp "ConstFoldingCast fp dyn" "fold_ready fp Op_Cast" for fp dyn
  by unfold_locales (auto simp: fold_ready_def intro: Cast_ok [unfolded One_nat_def])

interpretation cmp_fold: const_fold fp ConstFoldingCmp "fold_ready fp Op_Cmp" for fp
  by unfold_locales (auto simp: fold_ready_def intro: Cmp_ok)

interpretation compare_fold: const_fold fp ConstFoldingCompare "fold_ready fp Op_Compare" for fp
  by unfold_locales (auto simp: fold_ready_def intro: Compare_ok)

definition fold_of :: "fpu \<Rightarrow> (u64 \<Rightarrow> nat \<Rightarrow> u64) \<Rightarrow> opcode \<Rightarrow> graph \<Rightarrow> inst_id \<Rightarrow> (graph \<times> bool) option" where
  "fold_of fp dyn op =
     (case op of
        Op_Cast \<Rightarrow> ConstFoldingCast fp dyn | Op_Neg \<Rightarrow> ConstFoldingNeg | Op_Abs \<Rightarrow> ConstFoldingAbs | Op_Not \<Rightarrow> ConstFoldingNot
      | Op_Add \<Rightarrow> ConstFoldingAdd fp | Op_Sub \<Rightarrow> ConstFoldingSub fp | Op_Mul \<Rightarrow> ConstFoldingMul fp | Op_Div \<Rightarrow> ConstFoldingDiv fp
      | Op_Min \<Rightarrow> ConstFoldingMin | Op_Max \<Rightarrow> ConstFoldingMax | Op_Mod \<Rightarrow> ConstFoldingMod fp
      | Op_Shl \<Rightarrow> ConstFoldingShl | Op_Shr \<Rightarrow> ConstFoldingShr | Op_AShr \<Rightarrow> ConstFoldingAShr
      | Op_And \<Rightarrow> ConstFoldingAnd | Op_Or \<Rightarrow> ConstFoldingOr | Op_Xor \<Rightarrow> ConstFoldingXor
      | Op_Cmp \<Rightarrow> ConstFoldingCmp | Op_Compare \<Rightarrow> ConstFoldingCompare | Op_Sqrt \<Rightarrow> ConstFoldingSqrt fp
      | _ \<Rightarrow> (\<lambda>g i. Some (kept g)))"

lemma kept_fold: "const_fold fp (\<lambda>g i. Some (kept g)) (\<lambda>g i \<rho>. fold_pre fp op n g i \<rho> \<and> op \<noteq> Op_Constant)"
  by unfold_locales auto

lemma fold_of_const_fold: "const_fold fp (fold_of fp dyn op) (fold_ready fp op)"
proof (cases op)
qed (simp_all add: fold_of_def add_fold.const_fold_axioms sub_fold.const_fold_axioms mul_fold.const_fold_axioms
    div_fold.const_fold_axioms mod_fold.const_fold_axioms min_fold.const_fold_axioms max_fold.const_fold_axioms
    shl_fold.const_fold_axioms shr_fold.const_fold_axioms ashr_fold.const_fold_axioms and_fold.const_fold_axioms
    or_fold.const_fold_axioms xor_fold.const_fold_axioms neg_fold.const_fold_axioms abs_fold.const_fold_axioms
    not_fold.const_fold_axioms sqrt_fold.const_fold_axioms cast_fold.const_fold_axioms cmp_fold.const_fold_axioms
    compare_fold.const_fold_axioms, (unfold_locales; auto simp: fold_ready_def)+)

text \<open>
  C12: constant folding preserves the meaning of the graph.  For each of the twenty foldable opcodes and every
  graph, valuation and operands it is ready for, the fold returns (no \<^verbatim>\<open>UNREACHABLE()\<close>, no undefined division);
  afterwards every instruction has the value it had, reads the same values through its inputs and
  is otherwise unchanged, the constant table stays well formed, and after a successful fold no
  instruction uses the folded one any more.  \<open>fold_ready\<close> asks that the integer constants among the operands of an
  arithmetic operation are canonical at its type and the other constants have the type of the operation.  It leaves out arithmetic and
  shifts on \<^verbatim>\<open>BOOL\<close>, results of type \<^verbatim>\<open>UINT32\<close> in the bytecode optimizer, \<^verbatim>\<open>Abs\<close> and \<^verbatim>\<open>AShr\<close> on unsigned types, operands of a
  division that are an \<^verbatim>\<open>HclassCheck\<close>, the casts of a floating-point constant to \<^verbatim>\<open>BOOL\<close> and of a \<^verbatim>\<open>double\<close> to an integer in a
  dynamic method, and comparisons of references other than for identity.
\<close>

theorem const_folding_preserves:
  assumes "fold_ready fp op g i \<rho>"
  shows "\<exists>g' b \<rho>'. fold_of fp dyn op g i = Some (g', b) \<and> consistent fp g' \<rho>' \<and> wf_consts g' \<and> wf_inputs g'
    \<and> (\<forall>j < length (insts g). \<rho>' j = \<rho> j \<and> map \<rho>' (inputs (the_inst g' j)) = map \<rho> (inputs (the_inst g j))
         \<and> (the_inst g' j)\<lparr>inputs := []\<rparr> = (the_inst g j)\<lparr>inputs := []\<rparr>)
    \<and> (b \<longrightarrow> (\<forall>j < length (insts g'). i \<notin> set (inputs (the_inst g' j))))"
  using const_fold.fold_preserves [OF fold_of_const_fold assms] .

definition ex_fpu :: fpu where
  "ex_fpu = \<lparr>fp_add = \<lambda>f x y. x, fp_sub = \<lambda>f x y. x, fp_mul = \<lambda>f x y. x, fp_div = \<lambda>f x y. x, fp_fmod = \<lambda>f x y. x,
     fp_sqrt = \<lambda>f x. x, fp_convert = \<lambda>f f' x. x\<rparr>"

definition ex_inst :: "opcode \<Rightarrow> ir_type \<Rightarrow> inst_id list \<Rightarrow> u64 \<Rightarrow> inst" where
  "ex_inst op t ins v =
     \<lparr>GetOpcode = op, GetType = t, inputs = ins, operandsType = INT32, GetRawValue = v, GetCc = CC_EQ, GetImm = 0,
      GetBasicBlock = 0, IsFcmpg = False, IsAllocation = False, GetArgNumber = 0, GetObject = 0, bbNums = []\<rparr>"

text \<open>\<^verbatim>\<open>v2 = Div.i32 -2147483648, v4\<close> with \<^verbatim>\<open>v4 = ZeroCheck -1\<close>, used by \<^verbatim>\<open>v3 = Add.i32 v2, v0\<close>.\<close>

definition fold_graph :: graph where
  "fold_graph =
     \<lparr>insts = [ex_inst Op_Constant INT64 [] (- 2147483648), ex_inst Op_Constant INT64 [] (- 1), ex_inst Op_Div INT32 [0, 4] 0,
               ex_inst Op_Add INT32 [2, 0] 0, ex_inst Op_ZeroCheck INT32 [1] 0],
      blocks = [\<lparr>GetPredsBlocks = [], GetSuccsBlocks = [], GetDominator = None, GetDominatedBlocks = [], GetLoop = 0, AllInsts = []\<rparr>],
      loops = [], GetBlocksRPO = [0], GetStartBlock = 0, constList = [0, 1], IsBytecodeOptimizer = False,
      IsDynamicMethod = False, GetArch = AARCH64, objectPointerSize = 4, rtMaxArrayLength = \<lambda>i. None, rtIsMethodStatic = True\<rparr>"

definition fold_values :: "inst_id \<Rightarrow> u64" where
  "fold_values i = [- 2147483648, - 1, - 2147483648, 0, - 1] ! i"

lemmas fold_ex = fold_graph_def ex_inst_def fold_values_def IsConst_def GetInput_def All_less_Suc

lemma fold_graph_wf: "wf_consts fold_graph \<and> wf_inputs fold_graph"
  by (simp add: wf_consts_def wf_inputs_def fold_ex)

lemma fold_graph_consistent: "consistent ex_fpu fold_graph fold_values"
  by (simp add: consistent_def fold_ex eval_op_def eval_int_def val_def wrap_def canon_def IsTypeSigned_def signed_divide_int_def)

lemma fold_graph_div_ok: "div_ok fold_graph 2"
  by (simp add: div_ok_def wf_checks_def operand_ok_def DataFlowInput_def GetDataFlowInput_def fold_ex check_index_def
    canonical_def val_def wrap_def IsTypeSigned_def numeral_2_eq_2)


lemma fold_ready_ex: "fold_ready ex_fpu Op_Div fold_graph 2 fold_values"
  using fold_graph_wf fold_graph_consistent fold_graph_div_ok by (simp add: fold_ready_def fold_pre_def) (simp add: fold_graph_def ex_inst_def)

theorem const_folding_preserves_witness:
  "fold_ready ex_fpu Op_Div fold_graph 2 fold_values \<and>
   (\<exists>g' b \<rho>'. ConstFoldingDiv ex_fpu fold_graph 2 = Some (g', b) \<and> consistent ex_fpu g' \<rho>' \<and> \<rho>' 3 = 0)"
proof -
  have 3: "3 < length (insts fold_graph)" "fold_values 3 = 0" by (simp_all add: fold_graph_def fold_values_def)
  from const_folding_preserves [OF fold_ready_ex, of "\<lambda>v n. 0"] obtain g' b \<rho>'
    where r: "fold_of ex_fpu (\<lambda>v n. 0) Op_Div fold_graph 2 = Some (g', b)" "consistent ex_fpu g' \<rho>'"
      and v: "\<forall>j < length (insts fold_graph). \<rho>' j = fold_values j" by blast
  then have "ConstFoldingDiv ex_fpu fold_graph 2 = Some (g', b)" "\<rho>' 3 = 0" using 3 by (simp_all add: fold_of_def)
  with r fold_ready_ex show ?thesis by blast
qed

section \<open>Constants are found again\<close>

definition unique_consts :: "graph \<Rightarrow> bool" where
  "unique_consts g \<longleftrightarrow>
     distinct (map (\<lambda>c. (type_of g c, GetRawValue (the_inst g c))) (constList g))"

lemma find_or_create_again:
  assumes wf: "wf_consts g"
    and eq: "\<And>c. c < length (insts g) \<Longrightarrow> eq g c \<longleftrightarrow> P (the_inst g c)"
      "\<And>c. c < Suc (length (insts g)) \<Longrightarrow> eq (fst (AddConstInStartBlock g s)) c \<longleftrightarrow> P (the_inst (fst (AddConstInStartBlock g s)) c)"
    and s: "P s" and fc: "find_or_create g (eq g) s = (g', c)"
  shows "find_or_create g' (eq g') s = (g', c)"
proof (cases "find (eq g) (constList g)")
  case None
  with fc have g': "(g', c) = AddConstInStartBlock g s" by (simp add: find_or_create_def)
  then have c: "c = length (insts g)" "insts g' = insts g @ [s]" "constList g' = constList g @ [c]"
    by (simp_all add: AddConstInStartBlock_def Let_def)
  have e: "eq g' d \<longleftrightarrow> P (the_inst g' d)" if "d < Suc (length (insts g))" for d
    using eq(2) [OF that] g' by (metis fst_conv)
  have "\<not> eq g' d" if "d \<in> set (constList g)" for d
  proof -
    have d: "d < length (insts g)" using wf that by (simp add: wf_consts_def)
    then have "\<not> P (the_inst g d)" using None that eq(1) by (auto simp: find_None_iff)
    with e [of d] d c(2) show ?thesis by (simp add: nth_append)
  qed
  moreover have "eq g' c" using e [of c] c s by simp
  moreover have "find Q (xs @ [x]) = Some x" if "\<And>d. d \<in> set xs \<Longrightarrow> \<not> Q d" "Q x" for Q :: "inst_id \<Rightarrow> bool" and xs x
    using that by (induction xs) auto
  ultimately show ?thesis by (simp add: find_or_create_def c(3))
next
  case (Some d)
  with fc show ?thesis by (simp add: find_or_create_def)
qed


lemma find_or_create_unique:
  assumes wf: "wf_consts g" and u: "unique_consts g"
    and eq: "\<And>c. c < length (insts g) \<Longrightarrow> IsConst g c \<Longrightarrow> GetType (the_inst g c) = GetType s \<Longrightarrow>
      GetRawValue (the_inst g c) = GetRawValue s \<Longrightarrow> eq c"
  shows "unique_consts (fst (find_or_create g eq s))"
proof (cases "find eq (constList g)")
  case None
  have l: "c < length (insts g)" "IsConst g c" if "c \<in> set (constList g)" for c using wf that by (auto simp: wf_consts_def)
  have "(GetType s, GetRawValue s) \<notin> (\<lambda>c. (type_of g c, GetRawValue (the_inst g c))) ` set (constList g)"
    using None eq l by (fastforce simp: find_None_iff)
  moreover have "distinct (map (\<lambda>c. (GetType ((insts g @ [s]) ! c), GetRawValue ((insts g @ [s]) ! c))) (constList g))
      = distinct (map (\<lambda>c. (type_of g c, GetRawValue (the_inst g c))) (constList g))"
    using l by (intro arg_cong [of _ _ distinct] map_cong) (simp_all add: nth_append)
  moreover have "(\<lambda>c. (GetType ((insts g @ [s]) ! c), GetRawValue ((insts g @ [s]) ! c))) ` set (constList g)
      = (\<lambda>c. (type_of g c, GetRawValue (the_inst g c))) ` set (constList g)"
    using l by (intro image_cong) (simp_all add: nth_append)
  ultimately show ?thesis
    using None u by (simp add: find_or_create_def AddConstInStartBlock_def Let_def unique_consts_def)
qed (use u in \<open>simp add: find_or_create_def\<close>)

lemma AddConst_simps [simp]:
  "insts (fst (AddConstInStartBlock g s)) = insts g @ [s]" "IsBytecodeOptimizer (fst (AddConstInStartBlock g s)) = IsBytecodeOptimizer g"
  "GetStartBlock (fst (AddConstInStartBlock g s)) = GetStartBlock g"
  by (simp_all add: AddConstInStartBlock_def Let_def)

lemma find_or_create_start:
  "find_or_create g eq s = (g', c) \<Longrightarrow> IsBytecodeOptimizer g' = IsBytecodeOptimizer g \<and> GetStartBlock g' = GetStartBlock g"
  by (auto simp: find_or_create_def AddConstInStartBlock_def Let_def split: option.splits)

lemma new_const_start: "GetStartBlock g' = GetStartBlock g \<Longrightarrow> new_const g' t x = new_const g t x"
  by (simp add: new_const_def)

text \<open>
  C32: constants are shared: after a constant has been found or created, asking for it again returns the
  same instruction and leaves the graph alone, and the table of constants never holds two constants
  of equal type and value.
\<close>

theorem constants_shared:
  assumes "wf_consts g" "unique_consts g"
  shows "(\<forall>g' c. FindOrCreateConstant_u64 g v = (g', c) \<longrightarrow> FindOrCreateConstant_u64 g' v = (g', c) \<and> unique_consts g')
    \<and> (\<forall>g' c. FindOrCreateConstant_u32 g w = (g', c) \<longrightarrow> FindOrCreateConstant_u32 g' w = (g', c) \<and> unique_consts g')
    \<and> (\<forall>g' c. FindOrCreateConstant_fp g f v = (g', c) \<longrightarrow> FindOrCreateConstant_fp g' f v = (g', c) \<and> unique_consts g')"
proof -
  have typed: "find_or_create g' (\<lambda>i. IsEqualConst_typed g' i t x) (new_const g' t x) = (g', c) \<and> unique_consts g'"
    if "find_or_create g (\<lambda>i. IsEqualConst_typed g i t x) (new_const g t x) = (g', c)" for g' c t x
    using find_or_create_again [where eq = "\<lambda>g i. IsEqualConst_typed g i t x" and P = "\<lambda>s. GetType s = t \<and> GetRawValue s = x",
        OF assms(1) _ _ _ that] find_or_create_start [OF that] that
      find_or_create_unique [OF assms, of "new_const g t x" "\<lambda>i. IsEqualConst_typed g i t x"]
    by (simp add: IsEqualConst_typed_def new_const_def)
  have u32: "FindOrCreateConstant_u32 g' w = (g', c) \<and> unique_consts g'" if "FindOrCreateConstant_u32 g w = (g', c)" for g' c
  proof -
    have uc: "ucast (scast w :: u64) = w" "ucast (ucast w :: u64) = w"
      by (rule bit_word_eqI, simp add: bit_simps min_absorb2)+
    define s where "s = (if IsBytecodeOptimizer g then new_const g INT32 (scast w) else new_const g INT64 (ucast w))"
    have f: "find_or_create g (\<lambda>i. IsEqualConst_32 g i w (IsBytecodeOptimizer g)) s = (g', c)"
      using that by (simp add: FindOrCreateConstant_u32_def s_def)
    have "find_or_create g' (\<lambda>i. IsEqualConst_32 g' i w (IsBytecodeOptimizer g)) s = (g', c)"
      using find_or_create_again [where eq = "\<lambda>g' i. IsEqualConst_32 g' i w (IsBytecodeOptimizer g)"
          and P = "\<lambda>s. if IsBytecodeOptimizer g then GetType s = INT32 \<and> ucast (GetRawValue s) = w
             else GetType s = INT64 \<and> GetRawValue s = ucast w", OF assms(1) _ _ _ f]
      by (simp add: IsEqualConst_32_def s_def new_const_def uc)
    moreover have "unique_consts (fst (find_or_create g (\<lambda>i. IsEqualConst_32 g i w (IsBytecodeOptimizer g)) s))"
      by (rule find_or_create_unique [OF assms]) (auto simp: IsEqualConst_32_def s_def new_const_def uc split: if_splits)
    ultimately show ?thesis
      using find_or_create_start [OF f] f new_const_start [of g' g]
      by (cases "IsBytecodeOptimizer g") (simp_all add: FindOrCreateConstant_u32_def s_def)
  qed
  have u64: "FindOrCreateConstant_u64 g' v = (g', c) \<and> unique_consts g'" if "FindOrCreateConstant_u64 g v = (g', c)" for g' c
    using typed [OF that [unfolded FindOrCreateConstant_u64_def]] by (simp only: FindOrCreateConstant_u64_def)
  have fp: "FindOrCreateConstant_fp g' f v = (g', c) \<and> unique_consts g'" if "FindOrCreateConstant_fp g f v = (g', c)" for g' c
  proof (cases f)
    case F32
    with that have "FindOrCreateConstant_f32 g (ucast v) = (g', c)" by (simp only: FindOrCreateConstant_fp_def fmt.case)
    from typed [OF this [unfolded FindOrCreateConstant_f32_def]] F32 show ?thesis
      by (simp only: FindOrCreateConstant_f32_def FindOrCreateConstant_fp_def fmt.case)
  next
    case F64
    with that have "FindOrCreateConstant_f64 g v = (g', c)" by (simp only: FindOrCreateConstant_fp_def fmt.case)
    from typed [OF this [unfolded FindOrCreateConstant_f64_def]] F64 show ?thesis
      by (simp only: FindOrCreateConstant_f64_def FindOrCreateConstant_fp_def fmt.case)
  qed
  from u64 u32 fp show ?thesis by blast
qed

theorem constants_shared_witness:
  "wf_consts fold_graph \<and> unique_consts fold_graph
   \<and> FindOrCreateConstant_u64 (fst (FindOrCreateConstant_u64 fold_graph 7)) 7 = FindOrCreateConstant_u64 fold_graph 7"
proof -
  have wf: "wf_consts fold_graph" using fold_graph_wf ..
  have un: "unique_consts fold_graph" by (simp add: unique_consts_def fold_graph_def ex_inst_def)
  obtain g' c where e: "FindOrCreateConstant_u64 fold_graph 7 = (g', c)" by (rule prod.exhaust)
  then have "FindOrCreateConstant_u64 g' 7 = (g', c)" using constants_shared [OF wf un, of 7 0 F32] by blast
  with e show ?thesis using wf un by (simp only: fst_conv)
qed

section \<open>Literal data\<close>

text \<open>
  The flag of \<^verbatim>\<open>ConstFoldingCastConst\<close> that marks literal data has no effect on an integer constant: in the
  bytecode optimizer the cast of an integer literal to \<^verbatim>\<open>float\<close> is refused even for literal data, although
  the function it delegates to would have made the constant had it been handed the flag.
\<close>

theorem cast_literal_data_ignored:
  assumes "type_of g c \<in> {INT32, INT64}"
  shows "ConstFoldingCastConst fp dyn g i c True = ConstFoldingCastConst fp dyn g i c False
    \<and> (IsBytecodeOptimizer g \<and> type_of g i = FLOAT32 \<longrightarrow> ConstFoldingCastConst fp dyn g i c True = Some None
         \<and> (is_int_type (operandsType (the_inst g i)) \<longrightarrow>
              (\<exists>gc. ConstFoldingCastIntConst g i c True = Some (Some gc))))"
  using assms
  by (auto simp: ConstFoldingCastConst_def ConstFoldingCastIntConst_def Let_def ConvertIntToFloat_def static_cast_val)


definition lit_graph :: graph where
  "lit_graph = fold_graph\<lparr>insts := insts fold_graph @ [ex_inst Op_Cast FLOAT32 [0] 0], IsBytecodeOptimizer := True\<rparr>"

theorem cast_literal_data_ignored_witness:
  "type_of lit_graph 0 \<in> {INT32, INT64} \<and> IsBytecodeOptimizer lit_graph \<and> type_of lit_graph 5 = FLOAT32
   \<and> ConstFoldingCastConst ex_fpu (\<lambda>v n. 0) lit_graph 5 0 True = Some None"
proof -
  have t: "type_of lit_graph 0 \<in> {INT32, INT64}" "IsBytecodeOptimizer lit_graph" "type_of lit_graph 5 = FLOAT32"
    by (simp_all add: lit_graph_def fold_graph_def ex_inst_def)
  from cast_literal_data_ignored [OF t(1), of ex_fpu "\<lambda>v n. 0" 5] t show ?thesis by blast
qed

end
