(* ===== verification/SpillFills.thy ===== *)
theory SpillFills
  imports IrTypes
begin

text \<open>
  The resolver of spill-fills (\<^verbatim>\<open>compiler/optimizer/optimizations/regalloc/spill_fills_resolver.cpp\<close>), with the
  locations and spill-fill data it works on (\<^verbatim>\<open>ir/locations.h\<close>, \<^verbatim>\<open>ir/spill_fill_data.h\<close>).

  A \<^verbatim>\<open>SpillFill\<close> instruction holds a list of moves that happen at once; the resolver reorders them so that
  executing them one after another has the same effect.  \<^verbatim>\<open>INVALID_LOCATION_INDEX\<close> and \<^verbatim>\<open>INVALID_REG\<close> are \<open>None\<close>;
  the counters \<^verbatim>\<open>loadsCount_\<close> keep their eight bits, and the sixteen-bit \<^verbatim>\<open>LocationIndex\<close> is a natural number,
  as the constructor asserts that there are fewer than 65535 locations.  The number of stack and parameter slots, the
  architecture and its temporary registers are what the graph answers.
\<close>

section \<open>Locations\<close>

datatype LocationKind = INVALID | REGISTER | FP_REGISTER | IMMEDIATE | STACK | STACK_PARAMETER | STACK_ARGUMENT

datatype location = Location (GetKind: LocationKind) (GetValue: nat)

definition IsRegister :: "location \<Rightarrow> bool" where
  "IsRegister l \<longleftrightarrow> GetKind l = REGISTER"

definition IsFpRegister :: "location \<Rightarrow> bool" where
  "IsFpRegister l \<longleftrightarrow> GetKind l = FP_REGISTER"

definition IsStack :: "location \<Rightarrow> bool" where
  "IsStack l \<longleftrightarrow> GetKind l = STACK"

definition IsStackParameter :: "location \<Rightarrow> bool" where
  "IsStackParameter l \<longleftrightarrow> GetKind l = STACK_PARAMETER"

definition IsAnyRegister :: "location \<Rightarrow> bool" where
  "IsAnyRegister l \<longleftrightarrow> IsRegister l \<or> IsFpRegister l"

record SpillFillData =
  GetSrc :: location
  GetDst :: location
  sfType :: ir_type

definition AddSpillFill :: "location \<Rightarrow> location \<Rightarrow> ir_type \<Rightarrow> SpillFillData list \<Rightarrow> SpillFillData list" where
  "AddSpillFill src dst type sfs = sfs @ [\<lparr>GetSrc = src, GetDst = dst, sfType = type\<rparr>]"

section \<open>The resolver\<close>

record MoveInfo =
  mi_src :: "nat option"
  mi_regType :: ir_type

record SpillFillsResolver =
  movesTable :: "MoveInfo list"
  loadsCount :: "u8 list"
  preMoves :: "SpillFillData list"
  postMoves :: "SpillFillData list"
  resolverReg :: "nat option"
  vregsTableOffset :: nat
  slotsTableOffset :: nat
  parameterSlotsOffset :: nat
  locationsCount :: nat
  regWrite :: "bool list"
  stackWrite :: "bool list"
  sfArch :: arch
  sfObjectPointerSize :: nat
  archTempReg :: nat
  archTempVReg :: nat
  usedRegs :: "(nat \<times> ir_type) list"

definition mk_resolver :: "nat option \<Rightarrow> nat \<Rightarrow> nat \<Rightarrow> nat \<Rightarrow> nat \<Rightarrow> arch \<Rightarrow> nat \<Rightarrow> nat \<Rightarrow> nat \<Rightarrow> SpillFillsResolver" where
  "mk_resolver resolver regsCount vregsCount stackSlots parameterSlots a ops tempReg tempVReg =
     (let slots = regsCount + vregsCount; params = slots + stackSlots; count = params + parameterSlots
      in \<lparr>movesTable = replicate count \<lparr>mi_src = Some 0, mi_regType = NO_TYPE\<rparr>, loadsCount = replicate count 0,
          preMoves = [], postMoves = [], resolverReg = resolver, vregsTableOffset = regsCount, slotsTableOffset = slots,
          parameterSlotsOffset = params, locationsCount = count, regWrite = replicate slots False,
          stackWrite = replicate (count - slots) False, sfArch = a, sfObjectPointerSize = ops, archTempReg = tempReg,
          archTempVReg = tempVReg, usedRegs = []\<rparr>)"

definition MapLocation :: "SpillFillsResolver \<Rightarrow> location \<Rightarrow> nat" where
  "MapLocation r l =
     (if IsRegister l then GetValue l
      else if IsFpRegister l then GetValue l + vregsTableOffset r
      else if IsStack l then GetValue l + slotsTableOffset r
      else GetValue l + parameterSlotsOffset r)"

definition ToLocation :: "SpillFillsResolver \<Rightarrow> nat \<Rightarrow> location" where
  "ToLocation r reg =
     (if reg \<ge> parameterSlotsOffset r then Location STACK_PARAMETER (reg - parameterSlotsOffset r)
      else if reg \<ge> slotsTableOffset r then Location STACK (reg - slotsTableOffset r)
      else if reg \<ge> vregsTableOffset r then Location FP_REGISTER (reg - vregsTableOffset r)
      else Location REGISTER reg)"

definition IsPairedReg :: "nat \<Rightarrow> arch \<Rightarrow> ir_type \<Rightarrow> bool" where
  "IsPairedReg ops a type \<longleftrightarrow> a \<noteq> NONE \<and> Is64BitsArch a = Some False \<and> Is64Bits ops type a = Some True"

definition same_location :: "SpillFillData \<Rightarrow> bool" where
  "same_location sf \<longleftrightarrow> GetKind (GetDst sf) = GetKind (GetSrc sf) \<and> GetValue (GetDst sf) = GetValue (GetSrc sf)"

section \<open>Is there a conflict?\<close>

definition reg_index :: "location \<Rightarrow> nat \<Rightarrow> nat" where
  "reg_index l offset = (if IsFpRegister l then GetValue l + offset else GetValue l)"

definition stack_index :: "location \<Rightarrow> nat \<Rightarrow> nat" where
  "stack_index l offset = (if IsStackParameter l then GetValue l + offset else GetValue l)"

definition MarkRegWrite :: "location \<Rightarrow> bool list \<Rightarrow> bool \<Rightarrow> nat \<Rightarrow> bool list" where
  "MarkRegWrite l regs paired offset =
     (let reg = reg_index l offset; regs = regs[reg := True] in if paired then regs[reg + 1 := True] else regs)"

definition IsRegWrite :: "location \<Rightarrow> bool list \<Rightarrow> bool \<Rightarrow> nat \<Rightarrow> bool" where
  "IsRegWrite l regs paired offset = (let reg = reg_index l offset in regs ! reg \<or> paired \<and> regs ! (reg + 1))"

definition MarkStackWrite :: "location \<Rightarrow> bool list \<Rightarrow> nat \<Rightarrow> bool list" where
  "MarkStackWrite l slots offset = slots[stack_index l offset := True]"

definition IsStackWrite :: "location \<Rightarrow> bool list \<Rightarrow> nat \<Rightarrow> bool" where
  "IsStackWrite l slots offset = slots ! stack_index l offset"

text \<open>The statements of the loop body: the marks of a destination, and whether the source carries a mark.\<close>

definition sf_paired :: "SpillFillsResolver \<Rightarrow> SpillFillData \<Rightarrow> bool" where
  "sf_paired r sf = IsPairedReg (sfObjectPointerSize r) (sfArch r) (sfType sf)"

definition mark_reg :: "SpillFillsResolver \<Rightarrow> SpillFillData \<Rightarrow> SpillFillsResolver" where
  "mark_reg r sf =
     (if IsAnyRegister (GetDst sf)
      then r\<lparr>regWrite := MarkRegWrite (GetDst sf) (regWrite r) (sf_paired r sf) (vregsTableOffset r)\<rparr> else r)"

definition mark_stack :: "SpillFillsResolver \<Rightarrow> SpillFillData \<Rightarrow> SpillFillsResolver" where
  "mark_stack r sf =
     (if GetKind (GetDst sf) = STACK \<or> GetKind (GetDst sf) = STACK_PARAMETER
      then r\<lparr>stackWrite := MarkStackWrite (GetDst sf) (stackWrite r) (parameterSlotsOffset r - slotsTableOffset r)\<rparr> else r)"

definition reg_conflict :: "SpillFillsResolver \<Rightarrow> SpillFillData \<Rightarrow> bool" where
  "reg_conflict r sf \<longleftrightarrow> IsAnyRegister (GetSrc sf) \<and> IsRegWrite (GetSrc sf) (regWrite r) (sf_paired r sf) (vregsTableOffset r)"

definition stack_conflict :: "SpillFillsResolver \<Rightarrow> SpillFillData \<Rightarrow> bool" where
  "stack_conflict r sf \<longleftrightarrow> (GetKind (GetSrc sf) = STACK \<or> GetKind (GetSrc sf) = STACK_PARAMETER)
     \<and> IsStackWrite (GetSrc sf) (stackWrite r) (parameterSlotsOffset r - slotsTableOffset r)"

fun NeedToResolve_loop :: "SpillFillsResolver \<Rightarrow> SpillFillData list \<Rightarrow> SpillFillsResolver \<times> bool" where
  "NeedToResolve_loop r [] = (r, False)"
| "NeedToResolve_loop r (sf # sfs) =
     (if same_location sf then NeedToResolve_loop r sfs
      else let r = mark_reg r sf
           in if reg_conflict r sf then (r, True)
              else let r = mark_stack r sf
                   in if stack_conflict r sf then (r, True) else NeedToResolve_loop r sfs)"

definition NeedToResolve :: "SpillFillsResolver \<Rightarrow> SpillFillData list \<Rightarrow> SpillFillsResolver \<times> bool" where
  "NeedToResolve r sfs =
     (if length sfs < 2 then (r, False)
      else NeedToResolve_loop
             (r\<lparr>regWrite := replicate (length (regWrite r)) False, stackWrite := replicate (length (stackWrite r)) False\<rparr>) sfs)"

section \<open>The table of moves\<close>

definition collect_move :: "SpillFillData \<Rightarrow> SpillFillsResolver \<Rightarrow> SpillFillsResolver" where
  "collect_move sf r =
     (if same_location sf then r
      else if GetKind (GetSrc sf) = IMMEDIATE then r\<lparr>postMoves := postMoves r @ [sf]\<rparr>
      else if GetKind (GetDst sf) = STACK_ARGUMENT then r\<lparr>preMoves := preMoves r @ [sf]\<rparr>
      else let srcIndex = MapLocation r (GetSrc sf); destIndex = MapLocation r (GetDst sf)
           in r\<lparr>movesTable := (movesTable r)[destIndex := \<lparr>mi_src = Some srcIndex, mi_regType = sfType sf\<rparr>],
                loadsCount := (loadsCount r)[srcIndex := loadsCount r ! srcIndex + 1]\<rparr>)"

definition CollectSpillFillsData :: "SpillFillsResolver \<Rightarrow> SpillFillData list \<Rightarrow> SpillFillsResolver" where
  "CollectSpillFillsData r sfs =
     fold collect_move sfs
       (r\<lparr>movesTable := replicate (length (movesTable r)) \<lparr>mi_src = None, mi_regType = NO_TYPE\<rparr>,
          loadsCount := replicate (length (loadsCount r)) 0, preMoves := [], postMoves := []\<rparr>)"

section \<open>Chains of moves\<close>

definition src_at :: "MoveInfo list \<Rightarrow> nat \<Rightarrow> nat option" where
  "src_at table dst = (if dst < length table then mi_src (table ! dst) else None)"

text \<open>The loop of \<^verbatim>\<open>AddMovesChain\<close>: it ends because every iteration clears an entry of the table.\<close>

function moves_chain ::
    "SpillFillsResolver \<Rightarrow> nat option list \<Rightarrow> SpillFillData list \<Rightarrow> nat \<Rightarrow> SpillFillsResolver \<times> nat option list \<times> SpillFillData list" where
  "moves_chain r remap sfs dst =
     (case src_at (movesTable r) dst of
        None \<Rightarrow> (r, remap, sfs)
      | Some src \<Rightarrow>
          let re = remap ! src; type = mi_regType (movesTable r ! dst);
              sfs = AddSpillFill (ToLocation r (case re of None \<Rightarrow> src | Some re \<Rightarrow> re)) (ToLocation r dst) type sfs;
              remap = (case re of None \<Rightarrow> remap[src := Some dst] | Some _ \<Rightarrow> remap);
              r = r\<lparr>loadsCount := (loadsCount r)[src := loadsCount r ! src - 1],
                    movesTable := (movesTable r)[dst := (movesTable r ! dst)\<lparr>mi_src := None\<rparr>]\<rparr>
          in moves_chain r remap sfs src)"
  by pat_completeness auto

definition pending :: "MoveInfo list \<Rightarrow> nat set" where
  "pending table = {d. src_at table d \<noteq> None}"

lemma finite_pending [simp]: "finite (pending table)"
  by (rule finite_subset [of _ "{..<length table}"]) (auto simp: pending_def src_at_def split: if_splits)

lemma src_at_clear: "src_at (table[dst := (table ! dst)\<lparr>mi_src := None\<rparr>]) d = (if d = dst then None else src_at table d)"
  by (simp add: src_at_def nth_list_update)

lemma pending_clear: "pending (table[dst := (table ! dst)\<lparr>mi_src := None\<rparr>]) = pending table - {dst}"
  by (auto simp: pending_def src_at_clear)

termination moves_chain
proof (relation "measure (\<lambda>(r, remap, sfs, dst). card (pending (movesTable r)))", goal_cases)
  case 1
  show ?case by simp
next
  case (2 r remap sfs dst src re type sfs' remap' r')
  have "dst \<in> pending (movesTable r)" using 2(1) by (simp add: pending_def)
  then have "card (pending (movesTable r) - {dst}) < card (pending (movesTable r))" by (intro card_Diff1_less) simp_all
  with 2 show ?case by (simp add: pending_clear)
qed

declare moves_chain.simps [simp del]

definition AddMovesChain ::
    "bool \<Rightarrow> SpillFillsResolver \<Rightarrow> nat option list \<Rightarrow> SpillFillData list \<Rightarrow> nat
       \<Rightarrow> SpillFillsResolver \<times> nat option list \<times> SpillFillData list" where
  "AddMovesChain isCyclic r remap sfs dst =
     (let firstDst = dst; firstSrc = src_at (movesTable r) dst; (r, remap, sfs) = moves_chain r remap sfs dst
      in if isCyclic
         then (r, (case firstSrc of Some f \<Rightarrow> remap[f := remap ! firstDst] | None \<Rightarrow> remap)[firstDst := None], sfs)
         else (r, remap, sfs))"

definition GetResolver :: "SpillFillsResolver \<Rightarrow> ir_type \<Rightarrow> SpillFillsResolver \<times> nat" where
  "GetResolver r type =
     (case resolverReg r of
        Some reg \<Rightarrow> (r\<lparr>usedRegs := usedRegs r @ [(reg, type)]\<rparr>, reg)
      | None \<Rightarrow>
          (r, if sfArch r = AARCH32 then MapLocation r (Location STACK 0)
              else if IsFloatType type then archTempVReg r + vregsTableOffset r
              else archTempReg r))"

text \<open>
  The walk of \<^verbatim>\<open>CheckAndResolveCyclicDependency\<close> around a cycle, with the bound of its assertion as fuel:
  \<open>None\<close> is a failed assertion.
\<close>

fun find_cycle_end :: "nat \<Rightarrow> MoveInfo list \<Rightarrow> nat \<Rightarrow> nat \<Rightarrow> nat option" where
  "find_cycle_end fuel table dstFirst dst =
     (case src_at table dst of
        None \<Rightarrow> None
      | Some src \<Rightarrow>
          if src = dstFirst then Some dst
          else (case fuel of 0 \<Rightarrow> None | Suc fuel \<Rightarrow> find_cycle_end fuel table dstFirst src))"

definition CheckAndResolveCyclicDependency :: "SpillFillsResolver \<Rightarrow> nat \<Rightarrow> (SpillFillsResolver \<times> nat) option" where
  "CheckAndResolveCyclicDependency r dstFirst =
     (case find_cycle_end (length (movesTable r)) (movesTable r) dstFirst dstFirst of
        None \<Rightarrow> None
      | Some dst \<Rightarrow>
          let (r, resolver) = GetResolver r (mi_regType (movesTable r ! dstFirst));
              table = (movesTable r)[resolver := (movesTable r ! resolver)\<lparr>mi_src := Some dstFirst\<rparr>];
              table = table[dst := (table ! dst)\<lparr>mi_src := Some resolver\<rparr>];
              table = table[resolver := (table ! resolver)\<lparr>mi_regType := mi_regType (table ! dst)\<rparr>]
          in Some (r\<lparr>movesTable := table, loadsCount := (loadsCount r)[resolver := loadsCount r ! resolver + 1]\<rparr>, resolver))"

section \<open>Reordering\<close>

definition add_tail ::
    "nat \<Rightarrow> SpillFillsResolver \<times> nat option list \<times> SpillFillData list \<Rightarrow> SpillFillsResolver \<times> nat option list \<times> SpillFillData list" where
  "add_tail dstReg = (\<lambda>(r, remap, sfs).
     if loadsCount r ! dstReg = 0 \<and> src_at (movesTable r) dstReg \<noteq> None then AddMovesChain False r remap sfs dstReg
     else (r, remap, sfs))"

definition add_cycle ::
    "nat \<Rightarrow> (SpillFillsResolver \<times> nat option list \<times> SpillFillData list) option
       \<Rightarrow> (SpillFillsResolver \<times> nat option list \<times> SpillFillData list) option" where
  "add_cycle dstReg st =
     (case st of
        None \<Rightarrow> None
      | Some (r, remap, sfs) \<Rightarrow>
          if src_at (movesTable r) dstReg \<noteq> None
          then (case CheckAndResolveCyclicDependency r dstReg of
                  None \<Rightarrow> None
                | Some (r, tempReg) \<Rightarrow> Some (AddMovesChain True r remap sfs tempReg))
          else Some (r, remap, sfs))"

definition Reorder :: "SpillFillsResolver \<Rightarrow> (SpillFillsResolver \<times> SpillFillData list) option" where
  "Reorder r =
     (let remap = replicate (locationsCount r) None; sfs = preMoves r;
          st = fold add_tail [0..<locationsCount r] (r, remap, sfs);
          st = fold add_cycle [0..<locationsCount r] (Some st)
      in case st of None \<Rightarrow> None | Some (r, remap, sfs) \<Rightarrow> Some (r, sfs @ postMoves r))"

definition Resolve :: "SpillFillsResolver \<Rightarrow> SpillFillData list \<Rightarrow> (SpillFillsResolver \<times> SpillFillData list) option" where
  "Resolve r sfs = Reorder (CollectSpillFillsData r sfs)"

definition ResolveIfRequired :: "SpillFillsResolver \<Rightarrow> SpillFillData list \<Rightarrow> (SpillFillsResolver \<times> SpillFillData list) option" where
  "ResolveIfRequired r sfs = (let (r, need) = NeedToResolve r sfs in if need then Resolve r sfs else Some (r, sfs))"

text \<open>\<^verbatim>\<open>VisitSpillFill\<close> (the build without debug checks) and \<^verbatim>\<open>Run\<close>, over the \<^verbatim>\<open>SpillFill\<close> instructions of the graph in order.\<close>

definition VisitSpillFill :: "SpillFillsResolver \<Rightarrow> SpillFillData list \<Rightarrow> (SpillFillsResolver \<times> SpillFillData list) option" where
  "VisitSpillFill r sfs = (let (r, need) = NeedToResolve r sfs in if need then Resolve r sfs else Some (r, sfs))"

fun Run :: "SpillFillsResolver \<Rightarrow> SpillFillData list list \<Rightarrow> (SpillFillsResolver \<times> SpillFillData list list) option" where
  "Run r [] = Some (r, [])"
| "Run r (sfs # rest) =
     (case VisitSpillFill r sfs of
        None \<Rightarrow> None
      | Some (r, sfs) \<Rightarrow> (case Run r rest of None \<Rightarrow> None | Some (r, rest) \<Rightarrow> Some (r, sfs # rest)))"

end
