(* ===== verification/SpillFillsSound.thy ===== *)
theory SpillFillsSound
  imports SpillFills
begin

text \<open>
  The reordering of spill-fills at the level of whole locations.  The first sections follow a chain of moves (\<open>chain_post\<close>) and
  the two loops of \<^verbatim>\<open>Reorder\<close> (\<open>run_inv\<close>): first the chains with tails, then the cycles, which a permutation argument closes.
  The last sections relate the table to the list of moves: \<open>Resolve_run\<close> says what a resolved list does to the locations, and
  that each of its moves carries a value one of the original moves carries, at the same type.  \<open>SpillPairs\<close> refines this to
  register pairs and states the result for a whole pass.
\<close>

section \<open>What the moves mean for locations\<close>

text \<open>
  A store gives every location a value; \<open>imm\<close> gives the values of immediates.  Copies of whole locations one after another, and
  all at once.
\<close>

definition read_loc :: "(nat \<Rightarrow> 'v) \<Rightarrow> (location \<Rightarrow> 'v) \<Rightarrow> location \<Rightarrow> 'v" where
  "read_loc imm \<sigma> l = (if GetKind l = IMMEDIATE then imm (GetValue l) else \<sigma> l)"

definition copy_move :: "(nat \<Rightarrow> 'v) \<Rightarrow> SpillFillData \<Rightarrow> (location \<Rightarrow> 'v) \<Rightarrow> location \<Rightarrow> 'v" where
  "copy_move imm sf \<sigma> = \<sigma>(GetDst sf := read_loc imm \<sigma> (GetSrc sf))"

definition copy_moves :: "(nat \<Rightarrow> 'v) \<Rightarrow> SpillFillData list \<Rightarrow> (location \<Rightarrow> 'v) \<Rightarrow> location \<Rightarrow> 'v" where
  "copy_moves imm sfs = fold (copy_move imm) sfs"

definition parallel_copies :: "(nat \<Rightarrow> 'v) \<Rightarrow> SpillFillData list \<Rightarrow> (location \<Rightarrow> 'v) \<Rightarrow> location \<Rightarrow> 'v" where
  "parallel_copies imm sfs \<sigma> l =
     (case find (\<lambda>sf. GetDst sf = l) sfs of Some sf \<Rightarrow> read_loc imm \<sigma> (GetSrc sf) | None \<Rightarrow> \<sigma> l)"

lemma copy_moves_append [simp]: "copy_moves imm (xs @ ys) \<sigma> = copy_moves imm ys (copy_moves imm xs \<sigma>)"
  by (simp add: copy_moves_def)

lemma copy_moves_Nil [simp]: "copy_moves imm [] \<sigma> = \<sigma>"
  by (simp add: copy_moves_def)

lemma copy_moves_Cons [simp]: "copy_moves imm (sf # sfs) \<sigma> = copy_moves imm sfs (copy_move imm sf \<sigma>)"
  by (simp add: copy_moves_def)

text \<open>\<open>P\<close> holds of every move and the value it copies, when the moves are done one after another.\<close>

fun traced :: "(SpillFillData \<Rightarrow> 'v \<Rightarrow> bool) \<Rightarrow> (nat \<Rightarrow> 'v) \<Rightarrow> SpillFillData list \<Rightarrow> (location \<Rightarrow> 'v) \<Rightarrow> bool" where
  "traced P imm [] \<sigma> = True"
| "traced P imm (sf # sfs) \<sigma> = (P sf (read_loc imm \<sigma> (GetSrc sf)) \<and> traced P imm sfs (copy_move imm sf \<sigma>))"

lemma traced_append [simp]: "traced P imm (xs @ ys) \<sigma> \<longleftrightarrow> traced P imm xs \<sigma> \<and> traced P imm ys (copy_moves imm xs \<sigma>)"
  by (induction xs arbitrary: \<sigma>) simp_all

lemma traced_mono: "traced P imm sfs \<sigma> \<Longrightarrow> (\<And>sf v. P sf v \<Longrightarrow> Q sf v) \<Longrightarrow> traced Q imm sfs \<sigma>"
  by (induction sfs arbitrary: \<sigma>) auto

section \<open>Indices and locations\<close>

definition wf_layout :: "SpillFillsResolver \<Rightarrow> bool" where
  "wf_layout r \<longleftrightarrow> vregsTableOffset r \<le> slotsTableOffset r \<and> slotsTableOffset r \<le> parameterSlotsOffset r
     \<and> parameterSlotsOffset r \<le> locationsCount r"

lemma ToLocation_inj: "wf_layout r \<Longrightarrow> ToLocation r i = ToLocation r j \<longleftrightarrow> i = j"
  by (auto simp: ToLocation_def wf_layout_def split: if_splits)

lemma ToLocation_not_immediate [simp]: "GetKind (ToLocation r i) \<noteq> IMMEDIATE"
  by (simp add: ToLocation_def)

section \<open>The state of a reordering\<close>

abbreviation srcs :: "SpillFillsResolver \<Rightarrow> nat \<Rightarrow> nat option" where
  "srcs r \<equiv> src_at (movesTable r)"

abbreviation reg_type :: "SpillFillsResolver \<Rightarrow> nat \<Rightarrow> ir_type" where
  "reg_type r d \<equiv> mi_regType (movesTable r ! d)"

definition readers :: "(nat \<Rightarrow> nat option) \<Rightarrow> nat \<Rightarrow> nat set" where
  "readers M x = {d. M d = Some x}"

text \<open>Where the value of an index is read: at the index itself, or where it has been copied to.\<close>

definition home :: "nat option list \<Rightarrow> nat \<Rightarrow> nat" where
  "home remap s = (case remap ! s of None \<Rightarrow> s | Some x \<Rightarrow> x)"

definition wf_table :: "SpillFillsResolver \<Rightarrow> nat option list \<Rightarrow> bool" where
  "wf_table r remap \<longleftrightarrow>
     length (movesTable r) = locationsCount r \<and> length (loadsCount r) = locationsCount r \<and> length remap = locationsCount r
     \<and> (\<forall>d s. srcs r d = Some s \<longrightarrow> s < locationsCount r)"

text \<open>
  \<open>ex s\<close> is the value the readers of \<open>s\<close> expect.  It is found at the home of \<open>s\<close>, and a home other than
  \<open>s\<close> itself is not written any more.
\<close>

definition chain_inv :: "SpillFillsResolver \<Rightarrow> nat option list \<Rightarrow> (nat \<Rightarrow> 'v) \<Rightarrow> (location \<Rightarrow> 'v) \<Rightarrow> bool" where
  "chain_inv r remap ex \<sigma> \<longleftrightarrow>
     (\<forall>d s. srcs r d = Some s \<longrightarrow> \<sigma> (ToLocation r (home remap s)) = ex s)
     \<and> (\<forall>s x. s < locationsCount r \<longrightarrow> remap ! s = Some x \<longrightarrow> srcs r x = None)"

definition only_tables :: "SpillFillsResolver \<Rightarrow> SpillFillsResolver \<Rightarrow> bool" where
  "only_tables r r' \<longleftrightarrow> r' = r\<lparr>movesTable := movesTable r', loadsCount := loadsCount r'\<rparr>"

lemma only_tables_simps:
  assumes "only_tables r r'"
  shows "ToLocation r' = ToLocation r" "locationsCount r' = locationsCount r" "wf_layout r' = wf_layout r"
    "preMoves r' = preMoves r" "postMoves r' = postMoves r" "GetResolver r' t = (let (q, i) = GetResolver r t in (r'\<lparr>usedRegs := usedRegs q\<rparr>, i))"
proof -
  obtain mt lc where r': "r' = r\<lparr>movesTable := mt, loadsCount := lc\<rparr>" using assms by (auto simp: only_tables_def)
  show "ToLocation r' = ToLocation r" by (rule ext) (simp add: r' ToLocation_def)
  show "locationsCount r' = locationsCount r" "wf_layout r' = wf_layout r" "preMoves r' = preMoves r" "postMoves r' = postMoves r"
    by (simp_all add: r' wf_layout_def)
  show "GetResolver r' t = (let (q, i) = GetResolver r t in (r'\<lparr>usedRegs := usedRegs q\<rparr>, i))"
    by (simp add: r' GetResolver_def MapLocation_def split: option.splits)
qed

lemma only_tables_refl [simp]: "only_tables r r"
  by (simp add: only_tables_def)

lemma only_tables_trans: "only_tables r r' \<Longrightarrow> only_tables r' r'' \<Longrightarrow> only_tables r r''"
  by (cases r; cases r'; cases r'') (simp add: only_tables_def)

text \<open>What a chain of moves leaves behind.\<close>

definition chain_post ::
    "SpillFillsResolver \<Rightarrow> nat option list \<Rightarrow> (nat \<Rightarrow> 'v) \<Rightarrow> (location \<Rightarrow> 'v) \<Rightarrow> nat
       \<Rightarrow> SpillFillsResolver \<Rightarrow> nat option list \<Rightarrow> (location \<Rightarrow> 'v) \<Rightarrow> bool" where
  "chain_post r remap ex \<sigma> dst r' remap' \<sigma>' \<longleftrightarrow>
     only_tables r r' \<and> wf_table r' remap' \<and> chain_inv r' remap' ex \<sigma>'
     \<and> (\<forall>d. srcs r' d = srcs r d \<or> srcs r' d = None \<and> (\<exists>s. srcs r d = Some s \<and> \<sigma>' (ToLocation r d) = ex s))
     \<and> (\<forall>l. (\<forall>d. l = ToLocation r d \<longrightarrow> srcs r' d = srcs r d) \<longrightarrow> \<sigma>' l = \<sigma> l)
     \<and> srcs r' dst = None
     \<and> (\<forall>d x. srcs r' x \<noteq> None \<longrightarrow> srcs r d = Some x \<longrightarrow> x \<noteq> dst \<longrightarrow> srcs r' d = Some x)
     \<and> (\<forall>x < locationsCount r. remap' ! x = remap ! x
          \<or> (\<exists>d. remap ! x = None \<and> remap' ! x = Some d \<and> srcs r d = Some x \<and> srcs r' d = None))
     \<and> (\<forall>x < locationsCount r. loadsCount r ! x = of_nat (card (readers (srcs r) x)) \<longrightarrow>
          loadsCount r' ! x = of_nat (card (readers (srcs r') x)))
     \<and> (\<forall>d x. srcs r d = Some x \<longrightarrow> srcs r' d = None \<longrightarrow> remap' ! x \<noteq> None)"

text \<open>A move of a chain carries the value its destination waits for, at the type of the destination.\<close>

definition chain_move :: "SpillFillsResolver \<Rightarrow> (nat \<Rightarrow> 'v) \<Rightarrow> SpillFillData \<Rightarrow> 'v \<Rightarrow> bool" where
  "chain_move r ex sf v \<longleftrightarrow>
     (\<exists>d s. srcs r d = Some s \<and> GetDst sf = ToLocation r d \<and> sfType sf = reg_type r d \<and> v = ex s)"

lemma readers_clear:
  assumes "M dst = Some src" "finite {d. M d \<noteq> None}"
  shows "readers (M(dst := None)) x = readers M x - {dst}"
    "card (readers M src) = Suc (card (readers (M(dst := None)) src))" "x \<noteq> src \<Longrightarrow> readers (M(dst := None)) x = readers M x"
proof -
  show r: "readers (M(dst := None)) x = readers M x - {dst}" for x by (auto simp: readers_def)
  have "finite (readers M src)" by (rule finite_subset [OF _ assms(2)]) (auto simp: readers_def)
  moreover have "dst \<in> readers M src" using assms(1) by (simp add: readers_def)
  ultimately show "card (readers M src) = Suc (card (readers (M(dst := None)) src))"
    unfolding r by (rule card.remove)
  show "x \<noteq> src \<Longrightarrow> readers (M(dst := None)) x = readers M x" using assms(1) by (auto simp: readers_def)
qed


text \<open>One iteration of the loop.\<close>

definition chain_step :: "SpillFillsResolver \<Rightarrow> nat option list \<Rightarrow> nat \<Rightarrow> nat \<Rightarrow> SpillFillsResolver \<times> nat option list" where
  "chain_step r remap dst src =
     (r\<lparr>loadsCount := (loadsCount r)[src := loadsCount r ! src - 1],
        movesTable := (movesTable r)[dst := (movesTable r ! dst)\<lparr>mi_src := None\<rparr>]\<rparr>,
      case remap ! src of None \<Rightarrow> remap[src := Some dst] | Some _ \<Rightarrow> remap)"

lemma moves_chain_None: "srcs r dst = None \<Longrightarrow> moves_chain r remap sfs dst = (r, remap, sfs)"
  by (simp add: moves_chain.simps)

lemma moves_chain_Some:
  "srcs r dst = Some src \<Longrightarrow>
   moves_chain r remap sfs dst =
     (let (r', remap') = chain_step r remap dst src
      in moves_chain r' remap' (AddSpillFill (ToLocation r (home remap src)) (ToLocation r dst) (mi_regType (movesTable r ! dst)) sfs) src)"
  by (subst moves_chain.simps) (simp add: chain_step_def home_def Let_def cong: option.case_cong)

lemma types_step: "reg_type (fst (chain_step r remap dst src)) d = reg_type r d"
  by (cases "dst < length (movesTable r)") (auto simp: chain_step_def nth_list_update list_update_beyond)

lemma srcs_step: "srcs (fst (chain_step r remap dst src)) = (srcs r)(dst := None)"
  by (rule ext) (simp add: chain_step_def src_at_clear)

lemma chain_step_post:
  assumes lay: "wf_layout r" and wf: "wf_table r remap" and inv: "chain_inv r remap ex \<sigma>" and src: "srcs r dst = Some src"
    and dst: "readers (srcs r) dst \<noteq> {} \<longrightarrow> remap ! dst \<noteq> None"
  defines "r' \<equiv> fst (chain_step r remap dst src)" and "remap' \<equiv> snd (chain_step r remap dst src)"
    and "\<sigma>' \<equiv> \<sigma>(ToLocation r dst := \<sigma> (ToLocation r (home remap src)))"
  shows "only_tables r r'" "wf_table r' remap'" "chain_inv r' remap' ex \<sigma>'" "\<sigma>' (ToLocation r dst) = ex src" "remap' ! src \<noteq> None"
    "\<forall>x < locationsCount r. remap' ! x = remap ! x \<or> (remap ! x = None \<and> remap' ! x = Some dst \<and> x = src)"
    "\<forall>x < locationsCount r. loadsCount r ! x = of_nat (card (readers (srcs r) x)) \<longrightarrow>
          loadsCount r' ! x = of_nat (card (readers (srcs r') x))"
proof -
  have N: "length (movesTable r) = locationsCount r" "length (loadsCount r) = locationsCount r" "length remap = locationsCount r"
    and b: "\<And>d s. srcs r d = Some s \<Longrightarrow> s < locationsCount r" using wf by (auto simp: wf_table_def)
  have sN: "src < locationsCount r" by (rule b [OF src])
  have A: "\<And>d s. srcs r d = Some s \<Longrightarrow> \<sigma> (ToLocation r (home remap s)) = ex s"
    and B: "\<And>s x. s < locationsCount r \<Longrightarrow> remap ! s = Some x \<Longrightarrow> srcs r x = None"
    using inv by (auto simp: chain_inv_def)
  have sr: "srcs r' = (srcs r)(dst := None)" by (simp add: r'_def srcs_step)
  show ot: "only_tables r r'" by (simp add: r'_def chain_step_def only_tables_def)
  note ot = only_tables_simps [OF ot]
  have rm: "remap' = (case remap ! src of None \<Rightarrow> remap[src := Some dst] | Some _ \<Rightarrow> remap)" by (simp add: remap'_def chain_step_def)
  show "wf_table r' remap'"
    using N b by (auto simp: wf_table_def sr r'_def chain_step_def rm src_at_clear split: option.splits if_splits)
  show v: "\<sigma>' (ToLocation r dst) = ex src" using A [OF src] by (simp add: \<sigma>'_def)
  show rs: "remap' ! src \<noteq> None" using sN N by (auto simp: rm split: option.splits)
  show rx: "\<forall>x < locationsCount r. remap' ! x = remap ! x \<or> (remap ! x = None \<and> remap' ! x = Some dst \<and> x = src)"
    using N sN by (auto simp: rm nth_list_update split: option.splits)
  have "srcs r' d = Some s \<Longrightarrow> \<sigma>' (ToLocation r (home remap' s)) = ex s" for d s
  proof -
    assume "srcs r' d = Some s"
    then have d: "srcs r d = Some s" "d \<noteq> dst" by (auto simp: sr split: if_splits)
    have s: "s < locationsCount r" by (rule b [OF d(1)])
    show ?thesis
    proof (cases "remap' ! s = remap ! s")
      case True
      then have h: "home remap' s = home remap s" by (simp add: home_def)
      have "home remap s \<noteq> dst"
      proof
        assume e: "home remap s = dst"
        show False
        proof (cases "remap ! s")
          case None
          with e d(1) have "dst \<in> {s}" "readers (srcs r) dst \<noteq> {}" by (auto simp: home_def readers_def)
          with dst None show False by simp
        next
          case (Some x)
          with e B [OF s Some] src show False by (simp add: home_def)
        qed
      qed
      then show ?thesis using A [OF d(1)] lay by (simp add: \<sigma>'_def h ToLocation_inj)
    next
      case False
      with rx s have "remap' ! s = Some dst" "s = src" by auto
      then show ?thesis using v by (simp add: home_def)
    qed
  qed
  moreover have "srcs r' x = None" if "s < locationsCount r" "remap' ! s = Some x" for s x
    using rx that B by (fastforce simp: sr)
  ultimately show "chain_inv r' remap' ex \<sigma>'" by (simp add: chain_inv_def ot)
  show "\<forall>x < locationsCount r. loadsCount r ! x = of_nat (card (readers (srcs r) x)) \<longrightarrow>
          loadsCount r' ! x = of_nat (card (readers (srcs r') x))"
  proof (intro allI impI)
    fix x assume x: "x < locationsCount r" "loadsCount r ! x = of_nat (card (readers (srcs r) x))"
    have "finite {d. srcs r d \<noteq> None}" using finite_pending [of "movesTable r"] by (simp add: pending_def)
    note rc = readers_clear [OF src this]
    show "loadsCount r' ! x = of_nat (card (readers (srcs r') x))"
      using x N rc(2) rc(3) [of x] by (cases "x = src") (simp_all add: sr, simp_all add: r'_def chain_step_def)
  qed
qed


lemma moves_chain_post:
  assumes "wf_layout r" "wf_table r remap" "chain_inv r remap ex \<sigma>" "readers (srcs r) dst \<noteq> {} \<longrightarrow> remap ! dst \<noteq> None"
    "moves_chain r remap sfs dst = (r', remap', sfs')"
  shows "\<exists>out. sfs' = sfs @ out \<and> chain_post r remap ex \<sigma> dst r' remap' (copy_moves imm out \<sigma>)
     \<and> traced (chain_move r ex) imm out \<sigma> \<and> (\<forall>d. reg_type r' d = reg_type r d)"
  using assms
proof (induction "card (pending (movesTable r))" arbitrary: r remap \<sigma> dst sfs r' remap' sfs' rule: less_induct)
  case less
  note lay = less.prems(1) and wf = less.prems(2) and inv = less.prems(3) and hd = less.prems(4) and res = less.prems(5)
  show ?case
  proof (cases "srcs r dst")
    case None
    with res have "r' = r" "remap' = remap" "sfs' = sfs" by (simp_all add: moves_chain_None)
    with None wf inv show ?thesis by (intro exI [of _ "[]"]) (auto simp: chain_post_def)
  next
    case (Some src)
    define r1 remap1 where "r1 = fst (chain_step r remap dst src)" and "remap1 = snd (chain_step r remap dst src)"
    define \<sigma>1 where "\<sigma>1 = \<sigma>(ToLocation r dst := \<sigma> (ToLocation r (home remap src)))"
    define sf where "sf = \<lparr>GetSrc = ToLocation r (home remap src), GetDst = ToLocation r dst, sfType = mi_regType (movesTable r ! dst)\<rparr>"
    note S = chain_step_post [OF lay wf inv Some hd, folded r1_def remap1_def \<sigma>1_def]
    note ot = only_tables_simps [OF S(1)]
    have sr: "srcs r1 = (srcs r)(dst := None)" by (simp add: r1_def srcs_step)
    have res1: "moves_chain r1 remap1 (sfs @ [sf]) src = (r', remap', sfs')"
      using res by (simp add: moves_chain_Some [OF Some] r1_def remap1_def AddSpillFill_def sf_def case_prod_beta)
    have "pending (movesTable r1) = pending (movesTable r) - {dst}" by (auto simp: pending_def sr split: if_splits)
    moreover have "dst \<in> pending (movesTable r)" using Some by (simp add: pending_def)
    ultimately have "card (pending (movesTable r1)) < card (pending (movesTable r))"
      using finite_pending card_Diff1_less by metis
    from less.hyps [OF this, OF _ S(2,3) _ res1] lay S(5) obtain out where
      out: "sfs' = (sfs @ [sf]) @ out" and P: "chain_post r1 remap1 ex \<sigma>1 src r' remap' (copy_moves imm out \<sigma>1)"
      and tr: "traced (chain_move r1 ex) imm out \<sigma>1" and ty: "\<forall>d. reg_type r' d = reg_type r1 d"
      by (auto simp: ot)
    have ex1: "copy_move imm sf \<sigma> = \<sigma>1" by (simp add: copy_move_def sf_def read_loc_def \<sigma>1_def)
    let ?\<sigma>' = "copy_moves imm out \<sigma>1"
    have P': "only_tables r1 r'" "wf_table r' remap'" "chain_inv r' remap' ex ?\<sigma>'"
      "\<forall>d. srcs r' d = srcs r1 d \<or> srcs r' d = None \<and> (\<exists>s. srcs r1 d = Some s \<and> ?\<sigma>' (ToLocation r d) = ex s)"
      "\<forall>l. (\<forall>d. l = ToLocation r d \<longrightarrow> srcs r' d = srcs r1 d) \<longrightarrow> ?\<sigma>' l = \<sigma>1 l"
      "srcs r' src = None"
      "\<forall>d x. srcs r' x \<noteq> None \<longrightarrow> srcs r1 d = Some x \<longrightarrow> x \<noteq> src \<longrightarrow> srcs r' d = Some x"
      "\<forall>x < locationsCount r. remap' ! x = remap1 ! x \<or> (\<exists>d. remap1 ! x = None \<and> remap' ! x = Some d \<and> srcs r1 d = Some x \<and> srcs r' d = None)"
      "\<forall>x < locationsCount r. loadsCount r1 ! x = of_nat (card (readers (srcs r1) x)) \<longrightarrow>
          loadsCount r' ! x = of_nat (card (readers (srcs r') x))"
      "\<forall>d x. srcs r1 d = Some x \<longrightarrow> srcs r' d = None \<longrightarrow> remap' ! x \<noteq> None"
      using P [unfolded chain_post_def, unfolded ot(1,2)] by - ((elim conjE, assumption)+)
    have dn: "srcs r' dst = None" using P'(4) [rule_format, of dst] sr by auto
    have vd: "?\<sigma>' (ToLocation r dst) = ex src"
      using P'(5) [rule_format, of "ToLocation r dst"] dn S(4) lay by (auto simp: ToLocation_inj sr)
    have "chain_post r remap ex \<sigma> dst r' remap' ?\<sigma>'"
      unfolding chain_post_def
    proof (intro conjI allI impI)
      show "only_tables r r'" by (rule only_tables_trans [OF S(1) P'(1)])
      show "wf_table r' remap'" "chain_inv r' remap' ex ?\<sigma>'" "srcs r' dst = None" by (fact P' dn)+
      show "srcs r' d = srcs r d \<or> srcs r' d = None \<and> (\<exists>s. srcs r d = Some s \<and> ?\<sigma>' (ToLocation r d) = ex s)" for d
        using P'(4) [rule_format, of d] dn vd Some by (auto simp: sr split: if_splits)
      show "?\<sigma>' l = \<sigma> l" if "\<forall>d. l = ToLocation r d \<longrightarrow> srcs r' d = srcs r d" for l
      proof -
        have "l \<noteq> ToLocation r dst" using that dn Some by auto
        moreover from this have "?\<sigma>' l = \<sigma>1 l" using that by (intro P'(5) [rule_format]) (auto simp: sr)
        ultimately show ?thesis by (simp add: \<sigma>1_def)
      qed
      show "srcs r' d = Some x" if "srcs r' x \<noteq> None" "srcs r d = Some x" "x \<noteq> dst" for d x
      proof (cases "d = dst")
        case True
        with that Some P'(6) show ?thesis by simp
      next
        case False
        with that P'(6) have "srcs r1 d = Some x" "x \<noteq> src" by (auto simp: sr)
        with P'(7) that show ?thesis by blast
      qed
      show "remap' ! x = remap ! x \<or> (\<exists>d. remap ! x = None \<and> remap' ! x = Some d \<and> srcs r d = Some x \<and> srcs r' d = None)"
        if "x < locationsCount r" for x
        using S(6) [rule_format, OF that] P'(8) [rule_format, OF that] dn Some by (auto simp: sr split: if_splits)
      show "loadsCount r' ! x = of_nat (card (readers (srcs r') x))"
        if "x < locationsCount r" "loadsCount r ! x = of_nat (card (readers (srcs r) x))" for x
        using S(7) P'(9) that by blast
      show "remap' ! x \<noteq> None" if "srcs r d = Some x" "srcs r' d = None" for d x
      proof (cases "d = dst")
        case True
        with that Some have "x = src" by simp
        moreover have "src < locationsCount r" using wf Some by (auto simp: wf_table_def)
        ultimately show ?thesis using P'(8) [rule_format, of src] S(5) by auto
      next
        case False
        then show ?thesis using P'(10) [rule_format, of d x] that by (simp add: sr)
      qed
    qed
    moreover have ty1: "reg_type r1 d = reg_type r d" for d by (simp add: r1_def types_step)
    have "traced (chain_move r ex) imm out \<sigma>1"
      using tr by (rule traced_mono) (auto simp: chain_move_def sr ot ty1 split: if_splits)
    moreover have "chain_move r ex sf (read_loc imm \<sigma> (GetSrc sf))"
      using Some inv by (auto simp: chain_move_def chain_inv_def sf_def read_loc_def)
    ultimately show ?thesis using out ex1 ty by (intro exI [of _ "sf # out"]) (simp add: ty1)
  qed
qed

section \<open>Chains with tails\<close>

definition same_layout :: "SpillFillsResolver \<Rightarrow> SpillFillsResolver \<Rightarrow> bool" where
  "same_layout r r' \<longleftrightarrow>
     r' = r\<lparr>movesTable := movesTable r', loadsCount := loadsCount r', usedRegs := usedRegs r'\<rparr>"

lemma same_layout_simps:
  assumes "same_layout r r'"
  shows "ToLocation r' = ToLocation r" "locationsCount r' = locationsCount r" "wf_layout r' = wf_layout r"
    "preMoves r' = preMoves r" "postMoves r' = postMoves r" "snd (GetResolver r' t) = snd (GetResolver r t)"
proof -
  obtain mt lc ur where r': "r' = r\<lparr>movesTable := mt, loadsCount := lc, usedRegs := ur\<rparr>" using assms by (auto simp: same_layout_def)
  show "ToLocation r' = ToLocation r" by (rule ext) (simp add: r' ToLocation_def)
  show "locationsCount r' = locationsCount r" "wf_layout r' = wf_layout r" "preMoves r' = preMoves r" "postMoves r' = postMoves r"
    by (simp_all add: r' wf_layout_def)
  show "snd (GetResolver r' t) = snd (GetResolver r t)"
    by (simp add: r' GetResolver_def MapLocation_def split: option.splits)
qed

lemma same_layout_refl [simp]: "same_layout r r"
  by (simp add: same_layout_def)

lemma same_layout_trans: "same_layout r r' \<Longrightarrow> same_layout r' r'' \<Longrightarrow> same_layout r r''"
  by (cases r; cases r'; cases r'') (simp add: same_layout_def)

lemma only_tables_same_layout: "only_tables r r' \<Longrightarrow> same_layout r r'"
  by (cases r; cases r') (simp add: same_layout_def only_tables_def)

text \<open>
  The invariant of the two loops of \<^verbatim>\<open>Reorder\<close>: \<open>r0\<close> and \<open>\<sigma>0\<close> are the table and the store before them, \<open>T\<close> the
  indices of the temporaries.  A move that has left the table has been done; nothing else has changed.
\<close>

definition run_inv ::
    "SpillFillsResolver \<Rightarrow> nat set \<Rightarrow> (location \<Rightarrow> 'v) \<Rightarrow> SpillFillsResolver \<Rightarrow> nat option list \<Rightarrow> (location \<Rightarrow> 'v) \<Rightarrow> bool" where
  "run_inv r0 T \<sigma>0 r remap \<sigma> \<longleftrightarrow>
     same_layout r0 r \<and> wf_table r remap \<and> chain_inv r remap (\<lambda>s. \<sigma>0 (ToLocation r0 s)) \<sigma>
     \<and> (\<forall>d. srcs r d = srcs r0 d \<or> srcs r d = None \<and> (\<exists>s. srcs r0 d = Some s \<and> \<sigma> (ToLocation r0 d) = \<sigma>0 (ToLocation r0 s)))
     \<and> (\<forall>l. l \<notin> ToLocation r0 ` T \<longrightarrow> (\<forall>d. l = ToLocation r0 d \<longrightarrow> srcs r d = srcs r0 d) \<longrightarrow> \<sigma> l = \<sigma>0 l)
     \<and> (\<forall>t \<in> T. t < locationsCount r0 \<and> srcs r t = None \<and> readers (srcs r) t = {} \<and> remap ! t = None)
     \<and> (\<forall>x < locationsCount r0. \<forall>t. remap ! x = Some t \<longrightarrow> t \<notin> T)"

lemmas run_invD =
  run_inv_def [THEN iffD1, THEN conjunct1]
  run_inv_def [THEN iffD1, THEN conjunct2, THEN conjunct1]
  run_inv_def [THEN iffD1, THEN conjunct2, THEN conjunct2, THEN conjunct1]
  run_inv_def [THEN iffD1, THEN conjunct2, THEN conjunct2, THEN conjunct2, THEN conjunct1, rule_format]
  run_inv_def [THEN iffD1, THEN conjunct2, THEN conjunct2, THEN conjunct2, THEN conjunct2, THEN conjunct1, rule_format]
  run_inv_def [THEN iffD1, THEN conjunct2, THEN conjunct2, THEN conjunct2, THEN conjunct2, THEN conjunct2, THEN conjunct1, rule_format]
  run_inv_def [THEN iffD1, THEN conjunct2, THEN conjunct2, THEN conjunct2, THEN conjunct2, THEN conjunct2, THEN conjunct2, rule_format]

lemmas chain_postD =
  chain_post_def [THEN iffD1, THEN conjunct1]
  chain_post_def [THEN iffD1, THEN conjunct2, THEN conjunct1]
  chain_post_def [THEN iffD1, THEN conjunct2, THEN conjunct2, THEN conjunct1]
  chain_post_def [THEN iffD1, THEN conjunct2, THEN conjunct2, THEN conjunct2, THEN conjunct1, rule_format]
  chain_post_def [THEN iffD1, THEN conjunct2, THEN conjunct2, THEN conjunct2, THEN conjunct2, THEN conjunct1, rule_format]
  chain_post_def [THEN iffD1, THEN conjunct2, THEN conjunct2, THEN conjunct2, THEN conjunct2, THEN conjunct2, THEN conjunct1]
  chain_post_def [THEN iffD1, THEN conjunct2, THEN conjunct2, THEN conjunct2, THEN conjunct2, THEN conjunct2, THEN conjunct2, THEN conjunct1, rule_format]
  chain_post_def [THEN iffD1, THEN conjunct2, THEN conjunct2, THEN conjunct2, THEN conjunct2, THEN conjunct2, THEN conjunct2, THEN conjunct2, THEN conjunct1, rule_format]
  chain_post_def [THEN iffD1, THEN conjunct2, THEN conjunct2, THEN conjunct2, THEN conjunct2, THEN conjunct2, THEN conjunct2, THEN conjunct2, THEN conjunct2, THEN conjunct1, rule_format]
  chain_post_def [THEN iffD1, THEN conjunct2, THEN conjunct2, THEN conjunct2, THEN conjunct2, THEN conjunct2, THEN conjunct2, THEN conjunct2, THEN conjunct2, THEN conjunct2, rule_format]

lemma chain_post_sub:
  assumes "chain_post r remap ex \<sigma> dst r' remap' \<sigma>'" "srcs r' d = Some x"
  shows "srcs r d = Some x"
  using chain_postD(4) [OF assms(1), of d] assms(2) by auto

lemma run_inv_chain:
  assumes lay0: "wf_layout r0" and inv: "run_inv r0 T \<sigma>0 r remap \<sigma>"
    and P: "chain_post r remap (\<lambda>s. \<sigma>0 (ToLocation r0 s)) \<sigma> dst r' remap' \<sigma>'"
  shows "run_inv r0 T \<sigma>0 r' remap' \<sigma>'"
proof -
  note I = run_invD [OF inv] and Q = chain_postD [OF P] and lay = same_layout_simps [OF run_invD(1) [OF inv]]
  have sub: "\<And>d x. srcs r' d = Some x \<Longrightarrow> srcs r d = Some x" by (rule chain_post_sub [OF P])
  have keep: "srcs r' d = srcs r d \<Longrightarrow> \<sigma>' (ToLocation r0 d) = \<sigma> (ToLocation r0 d)" for d
    using Q(5) [of "ToLocation r0 d"] lay0 by (auto simp: lay ToLocation_inj)
  show ?thesis
    unfolding run_inv_def
  proof (intro conjI allI impI ballI)
    show "same_layout r0 r'" by (rule same_layout_trans [OF I(1) only_tables_same_layout [OF Q(1)]])
    show "wf_table r' remap'" "chain_inv r' remap' (\<lambda>s. \<sigma>0 (ToLocation r0 s)) \<sigma>'" by (fact Q)+
    show "srcs r' d = srcs r0 d \<or> srcs r' d = None \<and> (\<exists>s. srcs r0 d = Some s \<and> \<sigma>' (ToLocation r0 d) = \<sigma>0 (ToLocation r0 s))" for d
      using Q(4) [of d] I(4) [of d] keep [of d] by (cases "srcs r' d = srcs r d") (auto simp: lay)
    show "\<sigma>' l = \<sigma>0 l" if l: "l \<notin> ToLocation r0 ` T" "\<forall>d. l = ToLocation r0 d \<longrightarrow> srcs r' d = srcs r0 d" for l
    proof -
      have "srcs r d = srcs r0 d" if "l = ToLocation r0 d" for d
        using l(2) that I(4) [of d] sub [of d] by (cases "srcs r d") auto
      then show ?thesis using I(5) [OF l(1)] Q(5) [of l] l(2) by (simp add: lay)
    qed
    show "t < locationsCount r0" "srcs r' t = None" "readers (srcs r') t = {}" "remap' ! t = None" if "t \<in> T" for t
    proof -
      note t = I(6) [OF that]
      show "t < locationsCount r0" using t by simp
      show "srcs r' t = None" using t sub [of t] by (cases "srcs r' t") auto
      show "readers (srcs r') t = {}" using t sub by (fastforce simp: readers_def)
      show "remap' ! t = None" using t Q(8) [of t] by (auto simp: lay readers_def)
    qed
    show "t \<notin> T" if "x < locationsCount r0" "remap' ! x = Some t" for x t
    proof (cases "remap' ! x = remap ! x")
      case True
      with that I(7) show ?thesis by auto
    next
      case False
      with Q(8) [of x] that obtain s where "srcs r t = Some s" by (auto simp: lay)
      with I(6) [of t] show ?thesis by auto
    qed
  qed
qed

text \<open>The moves that the two loops add to the instruction.\<close>

definition run_move :: "SpillFillsResolver \<Rightarrow> nat set \<Rightarrow> (location \<Rightarrow> 'v) \<Rightarrow> SpillFillData \<Rightarrow> 'v \<Rightarrow> bool" where
  "run_move r0 T \<sigma>0 sf v \<longleftrightarrow>
     (\<exists>d s. srcs r0 d = Some s \<and> v = \<sigma>0 (ToLocation r0 s) \<and> sfType sf = reg_type r0 d
        \<and> (GetDst sf = ToLocation r0 d \<or> GetDst sf \<in> ToLocation r0 ` T))"

definition types_kept :: "SpillFillsResolver \<Rightarrow> nat set \<Rightarrow> SpillFillsResolver \<Rightarrow> bool" where
  "types_kept r0 T r \<longleftrightarrow> (\<forall>d. d \<notin> T \<longrightarrow> reg_type r d = reg_type r0 d)"

lemma chain_run_move:
  assumes "run_inv r0 T \<sigma>0 r remap \<sigma>" "types_kept r0 T r" "chain_move r (\<lambda>s. \<sigma>0 (ToLocation r0 s)) sf v"
  shows "run_move r0 T \<sigma>0 sf v"
proof -
  note I = run_invD [OF assms(1)] and L = same_layout_simps [OF run_invD(1) [OF assms(1)]]
  from assms(3) obtain d s where d: "srcs r d = Some s" "GetDst sf = ToLocation r0 d" "sfType sf = reg_type r d"
    "v = \<sigma>0 (ToLocation r0 s)" by (auto simp: chain_move_def L)
  have "srcs r0 d = Some s" using I(4) [of d] d(1) by auto
  moreover have "d \<notin> T" using I(6) [of d] d(1) by auto
  ultimately show ?thesis using d assms(2) by (auto simp: run_move_def types_kept_def)
qed

text \<open>A chain that starts at an index nobody reads.\<close>

lemma add_tail_run:
  assumes lay: "wf_layout r0" and inv: "run_inv r0 T \<sigma>0 r remap \<sigma>" and few: "\<forall>x. card (readers (srcs r) x) < 256"
    and loads: "\<forall>x < locationsCount r0. loadsCount r ! x = of_nat (card (readers (srcs r) x))"
    and n: "n < locationsCount r0" and res: "add_tail n (r, remap, sfs) = (r', remap', sfs')" and ty: "types_kept r0 T r"
  shows "\<exists>out. sfs' = sfs @ out \<and> run_inv r0 T \<sigma>0 r' remap' (copy_moves imm out \<sigma>)
     \<and> traced (run_move r0 T \<sigma>0) imm out \<sigma> \<and> types_kept r0 T r'
     \<and> (\<forall>x < locationsCount r0. loadsCount r' ! x = of_nat (card (readers (srcs r') x)))
     \<and> (\<forall>x. readers (srcs r') x \<subseteq> readers (srcs r) x)
     \<and> (srcs r' n \<noteq> None \<longrightarrow> readers (srcs r') n \<noteq> {})
     \<and> (\<forall>x. srcs r' x \<noteq> None \<longrightarrow> readers (srcs r') x = readers (srcs r) x \<and> srcs r x \<noteq> None)"
proof -
  note I = run_invD [OF inv] and L = same_layout_simps [OF run_invD(1) [OF inv]]
  have fin: "finite (readers (srcs r) n)"
    by (rule finite_subset [OF _ finite_pending [of "movesTable r"]]) (auto simp: pending_def readers_def)
  have zero: "loadsCount r ! n = 0 \<longleftrightarrow> readers (srcs r) n = {}"
  proof -
    have "(of_nat (card (readers (srcs r) n)) :: u8) = 0 \<longleftrightarrow> card (readers (srcs r) n) = 0"
      using few [rule_format, of n] by (auto simp: word_of_nat_eq_0_iff dest: dvd_imp_le)
    then show ?thesis using loads n fin by simp
  qed
  show ?thesis
  proof (cases "loadsCount r ! n = 0 \<and> srcs r n \<noteq> None")
    case True
    then have none: "readers (srcs r) n = {}" by (simp add: zero)
    from True res have "moves_chain r remap sfs n = (r', remap', sfs')" by (simp add: add_tail_def AddMovesChain_def split: prod.splits)
    from moves_chain_post [OF _ I(2,3) _ this, of imm] lay none obtain out where
      out: "sfs' = sfs @ out" and P: "chain_post r remap (\<lambda>s. \<sigma>0 (ToLocation r0 s)) \<sigma> n r' remap' (copy_moves imm out \<sigma>)"
      and tr: "traced (chain_move r (\<lambda>s. \<sigma>0 (ToLocation r0 s))) imm out \<sigma>" "\<forall>d. reg_type r' d = reg_type r d"
      by (auto simp: L)
    note Q = chain_postD [OF P] and sub = chain_post_sub [OF P]
    have "readers (srcs r') x = readers (srcs r) x \<and> srcs r x \<noteq> None" if "srcs r' x \<noteq> None" for x
    proof -
      have "x \<noteq> n" using Q(6) that by auto
      then have "srcs r' d = Some x \<longleftrightarrow> srcs r d = Some x" for d using Q(7) [OF that, of d] sub [of d x] by auto
      moreover have "srcs r x \<noteq> None" using sub [of x] that by auto
      ultimately show ?thesis by (simp add: readers_def)
    qed
    moreover have "readers (srcs r') x \<subseteq> readers (srcs r) x" for x using sub by (auto simp: readers_def)
    moreover have "\<forall>x < locationsCount r0. loadsCount r' ! x = of_nat (card (readers (srcs r') x))"
      using Q(9) loads by (simp add: L)
    moreover have "traced (run_move r0 T \<sigma>0) imm out \<sigma>"
      using tr(1) by (rule traced_mono) (rule chain_run_move [OF inv ty])
    moreover have "types_kept r0 T r'" using ty tr(2) by (simp add: types_kept_def)
    ultimately show ?thesis using out run_inv_chain [OF lay inv P] Q(6) by blast
  next
    case False
    with res have "r' = r" "remap' = remap" "sfs' = sfs" by (auto simp: add_tail_def)
    with False inv loads zero ty show ?thesis by (intro exI [of _ "[]"]) auto
  qed
qed

lemma add_tails_run:
  assumes lay: "wf_layout r0" and inv: "run_inv r0 T \<sigma>0 r remap \<sigma>" and few: "\<forall>x. card (readers (srcs r) x) < 256"
    and loads: "\<forall>x < locationsCount r0. loadsCount r ! x = of_nat (card (readers (srcs r) x))"
    and ns: "set ns \<subseteq> {..<locationsCount r0}" and res: "fold add_tail ns (r, remap, sfs) = (r', remap', sfs')"
    and ty: "types_kept r0 T r"
  shows "\<exists>out. sfs' = sfs @ out \<and> run_inv r0 T \<sigma>0 r' remap' (copy_moves imm out \<sigma>)
     \<and> traced (run_move r0 T \<sigma>0) imm out \<sigma> \<and> types_kept r0 T r'
     \<and> (\<forall>n \<in> set ns. srcs r' n \<noteq> None \<longrightarrow> readers (srcs r') n \<noteq> {})
     \<and> (\<forall>x. srcs r' x \<noteq> None \<longrightarrow> readers (srcs r') x = readers (srcs r) x \<and> srcs r x \<noteq> None)"
  using inv few loads ns res ty
proof (induction ns arbitrary: r remap sfs \<sigma>)
  case Nil
  then show ?case by (intro exI [of _ "[]"]) auto
next
  case (Cons n ns)
  obtain r1 remap1 sfs1 where s1: "add_tail n (r, remap, sfs) = (r1, remap1, sfs1)" by (cases "add_tail n (r, remap, sfs)")
  have "n < locationsCount r0" using Cons.prems(4) by simp
  from add_tail_run [OF lay Cons.prems(1-3) this s1 Cons.prems(6), of imm] obtain out where
    t1: "traced (run_move r0 T \<sigma>0) imm out \<sigma>" "types_kept r0 T r1" and o1: "sfs1 = sfs @ out" and inv1: "run_inv r0 T \<sigma>0 r1 remap1 (copy_moves imm out \<sigma>)"
    and l1: "\<forall>x < locationsCount r0. loadsCount r1 ! x = of_nat (card (readers (srcs r1) x))"
    and sub: "\<And>x. readers (srcs r1) x \<subseteq> readers (srcs r) x"
    and n1: "srcs r1 n \<noteq> None \<longrightarrow> readers (srcs r1) n \<noteq> {}"
    and k1: "\<And>x. srcs r1 x \<noteq> None \<Longrightarrow> readers (srcs r1) x = readers (srcs r) x \<and> srcs r x \<noteq> None"
    by blast
  have fin: "finite (readers (srcs r) x)" for x
    by (rule finite_subset [OF _ finite_pending [of "movesTable r"]]) (auto simp: pending_def readers_def)
  have few1: "\<forall>x. card (readers (srcs r1) x) < 256"
    using Cons.prems(2) card_mono [OF fin sub] by (meson le_less_trans)
  have "set ns \<subseteq> {..<locationsCount r0}" "fold add_tail ns (r1, remap1, sfs1) = (r', remap', sfs')"
    using Cons.prems(4,5) s1 by simp_all
  from Cons.IH [OF inv1 few1 l1 this t1(2)] obtain out' where
    t2: "traced (run_move r0 T \<sigma>0) imm out' (copy_moves imm out \<sigma>)" "types_kept r0 T r'" and o2: "sfs' = sfs1 @ out'" and inv2: "run_inv r0 T \<sigma>0 r' remap' (copy_moves imm out' (copy_moves imm out \<sigma>))"
    and n2: "\<forall>n \<in> set ns. srcs r' n \<noteq> None \<longrightarrow> readers (srcs r') n \<noteq> {}"
    and k2: "\<And>x. srcs r' x \<noteq> None \<Longrightarrow> readers (srcs r') x = readers (srcs r1) x \<and> srcs r1 x \<noteq> None"
    by blast
  have "srcs r' n \<noteq> None \<longrightarrow> readers (srcs r') n \<noteq> {}" using k2 [of n] n1 by auto
  moreover have "srcs r' x \<noteq> None \<Longrightarrow> readers (srcs r') x = readers (srcs r) x \<and> srcs r x \<noteq> None" for x
    using k2 [of x] k1 [of x] by auto
  ultimately show ?case using o1 o2 inv2 n2 t1(1) t2 by (intro exI [of _ "out @ out'"]) auto
qed

section \<open>Cycles\<close>

text \<open>Once every pending index has a reader the table is a permutation of them, so the walk closes.\<close>

lemma find_cycle_end_src: "find_cycle_end fuel table n d = Some e \<Longrightarrow> src_at table e = Some n"
  by (induction fuel table n d rule: find_cycle_end.induct) (auto split: option.splits if_splits nat.splits)

lemma find_cycle_end_closed:
  "find_cycle_end fuel table n d = Some e \<Longrightarrow> P d \<Longrightarrow>
   (\<And>x s. P x \<Longrightarrow> src_at table x = Some s \<Longrightarrow> s \<noteq> n \<Longrightarrow> P s) \<Longrightarrow> P e"
  by (induction fuel table n d rule: find_cycle_end.induct) (auto split: option.splits if_splits nat.splits)

lemma find_cycle_end_None:
  assumes "find_cycle_end fuel table n d = None" "d \<in> D" "\<And>x. x \<in> D \<Longrightarrow> src_at table x = Some (f x) \<and> f x \<in> D" "k \<le> fuel"
  shows "(f ^^ Suc k) d \<noteq> n"
  using assms(1,2,4)
proof (induction fuel arbitrary: d k)
  case 0
  then show ?case using assms(3) [of d] by (auto split: if_splits)
next
  case (Suc fuel)
  then show ?case using assms(3) [of d] by (cases k) (auto simp: funpow_swap1 split: if_splits)
qed

declare find_cycle_end.simps [simp del]

lemma funpow_returns:
  assumes "finite D" "bij_betw f D D" "n \<in> D"
  shows "\<exists>k < card D. (f ^^ Suc k) n = n"
proof -
  have in_D: "(f ^^ i) n \<in> D" for i using bij_betw_funpow [OF assms(2), of i] assms(3) by (auto simp: bij_betw_def)
  have "\<not> inj_on (\<lambda>i. (f ^^ i) n) {..card D}"
  proof
    assume "inj_on (\<lambda>i. (f ^^ i) n) {..card D}"
    then have "card {..card D} \<le> card D" by (rule card_inj_on_le) (use in_D assms(1) in auto)
    then show False by simp
  qed
  then obtain i j where ij: "i < j" "j \<le> card D" "(f ^^ i) n = (f ^^ j) n" unfolding inj_on_def by (metis atMost_iff linorder_neqE_nat)
  have "(f ^^ i) n = (f ^^ i) ((f ^^ (j - i)) n)" using ij by (simp flip: funpow_add comp_apply [of "f ^^ i" "f ^^ (j - i)"])
  then have "(f ^^ (j - i)) n = n"
    using bij_betw_funpow [OF assms(2), of i] assms(3) in_D by (auto simp: bij_betw_def inj_on_def)
  then show ?thesis using ij by (intro exI [of _ "j - i - 1"]) (auto simp: Suc_diff_Suc)
qed

lemma find_cycle_end_exists:
  assumes rd: "\<forall>x. src_at table x \<noteq> None \<longrightarrow> readers (src_at table) x \<noteq> {}" and n: "src_at table n \<noteq> None"
  shows "find_cycle_end (length table) table n n \<noteq> None"
proof -
  define f where "f x = the (src_at table x)" for x
  let ?D = "pending table"
  have sub: "?D \<subseteq> f ` ?D"
  proof
    fix x assume "x \<in> ?D"
    with rd obtain d where "src_at table d = Some x" by (auto simp: pending_def readers_def)
    then show "x \<in> f ` ?D" by (intro image_eqI [of _ _ d]) (auto simp: f_def pending_def)
  qed
  have img: "?D = f ` ?D" by (rule card_seteq [OF _ sub]) (auto intro: card_image_le)
  then have "inj_on f ?D" by (intro eq_card_imp_inj_on) auto
  with img have bij: "bij_betw f ?D ?D" by (simp add: bij_betw_def)
  have nD: "n \<in> ?D" using n by (simp add: pending_def)
  obtain k where k: "k < card ?D" "(f ^^ Suc k) n = n" using funpow_returns [OF finite_pending bij nD] by blast
  have "card ?D \<le> card {..<length table}" by (rule card_mono) (auto simp: pending_def src_at_def split: if_splits)
  with k have kl: "k \<le> length table" by simp
  have "src_at table x = Some (f x) \<and> f x \<in> ?D" if "x \<in> ?D" for x
  proof
    show "src_at table x = Some (f x)" using that by (auto simp: f_def pending_def)
    show "f x \<in> ?D" using imageI [OF that, of f] img by simp
  qed
  from find_cycle_end_None [OF _ nD this kl] k(2) show ?thesis by blast
qed

text \<open>The table with the temporary spliced into the cycle.\<close>

lemma CheckAndResolve_cases:
  assumes rd: "\<forall>x. srcs r x \<noteq> None \<longrightarrow> readers (srcs r) x \<noteq> {}" and n: "srcs r n \<noteq> None"
    and t: "\<forall>ty. snd (GetResolver r ty) < length (movesTable r) \<and> srcs r (snd (GetResolver r ty)) = None"
  shows "\<exists>r1 e ty. CheckAndResolveCyclicDependency r n = Some (r1, snd (GetResolver r ty)) \<and> same_layout r r1
     \<and> srcs r1 = (srcs r)(snd (GetResolver r ty) := Some n, e := Some (snd (GetResolver r ty)))
     \<and> srcs r e = Some n \<and> find_cycle_end (length (movesTable r)) (movesTable r) n n = Some e
     \<and> length (movesTable r1) = length (movesTable r) \<and> length (loadsCount r1) = length (loadsCount r)
     \<and> (\<forall>d. reg_type r1 d = reg_type r (if d = snd (GetResolver r ty) then e else d))"
proof -
  obtain e where e: "find_cycle_end (length (movesTable r)) (movesTable r) n n = Some e"
    using find_cycle_end_exists [OF rd n] by blast
  have se: "srcs r e = Some n" by (rule find_cycle_end_src [OF e])
  then have el: "e < length (movesTable r)" by (auto simp: src_at_def split: if_splits)
  define ty where "ty = mi_regType (movesTable r ! n)"
  obtain q x where q: "GetResolver r ty = (q, x)" by (cases "GetResolver r ty")
  have qr: "q = r\<lparr>usedRegs := usedRegs q\<rparr>" and [simp]: "movesTable q = movesTable r" "loadsCount q = loadsCount r"
    using q by (auto simp: GetResolver_def split: option.splits)
  have x: "x < length (movesTable r)" "srcs r x = None" using t [rule_format, of ty] q by simp_all
  have xe: "x \<noteq> e" using x se by auto
  define table where "table = (movesTable r)[x := (movesTable r ! x)\<lparr>mi_src := Some n\<rparr>, e := (movesTable r ! e)\<lparr>mi_src := Some x\<rparr>]"
  define r1 where "r1 = q\<lparr>movesTable := table[x := (table ! x)\<lparr>mi_regType := mi_regType (table ! e)\<rparr>],
    loadsCount := (loadsCount r)[x := loadsCount r ! x + 1]\<rparr>"
  have "CheckAndResolveCyclicDependency r n = Some (r1, x)"
    using xe by (simp add: CheckAndResolveCyclicDependency_def e q ty_def [symmetric] Let_def r1_def table_def)
  moreover have "same_layout r r1" using qr by (cases r; cases q) (simp add: same_layout_def r1_def)
  moreover have "srcs r1 = (srcs r)(x := Some n, e := Some x)"
    using x el xe by (auto simp: r1_def table_def src_at_def nth_list_update)
  moreover have "length (movesTable r1) = length (movesTable r)" "length (loadsCount r1) = length (loadsCount r)"
    by (simp_all add: r1_def table_def)
  moreover have "reg_type r1 d = reg_type r (if d = x then e else d)" for d
    using x el xe by (auto simp: r1_def table_def nth_list_update)
  ultimately show ?thesis using e se q by (intro exI [of _ r1] exI [of _ e] exI [of _ ty]) simp
qed


text \<open>
  The first move of a cycle saves the value that would be lost: \<open>t\<close> is the temporary, \<open>e\<close> the move that now reads it
  instead of \<open>n\<close>.
\<close>

lemma cycle_first_step:
  assumes lay: "wf_layout r0" and inv: "run_inv r0 T \<sigma>0 r remap \<sigma>" and t: "t \<in> T" and e: "srcs r e = Some n"
    and r1: "same_layout r r1" "srcs r1 = (srcs r)(t := Some n, e := Some t)"
      "length (movesTable r1) = length (movesTable r)" "length (loadsCount r1) = length (loadsCount r)"
  defines "r2 \<equiv> fst (chain_step r1 remap t n)" and "remap2 \<equiv> snd (chain_step r1 remap t n)"
    and "ex \<equiv> \<lambda>s. \<sigma>0 (ToLocation r0 s)"
  shows "same_layout r0 r2" "srcs r2 = (srcs r)(e := Some t)" "wf_table r2 remap2"
    "chain_inv r2 remap2 (ex(t := ex n)) (\<sigma>(ToLocation r0 t := \<sigma> (ToLocation r0 (home remap n))))"
    "remap2 ! n \<noteq> None" "\<forall>x < locationsCount r0. x \<noteq> n \<longrightarrow> remap2 ! x = remap ! x" "remap2 ! n = Some t \<or> remap2 ! n = remap ! n"
proof -
  note I = run_invD [OF inv] and L = same_layout_simps [OF run_invD(1) [OF inv]]
  have tT: "t < locationsCount r0" "srcs r t = None" "readers (srcs r) t = {}" "remap ! t = None" using I(6) [OF t] by simp_all
  have N: "length (movesTable r) = locationsCount r0" "length (loadsCount r) = locationsCount r0" "length remap = locationsCount r0"
    and b: "\<And>d s. srcs r d = Some s \<Longrightarrow> s < locationsCount r0" using I(2) by (auto simp: wf_table_def L)
  have A: "\<And>d s. srcs r d = Some s \<Longrightarrow> \<sigma> (ToLocation r0 (home remap s)) = ex s"
    and B: "\<And>s x. s < locationsCount r0 \<Longrightarrow> remap ! s = Some x \<Longrightarrow> srcs r x = None"
    using I(3) by (auto simp: chain_inv_def L ex_def)
  have et: "e \<noteq> t" and n: "n < locationsCount r0" "n \<noteq> t" using e tT b by (auto simp: readers_def)
  show s02: "same_layout r0 r2"
    using same_layout_trans [OF I(1) r1(1)] by (cases r0; cases r1) (simp add: r2_def chain_step_def same_layout_def)
  note L2 = same_layout_simps [OF s02]
  show sr: "srcs r2 = (srcs r)(e := Some t)" using tT et by (auto simp: r2_def srcs_step r1(2))
  have rm: "remap2 = (case remap ! n of None \<Rightarrow> remap[n := Some t] | Some _ \<Rightarrow> remap)" by (simp add: remap2_def chain_step_def)
  show rn: "remap2 ! n \<noteq> None" "remap2 ! n = Some t \<or> remap2 ! n = remap ! n"
    using N n by (auto simp: rm split: option.splits)
  show rx: "\<forall>x < locationsCount r0. x \<noteq> n \<longrightarrow> remap2 ! x = remap ! x" by (simp add: rm split: option.splits)
  show "wf_table r2 remap2"
    unfolding wf_table_def sr L2
    using N b tT r1(3,4) by (auto simp: r2_def chain_step_def rm split: option.splits if_splits)
  let ?\<sigma> = "\<sigma>(ToLocation r0 t := \<sigma> (ToLocation r0 (home remap n)))"
  have homes: "home remap s \<noteq> t" if "srcs r d = Some s" for d s
    using that tT I(7) [of s t] b [OF that] t by (auto simp: home_def readers_def split: option.splits)
  have "?\<sigma> (ToLocation r0 (home remap2 s)) = (ex(t := ex n)) s" if d: "srcs r2 d = Some s" for d s
  proof (cases "d = e")
    case True
    with d have s: "s = t" by (simp add: sr)
    have "home remap2 t = t" using rx tT n by (simp add: home_def)
    with s A [OF e] show ?thesis by simp
  next
    case False
    with d have d': "srcs r d = Some s" by (simp add: sr)
    have st: "s \<noteq> t" using d' tT by (auto simp: readers_def)
    show ?thesis
    proof (cases "home remap2 s = t")
      case True
      then have "s = n" using homes [OF d'] rx b [OF d'] by (auto simp: home_def)
      with True st A [OF d'] show ?thesis by simp
    next
      case nt: False
      then have "home remap2 s = home remap s" using rx rn(2) b [OF d'] by (cases "s = n") (auto simp: home_def)
      with nt st A [OF d'] lay show ?thesis by (simp add: ToLocation_inj)
    qed
  qed
  moreover have "srcs r2 x = None" if "s < locationsCount r0" "remap2 ! s = Some x" for s x
  proof (cases "remap2 ! s = remap ! s")
    case True
    with that B [of s x] e show ?thesis by (auto simp: sr)
  next
    case False
    with rx rn(2) that have "x = t" by auto
    then show ?thesis using tT et by (simp add: sr)
  qed
  ultimately show "chain_inv r2 remap2 (ex(t := ex n)) ?\<sigma>" by (simp add: chain_inv_def L2)
qed

text \<open>The rest of the cycle, and the temporary given back.\<close>

lemma cycle_rest:
  assumes lay: "wf_layout r0" and inv: "run_inv r0 T \<sigma>0 r remap \<sigma>" and t: "t \<in> T" and t0: "srcs r0 t = None"
    and e: "srcs r e = Some n"
    and L2: "same_layout r0 r2" and sr: "srcs r2 = (srcs r)(e := Some t)"
    and rn: "\<forall>x < locationsCount r0. x \<noteq> n \<longrightarrow> remap2 ! x = remap ! x" "remap2 ! n = Some t \<or> remap2 ! n = remap ! n"
    and P: "chain_post r2 remap2 ((\<lambda>s. \<sigma>0 (ToLocation r0 s))(t := \<sigma>0 (ToLocation r0 n)))
      (\<sigma>(ToLocation r0 t := v)) n r3 remap3 \<sigma>3"
    and fin: "srcs r3 e = None"
  shows "run_inv r0 T \<sigma>0 r3 (remap3[n := remap3 ! t, t := None]) \<sigma>3"
proof -
  note I = run_invD [OF inv] and L = same_layout_simps [OF run_invD(1) [OF inv]] and Q = chain_postD [OF P]
    and M = same_layout_simps [OF L2]
  note sub2 = chain_post_sub [OF P]
  have tT: "t < locationsCount r0" "srcs r t = None" "readers (srcs r) t = {}" "remap ! t = None" using I(6) [OF t] by simp_all
  have b: "\<And>d s. srcs r d = Some s \<Longrightarrow> s < locationsCount r0" using I(2) by (auto simp: wf_table_def L)
  have et: "e \<noteq> t" and nt: "n \<noteq> t" and n: "n < locationsCount r0" using e tT b by (auto simp: readers_def)
  have len: "length remap3 = locationsCount r0" and L3: "locationsCount r3 = locationsCount r0" "ToLocation r3 = ToLocation r0"
    using Q(2) only_tables_simps [OF Q(1)] by (simp_all add: wf_table_def M)
  have sub: "srcs r d = Some s \<and> d \<noteq> e \<and> s \<noteq> t" if "srcs r3 d = Some s" for d s
  proof -
    have "d \<noteq> e" using that fin by auto
    then have "srcs r d = Some s" using sub2 [OF that] by (simp add: sr)
    with \<open>d \<noteq> e\<close> tT show ?thesis by (auto simp: readers_def)
  qed
  have only_e: "d = e" if "srcs r2 d = Some t" for d using that tT by (auto simp: sr readers_def split: if_splits)
  have "remap3 ! t \<noteq> None" using Q(10) [of e t] fin by (simp add: sr)
  then have re: "remap3 ! t = Some e" using Q(8) [of t] tT rn(1) nt only_e by (auto simp: M)
  define remap4 where "remap4 = remap3[n := Some e, t := None]"
  have r4: "remap4 ! x = (if x = t then None else if x = n then Some e else remap3 ! x)" if "x < locationsCount r0" for x
    using that len by (simp add: remap4_def nth_list_update)
  have n2: "srcs r2 t = None" using tT et by (simp add: sr)
  have r3v: "remap3 ! x = remap ! x \<or> (\<exists>y. remap3 ! x = Some y \<and> srcs r y \<noteq> None)" if "x < locationsCount r0" "x \<noteq> n" for x
  proof (cases "remap3 ! x = remap2 ! x")
    case True
    then show ?thesis using rn(1) that by simp
  next
    case False
    with Q(8) [of x] that obtain y where y: "remap3 ! x = Some y" "srcs r2 y = Some x" by (auto simp: M)
    have "srcs r y \<noteq> None" using y(2) e by (auto simp: sr split: if_splits)
    with y(1) show ?thesis by simp
  qed
  have ve: "\<sigma>3 (ToLocation r0 e) = \<sigma>0 (ToLocation r0 n)"
    using Q(4) [of e] fin by (auto simp: sr M)
  have keep: "\<sigma>3 l = \<sigma> l" if "l \<noteq> ToLocation r0 t" "\<forall>d. l = ToLocation r0 d \<longrightarrow> srcs r3 d = srcs r d" for l
  proof -
    have "l \<noteq> ToLocation r0 e" using that(2) e fin by auto
    then have "\<sigma>3 l = (\<sigma>(ToLocation r0 t := v)) l" using that(2) by (intro Q(5)) (auto simp: M sr)
    with that(1) show ?thesis by simp
  qed
  have "run_inv r0 T \<sigma>0 r3 remap4 \<sigma>3"
    unfolding run_inv_def
  proof (intro conjI allI impI ballI)
    show "same_layout r0 r3" by (rule same_layout_trans [OF L2 only_tables_same_layout [OF Q(1)]])
    show "wf_table r3 remap4" using Q(2) by (simp add: wf_table_def remap4_def)
    have "\<sigma>3 (ToLocation r0 (home remap4 s)) = \<sigma>0 (ToLocation r0 s)" if d: "srcs r3 d = Some s" for d s
    proof (cases "s = n")
      case True
      then show ?thesis using r4 [OF n] nt ve by (simp add: home_def)
    next
      case False
      note s = sub [OF d]
      then have "home remap4 s = home remap3 s" using False r4 [of s] b [of d s] by (simp add: home_def)
      then show ?thesis using Q(3) d s by (auto simp: chain_inv_def L3)
    qed
    moreover have "srcs r3 x = None" if "s < locationsCount r0" "remap4 ! s = Some x" for s x
      using that r4 [of s] fin Q(3) by (auto simp: chain_inv_def L3 split: if_splits)
    ultimately show "chain_inv r3 remap4 (\<lambda>s. \<sigma>0 (ToLocation r0 s)) \<sigma>3" by (simp add: chain_inv_def L3)
    show "srcs r3 d = srcs r0 d \<or> srcs r3 d = None \<and> (\<exists>s. srcs r0 d = Some s \<and> \<sigma>3 (ToLocation r0 d) = \<sigma>0 (ToLocation r0 s))" for d
    proof (cases "d = e")
      case True
      moreover have "srcs r0 e = Some n" using e I(4) [of e] by simp
      ultimately show ?thesis using ve fin by simp
    next
      case ne: False
      show ?thesis
      proof (cases "d = t")
        case True
        then show ?thesis using t0 n2 sub2 [of t] by (cases "srcs r3 t") auto
      next
        case dt: False
        have k: "srcs r3 d = srcs r d \<Longrightarrow> \<sigma>3 (ToLocation r0 d) = \<sigma> (ToLocation r0 d)"
          using keep [of "ToLocation r0 d"] dt lay by (auto simp: ToLocation_inj)
        have "srcs r3 d = srcs r d \<or> srcs r3 d = None \<and> (\<exists>s. srcs r d = Some s \<and> \<sigma>3 (ToLocation r0 d) = \<sigma>0 (ToLocation r0 s))"
          using Q(4) [of d] ne tT by (auto simp: sr M readers_def)
        with k I(4) [of d] show ?thesis by (metis option.distinct(1))
      qed
    qed
    show "\<sigma>3 l = \<sigma>0 l" if l: "l \<notin> ToLocation r0 ` T" "\<forall>d. l = ToLocation r0 d \<longrightarrow> srcs r3 d = srcs r0 d" for l
    proof -
      have eq: "srcs r d = srcs r0 d" if "l = ToLocation r0 d" for d
        using l(2) that I(4) [of d] sub [of d] by (cases "srcs r d") auto
      then have "\<sigma>3 l = \<sigma> l" using l t by (intro keep) auto
      with I(5) [OF l(1)] eq show ?thesis by simp
    qed
    show "u < locationsCount r0" "srcs r3 u = None" "readers (srcs r3) u = {}" "remap4 ! u = None" if "u \<in> T" for u
    proof -
      note u = I(6) [OF that]
      show "u < locationsCount r0" using u by simp
      show "srcs r3 u = None" using u sub [of u] by (cases "srcs r3 u") auto
      show "readers (srcs r3) u = {}" using u sub by (fastforce simp: readers_def)
      show "remap4 ! u = None"
      proof (cases "u = t")
        case True
        then show ?thesis using r4 tT by simp
      next
        case False
        have un: "u \<noteq> n" using u e by (auto simp: readers_def)
        have "remap3 ! u = remap2 ! u" using Q(8) [of u] u False by (auto simp: M sr readers_def split: if_splits)
        then show ?thesis using r4 [of u] False un u rn(1) by simp
      qed
    qed
    show "u \<notin> T" if x: "x < locationsCount r0" "remap4 ! x = Some u" for x u
    proof -
      have "u = e \<or> remap ! x = Some u \<or> srcs r u \<noteq> None"
        using r4 [OF x(1)] x r3v [of x] by (auto split: if_splits)
      then show ?thesis using e I(6) [of u] I(7) [OF x(1)] by auto
    qed
  qed
  then show ?thesis by (simp add: remap4_def re)
qed


lemma add_cycle_run:
  assumes lay: "wf_layout r0" and inv: "run_inv r0 T \<sigma>0 r remap \<sigma>" and rd: "\<forall>x. srcs r x \<noteq> None \<longrightarrow> readers (srcs r) x \<noteq> {}"
    and temps: "\<forall>ty. snd (GetResolver r0 ty) \<in> T" and T0: "\<forall>t \<in> T. srcs r0 t = None" and ty: "types_kept r0 T r"
  shows "\<exists>r' remap' out. add_cycle n (Some (r, remap, sfs)) = Some (r', remap', sfs @ out)
     \<and> traced (run_move r0 T \<sigma>0) imm out \<sigma> \<and> types_kept r0 T r'
     \<and> run_inv r0 T \<sigma>0 r' remap' (copy_moves imm out \<sigma>) \<and> (\<forall>x. srcs r' x \<noteq> None \<longrightarrow> readers (srcs r') x \<noteq> {})
     \<and> srcs r' n = None \<and> (\<forall>x. srcs r x = None \<longrightarrow> srcs r' x = None)"
proof (cases "srcs r n = None")
  case True
  with inv rd ty show ?thesis by (intro exI [of _ r] exI [of _ remap] exI [of _ "[]"]) (simp add: add_cycle_def)
next
  case False
  note I = run_invD [OF inv] and L = same_layout_simps [OF run_invD(1) [OF inv]]
  have len: "length (movesTable r) = locationsCount r0" using I(2) by (simp add: wf_table_def L)
  have "\<forall>ty. snd (GetResolver r ty) < length (movesTable r) \<and> srcs r (snd (GetResolver r ty)) = None"
    using temps I(6) by (simp add: L len)
  from CheckAndResolve_cases [OF rd False this] obtain r1 e t where
    c: "CheckAndResolveCyclicDependency r n = Some (r1, t)" and t: "t \<in> T" and e: "srcs r e = Some n"
    and r1: "same_layout r r1" "srcs r1 = (srcs r)(t := Some n, e := Some t)"
      "length (movesTable r1) = length (movesTable r)" "length (loadsCount r1) = length (loadsCount r)"
    and cyc: "find_cycle_end (length (movesTable r)) (movesTable r) n n = Some e"
    and ty1: "\<forall>d. reg_type r1 d = reg_type r (if d = t then e else d)"
    using temps by (auto simp: L)
  define r2 remap2 where "r2 = fst (chain_step r1 remap t n)" and "remap2 = snd (chain_step r1 remap t n)"
  let ?ex = "\<lambda>s. \<sigma>0 (ToLocation r0 s)" and ?v = "\<sigma> (ToLocation r0 (home remap n))"
  note F = cycle_first_step [OF lay inv t e r1, folded r2_def remap2_def]
  note M = same_layout_simps [OF F(1)]
  have et: "e \<noteq> t" and tn: "srcs r t = None" "readers (srcs r) t = {}" using I(6) [OF t] e by auto
  have s1: "srcs r1 t = Some n" using et by (simp add: r1(2))
  define sf where "sf = \<lparr>GetSrc = ToLocation r0 (home remap n), GetDst = ToLocation r0 t, sfType = mi_regType (movesTable r1 ! t)\<rparr>"
  have L1: "ToLocation r1 = ToLocation r0" using same_layout_simps(1) [OF r1(1)] by (simp add: L)
  obtain r3 remap3 sfs3 where ch: "moves_chain r2 remap2 (sfs @ [sf]) n = (r3, remap3, sfs3)"
    by (cases "moves_chain r2 remap2 (sfs @ [sf]) n")
  have "wf_layout r2" using lay by (simp add: M)
  from moves_chain_post [OF this F(3,4) _ ch, of imm] F(5) obtain out where out: "sfs3 = (sfs @ [sf]) @ out"
    and P: "chain_post r2 remap2 (?ex(t := ?ex n)) (\<sigma>(ToLocation r0 t := ?v)) n r3 remap3 (copy_moves imm out (\<sigma>(ToLocation r0 t := ?v)))"
    and tr: "traced (chain_move r2 (?ex(t := ?ex n))) imm out (\<sigma>(ToLocation r0 t := ?v))" "\<forall>d. reg_type r3 d = reg_type r2 d"
    by auto
  note Q = chain_postD [OF P] and sub2 = chain_post_sub [OF P]
  have ex1: "copy_move imm sf \<sigma> = \<sigma>(ToLocation r0 t := ?v)" by (simp add: copy_move_def sf_def read_loc_def)
  have fin: "srcs r3 e = None"
  proof (rule find_cycle_end_closed [OF cyc])
    show "srcs r3 n = None" by (rule Q(6))
    fix x s assume x: "srcs r3 x = None" "srcs r x = Some s" "s \<noteq> n"
    then have "x \<noteq> e" using e by auto
    with x Q(7) [of s x] show "srcs r3 s = None" by (cases "srcs r3 s") (auto simp: F(2))
  qed
  have chain: "moves_chain r1 remap sfs t = (r3, remap3, sfs3)"
    using ch by (simp add: moves_chain_Some [OF s1] r2_def remap2_def sf_def AddSpillFill_def L1 case_prod_beta)
  have "add_cycle n (Some (r, remap, sfs)) = Some (r3, remap3[n := remap3 ! t, t := None], sfs3)"
    using False by (simp add: add_cycle_def c AddMovesChain_def chain s1)
  moreover have "run_inv r0 T \<sigma>0 r3 (remap3[n := remap3 ! t, t := None]) (copy_moves imm (sf # out) \<sigma>)"
    using cycle_rest [OF lay inv t _ e F(1,2,6,7) P fin] T0 t by (simp add: ex1)
  moreover have "readers (srcs r3) x \<noteq> {}" if x: "srcs r3 x \<noteq> None" for x
  proof -
    have xn: "x \<noteq> n" "x \<noteq> e" using x Q(6) fin by auto
    then have "srcs r x \<noteq> None" using sub2 [of x] x by (auto simp: F(2))
    with rd obtain d where d: "srcs r d = Some x" by (auto simp: readers_def)
    then have "d \<noteq> e" using e xn by auto
    with d Q(7) [OF x, of d] xn show ?thesis by (auto simp: F(2) readers_def)
  qed
  moreover have "srcs r3 x = None" if "srcs r x = None" for x
    using sub2 [of x] that fin by (cases "srcs r3 x") (auto simp: F(2) split: if_splits)
  moreover have r2t: "reg_type r2 d = reg_type r (if d = t then e else d)" for d using ty1 by (simp add: r2_def types_step)
  have e0: "srcs r0 e = Some n" "e \<notin> T" using I(4) [of e] I(6) [of e] e by auto
  have "run_move r0 T \<sigma>0 sf (read_loc imm \<sigma> (GetSrc sf))"
    unfolding run_move_def using e0 t e I(3) ty ty1
    by (intro exI [of _ e] exI [of _ n]) (auto simp: sf_def read_loc_def chain_inv_def L types_kept_def)
  moreover have "traced (run_move r0 T \<sigma>0) imm out (\<sigma>(ToLocation r0 t := ?v))"
    using tr(1)
  proof (rule traced_mono)
    fix sf v assume "chain_move r2 (?ex(t := ?ex n)) sf v"
    then obtain d s where d: "srcs r2 d = Some s" "GetDst sf = ToLocation r0 d" "sfType sf = reg_type r2 d" "v = (?ex(t := ?ex n)) s"
      by (auto simp: chain_move_def M)
    have dt: "d \<noteq> t" using d(1) tn et by (auto simp: F(2))
    show "run_move r0 T \<sigma>0 sf v"
    proof (cases "d = e")
      case True
      then have "s = t" using d(1) by (simp add: F(2))
      then show ?thesis using True d e0 dt ty unfolding run_move_def
        by (intro exI [of _ e] exI [of _ n]) (simp add: r2t types_kept_def)
    next
      case False
      then have s: "srcs r d = Some s" "s \<noteq> t" using d(1) tn by (auto simp: F(2) readers_def)
      then have "srcs r0 d = Some s" "d \<notin> T" using I(4) [of d] I(6) [of d] by auto
      then show ?thesis using d dt s ty unfolding run_move_def
        by (intro exI [of _ d] exI [of _ s]) (simp add: r2t types_kept_def)
    qed
  qed
  moreover have "types_kept r0 T r3" using ty tr(2) t by (auto simp: types_kept_def r2t)
  ultimately show ?thesis using out Q(6) ex1
    by (intro exI [of _ r3] exI [of _ "remap3[n := remap3 ! t, t := None]"] exI [of _ "sf # out"]) simp
qed

lemma add_cycles_run:
  assumes lay: "wf_layout r0" and inv: "run_inv r0 T \<sigma>0 r remap \<sigma>" and rd: "\<forall>x. srcs r x \<noteq> None \<longrightarrow> readers (srcs r) x \<noteq> {}"
    and temps: "\<forall>ty. snd (GetResolver r0 ty) \<in> T" and T0: "\<forall>t \<in> T. srcs r0 t = None" and ty: "types_kept r0 T r"
  shows "\<exists>r' remap' out. fold add_cycle ns (Some (r, remap, sfs)) = Some (r', remap', sfs @ out)
     \<and> traced (run_move r0 T \<sigma>0) imm out \<sigma>
     \<and> run_inv r0 T \<sigma>0 r' remap' (copy_moves imm out \<sigma>) \<and> (\<forall>n \<in> set ns. srcs r' n = None) \<and> (\<forall>x. srcs r x = None \<longrightarrow> srcs r' x = None)"
  using inv rd ty
proof (induction ns arbitrary: r remap sfs \<sigma>)
  case Nil
  then show ?case by (intro exI [of _ r] exI [of _ remap] exI [of _ "[]"]) simp
next
  case (Cons n ns)
  from add_cycle_run [OF lay Cons.prems(1,2) temps T0 Cons.prems(3), of n sfs imm] obtain r1 remap1 out where
    t1: "traced (run_move r0 T \<sigma>0) imm out \<sigma>" "types_kept r0 T r1" and
    s1: "add_cycle n (Some (r, remap, sfs)) = Some (r1, remap1, sfs @ out)"
    and inv1: "run_inv r0 T \<sigma>0 r1 remap1 (copy_moves imm out \<sigma>)" and rd1: "\<forall>x. srcs r1 x \<noteq> None \<longrightarrow> readers (srcs r1) x \<noteq> {}"
    and n1: "srcs r1 n = None" "\<forall>x. srcs r x = None \<longrightarrow> srcs r1 x = None" by blast
  from Cons.IH [OF inv1 rd1 t1(2), of "sfs @ out"] obtain r2 remap2 out' where
    t2: "traced (run_move r0 T \<sigma>0) imm out' (copy_moves imm out \<sigma>)" and
    s2: "fold add_cycle ns (Some (r1, remap1, sfs @ out)) = Some (r2, remap2, (sfs @ out) @ out')"
    and inv2: "run_inv r0 T \<sigma>0 r2 remap2 (copy_moves imm out' (copy_moves imm out \<sigma>))"
    and n2: "\<forall>n \<in> set ns. srcs r2 n = None" "\<forall>x. srcs r1 x = None \<longrightarrow> srcs r2 x = None" by blast
  then show ?case using s1 n1 t1(1) by (intro exI [of _ r2] exI [of _ remap2] exI [of _ "out @ out'"]) simp
qed

section \<open>The moves of an instruction\<close>

definition slot_ok :: "SpillFillsResolver \<Rightarrow> location \<Rightarrow> bool" where
  "slot_ok r l \<longleftrightarrow>
     (case GetKind l of
        REGISTER \<Rightarrow> GetValue l < vregsTableOffset r
      | FP_REGISTER \<Rightarrow> GetValue l + vregsTableOffset r < slotsTableOffset r
      | STACK \<Rightarrow> GetValue l + slotsTableOffset r < parameterSlotsOffset r
      | STACK_PARAMETER \<Rightarrow> GetValue l + parameterSlotsOffset r < locationsCount r
      | _ \<Rightarrow> False)"

definition temps :: "SpillFillsResolver \<Rightarrow> nat set" where
  "temps r = range (\<lambda>ty. snd (GetResolver r ty))"

definition resolver_ok :: "SpillFillsResolver \<Rightarrow> bool" where
  "resolver_ok r \<longleftrightarrow> wf_layout r \<and> length (movesTable r) = locationsCount r \<and> length (loadsCount r) = locationsCount r
     \<and> length (regWrite r) = slotsTableOffset r \<and> length (stackWrite r) = locationsCount r - slotsTableOffset r
     \<and> locationsCount r < 65535 \<and> (\<forall>t \<in> temps r. t < locationsCount r)"

definition copies_ok :: "SpillFillsResolver \<Rightarrow> SpillFillData list \<Rightarrow> bool" where
  "copies_ok r sfs \<longleftrightarrow> distinct (map GetDst sfs)
     \<and> (\<forall>sf \<in> set sfs. (slot_ok r (GetDst sf) \<or> GetKind (GetDst sf) = STACK_ARGUMENT)
          \<and> (slot_ok r (GetSrc sf) \<or> GetKind (GetSrc sf) = IMMEDIATE)
          \<and> GetDst sf \<notin> ToLocation r ` temps r \<and> GetSrc sf \<notin> ToLocation r ` temps r)
     \<and> (\<forall>sf \<in> set sfs. length (filter (\<lambda>sf'. GetSrc sf' = GetSrc sf) sfs) < 256)"

lemma slot_index:
  assumes "slot_ok r l" "wf_layout r"
  shows "ToLocation r (MapLocation r l) = l" "MapLocation r l < locationsCount r"
  using assms by (cases l; auto simp: slot_ok_def wf_layout_def ToLocation_def MapLocation_def IsRegister_def
      IsFpRegister_def IsStack_def split: LocationKind.splits)+

lemma slot_ok_kind: "slot_ok r l \<Longrightarrow> GetKind l \<noteq> IMMEDIATE \<and> GetKind l \<noteq> STACK_ARGUMENT \<and> GetKind l \<noteq> INVALID"
  by (auto simp: slot_ok_def)

lemma MapLocation_eq_iff: "slot_ok r l \<Longrightarrow> slot_ok r l' \<Longrightarrow> wf_layout r \<Longrightarrow> MapLocation r l = MapLocation r l' \<longleftrightarrow> l = l'"
  by (metis slot_index(1))

lemma same_location_iff: "same_location sf \<longleftrightarrow> GetDst sf = GetSrc sf"
  by (cases "GetDst sf"; cases "GetSrc sf") (auto simp: same_location_def)

text \<open>Two resolvers with the same layout name the same locations.\<close>

definition layout :: "SpillFillsResolver \<Rightarrow> nat \<times> nat \<times> nat \<times> nat \<times> nat option \<times> arch \<times> nat \<times> nat \<times> nat" where
  "layout r = (vregsTableOffset r, slotsTableOffset r, parameterSlotsOffset r, locationsCount r, resolverReg r, sfArch r,
     archTempReg r, archTempVReg r, sfObjectPointerSize r)"

lemma layout_cong:
  assumes "layout r' = layout r"
  shows "ToLocation r' = ToLocation r" "temps r' = temps r" "slot_ok r' = slot_ok r" "wf_layout r' = wf_layout r"
    "MapLocation r' = MapLocation r" "copies_ok r' = copies_ok r" "locationsCount r' = locationsCount r" "sf_paired r' = sf_paired r"
proof -
  show "sf_paired r' = sf_paired r" using assms by (simp add: fun_eq_iff layout_def sf_paired_def)
  show 1: "ToLocation r' = ToLocation r" "slot_ok r' = slot_ok r" "MapLocation r' = MapLocation r"
    using assms by (simp_all add: fun_eq_iff layout_def ToLocation_def slot_ok_def MapLocation_def split: LocationKind.splits)
  show 2: "wf_layout r' = wf_layout r" "locationsCount r' = locationsCount r" using assms by (simp_all add: layout_def wf_layout_def)
  have "snd (GetResolver r' ty) = snd (GetResolver r ty)" for ty
    using assms by (auto simp: GetResolver_def layout_def MapLocation_def split: option.splits)
  then show "temps r' = temps r" by (simp add: temps_def)
  with 1 show "copies_ok r' = copies_ok r" by (auto simp: fun_eq_iff copies_ok_def)
qed

lemma same_layout_layout: "same_layout r r' \<Longrightarrow> layout r' = layout r \<and> regWrite r' = regWrite r \<and> stackWrite r' = stackWrite r"
  by (cases r; cases r') (simp add: same_layout_def layout_def)

section \<open>Moves that need no reordering\<close>

lemma parallel_copies_dst:
  assumes "distinct (map GetDst sfs)" "sf \<in> set sfs"
  shows "parallel_copies imm sfs \<sigma> (GetDst sf) = read_loc imm \<sigma> (GetSrc sf)"
  using assms by (induction sfs) (auto simp: parallel_copies_def)

lemma parallel_copies_other: "l \<notin> GetDst ` set sfs \<Longrightarrow> parallel_copies imm sfs \<sigma> l = \<sigma> l"
  by (auto simp: parallel_copies_def find_Some_iff split: option.splits)

definition before_ok :: "SpillFillData \<Rightarrow> SpillFillData \<Rightarrow> bool" where
  "before_ok a b \<longleftrightarrow> same_location a \<or> same_location b \<or> GetKind (GetSrc b) = IMMEDIATE \<or> GetSrc b \<noteq> GetDst a"

lemma copy_moves_ordered:
  assumes "distinct (map GetDst sfs)" "sorted_wrt before_ok sfs" "\<forall>sf \<in> set sfs. GetKind (GetDst sf) \<noteq> IMMEDIATE"
  shows "copy_moves imm sfs \<sigma> = parallel_copies imm sfs \<sigma>"
  using assms
proof (induction sfs arbitrary: \<sigma>)
  case Nil
  then show ?case by (simp add: fun_eq_iff parallel_copies_def)
next
  case (Cons a sfs)
  let ?\<sigma> = "copy_move imm a \<sigma>"
  have "parallel_copies imm sfs ?\<sigma> l = parallel_copies imm (a # sfs) \<sigma> l" for l
  proof (cases "l \<in> GetDst ` set sfs")
    case True
    then obtain b where b: "b \<in> set sfs" "l = GetDst b" by auto
    have "GetDst a \<noteq> GetDst b" "before_ok a b" using Cons.prems b by auto
    then have "read_loc imm ?\<sigma> (GetSrc b) = read_loc imm \<sigma> (GetSrc b)"
      using Cons.prems(3) by (auto simp: before_ok_def read_loc_def copy_move_def same_location_iff)
    then show ?thesis using b Cons.prems(1) parallel_copies_dst [of sfs b imm ?\<sigma>] parallel_copies_dst [of "a # sfs" b imm \<sigma>] by simp
  next
    case False
    then show ?thesis using Cons.prems by (cases "l = GetDst a") (auto simp: parallel_copies_other [OF False] parallel_copies_other parallel_copies_dst [of "a # sfs" a] copy_move_def)
  qed
  with Cons show ?case by (simp add: fun_eq_iff)
qed


section \<open>What the table holds\<close>

definition in_table :: "SpillFillData \<Rightarrow> bool" where
  "in_table sf \<longleftrightarrow> \<not> same_location sf \<and> GetKind (GetSrc sf) \<noteq> IMMEDIATE \<and> GetKind (GetDst sf) \<noteq> STACK_ARGUMENT"

definition in_pre :: "SpillFillData \<Rightarrow> bool" where
  "in_pre sf \<longleftrightarrow> \<not> same_location sf \<and> GetKind (GetSrc sf) \<noteq> IMMEDIATE \<and> GetKind (GetDst sf) = STACK_ARGUMENT"

definition in_post :: "SpillFillData \<Rightarrow> bool" where
  "in_post sf \<longleftrightarrow> \<not> same_location sf \<and> GetKind (GetSrc sf) = IMMEDIATE"

definition table_entry :: "SpillFillsResolver \<Rightarrow> SpillFillData list \<Rightarrow> nat \<Rightarrow> nat \<Rightarrow> bool" where
  "table_entry r sfs d s \<longleftrightarrow> (\<exists>sf \<in> set sfs. in_table sf \<and> d = MapLocation r (GetDst sf) \<and> s = MapLocation r (GetSrc sf))"

definition collected :: "SpillFillsResolver \<Rightarrow> SpillFillData list \<Rightarrow> SpillFillsResolver \<Rightarrow> bool" where
  "collected r0 sfs r \<longleftrightarrow> layout r = layout r0 \<and> regWrite r = regWrite r0 \<and> stackWrite r = stackWrite r0
     \<and> length (movesTable r) = locationsCount r0 \<and> length (loadsCount r) = locationsCount r0
     \<and> (\<forall>d s. srcs r d = Some s \<longleftrightarrow> table_entry r0 sfs d s)
     \<and> (\<forall>x < locationsCount r0. loadsCount r ! x = of_nat (card (readers (srcs r) x)))
     \<and> preMoves r = filter in_pre sfs \<and> postMoves r = filter in_post sfs
     \<and> (\<forall>sf \<in> set sfs. in_table sf \<longrightarrow> reg_type r (MapLocation r0 (GetDst sf)) = sfType sf)"

lemma in_table_slots:
  assumes "copies_ok r sfs" "sf \<in> set sfs" "in_table sf"
  shows "slot_ok r (GetDst sf)" "slot_ok r (GetSrc sf)"
  using assms by (auto simp: copies_ok_def in_table_def)

lemma copies_ok_prefix: "copies_ok r (sfs @ sfs') \<Longrightarrow> copies_ok r sfs"
  unfolding copies_ok_def
proof (elim conjE, intro conjI)
  assume c: "\<forall>sf \<in> set (sfs @ sfs'). length (filter (\<lambda>sf'. GetSrc sf' = GetSrc sf) (sfs @ sfs')) < 256"
  show "\<forall>sf \<in> set sfs. length (filter (\<lambda>sf'. GetSrc sf' = GetSrc sf) sfs) < 256"
  proof
    fix sf assume "sf \<in> set sfs"
    with c have "length (filter (\<lambda>sf'. GetSrc sf' = GetSrc sf) (sfs @ sfs')) < 256" by simp
    then show "length (filter (\<lambda>sf'. GetSrc sf' = GetSrc sf) sfs) < 256" by (simp only: filter_append length_append)
  qed
qed simp_all

lemma srcs_set:
  "d < length (movesTable r) \<Longrightarrow>
   srcs (r\<lparr>movesTable := (movesTable r)[d := \<lparr>mi_src = Some s, mi_regType = ty\<rparr>], loadsCount := lc\<rparr>) = (srcs r)(d := Some s)"
  by (auto simp: src_at_def nth_list_update)

lemma readers_set:
  assumes "M d = None" "finite {d. M d \<noteq> None}"
  shows "card (readers (M(d := Some s)) x) = card (readers M x) + (if x = s then 1 else 0)"
proof -
  have "finite (readers M x)" by (rule finite_subset [OF _ assms(2)]) (auto simp: readers_def)
  moreover have "readers (M(d := Some s)) x = (if x = s then insert d (readers M x) else readers M x)" "d \<notin> readers M x"
    using assms(1) by (auto simp: readers_def)
  ultimately show ?thesis by (cases "x = s") auto
qed

lemma collect_move_collected:
  assumes lay: "wf_layout r0" and ok: "copies_ok r0 (sfs @ [sf])" and c: "collected r0 sfs r"
  shows "collected r0 (sfs @ [sf]) (collect_move sf r)"
proof (cases "in_table sf")
  case False
  then have e: "table_entry r0 (sfs @ [sf]) = table_entry r0 sfs" by (auto simp: table_entry_def fun_eq_iff)
  show ?thesis
    using c False unfolding collected_def e
    by (auto simp: collect_move_def in_table_def in_pre_def in_post_def layout_def)
next
  case True
  define d s where "d = MapLocation r0 (GetDst sf)" and "s = MapLocation r0 (GetSrc sf)"
  have sl: "slot_ok r0 (GetDst sf)" "slot_ok r0 (GetSrc sf)" using in_table_slots [OF ok _ True] by simp_all
  have b: "d < locationsCount r0" "s < locationsCount r0" using slot_index(2) [OF _ lay] sl by (simp_all add: d_def s_def)
  have L: "layout r = layout r0" and len: "length (movesTable r) = locationsCount r0" "length (loadsCount r) = locationsCount r0"
    and tab: "\<And>d s. srcs r d = Some s \<longleftrightarrow> table_entry r0 sfs d s"
    and loads: "\<And>x. x < locationsCount r0 \<Longrightarrow> loadsCount r ! x = of_nat (card (readers (srcs r) x))"
    using c by (auto simp: collected_def)
  define ri where "ri = r\<lparr>movesTable := (movesTable r)[d := \<lparr>mi_src = Some s, mi_regType = sfType sf\<rparr>],
    loadsCount := (loadsCount r)[s := loadsCount r ! s + 1]\<rparr>"
  have step: "collect_move sf r = ri"
    using True layout_cong(5) [OF L] by (simp add: collect_move_def in_table_def ri_def d_def s_def Let_def)
  have sr: "srcs ri = (srcs r)(d := Some s)" unfolding ri_def by (rule srcs_set) (simp add: len b)
  have none: "srcs r d = None"
  proof (rule ccontr)
    assume "srcs r d \<noteq> None"
    then obtain s' where "table_entry r0 sfs d s'" using tab by auto
    then obtain sf' where sf': "sf' \<in> set sfs" "in_table sf'" "MapLocation r0 (GetDst sf') = MapLocation r0 (GetDst sf)"
      by (auto simp: table_entry_def d_def)
    then have "GetDst sf' = GetDst sf" using MapLocation_eq_iff [OF _ sl(1) lay] in_table_slots [OF ok, of sf'] by auto
    moreover have "GetDst sf \<notin> GetDst ` set sfs" using ok by (simp add: copies_ok_def)
    ultimately show False using sf'(1) by (metis imageI)
  qed
  have fin: "finite {d. srcs r d \<noteq> None}" using finite_pending [of "movesTable r"] by (simp add: pending_def)
  have "srcs ri d' = Some s' \<longleftrightarrow> table_entry r0 (sfs @ [sf]) d' s'" for d' s'
    using True none tab [of d' s'] tab [of d s'] by (auto simp: sr table_entry_def d_def s_def)
  moreover have "loadsCount ri ! x = of_nat (card (readers (srcs ri) x))" if "x < locationsCount r0" for x
    unfolding sr readers_set [OF none fin] using loads [OF that] b len by (simp add: ri_def nth_list_update)
  moreover have "layout ri = layout r0" using L by (simp add: ri_def layout_def)
  moreover have "reg_type ri (MapLocation r0 (GetDst sf')) = sfType sf'" if "sf' \<in> set (sfs @ [sf])" "in_table sf'" for sf'
  proof (cases "sf' \<in> set sfs")
    case True
    then have "table_entry r0 sfs (MapLocation r0 (GetDst sf')) (MapLocation r0 (GetSrc sf'))" using that by (auto simp: table_entry_def)
    then have "MapLocation r0 (GetDst sf') \<noteq> d" using none tab by (metis option.distinct(1))
    then show ?thesis using c True that by (auto simp: collected_def ri_def)
  next
    case False
    with that have "sf' = sf" by simp
    then show ?thesis using b len by (simp add: ri_def d_def [symmetric])
  qed
  ultimately show ?thesis
    using c True unfolding step by (auto simp: collected_def ri_def in_pre_def in_post_def in_table_def)
qed

lemma CollectSpillFillsData_collected:
  assumes ok: "resolver_ok r" and m: "copies_ok r sfs"
  shows "collected r sfs (CollectSpillFillsData r sfs)"
proof -
  let ?r = "r\<lparr>movesTable := replicate (length (movesTable r)) \<lparr>mi_src = None, mi_regType = NO_TYPE\<rparr>,
          loadsCount := replicate (length (loadsCount r)) 0, preMoves := [], postMoves := []\<rparr>"
  have lay: "wf_layout r" using ok by (simp add: resolver_ok_def)
  have "srcs ?r d = None" for d by (simp add: src_at_def)
  then have "collected r [] ?r" using ok by (simp add: collected_def layout_def resolver_ok_def table_entry_def readers_def)
  then have "copies_ok r xs \<Longrightarrow> collected r xs (fold collect_move xs ?r)" for xs
  proof (induction xs rule: rev_induct)
    case Nil
    then show ?case by simp
  next
    case (snoc sf xs)
    then show ?case using collect_move_collected [OF lay snoc.prems(1)] copies_ok_prefix by simp
  qed
  with m show ?thesis by (simp add: CollectSpillFillsData_def)
qed

lemma few_readers:
  assumes c: "collected r sfs rc" and lay: "wf_layout r" and m: "copies_ok r sfs"
  shows "card (readers (srcs rc) x) < 256"
proof (cases "readers (srcs rc) x = {}")
  case True
  then show ?thesis by simp
next
  case False
  have tab: "\<And>d s. srcs rc d = Some s \<longleftrightarrow> table_entry r sfs d s" using c by (auto simp: collected_def)
  from False obtain sf where sf: "sf \<in> set sfs" "in_table sf" "x = MapLocation r (GetSrc sf)"
    by (auto simp: readers_def tab table_entry_def)
  let ?same = "filter (\<lambda>sf'. GetSrc sf' = GetSrc sf) sfs"
  have "readers (srcs rc) x \<subseteq> (\<lambda>sf. MapLocation r (GetDst sf)) ` set ?same"
  proof
    fix d assume "d \<in> readers (srcs rc) x"
    then obtain sf' where sf': "sf' \<in> set sfs" "in_table sf'" "d = MapLocation r (GetDst sf')" "MapLocation r (GetSrc sf') = x"
      by (auto simp: readers_def tab table_entry_def)
    have "GetSrc sf' = GetSrc sf"
      using sf' sf(3) MapLocation_eq_iff [OF in_table_slots(2) [OF m sf'(1,2)] in_table_slots(2) [OF m sf(1,2)] lay] by simp
    with sf' show "d \<in> (\<lambda>sf. MapLocation r (GetDst sf)) ` set ?same" by auto
  qed
  then have "card (readers (srcs rc) x) \<le> card ((\<lambda>sf. MapLocation r (GetDst sf)) ` set ?same)" by (intro card_mono) auto
  also have "\<dots> \<le> length ?same" by (meson card_image_le card_length finite_set le_trans)
  also have "\<dots> < 256" using m sf(1) by (simp add: copies_ok_def)
  finally show ?thesis .
qed

lemma temps_unused:
  assumes c: "collected r sfs rc" and lay: "wf_layout r" and m: "copies_ok r sfs" and t: "t \<in> temps r"
  shows "srcs rc t = None" "readers (srcs rc) t = {}"
proof -
  have tab: "\<And>d s. srcs rc d = Some s \<longleftrightarrow> table_entry r sfs d s" using c by (auto simp: collected_def)
  have no: "\<not> table_entry r sfs d s" if "d = t \<or> s = t" for d s
  proof
    assume "table_entry r sfs d s"
    then obtain sf where sf: "sf \<in> set sfs" "in_table sf" "d = MapLocation r (GetDst sf)" "s = MapLocation r (GetSrc sf)"
      by (auto simp: table_entry_def)
    note slot_index(1) [OF in_table_slots(1) [OF m sf(1,2)] lay] slot_index(1) [OF in_table_slots(2) [OF m sf(1,2)] lay]
    with sf(3,4) that have "GetDst sf = ToLocation r t \<or> GetSrc sf = ToLocation r t" by auto
    with t m sf(1) show False by (auto simp: copies_ok_def)
  qed
  show "srcs rc t = None" using tab [of t] no by (cases "srcs rc t") auto
  show "readers (srcs rc) t = {}" using no by (auto simp: readers_def tab)
qed

lemma Reorder_run:
  assumes c: "collected r sfs rc" and ok: "resolver_ok r" and m: "copies_ok r sfs"
  shows "\<exists>r' out. Reorder rc = Some (r', preMoves rc @ out @ postMoves rc) \<and> same_layout rc r' \<and> length (movesTable r') = locationsCount r
     \<and> length (loadsCount r') = locationsCount r \<and> traced (run_move rc (temps r) \<sigma>) imm out \<sigma>
     \<and> (\<forall>d s. srcs rc d = Some s \<longrightarrow> copy_moves imm out \<sigma> (ToLocation r d) = \<sigma> (ToLocation r s))
     \<and> (\<forall>l. l \<notin> ToLocation r ` temps r \<longrightarrow> (\<forall>d. l = ToLocation r d \<longrightarrow> srcs rc d = None) \<longrightarrow> copy_moves imm out \<sigma> l = \<sigma> l)"
proof -
  have lay: "wf_layout r" and tb: "\<forall>t \<in> temps r. t < locationsCount r" using ok by (simp_all add: resolver_ok_def)
  have "layout rc = layout r" and len: "length (movesTable rc) = locationsCount r" "length (loadsCount rc) = locationsCount r"
    and loads: "\<forall>x < locationsCount r. loadsCount rc ! x = of_nat (card (readers (srcs rc) x))"
    and tab: "\<And>d s. srcs rc d = Some s \<longleftrightarrow> table_entry r sfs d s" using c by (auto simp: collected_def)
  note L = layout_cong [OF this(1)]
  define remap0 :: "nat option list" where "remap0 = replicate (locationsCount rc) None"
  note t = temps_unused [OF c lay m] and few = few_readers [OF c lay m]
  have layc: "wf_layout rc" using lay by (simp add: L)
  have bnd: "\<forall>d s. srcs rc d = Some s \<longrightarrow> s < locationsCount rc"
    using slot_index(2) [OF in_table_slots(2) [OF m] lay] by (auto simp: tab table_entry_def L)
  have inv0: "run_inv rc (temps r) \<sigma> rc remap0 \<sigma>"
    using len bnd t tb by (auto simp: run_inv_def wf_table_def chain_inv_def remap0_def home_def L)
  obtain r1 remap1 sfs1 where s1: "fold add_tail [0..<locationsCount rc] (rc, remap0, preMoves rc) = (r1, remap1, sfs1)"
    by (cases "fold add_tail [0..<locationsCount rc] (rc, remap0, preMoves rc)")
  have ns: "set [0..<locationsCount rc] \<subseteq> {..<locationsCount rc}" by auto
  have ty0: "types_kept rc (temps r) rc" by (simp add: types_kept_def)
  from add_tails_run [OF layc inv0 _ _ ns s1 ty0, of imm] loads few obtain out1 where
    t1: "traced (run_move rc (temps r) \<sigma>) imm out1 \<sigma>" "types_kept rc (temps r) r1" and
    o1: "sfs1 = preMoves rc @ out1" and inv1: "run_inv rc (temps r) \<sigma> r1 remap1 (copy_moves imm out1 \<sigma>)"
    and n1: "\<forall>n < locationsCount rc. srcs r1 n \<noteq> None \<longrightarrow> readers (srcs r1) n \<noteq> {}" by (auto simp: L)
  have len1: "length (movesTable r1) = locationsCount rc"
    using run_invD(2) [OF inv1] same_layout_simps(2) [OF run_invD(1) [OF inv1]] by (simp add: wf_table_def)
  have rd1: "\<forall>x. srcs r1 x \<noteq> None \<longrightarrow> readers (srcs r1) x \<noteq> {}" using n1 len1 by (auto simp: src_at_def split: if_splits)
  have T: "\<forall>ty. snd (GetResolver rc ty) \<in> temps r" using L(2) by (auto simp: temps_def)
  from add_cycles_run [OF layc inv1 rd1 T _ t1(2), of "[0..<locationsCount rc]" sfs1 imm] t obtain r2 remap2 out2 where
    t2: "traced (run_move rc (temps r) \<sigma>) imm out2 (copy_moves imm out1 \<sigma>)" and
    s2: "fold add_cycle [0..<locationsCount rc] (Some (r1, remap1, sfs1)) = Some (r2, remap2, sfs1 @ out2)"
    and inv2: "run_inv rc (temps r) \<sigma> r2 remap2 (copy_moves imm out2 (copy_moves imm out1 \<sigma>))"
    and n2: "\<forall>n < locationsCount rc. srcs r2 n = None" by auto
  note I = run_invD [OF inv2] and L2 = same_layout_simps [OF run_invD(1) [OF inv2]]
  have len2: "length (movesTable r2) = locationsCount rc" "length (loadsCount r2) = locationsCount rc" using I(2) by (simp_all add: wf_table_def L2)
  have all2: "srcs r2 d = None" for d using n2 len2 by (auto simp: src_at_def)
  have "Reorder rc = Some (r2, preMoves rc @ (out1 @ out2) @ postMoves rc)"
    using s1 s2 o1 by (simp add: Reorder_def remap0_def L2)
  moreover have "copy_moves imm (out1 @ out2) \<sigma> (ToLocation r d) = \<sigma> (ToLocation r s)" if "srcs rc d = Some s" for d s
    using I(4) [of d] all2 that by (auto simp: L)
  moreover have "copy_moves imm (out1 @ out2) \<sigma> l = \<sigma> l"
    if "l \<notin> ToLocation r ` temps r" "\<forall>d. l = ToLocation r d \<longrightarrow> srcs rc d = None" for l
    using I(5) [of l] that all2 by (simp add: L)
  ultimately show ?thesis using I(1) len2 t1(1) t2 by (intro exI [of _ r2] exI [of _ "out1 @ out2"]) (auto simp: L)
qed


section \<open>Sequential moves implement parallel moves\<close>

lemma ToLocation_kind [simp]: "GetKind (ToLocation r i) \<noteq> STACK_ARGUMENT"
  by (simp add: ToLocation_def)

lemma filter_moves:
  assumes "copies_ok r sfs" "(\<forall>sf \<in> set sfs. P sf \<longrightarrow> GetKind (GetSrc sf) = IMMEDIATE) \<or> (\<forall>sf \<in> set sfs. P sf \<longrightarrow> GetKind (GetDst sf) = STACK_ARGUMENT)"
  shows "copy_moves imm (filter P sfs) \<sigma> = parallel_copies imm (filter P sfs) \<sigma>"
proof (rule copy_moves_ordered)
  show "distinct (map GetDst (filter P sfs))" using assms(1) by (simp add: copies_ok_def distinct_map_filter)
  show "\<forall>sf \<in> set (filter P sfs). GetKind (GetDst sf) \<noteq> IMMEDIATE"
    using assms(1) slot_ok_kind by (auto simp: copies_ok_def)
  have "before_ok a b" if "a \<in> set (filter P sfs)" "b \<in> set (filter P sfs)" for a b
  proof -
    have "slot_ok r (GetSrc b) \<or> GetKind (GetSrc b) = IMMEDIATE" using that assms(1) by (auto simp: copies_ok_def)
    with that assms(2) slot_ok_kind [of r "GetSrc b"] show ?thesis by (auto simp: before_ok_def)
  qed
  then show "sorted_wrt before_ok (filter P sfs)" by (intro sorted_wrt_iff_nth_less [THEN iffD2]) (auto simp del: set_filter)
qed

lemma distinct_dst: "copies_ok r sfs \<Longrightarrow> sf \<in> set sfs \<Longrightarrow> sf' \<in> set sfs \<Longrightarrow> GetDst sf = GetDst sf' \<Longrightarrow> sf = sf'"
  by (auto simp: copies_ok_def distinct_map dest: inj_onD)


text \<open>Every move of a resolved list does the work of one of the original moves, or brings its value to a temporary.\<close>

definition resolved_move :: "(nat \<Rightarrow> 'v) \<Rightarrow> SpillFillsResolver \<Rightarrow> SpillFillData list \<Rightarrow> (location \<Rightarrow> 'v) \<Rightarrow> SpillFillData \<Rightarrow> 'v \<Rightarrow> bool" where
  "resolved_move imm r sfs \<sigma> sf v \<longleftrightarrow>
     (\<exists>b \<in> set sfs. v = read_loc imm \<sigma> (GetSrc b) \<and> sfType sf = sfType b
        \<and> (GetKind (GetSrc b) = IMMEDIATE \<longrightarrow> GetSrc sf = GetSrc b)
        \<and> (GetDst sf = GetDst b \<or> GetDst sf \<in> ToLocation r ` temps r))"

lemma pre_traced:
  assumes "set sfs' \<subseteq> set sfs" "\<forall>sf \<in> set sfs'. GetKind (GetDst sf) = STACK_ARGUMENT \<and> GetKind (GetSrc sf) \<noteq> STACK_ARGUMENT"
    "\<And>l. GetKind l \<noteq> STACK_ARGUMENT \<Longrightarrow> \<sigma>' l = \<sigma> l"
  shows "traced (resolved_move imm r sfs \<sigma>) imm sfs' \<sigma>'"
  using assms
proof (induction sfs' arbitrary: \<sigma>')
  case (Cons sf sfs')
  have "resolved_move imm r sfs \<sigma> sf (read_loc imm \<sigma>' (GetSrc sf))"
    using Cons.prems by (auto simp: resolved_move_def read_loc_def)
  moreover have "copy_move imm sf \<sigma>' l = \<sigma> l" if "GetKind l \<noteq> STACK_ARGUMENT" for l
    using Cons.prems that by (auto simp: copy_move_def)
  ultimately show ?case using Cons by simp
qed simp

lemma post_traced:
  "set sfs' \<subseteq> set sfs \<Longrightarrow> \<forall>sf \<in> set sfs'. GetKind (GetSrc sf) = IMMEDIATE \<Longrightarrow> traced (resolved_move imm r sfs \<sigma>) imm sfs' \<sigma>'"
  by (induction sfs' arbitrary: \<sigma>') (auto simp: resolved_move_def read_loc_def)

lemma Resolve_run:
  assumes ok: "resolver_ok r" and m: "copies_ok r sfs"
  shows "\<exists>r' out. Resolve r sfs = Some (r', out) \<and> resolver_ok r' \<and> layout r' = layout r
     \<and> traced (resolved_move imm r sfs \<sigma>) imm out \<sigma>
     \<and> (\<forall>l. l \<notin> ToLocation r ` temps r \<longrightarrow> copy_moves imm out \<sigma> l = parallel_copies imm sfs \<sigma> l)"
proof -
  define rc where "rc = CollectSpillFillsData r sfs"
  have c: "collected r sfs rc" unfolding rc_def by (rule CollectSpillFillsData_collected [OF ok m])
  then have tab: "\<And>d s. srcs rc d = Some s \<longleftrightarrow> table_entry r sfs d s" and pp: "preMoves rc = filter in_pre sfs" "postMoves rc = filter in_post sfs"
    and lc: "layout rc = layout r" "regWrite rc = regWrite r" "stackWrite rc = stackWrite r" by (auto simp: collected_def)
  have lay: "wf_layout r" using ok by (simp add: resolver_ok_def)
  let ?pre = "filter in_pre sfs" and ?post = "filter in_post sfs"
  define \<sigma>1 where "\<sigma>1 = copy_moves imm ?pre \<sigma>"
  have p1: "\<sigma>1 = parallel_copies imm ?pre \<sigma>" unfolding \<sigma>1_def by (rule filter_moves [OF m]) (auto simp: in_pre_def)
  from Reorder_run [OF c ok m, where imm = imm and \<sigma> = \<sigma>1] obtain r' out where R: "Reorder rc = Some (r', preMoves rc @ out @ postMoves rc)"
    and lay': "same_layout rc r'" "length (movesTable r') = locationsCount r" "length (loadsCount r') = locationsCount r"
    and tr: "traced (run_move rc (temps r) \<sigma>1) imm out \<sigma>1"
    and v: "\<And>d s. srcs rc d = Some s \<Longrightarrow> copy_moves imm out \<sigma>1 (ToLocation r d) = \<sigma>1 (ToLocation r s)"
    and o: "\<And>l. l \<notin> ToLocation r ` temps r \<Longrightarrow> \<forall>d. l = ToLocation r d \<longrightarrow> srcs rc d = None \<Longrightarrow> copy_moves imm out \<sigma>1 l = \<sigma>1 l"
    by blast
  define \<sigma>2 where "\<sigma>2 = copy_moves imm out \<sigma>1"
  have p3: "copy_moves imm ?post \<sigma>2 = parallel_copies imm ?post \<sigma>2" by (rule filter_moves [OF m]) (auto simp: in_post_def)
  have L': "layout r' = layout r" "regWrite r' = regWrite r" "stackWrite r' = stackWrite r" using same_layout_layout [OF lay'(1)] lc by simp_all
  have okr: "resolver_ok r'" using ok lay' L' layout_cong [OF L'(1)] by (simp add: resolver_ok_def layout_def)
  have untouched: "srcs rc d = None" if "\<forall>sf \<in> set sfs. in_table sf \<longrightarrow> GetDst sf \<noteq> ToLocation r d" for d
  proof (rule ccontr)
    assume "srcs rc d \<noteq> None"
    then obtain sf where "sf \<in> set sfs" "in_table sf" "d = MapLocation r (GetDst sf)" using tab by (auto simp: table_entry_def)
    with that slot_index(1) [OF in_table_slots(1) [OF m] lay] show False by auto
  qed
  moreover have "parallel_copies imm ?post \<sigma>2 l = parallel_copies imm sfs \<sigma> l" if l: "l \<notin> ToLocation r ` temps r" for l
  proof (cases "l \<in> GetDst ` set sfs")
    case False
    then have n: "l \<notin> GetDst ` set ?post" "l \<notin> GetDst ` set ?pre" by auto
    have "\<forall>d. l = ToLocation r d \<longrightarrow> srcs rc d = None" using False untouched by (metis imageI)
    from o [OF l this] n False show ?thesis by (simp add: parallel_copies_other p1 \<sigma>2_def)
  next
    case True
    then obtain sf where sf: "sf \<in> set sfs" "l = GetDst sf" by auto
    have d: "distinct (map GetDst sfs)" "distinct (map GetDst ?pre)" "distinct (map GetDst ?post)"
      using m by (simp_all add: copies_ok_def distinct_map_filter)
    have other: "l \<notin> GetDst ` set (filter P sfs)" if "\<not> P sf" for P using distinct_dst [OF m] sf that by auto
    have R: "parallel_copies imm sfs \<sigma> l = read_loc imm \<sigma> (GetSrc sf)" using parallel_copies_dst [OF d(1) sf(1)] sf(2) by simp
    consider "in_post sf" | "in_pre sf" | "in_table sf" | "same_location sf" by (auto simp: in_post_def in_pre_def in_table_def)
    then show ?thesis
    proof cases
      case 1
      then show ?thesis using parallel_copies_dst [OF d(3), of sf imm \<sigma>2] sf R by (simp add: in_post_def read_loc_def)
    next
      case 2
      then have "\<not> in_post sf" "\<forall>d. l \<noteq> ToLocation r d" using sf by (auto simp: in_pre_def in_post_def)
      with 2 o [OF l] other parallel_copies_dst [OF d(2), of sf imm \<sigma>] sf R show ?thesis by (simp add: parallel_copies_other p1 \<sigma>2_def)
    next
      case 3
      note sl = in_table_slots [OF m sf(1) 3]
      have e: "srcs rc (MapLocation r (GetDst sf)) = Some (MapLocation r (GetSrc sf))" using 3 sf by (auto simp: tab table_entry_def)
      have "GetSrc sf \<notin> GetDst ` set ?pre" using slot_ok_kind [OF sl(2)] by (auto simp: in_pre_def)
      with v [OF e] have "\<sigma>2 l = \<sigma> (GetSrc sf)"
        using sf by (simp add: slot_index(1) [OF sl(1) lay] slot_index(1) [OF sl(2) lay] \<sigma>2_def p1 parallel_copies_other)
      with 3 other [of in_post] R show ?thesis by (simp add: parallel_copies_other in_post_def in_table_def read_loc_def)
    next
      case 4
      then have n: "\<not> in_pre sf" "\<not> in_post sf" "\<not> in_table sf" "l = GetSrc sf"
        using sf by (auto simp: in_pre_def in_post_def in_table_def same_location_iff)
      have "GetKind l \<noteq> IMMEDIATE" using m sf slot_ok_kind by (auto simp: copies_ok_def)
      moreover have "\<forall>d. l = ToLocation r d \<longrightarrow> srcs rc d = None" using untouched distinct_dst [OF m] sf n(3) by metis
      ultimately show ?thesis using o [OF l] other n R by (simp add: parallel_copies_other p1 \<sigma>2_def read_loc_def)
    qed
  qed
  moreover have keep1: "\<sigma>1 l = \<sigma> l" if "GetKind l \<noteq> STACK_ARGUMENT" for l
    unfolding p1 using that by (intro parallel_copies_other) (auto simp: in_pre_def)
  have "traced (resolved_move imm r sfs \<sigma>) imm out \<sigma>1"
    using tr
  proof (rule traced_mono)
    fix sf v assume "run_move rc (temps r) \<sigma>1 sf v"
    then obtain d s where d: "srcs rc d = Some s" "v = \<sigma>1 (ToLocation r s)" "sfType sf = reg_type rc d"
      "GetDst sf = ToLocation r d \<or> GetDst sf \<in> ToLocation r ` temps r" by (auto simp: run_move_def layout_cong [OF lc(1)])
    from d(1) obtain b where b: "b \<in> set sfs" "in_table b" "d = MapLocation r (GetDst b)" "s = MapLocation r (GetSrc b)"
      by (auto simp: tab table_entry_def)
    note sl = in_table_slots [OF m b(1,2)]
    have "reg_type rc d = sfType b" using c b by (auto simp: collected_def)
    moreover have "ToLocation r d = GetDst b" "ToLocation r s = GetSrc b" using slot_index(1) [OF _ lay] sl b by simp_all
    moreover have "\<sigma>1 (GetSrc b) = read_loc imm \<sigma> (GetSrc b)" using keep1 [of "GetSrc b"] slot_ok_kind [OF sl(2)] by (simp add: read_loc_def)
    ultimately show "resolved_move imm r sfs \<sigma> sf v" using d b(1,2) by (auto simp: resolved_move_def in_table_def)
  qed
  moreover have "traced (resolved_move imm r sfs \<sigma>) imm ?pre \<sigma>"
    using m slot_ok_kind by (intro pre_traced) (fastforce simp: in_pre_def copies_ok_def)+
  moreover have "traced (resolved_move imm r sfs \<sigma>) imm ?post \<sigma>2" by (rule post_traced) (auto simp: in_post_def)
  ultimately show ?thesis
    using R L'(1) p3 okr by (intro exI [of _ r'] exI [of _ "preMoves rc @ out @ postMoves rc"])
      (simp add: Resolve_def rc_def [symmetric] pp \<sigma>1_def [symmetric] \<sigma>2_def [symmetric])
qed

lemma temps_eq:
  "temps r = (case resolverReg r of Some reg \<Rightarrow> {reg}
     | None \<Rightarrow> if sfArch r = AARCH32 then {slotsTableOffset r} else {archTempVReg r + vregsTableOffset r, archTempReg r})"
proof -
  have "IsFloatType FLOAT64" "\<not> IsFloatType INT64" by (simp_all add: IsFloatType_def)
  then have "\<exists>ty. IsFloatType ty" "\<exists>ty. \<not> IsFloatType ty" by blast+
  then show ?thesis
    by (auto simp: temps_def GetResolver_def MapLocation_def IsRegister_def IsFpRegister_def IsStack_def image_iff split: option.splits)
qed

text \<open>
  C34: The walk around a cycle ends within as many steps as the table has entries: once every pending location is
  read by a pending move, \<^verbatim>\<open>CheckAndResolveCyclicDependency\<close> finds the move that reads the location it started from.
\<close>

theorem cycle_search_terminates:
  assumes "\<forall>x. src_at table x \<noteq> None \<longrightarrow> readers (src_at table) x \<noteq> {}" "src_at table n \<noteq> None"
  shows "\<exists>e. find_cycle_end (length table) table n n = Some e \<and> src_at table e = Some n"
  using find_cycle_end_exists [OF assms] find_cycle_end_src by blast

definition ex_table :: "MoveInfo list" where
  "ex_table = [\<lparr>mi_src = Some 1, mi_regType = INT64\<rparr>, \<lparr>mi_src = Some 2, mi_regType = INT64\<rparr>, \<lparr>mi_src = Some 0, mi_regType = INT64\<rparr>]"

theorem cycle_search_terminates_witness: "\<exists>e. find_cycle_end 3 ex_table 0 0 = Some e \<and> src_at ex_table e = Some 0"
proof -
  have len: "length ex_table = 3" by (simp add: ex_table_def)
  have s: "src_at ex_table 0 = Some 1" "src_at ex_table 1 = Some 2" "src_at ex_table 2 = Some 0" by (simp_all add: ex_table_def src_at_def)
  have "x = 0 \<or> x = 1 \<or> x = 2" if "src_at ex_table x \<noteq> None" for x using that len by (auto simp: src_at_def split: if_splits)
  then have "\<forall>x. src_at ex_table x \<noteq> None \<longrightarrow> readers (src_at ex_table) x \<noteq> {}" using s unfolding readers_def by blast
  from cycle_search_terminates [OF this, of 0] s(1) len show ?thesis by simp
qed

text \<open>The counters are eight bits wide: they count the readers of a location modulo 256.\<close>

lemma loadsCount_collect:
  assumes "x < length (loadsCount r)"
  shows "loadsCount (fold collect_move sfs r) ! x =
     loadsCount r ! x + of_nat (length (filter (\<lambda>sf. in_table sf \<and> MapLocation r (GetSrc sf) = x) sfs))"
  using assms
proof (induction sfs arbitrary: r)
  case Nil
  then show ?case by simp
next
  case (Cons sf sfs)
  let ?r = "collect_move sf r"
  have map: "MapLocation ?r = MapLocation r" and len: "length (loadsCount ?r) = length (loadsCount r)"
    by (auto simp: collect_move_def Let_def MapLocation_def fun_eq_iff)
  have "loadsCount ?r ! x = loadsCount r ! x + (if in_table sf \<and> MapLocation r (GetSrc sf) = x then 1 else 0)"
    using Cons.prems by (auto simp: collect_move_def in_table_def Let_def nth_list_update)
  with Cons.IH [of ?r] Cons.prems show ?case by (simp add: len map)
qed

text \<open>
  C38: When 256 moves read one location, its counter \<^verbatim>\<open>loadsCount_\<close> is zero, although all of them are still to be done: the
  first loop of \<^verbatim>\<open>Reorder\<close> then takes the location for one that nobody reads and may overwrite it.
\<close>

theorem loads_counter_wraps:
  assumes "resolver_ok r" "x < locationsCount r"
    "length (filter (\<lambda>sf. in_table sf \<and> MapLocation r (GetSrc sf) = x) sfs) = 256"
  shows "loadsCount (CollectSpillFillsData r sfs) ! x = 0"
proof -
  let ?r = "r\<lparr>movesTable := replicate (length (movesTable r)) \<lparr>mi_src = None, mi_regType = NO_TYPE\<rparr>,
          loadsCount := replicate (length (loadsCount r)) 0, preMoves := [], postMoves := []\<rparr>"
  have "MapLocation ?r = MapLocation r" by (simp add: fun_eq_iff MapLocation_def)
  then show ?thesis using assms by (simp add: CollectSpillFillsData_def loadsCount_collect resolver_ok_def)
qed

theorem loads_counter_wraps_witness:
  "loadsCount (CollectSpillFillsData (mk_resolver None 4 2 256 0 X86_64 8 3 1)
     (map (\<lambda>i. \<lparr>GetSrc = Location REGISTER 0, GetDst = Location STACK i, sfType = INT64\<rparr>) [0..<256])) ! 0 = 0"
proof -
  define r where "r = mk_resolver None 4 2 256 0 X86_64 8 3 1"
  define sfs where "sfs = map (\<lambda>i. \<lparr>GetSrc = Location REGISTER 0, GetDst = Location STACK i, sfType = INT64\<rparr>) [0..<256]"
  have t: "temps r = {5, 3}" by (simp add: temps_eq r_def mk_resolver_def)
  have ok: "resolver_ok r" by (simp add: resolver_ok_def t) (simp add: r_def mk_resolver_def wf_layout_def)
  have "MapLocation r (Location REGISTER 0) = 0" by (simp add: MapLocation_def IsRegister_def)
  then have "length (filter (\<lambda>sf. in_table sf \<and> MapLocation r (GetSrc sf) = 0) sfs) = 256"
    by (simp add: sfs_def filter_map o_def in_table_def same_location_def)
  then show ?thesis using loads_counter_wraps [OF ok, of 0 sfs] by (simp add: r_def sfs_def mk_resolver_def)
qed

end
