(* ===== verification/SpillPairs.thy ===== *)
theory SpillPairs
  imports SpillFillsSound
begin

text \<open>
  The resolver of spill-fills refines parallel moves, register pairs included.  On a 32-bit architecture a move of a 64-bit
  type copies a register and the next one, or both halves of a stack slot.  The store here gives a value to every \<open>cell\<close>, a
  register or one half of a slot.

  When \<^verbatim>\<open>NeedToResolve\<close> answers no, the marks it sets for pairs show that no cell is read after it was written.  When it answers
  yes, the resolved list is followed twice at once: on cells, and on locations whose values are the names of the locations they
  had at the start (\<open>follows\<close>).  The result is lifted to a whole pass through the locale \<open>move_pass\<close>.
\<close>

section \<open>What the moves mean\<close>

type_synonym cell = "location \<times> bool"

definition next_loc :: "location \<Rightarrow> location" where
  "next_loc l = Location (GetKind l) (GetValue l + 1)"

definition operand_cells :: "bool \<Rightarrow> location \<Rightarrow> cell list" where
  "operand_cells paired l =
     (if \<not> paired then [(l, False)]
      else if IsAnyRegister l then [(l, False), (next_loc l, False)]
      else [(l, False), (l, True)])"

definition read_cell :: "(nat \<Rightarrow> bool \<Rightarrow> 'v) \<Rightarrow> (cell \<Rightarrow> 'v) \<Rightarrow> cell \<Rightarrow> 'v" where
  "read_cell imm \<Sigma> c = (if GetKind (fst c) = IMMEDIATE then imm (GetValue (fst c)) (snd c) else \<Sigma> c)"

text \<open>The destination cells of a move with the cells they are copied from.\<close>

definition cell_moves :: "SpillFillsResolver \<Rightarrow> SpillFillData \<Rightarrow> (cell \<times> cell) list" where
  "cell_moves r sf = zip (operand_cells (sf_paired r sf) (GetDst sf)) (operand_cells (sf_paired r sf) (GetSrc sf))"

definition write_cells :: "(nat \<Rightarrow> bool \<Rightarrow> 'v) \<Rightarrow> (cell \<times> cell) list \<Rightarrow> (cell \<Rightarrow> 'v) \<Rightarrow> cell \<Rightarrow> 'v" where
  "write_cells imm ps \<Sigma> c = (case map_of ps c of Some s \<Rightarrow> read_cell imm \<Sigma> s | None \<Rightarrow> \<Sigma> c)"

definition exec_move :: "SpillFillsResolver \<Rightarrow> (nat \<Rightarrow> bool \<Rightarrow> 'v) \<Rightarrow> SpillFillData \<Rightarrow> (cell \<Rightarrow> 'v) \<Rightarrow> cell \<Rightarrow> 'v" where
  "exec_move r imm sf = write_cells imm (cell_moves r sf)"

definition exec_moves :: "SpillFillsResolver \<Rightarrow> (nat \<Rightarrow> bool \<Rightarrow> 'v) \<Rightarrow> SpillFillData list \<Rightarrow> (cell \<Rightarrow> 'v) \<Rightarrow> cell \<Rightarrow> 'v" where
  "exec_moves r imm sfs = fold (exec_move r imm) sfs"

text \<open>All moves at once: the specification the resolver has to meet.\<close>

definition parallel_moves :: "SpillFillsResolver \<Rightarrow> (nat \<Rightarrow> bool \<Rightarrow> 'v) \<Rightarrow> SpillFillData list \<Rightarrow> (cell \<Rightarrow> 'v) \<Rightarrow> cell \<Rightarrow> 'v" where
  "parallel_moves r imm sfs = write_cells imm (concat (map (cell_moves r) sfs))"

abbreviation dst_cells :: "SpillFillsResolver \<Rightarrow> SpillFillData \<Rightarrow> cell list" where
  "dst_cells r sf \<equiv> operand_cells (sf_paired r sf) (GetDst sf)"

abbreviation src_cells :: "SpillFillsResolver \<Rightarrow> SpillFillData \<Rightarrow> cell list" where
  "src_cells r sf \<equiv> operand_cells (sf_paired r sf) (GetSrc sf)"

lemma exec_moves_simps [simp]:
  "exec_moves r imm [] \<Sigma> = \<Sigma>" "exec_moves r imm (sf # sfs) \<Sigma> = exec_moves r imm sfs (exec_move r imm sf \<Sigma>)"
  by (simp_all add: exec_moves_def)

lemma length_operand_cells: "length (operand_cells p l) = (if p then 2 else 1)"
  by (simp add: operand_cells_def)

lemma distinct_operand_cells [simp]: "distinct (operand_cells p l)"
  by (cases l) (simp add: operand_cells_def next_loc_def)

lemma first_cell [simp]: "(l, False) \<in> set (operand_cells p l)"
  by (simp add: operand_cells_def)

lemma kind_cell: "c \<in> set (operand_cells p l) \<Longrightarrow> GetKind (fst c) = GetKind l"
  by (auto simp: operand_cells_def next_loc_def split: if_splits)

lemma map_fst_cell_moves [simp]: "map fst (cell_moves r sf) = dst_cells r sf"
  by (simp add: cell_moves_def length_operand_cells)

lemma write_cells_in:
  assumes "distinct (map fst ps)" "(c, s) \<in> set ps"
  shows "write_cells imm ps \<Sigma> c = read_cell imm \<Sigma> s"
  using map_of_is_SomeI [OF assms] by (simp add: write_cells_def)

lemma write_cells_out: "c \<notin> fst ` set ps \<Longrightarrow> write_cells imm ps \<Sigma> c = \<Sigma> c"
  by (simp add: write_cells_def map_of_eq_None_iff [THEN iffD2])

lemma exec_move_out: "c \<notin> set (dst_cells r sf) \<Longrightarrow> exec_move r imm sf \<Sigma> c = \<Sigma> c"
  unfolding exec_move_def by (rule write_cells_out) (metis list.set_map map_fst_cell_moves)

text \<open>What an operand holds, cell by cell.\<close>

definition operand_values :: "(nat \<Rightarrow> bool \<Rightarrow> 'v) \<Rightarrow> (cell \<Rightarrow> 'v) \<Rightarrow> bool \<Rightarrow> location \<Rightarrow> 'v list" where
  "operand_values imm \<Sigma> p l = map (read_cell imm \<Sigma>) (operand_cells p l)"

lemma exec_move_values:
  assumes "GetKind (GetDst sf) \<noteq> IMMEDIATE"
  shows "operand_values imm (exec_move r imm sf \<Sigma>) (sf_paired r sf) (GetDst sf) =
    operand_values imm \<Sigma> (sf_paired r sf) (GetSrc sf)"
proof (rule nth_equalityI)
  fix k assume "k < length (operand_values imm (exec_move r imm sf \<Sigma>) (sf_paired r sf) (GetDst sf))"
  then have k: "k < length (dst_cells r sf)" "k < length (src_cells r sf)" by (simp_all add: operand_values_def length_operand_cells)
  then have "(dst_cells r sf ! k, src_cells r sf ! k) \<in> set (cell_moves r sf)"
    by (auto simp: cell_moves_def in_set_zip)
  from write_cells_in [OF _ this, of imm \<Sigma>] have "exec_move r imm sf \<Sigma> (dst_cells r sf ! k) = read_cell imm \<Sigma> (src_cells r sf ! k)"
    by (simp add: exec_move_def)
  moreover have "GetKind (fst (dst_cells r sf ! k)) \<noteq> IMMEDIATE" using kind_cell nth_mem k(1) assms by metis
  ultimately show "operand_values imm (exec_move r imm sf \<Sigma>) (sf_paired r sf) (GetDst sf) ! k =
      operand_values imm \<Sigma> (sf_paired r sf) (GetSrc sf) ! k"
    using k by (simp add: operand_values_def read_cell_def)
qed (simp add: operand_values_def length_operand_cells)

lemma operand_values_cong:
  assumes "\<And>c. c \<in> set (operand_cells p l) \<Longrightarrow> GetKind (fst c) \<noteq> IMMEDIATE \<Longrightarrow> \<Sigma>' c = \<Sigma> c"
  shows "operand_values imm \<Sigma>' p l = operand_values imm \<Sigma> p l"
  using assms by (auto simp: operand_values_def read_cell_def)

lemma parallel_moves_in:
  assumes "distinct (concat (map (dst_cells r) sfs))" "b \<in> set sfs" "(c, s) \<in> set (cell_moves r b)"
  shows "parallel_moves r imm sfs \<Sigma> c = read_cell imm \<Sigma> s"
  unfolding parallel_moves_def
proof (rule write_cells_in)
  show "distinct (map fst (concat (map (cell_moves r) sfs)))" using assms(1) by (simp add: map_concat o_def)
  show "(c, s) \<in> set (concat (map (cell_moves r) sfs))" using assms(2,3) by auto
qed

lemma parallel_moves_out: "c \<notin> (\<Union>b \<in> set sfs. set (dst_cells r b)) \<Longrightarrow> parallel_moves r imm sfs \<Sigma> c = \<Sigma> c"
  unfolding parallel_moves_def
proof (rule write_cells_out)
  assume a: "c \<notin> (\<Union>b \<in> set sfs. set (dst_cells r b))"
  have "fst ` set (cell_moves r b) = set (dst_cells r b)" for b by (metis list.set_map map_fst_cell_moves)
  with a show "c \<notin> fst ` set (concat (map (cell_moves r) sfs))" by (auto simp: image_Union)
qed

section \<open>The moves of an instruction\<close>

definition operand_ok :: "SpillFillsResolver \<Rightarrow> bool \<Rightarrow> location \<Rightarrow> bool" where
  "operand_ok r paired l \<longleftrightarrow> slot_ok r l \<and> (paired \<and> IsAnyRegister l \<longrightarrow> slot_ok r (next_loc l))"

definition temp_cells :: "SpillFillsResolver \<Rightarrow> SpillFillData list \<Rightarrow> cell set" where
  "temp_cells r sfs = (\<Union>t \<in> temps r. \<Union>b \<in> set sfs. set (operand_cells (sf_paired r b) (ToLocation r t)))"

text \<open>
  The moves an instruction may hold: they write distinct cells, of registers and slots that exist, and use no cell of a temporary;
  fewer than 256 of them read one location.
\<close>

definition moves_wf :: "SpillFillsResolver \<Rightarrow> SpillFillData list \<Rightarrow> bool" where
  "moves_wf r sfs \<longleftrightarrow> distinct (concat (map (dst_cells r) sfs))
     \<and> (\<forall>sf \<in> set sfs. (operand_ok r (sf_paired r sf) (GetDst sf) \<or> GetKind (GetDst sf) = STACK_ARGUMENT)
          \<and> (operand_ok r (sf_paired r sf) (GetSrc sf) \<or> GetKind (GetSrc sf) = IMMEDIATE)
          \<and> set (dst_cells r sf) \<inter> temp_cells r sfs = {} \<and> set (src_cells r sf) \<inter> temp_cells r sfs = {})
     \<and> (\<forall>t \<in> temps r. \<forall>t' \<in> temps r. \<forall>a \<in> set sfs. \<forall>b \<in> set sfs. t \<noteq> t' \<longrightarrow>
          set (operand_cells (sf_paired r a) (ToLocation r t)) \<inter> set (operand_cells (sf_paired r b) (ToLocation r t')) = {})
     \<and> (\<forall>sf \<in> set sfs. length (filter (\<lambda>sf'. GetSrc sf' = GetSrc sf) sfs) < 256)"

text \<open>
  The table of the resolver has one entry per location and knows nothing of pairs.  Moves that are reordered must therefore
  overlap in whole operands only, and the moves from one location must agree whether it is a pair.
\<close>

definition aligned :: "SpillFillsResolver \<Rightarrow> SpillFillData list \<Rightarrow> bool" where
  "aligned r sfs \<longleftrightarrow>
     (\<forall>a \<in> set sfs. \<forall>b \<in> set sfs. set (dst_cells r a) \<inter> set (src_cells r b) \<noteq> {} \<longrightarrow> GetDst a = GetSrc b)
     \<and> (\<forall>a \<in> set sfs. \<forall>b \<in> set sfs. GetKind (GetSrc a) \<noteq> IMMEDIATE \<longrightarrow> GetSrc a = GetSrc b \<longrightarrow> sf_paired r a = sf_paired r b)"

definition moves_ok :: "SpillFillsResolver \<Rightarrow> SpillFillData list \<Rightarrow> bool" where
  "moves_ok r sfs \<longleftrightarrow> moves_wf r sfs \<and> (snd (NeedToResolve r sfs) \<longrightarrow> aligned r sfs)"

lemma dst_not_immediate: "moves_wf r sfs \<Longrightarrow> b \<in> set sfs \<Longrightarrow> GetKind (GetDst b) \<noteq> IMMEDIATE"
  using slot_ok_kind by (auto simp: moves_wf_def operand_ok_def)

lemma dst_disjoint:
  assumes "distinct (concat (map (dst_cells r) sfs))" "a \<in> set sfs" "b \<in> set sfs" "GetDst a \<noteq> GetDst b"
  shows "set (dst_cells r a) \<inter> set (dst_cells r b) = {}"
  using assms
proof (induction sfs)
  case (Cons c sfs)
  then show ?case by (auto simp: set_concat disjoint_iff)
qed simp

lemma distinct_dsts: "distinct (concat (map (dst_cells r) sfs)) \<Longrightarrow> distinct (map GetDst sfs)"
proof (induction sfs)
  case (Cons c sfs)
  have "GetDst c \<noteq> GetDst b" if "b \<in> set sfs" for b
  proof
    assume "GetDst c = GetDst b"
    then have "(GetDst b, False) \<in> set (dst_cells r c)" "(GetDst b, False) \<in> (\<Union>x \<in> set sfs. set (dst_cells r x))"
      using that first_cell by (metis, blast)
    with Cons.prems show False by auto
  qed
  with Cons show ?case by auto
qed simp

lemma temp_in_cells: "b \<in> set sfs \<Longrightarrow> l \<in> ToLocation r ` temps r \<Longrightarrow> set (operand_cells (sf_paired r b) l) \<subseteq> temp_cells r sfs"
  by (auto simp: temp_cells_def)

lemma moves_wf_copies:
  assumes "moves_wf r sfs"
  shows "copies_ok r sfs"
proof -
  have w: "distinct (map GetDst sfs)" "\<And>sf. sf \<in> set sfs \<Longrightarrow> slot_ok r (GetDst sf) \<or> GetKind (GetDst sf) = STACK_ARGUMENT"
    "\<And>sf. sf \<in> set sfs \<Longrightarrow> slot_ok r (GetSrc sf) \<or> GetKind (GetSrc sf) = IMMEDIATE"
    "\<And>sf. sf \<in> set sfs \<Longrightarrow> set (dst_cells r sf) \<inter> temp_cells r sfs = {} \<and> set (src_cells r sf) \<inter> temp_cells r sfs = {}"
    "\<forall>sf \<in> set sfs. length (filter (\<lambda>sf'. GetSrc sf' = GetSrc sf) sfs) < 256"
    using assms distinct_dsts [of r sfs] by (auto simp: moves_wf_def operand_ok_def)
  have "GetDst sf \<notin> ToLocation r ` temps r \<and> GetSrc sf \<notin> ToLocation r ` temps r" if "sf \<in> set sfs" for sf
    using w(4) [OF that] temp_in_cells [OF that, of "GetDst sf" r] temp_in_cells [OF that, of "GetSrc sf" r]
      first_cell [of "GetDst sf" "sf_paired r sf"] first_cell [of "GetSrc sf" "sf_paired r sf"] by blast
  with w show ?thesis unfolding copies_ok_def by blast
qed

section \<open>Moves that need no reordering\<close>

definition before_cells :: "SpillFillsResolver \<Rightarrow> SpillFillData \<Rightarrow> SpillFillData \<Rightarrow> bool" where
  "before_cells r a b \<longleftrightarrow> same_location a \<or> same_location b \<or> set (dst_cells r a) \<inter> set (src_cells r b) = {}"

lemma exec_move_same:
  assumes "same_location a" "GetKind (GetDst a) \<noteq> IMMEDIATE"
  shows "exec_move r imm a \<Sigma> = \<Sigma>"
proof (rule ext)
  fix c
  show "exec_move r imm a \<Sigma> c = \<Sigma> c"
  proof (cases "c \<in> set (dst_cells r a)")
    case True
    then have "(c, c) \<in> set (cell_moves r a)" using assms(1) by (auto simp: cell_moves_def same_location_iff in_set_zip in_set_conv_nth)
    from write_cells_in [OF _ this] True kind_cell [OF True] assms(2) show ?thesis by (simp add: exec_move_def read_cell_def)
  qed (rule exec_move_out)
qed

lemma exec_moves_ordered:
  assumes "distinct (concat (map (dst_cells r) sfs))" "sorted_wrt (before_cells r) sfs"
    "\<forall>sf \<in> set sfs. GetKind (GetDst sf) \<noteq> IMMEDIATE"
  shows "exec_moves r imm sfs \<Sigma> = parallel_moves r imm sfs \<Sigma>"
  using assms
proof (induction sfs arbitrary: \<Sigma>)
  case Nil
  then show ?case by (simp add: fun_eq_iff parallel_moves_out)
next
  case (Cons a sfs)
  let ?\<Sigma> = "exec_move r imm a \<Sigma>"
  have "parallel_moves r imm sfs ?\<Sigma> c = parallel_moves r imm (a # sfs) \<Sigma> c" for c
  proof (cases "c \<in> (\<Union>b \<in> set sfs. set (dst_cells r b))")
    case True
    then obtain b where b: "b \<in> set sfs" "c \<in> set (dst_cells r b)" by auto
    have "c \<in> fst ` set (cell_moves r b)" using b(2) by (metis list.set_map map_fst_cell_moves)
    then obtain s where cs: "(c, s) \<in> set (cell_moves r b)" by auto
    then have s: "s \<in> set (src_cells r b)" by (auto simp: cell_moves_def dest: set_zip_rightD)
    have ds: "set (dst_cells r a) \<inter> set (dst_cells r b) = {}" using Cons.prems(1) b(1) by auto
    have "read_cell imm ?\<Sigma> s = read_cell imm \<Sigma> s"
    proof (cases "same_location a")
      case True
      then show ?thesis using Cons.prems(3) by (simp add: exec_move_same)
    next
      case False
      then have "same_location b \<or> set (dst_cells r a) \<inter> set (src_cells r b) = {}"
        using Cons.prems(2) b(1) by (auto simp: before_cells_def)
      then have "s \<notin> set (dst_cells r a)" using s ds by (auto simp: same_location_iff)
      then show ?thesis by (simp add: read_cell_def exec_move_out)
    qed
    moreover have "parallel_moves r imm sfs ?\<Sigma> c = read_cell imm ?\<Sigma> s"
      using Cons.prems(1) by (intro parallel_moves_in [OF _ b(1) cs]) simp
    moreover have "parallel_moves r imm (a # sfs) \<Sigma> c = read_cell imm \<Sigma> s"
      by (rule parallel_moves_in [OF Cons.prems(1) _ cs]) (simp add: b(1))
    ultimately show ?thesis by simp
  next
    case False
    show ?thesis
    proof (cases "c \<in> set (dst_cells r a)")
      case True
      then have "c \<in> fst ` set (cell_moves r a)" by (metis list.set_map map_fst_cell_moves)
      then obtain s where cs: "(c, s) \<in> set (cell_moves r a)" by auto
      have "parallel_moves r imm (a # sfs) \<Sigma> c = read_cell imm \<Sigma> s"
        by (rule parallel_moves_in [OF Cons.prems(1) _ cs]) simp
      moreover have "?\<Sigma> c = read_cell imm \<Sigma> s" unfolding exec_move_def by (rule write_cells_in [OF _ cs]) simp
      ultimately show ?thesis using parallel_moves_out [OF False, of imm ?\<Sigma>] by simp
    qed (use False in \<open>simp add: parallel_moves_out exec_move_out\<close>)
  qed
  then have "parallel_moves r imm sfs ?\<Sigma> = parallel_moves r imm (a # sfs) \<Sigma>" by (rule ext)
  then show ?case using Cons by simp
qed

text \<open>\<^verbatim>\<open>NeedToResolve\<close> answers no only if no source has been written before it is read.\<close>

definition marked :: "SpillFillsResolver \<Rightarrow> location \<Rightarrow> bool" where
  "marked r l \<longleftrightarrow>
     (IsAnyRegister l \<longrightarrow> regWrite r ! reg_index l (vregsTableOffset r))
     \<and> (GetKind l = STACK \<or> GetKind l = STACK_PARAMETER \<longrightarrow>
          stackWrite r ! stack_index l (parameterSlotsOffset r - slotsTableOffset r))"

definition operand_locs :: "bool \<Rightarrow> location \<Rightarrow> location set" where
  "operand_locs paired l = (if paired \<and> IsAnyRegister l then {l, next_loc l} else {l})"

lemma operand_locs_cells: "fst ` set (operand_cells p l) = operand_locs p l"
  by (auto simp: operand_locs_def operand_cells_def)

lemma nth_mark: "j < length xs \<Longrightarrow> xs ! j \<or> i = j \<Longrightarrow> xs[i := True] ! j"
  by (cases "i = j") auto

lemmas kind_defs = IsAnyRegister_def IsRegister_def IsFpRegister_def IsStack_def IsStackParameter_def

lemma next_loc_simps [simp]:
  "GetKind (next_loc l) = GetKind l" "IsAnyRegister (next_loc l) = IsAnyRegister l"
  "reg_index (next_loc l) offset = reg_index l offset + 1"
  by (simp_all add: next_loc_def kind_defs reg_index_def)

lemma slot_indices:
  assumes "slot_ok r l" "resolver_ok r"
  shows "IsAnyRegister l \<Longrightarrow> reg_index l (vregsTableOffset r) < length (regWrite r)"
    "GetKind l = STACK \<or> GetKind l = STACK_PARAMETER \<Longrightarrow>
       stack_index l (parameterSlotsOffset r - slotsTableOffset r) < length (stackWrite r)"
  using assms by (auto simp: slot_ok_def resolver_ok_def wf_layout_def reg_index_def stack_index_def kind_defs)

lemma mark_layout [simp]:
  "layout (mark_reg r sf) = layout r" "layout (mark_stack r sf) = layout r"
  "sf_paired (mark_reg r sf) = sf_paired r" "sf_paired (mark_stack r sf) = sf_paired r"
  by (simp_all add: mark_reg_def mark_stack_def layout_def sf_paired_def fun_eq_iff)

lemma resolver_ok_mark:
  assumes "resolver_ok r"
  shows "resolver_ok (mark_reg r sf)" "resolver_ok (mark_stack r sf)"
  using assms layout_cong(2,4) [of "mark_reg r sf" r] layout_cong(2,4) [of "mark_stack r sf" r]
  by (simp_all add: resolver_ok_def) (simp_all add: mark_reg_def mark_stack_def MarkRegWrite_def MarkStackWrite_def Let_def)

lemma marked_reg:
  assumes "slot_ok r l" "resolver_ok r" "marked r l \<or> IsAnyRegister l \<and> l \<in> operand_locs (sf_paired r sf) (GetDst sf)"
  shows "marked (mark_reg r sf) l"
  using slot_indices [OF assms(1,2)] assms(3)
  by (auto simp: marked_def mark_reg_def MarkRegWrite_def Let_def operand_locs_def kind_defs split: if_splits intro!: nth_mark)

lemma marked_stack:
  assumes "slot_ok r l" "resolver_ok r" "marked r l \<or> \<not> IsAnyRegister l \<and> l = GetDst sf"
  shows "marked (mark_stack r sf) l"
  using slot_indices [OF assms(1,2)] assms(3)
  by (auto simp: marked_def mark_stack_def MarkStackWrite_def kind_defs intro!: nth_mark)

lemma marked_conflict:
  assumes "slot_ok r l" "marked r l" "l \<in> operand_locs (sf_paired r sf) (GetSrc sf)"
  shows "reg_conflict r sf \<or> stack_conflict r sf"
proof (cases "IsAnyRegister l")
  case True
  then have "IsAnyRegister (GetSrc sf)" using assms(3) by (auto simp: operand_locs_def split: if_splits)
  then show ?thesis using assms True
    by (auto simp: marked_def reg_conflict_def IsRegWrite_def operand_locs_def Let_def split: if_splits)
next
  case False
  then have "l = GetSrc sf" using assms(3) by (auto simp: operand_locs_def split: if_splits)
  with False assms show ?thesis
    by (auto simp: slot_ok_def marked_def stack_conflict_def IsStackWrite_def kind_defs split: LocationKind.splits)
qed

lemma reg_conflict_mark_stack [simp]: "reg_conflict (mark_stack r sf) sf' = reg_conflict r sf'"
  by (simp add: reg_conflict_def mark_stack_def sf_paired_def)

definition operands_ok :: "SpillFillsResolver \<Rightarrow> SpillFillData \<Rightarrow> bool" where
  "operands_ok r sf \<longleftrightarrow> operand_ok r (sf_paired r sf) (GetSrc sf) \<or> GetKind (GetSrc sf) = IMMEDIATE"

lemma src_slot:
  assumes "operands_ok r sf" "l \<in> operand_locs (sf_paired r sf) (GetSrc sf)"
  shows "slot_ok r l \<or> GetKind l = IMMEDIATE"
  using assms by (auto simp: operands_ok_def operand_ok_def operand_locs_def split: if_splits)

text \<open>\<open>W\<close> are the locations written so far.\<close>

definition unwritten :: "SpillFillsResolver \<Rightarrow> location set \<Rightarrow> SpillFillData \<Rightarrow> bool" where
  "unwritten r W sf \<longleftrightarrow> same_location sf \<or> (\<forall>l \<in> operand_locs (sf_paired r sf) (GetSrc sf). GetKind l = IMMEDIATE \<or> l \<notin> W)"

lemma NeedToResolve_loop_False:
  assumes "NeedToResolve_loop r sfs = (r', False)" "resolver_ok r" "\<forall>l \<in> W. slot_ok r l \<longrightarrow> marked r l"
    "\<forall>sf \<in> set sfs. operands_ok r sf"
  shows "(\<forall>sf \<in> set sfs. unwritten r W sf) \<and>
    sorted_wrt (\<lambda>a b. same_location a \<or> unwritten r (operand_locs (sf_paired r a) (GetDst a)) b) sfs"
  using assms
proof (induction r sfs arbitrary: W rule: NeedToResolve_loop.induct)
  case (1 r)
  then show ?case by simp
next
  case (2 r sf sfs)
  show ?case
  proof (cases "same_location sf")
    case True
    with 2 show ?thesis by (auto simp: unwritten_def)
  next
    case False
    define r1 r2 where "r1 = mark_reg r sf" and "r2 = mark_stack r1 sf"
    let ?D = "operand_locs (sf_paired r sf) (GetDst sf)"
    have step: "NeedToResolve_loop r2 sfs = (r', False)" and noc: "\<not> reg_conflict r1 sf" "\<not> stack_conflict r2 sf"
      using 2(3) False by (auto simp: Let_def r1_def r2_def split: if_splits)
    have ok: "resolver_ok r1" "resolver_ok r2" using 2(4) resolver_ok_mark by (simp_all add: r1_def r2_def)
    have sl: "slot_ok r1 = slot_ok r" "slot_ok r2 = slot_ok r" and pr: "sf_paired r1 = sf_paired r" "sf_paired r2 = sf_paired r"
      using layout_cong(3) [of r1 r] layout_cong(3) [of r2 r1] by (simp_all add: r1_def r2_def)
    have oo: "operands_ok r2 = operands_ok r" "unwritten r2 = unwritten r"
      by (simp_all add: operands_ok_def operand_ok_def unwritten_def sl pr fun_eq_iff)
    have m: "marked r2 l" if "l \<in> ?D \<union> W" "slot_ok r l" for l
    proof (cases "marked r l \<or> IsAnyRegister l")
      case True
      then have "marked r1 l" using marked_reg [OF that(2) 2(4), of sf] 2(5) that by (auto simp: r1_def)
      then show ?thesis using marked_stack [OF _ ok(1), of l sf] that by (simp add: r2_def sl)
    next
      case no: False
      then have "l = GetDst sf" using that 2(5) by (auto simp: operand_locs_def split: if_splits)
      then show ?thesis using marked_stack [OF _ ok(1), of l sf] that no by (auto simp: r2_def sl)
    qed
    have "GetKind l = IMMEDIATE \<or> l \<notin> W" if "l \<in> operand_locs (sf_paired r sf) (GetSrc sf)" for l
    proof (rule ccontr)
      assume n: "\<not> (GetKind l = IMMEDIATE \<or> l \<notin> W)"
      then have "slot_ok r l" using src_slot [of r sf l] 2(6) that by auto
      moreover have "reg_conflict r2 sf = reg_conflict r1 sf" by (simp add: r2_def)
      ultimately show False using n m [of l] marked_conflict [of r2 l sf] that noc by (auto simp: sl pr)
    qed
    then have "unwritten r W sf" by (auto simp: unwritten_def)
    moreover have "(\<forall>sf' \<in> set sfs. unwritten r2 (?D \<union> W) sf')
        \<and> sorted_wrt (\<lambda>a b. same_location a \<or> unwritten r2 (operand_locs (sf_paired r2 a) (GetDst a)) b) sfs"
    proof (rule 2(2) [OF False refl, folded r1_def])
      show "\<not> reg_conflict r1 sf" by (rule noc)
      show "r2 = mark_stack r1 sf" by (simp add: r2_def)
      show "\<not> stack_conflict r2 sf" by (rule noc)
      show "NeedToResolve_loop r2 sfs = (r', False)" "resolver_ok r2" by (fact step ok)+
      show "\<forall>l \<in> ?D \<union> W. slot_ok r2 l \<longrightarrow> marked r2 l" using m by (simp add: sl)
      show "\<forall>sf \<in> set sfs. operands_ok r2 sf" using 2(6) by (simp add: oo)
    qed
    ultimately show ?thesis by (auto simp: oo pr unwritten_def [of r])
  qed
qed

lemma NeedToResolve_loop_layout:
  "layout (fst (NeedToResolve_loop r sfs)) = layout r \<and> sf_paired (fst (NeedToResolve_loop r sfs)) = sf_paired r"
  by (induction r sfs rule: NeedToResolve_loop.induct) (auto simp: Let_def)

lemma NeedToResolve_loop_ok: "resolver_ok r \<Longrightarrow> resolver_ok (fst (NeedToResolve_loop r sfs))"
  by (induction r sfs rule: NeedToResolve_loop.induct) (auto simp: Let_def resolver_ok_mark)

lemma NeedToResolve_ok:
  assumes "resolver_ok r" "NeedToResolve r sfs = (r', need)"
  shows "layout r' = layout r" "resolver_ok r'" "sf_paired r' = sf_paired r"
proof -
  let ?r = "r\<lparr>regWrite := replicate (length (regWrite r)) False, stackWrite := replicate (length (stackWrite r)) False\<rparr>"
  have lr: "layout ?r = layout r" "sf_paired ?r = sf_paired r" by (simp_all add: layout_def sf_paired_def fun_eq_iff)
  have okr: "resolver_ok ?r" using assms(1) layout_cong [OF lr(1)] by (simp add: resolver_ok_def)
  show "layout r' = layout r" "resolver_ok r'" "sf_paired r' = sf_paired r"
    using assms NeedToResolve_loop_layout [of ?r sfs] NeedToResolve_loop_ok [OF okr, of sfs] lr
    by (auto simp: NeedToResolve_def split: if_splits)
qed

lemma no_conflict_ordered:
  assumes ok: "resolver_ok r" and m: "moves_wf r sfs" and n: "NeedToResolve r sfs = (r', False)"
  shows "exec_moves r imm sfs \<Sigma> = parallel_moves r imm sfs \<Sigma>"
proof (rule exec_moves_ordered)
  let ?r = "r\<lparr>regWrite := replicate (length (regWrite r)) False, stackWrite := replicate (length (stackWrite r)) False\<rparr>"
  have lr: "layout ?r = layout r" and pr: "sf_paired ?r = sf_paired r" by (simp_all add: layout_def sf_paired_def fun_eq_iff)
  have okr: "resolver_ok ?r" using ok layout_cong [OF lr] by (simp add: resolver_ok_def)
  have src: "\<forall>sf \<in> set sfs. operands_ok ?r sf"
    using m layout_cong(3) [OF lr] pr by (simp add: moves_wf_def operands_ok_def operand_ok_def)
  show d: "\<forall>sf \<in> set sfs. GetKind (GetDst sf) \<noteq> IMMEDIATE" using dst_not_immediate [OF m] by blast
  have before: "before_cells r a b"
    if ab: "a \<in> set sfs" "same_location a \<or> unwritten ?r (operand_locs (sf_paired ?r a) (GetDst a)) b" for a b
  proof (cases "same_location a \<or> same_location b")
    case False
    have "c \<notin> set (src_cells r b)" if c: "c \<in> set (dst_cells r a)" for c
    proof
      assume "c \<in> set (src_cells r b)"
      then have "fst c \<in> operand_locs (sf_paired r b) (GetSrc b)" "fst c \<in> operand_locs (sf_paired r a) (GetDst a)"
        using c operand_locs_cells by blast+
      with ab(2) False have "GetKind (fst c) = IMMEDIATE" by (auto simp: unwritten_def pr)
      with kind_cell [OF c] d ab(1) show False by auto
    qed
    then show ?thesis by (auto simp: before_cells_def)
  qed (auto simp: before_cells_def)
  show "sorted_wrt (before_cells r) sfs"
  proof (cases "length sfs < 2")
    case True
    then show ?thesis by (cases sfs; cases "tl sfs") auto
  next
    case False
    with n have "NeedToResolve_loop ?r sfs = (r', False)" by (simp add: NeedToResolve_def)
    from NeedToResolve_loop_False [OF this okr _ src, of "{}"]
    have "sorted_wrt (\<lambda>a b. same_location a \<or> unwritten ?r (operand_locs (sf_paired ?r a) (GetDst a)) b) sfs" by simp
    then show ?thesis unfolding sorted_wrt_iff_nth_less using before by simp
  qed
  show "distinct (concat (map (dst_cells r) sfs))" using m by (simp add: moves_wf_def)
qed

section \<open>Moves that are reordered\<close>

text \<open>
  \<open>\<tau>\<close> is a store of locations whose values are names: the location a value was in at the start, or the immediate it is.
\<close>

abbreviation named_imm :: "nat \<Rightarrow> location" where
  "named_imm \<equiv> Location IMMEDIATE"

lemma read_named: "read_loc named_imm (\<lambda>l. l) l = l"
  by (cases l) (simp add: read_loc_def)

text \<open>A location holds, as an operand, what the location it is named after held in \<open>\<Sigma>0\<close>.\<close>

definition holds ::
    "(nat \<Rightarrow> bool \<Rightarrow> 'v) \<Rightarrow> (cell \<Rightarrow> 'v) \<Rightarrow> (cell \<Rightarrow> 'v) \<Rightarrow> (location \<Rightarrow> location) \<Rightarrow> bool \<Rightarrow> location \<Rightarrow> bool" where
  "holds imm \<Sigma>0 \<Sigma> \<tau> p l \<longleftrightarrow> operand_values imm \<Sigma> p l = operand_values imm \<Sigma>0 p (read_loc named_imm \<tau> l)"

text \<open>The operands to follow: those of the moves, and the temporaries.\<close>

definition operands :: "SpillFillsResolver \<Rightarrow> SpillFillData list \<Rightarrow> (bool \<times> location) set" where
  "operands r sfs = (\<Union>b \<in> set sfs. {sf_paired r b} \<times> ({GetSrc b, GetDst b} \<union> ToLocation r ` temps r))"

text \<open>\<open>P\<close> tells for each location written so far whether it was last written as a pair.\<close>

definition follows ::
    "(nat \<Rightarrow> bool \<Rightarrow> 'v) \<Rightarrow> (cell \<Rightarrow> 'v) \<Rightarrow> SpillFillsResolver \<Rightarrow> SpillFillData list
       \<Rightarrow> (location \<Rightarrow> bool option) \<Rightarrow> (cell \<Rightarrow> 'v) \<Rightarrow> (location \<Rightarrow> location) \<Rightarrow> bool" where
  "follows imm \<Sigma>0 r sfs P \<Sigma> \<tau> \<longleftrightarrow>
     (\<forall>l. P l = None \<longrightarrow> \<tau> l = l)
     \<and> (\<forall>l q. P l = Some q \<longrightarrow> (\<exists>b \<in> set sfs. \<tau> l = GetSrc b \<and> sf_paired r b = q \<and> (l = GetDst b \<or> l \<in> ToLocation r ` temps r)))
     \<and> (\<forall>(p, l) \<in> operands r sfs. P l = None \<or> P l = Some p \<longrightarrow> holds imm \<Sigma>0 \<Sigma> \<tau> p l)
     \<and> (\<forall>c. c \<notin> temp_cells r sfs \<union> (\<Union>b \<in> set sfs. set (dst_cells r b)) \<longrightarrow> \<Sigma> c = \<Sigma>0 c)"

lemmas followsD =
  follows_def [THEN iffD1, THEN conjunct1, rule_format]
  follows_def [THEN iffD1, THEN conjunct2, THEN conjunct1, rule_format]
  follows_def [THEN iffD1, THEN conjunct2, THEN conjunct2, THEN conjunct1]
  follows_def [THEN iffD1, THEN conjunct2, THEN conjunct2, THEN conjunct2, rule_format]

lemma follows_init: "follows imm \<Sigma> r sfs (\<lambda>_. None) \<Sigma> (\<lambda>l. l)"
  by (auto simp: follows_def holds_def read_named)

text \<open>The cells of two operands do not meet, unless they are the same.\<close>

lemma written_apart:
  assumes m: "moves_wf r sfs" and al: "aligned r sfs" and b: "b \<in> set sfs" and d: "d = GetDst b \<or> d \<in> ToLocation r ` temps r"
    and o: "(p, l) \<in> operands r sfs" and ne: "l \<noteq> d"
  shows "set (operand_cells p l) \<inter> set (operand_cells (sf_paired r b) d) = {}"
proof -
  from o obtain a where a: "a \<in> set sfs" "p = sf_paired r a" "l = GetSrc a \<or> l = GetDst a \<or> l \<in> ToLocation r ` temps r"
    by (auto simp: operands_def)
  have w: "set (dst_cells r x) \<inter> temp_cells r sfs = {}" "set (src_cells r x) \<inter> temp_cells r sfs = {}" if "x \<in> set sfs" for x
    using m that by (auto simp: moves_wf_def)
  have apart: "set (operand_cells (sf_paired r a) (ToLocation r t)) \<inter> set (operand_cells (sf_paired r b) (ToLocation r t')) = {}"
    if "t \<in> temps r" "t' \<in> temps r" "t \<noteq> t'" for t t'
    using m that a(1) b unfolding moves_wf_def by blast
  show ?thesis
  proof (cases "d \<in> ToLocation r ` temps r")
    case True
    then have dt: "set (operand_cells (sf_paired r b) d) \<subseteq> temp_cells r sfs" by (rule temp_in_cells [OF b])
    show ?thesis
    proof (cases "l \<in> ToLocation r ` temps r")
      case lt: True
      with True apart ne show ?thesis unfolding a(2) by blast
    next
      case False
      with a dt w [OF a(1)] show ?thesis by auto
    qed
  next
    case False
    then have db: "d = GetDst b" using d by simp
    show ?thesis
    proof (cases "l \<in> ToLocation r ` temps r")
      case True
      then have "set (operand_cells p l) \<subseteq> temp_cells r sfs" unfolding a(2) by (rule temp_in_cells [OF a(1)])
      with w(1) [OF b] show ?thesis unfolding db by blast
    next
      case no: False
      then have "l = GetSrc a \<or> l = GetDst a" using a(3) by blast
      then show ?thesis
      proof
        assume l: "l = GetDst a"
        with dst_disjoint [of r sfs a b] m a b ne db show ?thesis by (auto simp: moves_wf_def)
      next
        assume l: "l = GetSrc a"
        have "set (dst_cells r b) \<inter> set (src_cells r a) \<noteq> {} \<Longrightarrow> GetDst b = GetSrc a"
          using al a(1) b by (simp add: aligned_def)
        with l ne db have "set (dst_cells r b) \<inter> set (src_cells r a) = {}" by auto
        then show ?thesis unfolding a(2) l db by blast
      qed
    qed
  qed
qed

text \<open>The operand a resolved move reads holds what it is named after.\<close>

lemma source_holds:
  assumes f: "follows imm \<Sigma>0 r sfs P \<Sigma> \<tau>" and al: "aligned r sfs" and b: "b \<in> set sfs"
    and v: "read_loc named_imm \<tau> l = GetSrc b" and i: "GetKind (GetSrc b) = IMMEDIATE \<Longrightarrow> l = GetSrc b"
  shows "holds imm \<Sigma>0 \<Sigma> \<tau> (sf_paired r b) l"
proof (cases "GetKind l = IMMEDIATE")
  case True
  then have "read_loc named_imm \<tau> l = l" by (cases l) (simp add: read_loc_def)
  then show ?thesis using True kind_cell by (auto simp: holds_def intro!: operand_values_cong)
next
  case False
  then have t: "\<tau> l = GetSrc b" and ni: "GetKind (GetSrc b) \<noteq> IMMEDIATE" using v i by (auto simp: read_loc_def)
  have h: "holds imm \<Sigma>0 \<Sigma> \<tau> p l" if "(p, l) \<in> operands r sfs" "P l = None \<or> P l = Some p" for p
    using followsD(3) [OF f] that by blast
  show ?thesis
  proof (cases "P l")
    case None
    then have "l = GetSrc b" using followsD(1) [OF f None] t by simp
    then show ?thesis using None b by (intro h) (auto simp: operands_def)
  next
    case (Some q)
    from followsD(2) [OF f this] obtain a where a: "a \<in> set sfs" "\<tau> l = GetSrc a" "sf_paired r a = q"
      "l = GetDst a \<or> l \<in> ToLocation r ` temps r" by blast
    have "q = sf_paired r b" using al a(1-3) b t ni unfolding aligned_def by (metis (no_types))
    then show ?thesis using Some a b by (intro h) (auto simp: operands_def)
  qed
qed

lemma follows_step:
  assumes m: "moves_wf r sfs" and al: "aligned r sfs" and f: "follows imm \<Sigma>0 r sfs P \<Sigma> \<tau>"
    and s: "resolved_move named_imm r sfs (\<lambda>l. l) sf (read_loc named_imm \<tau> (GetSrc sf))"
  shows "follows imm \<Sigma>0 r sfs (P(GetDst sf := Some (sf_paired r sf))) (exec_move r imm sf \<Sigma>) (copy_move named_imm sf \<tau>)"
proof -
  from s obtain b where b: "b \<in> set sfs" "read_loc named_imm \<tau> (GetSrc sf) = GetSrc b" "sfType sf = sfType b"
    "GetKind (GetSrc b) = IMMEDIATE \<longrightarrow> GetSrc sf = GetSrc b" and d: "GetDst sf = GetDst b \<or> GetDst sf \<in> ToLocation r ` temps r"
    by (auto simp: resolved_move_def read_named)
  let ?d = "GetDst sf" and ?p = "sf_paired r sf"
  have p: "?p = sf_paired r b" using b(3) by (simp add: sf_paired_def)
  have di: "GetKind ?d \<noteq> IMMEDIATE" using d dst_not_immediate [OF m b(1)] by auto
  have src: "operand_values imm \<Sigma> ?p (GetSrc sf) = operand_values imm \<Sigma>0 ?p (GetSrc b)"
    using source_holds [OF f al b(1,2)] b(2,4) unfolding p holds_def by simp
  let ?\<tau> = "copy_move named_imm sf \<tau>" and ?\<Sigma> = "exec_move r imm sf \<Sigma>"
  have td: "?\<tau> ?d = GetSrc b" "\<And>l. l \<noteq> ?d \<Longrightarrow> ?\<tau> l = \<tau> l" by (simp_all add: copy_move_def b(2))
  have new: "holds imm \<Sigma>0 ?\<Sigma> ?\<tau> ?p ?d"
    using exec_move_values [OF di, of imm r \<Sigma>] src td(1) di by (simp add: holds_def read_loc_def)
  have old: "holds imm \<Sigma>0 ?\<Sigma> ?\<tau> q l" if o: "(q, l) \<in> operands r sfs" "l \<noteq> ?d" "holds imm \<Sigma>0 \<Sigma> \<tau> q l" for q l
  proof -
    have "set (operand_cells q l) \<inter> set (dst_cells r sf) = {}" using written_apart [OF m al b(1) d o(1,2)] by (simp add: p)
    then have "operand_values imm ?\<Sigma> q l = operand_values imm \<Sigma> q l" by (intro operand_values_cong exec_move_out) blast
    then show ?thesis using o(2,3) td(2) by (simp add: holds_def read_loc_def)
  qed
  have cells: "set (dst_cells r sf) \<subseteq> temp_cells r sfs \<union> (\<Union>b \<in> set sfs. set (dst_cells r b))"
    using d temp_in_cells [OF b(1), of ?d r] b(1) by (auto simp: p)
  show ?thesis
    unfolding follows_def
  proof (intro conjI allI impI ballI)
    show "?\<tau> l = l" if "(P(?d := Some ?p)) l = None" for l using that followsD(1) [OF f, of l] td(2) [of l] by (auto split: if_splits)
    show "\<exists>b \<in> set sfs. ?\<tau> l = GetSrc b \<and> sf_paired r b = q \<and> (l = GetDst b \<or> l \<in> ToLocation r ` temps r)"
      if "(P(?d := Some ?p)) l = Some q" for l q
    proof (cases "l = ?d")
      case True
      then show ?thesis using that b(1) d p td(1) by auto
    next
      case False
      then show ?thesis using that followsD(2) [OF f, of l q] td(2) [of l] by auto
    qed
    show "case x of (q, l) \<Rightarrow> (P(?d := Some ?p)) l = None \<or> (P(?d := Some ?p)) l = Some q \<longrightarrow> holds imm \<Sigma>0 ?\<Sigma> ?\<tau> q l"
      if "x \<in> operands r sfs" for x
      using that new old followsD(3) [OF f] by (cases x) (auto split: if_splits)
    show "?\<Sigma> c = \<Sigma>0 c" if "c \<notin> temp_cells r sfs \<union> (\<Union>b \<in> set sfs. set (dst_cells r b))" for c
      using that cells followsD(4) [OF f that] exec_move_out [of c r sf imm \<Sigma>] by auto
  qed
qed

lemma follows_run:
  assumes m: "moves_wf r sfs" and al: "aligned r sfs"
  shows "follows imm \<Sigma>0 r sfs P \<Sigma> \<tau> \<Longrightarrow> traced (resolved_move named_imm r sfs (\<lambda>l. l)) named_imm out \<tau> \<Longrightarrow>
    \<exists>P'. follows imm \<Sigma>0 r sfs P' (exec_moves r imm out \<Sigma>) (copy_moves named_imm out \<tau>)"
proof (induction out arbitrary: P \<Sigma> \<tau>)
  case (Cons sf out)
  from follows_step [OF m al Cons.prems(1)] Cons.prems(2)
  have "follows imm \<Sigma>0 r sfs (P(GetDst sf := Some (sf_paired r sf))) (exec_move r imm sf \<Sigma>) (copy_move named_imm sf \<tau>)" by simp
  from Cons.IH [OF this] Cons.prems(2) show ?case by simp
qed auto

lemma Resolve_cells:
  assumes ok: "resolver_ok r" and m: "moves_wf r sfs" and al: "aligned r sfs"
  shows "\<exists>r' out. Resolve r sfs = Some (r', out) \<and> resolver_ok r' \<and> layout r' = layout r
     \<and> (\<forall>c. c \<notin> temp_cells r sfs \<longrightarrow> exec_moves r imm out \<Sigma> c = parallel_moves r imm sfs \<Sigma> c)"
proof -
  note cm = moves_wf_copies [OF m]
  have dd: "distinct (concat (map (dst_cells r) sfs))" "distinct (map GetDst sfs)" using m distinct_dsts by (auto simp: moves_wf_def)
  from Resolve_run [OF ok cm, where imm = named_imm and \<sigma> = "\<lambda>l. l"] obtain r' out where
    R: "Resolve r sfs = Some (r', out)" "resolver_ok r'" "layout r' = layout r"
    and tr: "traced (resolved_move named_imm r sfs (\<lambda>l. l)) named_imm out (\<lambda>l. l)"
    and fin: "\<forall>l. l \<notin> ToLocation r ` temps r \<longrightarrow> copy_moves named_imm out (\<lambda>l. l) l = parallel_copies named_imm sfs (\<lambda>l. l) l"
    by blast
  let ?\<Sigma> = "exec_moves r imm out \<Sigma>" and ?\<tau> = "copy_moves named_imm out (\<lambda>l. l)"
  from follows_run [OF m al follows_init tr, of imm \<Sigma>] obtain P where f: "follows imm \<Sigma> r sfs P ?\<Sigma> ?\<tau>" by blast
  have "?\<Sigma> c = parallel_moves r imm sfs \<Sigma> c" if c: "c \<notin> temp_cells r sfs" for c
  proof (cases "c \<in> (\<Union>b \<in> set sfs. set (dst_cells r b))")
    case False
    then show ?thesis using followsD(4) [OF f, of c] c parallel_moves_out [OF False, of imm \<Sigma>] by simp
  next
    case True
    then obtain b where b: "b \<in> set sfs" "c \<in> set (dst_cells r b)" by auto
    have nt: "GetDst b \<notin> ToLocation r ` temps r" using cm b(1) by (auto simp: copies_ok_def)
    have t: "?\<tau> (GetDst b) = GetSrc b"
      using fin nt parallel_copies_dst [OF dd(2) b(1), of named_imm "\<lambda>l. l"] by (simp add: read_named)
    have "P (GetDst b) = None \<or> P (GetDst b) = Some (sf_paired r b)"
    proof (cases "P (GetDst b)")
      case (Some q)
      from followsD(2) [OF f this] nt obtain a where "a \<in> set sfs" "sf_paired r a = q" "GetDst b = GetDst a" by blast
      with distinct_dst [OF cm b(1)] Some show ?thesis by auto
    qed simp
    then have "holds imm \<Sigma> ?\<Sigma> ?\<tau> (sf_paired r b) (GetDst b)"
      using followsD(3) [OF f] b(1) by (auto simp: operands_def)
    then have v: "operand_values imm ?\<Sigma> (sf_paired r b) (GetDst b) = operand_values imm \<Sigma> (sf_paired r b) (GetSrc b)"
      using t dst_not_immediate [OF m b(1)] by (simp add: holds_def read_loc_def)
    from b(2) obtain k where k: "k < length (dst_cells r b)" "c = dst_cells r b ! k" by (auto simp: in_set_conv_nth)
    then have ks: "k < length (src_cells r b)" by (simp add: length_operand_cells)
    have "(c, src_cells r b ! k) \<in> set (cell_moves r b)" using k ks by (auto simp: cell_moves_def in_set_zip)
    from parallel_moves_in [OF dd(1) b(1) this, of imm \<Sigma>]
    have "parallel_moves r imm sfs \<Sigma> c = read_cell imm \<Sigma> (src_cells r b ! k)" .
    moreover have "read_cell imm ?\<Sigma> c = read_cell imm \<Sigma> (src_cells r b ! k)"
      using arg_cong [OF v, of "\<lambda>xs. xs ! k"] k ks by (simp add: operand_values_def)
    moreover have "GetKind (fst c) \<noteq> IMMEDIATE" using kind_cell [OF b(2)] dst_not_immediate [OF m b(1)] by simp
    ultimately show ?thesis by (simp add: read_cell_def)
  qed
  with R show ?thesis by blast
qed

lemma cells_cong:
  assumes "layout r' = layout r"
  shows "cell_moves r' = cell_moves r" "exec_moves r' = exec_moves r" "parallel_moves r' = parallel_moves r"
    "moves_wf r' = moves_wf r" "aligned r' = aligned r" "temp_cells r' = temp_cells r"
proof -
  note L = layout_cong [OF assms]
  show c: "cell_moves r' = cell_moves r" by (simp add: cell_moves_def fun_eq_iff L)
  show "exec_moves r' = exec_moves r" by (intro ext) (simp add: exec_moves_def exec_move_def [abs_def] c)
  show "parallel_moves r' = parallel_moves r" using c by (intro ext) (simp add: parallel_moves_def)
  show t: "temp_cells r' = temp_cells r" by (simp add: temp_cells_def fun_eq_iff L)
  show "moves_wf r' = moves_wf r" by (simp add: moves_wf_def operand_ok_def fun_eq_iff L t)
  show "aligned r' = aligned r" by (simp add: aligned_def fun_eq_iff L)
qed

section \<open>A pass over the instructions\<close>

text \<open>The answer of \<^verbatim>\<open>NeedToResolve\<close> depends on the layout only.\<close>

definition same_marks :: "SpillFillsResolver \<Rightarrow> SpillFillsResolver \<Rightarrow> bool" where
  "same_marks r' r \<longleftrightarrow> layout r' = layout r \<and> regWrite r' = regWrite r \<and> stackWrite r' = stackWrite r"

lemma same_marks_step:
  assumes "same_marks r' r"
  shows "same_marks (mark_reg r' sf) (mark_reg r sf)" "same_marks (mark_stack r' sf) (mark_stack r sf)"
    "reg_conflict r' sf = reg_conflict r sf" "stack_conflict r' sf = stack_conflict r sf"
  using assms layout_cong(8) [of r' r]
  by (auto simp: same_marks_def mark_reg_def mark_stack_def reg_conflict_def stack_conflict_def layout_def)

lemma NeedToResolve_loop_cong: "same_marks r' r \<Longrightarrow> snd (NeedToResolve_loop r' sfs) = snd (NeedToResolve_loop r sfs)"
proof (induction sfs arbitrary: r' r)
  case (Cons sf sfs)
  note m1 = same_marks_step(1) [OF Cons.prems, of sf]
  note m2 = same_marks_step(2) [OF m1, of sf]
  show ?case
  proof (cases "same_location sf")
    case True
    then show ?thesis using Cons by simp
  next
    case False
    then show ?thesis using same_marks_step(3) [OF m1, of sf] same_marks_step(4) [OF m2, of sf] Cons.IH [OF m2] by (simp add: Let_def)
  qed
qed simp

lemma NeedToResolve_cong:
  assumes "layout r' = layout r" "resolver_ok r'" "resolver_ok r"
  shows "snd (NeedToResolve r' sfs) = snd (NeedToResolve r sfs)"
proof -
  let ?c = "\<lambda>r. r\<lparr>regWrite := replicate (length (regWrite r)) False, stackWrite := replicate (length (stackWrite r)) False\<rparr>"
  have "snd (NeedToResolve_loop (?c r') sfs) = snd (NeedToResolve_loop (?c r) sfs)"
    using assms by (intro NeedToResolve_loop_cong) (simp add: same_marks_def resolver_ok_def layout_def)
  then show ?thesis by (simp add: NeedToResolve_def)
qed

lemma VisitSpillFill_run:
  assumes ok: "resolver_ok r" and m: "moves_ok r sfs"
  shows "\<exists>r' out. VisitSpillFill r sfs = Some (r', out) \<and> resolver_ok r' \<and> layout r' = layout r
     \<and> (\<forall>c. c \<notin> temp_cells r sfs \<longrightarrow> exec_moves r imm out \<Sigma> c = parallel_moves r imm sfs \<Sigma> c)"
proof -
  obtain rn need where n: "NeedToResolve r sfs = (rn, need)" by (cases "NeedToResolve r sfs")
  note rn = NeedToResolve_ok [OF ok n] and L = cells_cong [OF NeedToResolve_ok(1) [OF ok n]]
  show ?thesis
  proof (cases need)
    case True
    have "moves_wf rn sfs" "aligned rn sfs" using m n True by (auto simp: moves_ok_def L)
    with Resolve_cells [OF rn(2), of sfs imm \<Sigma>] rn True n show ?thesis by (auto simp: VisitSpillFill_def L)
  next
    case False
    with n m no_conflict_ordered [OF ok, of sfs rn imm \<Sigma>] rn show ?thesis by (simp add: VisitSpillFill_def moves_ok_def)
  qed
qed

text \<open>
  The contract of a pass over the \<^verbatim>\<open>SpillFill\<close> instructions of a graph: \<open>visit\<close> rewrites one instruction, \<open>good\<close> is the
  invariant of its state, \<open>admissible\<close> tells the instructions it accepts and \<open>implements\<close> relates an instruction to
  its rewriting; neither changes during the pass.
\<close>

locale move_pass =
  fixes visit :: "'r \<Rightarrow> 'm list \<Rightarrow> ('r \<times> 'm list) option"
    and run :: "'r \<Rightarrow> 'm list list \<Rightarrow> ('r \<times> 'm list list) option"
    and good :: "'r \<Rightarrow> bool" and admissible :: "'r \<Rightarrow> 'm list \<Rightarrow> bool" and implements :: "'r \<Rightarrow> 'm list \<Rightarrow> 'm list \<Rightarrow> bool"
  assumes visit_implements: "good r \<Longrightarrow> admissible r ms \<Longrightarrow>
      \<exists>r' ms'. visit r ms = Some (r', ms') \<and> good r' \<and> admissible r' = admissible r \<and> implements r' = implements r
        \<and> implements r ms ms'"
    and run_Nil: "run r [] = Some (r, [])"
    and run_Cons: "visit r ms = Some (r', ms') \<Longrightarrow> run r' rest = Some (r'', rest') \<Longrightarrow> run r (ms # rest) = Some (r'', ms' # rest')"
begin

lemma run_implements:
  "good r \<Longrightarrow> \<forall>ms \<in> set is. admissible r ms \<Longrightarrow>
   \<exists>r' os. run r is = Some (r', os) \<and> good r' \<and> list_all2 (implements r) is os"
proof (induction "is" arbitrary: r)
  case Nil
  then show ?case by (simp add: run_Nil)
next
  case (Cons ms "is")
  from visit_implements [of r ms] Cons.prems obtain r1 ms' where
    v: "visit r ms = Some (r1, ms')" "good r1" "admissible r1 = admissible r" "implements r1 = implements r" "implements r ms ms'" by auto
  with Cons.IH [of r1] Cons.prems obtain r2 os where
    "run r1 is = Some (r2, os)" "good r2" "list_all2 (implements r) is os" by auto
  with v run_Cons [OF v(1)] show ?case by auto
qed

end

definition implements_moves ::
    "(nat \<Rightarrow> bool \<Rightarrow> 'v) \<Rightarrow> (cell \<Rightarrow> 'v) \<Rightarrow> SpillFillsResolver \<Rightarrow> SpillFillData list \<Rightarrow> SpillFillData list \<Rightarrow> bool" where
  "implements_moves imm \<Sigma> r sfs out \<longleftrightarrow>
     (\<forall>c. c \<notin> temp_cells r sfs \<longrightarrow> exec_moves r imm out \<Sigma> c = parallel_moves r imm sfs \<Sigma> c)"

interpretation resolver: move_pass VisitSpillFill Run resolver_ok moves_ok "implements_moves imm \<Sigma>"
proof
  fix r sfs assume ok: "resolver_ok r" "moves_ok r sfs"
  from VisitSpillFill_run [OF this, of imm \<Sigma>] obtain r' out where
    v: "VisitSpillFill r sfs = Some (r', out)" "resolver_ok r'" "layout r' = layout r" "implements_moves imm \<Sigma> r sfs out"
    by (auto simp: implements_moves_def)
  note L = cells_cong [OF v(3)]
  have "moves_ok r' = moves_ok r" using NeedToResolve_cong [OF v(3,2) ok(1)] by (simp add: moves_ok_def fun_eq_iff L)
  moreover have "implements_moves imm \<Sigma> r' = implements_moves imm \<Sigma> r" by (intro ext) (simp add: implements_moves_def L)
  ultimately show "\<exists>r' out. VisitSpillFill r sfs = Some (r', out) \<and> resolver_ok r' \<and> moves_ok r' = moves_ok r
      \<and> implements_moves imm \<Sigma> r' = implements_moves imm \<Sigma> r \<and> implements_moves imm \<Sigma> r sfs out"
    using v by blast
qed simp_all

text \<open>
  C5: Resolving every \<^verbatim>\<open>SpillFill\<close> instruction of a graph returns, and each resolved list, executed one move after
  another, leaves in every cell (a register, or one half of a stack slot) but those of the temporaries what the original moves
  do when they happen at once.  A move of a 64-bit type on a 32-bit architecture copies a pair of registers or both halves of
  a slot.  The moves must write distinct cells of registers and slots that exist and use no cell of a temporary, and fewer than 256 of
  them may read one location; where \<^verbatim>\<open>NeedToResolve\<close> asks for a reordering, a destination may overlap a source only when
  they are the same location, and all moves from a location must agree on whether it is a pair.
\<close>

theorem Run_refines_parallel_moves:
  assumes "resolver_ok r" "\<forall>sfs \<in> set is. moves_ok r sfs"
  shows "\<exists>r' os. Run r is = Some (r', os) \<and> resolver_ok r'
     \<and> list_all2 (\<lambda>sfs out. \<forall>c. c \<notin> temp_cells r sfs \<longrightarrow> exec_moves r imm out \<Sigma> c = parallel_moves r imm sfs \<Sigma> c) is os"
  using resolver.run_implements [OF assms, of imm \<Sigma>] by (simp add: implements_moves_def [abs_def])

text \<open>
  A 32-bit architecture with twelve registers and slot 0 as the temporary: two register pairs are swapped, a third register is copied
  to another slot.
\<close>

definition ex_resolver :: SpillFillsResolver where
  "ex_resolver = mk_resolver None 12 4 2 1 AARCH32 4 0 0"

definition ex_moves :: "SpillFillData list" where
  "ex_moves = [\<lparr>GetSrc = Location REGISTER 0, GetDst = Location REGISTER 2, sfType = INT64\<rparr>,
     \<lparr>GetSrc = Location REGISTER 2, GetDst = Location REGISTER 0, sfType = INT64\<rparr>,
     \<lparr>GetSrc = Location REGISTER 5, GetDst = Location STACK 1, sfType = INT32\<rparr>]"

lemma ex_temps: "temps ex_resolver = {16}" "ToLocation ex_resolver 16 = Location STACK 0"
  by (simp_all add: temps_eq ex_resolver_def mk_resolver_def ToLocation_def)

lemma ex_paired: "sf_paired ex_resolver \<lparr>GetSrc = a, GetDst = b, sfType = INT64\<rparr>"
  "\<not> sf_paired ex_resolver \<lparr>GetSrc = a, GetDst = b, sfType = INT32\<rparr>"
  by (simp_all add: sf_paired_def ex_resolver_def mk_resolver_def IsPairedReg_def Is64Bits_def Is32Bits_def Is32Bits_int_def)

lemma ex_resolver_ok: "resolver_ok ex_resolver"
  by (simp add: resolver_ok_def ex_temps) (simp add: ex_resolver_def mk_resolver_def wf_layout_def)

lemma ex_slots: "slot_ok ex_resolver (Location REGISTER n) \<longleftrightarrow> n < 12" "slot_ok ex_resolver (Location STACK n) \<longleftrightarrow> n < 2"
  by (simp_all add: slot_ok_def ex_resolver_def mk_resolver_def)

lemma ex_moves_ok: "moves_ok ex_resolver ex_moves"
proof -
  have "moves_wf ex_resolver ex_moves"
    by (simp add: moves_wf_def temp_cells_def ex_temps ex_moves_def ex_paired operand_ok_def operand_cells_def next_loc_def
        IsAnyRegister_def IsRegister_def IsFpRegister_def ex_slots)
  moreover have "aligned ex_resolver ex_moves"
    by (simp add: aligned_def ex_moves_def ex_paired operand_cells_def next_loc_def IsAnyRegister_def IsRegister_def IsFpRegister_def)
  ultimately show ?thesis by (simp add: moves_ok_def)
qed

theorem Run_refines_parallel_moves_witness:
  "\<exists>r' out. Run ex_resolver [ex_moves] = Some (r', [out])
     \<and> (let \<Sigma> = exec_moves ex_resolver (\<lambda>_ _. 0) out (\<lambda>(l, _). GetValue l)
        in \<Sigma> (Location REGISTER 0, False) = 2 \<and> \<Sigma> (Location REGISTER 1, False) = 3
           \<and> \<Sigma> (Location REGISTER 2, False) = 0 \<and> \<Sigma> (Location REGISTER 3, False) = 1 \<and> \<Sigma> (Location STACK 1, False) = 5)"
proof -
  have "\<forall>sfs \<in> set [ex_moves]. moves_ok ex_resolver sfs" by (simp add: ex_moves_ok)
  from Run_refines_parallel_moves [OF ex_resolver_ok this, of "\<lambda>_ _. 0" "\<lambda>(l, _). GetValue l"] obtain r' out where
    o: "Run ex_resolver [ex_moves] = Some (r', [out])"
      "\<forall>c. c \<notin> temp_cells ex_resolver ex_moves \<longrightarrow> exec_moves ex_resolver (\<lambda>_ _. 0) out (\<lambda>(l, _). GetValue l) c =
        parallel_moves ex_resolver (\<lambda>_ _. 0) ex_moves (\<lambda>(l, _). GetValue l) c"
    by (auto simp: list_all2_Cons1)
  have "(l, False) \<notin> temp_cells ex_resolver ex_moves" if "l \<noteq> Location STACK 0" for l
    using that by (auto simp: temp_cells_def ex_temps operand_cells_def next_loc_def IsAnyRegister_def IsRegister_def IsFpRegister_def split: if_splits)
  with o show ?thesis
    by (intro exI [of _ r'] exI [of _ out])
       (simp add: parallel_moves_def write_cells_def cell_moves_def ex_moves_def ex_paired operand_cells_def next_loc_def
         read_cell_def IsAnyRegister_def IsRegister_def IsFpRegister_def)
qed

text \<open>
  When \<^verbatim>\<open>NeedToResolve\<close> answers no, the list needs no reordering: executing it in order is executing it at once, whatever
  pairs it moves.
\<close>

theorem NeedToResolve_no_conflict:
  assumes "resolver_ok r" "moves_wf r sfs" "\<not> snd (NeedToResolve r sfs)"
  shows "exec_moves r imm sfs \<Sigma> = parallel_moves r imm sfs \<Sigma>"
  using no_conflict_ordered [OF assms(1,2)] assms(3) by (metis prod.collapse)

section \<open>A pair that overlaps in one register\<close>

text \<open>Two chains of one move each are emitted in the order of their destinations.\<close>

lemma add_tail_skip: "\<forall>n \<in> set ns. srcs r n = None \<Longrightarrow> fold add_tail ns (r, remap, sfs) = (r, remap, sfs)"
  by (induction ns) (simp_all add: add_tail_def)

lemma add_cycle_skip: "\<forall>n \<in> set ns. srcs r n = None \<Longrightarrow> fold add_cycle ns (Some (r, remap, sfs)) = Some (r, remap, sfs)"
  by (induction ns) (simp_all add: add_cycle_def)

lemma add_tail_single:
  assumes "srcs r d = Some i" "srcs r i = None" "loadsCount r ! d = 0"
  shows "add_tail d (r, remap, sfs) = (let (r', remap') = chain_step r remap d i
    in (r', remap', sfs @ [\<lparr>GetSrc = ToLocation r (home remap i), GetDst = ToLocation r d, sfType = reg_type r d\<rparr>]))"
proof -
  have "srcs (fst (chain_step r remap d i)) i = None" using assms(2) by (simp add: srcs_step)
  then show ?thesis using assms
    by (simp add: add_tail_def AddMovesChain_def moves_chain_Some moves_chain_None AddSpillFill_def case_prod_beta)
qed

lemma upt_split: "a \<le> m \<Longrightarrow> m < n \<Longrightarrow> [a..<n] = [a..<m] @ m # [Suc m..<n]"
  using upt_add_eq_append [of a m "n - m"] by (simp add: upt_conv_Cons)

lemma Reorder_two:
  assumes t: "srcs r = [d1 \<mapsto> s1, d2 \<mapsto> s2]" and s: "s1 \<notin> {d1, d2, s2}" "s2 \<notin> {d1, d2}" "s2 < locationsCount r" "s1 < locationsCount r"
    and d: "d1 < d2" "d2 < locationsCount r" and l: "loadsCount r ! d1 = 0" "loadsCount r ! d2 = 0"
  shows "\<exists>r'. Reorder r = Some (r', preMoves r @
    [\<lparr>GetSrc = ToLocation r s1, GetDst = ToLocation r d1, sfType = reg_type r d1\<rparr>,
     \<lparr>GetSrc = ToLocation r s2, GetDst = ToLocation r d2, sfType = reg_type r d2\<rparr>] @ postMoves r)"
proof -
  let ?N = "locationsCount r" and ?remap = "replicate (locationsCount r) None :: nat option list"
  define r1 remap1 where "r1 = fst (chain_step r ?remap d1 s1)" and "remap1 = snd (chain_step r ?remap d1 s1)"
  define r2 remap2 where "r2 = fst (chain_step r1 remap1 d2 s2)" and "remap2 = snd (chain_step r1 remap1 d2 s2)"
  have sr1: "srcs r1 = [d2 \<mapsto> s2]" and sr2: "srcs r2 = Map.empty"
    using d(1) by (auto simp: r1_def r2_def srcs_step t)
  have ty: "reg_type r1 d = reg_type r d" for d by (simp add: r1_def types_step)
  have f1: "ToLocation r1 = ToLocation r" "loadsCount r1 ! d2 = 0" "preMoves r1 = preMoves r" "postMoves r1 = postMoves r"
    using s l by (auto simp: r1_def chain_step_def ToLocation_def fun_eq_iff)
  have f2: "postMoves r2 = postMoves r" using f1(4) by (simp add: r2_def chain_step_def)
  have h: "home ?remap s1 = s1" "home remap1 s2 = s2"
    using s(1,3,4) by (auto simp: home_def remap1_def chain_step_def split: option.split)
  have split: "[0..<?N] = [0..<d1] @ d1 # [Suc d1..<d2] @ d2 # [Suc d2..<?N]"
    using d upt_split [of 0 d1 ?N] upt_split [of "Suc d1" d2 ?N] by simp
  have a1: "add_tail d1 (r, ?remap, sfs) = (r1, remap1, sfs @ [\<lparr>GetSrc = ToLocation r s1, GetDst = ToLocation r d1, sfType = reg_type r d1\<rparr>])" for sfs
    using s(1) d(1) l(1) h(1) by (subst add_tail_single [where i = s1]) (auto simp: t r1_def remap1_def case_prod_beta)
  have a2: "add_tail d2 (r1, remap1, sfs) = (r2, remap2, sfs @ [\<lparr>GetSrc = ToLocation r s2, GetDst = ToLocation r d2, sfType = reg_type r d2\<rparr>])" for sfs
    using s(2) f1 ty h(2) by (subst add_tail_single [where i = s2]) (auto simp: sr1 r2_def remap2_def case_prod_beta)
  have k1: "fold add_tail [0..<d1] (r, ?remap, sfs) = (r, ?remap, sfs)" for sfs
    using d(1) by (intro add_tail_skip) (auto simp: t)
  have k2: "fold add_tail [Suc d1..<d2] (r1, remap1, sfs) = (r1, remap1, sfs)" for sfs by (intro add_tail_skip) (auto simp: sr1)
  have k3: "fold add_tail [Suc d2..<?N] (r2, remap2, sfs) = (r2, remap2, sfs)" for sfs by (intro add_tail_skip) (auto simp: sr2)
  have "fold add_tail [0..<?N] (r, ?remap, preMoves r) = (r2, remap2, preMoves r @
    [\<lparr>GetSrc = ToLocation r s1, GetDst = ToLocation r d1, sfType = reg_type r d1\<rparr>,
     \<lparr>GetSrc = ToLocation r s2, GetDst = ToLocation r d2, sfType = reg_type r d2\<rparr>])"
    unfolding split by (simp add: a1 a2 k1 k2 k3)
  moreover have "fold add_cycle [0..<?N] (Some (r2, remap2, sfs)) = Some (r2, remap2, sfs)" for sfs
    by (intro add_cycle_skip) (auto simp: sr2)
  ultimately show ?thesis by (simp add: Reorder_def f2)
qed

text \<open>
  C37: the table does not know that the move of a pair also reads the register after its source.  A move into that register and the
  move of the pair, in this order, are a conflict that \<^verbatim>\<open>NeedToResolve\<close> sees, but the resolver keeps the order whenever the
  destination of the pair has the larger index: the upper half of the pair is overwritten before it is copied.
\<close>

theorem pair_overlap_lost:
  fixes x y z :: location and t1 t2 :: ir_type
  defines "m1 \<equiv> \<lparr>GetSrc = z, GetDst = next_loc x, sfType = t1\<rparr>" and "m2 \<equiv> \<lparr>GetSrc = x, GetDst = y, sfType = t2\<rparr>"
  assumes ok: "resolver_ok r" and m: "moves_wf r [m1, m2]" and p: "\<not> sf_paired r m1" "sf_paired r m2"
    and k: "IsAnyRegister x" "slot_ok r z" "slot_ok r y" "z \<notin> {x, next_loc x, y}" "x \<noteq> y"
    and lt: "MapLocation r (next_loc x) < MapLocation r y"
  shows "\<exists>r'. VisitSpillFill r [m1, m2] = Some (r', [m1, m2])
     \<and> exec_moves r imm [m1, m2] \<Sigma> (operand_cells True y ! 1) = \<Sigma> (z, False)
     \<and> parallel_moves r imm [m1, m2] \<Sigma> (operand_cells True y ! 1) = \<Sigma> (next_loc x, False)"
proof -
  have lay: "wf_layout r" using ok by (simp add: resolver_ok_def)
  have xs: "slot_ok r x" "slot_ok r (next_loc x)" using m p(2) k(1) slot_ok_kind [of r x]
    by (auto simp: moves_wf_def m2_def operand_ok_def IsAnyRegister_def IsRegister_def IsFpRegister_def)
  have nx: "next_loc x \<noteq> x" by (cases x) (simp add: next_loc_def)
  have kinds: "GetKind z \<noteq> IMMEDIATE" "GetKind (next_loc x) \<noteq> IMMEDIATE" "GetKind x \<noteq> IMMEDIATE"
    using slot_ok_kind k(2) xs by auto
  let ?c = "operand_cells True y ! 1"
  have c2: "(?c, (next_loc x, False)) \<in> set (cell_moves r m2)"
    using k(1) p(2) by (simp add: cell_moves_def m2_def operand_cells_def)
  have dd: "distinct (concat (map (dst_cells r) [m1, m2]))" using m by (simp add: moves_wf_def)
  have ex: "exec_moves r imm [m1, m2] \<Sigma> ?c = \<Sigma> (z, False)" for imm and \<Sigma> :: "cell \<Rightarrow> 'v"
  proof -
    have "((next_loc x, False), (z, False)) \<in> set (cell_moves r m1)" using p(1) by (simp add: cell_moves_def m1_def operand_cells_def)
    from write_cells_in [OF _ this, of imm \<Sigma>] kinds have "exec_move r imm m1 \<Sigma> (next_loc x, False) = \<Sigma> (z, False)"
      by (simp add: exec_move_def read_cell_def)
    with write_cells_in [OF _ c2, of imm "exec_move r imm m1 \<Sigma>"] kinds show ?thesis by (simp add: exec_move_def [of r imm m2] read_cell_def)
  qed
  have par: "parallel_moves r imm [m1, m2] \<Sigma> ?c = \<Sigma> (next_loc x, False)" for imm and \<Sigma> :: "cell \<Rightarrow> 'v"
    using parallel_moves_in [OF dd _ c2, of imm \<Sigma>] kinds by (simp add: read_cell_def)
  obtain rn need where n: "NeedToResolve r [m1, m2] = (rn, need)" by (cases "NeedToResolve r [m1, m2]")
  note rn = NeedToResolve_ok [OF ok n] and L = layout_cong [OF NeedToResolve_ok(1) [OF ok n]]
  have need: need
  proof (rule ccontr)
    assume "\<not> need"
    with no_conflict_ordered [OF ok m, of rn "\<lambda>_ _. x" fst] n
    have "exec_moves r (\<lambda>_ _. x) [m1, m2] fst ?c = parallel_moves r (\<lambda>_ _. x) [m1, m2] fst ?c" by simp
    then show False using ex [of "\<lambda>_ _. x" fst] par [of "\<lambda>_ _. x" fst] k(4) by simp
  qed
  define rc where "rc = CollectSpillFillsData rn [m1, m2]"
  have "copies_ok rn [m1, m2]" using moves_wf_copies [OF m] by (simp add: L)
  from CollectSpillFillsData_collected [OF rn(2) this] have c: "collected rn [m1, m2] rc" by (simp add: rc_def)
  have it: "in_table m1" "in_table m2"
    using k(2-5) kinds slot_ok_kind [OF k(3)] slot_ok_kind [OF xs(2)] nx by (auto simp: in_table_def same_location_iff m1_def m2_def)
  let ?M = "MapLocation r"
  have sr: "srcs rc = [?M (next_loc x) \<mapsto> ?M z, ?M y \<mapsto> ?M x]"
  proof
    fix d
    have "srcs rc d = Some i \<longleftrightarrow> [?M (next_loc x) \<mapsto> ?M z, ?M y \<mapsto> ?M x] d = Some i" for i
      using c it lt by (auto simp: collected_def table_entry_def m1_def m2_def L)
    then show "srcs rc d = [?M (next_loc x) \<mapsto> ?M z, ?M y \<mapsto> ?M x] d" by (metis option.exhaust)
  qed
  have inj: "?M a = ?M b \<longleftrightarrow> a = b" if "a \<in> {x, next_loc x, y, z}" "b \<in> {x, next_loc x, y, z}" for a b
    using that MapLocation_eq_iff [OF _ _ lay, of a b] xs k(2,3) by auto
  have b: "?M a < locationsCount r" if "a \<in> {x, next_loc x, y, z}" for a using slot_index(2) [OF _ lay] that xs k(2,3) by auto
  have "layout rc = layout rn" using c by (simp add: collected_def)
  with rn(1) have Lc: "layout rc = layout r" by simp
  have yn: "y \<noteq> next_loc x" using lt by auto
  have ld: "loadsCount rc ! ?M a = 0" if a: "a = next_loc x \<or> a = y" for a
  proof -
    have "readers (srcs rc) (?M a) = {}" using a k(4,5) nx yn inj by (auto simp: readers_def sr)
    then show ?thesis using c b [of a] a by (auto simp: collected_def L)
  qed
  have ty: "reg_type rc (?M (next_loc x)) = t1" "reg_type rc (?M y) = t2"
    using c it by (auto simp: collected_def m1_def m2_def L)
  have pp: "preMoves rc = []" "postMoves rc = []" using c it by (auto simp: collected_def in_pre_def in_post_def in_table_def)
  have "\<exists>r'. Reorder rc = Some (r', preMoves rc @
      [\<lparr>GetSrc = ToLocation rc (?M z), GetDst = ToLocation rc (?M (next_loc x)), sfType = reg_type rc (?M (next_loc x))\<rparr>,
       \<lparr>GetSrc = ToLocation rc (?M x), GetDst = ToLocation rc (?M y), sfType = reg_type rc (?M y)\<rparr>] @ postMoves rc)"
    using sr lt ld b k(4,5) nx yn inj by (intro Reorder_two) (auto simp: layout_cong [OF Lc])
  then obtain r' where "Reorder rc = Some (r', [m1, m2])"
    using slot_index(1) [OF _ lay] xs k(2,3) ty pp by (auto simp: layout_cong [OF Lc] m1_def m2_def)
  then have "VisitSpillFill r [m1, m2] = Some (r', [m1, m2])" using n need by (simp add: VisitSpillFill_def Resolve_def rc_def)
  with ex [of imm \<Sigma>] par [of imm \<Sigma>] show ?thesis by blast
qed

theorem pair_overlap_lost_witness:
  "\<exists>r'. VisitSpillFill ex_resolver [\<lparr>GetSrc = Location REGISTER 6, GetDst = Location REGISTER 1, sfType = INT32\<rparr>,
       \<lparr>GetSrc = Location REGISTER 0, GetDst = Location REGISTER 4, sfType = INT64\<rparr>] =
     Some (r', [\<lparr>GetSrc = Location REGISTER 6, GetDst = Location REGISTER 1, sfType = INT32\<rparr>,
       \<lparr>GetSrc = Location REGISTER 0, GetDst = Location REGISTER 4, sfType = INT64\<rparr>])"
proof -
  have e: "next_loc (Location REGISTER 0) = Location REGISTER 1" by (simp add: next_loc_def)
  let ?m1 = "\<lparr>GetSrc = Location REGISTER 6, GetDst = Location REGISTER 1, sfType = INT32\<rparr>"
  let ?m2 = "\<lparr>GetSrc = Location REGISTER 0, GetDst = Location REGISTER 4, sfType = INT64\<rparr>"
  have "moves_wf ex_resolver [?m1, ?m2]"
    by (simp add: moves_wf_def temp_cells_def ex_temps ex_paired operand_ok_def operand_cells_def next_loc_def kind_defs ex_slots)
  then show ?thesis
    using pair_overlap_lost [OF ex_resolver_ok, of "Location REGISTER 6" "Location REGISTER 0" INT32 "Location REGISTER 4" INT64, unfolded e]
    by (auto simp: ex_paired ex_slots kind_defs MapLocation_def)
qed

end
