(* ===== verification/Utf.thy ===== *)
theory Utf
  imports Prelude
begin

text \<open>
  The string codings of \<^verbatim>\<open>libpandabase/utils/utf.cpp\<close> and \<^verbatim>\<open>utf.h\<close>: modified UTF-8 and UTF-16.

  A pointer to bytes is the list of the bytes from there to the end of the memory it may read; \<open>None\<close> is a read outside
  of it, or the \<^verbatim>\<open>UNREACHABLE()\<close> of the code.  A pointer to UTF-16 units with a length is the list of the units.  Output buffers are
  the list of what is written from their start.  Masks are \<^verbatim>\<open>size_t\<close> in the code, so bits are combined in 64 bits and
  cut to 32.
\<close>

section \<open>Code units\<close>

definition DECODE_LEAD_LOW :: u16 where "DECODE_LEAD_LOW = 0xD800"
definition DECODE_LEAD_HIGH :: u16 where "DECODE_LEAD_HIGH = 0xDBFF"
definition DECODE_TRAIL_LOW :: u16 where "DECODE_TRAIL_LOW = 0xDC00"
definition DECODE_TRAIL_HIGH :: u16 where "DECODE_TRAIL_HIGH = 0xDFFF"

lemmas decode_limits = DECODE_LEAD_LOW_def DECODE_LEAD_HIGH_def DECODE_TRAIL_LOW_def DECODE_TRAIL_HIGH_def

definition SplitUtf16Pair :: "u32 \<Rightarrow> u16 \<times> u16" where
  "SplitUtf16Pair pair = (ucast (drop_bit 16 pair), ucast (pair AND 0xffff))"

definition IsAvailableNextUtf16Code :: "u16 \<Rightarrow> bool" where
  "IsAvailableNextUtf16Code val \<longleftrightarrow> val \<ge> DECODE_LEAD_LOW \<and> val \<le> DECODE_TRAIL_HIGH"

definition IsUTF16SurrogatePair :: "u16 \<Rightarrow> bool" where
  "IsUTF16SurrogatePair lead \<longleftrightarrow> lead \<ge> DECODE_LEAD_LOW \<and> lead \<le> DECODE_LEAD_HIGH"

definition UTF16Decode :: "u16 \<Rightarrow> u16 \<Rightarrow> u32" where
  "UTF16Decode lead trail =
     (ucast lead - ucast DECODE_LEAD_LOW) * 0x400 + (ucast trail - ucast DECODE_TRAIL_LOW) + 0x10000"

definition CombineTwoU16 :: "u16 \<Rightarrow> u16 \<Rightarrow> u32" where
  "CombineTwoU16 d0 d1 =
     (let codePoint = ucast d0 - ucast DECODE_LEAD_LOW :: u32;
          codePoint = push_bit (16 - 6) codePoint;
          codePoint = codePoint OR (ucast d1 - ucast DECODE_TRAIL_LOW)
      in codePoint + 0x10000)"

section \<open>From modified UTF-8\<close>

definition ConvertMUtf8ToUtf16Pair :: "u8 list \<Rightarrow> nat \<Rightarrow> (u32 \<times> nat) option" where
  "ConvertMUtf8ToUtf16Pair data maxBytes =
     (case rd data 0 of None \<Rightarrow> None | Some d0 \<Rightarrow>
      if d0 AND 0x80 = 0 then Some (ucast d0, 1)
      else if maxBytes < 2 then Some (ucast d0, 1)
      else case rd data 1 of None \<Rightarrow> None | Some d1 \<Rightarrow>
      let w = (\<lambda>d. ucast d :: u64) in
      if d0 AND 0x20 = 0 then Some (ucast (push_bit 6 (w d0 AND 0x1f) OR (w d1 AND 0x3f)), 2)
      else if maxBytes < 3 then Some (ucast d0, 1)
      else case rd data 2 of None \<Rightarrow> None | Some d2 \<Rightarrow>
      if d0 AND 0x10 = 0
      then Some (ucast (push_bit (6 * 2) (w d0 AND 0x0f) OR push_bit 6 (w d1 AND 0x3f) OR (w d2 AND 0x3f)), 3)
      else if maxBytes < 4 then Some (ucast d0, 1)
      else case rd data 3 of None \<Rightarrow> None | Some d3 \<Rightarrow>
      let codePoint = ucast (push_bit (6 * 3) (w d0 AND 0x0f) OR push_bit (6 * 2) (w d1 AND 0x3f)
                             OR push_bit 6 (w d2 AND 0x3f) OR (w d3 AND 0x3f)) :: u32;
          pair = ucast ((ucast (drop_bit (16 - 6) codePoint) + 0xd7c0 :: u64) AND 0xffff) :: u32;
          pair = push_bit 16 pair;
          pair = pair OR ucast ((ucast codePoint AND 0x03ff :: u64) + 0xdc00)
      in Some (pair, 4))"

lemma ConvertMUtf8ToUtf16Pair_size:
  "ConvertMUtf8ToUtf16Pair data maxBytes = Some (pair, n) \<Longrightarrow> 0 < n \<and> (0 < maxBytes \<longrightarrow> n \<le> maxBytes) \<and> n \<le> length data"
proof -
  assume a: "ConvertMUtf8ToUtf16Pair data maxBytes = Some (pair, n)"
  have rd: "rd data i = Some x \<Longrightarrow> i < length data" for i x by (simp add: rd_def split: if_splits)
  show ?thesis using a by (auto simp: ConvertMUtf8ToUtf16Pair_def Let_def split: option.splits if_splits dest!: rd simp: Suc_le_eq)
qed

fun IsMUtf8OnlySingleBytes :: "u8 list \<Rightarrow> bool option" where
  "IsMUtf8OnlySingleBytes [] = None"
| "IsMUtf8OnlySingleBytes (b # mutf8In) =
     (if b \<noteq> 0 then if b \<ge> 0x80 then Some False else IsMUtf8OnlySingleBytes mutf8In else Some True)"

text \<open>\<open>left\<close> is \<^verbatim>\<open>mutf8Len - inPos\<close>: the position never passes the length.\<close>

function ConvertMUtf8ToUtf16 :: "u8 list \<Rightarrow> nat \<Rightarrow> u16 list option" where
  "ConvertMUtf8ToUtf16 mutf8In left =
     (if left > 0
      then case ConvertMUtf8ToUtf16Pair mutf8In left of
             None \<Rightarrow> None
           | Some (pair, nbytes) \<Rightarrow>
               let (p_hi, p_lo) = SplitUtf16Pair pair
               in map_option (\<lambda>out. (if p_hi \<noteq> 0 then [p_hi] else []) @ [p_lo] @ out)
                    (ConvertMUtf8ToUtf16 (drop nbytes mutf8In) (left - nbytes))
      else Some [])"
  by pat_completeness auto
termination by (relation "measure snd") (auto dest!: ConvertMUtf8ToUtf16Pair_size sym [THEN ConvertMUtf8ToUtf16Pair_size])

declare ConvertMUtf8ToUtf16.simps [simp del]

text \<open>The sizes of the output and \<^verbatim>\<open>start\<close> are unsigned and wrap.\<close>

function ConvertRegionMUtf8ToUtf16_loop :: "u8 list \<Rightarrow> nat \<Rightarrow> u64 \<Rightarrow> u64 \<Rightarrow> u64 \<Rightarrow> u16 list \<Rightarrow> (u64 \<times> u16 list) option" where
  "ConvertRegionMUtf8ToUtf16_loop mutf8In left utf16Len start outPos out =
     (if left > 0
      then case ConvertMUtf8ToUtf16Pair mutf8In left of
             None \<Rightarrow> None
           | Some (pair, nbytes) \<Rightarrow>
               let (p_hi, p_lo) = SplitUtf16Pair pair; mutf8In = drop nbytes mutf8In; left = left - nbytes
               in if start > 0 then ConvertRegionMUtf8ToUtf16_loop mutf8In left utf16Len (start - of_nat nbytes) outPos out
                  else if p_hi \<noteq> 0 \<and> outPos \<ge> utf16Len - 1 then Some (outPos, out)
                  else let (outPos, out) = (if p_hi \<noteq> 0 then (outPos + 1, out @ [p_hi]) else (outPos, out))
                       in if outPos \<ge> utf16Len then Some (outPos, out)
                          else ConvertRegionMUtf8ToUtf16_loop mutf8In left utf16Len start (outPos + 1) (out @ [p_lo])
      else Some (outPos, out))"
  by pat_completeness auto
termination by (relation "measure (\<lambda>(mutf8In, left, utf16Len, start, outPos, out). left)") (auto dest!: ConvertMUtf8ToUtf16Pair_size sym [THEN ConvertMUtf8ToUtf16Pair_size])

declare ConvertRegionMUtf8ToUtf16_loop.simps [simp del]

definition ConvertRegionMUtf8ToUtf16 :: "u8 list \<Rightarrow> nat \<Rightarrow> u64 \<Rightarrow> u64 \<Rightarrow> (u64 \<times> u16 list) option" where
  "ConvertRegionMUtf8ToUtf16 mutf8In mutf8Len utf16Len start =
     ConvertRegionMUtf8ToUtf16_loop mutf8In mutf8Len utf16Len start 0 []"

definition compare_pairs :: "u32 \<Rightarrow> u32 \<Rightarrow> int" where
  "compare_pairs c1 c2 =
     (let (c1p1, c1p2) = SplitUtf16Pair c1; (c2p1, c2p2) = SplitUtf16Pair c2; result = uint c1p1 - uint c2p1
      in if result \<noteq> 0 then result else uint c1p2 - uint c2p2)"

function CompareMUtf8ToMUtf8 :: "u8 list \<Rightarrow> u8 list \<Rightarrow> int option" where
  "CompareMUtf8ToMUtf8 mutf81 mutf82 =
     (case (rd mutf81 0, rd mutf82 0) of
        (Some c1, Some c2) \<Rightarrow>
          if c1 = 0 \<and> c2 = 0 then Some 0
          else if c1 = 0 \<and> c2 \<noteq> 0 then Some (- 1)
          else if c1 \<noteq> 0 \<and> c2 = 0 then Some 1
          else (case (ConvertMUtf8ToUtf16Pair mutf81 4, ConvertMUtf8ToUtf16Pair mutf82 4) of
                  (Some (c1, n1), Some (c2, n2)) \<Rightarrow>
                    if c1 = c2 then CompareMUtf8ToMUtf8 (drop n1 mutf81) (drop n2 mutf82) else Some (compare_pairs c1 c2)
                | _ \<Rightarrow> None)
      | _ \<Rightarrow> None)"
  by pat_completeness auto
termination by (relation "measure (\<lambda>(a, b). length a)") (auto dest!: ConvertMUtf8ToUtf16Pair_size sym [THEN ConvertMUtf8ToUtf16Pair_size])

declare CompareMUtf8ToMUtf8.simps [simp del]

function CompareUtf8ToUtf8_loop :: "u8 list \<Rightarrow> nat \<Rightarrow> u8 list \<Rightarrow> nat \<Rightarrow> nat \<Rightarrow> nat \<Rightarrow> int option" where
  "CompareUtf8ToUtf8_loop utf81 utf81Length utf82 utf82Length utf81Index utf82Index =
     (if utf81Index = utf81Length \<and> utf82Index = utf82Length then Some 0
      else if utf81Index = utf81Length \<and> utf82Index < utf82Length then Some (- 1)
      else if utf81Index < utf81Length \<and> utf82Index = utf82Length then Some 1
      else (case (ConvertMUtf8ToUtf16Pair utf81 4, ConvertMUtf8ToUtf16Pair utf82 4) of
              (Some (c1, n1), Some (c2, n2)) \<Rightarrow>
                if c1 = c2
                then CompareUtf8ToUtf8_loop (drop n1 utf81) utf81Length (drop n2 utf82) utf82Length (utf81Index + n1) (utf82Index + n2)
                else Some (compare_pairs c1 c2)
            | _ \<Rightarrow> None))"
  by pat_completeness auto
termination by (relation "measure (\<lambda>(a, _). length a)") (auto dest!: ConvertMUtf8ToUtf16Pair_size sym [THEN ConvertMUtf8ToUtf16Pair_size])

declare CompareUtf8ToUtf8_loop.simps [simp del]

definition CompareUtf8ToUtf8 :: "u8 list \<Rightarrow> nat \<Rightarrow> u8 list \<Rightarrow> nat \<Rightarrow> int option" where
  "CompareUtf8ToUtf8 utf81 utf81Length utf82 utf82Length = CompareUtf8ToUtf8_loop utf81 utf81Length utf82 utf82Length 0 0"

fun Mutf8Size :: "u8 list \<Rightarrow> nat option" where
  "Mutf8Size [] = None"
| "Mutf8Size (b # bs) = (if b = 0 then Some 0 else map_option Suc (Mutf8Size bs))"

definition pair_units :: "u32 \<Rightarrow> nat" where
  "pair_units pair = (if pair > 0xffff then 2 else 1)"

function MUtf8ToUtf16Size :: "u8 list \<Rightarrow> nat option" where
  "MUtf8ToUtf16Size mutf8 =
     (case rd mutf8 0 of
        None \<Rightarrow> None
      | Some b \<Rightarrow>
          if b \<noteq> 0
          then (case ConvertMUtf8ToUtf16Pair mutf8 4 of
                  None \<Rightarrow> None
                | Some (pair, nbytes) \<Rightarrow> map_option (\<lambda>res. pair_units pair + res) (MUtf8ToUtf16Size (drop nbytes mutf8)))
          else Some 0)"
  by pat_completeness auto
termination by (relation "measure length") (auto dest!: ConvertMUtf8ToUtf16Pair_size sym [THEN ConvertMUtf8ToUtf16Pair_size])

declare MUtf8ToUtf16Size.simps [simp del]

function MUtf8ToUtf16Size_len :: "u8 list \<Rightarrow> nat \<Rightarrow> nat option" where
  "MUtf8ToUtf16Size_len mutf8 left =
     (if left \<noteq> 0
      then (case ConvertMUtf8ToUtf16Pair mutf8 left of
              None \<Rightarrow> None
            | Some (pair, nbytes) \<Rightarrow>
                let nbytes = (if nbytes = 0 then 1 else nbytes)
                in map_option (\<lambda>res. pair_units pair + res) (MUtf8ToUtf16Size_len (drop nbytes mutf8) (left - nbytes)))
      else Some 0)"
  by pat_completeness auto
termination by (relation "measure snd") (auto dest!: ConvertMUtf8ToUtf16Pair_size sym [THEN ConvertMUtf8ToUtf16Pair_size])

declare MUtf8ToUtf16Size_len.simps [simp del]

definition IsEqual_span :: "u8 list \<Rightarrow> u8 list \<Rightarrow> bool" where
  "IsEqual_span utf81 utf82 = (if length utf81 \<noteq> length utf82 then False else utf81 = utf82)"

fun IsEqual_mutf8 :: "u8 list \<Rightarrow> u8 list \<Rightarrow> bool option" where
  "IsEqual_mutf8 (a # mutf81) (b # mutf82) = (if a \<noteq> b then Some False else if a = 0 then Some True else IsEqual_mutf8 mutf81 mutf82)"
| "IsEqual_mutf8 _ _ = None"

text \<open>
  \<^verbatim>\<open>IsValidModifiedUTF8\<close>: the cases of the \<^verbatim>\<open>switch\<close> fall through, so a first byte asks for one, two or three continuation
  bytes.
\<close>

fun continuation :: "nat \<Rightarrow> u8 list \<Rightarrow> bool option" where
  "continuation 0 elems = Some True"
| "continuation (Suc k) [] = None"
| "continuation (Suc k) (e # elems) = (if e AND 0xc0 \<noteq> 0x80 then Some False else continuation k elems)"

function IsValidModifiedUTF8 :: "u8 list \<Rightarrow> bool option" where
  "IsValidModifiedUTF8 elems =
     (case elems of
        [] \<Rightarrow> None
      | e # rest \<Rightarrow>
          if e \<noteq> 0 then
            let sw = e AND 0xf0 in
            if sw \<in> {0x00, 0x10, 0x20, 0x30, 0x40, 0x50, 0x60, 0x70} then IsValidModifiedUTF8 rest
            else if sw \<in> {0x80, 0x90, 0xa0, 0xb0} then Some False
            else if sw = 0xf0 \<and> e AND 0x08 \<noteq> 0 then Some False
            else let k = (if sw = 0xf0 then 3 else if sw = 0xe0 then 2 else 1)
                 in (case continuation k rest of
                       Some True \<Rightarrow> IsValidModifiedUTF8 (drop k rest)
                     | r \<Rightarrow> r)
          else Some True)"
  by pat_completeness auto
termination by (relation "measure length") auto

declare IsValidModifiedUTF8.simps [simp del]

definition IsValidUTF8 :: "u8 list \<Rightarrow> bool option" where
  "IsValidUTF8 data =
     (let length = length data; first = (if length = 1 then Some (data ! 0 < 0x80)
        else if length = 2 then Some (data ! 0 AND 0xE0 = 0xC0)
        else if length = 3 then Some (data ! 0 AND 0xF0 = 0xE0)
        else if length = 4 then Some (data ! 0 AND 0xF8 = 0xF0) else None)
      in map_option (\<lambda>ok. ok \<and> (\<forall>i \<in> {1..<length}. data ! i AND 0xC0 = 0x80)) first)"

section \<open>To modified UTF-8\<close>

record Utf8Char =
  utf_n :: nat
  utf_ch :: "u8 list"

definition three_bytes :: "u16 \<Rightarrow> Utf8Char" where
  "three_bytes d0 =
     (let ch0 = 0xe0 OR ucast (drop_bit 12 d0) :: u8;
          ch1 = ucast (0x80 OR (ucast (ucast (drop_bit 6 d0) :: u8) AND 0x3f) :: u64) :: u8;
          ch2 = ucast (0x80 OR (ucast d0 AND 0x3f) :: u64) :: u8
      in \<lparr>utf_n = 3, utf_ch = [ch0, ch1, ch2]\<rparr>)"

definition ConvertUtf16ToUtf8 :: "u16 \<Rightarrow> u16 \<Rightarrow> bool \<Rightarrow> Utf8Char option" where
  "ConvertUtf16ToUtf8 d0 d1 modify =
     (if d1 = 0 \<and> d0 \<ge> DECODE_LEAD_LOW \<and> d0 \<le> DECODE_TRAIL_HIGH then Some (three_bytes d0)
      else if d0 = 0 then
        (if modify then Some \<lparr>utf_n = 2, utf_ch = [0xc0, 0x80]\<rparr> else Some \<lparr>utf_n = 0, utf_ch = [0x00]\<rparr>)
      else if d0 \<le> 0x7f then Some \<lparr>utf_n = 1, utf_ch = [ucast d0]\<rparr>
      else if d0 \<le> 0x7ff then
        Some \<lparr>utf_n = 2, utf_ch = [0xc0 OR ucast (drop_bit 6 d0), ucast (0x80 OR (ucast d0 AND 0x3f) :: u64)]\<rparr>
      else if d0 < DECODE_LEAD_LOW \<or> d0 > DECODE_LEAD_HIGH then Some (three_bytes d0)
      else if d1 < DECODE_TRAIL_LOW \<or> d1 > DECODE_TRAIL_HIGH then None
      else let codePoint = CombineTwoU16 d0 d1;
               ch0 = ucast (drop_bit 18 codePoint OR 0xf0) :: u8;
               ch1 = ucast ((ucast (drop_bit 12 codePoint) AND 0x3f) OR 0x80 :: u64) :: u8;
               ch2 = ucast ((ucast (drop_bit 6 codePoint) AND 0x3f) OR 0x80 :: u64) :: u8;
               ch3 = ucast ((ucast codePoint AND 0x3f) OR 0x80 :: u64) :: u8
           in Some \<lparr>utf_n = 4, utf_ch = [ch0, ch1, ch2, ch3]\<rparr>)"

definition ConvertUtf16ToMUtf8 :: "u16 \<Rightarrow> u16 \<Rightarrow> Utf8Char option" where
  "ConvertUtf16ToMUtf8 d0 d1 = ConvertUtf16ToUtf8 d0 d1 True"

definition is_trail :: "u16 \<Rightarrow> bool" where
  "is_trail d \<longleftrightarrow> d \<ge> DECODE_TRAIL_LOW \<and> d \<le> DECODE_TRAIL_HIGH"

fun Utf16ToUtf8Size_loop :: "bool \<Rightarrow> u16 list \<Rightarrow> nat" where
  "Utf16ToUtf8Size_loop modify [] = 0"
| "Utf16ToUtf8Size_loop modify (d # utf16) =
     (if d = 0 then (if modify then 2 else 0) + Utf16ToUtf8Size_loop modify utf16
      else if d \<le> 0x7f then 1 + Utf16ToUtf8Size_loop modify utf16
      else if d \<le> 0x7ff then 2 + Utf16ToUtf8Size_loop modify utf16
      else if d < DECODE_LEAD_LOW \<or> d > DECODE_LEAD_HIGH then 3 + Utf16ToUtf8Size_loop modify utf16
      else case utf16 of
             t # rest \<Rightarrow> if is_trail t then 4 + Utf16ToUtf8Size_loop modify rest else 3 + Utf16ToUtf8Size_loop modify utf16
           | [] \<Rightarrow> 3)"

definition Utf16ToUtf8Size :: "u16 list \<Rightarrow> bool \<Rightarrow> nat" where
  "Utf16ToUtf8Size utf16 modify =
     (if length utf16 = 1 \<and> utf16 ! 0 \<ge> DECODE_LEAD_LOW \<and> utf16 ! 0 \<le> DECODE_TRAIL_HIGH then 1 + 3
      else 1 + Utf16ToUtf8Size_loop modify utf16)"

definition Utf16ToMUtf8Size :: "u16 list \<Rightarrow> nat" where
  "Utf16ToMUtf8Size mutf16 = Utf16ToUtf8Size mutf16 True"

text \<open>The list is the part of the string from \<open>i\<close> to \<open>end\<close>; \<open>utf8Pos\<close> bytes are written.\<close>

fun ConvertRegionUtf16ToUtf8_loop :: "bool \<Rightarrow> nat \<Rightarrow> nat \<Rightarrow> u16 list \<Rightarrow> u8 list option" where
  "ConvertRegionUtf16ToUtf8_loop modify utf8Len utf8Pos [] = Some []"
| "ConvertRegionUtf16ToUtf8_loop modify utf8Len utf8Pos (d # utf16) =
     (let next16Code = (case utf16 of [] \<Rightarrow> 0 | t # _ \<Rightarrow> if IsAvailableNextUtf16Code t then t else 0)
      in case ConvertUtf16ToUtf8 d next16Code modify of
           None \<Rightarrow> None
         | Some ch \<Rightarrow>
             if utf8Pos + utf_n ch > utf8Len then Some []
             else map_option (\<lambda>out. take (utf_n ch) (utf_ch ch) @ out)
               (if utf_n ch = 4 then (case utf16 of [] \<Rightarrow> Some [] | t # rest \<Rightarrow> ConvertRegionUtf16ToUtf8_loop modify utf8Len (utf8Pos + utf_n ch) rest)
                else ConvertRegionUtf16ToUtf8_loop modify utf8Len (utf8Pos + utf_n ch) utf16))"

definition ConvertRegionUtf16ToUtf8 :: "u16 list \<Rightarrow> nat \<Rightarrow> nat \<Rightarrow> nat \<Rightarrow> bool \<Rightarrow> u8 list option" where
  "ConvertRegionUtf16ToUtf8 utf16In utf16Len utf8Len start modify =
     (if utf8Len = 0 then Some []
      else if length utf16In < start + utf16Len then None
      else ConvertRegionUtf16ToUtf8_loop modify utf8Len 0 (take utf16Len (drop start utf16In)))"

definition ConvertRegionUtf16ToMUtf8 :: "u16 list \<Rightarrow> nat \<Rightarrow> nat \<Rightarrow> nat \<Rightarrow> u8 list option" where
  "ConvertRegionUtf16ToMUtf8 utf16In utf16Len mutf8Len start = ConvertRegionUtf16ToUtf8 utf16In utf16Len mutf8Len start True"

section \<open>Plain UTF-8\<close>

definition U16_SURROGATE_OFFSET :: u32 where
  "U16_SURROGATE_OFFSET = push_bit 10 0xd800 + 0xdc00 - 0x10000"

definition U16_GET_SUPPLEMENTARY :: "u32 \<Rightarrow> u32 \<Rightarrow> u32" where
  "U16_GET_SUPPLEMENTARY lead trail = push_bit 10 lead + trail - U16_SURROGATE_OFFSET"

definition ConvertUtf8ToUtf16Pair :: "u8 list \<Rightarrow> bool \<Rightarrow> (u32 \<times> nat) option" where
  "ConvertUtf8ToUtf16Pair data combine =
     (case rd data 0 of None \<Rightarrow> None | Some d0 \<Rightarrow>
      if d0 AND 0x80 = 0 then Some (ucast d0, 1)
      else case rd data 1 of None \<Rightarrow> None | Some d1 \<Rightarrow>
      let w = (\<lambda>d. ucast d :: u64) in
      if d0 AND 0x20 = 0 then Some (ucast (push_bit 6 (w d0 AND 0x1f) OR (w d1 AND 0x3f)), 2)
      else case rd data 2 of None \<Rightarrow> None | Some d2 \<Rightarrow>
      if d0 AND 0x10 = 0
      then Some (ucast (push_bit 12 (w d0 AND 0x0f) OR push_bit 6 (w d1 AND 0x3f) OR (w d2 AND 0x3f)), 3)
      else case rd data 3 of None \<Rightarrow> None | Some d3 \<Rightarrow>
      let codePoint = ucast (push_bit 18 (w d0 AND 0x0f) OR push_bit 12 (w d1 AND 0x3f)
                             OR push_bit 6 (w d2 AND 0x3f) OR (w d3 AND 0x3f)) :: u32;
          lead = ucast (drop_bit (16 - 6) codePoint) + 0xd7c0 :: u64;
          tail = ((ucast codePoint AND 0x03ff) + 0xdc00) AND 0xffff :: u64
      in Some (if combine then U16_GET_SUPPLEMENTARY (ucast lead) (ucast tail)
               else ucast (push_bit 16 lead) OR ucast tail, 4))"

definition Utf8ToUtf16Size :: "u8 list \<Rightarrow> nat \<Rightarrow> nat option" where
  "Utf8ToUtf16Size utf8 utf8Len = MUtf8ToUtf16Size_len utf8 utf8Len"

definition ConvertRegionUtf8ToUtf16 :: "u8 list \<Rightarrow> nat \<Rightarrow> u64 \<Rightarrow> u64 \<Rightarrow> (u64 \<times> u16 list) option" where
  "ConvertRegionUtf8ToUtf16 utf8In utf8Len utf16Len start = ConvertRegionMUtf8ToUtf16 utf8In utf8Len utf16Len start"

section \<open>Decimal numbers\<close>

definition BIDIGITS_CODE_TAB :: "u32 list" where
  "BIDIGITS_CODE_TAB = [
      0x00300030, 0x00310030, 0x00320030, 0x00330030, 0x00340030, 0x00350030, 0x00360030, 0x00370030, 0x00380030, 0x00390030,
      0x00300031, 0x00310031, 0x00320031, 0x00330031, 0x00340031, 0x00350031, 0x00360031, 0x00370031, 0x00380031, 0x00390031,
      0x00300032, 0x00310032, 0x00320032, 0x00330032, 0x00340032, 0x00350032, 0x00360032, 0x00370032, 0x00380032, 0x00390032,
      0x00300033, 0x00310033, 0x00320033, 0x00330033, 0x00340033, 0x00350033, 0x00360033, 0x00370033, 0x00380033, 0x00390033,
      0x00300034, 0x00310034, 0x00320034, 0x00330034, 0x00340034, 0x00350034, 0x00360034, 0x00370034, 0x00380034, 0x00390034,
      0x00300035, 0x00310035, 0x00320035, 0x00330035, 0x00340035, 0x00350035, 0x00360035, 0x00370035, 0x00380035, 0x00390035,
      0x00300036, 0x00310036, 0x00320036, 0x00330036, 0x00340036, 0x00350036, 0x00360036, 0x00370036, 0x00380036, 0x00390036,
      0x00300037, 0x00310037, 0x00320037, 0x00330037, 0x00340037, 0x00350037, 0x00360037, 0x00370037, 0x00380037, 0x00390037,
      0x00300038, 0x00310038, 0x00320038, 0x00330038, 0x00340038, 0x00350038, 0x00360038, 0x00370038, 0x00380038, 0x00390038,
      0x00300039, 0x00310039, 0x00320039, 0x00330039, 0x00340039, 0x00350039, 0x00360039, 0x00370039, 0x00380039, 0x00390039]"

text \<open>
  Two units are written at once through a 32-bit pointer, the low half first.  \<open>pos\<close> is the index of \<^verbatim>\<open>out[i]\<close> in units;
  \<open>None\<close> is a write before the start of the buffer.
\<close>

definition put_bidigits :: "u32 \<Rightarrow> nat \<Rightarrow> u16 list \<Rightarrow> (nat \<times> u16 list) option" where
  "put_bidigits code pos buf =
     (if pos < 2 then None else Some (pos - 2, buf[pos - 2 := ucast code, pos - 1 := ucast (drop_bit 16 code)]))"

function UInt64ToUtf16Array_loop :: "u64 \<Rightarrow> nat \<Rightarrow> u16 list \<Rightarrow> (u64 \<times> nat \<times> u16 list) option" where
  "UInt64ToUtf16Array_loop v pos buf =
     (if v \<ge> 100
      then (case put_bidigits (BIDIGITS_CODE_TAB ! unat (v mod 100)) pos buf of
              None \<Rightarrow> None
            | Some (pos, buf) \<Rightarrow> UInt64ToUtf16Array_loop (v div 100) pos buf)
      else Some (v, pos, buf))"
  by pat_completeness auto
termination
  by (relation "measure (\<lambda>(v, pos, buf). unat v)") (auto simp: unat_div word_le_nat_alt)

declare UInt64ToUtf16Array_loop.simps [simp del]

definition UInt64ToUtf16Array :: "u64 \<Rightarrow> u16 list \<Rightarrow> nat \<Rightarrow> bool \<Rightarrow> u16 list option" where
  "UInt64ToUtf16Array v outUtf16Buf nDigits negative =
     (case UInt64ToUtf16Array_loop v nDigits outUtf16Buf of
        None \<Rightarrow> None
      | Some (v, pos, buf) \<Rightarrow>
          map_option (\<lambda>buf. if negative then buf[0 := 0x2d] else buf)
            (if v \<ge> 10 then map_option snd (put_bidigits (BIDIGITS_CODE_TAB ! unat v) pos buf)
             else Some (buf[(if negative then 1 else 0) := ucast v + 0x30])))"

end
