(* ===== verification/UtfSound.thy ===== *)
theory UtfSound
  imports Utf
begin

text \<open>
  Properties of the string codings: the modified UTF-8 of a UTF-16 string decodes to it and has the announced size, the decimal
  printer writes the digits of its number, and the comparison of strings is an order of their characters.  The
  first section computes the bits of the codes: masks become \<open>take_bit\<close>, flags become single bits, and the value decoded
  from one, two, three or four bytes is shown bit by bit.
\<close>

section \<open>Bits of the codes\<close>

lemma and_masks:
  fixes x :: "'a::len word"
  shows "x AND 0x0f = take_bit 4 x" "x AND 0x1f = take_bit 5 x" "x AND 0x3f = take_bit 6 x" "x AND 0x3ff = take_bit 10 x" "x AND 0xffff = take_bit 16 x"
  by (simp_all add: take_bit_eq_mask mask_eq_exp_minus_1)

lemma and_flags:
  fixes x :: u8
  shows "x AND 0x80 = 0 \<longleftrightarrow> \<not> bit x 7" "x AND 0x20 = 0 \<longleftrightarrow> \<not> bit x 5" "x AND 0x10 = 0 \<longleftrightarrow> \<not> bit x 4" "x AND 0x08 = 0 \<longleftrightarrow> \<not> bit x 3"
  using and_exp_eq_0_iff_not_bit [of x 7] and_exp_eq_0_iff_not_bit [of x 5] and_exp_eq_0_iff_not_bit [of x 4]
    and_exp_eq_0_iff_not_bit [of x 3] by simp_all

lemma small_bits:
  fixes x :: "'a::len word"
  assumes "unat x < 2 ^ k" "bit x n"
  shows "n < k"
proof (rule ccontr)
  assume "\<not> n < k"
  then have "(2::nat) ^ k \<le> 2 ^ n" by (intro power_increasing) auto
  with assms(1) have "unat x div 2 ^ n = 0" by (intro div_less) (rule less_le_trans)
  with assms(2) show False by (simp add: bit_unat_iff)
qed

lemma two_bytes_value:
  fixes d0 :: u16
  assumes "unat d0 < 0x800"
  shows "(ucast (push_bit 6 (ucast (0xc0 OR ucast (drop_bit 6 d0) :: u8) AND 0x1f)
            OR (ucast (ucast (0x80 OR (ucast d0 AND 0x3f) :: u64) :: u8) AND 0x3f) :: u64) :: u32) = ucast d0"
proof -
  have b: "bit d0 n \<Longrightarrow> n < 11" for n using small_bits [of d0 11 n] assms by simp
  show ?thesis
    apply (simp only: and_masks unsigned_or_eq take_bit_or)
    apply simp
    apply (rule bit_word_eqI)
    subgoal for n
      by (cases "n < 6") (auto simp: bit_simps dest: b)
    done
qed

lemma three_bytes_value:
  fixes d0 :: u16
  shows "(ucast (push_bit (6 * 2) (ucast (0xe0 OR ucast (drop_bit 12 d0) :: u8) AND 0x0f)
            OR push_bit 6 (ucast (ucast (0x80 OR (ucast (ucast (drop_bit 6 d0) :: u8) AND 0x3f) :: u64) :: u8) AND 0x3f)
            OR (ucast (ucast (0x80 OR (ucast d0 AND 0x3f) :: u64) :: u8) AND 0x3f) :: u64) :: u32) = ucast d0"
proof -
  have b: "bit d0 n \<Longrightarrow> n < 16" for n using bit_imp_le_length [of d0 n] by simp
  show ?thesis
    apply (simp only: and_masks unsigned_or_eq take_bit_or)
    apply simp
    apply (rule bit_word_eqI)
    subgoal for n
      by (cases "n < 12"; cases "n < 6") (auto simp: bit_simps dest: b)
    done
qed

lemma four_bytes_value:
  fixes cp :: u32
  assumes "unat cp < 2 ^ 22"
  shows "(ucast (push_bit (6 * 3) (ucast (ucast (drop_bit 18 cp OR 0xf0) :: u8) AND 0x0f)
            OR push_bit (6 * 2) (ucast (ucast ((ucast (drop_bit 12 cp) AND 0x3f) OR 0x80 :: u64) :: u8) AND 0x3f)
            OR push_bit 6 (ucast (ucast ((ucast (drop_bit 6 cp) AND 0x3f) OR 0x80 :: u64) :: u8) AND 0x3f)
            OR (ucast (ucast ((ucast cp AND 0x3f) OR 0x80 :: u64) :: u8) AND 0x3f) :: u64) :: u32) = cp"
proof -
  have b: "bit cp n \<Longrightarrow> n < 22" for n using small_bits [of cp 22 n] assms by simp
  show ?thesis
    apply (simp only: and_masks unsigned_or_eq take_bit_or)
    apply simp
    apply (rule bit_word_eqI)
    subgoal for n
      by (cases "n < 18"; cases "n < 12"; cases "n < 6") (auto simp: bit_simps dest: b)
    done
qed

lemma CombineTwoU16_unat:
  assumes "0xD800 \<le> unat d0" "unat d0 \<le> 0xDBFF" "0xDC00 \<le> unat d1" "unat d1 \<le> 0xDFFF"
  shows "unat (CombineTwoU16 d0 d1) = (unat d0 - 0xD800) * 0x400 + (unat d1 - 0xDC00) + 0x10000"
proof -
  define a b where "a = ucast d0 - (ucast DECODE_LEAD_LOW :: u32)" and "b = ucast d1 - (ucast DECODE_TRAIL_LOW :: u32)"
  have a: "unat a = unat d0 - 0xD800"
    unfolding a_def by (subst unat_sub) (use assms in \<open>auto simp: word_le_nat_alt unat_ucast_up decode_limits\<close>)
  have b: "unat b = unat d1 - 0xDC00"
    unfolding b_def by (subst unat_sub) (use assms in \<open>auto simp: word_le_nat_alt unat_ucast_up decode_limits\<close>)
  have ab: "unat a < 2 ^ 10" "unat b < 2 ^ 10" using a b assms by simp_all
  have "push_bit 10 a OR b = push_bit 10 a + b"
    by (rule disjunctive_add [symmetric]) (auto simp: bit_simps dest: small_bits [OF ab(2)])
  moreover have "push_bit 10 a = a * 0x400" by (simp add: push_bit_eq_mult)
  moreover have "unat (a * 0x400 + b + 0x10000) = unat a * 0x400 + unat b + 0x10000"
    using ab by (simp add: unat_word_ariths)
  ultimately show ?thesis by (simp add: CombineTwoU16_def a_def [symmetric] b_def [symmetric] Let_def a b)
qed


text \<open>The pair of units a code point splits into.\<close>

definition split_code_point :: "u32 \<Rightarrow> u32" where
  "split_code_point cp =
     push_bit 16 (ucast ((ucast (drop_bit (16 - 6) cp) + 0xd7c0 :: u64) AND 0xffff)) OR ucast ((ucast cp AND 0x03ff :: u64) + 0xdc00)"

lemma split_CombineTwoU16:
  assumes "0xD800 \<le> unat d0" "unat d0 \<le> 0xDBFF" "0xDC00 \<le> unat d1" "unat d1 \<le> 0xDFFF"
  shows "split_code_point (CombineTwoU16 d0 d1) = push_bit 16 (ucast d0) OR ucast d1"
proof -
  let ?cp = "CombineTwoU16 d0 d1"
  note c = CombineTwoU16_unat [OF assms]
  have "unat (drop_bit 10 ?cp) = unat d0 - 0xD800 + 0x40" using assms by (simp add: unat_drop_bit c)
  then have "unat (ucast (drop_bit 10 ?cp) + 0xd7c0 :: u64) = unat d0"
    using assms by (simp add: unat_word_ariths unat_ucast_up)
  then have hi: "ucast (drop_bit 10 ?cp) + 0xd7c0 = (ucast d0 :: u64)" by (simp add: word_eq_iff_unat unat_ucast_up)
  obtain x y where xy: "unat d0 = 0xD800 + x" "unat d1 = 0xDC00 + y" using assms by (auto simp: le_iff_add)
  then have "y < 0x400" using assms by simp
  then have "(x * 0x400 + y + 0x40 * 0x400) mod 0x400 = y" by (simp only: mod_mult_self1 mod_mult_self3 mod_less)
  then have "unat ?cp mod 0x400 = unat d1 - 0xDC00" unfolding c xy by simp
  then have "unat (ucast ?cp AND 0x3ff :: u64) = unat d1 - 0xDC00"
    using unat_and_mask [of "ucast ?cp :: u64" 10] by (simp add: unat_ucast_up mask_eq_exp_minus_1)
  then have "unat ((ucast ?cp AND 0x3ff :: u64) + 0xdc00) = unat d1" using assms by (simp add: unat_word_ariths)
  then have lo: "(ucast ?cp AND 0x3ff :: u64) + 0xdc00 = ucast d1" by (simp add: word_eq_iff_unat unat_ucast_up)
  have "(ucast ((ucast d0 :: u64) AND 0xffff) :: u32) = ucast d0"
    by (simp only: and_masks) (rule bit_word_eqI, auto simp: bit_simps dest: bit_imp_le_length)
  moreover have "(ucast (ucast d1 :: u64) :: u32) = ucast d1" by (rule bit_word_eqI) (auto simp: bit_simps dest: bit_imp_le_length)
  ultimately show ?thesis by (simp add: split_code_point_def hi lo)
qed

lemma u16_no_bit: "\<not> bit (d :: u16) (16 + n)"
  using bit_imp_le_length [of d "16 + n"] by auto

lemma SplitUtf16Pair_pair: "SplitUtf16Pair (push_bit 16 (ucast d0) OR ucast d1) = (d0, d1)"
  unfolding SplitUtf16Pair_def and_masks
  by (auto intro!: bit_word_eqI simp: bit_simps u16_no_bit dest: bit_imp_le_length)

lemma SplitUtf16Pair_single: "SplitUtf16Pair (ucast d0) = (0, d0)"
  unfolding SplitUtf16Pair_def and_masks
  by (auto intro!: bit_word_eqI simp: bit_simps u16_no_bit dest: bit_imp_le_length)

text \<open>The value that is decoded from the code of a unit, or of a pair of units.\<close>

definition unit_pair :: "u16 \<Rightarrow> u16 \<Rightarrow> Utf8Char \<Rightarrow> u32" where
  "unit_pair d0 d1 ch = (if utf_n ch = 4 then push_bit 16 (ucast d0) OR ucast d1 else ucast d0)"

lemma head_bits:
  fixes d0 :: u16 and cp :: u32
  shows "bit (0xe0 OR ucast (drop_bit 12 d0) :: u8) 7" "bit (0xe0 OR ucast (drop_bit 12 d0) :: u8) 5" "\<not> bit (0xe0 OR ucast (drop_bit 12 d0) :: u8) 4"
    "bit (0xc0 OR ucast (drop_bit 6 d0) :: u8) 7" "unat d0 < 0x800 \<Longrightarrow> \<not> bit (0xc0 OR ucast (drop_bit 6 d0) :: u8) 5"
    "bit (ucast (drop_bit 18 cp OR 0xf0) :: u8) 7" "bit (ucast (drop_bit 18 cp OR 0xf0) :: u8) 5" "bit (ucast (drop_bit 18 cp OR 0xf0) :: u8) 4"
    "unat d0 < 0x80 \<Longrightarrow> \<not> bit (ucast d0 :: u8) 7"
proof -
  have b16: "\<not> bit d0 16" using bit_imp_le_length [of d0 16] by auto
  have b11: "unat d0 < 0x800 \<Longrightarrow> \<not> bit d0 11" using small_bits [of d0 11 11] by auto
  have b7: "unat d0 < 0x80 \<Longrightarrow> \<not> bit d0 7" using small_bits [of d0 7 7] by auto
  show "bit (0xe0 OR ucast (drop_bit 12 d0) :: u8) 7" "bit (0xe0 OR ucast (drop_bit 12 d0) :: u8) 5" "\<not> bit (0xe0 OR ucast (drop_bit 12 d0) :: u8) 4"
    "bit (0xc0 OR ucast (drop_bit 6 d0) :: u8) 7" "unat d0 < 0x800 \<Longrightarrow> \<not> bit (0xc0 OR ucast (drop_bit 6 d0) :: u8) 5"
    "bit (ucast (drop_bit 18 cp OR 0xf0) :: u8) 7" "bit (ucast (drop_bit 18 cp OR 0xf0) :: u8) 5" "bit (ucast (drop_bit 18 cp OR 0xf0) :: u8) 4"
    "unat d0 < 0x80 \<Longrightarrow> \<not> bit (ucast d0 :: u8) 7"
    using b16 b11 b7 by (simp_all add: bit_simps)
qed


lemmas u16_le_unat = word_le_nat_alt [where 'a = 16] word_less_nat_alt [where 'a = 16]

definition two_bytes :: "u16 \<Rightarrow> u8 list" where
  "two_bytes d0 = [0xc0 OR ucast (drop_bit 6 d0), ucast (0x80 OR (ucast d0 AND 0x3f) :: u64)]"

definition four_bytes :: "u32 \<Rightarrow> u8 list" where
  "four_bytes cp = [ucast (drop_bit 18 cp OR 0xf0), ucast ((ucast (drop_bit 12 cp) AND 0x3f) OR 0x80 :: u64),
     ucast ((ucast (drop_bit 6 cp) AND 0x3f) OR 0x80 :: u64), ucast ((ucast cp AND 0x3f) OR 0x80 :: u64)]"

lemma ConvertUtf16ToUtf8_cases:
  assumes "ConvertUtf16ToUtf8 d0 d1 True = Some ch"
  obtains (three) "ch = three_bytes d0" "\<not> (IsUTF16SurrogatePair d0 \<and> is_trail d1)" "unat d0 \<ge> 0x800"
  | (zero) "d0 = 0" "ch = \<lparr>utf_n = 2, utf_ch = [0xc0, 0x80]\<rparr>"
  | (one) "unat d0 < 0x80" "d0 \<noteq> 0" "ch = \<lparr>utf_n = 1, utf_ch = [ucast d0]\<rparr>"
  | (two) "unat d0 < 0x800" "unat d0 \<ge> 0x80" "ch = \<lparr>utf_n = 2, utf_ch = two_bytes d0\<rparr>"
  | (four) "IsUTF16SurrogatePair d0" "is_trail d1" "ch = \<lparr>utf_n = 4, utf_ch = four_bytes (CombineTwoU16 d0 d1)\<rparr>"
  using assms by (auto simp: ConvertUtf16ToUtf8_def IsUTF16SurrogatePair_def is_trail_def decode_limits Let_def u16_le_unat
      not_le two_bytes_def four_bytes_def split: if_splits)

lemma decode_three: "3 \<le> left \<Longrightarrow> ConvertMUtf8ToUtf16Pair (utf_ch (three_bytes d0) @ rest) left = Some (ucast d0, 3)"
  using three_bytes_value [of d0] head_bits(1,2,3) [of d0]
  by (simp only: three_bytes_def Let_def Utf8Char.simps append_Cons) (simp add: ConvertMUtf8ToUtf16Pair_def rd_def and_flags)

lemma decode_zero: "2 \<le> left \<Longrightarrow> ConvertMUtf8ToUtf16Pair ([0xc0, 0x80] @ rest) left = Some (0, 2)"
  by (simp add: ConvertMUtf8ToUtf16Pair_def rd_def)

lemma decode_one: "1 \<le> left \<Longrightarrow> unat d0 < 0x80 \<Longrightarrow> ConvertMUtf8ToUtf16Pair ([ucast d0] @ rest) left = Some (ucast (d0 :: u16), 1)"
proof -
  assume d: "unat d0 < 0x80"
  have b: "bit d0 n \<Longrightarrow> n < 7" for n using small_bits [of d0 7 n] d by simp
  have "(ucast (ucast d0 :: u8) :: u32) = ucast d0" by (rule bit_word_eqI) (auto simp: bit_simps dest: b)
  with head_bits(9) [OF d] show ?thesis by (simp add: ConvertMUtf8ToUtf16Pair_def rd_def and_flags)
qed

lemma decode_two: "2 \<le> left \<Longrightarrow> unat d0 < 0x800 \<Longrightarrow> ConvertMUtf8ToUtf16Pair (two_bytes d0 @ rest) left = Some (ucast d0, 2)"
  using two_bytes_value [of d0] head_bits(4,5) [of d0]
  by (simp only: two_bytes_def append_Cons) (simp add: ConvertMUtf8ToUtf16Pair_def rd_def and_flags)

lemma decode_four:
  "4 \<le> left \<Longrightarrow> unat cp < 2 ^ 22 \<Longrightarrow> ConvertMUtf8ToUtf16Pair (four_bytes cp @ rest) left = Some (split_code_point cp, 4)"
  using four_bytes_value [of cp] head_bits(6,7,8) [of cp]
  by (simp only: four_bytes_def append_Cons) (simp add: ConvertMUtf8ToUtf16Pair_def rd_def and_flags split_code_point_def Let_def)

lemma CombineTwoU16_surrogates:
  assumes "IsUTF16SurrogatePair d0" "is_trail d1"
  shows "unat (CombineTwoU16 d0 d1) < 0x110000" "split_code_point (CombineTwoU16 d0 d1) = push_bit 16 (ucast d0) OR ucast d1"
proof -
  have a: "0xD800 \<le> unat d0" "unat d0 \<le> 0xDBFF" "0xDC00 \<le> unat d1" "unat d1 \<le> 0xDFFF"
    using assms by (auto simp: IsUTF16SurrogatePair_def is_trail_def decode_limits u16_le_unat)
  show "unat (CombineTwoU16 d0 d1) < 0x110000" using a by (simp add: CombineTwoU16_unat [OF a])
  show "split_code_point (CombineTwoU16 d0 d1) = push_bit 16 (ucast d0) OR ucast d1" by (rule split_CombineTwoU16 [OF a])
qed

lemma three_bytes_simps [simp]: "utf_n (three_bytes d0) = 3" "length (utf_ch (three_bytes d0)) = 3"
  by (simp_all add: three_bytes_def Let_def)

lemma bytes_length [simp]: "length (two_bytes d0) = 2" "length (four_bytes cp) = 4"
  by (simp_all add: two_bytes_def four_bytes_def)

lemma lead_large: "IsUTF16SurrogatePair d0 \<Longrightarrow> unat d0 \<ge> 0xD800"
  by (simp add: IsUTF16SurrogatePair_def decode_limits u16_le_unat)

lemma decode_unit:
  assumes e: "ConvertUtf16ToUtf8 d0 d1 True = Some ch" and left: "utf_n ch \<le> left"
  shows "length (utf_ch ch) = utf_n ch \<and> ConvertMUtf8ToUtf16Pair (utf_ch ch @ rest) left = Some (unit_pair d0 d1 ch, utf_n ch)
    \<and> (utf_n ch = 4 \<longleftrightarrow> IsUTF16SurrogatePair d0 \<and> is_trail d1) \<and> utf_n ch > 0"
  using e
proof (cases rule: ConvertUtf16ToUtf8_cases)
  case three
  then show ?thesis using decode_three [of left d0 rest] left by (simp add: unit_pair_def)
next
  case zero
  then show ?thesis using decode_zero [of left rest] left lead_large [of d0] by (auto simp: unit_pair_def)
next
  case one
  then show ?thesis using decode_one [of left d0 rest] left lead_large [of d0] by (auto simp: unit_pair_def)
next
  case two
  then show ?thesis using decode_two [of left d0 rest] left lead_large [of d0] by (auto simp: unit_pair_def)
next
  case four
  then show ?thesis
    using decode_four [of left "CombineTwoU16 d0 d1" rest] left CombineTwoU16_surrogates [OF four(1,2)] by (simp add: unit_pair_def)
qed

lemma unit_pair_split: "SplitUtf16Pair (unit_pair d0 d1 ch) = (if utf_n ch = 4 then (d0, d1) else (0, d0))"
  by (simp add: unit_pair_def SplitUtf16Pair_pair SplitUtf16Pair_single)

lemma pair_units_unit:
  assumes "IsUTF16SurrogatePair d0 \<or> utf_n ch \<noteq> 4"
  shows "pair_units (unit_pair d0 d1 ch) = (if utf_n ch = 4 then 2 else 1)"
proof -
  have hi: "pair > 0xffff \<longleftrightarrow> fst (SplitUtf16Pair pair) \<noteq> 0" for pair :: u32
  proof -
    have "unat pair < 2 ^ LENGTH(32)" by (rule unsigned_less)
    then have "unat (drop_bit 16 pair) < 2 ^ 16" by (simp add: unat_drop_bit)
    then have "(ucast (drop_bit 16 pair) :: u16) = 0 \<longleftrightarrow> drop_bit 16 pair = 0"
      by (simp add: word_eq_iff_unat unsigned_ucast_eq take_bit_nat_eq_self)
    also have "\<dots> \<longleftrightarrow> unat pair div 2 ^ 16 = 0" by (simp add: word_eq_iff_unat unat_drop_bit)
    finally show ?thesis by (auto simp: SplitUtf16Pair_def word_less_nat_alt div_eq_0_iff)
  qed
  show ?thesis using assms lead_large [of d0] by (auto simp: pair_units_def hi unit_pair_split)
qed

text \<open>The strings the encoder accepts: no lead surrogate is followed by another lead surrogate.\<close>

definition no_double_lead :: "u16 list \<Rightarrow> bool" where
  "no_double_lead = successively (\<lambda>d t. \<not> (IsUTF16SurrogatePair d \<and> IsUTF16SurrogatePair t))"

definition next_unit :: "u16 list \<Rightarrow> u16" where
  "next_unit utf16 = (case utf16 of [] \<Rightarrow> 0 | t # _ \<Rightarrow> if IsAvailableNextUtf16Code t then t else 0)"

lemma available_iff: "IsAvailableNextUtf16Code t \<longleftrightarrow> IsUTF16SurrogatePair t \<or> is_trail t"
  by (auto simp: IsAvailableNextUtf16Code_def IsUTF16SurrogatePair_def is_trail_def decode_limits u16_le_unat)

lemma surrogate_facts: "is_trail t \<Longrightarrow> t \<noteq> 0 \<and> \<not> IsUTF16SurrogatePair t" "IsUTF16SurrogatePair t \<Longrightarrow> t \<noteq> 0"
  by (auto simp: IsUTF16SurrogatePair_def is_trail_def decode_limits u16_le_unat)

lemma ConvertUtf16ToUtf8_None:
  "ConvertUtf16ToUtf8 d0 d1 modify = None \<longleftrightarrow> IsUTF16SurrogatePair d0 \<and> d1 \<noteq> 0 \<and> \<not> is_trail d1"
  by (auto simp: ConvertUtf16ToUtf8_def IsUTF16SurrogatePair_def is_trail_def decode_limits u16_le_unat Let_def)

lemma next_unit_None: "ConvertUtf16ToUtf8 d (next_unit utf16) modify = None \<longleftrightarrow>
   IsUTF16SurrogatePair d \<and> utf16 \<noteq> [] \<and> IsUTF16SurrogatePair (hd utf16)"
  by (auto simp: ConvertUtf16ToUtf8_None next_unit_def available_iff dest: surrogate_facts split: list.splits)

lemma lead_range: "d < DECODE_LEAD_LOW \<or> d > DECODE_LEAD_HIGH \<longleftrightarrow> \<not> IsUTF16SurrogatePair d"
  by (auto simp: IsUTF16SurrogatePair_def)

lemma small_units:
  "d \<le> (0x7f :: u16) \<longleftrightarrow> unat d < 0x80" "d \<le> (0x7ff :: u16) \<longleftrightarrow> unat d < 0x800"
  by (simp_all add: u16_le_unat less_Suc_eq_le [symmetric])

lemma is_trail_next: "is_trail (next_unit utf16) \<longleftrightarrow> utf16 \<noteq> [] \<and> is_trail (hd utf16)"
  by (auto simp: next_unit_def available_iff split: list.splits dest: surrogate_facts)

lemma unit_size:
  assumes "ConvertUtf16ToUtf8 d (next_unit utf16) True = Some ch"
  shows "Utf16ToUtf8Size_loop True (d # utf16) = utf_n ch + Utf16ToUtf8Size_loop True (if utf_n ch = 4 then tl utf16 else utf16)"
  using assms
proof (cases rule: ConvertUtf16ToUtf8_cases)
  case three
  then have "d \<noteq> 0" "\<not> d \<le> 0x7f" "\<not> d \<le> 0x7ff" by (auto simp: small_units)
  with three show ?thesis by (cases utf16) (auto simp: lead_range is_trail_next)
next
  case four
  then have "d \<noteq> 0" "\<not> d \<le> 0x7f" "\<not> d \<le> 0x7ff" using lead_large [of d] by (auto simp: small_units)
  with four show ?thesis by (cases utf16) (auto simp: lead_range is_trail_next)
qed (auto simp: small_units)

lemma region_loop_Cons:
  "ConvertRegionUtf16ToUtf8_loop modify utf8Len utf8Pos (d # utf16) =
     (case ConvertUtf16ToUtf8 d (next_unit utf16) modify of
        None \<Rightarrow> None
      | Some ch \<Rightarrow>
          if utf8Pos + utf_n ch > utf8Len then Some []
          else map_option (\<lambda>out. take (utf_n ch) (utf_ch ch) @ out)
            (if utf_n ch = 4 \<and> utf16 = [] then Some []
             else ConvertRegionUtf16ToUtf8_loop modify utf8Len (utf8Pos + utf_n ch) (if utf_n ch = 4 then tl utf16 else utf16)))"
  unfolding ConvertRegionUtf16ToUtf8_loop.simps(2) Let_def next_unit_def [symmetric]
  by (cases utf16; cases "ConvertUtf16ToUtf8 d (next_unit utf16) modify") (simp_all del: ConvertRegionUtf16ToUtf8_loop.simps(2))

lemma encode_decode:
  "no_double_lead s \<Longrightarrow> utf8Pos + Utf16ToUtf8Size_loop True s \<le> utf8Len \<Longrightarrow>
   \<exists>bs. ConvertRegionUtf16ToUtf8_loop True utf8Len utf8Pos s = Some bs \<and> length bs = Utf16ToUtf8Size_loop True s
     \<and> (\<forall>rest. ConvertMUtf8ToUtf16 (bs @ rest) (length bs) = Some s \<and> MUtf8ToUtf16Size_len (bs @ rest) (length bs) = Some (length s))"
proof (induction s arbitrary: utf8Pos rule: length_induct)
  case (1 s)
  show ?case
  proof (cases s)
    case Nil
    then show ?thesis by (simp add: ConvertMUtf8ToUtf16.simps MUtf8ToUtf16Size_len.simps)
  next
    case (Cons d utf16)
    have "ConvertUtf16ToUtf8 d (next_unit utf16) True \<noteq> None"
      using "1.prems"(1) by (cases utf16) (auto simp: next_unit_None Cons no_double_lead_def)
    then obtain ch where ch: "ConvertUtf16ToUtf8 d (next_unit utf16) True = Some ch" by blast
    define rest16 where "rest16 = (if utf_n ch = 4 then tl utf16 else utf16)"
    note size = unit_size [OF ch, folded rest16_def]
    note dec = decode_unit [OF ch]
    have four: "utf_n ch = 4 \<longleftrightarrow> IsUTF16SurrogatePair d \<and> utf16 \<noteq> [] \<and> is_trail (hd utf16)" using dec [of "utf_n ch"] by (auto simp: is_trail_next)
    have s_eq: "s = (if utf_n ch = 4 then [d, next_unit utf16] else [d]) @ rest16"
      using four by (cases utf16) (auto simp: Cons rest16_def next_unit_def available_iff)
    have nd: "no_double_lead rest16"
      using "1.prems"(1) by (cases utf16; cases "tl utf16") (auto simp: Cons rest16_def no_double_lead_def)
    have lt: "length rest16 < length s" by (simp add: Cons rest16_def le_imp_less_Suc)
    have fits: "(utf8Pos + utf_n ch) + Utf16ToUtf8Size_loop True rest16 \<le> utf8Len"
      using "1.prems"(2) unfolding Cons size by (simp only: add.assoc)
    from "1.IH" [rule_format, OF lt nd fits] obtain bs where
      bs: "ConvertRegionUtf16ToUtf8_loop True utf8Len (utf8Pos + utf_n ch) rest16 = Some bs" "length bs = Utf16ToUtf8Size_loop True rest16"
      "\<And>rest. ConvertMUtf8ToUtf16 (bs @ rest) (length bs) = Some rest16" "\<And>rest. MUtf8ToUtf16Size_len (bs @ rest) (length bs) = Some (length rest16)"
      by blast
    have loop: "ConvertRegionUtf16ToUtf8_loop True utf8Len utf8Pos s = Some (utf_ch ch @ bs)"
    proof -
      have "\<not> (utf_n ch = 4 \<and> utf16 = [])" "length (utf_ch ch) = utf_n ch" "\<not> utf8Pos + utf_n ch > utf8Len"
        using four dec [of "utf_n ch"] fits by auto
      then show ?thesis unfolding Cons region_loop_Cons ch using bs(1) by (cases "utf_n ch = 4") (simp_all add: rest16_def)
    qed
    have "ConvertMUtf8ToUtf16 ((utf_ch ch @ bs) @ rest) (length (utf_ch ch @ bs)) = Some s
        \<and> MUtf8ToUtf16Size_len ((utf_ch ch @ bs) @ rest) (length (utf_ch ch @ bs)) = Some (length s)" for rest
    proof -
      have p: "ConvertMUtf8ToUtf16Pair (utf_ch ch @ bs @ rest) (utf_n ch + length bs) = Some (unit_pair d (next_unit utf16) ch, utf_n ch)"
        and len: "length (utf_ch ch) = utf_n ch" "0 < utf_n ch" using dec [of "utf_n ch + length bs" "bs @ rest"] by simp_all
      have dr: "drop (utf_n ch) (utf_ch ch @ bs @ rest) = bs @ rest" using len by simp
      have pu: "pair_units (unit_pair d (next_unit utf16) ch) = (if utf_n ch = 4 then 2 else 1)" using four by (intro pair_units_unit) auto
      have d0: "utf_n ch = 4 \<Longrightarrow> d \<noteq> 0" using four surrogate_facts by auto
      have "ConvertMUtf8ToUtf16 (utf_ch ch @ bs @ rest) (utf_n ch + length bs) = Some s"
        using len d0 by (subst ConvertMUtf8ToUtf16.simps) (simp add: p dr unit_pair_split bs(3), simp add: s_eq)
      moreover have "MUtf8ToUtf16Size_len (utf_ch ch @ bs @ rest) (utf_n ch + length bs) = Some (length s)"
        using len by (subst MUtf8ToUtf16Size_len.simps) (simp add: p dr pu bs(4), simp add: s_eq)
      ultimately show ?thesis using len by simp
    qed
    with loop bs(2) size dec [of "utf_n ch" "[]"] show ?thesis
      by (intro exI [of _ "utf_ch ch @ bs"]) (simp add: Cons del: Utf16ToUtf8Size_loop.simps)
  qed
qed


lemma size_loop: "Utf16ToMUtf8Size s = 1 + Utf16ToUtf8Size_loop True s"
proof (cases "length s = 1 \<and> s ! 0 \<ge> DECODE_LEAD_LOW \<and> s ! 0 \<le> DECODE_TRAIL_HIGH")
  case True
  then obtain d where s: "s = [d]" by (auto simp: length_Suc_conv)
  with True have "unat d \<ge> 0xD800" by (simp add: decode_limits u16_le_unat)
  then have "d \<noteq> 0" "\<not> d \<le> 0x7f" "\<not> d \<le> 0x7ff" by (auto simp: small_units)
  with True s show ?thesis by (simp add: Utf16ToMUtf8Size_def Utf16ToUtf8Size_def)
next
  case False
  then show ?thesis by (auto simp: Utf16ToMUtf8Size_def Utf16ToUtf8Size_def)
qed

text \<open>
  C14: Modified UTF-8 round trip.  A UTF-16 string without two adjacent lead surrogates (lone surrogates are allowed) is
  encoded into a buffer of the announced size, without the terminating zero the size accounts for; decoding the bytes
  gives the string back, and the size computed from the bytes is its length.
\<close>

theorem mutf8_roundtrip:
  assumes "no_double_lead s" "Utf16ToMUtf8Size s - 1 \<le> mutf8Len" "0 < mutf8Len"
  shows "\<exists>bs. ConvertRegionUtf16ToMUtf8 s (length s) mutf8Len 0 = Some bs \<and> length bs + 1 = Utf16ToMUtf8Size s
     \<and> ConvertMUtf8ToUtf16 bs (length bs) = Some s \<and> MUtf8ToUtf16Size_len bs (length bs) = Some (length s)"
proof -
  from encode_decode [OF assms(1), of 0 mutf8Len] assms(2) obtain bs where
    "ConvertRegionUtf16ToUtf8_loop True mutf8Len 0 s = Some bs" "length bs = Utf16ToUtf8Size_loop True s"
    "\<And>rest. ConvertMUtf8ToUtf16 (bs @ rest) (length bs) = Some s \<and> MUtf8ToUtf16Size_len (bs @ rest) (length bs) = Some (length s)"
    by (auto simp: size_loop)
  moreover from this(3) [of "[]"] have "ConvertMUtf8ToUtf16 bs (length bs) = Some s" "MUtf8ToUtf16Size_len bs (length bs) = Some (length s)"
    by simp_all
  ultimately show ?thesis using assms(3) by (simp add: ConvertRegionUtf16ToMUtf8_def ConvertRegionUtf16ToUtf8_def size_loop)
qed

theorem mutf8_roundtrip_witness:
  "\<exists>bs. ConvertRegionUtf16ToMUtf8 [0x41, 0, 0xD83D, 0xDE00, 0xD800, 0x20AC] 6 13 0 = Some bs \<and> length bs = 13
     \<and> ConvertMUtf8ToUtf16 bs 13 = Some [0x41, 0, 0xD83D, 0xDE00, 0xD800, 0x20AC]"
proof -
  let ?s = "[0x41, 0, 0xD83D, 0xDE00, 0xD800, 0x20AC] :: u16 list"
  have n: "no_double_lead ?s" by (simp add: no_double_lead_def IsUTF16SurrogatePair_def decode_limits)
  have z: "Utf16ToMUtf8Size ?s = 14" by (simp add: size_loop decode_limits is_trail_def)
  from mutf8_roundtrip [OF n, of 13] z show ?thesis by (auto simp: numeral_eq_Suc)
qed

text \<open>
  C36: Two adjacent lead surrogates make the encoder reach its \<^verbatim>\<open>UNREACHABLE()\<close>: \<^verbatim>\<open>IsAvailableNextUtf16Code\<close> accepts any surrogate as
  the second unit of a pair, although \<^verbatim>\<open>Utf16ToMUtf8Size\<close> announces three bytes for each of the units.
\<close>

theorem adjacent_leads_abort:
  assumes "IsUTF16SurrogatePair a" "IsUTF16SurrogatePair b" "0 < mutf8Len"
  shows "ConvertRegionUtf16ToMUtf8 (a # b # rest) (length (a # b # rest)) mutf8Len 0 = None \<and> Utf16ToMUtf8Size [a, b] = 7"
proof -
  have "ConvertUtf16ToUtf8 a (next_unit (b # rest)) True = None" using assms by (simp add: next_unit_None)
  then have "ConvertRegionUtf16ToMUtf8 (a # b # rest) (length (a # b # rest)) mutf8Len 0 = None"
    using assms(3) by (simp add: ConvertRegionUtf16ToMUtf8_def ConvertRegionUtf16ToUtf8_def region_loop_Cons del: ConvertRegionUtf16ToUtf8_loop.simps)
  moreover have "x \<noteq> 0" "\<not> x \<le> 0x7f" "\<not> x \<le> 0x7ff" if "IsUTF16SurrogatePair x" for x using lead_large [OF that] by (auto simp: small_units)
  with assms surrogate_facts(1) [of b] have "Utf16ToMUtf8Size [a, b] = 7" by (auto simp: size_loop lead_range)
  ultimately show ?thesis ..
qed

theorem adjacent_leads_abort_witness: "ConvertRegionUtf16ToMUtf8 [0xD800, 0xD801, 0x41] 3 64 0 = None \<and> Utf16ToMUtf8Size [0xD800, 0xD801] = 7"
  using adjacent_leads_abort [of "0xD800" "0xD801" 64 "[0x41]"] by (simp add: IsUTF16SurrogatePair_def decode_limits numeral_3_eq_3)

section \<open>Decimal digits\<close>

fun decimal :: "nat \<Rightarrow> u16 list" where
  "decimal v = (if v < 10 then [of_nat v + 0x30] else decimal (v div 10) @ [of_nat (v mod 10) + 0x30])"

declare decimal.simps [simp del]

lemma length_tab: "length BIDIGITS_CODE_TAB = 100"
  by (simp add: BIDIGITS_CODE_TAB_def)

lemma tab_entries:
  "list_all (\<lambda>(k, code). (ucast code :: u16) = of_nat (k div 10) + 0x30 \<and> (ucast (drop_bit 16 code) :: u16) = of_nat (k mod 10) + 0x30)
     (zip [0..<100] BIDIGITS_CODE_TAB)"
  by (simp add: BIDIGITS_CODE_TAB_def upt_rec)

lemma tab_digits:
  assumes "k < 100"
  shows "(ucast (BIDIGITS_CODE_TAB ! k) :: u16) = of_nat (k div 10) + 0x30"
    "(ucast (drop_bit 16 (BIDIGITS_CODE_TAB ! k)) :: u16) = of_nat (k mod 10) + 0x30"
  using tab_entries assms by (auto simp: list_all_length length_tab)


lemma decimal_100: "100 \<le> v \<Longrightarrow> decimal v = decimal (v div 100) @ [of_nat (v mod 100 div 10) + 0x30, of_nat (v mod 100 mod 10) + 0x30]"
proof -
  assume v: "100 \<le> v"
  then have "\<not> v div 10 < 10" by (simp add: not_less less_eq_div_iff_mult_less_eq)
  with v have "decimal v = decimal (v div 10 div 10) @ [of_nat (v div 10 mod 10) + 0x30] @ [of_nat (v mod 10) + 0x30]"
    by (subst decimal.simps, subst decimal.simps) simp
  moreover have "v div 10 mod 10 = v mod 100 div 10" "v mod 10 = v mod 100 mod 10"
    using mod_mult2_eq [of v 10 10] by (simp_all add: mod_mod_cancel)
  ultimately show ?thesis by (simp add: div_mult2_eq [symmetric])
qed

lemma decimal_10: "10 \<le> v \<Longrightarrow> v < 100 \<Longrightarrow> decimal v = [of_nat (v div 10) + 0x30, of_nat (v mod 10) + 0x30]"
  by (subst decimal.simps, subst decimal.simps) (simp add: div_less_iff_less_mult)

lemma decimal_1: "v < 10 \<Longrightarrow> decimal v = [of_nat v + 0x30]"
  by (subst decimal.simps) simp

lemma update_two:
  assumes "2 \<le> pos" "pos \<le> length buf"
  shows "buf[pos - 2 := a, pos - Suc 0 := b] = take (pos - 2) buf @ [a, b] @ drop pos buf"
proof -
  have s: "Suc (pos - 2) = pos - Suc 0" "Suc (pos - Suc 0) = pos" using assms(1) by simp_all
  have d: "drop (pos - Suc 0) buf = buf ! (pos - Suc 0) # drop pos buf" using Cons_nth_drop_Suc [of "pos - Suc 0" buf] assms s by simp
  have "buf[pos - 2 := a] = take (pos - 2) buf @ a # buf ! (pos - Suc 0) # drop pos buf"
    using assms by (simp add: upd_conv_take_nth_drop s d)
  moreover have "length (take (pos - 2) buf @ [a]) = pos - Suc 0" using assms by simp
  ultimately show ?thesis using list_update_length [of "take (pos - 2) buf @ [a]" "buf ! (pos - Suc 0)" "drop pos buf" b] by (simp add: s)
qed

lemma digits_loop:
  "length (decimal (unat v)) \<le> pos \<Longrightarrow> pos \<le> length buf \<Longrightarrow>
   \<exists>v' ds. UInt64ToUtf16Array_loop v pos buf = Some (v', pos - length ds, take (pos - length ds) buf @ ds @ drop pos buf)
     \<and> decimal (unat v) = decimal (unat v') @ ds \<and> unat v' < 100"
proof (induction v pos buf rule: UInt64ToUtf16Array_loop.induct)
  case (1 v pos buf)
  show ?case
  proof (cases "v \<ge> 100")
    case True
    define k where "k = unat v mod 100"
    let ?ds = "[of_nat (k div 10) + 0x30, of_nat (k mod 10) + 0x30]"
    have v100: "100 \<le> unat v" and un: "unat (v mod 100) = k" "unat (v div 100) = unat v div 100"
      using True by (simp_all add: word_le_nat_alt unat_mod unat_div k_def)
    note dec = decimal_100 [OF v100, folded k_def]
    have pos: "2 \<le> pos" "length (decimal (unat v div 100)) \<le> pos - 2" using "1.prems"(1) dec by simp_all
    define buf1 where "buf1 = take (pos - 2) buf @ ?ds @ drop pos buf"
    have k: "k < 100" by (simp add: k_def)
    have put: "put_bidigits (BIDIGITS_CODE_TAB ! unat (v mod 100)) pos buf = Some (pos - 2, buf1)"
      using pos "1.prems"(2) by (simp add: put_bidigits_def un tab_digits [OF k] update_two buf1_def)
    have len1: "pos - 2 \<le> length buf1" using "1.prems"(2) by (simp add: buf1_def)
    from "1.IH" [OF True put refl, unfolded un(2), OF pos(2) len1] obtain v' ds where
      ih: "UInt64ToUtf16Array_loop (v div 100) (pos - 2) buf1 =
        Some (v', pos - 2 - length ds, take (pos - 2 - length ds) buf1 @ ds @ drop (pos - 2) buf1)"
      "decimal (unat v div 100) = decimal (unat v') @ ds" "unat v' < 100" by auto
    have "pos - 2 - length ds = pos - length (ds @ ?ds)" "pos - 2 - length ds \<le> pos - 2" by simp_all
    then have "take (pos - 2 - length ds) buf1 = take (pos - length (ds @ ?ds)) buf"
      using "1.prems"(2) pos by (simp only: buf1_def take_append take_take min_absorb1 length_take) simp
    moreover have "drop (pos - 2) buf1 = ?ds @ drop pos buf" using "1.prems"(2) by (simp add: buf1_def)
    ultimately show ?thesis
      using True put ih dec by (subst UInt64ToUtf16Array_loop.simps) (intro exI [of _ v'] exI [of _ "ds @ ?ds"], simp)
  next
    case False
    then show ?thesis using "1.prems"
      by (subst UInt64ToUtf16Array_loop.simps) (intro exI [of _ v] exI [of _ "[]"], simp add: word_le_nat_alt)
  qed
qed

text \<open>
  \<^verbatim>\<open>UInt64ToUtf16Array\<close> writes the decimal digits of a number, most significant first and with a leading minus when
  \<^verbatim>\<open>negative\<close> is set, into a buffer of exactly that many units.
\<close>

theorem UInt64ToUtf16Array_decimal:
  assumes "length buf = length (decimal (unat v)) + (if negative then 1 else 0)"
  shows "UInt64ToUtf16Array v buf (length buf) negative = Some ((if negative then [0x2d] else []) @ decimal (unat v))"
proof -
  from digits_loop [of v "length buf" buf] assms obtain v' ds where
    l: "UInt64ToUtf16Array_loop v (length buf) buf = Some (v', length buf - length ds, take (length buf - length ds) buf @ ds)"
    and d: "decimal (unat v) = decimal (unat v') @ ds" "unat v' < 100" by auto
  have pos: "length buf - length ds = length (decimal (unat v')) + (if negative then 1 else 0)" using assms d(1) by simp
  define pre where "pre = take (length buf - length ds) buf"
  have l': "UInt64ToUtf16Array_loop v (length buf) buf = Some (v', length pre, pre @ ds)" by (simp add: l pre_def)
  have lp: "length pre = length (decimal (unat v')) + (if negative then 1 else 0)" using pos by (simp add: pre_def)
  show ?thesis
  proof (cases "unat v' < 10")
    case True
    then have dv: "decimal (unat v') = [ucast v' + 0x30]" by (simp add: decimal_1)
    with lp obtain p q where "pre = (if negative then [p, q] else [q])" by (cases pre; cases "tl pre") (auto split: if_splits)
    then show ?thesis using True dv d by (simp add: UInt64ToUtf16Array_def l' word_le_nat_alt)
  next
    case False
    have dv: "decimal (unat v') = [of_nat (unat v' div 10) + 0x30, of_nat (unat v' mod 10) + 0x30]"
      using False d(2) by (simp add: decimal_10)
    with lp obtain p x y where "pre = (if negative then [p, x, y] else [x, y])"
      by (cases pre; cases "tl pre"; cases "tl (tl pre)") (auto split: if_splits)
    then show ?thesis using False dv d
      by (simp add: UInt64ToUtf16Array_def l' word_le_nat_alt put_bidigits_def tab_digits [OF d(2)])
  qed
qed

theorem UInt64ToUtf16Array_decimal_witness:
  "UInt64ToUtf16Array 305 [0, 0, 0, 0] 4 True = Some [0x2d, 0x33, 0x30, 0x35]"
proof -
  have d: "decimal 305 = [0x33, 0x30, 0x35]" by (simp add: decimal.simps)
  have l: "length [0, 0, 0, 0 :: u16] = 4" by simp
  show ?thesis using UInt64ToUtf16Array_decimal [of "[0, 0, 0, 0]" 305 True, unfolded l] by (simp add: d)
qed

section \<open>Comparison\<close>

text \<open>The characters of a zero-terminated string, a pair of surrogates as one number.\<close>

function characters :: "u8 list \<Rightarrow> u32 list option" where
  "characters mutf8 =
     (case rd mutf8 0 of
        None \<Rightarrow> None
      | Some b \<Rightarrow>
          if b = 0 then Some []
          else (case ConvertMUtf8ToUtf16Pair mutf8 4 of
                  None \<Rightarrow> None
                | Some (pair, nbytes) \<Rightarrow> map_option ((#) pair) (characters (drop nbytes mutf8))))"
  by pat_completeness auto
termination by (relation "measure length") (auto dest!: ConvertMUtf8ToUtf16Pair_size)

declare characters.simps [simp del]

lemma pair_unat: "unat c = unat (fst (SplitUtf16Pair c)) * 0x10000 + unat (snd (SplitUtf16Pair c))"
proof -
  have "unat c < 2 ^ LENGTH(32)" by (rule unsigned_less)
  then have hi: "unat (fst (SplitUtf16Pair c)) = unat c div 2 ^ 16"
    by (simp add: SplitUtf16Pair_def unsigned_ucast_eq unat_drop_bit take_bit_nat_eq_self)
  have "unat (c AND 0xffff) = unat c mod 2 ^ 16" using unat_and_mask [of c 16] by (simp add: mask_eq_exp_minus_1)
  then have "unat (snd (SplitUtf16Pair c)) = unat c mod 2 ^ 16"
    by (simp add: SplitUtf16Pair_def unsigned_ucast_eq take_bit_eq_mod)
  with hi show ?thesis by simp
qed

lemma compare_pairs_sign:
  assumes "c1 \<noteq> c2"
  shows "compare_pairs c1 c2 < 0 \<longleftrightarrow> c1 < c2" "compare_pairs c1 c2 \<noteq> 0"
proof -
  obtain h1 l1 h2 l2 where s: "SplitUtf16Pair c1 = (h1, l1)" "SplitUtf16Pair c2 = (h2, l2)" by fastforce
  have eq: "uint c = uint (fst (SplitUtf16Pair c)) * 0x10000 + uint (snd (SplitUtf16Pair c))" for c
    using arg_cong [OF pair_unat [of c], of int] by simp
  have u: "uint c1 = uint h1 * 0x10000 + uint l1" "uint c2 = uint h2 * 0x10000 + uint l2" using eq [of c1] eq [of c2] s by simp_all
  have b: "uint l1 < 0x10000" "uint l2 < 0x10000" "0 \<le> uint l1" "0 \<le> uint l2" using uint_bounded [of l1] uint_bounded [of l2] by simp_all
  have cmp: "compare_pairs c1 c2 = (if uint h1 \<noteq> uint h2 then uint h1 - uint h2 else uint l1 - uint l2)"
    by (simp add: compare_pairs_def s Let_def)
  have ne: "uint h1 * 0x10000 + uint l1 \<noteq> uint h2 * 0x10000 + uint l2" using assms u by (metis word_uint_eq_iff)
  show "compare_pairs c1 c2 < 0 \<longleftrightarrow> c1 < c2" unfolding cmp word_less_def u using b ne
    by (cases rule: linorder_cases [of "uint h1" "uint h2"]; simp del: uint_ge_0; linarith)
  show "compare_pairs c1 c2 \<noteq> 0" unfolding cmp using ne by auto
qed


definition char_less :: "(u32 \<times> u32) set" where
  "char_less = {(a, b). a < b}"

text \<open>
  C35: \<^verbatim>\<open>CompareMUtf8ToMUtf8\<close> returns on zero-terminated strings, and its sign is the lexicographic order of their characters, where
  a pair of surrogates is above every single unit.
\<close>

theorem CompareMUtf8ToMUtf8_order:
  assumes "characters a = Some xs" "characters b = Some ys"
  shows "\<exists>r. CompareMUtf8ToMUtf8 a b = Some r \<and> (r < 0 \<longleftrightarrow> (xs, ys) \<in> lexord char_less) \<and> (r = 0 \<longleftrightarrow> xs = ys)"
  using assms
proof (induction a b arbitrary: xs ys rule: CompareMUtf8ToMUtf8.induct)
  case (1 a b)
  obtain c1 c2 where rd: "rd a 0 = Some c1" "rd b 0 = Some c2"
    using "1.prems" by (auto simp: characters.simps split: option.splits)
  show ?case
  proof (cases "c1 = 0 \<or> c2 = 0")
    case True
    then show ?thesis
      using "1.prems" rd
      by (subst CompareMUtf8ToMUtf8.simps) (auto simp: characters.simps [of a] characters.simps [of b] split: if_splits option.splits)
  next
    case False
    obtain p1 n1 xs' where a: "ConvertMUtf8ToUtf16Pair a 4 = Some (p1, n1)" "xs = p1 # xs'" "characters (drop n1 a) = Some xs'"
      using "1.prems"(1) rd False by (subst (asm) characters.simps) (auto split: option.splits)
    obtain p2 n2 ys' where b: "ConvertMUtf8ToUtf16Pair b 4 = Some (p2, n2)" "ys = p2 # ys'" "characters (drop n2 b) = Some ys'"
      using "1.prems"(2) rd False by (subst (asm) characters.simps) (auto split: option.splits)
    show ?thesis
    proof (cases "p1 = p2")
      case True
      have step: "CompareMUtf8ToMUtf8 a b = CompareMUtf8ToMUtf8 (drop n1 a) (drop n2 b)"
        using False True rd a(1) b(1) by (subst CompareMUtf8ToMUtf8.simps) simp
      have "\<exists>r. CompareMUtf8ToMUtf8 (drop n1 a) (drop n2 b) = Some r \<and> (r < 0 \<longleftrightarrow> (xs', ys') \<in> lexord char_less) \<and> (r = 0 \<longleftrightarrow> xs' = ys')"
        using "1.IH" a b rd False True by auto
      then show ?thesis using True a(2) b(2) by (auto simp: step char_less_def)
    next
      case ne: False
      have "CompareMUtf8ToMUtf8 a b = Some (compare_pairs p1 p2)"
        using False ne rd a(1) b(1) by (subst CompareMUtf8ToMUtf8.simps) simp
      with compare_pairs_sign [OF ne] ne a(2) b(2) show ?thesis by (auto simp: char_less_def)
    qed
  qed
qed

theorem CompareMUtf8ToMUtf8_order_witness:
  "\<exists>r < 0. CompareMUtf8ToMUtf8 [0x61, 0xC3, 0xA9, 0, 0, 0] [0x61, 0xF0, 0x9F, 0x98, 0x80, 0, 0, 0] = Some r"
proof -
  have c: "characters [0x61, 0xC3, 0xA9, 0, 0, 0] = Some [0x61, 0xE9]" "characters [0x61, 0xF0, 0x9F, 0x98, 0x80, 0, 0, 0] = Some [0x61, 0xD83DDE00]"
    by (simp_all add: characters.simps ConvertMUtf8ToUtf16Pair_def rd_def)
  have "([0x61, 0xE9], [0x61, 0xD83DDE00]) \<in> lexord char_less" by (simp add: char_less_def)
  with CompareMUtf8ToMUtf8_order [OF c] show ?thesis by blast
qed

text \<open>
  \<^verbatim>\<open>ConvertRegionMUtf8ToUtf16\<close> counts \<^verbatim>\<open>start\<close> down by the bytes of each skipped character, in an unsigned variable: a \<^verbatim>\<open>start\<close> that does
  not fall on a character boundary wraps, and nothing at all is written.
\<close>

theorem region_start_wraps: "ConvertRegionMUtf8ToUtf16 [0xC3, 0xA9, 0x41, 0x42] 4 16 1 = Some (0, [])"
proof -
  have w: "(0 :: u64) < - 1" "(0 :: u64) < - 2" by (simp_all add: word_less_def uint_word_ariths)
  show ?thesis by (simp add: w ConvertRegionMUtf8ToUtf16_def ConvertRegionMUtf8ToUtf16_loop.simps ConvertMUtf8ToUtf16Pair_def rd_def SplitUtf16Pair_def Let_def)
qed

end
