(* ===== verification/Mutex.thy ===== *)
theory Mutex
  imports Prelude
begin

text \<open>
  The futex mutex (\<^verbatim>\<open>platforms/unix/libpandabase/futex/fmutex.cpp\<close>) as a state machine.

  Every thread has a program counter (\<open>pc\<close>), one constructor for each atomic action of \<^verbatim>\<open>MutexLock\<close>, \<^verbatim>\<open>MutexTryLockWithSpinning\<close> and \<^verbatim>\<open>MutexUnlock\<close>;
  \<open>mutex_step\<close> is the action.  Threads interleave at these actions (sequential consistency: the memory orders of the atomics
  are not modelled).  The flag of \<open>mutex_step\<close> is a spurious event: a weak compare-and-swap that fails, or a \<^verbatim>\<open>FUTEX_WAIT\<close> that
  returns with \<^verbatim>\<open>EINTR\<close>.  The futex calls follow their documentation: \<^verbatim>\<open>FUTEX_WAIT\<close> sleeps if the word still has the
  expected value, checked atomically, and returns \<^verbatim>\<open>EAGAIN\<close> otherwise; \<^verbatim>\<open>FUTEX_WAKE\<close> with \<^verbatim>\<open>WAKE_ONE\<close> wakes one sleeper, if there is one.
  Thread identifiers are positive; 0 is no owner.
\<close>

section \<open>The mutex\<close>

record fmutex =
  stateAndWaiters :: u32
  exclusiveOwner :: nat
  recursiveCount :: int
  recursiveMutex :: bool

definition HELD_MASK :: u32 where "HELD_MASK = 1"
definition WAITER_SHIFT :: nat where "WAITER_SHIFT = 1"
definition WAITER_INCREMENT :: u32 where "WAITER_INCREMENT = push_bit WAITER_SHIFT 1"

definition IncrementWaiters :: "fmutex \<Rightarrow> fmutex" where
  "IncrementWaiters m = m\<lparr>stateAndWaiters := stateAndWaiters m + WAITER_INCREMENT\<rparr>"

definition DecrementWaiters :: "fmutex \<Rightarrow> fmutex" where
  "DecrementWaiters m = m\<lparr>stateAndWaiters := stateAndWaiters m - WAITER_INCREMENT\<rparr>"

definition GetWaiters :: "fmutex \<Rightarrow> u32" where
  "GetWaiters m = drop_bit WAITER_SHIFT (stateAndWaiters m)"

definition IsHeld :: "fmutex \<Rightarrow> nat \<Rightarrow> bool" where
  "IsHeld m thread \<longleftrightarrow> exclusiveOwner m = thread"

definition MutexInit :: "fmutex \<Rightarrow> fmutex" where
  "MutexInit m = m\<lparr>exclusiveOwner := 0, recursiveCount := 0, recursiveMutex := False, stateAndWaiters := 0\<rparr>"

text \<open>\<open>None\<close> is a failed check, fatal unless the checks are off at termination (\<^verbatim>\<open>g_deadlockFlag\<close>).\<close>

definition MutexDestroy :: "bool \<Rightarrow> fmutex \<Rightarrow> unit option" where
  "MutexDestroy deadlockFlag m =
     (if deadlockFlag then Some ()
      else if stateAndWaiters m \<noteq> 0 then None
      else if exclusiveOwner m \<noteq> 0 then None else Some ())"

definition MutexLockForOther :: "fmutex \<Rightarrow> nat \<Rightarrow> fmutex" where
  "MutexLockForOther m thread = m\<lparr>stateAndWaiters := HELD_MASK, recursiveCount := 1, exclusiveOwner := thread\<rparr>"

definition MutexUnlockForOther :: "fmutex \<Rightarrow> nat \<Rightarrow> fmutex option" where
  "MutexUnlockForOther m thread =
     (if \<not> IsHeld m thread then None else Some (m\<lparr>stateAndWaiters := 0, recursiveCount := 0, exclusiveOwner := 0\<rparr>))"

section \<open>The actions of a thread\<close>

text \<open>How the lock was called: \<^verbatim>\<open>MutexLock(m, false)\<close>, \<^verbatim>\<open>MutexLock(m, true)\<close>, or iteration \<open>i\<close> of \<^verbatim>\<open>MutexTryLockWithSpinning\<close>.\<close>

datatype mode = Lock | TryLock | TrySpin nat

datatype pc =
    Idle
  | L_load mode | L_cas mode u32 | L_spin u32 nat | L_inc u32 | L_wait u32 | L_sleep u32 | L_reload | L_dec
  | T_spin nat nat
  | L_own | L_count | Crit
  | U_count | U_load | U_own u32 | U_cas u32 | U_wake

definition MAX_ITER :: nat where "MAX_ITER = 50"
definition maxIter :: nat where "maxIter = 10"

definition held :: "u32 \<Rightarrow> bool" where
  "held state \<longleftrightarrow> state AND HELD_MASK \<noteq> 0"

fun mutex_step :: "nat \<Rightarrow> bool \<Rightarrow> pc \<Rightarrow> fmutex \<Rightarrow> (pc \<times> fmutex) option" where
  "mutex_step t spurious (L_load mode) m =
     (let curState = stateAndWaiters m
      in Some (if \<not> held curState then L_cas mode curState
               else (case mode of Lock \<Rightarrow> L_spin curState 1 | TryLock \<Rightarrow> Idle | TrySpin i \<Rightarrow> T_spin i 1), m))"
| "mutex_step t spurious (L_cas mode curState) m =
     Some (if \<not> spurious \<and> stateAndWaiters m = curState
           then (L_own, m\<lparr>stateAndWaiters := curState OR HELD_MASK\<rparr>) else (L_load mode, m))"
| "mutex_step t spurious (L_spin curState i) m =
     Some (if \<not> held (stateAndWaiters m) then L_load Lock else if i < MAX_ITER then L_spin curState (i + 1) else L_inc curState, m)"
| "mutex_step t spurious (T_spin n i) m =
     Some (if \<not> held (stateAndWaiters m) then (if n + 1 < maxIter then L_load (TrySpin (n + 1)) else Idle)
           else if i < MAX_ITER then T_spin n (i + 1) else Idle, m)"
| "mutex_step t spurious (L_inc curState) m = Some (L_wait (curState + WAITER_INCREMENT), IncrementWaiters m)"
| "mutex_step t spurious (L_wait curState) m =
     Some (if held curState then (if stateAndWaiters m = curState then L_sleep curState else L_reload) else L_dec, m)"
| "mutex_step t spurious (L_sleep curState) m = (if spurious then Some (L_reload, m) else None)"
| "mutex_step t spurious L_reload m = Some (L_wait (stateAndWaiters m), m)"
| "mutex_step t spurious L_dec m = Some (L_load Lock, DecrementWaiters m)"
| "mutex_step t spurious L_own m = Some (L_count, m\<lparr>exclusiveOwner := t\<rparr>)"
| "mutex_step t spurious L_count m = Some (Crit, m\<lparr>recursiveCount := recursiveCount m + 1\<rparr>)"
| "mutex_step t spurious U_count m =
     (if \<not> IsHeld m t then None
      else let m = m\<lparr>recursiveCount := recursiveCount m - 1\<rparr>
           in Some (if recursiveMutex m \<and> recursiveCount m > 0 then Crit else U_load, m))"
| "mutex_step t spurious U_load m = Some (U_own (stateAndWaiters m), m)"
| "mutex_step t spurious (U_own curState) m =
     (if \<not> held curState then None else Some (U_cas curState, m\<lparr>exclusiveOwner := 0\<rparr>))"
| "mutex_step t spurious (U_cas curState) m =
     (let newState = curState AND NOT HELD_MASK
      in Some (if \<not> spurious \<and> stateAndWaiters m = curState
               then (if newState \<noteq> 0 then U_wake else Idle, m\<lparr>stateAndWaiters := newState\<rparr>)
               else (U_own (stateAndWaiters m), m)))"
| "mutex_step t spurious p m = None"

text \<open>
  The threads \<open>1, \<dots>, n\<close> share one mutex.  A client locks it when it is idle, may lock a recursive mutex again while it holds it, and
  unlocks it only while it holds it.
\<close>

record world =
  mtx :: fmutex
  pcs :: "nat \<Rightarrow> pc"

inductive thread_step :: "nat \<Rightarrow> nat \<Rightarrow> world \<Rightarrow> world \<Rightarrow> bool" for n :: nat where
  action: "t \<in> {1..n} \<Longrightarrow> mutex_step t spurious (pcs w t) (mtx w) = Some (p, m) \<Longrightarrow>
     thread_step n t w (w\<lparr>mtx := m, pcs := (pcs w)(t := p)\<rparr>)"
| call_lock: "t \<in> {1..n} \<Longrightarrow> pcs w t = Idle \<Longrightarrow> thread_step n t w (w\<lparr>pcs := (pcs w)(t := L_load mode)\<rparr>)"
| relock: "t \<in> {1..n} \<Longrightarrow> pcs w t = Crit \<Longrightarrow> recursiveMutex (mtx w) \<Longrightarrow> IsHeld (mtx w) t \<Longrightarrow>
     thread_step n t w (w\<lparr>mtx := (mtx w)\<lparr>recursiveCount := recursiveCount (mtx w) + 1\<rparr>\<rparr>)"
| call_unlock: "t \<in> {1..n} \<Longrightarrow> pcs w t = Crit \<Longrightarrow> thread_step n t w (w\<lparr>pcs := (pcs w)(t := U_count)\<rparr>)"
| wake_one: "t \<in> {1..n} \<Longrightarrow> pcs w t = U_wake \<Longrightarrow> u \<in> {1..n} \<Longrightarrow> pcs w u = L_sleep curState \<Longrightarrow>
     thread_step n t w (w\<lparr>pcs := (pcs w)(t := Idle, u := L_reload)\<rparr>)"
| wake_none: "t \<in> {1..n} \<Longrightarrow> pcs w t = U_wake \<Longrightarrow> \<forall>u \<in> {1..n}. \<forall>curState. pcs w u \<noteq> L_sleep curState \<Longrightarrow>
     thread_step n t w (w\<lparr>pcs := (pcs w)(t := Idle)\<rparr>)"

inductive reachable :: "nat \<Rightarrow> bool \<Rightarrow> world \<Rightarrow> bool" for n :: nat and recursive :: bool where
  init: "reachable n recursive \<lparr>mtx = (MutexInit m)\<lparr>recursiveMutex := recursive\<rparr>, pcs = (\<lambda>t. Idle)\<rparr>"
| step: "reachable n recursive w \<Longrightarrow> thread_step n t w w' \<Longrightarrow> reachable n recursive w'"

end
