(* ===== verification/MutexSound.thy ===== *)
theory MutexSound
  imports Mutex
begin

text \<open>
  The futex mutex keeps threads out of each other's critical sections and loses no wake-up, for any number of threads below 2^30 (the
  number of waiters has 31 bits).  The invariant counts threads: the mutex word is twice the number of waiters plus the number
  of holders.  It is preserved by every action, hence holds in every reachable state; the properties follow from it, and
  every step refines a step of an abstract lock.
\<close>

section \<open>Counting threads\<close>

definition cnt :: "(pc \<Rightarrow> bool) \<Rightarrow> nat \<Rightarrow> (nat \<Rightarrow> pc) \<Rightarrow> nat" where
  "cnt P n f = card {t \<in> {1..n}. P (f t)}"

lemma cnt_upd: "t \<in> {1..n} \<Longrightarrow> cnt P n (f(t := p)) + of_bool (P (f t)) = cnt P n f + of_bool (P p)"
proof -
  assume t: "t \<in> {1..n}"
  let ?R = "{u \<in> {1..n} - {t}. P (f u)}"
  have "{u \<in> {1..n}. P (g u)} = ?R \<union> (if P (g t) then {t} else {})" if "\<forall>u. u \<noteq> t \<longrightarrow> g u = f u" for g
    using that t by (auto split: if_splits)
  then have "card {u \<in> {1..n}. P (g u)} = card ?R + of_bool (P (g t))" if "\<forall>u. u \<noteq> t \<longrightarrow> g u = f u" for g
    using that by (simp add: card_Un_disjoint)
  from this [of f] this [of "f(t := p)"] show ?thesis by (simp add: cnt_def)
qed

lemma cnt_pos: "t \<in> {1..n} \<Longrightarrow> P (f t) \<Longrightarrow> 0 < cnt P n f"
  by (auto simp: cnt_def card_gt_0_iff)

lemma cnt_le_1: "cnt P n f \<le> 1 \<Longrightarrow> t \<in> {1..n} \<Longrightarrow> u \<in> {1..n} \<Longrightarrow> P (f t) \<Longrightarrow> P (f u) \<Longrightarrow> t = u"
  by (auto simp: cnt_def card_le_Suc0_iff_eq)

lemma cnt_sum_le: "(\<And>p. \<not> (P p \<and> Q p)) \<Longrightarrow> cnt P n f + cnt Q n f \<le> n"
proof -
  assume d: "\<And>p. \<not> (P p \<and> Q p)"
  have "card ({t \<in> {1..n}. P (f t)} \<union> {t \<in> {1..n}. Q (f t)}) = cnt P n f + cnt Q n f"
    unfolding cnt_def by (rule card_Un_disjoint) (use d in auto)
  moreover have "card ({t \<in> {1..n}. P (f t)} \<union> {t \<in> {1..n}. Q (f t)}) \<le> card {1..n}" by (rule card_mono) auto
  ultimately show ?thesis by simp
qed

section \<open>The invariant\<close>

fun holds :: "pc \<Rightarrow> bool" where
  "holds L_own = True" | "holds L_count = True" | "holds Crit = True" | "holds U_count = True" | "holds U_load = True"
| "holds (U_own _) = True" | "holds (U_cas _) = True" | "holds _ = False"

fun waits :: "pc \<Rightarrow> bool" where
  "waits (L_wait _) = True" | "waits (L_sleep _) = True" | "waits L_reload = True" | "waits L_dec = True" | "waits _ = False"

fun pc_ok :: "fmutex \<Rightarrow> nat \<Rightarrow> pc \<Rightarrow> bool" where
  "pc_ok m t (L_cas _ cur) \<longleftrightarrow> \<not> held cur"
| "pc_ok m t L_own \<longleftrightarrow> exclusiveOwner m = 0 \<and> recursiveCount m = 0"
| "pc_ok m t L_count \<longleftrightarrow> exclusiveOwner m = t \<and> recursiveCount m = 0"
| "pc_ok m t Crit \<longleftrightarrow> exclusiveOwner m = t \<and> recursiveCount m \<ge> 1 \<and> (\<not> recursiveMutex m \<longrightarrow> recursiveCount m = 1)"
| "pc_ok m t U_count \<longleftrightarrow> exclusiveOwner m = t \<and> recursiveCount m \<ge> 1 \<and> (\<not> recursiveMutex m \<longrightarrow> recursiveCount m = 1)"
| "pc_ok m t U_load \<longleftrightarrow> exclusiveOwner m = t \<and> recursiveCount m = 0"
| "pc_ok m t (U_own cur) \<longleftrightarrow> held cur \<and> recursiveCount m = 0 \<and> (exclusiveOwner m = t \<or> exclusiveOwner m = 0)"
| "pc_ok m t (U_cas cur) \<longleftrightarrow> held cur \<and> exclusiveOwner m = 0 \<and> recursiveCount m = 0"
| "pc_ok m t _ \<longleftrightarrow> True"

text \<open>
  The word is twice the number of waiting threads plus the number of holders, of which there is at most one; the owner and the
  recursion count are what the holder's position says, and both are zero when nobody holds the mutex.
\<close>

definition mutex_inv :: "nat \<Rightarrow> world \<Rightarrow> bool" where
  "mutex_inv n w \<longleftrightarrow>
     stateAndWaiters (mtx w) = of_nat (2 * cnt waits n (pcs w) + cnt holds n (pcs w)) \<and> cnt holds n (pcs w) \<le> 1
     \<and> (\<forall>t \<in> {1..n}. pc_ok (mtx w) t (pcs w t))
     \<and> (cnt holds n (pcs w) = 0 \<longrightarrow> exclusiveOwner (mtx w) = 0 \<and> recursiveCount (mtx w) = 0)"

lemma held_odd: "held x \<longleftrightarrow> odd x"
  by (simp add: held_def HELD_MASK_def and_one_eq odd_iff_mod_2_eq_one)

lemma held_of_nat: "k < 2 ^ 32 \<Longrightarrow> held (of_nat k) \<longleftrightarrow> odd k"
  by (simp add: held_odd)

lemma set_held: "\<not> held x \<Longrightarrow> x OR HELD_MASK = x + 1"
  by (simp add: held_odd HELD_MASK_def or_one_eq)

lemma clear_held: "held x \<Longrightarrow> x AND NOT HELD_MASK = x - 1"
proof -
  assume "held x"
  then have "2 * (x div 2) + 1 = x" using mult_div_mod_eq [of 2 x] by (simp add: held_odd odd_iff_mod_2_eq_one)
  moreover have "x AND NOT HELD_MASK = 2 * (x div 2)" using unset_bit_eq_and_not [of 0 x] by (simp add: unset_bit_0 HELD_MASK_def)
  ultimately show ?thesis by (metis add_diff_cancel_right')
qed

lemma incr: "WAITER_INCREMENT = 2"
  by (simp add: WAITER_INCREMENT_def WAITER_SHIFT_def)

lemma pc_ok_not_holds: "\<not> holds p \<Longrightarrow> pc_ok m t p = pc_ok m' t' p"
  by (cases p) auto


text \<open>What an action does to the counts, to the owner and to the count of recursion.\<close>

lemma step_counts:
  assumes inv: "mutex_inv n w" and t: "t \<in> {1..n}" and n: "n < 2 ^ 30"
    and st: "mutex_step t spurious (pcs w t) (mtx w) = Some (p, m)"
  shows "stateAndWaiters m = of_nat (2 * cnt waits n ((pcs w)(t := p)) + cnt holds n ((pcs w)(t := p))) \<and> cnt holds n ((pcs w)(t := p)) \<le> 1"
proof -
  define W H W' H' where "W = cnt waits n (pcs w)" and "H = cnt holds n (pcs w)"
    and "W' = cnt waits n ((pcs w)(t := p))" and "H' = cnt holds n ((pcs w)(t := p))"
  have W: "W' + of_bool (waits (pcs w t)) = W + of_bool (waits p)" and H: "H' + of_bool (holds (pcs w t)) = H + of_bool (holds p)"
    using cnt_upd [OF t] by (simp_all add: W_def H_def W'_def H'_def)
  have S: "stateAndWaiters (mtx w) = of_nat (2 * W + H)" and H1: "H \<le> 1" and ok: "pc_ok (mtx w) t (pcs w t)"
    using inv t by (simp_all add: mutex_inv_def W_def H_def)
  have "W + H \<le> n" unfolding W_def H_def by (rule cnt_sum_le) (metis holds.simps waits.elims(2))
  then have hd: "held (stateAndWaiters (mtx w)) \<longleftrightarrow> H = 1" 
    unfolding S by (subst held_of_nat) (use H1 n in \<open>auto simp: le_Suc_eq\<close>)
  have pos: "holds (pcs w t) \<Longrightarrow> H = 1" "waits (pcs w t) \<Longrightarrow> 0 < W" using cnt_pos [OF t] H1 by (force simp: W_def H_def)+
  have "stateAndWaiters m = of_nat (2 * W' + H') \<and> H' \<le> 1"
  proof (cases "pcs w t")
    case (L_cas mode cur)
    then show ?thesis using st ok W H S hd H1 by (auto simp: set_held split: if_splits)
  next
    case (U_cas cur)
    then show ?thesis using st ok W H S pos by (auto simp: clear_held Let_def diff_eq_eq add.commute split: if_splits)
  next
    case (L_inc cur)
    then show ?thesis using st W H S H1 by (auto simp: IncrementWaiters_def incr)
  next
    case L_dec
    then show ?thesis using st W H S H1 pos by (auto simp: DecrementWaiters_def incr)
  qed (use st W H S H1 hd in \<open>auto simp: Let_def split: if_splits mode.splits\<close>)
  then show ?thesis by (simp add: W'_def H'_def)
qed


lemma step_pc_ok:
  assumes inv: "mutex_inv n w" and t: "t \<in> {1..n}" and n: "n < 2 ^ 30"
    and st: "mutex_step t spurious (pcs w t) (mtx w) = Some (p, m)"
  shows "pc_ok m t p" "\<not> holds (pcs w t) \<Longrightarrow> exclusiveOwner m = exclusiveOwner (mtx w) \<and> recursiveCount m = recursiveCount (mtx w)"
    "holds (pcs w t) \<Longrightarrow> \<not> holds p \<Longrightarrow> exclusiveOwner m = 0 \<and> recursiveCount m = 0"
proof -
  have ok: "pc_ok (mtx w) t (pcs w t)" and free: "cnt holds n (pcs w) = 0 \<longrightarrow> exclusiveOwner (mtx w) = 0 \<and> recursiveCount (mtx w) = 0"
    and S: "stateAndWaiters (mtx w) = of_nat (2 * cnt waits n (pcs w) + cnt holds n (pcs w))" and H1: "cnt holds n (pcs w) \<le> 1"
    using inv t by (simp_all add: mutex_inv_def)
  have "cnt waits n (pcs w) + cnt holds n (pcs w) \<le> n" by (rule cnt_sum_le) (metis holds.simps waits.elims(2))
  then have hd: "held (stateAndWaiters (mtx w)) \<longleftrightarrow> cnt holds n (pcs w) = 1"
    unfolding S by (subst held_of_nat) (use H1 n in \<open>auto simp: le_Suc_eq\<close>)
  have pos: "holds (pcs w t) \<Longrightarrow> cnt holds n (pcs w) = 1" using cnt_pos [OF t, of holds] H1 by force
  show "pc_ok m t p"
    using st ok hd pos free H1 by (cases "pcs w t") (auto simp: Let_def IsHeld_def le_Suc_eq split: if_splits mode.splits)
  show "\<not> holds (pcs w t) \<Longrightarrow> exclusiveOwner m = exclusiveOwner (mtx w) \<and> recursiveCount m = recursiveCount (mtx w)"
    using st by (cases "pcs w t") (auto simp: Let_def IncrementWaiters_def DecrementWaiters_def split: if_splits mode.splits)
  show "holds (pcs w t) \<Longrightarrow> \<not> holds p \<Longrightarrow> exclusiveOwner m = 0 \<and> recursiveCount m = 0"
    using st ok by (cases "pcs w t") (auto simp: Let_def split: if_splits)
qed

lemma cnt_same: "t \<in> {1..n} \<Longrightarrow> P (f t) = P p \<Longrightarrow> cnt P n (f(t := p)) = cnt P n f"
  using cnt_upd [of t n P f p] by simp

lemma other_pc_ok:
  assumes "\<forall>u \<in> {1..n}. pc_ok m u (f u)" "cnt holds n f \<le> 1" "t \<in> {1..n}" "pc_ok m' t p"
    "\<not> holds (f t) \<Longrightarrow> exclusiveOwner m' = exclusiveOwner m \<and> recursiveCount m' = recursiveCount m \<and> recursiveMutex m' = recursiveMutex m"
  shows "\<forall>u \<in> {1..n}. pc_ok m' u ((f(t := p)) u)"
proof
  fix u assume u: "u \<in> {1..n}"
  show "pc_ok m' u ((f(t := p)) u)"
  proof (cases "u = t")
    case True
    then show ?thesis using assms(4) by simp
  next
    case ne: False
    have ok: "pc_ok m u (f u)" using assms(1) u by blast
    show ?thesis
    proof (cases "holds (f u)")
      case True
      with ne cnt_le_1 [OF assms(2) assms(3) u] have "\<not> holds (f t)" by auto
      from assms(5) [OF this] ok ne True show ?thesis by (cases "f u") auto
    next
      case False
      with ok ne pc_ok_not_holds [OF False, of m u m' u] show ?thesis by simp
    qed
  qed
qed

lemma mutex_step_recursive: "mutex_step t spurious p m = Some (p', m') \<Longrightarrow> recursiveMutex m' = recursiveMutex m"
  by (cases p) (auto simp: Let_def IncrementWaiters_def DecrementWaiters_def split: if_splits)

lemma inv_pc_ok: "mutex_inv n w \<Longrightarrow> t \<in> {1..n} \<Longrightarrow> pc_ok (mtx w) t (pcs w t)"
  by (simp add: mutex_inv_def)

lemma thread_step_inv:
  assumes inv: "mutex_inv n w" and n: "n < 2 ^ 30" and st: "thread_step n t w w'"
  shows "mutex_inv n w'"
  using st
proof cases
  case (action spurious p m)
  note c = step_counts [OF inv action(2) n action(3)] and k = step_pc_ok [OF inv action(2) n action(3)]
  have H1: "cnt holds n (pcs w) \<le> 1" and ok: "\<forall>u \<in> {1..n}. pc_ok (mtx w) u (pcs w u)"
    and free: "cnt holds n (pcs w) = 0 \<longrightarrow> exclusiveOwner (mtx w) = 0 \<and> recursiveCount (mtx w) = 0" using inv by (simp_all add: mutex_inv_def)
  have "\<forall>u \<in> {1..n}. pc_ok m u (((pcs w)(t := p)) u)"
    using other_pc_ok [OF ok H1 action(2) k(1)] k(2) mutex_step_recursive [OF action(3)] by blast
  moreover have "exclusiveOwner m = 0 \<and> recursiveCount m = 0" if "cnt holds n ((pcs w)(t := p)) = 0"
  proof (cases "holds (pcs w t)")
    case True
    with that cnt_pos [OF action(2), of holds "(pcs w)(t := p)"] show ?thesis using k(3) by auto
  next
    case False
    with that cnt_upd [OF action(2), of holds "pcs w" p] free k(2) show ?thesis by auto
  qed
  ultimately show ?thesis using c action(1) by (simp add: mutex_inv_def)
next
  case (call_lock mode)
  then have "cnt P n ((pcs w)(t := L_load mode)) = cnt P n (pcs w)" if "P = holds \<or> P = waits" for P using that by (intro cnt_same) auto
  then show ?thesis using inv call_lock by (auto simp: mutex_inv_def)
next
  case relock
  let ?m = "mtx w\<lparr>recursiveCount := recursiveCount (mtx w) + 1\<rparr>"
  have "pc_ok (mtx w) t Crit" using inv_pc_ok [OF inv relock(2)] relock by simp
  then have k: "pc_ok ?m t Crit" using relock by simp
  have "\<forall>u \<in> {1..n}. pc_ok ?m u (((pcs w)(t := Crit)) u)"
    using inv relock by (intro other_pc_ok [OF _ _ relock(2) k, of "mtx w"]) (auto simp: mutex_inv_def)
  moreover have "(pcs w)(t := Crit) = pcs w" using relock by auto
  moreover have "cnt holds n (pcs w) \<noteq> 0" using cnt_pos [OF relock(2), of holds "pcs w"] relock by simp
  ultimately show ?thesis using inv relock by (simp add: mutex_inv_def)
next
  case call_unlock
  then have "cnt P n ((pcs w)(t := U_count)) = cnt P n (pcs w)" if "P = holds \<or> P = waits" for P using that by (intro cnt_same) auto
  moreover have "pc_ok (mtx w) t U_count" using inv_pc_ok [OF inv call_unlock(2)] call_unlock by simp
  ultimately show ?thesis using inv call_unlock by (auto simp: mutex_inv_def)
next
  case (wake_one u cur)
  have ne: "u \<noteq> t" using wake_one by auto
  have "cnt P n ((pcs w)(t := Idle)) = cnt P n (pcs w)" if "P = holds \<or> P = waits" for P using that wake_one by (intro cnt_same) auto
  moreover have "cnt P n (((pcs w)(t := Idle))(u := L_reload)) = cnt P n ((pcs w)(t := Idle))" if "P = holds \<or> P = waits" for P
    using that wake_one ne by (intro cnt_same) auto
  ultimately show ?thesis using inv wake_one by (auto simp: mutex_inv_def)
next
  case wake_none
  then have "cnt P n ((pcs w)(t := Idle)) = cnt P n (pcs w)" if "P = holds \<or> P = waits" for P using that by (intro cnt_same) auto
  then show ?thesis using inv wake_none by (auto simp: mutex_inv_def)
qed

lemma reachable_inv: "reachable n recursive w \<Longrightarrow> n < 2 ^ 30 \<Longrightarrow> mutex_inv n w"
proof (induction rule: reachable.induct)
  case (init m)
  have "cnt holds n (\<lambda>t. Idle) = 0" "cnt waits n (\<lambda>t. Idle) = 0" by (simp_all add: cnt_def)
  then show ?case by (simp add: mutex_inv_def MutexInit_def)
next
  case (step w t w')
  then show ?case using thread_step_inv by blast
qed


section \<open>Nobody sleeps next to a free mutex\<close>

fun sleeps :: "pc \<Rightarrow> bool" where
  "sleeps (L_sleep _) = True" | "sleeps _ = False"

text \<open>A thread that only tries to take the mutex may give up, so it is not counted on.\<close>

fun tries :: "pc \<Rightarrow> bool" where
  "tries (L_load mode) \<longleftrightarrow> mode \<noteq> Lock" | "tries (L_cas mode _) \<longleftrightarrow> mode \<noteq> Lock" | "tries (T_spin _ _) \<longleftrightarrow> True" | "tries _ \<longleftrightarrow> False"

definition active :: "pc \<Rightarrow> bool" where
  "active p \<longleftrightarrow> p \<noteq> Idle \<and> \<not> sleeps p \<and> \<not> tries p"

text \<open>While a thread sleeps, the mutex is held or another thread is on its way.\<close>

definition awake_inv :: "nat \<Rightarrow> world \<Rightarrow> bool" where
  "awake_inv n w \<longleftrightarrow> (\<exists>t \<in> {1..n}. sleeps (pcs w t)) \<longrightarrow> (\<exists>u \<in> {1..n}. active (pcs w u))"

lemma holds_active: "holds p \<Longrightarrow> active p"
  by (cases p) (auto simp: active_def)

lemma sleeps_waits: "sleeps p \<Longrightarrow> waits p"
  by (cases p) auto

lemma step_awake:
  assumes inv: "mutex_inv n w" and t: "t \<in> {1..n}" and n: "n < 2 ^ 30"
    and st: "mutex_step t spurious (pcs w t) (mtx w) = Some (p, m)" and p: "active (pcs w t)" "\<not> active p"
    and s: "\<exists>u \<in> {1..n}. sleeps (((pcs w)(t := p)) u)"
  shows "\<exists>u \<in> {1..n}. active (((pcs w)(t := p)) u)"
proof -
  have S: "stateAndWaiters (mtx w) = of_nat (2 * cnt waits n (pcs w) + cnt holds n (pcs w))" and H1: "cnt holds n (pcs w) \<le> 1"
    using inv by (simp_all add: mutex_inv_def)
  have le: "cnt waits n (pcs w) + cnt holds n (pcs w) \<le> n" by (rule cnt_sum_le) (metis holds.simps waits.elims(2))
  then have hd: "held (stateAndWaiters (mtx w)) \<longleftrightarrow> cnt holds n (pcs w) = 1"
    unfolding S by (subst held_of_nat) (use H1 n in \<open>auto simp: le_Suc_eq\<close>)
  have holder: "\<exists>u \<in> {1..n}. active (((pcs w)(t := p)) u)" if "cnt holds n (pcs w) = 1" "\<not> holds (pcs w t)"
  proof -
    from that(1) obtain u where "u \<in> {1..n}" "holds (pcs w u)" by (auto simp: cnt_def card_Suc_eq)
    with that(2) show ?thesis by (intro bexI [of _ u]) (auto simp: holds_active)
  qed
  show ?thesis
  proof (cases "\<exists>cur. pcs w t = U_cas cur")
    case True
    then obtain cur where U_cas: "pcs w t = U_cas cur" by blast
    with st p have z: "stateAndWaiters (mtx w) = cur" "cur AND NOT HELD_MASK = 0" "p = Idle" by (auto simp: active_def Let_def split: if_splits)
    from s z(3) obtain u where u: "u \<in> {1..n}" "sleeps (pcs w u)" "u \<noteq> t" by (auto split: if_splits)
    have "pc_ok (mtx w) t (pcs w t)" by (rule inv_pc_ok [OF inv t])
    with U_cas z clear_held [of cur] have "stateAndWaiters (mtx w) = 1" by simp
    moreover have "0 < cnt waits n (pcs w)" using cnt_pos [OF u(1), of waits "pcs w"] u(2) sleeps_waits by simp
    moreover have "unat (of_nat (2 * cnt waits n (pcs w) + cnt holds n (pcs w)) :: u32) = 2 * cnt waits n (pcs w) + cnt holds n (pcs w)"
      using le n by (simp only: unat_of_nat) simp
    ultimately show ?thesis unfolding S by simp
  next
    case False
    then have "cnt holds n (pcs w) = 1 \<and> \<not> holds (pcs w t)"
      using st p hd by (cases "pcs w t") (auto simp: active_def Let_def split: if_splits mode.splits)
    then show ?thesis using holder by blast
  qed
qed

lemma thread_step_awake:
  assumes inv: "mutex_inv n w" and aw: "awake_inv n w" and n: "n < 2 ^ 30" and st: "thread_step n t w w'"
  shows "awake_inv n w'"
  using st
proof cases
  case (action spurious p m)
  let ?f = "(pcs w)(t := p)"
  have "\<exists>v \<in> {1..n}. active (?f v)" if s: "\<exists>u \<in> {1..n}. sleeps (?f u)"
  proof (cases "active p")
    case True
    then show ?thesis using action(2) by (intro bexI [of _ t]) auto
  next
    case np: False
    show ?thesis
    proof (cases "active (pcs w t)")
      case True
      then show ?thesis by (rule step_awake [OF inv action(2) n action(3) _ np s])
    next
      case False
      then have "\<not> sleeps p" "\<not> sleeps (pcs w t)" using action(3) np by (cases "pcs w t"; auto simp: active_def Let_def split: if_splits mode.splits)+
      with s have "\<exists>u \<in> {1..n}. sleeps (pcs w u)" by (auto split: if_splits)
      with aw obtain v where "v \<in> {1..n}" "active (pcs w v)" by (auto simp: awake_inv_def)
      with False show ?thesis by (intro bexI [of _ v]) auto
    qed
  qed
  then show ?thesis using action(1) by (simp add: awake_inv_def)
next
  case (call_lock mode)
  then show ?thesis using aw by (fastforce simp: awake_inv_def active_def split: if_splits)
next
  case relock
  then show ?thesis using aw by (simp add: awake_inv_def)
next
  case call_unlock
  then show ?thesis by (auto simp: awake_inv_def active_def intro!: bexI [of _ t])
next
  case (wake_one u cur)
  then show ?thesis by (auto simp: awake_inv_def active_def intro!: bexI [of _ u])
next
  case wake_none
  have "\<not> sleeps (pcs w u)" if "u \<in> {1..n}" for u using wake_none(4) that by (cases "pcs w u") auto
  then show ?thesis using wake_none(1) by (auto simp: awake_inv_def split: if_splits)
qed

lemma reachable_awake: "reachable n recursive w \<Longrightarrow> n < 2 ^ 30 \<Longrightarrow> awake_inv n w"
proof (induction rule: reachable.induct)
  case (init m)
  then show ?case by (simp add: awake_inv_def)
next
  case (step w t w')
  then show ?case using thread_step_awake reachable_inv by blast
qed

lemma running_steps:
  assumes inv: "mutex_inv n w" and t: "t \<in> {1..n}" and p: "pcs w t \<noteq> Idle" "\<not> sleeps (pcs w t)"
  shows "\<exists>w'. thread_step n t w w'"
proof -
  have ok: "pc_ok (mtx w) t (pcs w t)" by (rule inv_pc_ok [OF inv t])
  consider "pcs w t = Crit" | "pcs w t = U_wake" | "mutex_step t False (pcs w t) (mtx w) \<noteq> None"
    using p ok by (cases "pcs w t") (auto simp: Let_def IsHeld_def)
  then show ?thesis
  proof cases
    case 1
    then show ?thesis using thread_step.call_unlock [OF t] by blast
  next
    case 2
    show ?thesis
    proof (cases "\<exists>u \<in> {1..n}. \<exists>cur. pcs w u = L_sleep cur")
      case True
      then show ?thesis using thread_step.wake_one [OF t 2] by blast
    next
      case False
      then show ?thesis using thread_step.wake_none [OF t 2] by blast
    qed
  next
    case 3
    then show ?thesis using thread_step.action [OF t, of False w] by fastforce
  qed
qed

section \<open>Properties\<close>

text \<open>
  C9: Mutual exclusion.  In every interleaving of any number of threads that lock, try to lock and unlock the mutex, with spurious
  failures and wake-ups, at most one thread is between a successful lock and the end of its unlock; a thread in its critical section
  is the recorded owner, and the recursion count is positive (one, if the mutex is not recursive).
\<close>

theorem mutex_exclusion:
  assumes "reachable n recursive w" "n < 2 ^ 30" "t \<in> {1..n}" "u \<in> {1..n}" "pcs w t = Crit" "holds (pcs w u)"
  shows "t = u \<and> IsHeld (mtx w) t \<and> recursiveCount (mtx w) \<ge> 1 \<and> (\<not> recursiveMutex (mtx w) \<longrightarrow> recursiveCount (mtx w) = 1)"
proof -
  have inv: "mutex_inv n w" by (rule reachable_inv [OF assms(1,2)])
  then have "t = u" using assms by (intro cnt_le_1 [of holds n "pcs w"]) (auto simp: mutex_inv_def)
  with inv_pc_ok [OF inv assms(3)] assms(5) show ?thesis by (simp add: IsHeld_def)
qed

text \<open>
  C24: No wake-up is lost.  While a thread sleeps in the futex, another thread holds the mutex, is about to wake a sleeper, or is on its
  way to take the mutex without giving up, and that thread can make a step; in particular nobody is left asleep next to a free mutex.
\<close>

theorem mutex_no_lost_wakeup:
  assumes "reachable n recursive w" "n < 2 ^ 30" "t \<in> {1..n}" "pcs w t = L_sleep cur"
  shows "\<exists>u \<in> {1..n}. active (pcs w u) \<and> (\<exists>w'. thread_step n u w w')"
proof -
  have inv: "mutex_inv n w" by (rule reachable_inv [OF assms(1,2)])
  have "\<exists>u \<in> {1..n}. sleeps (pcs w u)" using assms(3,4) by (intro bexI [of _ t]) simp_all
  with reachable_awake [OF assms(1,2)] obtain u where "u \<in> {1..n}" "active (pcs w u)" by (auto simp: awake_inv_def)
  with running_steps [OF inv this(1)] show ?thesis by (auto simp: active_def)
qed

text \<open>The specification: a lock is free or has one owner; only a free lock is taken, and only its owner releases it.\<close>

inductive lock_step :: "nat \<Rightarrow> nat option \<Rightarrow> nat option \<Rightarrow> bool" where
  acquire: "lock_step t None (Some t)"
| release: "lock_step t (Some t) None"
| stutter: "lock_step t l l"

definition abs_lock :: "nat \<Rightarrow> world \<Rightarrow> nat option" where
  "abs_lock n w = find (\<lambda>t. holds (pcs w t)) [1..<Suc n]"

lemma abs_lock_Some: "cnt holds n (pcs w) \<le> 1 \<Longrightarrow> t \<in> {1..n} \<Longrightarrow> holds (pcs w t) \<Longrightarrow> abs_lock n w = Some t"
proof -
  assume a: "cnt holds n (pcs w) \<le> 1" "t \<in> {1..n}" "holds (pcs w t)"
  then have "abs_lock n w \<noteq> None" by (auto simp: abs_lock_def find_None_iff)
  then obtain u where u: "abs_lock n w = Some u" by blast
  then have "u \<in> {1..n}" "holds (pcs w u)" by (auto simp: abs_lock_def find_Some_iff simp del: upt_Suc)
  with cnt_le_1 [OF a(1,2)] a(3) u show ?thesis by blast
qed

lemma abs_lock_None: "cnt holds n (pcs w) = 0 \<Longrightarrow> abs_lock n w = None"
  by (auto simp: abs_lock_def find_None_iff cnt_def)

lemma abs_lock_cong: "(\<And>t. t \<in> {1..n} \<Longrightarrow> holds (pcs w' t) = holds (pcs w t)) \<Longrightarrow> abs_lock n w' = abs_lock n w"
  unfolding abs_lock_def by (rule find_cong) auto

text \<open>
  C30: The mutex refines that specification: every step of a thread, in every reachable state, takes the lock for it, releases the lock
  it owns, or leaves the lock as it is.
\<close>

theorem mutex_refines_lock:
  assumes "reachable n recursive w" "n < 2 ^ 30" "thread_step n t w w'"
  shows "lock_step t (abs_lock n w) (abs_lock n w')"
proof -
  have inv: "mutex_inv n w" by (rule reachable_inv [OF assms(1,2)])
  have inv': "mutex_inv n w'" by (rule thread_step_inv [OF inv assms(2,3)])
  have le: "cnt holds n (pcs w) \<le> 1" "cnt holds n (pcs w') \<le> 1" using inv inv' by (simp_all add: mutex_inv_def)
  show ?thesis
  proof (cases "\<forall>u \<in> {1..n}. holds (pcs w' u) = holds (pcs w u)")
    case True
    then show ?thesis using abs_lock_cong [of n w' w] lock_step.stutter by simp
  next
    case False
    with assms(3) obtain p where t: "t \<in> {1..n}" "pcs w' = (pcs w)(t := p)" "holds p \<noteq> holds (pcs w t)"
      by (cases rule: thread_step.cases) (auto split: if_splits)
    have c: "cnt holds n (pcs w') + of_bool (holds (pcs w t)) = cnt holds n (pcs w) + of_bool (holds p)" unfolding t(2) by (rule cnt_upd [OF t(1)])
    show ?thesis
    proof (cases "holds p")
      case True
      then have "abs_lock n w' = Some t" using t by (intro abs_lock_Some [OF le(2)]) auto
      moreover have "abs_lock n w = None" using c t True le by (intro abs_lock_None) simp
      ultimately show ?thesis by (simp add: lock_step.acquire)
    next
      case False
      then have "abs_lock n w = Some t" using t by (intro abs_lock_Some [OF le(1)]) auto
      moreover have "abs_lock n w' = None" using c t False le by (intro abs_lock_None) simp
      ultimately show ?thesis by (simp add: lock_step.release)
    qed
  qed
qed


section \<open>A schedule\<close>

text \<open>Threads run in the order of a list; a thread that is idle starts to lock.\<close>

fun exec :: "nat list \<Rightarrow> world \<Rightarrow> world" where
  "exec [] w = w"
| "exec (t # ts) w = exec ts
     (if pcs w t = Idle then w\<lparr>pcs := (pcs w)(t := L_load Lock)\<rparr>
      else case mutex_step t False (pcs w t) (mtx w) of Some (p, m) \<Rightarrow> w\<lparr>mtx := m, pcs := (pcs w)(t := p)\<rparr> | None \<Rightarrow> w)"

lemma reachable_exec: "reachable n r w \<Longrightarrow> set ts \<subseteq> {1..n} \<Longrightarrow> reachable n r (exec ts w)"
proof (induction ts arbitrary: w)
  case (Cons t ts)
  then have t: "t \<in> {1..n}" by simp
  let ?w = "if pcs w t = Idle then w\<lparr>pcs := (pcs w)(t := L_load Lock)\<rparr>
      else case mutex_step t False (pcs w t) (mtx w) of Some (p, m) \<Rightarrow> w\<lparr>mtx := m, pcs := (pcs w)(t := p)\<rparr> | None \<Rightarrow> w"
  have "reachable n r ?w"
    using Cons.prems(1) reachable.step [OF Cons.prems(1) thread_step.call_lock [OF t]] reachable.step [OF Cons.prems(1) thread_step.action [OF t]]
    by (auto split: option.splits)
  with Cons show ?case by simp
qed simp

definition free_mutex :: world where
  "free_mutex = \<lparr>mtx = \<lparr>stateAndWaiters = 0, exclusiveOwner = 0, recursiveCount = 0, recursiveMutex = False\<rparr>, pcs = (\<lambda>t. Idle)\<rparr>"

lemma reachable_free: "reachable n False free_mutex"
  using reachable.init [of n False "mtx free_mutex"] by (simp add: free_mutex_def MutexInit_def)

definition one_holds :: world where
  "one_holds = exec [1, 1, 1, 1, 1] free_mutex"

lemma one_holds_eq: "mtx one_holds = \<lparr>stateAndWaiters = 1, exclusiveOwner = 1, recursiveCount = 1, recursiveMutex = False\<rparr>"
  "pcs one_holds = (\<lambda>t. Idle)(1 := Crit)"
  by (simp_all add: one_holds_def free_mutex_def held_def HELD_MASK_def)

lemma exec_append: "exec (xs @ ys) w = exec ys (exec xs w)"
  by (induction xs arbitrary: w) auto

lemma exec_spin:
  assumes "pcs w t = L_spin cur i" "held (stateAndWaiters (mtx w))" "i + k \<le> MAX_ITER"
  shows "exec (replicate k t) w = w\<lparr>pcs := (pcs w)(t := L_spin cur (i + k))\<rparr>"
  using assms by (induction k arbitrary: w i) (auto simp: fun_upd_idem)

theorem mutex_exclusion_witness: "pcs one_holds 1 = Crit \<and> IsHeld (mtx one_holds) 1 \<and> recursiveCount (mtx one_holds) = 1"
proof -
  have "reachable 2 False one_holds" unfolding one_holds_def by (rule reachable_exec [OF reachable_free]) simp
  from mutex_exclusion [OF this, of 1 1] show ?thesis by (simp add: one_holds_eq)
qed

theorem mutex_refines_lock_witness: "lock_step 1 (abs_lock 2 (exec [1, 1] free_mutex)) (abs_lock 2 (exec [1, 1, 1] free_mutex))"
proof -
  let ?w = "exec [1, 1] free_mutex"
  have w: "reachable 2 False ?w" by (rule reachable_exec [OF reachable_free]) simp
  have "thread_step 2 1 ?w (exec [1, 1, 1] free_mutex)"
    using thread_step.action [of 1 2 False ?w] by (simp add: free_mutex_def held_def HELD_MASK_def)
  from mutex_refines_lock [OF w _ this] show ?thesis by simp
qed

definition two_sleeps :: world where
  "two_sleeps = exec ([2, 2] @ replicate 49 2 @ [2, 2, 2]) one_holds"

lemma two_sleeps_eq: "pcs two_sleeps 2 = L_sleep 3"
proof -
  define w where "w = one_holds\<lparr>pcs := (pcs one_holds)(2 := L_spin 1 1)\<rparr>"
  have "exec [2, 2] one_holds = w" by (simp add: w_def one_holds_eq held_def HELD_MASK_def)
  then have "two_sleeps = exec [2, 2, 2] (exec (replicate 49 2) w)" by (simp only: two_sleeps_def exec_append)
  moreover have "exec (replicate 49 2) w = w\<lparr>pcs := (pcs w)(2 := L_spin 1 50)\<rparr>"
    by (subst exec_spin [of _ _ 1 1]) (simp_all add: w_def one_holds_eq held_def HELD_MASK_def MAX_ITER_def)
  ultimately have eq: "two_sleeps = exec [2, 2, 2] (w\<lparr>pcs := (pcs w)(2 := L_spin 1 50)\<rparr>)" by simp
  show ?thesis
    unfolding eq by (simp add: w_def one_holds_eq held_def HELD_MASK_def MAX_ITER_def IncrementWaiters_def WAITER_INCREMENT_def WAITER_SHIFT_def)
qed

theorem mutex_no_lost_wakeup_witness: "\<exists>u \<in> {1..2}. active (pcs two_sleeps u) \<and> (\<exists>w'. thread_step 2 u two_sleeps w')"
proof -
  have "reachable 2 False two_sleeps"
    unfolding two_sleeps_def one_holds_def by (intro reachable_exec [OF reachable_exec [OF reachable_free]]) auto
  from mutex_no_lost_wakeup [OF this _ _ two_sleeps_eq] show ?thesis by simp
qed

end
