(* ===== verification/Registers.thy ===== *)
theory Registers
  imports ConstFolding
begin

unbundle bit_operations_syntax

text \<open>
  Virtual registers and arithmetic of the interpreter (\<^verbatim>\<open>runtime/interpreter/vregister.h\<close>,
  \<^verbatim>\<open>acc_vregister.h\<close> and \<^verbatim>\<open>math_helpers.h\<close>).

  A register of a static language is a 64-bit payload and a mirror that holds its tag.  A C++ value
  is a mathematical integer (in the range of its type) or the bit pattern of a floating-point number; the functors of
  \<^verbatim>\<open>math_helpers.h\<close> and of the standard library take the type they are instantiated at as an argument and are \<open>None\<close> where
  the behaviour of the C++ expression is undefined: signed overflow and division by zero.
\<close>

section \<open>Registers\<close>

record vreg =
  payload :: u64
  mirror :: u64

definition GC_OBJECT_TYPE :: u64 where
  "GC_OBJECT_TYPE = 1"

definition PRIMITIVE_TYPE :: u64 where
  "PRIMITIVE_TYPE = 0"

definition HasObject :: "vreg \<Rightarrow> bool" where
  "HasObject r \<longleftrightarrow> mirror r = GC_OBJECT_TYPE"

text \<open>C++ values: integers of every width and floating-point numbers.\<close>

datatype num = IntV int | FltV fmt u64

fun GetAs :: "ir_type \<Rightarrow> u64 \<Rightarrow> num option" where
  "GetAs FLOAT32 v = Some (FltV F32 (ucast (ucast v :: u32)))"
| "GetAs FLOAT64 v = Some (FltV F64 v)"
| "GetAs T v = map_option IntV (static_cast T v)"

definition Get_i32 :: "u64 \<Rightarrow> int" where
  "Get_i32 v = sint (ucast v :: u32)"

text \<open>
  The overloads of \<^verbatim>\<open>Set\<close> convert an integer of any type to \<^verbatim>\<open>int64_t\<close>; a \<^verbatim>\<open>float\<close> goes through \<^verbatim>\<open>int32_t\<close> and is
  sign-extended.
\<close>

fun Set_num :: "num \<Rightarrow> u64" where
  "Set_num (IntV i) = word_of_int i"
| "Set_num (FltV F32 b) = scast (ucast b :: u32)"
| "Set_num (FltV F64 b) = b"

text \<open>References: \<open>ops\<close> is \<^verbatim>\<open>OBJECT_POINTER_SIZE\<close>; the stored pointer is a signed integer of that size.\<close>

definition GetReference :: "nat \<Rightarrow> u64 \<Rightarrow> u64" where
  "GetReference ops v = (if ops = 4 then ucast (ucast v :: u32) else v)"

definition Set_ref :: "nat \<Rightarrow> u64 \<Rightarrow> u64" where
  "Set_ref ops a = (if ops = 4 then scast (ucast a :: u32) else a)"

text \<open>
  The moves of registers copy the payload and set the tag.  The assertions of debug builds (\<^verbatim>\<open>ASSERT(!other.HasObject())\<close> in
  \<^verbatim>\<open>MovePrimitive\<close>, \<^verbatim>\<open>ASSERT(other.HasObject())\<close> in \<^verbatim>\<open>MoveReference\<close>) are not part of the model: a move of a register with the other tag has a result
  here, so every theorem also covers these executions.
\<close>

definition MovePrimitive :: "vreg \<Rightarrow> vreg" where
  "MovePrimitive other = \<lparr>payload = payload other, mirror = PRIMITIVE_TYPE\<rparr>"

definition MoveReference :: "vreg \<Rightarrow> vreg" where
  "MoveReference other = \<lparr>payload = payload other, mirror = GC_OBJECT_TYPE\<rparr>"

definition SetPrimitive :: "num \<Rightarrow> vreg" where
  "SetPrimitive v = \<lparr>payload = Set_num v, mirror = PRIMITIVE_TYPE\<rparr>"

definition SetReference :: "nat \<Rightarrow> u64 \<Rightarrow> vreg" where
  "SetReference ops a = \<lparr>payload = Set_ref ops a, mirror = GC_OBJECT_TYPE\<rparr>"

text \<open>\<^verbatim>\<open>GetAcc().Set(v)\<close> writes the payload and leaves the tag alone.\<close>

definition Set_payload :: "num \<Rightarrow> vreg \<Rightarrow> vreg" where
  "Set_payload v r = r\<lparr>payload := Set_num v\<rparr>"

section \<open>Arithmetic\<close>

type_synonym binop = "fpu \<Rightarrow> ir_type \<Rightarrow> num \<Rightarrow> num \<Rightarrow> num option"
type_synonym unop = "fpu \<Rightarrow> ir_type \<Rightarrow> num \<Rightarrow> num option"

text \<open>The unsigned type of a type as a range: \<^verbatim>\<open>static_cast<std::make_unsigned_t<T>>(x)\<close>.\<close>

definition to_unsigned :: "ir_type \<Rightarrow> int \<Rightarrow> int" where
  "to_unsigned T x = take_bit (type_bits T) x"

definition SafeMath :: "(int \<Rightarrow> int \<Rightarrow> int) \<Rightarrow> ir_type \<Rightarrow> int \<Rightarrow> int \<Rightarrow> int" where
  "SafeMath f T a b = wrap T (to_unsigned T (f (to_unsigned T a) (to_unsigned T b)))"

definition shift_amount :: "ir_type \<Rightarrow> int \<Rightarrow> nat" where
  "shift_amount T y = nat (to_unsigned T y AND int (type_bits T - 1))"

fun Plus :: binop where
  "Plus fp T (IntV a) (IntV b) = Some (IntV (SafeMath (+) T a b))"
| "Plus fp T _ _ = None"

fun Minus :: binop where
  "Minus fp T (IntV a) (IntV b) = Some (IntV (SafeMath (-) T a b))"
| "Minus fp T _ _ = None"

fun Multiplies :: binop where
  "Multiplies fp T (IntV a) (IntV b) = Some (IntV (SafeMath (*) T a b))"
| "Multiplies fp T _ _ = None"

text \<open>The functors of the standard library that are used at floating-point types only, and the bitwise ones.\<close>

fun std_plus :: binop where
  "std_plus fp T (FltV f a) (FltV g b) = (if f = g then Some (FltV f (fp_add fp f a b)) else None)"
| "std_plus fp T _ _ = None"

fun std_minus :: binop where
  "std_minus fp T (FltV f a) (FltV g b) = (if f = g then Some (FltV f (fp_sub fp f a b)) else None)"
| "std_minus fp T _ _ = None"

fun std_multiplies :: binop where
  "std_multiplies fp T (FltV f a) (FltV g b) = (if f = g then Some (FltV f (fp_mul fp f a b)) else None)"
| "std_multiplies fp T _ _ = None"

fun std_divides :: binop where
  "std_divides fp T (FltV f a) (FltV g b) = (if f = g then Some (FltV f (fp_div fp f a b)) else None)"
| "std_divides fp T _ _ = None"

fun bit_and :: binop where
  "bit_and fp T (IntV a) (IntV b) = Some (IntV (a AND b))"
| "bit_and fp T _ _ = None"

fun bit_or :: binop where
  "bit_or fp T (IntV a) (IntV b) = Some (IntV (a OR b))"
| "bit_or fp T _ _ = None"

fun bit_xor :: binop where
  "bit_xor fp T (IntV a) (IntV b) = Some (IntV (a XOR b))"
| "bit_xor fp T _ _ = None"

fun bit_shl :: binop where
  "bit_shl fp T (IntV x) (IntV y) =
     Some (IntV (wrap T (to_unsigned T (to_unsigned T x * 2 ^ shift_amount T y))))"
| "bit_shl fp T _ _ = None"

fun bit_shr :: binop where
  "bit_shr fp T (IntV x) (IntV y) = Some (IntV (wrap T (to_unsigned T x div 2 ^ shift_amount T y)))"
| "bit_shr fp T _ _ = None"

fun bit_ashr :: binop where
  "bit_ashr fp T (IntV x) (IntV y) = Some (IntV (x div 2 ^ shift_amount T y))"
| "bit_ashr fp T _ _ = None"

fun fmodulus :: binop where
  "fmodulus fp T (FltV f a) (FltV g b) = (if f = g then Some (FltV f (fp_fmod fp f a b)) else None)"
| "fmodulus fp T _ _ = None"

fun cmp_op :: binop where
  "cmp_op fp T (IntV x) (IntV y) = Some (IntV (if x > y then 1 else if x = y then 0 else - 1))"
| "cmp_op fp T _ _ = None"

definition fp_eq :: "fmt \<Rightarrow> u64 \<Rightarrow> u64 \<Rightarrow> bool" where
  "fp_eq f a b \<longleftrightarrow> fp_less_eq f a b \<and> fp_less_eq f b a"

fun fcmpl :: binop where
  "fcmpl fp T (FltV f x) (FltV g y) =
     (if f = g then Some (IntV (if fp_less f y x then 1 else if fp_eq f x y then 0 else - 1)) else None)"
| "fcmpl fp T _ _ = None"

fun fcmpg :: binop where
  "fcmpg fp T (FltV f x) (FltV g y) =
     (if f = g then Some (IntV (if fp_less f x y then - 1 else if fp_eq f x y then 0 else 1)) else None)"
| "fcmpg fp T _ _ = None"

definition type_minimum :: "ir_type \<Rightarrow> int" where
  "type_minimum T = (if IsTypeSigned T then - (2 ^ (type_bits T - 1)) else 0)"

fun idivides :: binop where
  "idivides fp T (IntV x) (IntV y) =
     (if IsTypeSigned T \<and> x = type_minimum T \<and> y = - 1 then Some (IntV (type_minimum T))
      else if y = 0 then None else Some (IntV (x sdiv y)))"
| "idivides fp T _ _ = None"

fun imodulus :: binop where
  "imodulus fp T (IntV x) (IntV y) =
     (if IsTypeSigned T \<and> x = type_minimum T \<and> y = - 1 then Some (IntV 0)
      else if y = 0 then None else Some (IntV (x smod y)))"
| "imodulus fp T _ _ = None"

text \<open>\<^verbatim>\<open>std::negate\<close> on a signed integer overflows at the minimum of its type.\<close>

fun std_negate :: unop where
  "std_negate fp T (IntV x) = (if IsTypeSigned T \<and> x = type_minimum T then None else Some (IntV (- x)))"
| "std_negate fp T (FltV f x) = Some (FltV f (fp_neg f x))"

fun bit_not :: unop where
  "bit_not fp T (IntV x) = Some (IntV (NOT x))"
| "bit_not fp T _ = None"

text \<open>\<^verbatim>\<open>static_cast<To>(from)\<close> between arithmetic types, floating point to integer left out.\<close>

fun convert :: "fpu \<Rightarrow> ir_type \<Rightarrow> num \<Rightarrow> num option" where
  "convert fp FLOAT32 (IntV i) = Some (FltV F32 (fp_of_int F32 i))"
| "convert fp FLOAT64 (IntV i) = Some (FltV F64 (fp_of_int F64 i))"
| "convert fp FLOAT32 (FltV f b) = Some (FltV F32 (if f = F32 then b else fp_convert fp f F32 b))"
| "convert fp FLOAT64 (FltV f b) = Some (FltV F64 (if f = F64 then b else fp_convert fp f F64 b))"
| "convert fp T (IntV i) = (if is_int_type T then Some (IntV (wrap T i)) else None)"
| "convert fp T (FltV f b) = None"

text \<open>\<^verbatim>\<open>CastFloatToInt\<close> of \<^verbatim>\<open>libpandabase/utils/bit_utils.h\<close> at the 32-bit and 64-bit integer types.\<close>

fun CastFloatToInt :: "ir_type \<Rightarrow> num \<Rightarrow> num option" where
  "CastFloatToInt T (FltV f v) =
     (if T \<in> {INT32, UINT32, INT64, UINT64}
      then (let MIN_INT = type_minimum T;
                MAX_INT = 2 ^ (type_bits T - (if IsTypeSigned T then 1 else 0)) - 1;
                FLOAT_MIN_INT = fp_of_int f MIN_INT; FLOAT_MAX_INT = fp_of_int f MAX_INT
            in Some (IntV (if fp_less f FLOAT_MIN_INT v
                           then (if fp_less f v FLOAT_MAX_INT then fp_trunc f v else MAX_INT)
                           else if isnan f v then 0 else MIN_INT)))
      else None)"
| "CastFloatToInt T (IntV i) = None"

end
