(* ===== verification/Interpreter.thy ===== *)
theory Interpreter
  imports Registers "HOL-Library.Monad_Syntax"
begin

unbundle bit_operations_syntax

text \<open>
  The interpreter of static bytecode (\<^verbatim>\<open>runtime/interpreter/interpreter-inl.h\<close>, \<^verbatim>\<open>instruction_handler_base.h\<close>,
  \<^verbatim>\<open>instruction_handler_state.h\<close>, \<^verbatim>\<open>frame.h\<close>, \<^verbatim>\<open>cache.h\<close>).

  A handler is a function from the runtime, the instruction at the current address and the state to
  the state after it; \<open>None\<close> is a failed assertion, an \<^verbatim>\<open>UNREACHABLE()\<close>, a register outside its frame or undefined behaviour
  of a C++ expression.  The instruction is given by what the generated decoder returns for it: registers, immediates,
  identifier and length.  The chain of frames of the thread is a list, the current frame first.
  The heap maps addresses to objects with fields and elements; a pending exception is recorded by the
  call that throws it.  An entry of the interpreter cache is the address of an instruction, its method and the resolved item.

  The runtime behind \<^verbatim>\<open>RuntimeIfaceT\<close> (class linker, allocation, safepoints, compiled code, catch tables) is
  the record \<open>rt\<close>, an argument of every handler.  Logging, profiling counters and events have no effect on the state.
\<close>

section \<open>State\<close>

record obj =
  obj_class :: nat
  obj_fields :: "nat \<Rightarrow> u64"
  obj_elems :: "u64 list"

record frame =
  frame_vregs :: "vreg list"
  frame_acc :: vreg
  frame_method :: nat
  numActualArgs :: nat
  bcOffset :: u32
  nextInst :: int
  frame_inst :: int
  IsStackless :: bool
  IsInitobj :: bool
  IsBoundary :: bool

datatype exn =
  ArithmeticException | NullPointerException | ArrayIndexOutOfBoundsException int nat | ArrayStoreException nat nat
| NegativeArraySizeException int | ClassCastException nat nat | StackOverflowException | Thrown u64 | RuntimeError nat

record interp =
  acc :: vreg
  cur_inst :: int
  opcodeExtension :: u16
  frames :: "frame list"
  pending :: "exn option"
  heap :: "u64 \<Rightarrow> obj option"
  statics :: "nat \<Rightarrow> u64"
  cache :: "nat \<Rightarrow> (int \<times> nat \<times> nat) option"

record bc =
  op_vreg :: "nat \<Rightarrow> nat"
  op_imm :: "nat \<Rightarrow> int"
  op_id :: nat
  op_size :: int

datatype TypeId = U1_t | I8_t | U8_t | I16_t | U16_t | I32_t | U32_t | I64_t | U64_t | F32_t | F64_t | REFERENCE_t | TAGGED_t

record rt =
  rt_fpu :: fpu
  OBJECT_POINTER_SIZE :: nat
  NUM_PREFIXED :: nat
  SUPPORT_OSR :: bool
  fakeInstBuf :: int
  bytecode :: "int \<Rightarrow> u8"
  TestAllFlags :: "interp \<Rightarrow> bool"
  Safepoint :: "interp \<Rightarrow> interp"
  UpdateHotnessOSR :: "interp \<Rightarrow> int \<Rightarrow> bool"
  rtResolveField :: "interp \<Rightarrow> nat \<Rightarrow> nat \<Rightarrow> interp \<times> nat option"
  rtResolveClass :: "interp \<Rightarrow> nat \<Rightarrow> nat \<Rightarrow> interp \<times> nat option"
  rtResolveMethod :: "interp \<Rightarrow> nat \<Rightarrow> nat \<Rightarrow> interp \<times> nat option"
  rtFieldType :: "nat \<Rightarrow> TypeId"
  rtCreateArray :: "interp \<Rightarrow> nat \<Rightarrow> int \<Rightarrow> interp \<times> u64"
  rtCreateObject :: "interp \<Rightarrow> nat \<Rightarrow> interp \<times> u64"
  rtCreateMultiArray :: "interp \<Rightarrow> bc \<Rightarrow> nat \<Rightarrow> nat \<Rightarrow> interp \<times> u64"
  rtCreateString :: "interp \<Rightarrow> nat \<Rightarrow> u64 \<Rightarrow> interp \<times> u64"
  rtHandleLdaStr :: "interp \<Rightarrow> nat \<Rightarrow> interp"
  rtResolveLiteralArray :: "interp \<Rightarrow> nat \<Rightarrow> nat \<Rightarrow> interp \<times> u64"
  rtManagedObject :: "nat \<Rightarrow> u64"
  rtMethodClass :: "nat \<Rightarrow> nat \<Rightarrow> nat option"
  rtMethodArgumentsCount :: "nat \<Rightarrow> nat \<Rightarrow> nat"
  IsArrayClass :: "nat \<Rightarrow> bool"
  IsStringClass :: "nat \<Rightarrow> bool"
  MethodClass :: "nat \<Rightarrow> nat"
  IsAssignableFrom :: "nat \<Rightarrow> nat \<Rightarrow> bool"
  GetComponentType :: "nat \<Rightarrow> nat"
  ResolveVirtualMethod :: "nat \<Rightarrow> nat \<Rightarrow> nat"
  MethodIsStatic :: "nat \<Rightarrow> bool"
  MethodNumArgs :: "nat \<Rightarrow> nat"
  MethodNumVregs :: "nat \<Rightarrow> nat"
  MethodInstructions :: "nat \<Rightarrow> int"
  HasCompiledCode :: "interp \<Rightarrow> nat \<Rightarrow> bool"
  CompiledCodeBridge :: "interp \<Rightarrow> nat \<Rightarrow> interp"
  FrameAvailable :: "interp \<Rightarrow> nat \<Rightarrow> bool"
  rtFindCatchBlock :: "nat \<Rightarrow> exn \<Rightarrow> u32 \<Rightarrow> u32"
  rtExceptionObject :: "exn \<Rightarrow> u64"

type_synonym handler = "rt \<Rightarrow> bc \<Rightarrow> interp \<Rightarrow> interp option"

definition INVALID_OFFSET :: u32 where
  "INVALID_OFFSET = - 1"

definition GetFrame :: "interp \<Rightarrow> frame option" where
  "GetFrame s = (case frames s of [] \<Rightarrow> None | f # _ \<Rightarrow> Some f)"

definition SetFrame :: "interp \<Rightarrow> frame \<Rightarrow> interp" where
  "SetFrame s f = s\<lparr>frames := f # tl (frames s)\<rparr>"

definition wr :: "'b list \<Rightarrow> nat \<Rightarrow> 'b \<Rightarrow> 'b list option" where
  "wr xs i v = (if i < length xs then Some (xs[i := v]) else None)"

definition GetVReg :: "interp \<Rightarrow> nat \<Rightarrow> vreg option" where
  "GetVReg s i = do { f \<leftarrow> GetFrame s; rd (frame_vregs f) i }"

definition SetVReg :: "interp \<Rightarrow> nat \<Rightarrow> vreg \<Rightarrow> interp option" where
  "SetVReg s i r = do { f \<leftarrow> GetFrame s; vs \<leftarrow> wr (frame_vregs f) i r; Some (SetFrame s (f\<lparr>frame_vregs := vs\<rparr>)) }"

definition GetRefReg :: "rt \<Rightarrow> interp \<Rightarrow> nat \<Rightarrow> u64 option" where
  "GetRefReg rt s i = map_option (\<lambda>r. GetReference (OBJECT_POINTER_SIZE rt) (payload r)) (GetVReg s i)"

definition GetAccRef :: "rt \<Rightarrow> interp \<Rightarrow> u64" where
  "GetAccRef rt s = GetReference (OBJECT_POINTER_SIZE rt) (payload (acc s))"

definition SetAcc :: "vreg \<Rightarrow> interp \<Rightarrow> interp" where
  "SetAcc r s = s\<lparr>acc := r\<rparr>"

text \<open>\<^verbatim>\<open>GetFrame()->SetAcc(GetAcc())\<close> and \<^verbatim>\<open>GetAcc() = GetFrame()->GetAcc()\<close>, around calls that may move objects.\<close>

definition SaveAcc :: "interp \<Rightarrow> interp option" where
  "SaveAcc s = do { f \<leftarrow> GetFrame s; Some (SetFrame s (f\<lparr>frame_acc := acc s\<rparr>)) }"

definition RestoreAcc :: "interp \<Rightarrow> interp option" where
  "RestoreAcc s = do { f \<leftarrow> GetFrame s; Some (s\<lparr>acc := frame_acc f\<rparr>) }"

section \<open>Moving between instructions\<close>

definition MoveToNextInst :: "bool \<Rightarrow> bc \<Rightarrow> interp \<Rightarrow> interp" where
  "MoveToNextInst CAN_THROW I s =
     s\<lparr>cur_inst := cur_inst s + op_size I, opcodeExtension := (if CAN_THROW then 0 else opcodeExtension s)\<rparr>"

definition JumpToInst :: "int \<Rightarrow> interp \<Rightarrow> interp" where
  "JumpToInst offset s = s\<lparr>cur_inst := cur_inst s + offset\<rparr>"

definition GetPrimaryOpcode :: "rt \<Rightarrow> interp \<Rightarrow> u8" where
  "GetPrimaryOpcode rt s = bytecode rt (cur_inst s)"

definition MoveToExceptionHandler :: "rt \<Rightarrow> interp \<Rightarrow> interp" where
  "MoveToExceptionHandler rt s =
     s\<lparr>opcodeExtension := of_nat (255 + NUM_PREFIXED rt + 1) - ucast (GetPrimaryOpcode rt s)\<rparr>"

definition GetExceptionOpcode :: "rt \<Rightarrow> interp \<Rightarrow> u16" where
  "GetExceptionOpcode rt s = ucast (GetPrimaryOpcode rt s) + opcodeExtension s"

definition Throw :: "exn \<Rightarrow> interp \<Rightarrow> interp" where
  "Throw e s = s\<lparr>pending := Some e\<rparr>"

definition raise_exn :: "rt \<Rightarrow> exn \<Rightarrow> interp \<Rightarrow> interp" where
  "raise_exn rt e s = MoveToExceptionHandler rt (Throw e s)"

definition GetBytecodeOffset :: "interp \<Rightarrow> u32 option" where
  "GetBytecodeOffset s = map_option (\<lambda>f. word_of_int (cur_inst s - frame_inst f)) (GetFrame s)"

definition UpdateBytecodeOffset :: "interp \<Rightarrow> interp option" where
  "UpdateBytecodeOffset s = do { f \<leftarrow> GetFrame s; pc \<leftarrow> GetBytecodeOffset s; Some (SetFrame s (f\<lparr>bcOffset := pc\<rparr>)) }"

definition InstrumentBranches :: "rt \<Rightarrow> int \<Rightarrow> interp \<Rightarrow> (interp \<times> bool) option" where
  "InstrumentBranches rt offset s =
     (if offset > 0 then Some (s, False)
      else do {
        s \<leftarrow> (if TestAllFlags rt s then do { s \<leftarrow> SaveAcc s; RestoreAcc (Safepoint rt s) } else Some s);
        if SUPPORT_OSR rt \<and> UpdateHotnessOSR rt s offset then Some (s\<lparr>cur_inst := fakeInstBuf rt\<rparr>, True)
        else Some (s, False) })"

definition Branch :: "bool \<Rightarrow> int \<Rightarrow> handler" where
  "Branch taken imm rt I s =
     (let offset = wrap INT32 imm
      in if taken then do { (s, osr) \<leftarrow> InstrumentBranches rt offset s; Some (if osr then s else JumpToInst offset s) }
         else Some (MoveToNextInst False I s))"

section \<open>Generic handlers\<close>

definition HandleCondJmpz :: "(int \<Rightarrow> int \<Rightarrow> bool) \<Rightarrow> handler" where
  "HandleCondJmpz Op rt I s = Branch (Op (Get_i32 (payload (acc s))) 0) (op_imm I 0) rt I s"

definition HandleCondJmp :: "(int \<Rightarrow> int \<Rightarrow> bool) \<Rightarrow> handler" where
  "HandleCondJmp Op rt I s =
     do { r \<leftarrow> GetVReg s (op_vreg I 0);
          Branch (Op (Get_i32 (payload (acc s))) (Get_i32 (payload r))) (op_imm I 0) rt I s }"

definition HandleCondJmpzObj :: "(u64 \<Rightarrow> u64 \<Rightarrow> bool) \<Rightarrow> handler" where
  "HandleCondJmpzObj Op rt I s = Branch (Op (GetAccRef rt s) 0) (op_imm I 0) rt I s"

definition HandleCondJmpObj :: "(u64 \<Rightarrow> u64 \<Rightarrow> bool) \<Rightarrow> handler" where
  "HandleCondJmpObj Op rt I s =
     do { v2 \<leftarrow> GetRefReg rt s (op_vreg I 0); Branch (Op (GetAccRef rt s) v2) (op_imm I 0) rt I s }"

text \<open>\<^verbatim>\<open>OpT v2 = GetInst().GetImm<FORMAT>()\<close>: the immediate at the type of the operation.\<close>

definition imm_as :: "ir_type \<Rightarrow> int \<Rightarrow> num option" where
  "imm_as T imm = (if is_int_type T then Some (IntV (wrap T imm)) else None)"

definition HandleBinaryOp2Imm :: "ir_type \<Rightarrow> binop \<Rightarrow> bool \<Rightarrow> handler" where
  "HandleBinaryOp2Imm T Op IS_DIV rt I s =
     do { v1 \<leftarrow> GetAs T (payload (acc s));
          v2 \<leftarrow> imm_as T (op_imm I 0);
          if IS_DIV \<and> v2 = IntV 0 then Some (raise_exn rt ArithmeticException s)
          else do { v \<leftarrow> Op (rt_fpu rt) T v1 v2;
                    Some (MoveToNextInst IS_DIV I (SetAcc (Set_payload v (acc s)) s)) } }"

definition HandleBinaryOpImmV :: "ir_type \<Rightarrow> binop \<Rightarrow> bool \<Rightarrow> handler" where
  "HandleBinaryOpImmV T Op IS_DIV rt I s =
     do { imm \<leftarrow> imm_as T (op_imm I 0);
          r \<leftarrow> GetVReg s (op_vreg I 1);
          v1 \<leftarrow> GetAs T (payload r);
          if IS_DIV \<and> imm = IntV 0 then Some (raise_exn rt ArithmeticException s)
          else do { v \<leftarrow> Op (rt_fpu rt) T v1 imm;
                    s \<leftarrow> SetVReg s (op_vreg I 0) (SetPrimitive v);
                    Some (MoveToNextInst IS_DIV I s) } }"

definition HandleBinaryOp2 :: "ir_type \<Rightarrow> binop \<Rightarrow> bool \<Rightarrow> handler" where
  "HandleBinaryOp2 T Op IS_DIV rt I s =
     do { v1 \<leftarrow> GetAs T (payload (acc s));
          r \<leftarrow> GetVReg s (op_vreg I 0);
          v2 \<leftarrow> GetAs T (payload r);
          if IS_DIV \<and> v2 = IntV 0 then Some (raise_exn rt ArithmeticException s)
          else do { v \<leftarrow> Op (rt_fpu rt) T v1 v2;
                    Some (MoveToNextInst IS_DIV I (SetAcc (Set_payload v (acc s)) s)) } }"

text \<open>\<^verbatim>\<open>static_cast<std::make_signed_t<OpT>>\<close> of an integer result.\<close>

fun make_signed :: "ir_type \<Rightarrow> num \<Rightarrow> num" where
  "make_signed T (IntV i) = IntV (signed_take_bit (type_bits T - 1) i)"
| "make_signed T (FltV f b) = FltV f b"

definition HandleBinaryOp2V :: "ir_type \<Rightarrow> binop \<Rightarrow> bool \<Rightarrow> handler" where
  "HandleBinaryOp2V T Op IS_DIV rt I s =
     do { v1 \<leftarrow> GetAs T (payload (acc s));
          r \<leftarrow> GetVReg s (op_vreg I 1);
          v2 \<leftarrow> GetAs T (payload r);
          if IS_DIV \<and> v2 = IntV 0 then Some (raise_exn rt ArithmeticException s)
          else do { v \<leftarrow> Op (rt_fpu rt) T v1 v2;
                    s \<leftarrow> SetVReg s (op_vreg I 0) (SetPrimitive (make_signed T v));
                    Some (MoveToNextInst IS_DIV I s) } }"

definition HandleBinaryOp :: "ir_type \<Rightarrow> binop \<Rightarrow> bool \<Rightarrow> handler" where
  "HandleBinaryOp T Op IS_DIV rt I s =
     do { r1 \<leftarrow> GetVReg s (op_vreg I 0);
          r2 \<leftarrow> GetVReg s (op_vreg I 1);
          v1 \<leftarrow> GetAs T (payload r1);
          v2 \<leftarrow> GetAs T (payload r2);
          if IS_DIV \<and> v2 = IntV 0 then Some (raise_exn rt ArithmeticException s)
          else do { v \<leftarrow> Op (rt_fpu rt) T v1 v2;
                    Some (MoveToNextInst IS_DIV I (SetAcc (SetPrimitive v) s)) } }"

definition HandleBinaryOpV :: "ir_type \<Rightarrow> binop \<Rightarrow> bool \<Rightarrow> handler" where
  "HandleBinaryOpV T Op IS_DIV rt I s =
     do { r1 \<leftarrow> GetVReg s (op_vreg I 0);
          r2 \<leftarrow> GetVReg s (op_vreg I 1);
          v1 \<leftarrow> GetAs T (payload r1);
          v2 \<leftarrow> GetAs T (payload r2);
          if IS_DIV \<and> v2 = IntV 0 then Some (raise_exn rt ArithmeticException s)
          else do { v \<leftarrow> Op (rt_fpu rt) T v1 v2;
                    s \<leftarrow> SetVReg s (op_vreg I 0) (SetPrimitive v);
                    Some (MoveToNextInst IS_DIV I s) } }"

definition HandleUnaryOp :: "ir_type \<Rightarrow> unop \<Rightarrow> handler" where
  "HandleUnaryOp T Op rt I s =
     do { v \<leftarrow> GetAs T (payload (acc s));
          w \<leftarrow> Op (rt_fpu rt) T v;
          Some (MoveToNextInst False I (SetAcc (Set_payload w (acc s)) s)) }"

definition HandleConversion :: "ir_type \<Rightarrow> ir_type \<Rightarrow> handler" where
  "HandleConversion From To rt I s =
     do { v \<leftarrow> GetAs From (payload (acc s));
          w \<leftarrow> convert (rt_fpu rt) To v;
          Some (MoveToNextInst False I (SetAcc (Set_payload w (acc s)) s)) }"

definition HandleFloatToIntConversion :: "ir_type \<Rightarrow> ir_type \<Rightarrow> handler" where
  "HandleFloatToIntConversion From To rt I s =
     do { v \<leftarrow> GetAs From (payload (acc s));
          w \<leftarrow> CastFloatToInt To v;
          Some (MoveToNextInst False I (SetAcc (Set_payload w (acc s)) s)) }"

section \<open>Moves\<close>

text \<open>Immediates of floating-point instructions are bit patterns.\<close>

definition imm_float :: "fmt \<Rightarrow> int \<Rightarrow> num" where
  "imm_float f imm = FltV f (if f = F32 then ucast (word_of_int imm :: u32) else word_of_int imm)"

definition HandleNop :: handler where
  "HandleNop rt I s = Some (MoveToNextInst False I s)"

definition HandleMov :: handler where
  "HandleMov rt I s =
     do { r \<leftarrow> GetVReg s (op_vreg I 1); s \<leftarrow> SetVReg s (op_vreg I 0) (MovePrimitive r); Some (MoveToNextInst False I s) }"

definition HandleMovWide :: handler where
  "HandleMovWide rt I s =
     do { r \<leftarrow> GetVReg s (op_vreg I 1); s \<leftarrow> SetVReg s (op_vreg I 0) (MovePrimitive r); Some (MoveToNextInst False I s) }"

definition HandleMovObj :: handler where
  "HandleMovObj rt I s =
     do { r \<leftarrow> GetVReg s (op_vreg I 1); s \<leftarrow> SetVReg s (op_vreg I 0) (MoveReference r); Some (MoveToNextInst False I s) }"

definition HandleMovDyn :: handler where
  "HandleMovDyn rt I s =
     do { r \<leftarrow> GetVReg s (op_vreg I 1); s \<leftarrow> SetVReg s (op_vreg I 0) r; Some (MoveToNextInst False I s) }"

definition HandleMovi :: handler where
  "HandleMovi rt I s =
     do { s \<leftarrow> SetVReg s (op_vreg I 0) (SetPrimitive (IntV (wrap INT32 (op_imm I 0)))); Some (MoveToNextInst False I s) }"

definition HandleMoviWide :: handler where
  "HandleMoviWide rt I s =
     do { s \<leftarrow> SetVReg s (op_vreg I 0) (SetPrimitive (IntV (wrap INT64 (op_imm I 0)))); Some (MoveToNextInst False I s) }"

definition HandleFmovi :: handler where
  "HandleFmovi rt I s =
     do { s \<leftarrow> SetVReg s (op_vreg I 0) (SetPrimitive (imm_float F32 (op_imm I 0))); Some (MoveToNextInst False I s) }"

definition HandleFmoviWide :: handler where
  "HandleFmoviWide rt I s =
     do { s \<leftarrow> SetVReg s (op_vreg I 0) (SetPrimitive (imm_float F64 (op_imm I 0))); Some (MoveToNextInst False I s) }"

definition HandleMovNull :: handler where
  "HandleMovNull rt I s =
     do { s \<leftarrow> SetVReg s (op_vreg I 0) (SetReference (OBJECT_POINTER_SIZE rt) 0); Some (MoveToNextInst False I s) }"

definition HandleLda :: handler where
  "HandleLda rt I s =
     do { r \<leftarrow> GetVReg s (op_vreg I 0);
          Some (MoveToNextInst False I (SetAcc (SetPrimitive (IntV (Get_i32 (payload r)))) s)) }"

definition HandleLdaWide :: handler where
  "HandleLdaWide rt I s =
     do { r \<leftarrow> GetVReg s (op_vreg I 0);
          Some (MoveToNextInst False I (SetAcc (SetPrimitive (IntV (sint (payload r)))) s)) }"

definition HandleLdaObj :: handler where
  "HandleLdaObj rt I s =
     do { a \<leftarrow> GetRefReg rt s (op_vreg I 0);
          Some (MoveToNextInst False I (SetAcc (SetReference (OBJECT_POINTER_SIZE rt) a) s)) }"

definition HandleLdaDyn :: handler where
  "HandleLdaDyn rt I s =
     do { r \<leftarrow> GetVReg s (op_vreg I 0); Some (MoveToNextInst False I (SetAcc r s)) }"

definition HandleLdai :: handler where
  "HandleLdai rt I s = Some (MoveToNextInst False I (SetAcc (SetPrimitive (IntV (wrap INT32 (op_imm I 0)))) s))"

definition HandleLdaiWide :: handler where
  "HandleLdaiWide rt I s = Some (MoveToNextInst False I (SetAcc (SetPrimitive (IntV (wrap INT64 (op_imm I 0)))) s))"

definition HandleFldai :: handler where
  "HandleFldai rt I s = Some (MoveToNextInst False I (SetAcc (SetPrimitive (imm_float F32 (op_imm I 0))) s))"

definition HandleFldaiWide :: handler where
  "HandleFldaiWide rt I s = Some (MoveToNextInst False I (SetAcc (SetPrimitive (imm_float F64 (op_imm I 0))) s))"

definition HandleLdaNull :: handler where
  "HandleLdaNull rt I s = Some (MoveToNextInst False I (SetAcc (SetReference (OBJECT_POINTER_SIZE rt) 0) s))"

definition HandleSta :: handler where
  "HandleSta rt I s =
     do { s \<leftarrow> SetVReg s (op_vreg I 0) (SetPrimitive (IntV (Get_i32 (payload (acc s))))); Some (MoveToNextInst False I s) }"

definition HandleStaWide :: handler where
  "HandleStaWide rt I s =
     do { s \<leftarrow> SetVReg s (op_vreg I 0) (SetPrimitive (IntV (sint (payload (acc s))))); Some (MoveToNextInst False I s) }"

definition HandleStaObj :: handler where
  "HandleStaObj rt I s =
     do { s \<leftarrow> SetVReg s (op_vreg I 0) (SetReference (OBJECT_POINTER_SIZE rt) (GetAccRef rt s));
          Some (MoveToNextInst False I s) }"

definition HandleStaDyn :: handler where
  "HandleStaDyn rt I s = do { s \<leftarrow> SetVReg s (op_vreg I 0) (acc s); Some (MoveToNextInst False I s) }"

definition HandleJmp :: handler where
  "HandleJmp rt I s = Branch True (op_imm I 0) rt I s"

text \<open>\<^verbatim>\<open>inci\<close> adds two signed integers without \<^verbatim>\<open>SafeMath\<close>: an overflow is undefined; the tag is not written.\<close>

definition HandleInci :: handler where
  "HandleInci rt I s =
     do { r \<leftarrow> GetVReg s (op_vreg I 0);
          v \<leftarrow> (let x = Get_i32 (payload r) + wrap INT32 (op_imm I 0)
               in if x = wrap INT32 x then Some x else None);
          s \<leftarrow> SetVReg s (op_vreg I 0) (Set_payload (IntV v) r);
          Some (MoveToNextInst False I s) }"

lemmas move_handlers =
  HandleMov_def HandleMovWide_def HandleMovObj_def HandleMovDyn_def HandleMovi_def HandleMoviWide_def HandleFmovi_def
  HandleFmoviWide_def HandleMovNull_def HandleLda_def HandleLdaWide_def HandleLdaObj_def HandleLdaDyn_def HandleLdai_def
  HandleLdaiWide_def HandleFldai_def HandleFldaiWide_def HandleLdaNull_def HandleSta_def HandleStaWide_def HandleStaObj_def
  HandleStaDyn_def HandleInci_def HandleNop_def

section \<open>Arithmetic, conversions and jumps\<close>

subsection \<open>Accumulator and register\<close>

definition HandleCmpWide :: handler where
  "HandleCmpWide = HandleBinaryOp2 INT64 cmp_op False"

definition HandleUcmp :: handler where
  "HandleUcmp = HandleBinaryOp2 UINT32 cmp_op False"

definition HandleUcmpWide :: handler where
  "HandleUcmpWide = HandleBinaryOp2 UINT64 cmp_op False"

definition HandleFcmpl :: handler where
  "HandleFcmpl = HandleBinaryOp2 FLOAT32 fcmpl False"

definition HandleFcmplWide :: handler where
  "HandleFcmplWide = HandleBinaryOp2 FLOAT64 fcmpl False"

definition HandleFcmpg :: handler where
  "HandleFcmpg = HandleBinaryOp2 FLOAT32 fcmpg False"

definition HandleFcmpgWide :: handler where
  "HandleFcmpgWide = HandleBinaryOp2 FLOAT64 fcmpg False"

definition HandleAdd2 :: handler where
  "HandleAdd2 = HandleBinaryOp2 INT32 Plus False"

definition HandleAdd2Wide :: handler where
  "HandleAdd2Wide = HandleBinaryOp2 INT64 Plus False"

definition HandleFadd2 :: handler where
  "HandleFadd2 = HandleBinaryOp2 FLOAT32 std_plus False"

definition HandleFadd2Wide :: handler where
  "HandleFadd2Wide = HandleBinaryOp2 FLOAT64 std_plus False"

definition HandleSub2 :: handler where
  "HandleSub2 = HandleBinaryOp2 INT32 Minus False"

definition HandleSub2Wide :: handler where
  "HandleSub2Wide = HandleBinaryOp2 INT64 Minus False"

definition HandleFsub2 :: handler where
  "HandleFsub2 = HandleBinaryOp2 FLOAT32 std_minus False"

definition HandleFsub2Wide :: handler where
  "HandleFsub2Wide = HandleBinaryOp2 FLOAT64 std_minus False"

definition HandleMul2 :: handler where
  "HandleMul2 = HandleBinaryOp2 INT32 Multiplies False"

definition HandleMul2Wide :: handler where
  "HandleMul2Wide = HandleBinaryOp2 INT64 Multiplies False"

definition HandleFmul2 :: handler where
  "HandleFmul2 = HandleBinaryOp2 FLOAT32 std_multiplies False"

definition HandleFmul2Wide :: handler where
  "HandleFmul2Wide = HandleBinaryOp2 FLOAT64 std_multiplies False"

definition HandleFdiv2 :: handler where
  "HandleFdiv2 = HandleBinaryOp2 FLOAT32 std_divides False"

definition HandleFdiv2Wide :: handler where
  "HandleFdiv2Wide = HandleBinaryOp2 FLOAT64 std_divides False"

definition HandleFmod2 :: handler where
  "HandleFmod2 = HandleBinaryOp2 FLOAT32 fmodulus False"

definition HandleFmod2Wide :: handler where
  "HandleFmod2Wide = HandleBinaryOp2 FLOAT64 fmodulus False"

definition HandleAnd2 :: handler where
  "HandleAnd2 = HandleBinaryOp2 INT32 bit_and False"

definition HandleAnd2Wide :: handler where
  "HandleAnd2Wide = HandleBinaryOp2 INT64 bit_and False"

definition HandleOr2 :: handler where
  "HandleOr2 = HandleBinaryOp2 INT32 bit_or False"

definition HandleOr2Wide :: handler where
  "HandleOr2Wide = HandleBinaryOp2 INT64 bit_or False"

definition HandleXor2 :: handler where
  "HandleXor2 = HandleBinaryOp2 INT32 bit_xor False"

definition HandleXor2Wide :: handler where
  "HandleXor2Wide = HandleBinaryOp2 INT64 bit_xor False"

definition HandleShl2 :: handler where
  "HandleShl2 = HandleBinaryOp2 INT32 bit_shl False"

definition HandleShl2Wide :: handler where
  "HandleShl2Wide = HandleBinaryOp2 INT64 bit_shl False"

definition HandleShr2 :: handler where
  "HandleShr2 = HandleBinaryOp2 INT32 bit_shr False"

definition HandleShr2Wide :: handler where
  "HandleShr2Wide = HandleBinaryOp2 INT64 bit_shr False"

definition HandleAshr2 :: handler where
  "HandleAshr2 = HandleBinaryOp2 INT32 bit_ashr False"

definition HandleAshr2Wide :: handler where
  "HandleAshr2Wide = HandleBinaryOp2 INT64 bit_ashr False"

definition HandleDiv2 :: handler where
  "HandleDiv2 = HandleBinaryOp2 INT32 idivides True"

definition HandleDiv2Wide :: handler where
  "HandleDiv2Wide = HandleBinaryOp2 INT64 idivides True"

definition HandleMod2 :: handler where
  "HandleMod2 = HandleBinaryOp2 INT32 imodulus True"

definition HandleMod2Wide :: handler where
  "HandleMod2Wide = HandleBinaryOp2 INT64 imodulus True"

definition HandleDivu2 :: handler where
  "HandleDivu2 = HandleBinaryOp2 UINT32 idivides True"

definition HandleDivu2Wide :: handler where
  "HandleDivu2Wide = HandleBinaryOp2 UINT64 idivides True"

definition HandleModu2 :: handler where
  "HandleModu2 = HandleBinaryOp2 UINT32 imodulus True"

definition HandleModu2Wide :: handler where
  "HandleModu2Wide = HandleBinaryOp2 UINT64 imodulus True"

lemmas HandleBinaryOp2_handlers =
  HandleCmpWide_def HandleUcmp_def HandleUcmpWide_def HandleFcmpl_def HandleFcmplWide_def HandleFcmpg_def
  HandleFcmpgWide_def HandleAdd2_def HandleAdd2Wide_def HandleFadd2_def HandleFadd2Wide_def HandleSub2_def
  HandleSub2Wide_def HandleFsub2_def HandleFsub2Wide_def HandleMul2_def HandleMul2Wide_def HandleFmul2_def
  HandleFmul2Wide_def HandleFdiv2_def HandleFdiv2Wide_def HandleFmod2_def HandleFmod2Wide_def HandleAnd2_def
  HandleAnd2Wide_def HandleOr2_def HandleOr2Wide_def HandleXor2_def HandleXor2Wide_def HandleShl2_def
  HandleShl2Wide_def HandleShr2_def HandleShr2Wide_def HandleAshr2_def HandleAshr2Wide_def HandleDiv2_def
  HandleDiv2Wide_def HandleMod2_def HandleMod2Wide_def HandleDivu2_def HandleDivu2Wide_def HandleModu2_def
  HandleModu2Wide_def

subsection \<open>Accumulator and register, result in a register\<close>

definition HandleAdd2v :: handler where
  "HandleAdd2v = HandleBinaryOp2V INT32 Plus False"

definition HandleAdd2vWide :: handler where
  "HandleAdd2vWide = HandleBinaryOp2V INT64 Plus False"

definition HandleFadd2v :: handler where
  "HandleFadd2v = HandleBinaryOp2V FLOAT32 std_plus False"

definition HandleFadd2vWide :: handler where
  "HandleFadd2vWide = HandleBinaryOp2V FLOAT64 std_plus False"

definition HandleSub2v :: handler where
  "HandleSub2v = HandleBinaryOp2V INT32 Minus False"

definition HandleSub2vWide :: handler where
  "HandleSub2vWide = HandleBinaryOp2V INT64 Minus False"

definition HandleFsub2v :: handler where
  "HandleFsub2v = HandleBinaryOp2V FLOAT32 std_minus False"

definition HandleFsub2vWide :: handler where
  "HandleFsub2vWide = HandleBinaryOp2V FLOAT64 std_minus False"

definition HandleMul2v :: handler where
  "HandleMul2v = HandleBinaryOp2V INT32 Multiplies False"

definition HandleMul2vWide :: handler where
  "HandleMul2vWide = HandleBinaryOp2V INT64 Multiplies False"

definition HandleFmul2v :: handler where
  "HandleFmul2v = HandleBinaryOp2V FLOAT32 std_multiplies False"

definition HandleFmul2vWide :: handler where
  "HandleFmul2vWide = HandleBinaryOp2V FLOAT64 std_multiplies False"

definition HandleFdiv2v :: handler where
  "HandleFdiv2v = HandleBinaryOp2V FLOAT32 std_divides False"

definition HandleFdiv2vWide :: handler where
  "HandleFdiv2vWide = HandleBinaryOp2V FLOAT64 std_divides False"

definition HandleFmod2v :: handler where
  "HandleFmod2v = HandleBinaryOp2V FLOAT32 fmodulus False"

definition HandleFmod2vWide :: handler where
  "HandleFmod2vWide = HandleBinaryOp2V FLOAT64 fmodulus False"

definition HandleAnd2v :: handler where
  "HandleAnd2v = HandleBinaryOp2V INT32 bit_and False"

definition HandleAnd2vWide :: handler where
  "HandleAnd2vWide = HandleBinaryOp2V INT64 bit_and False"

definition HandleOr2v :: handler where
  "HandleOr2v = HandleBinaryOp2V INT32 bit_or False"

definition HandleOr2vWide :: handler where
  "HandleOr2vWide = HandleBinaryOp2V INT64 bit_or False"

definition HandleXor2v :: handler where
  "HandleXor2v = HandleBinaryOp2V INT32 bit_xor False"

definition HandleXor2vWide :: handler where
  "HandleXor2vWide = HandleBinaryOp2V INT64 bit_xor False"

definition HandleShl2v :: handler where
  "HandleShl2v = HandleBinaryOp2V INT32 bit_shl False"

definition HandleShl2vWide :: handler where
  "HandleShl2vWide = HandleBinaryOp2V INT64 bit_shl False"

definition HandleShr2v :: handler where
  "HandleShr2v = HandleBinaryOp2V INT32 bit_shr False"

definition HandleShr2vWide :: handler where
  "HandleShr2vWide = HandleBinaryOp2V INT64 bit_shr False"

definition HandleAshr2v :: handler where
  "HandleAshr2v = HandleBinaryOp2V INT32 bit_ashr False"

definition HandleAshr2vWide :: handler where
  "HandleAshr2vWide = HandleBinaryOp2V INT64 bit_ashr False"

definition HandleDiv2v :: handler where
  "HandleDiv2v = HandleBinaryOp2V INT32 idivides True"

definition HandleDiv2vWide :: handler where
  "HandleDiv2vWide = HandleBinaryOp2V INT64 idivides True"

definition HandleMod2v :: handler where
  "HandleMod2v = HandleBinaryOp2V INT32 imodulus True"

definition HandleMod2vWide :: handler where
  "HandleMod2vWide = HandleBinaryOp2V INT64 imodulus True"

definition HandleDivu2v :: handler where
  "HandleDivu2v = HandleBinaryOp2V UINT32 idivides True"

definition HandleDivu2vWide :: handler where
  "HandleDivu2vWide = HandleBinaryOp2V UINT64 idivides True"

definition HandleModu2v :: handler where
  "HandleModu2v = HandleBinaryOp2V UINT32 imodulus True"

definition HandleModu2vWide :: handler where
  "HandleModu2vWide = HandleBinaryOp2V UINT64 imodulus True"

lemmas HandleBinaryOp2V_handlers =
  HandleAdd2v_def HandleAdd2vWide_def HandleFadd2v_def HandleFadd2vWide_def HandleSub2v_def HandleSub2vWide_def
  HandleFsub2v_def HandleFsub2vWide_def HandleMul2v_def HandleMul2vWide_def HandleFmul2v_def HandleFmul2vWide_def
  HandleFdiv2v_def HandleFdiv2vWide_def HandleFmod2v_def HandleFmod2vWide_def HandleAnd2v_def HandleAnd2vWide_def
  HandleOr2v_def HandleOr2vWide_def HandleXor2v_def HandleXor2vWide_def HandleShl2v_def HandleShl2vWide_def
  HandleShr2v_def HandleShr2vWide_def HandleAshr2v_def HandleAshr2vWide_def HandleDiv2v_def HandleDiv2vWide_def
  HandleMod2v_def HandleMod2vWide_def HandleDivu2v_def HandleDivu2vWide_def HandleModu2v_def HandleModu2vWide_def

subsection \<open>Two registers\<close>

definition HandleAdd :: handler where
  "HandleAdd = HandleBinaryOp INT32 Plus False"

definition HandleSub :: handler where
  "HandleSub = HandleBinaryOp INT32 Minus False"

definition HandleMul :: handler where
  "HandleMul = HandleBinaryOp INT32 Multiplies False"

definition HandleAnd :: handler where
  "HandleAnd = HandleBinaryOp INT32 bit_and False"

definition HandleOr :: handler where
  "HandleOr = HandleBinaryOp INT32 bit_or False"

definition HandleXor :: handler where
  "HandleXor = HandleBinaryOp INT32 bit_xor False"

definition HandleShl :: handler where
  "HandleShl = HandleBinaryOp INT32 bit_shl False"

definition HandleShr :: handler where
  "HandleShr = HandleBinaryOp INT32 bit_shr False"

definition HandleAshr :: handler where
  "HandleAshr = HandleBinaryOp INT32 bit_ashr False"

definition HandleDiv :: handler where
  "HandleDiv = HandleBinaryOp INT32 idivides True"

definition HandleMod :: handler where
  "HandleMod = HandleBinaryOp INT32 imodulus True"

lemmas HandleBinaryOp_handlers =
  HandleAdd_def HandleSub_def HandleMul_def HandleAnd_def HandleOr_def HandleXor_def HandleShl_def HandleShr_def
  HandleAshr_def HandleDiv_def HandleMod_def

subsection \<open>Two registers, result in the first\<close>

definition HandleAddv :: handler where
  "HandleAddv = HandleBinaryOpV INT32 Plus False"

definition HandleSubv :: handler where
  "HandleSubv = HandleBinaryOpV INT32 Minus False"

definition HandleMulv :: handler where
  "HandleMulv = HandleBinaryOpV INT32 Multiplies False"

definition HandleAndv :: handler where
  "HandleAndv = HandleBinaryOpV INT32 bit_and False"

definition HandleOrv :: handler where
  "HandleOrv = HandleBinaryOpV INT32 bit_or False"

definition HandleXorv :: handler where
  "HandleXorv = HandleBinaryOpV INT32 bit_xor False"

definition HandleShlv :: handler where
  "HandleShlv = HandleBinaryOpV INT32 bit_shl False"

definition HandleShrv :: handler where
  "HandleShrv = HandleBinaryOpV INT32 bit_shr False"

definition HandleAshrv :: handler where
  "HandleAshrv = HandleBinaryOpV INT32 bit_ashr False"

definition HandleDivv :: handler where
  "HandleDivv = HandleBinaryOpV INT32 idivides True"

definition HandleModv :: handler where
  "HandleModv = HandleBinaryOpV INT32 imodulus True"

lemmas HandleBinaryOpV_handlers =
  HandleAddv_def HandleSubv_def HandleMulv_def HandleAndv_def HandleOrv_def HandleXorv_def HandleShlv_def
  HandleShrv_def HandleAshrv_def HandleDivv_def HandleModv_def

subsection \<open>Accumulator and immediate\<close>

definition HandleAddi :: handler where
  "HandleAddi = HandleBinaryOp2Imm INT32 Plus False"

definition HandleSubi :: handler where
  "HandleSubi = HandleBinaryOp2Imm INT32 Minus False"

definition HandleMuli :: handler where
  "HandleMuli = HandleBinaryOp2Imm INT32 Multiplies False"

definition HandleAndi :: handler where
  "HandleAndi = HandleBinaryOp2Imm INT32 bit_and False"

definition HandleOri :: handler where
  "HandleOri = HandleBinaryOp2Imm INT32 bit_or False"

definition HandleXori :: handler where
  "HandleXori = HandleBinaryOp2Imm INT32 bit_xor False"

definition HandleShli :: handler where
  "HandleShli = HandleBinaryOp2Imm INT32 bit_shl False"

definition HandleShri :: handler where
  "HandleShri = HandleBinaryOp2Imm INT32 bit_shr False"

definition HandleAshri :: handler where
  "HandleAshri = HandleBinaryOp2Imm INT32 bit_ashr False"

definition HandleDivi :: handler where
  "HandleDivi = HandleBinaryOp2Imm INT32 idivides True"

definition HandleModi :: handler where
  "HandleModi = HandleBinaryOp2Imm INT32 imodulus True"

lemmas HandleBinaryOp2Imm_handlers =
  HandleAddi_def HandleSubi_def HandleMuli_def HandleAndi_def HandleOri_def HandleXori_def HandleShli_def
  HandleShri_def HandleAshri_def HandleDivi_def HandleModi_def

subsection \<open>Register and immediate\<close>

definition HandleAddiv :: handler where
  "HandleAddiv = HandleBinaryOpImmV INT32 Plus False"

definition HandleSubiv :: handler where
  "HandleSubiv = HandleBinaryOpImmV INT32 Minus False"

definition HandleMuliv :: handler where
  "HandleMuliv = HandleBinaryOpImmV INT32 Multiplies False"

definition HandleAndiv :: handler where
  "HandleAndiv = HandleBinaryOpImmV INT32 bit_and False"

definition HandleOriv :: handler where
  "HandleOriv = HandleBinaryOpImmV INT32 bit_or False"

definition HandleXoriv :: handler where
  "HandleXoriv = HandleBinaryOpImmV INT32 bit_xor False"

definition HandleShliv :: handler where
  "HandleShliv = HandleBinaryOpImmV INT32 bit_shl False"

definition HandleShriv :: handler where
  "HandleShriv = HandleBinaryOpImmV INT32 bit_shr False"

definition HandleAshriv :: handler where
  "HandleAshriv = HandleBinaryOpImmV INT32 bit_ashr False"

definition HandleDiviv :: handler where
  "HandleDiviv = HandleBinaryOpImmV INT32 idivides True"

definition HandleModiv :: handler where
  "HandleModiv = HandleBinaryOpImmV INT32 imodulus True"

lemmas HandleBinaryOpImmV_handlers =
  HandleAddiv_def HandleSubiv_def HandleMuliv_def HandleAndiv_def HandleOriv_def HandleXoriv_def HandleShliv_def
  HandleShriv_def HandleAshriv_def HandleDiviv_def HandleModiv_def

subsection \<open>Unary operations\<close>

definition HandleNeg :: handler where
  "HandleNeg = HandleUnaryOp INT32 std_negate"

definition HandleNegWide :: handler where
  "HandleNegWide = HandleUnaryOp INT64 std_negate"

definition HandleFneg :: handler where
  "HandleFneg = HandleUnaryOp FLOAT32 std_negate"

definition HandleFnegWide :: handler where
  "HandleFnegWide = HandleUnaryOp FLOAT64 std_negate"

definition HandleNot :: handler where
  "HandleNot = HandleUnaryOp INT32 bit_not"

definition HandleNotWide :: handler where
  "HandleNotWide = HandleUnaryOp INT64 bit_not"

lemmas HandleUnaryOp_handlers =
  HandleNeg_def HandleNegWide_def HandleFneg_def HandleFnegWide_def HandleNot_def HandleNotWide_def

subsection \<open>Conversions\<close>

definition HandleU32toi64 :: handler where
  "HandleU32toi64 = HandleConversion UINT32 INT64"

definition HandleU32toi16 :: handler where
  "HandleU32toi16 = HandleConversion UINT32 INT16"

definition HandleU32tou16 :: handler where
  "HandleU32tou16 = HandleConversion UINT32 UINT16"

definition HandleU32toi8 :: handler where
  "HandleU32toi8 = HandleConversion UINT32 INT8"

definition HandleU32tou8 :: handler where
  "HandleU32tou8 = HandleConversion UINT32 UINT8"

definition HandleU32tou1 :: handler where
  "HandleU32tou1 = HandleConversion UINT32 BOOL"

definition HandleI32toi64 :: handler where
  "HandleI32toi64 = HandleConversion INT32 INT64"

definition HandleI32tou16 :: handler where
  "HandleI32tou16 = HandleConversion INT32 UINT16"

definition HandleI32toi16 :: handler where
  "HandleI32toi16 = HandleConversion INT32 INT16"

definition HandleI32toi8 :: handler where
  "HandleI32toi8 = HandleConversion INT32 INT8"

definition HandleI32tou8 :: handler where
  "HandleI32tou8 = HandleConversion INT32 UINT8"

definition HandleI32tou1 :: handler where
  "HandleI32tou1 = HandleConversion INT32 BOOL"

definition HandleI32tof32 :: handler where
  "HandleI32tof32 = HandleConversion INT32 FLOAT32"

definition HandleI32tof64 :: handler where
  "HandleI32tof64 = HandleConversion INT32 FLOAT64"

definition HandleU32tof32 :: handler where
  "HandleU32tof32 = HandleConversion UINT32 FLOAT32"

definition HandleU32tof64 :: handler where
  "HandleU32tof64 = HandleConversion UINT32 FLOAT64"

definition HandleI64toi32 :: handler where
  "HandleI64toi32 = HandleConversion INT64 INT32"

definition HandleI64tou1 :: handler where
  "HandleI64tou1 = HandleConversion INT64 BOOL"

definition HandleI64tof32 :: handler where
  "HandleI64tof32 = HandleConversion INT64 FLOAT32"

definition HandleI64tof64 :: handler where
  "HandleI64tof64 = HandleConversion INT64 FLOAT64"

definition HandleU64toi32 :: handler where
  "HandleU64toi32 = HandleConversion UINT64 INT32"

definition HandleU64tou32 :: handler where
  "HandleU64tou32 = HandleConversion UINT64 UINT32"

definition HandleU64tou1 :: handler where
  "HandleU64tou1 = HandleConversion UINT64 BOOL"

definition HandleU64tof32 :: handler where
  "HandleU64tof32 = HandleConversion UINT64 FLOAT32"

definition HandleU64tof64 :: handler where
  "HandleU64tof64 = HandleConversion UINT64 FLOAT64"

definition HandleF32tof64 :: handler where
  "HandleF32tof64 = HandleConversion FLOAT32 FLOAT64"

definition HandleF64tof32 :: handler where
  "HandleF64tof32 = HandleConversion FLOAT64 FLOAT32"

lemmas HandleConversion_handlers =
  HandleU32toi64_def HandleU32toi16_def HandleU32tou16_def HandleU32toi8_def HandleU32tou8_def HandleU32tou1_def
  HandleI32toi64_def HandleI32tou16_def HandleI32toi16_def HandleI32toi8_def HandleI32tou8_def HandleI32tou1_def
  HandleI32tof32_def HandleI32tof64_def HandleU32tof32_def HandleU32tof64_def HandleI64toi32_def HandleI64tou1_def
  HandleI64tof32_def HandleI64tof64_def HandleU64toi32_def HandleU64tou32_def HandleU64tou1_def HandleU64tof32_def
  HandleU64tof64_def HandleF32tof64_def HandleF64tof32_def

subsection \<open>Floating point to integer\<close>

definition HandleF32toi32 :: handler where
  "HandleF32toi32 = HandleFloatToIntConversion FLOAT32 INT32"

definition HandleF32toi64 :: handler where
  "HandleF32toi64 = HandleFloatToIntConversion FLOAT32 INT64"

definition HandleF32tou32 :: handler where
  "HandleF32tou32 = HandleFloatToIntConversion FLOAT32 UINT32"

definition HandleF32tou64 :: handler where
  "HandleF32tou64 = HandleFloatToIntConversion FLOAT32 UINT64"

definition HandleF64toi64 :: handler where
  "HandleF64toi64 = HandleFloatToIntConversion FLOAT64 INT64"

definition HandleF64toi32 :: handler where
  "HandleF64toi32 = HandleFloatToIntConversion FLOAT64 INT32"

definition HandleF64tou64 :: handler where
  "HandleF64tou64 = HandleFloatToIntConversion FLOAT64 UINT64"

definition HandleF64tou32 :: handler where
  "HandleF64tou32 = HandleFloatToIntConversion FLOAT64 UINT32"

lemmas HandleFloatToIntConversion_handlers =
  HandleF32toi32_def HandleF32toi64_def HandleF32tou32_def HandleF32tou64_def HandleF64toi64_def HandleF64toi32_def
  HandleF64tou64_def HandleF64tou32_def

subsection \<open>Jumps on the accumulator\<close>

definition HandleJeqz :: handler where
  "HandleJeqz = HandleCondJmpz (=)"

definition HandleJnez :: handler where
  "HandleJnez = HandleCondJmpz (\<noteq>)"

definition HandleJltz :: handler where
  "HandleJltz = HandleCondJmpz (<)"

definition HandleJgtz :: handler where
  "HandleJgtz = HandleCondJmpz (>)"

definition HandleJlez :: handler where
  "HandleJlez = HandleCondJmpz (\<le>)"

definition HandleJgez :: handler where
  "HandleJgez = HandleCondJmpz (\<ge>)"

lemmas HandleCondJmpz_handlers =
  HandleJeqz_def HandleJnez_def HandleJltz_def HandleJgtz_def HandleJlez_def HandleJgez_def

subsection \<open>Jumps on accumulator and register\<close>

definition HandleJeq :: handler where
  "HandleJeq = HandleCondJmp (=)"

definition HandleJne :: handler where
  "HandleJne = HandleCondJmp (\<noteq>)"

definition HandleJlt :: handler where
  "HandleJlt = HandleCondJmp (<)"

definition HandleJgt :: handler where
  "HandleJgt = HandleCondJmp (>)"

definition HandleJle :: handler where
  "HandleJle = HandleCondJmp (\<le>)"

definition HandleJge :: handler where
  "HandleJge = HandleCondJmp (\<ge>)"

lemmas HandleCondJmp_handlers =
  HandleJeq_def HandleJne_def HandleJlt_def HandleJgt_def HandleJle_def HandleJge_def

subsection \<open>Jumps on a reference\<close>

definition HandleJeqzObj :: handler where
  "HandleJeqzObj = HandleCondJmpzObj (=)"

definition HandleJnezObj :: handler where
  "HandleJnezObj = HandleCondJmpzObj (\<noteq>)"

lemmas HandleCondJmpzObj_handlers =
  HandleJeqzObj_def HandleJnezObj_def

subsection \<open>Jumps on two references\<close>

definition HandleJeqObj :: handler where
  "HandleJeqObj = HandleCondJmpObj (=)"

definition HandleJneObj :: handler where
  "HandleJneObj = HandleCondJmpObj (\<noteq>)"

lemmas HandleCondJmpObj_handlers =
  HandleJeqObj_def HandleJneObj_def

end
