(* ===== verification/InterpreterObjects.thy ===== *)
theory InterpreterObjects
  imports Interpreter
begin

unbundle bit_operations_syntax

text \<open>
  The handlers that touch objects, frames and exceptions: arrays, fields, allocation, type checks, calls, returns and
  the search for a catch block (\<^verbatim>\<open>runtime/interpreter/interpreter-inl.h\<close>), with the interpreter cache
  (\<^verbatim>\<open>runtime/interpreter/cache.h\<close>).

  A call that may run other code returns a new state: objects may have moved, so registers are read again after
  it, as the source does.
\<close>

section \<open>Interpreter cache\<close>

definition GetIndex :: "int \<Rightarrow> nat" where
  "GetIndex pc = nat ((pc div 2 ^ 2) AND (256 - 1))"

definition Cache_Get :: "interp \<Rightarrow> int \<Rightarrow> nat \<Rightarrow> nat option" where
  "Cache_Get s pc caller =
     (case cache s (GetIndex pc) of
        Some (pc', caller', item) \<Rightarrow> if pc' = pc \<and> caller' = caller then Some item else None
      | None \<Rightarrow> None)"

definition Cache_Set :: "int \<Rightarrow> nat \<Rightarrow> nat \<Rightarrow> interp \<Rightarrow> interp" where
  "Cache_Set pc item caller s = s\<lparr>cache := (cache s)(GetIndex pc := Some (pc, caller, item))\<rparr>"

text \<open>The common tail of \<^verbatim>\<open>ResolveMethod\<close>, \<^verbatim>\<open>ResolveField\<close> and \<^verbatim>\<open>ResolveType\<close>; a resolver that fails has to leave an exception.\<close>

definition resolve_cached ::
    "(interp \<Rightarrow> nat \<Rightarrow> nat \<Rightarrow> interp \<times> nat option) \<Rightarrow> nat \<Rightarrow> interp \<Rightarrow> (interp \<times> nat option) option" where
  "resolve_cached resolve item_id s =
     do { f \<leftarrow> GetFrame s;
          case Cache_Get s (cur_inst s) (frame_method f) of
            Some res \<Rightarrow> Some (s, Some res)
          | None \<Rightarrow>
              do { s \<leftarrow> SaveAcc s;
                   let (s, item) = resolve s (frame_method f) item_id;
                   s \<leftarrow> RestoreAcc s;
                   case item of
                     None \<Rightarrow> (if pending s = None then None else Some (s, None))
                   | Some res \<Rightarrow>
                       do { f \<leftarrow> GetFrame s; Some (Cache_Set (cur_inst s) res (frame_method f) s, Some res) } } }"

definition ResolveMethod :: "rt \<Rightarrow> nat \<Rightarrow> interp \<Rightarrow> (interp \<times> nat option) option" where
  "ResolveMethod rt item_id s = do { s \<leftarrow> UpdateBytecodeOffset s; resolve_cached (rtResolveMethod rt) item_id s }"

definition ResolveField :: "rt \<Rightarrow> bool \<Rightarrow> nat \<Rightarrow> interp \<Rightarrow> (interp \<times> nat option) option" where
  "ResolveField rt NEED_INIT item_id s =
     do { f \<leftarrow> GetFrame s;
          if Cache_Get s (cur_inst s) (frame_method f) = None \<and> NEED_INIT
          then do { s \<leftarrow> UpdateBytecodeOffset s; resolve_cached (rtResolveField rt) item_id s }
          else resolve_cached (rtResolveField rt) item_id s }"

definition ResolveType :: "rt \<Rightarrow> nat \<Rightarrow> interp \<Rightarrow> (interp \<times> nat option) option" where
  "ResolveType rt item_id s = resolve_cached (rtResolveClass rt) item_id s"

section \<open>Arrays\<close>

text \<open>The bits of a value of the C++ type \<open>T\<close> in memory.\<close>

definition store_bits :: "ir_type \<Rightarrow> num \<Rightarrow> u64" where
  "store_bits T v = take_bit (if T = FLOAT32 then 32 else type_bits T) (Set_num v)"

text \<open>The outer \<open>None\<close> is an access to an address that is no object; \<open>Some None\<close> lets the access through.\<close>

definition CheckLoadArrayOp :: "interp \<Rightarrow> u64 \<Rightarrow> int \<Rightarrow> exn option option" where
  "CheckLoadArrayOp s array idx =
     (if array = 0 then Some (Some NullPointerException)
      else do { a \<leftarrow> heap s array;
                Some (if idx < 0 \<or> idx \<ge> int (length (obj_elems a))
                      then Some (ArrayIndexOutOfBoundsException idx (length (obj_elems a))) else None) })"

definition CheckStoreArrayOp :: "rt \<Rightarrow> interp \<Rightarrow> u64 \<Rightarrow> int \<Rightarrow> u64 option \<Rightarrow> exn option option" where
  "CheckStoreArrayOp rt s array idx elem =
     (if array = 0 then Some (Some NullPointerException)
      else do { a \<leftarrow> heap s array;
                if idx < 0 \<or> idx \<ge> int (length (obj_elems a))
                then Some (Some (ArrayIndexOutOfBoundsException idx (length (obj_elems a))))
                else case elem of
                       None \<Rightarrow> Some None
                     | Some e \<Rightarrow>
                         if e = 0 then Some None
                         else do { eo \<leftarrow> heap s e;
                                   Some (if IsAssignableFrom rt (GetComponentType rt (obj_class a)) (obj_class eo) then None
                                         else Some (ArrayStoreException (obj_class a) (obj_class eo))) } })"

definition Array_Set :: "u64 \<Rightarrow> int \<Rightarrow> u64 \<Rightarrow> interp \<Rightarrow> interp option" where
  "Array_Set array idx bits s =
     do { a \<leftarrow> heap s array;
          es \<leftarrow> wr (obj_elems a) (nat idx) bits;
          Some (s\<lparr>heap := (heap s)(array \<mapsto> a\<lparr>obj_elems := es\<rparr>)\<rparr>) }"

definition Array_Get :: "u64 \<Rightarrow> int \<Rightarrow> interp \<Rightarrow> u64 option" where
  "Array_Get array idx s = do { a \<leftarrow> heap s array; rd (obj_elems a) (nat idx) }"

definition HandleArrayPrimitiveLoad :: "ir_type \<Rightarrow> handler" where
  "HandleArrayPrimitiveLoad T rt I s =
     do { array \<leftarrow> GetRefReg rt s (op_vreg I 0);
          let idx = Get_i32 (payload (acc s));
          chk \<leftarrow> CheckLoadArrayOp s array idx;
          case chk of
            Some e \<Rightarrow> Some (raise_exn rt e s)
          | None \<Rightarrow>
              do { bits \<leftarrow> Array_Get array idx s;
                   v \<leftarrow> GetAs T bits;
                   Some (MoveToNextInst True I (SetAcc (Set_payload v (acc s)) s)) } }"

definition HandleArrayStore :: "ir_type \<Rightarrow> handler" where
  "HandleArrayStore T rt I s =
     do { array \<leftarrow> GetRefReg rt s (op_vreg I 0);
          r \<leftarrow> GetVReg s (op_vreg I 1);
          let idx = Get_i32 (payload r);
          elem \<leftarrow> GetAs T (payload (acc s));
          chk \<leftarrow> CheckStoreArrayOp rt s array idx None;
          case chk of
            Some e \<Rightarrow> Some (raise_exn rt e s)
          | None \<Rightarrow> do { s \<leftarrow> Array_Set array idx (store_bits T elem) s; Some (MoveToNextInst True I s) } }"

definition HandleStarrObj :: handler where
  "HandleStarrObj rt I s =
     do { array \<leftarrow> GetRefReg rt s (op_vreg I 0);
          r \<leftarrow> GetVReg s (op_vreg I 1);
          let idx = Get_i32 (payload r);
          let elem = GetAccRef rt s;
          chk \<leftarrow> CheckStoreArrayOp rt s array idx (Some elem);
          case chk of
            Some e \<Rightarrow> Some (raise_exn rt e s)
          | None \<Rightarrow>
              do { s \<leftarrow> Array_Set array idx (GetReference (OBJECT_POINTER_SIZE rt) elem) s; Some (MoveToNextInst True I s) } }"

definition HandleLdarrObj :: handler where
  "HandleLdarrObj rt I s =
     do { array \<leftarrow> GetRefReg rt s (op_vreg I 0);
          let idx = Get_i32 (payload (acc s));
          chk \<leftarrow> CheckLoadArrayOp s array idx;
          case chk of
            Some e \<Rightarrow> Some (raise_exn rt e s)
          | None \<Rightarrow>
              do { bits \<leftarrow> Array_Get array idx s;
                   Some (MoveToNextInst True I
                     (SetAcc (SetReference (OBJECT_POINTER_SIZE rt) (GetReference (OBJECT_POINTER_SIZE rt) bits)) s)) } }"

definition HandleLenarr :: handler where
  "HandleLenarr rt I s =
     do { a \<leftarrow> GetRefReg rt s (op_vreg I 0);
          if a = 0 then Some (raise_exn rt NullPointerException s)
          else do { array \<leftarrow> heap s a;
                    Some (MoveToNextInst True I
                      (SetAcc (SetPrimitive (IntV (wrap INT32 (int (length (obj_elems array)))))) s)) } }"

definition HandleLdarr8 :: handler where
  "HandleLdarr8 = HandleArrayPrimitiveLoad INT8"

definition HandleLdarr16 :: handler where
  "HandleLdarr16 = HandleArrayPrimitiveLoad INT16"

definition HandleLdarr :: handler where
  "HandleLdarr = HandleArrayPrimitiveLoad INT32"

definition HandleLdarrWide :: handler where
  "HandleLdarrWide = HandleArrayPrimitiveLoad INT64"

definition HandleLdarru8 :: handler where
  "HandleLdarru8 = HandleArrayPrimitiveLoad UINT8"

definition HandleLdarru16 :: handler where
  "HandleLdarru16 = HandleArrayPrimitiveLoad UINT16"

definition HandleFldarr32 :: handler where
  "HandleFldarr32 = HandleArrayPrimitiveLoad FLOAT32"

definition HandleFldarrWide :: handler where
  "HandleFldarrWide = HandleArrayPrimitiveLoad FLOAT64"

definition HandleStarr8 :: handler where
  "HandleStarr8 = HandleArrayStore UINT8"

definition HandleStarr16 :: handler where
  "HandleStarr16 = HandleArrayStore UINT16"

definition HandleStarr :: handler where
  "HandleStarr = HandleArrayStore UINT32"

definition HandleStarrWide :: handler where
  "HandleStarrWide = HandleArrayStore UINT64"

definition HandleFstarr32 :: handler where
  "HandleFstarr32 = HandleArrayStore FLOAT32"

definition HandleFstarrWide :: handler where
  "HandleFstarrWide = HandleArrayStore FLOAT64"

lemmas HandleArrayPrimitiveLoad_handlers =
  HandleLdarr8_def HandleLdarr16_def HandleLdarr_def HandleLdarrWide_def HandleLdarru8_def HandleLdarru16_def HandleFldarr32_def HandleFldarrWide_def

lemmas HandleArrayStore_handlers =
  HandleStarr8_def HandleStarr16_def HandleStarr_def HandleStarrWide_def HandleFstarr32_def HandleFstarrWide_def

section \<open>Constants and allocation\<close>

definition HandleLdaStr :: handler where
  "HandleLdaStr rt I s =
     do { s \<leftarrow> SaveAcc s;
          let s = rtHandleLdaStr rt s (op_id I);
          if pending s \<noteq> None then Some (MoveToExceptionHandler rt s)
          else do { s \<leftarrow> RestoreAcc s; Some (MoveToNextInst False I s) } }"

definition HandleLdaType :: handler where
  "HandleLdaType rt I s =
     do { (s, type) \<leftarrow> ResolveType rt (op_id I) s;
          case type of
            Some k \<Rightarrow> Some (MoveToNextInst False I (SetAcc (SetReference (OBJECT_POINTER_SIZE rt) (rtManagedObject rt k)) s))
          | None \<Rightarrow> Some (MoveToExceptionHandler rt s) }"

definition HandleLdaConst :: handler where
  "HandleLdaConst rt I s =
     do { s \<leftarrow> SaveAcc s;
          f \<leftarrow> GetFrame s;
          let (s, array) = rtResolveLiteralArray rt s (frame_method f) (op_id I);
          s \<leftarrow> RestoreAcc s;
          if array = 0 then Some (MoveToExceptionHandler rt s)
          else do { s \<leftarrow> SetVReg s (op_vreg I 0) (SetReference (OBJECT_POINTER_SIZE rt) array);
                    Some (MoveToNextInst False I s) } }"

definition HandleNewarr :: handler where
  "HandleNewarr rt I s =
     do { r \<leftarrow> GetVReg s (op_vreg I 1);
          let size = Get_i32 (payload r);
          if size < 0 then Some (raise_exn rt (NegativeArraySizeException size) s)
          else do {
            (s, klass) \<leftarrow> ResolveType rt (op_id I) s;
            case klass of
              None \<Rightarrow> Some (MoveToExceptionHandler rt s)
            | Some k \<Rightarrow>
                do { s \<leftarrow> SaveAcc s;
                     let (s, array) = rtCreateArray rt s k size;
                     s \<leftarrow> RestoreAcc s;
                     s \<leftarrow> SetVReg s (op_vreg I 0) (SetReference (OBJECT_POINTER_SIZE rt) array);
                     Some (if array = 0 then MoveToExceptionHandler rt s else MoveToNextInst True I s) } } }"

definition HandleNewobj :: handler where
  "HandleNewobj rt I s =
     do { (s, klass) \<leftarrow> ResolveType rt (op_id I) s;
          case klass of
            None \<Rightarrow> Some (MoveToExceptionHandler rt s)
          | Some k \<Rightarrow>
              do { s \<leftarrow> SaveAcc s;
                   let (s, obj) = rtCreateObject rt s k;
                   s \<leftarrow> RestoreAcc s;
                   if obj = 0 then Some (MoveToExceptionHandler rt s)
                   else do { s \<leftarrow> SetVReg s (op_vreg I 0) (SetReference (OBJECT_POINTER_SIZE rt) obj);
                             Some (MoveToNextInst False I s) } } }"

section \<open>Fields\<close>

fun field_cpp_type :: "TypeId \<Rightarrow> ir_type option" where
  "field_cpp_type U1_t = Some UINT8"
| "field_cpp_type U8_t = Some UINT8"
| "field_cpp_type I8_t = Some INT8"
| "field_cpp_type I16_t = Some INT16"
| "field_cpp_type U16_t = Some UINT16"
| "field_cpp_type I32_t = Some INT32"
| "field_cpp_type U32_t = Some UINT32"
| "field_cpp_type I64_t = Some INT64"
| "field_cpp_type U64_t = Some UINT64"
| "field_cpp_type F32_t = Some FLOAT32"
| "field_cpp_type F64_t = Some FLOAT64"
| "field_cpp_type _ = None"

definition LoadPrimitiveField :: "rt \<Rightarrow> u64 \<Rightarrow> nat \<Rightarrow> vreg option" where
  "LoadPrimitiveField rt bits field =
     do { T \<leftarrow> field_cpp_type (rtFieldType rt field); v \<leftarrow> GetAs T bits; Some (SetPrimitive v) }"

definition StorePrimitiveField :: "rt \<Rightarrow> vreg \<Rightarrow> nat \<Rightarrow> u64 option" where
  "StorePrimitiveField rt r field =
     do { T \<leftarrow> field_cpp_type (rtFieldType rt field); v \<leftarrow> GetAs T (payload r); Some (store_bits T v) }"

definition LoadObjectField :: "rt \<Rightarrow> u64 \<Rightarrow> nat \<Rightarrow> vreg option" where
  "LoadObjectField rt bits field =
     (if rtFieldType rt field = REFERENCE_t
      then Some (SetReference (OBJECT_POINTER_SIZE rt) (GetReference (OBJECT_POINTER_SIZE rt) bits)) else None)"

definition StoreObjectField :: "rt \<Rightarrow> vreg \<Rightarrow> nat \<Rightarrow> u64 option" where
  "StoreObjectField rt r field =
     (if rtFieldType rt field = REFERENCE_t then Some (GetReference (OBJECT_POINTER_SIZE rt) (payload r)) else None)"

text \<open>
  The common shape of the instance field handlers: null check on register \<open>n\<close>, resolution of the field, the register read again,
  the access.  The load writes its result with \<open>put\<close>, the store reads its source with \<open>get\<close>.
\<close>

definition with_field :: "nat \<Rightarrow> (nat \<Rightarrow> u64 \<Rightarrow> obj \<Rightarrow> interp \<Rightarrow> interp option) \<Rightarrow> handler" where
  "with_field n body rt I s =
     do { a \<leftarrow> GetRefReg rt s (op_vreg I n);
          if a = 0 then Some (raise_exn rt NullPointerException s)
          else do {
            (s, field) \<leftarrow> ResolveField rt False (op_id I) s;
            a \<leftarrow> GetRefReg rt s (op_vreg I n);
            case field of
              Some fd \<Rightarrow> do { ob \<leftarrow> heap s a; s \<leftarrow> body fd a ob s; Some (MoveToNextInst True I s) }
            | None \<Rightarrow> Some (MoveToExceptionHandler rt s) } }"

definition set_field :: "u64 \<Rightarrow> obj \<Rightarrow> nat \<Rightarrow> u64 \<Rightarrow> interp \<Rightarrow> interp" where
  "set_field a ob fd bits s = s\<lparr>heap := (heap s)(a \<mapsto> ob\<lparr>obj_fields := (obj_fields ob)(fd := bits)\<rparr>)\<rparr>"

definition HandleLdobj :: handler where
  "HandleLdobj rt I s =
     with_field 0 (\<lambda>fd a ob s. do { r \<leftarrow> LoadPrimitiveField rt (obj_fields ob fd) fd; Some (SetAcc r s) }) rt I s"

definition HandleLdobjWide :: handler where
  "HandleLdobjWide rt I s =
     with_field 0 (\<lambda>fd a ob s. do { r \<leftarrow> LoadPrimitiveField rt (obj_fields ob fd) fd; Some (SetAcc r s) }) rt I s"

definition HandleLdobjObj :: handler where
  "HandleLdobjObj rt I s =
     with_field 0 (\<lambda>fd a ob s. do { r \<leftarrow> LoadObjectField rt (obj_fields ob fd) fd; Some (SetAcc r s) }) rt I s"

definition HandleLdobjV :: handler where
  "HandleLdobjV rt I s =
     with_field 1 (\<lambda>fd a ob s. do { r \<leftarrow> LoadPrimitiveField rt (obj_fields ob fd) fd; SetVReg s (op_vreg I 0) r }) rt I s"

definition HandleLdobjVWide :: handler where
  "HandleLdobjVWide rt I s =
     with_field 1 (\<lambda>fd a ob s. do { r \<leftarrow> LoadPrimitiveField rt (obj_fields ob fd) fd; SetVReg s (op_vreg I 0) r }) rt I s"

definition HandleLdobjVObj :: handler where
  "HandleLdobjVObj rt I s =
     with_field 1 (\<lambda>fd a ob s. do { r \<leftarrow> LoadObjectField rt (obj_fields ob fd) fd; SetVReg s (op_vreg I 0) r }) rt I s"

definition HandleStobj :: handler where
  "HandleStobj rt I s =
     with_field 0 (\<lambda>fd a ob s. do { b \<leftarrow> StorePrimitiveField rt (acc s) fd; Some (set_field a ob fd b s) }) rt I s"

definition HandleStobjWide :: handler where
  "HandleStobjWide rt I s =
     with_field 0 (\<lambda>fd a ob s. do { b \<leftarrow> StorePrimitiveField rt (acc s) fd; Some (set_field a ob fd b s) }) rt I s"

definition HandleStobjObj :: handler where
  "HandleStobjObj rt I s =
     with_field 0 (\<lambda>fd a ob s. do { b \<leftarrow> StoreObjectField rt (acc s) fd; Some (set_field a ob fd b s) }) rt I s"

definition HandleStobjV :: handler where
  "HandleStobjV rt I s =
     with_field 1 (\<lambda>fd a ob s. do { r \<leftarrow> GetVReg s (op_vreg I 0); b \<leftarrow> StorePrimitiveField rt r fd;
                                   Some (set_field a ob fd b s) }) rt I s"

definition HandleStobjVWide :: handler where
  "HandleStobjVWide rt I s =
     with_field 1 (\<lambda>fd a ob s. do { r \<leftarrow> GetVReg s (op_vreg I 0); b \<leftarrow> StorePrimitiveField rt r fd;
                                   Some (set_field a ob fd b s) }) rt I s"

definition HandleStobjVObj :: handler where
  "HandleStobjVObj rt I s =
     with_field 1 (\<lambda>fd a ob s. do { r \<leftarrow> GetVReg s (op_vreg I 0); b \<leftarrow> StoreObjectField rt r fd;
                                   Some (set_field a ob fd b s) }) rt I s"

definition with_static :: "(nat \<Rightarrow> interp \<Rightarrow> interp option) \<Rightarrow> handler" where
  "with_static body rt I s =
     do { (s, field) \<leftarrow> ResolveField rt True (op_id I) s;
          case field of
            Some fd \<Rightarrow> do { s \<leftarrow> body fd s; Some (MoveToNextInst False I s) }
          | None \<Rightarrow> Some (MoveToExceptionHandler rt s) }"

definition HandleLdstatic :: handler where
  "HandleLdstatic rt I s =
     with_static (\<lambda>fd s. do { r \<leftarrow> LoadPrimitiveField rt (statics s fd) fd; Some (SetAcc r s) }) rt I s"

definition HandleLdstaticWide :: handler where
  "HandleLdstaticWide rt I s =
     with_static (\<lambda>fd s. do { r \<leftarrow> LoadPrimitiveField rt (statics s fd) fd; Some (SetAcc r s) }) rt I s"

definition HandleLdstaticObj :: handler where
  "HandleLdstaticObj rt I s =
     with_static (\<lambda>fd s. do { r \<leftarrow> LoadObjectField rt (statics s fd) fd; Some (SetAcc r s) }) rt I s"

definition HandleStstatic :: handler where
  "HandleStstatic rt I s =
     with_static (\<lambda>fd s. do { b \<leftarrow> StorePrimitiveField rt (acc s) fd; Some (s\<lparr>statics := (statics s)(fd := b)\<rparr>) }) rt I s"

definition HandleStstaticWide :: handler where
  "HandleStstaticWide rt I s =
     with_static (\<lambda>fd s. do { b \<leftarrow> StorePrimitiveField rt (acc s) fd; Some (s\<lparr>statics := (statics s)(fd := b)\<rparr>) }) rt I s"

definition HandleStstaticObj :: handler where
  "HandleStstaticObj rt I s =
     with_static (\<lambda>fd s. do { b \<leftarrow> StoreObjectField rt (acc s) fd; Some (s\<lparr>statics := (statics s)(fd := b)\<rparr>) }) rt I s"

section \<open>Type checks and throw\<close>

definition HandleCheckcast :: handler where
  "HandleCheckcast rt I s =
     do { (s, type) \<leftarrow> ResolveType rt (op_id I) s;
          case type of
            None \<Rightarrow> Some (MoveToExceptionHandler rt s)
          | Some k \<Rightarrow>
              (let a = GetAccRef rt s
               in if a = 0 then Some (MoveToNextInst True I s)
                  else do { ob \<leftarrow> heap s a;
                            Some (if IsAssignableFrom rt k (obj_class ob) then MoveToNextInst True I s
                                  else raise_exn rt (ClassCastException k (obj_class ob)) s) }) }"

definition HandleIsinstance :: handler where
  "HandleIsinstance rt I s =
     do { (s, type) \<leftarrow> ResolveType rt (op_id I) s;
          case type of
            None \<Rightarrow> Some (MoveToExceptionHandler rt s)
          | Some k \<Rightarrow>
              (let a = GetAccRef rt s
               in do { yes \<leftarrow> (if a = 0 then Some False else map_option (\<lambda>ob. IsAssignableFrom rt k (obj_class ob)) (heap s a));
                       Some (MoveToNextInst False I (SetAcc (SetPrimitive (IntV (of_bool yes))) s)) }) }"

definition HandleThrow :: handler where
  "HandleThrow rt I s =
     do { a \<leftarrow> GetRefReg rt s (op_vreg I 0);
          Some (raise_exn rt (if a = 0 then NullPointerException else Thrown a) s) }"

section \<open>Calls\<close>

datatype call_format = V4_V4_ID16 | V4_IMM4_ID16 | V4_V4_V4_V4_ID16 | V4_V4_V4_IMM4_ID16 | V8_ID16

text \<open>
  Arguments are written into the registers \<open>vs\<close> of the new frame from index \<open>n\<close> on; \<open>cur\<close> are the registers of the caller.
\<close>

definition copy_reg :: "vreg list \<Rightarrow> nat \<Rightarrow> vreg list \<Rightarrow> nat \<Rightarrow> vreg list option" where
  "copy_reg cur i vs k = do { r \<leftarrow> rd cur i; wr vs k r }"

definition CopyCallAccShortArguments :: "bc \<Rightarrow> vreg list \<Rightarrow> vreg \<Rightarrow> nat \<Rightarrow> vreg list \<Rightarrow> vreg list option" where
  "CopyCallAccShortArguments I cur ac n vs =
     (if op_imm I 0 = 0 then do { vs \<leftarrow> wr vs n ac; copy_reg cur (op_vreg I 0) vs (n + 1) }
      else if op_imm I 0 = 1 then do { vs \<leftarrow> copy_reg cur (op_vreg I 0) vs n; wr vs (n + 1) ac }
      else None)"

definition CopyCallAccArguments :: "bc \<Rightarrow> vreg list \<Rightarrow> vreg \<Rightarrow> nat \<Rightarrow> vreg list \<Rightarrow> vreg list option" where
  "CopyCallAccArguments I cur ac n vs =
     (let cp = (\<lambda>j k vs. copy_reg cur (op_vreg I j) vs (n + k)); ac_at = (\<lambda>k vs. wr vs (n + k) ac)
      in if op_imm I 0 = 0 then do { vs \<leftarrow> ac_at 0 vs; vs \<leftarrow> cp 0 1 vs; vs \<leftarrow> cp 1 2 vs; cp 2 3 vs }
         else if op_imm I 0 = 1 then do { vs \<leftarrow> cp 0 0 vs; vs \<leftarrow> ac_at 1 vs; vs \<leftarrow> cp 1 2 vs; cp 2 3 vs }
         else if op_imm I 0 = 2 then do { vs \<leftarrow> cp 0 0 vs; vs \<leftarrow> cp 1 1 vs; vs \<leftarrow> ac_at 2 vs; cp 2 3 vs }
         else if op_imm I 0 = 3 then do { vs \<leftarrow> cp 0 0 vs; vs \<leftarrow> cp 1 1 vs; vs \<leftarrow> cp 2 2 vs; ac_at 3 vs }
         else None)"

definition CopyCallShortArguments :: "bool \<Rightarrow> bc \<Rightarrow> vreg list \<Rightarrow> vreg \<Rightarrow> nat \<Rightarrow> vreg list \<Rightarrow> vreg list option" where
  "CopyCallShortArguments INITOBJ I cur ac n vs =
     (let SHIFT = (if INITOBJ then 1 else 0)
      in do { vs \<leftarrow> (if INITOBJ then wr vs n ac else Some vs);
              vs \<leftarrow> copy_reg cur (op_vreg I 0) vs (n + SHIFT);
              copy_reg cur (op_vreg I 1) vs (n + SHIFT + 1) })"

definition CopyCallArguments :: "bool \<Rightarrow> bc \<Rightarrow> vreg list \<Rightarrow> vreg \<Rightarrow> nat \<Rightarrow> vreg list \<Rightarrow> vreg list option" where
  "CopyCallArguments INITOBJ I cur ac n vs =
     (let SHIFT = (if INITOBJ then 1 else 0)
      in do { vs \<leftarrow> (if INITOBJ then wr vs n ac else Some vs);
              vs \<leftarrow> copy_reg cur (op_vreg I 0) vs (n + SHIFT);
              vs \<leftarrow> copy_reg cur (op_vreg I 1) vs (n + SHIFT + 1);
              vs \<leftarrow> copy_reg cur (op_vreg I 2) vs (n + SHIFT + 2);
              copy_reg cur (op_vreg I 3) vs (n + SHIFT + 3) })"

text \<open>The loop of \<^verbatim>\<open>CopyRangeArguments\<close> from \<open>i\<close> on, \<open>k\<close> iterations left.\<close>

fun copy_range :: "vreg list \<Rightarrow> nat \<Rightarrow> nat \<Rightarrow> nat \<Rightarrow> nat \<Rightarrow> vreg list \<Rightarrow> vreg list option" where
  "copy_range cur startReg base i 0 vs = Some vs"
| "copy_range cur startReg base i (Suc k) vs =
     do { vs \<leftarrow> copy_reg cur (startReg + i) vs (base + i); copy_range cur startReg base (i + 1) k vs }"

definition CopyRangeArguments :: "bool \<Rightarrow> bc \<Rightarrow> vreg list \<Rightarrow> vreg \<Rightarrow> nat \<Rightarrow> nat \<Rightarrow> vreg list \<Rightarrow> vreg list option" where
  "CopyRangeArguments INITOBJ I cur ac n numActual vs =
     (let SHIFT = (if INITOBJ then 1 else 0)
      in do { vs \<leftarrow> (if INITOBJ then wr vs n ac else Some vs);
              copy_range cur (op_vreg I 0) (n + SHIFT) 0 (numActual - SHIFT) vs })"

definition CopyArguments ::
    "call_format \<Rightarrow> bool \<Rightarrow> bool \<Rightarrow> bool \<Rightarrow> bc \<Rightarrow> vreg list \<Rightarrow> vreg \<Rightarrow> nat \<Rightarrow> nat \<Rightarrow> nat \<Rightarrow> vreg list \<Rightarrow> vreg list option" where
  "CopyArguments FORMAT IS_RANGE ACCEPT_ACC INITOBJ I cur ac n numActual numArgs vs =
     (if numArgs = 0 then Some vs
      else if IS_RANGE then CopyRangeArguments INITOBJ I cur ac n numActual vs
      else if ACCEPT_ACC then
        (case FORMAT of
           V4_IMM4_ID16 \<Rightarrow> CopyCallAccShortArguments I cur ac n vs
         | V4_V4_V4_IMM4_ID16 \<Rightarrow> CopyCallAccArguments I cur ac n vs
         | _ \<Rightarrow> None)
      else
        (case FORMAT of
           V4_V4_ID16 \<Rightarrow> CopyCallShortArguments INITOBJ I cur ac n vs
         | V4_V4_V4_V4_ID16 \<Rightarrow> CopyCallArguments INITOBJ I cur ac n vs
         | _ \<Rightarrow> None))"

definition frame_nregs :: "call_format \<Rightarrow> bool \<Rightarrow> nat \<Rightarrow> nat \<Rightarrow> nat" where
  "frame_nregs FORMAT INITOBJ numVregs numDeclaredArgs =
     (if FORMAT = V4_V4_ID16 \<or> FORMAT = V4_IMM4_ID16 then numVregs + (if INITOBJ then 3 else 2)
      else if FORMAT = V4_V4_V4_V4_ID16 \<or> FORMAT = V4_V4_V4_IMM4_ID16 then numVregs + (if INITOBJ then 5 else 4)
      else numVregs + numDeclaredArgs)"

text \<open>The memory of a new frame is cleared by the frame allocator.\<close>

definition new_frame :: "nat \<Rightarrow> nat \<Rightarrow> nat \<Rightarrow> frame" where
  "new_frame m nregs numActual =
     \<lparr>frame_vregs = replicate nregs \<lparr>payload = 0, mirror = 0\<rparr>, frame_acc = \<lparr>payload = 0, mirror = 0\<rparr>, frame_method = m,
      numActualArgs = numActual, bcOffset = 0, nextInst = 0, frame_inst = 0, IsStackless = False, IsInitobj = False,
      IsBoundary = False\<rparr>"

text \<open>\<open>Inl\<close>: the state after a failed allocation; \<open>Inr\<close>: the new frame.\<close>

definition CreateAndSetFrame ::
    "call_format \<Rightarrow> bool \<Rightarrow> bool \<Rightarrow> bool \<Rightarrow> nat \<Rightarrow> nat \<Rightarrow> rt \<Rightarrow> bc \<Rightarrow> interp \<Rightarrow> (interp + frame) option" where
  "CreateAndSetFrame FORMAT IS_RANGE ACCEPT_ACC INITOBJ m numVregs rt I s =
     (let numDeclaredArgs = MethodNumArgs rt m; numActual = numDeclaredArgs;
          nregs = frame_nregs FORMAT INITOBJ numVregs numDeclaredArgs
      in if \<not> FrameAvailable rt s nregs then Some (Inl (raise_exn rt StackOverflowException s))
         else do {
           f \<leftarrow> GetFrame s;
           let nf = (new_frame m nregs numActual)\<lparr>frame_acc := acc s\<rparr>;
           vs \<leftarrow> CopyArguments FORMAT IS_RANGE ACCEPT_ACC INITOBJ I (frame_vregs f) (acc s) numVregs numActual numDeclaredArgs
                  (frame_vregs nf);
           Some (Inr (nf\<lparr>frame_vregs := vs\<rparr>)) })"

definition HandleCallPrologue :: "rt \<Rightarrow> interp \<Rightarrow> interp option" where
  "HandleCallPrologue rt s =
     (if TestAllFlags rt s then do { s \<leftarrow> SaveAcc s; RestoreAcc (Safepoint rt s) } else Some s)"

definition CallInterpreterStackless :: "call_format \<Rightarrow> bool \<Rightarrow> bool \<Rightarrow> bool \<Rightarrow> nat \<Rightarrow> handler" where
  "CallInterpreterStackless FORMAT IS_RANGE ACCEPT_ACC INITOBJ m rt I s =
     do { r \<leftarrow> CreateAndSetFrame FORMAT IS_RANGE ACCEPT_ACC INITOBJ m (MethodNumVregs rt m) rt I s;
          case r of
            Inl s \<Rightarrow> Some s
          | Inr nf \<Rightarrow>
              do { let nf = nf\<lparr>IsStackless := True, IsInitobj := INITOBJ, frame_inst := MethodInstructions rt m\<rparr>;
                   let s = MoveToNextInst False I s;
                   f \<leftarrow> GetFrame s;
                   let s = SetFrame s (f\<lparr>nextInst := cur_inst s\<rparr>);
                   Some (s\<lparr>frames := nf # frames s, cur_inst := MethodInstructions rt m\<rparr>) } }"

definition CallCompiledCode :: "nat \<Rightarrow> handler" where
  "CallCompiledCode m rt I s =
     do { s \<leftarrow> SaveAcc s;
          let s = CompiledCodeBridge rt s m;
          if pending s \<noteq> None then Some (MoveToExceptionHandler rt s)
          else do { s \<leftarrow> RestoreAcc s; Some (MoveToNextInst True I s) } }"

definition HandleCall_method :: "call_format \<Rightarrow> bool \<Rightarrow> bool \<Rightarrow> bool \<Rightarrow> nat \<Rightarrow> handler" where
  "HandleCall_method FORMAT IS_RANGE ACCEPT_ACC INITOBJ m rt I s =
     do { s \<leftarrow> HandleCallPrologue rt s;
          if HasCompiledCode rt s m then CallCompiledCode m rt I s
          else CallInterpreterStackless FORMAT IS_RANGE ACCEPT_ACC INITOBJ m rt I s }"

definition GetObjHelper :: "rt \<Rightarrow> bc \<Rightarrow> interp \<Rightarrow> u64 option" where
  "GetObjHelper rt I s = GetRefReg rt s (op_vreg I 0)"

text \<open>Zero after a null pointer exception.\<close>

definition GetCallerObject :: "bool \<Rightarrow> rt \<Rightarrow> bc \<Rightarrow> interp \<Rightarrow> (interp \<times> u64) option" where
  "GetCallerObject ACCEPT_ACC rt I s =
     do { ob \<leftarrow> (if ACCEPT_ACC \<and> op_imm I 0 = 0 then Some (GetAccRef rt s) else GetObjHelper rt I s);
          Some (if ob = 0 then raise_exn rt NullPointerException s else s, ob) }"

definition HandleVirtualCall :: "call_format \<Rightarrow> bool \<Rightarrow> bool \<Rightarrow> nat \<Rightarrow> handler" where
  "HandleVirtualCall FORMAT IS_RANGE ACCEPT_ACC m rt I s =
     do { (s, a) \<leftarrow> GetCallerObject ACCEPT_ACC rt I s;
          if a = 0 then Some s
          else do { ob \<leftarrow> heap s a;
                    HandleCall_method FORMAT IS_RANGE ACCEPT_ACC False (ResolveVirtualMethod rt (obj_class ob) m) rt I s } }"

text \<open>The common body of the handlers of direct calls.\<close>

definition call_direct :: "call_format \<Rightarrow> bool \<Rightarrow> bool \<Rightarrow> handler" where
  "call_direct FORMAT IS_RANGE ACCEPT_ACC rt I s =
     do { (s, m) \<leftarrow> ResolveMethod rt (op_id I) s;
          case m of
            None \<Rightarrow> Some (MoveToExceptionHandler rt s)
          | Some m \<Rightarrow>
              if MethodIsStatic rt m then HandleCall_method FORMAT IS_RANGE ACCEPT_ACC False m rt I s
              else do { (s, a) \<leftarrow> GetCallerObject ACCEPT_ACC rt I s;
                        if a = 0 then Some s else HandleCall_method FORMAT IS_RANGE ACCEPT_ACC False m rt I s } }"

definition HandleCallShort :: handler where
  "HandleCallShort = call_direct V4_V4_ID16 False False"

definition HandleCallAccShort :: handler where
  "HandleCallAccShort = call_direct V4_IMM4_ID16 False True"

definition HandleCall :: handler where
  "HandleCall = call_direct V4_V4_V4_V4_ID16 False False"

definition HandleCallAcc :: handler where
  "HandleCallAcc = call_direct V4_V4_V4_IMM4_ID16 False True"

definition HandleCallRange :: handler where
  "HandleCallRange = call_direct V8_ID16 True False"

definition call_virtual :: "call_format \<Rightarrow> bool \<Rightarrow> bool \<Rightarrow> handler" where
  "call_virtual FORMAT IS_RANGE ACCEPT_ACC rt I s =
     do { (s, m) \<leftarrow> ResolveMethod rt (op_id I) s;
          case m of
            None \<Rightarrow> Some (MoveToExceptionHandler rt s)
          | Some m \<Rightarrow> HandleVirtualCall FORMAT IS_RANGE ACCEPT_ACC m rt I s }"

definition HandleCallVirtShort :: handler where
  "HandleCallVirtShort = call_virtual V4_V4_ID16 False False"

definition HandleCallVirtAccShort :: handler where
  "HandleCallVirtAccShort = call_virtual V4_IMM4_ID16 False True"

definition HandleCallVirt :: handler where
  "HandleCallVirt = call_virtual V4_V4_V4_V4_ID16 False False"

definition HandleCallVirtAcc :: handler where
  "HandleCallVirtAcc = call_virtual V4_V4_V4_IMM4_ID16 False True"

definition HandleCallVirtRange :: handler where
  "HandleCallVirtRange = call_virtual V8_ID16 True False"

section \<open>Object construction\<close>

definition InitializeObject_class :: "call_format \<Rightarrow> nat \<Rightarrow> nat option \<Rightarrow> handler" where
  "InitializeObject_class FORMAT klass m rt I s =
     (case m of
        None \<Rightarrow> Some (MoveToExceptionHandler rt s)
      | Some m \<Rightarrow>
          (let (s, ob) = rtCreateObject rt s klass
           in if ob = 0 then Some (MoveToExceptionHandler rt s)
              else do { s \<leftarrow> SaveAcc (SetAcc (SetReference (OBJECT_POINTER_SIZE rt) ob) s);
                        HandleCall_method FORMAT (FORMAT = V8_ID16) False True m rt I s }))"

definition InitializeObject :: "call_format \<Rightarrow> handler" where
  "InitializeObject FORMAT rt I s =
     do { f \<leftarrow> GetFrame s;
          let cached = Cache_Get s (cur_inst s) (frame_method f);
          let klass = (case cached of Some m \<Rightarrow> Some (MethodClass rt m) | None \<Rightarrow> rtMethodClass rt (frame_method f) (op_id I));
          let s = (if cached = None then SetAcc (SetPrimitive (IntV 0)) s else s);
          case klass of
            None \<Rightarrow> Some (MoveToExceptionHandler rt s)
          | Some k \<Rightarrow>
              if IsArrayClass rt k then
                (let (s, ob) = rtCreateMultiArray rt s I k (rtMethodArgumentsCount rt (frame_method f) (op_id I))
                 in Some (if ob \<noteq> 0 then MoveToNextInst False I (SetAcc (SetReference (OBJECT_POINTER_SIZE rt) ob) s)
                          else MoveToExceptionHandler rt s))
              else do {
                (s, m) \<leftarrow> (case cached of Some m \<Rightarrow> Some (s, Some m) | None \<Rightarrow> ResolveMethod rt (op_id I) s);
                if IsStringClass rt k then
                  (case m of
                     None \<Rightarrow> Some (MoveToExceptionHandler rt s)
                   | Some m \<Rightarrow>
                       do { ctorArg \<leftarrow> GetRefReg rt s (op_vreg I 0);
                            let (s, str) = rtCreateString rt s m ctorArg;
                            Some (if str \<noteq> 0 then MoveToNextInst False I (SetAcc (SetReference (OBJECT_POINTER_SIZE rt) str) s)
                                  else MoveToExceptionHandler rt s) })
                else do { s \<leftarrow> UpdateBytecodeOffset s; InitializeObject_class FORMAT k m rt I s } } }"

definition HandleInitobj :: handler where
  "HandleInitobj = InitializeObject V4_V4_V4_V4_ID16"

definition HandleInitobjShort :: handler where
  "HandleInitobjShort = InitializeObject V4_V4_ID16"

definition HandleInitobjRange :: handler where
  "HandleInitobjRange = InitializeObject V8_ID16"

section \<open>Return\<close>

definition SetFrameAcc :: "vreg \<Rightarrow> interp \<Rightarrow> interp option" where
  "SetFrameAcc r s = do { f \<leftarrow> GetFrame s; Some (SetFrame s (f\<lparr>frame_acc := r\<rparr>)) }"

definition HandleReturn :: handler where
  "HandleReturn rt I s = SetFrameAcc (SetPrimitive (IntV (Get_i32 (payload (acc s))))) s"

definition HandleReturnWide :: handler where
  "HandleReturnWide rt I s = SetFrameAcc (SetPrimitive (IntV (sint (payload (acc s))))) s"

definition HandleReturnObj :: handler where
  "HandleReturnObj rt I s = SetFrameAcc (SetReference (OBJECT_POINTER_SIZE rt) (GetAccRef rt s)) s"

definition HandleReturnVoid :: handler where
  "HandleReturnVoid rt I s = Some s"

definition HandleReturnStackless :: "rt \<Rightarrow> interp \<Rightarrow> interp option" where
  "HandleReturnStackless rt s =
     (case frames s of
        f # prev # rest \<Rightarrow>
          if \<not> IsStackless f then None
          else
            (let s = s\<lparr>frames := prev # rest, cur_inst := frame_inst prev + uint (bcOffset prev)\<rparr>;
                 s = (if pending s \<noteq> None then MoveToExceptionHandler rt s
                      else s\<lparr>acc := frame_acc f, cur_inst := nextInst prev\<rparr>)
             in Some (if IsInitobj f then s\<lparr>acc := frame_acc prev\<rparr> else s))
      | _ \<Rightarrow> None)"

section \<open>Exceptions\<close>

definition FindCatchBlock :: "rt \<Rightarrow> interp \<Rightarrow> u32 option" where
  "FindCatchBlock rt s =
     do { f \<leftarrow> GetFrame s; e \<leftarrow> pending s; pc \<leftarrow> GetBytecodeOffset s; Some (rtFindCatchBlock rt (frame_method f) e pc) }"

text \<open>The loop over the frames; the pending exception is asserted in every iteration.\<close>

function FindCatchBlockStackless :: "rt \<Rightarrow> interp \<Rightarrow> (interp \<times> u32) option" where
  "FindCatchBlockStackless rt s =
     (case frames s of
        [] \<Rightarrow> Some (s, INVALID_OFFSET)
      | f # rest \<Rightarrow>
          do { pcOffset \<leftarrow> FindCatchBlock rt s;
               if pcOffset \<noteq> INVALID_OFFSET then Some (s, pcOffset)
               else case rest of
                      [] \<Rightarrow> Some (s, pcOffset)
                    | prev # _ \<Rightarrow>
                        if \<not> IsStackless f \<or> IsBoundary prev then Some (s, pcOffset)
                        else FindCatchBlockStackless rt
                               (s\<lparr>frames := rest, cur_inst := frame_inst prev + uint (bcOffset prev)\<rparr>) })"
  by auto
termination
  by (relation "measure (\<lambda>(rt, s). length (frames s))") auto

declare FindCatchBlockStackless.simps [simp del]

text \<open>
  The exception handler of the generated dispatch loop: \<open>Inr\<close> continues at the catch block with the exception object
  in the accumulator, \<open>Inl\<close> leaves the interpreter with the exception pending.
\<close>

definition ExceptionHandler :: "rt \<Rightarrow> interp \<Rightarrow> (interp + interp) option" where
  "ExceptionHandler rt s =
     (case pending s of
        None \<Rightarrow> None
      | Some e \<Rightarrow>
          do { (s, pcOffset) \<leftarrow> FindCatchBlockStackless rt s;
               if pcOffset = INVALID_OFFSET then Some (Inl s)
               else do { f \<leftarrow> GetFrame s;
                         let r = SetReference (OBJECT_POINTER_SIZE rt) (rtExceptionObject rt e);
                         let s = SetFrame s (f\<lparr>frame_acc := r\<rparr>);
                         Some (Inr (s\<lparr>pending := None, acc := r, opcodeExtension := 0,
                                      cur_inst := MethodInstructions rt (frame_method f) + uint pcOffset\<rparr>)) } })"

end
