(* ===== verification/InterpreterExample.thy ===== *)
theory InterpreterExample
  imports ConstFoldingSound InterpreterObjects
begin

text \<open>
  A small runtime and a state of the interpreter, on which the properties of the interpreter are applied: one frame with three
  registers, an array of three elements at address 16, a runtime that resolves every item to itself and allocates at address 64.
\<close>

definition ex_vreg :: "int \<Rightarrow> vreg" where
  "ex_vreg v = \<lparr>payload = word_of_int v, mirror = PRIMITIVE_TYPE\<rparr>"

definition ex_frame :: frame where
  "ex_frame = (new_frame 0 0 0)\<lparr>frame_vregs := [ex_vreg 7, ex_vreg (- 3), ex_vreg 0], IsStackless := True\<rparr>"

definition ex_state :: interp where
  "ex_state =
     \<lparr>acc = ex_vreg (2 ^ 31 - 1), cur_inst = 100, opcodeExtension = 0, frames = [ex_frame], pending = None,
      heap = (\<lambda>a. if a = 16 then Some \<lparr>obj_class = 1, obj_fields = (\<lambda>_. 0), obj_elems = [1, 2, 3]\<rparr> else None),
      statics = (\<lambda>_. 0), cache = (\<lambda>_. None)\<rparr>"

definition ex_bc :: bc where
  "ex_bc = \<lparr>op_vreg = id, op_imm = (\<lambda>_. 1), op_id = 0, op_size = 2\<rparr>"

definition ex_alloc :: "obj \<Rightarrow> interp \<Rightarrow> interp \<times> u64" where
  "ex_alloc ob s = (s\<lparr>heap := (heap s)(64 \<mapsto> ob)\<rparr>, 64)"

definition ex_rt :: rt where
  "ex_rt =
     \<lparr>rt_fpu = ex_fpu, OBJECT_POINTER_SIZE = 4, NUM_PREFIXED = 10, SUPPORT_OSR = False, fakeInstBuf = 0, bytecode = (\<lambda>_. 5),
      TestAllFlags = (\<lambda>_. False), Safepoint = id, UpdateHotnessOSR = (\<lambda>_ _. False),
      rtResolveField = (\<lambda>s _ fd. (s, Some fd)), rtResolveClass = (\<lambda>s _ k. (s, Some k)), rtResolveMethod = (\<lambda>s _ m. (s, Some m)),
      rtFieldType = (\<lambda>fd. if fd = 9 then REFERENCE_t else I32_t),
      rtCreateArray = (\<lambda>s k n. ex_alloc \<lparr>obj_class = k, obj_fields = (\<lambda>_. 0), obj_elems = replicate (nat n) 0\<rparr> s),
      rtCreateObject = (\<lambda>s k. ex_alloc \<lparr>obj_class = k, obj_fields = (\<lambda>_. 0), obj_elems = []\<rparr> s),
      rtCreateMultiArray = (\<lambda>s _ _ _. (s, 0)), rtCreateString = (\<lambda>s _ _. (s, 0)), rtHandleLdaStr = (\<lambda>s _. s),
      rtResolveLiteralArray = (\<lambda>s _ _. (s, 0)), rtManagedObject = (\<lambda>_. 0), rtMethodClass = (\<lambda>_ _. None),
      rtMethodArgumentsCount = (\<lambda>_ _. 0), IsArrayClass = (\<lambda>_. False), IsStringClass = (\<lambda>_. False), MethodClass = id,
      IsAssignableFrom = (\<lambda>_ _. True), GetComponentType = id, ResolveVirtualMethod = (\<lambda>_ m. m), MethodIsStatic = (\<lambda>_. True),
      MethodNumArgs = (\<lambda>_. 2), MethodNumVregs = (\<lambda>_. 1), MethodInstructions = (\<lambda>m. 1000 * int m),
      HasCompiledCode = (\<lambda>_ _. False), CompiledCodeBridge = (\<lambda>s _. s), FrameAvailable = (\<lambda>_ _. True),
      rtFindCatchBlock = (\<lambda>m e pc. if m = 0 then 8 else INVALID_OFFSET), rtExceptionObject = (\<lambda>_. 16)\<rparr>"

lemmas ex_defs = ex_vreg_def ex_frame_def ex_state_def ex_bc_def ex_rt_def new_frame_def

end
