(* ===== verification/InterpreterSound.thy ===== *)
theory InterpreterSound
  imports InterpreterExample
begin

unbundle bit_operations_syntax

text \<open>
  The arithmetic handlers of the interpreter against the meaning of instructions of the intermediate representation: a binary,
  unary or conversion handler leaves in its destination the value that \<open>eval_op\<close>, the semantics behind constant folding, gives for the
  corresponding instruction, so interpreted and compiled code agree.
\<close>

section \<open>Functors and the intermediate representation\<close>

abbreviation arith_type :: "ir_type \<Rightarrow> bool" where
  "arith_type T \<equiv> T \<in> {INT32, INT64, UINT32, UINT64}"

lemma arith_typeD: "arith_type T \<Longrightarrow> is_int_type T \<and> T \<noteq> BOOL"
  by auto

lemma GetAs_int: "arith_type T \<Longrightarrow> GetAs T w = Some (IntV (val T w))"
  using static_cast_val [of T w] by auto

lemma wrap_cong_bits:
  assumes "arith_type T" "take_bit (type_bits T) x = take_bit (type_bits T) y"
  shows "wrap T x = wrap T y"
proof -
  have s: "signed_take_bit n x = signed_take_bit n y" if "take_bit (Suc n) x = take_bit (Suc n) y" for n
    using that by (simp add: signed_take_bit_eq_iff_take_bit_eq)
  show ?thesis using assms s [of 31] s [of 63] by (auto simp: wrap_def IsTypeSigned_def)
qed

lemma wrap_take_bits: "arith_type T \<Longrightarrow> wrap T (take_bit (type_bits T) x) = wrap T x"
  by (rule wrap_cong_bits) auto

lemma SafeMath_wrap:
  assumes "arith_type T" "f \<in> {(+), (-), (*)}"
  shows "SafeMath f T a b = wrap T (f a b)"
proof -
  have "take_bit n (f (take_bit n a) (take_bit n b)) = take_bit n (f a b)" for n
    using assms(2) by (auto simp: take_bit_eq_mod mod_simps)
  then show ?thesis
    unfolding SafeMath_def to_unsigned_def wrap_take_bits [OF assms(1)] by (intro wrap_cong_bits assms(1))
qed

lemma wrap_val: "arith_type T \<Longrightarrow> wrap T (val T w) = val T w"
  by (auto simp: val_def wrap_wrap)

lemma take_bit_val:
  assumes "arith_type T"
  shows "take_bit (type_bits T) (val T w) = take_bit (type_bits T) (uint w)"
proof -
  have "take_bit (type_bits T) (wrap T x) = take_bit (type_bits T) x" for x
    using assms by (auto simp: wrap_def IsTypeSigned_def take_bit_signed_take_bit)
  moreover have "take_bit n (sint w) = take_bit n (uint w)" if "n \<le> 64" for n
    using that by (simp add: uint_sint min_absorb1)
  ultimately show ?thesis using assms by (auto simp: val_def)
qed

lemma and_mask_mod: "(x :: int) AND 31 = x mod 32" "x AND 63 = x mod 64"
  using take_bit_eq_mask [of 5 x] take_bit_eq_mask [of 6 x] by (simp_all add: take_bit_eq_mod mask_eq_exp_minus_1)

lemma shift_amount_val:
  assumes "arith_type T"
  shows "shift_amount T (val T y) = unat y mod type_bits T"
proof -
  have "uint y mod 2 ^ 32 mod 32 = uint y mod 32" "uint y mod 2 ^ 64 mod 64 = uint y mod 64"
    by (rule mod_mod_cancel, simp)+
  then show ?thesis using assms unfolding shift_amount_def to_unsigned_def take_bit_val [OF assms]
    by (auto simp: take_bit_eq_mod and_mask_mod nat_mod_distrib simp flip: unat_eq_nat_uint)
qed

lemma bitop_range:
  assumes "arith_type T" "f \<in> {(AND), (OR), (XOR)}"
  shows "wrap T (f (val T x) (val T y)) = f (val T x) (val T y)"
proof -
  have "signed_take_bit n (f a b) = f (signed_take_bit n a) (signed_take_bit n b)"
    "take_bit n (f a b) = f (take_bit n a) (take_bit n b)" for n and a b :: int
    using assms(2) by (auto simp: bit_simps intro!: bit_eqI)
  then show ?thesis using assms(1) by (auto simp: val_def wrap_def IsTypeSigned_def)
qed

lemma val_range:
  assumes "arith_type T"
  shows "type_minimum T \<le> val T w" "val T w < 2 ^ (type_bits T - (if IsTypeSigned T then 1 else 0))"
proof -
  have "type_minimum T \<le> wrap T x \<and> wrap T x < 2 ^ (type_bits T - (if IsTypeSigned T then 1 else 0))" for x
    using assms signed_take_bit_int_greater_eq_minus_exp [of 31 x] signed_take_bit_int_greater_eq_minus_exp [of 63 x]
      signed_take_bit_int_less_exp [of 31 x] signed_take_bit_int_less_exp [of 63 x]
      take_bit_int_less_exp [of 32 x] take_bit_int_less_exp [of 64 x]
    by (auto simp: wrap_def IsTypeSigned_def type_minimum_def)
  then show "type_minimum T \<le> val T w" "val T w < 2 ^ (type_bits T - (if IsTypeSigned T then 1 else 0))"
    by (auto simp: val_def)
qed

lemma wrap_in_range:
  assumes "arith_type T" "type_minimum T \<le> x" "x < 2 ^ (type_bits T - (if IsTypeSigned T then 1 else 0))"
  shows "wrap T x = x"
  using assms by (auto simp: wrap_def IsTypeSigned_def type_minimum_def signed_take_bit_int_eq_self take_bit_int_eq_self)

lemma sdiv_bounds:
  fixes a b :: int
  assumes "b \<noteq> 0"
  shows "\<bar>a sdiv b\<bar> \<le> \<bar>a\<bar>" "0 \<le> a \<Longrightarrow> 0 \<le> b \<Longrightarrow> 0 \<le> a sdiv b" "\<bar>a sdiv b\<bar> = \<bar>a\<bar> \<Longrightarrow> a \<noteq> 0 \<Longrightarrow> \<bar>b\<bar> = 1"
proof -
  have q: "\<bar>a sdiv b\<bar> = \<bar>a\<bar> div \<bar>b\<bar>"
    using assms by (cases "a = 0") (simp_all add: signed_divide_int_def abs_mult abs_sgn_eq pos_imp_zdiv_nonneg_iff)
  show "\<bar>a sdiv b\<bar> \<le> \<bar>a\<bar>" unfolding q using assms zdiv_mono2 [of "\<bar>a\<bar>" 1 "\<bar>b\<bar>"] by simp
  show "0 \<le> a \<Longrightarrow> 0 \<le> b \<Longrightarrow> 0 \<le> a sdiv b" using assms
    by (cases "a = 0") (simp_all add: signed_divide_int_def sgn_if pos_imp_zdiv_nonneg_iff)
  show "\<bar>b\<bar> = 1" if "\<bar>a sdiv b\<bar> = \<bar>a\<bar>" "a \<noteq> 0"
  proof (rule ccontr)
    assume "\<bar>b\<bar> \<noteq> 1"
    with assms have "1 < \<bar>b\<bar>" by simp
    with \<open>a \<noteq> 0\<close> have "\<bar>a\<bar> div \<bar>b\<bar> < \<bar>a\<bar>" by (intro int_div_less_self) auto
    with that q show False by simp
  qed
qed

lemma sdiv_range:
  fixes a b M :: int
  assumes "b \<noteq> 0" "- M \<le> a" "a < M" "\<not> (a = - M \<and> b = - 1)"
  shows "- M \<le> a sdiv b" "a sdiv b < M"
proof -
  have one: "a sdiv 1 = a" "a sdiv - 1 = - a" by (simp_all add: signed_divide_int_def sgn_mult_abs)
  show "- M \<le> a sdiv b" using sdiv_bounds(1) [OF assms(1), of a] assms by linarith
  show "a sdiv b < M"
  proof (rule ccontr)
    assume "\<not> a sdiv b < M"
    then have q: "\<bar>a sdiv b\<bar> = \<bar>a\<bar>" "a = - M" "a sdiv b = M" "a \<noteq> 0"
      using sdiv_bounds(1) [OF assms(1), of a] assms(2,3) by linarith+
    then have "b = 1 \<or> b = - 1" using sdiv_bounds(3) [OF assms(1) q(1,4)] by linarith
    with q(2-4) assms(4) one show False by auto
  qed
qed

lemma smod_facts:
  fixes a b :: int
  assumes "b \<noteq> 0"
  shows "\<bar>a smod b\<bar> \<le> \<bar>a\<bar>" "0 \<le> a \<Longrightarrow> 0 \<le> a smod b" "a \<le> 0 \<Longrightarrow> a smod b \<le> 0" "a smod - 1 = 0"
proof -
  have m: "a smod b = sgn a * (\<bar>a\<bar> mod \<bar>b\<bar>)" by (rule signed_modulo_int_def)
  have "0 \<le> \<bar>a\<bar> mod \<bar>b\<bar>" "\<bar>a\<bar> mod \<bar>b\<bar> \<le> \<bar>a\<bar>" using assms by (simp_all add: zmod_le_nonneg_dividend)
  then show "\<bar>a smod b\<bar> \<le> \<bar>a\<bar>" by (cases "a = 0") (simp_all add: m abs_mult abs_sgn_eq)
  show "0 \<le> a \<Longrightarrow> 0 \<le> a smod b" "a \<le> 0 \<Longrightarrow> a smod b \<le> 0" using assms by (simp_all add: m sgn_if)
  show "a smod - 1 = 0" by (simp add: signed_modulo_int_def)
qed

definition int_functors :: "(binop \<times> opcode) list" where
  "int_functors =
     [(Plus, Op_Add), (Minus, Op_Sub), (Multiplies, Op_Mul), (idivides, Op_Div), (imodulus, Op_Mod), (bit_and, Op_And),
      (bit_or, Op_Or), (bit_xor, Op_Xor), (bit_shl, Op_Shl), (bit_shr, Op_Shr), (bit_ashr, Op_AShr)]"

lemma idivides_ok:
  assumes "arith_type T" "val T y \<noteq> 0"
  shows "idivides fp T (IntV (val T x)) (IntV (val T y)) = Some (IntV (wrap T (val T x sdiv val T y)))"
proof (cases "IsTypeSigned T \<and> val T x = type_minimum T \<and> val T y = - 1")
  case True
  then have "wrap T (val T x sdiv val T y) = type_minimum T"
    using assms(1) by (auto simp: type_minimum_def IsTypeSigned_def signed_divide_int_def wrap_def signed_take_bit_eq_take_bit_minus)
  with True show ?thesis by simp
next
  case False
  have "type_minimum T \<le> val T x sdiv val T y
      \<and> val T x sdiv val T y < 2 ^ (type_bits T - (if IsTypeSigned T then 1 else 0))"
  proof (cases "IsTypeSigned T")
    case True
    with False show ?thesis
      using sdiv_range [OF assms(2), of "2 ^ (type_bits T - 1)" "val T x"] val_range [OF assms(1), of x]
      by (simp add: type_minimum_def)
  next
    case False
    then show ?thesis
      using sdiv_bounds(1,2) [OF assms(2), of "val T x"] val_range [OF assms(1), of x] val_range(1) [OF assms(1), of y]
      by (simp add: type_minimum_def)
  qed
  then have "wrap T (val T x sdiv val T y) = val T x sdiv val T y" using wrap_in_range [OF assms(1)] by blast
  with False assms(2) show ?thesis by auto
qed

lemma imodulus_ok:
  assumes "arith_type T" "val T y \<noteq> 0"
  shows "imodulus fp T (IntV (val T x)) (IntV (val T y)) = Some (IntV (wrap T (val T x smod val T y)))"
proof (cases "IsTypeSigned T \<and> val T x = type_minimum T \<and> val T y = - 1")
  case True
  then show ?thesis using assms(1) smod_facts(4) [of "- 1" "val T x"] by (auto simp: wrap_def)
next
  case False
  have "wrap T (val T x smod val T y) = val T x smod val T y"
    using assms val_range [OF assms(1), of x] val_range [OF assms(1), of y]
      smod_facts(1-3) [OF assms(2), of "val T x"]
    by (intro wrap_in_range) (auto simp: type_minimum_def IsTypeSigned_def abs_if split: if_splits)
  with False assms(2) show ?thesis by auto
qed

lemma ashr_ok:
  assumes "arith_type T" "IsTypeSigned T"
  shows "bit_ashr fp T (IntV (val T x)) (IntV (val T y)) =
    Some (IntV (wrap T (val T x div 2 ^ (unat y mod type_bits T))))"
proof -
  let ?k = "unat y mod type_bits T"
  have "\<bar>val T x div 2 ^ ?k\<bar> \<le> \<bar>val T x\<bar> \<and> (0 \<le> val T x \<longrightarrow> 0 \<le> val T x div 2 ^ ?k)
      \<and> (val T x < 0 \<longrightarrow> val T x div 2 ^ ?k < 0)"
  proof (cases "0 \<le> val T x")
    case True
    then show ?thesis using zdiv_mono2 [of "val T x" 1 "2 ^ ?k"] by (simp add: pos_imp_zdiv_nonneg_iff)
  next
    case False
    have "val T x \<le> val T x div 2 ^ ?k"
    proof -
      have "val T x * 2 ^ ?k \<le> val T x * 1" using False by (intro mult_left_mono_neg) auto
      then have "val T x * 2 ^ ?k div 2 ^ ?k \<le> val T x div 2 ^ ?k" by (intro zdiv_mono1) auto
      then show ?thesis by simp
    qed
    moreover have "val T x div 2 ^ ?k < 0" using False by (simp add: pos_imp_zdiv_neg_iff)
    ultimately show ?thesis using False by simp
  qed
  then have "wrap T (val T x div 2 ^ ?k) = val T x div 2 ^ ?k"
    using assms val_range [OF assms(1), of x]
    by (intro wrap_in_range) (auto simp: type_minimum_def IsTypeSigned_def abs_if split: if_splits)
  then show ?thesis using assms by (simp add: shift_amount_val)
qed

lemma shl_ok:
  assumes "arith_type T"
  shows "bit_shl fp T (IntV (val T x)) (IntV (val T y)) = Some (IntV (wrap T (val T x * 2 ^ (unat y mod type_bits T))))"
proof -
  have "take_bit n (take_bit n a * b) = take_bit n (a * b)" for n and a b :: int
    by (simp add: take_bit_eq_mod mod_simps)
  then have "wrap T (take_bit (type_bits T) a * b) = wrap T (a * b)" for a b
    by (intro wrap_cong_bits assms)
  then show ?thesis
    by (simp only: bit_shl.simps to_unsigned_def shift_amount_val [OF assms] wrap_take_bits [OF assms])
qed

lemma int_functor_ok:
  assumes "(Op, opc) \<in> set int_functors" "arith_type T" "eval_int opc T x y = Some z"
  shows "Op fp T (IntV (val T x)) (IntV (val T y)) = Some (IntV (wrap T z))"
proof -
  note ok = SafeMath_wrap [OF assms(2)] idivides_ok [OF assms(2)] imodulus_ok [OF assms(2)] ashr_ok [OF assms(2)]
    shl_ok [OF assms(2)] bitop_range [OF assms(2)] shift_amount_val [OF assms(2)]
  have "\<forall>(Op, opc) \<in> set int_functors. \<forall>z. eval_int opc T x y = Some z \<longrightarrow>
      Op fp T (IntV (val T x)) (IntV (val T y)) = Some (IntV (wrap T z))"
    unfolding int_functors_def list.set ball_simps prod.case
    by (intro conjI TrueI)
      (simp_all add: eval_int_def Let_def ok to_unsigned_def del: idivides.simps imodulus.simps bit_ashr.simps bit_shl.simps)
  with assms(1,3) show ?thesis by blast
qed

definition float_functors :: "(binop \<times> opcode) list" where
  "float_functors =
     [(std_plus, Op_Add), (std_minus, Op_Sub), (std_multiplies, Op_Mul), (std_divides, Op_Div), (fmodulus, Op_Mod)]"

lemma float_functor_ok:
  assumes "(Op, opc) \<in> set float_functors" "eval_fp fp opc f x y = Some z"
  shows "Op fp T (FltV f x) (FltV f y) = Some (FltV f z)"
  using assms by (auto simp: float_functors_def eval_fp_def)

lemma GetAs_float: "GetAs (float_type f) w = Some (FltV f (fp_reg f w))"
  by (cases f) simp_all

lemma ucast_scast_32: "ucast (scast (w :: u32) :: u64) = w"
  by (rule bit_word_eqI) (simp add: bit_simps min_absorb2)

lemma ucast_ucast_32: "ucast (ucast (w :: u32) :: u64) = w"
  by (rule bit_word_eqI) (simp add: bit_simps)

lemma fp_reg_Set_num: "fp_reg f (Set_num (FltV f b)) = fp_reg f b"
  by (cases f) (simp_all add: ucast_scast_32)

lemma fp_reg_idem [simp]: "fp_reg f (fp_reg f b) = fp_reg f b"
  by (cases f) (simp_all add: ucast_ucast_32)

lemma GetAs_Set_float: "GetAs (float_type f) (Set_num (FltV f b)) = GetAs (float_type f) (fp_reg f b)"
  by (simp add: GetAs_float fp_reg_Set_num)

lemma fmt_of_float_type [simp]: "fmt_of (float_type f) = Some f"
  by (cases f) simp_all

lemma not_int_float [simp]: "GetCommonType (float_type f) \<noteq> INT64" "float_type f \<noteq> BOOL"
  by (cases f; simp)+

lemma val_word_of_int: "is_int_type T \<Longrightarrow> T \<noteq> BOOL \<Longrightarrow> val T (word_of_int i) = wrap T i"
  by (simp add: val_def wrap_word_int)

lemma fcmp_sgn:
  "(if fp_less f y x then 1 else if fp_eq f x y then 0 else (- 1 :: int)) =
     (if isnan f x \<or> isnan f y then - 1 else sgn (fp_key f x - fp_key f y))"
  "(if fp_less f x y then - 1 else if fp_eq f x y then 0 else (1 :: int)) =
     (if isnan f x \<or> isnan f y then 1 else sgn (fp_key f x - fp_key f y))"
  by (auto simp: fp_less_def fp_eq_def fp_less_eq_def sgn_if)

section \<open>Handlers and the intermediate representation\<close>

definition ir_inst :: "opcode \<Rightarrow> ir_type \<Rightarrow> ir_type \<Rightarrow> bool \<Rightarrow> inst" where
  "ir_inst op T S gt =
     \<lparr>GetOpcode = op, GetType = T, inputs = [], operandsType = S, GetRawValue = 0, GetCc = CC_EQ, GetImm = 0,
      GetBasicBlock = 0, IsFcmpg = gt, IsAllocation = False, GetArgNumber = 0, GetObject = 0, bbNums = []\<rparr>"

abbreviation ir_arith :: "opcode \<Rightarrow> ir_type \<Rightarrow> inst" where
  "ir_arith op T \<equiv> ir_inst op T T False"

abbreviation ir_cmp :: "ir_type \<Rightarrow> bool \<Rightarrow> inst" where
  "ir_cmp S gt \<equiv> ir_inst Op_Cmp INT32 S gt"

text \<open>
  A functor at a type computes what an instruction of the intermediate representation computes: on registers \<open>x\<close> and \<open>y\<close> it
  returns a value that reads, at the type of the instruction, like the result of the instruction.
\<close>

definition functor_ok :: "binop \<Rightarrow> ir_type \<Rightarrow> bool \<Rightarrow> inst \<Rightarrow> bool" where
  "functor_ok Op S IS_DIV i \<longleftrightarrow>
     (\<forall>fp x y z. eval_op fp i [x, y] = Some z \<longrightarrow>
        (\<exists>v1 v2 v. GetAs S x = Some v1 \<and> GetAs S y = Some v2 \<and> Op fp S v1 v2 = Some v \<and> (IS_DIV \<longrightarrow> v2 \<noteq> IntV 0)
           \<and> GetAs (GetType i) (Set_num v) = GetAs (GetType i) z))"

lemma handler_eval_arith:
  assumes "opc \<in> snd ` set int_functors" "is_int_type T"
  shows "eval_op fp (ir_arith opc T) [x, y] = map_option (canon T) (eval_int opc T x y)"
  using assms by (auto simp: int_functors_def eval_op_def ir_inst_def)

lemma eval_op_arith_fp:
  assumes "opc \<in> snd ` set float_functors"
  shows "eval_op fp (ir_arith opc (float_type f)) [x, y] = map_option (fp_reg f) (eval_fp fp opc f (fp_reg f x) (fp_reg f y))"
  using assms by (auto simp: float_functors_def eval_op_def ir_inst_def)

lemma make_signed_read:
  assumes "arith_type S \<or> S \<in> {FLOAT32, FLOAT64}"
  shows "GetAs S (Set_num (make_signed S v)) = GetAs S (Set_num v)"
proof (cases v)
  case (IntV i)
  have "(word_of_int (signed_take_bit 63 i) :: u64) = word_of_int i" by (rule bit_word_eqI) (simp add: bit_simps min_absorb1)
  moreover have "(ucast (word_of_int (signed_take_bit 31 i) :: u64) :: u32) = ucast (word_of_int i :: u64)"
    by (rule bit_word_eqI) (simp add: bit_simps min_absorb1)
  ultimately show ?thesis using assms IntV by auto
qed simp

lemma int_functor_functor_ok:
  assumes "(Op, opc) \<in> set int_functors" "arith_type T" "IS_DIV \<longrightarrow> opc \<in> {Op_Div, Op_Mod}"
  shows "functor_ok Op T IS_DIV (ir_arith opc T)"
  unfolding functor_ok_def
proof (intro allI impI)
  fix fp x y z
  assume "eval_op fp (ir_arith opc T) [x, y] = Some z"
  moreover have "opc \<in> snd ` set int_functors" using assms(1) by force
  moreover have T: "is_int_type T" "T \<noteq> BOOL" using assms(2) by auto
  ultimately obtain i where i: "eval_int opc T x y = Some i" "z = canon T i" by (auto simp: handler_eval_arith)
  have t: "GetType (ir_arith opc T) = T" by (simp add: ir_inst_def)
  have "GetAs T (Set_num (IntV (wrap T i))) = GetAs T z"
    using i(2) T assms(2) by (simp add: canon_def)
  moreover have "IS_DIV \<longrightarrow> val T y \<noteq> 0"
    using assms(3) i(1) by (auto simp: eval_int_def Let_def split: if_splits)
  ultimately show "\<exists>v1 v2 v. GetAs T x = Some v1 \<and> GetAs T y = Some v2 \<and> Op fp T v1 v2 = Some v \<and> (IS_DIV \<longrightarrow> v2 \<noteq> IntV 0)
      \<and> GetAs (GetType (ir_arith opc T)) (Set_num v) = GetAs (GetType (ir_arith opc T)) z"
    using int_functor_ok [OF assms(1,2) i(1), of fp] unfolding t by (simp only: GetAs_int [OF assms(2)]) blast
qed

lemma float_functor_functor_ok:
  assumes "(Op, opc) \<in> set float_functors"
  shows "functor_ok Op (float_type f) False (ir_arith opc (float_type f))"
  unfolding functor_ok_def
proof (intro allI impI)
  fix fp x y z
  assume "eval_op fp (ir_arith opc (float_type f)) [x, y] = Some z"
  moreover have "opc \<in> snd ` set float_functors" using assms(1) by force
  ultimately obtain b where b: "eval_fp fp opc f (fp_reg f x) (fp_reg f y) = Some b" "z = fp_reg f b"
    by (auto simp: eval_op_arith_fp)
  have t: "GetType (ir_arith opc (float_type f)) = float_type f" by (simp add: ir_inst_def)
  show "\<exists>v1 v2 v. GetAs (float_type f) x = Some v1 \<and> GetAs (float_type f) y = Some v2 \<and> Op fp (float_type f) v1 v2 = Some v
      \<and> (False \<longrightarrow> v2 \<noteq> IntV 0)
      \<and> GetAs (GetType (ir_arith opc (float_type f))) (Set_num v) = GetAs (GetType (ir_arith opc (float_type f))) z"
    using float_functor_ok [OF assms b(1)] GetAs_Set_float [of f b] b(2) unfolding t GetAs_float by (auto simp: GetAs_float)
qed

lemma cmp_functor_ok:
  assumes "arith_type S"
  shows "functor_ok cmp_op S False (ir_cmp S g)"
  using arith_typeD [OF assms] unfolding functor_ok_def GetAs_int [OF assms]
  by (simp add: eval_op_def ir_inst_def eval_cmp_def sgn_if)

lemma fcmp_functor_ok:
  "functor_ok fcmpl (float_type f) False (ir_cmp (float_type f) False)"
  "functor_ok fcmpg (float_type f) False (ir_cmp (float_type f) True)"
  unfolding functor_ok_def
  by (simp_all add: eval_op_def ir_inst_def eval_cmp_def GetAs_float fcmp_sgn)

text \<open>Where a handler finds its operands and puts its result.\<close>

datatype shape = Acc_Reg | Acc_Reg_V | Reg_Reg | Reg_Reg_V | Acc_Imm | Reg_Imm_V

fun operands :: "shape \<Rightarrow> bc \<Rightarrow> interp \<Rightarrow> (u64 \<times> u64) option" where
  "operands Acc_Reg I s = map_option (\<lambda>r. (payload (acc s), payload r)) (GetVReg s (op_vreg I 0))"
| "operands Acc_Reg_V I s = map_option (\<lambda>r. (payload (acc s), payload r)) (GetVReg s (op_vreg I 1))"
| "operands Acc_Imm I s = Some (payload (acc s), word_of_int (op_imm I 0))"
| "operands Reg_Imm_V I s = map_option (\<lambda>r. (payload r, word_of_int (op_imm I 0))) (GetVReg s (op_vreg I 1))"
| "operands _ I s = do { r1 \<leftarrow> GetVReg s (op_vreg I 0); r2 \<leftarrow> GetVReg s (op_vreg I 1); Some (payload r1, payload r2) }"

fun written :: "shape \<Rightarrow> bc \<Rightarrow> u64 \<Rightarrow> interp \<Rightarrow> interp option" where
  "written Acc_Reg I p s = Some (s\<lparr>acc := (acc s)\<lparr>payload := p\<rparr>\<rparr>)"
| "written Acc_Imm I p s = Some (s\<lparr>acc := (acc s)\<lparr>payload := p\<rparr>\<rparr>)"
| "written Reg_Reg I p s = Some (s\<lparr>acc := \<lparr>payload = p, mirror = PRIMITIVE_TYPE\<rparr>\<rparr>)"
| "written _ I p s = SetVReg s (op_vreg I 0) \<lparr>payload = p, mirror = PRIMITIVE_TYPE\<rparr>"

fun shape_handler :: "shape \<Rightarrow> ir_type \<Rightarrow> binop \<Rightarrow> bool \<Rightarrow> handler" where
  "shape_handler Acc_Reg = HandleBinaryOp2"
| "shape_handler Acc_Reg_V = HandleBinaryOp2V"
| "shape_handler Reg_Reg = HandleBinaryOp"
| "shape_handler Reg_Reg_V = HandleBinaryOpV"
| "shape_handler Acc_Imm = HandleBinaryOp2Imm"
| "shape_handler Reg_Imm_V = HandleBinaryOpImmV"

lemmas shape_handler_defs =
  HandleBinaryOp2_def HandleBinaryOp2V_def HandleBinaryOp_def HandleBinaryOpV_def HandleBinaryOp2Imm_def HandleBinaryOpImmV_def

text \<open>The instructions that implement each handler in the intermediate representation.\<close>

definition acc_reg_table :: "(handler \<times> inst) list" where
  "acc_reg_table =
     [(HandleCmpWide, ir_cmp INT64 False), (HandleUcmp, ir_cmp UINT32 False), (HandleUcmpWide, ir_cmp UINT64 False),
      (HandleFcmpl, ir_cmp FLOAT32 False), (HandleFcmplWide, ir_cmp FLOAT64 False), (HandleFcmpg, ir_cmp FLOAT32 True),
      (HandleFcmpgWide, ir_cmp FLOAT64 True), (HandleAdd2, ir_arith Op_Add INT32), (HandleAdd2Wide, ir_arith Op_Add INT64),
      (HandleFadd2, ir_arith Op_Add FLOAT32), (HandleFadd2Wide, ir_arith Op_Add FLOAT64),
      (HandleSub2, ir_arith Op_Sub INT32), (HandleSub2Wide, ir_arith Op_Sub INT64), (HandleFsub2, ir_arith Op_Sub FLOAT32),
      (HandleFsub2Wide, ir_arith Op_Sub FLOAT64), (HandleMul2, ir_arith Op_Mul INT32),
      (HandleMul2Wide, ir_arith Op_Mul INT64), (HandleFmul2, ir_arith Op_Mul FLOAT32),
      (HandleFmul2Wide, ir_arith Op_Mul FLOAT64), (HandleFdiv2, ir_arith Op_Div FLOAT32),
      (HandleFdiv2Wide, ir_arith Op_Div FLOAT64), (HandleFmod2, ir_arith Op_Mod FLOAT32),
      (HandleFmod2Wide, ir_arith Op_Mod FLOAT64), (HandleAnd2, ir_arith Op_And INT32),
      (HandleAnd2Wide, ir_arith Op_And INT64), (HandleOr2, ir_arith Op_Or INT32), (HandleOr2Wide, ir_arith Op_Or INT64),
      (HandleXor2, ir_arith Op_Xor INT32), (HandleXor2Wide, ir_arith Op_Xor INT64), (HandleShl2, ir_arith Op_Shl INT32),
      (HandleShl2Wide, ir_arith Op_Shl INT64), (HandleShr2, ir_arith Op_Shr INT32),
      (HandleShr2Wide, ir_arith Op_Shr INT64), (HandleAshr2, ir_arith Op_AShr INT32),
      (HandleAshr2Wide, ir_arith Op_AShr INT64), (HandleDiv2, ir_arith Op_Div INT32),
      (HandleDiv2Wide, ir_arith Op_Div INT64), (HandleMod2, ir_arith Op_Mod INT32),
      (HandleMod2Wide, ir_arith Op_Mod INT64), (HandleDivu2, ir_arith Op_Div UINT32),
      (HandleDivu2Wide, ir_arith Op_Div UINT64), (HandleModu2, ir_arith Op_Mod UINT32),
      (HandleModu2Wide, ir_arith Op_Mod UINT64)]"

definition acc_reg_v_table :: "(handler \<times> inst) list" where
  "acc_reg_v_table =
     [(HandleAdd2v, ir_arith Op_Add INT32), (HandleAdd2vWide, ir_arith Op_Add INT64),
      (HandleFadd2v, ir_arith Op_Add FLOAT32), (HandleFadd2vWide, ir_arith Op_Add FLOAT64),
      (HandleSub2v, ir_arith Op_Sub INT32), (HandleSub2vWide, ir_arith Op_Sub INT64),
      (HandleFsub2v, ir_arith Op_Sub FLOAT32), (HandleFsub2vWide, ir_arith Op_Sub FLOAT64),
      (HandleMul2v, ir_arith Op_Mul INT32), (HandleMul2vWide, ir_arith Op_Mul INT64),
      (HandleFmul2v, ir_arith Op_Mul FLOAT32), (HandleFmul2vWide, ir_arith Op_Mul FLOAT64),
      (HandleFdiv2v, ir_arith Op_Div FLOAT32), (HandleFdiv2vWide, ir_arith Op_Div FLOAT64),
      (HandleFmod2v, ir_arith Op_Mod FLOAT32), (HandleFmod2vWide, ir_arith Op_Mod FLOAT64),
      (HandleAnd2v, ir_arith Op_And INT32), (HandleAnd2vWide, ir_arith Op_And INT64), (HandleOr2v, ir_arith Op_Or INT32),
      (HandleOr2vWide, ir_arith Op_Or INT64), (HandleXor2v, ir_arith Op_Xor INT32),
      (HandleXor2vWide, ir_arith Op_Xor INT64), (HandleShl2v, ir_arith Op_Shl INT32),
      (HandleShl2vWide, ir_arith Op_Shl INT64), (HandleShr2v, ir_arith Op_Shr INT32),
      (HandleShr2vWide, ir_arith Op_Shr INT64), (HandleAshr2v, ir_arith Op_AShr INT32),
      (HandleAshr2vWide, ir_arith Op_AShr INT64), (HandleDiv2v, ir_arith Op_Div INT32),
      (HandleDiv2vWide, ir_arith Op_Div INT64), (HandleMod2v, ir_arith Op_Mod INT32),
      (HandleMod2vWide, ir_arith Op_Mod INT64), (HandleDivu2v, ir_arith Op_Div UINT32),
      (HandleDivu2vWide, ir_arith Op_Div UINT64), (HandleModu2v, ir_arith Op_Mod UINT32),
      (HandleModu2vWide, ir_arith Op_Mod UINT64)]"

definition reg_reg_table :: "(handler \<times> inst) list" where
  "reg_reg_table =
     [(HandleAdd, ir_arith Op_Add INT32), (HandleSub, ir_arith Op_Sub INT32), (HandleMul, ir_arith Op_Mul INT32),
      (HandleAnd, ir_arith Op_And INT32), (HandleOr, ir_arith Op_Or INT32), (HandleXor, ir_arith Op_Xor INT32),
      (HandleShl, ir_arith Op_Shl INT32), (HandleShr, ir_arith Op_Shr INT32), (HandleAshr, ir_arith Op_AShr INT32),
      (HandleDiv, ir_arith Op_Div INT32), (HandleMod, ir_arith Op_Mod INT32)]"

definition reg_reg_v_table :: "(handler \<times> inst) list" where
  "reg_reg_v_table =
     [(HandleAddv, ir_arith Op_Add INT32), (HandleSubv, ir_arith Op_Sub INT32), (HandleMulv, ir_arith Op_Mul INT32),
      (HandleAndv, ir_arith Op_And INT32), (HandleOrv, ir_arith Op_Or INT32), (HandleXorv, ir_arith Op_Xor INT32),
      (HandleShlv, ir_arith Op_Shl INT32), (HandleShrv, ir_arith Op_Shr INT32), (HandleAshrv, ir_arith Op_AShr INT32),
      (HandleDivv, ir_arith Op_Div INT32), (HandleModv, ir_arith Op_Mod INT32)]"

definition acc_imm_table :: "(handler \<times> inst) list" where
  "acc_imm_table =
     [(HandleAddi, ir_arith Op_Add INT32), (HandleSubi, ir_arith Op_Sub INT32), (HandleMuli, ir_arith Op_Mul INT32),
      (HandleAndi, ir_arith Op_And INT32), (HandleOri, ir_arith Op_Or INT32), (HandleXori, ir_arith Op_Xor INT32),
      (HandleShli, ir_arith Op_Shl INT32), (HandleShri, ir_arith Op_Shr INT32), (HandleAshri, ir_arith Op_AShr INT32),
      (HandleDivi, ir_arith Op_Div INT32), (HandleModi, ir_arith Op_Mod INT32)]"

definition reg_imm_v_table :: "(handler \<times> inst) list" where
  "reg_imm_v_table =
     [(HandleAddiv, ir_arith Op_Add INT32), (HandleSubiv, ir_arith Op_Sub INT32), (HandleMuliv, ir_arith Op_Mul INT32),
      (HandleAndiv, ir_arith Op_And INT32), (HandleOriv, ir_arith Op_Or INT32), (HandleXoriv, ir_arith Op_Xor INT32),
      (HandleShliv, ir_arith Op_Shl INT32), (HandleShriv, ir_arith Op_Shr INT32), (HandleAshriv, ir_arith Op_AShr INT32),
      (HandleDiviv, ir_arith Op_Div INT32), (HandleModiv, ir_arith Op_Mod INT32)]"

definition unary_table :: "(handler \<times> inst) list" where
  "unary_table =
     [(HandleNeg, ir_arith Op_Neg INT32), (HandleNegWide, ir_arith Op_Neg INT64), (HandleFneg, ir_arith Op_Neg FLOAT32),
      (HandleFnegWide, ir_arith Op_Neg FLOAT64), (HandleNot, ir_arith Op_Not INT32), (HandleNotWide, ir_arith Op_Not INT64)]"

definition conversion_table :: "(handler \<times> inst) list" where
  "conversion_table =
     [(HandleU32toi64, ir_inst Op_Cast INT64 UINT32 False), (HandleU32toi16, ir_inst Op_Cast INT16 UINT32 False),
      (HandleU32tou16, ir_inst Op_Cast UINT16 UINT32 False), (HandleU32toi8, ir_inst Op_Cast INT8 UINT32 False),
      (HandleU32tou8, ir_inst Op_Cast UINT8 UINT32 False), (HandleU32tou1, ir_inst Op_Cast BOOL UINT32 False),
      (HandleI32toi64, ir_inst Op_Cast INT64 INT32 False), (HandleI32tou16, ir_inst Op_Cast UINT16 INT32 False),
      (HandleI32toi16, ir_inst Op_Cast INT16 INT32 False), (HandleI32toi8, ir_inst Op_Cast INT8 INT32 False),
      (HandleI32tou8, ir_inst Op_Cast UINT8 INT32 False), (HandleI32tou1, ir_inst Op_Cast BOOL INT32 False),
      (HandleI32tof32, ir_inst Op_Cast FLOAT32 INT32 False), (HandleI32tof64, ir_inst Op_Cast FLOAT64 INT32 False),
      (HandleU32tof32, ir_inst Op_Cast FLOAT32 UINT32 False), (HandleU32tof64, ir_inst Op_Cast FLOAT64 UINT32 False),
      (HandleI64toi32, ir_inst Op_Cast INT32 INT64 False), (HandleI64tou1, ir_inst Op_Cast BOOL INT64 False),
      (HandleI64tof32, ir_inst Op_Cast FLOAT32 INT64 False), (HandleI64tof64, ir_inst Op_Cast FLOAT64 INT64 False),
      (HandleU64toi32, ir_inst Op_Cast INT32 UINT64 False), (HandleU64tou32, ir_inst Op_Cast UINT32 UINT64 False),
      (HandleU64tou1, ir_inst Op_Cast BOOL UINT64 False), (HandleU64tof32, ir_inst Op_Cast FLOAT32 UINT64 False),
      (HandleU64tof64, ir_inst Op_Cast FLOAT64 UINT64 False), (HandleF32tof64, ir_inst Op_Cast FLOAT64 FLOAT32 False),
      (HandleF64tof32, ir_inst Op_Cast FLOAT32 FLOAT64 False)]"

definition float_to_int_table :: "(handler \<times> inst) list" where
  "float_to_int_table =
     [(HandleF32toi32, ir_inst Op_Cast INT32 FLOAT32 False), (HandleF32toi64, ir_inst Op_Cast INT64 FLOAT32 False),
      (HandleF32tou32, ir_inst Op_Cast UINT32 FLOAT32 False), (HandleF32tou64, ir_inst Op_Cast UINT64 FLOAT32 False),
      (HandleF64toi64, ir_inst Op_Cast INT64 FLOAT64 False), (HandleF64toi32, ir_inst Op_Cast INT32 FLOAT64 False),
      (HandleF64tou64, ir_inst Op_Cast UINT64 FLOAT64 False), (HandleF64tou32, ir_inst Op_Cast UINT32 FLOAT64 False)]"

definition arith_table :: "(shape \<times> handler \<times> inst) list" where
  "arith_table =
     map (Pair Acc_Reg) acc_reg_table @ map (Pair Acc_Reg_V) acc_reg_v_table @ map (Pair Reg_Reg) reg_reg_table
     @ map (Pair Reg_Reg_V) reg_reg_v_table @ map (Pair Acc_Imm) acc_imm_table @ map (Pair Reg_Imm_V) reg_imm_v_table"

definition divides_int :: "inst \<Rightarrow> bool" where
  "divides_int i \<longleftrightarrow> GetOpcode i \<in> {Op_Div, Op_Mod} \<and> is_int_type (GetType i)"

lemma imm_as_GetAs: "arith_type T \<Longrightarrow> imm_as T imm = GetAs T (word_of_int imm)"
  by (frule arith_typeD) (simp only: imm_as_def GetAs_int val_word_of_int simp_thms if_True)

lemma shape_handler_ok:
  assumes f: "functor_ok Op S d i" and T: "sh \<in> {Acc_Imm, Reg_Imm_V} \<Longrightarrow> arith_type S"
    and V: "sh = Acc_Reg_V \<Longrightarrow> S = GetType i \<and> (arith_type S \<or> S \<in> {FLOAT32, FLOAT64})"
    and xy: "operands sh I s = Some (x, y)" and z: "eval_op (rt_fpu rt) i [x, y] = Some z"
    and dst: "sh \<in> {Acc_Reg_V, Reg_Reg_V, Reg_Imm_V} \<Longrightarrow> GetVReg s (op_vreg I 0) \<noteq> None"
  shows "\<exists>p s'. written sh I p s = Some s' \<and> shape_handler sh S Op d rt I s = Some (MoveToNextInst d I s')
    \<and> GetAs (GetType i) p = GetAs (GetType i) z"
proof -
  obtain v1 v2 v where v: "GetAs S x = Some v1" "GetAs S y = Some v2" "Op (rt_fpu rt) S v1 v2 = Some v" "d \<Longrightarrow> v2 \<noteq> IntV 0"
    "GetAs (GetType i) (Set_num v) = GetAs (GetType i) z"
    using f z unfolding functor_ok_def by blast
  have w: "\<exists>s'. SetVReg s (op_vreg I 0) r = Some s'" if "GetVReg s (op_vreg I 0) \<noteq> None" for r
    using that by (auto simp: GetVReg_def SetVReg_def rd_def wr_def bind_eq_Some_conv split: if_splits)
  show ?thesis
  proof (cases sh)
    case Acc_Reg
    with v xy show ?thesis
      by (intro exI [of _ "Set_num v"]) (auto simp: HandleBinaryOp2_def SetAcc_def Set_payload_def)
  next
    case Acc_Reg_V
    with w [of "SetPrimitive (make_signed S v)"] dst obtain s' where
      "SetVReg s (op_vreg I 0) (SetPrimitive (make_signed S v)) = Some s'" by auto
    moreover have "GetAs (GetType i) (Set_num (make_signed S v)) = GetAs (GetType i) z"
      using V Acc_Reg_V v(5) make_signed_read [of S v] by auto
    ultimately show ?thesis using v xy Acc_Reg_V
      by (intro exI [of _ "Set_num (make_signed S v)"]) (auto simp: HandleBinaryOp2V_def SetPrimitive_def)
  next
    case Reg_Reg
    with xy obtain r1 r2 where "GetVReg s (op_vreg I 0) = Some r1" "GetVReg s (op_vreg I 1) = Some r2"
      "x = payload r1" "y = payload r2" by (auto simp: bind_eq_Some_conv)
    with v Reg_Reg show ?thesis
      by (intro exI [of _ "Set_num v"]) (auto simp: HandleBinaryOp_def SetAcc_def SetPrimitive_def)
  next
    case Reg_Reg_V
    with w [of "SetPrimitive v"] dst obtain s' where "SetVReg s (op_vreg I 0) (SetPrimitive v) = Some s'" by auto
    moreover from xy Reg_Reg_V obtain r1 r2 where "GetVReg s (op_vreg I 0) = Some r1" "GetVReg s (op_vreg I 1) = Some r2"
      "x = payload r1" "y = payload r2" by (auto simp: bind_eq_Some_conv)
    ultimately show ?thesis using v Reg_Reg_V
      by (intro exI [of _ "Set_num v"]) (auto simp: HandleBinaryOpV_def SetPrimitive_def)
  next
    case Acc_Imm
    with v xy T show ?thesis
      by (intro exI [of _ "Set_num v"]) (auto simp: HandleBinaryOp2Imm_def SetAcc_def Set_payload_def imm_as_GetAs
          simp del: GetAs.simps)
  next
    case Reg_Imm_V
    with w [of "SetPrimitive v"] dst obtain s' where "SetVReg s (op_vreg I 0) (SetPrimitive v) = Some s'" by auto
    with v xy T Reg_Imm_V show ?thesis
      by (intro exI [of _ "Set_num v"]) (auto simp: HandleBinaryOpImmV_def SetPrimitive_def imm_as_GetAs simp del: GetAs.simps)
  qed
qed

lemma shape_handler_zero:
  assumes "arith_type S" "operands sh I s = Some (x, y)" "val S y = 0"
  shows "shape_handler sh S Op True rt I s = Some (raise_exn rt ArithmeticException s)"
proof -
  have "GetAs S w = Some (IntV (val S w))" for w using assms(1) by (rule GetAs_int)
  with assms show ?thesis
    by (cases sh) (auto simp: shape_handler_defs bind_eq_Some_conv imm_as_GetAs simp del: GetAs.simps)
qed

definition entry_ok :: "shape \<Rightarrow> handler \<Rightarrow> inst \<Rightarrow> bool" where
  "entry_ok sh h i \<longleftrightarrow>
     (\<exists>Op S. h = shape_handler sh S Op (divides_int i) \<and> functor_ok Op S (divides_int i) i
        \<and> (sh \<in> {Acc_Imm, Reg_Imm_V} \<longrightarrow> arith_type S)
        \<and> (sh = Acc_Reg_V \<longrightarrow> S = GetType i \<and> (arith_type S \<or> S \<in> {FLOAT32, FLOAT64}))
        \<and> (divides_int i \<longrightarrow> arith_type S \<and> S = GetType i))"

lemma entry_int:
  assumes "arith_type T" "(Op, opc) \<in> set int_functors" "d \<longleftrightarrow> opc \<in> {Op_Div, Op_Mod}"
  shows "entry_ok sh (shape_handler sh T Op d) (ir_arith opc T)"
proof -
  have "is_int_type T" using assms(1) by auto
  then have d: "divides_int (ir_arith opc T) = d" using assms(3) by (simp add: divides_int_def ir_inst_def)
  have t: "GetType (ir_arith opc T) = T" by (simp add: ir_inst_def)
  have "functor_ok Op T d (ir_arith opc T)" using assms by (intro int_functor_functor_ok) auto
  then show ?thesis unfolding entry_ok_def d t using assms(1) by (intro exI [of _ Op] exI [of _ T] conjI) simp_all
qed

lemma entry_float:
  assumes "(Op, opc) \<in> set float_functors" "sh \<notin> {Acc_Imm, Reg_Imm_V}"
  shows "entry_ok sh (shape_handler sh (float_type f) Op False) (ir_arith opc (float_type f))"
proof -
  have d: "divides_int (ir_arith opc (float_type f)) = False" by (simp add: divides_int_def ir_inst_def)
  have t: "GetType (ir_arith opc (float_type f)) = float_type f" by (simp add: ir_inst_def)
  have "float_type f \<in> {FLOAT32, FLOAT64}" by (cases f) simp_all
  then show ?thesis unfolding entry_ok_def d t
    using float_functor_functor_ok [OF assms(1), of f] assms(2)
    by (intro exI [of _ Op] exI [of _ "float_type f"]) simp
qed

lemma entry_cmp:
  assumes "functor_ok Op S False (ir_cmp S g)" "sh \<notin> {Acc_Imm, Reg_Imm_V, Acc_Reg_V}"
  shows "entry_ok sh (shape_handler sh S Op False) (ir_cmp S g)"
proof -
  have "divides_int (ir_cmp S g) = False" by (simp add: divides_int_def ir_inst_def)
  then show ?thesis using assms unfolding entry_ok_def by auto
qed

lemmas entry_fcmp = entry_cmp [OF fcmp_functor_ok(1) [of F32]] entry_cmp [OF fcmp_functor_ok(1) [of F64]]
  entry_cmp [OF fcmp_functor_ok(2) [of F32]] entry_cmp [OF fcmp_functor_ok(2) [of F64]]

lemmas entry_rules = entry_int entry_float [where f = F32] entry_float [where f = F64] entry_cmp [OF cmp_functor_ok] entry_fcmp

lemma acc_reg_entries: "\<forall>(h, i) \<in> set acc_reg_table. entry_ok Acc_Reg h i"
  unfolding acc_reg_table_def HandleBinaryOp2_handlers list.set ball_simps prod.case
  by (intro conjI TrueI; (rule entry_rules [where sh = Acc_Reg, unfolded shape_handler.simps float_type.simps];
      simp add: int_functors_def float_functors_def; fail))

lemma acc_reg_v_entries: "\<forall>(h, i) \<in> set acc_reg_v_table. entry_ok Acc_Reg_V h i"
  unfolding acc_reg_v_table_def HandleBinaryOp2V_handlers list.set ball_simps prod.case
  by (intro conjI TrueI; (rule entry_rules [where sh = Acc_Reg_V, unfolded shape_handler.simps float_type.simps];
      simp add: int_functors_def float_functors_def; fail))

lemma reg_entries:
  "\<forall>(h, i) \<in> set reg_reg_table. entry_ok Reg_Reg h i" "\<forall>(h, i) \<in> set reg_reg_v_table. entry_ok Reg_Reg_V h i"
  unfolding reg_reg_table_def reg_reg_v_table_def HandleBinaryOp_handlers HandleBinaryOpV_handlers list.set ball_simps prod.case
  by (intro conjI TrueI; (rule entry_int [where sh = Reg_Reg, unfolded shape_handler.simps]
        entry_int [where sh = Reg_Reg_V, unfolded shape_handler.simps]; simp add: int_functors_def; fail))+

lemma imm_entries:
  "\<forall>(h, i) \<in> set acc_imm_table. entry_ok Acc_Imm h i" "\<forall>(h, i) \<in> set reg_imm_v_table. entry_ok Reg_Imm_V h i"
  unfolding acc_imm_table_def reg_imm_v_table_def HandleBinaryOp2Imm_handlers HandleBinaryOpImmV_handlers list.set ball_simps prod.case
  by (intro conjI TrueI; (rule entry_int [where sh = Acc_Imm, unfolded shape_handler.simps]
        entry_int [where sh = Reg_Imm_V, unfolded shape_handler.simps]; simp add: int_functors_def; fail))+

lemma arith_table_entry: "(sh, h, i) \<in> set arith_table \<Longrightarrow> entry_ok sh h i"
  using acc_reg_entries acc_reg_v_entries reg_entries imm_entries by (auto simp: arith_table_def)

text \<open>
  C3: the interpreter and the compiler agree on arithmetic.  For each of the 123 binary arithmetic and comparison
  handlers and the instruction of the intermediate representation that stands for it: whenever the instruction has a value on the operands
  the handler reads, the handler runs, writes a register that reads like that value at the type of the
  instruction, touches nothing else and moves to the next instruction; an integer division whose divisor is zero at its type
  raises the arithmetic exception instead.
\<close>

theorem arith_handlers_agree:
  assumes "(sh, h, i) \<in> set arith_table" "operands sh I s = Some (x, y)"
    and "sh \<in> {Acc_Reg_V, Reg_Reg_V, Reg_Imm_V} \<Longrightarrow> GetVReg s (op_vreg I 0) \<noteq> None"
  shows "(\<forall>z. eval_op (rt_fpu rt) i [x, y] = Some z \<longrightarrow>
      (\<exists>p s'. written sh I p s = Some s' \<and> h rt I s = Some (MoveToNextInst (divides_int i) I s')
        \<and> GetAs (GetType i) p = GetAs (GetType i) z))
    \<and> (divides_int i \<and> val (GetType i) y = 0 \<longrightarrow> h rt I s = Some (raise_exn rt ArithmeticException s))"
proof -
  obtain Op S where e: "h = shape_handler sh S Op (divides_int i)" "functor_ok Op S (divides_int i) i"
    "sh \<in> {Acc_Imm, Reg_Imm_V} \<Longrightarrow> arith_type S"
    "sh = Acc_Reg_V \<Longrightarrow> S = GetType i \<and> (arith_type S \<or> S \<in> {FLOAT32, FLOAT64})"
    "divides_int i \<Longrightarrow> arith_type S \<and> S = GetType i"
    using arith_table_entry [OF assms(1)] unfolding entry_ok_def by blast
  have "\<exists>p s'. written sh I p s = Some s' \<and> h rt I s = Some (MoveToNextInst (divides_int i) I s')
      \<and> GetAs (GetType i) p = GetAs (GetType i) z" if "eval_op (rt_fpu rt) i [x, y] = Some z" for z
    unfolding e(1) using e(2-4) assms(2) that assms(3) by (rule shape_handler_ok)
  moreover have "h rt I s = Some (raise_exn rt ArithmeticException s)" if "divides_int i" "val (GetType i) y = 0"
    unfolding e(1) using that e(5) assms(2) shape_handler_zero [of S sh I s x y] by auto
  ultimately show ?thesis by blast
qed

theorem arith_handlers_agree_witness:
  "(Acc_Reg, HandleAdd2, ir_arith Op_Add INT32) \<in> set arith_table
   \<and> operands Acc_Reg ex_bc ex_state = Some (2 ^ 31 - 1, 7)
   \<and> eval_op (rt_fpu ex_rt) (ir_arith Op_Add INT32) [2 ^ 31 - 1, 7] = Some (canon INT32 (2 ^ 31 + 6))
   \<and> (\<exists>p. HandleAdd2 ex_rt ex_bc ex_state =
            Some (MoveToNextInst False ex_bc (ex_state\<lparr>acc := (acc ex_state)\<lparr>payload := p\<rparr>\<rparr>)) \<and> GetAs INT32 p = Some (IntV (6 - 2 ^ 31)))"
proof -
  have t: "(Acc_Reg, HandleAdd2, ir_arith Op_Add INT32) \<in> set arith_table" by (simp add: arith_table_def acc_reg_table_def)
  have o: "operands Acc_Reg ex_bc ex_state = Some (2 ^ 31 - 1, 7)" by (simp add: GetVReg_def GetFrame_def rd_def ex_defs)
  have e: "eval_op (rt_fpu ex_rt) (ir_arith Op_Add INT32) [2 ^ 31 - 1, 7] = Some (canon INT32 (2 ^ 31 + 6))"
    by (simp add: eval_op_def ir_inst_def eval_int_def val_def wrap_def IsTypeSigned_def signed_take_bit_eq_take_bit_minus take_bit_eq_mod)
  have "GetAs INT32 (canon INT32 (2 ^ 31 + 6)) = Some (IntV (6 - 2 ^ 31))"
    by (simp add: canon_def wrap_def IsTypeSigned_def signed_take_bit_eq_take_bit_minus take_bit_eq_mod)
  moreover have "GetType (ir_arith Op_Add INT32) = INT32" "\<not> divides_int (ir_arith Op_Add INT32)"
    by (simp_all add: ir_inst_def divides_int_def)
  ultimately show ?thesis using arith_handlers_agree [OF t o, of ex_rt] t o e by auto
qed

section \<open>Unary operations and conversions\<close>

lemma fmt_of_SomeD: "fmt_of T = Some f \<Longrightarrow> T = float_type f"
  by (cases T) auto

lemma GetAs_int_type: "is_int_type T \<Longrightarrow> GetAs T w = Some (IntV (val T w))"
  using static_cast_val [of T w] by (cases T) auto

lemma convert_ok:
  assumes "eval_op fp (ir_inst Op_Cast T S False) [x] = Some z" "is_int_type S \<or> \<not> is_int_type T"
  shows "\<exists>v w. GetAs S x = Some v \<and> convert fp T v = Some w \<and> GetAs T (Set_num w) = GetAs T z"
proof (cases "is_int_type S")
  case True
  show ?thesis
  proof (cases "is_int_type T")
    case t: True
    with True assms(1) have "z = Set_num (IntV (wrap T (val S x)))" by (simp add: eval_op_def ir_inst_def eval_cast_def canon_def)
    moreover have "convert fp T (IntV (val S x)) = Some (IntV (wrap T (val S x)))" using t by (cases T) simp_all
    ultimately show ?thesis using GetAs_int_type [OF True, of x] by auto
  next
    case False
    with True assms(1) obtain f where f: "T = float_type f" "z = fp_reg f (fp_of_int f (val S x))"
      by (auto simp: eval_op_def ir_inst_def eval_cast_def dest: fmt_of_SomeD)
    have "convert fp T (IntV (val S x)) = Some (FltV f (fp_of_int f (val S x)))" unfolding f by (cases f) simp_all
    then show ?thesis using GetAs_int_type [OF True, of x] f by (auto simp: GetAs_Set_float)
  qed
next
  case False
  with assms obtain f f' where f: "S = float_type f" "T = float_type f'"
    "z = (if f = f' then fp_reg f x else fp_reg f' (fp_convert fp f f' (fp_reg f x)))"
    by (auto simp: eval_op_def ir_inst_def eval_cast_def split: option.splits dest!: fmt_of_SomeD)
  have "convert fp T (FltV f (fp_reg f x)) = Some (FltV f' (if f = f' then fp_reg f x else fp_convert fp f f' (fp_reg f x)))"
    unfolding f by (cases f; cases f') simp_all
  then show ?thesis using f by (auto simp: GetAs_float fp_reg_Set_num)
qed

lemma unary_int_ok:
  assumes "arith_type T" "eval_op fp (ir_arith opc T) [x] = Some z"
  shows "opc = Op_Neg \<Longrightarrow> IsTypeSigned T \<Longrightarrow> val T x \<noteq> type_minimum T \<Longrightarrow>
      std_negate fp T (IntV (val T x)) = Some (IntV (- val T x)) \<and> GetAs T (Set_num (IntV (- val T x))) = GetAs T z"
    and "opc = Op_Not \<Longrightarrow>
      bit_not fp T (IntV (val T x)) = Some (IntV (NOT (val T x))) \<and> GetAs T (Set_num (IntV (NOT (val T x)))) = GetAs T z"
proof -
  note T = arith_typeD [OF assms(1)]
  show "opc = Op_Neg \<Longrightarrow> IsTypeSigned T \<Longrightarrow> val T x \<noteq> type_minimum T \<Longrightarrow>
      std_negate fp T (IntV (val T x)) = Some (IntV (- val T x)) \<and> GetAs T (Set_num (IntV (- val T x))) = GetAs T z"
    using T assms(2) unfolding GetAs_int [OF assms(1)]
    by (auto simp: eval_op_def ir_inst_def eval_int_def val_word_of_int val_canon simp del: of_int_minus)
  show "opc = Op_Not \<Longrightarrow>
      bit_not fp T (IntV (val T x)) = Some (IntV (NOT (val T x))) \<and> GetAs T (Set_num (IntV (NOT (val T x)))) = GetAs T z"
    using T assms(2) unfolding GetAs_int [OF assms(1)]
    by (auto simp: eval_op_def ir_inst_def eval_int_def val_word_of_int val_canon)
qed

lemma fneg_ok:
  assumes "eval_op fp (ir_arith Op_Neg (float_type f)) [x] = Some z"
  shows "GetAs (float_type f) (Set_num (FltV f (fp_neg f (fp_reg f x)))) = GetAs (float_type f) z"
  using assms by (auto simp: eval_op_def ir_inst_def eval_fp_def GetAs_Set_float)

definition unary_step :: "bool \<Rightarrow> handler \<Rightarrow> ir_type \<Rightarrow> rt \<Rightarrow> bc \<Rightarrow> interp \<Rightarrow> u64 \<Rightarrow> bool" where
  "unary_step exact h T rt I s z \<longleftrightarrow>
     (\<exists>p. h rt I s = Some (MoveToNextInst False I (s\<lparr>acc := (acc s)\<lparr>payload := p\<rparr>\<rparr>))
        \<and> (if exact then p = z else GetAs T p = GetAs T z))"

lemma unary_step_conv:
  "eval_op (rt_fpu rt) (ir_inst Op_Cast T S False) [payload (acc s)] = Some z \<Longrightarrow> is_int_type S \<or> \<not> is_int_type T \<Longrightarrow>
     unary_step False (HandleConversion S T) T rt I s z"
  using convert_ok [of "rt_fpu rt" T S "payload (acc s)" z]
  by (auto simp: unary_step_def HandleConversion_def SetAcc_def Set_payload_def)

lemma unary_step_int:
  assumes "arith_type T" "eval_op (rt_fpu rt) (ir_arith opc T) [payload (acc s)] = Some z"
  shows "opc = Op_Neg \<Longrightarrow> IsTypeSigned T \<Longrightarrow> val T (payload (acc s)) \<noteq> type_minimum T \<Longrightarrow>
      unary_step False (HandleUnaryOp T std_negate) T rt I s z"
    and "opc = Op_Not \<Longrightarrow> unary_step False (HandleUnaryOp T bit_not) T rt I s z"
  using unary_int_ok [OF assms] GetAs_int [OF assms(1)]
  by (auto simp: unary_step_def HandleUnaryOp_def SetAcc_def Set_payload_def simp del: GetAs.simps Set_num.simps)

lemma unary_step_fneg:
  "eval_op (rt_fpu rt) (ir_arith Op_Neg (float_type f)) [payload (acc s)] = Some z \<Longrightarrow>
     unary_step False (HandleUnaryOp (float_type f) std_negate) (float_type f) rt I s z"
  using fneg_ok by (auto simp: unary_step_def HandleUnaryOp_def SetAcc_def Set_payload_def GetAs_float fp_reg_Set_num)

lemmas unary_steps = unary_step_int(1) [of INT32 _ Op_Neg] unary_step_int(1) [of INT64 _ Op_Neg]
  unary_step_int(2) [of INT32 _ Op_Not] unary_step_int(2) [of INT64 _ Op_Not]
  unary_step_fneg [of _ F32, unfolded float_type.simps] unary_step_fneg [of _ F64, unfolded float_type.simps]

lemma GetType_ir [simp]: "GetType (ir_inst op T S g) = T" "GetOpcode (ir_inst op T S g) = op"
  by (simp_all add: ir_inst_def)

lemma unary_table_ok:
  assumes "(h, i) \<in> set unary_table" "eval_op (rt_fpu rt) i [payload (acc s)] = Some z"
    "\<not> (GetOpcode i = Op_Neg \<and> is_int_type (GetType i) \<and> val (GetType i) (payload (acc s)) = type_minimum (GetType i))"
  shows "unary_step False h (GetType i) rt I s z"
proof -
  have "\<forall>(h, i) \<in> set unary_table. eval_op (rt_fpu rt) i [payload (acc s)] = Some z \<longrightarrow>
      \<not> (GetOpcode i = Op_Neg \<and> is_int_type (GetType i) \<and> val (GetType i) (payload (acc s)) = type_minimum (GetType i)) \<longrightarrow>
      unary_step False h (GetType i) rt I s z"
    unfolding unary_table_def HandleUnaryOp_handlers list.set ball_simps prod.case GetType_ir
    by (intro conjI TrueI impI; (rule unary_steps; simp add: IsTypeSigned_def; fail))
  with assms show ?thesis by blast
qed

lemma conversion_table_ok:
  assumes "(h, i) \<in> set conversion_table" "eval_op (rt_fpu rt) i [payload (acc s)] = Some z"
  shows "unary_step False h (GetType i) rt I s z"
proof -
  have "\<forall>(h, i) \<in> set conversion_table. eval_op (rt_fpu rt) i [payload (acc s)] = Some z \<longrightarrow>
      unary_step False h (GetType i) rt I s z"
    unfolding conversion_table_def HandleConversion_handlers list.set ball_simps prod.case GetType_ir
    by (intro conjI TrueI impI; (rule unary_step_conv; simp))
  with assms show ?thesis by blast
qed

lemma CastFloatToInt_value:
  assumes "arith_type T"
  shows "CastFloatToInt T (FltV f v) = Some (IntV i) \<Longrightarrow> (word_of_int i :: u64) = word_of_int (fp_to_int f T v)"
    and "\<exists>i. CastFloatToInt T (FltV f v) = Some (IntV i)"
proof -
  note T = arith_typeD [OF assms]
  assume "CastFloatToInt T (FltV f v) = Some (IntV i)"
  then have "ConvertFloatToInt f v T = Some (word_of_int i)"
    by (cases T) (auto simp: ConvertFloatToInt_def ConvertFloatToInt_To_def Let_def type_minimum_def IsTypeSigned_def split: if_splits)
  then show "(word_of_int i :: u64) = word_of_int (fp_to_int f T v)"
    using ConvertFloatToInt_fp_to_int [of T f v] wrap_fp_to_int [of T f v] T by (simp add: canon_def)
next
  have "T \<in> {INT32, UINT32, INT64, UINT64}" using assms by auto
  then show "\<exists>i. CastFloatToInt T (FltV f v) = Some (IntV i)" by (simp only: CastFloatToInt.simps Let_def if_True) blast
qed

lemma unary_step_float_to_int:
  assumes "arith_type T" "eval_op (rt_fpu rt) (ir_inst Op_Cast T (float_type f) False) [payload (acc s)] = Some z"
  shows "unary_step True (HandleFloatToIntConversion (float_type f) T) T rt I s z"
proof -
  obtain i where i: "CastFloatToInt T (FltV f (fp_reg f (payload (acc s)))) = Some (IntV i)"
    using CastFloatToInt_value(2) [OF assms(1)] by blast
  have "z = word_of_int (fp_to_int f T (fp_reg f (payload (acc s))))"
    using assms by (cases T; cases f) (simp_all add: eval_op_def ir_inst_def eval_cast_def)
  with CastFloatToInt_value(1) [OF assms(1) i] i show ?thesis
    by (simp add: unary_step_def HandleFloatToIntConversion_def GetAs_float SetAcc_def Set_payload_def del: CastFloatToInt.simps)
qed

lemma float_to_int_table_ok:
  assumes "(h, i) \<in> set float_to_int_table" "eval_op (rt_fpu rt) i [payload (acc s)] = Some z"
  shows "unary_step True h (GetType i) rt I s z"
proof -
  have "\<forall>(h, i) \<in> set float_to_int_table. eval_op (rt_fpu rt) i [payload (acc s)] = Some z \<longrightarrow> unary_step True h (GetType i) rt I s z"
    unfolding float_to_int_table_def HandleFloatToIntConversion_handlers list.set ball_simps prod.case GetType_ir
    by (intro conjI TrueI impI; (rule unary_step_float_to_int [of _ _ F32, unfolded float_type.simps]
          unary_step_float_to_int [of _ _ F64, unfolded float_type.simps]; simp))
  with assms show ?thesis by blast
qed

text \<open>The instructions of the tables have a value for every operand.\<close>

lemma unary_eval_total: "(h, i) \<in> set (unary_table @ conversion_table @ float_to_int_table) \<Longrightarrow> \<exists>z. eval_op fp i [x] = Some z"
  unfolding unary_table_def conversion_table_def float_to_int_table_def
  by (auto simp: eval_op_def ir_inst_def eval_int_def eval_fp_def eval_cast_def)

text \<open>The negation that has no value in its signed type.\<close>

definition negates_minimum :: "inst \<Rightarrow> u64 \<Rightarrow> bool" where
  "negates_minimum i x \<longleftrightarrow> GetOpcode i = Op_Neg \<and> is_int_type (GetType i) \<and> val (GetType i) x = type_minimum (GetType i)"

lemma negates_minimum_entry:
  assumes "(h, i) \<in> set (unary_table @ conversion_table @ float_to_int_table)" "negates_minimum i x"
  obtains (wide32) "h = HandleNeg" "i = ir_arith Op_Neg INT32" | (wide64) "h = HandleNegWide" "i = ir_arith Op_Neg INT64"
proof -
  have neg: "GetOpcode i = Op_Neg" "is_int_type (GetType i)" using assms(2) by (simp_all add: negates_minimum_def)
  have "\<forall>(h, i) \<in> set (conversion_table @ float_to_int_table). GetOpcode i = Op_Cast"
    unfolding conversion_table_def float_to_int_table_def by (simp add: GetType_ir)
  then have "(h, i) \<notin> set (conversion_table @ float_to_int_table)" using neg(1) by fastforce
  with assms(1) have "(h, i) \<in> set unary_table" by simp
  with neg that show thesis unfolding unary_table_def by (simp add: GetType_ir) (elim disjE conjE; simp add: GetType_ir)
qed

lemma negates_minimum_undefined:
  assumes "(h, i) \<in> set (unary_table @ conversion_table @ float_to_int_table)" "negates_minimum i (payload (acc s))"
    "eval_op (rt_fpu rt) i [payload (acc s)] = Some z"
  shows "h rt I s = None \<and> val (GetType i) z = val (GetType i) (payload (acc s))"
  using assms(1,2)
proof (cases rule: negates_minimum_entry)
  case wide32
  then have "val INT32 (payload (acc s)) = - (2 ^ 31)"
    using assms(2) by (simp add: negates_minimum_def type_minimum_def IsTypeSigned_def)
  with wide32 assms(3) GetAs_int [of INT32 "payload (acc s)"] show ?thesis
    by (auto simp: HandleNeg_def HandleUnaryOp_def type_minimum_def IsTypeSigned_def eval_op_def ir_inst_def eval_int_def val_canon
        wrap_def signed_take_bit_eq_take_bit_minus take_bit_eq_mod)
next
  case wide64
  then have "val INT64 (payload (acc s)) = - (2 ^ 63)"
    using assms(2) by (simp add: negates_minimum_def type_minimum_def IsTypeSigned_def)
  with wide64 assms(3) GetAs_int [of INT64 "payload (acc s)"] show ?thesis
    by (auto simp: HandleNegWide_def HandleUnaryOp_def type_minimum_def IsTypeSigned_def eval_op_def ir_inst_def eval_int_def val_canon
        wrap_def signed_take_bit_eq_take_bit_minus take_bit_eq_mod)
qed

lemma wrap_in_int32: "wrap INT32 x \<in> {- (2 ^ 31)..<2 ^ 31}"
  using signed_take_bit_int_greater_eq_minus_exp [of 31 x] signed_take_bit_int_less_exp [of 31 x]
  by (simp add: wrap_def IsTypeSigned_def)

lemma mod_int32_once:
  fixes x :: int
  assumes "x \<in> {- (2 ^ 32)..<2 ^ 32}"
  shows "(x + 2 ^ 31) mod 2 ^ 32 - 2 ^ 31 = (if x \<in> {- (2 ^ 31)..<2 ^ 31} then x else x - sgn x * 2 ^ 32)"
proof -
  consider "x \<in> {- (2 ^ 31)..<2 ^ 31}" | "2 ^ 31 \<le> x" | "x < - (2 ^ 31)" by fastforce
  then show ?thesis
  proof cases
    case 1
    then show ?thesis by simp
  next
    case 2
    have "(x + 2 ^ 31) mod 2 ^ 32 = x + 2 ^ 31 - 2 ^ 32" by (rule int_mod_pos_eq [where q = 1]) (use 2 assms in auto)
    with 2 show ?thesis by (simp add: sgn_if)
  next
    case 3
    have "(x + 2 ^ 31) mod 2 ^ 32 = x + 2 ^ 31 + 2 ^ 32" by (rule int_mod_pos_eq [where q = "- 1"]) (use 3 assms in auto)
    with 3 show ?thesis by (simp add: sgn_if)
  qed
qed

lemma wrap_int32_once:
  "x \<in> {- (2 ^ 32)..<2 ^ 32} \<Longrightarrow> wrap INT32 x = (if x \<in> {- (2 ^ 31)..<2 ^ 31} then x else x - sgn x * 2 ^ 32)"
  using mod_int32_once [of x] by (simp add: wrap_def IsTypeSigned_def signed_take_bit_eq_take_bit_shift take_bit_eq_mod)

lemma GetVReg_SetVReg: "GetVReg s k = Some r \<Longrightarrow> \<exists>s'. SetVReg s k r' = Some s'"
  by (cases "frames s") (auto simp: GetVReg_def SetVReg_def GetFrame_def rd_def wr_def split: if_splits)

text \<open>An increment that leaves the 32-bit range has no value in the interpreter and wraps in the intermediate representation.\<close>

lemma inci_cases:
  assumes "GetVReg s (op_vreg I 0) = Some r" "x = val INT32 (payload r) + wrap INT32 (op_imm I 0)"
  shows "eval_op fp (ir_arith Op_Add INT32) [payload r, word_of_int (op_imm I 0)] = Some (canon INT32 x)"
    "HandleInci rt I s = (if x \<in> {- (2 ^ 31)..<2 ^ 31}
       then map_option (MoveToNextInst False I) (SetVReg s (op_vreg I 0) (Set_payload (IntV x) r)) else None)"
proof -
  have g: "val INT32 w = Get_i32 w" for w using GetAs_int [of INT32 w] by (simp add: Get_i32_def)
  show "eval_op fp (ir_arith Op_Add INT32) [payload r, word_of_int (op_imm I 0)] = Some (canon INT32 x)"
    by (simp add: eval_op_def ir_inst_def eval_int_def assms(2) val_word_of_int)
  have "x = wrap INT32 x \<longleftrightarrow> x \<in> {- (2 ^ 31)..<2 ^ 31}"
    using signed_take_bit_int_eq_self_iff [of 31 x] by (auto simp: wrap_def IsTypeSigned_def)
  then show "HandleInci rt I s = (if x \<in> {- (2 ^ 31)..<2 ^ 31}
       then map_option (MoveToNextInst False I) (SetVReg s (op_vreg I 0) (Set_payload (IntV x) r)) else None)"
    using assms by (cases "SetVReg s (op_vreg I 0) (Set_payload (IntV x) r)") (simp_all add: HandleInci_def Let_def g)
qed

text \<open>
  C16: the unary handlers, the conversions and \<^verbatim>\<open>inci\<close> against the intermediate representation.  For each of the 6 unary handlers, the
  27 conversions and the 8 conversions from floating point to integers the instruction of the intermediate representation has a value, and
  the handler leaves in the accumulator a register that reads like it at its type (for a conversion from floating point to an
  integer: the very same word), except the negation of the minimum of the type: C++ leaves it undefined,
  the model has no result, and the intermediate representation wraps around to the operand.  In the same way \<^verbatim>\<open>inci\<close>
  stores the sum when it is in the 32-bit range, and is undefined when it leaves it, where the addition of the intermediate
  representation is the sum less or plus \<open>2 ^ 32\<close>.
\<close>

theorem unary_handlers_agree:
  "((h, i) \<in> set (unary_table @ conversion_table @ float_to_int_table) \<longrightarrow>
      (\<exists>z. eval_op (rt_fpu rt) i [payload (acc s)] = Some z
         \<and> (if negates_minimum i (payload (acc s)) then h rt I s = None \<and> val (GetType i) z = val (GetType i) (payload (acc s))
            else \<exists>p. h rt I s = Some (MoveToNextInst False I (s\<lparr>acc := (acc s)\<lparr>payload := p\<rparr>\<rparr>))
                   \<and> GetAs (GetType i) p = GetAs (GetType i) z \<and> ((h, i) \<in> set float_to_int_table \<longrightarrow> p = z))))
    \<and> (\<forall>r x. GetVReg s (op_vreg I 0) = Some r \<and> x = val INT32 (payload r) + wrap INT32 (op_imm I 0) \<longrightarrow>
         (\<exists>z. eval_op (rt_fpu rt) (ir_arith Op_Add INT32) [payload r, word_of_int (op_imm I 0)] = Some z
            \<and> (if x \<in> {- (2 ^ 31)..<2 ^ 31}
               then \<exists>s'. SetVReg s (op_vreg I 0) (Set_payload (IntV x) r) = Some s' \<and> HandleInci rt I s = Some (MoveToNextInst False I s')
                      \<and> val INT32 z = x
               else HandleInci rt I s = None \<and> val INT32 z = x - sgn x * 2 ^ 32)))"
proof (intro conjI impI allI)
  assume h: "(h, i) \<in> set (unary_table @ conversion_table @ float_to_int_table)"
  obtain z where z: "eval_op (rt_fpu rt) i [payload (acc s)] = Some z" using unary_eval_total [OF h] by blast
  have "unary_step False h (GetType i) rt I s z" "(h, i) \<in> set float_to_int_table \<Longrightarrow> unary_step True h (GetType i) rt I s z"
    if "\<not> negates_minimum i (payload (acc s))"
    using h that unary_table_ok [of h i rt s z I] conversion_table_ok [of h i rt s z I] float_to_int_table_ok [of h i rt s z I] z
    by (auto simp: negates_minimum_def unary_step_def)
  with z negates_minimum_undefined [OF h _ z]
  show "\<exists>z. eval_op (rt_fpu rt) i [payload (acc s)] = Some z
         \<and> (if negates_minimum i (payload (acc s)) then h rt I s = None \<and> val (GetType i) z = val (GetType i) (payload (acc s))
            else \<exists>p. h rt I s = Some (MoveToNextInst False I (s\<lparr>acc := (acc s)\<lparr>payload := p\<rparr>\<rparr>))
                   \<and> GetAs (GetType i) p = GetAs (GetType i) z \<and> ((h, i) \<in> set float_to_int_table \<longrightarrow> p = z))"
    by (auto simp: unary_step_def)
next
  fix r x assume a: "GetVReg s (op_vreg I 0) = Some r \<and> x = val INT32 (payload r) + wrap INT32 (op_imm I 0)"
  have "val INT32 (payload r) \<in> {- (2 ^ 31)..<2 ^ 31}" "wrap INT32 (op_imm I 0) \<in> {- (2 ^ 31)..<2 ^ 31}"
    using wrap_in_int32 by (simp_all add: val_def)
  then have "wrap INT32 x = (if x \<in> {- (2 ^ 31)..<2 ^ 31} then x else x - sgn x * 2 ^ 32)" using a by (intro wrap_int32_once) auto
  moreover obtain s' where "SetVReg s (op_vreg I 0) (Set_payload (IntV x) r) = Some s'" using GetVReg_SetVReg a by blast
  ultimately show "\<exists>z. eval_op (rt_fpu rt) (ir_arith Op_Add INT32) [payload r, word_of_int (op_imm I 0)] = Some z
            \<and> (if x \<in> {- (2 ^ 31)..<2 ^ 31}
               then \<exists>s'. SetVReg s (op_vreg I 0) (Set_payload (IntV x) r) = Some s' \<and> HandleInci rt I s = Some (MoveToNextInst False I s')
                      \<and> val INT32 z = x
               else HandleInci rt I s = None \<and> val INT32 z = x - sgn x * 2 ^ 32)"
    using inci_cases(1) [of s I r x "rt_fpu rt"] inci_cases(2) [of s I r x rt] a by (auto simp: val_canon)
qed

theorem unary_handlers_agree_witness:
  "(\<exists>p. HandleI64toi32 ex_rt ex_bc ex_state = Some (MoveToNextInst False ex_bc (ex_state\<lparr>acc := (acc ex_state)\<lparr>payload := p\<rparr>\<rparr>))
      \<and> GetAs INT32 p = Some (IntV (2 ^ 31 - 1)))
   \<and> HandleNeg ex_rt ex_bc (ex_state\<lparr>acc := ex_vreg (- (2 ^ 31))\<rparr>) = None
   \<and> (\<exists>s'. HandleInci ex_rt ex_bc ex_state = Some (MoveToNextInst False ex_bc s'))"
proof -
  have t: "(HandleI64toi32, ir_inst Op_Cast INT32 INT64 False) \<in> set (unary_table @ conversion_table @ float_to_int_table)"
    "(HandleNeg, ir_arith Op_Neg INT32) \<in> set (unary_table @ conversion_table @ float_to_int_table)"
    by (simp_all add: conversion_table_def unary_table_def)
  have e: "eval_op (rt_fpu ex_rt) (ir_inst Op_Cast INT32 INT64 False) [payload (acc ex_state)] = Some (2 ^ 31 - 1)"
    by (simp add: eval_op_def ir_inst_def eval_cast_def ex_defs canon_def val_def wrap_def IsTypeSigned_def
        signed_take_bit_eq_take_bit_minus take_bit_eq_mod)
  have m: "\<not> negates_minimum (ir_inst Op_Cast INT32 INT64 False) w"
    "negates_minimum (ir_arith Op_Neg INT32) (payload (acc (ex_state\<lparr>acc := ex_vreg (- (2 ^ 31))\<rparr>)))" for w
    by (simp_all add: negates_minimum_def ex_vreg_def val_def wrap_def IsTypeSigned_def type_minimum_def
        signed_take_bit_eq_take_bit_minus take_bit_eq_mod)
  have r: "GetVReg ex_state (op_vreg ex_bc 0) = Some (ex_vreg 7)" "val INT32 (payload (ex_vreg 7)) + wrap INT32 (op_imm ex_bc 0) = 8"
    by (simp_all add: ex_defs GetVReg_def GetFrame_def rd_def val_def wrap_def IsTypeSigned_def signed_take_bit_eq_take_bit_minus take_bit_eq_mod)
  have "GetAs INT32 (2 ^ 31 - 1) = Some (IntV (2 ^ 31 - 1))" by simp
  with t(1) e m(1) unary_handlers_agree [of HandleI64toi32 "ir_inst Op_Cast INT32 INT64 False" ex_rt ex_state ex_bc]
  have "\<exists>p. HandleI64toi32 ex_rt ex_bc ex_state = Some (MoveToNextInst False ex_bc (ex_state\<lparr>acc := (acc ex_state)\<lparr>payload := p\<rparr>\<rparr>))
      \<and> GetAs INT32 p = Some (IntV (2 ^ 31 - 1))" by auto
  moreover have "HandleNeg ex_rt ex_bc (ex_state\<lparr>acc := ex_vreg (- (2 ^ 31))\<rparr>) = None"
    using unary_handlers_agree [of HandleNeg "ir_arith Op_Neg INT32" ex_rt "ex_state\<lparr>acc := ex_vreg (- (2 ^ 31))\<rparr>" ex_bc] t(2) m(2)
    by (auto simp del: interp.simps)
  moreover have "\<exists>s'. HandleInci ex_rt ex_bc ex_state = Some (MoveToNextInst False ex_bc s')"
    using unary_handlers_agree [of HandleNeg "ir_arith Op_Neg INT32" ex_rt ex_state ex_bc] r by force
  ultimately show ?thesis by blast
qed

end
