(* ===== verification/InterpreterArrays.thy ===== *)
theory InterpreterArrays
  imports InterpreterExample
begin

unbundle bit_operations_syntax

text \<open>
  Array accesses of the interpreter: their checks, and that a load reads what the store of the same width wrote.
\<close>

section \<open>Checks\<close>

lemma wr_defined: "wr xs (nat i) v = Some ys \<longleftrightarrow> nat i < length xs \<and> ys = xs[nat i := v]"
  by (auto simp: wr_def)

lemma GetAs_defined: "is_int_type T \<or> T = FLOAT32 \<or> T = FLOAT64 \<Longrightarrow> \<exists>v. GetAs T w = Some v"
  by (cases T) auto

definition load_types :: "ir_type list" where
  "load_types = [INT8, INT16, INT32, INT64, UINT8, UINT16, FLOAT32, FLOAT64]"

definition store_types :: "ir_type list" where
  "store_types = [UINT8, UINT16, UINT32, UINT64, FLOAT32, FLOAT64]"

text \<open>What an access to element \<open>idx\<close> of the array at \<open>a\<close> has to raise.\<close>

definition array_fault :: "interp \<Rightarrow> u64 \<Rightarrow> int \<Rightarrow> exn option" where
  "array_fault s a idx =
     (if a = 0 then Some NullPointerException
      else case heap s a of
             None \<Rightarrow> None
           | Some ob \<Rightarrow> if 0 \<le> idx \<and> idx < int (length (obj_elems ob)) then None
                        else Some (ArrayIndexOutOfBoundsException idx (length (obj_elems ob))))"

lemma CheckLoadArrayOp_fault: "a = 0 \<or> heap s a \<noteq> None \<Longrightarrow> CheckLoadArrayOp s a idx = Some (array_fault s a idx)"
  by (auto simp: CheckLoadArrayOp_def array_fault_def)

lemma CheckStoreArrayOp_fault: "a = 0 \<or> heap s a \<noteq> None \<Longrightarrow> CheckStoreArrayOp rt s a idx None = Some (array_fault s a idx)"
  by (auto simp: CheckStoreArrayOp_def array_fault_def)

lemma array_fault_None:
  assumes "array_fault s a idx = None" "a = 0 \<or> heap s a \<noteq> None"
  obtains ob where "a \<noteq> 0" "heap s a = Some ob" "0 \<le> idx" "nat idx < length (obj_elems ob)"
  using assms by (auto simp: array_fault_def split: if_splits option.splits)

text \<open>The element \<open>idx\<close> of the array at \<open>a\<close> replaced.\<close>

definition set_elem :: "u64 \<Rightarrow> int \<Rightarrow> u64 \<Rightarrow> interp \<Rightarrow> interp" where
  "set_elem a idx bits s =
     s\<lparr>heap := (heap s)(a := map_option (\<lambda>ob. ob\<lparr>obj_elems := (obj_elems ob)[nat idx := bits]\<rparr>) (heap s a))\<rparr>"

lemma Array_Set_eq: "heap s a = Some ob \<Longrightarrow> nat idx < length (obj_elems ob) \<Longrightarrow> Array_Set a idx bits s = Some (set_elem a idx bits s)"
  by (simp add: Array_Set_def wr_def set_elem_def)

lemma Array_Get_eq: "heap s a = Some ob \<Longrightarrow> nat idx < length (obj_elems ob) \<Longrightarrow> Array_Get a idx s = Some (obj_elems ob ! nat idx)"
  by (simp add: Array_Get_def rd_def)

text \<open>
  C19: every primitive array access is checked.  On null or an index outside the array the handler raises the corresponding exception
  and changes nothing else; otherwise a load replaces the payload of the accumulator by the element and a store replaces
  exactly that element, and neither is undefined.
\<close>

theorem array_access_checked:
  assumes "GetRefReg rt s (op_vreg I 0) = Some a" "a = 0 \<or> heap s a \<noteq> None" "GetVReg s (op_vreg I 1) = Some r"
    "L \<in> set load_types" "S \<in> set store_types"
  shows "(case array_fault s a (Get_i32 (payload (acc s))) of
            Some e \<Rightarrow> HandleArrayPrimitiveLoad L rt I s = Some (raise_exn rt e s)
          | None \<Rightarrow> \<exists>ob v. heap s a = Some ob \<and> GetAs L (obj_elems ob ! nat (Get_i32 (payload (acc s)))) = Some v
                     \<and> HandleArrayPrimitiveLoad L rt I s = Some (MoveToNextInst True I (s\<lparr>acc := (acc s)\<lparr>payload := Set_num v\<rparr>\<rparr>)))
    \<and> (case array_fault s a (Get_i32 (payload r)) of
         Some e \<Rightarrow> HandleArrayStore S rt I s = Some (raise_exn rt e s)
       | None \<Rightarrow> \<exists>v. GetAs S (payload (acc s)) = Some v
                  \<and> HandleArrayStore S rt I s =
                      Some (MoveToNextInst True I (set_elem a (Get_i32 (payload r)) (store_bits S v) s)))"
proof -
  have L: "\<exists>v. GetAs L w = Some v" and S: "\<exists>v. GetAs S w = Some v" for w
    using assms(4,5) by (auto simp: load_types_def store_types_def intro!: GetAs_defined)
  obtain v where v: "GetAs S (payload (acc s)) = Some v" using S by blast
  have load: "case array_fault s a (Get_i32 (payload (acc s))) of
            Some e \<Rightarrow> HandleArrayPrimitiveLoad L rt I s = Some (raise_exn rt e s)
          | None \<Rightarrow> \<exists>ob v. heap s a = Some ob \<and> GetAs L (obj_elems ob ! nat (Get_i32 (payload (acc s)))) = Some v
                     \<and> HandleArrayPrimitiveLoad L rt I s = Some (MoveToNextInst True I (s\<lparr>acc := (acc s)\<lparr>payload := Set_num v\<rparr>\<rparr>))"
  proof (cases "array_fault s a (Get_i32 (payload (acc s)))")
    case None
    then obtain ob where ob: "heap s a = Some ob" "nat (Get_i32 (payload (acc s))) < length (obj_elems ob)"
      by (rule array_fault_None [OF _ assms(2)])
    obtain w where "GetAs L (obj_elems ob ! nat (Get_i32 (payload (acc s)))) = Some w" using L by blast
    then show ?thesis using None ob assms(1) CheckLoadArrayOp_fault [OF assms(2)] Array_Get_eq [OF ob]
      by (simp add: HandleArrayPrimitiveLoad_def SetAcc_def Set_payload_def)
  qed (use assms(1) CheckLoadArrayOp_fault [OF assms(2)] in \<open>simp add: HandleArrayPrimitiveLoad_def\<close>)
  have store: "case array_fault s a (Get_i32 (payload r)) of
         Some e \<Rightarrow> HandleArrayStore S rt I s = Some (raise_exn rt e s)
       | None \<Rightarrow> \<exists>v. GetAs S (payload (acc s)) = Some v
                  \<and> HandleArrayStore S rt I s = Some (MoveToNextInst True I (set_elem a (Get_i32 (payload r)) (store_bits S v) s))"
  proof (cases "array_fault s a (Get_i32 (payload r))")
    case None
    then obtain ob where ob: "heap s a = Some ob" "nat (Get_i32 (payload r)) < length (obj_elems ob)"
      by (rule array_fault_None [OF _ assms(2)])
    then show ?thesis using None assms(1,3) v CheckStoreArrayOp_fault [OF assms(2)] Array_Set_eq [OF ob]
      by (simp add: HandleArrayStore_def)
  qed (use assms(1,3) v CheckStoreArrayOp_fault [OF assms(2)] in \<open>simp add: HandleArrayStore_def\<close>)
  from load store show ?thesis by (rule conjI)
qed

section \<open>Round trip\<close>

text \<open>Stores and loads of the same width.\<close>

definition matching :: "(ir_type \<times> ir_type) list" where
  "matching = [(UINT8, INT8), (UINT8, UINT8), (UINT16, INT16), (UINT16, UINT16), (UINT32, INT32), (UINT64, INT64), (FLOAT32, FLOAT32),
               (FLOAT64, FLOAT64)]"

lemma memory_casts:
  "ucast (take_bit 8 (ucast (ucast w :: u8) :: u64)) = (ucast (w :: u64) :: u8)"
  "ucast (take_bit 16 (ucast (ucast w :: u16) :: u64)) = (ucast (w :: u64) :: u16)"
  "ucast (take_bit 32 (ucast (ucast w :: u32) :: u64)) = (ucast (w :: u64) :: u32)"
  "ucast (take_bit 32 (scast (ucast (ucast (ucast w :: u32) :: u64) :: u32) :: u64)) = (ucast (w :: u64) :: u32)"
  "take_bit 64 (w :: u64) = w"
  by (rule bit_word_eqI; auto simp: bit_simps min_absorb2)+

lemma store_load_bits:
  assumes "(S, L) \<in> set matching" "GetAs S w = Some v"
  shows "GetAs L (store_bits S v) = GetAs L w"
  using assms by (auto simp: matching_def store_bits_def memory_casts)

lemma matching_types: "(S, L) \<in> set matching \<Longrightarrow> S \<in> set store_types \<and> L \<in> set load_types"
  by (auto simp: matching_def store_types_def load_types_def)

lemma set_elem_get:
  "heap s a = Some ob \<Longrightarrow> heap (set_elem a idx bits s) a = Some (ob\<lparr>obj_elems := (obj_elems ob)[nat idx := bits]\<rparr>)"
  by (simp add: set_elem_def)

text \<open>
  C18: round trip through an array.  After a store of the accumulator that raises nothing, a load of the same width from the same array and index
  (by any later instruction that finds the array in its register and the heap as the store left it) gives the value the
  stored register has at the type of the load: narrow values are truncated by the store and extended by the load.  The other elements,
  and the other objects, are not changed by the store.
\<close>

theorem array_store_then_load:
  assumes "(S, L) \<in> set matching" "HandleArrayStore S rt I s = Some s1" "pending s = None" "pending s1 = None"
    "GetRefReg rt s (op_vreg I 0) = Some a" "GetVReg s (op_vreg I 1) = Some r"
    "heap s2 = heap s1" "GetRefReg rt s2 (op_vreg J 0) = Some a" "Get_i32 (payload (acc s2)) = Get_i32 (payload r)"
  shows "\<exists>v. GetAs L (payload (acc s)) = Some v
      \<and> HandleArrayPrimitiveLoad L rt J s2 = Some (MoveToNextInst True J (s2\<lparr>acc := (acc s2)\<lparr>payload := Set_num v\<rparr>\<rparr>))
      \<and> (\<forall>b. b \<noteq> a \<longrightarrow> heap s1 b = heap s b)
      \<and> (\<forall>ob i. heap s a = Some ob \<longrightarrow> i \<noteq> nat (Get_i32 (payload r)) \<longrightarrow>
           (\<exists>ob'. heap s1 a = Some ob' \<and> length (obj_elems ob') = length (obj_elems ob) \<and> obj_elems ob' ! i = obj_elems ob ! i))"
proof -
  let ?idx = "Get_i32 (payload r)"
  have "GetAs S (payload (acc s)) \<noteq> None" using assms(2,5,6) by (auto simp: HandleArrayStore_def Let_def bind_eq_Some_conv)
  then obtain v where v: "GetAs S (payload (acc s)) = Some v" by blast
  have a: "a = 0 \<or> heap s a \<noteq> None"
    using assms(2,5,6) v by (auto simp: HandleArrayStore_def CheckStoreArrayOp_def Let_def bind_eq_Some_conv split: if_splits)
  have nf: "array_fault s a ?idx = None"
    using assms(2-6) v CheckStoreArrayOp_fault [OF a]
    by (cases "array_fault s a ?idx") (auto simp: HandleArrayStore_def raise_exn_def MoveToExceptionHandler_def Throw_def)
  then obtain ob where ob: "a \<noteq> 0" "heap s a = Some ob" "0 \<le> ?idx" "nat ?idx < length (obj_elems ob)"
    by (rule array_fault_None [OF _ a])
  have s1: "s1 = MoveToNextInst True I (set_elem a ?idx (store_bits S v) s)"
    using assms(2,5,6) v nf CheckStoreArrayOp_fault [OF a] Array_Set_eq [OF ob(2,4)] by (simp add: HandleArrayStore_def)
  let ?ob = "ob\<lparr>obj_elems := (obj_elems ob)[nat ?idx := store_bits S v]\<rparr>"
  have h2: "heap s2 a = Some ?ob" using assms(7) s1 set_elem_get [OF ob(2)] by (simp add: MoveToNextInst_def)
  obtain w where w: "GetAs L (payload (acc s)) = Some w"
    using matching_types [OF assms(1)] GetAs_defined [of L] by (fastforce simp: load_types_def)
  have "array_fault s2 a ?idx = None" using h2 ob(1,3,4) by (auto simp: array_fault_def)
  then have "HandleArrayPrimitiveLoad L rt J s2 = Some (MoveToNextInst True J (s2\<lparr>acc := (acc s2)\<lparr>payload := Set_num w\<rparr>\<rparr>))"
    using assms(8,9) h2 ob(4) w store_load_bits [OF assms(1) v] CheckLoadArrayOp_fault [of a s2 ?idx] Array_Get_eq [OF h2, of ?idx]
    by (simp add: HandleArrayPrimitiveLoad_def SetAcc_def Set_payload_def)
  moreover have "\<forall>b. b \<noteq> a \<longrightarrow> heap s1 b = heap s b" using s1 by (simp add: set_elem_def MoveToNextInst_def)
  moreover have "heap s1 a = Some ?ob" using h2 assms(7) by simp
  ultimately show ?thesis using w ob(2) by auto
qed

section \<open>Examples\<close>

text \<open>A frame with the array of the example in its first register and the index 1 in the second.\<close>

definition ex_array_state :: interp where
  "ex_array_state =
     ex_state\<lparr>frames := [ex_frame\<lparr>frame_vregs := [\<lparr>payload = 16, mirror = GC_OBJECT_TYPE\<rparr>, ex_vreg 1]\<rparr>], acc := ex_vreg (- 2)\<rparr>"

lemmas ex_array_simps = ex_array_state_def ex_defs GetRefReg_def GetVReg_def GetFrame_def GetReference_def rd_def

theorem array_access_checked_witness:
  "GetRefReg ex_rt ex_array_state (op_vreg ex_bc 0) = Some 16
   \<and> array_fault ex_array_state 16 (- 2) = Some (ArrayIndexOutOfBoundsException (- 2) 3)
   \<and> HandleArrayPrimitiveLoad INT8 ex_rt ex_bc ex_array_state = Some (raise_exn ex_rt (ArrayIndexOutOfBoundsException (- 2) 3) ex_array_state)
   \<and> HandleArrayStore UINT8 ex_rt ex_bc ex_array_state = Some (MoveToNextInst True ex_bc (set_elem 16 1 254 ex_array_state))"
proof -
  have r: "GetRefReg ex_rt ex_array_state (op_vreg ex_bc 0) = Some 16" "GetVReg ex_array_state (op_vreg ex_bc 1) = Some (ex_vreg 1)"
    by (simp_all add: ex_array_simps)
  have h: "(16 :: u64) = 0 \<or> heap ex_array_state 16 \<noteq> None" "INT8 \<in> set load_types" "UINT8 \<in> set store_types"
    by (simp_all add: ex_array_simps load_types_def store_types_def)
  have i: "Get_i32 (payload (acc ex_array_state)) = - 2" "Get_i32 (payload (ex_vreg 1)) = 1"
    by (simp_all add: ex_array_simps Get_i32_def)
  have f: "array_fault ex_array_state 16 (- 2) = Some (ArrayIndexOutOfBoundsException (- 2) 3)" "array_fault ex_array_state 16 1 = None"
    by (simp_all add: ex_array_simps array_fault_def)
  have g: "GetAs UINT8 (payload (acc ex_array_state)) = Some (IntV 254)" "store_bits UINT8 (IntV 254) = 254"
    by (simp_all add: ex_array_simps store_bits_def)
  show ?thesis using array_access_checked [OF r(1) h(1) r(2) h(2,3)] r f g unfolding i f by simp
qed

theorem array_store_then_load_witness:
  "(UINT8, INT8) \<in> set matching
   \<and> (\<exists>s1. HandleArrayStore UINT8 ex_rt ex_bc ex_array_state = Some s1
        \<and> HandleArrayPrimitiveLoad INT8 ex_rt ex_bc (s1\<lparr>acc := ex_vreg 1\<rparr>) =
            Some (MoveToNextInst True ex_bc (s1\<lparr>acc := ex_vreg (- 2)\<rparr>)))"
proof -
  let ?s1 = "MoveToNextInst True ex_bc (set_elem 16 1 254 ex_array_state)"
  have st: "HandleArrayStore UINT8 ex_rt ex_bc ex_array_state = Some ?s1"
    by (simp add: HandleArrayStore_def CheckStoreArrayOp_def Array_Set_def wr_def set_elem_def ex_array_simps Get_i32_def store_bits_def
        MoveToNextInst_def)
  have r: "GetRefReg ex_rt ex_array_state (op_vreg ex_bc 0) = Some 16" "GetVReg ex_array_state (op_vreg ex_bc 1) = Some (ex_vreg 1)"
    "GetRefReg ex_rt (?s1\<lparr>acc := ex_vreg 1\<rparr>) (op_vreg ex_bc 0) = Some 16" "pending ex_array_state = None" "pending ?s1 = None"
    by (simp_all add: ex_array_simps set_elem_def MoveToNextInst_def)
  have m: "(UINT8, INT8) \<in> set matching" by (simp add: matching_def)
  have v: "GetAs INT8 (payload (acc ex_array_state)) = Some (IntV (- 2))" by (simp add: ex_array_simps)
  have "\<exists>v. GetAs INT8 (payload (acc ex_array_state)) = Some v \<and> HandleArrayPrimitiveLoad INT8 ex_rt ex_bc (?s1\<lparr>acc := ex_vreg 1\<rparr>) =
      Some (MoveToNextInst True ex_bc (?s1\<lparr>acc := (ex_vreg 1)\<lparr>payload := Set_num v\<rparr>\<rparr>))"
    using array_store_then_load [OF m st r(4,5,1,2) _ r(3)] by auto
  then show ?thesis using m st unfolding v by (auto simp: ex_vreg_def)
qed

end
