(* ===== verification/InterpreterCalls.thy ===== *)
theory InterpreterCalls
  imports InterpreterExample
begin

unbundle bit_operations_syntax

text \<open>
  Frames: how a call passes its arguments, what a return restores, and which frame receives an exception.
\<close>

section \<open>Exceptions\<close>

text \<open>The state after the search has left \<open>k\<close> frames, and the answer of the catch table of that frame.\<close>

definition unwound :: "interp \<Rightarrow> nat \<Rightarrow> interp" where
  "unwound s k =
     (if k = 0 then s
      else s\<lparr>frames := drop k (frames s), cur_inst := frame_inst (frames s ! k) + uint (bcOffset (frames s ! k))\<rparr>)"

definition handler_offset :: "rt \<Rightarrow> interp \<Rightarrow> exn \<Rightarrow> nat \<Rightarrow> u32" where
  "handler_offset rt s e k =
     rtFindCatchBlock rt (frame_method (frames s ! k)) e
       (if k = 0 then word_of_int (cur_inst s - frame_inst (frames s ! 0)) else bcOffset (frames s ! k))"

definition may_unwind :: "interp \<Rightarrow> nat \<Rightarrow> bool" where
  "may_unwind s k \<longleftrightarrow> k + 1 < length (frames s) \<and> IsStackless (frames s ! k) \<and> \<not> IsBoundary (frames s ! (k + 1))"

lemma unwound_sel [simp]:
  "heap (unwound s k) = heap s" "statics (unwound s k) = statics s" "acc (unwound s k) = acc s" "pending (unwound s k) = pending s"
  "frames (unwound s k) = drop k (frames s)"
  by (simp_all add: unwound_def)

lemma handler_offset_unwound:
  "k + 1 < length (frames s) \<Longrightarrow> handler_offset rt (unwound s 1) e k = handler_offset rt s e (k + 1)"
  by (cases "frames s") (auto simp: handler_offset_def unwound_def nth_Cons')

lemma may_unwind_unwound: "k + 1 < length (frames s) \<Longrightarrow> may_unwind (unwound s 1) k = may_unwind s (k + 1)"
  by (cases "frames s") (auto simp: may_unwind_def)

lemma unwound_unwound: "k + 1 < length (frames s) \<Longrightarrow> unwound (unwound s 1) k = unwound s (k + 1)"
  by (cases "frames s") (auto simp: unwound_def)

text \<open>One iteration of the search.\<close>

lemma FindCatchBlock_offset: "pending s = Some e \<Longrightarrow> frames s \<noteq> [] \<Longrightarrow> FindCatchBlock rt s = Some (handler_offset rt s e 0)"
  by (cases "frames s") (auto simp: FindCatchBlock_def GetFrame_def GetBytecodeOffset_def handler_offset_def)

lemma FindCatchBlockStackless_step:
  assumes "pending s = Some e" "frames s \<noteq> []"
  shows "FindCatchBlockStackless rt s =
    (if handler_offset rt s e 0 \<noteq> INVALID_OFFSET \<or> \<not> may_unwind s 0 then Some (s, handler_offset rt s e 0)
     else FindCatchBlockStackless rt (unwound s 1))"
  using FindCatchBlock_offset [OF assms, of rt] assms(2)
  by (cases "frames s"; cases "tl (frames s)") (auto simp: FindCatchBlockStackless.simps [of rt s] may_unwind_def unwound_def)

lemma FindCatchBlockStackless_unwinds:
  assumes "pending s = Some e" "frames s \<noteq> []"
  shows "\<exists>k < length (frames s). FindCatchBlockStackless rt s = Some (unwound s k, handler_offset rt s e k)
    \<and> (\<forall>i < k. handler_offset rt s e i = INVALID_OFFSET \<and> may_unwind s i)
    \<and> (handler_offset rt s e k \<noteq> INVALID_OFFSET \<or> \<not> may_unwind s k)"
  using assms
proof (induction "length (frames s)" arbitrary: s rule: less_induct)
  case less
  show ?case
  proof (cases "handler_offset rt s e 0 \<noteq> INVALID_OFFSET \<or> \<not> may_unwind s 0")
    case True
    then show ?thesis using FindCatchBlockStackless_step [OF less.prems, of rt] less.prems(2)
      by (intro exI [of _ 0]) (auto simp: unwound_def)
  next
    case False
    then have len: "1 < length (frames s)" by (simp add: may_unwind_def)
    then have "length (frames (unwound s 1)) < length (frames s)" "frames (unwound s 1) \<noteq> []" by auto
    then obtain k where k: "k < length (frames (unwound s 1))"
      "FindCatchBlockStackless rt (unwound s 1) = Some (unwound (unwound s 1) k, handler_offset rt (unwound s 1) e k)"
      "\<forall>i < k. handler_offset rt (unwound s 1) e i = INVALID_OFFSET \<and> may_unwind (unwound s 1) i"
      "handler_offset rt (unwound s 1) e k \<noteq> INVALID_OFFSET \<or> \<not> may_unwind (unwound s 1) k"
      using less.hyps [of "unwound s 1"] less.prems(1) by auto
    have k1: "k + 1 < length (frames s)" using k(1) by simp
    have "\<forall>i < k + 1. handler_offset rt s e i = INVALID_OFFSET \<and> may_unwind s i"
    proof (intro allI impI)
      fix i assume i: "i < k + 1"
      show "handler_offset rt s e i = INVALID_OFFSET \<and> may_unwind s i"
      proof (cases i)
        case 0
        then show ?thesis using False by simp
      next
        case (Suc j)
        then show ?thesis using k(3) i k1 handler_offset_unwound [of j s rt e] may_unwind_unwound [of j s] by simp
      qed
    qed
    then show ?thesis
      using k(2,4) k1 False FindCatchBlockStackless_step [OF less.prems, of rt]
        handler_offset_unwound [OF k1] may_unwind_unwound [OF k1] unwound_unwound [OF k1]
      by (intro exI [of _ "k + 1"]) simp
  qed
qed

text \<open>Where the exception handler continues when the frame \<open>k\<close> has a catch block.\<close>

definition lands_at :: "rt \<Rightarrow> interp \<Rightarrow> exn \<Rightarrow> nat \<Rightarrow> interp \<Rightarrow> bool" where
  "lands_at rt s e k s' \<longleftrightarrow>
     tl (frames s') = drop (k + 1) (frames s) \<and> frame_vregs (hd (frames s')) = frame_vregs (frames s ! k)
     \<and> cur_inst s' = MethodInstructions rt (frame_method (frames s ! k)) + uint (handler_offset rt s e k)
     \<and> acc s' = SetReference (OBJECT_POINTER_SIZE rt) (rtExceptionObject rt e)
     \<and> pending s' = None \<and> opcodeExtension s' = 0 \<and> heap s' = heap s"

lemma raise_exn_sel [simp]:
  "pending (raise_exn rt e s) = Some e" "frames (raise_exn rt e s) = frames s" "heap (raise_exn rt e s) = heap s"
  "cur_inst (raise_exn rt e s) = cur_inst s" "acc (raise_exn rt e s) = acc s" "statics (raise_exn rt e s) = statics s"
  by (simp_all add: raise_exn_def MoveToExceptionHandler_def Throw_def)

lemma raise_dispatch: "GetExceptionOpcode rt (raise_exn rt e s) = of_nat (256 + NUM_PREFIXED rt)"
  by (simp add: GetExceptionOpcode_def raise_exn_def MoveToExceptionHandler_def GetPrimaryOpcode_def Throw_def)

text \<open>
  C8: a thrown exception reaches the nearest handler.  The instruction that raises it is dispatched to
  the exception handler, whose opcode follows all others; the search always returns and leaves exactly the
  frames above the nearest one with a catch block, asking each caller at the offset of its call, and it never leaves a frame that was entered
  from outside the interpreter loop, nor enters a boundary frame; the handler starts with the exception object as accumulator
  and nothing pending.
\<close>

theorem exception_reaches_nearest_handler:
  assumes "frames s \<noteq> []"
  shows "GetExceptionOpcode rt (raise_exn rt e s) = of_nat (256 + NUM_PREFIXED rt)
    \<and> (\<exists>k < length (frames s).
         (\<forall>i < k. handler_offset rt s e i = INVALID_OFFSET \<and> may_unwind s i)
         \<and> (if handler_offset rt s e k = INVALID_OFFSET
            then \<not> may_unwind s k \<and> ExceptionHandler rt (raise_exn rt e s) = Some (Inl (unwound (raise_exn rt e s) k))
            else \<exists>s'. ExceptionHandler rt (raise_exn rt e s) = Some (Inr s') \<and> lands_at rt s e k s'))"
proof -
  let ?s = "raise_exn rt e s"
  have h: "handler_offset rt ?s e k = handler_offset rt s e k" "may_unwind ?s k = may_unwind s k" for k
    by (simp_all add: handler_offset_def may_unwind_def)
  obtain k where k: "k < length (frames s)" "FindCatchBlockStackless rt ?s = Some (unwound ?s k, handler_offset rt s e k)"
    "\<forall>i < k. handler_offset rt s e i = INVALID_OFFSET \<and> may_unwind s i" "handler_offset rt s e k \<noteq> INVALID_OFFSET \<or> \<not> may_unwind s k"
    using FindCatchBlockStackless_unwinds [of ?s e rt] assms h by auto
  moreover have "drop k (frames s) = frames s ! k # drop (k + 1) (frames s)" using k(1) by (simp add: Cons_nth_drop_Suc)
  ultimately show ?thesis using raise_dispatch
    by (intro conjI exI [of _ k]) (auto simp: ExceptionHandler_def GetFrame_def SetFrame_def Let_def lands_at_def)
qed

definition ex_callee :: frame where
  "ex_callee = ex_frame\<lparr>frame_method := 1, IsStackless := True\<rparr>"

definition ex_nested :: interp where
  "ex_nested = ex_state\<lparr>frames := [ex_callee, ex_frame\<lparr>bcOffset := 20\<rparr>]\<rparr>"

theorem exception_reaches_nearest_handler_witness:
  "frames ex_nested \<noteq> [] \<and> handler_offset ex_rt ex_nested NullPointerException 0 = INVALID_OFFSET
   \<and> handler_offset ex_rt ex_nested NullPointerException 1 = 8
   \<and> (\<exists>s'. ExceptionHandler ex_rt (raise_exn ex_rt NullPointerException ex_nested) = Some (Inr s')
        \<and> lands_at ex_rt ex_nested NullPointerException 1 s')"
proof -
  have f: "frames ex_nested \<noteq> []" "length (frames ex_nested) = 2" by (simp_all add: ex_nested_def)
  have h: "handler_offset ex_rt ex_nested NullPointerException 0 = INVALID_OFFSET"
    "handler_offset ex_rt ex_nested NullPointerException 1 = 8" "may_unwind ex_nested 0"
    by (simp_all add: handler_offset_def may_unwind_def ex_nested_def ex_callee_def ex_defs)
  obtain k where k: "k < 2" "\<forall>i < k. handler_offset ex_rt ex_nested NullPointerException i = INVALID_OFFSET"
    "if handler_offset ex_rt ex_nested NullPointerException k = INVALID_OFFSET then \<not> may_unwind ex_nested k
     else \<exists>s'. ExceptionHandler ex_rt (raise_exn ex_rt NullPointerException ex_nested) = Some (Inr s')
       \<and> lands_at ex_rt ex_nested NullPointerException k s'"
    using exception_reaches_nearest_handler [OF f(1), of ex_rt NullPointerException] f(2) by (auto split: if_splits)
  then have "k = 1" using h by (cases k) (auto simp: INVALID_OFFSET_def)
  then show ?thesis using k(3) h f(1) by (simp add: INVALID_OFFSET_def)
qed

section \<open>Calls\<close>

text \<open>
  What a call passes, independently of the way it is encoded: the registers the instruction names, with the accumulator
  inserted at the position of its immediate, or before them the object under construction.
\<close>

definition call_args :: "call_format \<Rightarrow> bool \<Rightarrow> bc \<Rightarrow> vreg list \<Rightarrow> vreg \<Rightarrow> nat \<Rightarrow> vreg list" where
  "call_args FORMAT INITOBJ I cur ac num =
     (let named = (\<lambda>k. map (\<lambda>j. cur ! op_vreg I j) [0..<k]); p = nat (op_imm I 0);
          this = (if INITOBJ then [ac] else [])
      in case FORMAT of
           V4_V4_ID16 \<Rightarrow> this @ named 2
         | V4_V4_V4_V4_ID16 \<Rightarrow> this @ named 4
         | V4_IMM4_ID16 \<Rightarrow> take p (named 1) @ [ac] @ drop p (named 1)
         | V4_V4_V4_IMM4_ID16 \<Rightarrow> take p (named 3) @ [ac] @ drop p (named 3)
         | V8_ID16 \<Rightarrow> this @ map (\<lambda>i. cur ! (op_vreg I 0 + i)) [0..<num - length this])"

text \<open>The number of arguments a format can carry, and the registers it reads.\<close>

fun max_args :: "call_format \<Rightarrow> bool \<Rightarrow> nat \<Rightarrow> nat" where
  "max_args V4_V4_ID16 ini num = (if ini then 3 else 2)"
| "max_args V4_V4_V4_V4_ID16 ini num = (if ini then 5 else 4)"
| "max_args V4_IMM4_ID16 ini num = 2"
| "max_args V4_V4_V4_IMM4_ID16 ini num = 4"
| "max_args V8_ID16 ini num = num"

definition is_acc_format :: "call_format \<Rightarrow> bool" where
  "is_acc_format FORMAT \<longleftrightarrow> FORMAT = V4_IMM4_ID16 \<or> FORMAT = V4_V4_V4_IMM4_ID16"

definition readable :: "call_format \<Rightarrow> bool \<Rightarrow> bc \<Rightarrow> vreg list \<Rightarrow> nat \<Rightarrow> bool" where
  "readable FORMAT INITOBJ I cur num \<longleftrightarrow>
     (case FORMAT of
        V8_ID16 \<Rightarrow> op_vreg I 0 + (num - (if INITOBJ then 1 else 0)) \<le> length cur
      | V4_IMM4_ID16 \<Rightarrow> op_vreg I 0 < length cur \<and> 0 \<le> op_imm I 0 \<and> op_imm I 0 \<le> 1
      | V4_V4_ID16 \<Rightarrow> (\<forall>j < 2. op_vreg I j < length cur)
      | V4_V4_V4_IMM4_ID16 \<Rightarrow> (\<forall>j < 3. op_vreg I j < length cur) \<and> 0 \<le> op_imm I 0 \<and> op_imm I 0 \<le> 3
      | V4_V4_V4_V4_ID16 \<Rightarrow> (\<forall>j < 4. op_vreg I j < length cur))"

definition at_index :: "vreg list \<Rightarrow> nat \<Rightarrow> vreg list \<Rightarrow> vreg list" where
  "at_index xs n ys = take n ys @ xs @ drop (n + length xs) ys"

lemma at_index_Nil [simp]: "at_index [] n ys = ys"
  by (simp add: at_index_def)

lemma wr_at_index: "n < length ys \<Longrightarrow> wr ys n r = Some (at_index [r] n ys)"
  by (simp add: wr_def at_index_def upd_conv_take_nth_drop)

lemma wr_at_index_next:
  assumes "n + length xs < length ys" "k = n + length xs"
  shows "wr (at_index xs n ys) k r = Some (at_index (xs @ [r]) n ys)"
proof -
  have "(drop (n + length xs) ys)[0 := r] = r # drop (Suc (n + length xs)) ys"
    using assms(1) by (simp add: upd_conv_take_nth_drop drop_Suc tl_drop)
  then show ?thesis using assms by (simp add: wr_def at_index_def list_update_append min_absorb2)
qed

lemma copy_at_index:
  "n + length xs < length ys \<Longrightarrow> i < length cur \<Longrightarrow> k = n + length xs \<Longrightarrow>
     copy_reg cur i (at_index xs n ys) k = Some (at_index (xs @ [cur ! i]) n ys)"
  by (simp add: copy_reg_def rd_def wr_at_index_next)

lemma copy_range_at_index:
  "n + length xs + k \<le> length ys \<Longrightarrow> start + i + k \<le> length cur \<Longrightarrow> base + i = n + length xs \<Longrightarrow>
     copy_range cur start base i k (at_index xs n ys) = Some (at_index (xs @ map (\<lambda>j. cur ! (start + j)) [i..<i + k]) n ys)"
proof (induction k arbitrary: i xs)
  case 0
  then show ?case by simp
next
  case (Suc k)
  then have "copy_reg cur (start + i) (at_index xs n ys) (base + i) = Some (at_index (xs @ [cur ! (start + i)]) n ys)"
    by (intro copy_at_index) auto
  then show ?case using Suc.IH [of "xs @ [cur ! (start + i)]" "i + 1"] Suc.prems
    by (cases "k = 0") (simp_all add: upt_conv_Cons)
qed

lemma all_less: "(\<forall>j < 2. P j) \<longleftrightarrow> P 0 \<and> P (1 :: nat)" "(\<forall>j < 3. P j) \<longleftrightarrow> P 0 \<and> P 1 \<and> P (2 :: nat)"
  "(\<forall>j < 4. P j) \<longleftrightarrow> P 0 \<and> P 1 \<and> P 2 \<and> P (3 :: nat)"
  by (auto simp: numeral_eq_Suc less_Suc_eq)

lemma upt_small: "[0..<1] = [0 :: nat]" "[0..<2] = [0, 1 :: nat]" "[0..<3] = [0, 1, 2 :: nat]" "[0..<4] = [0, 1, 2, 3 :: nat]"
  by (simp_all add: upt_rec numeral_eq_Suc)

lemma CopyArguments_args:
  assumes "n + max_args FORMAT ini num \<le> length vs" "readable FORMAT ini I cur num" "0 < num" "is_acc_format FORMAT \<Longrightarrow> \<not> ini"
  shows "CopyArguments FORMAT (FORMAT = V8_ID16) (is_acc_format FORMAT) ini I cur ac n num num (at_index [] n vs) =
    Some (at_index (call_args FORMAT ini I cur ac num) n vs)"
proof (cases FORMAT)
  case V4_V4_ID16
  then show ?thesis using assms
    by (auto simp: CopyArguments_def CopyCallShortArguments_def call_args_def readable_def is_acc_format_def all_less
        copy_at_index wr_at_index_next upt_small simp del: at_index_Nil)
next
  case V4_IMM4_ID16
  then have "op_imm I 0 = 0 \<or> op_imm I 0 = 1" using assms(2) by (auto simp: readable_def)
  then show ?thesis using assms V4_IMM4_ID16
    by (auto simp: CopyArguments_def CopyCallAccShortArguments_def call_args_def readable_def is_acc_format_def
        copy_at_index wr_at_index_next upt_small simp del: at_index_Nil)
next
  case V4_V4_V4_V4_ID16
  then show ?thesis using assms
    by (auto simp: CopyArguments_def CopyCallArguments_def call_args_def readable_def is_acc_format_def all_less
        copy_at_index wr_at_index_next upt_small simp del: at_index_Nil)
next
  case V4_V4_V4_IMM4_ID16
  then have "op_imm I 0 = 0 \<or> op_imm I 0 = 1 \<or> op_imm I 0 = 2 \<or> op_imm I 0 = 3" using assms(2) by (auto simp: readable_def)
  then show ?thesis using assms V4_V4_V4_IMM4_ID16
    by (auto simp: CopyArguments_def CopyCallAccArguments_def call_args_def readable_def is_acc_format_def all_less Let_def
        copy_at_index wr_at_index_next upt_small simp del: at_index_Nil)
next
  case V8_ID16
  then show ?thesis using assms
    by (auto simp: CopyArguments_def CopyRangeArguments_def call_args_def readable_def is_acc_format_def Let_def
        copy_range_at_index wr_at_index_next simp del: at_index_Nil)
qed

lemma length_call_args: "readable FORMAT ini I cur num \<Longrightarrow> (is_acc_format FORMAT \<Longrightarrow> \<not> ini) \<Longrightarrow> 0 < num \<Longrightarrow>
    length (call_args FORMAT ini I cur ac num) = max_args FORMAT ini num"
  by (cases FORMAT) (auto simp: call_args_def readable_def is_acc_format_def Let_def)

lemma call_args_this:
  assumes "ini" "\<not> is_acc_format FORMAT" "0 < num"
  shows "0 < max_args FORMAT ini num" "call_args FORMAT ini I cur ac num ! 0 = ac"
  using assms by (cases FORMAT; simp add: call_args_def is_acc_format_def Let_def)+

lemma max_args_fit: "(is_acc_format FORMAT \<Longrightarrow> \<not> ini) \<Longrightarrow> n + max_args FORMAT ini num \<le> frame_nregs FORMAT ini n num"
  by (cases FORMAT) (auto simp: frame_nregs_def is_acc_format_def)

lemma nth_at_index:
  "n + length xs \<le> length ys \<Longrightarrow> length (at_index xs n ys) = length ys"
  "n + length xs \<le> length ys \<Longrightarrow> i < n \<Longrightarrow> at_index xs n ys ! i = ys ! i"
  "n + length xs \<le> length ys \<Longrightarrow> i < length xs \<Longrightarrow> at_index xs n ys ! (n + i) = xs ! i"
  by (auto simp: at_index_def nth_append)

text \<open>The frame of the callee.\<close>

definition callee_frame :: "call_format \<Rightarrow> bool \<Rightarrow> nat \<Rightarrow> rt \<Rightarrow> bc \<Rightarrow> frame \<Rightarrow> vreg \<Rightarrow> frame" where
  "callee_frame FORMAT ini m rt I f ac =
     (let num = MethodNumArgs rt m; n = MethodNumVregs rt m;
          nf = new_frame m (frame_nregs FORMAT ini n num) num
      in nf\<lparr>frame_acc := ac, IsStackless := True, IsInitobj := ini, frame_inst := MethodInstructions rt m,
            frame_vregs := at_index (if num = 0 then [] else call_args FORMAT ini I (frame_vregs f) ac num) n (frame_vregs nf)\<rparr>)"

lemma CallInterpreterStackless_frame:
  assumes "frames s = f # rest" "FrameAvailable rt s (frame_nregs FORMAT ini (MethodNumVregs rt m) (MethodNumArgs rt m))"
    "MethodNumArgs rt m = 0 \<or> readable FORMAT ini I (frame_vregs f) (MethodNumArgs rt m)" "is_acc_format FORMAT \<Longrightarrow> \<not> ini"
  shows "CallInterpreterStackless FORMAT (FORMAT = V8_ID16) (is_acc_format FORMAT) ini m rt I s =
    Some (s\<lparr>frames := callee_frame FORMAT ini m rt I f (acc s) # f\<lparr>nextInst := cur_inst s + op_size I\<rparr> # rest,
            cur_inst := MethodInstructions rt m\<rparr>)"
proof -
  let ?num = "MethodNumArgs rt m" and ?n = "MethodNumVregs rt m"
  let ?vs = "replicate (frame_nregs FORMAT ini ?n ?num) \<lparr>payload = 0, mirror = 0\<rparr>"
  have "CopyArguments FORMAT (FORMAT = V8_ID16) (is_acc_format FORMAT) ini I (frame_vregs f) (acc s) ?n ?num ?num ?vs =
      Some (at_index (if ?num = 0 then [] else call_args FORMAT ini I (frame_vregs f) (acc s) ?num) ?n ?vs)"
    using CopyArguments_args [of ?n FORMAT ini ?num ?vs I "frame_vregs f" "acc s"] assms(3,4) max_args_fit [of FORMAT ini ?n ?num]
    by (cases "?num = 0") (auto simp: CopyArguments_def)
  then show ?thesis using assms(1,2)
    by (simp add: CallInterpreterStackless_def CreateAndSetFrame_def GetFrame_def SetFrame_def MoveToNextInst_def Let_def new_frame_def
        callee_frame_def)
qed

text \<open>
  What a return instruction leaves to the caller, from the state \<open>t\<close> of the callee: the accumulator as a 32-bit integer,
  as a 64-bit value, as a reference.
\<close>

definition return_values :: "rt \<Rightarrow> interp \<Rightarrow> (handler \<times> vreg) list" where
  "return_values rt t =
     [(HandleReturn, SetPrimitive (IntV (Get_i32 (payload (acc t))))),
      (HandleReturnWide, SetPrimitive (IntV (sint (payload (acc t))))),
      (HandleReturnObj, SetReference (OBJECT_POINTER_SIZE rt) (GetAccRef rt t))]"

text \<open>
  Whatever the callee did above the frame of the caller: a return instruction of a frame of the same kind as \<open>nf\<close> without a pending
  exception drops this frame only and goes on at \<open>pc\<close>.  The accumulator is the returned value, or, after a constructor,
  the reference \<open>ob\<close>.
\<close>

definition returns_to :: "rt \<Rightarrow> frame \<Rightarrow> frame \<Rightarrow> frame list \<Rightarrow> int \<Rightarrow> vreg \<Rightarrow> bool" where
  "returns_to rt nf caller rest pc ob \<longleftrightarrow>
     (\<forall>t g J h v. frames t = g # caller # rest \<longrightarrow> IsStackless g = IsStackless nf \<longrightarrow> IsInitobj g = IsInitobj nf \<longrightarrow> pending t = None \<longrightarrow>
        (h, v) \<in> set (return_values rt t) \<longrightarrow>
        Option.bind (h rt J t) (HandleReturnStackless rt) =
          Some (t\<lparr>frames := caller # rest, cur_inst := pc, acc := (if IsInitobj nf then ob else v)\<rparr>))
     \<and> (IsInitobj nf \<longrightarrow> (\<forall>t g J. frames t = g # caller # rest \<longrightarrow> IsStackless g = IsStackless nf \<longrightarrow> IsInitobj g \<longrightarrow> pending t = None \<longrightarrow>
        Option.bind (HandleReturnVoid rt J t) (HandleReturnStackless rt) =
          Some (t\<lparr>frames := caller # rest, cur_inst := pc, acc := ob\<rparr>)))"

lemma returns_to_caller:
  assumes "IsStackless nf" "nextInst caller = pc" "IsInitobj nf \<Longrightarrow> frame_acc caller = ob"
  shows "returns_to rt nf caller rest pc ob"
  using assms
  by (auto simp: returns_to_def return_values_def HandleReturn_def HandleReturnWide_def HandleReturnObj_def HandleReturnVoid_def
      SetFrameAcc_def GetFrame_def SetFrame_def HandleReturnStackless_def)

text \<open>
  The allocation of an instruction that creates an object: \<open>m\<close> is the constructor, taken from the cache of the interpreter or
  resolved, and \<open>(s1, ob)\<close> is what the allocator gives for its class.
\<close>

definition allocates :: "rt \<Rightarrow> bc \<Rightarrow> interp \<Rightarrow> nat \<Rightarrow> interp \<Rightarrow> u64 \<Rightarrow> bool" where
  "allocates rt I s0 m s1 ob \<longleftrightarrow>
     (\<exists>f k sr su. GetFrame s0 = Some f \<and> \<not> IsArrayClass rt k \<and> \<not> IsStringClass rt k
        \<and> (if Cache_Get s0 (cur_inst s0) (frame_method f) = Some m then k = MethodClass rt m \<and> sr = s0
           else Cache_Get s0 (cur_inst s0) (frame_method f) = None \<and> rtMethodClass rt (frame_method f) (op_id I) = Some k
             \<and> ResolveMethod rt (op_id I) (SetAcc (SetPrimitive (IntV 0)) s0) = Some (sr, Some m))
        \<and> UpdateBytecodeOffset sr = Some su \<and> rtCreateObject rt su k = (s1, ob) \<and> ob \<noteq> 0)"

lemma InitializeObject_allocates:
  assumes "allocates rt I s0 m s1 ob" "frames s1 = f # rest"
  shows "InitializeObject FORMAT rt I s0 =
    HandleCall_method FORMAT (FORMAT = V8_ID16) False True m rt I
      (s1\<lparr>acc := SetReference (OBJECT_POINTER_SIZE rt) ob,
          frames := f\<lparr>frame_acc := SetReference (OBJECT_POINTER_SIZE rt) ob\<rparr> # rest\<rparr>)"
  using assms
  by (auto simp: allocates_def InitializeObject_def InitializeObject_class_def SaveAcc_def SetAcc_def GetFrame_def SetFrame_def
      split: if_splits)

text \<open>
  C7: calls and returns.  An interpreted call (no safepoint is pending, the method has no compiled code, the frame can be allocated and
  the instruction names registers of the caller), in each of its formats, pushes a frame in which argument \<open>i\<close> is register
  \<open>number of registers + i\<close>, the other registers are cleared, and no write leaves the frame; the caller is
  unchanged but for the address of the next instruction.  A return instruction of the callee, whatever it did above the frame of the
  caller, resumes the caller at that instruction with the returned value as accumulator.  When the call is the constructor call of
  \<^verbatim>\<open>InitializeObject\<close>, the object the allocator gave is the first argument of the constructor, is saved in the frame of the
  caller, and is the accumulator of the caller after the return, whatever the constructor returned.
\<close>

theorem call_passes_arguments_and_returns:
  assumes "frames s = f # rest" "\<not> TestAllFlags rt s" "\<not> HasCompiledCode rt s m"
    "FrameAvailable rt s (frame_nregs FORMAT ini (MethodNumVregs rt m) (MethodNumArgs rt m))"
    "readable FORMAT ini I (frame_vregs f) (MethodNumArgs rt m)" "\<not> (is_acc_format FORMAT \<and> ini)"
    "caller = f\<lparr>nextInst := cur_inst s + op_size I\<rparr>"
  shows "\<exists>nf. HandleCall_method FORMAT (FORMAT = V8_ID16) (is_acc_format FORMAT) ini m rt I s =
        Some (s\<lparr>frames := nf # caller # rest, cur_inst := MethodInstructions rt m\<rparr>)
    \<and> frame_method nf = m \<and> frame_acc nf = acc s \<and> IsInitobj nf = ini
    \<and> length (frame_vregs nf) = frame_nregs FORMAT ini (MethodNumVregs rt m) (MethodNumArgs rt m)
    \<and> (\<forall>i < MethodNumVregs rt m. frame_vregs nf ! i = \<lparr>payload = 0, mirror = 0\<rparr>)
    \<and> (\<forall>i < MethodNumArgs rt m. i < max_args FORMAT ini (MethodNumArgs rt m) \<longrightarrow>
         frame_vregs nf ! (MethodNumVregs rt m + i) = call_args FORMAT ini I (frame_vregs f) (acc s) (MethodNumArgs rt m) ! i)
    \<and> returns_to rt nf caller rest (cur_inst s + op_size I) (frame_acc f)
    \<and> (\<forall>s0 s1 fc ob. ini \<longrightarrow> allocates rt I s0 m s1 ob \<longrightarrow> frames s1 = fc # rest \<longrightarrow>
         s = s1\<lparr>acc := SetReference (OBJECT_POINTER_SIZE rt) ob,
                frames := fc\<lparr>frame_acc := SetReference (OBJECT_POINTER_SIZE rt) ob\<rparr> # rest\<rparr> \<longrightarrow>
         InitializeObject FORMAT rt I s0 = Some (s\<lparr>frames := nf # caller # rest, cur_inst := MethodInstructions rt m\<rparr>)
         \<and> (0 < MethodNumArgs rt m \<longrightarrow> frame_vregs nf ! MethodNumVregs rt m = SetReference (OBJECT_POINTER_SIZE rt) ob)
         \<and> returns_to rt nf caller rest (cur_inst s + op_size I) (SetReference (OBJECT_POINTER_SIZE rt) ob))"
proof -
  have af: "is_acc_format FORMAT \<Longrightarrow> \<not> ini" using assms(6) by blast
  let ?num = "MethodNumArgs rt m" and ?n = "MethodNumVregs rt m"
  let ?nf = "callee_frame FORMAT ini m rt I f (acc s)" and ?args = "if ?num = 0 then [] else call_args FORMAT ini I (frame_vregs f) (acc s) ?num"
  let ?vs = "replicate (frame_nregs FORMAT ini ?n ?num) \<lparr>payload = 0, mirror = 0\<rparr>"
  have vs: "frame_vregs ?nf = at_index ?args ?n ?vs" by (simp add: callee_frame_def new_frame_def Let_def)
  have len: "?n + length ?args \<le> length ?vs" "0 < ?num \<Longrightarrow> length ?args = max_args FORMAT ini ?num"
    using max_args_fit [of FORMAT ini ?n ?num] length_call_args [OF assms(5) af] af by (auto intro: order.trans [rotated])
  have call: "HandleCall_method FORMAT (FORMAT = V8_ID16) (is_acc_format FORMAT) ini m rt I s =
        Some (s\<lparr>frames := ?nf # caller # rest, cur_inst := MethodInstructions rt m\<rparr>)"
    using CallInterpreterStackless_frame [OF assms(1,4) _ af] assms(2,3,5,7)
    by (simp add: HandleCall_method_def HandleCallPrologue_def)
  have nf: "frame_method ?nf = m" "frame_acc ?nf = acc s" "IsStackless ?nf" "IsInitobj ?nf = ini"
    by (simp_all add: callee_frame_def new_frame_def Let_def)
  have "length (frame_vregs ?nf) = frame_nregs FORMAT ini ?n ?num" using nth_at_index(1) [OF len(1)] vs by simp
  moreover have "\<forall>i < ?n. frame_vregs ?nf ! i = \<lparr>payload = 0, mirror = 0\<rparr>" using nth_at_index(2) [OF len(1)] vs len(1) by simp
  moreover have args: "frame_vregs ?nf ! (?n + i) = call_args FORMAT ini I (frame_vregs f) (acc s) ?num ! i"
    if "i < ?num" "i < max_args FORMAT ini ?num" for i
    using nth_at_index(3) [OF len(1)] vs len(2) that by (cases "?num = 0") auto
  moreover have ret: "returns_to rt ?nf caller rest (cur_inst s + op_size I) (frame_acc f)"
    using assms(7) nf(3) by (intro returns_to_caller) simp_all
  moreover have "InitializeObject FORMAT rt I s0 = Some (s\<lparr>frames := ?nf # caller # rest, cur_inst := MethodInstructions rt m\<rparr>)
      \<and> (0 < ?num \<longrightarrow> frame_vregs ?nf ! ?n = SetReference (OBJECT_POINTER_SIZE rt) ob)
      \<and> returns_to rt ?nf caller rest (cur_inst s + op_size I) (SetReference (OBJECT_POINTER_SIZE rt) ob)"
    if ini: "ini" and al: "allocates rt I s0 m s1 ob" "frames s1 = fc # rest"
      and s: "s = s1\<lparr>acc := SetReference (OBJECT_POINTER_SIZE rt) ob,
                frames := fc\<lparr>frame_acc := SetReference (OBJECT_POINTER_SIZE rt) ob\<rparr> # rest\<rparr>" for s0 s1 fc ob
  proof -
    have acc: "acc s = SetReference (OBJECT_POINTER_SIZE rt) ob" "frame_acc f = SetReference (OBJECT_POINTER_SIZE rt) ob"
      using s assms(1) by auto
    have "\<not> is_acc_format FORMAT" using af ini by blast
    then have "InitializeObject FORMAT rt I s0 = Some (s\<lparr>frames := ?nf # caller # rest, cur_inst := MethodInstructions rt m\<rparr>)"
      using InitializeObject_allocates [OF al, of FORMAT] call ini s by simp
    moreover have "frame_vregs ?nf ! ?n = SetReference (OBJECT_POINTER_SIZE rt) ob" if "0 < ?num"
      using args [of 0] call_args_this [OF ini \<open>\<not> is_acc_format FORMAT\<close> that] that acc(1) by simp
    ultimately show ?thesis using ret acc(2) by simp
  qed
  ultimately show ?thesis using call nf by (intro exI [of _ ?nf]) blast
qed

text \<open>The state in which the constructor of the witness is in the cache, and the same state after the allocation.\<close>

definition ex_ctor :: interp where
  "ex_ctor = ex_state\<lparr>cache := (\<lambda>_. Some (100, 0, 3))\<rparr>"

definition ex_created :: interp where
  "ex_created = ex_ctor\<lparr>frames := [ex_frame\<lparr>bcOffset := 100\<rparr>],
     heap := (heap ex_state)(64 \<mapsto> \<lparr>obj_class = 3, obj_fields = (\<lambda>_. 0), obj_elems = []\<rparr>)\<rparr>"

definition ex_saved :: interp where
  "ex_saved = ex_created\<lparr>acc := SetReference 4 64, frames := [ex_frame\<lparr>bcOffset := 100, frame_acc := SetReference 4 64\<rparr>]\<rparr>"

theorem call_passes_arguments_and_returns_witness:
  "allocates ex_rt ex_bc ex_ctor 3 ex_created 64 \<and> readable V4_V4_ID16 True ex_bc (frame_vregs ex_frame) 2
   \<and> (\<exists>nf caller. InitializeObject V4_V4_ID16 ex_rt ex_bc ex_ctor = Some (ex_saved\<lparr>frames := [nf, caller], cur_inst := 3000\<rparr>)
        \<and> frame_vregs nf ! 1 = SetReference 4 64 \<and> frame_vregs nf ! 2 = ex_vreg 7
        \<and> Option.bind (HandleReturnVoid ex_rt ex_bc (ex_state\<lparr>frames := [nf, caller]\<rparr>)) (HandleReturnStackless ex_rt) =
            Some (ex_state\<lparr>frames := [caller], cur_inst := 102, acc := SetReference 4 64\<rparr>))"
proof -
  let ?f = "ex_frame\<lparr>bcOffset := 100, frame_acc := SetReference 4 64\<rparr>"
  let ?c = "?f\<lparr>nextInst := 102\<rparr>"
  have al: "allocates ex_rt ex_bc ex_ctor 3 ex_created 64"
    by (simp add: allocates_def ex_ctor_def ex_created_def ex_defs ex_alloc_def Cache_Get_def GetFrame_def UpdateBytecodeOffset_def
        GetBytecodeOffset_def SetFrame_def)
  have r: "readable V4_V4_ID16 True ex_bc (frame_vregs ex_frame) 2" by (simp add: readable_def ex_defs all_less)
  have fr: "frames ex_saved = [?f]" "frames ex_created = [ex_frame\<lparr>bcOffset := 100\<rparr>]" "pending ex_state = None"
    and sv: "ex_saved = ex_created\<lparr>acc := SetReference 4 64, frames := [?f]\<rparr>"
    by (simp_all add: ex_saved_def ex_created_def ex_state_def)
  have rt: "MethodNumArgs ex_rt 3 = 2" "MethodNumVregs ex_rt 3 = 1" "MethodInstructions ex_rt 3 = 3000" "OBJECT_POINTER_SIZE ex_rt = 4"
    "FrameAvailable ex_rt ex_saved n" "\<not> TestAllFlags ex_rt ex_saved" "\<not> HasCompiledCode ex_rt ex_saved 3"
    "cur_inst ex_saved + op_size ex_bc = 102" for n
    by (simp_all add: ex_defs ex_saved_def ex_created_def ex_ctor_def)
  have args: "call_args V4_V4_ID16 True ex_bc (frame_vregs ex_frame) (SetReference 4 64) 2 ! 1 = ex_vreg 7"
    by (simp add: call_args_def upt_small ex_bc_def ex_frame_def)
  have r': "readable V4_V4_ID16 True ex_bc (frame_vregs ?f) (MethodNumArgs ex_rt 3)" using r rt(1) by simp
  have af: "\<not> (is_acc_format V4_V4_ID16 \<and> True)" by (simp add: is_acc_format_def)
  obtain nf where nf: "IsInitobj nf"
    "\<forall>i < 2. i < max_args V4_V4_ID16 True 2 \<longrightarrow>
       frame_vregs nf ! (1 + i) = call_args V4_V4_ID16 True ex_bc (frame_vregs ?f) (acc ex_saved) 2 ! i"
    and new: "\<forall>s0 s1 fc ob. True \<longrightarrow> allocates ex_rt ex_bc s0 3 s1 ob \<longrightarrow> frames s1 = [fc] \<longrightarrow>
         ex_saved = s1\<lparr>acc := SetReference 4 ob, frames := [fc\<lparr>frame_acc := SetReference 4 ob\<rparr>]\<rparr> \<longrightarrow>
         InitializeObject V4_V4_ID16 ex_rt ex_bc s0 = Some (ex_saved\<lparr>frames := [nf, ?c], cur_inst := 3000\<rparr>)
         \<and> (0 < (2 :: nat) \<longrightarrow> frame_vregs nf ! 1 = SetReference 4 ob)
         \<and> returns_to ex_rt nf ?c [] 102 (SetReference 4 ob)"
    using call_passes_arguments_and_returns [OF fr(1) rt(6,7,5) r' af refl, unfolded rt(1-4,8)] by (elim exE conjE) (rule that; simp only:)
  have "InitializeObject V4_V4_ID16 ex_rt ex_bc ex_ctor = Some (ex_saved\<lparr>frames := [nf, ?c], cur_inst := 3000\<rparr>)"
    "frame_vregs nf ! 1 = SetReference 4 64" and ret: "returns_to ex_rt nf ?c [] 102 (SetReference 4 64)"
    using new [rule_format, OF _ al fr(2)] sv by simp_all
  moreover have "frame_vregs nf ! 2 = ex_vreg 7"
    using nf(2) [rule_format, of 1] args by (simp add: numeral_2_eq_2 ex_saved_def)
  moreover have "Option.bind (HandleReturnVoid ex_rt ex_bc (ex_state\<lparr>frames := [nf, ?c]\<rparr>)) (HandleReturnStackless ex_rt) =
      Some (ex_state\<lparr>frames := [?c], cur_inst := 102, acc := SetReference 4 64\<rparr>)"
    using nf(1) ret fr(3) unfolding returns_to_def
    by simp
  ultimately show ?thesis using al r by blast
qed

end
