(* ===== verification/InterpreterSafe.thy ===== *)
theory InterpreterSafe
  imports InterpreterCalls
begin

unbundle bit_operations_syntax

text \<open>
  Tags and roots of the interpreter: what the garbage collector relies on when it walks the frames.  A
  register whose tag says object holds null or the address of an object, and so do the reference fields, the
  elements of reference arrays, the static reference fields and the objects of the classes.  Each handler is listed with the check a verified
  program passes before it runs, and preserves this invariant.
\<close>

section \<open>The invariant\<close>

definition ref_ok :: "interp \<Rightarrow> u64 \<Rightarrow> bool" where
  "ref_ok s a \<longleftrightarrow> a = 0 \<or> heap s a \<noteq> None"

definition reg_ok :: "rt \<Rightarrow> interp \<Rightarrow> vreg \<Rightarrow> bool" where
  "reg_ok rt s r \<longleftrightarrow>
     mirror r \<in> {PRIMITIVE_TYPE, GC_OBJECT_TYPE}
     \<and> (HasObject r \<longrightarrow> ref_ok s (GetReference (OBJECT_POINTER_SIZE rt) (payload r)))"

definition frame_ok :: "rt \<Rightarrow> interp \<Rightarrow> frame \<Rightarrow> bool" where
  "frame_ok rt s f \<longleftrightarrow> reg_ok rt s (frame_acc f) \<and> (\<forall>r \<in> set (frame_vregs f). reg_ok rt s r)"

text \<open>\<open>K\<close> tells the classes of arrays of references.\<close>

definition obj_ok :: "rt \<Rightarrow> (nat \<Rightarrow> bool) \<Rightarrow> interp \<Rightarrow> obj \<Rightarrow> bool" where
  "obj_ok rt K s ob \<longleftrightarrow>
     (K (obj_class ob) \<longrightarrow> (\<forall>e \<in> set (obj_elems ob). ref_ok s (GetReference (OBJECT_POINTER_SIZE rt) e)))
     \<and> (\<forall>fd. rtFieldType rt fd = REFERENCE_t \<longrightarrow> ref_ok s (GetReference (OBJECT_POINTER_SIZE rt) (obj_fields ob fd)))"

definition roots_ok :: "rt \<Rightarrow> (nat \<Rightarrow> bool) \<Rightarrow> interp \<Rightarrow> bool" where
  "roots_ok rt K s \<longleftrightarrow>
     reg_ok rt s (acc s) \<and> (\<forall>f \<in> set (frames s). frame_ok rt s f)
     \<and> (\<forall>a ob. heap s a = Some ob \<longrightarrow> obj_ok rt K s ob)
     \<and> (\<forall>fd. rtFieldType rt fd = REFERENCE_t \<longrightarrow> ref_ok s (GetReference (OBJECT_POINTER_SIZE rt) (statics s fd)))
     \<and> (\<forall>k. ref_ok s (GetReference (OBJECT_POINTER_SIZE rt) (rtManagedObject rt k)))"

text \<open>The tags of the registers, frame by frame.\<close>

definition tags :: "interp \<Rightarrow> (u64 list \<times> u64) list" where
  "tags s = map (\<lambda>f. (map mirror (frame_vregs f), mirror (frame_acc f))) (frames s)"

text \<open>
  What the interpreter relies on when it calls the runtime: objects may move and new ones appear, but registers keep their tags and
  the roots stay good; a returned object is null or on the heap.
\<close>

definition keeps :: "rt \<Rightarrow> (nat \<Rightarrow> bool) \<Rightarrow> interp \<Rightarrow> interp \<Rightarrow> bool" where
  "keeps rt K s s' \<longleftrightarrow> (roots_ok rt K s \<longrightarrow> roots_ok rt K s') \<and> tags s' = tags s"

definition gives :: "rt \<Rightarrow> (nat \<Rightarrow> bool) \<Rightarrow> interp \<Rightarrow> interp \<times> u64 \<Rightarrow> bool" where
  "gives rt K s r \<longleftrightarrow>
     keeps rt K s (fst r) \<and> (roots_ok rt K s \<longrightarrow> ref_ok (fst r) (GetReference (OBJECT_POINTER_SIZE rt) (snd r)))"

definition rt_ok :: "rt \<Rightarrow> (nat \<Rightarrow> bool) \<Rightarrow> bool" where
  "rt_ok rt K \<longleftrightarrow>
     (\<forall>s. keeps rt K s (Safepoint rt s))
     \<and> (\<forall>s m i. keeps rt K s (fst (rtResolveField rt s m i)) \<and> keeps rt K s (fst (rtResolveClass rt s m i))
          \<and> keeps rt K s (fst (rtResolveMethod rt s m i)) \<and> gives rt K s (rtResolveLiteralArray rt s m i))
     \<and> (\<forall>s k n. gives rt K s (rtCreateArray rt s k n))
     \<and> (\<forall>s k. gives rt K s (rtCreateObject rt s k))
     \<and> (\<forall>s I k n. gives rt K s (rtCreateMultiArray rt s I k n))
     \<and> (\<forall>s m a. gives rt K s (rtCreateString rt s m a))
     \<and> (\<forall>s i. roots_ok rt K s \<longrightarrow> roots_ok rt K (rtHandleLdaStr rt s i))
     \<and> (\<forall>s m. roots_ok rt K s \<longrightarrow> roots_ok rt K (CompiledCodeBridge rt s m))"

section \<open>Registers\<close>

lemma GetReference_Set_ref [simp]: "GetReference ops (Set_ref ops a) = GetReference ops a"
  unfolding GetReference_def Set_ref_def by (auto simp: bit_simps min_absorb2 intro!: bit_word_eqI)

lemma GetReference_idem [simp]: "GetReference ops (GetReference ops a) = GetReference ops a"
  unfolding GetReference_def by (auto simp: bit_simps intro!: bit_word_eqI)

lemma tag_neq [simp]: "PRIMITIVE_TYPE \<noteq> GC_OBJECT_TYPE" "GC_OBJECT_TYPE \<noteq> PRIMITIVE_TYPE"
  by (simp_all add: PRIMITIVE_TYPE_def GC_OBJECT_TYPE_def)

lemma reg_ok_prim [simp]: "mirror r = PRIMITIVE_TYPE \<Longrightarrow> reg_ok rt s r"
  by (simp add: reg_ok_def HasObject_def)

lemma mirror_simps [simp]:
  "mirror (SetPrimitive v) = PRIMITIVE_TYPE" "mirror (MovePrimitive r) = PRIMITIVE_TYPE" "mirror (Set_payload v r) = mirror r"
  by (simp_all add: SetPrimitive_def MovePrimitive_def Set_payload_def)

lemma reg_ok_SetReference [simp]:
  "reg_ok rt s (SetReference (OBJECT_POINTER_SIZE rt) a) \<longleftrightarrow> ref_ok s (GetReference (OBJECT_POINTER_SIZE rt) a)"
  by (simp add: reg_ok_def SetReference_def HasObject_def)

lemma reg_ok_MoveReference: "reg_ok rt s r \<Longrightarrow> HasObject r \<Longrightarrow> reg_ok rt s (MoveReference r)"
  by (simp add: reg_ok_def MoveReference_def HasObject_def)

lemma reg_ok_ref: "reg_ok rt s r \<Longrightarrow> HasObject r \<Longrightarrow> ref_ok s (GetReference (OBJECT_POINTER_SIZE rt) (payload r))"
  by (simp add: reg_ok_def)

lemma ref_ok_0 [simp]: "ref_ok s 0" "GetReference ops 0 = 0"
  by (simp_all add: ref_ok_def GetReference_def)

text \<open>The invariant depends on the heap only through its domain and contents, and not on the position in the code.\<close>

lemma ok_cong:
  "heap s' = heap s \<Longrightarrow> ref_ok s' = ref_ok s" "heap s' = heap s \<Longrightarrow> reg_ok rt s' = reg_ok rt s"
  "heap s' = heap s \<Longrightarrow> frame_ok rt s' = frame_ok rt s" "heap s' = heap s \<Longrightarrow> obj_ok rt K s' = obj_ok rt K s"
  by (auto simp: ref_ok_def reg_ok_def frame_ok_def obj_ok_def fun_eq_iff)

lemma roots_ok_cong:
  assumes "heap s' = heap s" "statics s' = statics s"
  shows "roots_ok rt K s' \<longleftrightarrow> reg_ok rt s (acc s') \<and> (\<forall>f \<in> set (frames s'). frame_ok rt s f)
    \<and> (\<forall>a ob. heap s a = Some ob \<longrightarrow> obj_ok rt K s ob)
    \<and> (\<forall>fd. rtFieldType rt fd = REFERENCE_t \<longrightarrow> ref_ok s (GetReference (OBJECT_POINTER_SIZE rt) (statics s fd)))
    \<and> (\<forall>k. ref_ok s (GetReference (OBJECT_POINTER_SIZE rt) (rtManagedObject rt k)))"
  using ok_cong [OF assms(1)] assms by (simp add: roots_ok_def)

lemma roots_ok_same:
  "heap s' = heap s \<Longrightarrow> statics s' = statics s \<Longrightarrow> acc s' = acc s \<Longrightarrow> frames s' = frames s \<Longrightarrow>
     roots_ok rt K s' = roots_ok rt K s"
  by (simp only: roots_ok_cong [of s' s] roots_ok_cong [of s s])

lemma roots_ok_moves [simp]:
  "roots_ok rt K (MoveToNextInst d I s) = roots_ok rt K s" "roots_ok rt K (JumpToInst off s) = roots_ok rt K s"
  "roots_ok rt K (MoveToExceptionHandler rt' s) = roots_ok rt K s" "roots_ok rt K (Throw e s) = roots_ok rt K s"
  "roots_ok rt K (raise_exn rt' e s) = roots_ok rt K s" "roots_ok rt K (s\<lparr>cur_inst := pc\<rparr>) = roots_ok rt K s"
  "roots_ok rt K (Cache_Set pc it m s) = roots_ok rt K s"
  by (rule roots_ok_same; simp add: MoveToNextInst_def JumpToInst_def MoveToExceptionHandler_def Throw_def raise_exn_def
      Cache_Set_def)+

lemma roots_okD:
  assumes "roots_ok rt K s"
  shows "reg_ok rt s (acc s)" "f \<in> set (frames s) \<Longrightarrow> frame_ok rt s f" "heap s a = Some ob \<Longrightarrow> obj_ok rt K s ob"
    "rtFieldType rt fd = REFERENCE_t \<Longrightarrow> ref_ok s (GetReference (OBJECT_POINTER_SIZE rt) (statics s fd))"
    "ref_ok s (GetReference (OBJECT_POINTER_SIZE rt) (rtManagedObject rt k))"
  using assms by (auto simp: roots_ok_def)

lemma roots_ok_SetAcc: "roots_ok rt K s \<Longrightarrow> reg_ok rt s r \<Longrightarrow> roots_ok rt K (SetAcc r s)"
  by (subst roots_ok_cong [of _ s]) (auto simp: SetAcc_def dest: roots_okD)

lemma GetFrame_Some: "GetFrame s = Some f \<Longrightarrow> frames s = f # tl (frames s)"
  by (auto simp: GetFrame_def split: list.splits)

lemma roots_ok_SetFrame:
  assumes "roots_ok rt K s" "GetFrame s = Some f" "frame_ok rt s f'"
  shows "roots_ok rt K (SetFrame s f')"
proof -
  have "set (tl (frames s)) \<subseteq> set (frames s)" by (cases "frames s") auto
  then show ?thesis using assms(3) roots_okD [OF assms(1)]
    by (subst roots_ok_cong [of _ s]) (auto simp: SetFrame_def)
qed

lemma roots_ok_GetFrame: "roots_ok rt K s \<Longrightarrow> GetFrame s = Some f \<Longrightarrow> frame_ok rt s f"
  using GetFrame_Some [of s f] by (metis list.set_intros(1) roots_okD(2))

lemma roots_ok_GetVReg: "roots_ok rt K s \<Longrightarrow> GetVReg s i = Some r \<Longrightarrow> reg_ok rt s r"
  by (auto simp: GetVReg_def bind_eq_Some_conv rd_def frame_ok_def dest!: roots_ok_GetFrame split: if_splits)

lemma frame_ok_wr: "frame_ok rt s f \<Longrightarrow> reg_ok rt s r \<Longrightarrow> wr (frame_vregs f) i r = Some vs \<Longrightarrow> frame_ok rt s (f\<lparr>frame_vregs := vs\<rparr>)"
  by (auto simp: frame_ok_def wr_def split: if_splits dest!: set_update_subset_insert [THEN subsetD])

lemma roots_ok_SetVReg:
  assumes "roots_ok rt K s" "SetVReg s i r = Some s'" "reg_ok rt s r"
  shows "roots_ok rt K s'"
  using assms by (auto simp: SetVReg_def bind_eq_Some_conv intro: roots_ok_SetFrame frame_ok_wr roots_ok_GetFrame)

lemma SetVReg_roots_ok: "SetVReg s i r = Some s' \<Longrightarrow> roots_ok rt K s \<Longrightarrow> reg_ok rt s r \<Longrightarrow> roots_ok rt K s'"
  by (rule roots_ok_SetVReg)

lemma roots_ok_SaveAcc:
  assumes "roots_ok rt K s" "SaveAcc s = Some s'"
  shows "roots_ok rt K s'"
proof -
  obtain f where f: "GetFrame s = Some f" "s' = SetFrame s (f\<lparr>frame_acc := acc s\<rparr>)"
    using assms(2) by (auto simp: SaveAcc_def bind_eq_Some_conv)
  have "frame_ok rt s (f\<lparr>frame_acc := acc s\<rparr>)"
    using roots_okD(1) [OF assms(1)] roots_ok_GetFrame [OF assms(1) f(1)] by (simp add: frame_ok_def)
  then show ?thesis unfolding f(2) by (rule roots_ok_SetFrame [OF assms(1) f(1)])
qed

lemma roots_ok_RestoreAcc: "roots_ok rt K s \<Longrightarrow> RestoreAcc s = Some s' \<Longrightarrow> roots_ok rt K s'"
  using roots_ok_SetAcc [of rt K s]
  by (auto simp: RestoreAcc_def bind_eq_Some_conv frame_ok_def SetAcc_def dest!: roots_ok_GetFrame)

lemma roots_ok_UpdateBytecodeOffset:
  assumes "roots_ok rt K s" "UpdateBytecodeOffset s = Some s'"
  shows "roots_ok rt K s'"
proof -
  obtain f pc where f: "GetFrame s = Some f" "s' = SetFrame s (f\<lparr>bcOffset := pc\<rparr>)"
    using assms(2) by (auto simp: UpdateBytecodeOffset_def bind_eq_Some_conv)
  have "frame_ok rt s (f\<lparr>bcOffset := pc\<rparr>)" using roots_ok_GetFrame [OF assms(1) f(1)] by (simp add: frame_ok_def)
  then show ?thesis unfolding f(2) by (rule roots_ok_SetFrame [OF assms(1) f(1)])
qed

lemmas roots_intros = roots_ok_SetAcc roots_ok_SetVReg roots_ok_SaveAcc roots_ok_RestoreAcc roots_ok_UpdateBytecodeOffset

section \<open>Checks\<close>

type_synonym check = "(nat \<Rightarrow> bool) \<Rightarrow> rt \<Rightarrow> bc \<Rightarrow> interp \<Rightarrow> bool"

definition chk_none :: check where
  "chk_none K rt I s \<longleftrightarrow> True"

definition chk_acc_prim :: check where
  "chk_acc_prim K rt I s \<longleftrightarrow> mirror (acc s) = PRIMITIVE_TYPE"

definition chk_acc_obj :: check where
  "chk_acc_obj K rt I s \<longleftrightarrow> HasObject (acc s)"

definition chk_vreg0_prim :: check where
  "chk_vreg0_prim K rt I s \<longleftrightarrow> (\<forall>r. GetVReg s (op_vreg I 0) = Some r \<longrightarrow> mirror r = PRIMITIVE_TYPE)"

definition chk_vreg0_obj :: check where
  "chk_vreg0_obj K rt I s \<longleftrightarrow> (\<forall>r. GetVReg s (op_vreg I 0) = Some r \<longrightarrow> HasObject r)"

definition chk_vreg1_obj :: check where
  "chk_vreg1_obj K rt I s \<longleftrightarrow> (\<forall>r. GetVReg s (op_vreg I 1) = Some r \<longrightarrow> HasObject r)"

text \<open>The array in the first register holds references, or primitive values.\<close>

definition chk_array :: "bool \<Rightarrow> check" where
  "chk_array refs K rt I s \<longleftrightarrow>
     (\<forall>a ob. GetRefReg rt s (op_vreg I 0) = Some a \<longrightarrow> heap s a = Some ob \<longrightarrow> K (obj_class ob) = refs)"

definition chk_and :: "check \<Rightarrow> check \<Rightarrow> check" where
  "chk_and c d K rt I s \<longleftrightarrow> c K rt I s \<and> d K rt I s"

lemmas check_defs = chk_none_def chk_acc_prim_def chk_acc_obj_def chk_vreg0_prim_def chk_vreg0_obj_def chk_vreg1_obj_def
  chk_array_def chk_and_def

definition preserves :: "check \<Rightarrow> handler \<Rightarrow> bool" where
  "preserves c h \<longleftrightarrow>
     (\<forall>rt K I s s'. rt_ok rt K \<longrightarrow> roots_ok rt K s \<longrightarrow> c K rt I s \<longrightarrow> h rt I s = Some s' \<longrightarrow> roots_ok rt K s')"

lemma preservesI [intro]:
  "(\<And>rt K I s s'. rt_ok rt K \<Longrightarrow> roots_ok rt K s \<Longrightarrow> c K rt I s \<Longrightarrow> h rt I s = Some s' \<Longrightarrow> roots_ok rt K s') \<Longrightarrow> preserves c h"
  by (auto simp: preserves_def)

section \<open>Handlers without objects\<close>

lemma Safepoint_ok: "rt_ok rt K \<Longrightarrow> roots_ok rt K s \<Longrightarrow> roots_ok rt K (Safepoint rt s)"
  by (auto simp: rt_ok_def keeps_def)

lemma Safepoint_acc_ok:
  "rt_ok rt K \<Longrightarrow> roots_ok rt K s \<Longrightarrow> SaveAcc s = Some s1 \<Longrightarrow> RestoreAcc (Safepoint rt s1) = Some s2 \<Longrightarrow> roots_ok rt K s2"
  by (blast intro: roots_ok_RestoreAcc roots_ok_SaveAcc Safepoint_ok)

lemma InstrumentBranches_ok:
  assumes "rt_ok rt K" "roots_ok rt K s" "InstrumentBranches rt off s = Some (s', b)"
  shows "roots_ok rt K s'"
  using assms(2,3)
  by (auto simp: InstrumentBranches_def bind_eq_Some_conv split: if_splits
      dest: Safepoint_acc_ok [OF assms(1)])

lemma Branch_ok:
  assumes "rt_ok rt K" "roots_ok rt K s" "Branch t imm rt I s = Some s'"
  shows "roots_ok rt K s'"
  using assms(3)
  by (auto simp: Branch_def Let_def bind_eq_Some_conv assms(2) split: if_splits dest: InstrumentBranches_ok [OF assms(1,2)])

lemma jumps_preserve:
  "preserves c (HandleCondJmpz Op)" "preserves c (HandleCondJmp Op)" "preserves c (HandleCondJmpzObj Op')"
  "preserves c (HandleCondJmpObj Op')" "preserves c HandleJmp"
  by (rule preservesI; auto simp: HandleCondJmpz_def HandleCondJmp_def HandleCondJmpzObj_def HandleCondJmpObj_def HandleJmp_def
      bind_eq_Some_conv dest: Branch_ok)+

lemma acc_ops_preserve:
  "preserves chk_acc_prim (HandleBinaryOp2 T Op d)" "preserves chk_acc_prim (HandleBinaryOp2Imm T Op d)"
  "preserves chk_acc_prim (HandleUnaryOp T Op1)" "preserves chk_acc_prim (HandleConversion F T)"
  "preserves chk_acc_prim (HandleFloatToIntConversion F T)"
  by (rule preservesI; auto simp: HandleBinaryOp2_def HandleBinaryOp2Imm_def HandleUnaryOp_def HandleConversion_def HandleFloatToIntConversion_def
      bind_eq_Some_conv chk_acc_prim_def split: if_splits intro!: roots_ok_SetAcc)+

lemma reg_ops_preserve:
  "preserves c (HandleBinaryOp2V T Op d)" "preserves c (HandleBinaryOp T Op d)" "preserves c (HandleBinaryOpV T Op d)"
  "preserves c (HandleBinaryOpImmV T Op d)"
  by (rule preservesI; auto simp: HandleBinaryOp2V_def HandleBinaryOp_def HandleBinaryOpV_def HandleBinaryOpImmV_def
      bind_eq_Some_conv split: if_splits intro!: roots_ok_SetAcc dest: roots_ok_SetVReg)+

lemma GetRefReg_ok:
  assumes "roots_ok rt K s" "GetRefReg rt s i = Some a" "\<forall>r. GetVReg s i = Some r \<longrightarrow> HasObject r"
  shows "ref_ok s (GetReference (OBJECT_POINTER_SIZE rt) a)" "ref_ok s a"
  using assms by (auto simp: GetRefReg_def dest!: roots_ok_GetVReg intro: reg_ok_ref)

lemma moves_preserve:
  "preserves chk_none HandleNop" "preserves chk_none HandleMov" "preserves chk_none HandleMovWide"
  "preserves chk_none HandleMovDyn" "preserves chk_none HandleMovi" "preserves chk_none HandleMoviWide"
  "preserves chk_none HandleFmovi" "preserves chk_none HandleFmoviWide" "preserves chk_none HandleMovNull"
  "preserves chk_none HandleLda" "preserves chk_none HandleLdaWide"
  "preserves chk_none HandleLdaDyn" "preserves chk_none HandleLdai" "preserves chk_none HandleLdaiWide"
  "preserves chk_none HandleFldai" "preserves chk_none HandleFldaiWide" "preserves chk_none HandleLdaNull"
  "preserves chk_none HandleSta" "preserves chk_none HandleStaWide"
  "preserves chk_none HandleStaDyn" "preserves chk_vreg0_prim HandleInci"
  by (rule preservesI; auto simp: move_handlers bind_eq_Some_conv check_defs Let_def split: if_splits
      intro!: roots_ok_SetAcc elim!: SetVReg_roots_ok intro: roots_ok_GetVReg roots_okD(1))+

lemma HandleMovObj_preserves: "preserves chk_vreg1_obj HandleMovObj"
proof
  fix rt K I s s'
  assume s: "roots_ok rt K s" "chk_vreg1_obj K rt I s" "HandleMovObj rt I s = Some s'"
  then show "roots_ok rt K s'" using reg_ok_MoveReference [OF roots_ok_GetVReg [OF s(1)]]
    by (auto simp: HandleMovObj_def bind_eq_Some_conv chk_vreg1_obj_def elim!: SetVReg_roots_ok)
qed

lemma HandleLdaObj_preserves: "preserves chk_vreg0_obj HandleLdaObj"
proof
  fix rt K I s s'
  assume s: "roots_ok rt K s" "chk_vreg0_obj K rt I s" "HandleLdaObj rt I s = Some s'"
  then show "roots_ok rt K s'" using GetRefReg_ok [OF s(1)]
    by (auto simp: HandleLdaObj_def bind_eq_Some_conv chk_vreg0_obj_def intro!: roots_ok_SetAcc)
qed

lemma HandleStaObj_preserves: "preserves chk_acc_obj HandleStaObj"
proof
  fix rt K I s s'
  assume s: "roots_ok rt K s" "chk_acc_obj K rt I s" "HandleStaObj rt I s = Some s'"
  then show "roots_ok rt K s'" using reg_ok_ref [OF roots_okD(1) [OF s(1)]]
    by (auto simp: HandleStaObj_def bind_eq_Some_conv chk_acc_obj_def GetAccRef_def elim!: SetVReg_roots_ok)
qed

section \<open>Arrays\<close>

lemma roots_ok_heap_upd:
  assumes "roots_ok rt K s" "obj_ok rt K s ob"
  shows "roots_ok rt K (s\<lparr>heap := (heap s)(a \<mapsto> ob)\<rparr>)"
proof -
  let ?s = "s\<lparr>heap := (heap s)(a \<mapsto> ob)\<rparr>"
  have r: "ref_ok ?s b" if "ref_ok s b" for b using that by (auto simp: ref_ok_def)
  have "obj_ok rt K ?s ob'" if "obj_ok rt K s ob'" for ob' using that r by (auto simp: obj_ok_def)
  moreover have "reg_ok rt ?s r" if "reg_ok rt s r" for r using that r by (auto simp: reg_ok_def)
  moreover from this have "frame_ok rt ?s f" if "frame_ok rt s f" for f using that by (auto simp: frame_ok_def)
  ultimately show ?thesis using assms r by (simp add: roots_ok_def)
qed

lemma Array_Set_ok:
  assumes "roots_ok rt K s" "Array_Set a idx bits s = Some s'"
    "\<And>ob. heap s a = Some ob \<Longrightarrow> K (obj_class ob) \<Longrightarrow> ref_ok s (GetReference (OBJECT_POINTER_SIZE rt) bits)"
  shows "roots_ok rt K s'"
proof -
  obtain ob where ob: "heap s a = Some ob" "nat idx < length (obj_elems ob)"
    "s' = s\<lparr>heap := (heap s)(a \<mapsto> ob\<lparr>obj_elems := (obj_elems ob)[nat idx := bits]\<rparr>)\<rparr>"
    using assms(2) by (auto simp: Array_Set_def bind_eq_Some_conv wr_def split: if_splits)
  have "obj_ok rt K s (ob\<lparr>obj_elems := (obj_elems ob)[nat idx := bits]\<rparr>)"
    using roots_okD(3) [OF assms(1) ob(1)] assms(3) [OF ob(1)]
    by (auto simp: obj_ok_def dest!: set_update_subset_insert [THEN subsetD])
  then show ?thesis unfolding ob(3) by (rule roots_ok_heap_upd [OF assms(1)])
qed

lemma Array_Get_ok:
  "roots_ok rt K s \<Longrightarrow> Array_Get a idx s = Some bits \<Longrightarrow> (\<And>ob. heap s a = Some ob \<Longrightarrow> K (obj_class ob)) \<Longrightarrow>
     ref_ok s (GetReference (OBJECT_POINTER_SIZE rt) bits)"
  by (auto simp: Array_Get_def bind_eq_Some_conv rd_def obj_ok_def dest!: roots_okD(3) split: if_splits)

lemma array_load_preserves: "preserves chk_acc_prim (HandleArrayPrimitiveLoad T)"
  by (rule preservesI) (auto simp: HandleArrayPrimitiveLoad_def bind_eq_Some_conv chk_acc_prim_def Let_def split: option.splits
      intro!: roots_ok_SetAcc)

lemma array_store_preserves: "preserves (chk_array False) (HandleArrayStore T)"
proof
  fix rt K I s s'
  assume s: "roots_ok rt K s" "chk_array False K rt I s" "HandleArrayStore T rt I s = Some s'"
  then show "roots_ok rt K s'" using Array_Set_ok [OF s(1)]
    by (fastforce simp: HandleArrayStore_def bind_eq_Some_conv Let_def chk_array_def split: option.splits)
qed

lemma HandleStarrObj_preserves: "preserves chk_acc_obj HandleStarrObj"
proof
  fix rt K I s s'
  assume s: "roots_ok rt K s" "chk_acc_obj K rt I s" "HandleStarrObj rt I s = Some s'"
  then have r: "ref_ok s (GetAccRef rt s)" using reg_ok_ref [OF roots_okD(1) [OF s(1)]]
    by (simp add: chk_acc_obj_def GetAccRef_def)
  have "GetReference (OBJECT_POINTER_SIZE rt) (GetAccRef rt s) = GetAccRef rt s" by (simp add: GetAccRef_def)
  moreover obtain a i c where "CheckStoreArrayOp rt s a i (Some (GetAccRef rt s)) = Some c"
    "(case c of Some e \<Rightarrow> Some (raise_exn rt e s)
      | None \<Rightarrow> do { s \<leftarrow> Array_Set a i (GetReference (OBJECT_POINTER_SIZE rt) (GetAccRef rt s)) s; Some (MoveToNextInst True I s) }) = Some s'"
    using s(3) unfolding HandleStarrObj_def Let_def bind_eq_Some_conv by blast
  ultimately show "roots_ok rt K s'" using s(1) r
    by (cases c) (auto simp: bind_eq_Some_conv elim!: Array_Set_ok [rotated])
qed

lemma HandleLdarrObj_preserves: "preserves (chk_array True) HandleLdarrObj"
proof
  fix rt K I s s'
  assume s: "roots_ok rt K s" "chk_array True K rt I s" "HandleLdarrObj rt I s = Some s'"
  then show "roots_ok rt K s'" using Array_Get_ok [OF s(1)]
    by (auto simp: HandleLdarrObj_def bind_eq_Some_conv Let_def chk_array_def split: option.splits intro!: roots_ok_SetAcc)
qed

lemma HandleLenarr_preserves: "preserves chk_none HandleLenarr"
  by (rule preservesI) (auto simp: HandleLenarr_def bind_eq_Some_conv split: if_splits intro!: roots_ok_SetAcc)

section \<open>Resolution\<close>

definition vtags :: "interp \<Rightarrow> u64 list list" where
  "vtags s = map (\<lambda>f. map mirror (frame_vregs f)) (frames s)"

lemma GetFrame_SomeE:
  assumes "GetFrame s = Some f"
  obtains rest where "frames s = f # rest"
  using assms by (auto simp: GetFrame_def split: list.splits)

lemma tags_vtags: "tags s' = tags s \<Longrightarrow> vtags s' = vtags s"
  unfolding tags_def vtags_def by (drule arg_cong [of _ _ "map fst"]) (simp add: comp_def)

lemma tags_frame:
  assumes "tags s' = tags s" "GetFrame s = Some f" "GetFrame s' = Some f'"
  shows "mirror (frame_acc f') = mirror (frame_acc f)"
proof -
  obtain r r' where "frames s = f # r" "frames s' = f' # r'" using assms(2,3) by (metis GetFrame_SomeE)
  then show ?thesis using assms(1) by (simp add: tags_def)
qed

lemma vtags_GetVReg:
  assumes "vtags s' = vtags s" "GetVReg s' i = Some r'"
  obtains r where "GetVReg s i = Some r" "mirror r' = mirror r"
proof -
  obtain f' where f': "GetFrame s' = Some f'" "i < length (frame_vregs f')" "r' = frame_vregs f' ! i"
    using assms(2) by (auto simp: GetVReg_def bind_eq_Some_conv rd_def split: if_splits)
  obtain f where f: "GetFrame s = Some f" "map mirror (frame_vregs f) = map mirror (frame_vregs f')"
    using assms(1) f'(1) unfolding vtags_def GetFrame_def by (cases "frames s"; cases "frames s'") auto
  then have "length (frame_vregs f) = length (frame_vregs f')" by (metis length_map)
  with f f' have "GetVReg s i = Some (frame_vregs f ! i)" "mirror (frame_vregs f ! i) = mirror r'"
    by (auto simp: GetVReg_def rd_def dest: arg_cong [of _ _ "\<lambda>xs. xs ! i"])
  then show thesis using that by metis
qed

text \<open>What every handler may rely on after a resolution: good roots and unchanged tags.\<close>

definition resolved :: "rt \<Rightarrow> (nat \<Rightarrow> bool) \<Rightarrow> interp \<Rightarrow> interp \<Rightarrow> bool" where
  "resolved rt K s s' \<longleftrightarrow> roots_ok rt K s' \<and> mirror (acc s') = mirror (acc s) \<and> vtags s' = vtags s"

lemma resolved_refl: "roots_ok rt K s \<Longrightarrow> resolved rt K s s"
  by (simp add: resolved_def)

lemma resolved_trans: "resolved rt K s s1 \<Longrightarrow> resolved rt K s1 s2 \<Longrightarrow> resolved rt K s s2"
  by (simp add: resolved_def)

lemma SaveAcc_frames:
  assumes "SaveAcc s = Some s'"
  obtains f where "GetFrame s = Some f" "GetFrame s' = Some (f\<lparr>frame_acc := acc s\<rparr>)" "acc s' = acc s" "vtags s' = vtags s"
proof -
  obtain f where "GetFrame s = Some f" "s' = SetFrame s (f\<lparr>frame_acc := acc s\<rparr>)"
    using assms by (auto simp: SaveAcc_def bind_eq_Some_conv)
  moreover from this have "vtags s' = vtags s" by (auto simp: vtags_def SetFrame_def elim!: GetFrame_SomeE)
  ultimately show thesis using that by (simp add: SetFrame_def GetFrame_def)
qed

lemma runtime_call_resolved:
  assumes "roots_ok rt K s" "SaveAcc s = Some s1" "keeps rt K s1 s2" "RestoreAcc s2 = Some s3"
  shows "resolved rt K s s3"
proof -
  obtain f where f: "GetFrame s1 = Some (f\<lparr>frame_acc := acc s\<rparr>)" "vtags s1 = vtags s" using SaveAcc_frames [OF assms(2)] by metis
  obtain f2 where f2: "GetFrame s2 = Some f2" "s3 = s2\<lparr>acc := frame_acc f2\<rparr>"
    using assms(4) by (auto simp: RestoreAcc_def bind_eq_Some_conv)
  have s2: "roots_ok rt K s2" "tags s2 = tags s1" using assms(3) roots_ok_SaveAcc [OF assms(1,2)] by (auto simp: keeps_def)
  have "roots_ok rt K s3" using s2(1) assms(4) by (rule roots_ok_RestoreAcc)
  moreover have "mirror (acc s3) = mirror (acc s)" using tags_frame [OF s2(2) f(1) f2(1)] f2(2) by simp
  moreover have "vtags s3 = vtags s" using tags_vtags [OF s2(2)] f(2) f2(2) by (simp add: vtags_def)
  ultimately show ?thesis by (simp add: resolved_def)
qed

lemma Cache_Set_sel [simp]: "acc (Cache_Set pc it m s) = acc s" "vtags (Cache_Set pc it m s) = vtags s"
  by (simp_all add: Cache_Set_def vtags_def)

lemma resolve_cached_ok:
  assumes "roots_ok rt K s" "\<And>s m i. keeps rt K s (fst (resolve s m i))" "resolve_cached resolve i s = Some (s', r)"
  shows "resolved rt K s s'"
proof -
  obtain f where f: "GetFrame s = Some f" using assms(3) by (auto simp: resolve_cached_def bind_eq_Some_conv)
  show ?thesis
  proof (cases "Cache_Get s (cur_inst s) (frame_method f)")
    case None
    then have r: "do { s \<leftarrow> SaveAcc s; let (s, item) = resolve s (frame_method f) i; s \<leftarrow> RestoreAcc s;
        case item of None \<Rightarrow> if pending s = None then None else Some (s, None)
        | Some res \<Rightarrow> do { f \<leftarrow> GetFrame s; Some (Cache_Set (cur_inst s) res (frame_method f) s, Some res) } } = Some (s', r)"
      using assms(3) f by (simp add: resolve_cached_def)
    obtain s1 where s1: "SaveAcc s = Some s1" using r by (cases "SaveAcc s") auto
    obtain s2 item where s2: "resolve s1 (frame_method f) i = (s2, item)" by fastforce
    obtain s3 where s3: "RestoreAcc s2 = Some s3" using r s1 s2 by (cases "RestoreAcc s2") auto
    have "s' = s3 \<or> (\<exists>pc it m. s' = Cache_Set pc it m s3)" using r s1 s2 s3
      by (cases item) (auto simp: bind_eq_Some_conv split: if_splits)
    moreover have "resolved rt K s s3" using runtime_call_resolved [OF assms(1) s1 _ s3] assms(2) [of s1 "frame_method f" i] s2 by simp
    ultimately show ?thesis by (auto simp: resolved_def)
  next
    case (Some it)
    with assms f show ?thesis by (auto simp: resolve_cached_def intro: resolved_refl)
  qed
qed

lemma UpdateBytecodeOffset_resolved:
  assumes "roots_ok rt K s" "UpdateBytecodeOffset s = Some s'"
  shows "resolved rt K s s'"
proof -
  obtain f pc where f: "GetFrame s = Some f" "s' = SetFrame s (f\<lparr>bcOffset := pc\<rparr>)"
    using assms(2) by (auto simp: UpdateBytecodeOffset_def bind_eq_Some_conv)
  have "vtags s' = vtags s" "acc s' = acc s" using f by (auto simp: vtags_def SetFrame_def elim!: GetFrame_SomeE)
  then show ?thesis using roots_ok_UpdateBytecodeOffset [OF assms] by (simp add: resolved_def)
qed

lemma Resolve_ok:
  assumes "rt_ok rt K" "roots_ok rt K s"
  shows "ResolveMethod rt i s = Some (s', r) \<Longrightarrow> resolved rt K s s'"
    "ResolveField rt b i s = Some (s', r) \<Longrightarrow> resolved rt K s s'" "ResolveType rt i s = Some (s', r) \<Longrightarrow> resolved rt K s s'"
proof -
  have k: "keeps rt K s (fst (rtResolveField rt s m i))" "keeps rt K s (fst (rtResolveClass rt s m i))"
    "keeps rt K s (fst (rtResolveMethod rt s m i))" for s m i using assms(1) by (auto simp: rt_ok_def)
  have u: "resolved rt K s s2" if "UpdateBytecodeOffset s = Some s1" "resolve_cached res i s1 = Some (s2, r)"
    "\<And>s m i. keeps rt K s (fst (res s m i))" for s1 s2 res
  proof -
    have "resolved rt K s s1" using assms(2) that(1) by (rule UpdateBytecodeOffset_resolved)
    moreover from this have "roots_ok rt K s1" by (simp add: resolved_def)
    ultimately show ?thesis using resolve_cached_ok [OF _ that(3,2)] by (blast intro: resolved_trans)
  qed
  show "ResolveMethod rt i s = Some (s', r) \<Longrightarrow> resolved rt K s s'"
    by (auto simp: ResolveMethod_def bind_eq_Some_conv intro: u k)
  show "ResolveField rt b i s = Some (s', r) \<Longrightarrow> resolved rt K s s'"
    by (auto simp: ResolveField_def bind_eq_Some_conv split: if_splits intro: u k resolve_cached_ok [OF assms(2)])
  show "ResolveType rt i s = Some (s', r) \<Longrightarrow> resolved rt K s s'"
    by (auto simp: ResolveType_def intro: resolve_cached_ok [OF assms(2)] k)
qed

text \<open>
  The contract of the three resolvers towards the handlers: after a resolution roots are good and tags unchanged.  A handler that
  enters the exception handler when the resolution fails preserves the roots if its body does.
\<close>

locale resolver =
  fixes R :: "rt \<Rightarrow> nat \<Rightarrow> interp \<Rightarrow> (interp \<times> nat option) option"
  assumes resolves: "rt_ok rt K \<Longrightarrow> roots_ok rt K s \<Longrightarrow> R rt i s = Some (s', r) \<Longrightarrow> resolved rt K s s'"
begin

lemma preserves_roots:
  assumes h: "\<And>rt I s. h rt I s =
      do { (s, r) \<leftarrow> R rt (op_id I) s; case r of None \<Rightarrow> Some (MoveToExceptionHandler rt s) | Some k \<Rightarrow> G rt I k s }"
    and G: "\<And>rt K I k s s'. rt_ok rt K \<Longrightarrow> roots_ok rt K s \<Longrightarrow> G rt I k s = Some s' \<Longrightarrow> roots_ok rt K s'"
  shows "preserves c h"
proof
  fix rt K I s s'
  assume s: "rt_ok rt K" "roots_ok rt K s" "h rt I s = Some s'"
  obtain s1 r where s1: "R rt (op_id I) s = Some (s1, r)" using s(3) by (auto simp: h bind_eq_Some_conv)
  have "roots_ok rt K s1" using resolves [OF s(1,2) s1] by (simp add: resolved_def)
  then show "roots_ok rt K s'" using s(1,3) s1 by (cases r) (auto simp: h intro: G)
qed

end

interpretation rm: resolver ResolveMethod
  by unfold_locales (rule Resolve_ok(1))

interpretation rc: resolver ResolveType
  by unfold_locales (rule Resolve_ok(3))

interpretation rf: resolver "\<lambda>rt. ResolveField rt b" for b
  by unfold_locales (rule Resolve_ok(2))

section \<open>Fields\<close>

lemma with_field_ok:
  assumes "rt_ok rt K" "roots_ok rt K s" "with_field n body rt I s = Some s'"
    "\<And>s1 fd a ob s2. resolved rt K s s1 \<Longrightarrow> heap s1 a = Some ob \<Longrightarrow> body fd a ob s1 = Some s2 \<Longrightarrow> roots_ok rt K s2"
  shows "roots_ok rt K s'"
proof -
  obtain a where a: "GetRefReg rt s (op_vreg I n) = Some a" using assms(3) by (auto simp: with_field_def bind_eq_Some_conv)
  show ?thesis
  proof (cases "a = 0")
    case True
    with assms a show ?thesis by (auto simp: with_field_def)
  next
    case False
    then obtain s1 fo b where s1: "ResolveField rt False (op_id I) s = Some (s1, fo)" "GetRefReg rt s1 (op_vreg I n) = Some b"
      "(case fo of Some fd \<Rightarrow> do { ob \<leftarrow> heap s1 b; s \<leftarrow> body fd b ob s1; Some (MoveToNextInst True I s) }
         | None \<Rightarrow> Some (MoveToExceptionHandler rt s1)) = Some s'"
      using assms(3) a by (auto simp: with_field_def bind_eq_Some_conv)
    then have r: "resolved rt K s s1" using rf.resolves [OF assms(1,2)] by blast
    from r have "roots_ok rt K s1" by (simp add: resolved_def)
    with s1(3) show ?thesis by (auto simp: bind_eq_Some_conv split: option.splits intro: assms(4) [OF r])
  qed
qed

lemma with_static_ok:
  assumes "rt_ok rt K" "roots_ok rt K s" "with_static body rt I s = Some s'"
    "\<And>s1 fd s2. resolved rt K s s1 \<Longrightarrow> body fd s1 = Some s2 \<Longrightarrow> roots_ok rt K s2"
  shows "roots_ok rt K s'"
proof -
  obtain s1 fo where s1: "ResolveField rt True (op_id I) s = Some (s1, fo)"
    "(case fo of Some fd \<Rightarrow> do { s \<leftarrow> body fd s1; Some (MoveToNextInst False I s) }
       | None \<Rightarrow> Some (MoveToExceptionHandler rt s1)) = Some s'"
    using assms(3) by (auto simp: with_static_def bind_eq_Some_conv)
  then have r: "resolved rt K s s1" using rf.resolves [OF assms(1,2)] by blast
  from r have "roots_ok rt K s1" by (simp add: resolved_def)
  with s1(2) show ?thesis by (auto simp: bind_eq_Some_conv split: option.splits intro: assms(4) [OF r])
qed

lemma LoadPrimitiveField_ok: "LoadPrimitiveField rt bits fd = Some r \<Longrightarrow> reg_ok rt s r"
  by (auto simp: LoadPrimitiveField_def bind_eq_Some_conv)

lemma StorePrimitiveField_type: "StorePrimitiveField rt r fd = Some b \<Longrightarrow> rtFieldType rt fd \<noteq> REFERENCE_t"
  by (auto simp: StorePrimitiveField_def)

lemma StoreObjectField_ok:
  "StoreObjectField rt r fd = Some b \<Longrightarrow> reg_ok rt s r \<Longrightarrow> HasObject r \<Longrightarrow> ref_ok s (GetReference (OBJECT_POINTER_SIZE rt) b)"
  by (auto simp: StoreObjectField_def dest: reg_ok_ref split: if_splits)

lemma LoadObjectField_ok:
  "LoadObjectField rt bits fd = Some r \<Longrightarrow>
     (rtFieldType rt fd = REFERENCE_t \<Longrightarrow> ref_ok s (GetReference (OBJECT_POINTER_SIZE rt) bits)) \<Longrightarrow> reg_ok rt s r"
  by (auto simp: LoadObjectField_def split: if_splits)

lemma object_field_ok:
  "roots_ok rt K s \<Longrightarrow> heap s a = Some ob \<Longrightarrow> rtFieldType rt fd = REFERENCE_t \<Longrightarrow>
     ref_ok s (GetReference (OBJECT_POINTER_SIZE rt) (obj_fields ob fd))"
  by (auto simp: obj_ok_def dest: roots_okD(3))

lemma set_field_ok:
  assumes "roots_ok rt K s" "heap s a = Some ob"
    "rtFieldType rt fd = REFERENCE_t \<Longrightarrow> ref_ok s (GetReference (OBJECT_POINTER_SIZE rt) b)"
  shows "roots_ok rt K (set_field a ob fd b s)"
  unfolding set_field_def using assms roots_okD(3) [OF assms(1,2)]
  by (intro roots_ok_heap_upd [OF assms(1)]) (auto simp: obj_ok_def)

lemma set_static_ok:
  assumes "roots_ok rt K s" "rtFieldType rt fd = REFERENCE_t \<Longrightarrow> ref_ok s (GetReference (OBJECT_POINTER_SIZE rt) b)"
  shows "roots_ok rt K (s\<lparr>statics := (statics s)(fd := b)\<rparr>)"
proof -
  let ?s = "s\<lparr>statics := (statics s)(fd := b)\<rparr>"
  have "heap ?s = heap s" by simp
  note c = ok_cong [OF this]
  show ?thesis using assms unfolding roots_ok_def c by auto
qed

lemma resolved_obj:
  assumes "resolved rt K s s1"
  shows "roots_ok rt K s1" "HasObject (acc s) \<Longrightarrow> HasObject (acc s1)"
    "(\<And>r. GetVReg s i = Some r \<Longrightarrow> HasObject r) \<Longrightarrow> GetVReg s1 i = Some r1 \<Longrightarrow> HasObject r1"
proof -
  show "roots_ok rt K s1" "HasObject (acc s) \<Longrightarrow> HasObject (acc s1)" using assms by (auto simp: resolved_def HasObject_def)
  assume r: "\<And>r. GetVReg s i = Some r \<Longrightarrow> HasObject r" "GetVReg s1 i = Some r1"
  have "vtags s1 = vtags s" using assms by (simp add: resolved_def)
  then obtain r where "GetVReg s i = Some r" "mirror r1 = mirror r" using r(2) by (rule vtags_GetVReg)
  then show "HasObject r1" using r(1) by (simp add: HasObject_def)
qed

lemmas field_handlers =
  HandleLdobj_def HandleLdobjWide_def HandleLdobjObj_def HandleLdobjV_def HandleLdobjVWide_def HandleLdobjVObj_def
  HandleStobj_def HandleStobjWide_def HandleStobjObj_def HandleStobjV_def HandleStobjVWide_def HandleStobjVObj_def
  HandleLdstatic_def HandleLdstaticWide_def HandleLdstaticObj_def HandleStstatic_def HandleStstaticWide_def HandleStstaticObj_def

lemma field_loads_preserve:
  "preserves chk_none HandleLdobj" "preserves chk_none HandleLdobjWide" "preserves chk_none HandleLdobjObj"
  "preserves chk_none HandleLdobjV" "preserves chk_none HandleLdobjVWide" "preserves chk_none HandleLdobjVObj"
  by (rule preservesI; unfold field_handlers; erule (2) with_field_ok;
      fastforce simp: bind_eq_Some_conv dest: resolved_obj(1) LoadPrimitiveField_ok LoadObjectField_ok
        elim!: SetVReg_roots_ok intro!: roots_ok_SetAcc intro: object_field_ok)+

lemma static_loads_preserve:
  "preserves chk_none HandleLdstatic" "preserves chk_none HandleLdstaticWide" "preserves chk_none HandleLdstaticObj"
  by (rule preservesI; unfold field_handlers; erule (2) with_static_ok;
      fastforce simp: bind_eq_Some_conv dest: resolved_obj(1) LoadPrimitiveField_ok LoadObjectField_ok roots_okD(4)
        intro!: roots_ok_SetAcc)+

lemma field_stores_preserve:
  "preserves chk_none HandleStobj" "preserves chk_none HandleStobjWide" "preserves chk_acc_obj HandleStobjObj"
  "preserves chk_none HandleStobjV" "preserves chk_none HandleStobjVWide" "preserves chk_vreg0_obj HandleStobjVObj"
  by (rule preservesI; unfold field_handlers; erule (2) with_field_ok;
      auto simp: bind_eq_Some_conv check_defs dest: resolved_obj StorePrimitiveField_type
        intro!: set_field_ok elim!: StoreObjectField_ok intro: roots_okD(1) roots_ok_GetVReg)+

lemma static_stores_preserve:
  "preserves chk_none HandleStstatic" "preserves chk_none HandleStstaticWide" "preserves chk_acc_obj HandleStstaticObj"
  by (rule preservesI; unfold field_handlers; erule (2) with_static_ok;
      auto simp: bind_eq_Some_conv check_defs dest: resolved_obj StorePrimitiveField_type
        intro!: set_static_ok elim!: StoreObjectField_ok intro: roots_okD(1))+

section \<open>Constants, allocation and type checks\<close>

lemma rt_okD:
  assumes "rt_ok rt K"
  shows "gives rt K s (rtResolveLiteralArray rt s m i)" "gives rt K s (rtCreateArray rt s k n)"
    "gives rt K s (rtCreateObject rt s k)" "gives rt K s (rtCreateMultiArray rt s I k l)" "gives rt K s (rtCreateString rt s m a)"
    "roots_ok rt K s \<Longrightarrow> roots_ok rt K (rtHandleLdaStr rt s i)" "roots_ok rt K s \<Longrightarrow> roots_ok rt K (CompiledCodeBridge rt s m)"
  using assms by (auto simp: rt_ok_def)

lemma gives_ok:
  assumes "gives rt K s r" "r = (s', a)" "roots_ok rt K s"
  shows "roots_ok rt K s'" "ref_ok s' (GetReference (OBJECT_POINTER_SIZE rt) a)"
  using assms by (auto simp: gives_def keeps_def)

lemma ref_ok_RestoreAcc: "RestoreAcc s = Some s' \<Longrightarrow> ref_ok s' = ref_ok s"
  by (auto simp: RestoreAcc_def bind_eq_Some_conv ref_ok_def fun_eq_iff)

lemma HandleLdaStr_preserves: "preserves chk_none HandleLdaStr"
proof
  fix rt K I s s'
  assume s: "rt_ok rt K" "roots_ok rt K s" "HandleLdaStr rt I s = Some s'"
  obtain s1 where s1: "SaveAcc s = Some s1" using s(3) by (auto simp: HandleLdaStr_def bind_eq_Some_conv)
  have "roots_ok rt K (rtHandleLdaStr rt s1 (op_id I))" using rt_okD(6) [OF s(1) roots_ok_SaveAcc [OF s(2) s1]] .
  then show "roots_ok rt K s'" using s(3) s1
    by (auto simp: HandleLdaStr_def bind_eq_Some_conv Let_def split: if_splits intro: roots_ok_RestoreAcc)
qed

lemma HandleLdaType_preserves: "preserves chk_none HandleLdaType"
proof
  fix rt K I s s'
  assume s: "rt_ok rt K" "roots_ok rt K s" "HandleLdaType rt I s = Some s'"
  obtain s1 r where r: "ResolveType rt (op_id I) s = Some (s1, r)" using s(3) by (auto simp: HandleLdaType_def bind_eq_Some_conv)
  have ok: "roots_ok rt K s1" using rc.resolves [OF s(1,2) r] by (rule resolved_obj(1))
  then show "roots_ok rt K s'" using s(3) r roots_ok_SetAcc [OF ok] roots_okD(5) [OF ok]
    by (cases r) (auto simp: HandleLdaType_def)
qed

text \<open>An allocation between saving and restoring the accumulator.\<close>

lemma allocation_ok:
  assumes "roots_ok rt K s" "SaveAcc s = Some s1" "gives rt K s1 r" "r = (s2, a)" "RestoreAcc s2 = Some s3"
  shows "roots_ok rt K s3" "reg_ok rt s3 (SetReference (OBJECT_POINTER_SIZE rt) a)"
  using gives_ok [OF assms(3,4) roots_ok_SaveAcc [OF assms(1,2)]] assms(5)
  by (auto intro: roots_ok_RestoreAcc simp: ref_ok_RestoreAcc)

lemma HandleLdaConst_preserves: "preserves chk_none HandleLdaConst"
proof
  fix rt K I s s'
  assume s: "rt_ok rt K" "roots_ok rt K s" "HandleLdaConst rt I s = Some s'"
  obtain s1 f where s1: "SaveAcc s = Some s1" "GetFrame s1 = Some f" using s(3) by (auto simp: HandleLdaConst_def bind_eq_Some_conv)
  obtain s2 a where s2: "rtResolveLiteralArray rt s1 (frame_method f) (op_id I) = (s2, a)" by fastforce
  obtain s3 where s3: "RestoreAcc s2 = Some s3" using s(3) s1 s2 by (auto simp: HandleLdaConst_def bind_eq_Some_conv)
  note ok = allocation_ok [OF s(2) s1(1) rt_okD(1) [OF s(1)] s2 s3]
  show "roots_ok rt K s'" using s(3) s1 s2 s3 ok
    by (auto simp: HandleLdaConst_def bind_eq_Some_conv split: if_splits elim!: SetVReg_roots_ok)
qed

lemma HandleNewarr_preserves: "preserves chk_none HandleNewarr"
proof
  fix rt K I s s'
  assume s: "rt_ok rt K" "roots_ok rt K s" "HandleNewarr rt I s = Some s'"
  obtain r where r: "GetVReg s (op_vreg I 1) = Some r" using s(3) by (auto simp: HandleNewarr_def bind_eq_Some_conv)
  show "roots_ok rt K s'"
  proof (cases "Get_i32 (payload r) < 0")
    case True
    then show ?thesis using s r by (simp add: HandleNewarr_def) (metis roots_ok_moves(5))
  next
    case False
    then obtain s0 ko where s0: "ResolveType rt (op_id I) s = Some (s0, ko)" using s(3) r
      by (auto simp: HandleNewarr_def bind_eq_Some_conv)
    have ok0: "roots_ok rt K s0" using rc.resolves [OF s(1,2) s0] by (rule resolved_obj(1))
    show ?thesis
    proof (cases ko)
      case None
      then show ?thesis using s r s0 ok0 False by (simp add: HandleNewarr_def) (metis roots_ok_moves(3))
    next
      case (Some k)
      then obtain s1 where s1: "SaveAcc s0 = Some s1" using s(3) r s0 False by (auto simp: HandleNewarr_def bind_eq_Some_conv)
      obtain s2 a where s2: "rtCreateArray rt s1 k (Get_i32 (payload r)) = (s2, a)" by fastforce
      obtain s3 where s3: "RestoreAcc s2 = Some s3" using s(3) r s0 s1 s2 False Some
        by (auto simp: HandleNewarr_def bind_eq_Some_conv)
      note ok = allocation_ok [OF ok0 s1 rt_okD(2) [OF s(1)] s2 s3]
      show ?thesis using s(3) r s0 s1 s2 s3 ok False Some
        by (auto simp: HandleNewarr_def bind_eq_Some_conv split: if_splits elim!: SetVReg_roots_ok)
    qed
  qed
qed

lemma HandleNewobj_preserves: "preserves chk_none HandleNewobj"
proof
  fix rt K I s s'
  assume s: "rt_ok rt K" "roots_ok rt K s" "HandleNewobj rt I s = Some s'"
  then obtain s0 ko where s0: "ResolveType rt (op_id I) s = Some (s0, ko)" by (auto simp: HandleNewobj_def bind_eq_Some_conv)
  have ok0: "roots_ok rt K s0" using rc.resolves [OF s(1,2) s0] by (rule resolved_obj(1))
  show "roots_ok rt K s'"
  proof (cases ko)
    case None
    then show ?thesis using s s0 ok0 by (simp add: HandleNewobj_def) (metis roots_ok_moves(3))
  next
    case (Some k)
    then obtain s1 where s1: "SaveAcc s0 = Some s1" using s(3) s0 by (auto simp: HandleNewobj_def bind_eq_Some_conv)
    obtain s2 a where s2: "rtCreateObject rt s1 k = (s2, a)" by fastforce
    obtain s3 where s3: "RestoreAcc s2 = Some s3" using s(3) s0 s1 s2 Some by (auto simp: HandleNewobj_def bind_eq_Some_conv)
    note ok = allocation_ok [OF ok0 s1 rt_okD(3) [OF s(1)] s2 s3]
    show ?thesis using s(3) s0 s1 s2 s3 ok Some
      by (auto simp: HandleNewobj_def bind_eq_Some_conv split: if_splits elim!: SetVReg_roots_ok)
  qed
qed

lemma HandleCheckcast_preserves: "preserves c HandleCheckcast"
  by (rule rc.preserves_roots [OF HandleCheckcast_def]) (auto simp: Let_def bind_eq_Some_conv split: if_splits)

lemma HandleIsinstance_preserves: "preserves c HandleIsinstance"
  by (rule rc.preserves_roots [OF HandleIsinstance_def])
    (auto simp: Let_def bind_eq_Some_conv split: if_splits intro!: roots_ok_SetAcc)

lemma HandleThrow_preserves: "preserves chk_none HandleThrow"
  by (rule preservesI) (auto simp: HandleThrow_def bind_eq_Some_conv)

section \<open>Calls\<close>

text \<open>Copying arguments keeps every property of registers that holds of the caller's registers and of the accumulator.\<close>

lemma wr_all: "list_all P vs \<Longrightarrow> P r \<Longrightarrow> wr vs k r = Some vs' \<Longrightarrow> list_all P vs'"
  by (auto simp: wr_def list_all_iff split: if_splits dest!: set_update_subset_insert [THEN subsetD])

lemma copy_reg_all: "list_all P cur \<Longrightarrow> list_all P vs \<Longrightarrow> copy_reg cur i vs k = Some vs' \<Longrightarrow> list_all P vs'"
  by (auto simp: copy_reg_def bind_eq_Some_conv rd_def split: if_splits intro: wr_all [of P] simp: list_all_length [of P cur])

lemma copy_range_all: "list_all P cur \<Longrightarrow> list_all P vs \<Longrightarrow> copy_range cur b base i k vs = Some vs' \<Longrightarrow> list_all P vs'"
  by (induction cur b base i k vs rule: copy_range.induct) (auto simp: bind_eq_Some_conv dest: copy_reg_all)

lemma CopyArguments_all:
  assumes "list_all P cur" "list_all P vs" "P ac" "CopyArguments FORMAT r a ini I cur ac n num args vs = Some vs'"
  shows "list_all P vs'"
  using assms(2,4) unfolding CopyArguments_def CopyRangeArguments_def CopyCallAccShortArguments_def CopyCallAccArguments_def
    CopyCallShortArguments_def CopyCallArguments_def Let_def
  by (auto simp: bind_eq_Some_conv split: if_splits call_format.splits
      elim!: copy_reg_all [OF assms(1), rotated] copy_range_all [OF assms(1), rotated] wr_all [where P = P, rotated 2] intro: assms(2,3))

lemma CreateAndSetFrame_ok:
  assumes "roots_ok rt K s" "CreateAndSetFrame FORMAT r a ini m n rt I s = Some res"
  shows "(\<exists>s'. res = Inl s' \<and> roots_ok rt K s') \<or> (\<exists>nf. res = Inr nf \<and> frame_ok rt s nf)"
proof (cases "FrameAvailable rt s (frame_nregs FORMAT ini n (MethodNumArgs rt m))")
  case False
  then show ?thesis using assms by (auto simp: CreateAndSetFrame_def Let_def)
next
  case True
  let ?nf = "(new_frame m (frame_nregs FORMAT ini n (MethodNumArgs rt m)) (MethodNumArgs rt m))\<lparr>frame_acc := acc s\<rparr>"
  obtain f vs where f: "GetFrame s = Some f" "res = Inr (?nf\<lparr>frame_vregs := vs\<rparr>)" and
    cp: "CopyArguments FORMAT r a ini I (frame_vregs f) (acc s) n (MethodNumArgs rt m) (MethodNumArgs rt m) (frame_vregs ?nf) = Some vs"
    using assms(2) True by (auto simp: CreateAndSetFrame_def Let_def bind_eq_Some_conv)
  have "list_all (reg_ok rt s) vs" using roots_ok_GetFrame [OF assms(1) f(1)] roots_okD(1) [OF assms(1)]
    by (intro CopyArguments_all [OF _ _ _ cp]) (auto simp: list_all_iff frame_ok_def new_frame_def PRIMITIVE_TYPE_def intro!: reg_ok_prim)
  then show ?thesis using f(2) roots_okD(1) [OF assms(1)] by (simp add: frame_ok_def new_frame_def list_all_iff)
qed

lemma CallInterpreterStackless_ok:
  assumes "roots_ok rt K s" "CallInterpreterStackless FORMAT r a ini m rt I s = Some s'"
  shows "roots_ok rt K s'"
proof -
  obtain res where res: "CreateAndSetFrame FORMAT r a ini m (MethodNumVregs rt m) rt I s = Some res"
    using assms(2) by (auto simp: CallInterpreterStackless_def bind_eq_Some_conv)
  show ?thesis
  proof (cases res)
    case (Inl s0)
    then show ?thesis using CreateAndSetFrame_ok [OF assms(1) res] assms(2) res by (auto simp: CallInterpreterStackless_def)
  next
    case (Inr nf)
    let ?nf = "nf\<lparr>IsStackless := True, IsInitobj := ini, frame_inst := MethodInstructions rt m\<rparr>"
    let ?s1 = "MoveToNextInst False I s"
    obtain f where f: "GetFrame ?s1 = Some f"
      "s' = (SetFrame ?s1 (f\<lparr>nextInst := cur_inst ?s1\<rparr>))\<lparr>frames := ?nf # frames (SetFrame ?s1 (f\<lparr>nextInst := cur_inst ?s1\<rparr>)),
                                                    cur_inst := MethodInstructions rt m\<rparr>"
      using assms(2) res Inr by (auto simp: CallInterpreterStackless_def bind_eq_Some_conv Let_def)
    let ?s2 = "SetFrame ?s1 (f\<lparr>nextInst := cur_inst ?s1\<rparr>)"
    have h: "heap ?s2 = heap s" by (simp add: SetFrame_def MoveToNextInst_def)
    have "roots_ok rt K ?s2" using assms(1) roots_ok_GetFrame [of rt K ?s1, OF _ f(1)]
      by (intro roots_ok_SetFrame [OF _ f(1)]) (auto simp: frame_ok_def)
    moreover have "frame_ok rt ?s2 ?nf" using CreateAndSetFrame_ok [OF assms(1) res] Inr by (simp add: frame_ok_def ok_cong [OF h])
    ultimately show ?thesis unfolding f(2) by (subst roots_ok_cong [of _ ?s2]) (auto dest: roots_okD)
  qed
qed

lemma CallCompiledCode_ok:
  assumes "rt_ok rt K" "roots_ok rt K s" "CallCompiledCode m rt I s = Some s'"
  shows "roots_ok rt K s'"
proof -
  obtain s1 where s1: "SaveAcc s = Some s1" using assms(3) by (auto simp: CallCompiledCode_def bind_eq_Some_conv)
  have "roots_ok rt K (CompiledCodeBridge rt s1 m)" using rt_okD(7) [OF assms(1) roots_ok_SaveAcc [OF assms(2) s1]] .
  then show ?thesis using assms(3) s1
    by (auto simp: CallCompiledCode_def bind_eq_Some_conv Let_def split: if_splits intro: roots_ok_RestoreAcc)
qed

lemma HandleCall_method_ok:
  assumes "rt_ok rt K" "roots_ok rt K s" "HandleCall_method FORMAT r a ini m rt I s = Some s'"
  shows "roots_ok rt K s'"
proof -
  obtain s0 where s0: "HandleCallPrologue rt s = Some s0" using assms(3) by (auto simp: HandleCall_method_def bind_eq_Some_conv)
  have "roots_ok rt K s0" using s0 assms(2)
    by (auto simp: HandleCallPrologue_def bind_eq_Some_conv split: if_splits dest: Safepoint_acc_ok [OF assms(1)])
  then show ?thesis using assms(3) s0 CallCompiledCode_ok [OF assms(1)]
    by (auto simp: HandleCall_method_def split: if_splits intro: CallInterpreterStackless_ok)
qed

lemma GetCallerObject_ok: "roots_ok rt K s \<Longrightarrow> GetCallerObject a rt I s = Some (s', ob) \<Longrightarrow> roots_ok rt K s'"
  by (auto simp: GetCallerObject_def bind_eq_Some_conv split: if_splits)

lemma call_direct_preserves: "preserves c (call_direct FORMAT r a)"
  by (rule rm.preserves_roots [OF call_direct_def])
    (auto simp: bind_eq_Some_conv split: if_splits elim!: HandleCall_method_ok [rotated 2] intro: GetCallerObject_ok)

lemma call_virtual_preserves: "preserves c (call_virtual FORMAT r a)"
  by (rule rm.preserves_roots [OF call_virtual_def])
    (auto simp: HandleVirtualCall_def bind_eq_Some_conv split: if_splits elim!: HandleCall_method_ok [rotated 2] intro: GetCallerObject_ok)

section \<open>Object construction, return and exceptions\<close>

lemma InitializeObject_class_ok:
  assumes "rt_ok rt K" "roots_ok rt K s" "InitializeObject_class FORMAT k m rt I s = Some s'"
  shows "roots_ok rt K s'"
proof (cases m)
  case None
  then show ?thesis using assms by (auto simp: InitializeObject_class_def)
next
  case (Some ctor)
  obtain s1 ob where s1: "rtCreateObject rt s k = (s1, ob)" by fastforce
  note ok = gives_ok [OF rt_okD(3) [OF assms(1)] s1 assms(2)]
  have "roots_ok rt K (SetAcc (SetReference (OBJECT_POINTER_SIZE rt) ob) s1)" using ok by (intro roots_ok_SetAcc) auto
  then show ?thesis using assms(3) s1 Some ok
    by (auto simp: InitializeObject_class_def bind_eq_Some_conv split: if_splits
        elim!: HandleCall_method_ok [OF assms(1), rotated] intro: roots_ok_SaveAcc)
qed

lemma created_acc_ok:
  assumes "gives rt K s r" "r = (s1, ob)" "roots_ok rt K s"
    "Some (if ob \<noteq> 0 then MoveToNextInst False I (SetAcc (SetReference (OBJECT_POINTER_SIZE rt) ob) s1)
           else MoveToExceptionHandler rt s1) = Some s'"
  shows "roots_ok rt K s'"
  using gives_ok [OF assms(1-3)] assms(4) by (auto split: if_splits intro!: roots_ok_SetAcc)

text \<open>The body of \<^verbatim>\<open>InitializeObject\<close> once the class is known.\<close>

lemma InitializeObject_preserves: "preserves c (InitializeObject FORMAT)"
proof
  fix rt K I s s'
  assume s: "rt_ok rt K" "roots_ok rt K s" "InitializeObject FORMAT rt I s = Some s'"
  obtain f where f: "GetFrame s = Some f" using s(3) by (auto simp: InitializeObject_def bind_eq_Some_conv)
  define cached where "cached = Cache_Get s (cur_inst s) (frame_method f)"
  define klass where "klass = (case cached of Some m \<Rightarrow> Some (MethodClass rt m) | None \<Rightarrow> rtMethodClass rt (frame_method f) (op_id I))"
  define s0 where "s0 = (if cached = None then SetAcc (SetPrimitive (IntV 0)) s else s)"
  have ok0: "roots_ok rt K s0" using s(2) by (auto simp: s0_def intro!: roots_ok_SetAcc)
  note body = s(3) [unfolded InitializeObject_def f Let_def Option.bind.simps cached_def [symmetric] klass_def [symmetric] s0_def [symmetric]]
  show "roots_ok rt K s'"
  proof (cases klass)
    case None
    then show ?thesis using body ok0 by auto
  next
    case (Some k)
    show ?thesis
    proof (cases "IsArrayClass rt k")
      case True
      obtain s1 ob where "rtCreateMultiArray rt s0 I k (rtMethodArgumentsCount rt (frame_method f) (op_id I)) = (s1, ob)" by fastforce
      then show ?thesis using body Some True created_acc_ok [OF rt_okD(4) [OF s(1)] _ ok0] by simp
    next
      case False
      obtain s1 m where s1: "(case cached of Some m \<Rightarrow> Some (s0, Some m) | None \<Rightarrow> ResolveMethod rt (op_id I) s0) = Some (s1, m)"
        using body Some False by (auto simp: bind_eq_Some_conv)
      have ok1: "roots_ok rt K s1" using s1 ok0 by (auto split: option.splits dest: rm.resolves [OF s(1) ok0] resolved_obj(1))
      show ?thesis
      proof (cases "IsStringClass rt k")
        case str: True
        show ?thesis
        proof (cases m)
          case None
          then show ?thesis using body Some False s1 str ok1 by auto
        next
          case m: (Some ctor)
          obtain a where a: "GetRefReg rt s1 (op_vreg I 0) = Some a" using body Some False s1 str m by (auto simp: bind_eq_Some_conv)
          obtain s2 ob where "rtCreateString rt s1 ctor a = (s2, ob)" by fastforce
          then show ?thesis using body Some False s1 str m a created_acc_ok [OF rt_okD(5) [OF s(1)] _ ok1] by simp
        qed
      next
        case str: False
        then obtain s2 where "UpdateBytecodeOffset s1 = Some s2" "InitializeObject_class FORMAT k m rt I s2 = Some s'"
          using body Some False s1 by (auto simp: bind_eq_Some_conv)
        then show ?thesis using ok1 by (blast intro: InitializeObject_class_ok [OF s(1)] roots_ok_UpdateBytecodeOffset)
      qed
    qed
  qed
qed

lemma SetFrameAcc_ok:
  assumes "roots_ok rt K s" "SetFrameAcc r s = Some s'" "reg_ok rt s r"
  shows "roots_ok rt K s'"
proof -
  obtain f where f: "GetFrame s = Some f" "s' = SetFrame s (f\<lparr>frame_acc := r\<rparr>)"
    using assms(2) by (auto simp: SetFrameAcc_def bind_eq_Some_conv)
  then show ?thesis using roots_ok_GetFrame [OF assms(1) f(1)] assms(3)
    by (auto simp: frame_ok_def intro!: roots_ok_SetFrame [OF assms(1) f(1)])
qed

lemma returns_preserve:
  "preserves chk_none HandleReturn" "preserves chk_none HandleReturnWide" "preserves chk_none HandleReturnVoid"
  by (rule preservesI; auto simp: HandleReturn_def HandleReturnWide_def HandleReturnVoid_def elim!: SetFrameAcc_ok [rotated])+

lemma HandleReturnObj_preserves: "preserves chk_acc_obj HandleReturnObj"
proof
  fix rt K I s s'
  assume s: "roots_ok rt K s" "chk_acc_obj K rt I s" "HandleReturnObj rt I s = Some s'"
  then show "roots_ok rt K s'" using reg_ok_ref [OF roots_okD(1) [OF s(1)]]
    by (auto simp: HandleReturnObj_def chk_acc_obj_def GetAccRef_def elim!: SetFrameAcc_ok [rotated])
qed

text \<open>Dropping frames, and an accumulator taken from one of them.\<close>

lemma roots_ok_drop:
  assumes "roots_ok rt K s" "heap s' = heap s" "statics s' = statics s" "set (frames s') \<subseteq> set (frames s)"
    "acc s' = acc s \<or> (\<exists>f \<in> set (frames s). acc s' = frame_acc f)"
  shows "roots_ok rt K s'"
proof -
  have "reg_ok rt s (acc s')" using assms(1,5) by (auto simp: frame_ok_def dest: roots_okD)
  then show ?thesis using assms(4) roots_okD [OF assms(1)] by (subst roots_ok_cong [OF assms(2,3)]) auto
qed

lemma HandleReturnStackless_ok:
  assumes "roots_ok rt K s" "HandleReturnStackless rt s = Some s'"
  shows "roots_ok rt K s'"
  using assms(2)
  by (auto simp: HandleReturnStackless_def MoveToExceptionHandler_def Let_def split: list.splits if_splits
      intro!: roots_ok_drop [OF assms(1)])

lemma FindCatchBlockStackless_ok:
  assumes "FindCatchBlockStackless rt s = Some (s', off)" "pending s \<noteq> None" "roots_ok rt K s"
  shows "roots_ok rt K s'" "heap s' = heap s"
proof -
  obtain k where "s' = unwound s k"
  proof (cases "frames s = []")
    case True
    then show thesis using assms(1) that [of 0] by (auto simp: FindCatchBlockStackless.simps [of rt s] unwound_def)
  next
    case False
    then show thesis using assms(1,2) FindCatchBlockStackless_unwinds [of s _ rt] that by fastforce
  qed
  then show "roots_ok rt K s'" "heap s' = heap s" by (auto intro!: roots_ok_drop [OF assms(3)] dest: in_set_dropD)
qed

section \<open>All handlers\<close>

text \<open>The handlers, grouped by the check that a verified program passes before them.\<close>

definition acc_value_handlers :: "handler list" where
  "acc_value_handlers =
     [HandleCmpWide, HandleUcmp, HandleUcmpWide, HandleFcmpl, HandleFcmplWide, HandleFcmpg, HandleFcmpgWide, HandleAdd2,
      HandleAdd2Wide, HandleFadd2, HandleFadd2Wide, HandleSub2, HandleSub2Wide, HandleFsub2, HandleFsub2Wide,
      HandleMul2, HandleMul2Wide, HandleFmul2, HandleFmul2Wide, HandleFdiv2, HandleFdiv2Wide, HandleFmod2,
      HandleFmod2Wide, HandleAnd2, HandleAnd2Wide, HandleOr2, HandleOr2Wide, HandleXor2, HandleXor2Wide, HandleShl2,
      HandleShl2Wide, HandleShr2, HandleShr2Wide, HandleAshr2, HandleAshr2Wide, HandleDiv2, HandleDiv2Wide, HandleMod2,
      HandleMod2Wide, HandleDivu2, HandleDivu2Wide, HandleModu2, HandleModu2Wide, HandleAddi, HandleSubi, HandleMuli,
      HandleAndi, HandleOri, HandleXori, HandleShli, HandleShri, HandleAshri, HandleDivi, HandleModi, HandleNeg,
      HandleNegWide, HandleFneg, HandleFnegWide, HandleNot, HandleNotWide, HandleU32toi64, HandleU32toi16,
      HandleU32tou16, HandleU32toi8, HandleU32tou8, HandleU32tou1, HandleI32toi64, HandleI32tou16, HandleI32toi16,
      HandleI32toi8, HandleI32tou8, HandleI32tou1, HandleI32tof32, HandleI32tof64, HandleU32tof32, HandleU32tof64,
      HandleI64toi32, HandleI64tou1, HandleI64tof32, HandleI64tof64, HandleU64toi32, HandleU64tou32, HandleU64tou1,
      HandleU64tof32, HandleU64tof64, HandleF32tof64, HandleF64tof32, HandleF32toi32, HandleF32toi64, HandleF32tou32,
      HandleF32tou64, HandleF64toi64, HandleF64toi32, HandleF64tou64, HandleF64tou32, HandleLdarr8, HandleLdarr16,
      HandleLdarr, HandleLdarrWide, HandleLdarru8, HandleLdarru16, HandleFldarr32, HandleFldarrWide]"

definition register_handlers :: "handler list" where
  "register_handlers =
     [HandleAdd2v, HandleAdd2vWide, HandleFadd2v, HandleFadd2vWide, HandleSub2v, HandleSub2vWide, HandleFsub2v,
      HandleFsub2vWide, HandleMul2v, HandleMul2vWide, HandleFmul2v, HandleFmul2vWide, HandleFdiv2v, HandleFdiv2vWide,
      HandleFmod2v, HandleFmod2vWide, HandleAnd2v, HandleAnd2vWide, HandleOr2v, HandleOr2vWide, HandleXor2v,
      HandleXor2vWide, HandleShl2v, HandleShl2vWide, HandleShr2v, HandleShr2vWide, HandleAshr2v, HandleAshr2vWide,
      HandleDiv2v, HandleDiv2vWide, HandleMod2v, HandleMod2vWide, HandleDivu2v, HandleDivu2vWide, HandleModu2v,
      HandleModu2vWide, HandleAdd, HandleSub, HandleMul, HandleAnd, HandleOr, HandleXor, HandleShl, HandleShr,
      HandleAshr, HandleDiv, HandleMod, HandleAddv, HandleSubv, HandleMulv, HandleAndv, HandleOrv, HandleXorv,
      HandleShlv, HandleShrv, HandleAshrv, HandleDivv, HandleModv, HandleAddiv, HandleSubiv, HandleMuliv, HandleAndiv,
      HandleOriv, HandleXoriv, HandleShliv, HandleShriv, HandleAshriv, HandleDiviv, HandleModiv, HandleJeqz, HandleJnez,
      HandleJltz, HandleJgtz, HandleJlez, HandleJgez, HandleJeq, HandleJne, HandleJlt, HandleJgt, HandleJle, HandleJge,
      HandleJeqzObj, HandleJnezObj, HandleJeqObj, HandleJneObj, HandleJmp]"

definition move_value_handlers :: "handler list" where
  "move_value_handlers =
     [HandleNop, HandleMov, HandleMovWide, HandleMovDyn, HandleMovi, HandleMoviWide, HandleFmovi, HandleFmoviWide,
      HandleMovNull, HandleLda, HandleLdaWide, HandleLdaDyn, HandleLdai, HandleLdaiWide, HandleFldai, HandleFldaiWide,
      HandleLdaNull, HandleSta, HandleStaWide, HandleStaDyn]"

definition object_handlers :: "handler list" where
  "object_handlers =
     [HandleLenarr, HandleLdaStr, HandleLdaType, HandleLdaConst, HandleNewarr, HandleNewobj, HandleLdobj,
      HandleLdobjWide, HandleLdobjObj, HandleLdobjV, HandleLdobjVWide, HandleLdobjVObj, HandleStobj, HandleStobjWide,
      HandleStobjV, HandleStobjVWide, HandleLdstatic, HandleLdstaticWide, HandleLdstaticObj, HandleStstatic,
      HandleStstaticWide, HandleCheckcast, HandleIsinstance, HandleThrow, HandleReturn, HandleReturnWide,
      HandleReturnVoid]"

definition call_handlers :: "handler list" where
  "call_handlers =
     [HandleCallShort, HandleCallAccShort, HandleCall, HandleCallAcc, HandleCallRange, HandleCallVirtShort,
      HandleCallVirtAccShort, HandleCallVirt, HandleCallVirtAcc, HandleCallVirtRange, HandleInitobj, HandleInitobjShort,
      HandleInitobjRange]"

definition acc_object_handlers :: "handler list" where
  "acc_object_handlers =
     [HandleStaObj, HandleStarrObj, HandleStobjObj, HandleStstaticObj, HandleReturnObj]"

definition array_store_handlers :: "handler list" where
  "array_store_handlers =
     [HandleStarr8, HandleStarr16, HandleStarr, HandleStarrWide, HandleFstarr32, HandleFstarrWide]"

lemmas call_definitions =
  HandleCallShort_def HandleCallAccShort_def HandleCall_def HandleCallAcc_def HandleCallRange_def
  HandleCallVirtShort_def HandleCallVirtAccShort_def HandleCallVirt_def HandleCallVirtAcc_def HandleCallVirtRange_def
  HandleInitobj_def HandleInitobjShort_def HandleInitobjRange_def

definition typed_isa :: "(handler \<times> check) list" where
  "typed_isa =
     map (\<lambda>h. (h, chk_acc_prim)) acc_value_handlers
     @ map (\<lambda>h. (h, chk_none)) (register_handlers @ move_value_handlers @ object_handlers @ call_handlers)
     @ map (\<lambda>h. (h, chk_acc_obj)) acc_object_handlers
     @ map (\<lambda>h. (h, chk_array False)) array_store_handlers
     @ [(HandleInci, chk_vreg0_prim), (HandleMovObj, chk_vreg1_obj), (HandleLdaObj, chk_vreg0_obj), (HandleStobjVObj, chk_vreg0_obj),
        (HandleLdarrObj, chk_array True)]"

lemma groups_preserve:
  "list_all (preserves chk_acc_prim) acc_value_handlers" "list_all (preserves chk_none) register_handlers"
  "list_all (preserves chk_none) move_value_handlers" "list_all (preserves chk_none) object_handlers"
  "list_all (preserves chk_none) call_handlers" "list_all (preserves chk_acc_obj) acc_object_handlers"
  "list_all (preserves (chk_array False)) array_store_handlers"
  subgoal by (simp add: acc_value_handlers_def HandleBinaryOp2_handlers HandleBinaryOp2Imm_handlers HandleUnaryOp_handlers HandleConversion_handlers HandleFloatToIntConversion_handlers HandleArrayPrimitiveLoad_handlers
        acc_ops_preserve array_load_preserves)
  subgoal by (simp add: register_handlers_def HandleBinaryOp2V_handlers HandleBinaryOp_handlers HandleBinaryOpV_handlers HandleBinaryOpImmV_handlers HandleCondJmpz_handlers HandleCondJmp_handlers HandleCondJmpzObj_handlers HandleCondJmpObj_handlers
        reg_ops_preserve jumps_preserve)
  subgoal by (simp add: move_value_handlers_def moves_preserve)
  subgoal by (simp add: object_handlers_def HandleLenarr_preserves HandleLdaStr_preserves HandleLdaType_preserves HandleLdaConst_preserves
        HandleNewarr_preserves HandleNewobj_preserves field_loads_preserve field_stores_preserve static_loads_preserve
        static_stores_preserve HandleCheckcast_preserves HandleIsinstance_preserves HandleThrow_preserves returns_preserve)
  subgoal by (simp add: call_handlers_def call_definitions call_direct_preserves call_virtual_preserves InitializeObject_preserves)
  subgoal by (simp add: acc_object_handlers_def HandleStaObj_preserves HandleStarrObj_preserves field_stores_preserve
        static_stores_preserve HandleReturnObj_preserves)
  subgoal by (simp add: array_store_handlers_def HandleArrayStore_handlers array_store_preserves)
  done

lemma typed_isa_preserves: "(h, c) \<in> set typed_isa \<Longrightarrow> preserves c h"
  using groups_preserve moves_preserve HandleMovObj_preserves HandleLdaObj_preserves field_stores_preserve HandleLdarrObj_preserves
  by (auto simp: typed_isa_def list_all_iff)

lemma ExceptionHandler_ok:
  assumes "roots_ok rt K s" "ExceptionHandler rt s = Some res"
    "\<And>e. pending s = Some e \<Longrightarrow> ref_ok s (GetReference (OBJECT_POINTER_SIZE rt) (rtExceptionObject rt e))"
  shows "roots_ok rt K (case res of Inl s' \<Rightarrow> s' | Inr s' \<Rightarrow> s')"
proof -
  obtain e where e: "pending s = Some e" using assms(2) by (auto simp: ExceptionHandler_def split: option.splits)
  obtain s1 off where s1: "FindCatchBlockStackless rt s = Some (s1, off)"
    using assms(2) e by (auto simp: ExceptionHandler_def bind_eq_Some_conv)
  have ok: "roots_ok rt K s1" using FindCatchBlockStackless_ok(1) [OF s1 _ assms(1)] e by simp
  show ?thesis
  proof (cases "off = INVALID_OFFSET")
    case True
    then show ?thesis using assms(2) e s1 ok by (auto simp: ExceptionHandler_def)
  next
    case False
    let ?r = "SetReference (OBJECT_POINTER_SIZE rt) (rtExceptionObject rt e)"
    obtain f where f: "GetFrame s1 = Some f" "res = Inr ((SetFrame s1 (f\<lparr>frame_acc := ?r\<rparr>))\<lparr>pending := None, acc := ?r, opcodeExtension := 0,
         cur_inst := MethodInstructions rt (frame_method f) + uint off\<rparr>)"
      using assms(2) e s1 False by (auto simp: ExceptionHandler_def bind_eq_Some_conv Let_def)
    have r: "reg_ok rt s1 ?r" using assms(3) [OF e] FindCatchBlockStackless_ok(2) [OF s1 _ assms(1)] e by (simp add: ref_ok_def)
    then have f1: "frame_ok rt s1 (f\<lparr>frame_acc := ?r\<rparr>)" using roots_ok_GetFrame [OF ok f(1)] by (simp add: frame_ok_def)
    have "roots_ok rt K (SetAcc ?r (SetFrame s1 (f\<lparr>frame_acc := ?r\<rparr>)))"
      using r by (intro roots_ok_SetAcc roots_ok_SetFrame [OF ok f(1) f1]) (simp add: ref_ok_def SetFrame_def)
    then show ?thesis unfolding f(2) sum.case by (rule roots_ok_same [THEN iffD2, rotated 4]) (simp_all add: SetAcc_def SetFrame_def)
  qed
qed

text \<open>
  C4: tags are truthful.  Every handler, run in a state in which each register tagged as an object holds null or the address of an
  object, with the operands it expects (a value or a reference in the accumulator or in its register, an array of the
  right kind), leaves such a state; so do the return to a calling frame and the exception handler.
\<close>

theorem interpreter_keeps_roots:
  assumes "rt_ok rt K" "roots_ok rt K s"
  shows "(\<forall>(h, c) \<in> set typed_isa. \<forall>I s'. c K rt I s \<longrightarrow> h rt I s = Some s' \<longrightarrow> roots_ok rt K s')
    \<and> (\<forall>s'. HandleReturnStackless rt s = Some s' \<longrightarrow> roots_ok rt K s')
    \<and> (\<forall>e res. pending s = Some e \<longrightarrow> ref_ok s (GetReference (OBJECT_POINTER_SIZE rt) (rtExceptionObject rt e)) \<longrightarrow>
         ExceptionHandler rt s = Some res \<longrightarrow> roots_ok rt K (case res of Inl s' \<Rightarrow> s' | Inr s' \<Rightarrow> s'))"
  using typed_isa_preserves HandleReturnStackless_ok [OF assms(2)] ExceptionHandler_ok [OF assms(2)] assms
  by (auto simp: preserves_def)

section \<open>Example\<close>

lemma roots_ok_tags: "keeps rt K s s"
  by (simp add: keeps_def)

lemma ex_alloc_gives:
  assumes "\<And>s. obj_ok ex_rt K s ob"
  shows "gives ex_rt K s (ex_alloc ob s)"
  using roots_ok_heap_upd [OF _ assms] by (simp add: gives_def keeps_def tags_def ex_alloc_def ref_ok_def GetReference_def ex_rt_def)

lemma ex_rt_sel:
  "Safepoint ex_rt s = s" "rtResolveField ex_rt s m i = (s, Some i)" "rtResolveClass ex_rt s m i = (s, Some i)"
  "rtResolveMethod ex_rt s m i = (s, Some i)" "rtResolveLiteralArray ex_rt s m i = (s, 0)" "rtCreateMultiArray ex_rt s I k l = (s, 0)"
  "rtCreateString ex_rt s m a = (s, 0)" "rtHandleLdaStr ex_rt s i = s" "CompiledCodeBridge ex_rt s m = s"
  "rtCreateObject ex_rt s k = ex_alloc \<lparr>obj_class = k, obj_fields = (\<lambda>_. 0), obj_elems = []\<rparr> s"
  "rtCreateArray ex_rt s k n = ex_alloc \<lparr>obj_class = k, obj_fields = (\<lambda>_. 0), obj_elems = replicate (nat n) 0\<rparr> s"
  by (simp_all add: ex_rt_def)

lemma ex_rt_ok: "rt_ok ex_rt (\<lambda>k. k = 2)"
proof -
  have "gives ex_rt (\<lambda>k. k = 2) s (s, 0)" for s by (simp add: gives_def roots_ok_tags)
  moreover have "gives ex_rt (\<lambda>k. k = 2) s (ex_alloc \<lparr>obj_class = k, obj_fields = (\<lambda>_. 0), obj_elems = replicate n 0\<rparr> s)" for s k n
    by (rule ex_alloc_gives) (simp add: obj_ok_def)
  from this [where n = 0] this
  have "gives ex_rt (\<lambda>k. k = 2) s (rtCreateObject ex_rt s k)" "gives ex_rt (\<lambda>k. k = 2) s (rtCreateArray ex_rt s k n)" for s k n
    by (simp_all add: ex_rt_sel)
  ultimately show ?thesis unfolding rt_ok_def by (simp add: ex_rt_sel(1-9) roots_ok_tags)
qed

lemma ex_state_roots_ok: "roots_ok ex_rt (\<lambda>k. k = 2) ex_state"
  by (simp add: roots_ok_def reg_ok_def frame_ok_def obj_ok_def HasObject_def ex_defs PRIMITIVE_TYPE_def GC_OBJECT_TYPE_def)

theorem interpreter_keeps_roots_witness:
  "rt_ok ex_rt (\<lambda>k. k = 2) \<and> roots_ok ex_rt (\<lambda>k. k = 2) ex_state
   \<and> (\<exists>s'. HandleNewobj ex_rt ex_bc ex_state = Some s' \<and> roots_ok ex_rt (\<lambda>k. k = 2) s'
        \<and> GetVReg s' 0 = Some (SetReference 4 64) \<and> heap s' 64 \<noteq> None)"
proof -
  have h: "(HandleNewobj, chk_none) \<in> set typed_isa" by (simp add: typed_isa_def object_handlers_def)
  have "\<exists>s'. HandleNewobj ex_rt ex_bc ex_state = Some s' \<and> GetVReg s' 0 = Some (SetReference 4 64) \<and> heap s' 64 \<noteq> None"
    by (simp add: HandleNewobj_def ResolveType_def resolve_cached_def Cache_Get_def Cache_Set_def SaveAcc_def RestoreAcc_def GetFrame_def
        SetFrame_def SetVReg_def GetVReg_def wr_def rd_def ex_alloc_def MoveToNextInst_def ex_defs)
  then show ?thesis using interpreter_keeps_roots [OF ex_rt_ok ex_state_roots_ok] ex_rt_ok ex_state_roots_ok h
    by (fastforce simp: chk_none_def)
qed

end
