(* ===== verification/UserLists.thy ===== *)
theory UserLists
  imports IrGraph "HOL-Library.Monad_Syntax"
begin

text \<open>
  The chains of users of the compiler's instructions (\<^verbatim>\<open>User\<close>, \<^verbatim>\<open>UserList\<close> and the operations on inputs and users of
  \<^verbatim>\<open>compiler/optimizer/ir/inst.h\<close>).

  An instruction owns one \<^verbatim>\<open>User\<close> node for each of its inputs; the node is linked, by pointers in the node itself, into the list of users
  of the instruction that is the input.  A node is named by its owner and its index; the pointers are maps from nodes and instructions,
  \<open>None\<close> is the null pointer.  An operation returns \<open>None\<close> where the source fails a check or an assertion.
  The other theories see only the inputs of instructions: here it is shown that the linked lists keep up with them.
\<close>

section \<open>Nodes and pointers\<close>

datatype user = User (GetInst: inst_id) (GetIndex: nat)

record user_lists =
  firstUser :: "inst_id \<Rightarrow> user option"
  GetNext :: "user \<Rightarrow> user option"
  GetPrev :: "user \<Rightarrow> user option"
  input :: "user \<Rightarrow> inst_id option"
  GetInputsCount :: "inst_id \<Rightarrow> nat"
  GetCapacity :: "inst_id \<Rightarrow> nat"
  GetBbNum :: "user \<Rightarrow> nat"
  OwnerIsPhi :: "inst_id \<Rightarrow> bool"
  OwnerIsSaveState :: "inst_id \<Rightarrow> bool"
  IsOperandsDynamic :: "inst_id \<Rightarrow> bool"
  HasBasicBlock :: "inst_id \<Rightarrow> bool"

text \<open>
  The last six fields matter to the instructions with a variable number of inputs, whose nodes are kept in a storage that grows (theory
  \<^verbatim>\<open>PhiOperands\<close>).  The number of a predecessor block and the virtual register of a save state share their bits in the node:
  \<open>GetBbNum\<close> is what these bits hold.
\<close>

definition HasUsers :: "inst_id \<Rightarrow> user_lists \<Rightarrow> bool" where
  "HasUsers d s \<longleftrightarrow> firstUser s d \<noteq> None"

definition HasSingleUser :: "inst_id \<Rightarrow> user_lists \<Rightarrow> bool" where
  "HasSingleUser d s \<longleftrightarrow> (case firstUser s d of None \<Rightarrow> False | Some u \<Rightarrow> GetNext s u = None)"

definition AddUser :: "inst_id \<Rightarrow> user \<Rightarrow> user_lists \<Rightarrow> user_lists option" where
  "AddUser d u s =
     (let first = firstUser s d;
          s = s\<lparr>GetNext := (GetNext s)(u := first), GetPrev := (GetPrev s)(u := None)\<rparr>
      in case first of
           None \<Rightarrow> Some (s\<lparr>firstUser := (firstUser s)(d := Some u)\<rparr>)
         | Some f \<Rightarrow>
             if GetPrev s f \<noteq> None then None
             else Some (s\<lparr>GetPrev := (GetPrev s)(f := Some u), firstUser := (firstUser s)(d := Some u)\<rparr>))"

definition User_Remove :: "user \<Rightarrow> user_lists \<Rightarrow> user_lists" where
  "User_Remove u s =
     (let s = (case GetPrev s u of None \<Rightarrow> s | Some p \<Rightarrow> s\<lparr>GetNext := (GetNext s)(p := GetNext s u)\<rparr>)
      in case GetNext s u of None \<Rightarrow> s | Some n \<Rightarrow> s\<lparr>GetPrev := (GetPrev s)(n := GetPrev s u)\<rparr>)"

definition RemoveUser :: "inst_id \<Rightarrow> user \<Rightarrow> user_lists \<Rightarrow> user_lists option" where
  "RemoveUser d u s =
     (if \<not> HasUsers d s then None
      else Some (User_Remove u
             (if firstUser s d = Some u then s\<lparr>firstUser := (firstUser s)(d := GetNext s u)\<rparr> else s)))"

definition SetInput :: "inst_id \<Rightarrow> nat \<Rightarrow> inst_id option \<Rightarrow> user_lists \<Rightarrow> user_lists option" where
  "SetInput i index x s =
     (if \<not> index < GetInputsCount s i then None
      else do {
        s \<leftarrow> (case input s (User i index) of
               Some d \<Rightarrow> if HasUsers d s then RemoveUser d (User i index) s else Some s
             | None \<Rightarrow> Some s);
        s \<leftarrow> (case x of Some d \<Rightarrow> AddUser d (User i index) s | None \<Rightarrow> Some s);
        Some (s\<lparr>input := (input s)((User i index) := x)\<rparr>) })"

text \<open>The loop of \<^verbatim>\<open>ReplaceUsers\<close> restarts at the first user until there is none.\<close>

partial_function (option) ReplaceUsers_loop :: "inst_id \<Rightarrow> inst_id \<Rightarrow> user_lists \<Rightarrow> user_lists option" where
  "ReplaceUsers_loop self x s =
     (case firstUser s self of
        None \<Rightarrow> Some s
      | Some u \<Rightarrow> do { s \<leftarrow> SetInput (GetInst u) (GetIndex u) (Some x) s; ReplaceUsers_loop self x s })"

definition ReplaceUsers_list :: "inst_id \<Rightarrow> inst_id \<Rightarrow> user_lists \<Rightarrow> user_lists option" where
  "ReplaceUsers_list self x s = (if x = self then None else ReplaceUsers_loop self x s)"

definition SwapInputs :: "inst_id \<Rightarrow> user_lists \<Rightarrow> user_lists option" where
  "SwapInputs i s =
     (if \<not> 2 \<le> GetInputsCount s i then None
      else do { s' \<leftarrow> SetInput i 0 (input s (User i 1)) s; SetInput i 1 (input s (User i 0)) s' })"

fun ReplaceInput_from :: "inst_id \<Rightarrow> nat \<Rightarrow> inst_id \<Rightarrow> inst_id \<Rightarrow> nat \<Rightarrow> user_lists \<Rightarrow> user_lists option" where
  "ReplaceInput_from i index old new 0 s = Some s"
| "ReplaceInput_from i index old new (Suc k) s =
     do { s \<leftarrow> (if input s (User i index) = Some old then SetInput i index (Some new) s else Some s);
          ReplaceInput_from i (index + 1) old new k s }"

definition ReplaceInput :: "inst_id \<Rightarrow> inst_id \<Rightarrow> inst_id \<Rightarrow> user_lists \<Rightarrow> user_lists option" where
  "ReplaceInput i old new s = ReplaceInput_from i 0 old new (GetInputsCount s i) s"

text \<open>\<^verbatim>\<open>RemoveUsers<false>\<close> unlinks the users and leaves their inputs as they are.\<close>

partial_function (option) RemoveUsers :: "inst_id \<Rightarrow> user_lists \<Rightarrow> user_lists option" where
  "RemoveUsers d s =
     (case firstUser s d of None \<Rightarrow> Some s | Some u \<Rightarrow> do { s \<leftarrow> RemoveUser d u s; RemoveUsers d s })"

section \<open>Well-formed chains\<close>

fun linked :: "user_lists \<Rightarrow> user option \<Rightarrow> user option \<Rightarrow> user list \<Rightarrow> bool" where
  "linked s p x [] \<longleftrightarrow> x = None"
| "linked s p x (u # us) \<longleftrightarrow> x = Some u \<and> GetPrev s u = p \<and> linked s (Some u) (GetNext s u) us"

definition valid_user :: "user_lists \<Rightarrow> user \<Rightarrow> bool" where
  "valid_user s u \<longleftrightarrow> GetIndex u < GetInputsCount s (GetInst u)"

text \<open>The links are all that a state may differ in from another one.\<close>

definition relinked :: "user_lists \<Rightarrow> user_lists \<Rightarrow> bool" where
  "relinked s s' \<longleftrightarrow> s' = s\<lparr>firstUser := firstUser s', GetNext := GetNext s', GetPrev := GetPrev s'\<rparr>"

lemma relinked_refl [simp]: "relinked s s"
  by (simp add: relinked_def)

lemma relinked_fields:
  assumes "relinked s s'"
  shows "input s' = input s" "GetInputsCount s' = GetInputsCount s" "GetCapacity s' = GetCapacity s" "GetBbNum s' = GetBbNum s"
    "OwnerIsPhi s' = OwnerIsPhi s" "OwnerIsSaveState s' = OwnerIsSaveState s" "IsOperandsDynamic s' = IsOperandsDynamic s"
    "HasBasicBlock s' = HasBasicBlock s" "valid_user s' = valid_user s"
proof -
  have "s' = s\<lparr>firstUser := firstUser s', GetNext := GetNext s', GetPrev := GetPrev s'\<rparr>" using assms by (simp add: relinked_def)
  then obtain F N P where s': "s' = s\<lparr>firstUser := F, GetNext := N, GetPrev := P\<rparr>" by blast
  show "input s' = input s" "GetInputsCount s' = GetInputsCount s" "GetCapacity s' = GetCapacity s" "GetBbNum s' = GetBbNum s"
    "OwnerIsPhi s' = OwnerIsPhi s" "OwnerIsSaveState s' = OwnerIsSaveState s" "IsOperandsDynamic s' = IsOperandsDynamic s"
    "HasBasicBlock s' = HasBasicBlock s" "valid_user s' = valid_user s"
    by (simp_all add: s' fun_eq_iff valid_user_def)
qed

lemma relinked_trans: "relinked s s' \<Longrightarrow> relinked s' s'' \<Longrightarrow> relinked s s''"
  unfolding relinked_def by (cases s; cases s'; cases s'') simp

lemma linked_unique: "linked s p x us \<Longrightarrow> linked s p x vs \<Longrightarrow> us = vs"
proof (induction us arbitrary: p x vs)
  case Nil
  then show ?case by (cases vs) auto
next
  case (Cons u us)
  then show ?case by (cases vs) auto
qed

lemma linked_cong:
  "(\<And>u. u \<in> set us \<Longrightarrow> GetNext s' u = GetNext s u \<and> GetPrev s' u = GetPrev s u) \<Longrightarrow> linked s' p x us = linked s p x us"
  by (induction us arbitrary: p x) auto

text \<open>Around a node of a chain, and a chain without the node.\<close>

lemma linked_split:
  "linked s p x (as @ u # bs) \<Longrightarrow>
     GetPrev s u = (if as = [] then p else Some (last as)) \<and> linked s (Some u) (GetNext s u) bs
     \<and> x = Some (hd (as @ [u])) \<and> (as \<noteq> [] \<longrightarrow> GetNext s (last as) = Some u)"
proof (induction as arbitrary: p x)
  case Nil
  then show ?case by simp
next
  case (Cons a as)
  then have "linked s (Some a) (GetNext s a) (as @ u # bs)" by simp
  from Cons.IH [OF this] Cons.prems show ?case by (cases as) auto
qed

lemma linked_next: "linked s p x us \<Longrightarrow> x = (case us of [] \<Rightarrow> None | u # _ \<Rightarrow> Some u)"
  by (cases us) auto

lemma linked_bridge:
  assumes "linked s (Some u) x bs" "distinct bs"
    "\<And>w. w \<in> set bs \<Longrightarrow> GetNext s' w = GetNext s w" "\<And>w. w \<in> set bs \<Longrightarrow> GetPrev s' w = (if w = hd bs then q else GetPrev s w)"
  shows "linked s' q x bs"
proof (cases bs)
  case Nil
  then show ?thesis using assms(1) by simp
next
  case (Cons b cs)
  have "linked s' (Some b) (GetNext s' b) cs = linked s (Some b) (GetNext s' b) cs"
    using assms Cons by (intro linked_cong) auto
  then show ?thesis using assms Cons by simp
qed

lemma linked_remove:
  assumes "linked s p x (as @ u # bs)" "distinct (as @ u # bs)"
    "\<And>w. w \<in> set as \<union> set bs \<Longrightarrow> GetNext s' w = (if as \<noteq> [] \<and> w = last as then GetNext s u else GetNext s w)"
    "\<And>w. w \<in> set as \<union> set bs \<Longrightarrow> GetPrev s' w = (if bs \<noteq> [] \<and> w = hd bs then GetPrev s u else GetPrev s w)"
  shows "linked s' p (if as = [] then GetNext s u else x) (as @ bs)"
  using assms
proof (induction as arbitrary: p x)
  case Nil
  then have "linked s (Some u) (GetNext s u) bs" "GetPrev s u = p" by simp_all
  moreover have "linked s' p (GetNext s u) bs"
  proof (rule linked_bridge)
    show "linked s (Some u) (GetNext s u) bs" "distinct bs" using Nil.prems(1,2) by simp_all
    show "GetNext s' w = GetNext s w" if "w \<in> set bs" for w using Nil.prems(3) [of w] that by simp
    show "GetPrev s' w = (if w = hd bs then p else GetPrev s w)" if "w \<in> set bs" for w
      using Nil.prems(4) [of w] that calculation(2) by (cases bs) auto
  qed
  ultimately show ?case by simp
next
  case (Cons a as)
  have l: "x = Some a" "GetPrev s a = p" "linked s (Some a) (GetNext s a) (as @ u # bs)" using Cons.prems(1) by simp_all
  have a: "GetPrev s' a = p" using Cons.prems(2,4) l(2) by auto
  show ?case
  proof (cases "as = []")
    case True
    have u: "GetPrev s u = Some a" "linked s (Some u) (GetNext s u) bs" using l(3) True by simp_all
    have "linked s' (Some a) (GetNext s u) bs"
    proof (rule linked_bridge [OF u(2)])
      show "distinct bs" using Cons.prems(2) by simp
      show "GetNext s' w = GetNext s w" if "w \<in> set bs" for w using Cons.prems(2) Cons.prems(3) [of w] True that by auto
      show "GetPrev s' w = (if w = hd bs then Some a else GetPrev s w)" if "w \<in> set bs" for w
        using Cons.prems(4) [of w] that u(1) by (cases bs) auto
    qed
    moreover have "GetNext s' a = GetNext s u" using Cons.prems(3) True by simp
    ultimately show ?thesis using True l(1) a by simp
  next
    case False
    have "linked s' (Some a) (if as = [] then GetNext s u else GetNext s a) (as @ bs)"
      using Cons.prems(2-4) False by (intro Cons.IH [OF l(3)]) auto
    moreover have "GetNext s' a = GetNext s a" using Cons.prems(2,3) False by auto
    ultimately show ?thesis using False l(1) a by simp
  qed
qed

section \<open>The operations keep the chains\<close>

text \<open>Removing and adding a node changes pointers of nodes of the affected chain only.\<close>

lemma RemoveUser_linked:
  assumes "linked s None (firstUser s d) (as @ u # bs)" "distinct (as @ u # bs)"
  shows "\<exists>s'. RemoveUser d u s = Some s' \<and> linked s' None (firstUser s' d) (as @ bs)
    \<and> (\<forall>e. e \<noteq> d \<longrightarrow> firstUser s' e = firstUser s e)
    \<and> (\<forall>w. w \<notin> set (as @ u # bs) \<longrightarrow> GetNext s' w = GetNext s w \<and> GetPrev s' w = GetPrev s w)
    \<and> relinked s s'"
proof -
  have sp: "GetPrev s u = (if as = [] then None else Some (last as))" "linked s (Some u) (GetNext s u) bs"
    "firstUser s d = Some (hd (as @ [u]))" using linked_split [OF assms(1)] by auto
  have n: "GetNext s u = (if bs = [] then None else Some (hd bs))" using linked_next [OF sp(2)] by (cases bs) auto
  let ?s = "User_Remove u (if firstUser s d = Some u then s\<lparr>firstUser := (firstUser s)(d := GetNext s u)\<rparr> else s)"
  have first: "firstUser s d = Some u \<longleftrightarrow> as = []" using sp(3) assms(2) by (cases as) auto
  have N: "GetNext ?s w = (if as \<noteq> [] \<and> w = last as then GetNext s u else GetNext s w)" for w
    using sp(1) n by (auto simp: User_Remove_def Let_def)
  have ne: "last as \<noteq> u" if "as \<noteq> []" using that assms(2) by (metis disjoint_iff distinct_append last_in_set list.set_intros(1))
  have P: "GetPrev ?s w = (if bs \<noteq> [] \<and> w = hd bs then GetPrev s u else GetPrev s w)" for w
    using sp(1) n ne by (auto simp: User_Remove_def Let_def)
  have "linked ?s None (if as = [] then GetNext s u else firstUser s d) (as @ bs)"
    using linked_remove [OF assms(1,2), of ?s] N P by simp
  moreover have "firstUser ?s d = (if as = [] then GetNext s u else firstUser s d)" "\<forall>e. e \<noteq> d \<longrightarrow> firstUser ?s e = firstUser s e"
    "relinked s ?s"
    using first by (auto simp: User_Remove_def Let_def relinked_def split: option.splits)
  moreover have "\<forall>w. w \<notin> set (as @ u # bs) \<longrightarrow> GetNext ?s w = GetNext s w \<and> GetPrev ?s w = GetPrev s w" using N P by auto
  moreover have "RemoveUser d u s = Some ?s" using sp(3) by (simp add: RemoveUser_def HasUsers_def)
  ultimately show ?thesis by (intro exI [of _ ?s]) simp
qed

lemma AddUser_linked:
  assumes "linked s None (firstUser s d) us" "u \<notin> set us" "distinct us"
  shows "\<exists>s'. AddUser d u s = Some s' \<and> linked s' None (firstUser s' d) (u # us)
    \<and> (\<forall>e. e \<noteq> d \<longrightarrow> firstUser s' e = firstUser s e)
    \<and> (\<forall>w. w \<notin> set (u # us) \<longrightarrow> GetNext s' w = GetNext s w \<and> GetPrev s' w = GetPrev s w)
    \<and> relinked s s'"
proof (cases us)
  case Nil
  then show ?thesis using assms(1) by (simp add: AddUser_def relinked_def)
next
  case (Cons v vs)
  let ?s = "s\<lparr>GetNext := (GetNext s)(u := Some v), GetPrev := (GetPrev s)(u := None, v := Some u), firstUser := (firstUser s)(d := Some u)\<rparr>"
  have l: "firstUser s d = Some v" "GetPrev s v = None" "linked s (Some v) (GetNext s v) vs" "u \<noteq> v" using assms Cons by auto
  have "linked ?s (Some v) (GetNext s v) vs = linked s (Some v) (GetNext s v) vs" using assms(2,3) Cons by (intro linked_cong) auto
  then have "AddUser d u s = Some ?s" "linked ?s None (firstUser ?s d) (u # us)" using l Cons by (simp_all add: AddUser_def Let_def)
  then show ?thesis using Cons by (intro exI [of _ ?s]) (simp add: relinked_def)
qed

text \<open>All lists at once: every instruction has its list, no node is in two lists or twice in one.\<close>

definition links_are :: "user_lists \<Rightarrow> (inst_id \<Rightarrow> user list) \<Rightarrow> bool" where
  "links_are s U \<longleftrightarrow>
     (\<forall>d. linked s None (firstUser s d) (U d) \<and> distinct (U d)) \<and> (\<forall>d e. d \<noteq> e \<longrightarrow> set (U d) \<inter> set (U e) = {})"

lemma links_areD:
  assumes "links_are s U"
  shows "linked s None (firstUser s d) (U d)" "distinct (U d)" "u \<in> set (U d) \<Longrightarrow> u \<in> set (U e) \<Longrightarrow> d = e"
  using assms by (auto simp: links_are_def)

lemma links_are_HasUsers: "links_are s U \<Longrightarrow> HasUsers d s \<longleftrightarrow> U d \<noteq> []"
  using links_areD(1) [of s U d] by (cases "U d") (auto simp: HasUsers_def)

lemma links_are_update:
  assumes "links_are s U" "linked s' None (firstUser s' d) us" "distinct us"
    "\<And>e. e \<noteq> d \<Longrightarrow> firstUser s' e = firstUser s e" "\<And>e. e \<noteq> d \<Longrightarrow> set us \<inter> set (U e) = {}"
    "\<And>w. w \<notin> set us \<union> set (U d) \<Longrightarrow> GetNext s' w = GetNext s w \<and> GetPrev s' w = GetPrev s w"
  shows "links_are s' (U(d := us))"
proof -
  have "linked s' None (firstUser s' e) (U e)" if "e \<noteq> d" for e
  proof -
    have "linked s' None (firstUser s' e) (U e) = linked s None (firstUser s' e) (U e)"
      using assms(5) [OF that] links_areD(3) [OF assms(1), of _ d e] that by (intro linked_cong assms(6)) blast
    then show ?thesis using links_areD(1) [OF assms(1)] assms(4) [OF that] by simp
  qed
  then show ?thesis using assms(1-3,5) by (auto simp: links_are_def)
qed

lemma RemoveUser_links:
  assumes "links_are s U" "u \<in> set (U d)"
  shows "\<exists>s'. RemoveUser d u s = Some s' \<and> relinked s s' \<and> links_are s' (U(d := remove1 u (U d)))"
proof -
  obtain as bs where ab: "U d = as @ u # bs" "u \<notin> set as" using split_list_first [OF assms(2)] by blast
  have d: "linked s None (firstUser s d) (as @ u # bs)" "distinct (as @ u # bs)" using links_areD(1,2) [OF assms(1), of d] ab(1) by simp_all
  obtain s' where s': "RemoveUser d u s = Some s'" "linked s' None (firstUser s' d) (as @ bs)"
    "\<forall>e. e \<noteq> d \<longrightarrow> firstUser s' e = firstUser s e"
    "\<forall>w. w \<notin> set (as @ u # bs) \<longrightarrow> GetNext s' w = GetNext s w \<and> GetPrev s' w = GetPrev s w"
    "relinked s s'" using RemoveUser_linked [OF d] by blast
  have "set (as @ bs) \<inter> set (U e) = {}" if "e \<noteq> d" for e
    using links_areD(3) [OF assms(1), of _ d e] that ab(1) by auto
  then have "links_are s' (U(d := as @ bs))"
    using s'(2-4) d(2) ab(1) by (intro links_are_update [OF assms(1)]) auto
  moreover have "remove1 u (U d) = as @ bs" using ab by (simp add: remove1_append)
  ultimately show ?thesis using s'(1,5) by simp
qed

lemma AddUser_links:
  assumes "links_are s U" "\<And>e. u \<notin> set (U e)"
  shows "\<exists>s'. AddUser d u s = Some s' \<and> relinked s s' \<and> links_are s' (U(d := u # U d))"
proof -
  obtain s' where s': "AddUser d u s = Some s'" "linked s' None (firstUser s' d) (u # U d)"
    "\<forall>e. e \<noteq> d \<longrightarrow> firstUser s' e = firstUser s e"
    "\<forall>w. w \<notin> set (u # U d) \<longrightarrow> GetNext s' w = GetNext s w \<and> GetPrev s' w = GetPrev s w"
    "relinked s s'" using AddUser_linked [OF links_areD(1) [OF assms(1)] assms(2) links_areD(2) [OF assms(1)]] by blast
  have "set (u # U d) \<inter> set (U e) = {}" if "e \<noteq> d" for e
    using links_areD(3) [OF assms(1), of _ d e] assms(2) that by auto
  then have "links_are s' (U(d := u # U d))"
    using s'(2-4) links_areD(2) [OF assms(1)] assms(2) by (intro links_are_update [OF assms(1)]) auto
  then show ?thesis using s'(1,5) by blast
qed

section \<open>What the lists promise\<close>

text \<open>
  Lists of nodes where a node is in at most one list: what the rest of the compiler may rely on.  \<open>same\<close> relates two states that
  differ in the lists only.
\<close>

locale node_lists =
  fixes are :: "'s \<Rightarrow> ('d \<Rightarrow> 'n list) \<Rightarrow> bool"
    and add remove :: "'d \<Rightarrow> 'n \<Rightarrow> 's \<Rightarrow> 's option"
    and same :: "'s \<Rightarrow> 's \<Rightarrow> bool"
  assumes once: "are s U \<Longrightarrow> u \<in> set (U d) \<Longrightarrow> u \<in> set (U e) \<Longrightarrow> d = e"
    and distinct_list: "are s U \<Longrightarrow> distinct (U d)"
    and remove_law: "are s U \<Longrightarrow> u \<in> set (U d) \<Longrightarrow>
      \<exists>s'. remove d u s = Some s' \<and> same s s' \<and> are s' (U(d := remove1 u (U d)))"
    and add_law: "are s U \<Longrightarrow> (\<And>e. u \<notin> set (U e)) \<Longrightarrow> \<exists>s'. add d u s = Some s' \<and> same s s' \<and> are s' (U(d := u # U d))"
    and same_trans: "same s s' \<Longrightarrow> same s' s'' \<Longrightarrow> same s s''"
begin

lemma removed_nowhere: "are s U \<Longrightarrow> u \<in> set (U d) \<Longrightarrow> u \<notin> set ((U(d := remove1 u (U d))) e)"
  using once [of s U u d e] distinct_list [of s U d] by (cases "e = d") auto

lemma move:
  assumes "are s U" "u \<in> set (U d)"
  shows "\<exists>s1 s2. remove d u s = Some s1 \<and> add e u s1 = Some s2 \<and> same s s2
    \<and> are s2 ((U(d := remove1 u (U d)))(e := u # (U(d := remove1 u (U d))) e))"
proof -
  obtain s1 where s1: "remove d u s = Some s1" "same s s1" "are s1 (U(d := remove1 u (U d)))"
    using remove_law [OF assms] by blast
  obtain s2 where "add e u s1 = Some s2" "same s1 s2"
    "are s2 ((U(d := remove1 u (U d)))(e := u # (U(d := remove1 u (U d))) e))"
    using add_law [OF s1(3) removed_nowhere [OF assms]] by blast
  then show ?thesis using s1(1,2) same_trans by blast
qed

text \<open>A node can be replaced by another one that is in no list.\<close>

lemma exchange:
  assumes "are s U" "u \<in> set (U d)" "\<And>e. v \<notin> set (U e)"
  shows "\<exists>s1 s2. remove d u s = Some s1 \<and> add d v s1 = Some s2 \<and> same s s2 \<and> are s2 (U(d := v # remove1 u (U d)))"
proof -
  obtain s1 where s1: "remove d u s = Some s1" "same s s1" "are s1 (U(d := remove1 u (U d)))"
    using remove_law [OF assms(1,2)] by blast
  have "v \<notin> set ((U(d := remove1 u (U d))) e)" for e using assms(3) by (auto dest: notin_set_remove1)
  then obtain s2 where "add d v s1 = Some s2" "same s1 s2" "are s2 (U(d := v # remove1 u (U d)))"
    using add_law [OF s1(3), of v d] by (auto simp del: fun_upd_apply) (auto simp: fun_upd_same)
  then show ?thesis using s1(1,2) same_trans by blast
qed

end

interpretation users: node_lists links_are AddUser RemoveUser relinked
proof
  show "d = e" if "links_are s U" "u \<in> set (U d)" "u \<in> set (U e)" for s U u d e
    using links_areD(3) that by blast
  show "distinct (U d)" if "links_are s U" for s U d using links_areD(2) that by blast
qed (use RemoveUser_links AddUser_links relinked_trans in blast)+

section \<open>The inputs and the lists of users\<close>

definition users_are :: "user_lists \<Rightarrow> (inst_id \<Rightarrow> user list) \<Rightarrow> bool" where
  "users_are s U \<longleftrightarrow> links_are s U \<and> (\<forall>d u. u \<in> set (U d) \<longleftrightarrow> input s u = Some d \<and> valid_user s u)"

definition users_ok :: "user_lists \<Rightarrow> bool" where
  "users_ok s \<longleftrightarrow> (\<exists>U. users_are s U)"

lemma users_areD:
  assumes "users_are s U"
  shows "links_are s U" "u \<in> set (U d) \<longleftrightarrow> input s u = Some d \<and> valid_user s u"
  using assms by (auto simp: users_are_def)

text \<open>The lists are determined by the state.\<close>

lemma users_are_unique: "users_are s U \<Longrightarrow> users_are s V \<Longrightarrow> U = V"
  by (intro ext linked_unique) (auto simp: users_are_def links_are_def)

text \<open>
  \<^verbatim>\<open>SetInput\<close> moves the node from the list of the old input to the front of the list of the new one.
\<close>

definition unlisted :: "(inst_id \<Rightarrow> user list) \<Rightarrow> user \<Rightarrow> inst_id option \<Rightarrow> inst_id \<Rightarrow> user list" where
  "unlisted U u x = (case x of None \<Rightarrow> U | Some d \<Rightarrow> U(d := remove1 u (U d)))"

definition listed :: "(inst_id \<Rightarrow> user list) \<Rightarrow> user \<Rightarrow> inst_id option \<Rightarrow> inst_id \<Rightarrow> user list" where
  "listed U u x = (case x of None \<Rightarrow> U | Some d \<Rightarrow> U(d := u # U d))"

lemma SetInput_ok:
  assumes "users_are s U" "index < GetInputsCount s i"
  defines "u \<equiv> User i index"
  shows "\<exists>s1. SetInput i index x s = Some (s1\<lparr>input := (input s)(u := x)\<rparr>) \<and> relinked s s1
    \<and> users_are (s1\<lparr>input := (input s)(u := x)\<rparr>) (listed (unlisted U u (input s u)) u x)"
proof -
  have v: "valid_user s u" using assms(2) by (simp add: valid_user_def u_def)
  note L = users_areD(1) [OF assms(1)]
  have mem: "w \<in> set (unlisted U u (input s u) e) \<longleftrightarrow> w \<noteq> u \<and> input s w = Some e \<and> valid_user s w" for w e
    using users_areD(2) [OF assms(1), of w e] links_areD(2) [OF L] v
    by (auto simp: unlisted_def set_remove1_eq split: option.splits)
  obtain s1 where s1: "(case input s u of Some d \<Rightarrow> if HasUsers d s then RemoveUser d u s else Some s | None \<Rightarrow> Some s) = Some s1"
    "relinked s s1" "links_are s1 (unlisted U u (input s u))"
  proof (cases "input s u")
    case None
    then show thesis using that [of s] L by (simp add: unlisted_def)
  next
    case (Some d)
    then have u: "u \<in> set (U d)" using users_areD(2) [OF assms(1), of u d] v by simp
    then have "HasUsers d s" using links_are_HasUsers [OF L, of d] by (cases "U d") simp_all
    moreover obtain s' where "RemoveUser d u s = Some s'" "relinked s s'" "links_are s' (U(d := remove1 u (U d)))"
      using users.remove_law [OF L u] by blast
    ultimately show thesis using that [of s'] Some by (simp add: unlisted_def)
  qed
  obtain s2 where s2: "(case x of Some d \<Rightarrow> AddUser d u s1 | None \<Rightarrow> Some s1) = Some s2" "relinked s1 s2"
    "links_are s2 (listed (unlisted U u (input s u)) u x)"
  proof (cases x)
    case None
    then show thesis using that [of s1] s1(3) by (simp add: listed_def)
  next
    case (Some d)
    have "u \<notin> set (unlisted U u (input s u) e)" for e using mem by simp
    from users.add_law [OF s1(3) this] obtain s' where
      "AddUser d u s1 = Some s'" "relinked s1 s'" "links_are s' (listed (unlisted U u (input s u)) u x)"
      unfolding listed_def Some option.case by blast
    then show thesis using that [of s'] Some by simp
  qed
  let ?s = "s2\<lparr>input := (input s)(u := x)\<rparr>"
  have r: "relinked s s2" using s1(2) s2(2) by (rule relinked_trans)
  have "linked ?s p y us = linked s2 p y us" for p y us by (rule linked_cong) simp
  then have "links_are ?s (listed (unlisted U u (input s u)) u x)" using s2(3) by (simp add: links_are_def)
  moreover have "w \<in> set (listed (unlisted U u (input s u)) u x d) \<longleftrightarrow> input ?s w = Some d \<and> valid_user ?s w" for d w
    using mem [of w d] v relinked_fields [OF r] by (auto simp: listed_def valid_user_def split: option.splits)
  ultimately have "users_are ?s (listed (unlisted U u (input s u)) u x)" unfolding users_are_def by blast
  moreover have "SetInput i index x s = Some ?s"
    using s1(1) s2(1) assms(2) relinked_fields [OF r] unfolding SetInput_def u_def [symmetric] by simp
  ultimately show ?thesis using r by blast
qed

text \<open>What the operations built on \<^verbatim>\<open>SetInput\<close> need of it.\<close>

definition inputs_set :: "user_lists \<Rightarrow> (user \<Rightarrow> inst_id option) \<Rightarrow> user_lists \<Rightarrow> bool" where
  "inputs_set s f s' \<longleftrightarrow> users_ok s' \<and> (\<exists>s1. relinked s s1 \<and> s' = s1\<lparr>input := f\<rparr>)"

lemma inputs_set_fields:
  assumes "inputs_set s f s'"
  shows "users_ok s'" "input s' = f" "GetInputsCount s' = GetInputsCount s" "HasBasicBlock s' = HasBasicBlock s"
    "GetBbNum s' = GetBbNum s" "GetCapacity s' = GetCapacity s" "OwnerIsPhi s' = OwnerIsPhi s"
    "OwnerIsSaveState s' = OwnerIsSaveState s" "IsOperandsDynamic s' = IsOperandsDynamic s"
  using assms by (auto simp: inputs_set_def dest: relinked_fields)

lemma inputs_set_refl: "users_ok s \<Longrightarrow> inputs_set s (input s) s"
  by (auto simp: inputs_set_def intro: exI [of _ s])

lemma inputs_set_trans:
  assumes "inputs_set s f s'" "inputs_set s' g s''"
  shows "inputs_set s g s''"
proof -
  obtain s1 s2 where s: "relinked s s1" "s' = s1\<lparr>input := f\<rparr>" "relinked s' s2" "s'' = s2\<lparr>input := g\<rparr>" "users_ok s''"
    using assms by (auto simp: inputs_set_def)
  have "relinked s1 (s2\<lparr>input := input s1\<rparr>)" using s(2,3) unfolding relinked_def by (cases s1; cases s2) simp
  with s(1) have "relinked s (s2\<lparr>input := input s1\<rparr>)" by (rule relinked_trans)
  moreover have "s'' = s2\<lparr>input := input s1\<rparr>\<lparr>input := g\<rparr>" using s(4) by simp
  ultimately show ?thesis using s(5) unfolding inputs_set_def by blast
qed

lemma SetInput_inputs:
  assumes "users_ok s" "index < GetInputsCount s i"
  shows "\<exists>s'. SetInput i index x s = Some s' \<and> inputs_set s ((input s)(User i index := x)) s'"
proof -
  obtain U where "users_are s U" using assms(1) by (auto simp: users_ok_def)
  from SetInput_ok [OF this assms(2), of x] show ?thesis unfolding inputs_set_def users_ok_def by blast
qed

lemma SwapInputs_inputs:
  assumes "users_ok s" "2 \<le> GetInputsCount s i"
  shows "\<exists>s'. SwapInputs i s = Some s' \<and>
    inputs_set s ((input s)(User i 0 := input s (User i 1), User i 1 := input s (User i 0))) s'"
proof -
  obtain s1 where s1: "SetInput i 0 (input s (User i 1)) s = Some s1" "inputs_set s ((input s)(User i 0 := input s (User i 1))) s1"
    using SetInput_inputs [OF assms(1), of 0 i] assms(2) by auto
  note f = inputs_set_fields [OF s1(2)]
  obtain s2 where s2: "SetInput i 1 (input s (User i 0)) s1 = Some s2" "inputs_set s1 ((input s1)(User i 1 := input s (User i 0))) s2"
    using SetInput_inputs [OF f(1), of 1 i] assms(2) f(3) by auto
  have "SwapInputs i s = Some s2" using s1(1) s2(1) assms(2) by (simp add: SwapInputs_def)
  then show ?thesis using inputs_set_trans [OF s1(2) s2(2)] f(2) by simp
qed

lemma ReplaceInput_from_inputs:
  assumes "users_ok s" "index + k \<le> GetInputsCount s i"
  shows "\<exists>s'. ReplaceInput_from i index old new k s = Some s' \<and>
    inputs_set s (\<lambda>u. if GetInst u = i \<and> index \<le> GetIndex u \<and> GetIndex u < index + k \<and> input s u = Some old then Some new else input s u) s'"
  using assms
proof (induction k arbitrary: index s)
  case 0
  have "(\<lambda>u. if GetInst u = i \<and> index \<le> GetIndex u \<and> GetIndex u < index + 0 \<and> input s u = Some old then Some new else input s u) = input s"
    by (rule ext) simp
  then show ?case using inputs_set_refl [OF 0(1)] by simp
next
  case (Suc k)
  obtain s1 where s1: "(if input s (User i index) = Some old then SetInput i index (Some new) s else Some s) = Some s1"
    "inputs_set s ((input s)(User i index := if input s (User i index) = Some old then Some new else input s (User i index))) s1"
    using SetInput_inputs [OF Suc.prems(1), of index i "Some new"] Suc.prems(2) inputs_set_refl [OF Suc.prems(1)]
    by (cases "input s (User i index) = Some old") auto
  note f = inputs_set_fields [OF s1(2)]
  obtain s2 where s2: "ReplaceInput_from i (index + 1) old new k s1 = Some s2" "inputs_set s1 (\<lambda>u. if GetInst u = i \<and> index + 1 \<le> GetIndex u
      \<and> GetIndex u < index + 1 + k \<and> input s1 u = Some old then Some new else input s1 u) s2"
    using Suc.IH [OF f(1), of "index + 1"] Suc.prems(2) f(3) by auto
  have "(\<lambda>u. if GetInst u = i \<and> index + 1 \<le> GetIndex u \<and> GetIndex u < index + 1 + k \<and> input s1 u = Some old then Some new else input s1 u) =
    (\<lambda>u. if GetInst u = i \<and> index \<le> GetIndex u \<and> GetIndex u < index + Suc k \<and> input s u = Some old then Some new else input s u)"
  proof
    fix u
    show "(if GetInst u = i \<and> index + 1 \<le> GetIndex u \<and> GetIndex u < index + 1 + k \<and> input s1 u = Some old then Some new else input s1 u) =
      (if GetInst u = i \<and> index \<le> GetIndex u \<and> GetIndex u < index + Suc k \<and> input s u = Some old then Some new else input s u)"
      using f(2) by (cases "u = User i index") (cases u, auto simp: not_less_eq_eq le_Suc_eq)+
  qed
  then show ?case using s1 s2 inputs_set_trans [OF s1(2) s2(2)] by (intro exI [of _ s2]) simp
qed

text \<open>The loop of \<^verbatim>\<open>ReplaceUsers\<close> moves the users of one list, the first one first, to the front of the other list.\<close>

lemma ReplaceUsers_loop_moves:
  assumes "users_are s U" "x \<noteq> self"
  shows "\<exists>s'. ReplaceUsers_loop self x s = Some s' \<and> users_are s' (U(self := [], x := rev (U self) @ U x))
    \<and> inputs_set s (\<lambda>u. if u \<in> set (U self) then Some x else input s u) s'"
  using assms(1)
proof (induction "U self" arbitrary: s U)
  case Nil
  have f: "firstUser s self = None" using links_areD(1) [OF users_areD(1) [OF Nil.prems], of self] Nil.hyps [symmetric] by simp
  have "U(self := [], x := rev (U self) @ U x) = U" using Nil.hyps by (auto simp: fun_eq_iff)
  moreover have "(\<lambda>u. if u \<in> set (U self) then Some x else input s u) = input s" using Nil.hyps [symmetric] by simp
  moreover have "inputs_set s (input s) s" using Nil.prems by (intro inputs_set_refl) (auto simp: users_ok_def)
  moreover have "ReplaceUsers_loop self x s = Some s" using f by (simp add: ReplaceUsers_loop.simps)
  ultimately show ?case using Nil.prems by (simp only: simp_thms) blast
next
  case (Cons u us)
  note us = Cons.hyps(2) [symmetric]
  have f: "firstUser s self = Some u" using links_areD(1) [OF users_areD(1) [OF Cons.prems], of self] us by simp
  have i: "input s u = Some self" "GetIndex u < GetInputsCount s (GetInst u)"
    using users_areD(2) [OF Cons.prems, of u self] us by (simp_all add: valid_user_def)
  let ?V = "U(self := us, x := u # U x)"
  obtain s1 where s1: "SetInput (GetInst u) (GetIndex u) (Some x) s = Some (s1\<lparr>input := (input s)(u := Some x)\<rparr>)" "relinked s s1"
    "users_are (s1\<lparr>input := (input s)(u := Some x)\<rparr>) ?V"
    using SetInput_ok [OF Cons.prems i(2), of "Some x"] i(1) us assms(2) by (auto simp: listed_def unlisted_def)
  let ?s = "s1\<lparr>input := (input s)(u := Some x)\<rparr>"
  have st: "inputs_set s ((input s)(u := Some x)) ?s" using s1(2,3) by (auto simp: inputs_set_def users_ok_def)
  have "us = ?V self" using assms(2) by simp
  from Cons.hyps(1) [OF this s1(3)] obtain s2 where s2: "ReplaceUsers_loop self x ?s = Some s2"
    "users_are s2 (?V(self := [], x := rev (?V self) @ ?V x))"
    "inputs_set ?s (\<lambda>w. if w \<in> set (?V self) then Some x else input ?s w) s2" by blast
  have "?V(self := [], x := rev (?V self) @ ?V x) = U(self := [], x := rev (U self) @ U x)"
    using us assms(2) by (auto simp: fun_eq_iff)
  moreover have "(\<lambda>w. if w \<in> set (?V self) then Some x else input ?s w) = (\<lambda>w. if w \<in> set (U self) then Some x else input s w)"
    using us assms(2) by (auto simp: fun_eq_iff)
  ultimately have r: "users_are s2 (U(self := [], x := rev (U self) @ U x))"
      "inputs_set s (\<lambda>w. if w \<in> set (U self) then Some x else input s w) s2"
    using s2(2) inputs_set_trans [OF st s2(3)] by simp_all
  have "ReplaceUsers_loop self x s = Some s2" using f s1(1) s2(1) by (simp add: ReplaceUsers_loop.simps [of self x s])
  then show ?case using r by blast
qed

text \<open>\<^verbatim>\<open>RemoveUsers\<close> ends with an empty list and leaves the others.\<close>

lemma RemoveUsers_links:
  "links_are s U \<Longrightarrow> \<exists>s'. RemoveUsers d s = Some s' \<and> relinked s s' \<and> links_are s' (U(d := []))"
proof (induction "U d" arbitrary: s U)
  case Nil
  then have "firstUser s d = None" "U(d := []) = U" using links_areD(1) [OF Nil.prems, of d] by (auto simp: fun_eq_iff)
  then show ?case using Nil.prems by (simp add: RemoveUsers.simps)
next
  case (Cons u us)
  note us = Cons.hyps(2) [symmetric]
  have f: "firstUser s d = Some u" using links_areD(1) [OF Cons.prems, of d] us by simp
  obtain s1 where s1: "RemoveUser d u s = Some s1" "relinked s s1" "links_are s1 (U(d := us))"
    using users.remove_law [OF Cons.prems, of u d] us by auto
  obtain s2 where s2: "RemoveUsers d s1 = Some s2" "relinked s1 s2" "links_are s2 (U(d := []))"
    using Cons.hyps(1) [OF _ s1(3)] by auto
  have "RemoveUsers d s = Some s2" using f s1(1) s2(1) by (simp add: RemoveUsers.simps [of d s])
  then show ?case using s2(3) relinked_trans [OF s1(2) s2(2)] by blast
qed

section \<open>The graph the lists represent\<close>

definition represents :: "user_lists \<Rightarrow> graph \<Rightarrow> bool" where
  "represents s g \<longleftrightarrow>
     (\<forall>i < length (insts g). GetInputsCount s i = length (inputs (the_inst g i))
        \<and> (\<forall>k < length (inputs (the_inst g i)). input s (User i k) = Some (inputs (the_inst g i) ! k)))"

text \<open>
  C10: on well-formed lists of users, \<^verbatim>\<open>ReplaceUsers\<close> ends, keeps the lists well formed and implements the replacement of inputs
  that the models of the passes use: the lists of the result represent the graph where every input that was \<open>self\<close> is \<open>x\<close>,
  and \<open>self\<close> has no user any more.
\<close>

theorem ReplaceUsers_refines:
  assumes "users_ok s" "represents s g" "x \<noteq> self"
  shows "\<exists>s'. ReplaceUsers_list self x s = Some s' \<and> users_ok s' \<and> represents s' (ReplaceUsers g self x) \<and> \<not> HasUsers self s'"
proof -
  obtain U where U: "users_are s U" using assms(1) by (auto simp: users_ok_def)
  obtain s' where s': "ReplaceUsers_loop self x s = Some s'" "users_are s' (U(self := [], x := rev (U self) @ U x))"
    "inputs_set s (\<lambda>u. if u \<in> set (U self) then Some x else input s u) s'"
    using ReplaceUsers_loop_moves [OF U assms(3)] by blast
  note f = inputs_set_fields [OF s'(3)]
  have "\<not> HasUsers self s'" using links_are_HasUsers [OF users_areD(1) [OF s'(2)], of self] assms(3) by simp
  moreover have "represents s' (ReplaceUsers g self x)"
    using assms(2) f(2,3) users_areD(2) [OF U, of _ self]
    by (auto simp: represents_def ReplaceUsers_def valid_user_def)
  ultimately show ?thesis using s'(1) f(1) assms(3) by (auto simp: ReplaceUsers_list_def)
qed

text \<open>An instruction that uses another one twice.\<close>

definition twice_graph :: graph where
  "twice_graph =
     (let c = \<lparr>GetOpcode = Op_Constant, GetType = INT64, inputs = [], operandsType = NO_TYPE, GetRawValue = 7, GetCc = CC_EQ,
        GetImm = 0, GetBasicBlock = 0, IsFcmpg = False, IsAllocation = False, GetArgNumber = 0, GetObject = 0, bbNums = []\<rparr>
      in \<lparr>insts = [c, c, c\<lparr>GetOpcode := Op_Add, inputs := [0, 0]\<rparr>], blocks = [], loops = [], GetBlocksRPO = [], GetStartBlock = 0,
          constList = [], IsBytecodeOptimizer = False, IsDynamicMethod = False, GetArch = AARCH64, objectPointerSize = 4,
          rtMaxArrayLength = (\<lambda>_. None), rtIsMethodStatic = True\<rparr>)"

definition twice_lists :: user_lists where
  "twice_lists =
     \<lparr>firstUser = (\<lambda>_. None)(0 := Some (User 2 0)), GetNext = (\<lambda>_. None)(User 2 0 := Some (User 2 1)),
      GetPrev = (\<lambda>_. None)(User 2 1 := Some (User 2 0)), input = (\<lambda>_. None)(User 2 0 := Some 0, User 2 1 := Some 0),
      GetInputsCount = (\<lambda>_. 0)(2 := 2), GetCapacity = (\<lambda>_. 0), GetBbNum = (\<lambda>_. 0), OwnerIsPhi = (\<lambda>_. False),
      OwnerIsSaveState = (\<lambda>_. False), IsOperandsDynamic = (\<lambda>_. False), HasBasicBlock = (\<lambda>_. True)\<rparr>"

lemma twice_lists_ok: "users_ok twice_lists"
proof -
  let ?U = "(\<lambda>_. [])(0 := [User 2 0, User 2 1])"
  have "links_are twice_lists ?U" by (auto simp: links_are_def twice_lists_def)
  moreover have "u \<in> set (?U d) \<longleftrightarrow> input twice_lists u = Some d \<and> valid_user twice_lists u" for u d
    by (auto simp: twice_lists_def valid_user_def)
  ultimately show ?thesis unfolding users_ok_def users_are_def by blast
qed

theorem ReplaceUsers_refines_witness:
  "users_ok twice_lists \<and> represents twice_lists twice_graph \<and>
   (\<exists>s'. ReplaceUsers_list 0 1 twice_lists = Some s' \<and> represents s' (ReplaceUsers twice_graph 0 1) \<and> \<not> HasUsers 0 s')"
proof -
  have "represents twice_lists twice_graph"
    by (auto simp: represents_def twice_graph_def twice_lists_def Let_def less_Suc_eq nth_Cons')
  then show ?thesis using ReplaceUsers_refines [OF twice_lists_ok, of twice_graph 1 0] twice_lists_ok by auto
qed

end
