(* ===== verification/PhiOperands.thy ===== *)
theory PhiOperands
  imports UserLists
begin

text \<open>
  Instructions with a variable number of inputs (\<^verbatim>\<open>DynamicOperands\<close> in \<^verbatim>\<open>compiler/optimizer/ir/inst.h\<close> and
  \<^verbatim>\<open>inst.cpp\<close>), the inputs of a phi by predecessor block, and the removal of an edge into a block with phis
  (\<^verbatim>\<open>RemovePredecessorUpdateDF\<close> of \<^verbatim>\<open>graph.cpp\<close>, \<^verbatim>\<open>RemovePred\<close> of \<^verbatim>\<open>basicblock.h\<close>).

  A phi keeps for each input the number of a predecessor.  Removing an input moves the last input to its place, removing a predecessor moves
  the last predecessor to its place: the numbers are adjusted so that both removals together keep the input of every other predecessor.
\<close>

section \<open>The storage of inputs and users\<close>

definition MAX_OPERANDS :: nat where
  "MAX_OPERANDS = 2 ^ 20"

text \<open>The constructor of a node: its index and the capacity have to fit, and the number of the block is the greatest value of its field.\<close>

definition User_new :: "user \<Rightarrow> nat \<Rightarrow> user_lists \<Rightarrow> user_lists option" where
  "User_new u sz s =
     (if GetIndex u < MAX_OPERANDS \<and> sz < MAX_OPERANDS
      then Some (s\<lparr>GetNext := (GetNext s)(u := None), GetPrev := (GetPrev s)(u := None), GetBbNum := (GetBbNum s)(u := 2 ^ 20 - 1)\<rparr>)
      else None)"

definition SetBbNum :: "user \<Rightarrow> nat \<Rightarrow> user_lists \<Rightarrow> user_lists" where
  "SetBbNum u n s = s\<lparr>GetBbNum := (GetBbNum s)(u := n)\<rparr>"

text \<open>
  The loop of \<^verbatim>\<open>Reallocate\<close>.  The node in the new storage takes the name of the node it replaces; its constructor, which only
  writes to the new storage, runs when the old node has left its list.
\<close>

fun Reallocate_from :: "inst_id \<Rightarrow> nat \<Rightarrow> nat \<Rightarrow> nat \<Rightarrow> user_lists \<Rightarrow> user_lists option" where
  "Reallocate_from i newCapacity k 0 s = Some s"
| "Reallocate_from i newCapacity k (Suc n) s =
     (case input s (User i k) of
        None \<Rightarrow> None
      | Some oldInput \<Rightarrow> do {
          s1 \<leftarrow> RemoveUser oldInput (User i k) s;
          s2 \<leftarrow> User_new (User i k) newCapacity s1;
          s3 \<leftarrow> AddUser oldInput (User i k)
                (if OwnerIsSaveState s i \<or> OwnerIsPhi s i then SetBbNum (User i k) (GetBbNum s (User i k)) s2 else s2);
          Reallocate_from i newCapacity (k + 1) n s3 })"

text \<open>The storage is the null pointer exactly as long as the capacity is zero.\<close>

definition Reallocate :: "inst_id \<Rightarrow> nat \<Rightarrow> user_lists \<Rightarrow> user_lists option" where
  "Reallocate i newCapacity s =
     (let capacity = GetCapacity s i
      in if newCapacity \<noteq> 0 \<and> newCapacity \<le> capacity then Some s
         else let newCapacity = (if newCapacity = 0 then (if capacity \<noteq> 0 then capacity else 1) * 2 + 2 else newCapacity)
              in do {
                s \<leftarrow> (if capacity = 0 then Some s else Reallocate_from i newCapacity 0 (GetInputsCount s i) s);
                Some (s\<lparr>GetCapacity := (GetCapacity s)(i := newCapacity)\<rparr>) })"

definition Append :: "inst_id \<Rightarrow> inst_id \<Rightarrow> user_lists \<Rightarrow> (nat \<times> user_lists) option" where
  "Append i x s =
     (if \<not> GetInputsCount s i \<le> GetCapacity s i then None
      else do {
        s \<leftarrow> (if GetCapacity s i = GetInputsCount s i then Reallocate i 0 s else Some s);
        let sz = GetInputsCount s i;
        let s = s\<lparr>input := (input s)(User i sz := Some x)\<rparr>;
        s \<leftarrow> User_new (User i sz) (GetCapacity s i) s;
        s \<leftarrow> AddUser x (User i sz) (if OwnerIsPhi s i then SetBbNum (User i sz) sz s else s);
        Some (sz, s\<lparr>GetInputsCount := (GetInputsCount s)(i := sz + 1)\<rparr>) })"

definition AppendInput :: "inst_id \<Rightarrow> inst_id \<Rightarrow> user_lists \<Rightarrow> (nat \<times> user_lists) option" where
  "AppendInput i x s = (if \<not> IsOperandsDynamic s i then None else Append i x s)"

text \<open>The loop at the end of \<^verbatim>\<open>Remove\<close>: the first input with the number of the last predecessor gets the number of the removed one.\<close>

definition renumber :: "inst_id \<Rightarrow> nat \<Rightarrow> nat \<Rightarrow> user_lists \<Rightarrow> user_lists" where
  "renumber i sz bbNum s =
     (case find (\<lambda>k. GetBbNum s (User i k) = sz) [0..<sz] of None \<Rightarrow> s | Some k \<Rightarrow> SetBbNum (User i k) bbNum s)"

definition move_last :: "inst_id \<Rightarrow> nat \<Rightarrow> nat \<Rightarrow> user_lists \<Rightarrow> user_lists option" where
  "move_last i index sz s =
     (case input s (User i sz) of
        None \<Rightarrow> None
      | Some lastInput \<Rightarrow> do {
          s \<leftarrow> (if HasUsers lastInput s
                then do { s \<leftarrow> RemoveUser lastInput (User i sz) s; AddUser lastInput (User i index) s }
                else Some s);
          let s = s\<lparr>input := (input s)(User i index := Some lastInput)\<rparr>;
          Some (if OwnerIsSaveState s i \<or> OwnerIsPhi s i then SetBbNum (User i index) (GetBbNum s (User i sz)) s else s) })"

definition Remove :: "inst_id \<Rightarrow> nat \<Rightarrow> user_lists \<Rightarrow> user_lists option" where
  "Remove i index s =
     (let sz = GetInputsCount s i - 1; s = s\<lparr>GetInputsCount := (GetInputsCount s)(i := sz)\<rparr>
      in case input s (User i index) of
           None \<Rightarrow> None
         | Some currInput \<Rightarrow> do {
             s \<leftarrow> (if HasBasicBlock s currInput \<and> HasUsers currInput s then RemoveUser currInput (User i index) s else Some s);
             let bbNum = GetBbNum s (User i index);
             s \<leftarrow> (if index \<noteq> sz then move_last i index sz s else Some s);
             Some (if OwnerIsPhi s i then renumber i sz bbNum s else s) })"

definition RemoveInput :: "inst_id \<Rightarrow> nat \<Rightarrow> user_lists \<Rightarrow> user_lists option" where
  "RemoveInput i index s =
     (if \<not> IsOperandsDynamic s i \<or> \<not> index < GetInputsCount s i then None else Remove i index s)"

fun RemoveInputs_dynamic :: "inst_id \<Rightarrow> nat \<Rightarrow> user_lists \<Rightarrow> user_lists option" where
  "RemoveInputs_dynamic i 0 s = Some s"
| "RemoveInputs_dynamic i (Suc n) s = do { s \<leftarrow> RemoveInput i n s; RemoveInputs_dynamic i n s }"

fun RemoveInputs_static :: "inst_id \<Rightarrow> nat \<Rightarrow> nat \<Rightarrow> user_lists \<Rightarrow> user_lists option" where
  "RemoveInputs_static i k 0 s = Some s"
| "RemoveInputs_static i k (Suc n) s = do { s \<leftarrow> SetInput i k None s; RemoveInputs_static i (k + 1) n s }"

definition RemoveInputs :: "inst_id \<Rightarrow> user_lists \<Rightarrow> user_lists option" where
  "RemoveInputs i s =
     (if IsOperandsDynamic s i then RemoveInputs_dynamic i (GetInputsCount s i) s
      else RemoveInputs_static i 0 (GetInputsCount s i) s)"

section \<open>The inputs of a phi by predecessor\<close>

text \<open>The predecessors of the block of the phi are a list; \<open>None\<close> where an assertion fails or \<^verbatim>\<open>UNREACHABLE()\<close> is reached.\<close>

definition PhiInputBb :: "user_lists \<Rightarrow> block_id list \<Rightarrow> inst_id \<Rightarrow> nat \<Rightarrow> block_id option" where
  "PhiInputBb s preds phi index =
     (let bbNum = GetBbNum s (User phi index) in if bbNum < length preds then Some (preds ! bbNum) else None)"

fun PredBlockIndex_from :: "user_lists \<Rightarrow> block_id list \<Rightarrow> inst_id \<Rightarrow> block_id \<Rightarrow> nat \<Rightarrow> nat \<Rightarrow> nat option" where
  "PredBlockIndex_from s preds phi block i 0 = None"
| "PredBlockIndex_from s preds phi block i (Suc n) =
     do { bb \<leftarrow> PhiInputBb s preds phi i;
          if bb = block then Some i else PredBlockIndex_from s preds phi block (i + 1) n }"

definition PredBlockIndex :: "user_lists \<Rightarrow> block_id list \<Rightarrow> inst_id \<Rightarrow> block_id \<Rightarrow> nat option" where
  "PredBlockIndex s preds phi block = PredBlockIndex_from s preds phi block 0 (GetInputsCount s phi)"

definition PhiInput :: "user_lists \<Rightarrow> block_id list \<Rightarrow> inst_id \<Rightarrow> block_id \<Rightarrow> inst_id option" where
  "PhiInput s preds phi bb = do { index \<leftarrow> PredBlockIndex s preds phi bb; input s (User phi index) }"

text \<open>\<^verbatim>\<open>BasicBlock::GetPredBlockIndex\<close> asserts that the block is in the list once.\<close>

definition block_PredBlockIndex :: "block_id list \<Rightarrow> block_id \<Rightarrow> nat option" where
  "block_PredBlockIndex preds block = (case filter (\<lambda>i. preds ! i = block) [0..<length preds] of [i] \<Rightarrow> Some i | _ \<Rightarrow> None)"

definition RemovePred :: "block_id list \<Rightarrow> block_id \<Rightarrow> block_id list option" where
  "RemovePred preds pred = map_option (\<lambda>i. butlast (preds[i := last preds])) (block_PredBlockIndex preds pred)"

text \<open>The part of \<^verbatim>\<open>BasicBlock::RemoveInst\<close> and \<^verbatim>\<open>EraseInst\<close> that concerns a phi.\<close>

definition RemovePhiInst :: "inst_id \<Rightarrow> user_lists \<Rightarrow> user_lists option" where
  "RemovePhiInst phi s =
     do { s \<leftarrow> RemoveUsers phi s;
          s \<leftarrow> RemoveInputs phi s;
          Some (s\<lparr>HasBasicBlock := (HasBasicBlock s)(phi := False)\<rparr>) }"

fun RemovePhis :: "block_id list \<Rightarrow> block_id \<Rightarrow> inst_id list \<Rightarrow> user_lists \<Rightarrow> user_lists option" where
  "RemovePhis preds rmPred [] s = Some s"
| "RemovePhis preds rmPred (phi # phis) s =
     do { rmIndex \<leftarrow> PredBlockIndex s preds phi rmPred;
          remainingInst \<leftarrow> input s (User phi (1 - rmIndex));
          s \<leftarrow> (if phi \<noteq> remainingInst \<and> HasBasicBlock s remainingInst then ReplaceUsers_list phi remainingInst s else Some s);
          s \<leftarrow> RemovePhiInst phi s;
          RemovePhis preds rmPred phis s }"

fun RemovePhiInputs :: "block_id list \<Rightarrow> block_id \<Rightarrow> inst_id list \<Rightarrow> user_lists \<Rightarrow> user_lists option" where
  "RemovePhiInputs preds rmPred [] s = Some s"
| "RemovePhiInputs preds rmPred (phi # phis) s =
     do { rmIndex \<leftarrow> PredBlockIndex s preds phi rmPred;
          s \<leftarrow> RemoveInput phi rmIndex s;
          RemovePhiInputs preds rmPred phis s }"

definition RemovePredecessorUpdateDF ::
    "inst_id list \<Rightarrow> block_id list \<Rightarrow> block_id \<Rightarrow> user_lists \<Rightarrow> (block_id list \<times> user_lists) option" where
  "RemovePredecessorUpdateDF phis preds rmPred s =
     do { s \<leftarrow> (if length preds = 2 then RemovePhis preds rmPred phis s
                else if 2 < length preds then RemovePhiInputs preds rmPred phis s
                else if length preds = 1 then Some s else None);
          preds \<leftarrow> RemovePred preds rmPred;
          Some (preds, s) }"

section \<open>Removing an input keeps the lists of users\<close>

lemma links_are_cong:
  assumes "firstUser s' = firstUser s" "GetNext s' = GetNext s" "GetPrev s' = GetPrev s"
  shows "links_are s' U \<longleftrightarrow> links_are s U"
proof -
  have "linked s' p x us = linked s p x us" for p x us using assms by (intro linked_cong) simp
  then show ?thesis using assms(1) by (simp add: links_are_def)
qed

lemma users_ok_links:
  assumes "links_are s U" "\<And>d u. u \<in> set (U d) \<longleftrightarrow> input s u = Some d \<and> valid_user s u"
  shows "users_ok s"
  using assms by (auto simp: users_ok_def users_are_def)

lemma users_ok_cong:
  assumes "firstUser s' = firstUser s" "GetNext s' = GetNext s" "GetPrev s' = GetPrev s" "input s' = input s" "GetInputsCount s' = GetInputsCount s"
  shows "users_ok s' \<longleftrightarrow> users_ok s"
  using assms links_are_cong [OF assms(1-3)] by (simp add: users_ok_def users_are_def valid_user_def)

lemma SetBbNum_fields [simp]:
  "firstUser (SetBbNum u n s) = firstUser s" "GetNext (SetBbNum u n s) = GetNext s" "GetPrev (SetBbNum u n s) = GetPrev s"
  "input (SetBbNum u n s) = input s" "GetInputsCount (SetBbNum u n s) = GetInputsCount s" "GetCapacity (SetBbNum u n s) = GetCapacity s"
  "OwnerIsPhi (SetBbNum u n s) = OwnerIsPhi s" "OwnerIsSaveState (SetBbNum u n s) = OwnerIsSaveState s"
  "IsOperandsDynamic (SetBbNum u n s) = IsOperandsDynamic s" "HasBasicBlock (SetBbNum u n s) = HasBasicBlock s"
  "GetBbNum (SetBbNum u n s) = (GetBbNum s)(u := n)"
  by (simp_all add: SetBbNum_def)

lemma renumber_fields [simp]:
  "firstUser (renumber i sz b s) = firstUser s" "GetNext (renumber i sz b s) = GetNext s" "GetPrev (renumber i sz b s) = GetPrev s"
  "input (renumber i sz b s) = input s" "GetInputsCount (renumber i sz b s) = GetInputsCount s"
  "OwnerIsPhi (renumber i sz b s) = OwnerIsPhi s" "OwnerIsSaveState (renumber i sz b s) = OwnerIsSaveState s"
  "IsOperandsDynamic (renumber i sz b s) = IsOperandsDynamic s" "HasBasicBlock (renumber i sz b s) = HasBasicBlock s"
  "GetInst w \<noteq> i \<Longrightarrow> GetBbNum (renumber i sz b s) w = GetBbNum s w"
  by (auto simp: renumber_def split: option.split)

text \<open>When the numbers differ, the loop changes the only input that has the number of the last predecessor.\<close>

lemma renumber_BbNum:
  assumes "inj_on (\<lambda>k. GetBbNum s (User i k)) {..<sz}" "k < sz"
  shows "GetBbNum (renumber i sz b s) (User i k) = (if GetBbNum s (User i k) = sz then b else GetBbNum s (User i k))"
proof (cases "find (\<lambda>k. GetBbNum s (User i k) = sz) [0..<sz]")
  case None
  then have "GetBbNum s (User i k) \<noteq> sz" using assms(2) by (auto simp: find_None_iff)
  then show ?thesis using None by (simp add: renumber_def)
next
  case (Some m)
  then have m: "m < sz" "GetBbNum s (User i m) = sz" by (auto simp: find_Some_iff)
  then have "GetBbNum s (User i k) = sz \<longleftrightarrow> k = m" using inj_onD [OF assms(1), of k m] assms(2) by auto
  then show ?thesis using Some by (auto simp: renumber_def)
qed

text \<open>What \<^verbatim>\<open>Remove\<close> leaves as it is.\<close>

definition owner_frame :: "inst_id set \<Rightarrow> user_lists \<Rightarrow> user_lists \<Rightarrow> bool" where
  "owner_frame A s s' \<longleftrightarrow>
     OwnerIsPhi s' = OwnerIsPhi s \<and> OwnerIsSaveState s' = OwnerIsSaveState s \<and> IsOperandsDynamic s' = IsOperandsDynamic s
     \<and> HasBasicBlock s' = HasBasicBlock s \<and> (\<forall>j. j \<notin> A \<longrightarrow> GetInputsCount s' j = GetInputsCount s j)
     \<and> (\<forall>u. GetInst u \<notin> A \<longrightarrow> input s' u = input s u \<and> GetBbNum s' u = GetBbNum s u)"

definition moved_number :: "user_lists \<Rightarrow> inst_id \<Rightarrow> nat \<Rightarrow> nat \<Rightarrow> nat \<Rightarrow> nat" where
  "moved_number s i index sz k = GetBbNum s (User i (if k = index then sz else k))"

lemma move_last_ok:
  assumes "links_are s U" "input s (User i sz) = Some l" "User i sz \<in> set (U l)" "\<And>e. User i index \<notin> set (U e)"
  shows "\<exists>s'. move_last i index sz s = Some s' \<and> links_are s' (U(l := User i index # remove1 (User i sz) (U l)))
    \<and> input s' = (input s)(User i index := Some l) \<and> GetInputsCount s' = GetInputsCount s \<and> owner_frame {i} s s'
    \<and> (OwnerIsPhi s i \<longrightarrow> (\<forall>k. GetBbNum s' (User i k) = moved_number s i index sz k))"
proof -
  obtain s1 s2 where s: "RemoveUser l (User i sz) s = Some s1" "AddUser l (User i index) s1 = Some s2" "relinked s s2"
    "links_are s2 (U(l := User i index # remove1 (User i sz) (U l)))" using users.exchange [OF assms(1,3,4)] by blast
  note f = relinked_fields [OF s(3)]
  let ?s = "s2\<lparr>input := (input s2)(User i index := Some l)\<rparr>"
  let ?r = "if OwnerIsSaveState ?s i \<or> OwnerIsPhi ?s i then SetBbNum (User i index) (GetBbNum ?s (User i sz)) ?s else ?s"
  have "HasUsers l s" using links_are_HasUsers [OF assms(1), of l] assms(3) by (cases "U l") simp_all
  then have "move_last i index sz s = Some ?r" using s(1,2) assms(2) by (simp add: move_last_def Let_def)
  moreover have "links_are ?r (U(l := User i index # remove1 (User i sz) (U l)))"
    using s(4) links_are_cong [of ?r s2] by simp
  moreover have "owner_frame {i} s ?r" "input ?r = (input s)(User i index := Some l)" "GetInputsCount ?r = GetInputsCount s"
    using f by (auto simp: owner_frame_def)
  moreover have "OwnerIsPhi s i \<longrightarrow> (\<forall>k. GetBbNum ?r (User i k) = moved_number s i index sz k)"
    using f by (simp add: moved_number_def)
  ultimately show ?thesis by blast
qed

lemma owner_frame_trans: "owner_frame A s s' \<Longrightarrow> owner_frame B s' s'' \<Longrightarrow> owner_frame (A \<union> B) s s''"
  by (simp add: owner_frame_def)

lemma RemoveInput_links:
  assumes "users_are s U" "index \<le> sz" "GetInputsCount s i = Suc sz" "input s (User i index) = Some c" "HasBasicBlock s c"
    "input s (User i sz) = Some l"
  defines "s0 \<equiv> s\<lparr>GetInputsCount := (GetInputsCount s)(i := sz)\<rparr>"
  shows "\<exists>s1 s2. (if HasBasicBlock s0 c \<and> HasUsers c s0 then RemoveUser c (User i index) s0 else Some s0) = Some s1 \<and>
      (if index \<noteq> sz then move_last i index sz s1 else Some s1) = Some s2 \<and> relinked s0 s1 \<and> users_ok s2 \<and> owner_frame {i} s s2 \<and>
      GetInputsCount s2 = (GetInputsCount s)(i := sz) \<and> input s2 = (input s)(User i index := input s (User i sz)) \<and>
      (OwnerIsPhi s i \<longrightarrow> (\<forall>k < sz. GetBbNum s2 (User i k) = moved_number s i index sz k))"
proof -
  note mem = users_areD(2) [OF assms(1)]
  have val: "valid_user s (User i index)" "valid_user s (User i sz)" using assms(2,3) by (simp_all add: valid_user_def)
  have L: "links_are s0 U" using users_areD(1) [OF assms(1)] links_are_cong [of s0 s U] by (simp add: s0_def)
  have u: "User i index \<in> set (U c)" using mem val assms(4) by simp
  then have "HasUsers c s0" using links_are_HasUsers [OF L, of c] by (cases "U c") simp_all
  moreover obtain s1 where s1: "RemoveUser c (User i index) s0 = Some s1" "relinked s0 s1"
    "links_are s1 (U(c := remove1 (User i index) (U c)))" using users.remove_law [OF L u] by blast
  ultimately have e1: "(if HasBasicBlock s0 c \<and> HasUsers c s0 then RemoveUser c (User i index) s0 else Some s0) = Some s1"
    using assms(5) by (simp add: s0_def)
  let ?U = "U(c := remove1 (User i index) (U c))"
  have mem1: "w \<in> set (?U d) \<longleftrightarrow> w \<noteq> User i index \<and> input s w = Some d \<and> valid_user s w" for w d
    using mem [of w d] links_areD(2) [OF L, of c] assms(4) by (cases "d = c") auto
  note f = relinked_fields [OF s1(2)]
  have s0: "input s0 = input s" "GetInputsCount s0 = (GetInputsCount s)(i := sz)" "GetBbNum s0 = GetBbNum s" "owner_frame {i} s s0"
    by (simp_all add: s0_def owner_frame_def)
  have fr: "owner_frame {i} s s1" using s0(4) f by (auto simp: owner_frame_def)
  show ?thesis
  proof (cases "index = sz")
    case True
    have "w \<in> set (?U d) \<longleftrightarrow> input s1 w = Some d \<and> valid_user s1 w" for w d
      using mem1 [of w d] True assms(3) f(1,2) s0 by (cases w) (auto simp: valid_user_def)
    then have "users_ok s1" using s1(3) by (rule users_ok_links [rotated])
    then show ?thesis using e1 True s1(2) fr f s0 by (intro exI [of _ s1]) (auto simp: moved_number_def)
  next
    case False
    have v: "User i sz \<in> set (?U l)" using mem1 val(2) assms(6) False by simp
    have n: "User i index \<notin> set (?U e)" for e using mem1 by simp
    have "input s1 (User i sz) = Some l" using f(1) s0(1) assms(6) by simp
    from move_last_ok [OF s1(3) this v n] obtain s2 where s2: "move_last i index sz s1 = Some s2"
      "links_are s2 (?U(l := User i index # remove1 (User i sz) (?U l)))" "input s2 = (input s1)(User i index := Some l)"
      "GetInputsCount s2 = GetInputsCount s1" "owner_frame {i} s1 s2"
      "OwnerIsPhi s1 i \<longrightarrow> (\<forall>k. GetBbNum s2 (User i k) = moved_number s1 i index sz k)" by blast
    have "w \<in> set ((?U(l := User i index # remove1 (User i sz) (?U l))) d) \<longleftrightarrow> input s2 w = Some d \<and> valid_user s2 w" for w d
    proof -
      have "w \<in> set (remove1 (User i sz) (?U l)) \<longleftrightarrow> w \<in> set (?U l) \<and> w \<noteq> User i sz"
        using links_areD(2) [OF s1(3), of l] by (simp del: fun_upd_apply)
      moreover have "valid_user s2 w \<longleftrightarrow> valid_user s w \<and> w \<noteq> User i sz"
        using s2(4) f(2) s0(2) assms(3) by (cases w) (auto simp: valid_user_def)
      ultimately show ?thesis
        using mem1 [of w] s2(3) f(1) s0(1) assms(6) val(1) False by (cases "d = l") (auto simp del: fun_upd_apply simp: fun_upd_def)
    qed
    then have "users_ok s2" using s2(2) by (rule users_ok_links [rotated])
    moreover have "moved_number s1 i index sz = moved_number s i index sz" using f(4) s0(3) by (simp add: moved_number_def fun_eq_iff)
    ultimately show ?thesis
      using e1 False s1(2) s2 owner_frame_trans [OF fr s2(5)] f s0 assms(6) fr by (intro exI [of _ s1] exI [of _ s2]) (simp add: owner_frame_def)
  qed
qed

text \<open>The number of a phi's input after the removal.\<close>

definition renumbered :: "user_lists \<Rightarrow> inst_id \<Rightarrow> nat \<Rightarrow> nat \<Rightarrow> nat \<Rightarrow> nat" where
  "renumbered s i index sz k =
     (if moved_number s i index sz k = sz then GetBbNum s (User i index) else moved_number s i index sz k)"

definition numbers_differ :: "user_lists \<Rightarrow> inst_id \<Rightarrow> bool" where
  "numbers_differ s i \<longleftrightarrow> inj_on (\<lambda>k. GetBbNum s (User i k)) {..<GetInputsCount s i}"

lemma moved_number_inj:
  assumes "numbers_differ s i" "GetInputsCount s i = Suc sz" "index \<le> sz"
  shows "inj_on (moved_number s i index sz) {..<sz}"
proof (rule inj_onI)
  fix a b
  assume "a \<in> {..<sz}" "b \<in> {..<sz}" "moved_number s i index sz a = moved_number s i index sz b"
  then show "a = b"
    using assms inj_onD [of "\<lambda>k. GetBbNum s (User i k)" "{..<Suc sz}" "if a = index then sz else a" "if b = index then sz else b"]
    by (auto simp: moved_number_def numbers_differ_def split: if_splits)
qed

text \<open>
  \<^verbatim>\<open>RemoveInput\<close> keeps the lists of users, moves the last input to the place of the removed one, and the numbers with it.
\<close>

lemma RemoveInput_ok:
  assumes "users_ok s" "IsOperandsDynamic s i" "GetInputsCount s i = Suc sz" "index \<le> sz"
    "input s (User i index) = Some c" "HasBasicBlock s c" "input s (User i sz) = Some l"
  shows "\<exists>s'. RemoveInput i index s = Some s' \<and> users_ok s' \<and> owner_frame {i} s s' \<and> GetInputsCount s' i = sz
    \<and> input s' = (input s)(User i index := Some l)
    \<and> (OwnerIsPhi s i \<and> numbers_differ s i \<longrightarrow> (\<forall>k < sz. GetBbNum s' (User i k) = renumbered s i index sz k))"
proof -
  obtain U where "users_are s U" using assms(1) by (auto simp: users_ok_def)
  note R = RemoveInput_links [OF this assms(4,3,5-7)]
  let ?s0 = "s\<lparr>GetInputsCount := (GetInputsCount s)(i := sz)\<rparr>"
  from R obtain s1 s2 where s: "(if HasBasicBlock ?s0 c \<and> HasUsers c ?s0 then RemoveUser c (User i index) ?s0 else Some ?s0) = Some s1"
    "(if index \<noteq> sz then move_last i index sz s1 else Some s1) = Some s2" "relinked ?s0 s1" "users_ok s2" "owner_frame {i} s s2"
    "GetInputsCount s2 = (GetInputsCount s)(i := sz)" "input s2 = (input s)(User i index := input s (User i sz))"
    "OwnerIsPhi s i \<longrightarrow> (\<forall>k < sz. GetBbNum s2 (User i k) = moved_number s i index sz k)" by blast
  let ?r = "if OwnerIsPhi s2 i then renumber i sz (GetBbNum s (User i index)) s2 else s2"
  have e: "RemoveInput i index s = Some ?r"
    using assms(2-5) s(1,2) relinked_fields(4) [OF s(3)] by (simp add: RemoveInput_def Remove_def Let_def)
  have u: "users_ok ?r" using s(4) users_ok_cong [of "renumber i sz (GetBbNum s (User i index)) s2" s2] by simp
  have fr: "owner_frame {i} s ?r" using s(5) by (simp add: owner_frame_def)
  have "GetBbNum ?r (User i k) = renumbered s i index sz k" if "OwnerIsPhi s i" "numbers_differ s i" "k < sz" for k
  proof -
    have m: "GetBbNum s2 (User i k) = moved_number s i index sz k" if "k < sz" for k using s(8) \<open>OwnerIsPhi s i\<close> that by simp
    then have "inj_on (\<lambda>k. GetBbNum s2 (User i k)) {..<sz}"
      using moved_number_inj [OF that(2) assms(3,4)] by (simp add: inj_on_def)
    from renumber_BbNum [OF this that(3)] show ?thesis
      using m [OF that(3)] s(5) that(1) by (simp add: owner_frame_def renumbered_def)
  qed
  then show ?thesis using e u fr s(6,7) assms(7) by (intro exI [of _ ?r]) simp
qed

section \<open>The inputs of the remaining predecessors\<close>

text \<open>A phi whose inputs correspond to the predecessors of its block.\<close>

definition phi_ok :: "user_lists \<Rightarrow> block_id list \<Rightarrow> inst_id \<Rightarrow> bool" where
  "phi_ok s preds phi \<longleftrightarrow>
     OwnerIsPhi s phi \<and> IsOperandsDynamic s phi \<and> GetInputsCount s phi = length preds \<and> numbers_differ s phi
     \<and> (\<forall>k < length preds. GetBbNum s (User phi k) < length preds
          \<and> (\<exists>x. input s (User phi k) = Some x \<and> HasBasicBlock s x))"

text \<open>The loop finds the only input with the number of the predecessor.\<close>

lemma PredBlockIndex_from_found:
  assumes "\<And>k. k < i + n \<Longrightarrow> GetBbNum s (User phi k) < length preds" "i \<le> j" "j < i + n" "preds ! GetBbNum s (User phi j) = p"
    "\<And>k. k < j \<Longrightarrow> preds ! GetBbNum s (User phi k) \<noteq> p"
  shows "PredBlockIndex_from s preds phi p i n = Some j"
  using assms
proof (induction n arbitrary: i)
  case (Suc n)
  have b: "PhiInputBb s preds phi i = Some (preds ! GetBbNum s (User phi i))" using Suc.prems(1) [of i] by (simp add: PhiInputBb_def)
  show ?case
  proof (cases "i = j")
    case True
    then show ?thesis using b Suc.prems(4) by simp
  next
    case False
    then have "PredBlockIndex_from s preds phi p (i + 1) n = Some j"
      using Suc.prems by (intro Suc.IH) simp_all
    then show ?thesis using b False Suc.prems(2,5) by simp
  qed
qed simp

lemma PredBlockIndex_found:
  assumes "phi_ok s preds phi" "distinct preds" "k < length preds" "preds ! GetBbNum s (User phi k) = p"
  shows "PredBlockIndex s preds phi p = Some k"
proof -
  have "preds ! GetBbNum s (User phi j) \<noteq> p" if "j < k" for j
    using assms that inj_onD [of "\<lambda>k. GetBbNum s (User phi k)" "{..<length preds}" j k] nth_eq_iff_index_eq [OF assms(2)]
    by (auto simp: phi_ok_def numbers_differ_def)
  then show ?thesis unfolding PredBlockIndex_def using assms
    by (intro PredBlockIndex_from_found) (simp_all add: phi_ok_def)
qed

lemma PhiInput_found:
  assumes "phi_ok s preds phi" "distinct preds" "k < length preds" "preds ! GetBbNum s (User phi k) = p"
  shows "PhiInput s preds phi p = input s (User phi k)"
  using PredBlockIndex_found [OF assms] by (simp add: PhiInput_def)

text \<open>Every predecessor has its input.\<close>

lemma phi_ok_onto:
  assumes "phi_ok s preds phi" "p \<in> set preds"
  shows "\<exists>k < length preds. preds ! GetBbNum s (User phi k) = p"
proof -
  obtain j where j: "j < length preds" "preds ! j = p" using assms(2) by (auto simp: in_set_conv_nth)
  have "(\<lambda>k. GetBbNum s (User phi k)) ` {..<length preds} = {..<length preds}"
    using assms(1) by (intro endo_inj_surj) (auto simp: phi_ok_def numbers_differ_def)
  then show ?thesis using j by (metis (no_types, lifting) image_iff lessThan_iff)
qed

lemma PredBlockIndex_from_frame:
  "owner_frame A s s' \<Longrightarrow> phi \<notin> A \<Longrightarrow> PredBlockIndex_from s' preds phi p i n = PredBlockIndex_from s preds phi p i n"
  by (induction n arbitrary: i) (simp_all add: PhiInputBb_def owner_frame_def Let_def)

lemma phi_frame:
  assumes "owner_frame A s s'" "phi \<notin> A"
  shows "phi_ok s' preds phi = phi_ok s preds phi" "PhiInput s' preds phi p = PhiInput s preds phi p"
proof -
  show "phi_ok s' preds phi = phi_ok s preds phi" using assms by (simp add: phi_ok_def owner_frame_def numbers_differ_def)
  show "PhiInput s' preds phi p = PhiInput s preds phi p"
    using assms PredBlockIndex_from_frame [OF assms]
    by (cases "PredBlockIndex_from s preds phi p 0 (GetInputsCount s phi)") (simp_all add: PhiInput_def PredBlockIndex_def owner_frame_def)
qed

lemma filter_eq_upt: "j < n \<Longrightarrow> filter (\<lambda>i. i = j) [0..<n] = [j]"
proof (induction n)
  case (Suc n)
  then show ?case by (cases "j = n") (simp_all add: filter_empty_conv)
qed simp

text \<open>\<^verbatim>\<open>RemovePred\<close> moves the last predecessor to the place of the removed one.\<close>

lemma RemovePred_found:
  assumes "distinct preds" "j < length preds"
  shows "RemovePred preds (preds ! j) = Some (butlast (preds[j := last preds]))"
proof -
  have "filter (\<lambda>i. preds ! i = preds ! j) [0..<length preds] = filter (\<lambda>i. i = j) [0..<length preds]"
    using assms nth_eq_iff_index_eq by (intro filter_cong) auto
  also have "\<dots> = [j]" using assms(2) by (rule filter_eq_upt)
  finally show ?thesis by (simp add: RemovePred_def block_PredBlockIndex_def)
qed

lemma removed_nth:
  assumes "length preds = Suc sz" "k < sz"
  shows "butlast (preds[j := last preds]) ! k = (if k = j then preds ! sz else preds ! k)"
proof -
  have "last preds = preds ! sz" using assms(1) last_conv_nth [of preds] by (cases preds) simp_all
  then show ?thesis using assms by (auto simp: nth_butlast nth_list_update)
qed

lemma removed_set:
  assumes "distinct preds" "j < length preds"
  shows "distinct (butlast (preds[j := last preds]))" "set (butlast (preds[j := last preds])) = set preds - {preds ! j}"
proof -
  obtain xs z where p: "preds = xs @ [z]" using assms(2) by (cases preds rule: rev_cases) auto
  show "distinct (butlast (preds[j := last preds]))" using assms
    by (cases "j < length xs") (auto simp: p list_update_append distinct_list_update nth_append)
  show "set (butlast (preds[j := last preds])) = set preds - {preds ! j}"
  proof (cases "j < length xs")
    case True
    have "xs[j := z] = take j xs @ z # drop (Suc j) xs" "xs = take j xs @ xs ! j # drop (Suc j) xs"
      using True by (simp_all add: upd_conv_take_nth_drop id_take_nth_drop)
    then have "set (xs[j := z]) = insert z (set (take j xs) \<union> set (drop (Suc j) xs))"
      "set xs = insert (xs ! j) (set (take j xs) \<union> set (drop (Suc j) xs))" by (metis set_append list.simps(15) Un_insert_right)+
    moreover have "xs ! j \<notin> set (take j xs) \<union> set (drop (Suc j) xs)"
      using assms(1) \<open>xs = take j xs @ xs ! j # drop (Suc j) xs\<close> p
      by (metis Un_iff distinct.simps(2) distinct_append not_distinct_conv_prefix set_append)
    moreover have "z \<noteq> xs ! j" using assms(1) p True by auto
    ultimately show ?thesis using True by (auto simp: p list_update_append nth_append)
  next
    case False
    then show ?thesis using assms p by (auto simp: list_update_append nth_append)
  qed
qed

text \<open>The number of an input after both removals is that of its predecessor.\<close>

lemma renumbered_pred:
  assumes "phi_ok s preds phi" "distinct preds" "length preds = Suc sz" "r \<le> sz" "k < sz"
  defines "preds' \<equiv> butlast (preds[GetBbNum s (User phi r) := last preds])"
  shows "renumbered s phi r sz k < sz" "preds' ! renumbered s phi r sz k = preds ! moved_number s phi r sz k"
proof -
  let ?m = "moved_number s phi r sz k"
  have b: "GetBbNum s (User phi k) < Suc sz" if "k < Suc sz" for k using assms(1,3) that by (simp add: phi_ok_def)
  then have lt: "?m < Suc sz" "GetBbNum s (User phi r) < Suc sz" using assms(4,5) by (simp_all add: moved_number_def)
  have "inj_on (\<lambda>k. GetBbNum s (User phi k)) {..<Suc sz}" using assms(1,3) by (metis phi_ok_def numbers_differ_def)
  then have ne: "?m \<noteq> GetBbNum s (User phi r)"
    using assms(4,5) inj_onD [of "\<lambda>k. GetBbNum s (User phi k)" "{..<Suc sz}" "if k = r then sz else k" r]
    by (cases "k = r") (auto simp: moved_number_def)
  show "renumbered s phi r sz k < sz" using lt ne by (auto simp: renumbered_def)
  then show "preds' ! renumbered s phi r sz k = preds ! ?m"
    using removed_nth [OF assms(3)] lt ne by (auto simp: preds'_def renumbered_def)
qed

lemma phi_step:
  assumes "users_ok s" "phi_ok s preds phi" "distinct preds" "rmPred \<in> set preds"
  shows "\<exists>index s' preds'. PredBlockIndex s preds phi rmPred = Some index \<and> RemoveInput phi index s = Some s'
    \<and> RemovePred preds rmPred = Some preds' \<and> users_ok s' \<and> owner_frame {phi} s s' \<and> phi_ok s' preds' phi
    \<and> (\<forall>p \<in> set preds - {rmPred}. PhiInput s' preds' phi p = PhiInput s preds phi p)"
proof -
  obtain sz where sz: "length preds = Suc sz" using assms(4) by (cases preds) auto
  obtain r where r: "r < length preds" "preds ! GetBbNum s (User phi r) = rmPred" using phi_ok_onto [OF assms(2,4)] by blast
  note ok = assms(2) [unfolded phi_ok_def]
  let ?j = "GetBbNum s (User phi r)"
  let ?preds = "butlast (preds[?j := last preds])"
  have j: "?j < length preds" using ok r(1) by blast
  have P: "RemovePred preds rmPred = Some ?preds" using RemovePred_found [OF assms(3) j] r(2) by simp
  have dist: "distinct ?preds" using removed_set(1) [OF assms(3) j] .
  obtain c l where cl: "input s (User phi r) = Some c" "HasBasicBlock s c" "input s (User phi sz) = Some l" "HasBasicBlock s l"
    using ok r(1) sz lessI by metis
  have rs: "r \<le> sz" using r(1) sz by simp
  obtain s' where s': "RemoveInput phi r s = Some s'" "users_ok s'" "owner_frame {phi} s s'" "GetInputsCount s' phi = sz"
    "input s' = (input s)(User phi r := Some l)" "\<forall>k < sz. GetBbNum s' (User phi k) = renumbered s phi r sz k"
    using RemoveInput_ok [OF assms(1) _ _ rs cl(1-3)] ok sz by auto
  note R = renumbered_pred [OF assms(2,3) sz rs]
  have ok': "phi_ok s' ?preds phi" unfolding phi_ok_def
  proof (intro conjI allI impI)
    show "OwnerIsPhi s' phi" "IsOperandsDynamic s' phi" "GetInputsCount s' phi = length ?preds"
      using s'(3,4) ok sz by (simp_all add: owner_frame_def)
    show "numbers_differ s' phi" unfolding numbers_differ_def s'(4)
    proof (rule inj_onI)
      fix a b
      assume ab: "a \<in> {..<sz}" "b \<in> {..<sz}" "GetBbNum s' (User phi a) = GetBbNum s' (User phi b)"
      then have "preds ! moved_number s phi r sz a = preds ! moved_number s phi r sz b" using s'(6) R(2) by (metis lessThan_iff)
      moreover have "moved_number s phi r sz k < length preds" if "k < sz" for k using ok sz that by (simp add: moved_number_def)
      ultimately have "moved_number s phi r sz a = moved_number s phi r sz b" using assms(3) ab by (simp add: nth_eq_iff_index_eq)
      then show "a = b" using inj_onD [OF moved_number_inj] ok sz rs ab by (metis (no_types, lifting))
    qed
    fix k
    assume "k < length ?preds"
    then have k: "k < sz" using sz by simp
    show "GetBbNum s' (User phi k) < length ?preds" using s'(6) R(1) [OF k] k sz by simp
    show "\<exists>x. input s' (User phi k) = Some x \<and> HasBasicBlock s' x" using ok s'(3,5) cl(4) k sz by (simp add: owner_frame_def)
  qed
  have "PhiInput s' ?preds phi p = PhiInput s preds phi p" if p: "p \<in> set preds - {rmPred}" for p
  proof -
    obtain k where k: "k < length preds" "preds ! GetBbNum s (User phi k) = p" using phi_ok_onto [OF assms(2)] p by blast
    have kr: "k \<noteq> r" using k(2) r(2) p by auto
    let ?k = "if k = sz then r else k"
    have lt: "?k < sz" using k(1) kr rs sz by auto
    have "moved_number s phi r sz ?k = GetBbNum s (User phi k)" using kr by (simp add: moved_number_def)
    then have "?preds ! GetBbNum s' (User phi ?k) = p" using s'(6) lt R(2) [OF lt] k(2) by simp
    then have "PhiInput s' ?preds phi p = input s' (User phi ?k)" using PhiInput_found [OF ok' dist] lt sz by simp
    then show ?thesis using PhiInput_found [OF assms(2,3) k] s'(5) kr cl(3) by simp
  qed
  then show ?thesis using PredBlockIndex_found [OF assms(2,3) r] s'(1-3) P ok' by blast
qed

lemma RemovePhiInputs_ok:
  assumes "users_ok s" "distinct phis" "\<And>phi. phi \<in> set phis \<Longrightarrow> phi_ok s preds phi" "distinct preds" "rmPred \<in> set preds"
  shows "\<exists>s' preds'. RemovePhiInputs preds rmPred phis s = Some s' \<and> RemovePred preds rmPred = Some preds' \<and> users_ok s'
    \<and> owner_frame (set phis) s s' \<and> (\<forall>phi \<in> set phis. phi_ok s' preds' phi
    \<and> (\<forall>p \<in> set preds - {rmPred}. PhiInput s' preds' phi p = PhiInput s preds phi p))"
  using assms(1-3)
proof (induction phis arbitrary: s)
  case Nil
  obtain j where "j < length preds" "preds ! j = rmPred" using assms(5) by (auto simp: in_set_conv_nth)
  then show ?case using Nil.prems(1) RemovePred_found [OF assms(4)] by (auto simp: owner_frame_def)
next
  case (Cons phi phis)
  have "phi_ok s preds phi" using Cons.prems(3) by simp
  from phi_step [OF Cons.prems(1) this assms(4,5)] obtain index s1 preds' where s1: "PredBlockIndex s preds phi rmPred = Some index" "RemoveInput phi index s = Some s1"
    "RemovePred preds rmPred = Some preds'" "users_ok s1" "owner_frame {phi} s s1" "phi_ok s1 preds' phi"
    "\<forall>p \<in> set preds - {rmPred}. PhiInput s1 preds' phi p = PhiInput s preds phi p" by blast
  have d: "phi \<notin> set phis" "distinct phis" using Cons.prems(2) by simp_all
  have o: "phi_ok s1 preds q" "PhiInput s1 preds q p = PhiInput s preds q p" if "q \<in> set phis" for q p
    using phi_frame [OF s1(5), of q] Cons.prems(3) d(1) that by auto
  obtain s2 where s2: "RemovePhiInputs preds rmPred phis s1 = Some s2" "users_ok s2" "owner_frame (set phis) s1 s2"
    "\<forall>q \<in> set phis. phi_ok s2 preds' q \<and> (\<forall>p \<in> set preds - {rmPred}. PhiInput s2 preds' q p = PhiInput s1 preds q p)"
    using Cons.IH [OF s1(4) d(2) o(1)] s1(3) by auto
  have "phi_ok s2 preds' phi" "PhiInput s2 preds' phi p = PhiInput s1 preds' phi p" for p
    using phi_frame [OF s2(3) d(1)] s1(6) by simp_all
  then have "\<forall>q \<in> set (phi # phis). phi_ok s2 preds' q \<and> (\<forall>p \<in> set preds - {rmPred}. PhiInput s2 preds' q p = PhiInput s preds q p)"
    using s1(7) s2(4) o(2) by simp
  moreover have "RemovePhiInputs preds rmPred (phi # phis) s = Some s2" using s1(1,2) s2(1) by simp
  moreover have "owner_frame (set (phi # phis)) s s2" using owner_frame_trans [OF s1(5) s2(3)] by simp
  ultimately show ?case using s1(3) s2(2) by blast
qed

text \<open>
  C6: when an edge into a block with more than two predecessors is removed, the inputs of its phis are removed and renumbered and the last
  predecessor moves to the free place; afterwards every remaining predecessor still has, in every phi, the input it had, the phis correspond to
  the new list of predecessors, and the lists of users are well formed.
\<close>

theorem phi_inputs_follow_predecessors:
  assumes "users_ok s" "distinct phis" "\<And>phi. phi \<in> set phis \<Longrightarrow> phi_ok s preds phi" "distinct preds" "rmPred \<in> set preds" "2 < length preds"
  shows "\<exists>s' preds'. RemovePredecessorUpdateDF phis preds rmPred s = Some (preds', s') \<and> users_ok s'
    \<and> distinct preds' \<and> set preds' = set preds - {rmPred}
    \<and> (\<forall>phi \<in> set phis. phi_ok s' preds' phi
         \<and> (\<forall>p \<in> set preds'. PhiInput s' preds' phi p = PhiInput s preds phi p \<and> PhiInput s' preds' phi p \<noteq> None))"
proof -
  obtain s' preds' where s': "RemovePhiInputs preds rmPred phis s = Some s'" "RemovePred preds rmPred = Some preds'" "users_ok s'"
    "\<forall>phi \<in> set phis. phi_ok s' preds' phi \<and> (\<forall>p \<in> set preds - {rmPred}. PhiInput s' preds' phi p = PhiInput s preds phi p)"
    using RemovePhiInputs_ok [OF assms(1-5)] by blast
  obtain j where j: "j < length preds" "preds ! j = rmPred" using assms(5) by (auto simp: in_set_conv_nth)
  then have p: "preds' = butlast (preds[j := last preds])" using RemovePred_found [OF assms(4) j(1)] s'(2) by simp
  have "PhiInput s' preds' phi q \<noteq> None" if m: "phi \<in> set phis" "q \<in> set preds'" for phi q
  proof -
    have ok: "phi_ok s' preds' phi" using s'(4) m(1) by blast
    obtain k where k: "k < length preds'" "preds' ! GetBbNum s' (User phi k) = q" using phi_ok_onto [OF ok m(2)] by blast
    then show ?thesis using PhiInput_found [OF ok _ k] removed_set(1) [OF assms(4) j(1)] p ok by (auto simp: phi_ok_def)
  qed
  moreover have "RemovePredecessorUpdateDF phis preds rmPred s = Some (preds', s')"
    using s'(1,2) assms(6) by (simp add: RemovePredecessorUpdateDF_def)
  ultimately show ?thesis using s'(3,4) removed_set [OF assms(4) j(1)] p j(2) by auto
qed

section \<open>Appending an input\<close>

lemma User_new_links:
  assumes "links_are s U" "\<And>e. u \<notin> set (U e)" "GetIndex u < MAX_OPERANDS" "sz < MAX_OPERANDS"
  shows "\<exists>s'. User_new u sz s = Some s' \<and> links_are s' U \<and>
    s' = s\<lparr>GetNext := (GetNext s)(u := None), GetPrev := (GetPrev s)(u := None), GetBbNum := (GetBbNum s)(u := 2 ^ 20 - 1)\<rparr>"
proof -
  let ?s = "s\<lparr>GetNext := (GetNext s)(u := None), GetPrev := (GetPrev s)(u := None), GetBbNum := (GetBbNum s)(u := 2 ^ 20 - 1)\<rparr>"
  have "linked ?s p x (U e) = linked s p x (U e)" for p x e using assms(2) [of e] by (intro linked_cong) auto
  then have "links_are ?s U" using assms(1) by (simp add: links_are_def)
  then show ?thesis using assms(3,4) by (simp add: User_new_def)
qed

text \<open>The new storage holds the same inputs, and for a phi or a save state the same bits.\<close>

definition stored_alike :: "inst_id \<Rightarrow> user_lists \<Rightarrow> user_lists \<Rightarrow> bool" where
  "stored_alike i s s' \<longleftrightarrow>
     input s' = input s \<and> GetInputsCount s' = GetInputsCount s \<and> OwnerIsPhi s' = OwnerIsPhi s \<and> OwnerIsSaveState s' = OwnerIsSaveState s
     \<and> IsOperandsDynamic s' = IsOperandsDynamic s \<and> HasBasicBlock s' = HasBasicBlock s
     \<and> (OwnerIsSaveState s i \<or> OwnerIsPhi s i \<longrightarrow> GetBbNum s' = GetBbNum s)
     \<and> (\<forall>u. GetInst u \<noteq> i \<longrightarrow> GetBbNum s' u = GetBbNum s u)"

lemma Reallocate_from_ok:
  assumes "users_ok s" "k + n \<le> GetInputsCount s i" "\<And>j. j < GetInputsCount s i \<Longrightarrow> input s (User i j) \<noteq> None"
    "k + n < MAX_OPERANDS" "newCapacity < MAX_OPERANDS"
  shows "\<exists>s'. Reallocate_from i newCapacity k n s = Some s' \<and> users_ok s' \<and> stored_alike i s s' \<and> GetCapacity s' = GetCapacity s"
  using assms(1-4)
proof (induction n arbitrary: k s)
  case 0
  then show ?case by (simp add: stored_alike_def)
next
  case (Suc n)
  let ?u = "User i k"
  have k: "GetIndex ?u < MAX_OPERANDS" using Suc.prems(4) by simp
  obtain U where U: "users_are s U" using Suc.prems(1) by (auto simp: users_ok_def)
  obtain d where d: "input s ?u = Some d" using Suc.prems(2,3) by fastforce
  have u: "?u \<in> set (U d)" using users_areD(2) [OF U, of ?u d] d Suc.prems(2) by (simp add: valid_user_def)
  note L = users_areD(1) [OF U]
  obtain s1 where s1: "RemoveUser d ?u s = Some s1" "relinked s s1" "links_are s1 (U(d := remove1 ?u (U d)))"
    using users.remove_law [OF L u] by blast
  have no: "?u \<notin> set ((U(d := remove1 ?u (U d))) e)" for e by (rule users.removed_nowhere [OF L u])
  obtain s2 where s2: "User_new ?u newCapacity s1 = Some s2" "links_are s2 (U(d := remove1 ?u (U d)))"
    "s2 = s1\<lparr>GetNext := (GetNext s1)(?u := None), GetPrev := (GetPrev s1)(?u := None), GetBbNum := (GetBbNum s1)(?u := 2 ^ 20 - 1)\<rparr>"
    using User_new_links [OF s1(3) no _ assms(5)] k by blast
  let ?s2 = "if OwnerIsSaveState s i \<or> OwnerIsPhi s i then SetBbNum ?u (GetBbNum s ?u) s2 else s2"
  have "links_are ?s2 (U(d := remove1 ?u (U d)))" using s2(2) links_are_cong [of ?s2 s2] by simp
  from users.add_law [OF this no, of d] obtain s3 where s3: "AddUser d ?u ?s2 = Some s3" "relinked ?s2 s3"
    "links_are s3 ((U(d := remove1 ?u (U d)))(d := ?u # (U(d := remove1 ?u (U d))) d))" by blast
  have st: "stored_alike i s s3" "GetCapacity s3 = GetCapacity s"
    using relinked_fields [OF s1(2)] relinked_fields [OF s3(2)] s2(3) by (auto simp: stored_alike_def fun_eq_iff)
  have "w \<in> set (((U(d := remove1 ?u (U d)))(d := ?u # (U(d := remove1 ?u (U d))) d)) e) \<longleftrightarrow> w \<in> set (U e)" for w e
    using links_areD(2) [OF L, of d] u by (cases "e = d") auto
  then have ok: "users_ok s3"
    using users_areD(2) [OF U] st(1) by (intro users_ok_links [OF s3(3)]) (simp add: stored_alike_def valid_user_def)
  have "\<And>j. j < GetInputsCount s3 i \<Longrightarrow> input s3 (User i j) \<noteq> None" using Suc.prems(3) st(1) by (simp add: stored_alike_def)
  then obtain s' where "Reallocate_from i newCapacity (k + 1) n s3 = Some s'" "users_ok s'" "stored_alike i s3 s'" "GetCapacity s' = GetCapacity s3"
    using Suc.IH [OF ok, of "k + 1"] Suc.prems(2,4) st(1) by (auto simp: stored_alike_def)
  then show ?case using d s1(1) s2(1) s3(1) st by (auto simp: stored_alike_def)
qed

lemma Reallocate_ok:
  assumes "users_ok s" "\<And>j. j < GetInputsCount s i \<Longrightarrow> input s (User i j) \<noteq> None" "GetInputsCount s i = GetCapacity s i"
    "2 * GetCapacity s i + 4 < MAX_OPERANDS"
  shows "\<exists>s'. Reallocate i 0 s = Some s' \<and> users_ok s' \<and> stored_alike i s s' \<and> GetCapacity s i < GetCapacity s' i \<and> GetCapacity s' i < MAX_OPERANDS"
proof -
  let ?c = "(if GetCapacity s i \<noteq> 0 then GetCapacity s i else 1) * 2 + 2"
  have c: "?c < MAX_OPERANDS" using assms(4) by auto
  obtain s1 where s1: "(if GetCapacity s i = 0 then Some s else Reallocate_from i ?c 0 (GetInputsCount s i) s) = Some s1" "users_ok s1"
    "stored_alike i s s1"
  proof (cases "GetCapacity s i = 0")
    case True
    then show thesis using that [of s] assms(1) by (simp add: stored_alike_def)
  next
    case False
    have "0 + GetInputsCount s i < MAX_OPERANDS" using assms(3,4) by simp
    then show thesis using Reallocate_from_ok [OF assms(1) _ assms(2) _ c, of 0 "GetInputsCount s i"] that False by auto
  qed
  let ?s = "s1\<lparr>GetCapacity := (GetCapacity s1)(i := ?c)\<rparr>"
  have "Reallocate i 0 s = Some ?s" using s1(1) by (cases "GetCapacity s i = 0") (simp_all add: Reallocate_def Let_def)
  moreover have "users_ok ?s" using s1(2) users_ok_cong [of ?s s1] by simp
  moreover have "stored_alike i s ?s" using s1(3) by (simp add: stored_alike_def)
  ultimately show ?thesis using c by (intro exI [of _ ?s]) simp
qed

text \<open>\<^verbatim>\<open>AppendInput\<close> adds the input at the end, for a phi with the number of the next predecessor.\<close>

lemma AppendInput_ok:
  assumes "users_ok s" "IsOperandsDynamic s i" "\<And>j. j < GetInputsCount s i \<Longrightarrow> input s (User i j) \<noteq> None"
    "GetInputsCount s i \<le> GetCapacity s i" "2 * GetCapacity s i + 4 < MAX_OPERANDS"
  defines "n \<equiv> GetInputsCount s i"
  shows "\<exists>s'. AppendInput i x s = Some (n, s') \<and> users_ok s' \<and> owner_frame {i} s s' \<and> GetInputsCount s' i = Suc n
    \<and> n < GetCapacity s' i
    \<and> input s' = (input s)(User i n := Some x) \<and> (OwnerIsPhi s i \<longrightarrow> (\<forall>k \<le> n. GetBbNum s' (User i k) = (if k = n then n else GetBbNum s (User i k))))"
proof -
  let ?u = "User i n"
  obtain s1 where s1: "(if GetCapacity s i = GetInputsCount s i then Reallocate i 0 s else Some s) = Some s1" "users_ok s1"
    "stored_alike i s s1" "n < GetCapacity s1 i" "GetCapacity s1 i < MAX_OPERANDS"
  proof (cases "GetCapacity s i = GetInputsCount s i")
    case True
    obtain s' where "Reallocate i 0 s = Some s'" "users_ok s'" "stored_alike i s s'" "GetCapacity s i < GetCapacity s' i"
      "GetCapacity s' i < MAX_OPERANDS" using Reallocate_ok [OF assms(1,3) True [symmetric] assms(5)] by blast
    then show thesis using that [of s'] True n_def by simp
  next
    case False
    then show thesis using that [of s] assms(1,4,5) n_def by (simp add: stored_alike_def)
  qed
  note a = s1(3) [unfolded stored_alike_def]
  obtain U where U: "users_are s1 U" using s1(2) by (auto simp: users_ok_def)
  have no: "?u \<notin> set (U e)" for e using users_areD(2) [OF U, of ?u e] a n_def by (simp add: valid_user_def)
  let ?s2 = "s1\<lparr>input := (input s1)(?u := Some x)\<rparr>"
  have l2: "links_are ?s2 U" using users_areD(1) [OF U] links_are_cong [of ?s2 s1] by simp
  have "GetIndex ?u < MAX_OPERANDS" using s1(4,5) by simp
  from User_new_links [OF l2 no this s1(5)] obtain s3 where s3: "User_new ?u (GetCapacity s1 i) ?s2 = Some s3" "links_are s3 U"
    "s3 = ?s2\<lparr>GetNext := (GetNext ?s2)(?u := None), GetPrev := (GetPrev ?s2)(?u := None), GetBbNum := (GetBbNum ?s2)(?u := 2 ^ 20 - 1)\<rparr>" by blast
  let ?s3 = "if OwnerIsPhi s3 i then SetBbNum ?u n s3 else s3"
  have "links_are ?s3 U" using s3(2) links_are_cong [of ?s3 s3] by simp
  from users.add_law [OF this no, of x] obtain s4 where s4: "AddUser x ?u ?s3 = Some s4" "relinked ?s3 s4" "links_are s4 (U(x := ?u # U x))" by blast
  note f = relinked_fields [OF s4(2)]
  let ?s = "s4\<lparr>GetInputsCount := (GetInputsCount s4)(i := n + 1)\<rparr>"
  have "AppendInput i x s = Some (n, ?s)"
    using s1(1) s3(1) s4(1) a assms(2,4) by (cases "OwnerIsPhi s3 i") (simp_all add: AppendInput_def Append_def Let_def n_def)
  moreover have "users_ok ?s"
  proof (rule users_ok_links)
    show "links_are ?s (U(x := ?u # U x))" using s4(3) links_are_cong [of ?s s4] by simp
    fix d w
    show "w \<in> set ((U(x := ?u # U x)) d) \<longleftrightarrow> input ?s w = Some d \<and> valid_user ?s w"
      using users_areD(2) [OF U, of w d] f(1,2) s3(3) a no [of d] n_def by (cases w) (auto simp: valid_user_def)
  qed
  moreover have "owner_frame {i} s ?s" "GetInputsCount ?s i = Suc n" "input ?s = (input s)(?u := Some x)" "n < GetCapacity ?s i"
    "OwnerIsPhi s i \<longrightarrow> (\<forall>k \<le> n. GetBbNum ?s (User i k) = (if k = n then n else GetBbNum s (User i k)))"
    using f s3(3) a s1(4) by (auto simp: owner_frame_def)
  ultimately show ?thesis by blast
qed

lemma inj_on_extended:
  fixes f :: "nat \<Rightarrow> nat"
  assumes "inj_on f {..<n}" "\<And>k. k < n \<Longrightarrow> f k < n"
  shows "inj_on (\<lambda>k. if k = n then n else f k) {..<Suc n}"
proof (rule inj_onI)
  fix a b
  assume "a \<in> {..<Suc n}" "b \<in> {..<Suc n}" "(if a = n then n else f a) = (if b = n then n else f b)"
  moreover from this have "f a = f b \<Longrightarrow> a < n \<Longrightarrow> b < n \<Longrightarrow> a = b" using inj_onD [OF assms(1), of a b] by simp
  ultimately show "a = b" using assms(2) [of a] assms(2) [of b] by (cases "a = n"; cases "b = n") simp_all
qed

text \<open>
  After \<^verbatim>\<open>AppendInput\<close> to a phi together with a new predecessor at the end of the list, the new predecessor has the appended
  input and every other predecessor has the input it had.
\<close>

theorem phi_input_appended:
  assumes "users_ok s" "phi_ok s preds phi" "distinct preds" "p \<notin> set preds" "HasBasicBlock s x"
    "GetInputsCount s phi \<le> GetCapacity s phi" "2 * GetCapacity s phi + 4 < MAX_OPERANDS"
  shows "\<exists>s'. AppendInput phi x s = Some (length preds, s') \<and> users_ok s' \<and> phi_ok s' (preds @ [p]) phi
    \<and> PhiInput s' (preds @ [p]) phi p = Some x \<and> (\<forall>q \<in> set preds. PhiInput s' (preds @ [p]) phi q = PhiInput s preds phi q)"
proof -
  note ok = assms(2) [unfolded phi_ok_def]
  let ?n = "length preds"
  have n: "GetInputsCount s phi = ?n" using ok by blast
  have in_s: "\<And>j. j < GetInputsCount s phi \<Longrightarrow> input s (User phi j) \<noteq> None" using ok n by auto
  from AppendInput_ok [OF assms(1) _ in_s assms(6,7), of x] ok obtain s' where s': "AppendInput phi x s = Some (?n, s')" "users_ok s'"
    "owner_frame {phi} s s'" "GetInputsCount s' phi = Suc ?n" "input s' = (input s)(User phi ?n := Some x)"
    "\<And>k. k \<le> ?n \<Longrightarrow> GetBbNum s' (User phi k) = (if k = ?n then ?n else GetBbNum s (User phi k))"
    unfolding n by auto
  have lt: "GetBbNum s (User phi k) < ?n" if "k < ?n" for k using ok that by blast
  have "inj_on (\<lambda>k. GetBbNum s (User phi k)) {..<?n}" using ok n by (metis numbers_differ_def)
  from inj_on_extended [OF this lt] have "inj_on (\<lambda>k. GetBbNum s' (User phi k)) {..<Suc ?n}"
    using inj_on_cong [of "{..<Suc ?n}" "\<lambda>k. GetBbNum s' (User phi k)"] s'(6) by auto
  then have inj: "numbers_differ s' phi" by (simp add: numbers_differ_def s'(4))
  have ok': "phi_ok s' (preds @ [p]) phi" unfolding phi_ok_def
  proof (intro conjI allI impI)
    show "OwnerIsPhi s' phi" "IsOperandsDynamic s' phi" "GetInputsCount s' phi = length (preds @ [p])" "numbers_differ s' phi"
      using ok s'(3,4) inj by (simp_all add: owner_frame_def)
    fix k
    assume "k < length (preds @ [p])"
    then have k: "k = ?n \<or> k < ?n" by auto
    then show "GetBbNum s' (User phi k) < length (preds @ [p])" using s'(6) [of k] lt [of k] by auto
    have "HasBasicBlock s' = HasBasicBlock s" using s'(3) by (simp add: owner_frame_def)
    then show "\<exists>y. input s' (User phi k) = Some y \<and> HasBasicBlock s' y" using k ok s'(5) assms(5) by (cases "k = ?n") simp_all
  qed
  have d: "distinct (preds @ [p])" using assms(3,4) by simp
  have "PhiInput s' (preds @ [p]) phi q = PhiInput s preds phi q" if q: "q \<in> set preds" for q
  proof -
    obtain k where k: "k < ?n" "preds ! GetBbNum s (User phi k) = q" using phi_ok_onto [OF assms(2) q] by blast
    then have "(preds @ [p]) ! GetBbNum s' (User phi k) = q" using s'(6) [of k] lt by (simp add: nth_append)
    then show ?thesis using PhiInput_found [OF ok' d, of k] PhiInput_found [OF assms(2,3) k] k(1) s'(5) by simp
  qed
  moreover have "PhiInput s' (preds @ [p]) phi p = Some x"
    using PhiInput_found [OF ok' d, of ?n] s'(5,6) by simp
  ultimately show ?thesis using s'(1,2) ok' by blast
qed

text \<open>A phi with one input for each of three predecessors.\<close>

definition three_inputs :: user_lists where
  "three_inputs =
     \<lparr>firstUser = (\<lambda>d. if d < 3 then Some (User 3 d) else None), GetNext = (\<lambda>_. None), GetPrev = (\<lambda>_. None),
      input = (\<lambda>u. if GetInst u = 3 \<and> GetIndex u < 3 then Some (GetIndex u) else None),
      GetInputsCount = (\<lambda>_. 0)(3 := 3), GetCapacity = (\<lambda>_. 0)(3 := 4), GetBbNum = GetIndex, OwnerIsPhi = (\<lambda>i. i = 3),
      OwnerIsSaveState = (\<lambda>_. False), IsOperandsDynamic = (\<lambda>i. i = 3), HasBasicBlock = (\<lambda>_. True)\<rparr>"

lemma three_inputs_ok: "users_ok three_inputs" "phi_ok three_inputs [10, 11, 12] 3"
proof -
  let ?U = "\<lambda>d. if d < 3 then [User 3 d] else []"
  have "links_are three_inputs ?U" by (auto simp: links_are_def three_inputs_def)
  moreover have "u \<in> set (?U d) \<longleftrightarrow> input three_inputs u = Some d \<and> valid_user three_inputs u" for u d
    by (cases u) (auto simp: three_inputs_def valid_user_def)
  ultimately show "users_ok three_inputs" unfolding users_ok_def users_are_def by blast
  show "phi_ok three_inputs [10, 11, 12] 3" by (simp add: phi_ok_def three_inputs_def numbers_differ_def inj_on_def)
qed

theorem phi_inputs_follow_predecessors_witness:
  "\<exists>s' preds'. RemovePredecessorUpdateDF [3] [10, 11, 12] 10 three_inputs = Some (preds', s') \<and> set preds' = {11, 12} \<and>
     PhiInput s' preds' 3 11 = Some 1 \<and> PhiInput s' preds' 3 12 = Some 2"
proof -
  have "PhiInput three_inputs [10, 11, 12] 3 11 = Some 1" "PhiInput three_inputs [10, 11, 12] 3 12 = Some 2"
    by (simp_all add: PhiInput_def PredBlockIndex_def PhiInputBb_def three_inputs_def numeral_3_eq_3)
  then show ?thesis
    using phi_inputs_follow_predecessors [OF three_inputs_ok(1), of "[3]" "[10, 11, 12]" 10] three_inputs_ok(2) by auto
qed

theorem phi_input_appended_witness:
  "\<exists>s'. AppendInput 3 7 three_inputs = Some (3, s') \<and> PhiInput s' [10, 11, 12, 13] 3 13 = Some 7 \<and>
     PhiInput s' [10, 11, 12, 13] 3 11 = PhiInput three_inputs [10, 11, 12] 3 11"
  using phi_input_appended [OF three_inputs_ok, of 13 7] by (auto simp: three_inputs_def MAX_OPERANDS_def)

end
