(* ===== verification/CompareNegation.thy ===== *)
theory CompareNegation
  imports UserLists
begin

text \<open>
  A peephole that follows a list of users while it changes it: \<^verbatim>\<open>Peepholes::TrySimplifyCompareNegation\<close> of
  \<^verbatim>\<open>compiler/optimizer/optimizations/peepholes.cpp\<close>, which compares a boolean instead of its negation
  \<open>1 - b\<close> (an \<^verbatim>\<open>Add\<close> of a \<^verbatim>\<open>Neg\<close> and 1).

  The loop goes over the users of the \<^verbatim>\<open>Add\<close>, and \<^verbatim>\<open>SetInput\<close> in its body puts the very node the iterator stands on into the
  list of users of the boolean: the iteration goes on in that list.  The opcodes, types and condition codes are those of the graph, the inputs
  and users those of the lists of users.
\<close>

section \<open>The loop\<close>

definition IsNegationPattern :: "graph \<Rightarrow> user_lists \<Rightarrow> inst_id \<Rightarrow> bool option" where
  "IsNegationPattern g s inst =
     (if opcode_of g inst \<noteq> Op_Add then None
      else do {
        input0 \<leftarrow> input s (User inst 0);
        input1 \<leftarrow> input s (User inst 1);
        if opcode_of g input0 \<noteq> Op_Neg then Some False
        else do {
          b \<leftarrow> input s (User input0 0);
          Some (type_of g b = BOOL \<and> HasSingleUser input0 s \<and> opcode_of g input1 = Op_Constant \<and> GetRawValue (the_inst g input1) = 1) } })"

definition SkipThisPeepholeInOSR :: "bool \<Rightarrow> graph \<Rightarrow> inst_id \<Rightarrow> inst_id \<Rightarrow> bool" where
  "SkipThisPeepholeInOSR osr g inst newInput \<longleftrightarrow>
     osr \<and> opcode_of g newInput \<noteq> Op_Constant \<and> GetBasicBlock (the_inst g inst) \<noteq> GetBasicBlock (the_inst g newInput)"

definition SetCc :: "inst_id \<Rightarrow> ConditionCode \<Rightarrow> graph \<Rightarrow> graph" where
  "SetCc i cc g = g\<lparr>insts := (insts g)[i := (the_inst g i)\<lparr>GetCc := cc\<rparr>]\<rparr>"

definition bool_compare :: "graph \<Rightarrow> inst_id \<Rightarrow> bool" where
  "bool_compare g i \<longleftrightarrow>
     opcode_of g i = Op_Compare \<and> operandsType (the_inst g i) = BOOL \<and> (GetCc (the_inst g i) = CC_EQ \<or> GetCc (the_inst g i) = CC_NE)"

text \<open>The body for one user; the last component of the result tells whether it changed something.\<close>

definition negation_user :: "bool \<Rightarrow> inst_id \<Rightarrow> user \<Rightarrow> graph \<Rightarrow> user_lists \<Rightarrow> (graph \<times> user_lists \<times> bool) option" where
  "negation_user osr inst userAdd g s =
     (let compareInst = GetInst userAdd
      in if \<not> bool_compare g compareInst then Some (g, s, False)
         else let indexCast = (if input s (User compareInst 0) = Some inst then 0 else 1)
              in do {
                neg \<leftarrow> input s (User inst 0);
                boolValue \<leftarrow> input s (User neg 0);
                if SkipThisPeepholeInOSR osr g inst boolValue then Some (g, s, False)
                else do {
                  s \<leftarrow> SetInput compareInst indexCast (Some boolValue) s;
                  Some (SetCc compareInst (GetInverseConditionCode (GetCc (the_inst g compareInst))) g, s, True) } })"

text \<open>The state of the loop: the iterator, the graph with its lists, the flag \<^verbatim>\<open>optimized\<close>; \<open>k\<close> iterations of it, or fewer when it ends.\<close>

record negation_loop =
  iterator :: "user option"
  loop_graph :: graph
  loop_lists :: user_lists
  optimized :: bool

fun negation_steps :: "bool \<Rightarrow> inst_id \<Rightarrow> nat \<Rightarrow> negation_loop \<Rightarrow> negation_loop option" where
  "negation_steps osr inst 0 st = Some st"
| "negation_steps osr inst (Suc k) st =
     (case iterator st of
        None \<Rightarrow> Some st
      | Some userAdd \<Rightarrow> do {
          (g, s, changed) \<leftarrow> negation_user osr inst userAdd (loop_graph st) (loop_lists st);
          negation_steps osr inst k
            \<lparr>iterator = GetNext s userAdd, loop_graph = g, loop_lists = s, optimized = optimized st \<or> changed\<rparr> })"

definition negation_start :: "inst_id \<Rightarrow> graph \<Rightarrow> user_lists \<Rightarrow> negation_loop" where
  "negation_start inst g s = \<lparr>iterator = firstUser s inst, loop_graph = g, loop_lists = s, optimized = False\<rparr>"

definition TrySimplifyCompareNegation ::
    "nat \<Rightarrow> bool \<Rightarrow> inst_id \<Rightarrow> graph \<Rightarrow> user_lists \<Rightarrow> (bool \<times> graph \<times> user_lists) option" where
  "TrySimplifyCompareNegation fuel osr inst g s =
     (if opcode_of g inst \<noteq> Op_Add then None
      else do {
        st \<leftarrow> negation_steps osr inst fuel (negation_start inst g s);
        if iterator st = None then Some (optimized st, loop_graph st, loop_lists st) else None })"

section \<open>One iteration\<close>

lemma SetCc_simps [simp]:
  "length (insts (SetCc i cc g)) = length (insts g)"
  "i < length (insts g) \<Longrightarrow> the_inst (SetCc i cc g) j = (if j = i then (the_inst g i)\<lparr>GetCc := cc\<rparr> else the_inst g j)"
  by (auto simp: SetCc_def nth_list_update)

lemma SetCc_compare:
  assumes "c < length (insts g)" "bool_compare g c"
  shows "bool_compare (SetCc c (GetInverseConditionCode (GetCc (the_inst g c))) g) d \<longleftrightarrow> bool_compare g d"
    "opcode_of (SetCc c cc g) j = opcode_of g j" "GetBasicBlock (the_inst (SetCc c cc g) j) = GetBasicBlock (the_inst g j)"
  using assms by (auto simp: bool_compare_def)

text \<open>The node the iterator stands on becomes the first user of the boolean; what was the first user there is the next one visited.\<close>

lemma negation_user_step:
  assumes "users_are s U" "bool_compare g c" "valid_user s (User c k)" "input s (User c k) = Some d"
    "k = (if input s (User c 0) = Some i then 0 else 1)"
    "input s (User i 0) = Some n" "input s (User n 0) = Some b" "\<not> SkipThisPeepholeInOSR osr g i b"
  defines "V \<equiv> U(d := remove1 (User c k) (U d))"
  shows "\<exists>s'. negation_user osr i (User c k) g s = Some (SetCc c (GetInverseConditionCode (GetCc (the_inst g c))) g, s', True)
    \<and> users_are s' (V(b := User c k # V b)) \<and> input s' = (input s)(User c k := Some b) \<and> GetInputsCount s' = GetInputsCount s
    \<and> GetNext s' (User c k) = (case V b of [] \<Rightarrow> None | w # _ \<Rightarrow> Some w)"
proof -
  have v: "k < GetInputsCount s c" using assms(3) by (simp add: valid_user_def)
  let ?u = "User c k"
  obtain s1 where s1: "SetInput c k (Some b) s = Some (s1\<lparr>input := (input s)(?u := Some b)\<rparr>)" "relinked s s1"
    "users_are (s1\<lparr>input := (input s)(?u := Some b)\<rparr>) (listed (unlisted U ?u (input s ?u)) ?u (Some b))"
    using SetInput_ok [OF assms(1) v] by blast
  let ?s = "s1\<lparr>input := (input s)(?u := Some b)\<rparr>"
  have u: "users_are ?s (V(b := ?u # V b))" using s1(3) by (simp add: listed_def unlisted_def V_def assms(4))
  then have "linked ?s None (firstUser ?s b) (?u # V b)" using links_areD(1) [OF users_areD(1) [OF u], of b] by simp
  then have "GetNext ?s ?u = (case V b of [] \<Rightarrow> None | w # _ \<Rightarrow> Some w)" using linked_next by fastforce
  moreover have "negation_user osr i ?u g s = Some (SetCc c (GetInverseConditionCode (GetCc (the_inst g c))) g, ?s, True)"
    using s1(1) assms(2,6-8) unfolding negation_user_def Let_def user.sel assms(5) [symmetric] by simp
  ultimately show ?thesis using u relinked_fields [OF s1(2)] by (intro exI [of _ ?s]) simp
qed

section \<open>The loop may never end\<close>

text \<open>Two comparisons that have the boolean as their second input take turns at the head of its list.\<close>

definition taking_turns :: "bool \<Rightarrow> inst_id \<Rightarrow> inst_id \<Rightarrow> inst_id \<Rightarrow> negation_loop \<Rightarrow> bool" where
  "taking_turns osr i n b st \<longleftrightarrow>
     (\<exists>U x y R. users_are (loop_lists st) U \<and> U b = User x 1 # User y 1 # R \<and> iterator st = Some (User y 1)
        \<and> (\<forall>c \<in> {x, y}. bool_compare (loop_graph st) c \<and> c < length (insts (loop_graph st)) \<and> input (loop_lists st) (User c 0) \<noteq> Some i)
        \<and> input (loop_lists st) (User i 0) = Some n \<and> input (loop_lists st) (User n 0) = Some b
        \<and> \<not> SkipThisPeepholeInOSR osr (loop_graph st) i b)"

lemma taking_turns_step:
  assumes "taking_turns osr i n b st"
  shows "\<exists>st'. negation_steps osr i (Suc k) st = negation_steps osr i k st' \<and> taking_turns osr i n b st'"
proof -
  let ?s = "loop_lists st" and ?g = "loop_graph st"
  obtain U x y R where st: "users_are ?s U" "U b = User x 1 # User y 1 # R" "iterator st = Some (User y 1)"
    "\<forall>c \<in> {x, y}. bool_compare ?g c \<and> c < length (insts ?g) \<and> input ?s (User c 0) \<noteq> Some i"
    "input ?s (User i 0) = Some n" "input ?s (User n 0) = Some b" "\<not> SkipThisPeepholeInOSR osr ?g i b"
    using assms unfolding taking_turns_def by blast
  have y: "bool_compare ?g y" "y < length (insts ?g)" "input ?s (User y 0) \<noteq> Some i" using st(4) by simp_all
  have m: "input ?s (User y 1) = Some b" "valid_user ?s (User y 1)" using users_areD(2) [OF st(1), of "User y 1" b] st(2) by simp_all
  have xy: "x \<noteq> y" using links_areD(2) [OF users_areD(1) [OF st(1)], of b] st(2) by auto
  let ?V = "U(b := remove1 (User y 1) (U b))"
  have V: "?V b = User x 1 # R" using st(2) xy by simp
  have one: "1 = (if input ?s (User y 0) = Some i then 0 else (1 :: nat))" using y(3) by simp
  obtain s' where s': "negation_user osr i (User y 1) ?g ?s = Some (SetCc y (GetInverseConditionCode (GetCc (the_inst ?g y))) ?g, s', True)"
    "users_are s' (?V(b := User y 1 # ?V b))" "input s' = (input ?s)(User y 1 := Some b)"
    "GetNext s' (User y 1) = (case ?V b of [] \<Rightarrow> None | w # _ \<Rightarrow> Some w)"
    using negation_user_step [OF st(1) y(1) m(2,1) one st(5-7)] by blast
  let ?g' = "SetCc y (GetInverseConditionCode (GetCc (the_inst ?g y))) ?g"
  let ?st = "\<lparr>iterator = GetNext s' (User y 1), loop_graph = ?g', loop_lists = s', optimized = optimized st \<or> True\<rparr>"
  have i: "input s' = input ?s" using s'(3) m(1) by (auto simp: fun_eq_iff)
  have "(?V(b := User y 1 # ?V b)) b = User y 1 # User x 1 # R" using V by simp
  moreover have "iterator ?st = Some (User x 1)" using s'(4) V by simp
  moreover have "\<forall>c \<in> {y, x}. bool_compare ?g' c \<and> c < length (insts ?g') \<and> input s' (User c 0) \<noteq> Some i"
    using st(4) SetCc_compare(1) [OF y(2,1)] i by simp
  moreover have "\<not> SkipThisPeepholeInOSR osr ?g' i b"
    using st(7) SetCc_compare(2,3) [OF y(2,1)] by (simp add: SkipThisPeepholeInOSR_def)
  ultimately have "taking_turns osr i n b ?st"
    unfolding taking_turns_def using s'(2) st(5,6) i by (intro exI [of _ "?V(b := User y 1 # ?V b)"] exI [of _ y] exI [of _ x] exI [of _ R]) simp
  moreover have "negation_steps osr i (Suc k) st = negation_steps osr i k ?st" using st(3) s'(1) by simp
  ultimately show ?thesis by blast
qed

lemma taking_turns_forever:
  "taking_turns osr i n b st \<Longrightarrow> \<exists>st'. negation_steps osr i k st = Some st' \<and> iterator st' \<noteq> None"
proof (induction k arbitrary: st)
  case 0
  then show ?case by (auto simp: taking_turns_def)
next
  case (Suc k)
  from taking_turns_step [OF Suc.prems, of k] Suc.IH show ?case by auto
qed

text \<open>
  C21: the loop of \<^verbatim>\<open>TrySimplifyCompareNegation\<close> does not end when the first user of the negation and the first user of the
  boolean are both comparisons of booleans with that operand second: with no number of iterations is the end of the list reached.
\<close>

theorem compare_negation_never_ends:
  assumes "users_ok s" "i \<noteq> b" "input s (User i 0) = Some n" "input s (User n 0) = Some b"
    "opcode_of g n = Op_Neg" "opcode_of g i = Op_Add" "\<not> SkipThisPeepholeInOSR osr g i b"
    "firstUser s i = Some (User c 1)" "bool_compare g c" "c < length (insts g)" "input s (User c 0) \<noteq> Some i"
    "firstUser s b = Some (User d 1)" "bool_compare g d" "d < length (insts g)" "input s (User d 0) \<noteq> Some i"
  shows "(\<exists>st. negation_steps osr i k (negation_start i g s) = Some st \<and> iterator st \<noteq> None)
    \<and> TrySimplifyCompareNegation k osr i g s = None"
proof -
  obtain U where U: "users_are s U" using assms(1) by (auto simp: users_ok_def)
  have L: "linked s None (firstUser s e) (U e)" for e using links_areD(1) [OF users_areD(1) [OF U]] .
  have ui: "User c 1 \<in> set (U i)" using L [of i] assms(8) by (cases "U i") auto
  obtain R where ub: "U b = User d 1 # R" using L [of b] assms(12) by (cases "U b") auto
  have m: "input s (User c 1) = Some i" "valid_user s (User c 1)" using users_areD(2) [OF U, of "User c 1" i] ui by simp_all
  have one: "1 = (if input s (User c 0) = Some i then 0 else (1 :: nat))" using assms(11) by simp
  let ?V = "U(i := remove1 (User c 1) (U i))"
  let ?g = "SetCc c (GetInverseConditionCode (GetCc (the_inst g c))) g"
  obtain s' where s': "negation_user osr i (User c 1) g s = Some (?g, s', True)"
    "users_are s' (?V(b := User c 1 # ?V b))" "input s' = (input s)(User c 1 := Some b)"
    "GetNext s' (User c 1) = (case ?V b of [] \<Rightarrow> None | w # _ \<Rightarrow> Some w)"
    using negation_user_step [OF U assms(9) m(2,1) one assms(3,4,7)] by blast
  let ?st = "\<lparr>iterator = GetNext s' (User c 1), loop_graph = ?g, loop_lists = s', optimized = True\<rparr>"
  have "(?V(b := User c 1 # ?V b)) b = User c 1 # User d 1 # R" using ub assms(2) by simp
  moreover have "iterator ?st = Some (User d 1)" using s'(4) ub assms(2) by simp
  moreover have "\<forall>e \<in> {c, d}. bool_compare ?g e \<and> e < length (insts ?g) \<and> input s' (User e 0) \<noteq> Some i"
    using assms(9-11,13-15) SetCc_compare(1) [OF assms(10,9)] s'(3) by simp
  moreover have "input s' (User i 0) = Some n" "input s' (User n 0) = Some b" using s'(3) assms(3,4) by simp_all
  moreover have "\<not> SkipThisPeepholeInOSR osr ?g i b"
    using assms(7) SetCc_compare(2,3) [OF assms(10,9)] by (simp add: SkipThisPeepholeInOSR_def)
  ultimately have "taking_turns osr i n b ?st"
    unfolding taking_turns_def using s'(2) by (intro exI [of _ "?V(b := User c 1 # ?V b)"] exI [of _ c] exI [of _ d] exI [of _ R]) simp
  then have "\<exists>st. negation_steps osr i k (negation_start i g s) = Some st \<and> iterator st \<noteq> None"
    using assms(8) s'(1) taking_turns_forever by (cases k) (simp_all add: negation_start_def)
  then show ?thesis by (auto simp: TrySimplifyCompareNegation_def)
qed

section \<open>Where the loop does what it means to\<close>

text \<open>Users that are no comparisons of booleans are passed over.\<close>

lemma negation_steps_skip:
  assumes "linked s p x us" "\<And>u. u \<in> set us \<Longrightarrow> \<not> bool_compare g (GetInst u)"
  shows "negation_steps osr i (length us + k) \<lparr>iterator = x, loop_graph = g, loop_lists = s, optimized = o1\<rparr> =
    Some \<lparr>iterator = None, loop_graph = g, loop_lists = s, optimized = o1\<rparr>"
  using assms
proof (induction us arbitrary: p x)
  case Nil
  then show ?case by (cases k) simp_all
next
  case (Cons u us)
  have "negation_user osr i u g s = Some (g, s, False)" using Cons.prems(2) by (simp add: negation_user_def)
  then show ?case using Cons.prems Cons.IH [of "Some u" "GetNext s u"] by simp
qed

text \<open>
  C22: when the negation has one user, a comparison of booleans, and no user of the boolean is one, the loop ends after as many iterations as
  there are users, and only the comparison changes: it gets the boolean as its operand and the inverse condition.  On booleans this is the same
  comparison.
\<close>

theorem compare_negation_single:
  assumes "users_are s U" "U i = [User c k]" "i \<noteq> b" "input s (User i 0) = Some n" "input s (User n 0) = Some b"
    "opcode_of g i = Op_Add" "\<not> SkipThisPeepholeInOSR osr g i b" "bool_compare g c" "c < length (insts g)" "k \<le> 1"
    "\<And>u. u \<in> set (U b) \<Longrightarrow> \<not> bool_compare g (GetInst u)" "length (U b) < fuel"
  shows "\<exists>s'. TrySimplifyCompareNegation fuel osr i g s = Some (True, SetCc c (GetInverseConditionCode (GetCc (the_inst g c))) g, s')
    \<and> users_ok s' \<and> input s' = (input s)(User c k := Some b)
    \<and> (\<forall>x \<in> {0, 1}. \<forall>y \<in> {0, 1 :: u64}.
         Compare (GetInverseConditionCode (GetCc (the_inst g c))) x y = Compare (GetCc (the_inst g c)) (1 - x) y
         \<and> Compare (GetInverseConditionCode (GetCc (the_inst g c))) y x = Compare (GetCc (the_inst g c)) y (1 - x))"
proof -
  have mem: "User c k \<in> set (U i)" using assms(2) by simp
  then have m: "input s (User c k) = Some i" "valid_user s (User c k)" using users_areD(2) [OF assms(1), of "User c k" i] by simp_all
  have k: "k = (if input s (User c 0) = Some i then 0 else 1)"
  proof (cases "input s (User c 0) = Some i")
    case True
    moreover have "valid_user s (User c 0)" using m(2) by (simp add: valid_user_def)
    ultimately have "User c 0 \<in> set (U i)" using users_areD(2) [OF assms(1)] by simp
    then show ?thesis using assms(2) True by simp
  next
    case False
    then show ?thesis using m(1) assms(10) by (cases "k = 0") auto
  qed
  let ?V = "U(i := remove1 (User c k) (U i))" and ?g = "SetCc c (GetInverseConditionCode (GetCc (the_inst g c))) g"
  obtain s' where s': "negation_user osr i (User c k) g s = Some (?g, s', True)" "users_are s' (?V(b := User c k # ?V b))"
    "input s' = (input s)(User c k := Some b)"
    using negation_user_step [OF assms(1,8) m(2,1) k assms(4,5,7)] by blast
  have l: "linked s' (Some (User c k)) (GetNext s' (User c k)) (U b)"
    using links_areD(1) [OF users_areD(1) [OF s'(2)], of b] assms(3) by simp
  have first: "firstUser s i = Some (User c k)" using links_areD(1) [OF users_areD(1) [OF assms(1)], of i] assms(2) by simp
  obtain f where f: "fuel = Suc (length (U b) + f)" using assms(12) less_iff_Suc_add by auto
  have "\<not> bool_compare ?g (GetInst u)" if "u \<in> set (U b)" for u using assms(11) [OF that] SetCc_compare(1) [OF assms(9,8)] by simp
  from negation_steps_skip [OF l this, of osr i f True]
  have "negation_steps osr i fuel (negation_start i g s) = Some \<lparr>iterator = None, loop_graph = ?g, loop_lists = s', optimized = True\<rparr>"
    using first s'(1) f by (simp add: negation_start_def)
  then have "TrySimplifyCompareNegation fuel osr i g s = Some (True, ?g, s')" using assms(6) by (simp add: TrySimplifyCompareNegation_def)
  moreover have "GetCc (the_inst g c) = CC_EQ \<or> GetCc (the_inst g c) = CC_NE" using assms(8) by (auto simp: bool_compare_def)
  ultimately show ?thesis using s'(2,3) by (auto simp: users_ok_def)
qed

section \<open>Examples\<close>

text \<open>
  The boolean 0, its negation 3, and the comparisons 5 of the parameter 4 with the negation and 6 of the parameter with the boolean itself; the
  first graph has both comparisons, the second one only the comparison with the negation.
\<close>

definition plain_inst :: "opcode \<Rightarrow> ir_type \<Rightarrow> inst_id list \<Rightarrow> inst" where
  "plain_inst opc type ins =
     \<lparr>GetOpcode = opc, GetType = type, inputs = ins, operandsType = BOOL, GetRawValue = 1, GetCc = CC_EQ, GetImm = 0, GetBasicBlock = 0,
      IsFcmpg = False, IsAllocation = False, GetArgNumber = 0, GetObject = 0, bbNums = []\<rparr>"

definition negated_graph :: graph where
  "negated_graph =
     \<lparr>insts = [plain_inst Op_Parameter BOOL [], plain_inst Op_Neg INT32 [0], plain_inst Op_Constant INT64 [], plain_inst Op_Add INT32 [1, 2],
        plain_inst Op_Parameter BOOL [], plain_inst Op_Compare BOOL [4, 3], plain_inst Op_Compare BOOL [4, 0]],
      blocks = [], loops = [], GetBlocksRPO = [], GetStartBlock = 0, constList = [2], IsBytecodeOptimizer = False, IsDynamicMethod = False,
      GetArch = AARCH64, objectPointerSize = 4, rtMaxArrayLength = (\<lambda>_. None), rtIsMethodStatic = True\<rparr>"

definition single_lists :: user_lists where
  "single_lists =
     \<lparr>firstUser = (\<lambda>_. None)(0 := Some (User 1 0), 1 := Some (User 3 0), 2 := Some (User 3 1), 3 := Some (User 5 1), 4 := Some (User 5 0)),
      GetNext = (\<lambda>_. None), GetPrev = (\<lambda>_. None),
      input = (\<lambda>_. None)(User 1 0 := Some 0, User 3 0 := Some 1, User 3 1 := Some 2, User 5 0 := Some 4, User 5 1 := Some 3),
      GetInputsCount = (\<lambda>_. 0)(1 := 1, 3 := 2, 5 := 2), GetCapacity = (\<lambda>_. 0), GetBbNum = (\<lambda>_. 0), OwnerIsPhi = (\<lambda>_. False),
      OwnerIsSaveState = (\<lambda>_. False), IsOperandsDynamic = (\<lambda>_. False), HasBasicBlock = (\<lambda>_. True)\<rparr>"

definition single_users :: "inst_id \<Rightarrow> user list" where
  "single_users = (\<lambda>_. [])(0 := [User 1 0], 1 := [User 3 0], 2 := [User 3 1], 3 := [User 5 1], 4 := [User 5 0])"

lemma single_lists_ok: "users_are single_lists single_users"
proof -
  have "links_are single_lists single_users" unfolding links_are_def by (auto simp: single_lists_def single_users_def)
  moreover have "u \<in> set (single_users d) \<longleftrightarrow> input single_lists u = Some d \<and> valid_user single_lists u" for u d
    by (auto simp: single_lists_def single_users_def valid_user_def)
  ultimately show ?thesis unfolding users_are_def by blast
qed

definition both_lists :: user_lists where
  "both_lists = single_lists\<lparr>firstUser := (firstUser single_lists)(0 := Some (User 6 1), 4 := Some (User 6 0)),
     GetNext := (GetNext single_lists)(User 6 1 := Some (User 1 0), User 6 0 := Some (User 5 0)),
     GetPrev := (GetPrev single_lists)(User 1 0 := Some (User 6 1), User 5 0 := Some (User 6 0)),
     input := (input single_lists)(User 6 0 := Some 4, User 6 1 := Some 0),
     GetInputsCount := (GetInputsCount single_lists)(6 := 2)\<rparr>"

lemma both_lists_ok: "users_ok both_lists"
proof -
  let ?U = "single_users(0 := [User 6 1, User 1 0], 4 := [User 6 0, User 5 0])"
  have "links_are both_lists ?U" unfolding links_are_def by (auto simp: both_lists_def single_lists_def single_users_def)
  moreover have "u \<in> set (?U d) \<longleftrightarrow> input both_lists u = Some d \<and> valid_user both_lists u" for u d
    by (auto simp: both_lists_def single_lists_def single_users_def valid_user_def)
  ultimately show ?thesis unfolding users_ok_def users_are_def by blast
qed

theorem compare_negation_never_ends_witness:
  "users_ok both_lists \<and> IsNegationPattern negated_graph both_lists 3 = Some True \<and>
   TrySimplifyCompareNegation 1000 False 3 negated_graph both_lists = None"
proof -
  have "IsNegationPattern negated_graph both_lists 3 = Some True"
    by (simp add: IsNegationPattern_def negated_graph_def plain_inst_def both_lists_def single_lists_def HasSingleUser_def)
  moreover have "TrySimplifyCompareNegation 1000 False 3 negated_graph both_lists = None"
    using compare_negation_never_ends [OF both_lists_ok, of 3 0 1 negated_graph False 5 6 1000]
    by (simp add: negated_graph_def plain_inst_def both_lists_def single_lists_def SkipThisPeepholeInOSR_def bool_compare_def)
  ultimately show ?thesis using both_lists_ok by blast
qed

theorem compare_negation_single_witness:
  "\<exists>s'. TrySimplifyCompareNegation 2 False 3 negated_graph single_lists = Some (True, SetCc 5 CC_NE negated_graph, s') \<and> users_ok s' \<and>
     input s' (User 5 1) = Some 0"
proof -
  have "\<not> bool_compare negated_graph (GetInst u)" if "u \<in> set (single_users 0)" for u
    using that by (auto simp: single_users_def bool_compare_def negated_graph_def plain_inst_def)
  then show ?thesis
    using compare_negation_single [OF single_lists_ok, of 3 5 1 0 1 negated_graph False 2]
    by (auto simp: negated_graph_def plain_inst_def single_lists_def single_users_def SkipThisPeepholeInOSR_def bool_compare_def)
qed

end
