(* ===== verification/Peepholes.thy ===== *)
theory Peepholes
  imports ConstFolding CompareNegation
begin

unbundle bit_operations_syntax

text \<open>
  The arithmetic peephole rules (\<^verbatim>\<open>compiler/optimizer/optimizations/peepholes.cpp\<close>): the visitors of negation, absolute value,
  complement, addition, subtraction, multiplication, division, remainder, minimum, maximum, shifts and bit operations, with the helpers
  they call.

  A visitor takes the graph and the visited instruction and returns the changed graph with the flag that \<^verbatim>\<open>PEEPHOLE_IS_APPLIED\<close> sets;
  \<open>None\<close> stands for a failed assertion and undefined behaviour.  \<open>osr\<close> is \<^verbatim>\<open>IsOsrMode()\<close> of the graph, \<open>fp\<close> the floating-point unit.
\<close>

section \<open>Editing the graph\<close>

text \<open>The users of an instruction are the inputs that name it; theory \<open>UserLists\<close> shows that the linked lists keep up with the inputs.\<close>

definition UsersCount :: "graph \<Rightarrow> inst_id \<Rightarrow> nat" where
  "UsersCount g x = length (filter (\<lambda>y. y = x) (concat (map inputs (insts g))))"

definition IsSingleUser :: "graph \<Rightarrow> inst_id \<Rightarrow> bool" where
  "IsSingleUser g x \<longleftrightarrow> UsersCount g x = 1"

definition user_insts :: "graph \<Rightarrow> inst_id \<Rightarrow> inst_id list" where
  "user_insts g x = filter (\<lambda>j. x \<in> set (inputs (the_inst g j))) [0..<length (insts g)]"

definition update_inst :: "graph \<Rightarrow> inst_id \<Rightarrow> (inst \<Rightarrow> inst) \<Rightarrow> graph" where
  "update_inst g i f = g\<lparr>insts := (insts g)[i := f (the_inst g i)]\<rparr>"

definition set_input :: "graph \<Rightarrow> inst_id \<Rightarrow> nat \<Rightarrow> inst_id \<Rightarrow> graph" where
  "set_input g i k x = update_inst g i (\<lambda>s. s\<lparr>inputs := (inputs s)[k := x]\<rparr>)"

definition SetOpcode :: "graph \<Rightarrow> inst_id \<Rightarrow> opcode \<Rightarrow> graph" where
  "SetOpcode g i opc = update_inst g i (\<lambda>s. s\<lparr>GetOpcode := opc\<rparr>)"

definition SetType :: "graph \<Rightarrow> inst_id \<Rightarrow> ir_type \<Rightarrow> graph" where
  "SetType g i t = update_inst g i (\<lambda>s. s\<lparr>GetType := t\<rparr>)"

definition SetOperandsType :: "graph \<Rightarrow> inst_id \<Rightarrow> ir_type \<Rightarrow> graph" where
  "SetOperandsType g i t = update_inst g i (\<lambda>s. s\<lparr>operandsType := t\<rparr>)"

definition swap_inputs :: "graph \<Rightarrow> inst_id \<Rightarrow> graph" where
  "swap_inputs g i = (let input0 = GetInput g i 0; input1 = GetInput g i 1 in set_input (set_input g i 0 input1) i 1 input0)"

fun insert_after :: "inst_id \<Rightarrow> inst_id \<Rightarrow> inst_id list \<Rightarrow> inst_id list" where
  "insert_after n i [] = []"
| "insert_after n i (j # js) = (if j = i then j # n # js else j # insert_after n i js)"

definition InsertAfter :: "graph \<Rightarrow> inst_id \<Rightarrow> inst_id \<Rightarrow> graph" where
  "InsertAfter g n i =
     (let bb = GetBasicBlock (the_inst g i); b = the_block g bb
      in (update_inst g n (\<lambda>s. s\<lparr>GetBasicBlock := bb\<rparr>))\<lparr>blocks := (blocks g)[bb := b\<lparr>AllInsts := insert_after n i (AllInsts b)\<rparr>]\<rparr>)"

definition new_inst :: "opcode \<Rightarrow> ir_type \<Rightarrow> inst_id list \<Rightarrow> inst" where
  "new_inst opc type ins =
     \<lparr>GetOpcode = opc, GetType = type, inputs = ins, operandsType = NO_TYPE, GetRawValue = 0, GetCc = CC_EQ, GetImm = 0, GetBasicBlock = 0,
      IsFcmpg = False, IsAllocation = False, GetArgNumber = 0, GetObject = 0, bbNums = []\<rparr>"

definition CreateInst :: "graph \<Rightarrow> opcode \<Rightarrow> ir_type \<Rightarrow> inst_id list \<Rightarrow> graph \<times> inst_id" where
  "CreateInst g opc type ins = (g\<lparr>insts := insts g @ [new_inst opc type ins]\<rparr>, length (insts g))"

definition CreateAndInsertInst :: "graph \<Rightarrow> opcode \<Rightarrow> inst_id \<Rightarrow> inst_id list \<Rightarrow> graph \<times> inst_id" where
  "CreateAndInsertInst g newOpc currInst ins =
     (let (g1, newInst) = CreateInst g newOpc (type_of g currInst) [];
          g2 = ReplaceUsers g1 currInst newInst;
          g3 = update_inst g2 newInst (\<lambda>s. s\<lparr>inputs := ins\<rparr>)
      in (InsertAfter g3 newInst currInst, newInst))"

section \<open>Helpers\<close>

definition applied :: "graph \<Rightarrow> graph \<times> bool" where
  "applied g = (g, True)"

definition IsEqualConst_int :: "graph \<Rightarrow> inst_id \<Rightarrow> int \<Rightarrow> bool" where
  "IsEqualConst_int g c v \<longleftrightarrow> type_of g c = INT64 \<and> GetRawValue (the_inst g c) = word_of_int v"

definition IsEqualConstAllTypes :: "graph \<Rightarrow> inst_id \<Rightarrow> int \<Rightarrow> bool" where
  "IsEqualConstAllTypes g c v \<longleftrightarrow>
     IsEqualConst_int g c v
     \<or> type_of g c = FLOAT32 \<and> GetRawValue (the_inst g c) = fp_of_int F32 v
     \<or> type_of g c = FLOAT64 \<and> GetRawValue (the_inst g c) = fp_of_int F64 v"

text \<open>The loop of \<^verbatim>\<open>GetPowerOfTwo\<close> counts the shifts until the number is zero.\<close>

function count_shifts :: "u64 \<Rightarrow> int \<Rightarrow> int" where
  "count_shifts n result = (if n = 0 then result else count_shifts (drop_bit 1 n) (result + 1))"
  by auto

termination
proof (relation "measure (\<lambda>(n, _). unat n)")
  fix n :: u64 and r :: int
  assume "n \<noteq> 0"
  then show "((drop_bit 1 n, r + 1), n, r) \<in> measure (\<lambda>(n, _). unat n)"
    by (simp add: drop_bit_eq_div unat_div unat_gt_0)
qed simp

declare count_shifts.simps [simp del]

definition GetPowerOfTwo :: "u64 \<Rightarrow> int" where
  "GetPowerOfTwo n = (if n \<noteq> 0 \<and> n AND (n - 1) = 0 then count_shifts n (- 1) else - 1)"

text \<open>Dominance of instructions: in one block their order, otherwise the walk up the dominator tree, at most as long as there are blocks.\<close>

fun IsDominate_from :: "nat \<Rightarrow> graph \<Rightarrow> block_id \<Rightarrow> block_id option \<Rightarrow> bool" where
  "IsDominate_from 0 g this domBlock = False"
| "IsDominate_from (Suc fuel) g this domBlock =
     (case domBlock of None \<Rightarrow> False | Some d \<Rightarrow> d = this \<or> IsDominate_from fuel g this (GetDominator (the_block g d)))"

definition block_IsDominate :: "graph \<Rightarrow> block_id \<Rightarrow> block_id \<Rightarrow> bool" where
  "block_IsDominate g this other \<longleftrightarrow>
     other = this \<or> IsDominate_from (length (blocks g)) g this (GetDominator (the_block g other))"

definition IsPrecedingInSameBlock :: "graph \<Rightarrow> inst_id \<Rightarrow> inst_id \<Rightarrow> bool" where
  "IsPrecedingInSameBlock g i other \<longleftrightarrow>
     i = other \<or> other \<in> set (tl (dropWhile (\<lambda>j. j \<noteq> i) (AllInsts (the_block g (GetBasicBlock (the_inst g i))))))"

definition IsDominate :: "graph \<Rightarrow> inst_id \<Rightarrow> inst_id \<Rightarrow> bool" where
  "IsDominate g i other \<longleftrightarrow>
     i = other \<or>
     (let thisBb = GetBasicBlock (the_inst g i); otherBb = GetBasicBlock (the_inst g other)
      in if thisBb = otherBb then IsPrecedingInSameBlock g i other else block_IsDominate g thisBb otherBb)"

definition TrySwapInputs :: "graph \<Rightarrow> inst_id \<Rightarrow> (graph \<times> bool) option" where
  "TrySwapInputs g i =
     (if opcode_of g i \<notin> {Op_Add, Op_And, Op_Or, Op_Xor, Op_Min, Op_Max, Op_Mul, Op_AddOverflowCheck} then None
      else if IsConst g (GetInput g i 0) then Some (applied (swap_inputs g i)) else Some (kept g))"

text \<open>
  \<^verbatim>\<open>TryCombineConst\<close>, \<open>combine\<close> at the integers and \<open>fcombine\<close> at a floating-point format; the result is the returned flag and
  \<^verbatim>\<open>isOsrBlocked\<close>.
\<close>

definition TryCombineConst ::
    "bool \<Rightarrow> graph \<Rightarrow> inst_id \<Rightarrow> inst_id \<Rightarrow> (u64 \<Rightarrow> u64 \<Rightarrow> u64) \<Rightarrow> (fmt \<Rightarrow> u64 \<Rightarrow> u64 \<Rightarrow> u64) \<Rightarrow> (graph \<times> bool \<times> bool) option" where
  "TryCombineConst osr g i cnst1 combine fcombine =
     (let input0 = GetInput g i 0; cnst2 = GetInput g input0 1
      in if IsConst g cnst2 \<and> type_of g i = type_of g input0 then
           (if SkipThisPeepholeInOSR osr g i (GetInput g input0 0) then Some (g, False, True)
            else do {
              (g, newCnst) \<leftarrow>
                (case GetCommonType (type_of g cnst1) of
                   INT64 \<Rightarrow> Some (ConstFoldingCreateIntConst g i (combine (GetIntValue g cnst1) (GetIntValue g cnst2)) False)
                 | FLOAT32 \<Rightarrow> Some (FindOrCreateConstant_fp g F32 (fcombine F32 (GetFloatValue g cnst1) (GetFloatValue g cnst2)))
                 | FLOAT64 \<Rightarrow> Some (FindOrCreateConstant_fp g F64 (fcombine F64 (GetDoubleValue g cnst1) (GetDoubleValue g cnst2)))
                 | _ \<Rightarrow> None);
              Some (set_input (set_input g i 0 (GetInput g input0 0)) i 1 newCnst, True, False) })
         else Some (g, False, False))"

definition TryCombineAddSubConst :: "fpu \<Rightarrow> bool \<Rightarrow> graph \<Rightarrow> inst_id \<Rightarrow> inst_id \<Rightarrow> (graph \<times> bool \<times> bool) option" where
  "TryCombineAddSubConst fp osr g i cnst1 =
     (let opc = opcode_of g i; input0 = GetInput g i 0
      in if opc \<noteq> Op_Add \<and> opc \<noteq> Op_Sub then None
         else TryCombineConst osr g i cnst1
                (\<lambda>x y. if opc = opcode_of g input0 then x + y else x - y)
                (\<lambda>f x y. if opc = opcode_of g input0 then fp_add fp f x y else fp_sub fp f x y))"

definition TryCombineMulConst :: "fpu \<Rightarrow> bool \<Rightarrow> graph \<Rightarrow> inst_id \<Rightarrow> inst_id \<Rightarrow> (graph \<times> bool \<times> bool) option" where
  "TryCombineMulConst fp osr g i cnst1 =
     (if opcode_of g i \<noteq> Op_Mul then None else TryCombineConst osr g i cnst1 (\<lambda>x y. x * y) (fp_mul fp))"

definition TryCombineShiftConst :: "bool \<Rightarrow> graph \<Rightarrow> inst_id \<Rightarrow> inst_id \<Rightarrow> (graph \<times> bool \<times> bool) option" where
  "TryCombineShiftConst osr g i cnst1 =
     (let opc = opcode_of g i; input0 = GetInput g i 0; cnst2 = GetInput g input0 1
      in if opc \<notin> {Op_Shl, Op_Shr, Op_AShr} then None
         else if \<not> (IsConst g cnst2 \<and> type_of g i = type_of g input0) then Some (g, False, False)
         else do {
           size \<leftarrow> GetTypeSize (objectPointerSize g) (type_of g i) (GetArch g);
           let sizeMask = of_nat size - 1;
           let newValue = (GetIntValue g cnst1 AND sizeMask) + (GetIntValue g cnst2 AND sizeMask);
           if newValue \<le> sizeMask \<or> opc = Op_AShr then
             (if SkipThisPeepholeInOSR osr g i (GetInput g input0 0) then Some (g, False, True)
              else let (g, newCnst) = ConstFoldingCreateIntConst g i (min newValue sizeMask) False
                   in Some (set_input (set_input g i 0 (GetInput g input0 0)) i 1 newCnst, True, False))
           else let (g, newCnst) = ConstFoldingCreateIntConst g i 0 False
                in Some (ReplaceUsers g i newCnst, True, False) })"

definition TrySimplifyShifts :: "bool \<Rightarrow> graph \<Rightarrow> inst_id \<Rightarrow> (graph \<times> bool) option" where
  "TrySimplifyShifts osr g i =
     (let opc = opcode_of g i; input0 = GetInput g i 0; input1 = GetInput g i 1
      in if opc \<notin> {Op_Shl, Op_Shr, Op_AShr} then None
         else if \<not> IsConst g input1 then Some (kept g)
         else if IsEqualConst_int g input1 0 then
           (if SkipThisPeepholeInOSR osr g i input0 then Some (kept g) else Some (applied (ReplaceUsers g i input0)))
         else do {
           (g, combined, osrBlocked) \<leftarrow>
             (if opc = opcode_of g input0 then TryCombineShiftConst osr g i input1 else Some (g, False, False));
           if combined then Some (applied g)
           else if osrBlocked then Some (kept g)
           else do {
             size \<leftarrow> GetTypeSize (objectPointerSize g) (type_of g i) (GetArch g);
             let narrow = IsBytecodeOptimizer g \<and> IsInt32Bit (type_of g i);
             let sizeMask = (if narrow then ucast (ucast (of_nat size - 1 :: u64) :: u32) else of_nat size - 1);
             let cnstValue = (if narrow then ucast (ucast (GetIntValue g input1) :: u32) else GetIntValue g input1);
             if sizeMask < cnstValue then
               let (g, shift) = ConstFoldingCreateIntConst g i (sizeMask AND cnstValue) False
               in Some (applied (set_input g i 1 shift))
             else Some (kept g) } })"

section \<open>Negation, addition and subtraction\<close>

definition VisitNeg :: "bool \<Rightarrow> graph \<Rightarrow> inst_id \<Rightarrow> (graph \<times> bool) option" where
  "VisitNeg osr g i = do {
     (g, folded) \<leftarrow> ConstFoldingNeg g i;
     let input = GetInput g i 0;
     let instType = type_of g i;
     if folded then Some (applied g)
     else if IsFloatType instType then Some (kept g)
     else if opcode_of g input = Op_Neg \<and> instType = type_of g input then
       (if SkipThisPeepholeInOSR osr g i (GetInput g input 0) then Some (kept g)
        else Some (applied (ReplaceUsers g i (GetInput g input 0))))
     else if opcode_of g input = Op_Sub \<and> instType = type_of g input then
       (if SkipThisPeepholeInOSR osr g i (GetInput g input 0) \<or> SkipThisPeepholeInOSR osr g i (GetInput g input 1) then Some (kept g)
        else Some (applied (fst (CreateAndInsertInst g Op_Sub i [GetInput g input 1, GetInput g input 0]))))
     else Some (kept g) }"

definition VisitAbs :: "bool \<Rightarrow> graph \<Rightarrow> inst_id \<Rightarrow> (graph \<times> bool) option" where
  "VisitAbs osr g i =
     (if \<not> IsTypeSigned (type_of g i) then
        (if SkipThisPeepholeInOSR osr g i (GetInput g i 0) then Some (kept g) else Some (applied (ReplaceUsers g i (GetInput g i 0))))
      else ConstFoldingAbs g i)"

definition VisitNot :: "graph \<Rightarrow> inst_id \<Rightarrow> (graph \<times> bool) option" where
  "VisitNot g i = ConstFoldingNot g i"

text \<open>The functions of the addition and subtraction rules return the flag of \<^verbatim>\<open>PEEPHOLE_IS_APPLIED\<close> and their own result.\<close>

definition TrySimplifyAddSubWithZeroInput :: "bool \<Rightarrow> graph \<Rightarrow> inst_id \<Rightarrow> graph \<times> bool" where
  "TrySimplifyAddSubWithZeroInput osr g i =
     (let input0 = GetInput g i 0; input1 = GetInput g i 1
      in if IsConst g input1 \<and> IsEqualConstAllTypes g input1 0 \<and> \<not> SkipThisPeepholeInOSR osr g i input0
         then applied (ReplaceUsers g i input0) else kept g)"

definition TrySimplifyAddSubWithConstInput :: "fpu \<Rightarrow> bool \<Rightarrow> graph \<Rightarrow> inst_id \<Rightarrow> (graph \<times> bool \<times> bool) option" where
  "TrySimplifyAddSubWithConstInput fp osr g i =
     (let (g, zero) = TrySimplifyAddSubWithZeroInput osr g i; input0 = GetInput g i 0; input1 = GetInput g i 1
      in if zero then Some (g, True, True)
         else if IsConst g input1 then
           (if opcode_of g input0 = Op_Add \<or> opcode_of g input0 = Op_Sub then do {
              (g, combined, osrBlocked) \<leftarrow> TryCombineAddSubConst fp osr g i input1;
              Some (if combined then (g, True, True) else if osrBlocked then (g, False, True) else (g, False, False)) }
            else Some (g, False, False))
         else if IsConst g input0 \<and> opcode_of g i = Op_Sub \<and> \<not> IsFloatType (type_of g i) then
           (if IsEqualConstAllTypes g input0 0 then Some (fst (CreateAndInsertInst g Op_Neg i [input1]), True, True)
            else Some (g, False, False))
         else Some (g, False, False))"

definition TrySimplifyAddSub :: "opcode \<Rightarrow> nat \<Rightarrow> bool \<Rightarrow> graph \<Rightarrow> inst_id \<Rightarrow> inst_id \<Rightarrow> inst_id \<Rightarrow> graph \<times> bool" where
  "TrySimplifyAddSub opc idx osr g i input0 input1 =
     (if opcode_of g input0 = opc \<and> GetInput g input0 (1 - idx) = input1 then
        (let prevInput = GetInput g input0 idx
         in if type_of g i = type_of g prevInput \<and> \<not> SkipThisPeepholeInOSR osr g i prevInput
            then applied (ReplaceUsers g i prevInput) else kept g)
      else kept g)"

text \<open>The common end of the rules that give the instruction two new inputs and the opcode \<open>opc\<close>.\<close>

definition new_inputs :: "bool \<Rightarrow> graph \<Rightarrow> inst_id \<Rightarrow> opcode \<Rightarrow> inst_id \<Rightarrow> inst_id \<Rightarrow> graph \<times> bool \<times> bool" where
  "new_inputs osr g i opc newInput0 newInput1 =
     (if SkipThisPeepholeInOSR osr g i newInput0 \<or> SkipThisPeepholeInOSR osr g i newInput1 then (g, False, True)
      else (set_input (set_input (SetOpcode g i opc) i 0 newInput0) i 1 newInput1, True, True))"

definition TrySimplifyAddSubAdd :: "bool \<Rightarrow> graph \<Rightarrow> inst_id \<Rightarrow> inst_id \<Rightarrow> inst_id \<Rightarrow> graph \<times> bool \<times> bool" where
  "TrySimplifyAddSubAdd osr g i input0 input1 =
     (if GetInput g input0 1 = GetInput g input1 0 then new_inputs osr g i (opcode_of g i) (GetInput g input0 0) (GetInput g input1 1)
      else if GetInput g input0 1 = GetInput g input1 1 then new_inputs osr g i (opcode_of g i) (GetInput g input0 0) (GetInput g input1 0)
      else (g, False, False))"

definition TrySimplifyAddSubSub :: "bool \<Rightarrow> graph \<Rightarrow> inst_id \<Rightarrow> inst_id \<Rightarrow> inst_id \<Rightarrow> graph \<times> bool \<times> bool" where
  "TrySimplifyAddSubSub osr g i input0 input1 =
     (if GetInput g input0 1 = GetInput g input1 0 then new_inputs osr g i Op_Sub (GetInput g input0 0) (GetInput g input1 1)
      else if GetInput g input0 0 = GetInput g input1 1 then new_inputs osr g i Op_Sub (GetInput g input1 0) (GetInput g input0 1)
      else (g, False, False))"

definition TrySimplifySubAddAdd :: "bool \<Rightarrow> graph \<Rightarrow> inst_id \<Rightarrow> inst_id \<Rightarrow> inst_id \<Rightarrow> graph \<times> bool \<times> bool" where
  "TrySimplifySubAddAdd osr g i input0 input1 =
     (let opc = opcode_of g i; a0 = GetInput g input0 0; a1 = GetInput g input0 1; b0 = GetInput g input1 0; b1 = GetInput g input1 1
      in if a0 = b0 then new_inputs osr g i opc a1 b1
         else if a0 = b1 then new_inputs osr g i opc a1 b0
         else if a1 = b0 then new_inputs osr g i opc a0 b1
         else if a1 = b1 then new_inputs osr g i opc a0 b0
         else (g, False, False))"

definition IsParameter :: "graph \<Rightarrow> inst_id \<Rightarrow> bool" where
  "IsParameter g i \<longleftrightarrow> opcode_of g i = Op_Parameter"

definition TryReassociateShlShlAddSub :: "bool \<Rightarrow> graph \<Rightarrow> inst_id \<Rightarrow> graph \<times> bool" where
  "TryReassociateShlShlAddSub osr g i =
     (let input0 = GetInput g i 0; input1 = GetInput g i 1; shl0 = GetInput g input1 0; shl1 = GetInput g input1 1;
          opInst = opcode_of g i; opInput1 = opcode_of g input1
      in if opInst \<noteq> Op_Sub \<and> opInst \<noteq> Op_Add then (g, False)
         else if IsFloatType (type_of g i) then (g, False)
         else if opInput1 \<noteq> Op_Sub \<and> opInput1 \<noteq> Op_Add then (g, False)
         else if type_of g input1 \<noteq> type_of g i then (g, False)
         else if \<not> IsSingleUser g input1 then (g, False)
         else if opcode_of g shl0 \<noteq> Op_Shl \<or> \<not> IsSingleUser g shl0 then (g, False)
         else if opcode_of g shl1 \<noteq> Op_Shl \<or> \<not> IsSingleUser g shl1 \<or> GetInput g shl1 0 \<noteq> GetInput g shl0 0 then (g, False)
         else if \<not> IsConst g (GetInput g shl0 1) \<or> \<not> IsConst g (GetInput g shl1 1) then (g, False)
         else if \<not> IsConst g input0 \<and> \<not> IsParameter g input0 \<and> \<not> IsDominate g input0 input1 then (g, False)
         else let (newInput1, newInst) =
                    (if opInst = Op_Sub \<and> opInput1 = Op_Add then (Op_Sub, opInst)
                     else if opInst = Op_Add \<and> opInput1 = Op_Sub then (Op_Add, Op_Sub)
                     else if opInst = Op_Sub \<and> opInput1 = Op_Sub then (opInput1, Op_Add)
                     else (opInput1, opInst))
              in if SkipThisPeepholeInOSR osr g i input1 then (g, True)
                 else let (g, newInput0) = CreateAndInsertInst g newInput1 input1 [input0, shl0]
                      in (fst (CreateAndInsertInst g newInst i [newInput0, shl1]), True))"

definition TrySimplifyNeg :: "bool \<Rightarrow> graph \<Rightarrow> inst_id \<Rightarrow> graph \<times> bool" where
  "TrySimplifyNeg osr g i =
     (let input0 = GetInput g i 0; input1 = GetInput g i 1
      in if opcode_of g input0 = Op_Neg \<and> SkipThisPeepholeInOSR osr g i (GetInput g input0 0)
            \<or> opcode_of g input1 = Op_Neg \<and> SkipThisPeepholeInOSR osr g i (GetInput g input1 0) then kept g
         else let (g, input0, input1) =
                    (if opcode_of g input0 = Op_Neg \<and> \<not> IsConst g input1
                     then (set_input (set_input g i 0 input1) i 1 input0, input1, input0) else (g, input0, input1))
              in if opcode_of g input1 = Op_Neg
                 then applied (set_input (SetOpcode g i Op_Sub) i 1 (GetInput g input1 0))
                 else kept g)"

definition CreateCompareInsteadOfXorAdd :: "bool \<Rightarrow> graph \<Rightarrow> inst_id \<Rightarrow> (graph \<times> bool) option" where
  "CreateCompareInsteadOfXorAdd osr g i =
     (let opc = opcode_of g i; input1 = GetInput g i 1;
          input0 = (if opc = Op_Add then GetInput g (GetInput g i 0) 0 else GetInput g i 0)
      in if opc \<noteq> Op_Xor \<and> opc \<noteq> Op_Add then None
         else if opc = Op_Add \<and> opcode_of g (GetInput g i 0) \<noteq> Op_Neg then None
         else if opc = Op_Add \<and> (\<exists>u \<in> set (user_insts g i). SkipThisPeepholeInOSR osr g u input0) then Some (g, False)
         else if \<not> (type_of g input0 = BOOL \<and> IsConst g input1 \<and> GetIntValue g input1 = 1) then None
         else let (g, cnst) = FindOrCreateConstant_u32 g 0;
                  (g, cmpInst) = CreateAndInsertInst g Op_Compare i [input0, cnst];
                  g = SetOperandsType (SetCc cmpInst CC_EQ (SetType g cmpInst BOOL)) cmpInst BOOL;
                  type = type_of g i
              in if type = UINT64 \<or> type = INT64
                 then let (g, cast) = CreateInst g Op_Cast type [];
                          g = ReplaceUsers (InsertAfter g cast cmpInst) cmpInst cast
                      in Some (SetOperandsType (update_inst g cast (\<lambda>s. s\<lparr>inputs := [cmpInst]\<rparr>)) cast BOOL, True)
                 else Some (g, True))"

text \<open>
  The rule for the negation \<open>1 - b\<close> of a boolean.  Its third case follows the list of users and is the subject of \<open>CompareNegation\<close>;
  \<open>ls\<close> are the lists of users of the graph, \<open>fuel\<close> bounds the iterations.
\<close>

definition inputs_from :: "user_lists \<Rightarrow> graph \<Rightarrow> graph" where
  "inputs_from ls g =
     g\<lparr>insts := map (\<lambda>j. (the_inst g j)\<lparr>inputs := map (\<lambda>k. the (input ls (User j k))) [0..<length (inputs (the_inst g j))]\<rparr>)
                  [0..<length (insts g)]\<rparr>"

definition TrySimplifyNegationPattern ::
    "nat \<Rightarrow> bool \<Rightarrow> user_lists \<Rightarrow> graph \<Rightarrow> inst_id \<Rightarrow> (graph \<times> bool \<times> bool) option" where
  "TrySimplifyNegationPattern fuel osr ls g i = do {
     pattern \<leftarrow> IsNegationPattern g ls i;
     if \<not> pattern then Some (g, False, False)
     else let suspectInst = GetInput g (GetInput g i 0) 0
          in if opcode_of g suspectInst = Op_Compare \<and> IsSingleUser g suspectInst
                \<and> (\<forall>u \<in> set (user_insts g i). \<not> SkipThisPeepholeInOSR osr g u suspectInst)
             then let g = ReplaceUsers g i suspectInst
                  in Some (SetCc suspectInst (GetInverseConditionCode (GetCc (the_inst g suspectInst))) g, True, True)
             else do {
               (optimized, g9, ls9) \<leftarrow> TrySimplifyCompareNegation fuel osr i g ls;
               if optimized then Some (inputs_from ls9 g9, True, True)
               else do {
                 (g, created) \<leftarrow> CreateCompareInsteadOfXorAdd osr g i;
                 Some (g, created, created) } } }"

definition VisitAddFinalize :: "bool \<Rightarrow> graph \<Rightarrow> inst_id \<Rightarrow> inst_id \<Rightarrow> inst_id \<Rightarrow> graph \<times> bool" where
  "VisitAddFinalize osr g i input0 input1 =
     (if opcode_of g i \<noteq> Op_Add then kept g
      else let (g, reassociated) = TryReassociateShlShlAddSub osr g i
           in if reassociated then applied g
              else let (input0, input1) =
                         (if opcode_of g input0 = Op_Add \<and> opcode_of g input1 = Op_Sub then (input1, input0) else (input0, input1));
                       (g, a, ret) =
                         (if opcode_of g input0 = Op_Sub \<and> opcode_of g input1 = Op_Add
                          then TrySimplifyAddSubAdd osr g i input0 input1 else (g, False, False))
                   in if ret then (g, a)
                      else if opcode_of g input0 = Op_Sub \<and> opcode_of g input1 = Op_Sub
                           then (let (g, a, ret) = TrySimplifyAddSubSub osr g i input0 input1 in (g, a))
                           else (g, a))"

definition VisitAdd :: "fpu \<Rightarrow> nat \<Rightarrow> bool \<Rightarrow> user_lists \<Rightarrow> graph \<Rightarrow> inst_id \<Rightarrow> (graph \<times> bool) option" where
  "VisitAdd fp fuel osr ls g i = do {
     (g, folded) \<leftarrow> ConstFoldingAdd fp g i;
     if folded then Some (applied g)
     else if IsFloatType (type_of g i) then Some (kept g)
     else do {
       (g, a) \<leftarrow> TrySwapInputs g i;
       ls \<leftarrow> (if a then SwapInputs i ls else Some ls);
       (g, b, ret) \<leftarrow> TrySimplifyAddSubWithConstInput fp osr g i;
       if ret then Some (g, a \<or> b)
       else let input0 = GetInput g i 0; input1 = GetInput g i 1
            in if opcode_of g input0 = Op_Neg \<and> opcode_of g input1 = Op_Neg \<and> IsSingleUser g input0 \<and> IsSingleUser g input1 then
                 (if SkipThisPeepholeInOSR osr g i (GetInput g input0 0) \<or> SkipThisPeepholeInOSR osr g i (GetInput g input1 0)
                  then Some (g, a)
                  else let g = set_input (set_input g i 0 (GetInput g input0 0)) i 1 (GetInput g input1 0)
                       in Some (applied (fst (CreateAndInsertInst g Op_Neg i [i]))))
               else do {
                 (g, c, ret) \<leftarrow>
                   (if opcode_of g input0 = Op_Neg \<and> opcode_of g input1 = Op_Neg then Some (g, False, False)
                    else TrySimplifyNegationPattern fuel osr ls g i);
                 if ret then Some (g, a \<or> c)
                 else let (g, d) = (if opcode_of g input0 = Op_Neg \<and> opcode_of g input1 = Op_Neg then kept g else TrySimplifyNeg osr g i);
                          (g, e) = TrySimplifyAddSub Op_Sub 0 osr g i input0 input1;
                          (g, f) = TrySimplifyAddSub Op_Sub 0 osr g i input1 input0;
                          (g, h) = VisitAddFinalize osr g i input0 input1
                      in Some (g, a \<or> c \<or> d \<or> e \<or> f \<or> h) } } }"

definition VisitSubFinalize :: "bool \<Rightarrow> graph \<Rightarrow> inst_id \<Rightarrow> inst_id \<Rightarrow> inst_id \<Rightarrow> graph \<times> bool" where
  "VisitSubFinalize osr g i input0 input1 =
     (if opcode_of g i \<noteq> Op_Sub then kept g
      else let (g, reassociated) = TryReassociateShlShlAddSub osr g i
           in if reassociated then applied g
              else if opcode_of g input0 = Op_Add \<and> opcode_of g input1 = Op_Add
                   then (let (g, a, ret) = TrySimplifySubAddAdd osr g i input0 input1 in (g, a))
                   else kept g)"

definition VisitSub :: "fpu \<Rightarrow> bool \<Rightarrow> graph \<Rightarrow> inst_id \<Rightarrow> (graph \<times> bool) option" where
  "VisitSub fp osr g i = do {
     (g, folded) \<leftarrow> ConstFoldingSub fp g i;
     if folded then Some (applied g)
     else if IsFloatType (type_of g i) then Some (kept g)
     else do {
       (g, a, ret) \<leftarrow> TrySimplifyAddSubWithConstInput fp osr g i;
       let input0 = GetInput g i 0;
       let input1 = GetInput g i 1;
       if ret then Some (g, a)
       else if opcode_of g input0 = Op_Neg \<and> opcode_of g input1 = Op_Neg then
         (let newInput1 = GetInput g input0 0; newInput0 = GetInput g input1 0
          in if SkipThisPeepholeInOSR osr g i newInput0 \<or> SkipThisPeepholeInOSR osr g i newInput1 then Some (kept g)
             else Some (applied (set_input (set_input g i 0 newInput0) i 1 newInput1)))
       else if opcode_of g input1 = Op_Neg then
         (if SkipThisPeepholeInOSR osr g i (GetInput g input1 0) then Some (kept g)
          else Some (applied (SetOpcode (set_input g i 1 (GetInput g input1 0)) i Op_Add)))
       else
         let (g, b) = TrySimplifyAddSub Op_Add 0 osr g i input0 input1;
             (g, c) = TrySimplifyAddSub Op_Add 1 osr g i input0 input1
         in if opcode_of g input1 = Op_Sub \<and> GetInput g input1 0 = input0 \<and> type_of g i = type_of g (GetInput g input1 1)
            then (if SkipThisPeepholeInOSR osr g i (GetInput g input1 1) then Some (g, b \<or> c)
                  else Some (applied (ReplaceUsers g i (GetInput g input1 1))))
            else let (g, d) = VisitSubFinalize osr g i input0 input1 in Some (g, b \<or> c \<or> d) } }"

section \<open>Multiplication, division, minimum and maximum\<close>

definition VisitMulOneConst :: "bool \<Rightarrow> graph \<Rightarrow> inst_id \<Rightarrow> inst_id \<Rightarrow> inst_id \<Rightarrow> graph \<times> bool" where
  "VisitMulOneConst osr g i input0 input1 =
     (if \<not> IsConst g input1 then kept g
      else if IsEqualConstAllTypes g input1 1 then
        (if SkipThisPeepholeInOSR osr g i input0 then kept g else applied (ReplaceUsers g i input0))
      else if IsEqualConstAllTypes g input1 (- 1) then applied (fst (CreateAndInsertInst g Op_Neg i [input0]))
      else if IsEqualConstAllTypes g input1 2 then applied (fst (CreateAndInsertInst g Op_Add i [input0, input0]))
      else if GetCommonType (type_of g i) = INT64 then
        (let n = GetPowerOfTwo (GetIntValue g input1)
         in if n \<noteq> - 1
            then let (g, power) = ConstFoldingCreateIntConst g i (word_of_int n) False
                 in applied (fst (CreateAndInsertInst g Op_Shl i [input0, power]))
            else kept g)
      else kept g)"

definition VisitMul :: "fpu \<Rightarrow> bool \<Rightarrow> graph \<Rightarrow> inst_id \<Rightarrow> (graph \<times> bool) option" where
  "VisitMul fp osr g i = do {
     (g, folded) \<leftarrow> ConstFoldingMul fp g i;
     if folded then Some (applied g)
     else if IsFloatType (type_of g i) then Some (kept g)
     else do {
       (g, a) \<leftarrow> TrySwapInputs g i;
       let input0 = GetInput g i 0;
       let input1 = GetInput g i 1;
       (g, combined, osrBlocked) \<leftarrow>
         (if IsConst g input1 \<and> opcode_of g input0 = Op_Mul then TryCombineMulConst fp osr g i input1 else Some (g, False, False));
       if combined then Some (applied g)
       else if osrBlocked then Some (g, a)
       else let (g, b) = VisitMulOneConst osr g i input0 input1 in Some (g, a \<or> b) } }"

text \<open>The absolute value of the least divisor overflows; the other constants keep their 64-bit type.\<close>

definition TryReplaceDivByShrAndAshr :: "graph \<Rightarrow> inst_id \<Rightarrow> u64 \<Rightarrow> inst_id \<Rightarrow> (graph \<times> bool) option" where
  "TryReplaceDivByShrAndAshr g i unsignedVal input0 =
     (let signedVal = sint unsignedVal; n = GetPowerOfTwo (word_of_int \<bar>signedVal\<bar>); type = type_of g i
      in if signedVal = - (2 ^ 63) then None
         else if n = - 1 then Some (kept g)
         else do {
           typeSize \<leftarrow> GetTypeSize (objectPointerSize g) type (GetArch g);
           let (g, c) = FindOrCreateConstant_u32 g (of_nat (typeSize - 1));
           let (g, ashr) = CreateInst g Op_AShr type [input0, c];
           let g = InsertAfter g ashr i;
           let (g, c) = FindOrCreateConstant_u64 g (word_of_int (int typeSize - n));
           let (g, shr) = CreateInst g Op_Shr type [ashr, c];
           let g = InsertAfter g shr ashr;
           let (g, add) = CreateInst g Op_Add type [shr, input0];
           let g = InsertAfter g add shr;
           let (g, c) = FindOrCreateConstant_u64 g (word_of_int n);
           let (g, quot) = CreateInst g Op_AShr type [add, c];
           let g = InsertAfter g quot add;
           if signedVal < 0
           then let (g, result) = CreateInst g Op_Neg type [quot]; g = InsertAfter g result quot in Some (applied (ReplaceUsers g i result))
           else Some (applied (ReplaceUsers g i quot)) })"

definition TryReplaceDivByShift :: "graph \<Rightarrow> inst_id \<Rightarrow> (graph \<times> bool) option" where
  "TryReplaceDivByShift g i =
     (let input0 = GetInput g i 0; input1 = GetInput g i 1; unsignedVal = GetIntValue g input1
      in if IsBytecodeOptimizer g then Some (kept g)
         else if \<not> IsConst g input1 then None
         else if \<not> IsTypeSigned (type_of g i) then
           (let n = GetPowerOfTwo unsignedVal
            in if n \<noteq> - 1
               then let (g, power) = FindOrCreateConstant_u64 g (word_of_int n)
                    in Some (applied (fst (CreateAndInsertInst g Op_Shr i [input0, power])))
               else Some (kept g))
         else TryReplaceDivByShrAndAshr g i unsignedVal input0)"

definition VisitDiv :: "fpu \<Rightarrow> bool \<Rightarrow> graph \<Rightarrow> inst_id \<Rightarrow> (graph \<times> bool) option" where
  "VisitDiv fp osr g i = do {
     (g, folded) \<leftarrow> ConstFoldingDiv fp g i;
     let input0 = GetInput g i 0;
     let input1 = GetInput g i 1;
     if folded then Some (applied g)
     else if IsFloatType (type_of g i) then Some (kept g)
     else if \<not> IsConst g input1 then Some (kept g)
     else if IsEqualConstAllTypes g input1 1 then
       (if SkipThisPeepholeInOSR osr g i input0 then Some (kept g) else Some (applied (ReplaceUsers g i input0)))
     else if IsEqualConstAllTypes g input1 (- 1) then
       (if SkipThisPeepholeInOSR osr g i input0 then Some (kept g) else Some (applied (fst (CreateAndInsertInst g Op_Neg i [input0]))))
     else if GetCommonType (type_of g i) = INT64 then TryReplaceDivByShift g i
     else Some (kept g) }"

definition VisitMin :: "graph \<Rightarrow> inst_id \<Rightarrow> (graph \<times> bool) option" where
  "VisitMin g i = do {
     (g, folded) \<leftarrow> ConstFoldingMin g i;
     if folded then Some (applied g)
     else if IsFloatType (type_of g i) then Some (kept g)
     else TrySwapInputs g i }"

definition VisitMax :: "graph \<Rightarrow> inst_id \<Rightarrow> (graph \<times> bool) option" where
  "VisitMax g i = do {
     (g, folded) \<leftarrow> ConstFoldingMax g i;
     if folded then Some (applied g)
     else if IsFloatType (type_of g i) then Some (kept g)
     else TrySwapInputs g i }"

definition VisitMod :: "fpu \<Rightarrow> graph \<Rightarrow> inst_id \<Rightarrow> (graph \<times> bool) option" where
  "VisitMod fp g i = ConstFoldingMod fp g i"

section \<open>Shifts\<close>

definition VisitShl :: "bool \<Rightarrow> graph \<Rightarrow> inst_id \<Rightarrow> (graph \<times> bool) option" where
  "VisitShl osr g i = do {
     (g, folded) \<leftarrow> ConstFoldingShl g i;
     if folded then Some (applied g) else TrySimplifyShifts osr g i }"

definition VisitShr :: "bool \<Rightarrow> graph \<Rightarrow> inst_id \<Rightarrow> (graph \<times> bool) option" where
  "VisitShr osr g i = do {
     (g, folded) \<leftarrow> ConstFoldingShr g i;
     if folded then Some (applied g)
     else do {
       (g, a) \<leftarrow> TrySimplifyShifts osr g i;
       let op1 = GetInput g i 0;
       let op2 = GetInput g i 1;
       if UsersCount g i = 0 then Some (g, a)
       else if opcode_of g op1 = Op_Shl \<and> IsConst g op2 \<and> GetInput g op1 1 = op2 then
         (if type_of g i \<noteq> type_of g op1 then None
          else do {
            size \<leftarrow> GetTypeSize (objectPointerSize g) (type_of g i) (GetArch g);
            let val = unat (GetIntValue g op2);
            if \<not> val \<le> size then None
            else let t = size - val
                 in if 64 \<le> t then None
                    else let (g, newCnst) = FindOrCreateConstant_u64 g (2 ^ t - 1)
                         in if IsBytecodeOptimizer g \<and> IsInt32Bit (type_of g i) \<and> 32 \<le> t then None
                            else let (g, newCnst) =
                                       (if IsBytecodeOptimizer g \<and> IsInt32Bit (type_of g i)
                                        then FindOrCreateConstant_u32 g (2 ^ t - 1) else (g, newCnst))
                                 in if SkipThisPeepholeInOSR osr g (GetInput g op1 0) i then Some (g, a)
                                    else Some (applied (fst (CreateAndInsertInst g Op_And i [GetInput g op1 0, newCnst]))) })
       else Some (g, a) } }"

definition VisitAShr :: "bool \<Rightarrow> graph \<Rightarrow> inst_id \<Rightarrow> (graph \<times> bool) option" where
  "VisitAShr osr g i = do {
     (g, folded) \<leftarrow> ConstFoldingAShr g i;
     if folded then Some (applied g)
     else if IsBytecodeOptimizer g then Some (kept g)
     else do {
       (g, a) \<leftarrow> TrySimplifyShifts osr g i;
       let op1 = GetInput g i 0;
       let op2 = GetInput g i 1;
       if UsersCount g i = 0 then Some (g, a)
       else if opcode_of g op1 = Op_Shl \<and> IsConst g op2 \<and> GetInput g op1 1 = op2 then
         (let offset = GetIntValue g op2; x = GetInput g op1 0
          in if type_of g i \<noteq> type_of g op1 then None
             else if offset = 16 \<or> offset = 24 \<or> offset = 8 then
               (if SkipThisPeepholeInOSR osr g x i then Some (g, a)
                else let (g, cast) = CreateAndInsertInst g Op_Cast i [x];
                         g = SetType g cast (if offset = 24 then INT8 else if offset = 16 then INT16 else INT32)
                     in Some (applied (SetOperandsType g cast (type_of g x))))
             else Some (g, a))
       else Some (g, a) } }"

section \<open>Bit operations\<close>

definition ApplyForCastU16 :: "graph \<Rightarrow> inst_id \<Rightarrow> inst_id \<Rightarrow> inst_id \<Rightarrow> bool option" where
  "ApplyForCastU16 g i input0 input1 =
     (if IsConst g input1 \<and> opcode_of g input0 = Op_Cast \<and> GetCommonType (type_of g (GetInput g input0 0)) = INT64 \<and> IsInt32Bit (type_of g i)
      then map_option (\<lambda>size. 16 < size) (GetTypeSize (objectPointerSize g) (type_of g input0) (GetArch g))
      else Some False)"

text \<open>De Morgan: \<open>opc\<close> of two complements becomes the complement of \<open>dual\<close>.\<close>

definition de_morgan :: "bool \<Rightarrow> graph \<Rightarrow> inst_id \<Rightarrow> opcode \<Rightarrow> inst_id \<Rightarrow> inst_id \<Rightarrow> graph \<times> bool" where
  "de_morgan osr g i dual input0 input1 =
     (let notInput0 = GetInput g input0 0; notInput1 = GetInput g input1 0
      in if SkipThisPeepholeInOSR osr g i notInput0 \<or> SkipThisPeepholeInOSR osr g i notInput1 then kept g
         else let (g, dualInst) = CreateAndInsertInst g dual i [notInput0, notInput1]
              in applied (fst (CreateAndInsertInst g Op_Not dualInst [dualInst])))"

definition VisitAnd :: "bool \<Rightarrow> graph \<Rightarrow> inst_id \<Rightarrow> (graph \<times> bool) option" where
  "VisitAnd osr g i = do {
     (g, folded) \<leftarrow> ConstFoldingAnd g i;
     if folded then Some (applied g)
     else do {
       (g, a) \<leftarrow> TrySwapInputs g i;
       let input0 = GetInput g i 0;
       let input1 = GetInput g i 1;
       if IsConst g input1 \<and> GetIntValue g input1 = - 1 then
         (if SkipThisPeepholeInOSR osr g i input0 then Some (g, a) else Some (applied (ReplaceUsers g i input0)))
       else if input0 = input1 \<and> type_of g input0 = type_of g i then
         (if SkipThisPeepholeInOSR osr g i input0 then Some (g, a) else Some (applied (ReplaceUsers g i input0)))
       else if opcode_of g input0 = Op_Not \<and> opcode_of g input1 = Op_Not \<and> IsSingleUser g input0 \<and> IsSingleUser g input1 then
         (let (g, b) = de_morgan osr g i Op_Or input0 input1 in Some (g, a \<or> b))
       else do {
         u16 \<leftarrow> ApplyForCastU16 g i input0 input1;
         if u16 \<and> GetIntValue g input1 = 0xFFFF then
           (let x = GetInput g input0 0
            in if SkipThisPeepholeInOSR osr g i x then Some (g, a)
               else let (g, cast) = CreateAndInsertInst g Op_Cast i [x]; g = SetType g cast UINT16
                    in Some (applied (SetOperandsType g cast (type_of g x))))
         else Some (g, a) } } }"

definition VisitOr :: "bool \<Rightarrow> graph \<Rightarrow> inst_id \<Rightarrow> (graph \<times> bool) option" where
  "VisitOr osr g i = do {
     (g, folded) \<leftarrow> ConstFoldingOr g i;
     if folded then Some (applied g)
     else do {
       (g, a) \<leftarrow> TrySwapInputs g i;
       let input0 = GetInput g i 0;
       let input1 = GetInput g i 1;
       if IsConst g input1 \<and> GetIntValue g input1 = 0 then
         (if SkipThisPeepholeInOSR osr g i input0 then Some (g, a) else Some (applied (ReplaceUsers g i input0)))
       else if input0 = input1 \<and> type_of g input0 = type_of g i then
         (if SkipThisPeepholeInOSR osr g i input0 then Some (g, a) else Some (applied (ReplaceUsers g i input0)))
       else if opcode_of g input0 = Op_Not \<and> opcode_of g input1 = Op_Not \<and> IsSingleUser g input0 \<and> IsSingleUser g input1 then
         (let (g, b) = de_morgan osr g i Op_And input0 input1 in Some (g, a \<or> b))
       else Some (g, a) } }"

definition VisitXor :: "bool \<Rightarrow> graph \<Rightarrow> inst_id \<Rightarrow> (graph \<times> bool) option" where
  "VisitXor osr g i = do {
     (g, folded) \<leftarrow> ConstFoldingXor g i;
     if folded then Some (applied g)
     else do {
       (g, a) \<leftarrow> TrySwapInputs g i;
       let input0 = GetInput g i 0;
       let input1 = GetInput g i 1;
       if \<not> IsConst g input1 then Some (g, a)
       else if GetIntValue g input1 = - 1 then
         (if SkipThisPeepholeInOSR osr g i input0 then Some (g, a) else Some (applied (fst (CreateAndInsertInst g Op_Not i [input0]))))
       else if GetIntValue g input1 = 0 then
         (if SkipThisPeepholeInOSR osr g i input0 then Some (g, a) else Some (applied (ReplaceUsers g i input0)))
       else if GetIntValue g input1 = 1 \<and> type_of g input0 = BOOL then
         (if SkipThisPeepholeInOSR osr g i input0 then Some (g, a)
          else do { (g, created) \<leftarrow> CreateCompareInsteadOfXorAdd osr g i; Some (applied g) })
       else Some (g, a) } }"

end
