(* ===== verification/PeepholeEdits.thy ===== *)
theory PeepholeEdits
  imports Peepholes ConstFoldingSound
begin

unbundle bit_operations_syntax

text \<open>
  What it means that an edited graph computes the same: after an edit there is a valuation of the new graph in which every other
  instruction has the value it had and reads the values it read (\<open>sim\<close>).  The visited instruction itself may have lost its users and
  compute something else.  The theory has the edits the arithmetic peephole rules are made of, each shown sound from an equation between
  integers: other users, another operation or operands, a new instruction, a new constant.
\<close>

section \<open>Integers at a type\<close>

abbreviation num_type :: "ir_type \<Rightarrow> bool" where
  "num_type T \<equiv> is_int_type T \<and> T \<noteq> BOOL"

text \<open>Equations between integers that are wrapped to a type at the end.\<close>

named_theorems wrap_ring

lemma take_bits_wrap: "num_type T \<Longrightarrow> take_bit (type_bits T) (wrap T x) = take_bit (type_bits T) x"
  by (cases T) (simp_all add: wrap_def IsTypeSigned_def take_bit_signed_take_bit)

lemma wrap_cong: "num_type T \<Longrightarrow> take_bit (type_bits T) x = take_bit (type_bits T) y \<Longrightarrow> wrap T x = wrap T y"
  by (cases T) (auto simp: wrap_def IsTypeSigned_def signed_take_bit_eq_iff_take_bit_eq)

lemma wrap_plus [wrap_ring]: "num_type T \<Longrightarrow> wrap T (wrap T x + y) = wrap T (x + y)" "num_type T \<Longrightarrow> wrap T (x + wrap T y) = wrap T (x + y)"
  by (rule wrap_cong; metis take_bits_wrap take_bit_add)+

lemma wrap_minus [wrap_ring]: "num_type T \<Longrightarrow> wrap T (wrap T x - y) = wrap T (x - y)" "num_type T \<Longrightarrow> wrap T (x - wrap T y) = wrap T (x - y)"
  by (rule wrap_cong; metis take_bits_wrap take_bit_diff)+

lemma wrap_times [wrap_ring]: "num_type T \<Longrightarrow> wrap T (wrap T x * y) = wrap T (x * y)" "num_type T \<Longrightarrow> wrap T (x * wrap T y) = wrap T (x * y)"
  by (rule wrap_cong; metis take_bits_wrap take_bit_mult)+

lemma wrap_uminus [wrap_ring]: "num_type T \<Longrightarrow> wrap T (- wrap T x) = wrap T (- x)"
  by (rule wrap_cong) (simp, metis take_bits_wrap take_bit_minus)

lemma wrap_not [wrap_ring]: "num_type T \<Longrightarrow> wrap T (NOT (wrap T x)) = wrap T (NOT x)"
  by (rule wrap_cong) (simp, metis take_bits_wrap take_bit_not_take_bit)

lemma wrap_and [wrap_ring]: "num_type T \<Longrightarrow> wrap T (wrap T x AND y) = wrap T (x AND y)" "num_type T \<Longrightarrow> wrap T (x AND wrap T y) = wrap T (x AND y)"
  by (rule wrap_cong; metis take_bits_wrap take_bit_and)+

lemma wrap_or [wrap_ring]: "num_type T \<Longrightarrow> wrap T (wrap T x OR y) = wrap T (x OR y)" "num_type T \<Longrightarrow> wrap T (x OR wrap T y) = wrap T (x OR y)"
  by (rule wrap_cong; metis take_bits_wrap take_bit_or)+

lemma wrap_xor [wrap_ring]: "num_type T \<Longrightarrow> wrap T (wrap T x XOR y) = wrap T (x XOR y)" "num_type T \<Longrightarrow> wrap T (x XOR wrap T y) = wrap T (x XOR y)"
  by (rule wrap_cong; metis take_bits_wrap take_bit_xor)+

lemma val_wrapped: "is_int_type T \<Longrightarrow> wrap T (val T w) = val T w"
  by (simp add: val_def wrap_wrap)

lemma canonical_val: "is_int_type T \<Longrightarrow> canonical T w \<Longrightarrow> canon T (val T w) = w"
  by (simp add: canon_def val_wrapped canonical_def)

lemma canonI: "wrap T x = wrap T y \<Longrightarrow> canon T x = canon T y"
  by (simp add: canon_def)

section \<open>Simulation of an edited graph\<close>

text \<open>All instructions but \<open>i\<close> keep their value, the values of their inputs and their other fields.\<close>

definition bystander :: "graph \<Rightarrow> (inst_id \<Rightarrow> u64) \<Rightarrow> graph \<Rightarrow> (inst_id \<Rightarrow> u64) \<Rightarrow> inst_id \<Rightarrow> bool" where
  "bystander g \<rho> g' \<rho>' j \<longleftrightarrow>
     \<rho>' j = \<rho> j \<and> map \<rho>' (inputs (the_inst g' j)) = map \<rho> (inputs (the_inst g j))
     \<and> (the_inst g' j)\<lparr>inputs := []\<rparr> = (the_inst g j)\<lparr>inputs := []\<rparr>"

definition sim :: "fpu \<Rightarrow> inst_id \<Rightarrow> graph \<Rightarrow> (inst_id \<Rightarrow> u64) \<Rightarrow> graph \<Rightarrow> (inst_id \<Rightarrow> u64) \<Rightarrow> bool" where
  "sim fp i g \<rho> g' \<rho>' \<longleftrightarrow>
     consistent fp g' \<rho>' \<and> wf_consts g' \<and> wf_inputs g' \<and> length (insts g) \<le> length (insts g')
     \<and> (\<forall>j < length (insts g). j \<noteq> i \<longrightarrow> bystander g \<rho> g' \<rho>' j)"

definition wf_graph :: "fpu \<Rightarrow> graph \<Rightarrow> (inst_id \<Rightarrow> u64) \<Rightarrow> bool" where
  "wf_graph fp g \<rho> \<longleftrightarrow> consistent fp g \<rho> \<and> wf_consts g \<and> wf_inputs g"

lemma bystander_refl [simp]: "bystander g \<rho> g \<rho> j"
  by (simp add: bystander_def)

lemma sim_refl: "wf_graph fp g \<rho> \<Longrightarrow> sim fp i g \<rho> g \<rho>"
  by (simp add: sim_def wf_graph_def)

lemma sim_wf: "sim fp i g \<rho> g' \<rho>' \<Longrightarrow> wf_graph fp g' \<rho>'"
  by (simp add: sim_def wf_graph_def)

lemma sim_trans: "sim fp i g \<rho> g1 \<rho>1 \<Longrightarrow> sim fp i g1 \<rho>1 g2 \<rho>2 \<Longrightarrow> sim fp i g \<rho> g2 \<rho>2"
  by (auto simp: sim_def bystander_def)

text \<open>Only the instructions and the list of constants matter.\<close>

lemma sim_cong: "insts g1 = insts g2 \<Longrightarrow> constList g1 = constList g2 \<Longrightarrow> sim fp i g \<rho> g1 \<rho>' = sim fp i g \<rho> g2 \<rho>'"
  by (simp add: sim_def consistent_def wf_consts_def wf_inputs_def IsConst_def bystander_def)

lemma wf_graphI: "consistent fp g \<rho> \<Longrightarrow> wf_consts g \<Longrightarrow> wf_inputs g \<Longrightarrow> wf_graph fp g \<rho>"
  by (simp add: wf_graph_def)

text \<open>The users get another instruction of the same value.\<close>

lemma map_rename: "\<rho> x = \<rho> i \<Longrightarrow> map \<rho> (map (\<lambda>y. if y = i then x else y) ys) = map \<rho> ys"
  by auto

lemma sim_replace:
  assumes "wf_graph fp g \<rho>" "x < length (insts g)" "\<rho> x = \<rho> i"
  shows "sim fp i g \<rho> (ReplaceUsers g i x) \<rho>"
proof -
  have m: "map \<rho> (inputs (the_inst (ReplaceUsers g i x) j)) = map \<rho> (inputs (the_inst g j))" if "j < length (insts g)" for j
    using that map_rename [of \<rho> x i, OF assms(3)] by (simp add: ReplaceUsers_inst del: map_map)
  have "consistent fp (ReplaceUsers g i x) \<rho>"
    using assms(1) m by (simp add: wf_graph_def consistent_def ReplaceUsers_inst eval_op_inputs del: map_map)
  moreover have "bystander g \<rho> (ReplaceUsers g i x) \<rho> j" if "j < length (insts g)" for j
    using that m by (simp add: bystander_def ReplaceUsers_inst del: map_map)
  ultimately show ?thesis using assms(1,2) ReplaceUsers_wf by (simp add: sim_def wf_graph_def)
qed

text \<open>The instruction is rewritten without a change of its value.\<close>

lemma update_inst_simps [simp]:
  "length (insts (update_inst g i f)) = length (insts g)" "constList (update_inst g i f) = constList g"
  "i < length (insts g) \<Longrightarrow> the_inst (update_inst g i f) j = (if j = i then f (the_inst g i) else the_inst g j)"
  by (auto simp: update_inst_def nth_list_update)

lemma sim_update:
  assumes "wf_graph fp g \<rho>" "i < length (insts g)" "\<not> IsConst g i" "GetOpcode (f (the_inst g i)) \<noteq> Op_Constant"
    "\<forall>x \<in> set (inputs (f (the_inst g i))). x < length (insts g)"
    "\<And>v. eval_op fp (f (the_inst g i)) (map \<rho> (inputs (f (the_inst g i)))) = Some v \<Longrightarrow> \<rho> i = v"
  shows "sim fp i g \<rho> (update_inst g i f) \<rho>"
proof -
  let ?g = "update_inst g i f"
  have "consistent fp ?g \<rho>" using assms(1,2,6) by (auto simp: wf_graph_def consistent_iff)
  moreover have "wf_consts ?g" using assms(1-4) by (auto simp: wf_graph_def wf_consts_def IsConst_def)
  moreover have "wf_inputs ?g" using assms(1,2,5) by (auto simp: wf_graph_def wf_inputs_def)
  ultimately show ?thesis using assms(2) by (simp add: sim_def bystander_def)
qed

text \<open>A constant is found or added.\<close>

definition extends :: "graph \<Rightarrow> (inst_id \<Rightarrow> u64) \<Rightarrow> graph \<Rightarrow> (inst_id \<Rightarrow> u64) \<Rightarrow> bool" where
  "extends g \<rho> g' \<rho>' \<longleftrightarrow>
     length (insts g) \<le> length (insts g') \<and> (\<forall>j < length (insts g). \<rho>' j = \<rho> j \<and> the_inst g' j = the_inst g j)
     \<and> GetArch g' = GetArch g \<and> objectPointerSize g' = objectPointerSize g \<and> IsBytecodeOptimizer g' = IsBytecodeOptimizer g"

lemma extends_refl [simp]: "extends g \<rho> g \<rho>"
  by (simp add: extends_def)

lemma extends_trans: "extends g \<rho> g1 \<rho>1 \<Longrightarrow> extends g1 \<rho>1 g2 \<rho>2 \<Longrightarrow> extends g \<rho> g2 \<rho>2"
  by (auto simp: extends_def)

lemma extends_sim:
  assumes "extends g \<rho> g' \<rho>'" "wf_graph fp g \<rho>" "wf_graph fp g' \<rho>'"
  shows "sim fp i g \<rho> g' \<rho>'"
proof -
  have "map \<rho>' (inputs (the_inst g j)) = map \<rho> (inputs (the_inst g j))" if "j < length (insts g)" for j
    using assms(1,2) that by (auto simp: extends_def wf_graph_def wf_inputs_def)
  then show ?thesis using assms(1,3) by (simp add: sim_def wf_graph_def extends_def bystander_def)
qed

lemma const_result_extends:
  assumes "wf_graph fp g \<rho>" "const_result g v (g', c)"
  shows "extends g \<rho> g' (\<rho>(c := v))" "wf_graph fp g' (\<rho>(c := v))" "c < length (insts g')" "(\<rho>(c := v)) c = v" "IsConst g' c"
proof -
  have wf: "wf_consts g" "wf_inputs g" "consistent fp g \<rho>" using assms(1) by (simp_all add: wf_graph_def)
  note G = const_result_graph [OF assms(2) wf(1,2)]
  have old: "\<rho> c = v" if "c < length (insts g)" using const_value [OF wf(3) that] G(2,3,5) that by (simp add: IsConst_def)
  then have agree: "(\<rho>(c := v)) j = \<rho> j" if "j < length (insts g)" for j using that by auto
  have flags: "GetArch g' = GetArch g" "objectPointerSize g' = objectPointerSize g" "IsBytecodeOptimizer g' = IsBytecodeOptimizer g"
    using assms(2) by (auto simp: const_result_def AddConstInStartBlock_def Let_def)
  show "extends g \<rho> g' (\<rho>(c := v))" using G(4,5) agree flags by (simp add: extends_def)
  have "consistent fp g' (\<rho>(c := v))" unfolding consistent_iff
  proof (intro allI impI)
    fix j w
    assume j: "j < length (insts g')" "eval_op fp (the_inst g' j) (map (\<rho>(c := v)) (inputs (the_inst g' j))) = Some w"
    show "(\<rho>(c := v)) j = w"
    proof (cases "j = c")
      case True
      with j(2) G(2,3) show ?thesis by (simp add: eval_op_def IsConst_def)
    next
      case False
      then have l: "j < length (insts g)" using j(1) G(6) by simp
      then have "map (\<rho>(c := v)) (inputs (the_inst g j)) = map \<rho> (inputs (the_inst g j))" using wf(2) agree by (auto simp: wf_inputs_def)
      with j(2) G(5) [OF l] have "\<rho> j = w" using wf(3) l by (simp add: consistent_iff)
      then show ?thesis using False by simp
    qed
  qed
  then show "wf_graph fp g' (\<rho>(c := v))" using G(7,8) by (simp add: wf_graph_def)
  show "c < length (insts g')" "(\<rho>(c := v)) c = v" "IsConst g' c" using G(1,2) by simp_all
qed

text \<open>An instruction is added.\<close>

lemma append_extends:
  assumes "wf_graph fp g \<rho>" "GetOpcode s \<noteq> Op_Constant" "\<forall>x \<in> set (inputs s). x < length (insts g)"
    "\<And>w. eval_op fp s (map \<rho> (inputs s)) = Some w \<Longrightarrow> v = w"
  defines "g' \<equiv> g\<lparr>insts := insts g @ [s]\<rparr>" and "\<rho>' \<equiv> \<rho>(length (insts g) := v)"
  shows "extends g \<rho> g' \<rho>'" "wf_graph fp g' \<rho>'"
proof -
  have wf: "wf_consts g" "wf_inputs g" "consistent fp g \<rho>" using assms(1) by (simp_all add: wf_graph_def)
  show "extends g \<rho> g' \<rho>'" by (simp add: extends_def g'_def \<rho>'_def nth_append)
  have m: "map \<rho>' xs = map \<rho> xs" if "\<forall>x \<in> set xs. x < length (insts g)" for xs using that by (auto simp: \<rho>'_def)
  have "consistent fp g' \<rho>'" unfolding consistent_iff
  proof (intro allI impI)
    fix j w
    assume j: "j < length (insts g')" "eval_op fp (the_inst g' j) (map \<rho>' (inputs (the_inst g' j))) = Some w"
    show "\<rho>' j = w"
    proof (cases "j = length (insts g)")
      case True
      then have "eval_op fp s (map \<rho>' (inputs s)) = Some w" using j(2) by (simp add: g'_def)
      then have "v = w" unfolding m [OF assms(3)] by (rule assms(4))
      then show ?thesis using True by (simp add: \<rho>'_def)
    next
      case False
      then have l: "j < length (insts g)" using j(1) by (simp add: g'_def)
      then have "map \<rho>' (inputs (the_inst g j)) = map \<rho> (inputs (the_inst g j))" using wf(2) by (intro m) (simp add: wf_inputs_def)
      moreover have "the_inst g' j = the_inst g j" using l by (simp add: g'_def nth_append)
      ultimately have "eval_op fp (the_inst g j) (map \<rho> (inputs (the_inst g j))) = Some w" using j(2) by metis
      then show ?thesis using wf(3) l False by (simp add: \<rho>'_def consistent_iff)
    qed
  qed
  moreover have "wf_consts g'" using wf(1) assms(2) by (auto simp: wf_consts_def g'_def IsConst_def nth_append less_Suc_eq)
  moreover have "wf_inputs g'" using wf(2) assms(3) by (auto simp: wf_inputs_def g'_def nth_append less_Suc_eq)
  ultimately show "wf_graph fp g' \<rho>'" by (simp add: wf_graph_def)
qed

text \<open>A new instruction takes over the users of the visited one.\<close>

definition renamed :: "inst_id \<Rightarrow> inst_id \<Rightarrow> inst \<Rightarrow> inst" where
  "renamed i x s = s\<lparr>inputs := map (\<lambda>y. if y = i then x else y) (inputs s)\<rparr>"

lemma ReplaceUsers_renamed: "insts (ReplaceUsers g i x) = map (renamed i x) (insts g)"
  by (simp add: ReplaceUsers_def renamed_def [abs_def])

lemma sim_created:
  assumes "wf_graph fp g \<rho>" "i < length (insts g)" "insts g' = map (renamed i (length (insts g))) (insts g) @ [s]" "constList g' = constList g"
    "GetOpcode s \<noteq> Op_Constant" "\<forall>x \<in> set (inputs s). x < length (insts g) \<and> x \<noteq> i"
    "\<And>w. eval_op fp s (map \<rho> (inputs s)) = Some w \<Longrightarrow> \<rho> i = w"
  shows "sim fp i g \<rho> g' (\<rho>(length (insts g) := \<rho> i))"
proof -
  let ?g = "g\<lparr>insts := insts g @ [s]\<rparr>" and ?n = "length (insts g)" and ?\<rho> = "\<rho>(length (insts g) := \<rho> i)"
  have ins: "\<forall>x \<in> set (inputs s). x < length (insts g)" using assms(6) by blast
  have A: "extends g \<rho> ?g ?\<rho>" "wf_graph fp ?g ?\<rho>" using append_extends [OF assms(1,5) ins assms(7)] by auto
  have "sim fp i g \<rho> ?g ?\<rho>" by (rule extends_sim [OF A(1) assms(1) A(2)])
  moreover have "sim fp i ?g ?\<rho> (ReplaceUsers ?g i ?n) ?\<rho>" using A(2) assms(2) by (intro sim_replace) simp_all
  ultimately have "sim fp i g \<rho> (ReplaceUsers ?g i ?n) ?\<rho>" by (rule sim_trans)
  moreover have "renamed i ?n s = s"
  proof -
    have "map (\<lambda>y. if y = i then ?n else y) (inputs s) = inputs s" using assms(6) by (simp add: map_idI)
    then show ?thesis by (simp add: renamed_def)
  qed
  then have "insts (ReplaceUsers ?g i ?n) = insts g'" using assms(3) by (simp add: ReplaceUsers_renamed)
  ultimately show ?thesis using sim_cong [of "ReplaceUsers ?g i ?n" g'] assms(4) by simp
qed

lemma ReplaceUsers_flags [simp]:
  "GetArch (ReplaceUsers g i x) = GetArch g" "objectPointerSize (ReplaceUsers g i x) = objectPointerSize g"
  "IsBytecodeOptimizer (ReplaceUsers g i x) = IsBytecodeOptimizer g"
  by (simp_all add: ReplaceUsers_def)

lemma new_inst_fields [simp]:
  "GetOpcode (new_inst opc T ins) = opc" "GetType (new_inst opc T ins) = T" "inputs (new_inst opc T ins) = ins"
  "operandsType (new_inst opc T ins) = NO_TYPE" "(new_inst opc T ins)\<lparr>inputs := ins'\<rparr> = new_inst opc T ins'"
  by (simp_all add: new_inst_def)

lemma renamed_new_inst [simp]: "renamed i x (new_inst opc T []) = new_inst opc T []"
  by (simp add: renamed_def)

lemma renamed_fields [simp]:
  "GetOpcode (renamed i x s) = GetOpcode s" "GetType (renamed i x s) = GetType s" "GetBasicBlock (renamed i x s) = GetBasicBlock s"
  "operandsType (renamed i x s) = operandsType s" "GetRawValue (renamed i x s) = GetRawValue s"
  by (simp_all add: renamed_def)

lemma Create_insts:
  assumes "CreateAndInsertInst g opc i ins = (g', n)" "i < length (insts g)"
  shows "n = length (insts g)" "constList g' = constList g" "GetArch g' = GetArch g" "objectPointerSize g' = objectPointerSize g"
    "IsBytecodeOptimizer g' = IsBytecodeOptimizer g"
    "insts g' = map (renamed i n) (insts g) @ [(new_inst opc (type_of g i) ins)\<lparr>GetBasicBlock := GetBasicBlock (the_inst g i)\<rparr>]"
  using assms
  by (auto simp: CreateAndInsertInst_def CreateInst_def InsertAfter_def update_inst_def ReplaceUsers_renamed Let_def nth_append
      list_update_append)

lemma eval_op_block: "eval_op fp (s\<lparr>GetBasicBlock := b\<rparr>) xs = eval_op fp s xs"
  by (simp add: eval_op_def Let_def cong: opcode.case_cong)

lemma sim_create:
  assumes "CreateAndInsertInst g opc i ins = (g', n)" "wf_graph fp g \<rho>" "i < length (insts g)" "opc \<noteq> Op_Constant"
    "\<forall>x \<in> set ins. x < length (insts g) \<and> x \<noteq> i"
    "\<And>w. eval_op fp (new_inst opc (type_of g i) ins) (map \<rho> ins) = Some w \<Longrightarrow> \<rho> i = w"
  shows "sim fp i g \<rho> g' (\<rho>(n := \<rho> i))"
proof -
  note C = Create_insts [OF assms(1,3)]
  have "sim fp i g \<rho> g' (\<rho>(length (insts g) := \<rho> i))"
    using assms(4-6) C(1) by (intro sim_created [OF assms(2,3) C(6) [unfolded C(1)] C(2)]) (simp_all add: eval_op_block)
  then show ?thesis using C(1) by simp
qed

definition arith_opcode :: "opcode \<Rightarrow> bool" where
  "arith_opcode op \<longleftrightarrow> is_arith op"

lemma arith_opcodes [simp]:
  "arith_opcode Op_Neg" "arith_opcode Op_Abs" "arith_opcode Op_Not" "arith_opcode Op_Add" "arith_opcode Op_Sub" "arith_opcode Op_Mul"
  "arith_opcode Op_Div" "arith_opcode Op_Mod" "arith_opcode Op_Min" "arith_opcode Op_Max" "arith_opcode Op_Shl" "arith_opcode Op_Shr"
  "arith_opcode Op_AShr" "arith_opcode Op_And" "arith_opcode Op_Or" "arith_opcode Op_Xor" "\<not> arith_opcode Op_Constant"
  by (simp_all add: arith_opcode_def)

text \<open>The value of an arithmetic instruction.\<close>

lemma arith_val:
  assumes "wf_graph fp g \<rho>" "j < length (insts g)" "arith_opcode (opcode_of g j)" "is_int_type (type_of g j)"
    "eval_int (opcode_of g j) (type_of g j) (map \<rho> (inputs (the_inst g j)) ! 0) (map \<rho> (inputs (the_inst g j)) ! 1) = Some v"
  shows "\<rho> j = canon (type_of g j) v"
  using assms by (simp add: wf_graph_def consistent_iff eval_op_arith arith_opcode_def)

lemma new_inst_value:
  assumes "arith_opcode opc" "is_int_type T" "eval_op fp (new_inst opc T ins) xs = Some w" "eval_int opc T (xs ! 0) (xs ! 1) = Some v"
  shows "w = canon T v"
  using assms by (simp add: eval_op_arith arith_opcode_def)

section \<open>Operands\<close>

text \<open>
  What the rules rely on: an operand of an arithmetic instruction \<open>i\<close> of type \<open>T\<close> has a value of the type and of its own type, and
  when it is arithmetic itself it has the type \<open>T\<close> and such operands, down to a depth.  None of them is \<open>i\<close> (arithmetic has no cycles
  but through phis).
\<close>

fun arity :: "opcode \<Rightarrow> nat" where
  "arity Op_Neg = 1"
| "arity Op_Abs = 1"
| "arity Op_Not = 1"
| "arity Op_Sqrt = 1"
| "arity _ = 2"

definition typed :: "graph \<Rightarrow> (inst_id \<Rightarrow> u64) \<Rightarrow> inst_id \<Rightarrow> inst_id \<Rightarrow> bool" where
  "typed g \<rho> i x \<longleftrightarrow> x < length (insts g) \<and> x \<noteq> i \<and> (is_int_type (type_of g x) \<longrightarrow> canonical (type_of g x) (\<rho> x))"

fun operand :: "nat \<Rightarrow> graph \<Rightarrow> (inst_id \<Rightarrow> u64) \<Rightarrow> inst_id \<Rightarrow> ir_type \<Rightarrow> inst_id \<Rightarrow> bool" where
  "operand 0 g \<rho> i T x \<longleftrightarrow> typed g \<rho> i x \<and> is_int_type (type_of g x) \<and> canonical T (\<rho> x)"
| "operand (Suc n) g \<rho> i T x \<longleftrightarrow>
     operand 0 g \<rho> i T x
     \<and> (arith_opcode (opcode_of g x) \<longrightarrow>
          type_of g x = T \<and> length (inputs (the_inst g x)) = arity (opcode_of g x) \<and> (\<forall>y \<in> set (inputs (the_inst g x)). operand n g \<rho> i T y))
     \<and> (opcode_of g x = Op_Cast \<longrightarrow>
          length (inputs (the_inst g x)) = 1 \<and> operandsType (the_inst g x) = type_of g (GetInput g x 0) \<and> typed g \<rho> i (GetInput g x 0))"

declare operand.simps [simp del]

lemma operand_base: "operand n g \<rho> i T x \<Longrightarrow> operand 0 g \<rho> i T x"
  by (cases n) (simp_all add: operand.simps)

lemma operandD:
  assumes "operand n g \<rho> i T x"
  shows "x < length (insts g)" "x \<noteq> i" "canonical T (\<rho> x)" "is_int_type (type_of g x)" "canonical (type_of g x) (\<rho> x)"
  using operand_base [OF assms] by (simp_all add: operand.simps typed_def)

lemma operand_arith:
  assumes "operand (Suc n) g \<rho> i T x" "arith_opcode (opcode_of g x)"
  shows "type_of g x = T" "length (inputs (the_inst g x)) = arity (opcode_of g x)"
    "k < arity (opcode_of g x) \<Longrightarrow> operand n g \<rho> i T (GetInput g x k)"
  using assms by (auto simp: operand.simps GetInput_def)

lemma operand_val:
  assumes "wf_graph fp g \<rho>" "operand n g \<rho> i T x" "is_int_type T"
  shows "canon T (val T (\<rho> x)) = \<rho> x" "IsConst g x \<Longrightarrow> GetIntValue g x = \<rho> x"
    "IsConst g x \<Longrightarrow> IsEqualConstAllTypes g x v \<Longrightarrow> \<rho> x = word_of_int v"
    "IsConst g x \<Longrightarrow> IsEqualConst_int g x v \<Longrightarrow> \<rho> x = word_of_int v"
proof -
  show "canon T (val T (\<rho> x)) = \<rho> x" using assms operandD(3) by (simp add: canonical_val)
  have c: "\<rho> x = GetRawValue (the_inst g x)" if "IsConst g x"
    using assms(1) operandD(1) [OF assms(2)] that by (auto simp: wf_graph_def intro: const_value)
  then show "IsConst g x \<Longrightarrow> GetIntValue g x = \<rho> x" by (simp add: GetIntValue_def)
  show "IsConst g x \<Longrightarrow> IsEqualConstAllTypes g x v \<Longrightarrow> \<rho> x = word_of_int v" "IsConst g x \<Longrightarrow> IsEqualConst_int g x v \<Longrightarrow> \<rho> x = word_of_int v"
    using c operandD(4) [OF assms(2)] by (auto simp: IsEqualConstAllTypes_def IsEqualConst_int_def)
qed

text \<open>The value of an operand that is a unary or a binary operation.\<close>

lemma operand_op:
  assumes "wf_graph fp g \<rho>" "operand (Suc n) g \<rho> i T x" "is_int_type T" "arith_opcode (opcode_of g x)"
  shows "arity (opcode_of g x) = 1 \<Longrightarrow> eval_int (opcode_of g x) T (\<rho> (GetInput g x 0)) y = Some v \<Longrightarrow> \<rho> x = canon T v"
    "arity (opcode_of g x) = 2 \<Longrightarrow> eval_int (opcode_of g x) T (\<rho> (GetInput g x 0)) (\<rho> (GetInput g x 1)) = Some v \<Longrightarrow> \<rho> x = canon T v"
proof -
  note x = operandD(1) [OF assms(2)] operand_arith(1,2) [OF assms(2,4)]
  show "\<rho> x = canon T v" if "arity (opcode_of g x) = 1" "eval_int (opcode_of g x) T (\<rho> (GetInput g x 0)) y = Some v"
  proof -
    have "eval_int (opcode_of g x) T a b = eval_int (opcode_of g x) T a c" for a b c
      using that(1) assms(4) by (cases "opcode_of g x") (simp_all add: eval_int_def arith_opcode_def)
    note irr = this
    have "eval_int (opcode_of g x) T (map \<rho> (inputs (the_inst g x)) ! 0) (map \<rho> (inputs (the_inst g x)) ! 1) = Some v"
      unfolding irr [of _ "map \<rho> (inputs (the_inst g x)) ! 1" y] using that x(3) by (simp add: GetInput_def)
    then show ?thesis using arith_val [OF assms(1) x(1) assms(4)] x(2) assms(3) by simp
  qed
  show "\<rho> x = canon T v" if "arity (opcode_of g x) = 2" "eval_int (opcode_of g x) T (\<rho> (GetInput g x 0)) (\<rho> (GetInput g x 1)) = Some v"
    using arith_val [OF assms(1) x(1) assms(4)] x(2,3) assms(3) that by (simp add: GetInput_def)
qed

text \<open>Operands stay operands when constants are added and the visited instruction or its users are edited.\<close>

lemma operand_cong:
  assumes "operand n g \<rho> i T x" "wf_inputs g" "length (insts g) \<le> length (insts g')"
    "\<And>j. j < length (insts g) \<Longrightarrow> j \<noteq> i \<Longrightarrow> i \<notin> set (inputs (the_inst g j)) \<Longrightarrow> the_inst g' j = the_inst g j"
    "\<And>j. j < length (insts g) \<Longrightarrow> j \<noteq> i \<Longrightarrow> GetType (the_inst g' j) = GetType (the_inst g j) \<and> \<rho>' j = \<rho> j \<and> GetOpcode (the_inst g' j) = GetOpcode (the_inst g j)"
  shows "operand n g' \<rho>' i T x"
  using assms(1)
proof (induction n arbitrary: x)
  case 0
  then have "x < length (insts g)" "x \<noteq> i" by (simp_all add: operand.simps typed_def)
  with 0 assms(3,5) show ?case by (simp add: operand.simps typed_def)
next
  case (Suc n)
  note x = operandD(1,2) [OF Suc.prems]
  have base: "operand 0 g' \<rho>' i T x" using operand_base [OF Suc.prems] x assms(3,5) by (simp add: operand.simps typed_def)
  have same: "the_inst g' x = the_inst g x" if "arith_opcode (opcode_of g x) \<or> opcode_of g x = Op_Cast"
  proof (rule assms(4) [OF x])
    show "i \<notin> set (inputs (the_inst g x))" using Suc.prems that operandD(2)
      by (cases "inputs (the_inst g x)") (auto simp: operand.simps GetInput_def typed_def dest: operandD(2))
  qed
  have T: "type_of g' j = type_of g j" "\<rho>' j = \<rho> j" if "typed g \<rho> i j" for j using that assms(5) by (simp_all add: typed_def)
  have typed: "typed g' \<rho>' i j" if "typed g \<rho> i j" for j using that assms(3) T [OF that] by (simp add: typed_def)
  show ?case unfolding operand.simps(2)
  proof (intro conjI impI base)
    assume "arith_opcode (opcode_of g' x)"
    then have a: "arith_opcode (opcode_of g x)" using assms(5) [OF x] by simp
    with Suc same show "type_of g' x = T" "length (inputs (the_inst g' x)) = arity (opcode_of g' x)"
      "\<forall>y \<in> set (inputs (the_inst g' x)). operand n g' \<rho>' i T y" by (simp_all add: operand.simps)
  next
    assume "opcode_of g' x = Op_Cast"
    then have a: "opcode_of g x = Op_Cast" using assms(5) [OF x] by simp
    with Suc.prems same T typed show "length (inputs (the_inst g' x)) = 1" "operandsType (the_inst g' x) = type_of g' (GetInput g' x 0)"
      "typed g' \<rho>' i (GetInput g' x 0)" by (auto simp: operand.simps GetInput_def)
  qed
qed

lemma operand_extends: "operand n g \<rho> i T x \<Longrightarrow> wf_inputs g \<Longrightarrow> extends g \<rho> g' \<rho>' \<Longrightarrow> operand n g' \<rho>' i T x"
  by (erule operand_cong) (simp_all add: extends_def)

lemma operand_update: "operand n g \<rho> i T x \<Longrightarrow> wf_inputs g \<Longrightarrow> i < length (insts g) \<Longrightarrow> operand n (update_inst g i f) \<rho> i T x"
  by (erule operand_cong) simp_all

lemma operand_replace: "operand n g \<rho> i T x \<Longrightarrow> wf_inputs g \<Longrightarrow> operand n (ReplaceUsers g i z) \<rho> i T x"
proof (erule operand_cong)
  fix j
  assume "j < length (insts g)" "i \<notin> set (inputs (the_inst g j))"
  moreover from this(2) have "map (\<lambda>x. if x = i then z else x) (inputs (the_inst g j)) = inputs (the_inst g j)" by (induction "inputs (the_inst g j)") (auto intro: map_idI)
  ultimately show "the_inst (ReplaceUsers g i z) j = the_inst g j" by (simp add: ReplaceUsers_inst)
qed (simp_all add: ReplaceUsers_inst)

section \<open>Sound edits of a binary operation\<close>

definition sound :: "fpu \<Rightarrow> inst_id \<Rightarrow> graph \<Rightarrow> (inst_id \<Rightarrow> u64) \<Rightarrow> (graph \<times> bool) option \<Rightarrow> bool" where
  "sound fp i g \<rho> r \<longleftrightarrow> (\<exists>g' b \<rho>'. r = Some (g', b) \<and> sim fp i g \<rho> g' \<rho>')"

lemma sound_sim: "sim fp i g \<rho> g' \<rho>' \<Longrightarrow> sound fp i g \<rho> (Some (g', b))"
  by (auto simp: sound_def)

lemma sound_same: "wf_graph fp g \<rho> \<Longrightarrow> sound fp i g \<rho> (Some (g, b))"
  by (rule sound_sim [OF sim_refl])

lemma sound_step: "sim fp i g \<rho> g1 \<rho>1 \<Longrightarrow> sound fp i g1 \<rho>1 r \<Longrightarrow> sound fp i g \<rho> r"
  by (auto simp: sound_def intro: sim_trans)

text \<open>The result of a fold is the graph itself or a sound edit.\<close>

lemma fold_cases:
  assumes "wf_graph fp g \<rho>" "i < length (insts g)" "fold_ok g i \<rho> r"
  obtains "r = Some (g, False)" | g' \<rho>' where "r = Some (g', True)" "sim fp i g \<rho> g' \<rho>'"
proof -
  consider "r = Some (g, False)" | g1 c where "r = Some (ReplaceUsers g1 i c, True)" "const_result g (\<rho> i) (g1, c)"
    using assms(3) by (auto simp: fold_ok_def kept_def replaced_def split: prod.splits)
  then show thesis
  proof cases
    case 1
    then show thesis by (rule that(1))
  next
    case 2
    note C = const_result_extends [OF assms(1) 2(2)]
    have "sim fp i g1 (\<rho>(c := \<rho> i)) (ReplaceUsers g1 i c) (\<rho>(c := \<rho> i))" using C(2,3) by (intro sim_replace) simp_all
    then show thesis using that(2) 2(1) sim_trans extends_sim [OF C(1) assms(1) C(2)] by blast
  qed
qed

text \<open>\<open>i\<close> is an instruction of type \<open>T\<close>, a binary operation on \<open>x\<close> and \<open>y\<close>.\<close>

definition visited :: "fpu \<Rightarrow> ir_type \<Rightarrow> graph \<Rightarrow> inst_id \<Rightarrow> (inst_id \<Rightarrow> u64) \<Rightarrow> bool" where
  "visited fp T g i \<rho> \<longleftrightarrow> wf_graph fp g \<rho> \<and> i < length (insts g) \<and> \<not> IsConst g i \<and> type_of g i = T \<and> num_type T"

lemma visitedD:
  assumes "visited fp T g i \<rho>"
  shows "wf_graph fp g \<rho>" "i < length (insts g)" "\<not> IsConst g i" "type_of g i = T" "is_int_type T" "T \<noteq> BOOL"
  using assms by (simp_all add: visited_def)

definition bin_inst :: "nat \<Rightarrow> fpu \<Rightarrow> opcode \<Rightarrow> ir_type \<Rightarrow> graph \<Rightarrow> inst_id \<Rightarrow> inst_id \<Rightarrow> inst_id \<Rightarrow> (inst_id \<Rightarrow> u64) \<Rightarrow> bool" where
  "bin_inst n fp op T g i x y \<rho> \<longleftrightarrow>
     wf_graph fp g \<rho> \<and> i < length (insts g) \<and> opcode_of g i = op \<and> arith_opcode op \<and> type_of g i = T \<and> num_type T
     \<and> inputs (the_inst g i) = [x, y] \<and> operand n g \<rho> i T x \<and> operand n g \<rho> i T y"

lemma bin_instD:
  assumes "bin_inst n fp op T g i x y \<rho>"
  shows "wf_graph fp g \<rho>" "i < length (insts g)" "opcode_of g i = op" "arith_opcode op" "type_of g i = T" "is_int_type T" "T \<noteq> BOOL"
    "GetInput g i 0 = x" "GetInput g i 1 = y" "operand n g \<rho> i T x" "operand n g \<rho> i T y" "inputs (the_inst g i) = [x, y]"
  using assms by (simp_all add: bin_inst_def GetInput_def)

lemma bin_inst_value:
  assumes "bin_inst n fp op T g i x y \<rho>" "eval_int op T (\<rho> x) (\<rho> y) = Some v"
  shows "\<rho> i = canon T v"
  using assms arith_val [of fp g \<rho> i v] by (simp add: bin_inst_def)

lemma bin_inst_not_const: "bin_inst n fp op T g i x y \<rho> \<Longrightarrow> \<not> IsConst g i"
  by (auto simp: bin_inst_def IsConst_def)

lemma bin_inst_visited: "bin_inst n fp op T g i x y \<rho> \<Longrightarrow> visited fp T g i \<rho>"
  using bin_inst_not_const by (auto simp: bin_inst_def visited_def)

lemma wf_graph_inputs: "wf_graph fp g \<rho> \<Longrightarrow> wf_inputs g"
  by (simp add: wf_graph_def)

text \<open>The three edits: other users, another operation, a new instruction.\<close>

lemma bin_inst_replace:
  assumes "bin_inst n fp op T g i x y \<rho>" "z < length (insts g)" "\<rho> z = \<rho> i"
  shows "sim fp i g \<rho> (ReplaceUsers g i z) \<rho>" "bin_inst n fp op T (ReplaceUsers g i z) i x y \<rho>"
proof -
  show s: "sim fp i g \<rho> (ReplaceUsers g i z) \<rho>" using assms by (intro sim_replace) (simp_all add: bin_inst_def)
  have "x \<noteq> i" "y \<noteq> i" using bin_instD(10,11) [OF assms(1)] operandD(2) by blast+
  then show "bin_inst n fp op T (ReplaceUsers g i z) i x y \<rho>"
    using assms(1) sim_wf [OF s] by (auto simp: bin_inst_def ReplaceUsers_inst intro: operand_replace wf_graph_inputs)
qed

definition put :: "graph \<Rightarrow> inst_id \<Rightarrow> opcode \<Rightarrow> inst_id \<Rightarrow> inst_id \<Rightarrow> graph" where
  "put g i opc x y = update_inst g i (\<lambda>s. s\<lparr>GetOpcode := opc, inputs := [x, y]\<rparr>)"

lemma put_eqs:
  assumes "bin_inst n fp op T g i x y \<rho>"
  shows "set_input (set_input (SetOpcode g i opc) i 0 a) i 1 b = put g i opc a b"
    "SetOpcode (set_input g i 1 b) i opc = put g i opc x b" "set_input (SetOpcode g i opc) i 1 b = put g i opc x b"
    "set_input (set_input g i 0 a) i 1 b = put g i op a b" "set_input g i 1 b = put g i op x b"
    "swap_inputs g i = put g i op y x"
    "put (put g i opc a b) i opc' a' b' = put g i opc' a' b'"
proof -
  have swap: "s\<lparr>inputs := xs, GetOpcode := opc\<rparr> = s\<lparr>GetOpcode := opc, inputs := xs\<rparr>" for s :: inst and xs by simp
  have same: "(the_inst g i)\<lparr>GetOpcode := op\<rparr> = the_inst g i" using bin_instD(3) [OF assms] by auto
  note defs = set_input_def SetOpcode_def swap_inputs_def put_def update_inst_def GetInput_def Let_def nth_list_update
  show "SetOpcode (set_input g i 1 b) i opc = put g i opc x b" using bin_instD(2,12) [OF assms] by (simp add: defs swap)
qed (use bin_instD(2,3,12) [OF assms] in \<open>auto simp: set_input_def SetOpcode_def swap_inputs_def put_def update_inst_def GetInput_def Let_def nth_list_update\<close>)

lemma put_sim:
  assumes "bin_inst n fp op T g i x y \<rho>" "arith_opcode opc" "a < length (insts g)" "b < length (insts g)"
    "eval_int opc T (\<rho> a) (\<rho> b) = Some v" "\<rho> i = canon T v"
  shows "sim fp i g \<rho> (put g i opc a b) \<rho>"
proof -
  have "GetOpcode ((the_inst g i)\<lparr>GetOpcode := opc, inputs := [a, b]\<rparr>) \<noteq> Op_Constant" using assms(2) by auto
  moreover have "\<rho> i = w" if "eval_op fp ((the_inst g i)\<lparr>GetOpcode := opc, inputs := [a, b]\<rparr>) [\<rho> a, \<rho> b] = Some w" for w
    using that assms bin_instD(5,6) [OF assms(1)] by (simp add: eval_op_arith arith_opcode_def)
  ultimately show ?thesis unfolding put_def using assms bin_inst_not_const [OF assms(1)] bin_instD(1,2) [OF assms(1)] by (intro sim_update) auto
qed

lemma put_bin_inst:
  assumes "bin_inst n fp op T g i x y \<rho>" "arith_opcode opc" "operand m g \<rho> i T a" "operand m g \<rho> i T b"
    "eval_int opc T (\<rho> a) (\<rho> b) = Some v" "\<rho> i = canon T v"
  shows "sim fp i g \<rho> (put g i opc a b) \<rho>" "bin_inst m fp opc T (put g i opc a b) i a b \<rho>"
proof -
  show s: "sim fp i g \<rho> (put g i opc a b) \<rho>" using assms operandD(1) by (intro put_sim) auto
  note wf = wf_graph_inputs [OF bin_instD(1) [OF assms(1)]]
  show "bin_inst m fp opc T (put g i opc a b) i a b \<rho>"
    using assms(1,2) sim_wf [OF s] operand_update [OF assms(3) wf bin_instD(2) [OF assms(1)]] operand_update [OF assms(4) wf bin_instD(2) [OF assms(1)]]
    by (simp add: bin_inst_def put_def)
qed

lemma create_sim:
  assumes "CreateAndInsertInst g opc i ins = (g', c)" "visited fp T g i \<rho>" "arith_opcode opc" "\<forall>a \<in> set ins. a < length (insts g) \<and> a \<noteq> i"
    "eval_int opc T (map \<rho> ins ! 0) (map \<rho> ins ! 1) = Some v" "\<rho> i = canon T v"
  shows "sim fp i g \<rho> g' (\<rho>(c := \<rho> i))"
proof (rule sim_create [OF assms(1)])
  show "\<rho> i = w" if "eval_op fp (new_inst opc (type_of g i) ins) (map \<rho> ins) = Some w" for w
    using new_inst_value [OF assms(3) _ that] assms(5,6) visitedD(4,5) [OF assms(2)] by simp
qed (use assms(3,4) visitedD(1,2) [OF assms(2)] in auto)

lemma create_sound:
  assumes "visited fp T g i \<rho>" "arith_opcode opc" "\<forall>a \<in> set ins. a < length (insts g) \<and> a \<noteq> i"
    "eval_int opc T (map \<rho> ins ! 0) (map \<rho> ins ! 1) = Some v" "\<rho> i = canon T v"
  shows "sound fp i g \<rho> (Some (applied (fst (CreateAndInsertInst g opc i ins))))"
proof (cases "CreateAndInsertInst g opc i ins")
  case (Pair g' c)
  show ?thesis using sound_sim [OF create_sim [OF Pair assms]] Pair by (simp add: applied_def)
qed

text \<open>A binary operation stays one when a constant is added.\<close>

lemma bin_inst_extends:
  assumes "bin_inst n fp op T g i x y \<rho>" "extends g \<rho> g' \<rho>'" "wf_graph fp g' \<rho>'"
  shows "sim fp i g \<rho> g' \<rho>'" "bin_inst n fp op T g' i x y \<rho>'"
proof -
  note B = bin_instD [OF assms(1)]
  show "sim fp i g \<rho> g' \<rho>'" by (rule extends_sim [OF assms(2) B(1) assms(3)])
  have "i < length (insts g')" "the_inst g' i = the_inst g i" using assms(2) B(2) by (simp_all add: extends_def)
  then show "bin_inst n fp op T g' i x y \<rho>'"
    using assms B operand_extends [OF B(10) wf_graph_inputs [OF B(1)] assms(2)] operand_extends [OF B(11) wf_graph_inputs [OF B(1)] assms(2)]
    by (simp add: bin_inst_def)
qed

lemma bin_inst_mono: "bin_inst (Suc n) fp op T g i x y \<rho> \<Longrightarrow> bin_inst 0 fp op T g i x y \<rho>"
  by (auto simp: bin_inst_def intro: operand_base)

text \<open>The constants the rules create: of the bytecode optimizer only the low half of the word is kept, which is enough at its types.\<close>

lemma wrap_scast: "num_type T \<Longrightarrow> IsInt32Bit T \<Longrightarrow> wrap T (sint (scast (ucast v :: u32) :: u64)) = wrap T (sint v)" for v :: u64
proof (rule wrap_cong)
  assume T: "num_type T" "IsInt32Bit T"
  have "n = 31" if "31 \<le> n" "n < 32" for n :: nat using that by simp
  note e = this
  show "take_bit (type_bits T) (sint (scast (ucast v :: u32) :: u64)) = take_bit (type_bits T) (sint v)"
    using T by (cases T) (auto simp: IsInt32Bit_def bit_simps min_def intro!: bit_eqI split: if_splits dest: e)
qed

lemma CreateIntConst_sound:
  assumes "visited fp T g i \<rho>"
  obtains g' c \<rho>' where "ConstFoldingCreateIntConst g i v False = (g', c)" "extends g \<rho> g' \<rho>'" "wf_graph fp g' \<rho>'" "c < length (insts g')"
    "val T (\<rho>' c) = val T v" "v < 64 \<longrightarrow> \<rho>' c = v" "IsConst g' c" "c \<noteq> i"
proof -
  note B = visitedD [OF assms]
  define v' where "v' = (if IsBytecodeOptimizer g \<and> IsInt32Bit T then scast (ucast v :: u32) else v)"
  obtain g' c where r: "ConstFoldingCreateIntConst g i v False = (g', c)" by fastforce
  have wf: "wf_consts g" using B(1) by (simp add: wf_graph_def)
  have "const_result g v' (g', c)"
    using u32_const_result [OF wf] u64_const_result [OF wf] B(4) unfolding r [symmetric] by (simp add: ConstFoldingCreateIntConst_def v'_def)
  note E = const_result_extends [OF B(1) this]
  have "val T v' = val T v" using B(5,6) wrap_scast by (simp add: v'_def val_def)
  moreover have "v < 64 \<Longrightarrow> v' = v"
  proof -
    assume "v < 64"
    then have "take_bit 6 v = v" by (simp add: word_less_nat_alt take_bit_nat_eq_self unsigned_take_bit_eq word_unat_eq_iff)
    then have "\<not> bit v k" if "6 \<le> k" for k using that by (metis bit_take_bit_iff linorder_not_less)
    then show ?thesis by (auto simp: v'_def bit_simps min_def split: if_splits intro!: bit_word_eqI)
  qed
  moreover have "c \<noteq> i" using E(1,5) B(2,3) by (auto simp: extends_def IsConst_def)
  ultimately show thesis using that [OF r E(1,2,3)] E(4,5) by simp
qed

end
