(* ===== verification/PeepholeLogic.thy ===== *)
theory PeepholeLogic
  imports PeepholeEdits
begin

unbundle bit_operations_syntax

text \<open>
  Soundness of the peephole rules of negation, absolute value, complement, minimum, maximum, remainder, multiplication and the bit
  operations, with the frame that all visitors share: what a visit asks of the graph, and the fold that comes first.
\<close>

section \<open>The visitors\<close>

text \<open>
  What a visit asks of the graph: the instruction can be folded (theory \<open>ConstFoldingSound\<close>), and an integer operation has operands, to
  the depth the rules look into them.
\<close>

definition visit_ready :: "fpu \<Rightarrow> opcode \<Rightarrow> graph \<Rightarrow> inst_id \<Rightarrow> (inst_id \<Rightarrow> u64) \<Rightarrow> bool" where
  "visit_ready fp op g i \<rho> \<longleftrightarrow>
     fold_pre fp op (arity op) g i \<rho>
     \<and> (if op \<in> {Op_Div, Op_Mod} then div_ok g i else arith_ok g i)
     \<and> (op \<in> {Op_Not, Op_And, Op_Or, Op_Xor, Op_Shl, Op_Shr, Op_AShr} \<longrightarrow> is_int_type (type_of g i))
     \<and> (op = Op_AShr \<longrightarrow> IsTypeSigned (type_of g i))
     \<and> (is_int_type (type_of g i) \<longrightarrow> (\<forall>x \<in> set (inputs (the_inst g i)). operand 2 g \<rho> i (type_of g i) x))"

lemma visit_ready_fold:
  assumes "visit_ready fp op g i \<rho>"
  shows "fold_pre fp op (arity op) g i \<rho>" "op \<noteq> Op_Div \<Longrightarrow> op \<noteq> Op_Mod \<Longrightarrow> arith_ok g i" "op = Op_Div \<or> op = Op_Mod \<Longrightarrow> div_ok g i"
    "is_int_type (type_of g i) \<Longrightarrow> x \<in> set (inputs (the_inst g i)) \<Longrightarrow> operand 2 g \<rho> i (type_of g i) x"
    "is_int_type (type_of g i) \<or> IsFloatType (type_of g i)" "type_of g i \<noteq> BOOL"
proof -
  show ok: "fold_pre fp op (arity op) g i \<rho>" "op \<noteq> Op_Div \<Longrightarrow> op \<noteq> Op_Mod \<Longrightarrow> arith_ok g i" "op = Op_Div \<or> op = Op_Mod \<Longrightarrow> div_ok g i"
    "is_int_type (type_of g i) \<Longrightarrow> x \<in> set (inputs (the_inst g i)) \<Longrightarrow> operand 2 g \<rho> i (type_of g i) x"
    using assms unfolding visit_ready_def by (simp_all split: if_splits)
  show "is_int_type (type_of g i) \<or> IsFloatType (type_of g i)" "type_of g i \<noteq> BOOL"
    using ok(2,3) by (auto simp: arith_ok_def div_ok_def)
qed

lemma visit_ready_wf:
  assumes "visit_ready fp op g i \<rho>" "arith_opcode op"
  shows "wf_graph fp g \<rho>" "i < length (insts g)" "opcode_of g i = op" "\<not> IsConst g i"
  using visit_ready_fold(1) [OF assms(1)] assms(2) by (auto simp: fold_pre_def wf_graph_def IsConst_def)

lemma visit_ready_num:
  assumes "visit_ready fp op g i \<rho>" "\<not> IsFloatType (type_of g i)"
  shows "num_type (type_of g i)"
  using visit_ready_fold(5,6) [OF assms(1)] assms(2) by simp

lemma visit_ready_visited:
  assumes "visit_ready fp op g i \<rho>" "\<not> IsFloatType (type_of g i)" "arith_opcode op"
  shows "visited fp (type_of g i) g i \<rho>"
  using visit_ready_wf [OF assms(1,3)] visit_ready_num [OF assms(1,2)] by (simp add: visited_def)

lemma visit_ready_unop:
  assumes "visit_ready fp op g i \<rho>" "\<not> IsFloatType (type_of g i)" "arity op = 1"
  shows "inputs (the_inst g i) = [GetInput g i 0]" "operand 2 g \<rho> i (type_of g i) (GetInput g i 0)"
proof -
  have "length (inputs (the_inst g i)) = 1" using visit_ready_fold(1) [OF assms(1)] assms(3) by (simp add: fold_pre_def)
  then show "inputs (the_inst g i) = [GetInput g i 0]" by (cases "inputs (the_inst g i)") (simp_all add: GetInput_def)
  then show "operand 2 g \<rho> i (type_of g i) (GetInput g i 0)" using visit_ready_fold(4) [OF assms(1)] visit_ready_num [OF assms(1,2)] by auto
qed

lemma visit_ready_bin_inst:
  assumes "visit_ready fp op g i \<rho>" "\<not> IsFloatType (type_of g i)" "arity op = 2" "arith_opcode op"
  shows "bin_inst 2 fp op (type_of g i) g i (GetInput g i 0) (GetInput g i 1) \<rho>"
proof -
  have "length (inputs (the_inst g i)) = 2" using visit_ready_fold(1) [OF assms(1)] assms(3) by (simp add: fold_pre_def)
  then obtain x y where "inputs (the_inst g i) = [x, y]" by (auto simp: length_Suc_conv eval_nat_numeral)
  then show ?thesis using visit_ready_fold(4) [OF assms(1)] visit_ready_num [OF assms(1,2)] visit_ready_wf [OF assms(1,4)] assms(4)
    by (simp add: bin_inst_def GetInput_def)
qed

text \<open>The value of a unary instruction.\<close>

lemma unop_value:
  assumes "visit_ready fp op g i \<rho>" "\<not> IsFloatType (type_of g i)" "arity op = 1" "arith_opcode op"
    "\<And>z. eval_int op (type_of g i) (\<rho> (GetInput g i 0)) z = Some v"
  shows "\<rho> i = canon (type_of g i) v"
  using arith_val [OF visit_ready_wf(1,2) [OF assms(1,4)], of v] visit_ready_wf(3) [OF assms(1,4)] visit_ready_num [OF assms(1,2)]
    visit_ready_unop(1) [OF assms(1-3)] assms(4,5) by simp

text \<open>Folding is the first step of every visitor.\<close>

lemma visit_fold:
  assumes "visit_ready fp op g i \<rho>" "arith_opcode op" "fold_ok g i \<rho> r" "r = Some (g, False) \<Longrightarrow> sound fp i g \<rho> V"
    "\<And>g'. r = Some (g', True) \<Longrightarrow> V = Some (applied g')"
  shows "sound fp i g \<rho> V"
  using visit_ready_wf(1,2) [OF assms(1,2)] assms(3)
proof (cases rule: fold_cases)
  case 1
  then show ?thesis using assms(4) by simp
next
  case 2
  then show ?thesis using assms(5) by (simp add: applied_def sound_sim)
qed

lemma fold_only:
  assumes "visit_ready fp op g i \<rho>" "arith_opcode op" "fold_ok g i \<rho> r"
  shows "sound fp i g \<rho> r"
  using visit_ready_wf(1,2) [OF assms(1,2)] assms(3)
  by (cases rule: fold_cases) (auto intro: sound_sim sound_same [OF visit_ready_wf(1) [OF assms(1,2)]])

lemma eval_int_simps [simp]:
  "eval_int Op_Neg T x y = Some (- val T x)" "eval_int Op_Not T x y = Some (NOT (val T x))" "eval_int Op_Abs T x y = Some \<bar>val T x\<bar>"
  "eval_int Op_Add T x y = Some (val T x + val T y)" "eval_int Op_Sub T x y = Some (val T x - val T y)"
  "eval_int Op_Mul T x y = Some (val T x * val T y)" "eval_int Op_Min T x y = Some (min (val T x) (val T y))"
  "eval_int Op_Max T x y = Some (max (val T x) (val T y))" "eval_int Op_And T x y = Some (val T x AND val T y)"
  "eval_int Op_Or T x y = Some (val T x OR val T y)" "eval_int Op_Xor T x y = Some (val T x XOR val T y)"
  "eval_int Op_Shl T x y = Some (val T x * 2 ^ (unat y mod type_bits T))"
  "eval_int Op_Shr T x y = Some (take_bit (type_bits T) (val T x) div 2 ^ (unat y mod type_bits T))"
  "IsTypeSigned T \<Longrightarrow> eval_int Op_AShr T x y = Some (val T x div 2 ^ (unat y mod type_bits T))"
  by (simp_all add: eval_int_def)

text \<open>The values of operands that are additions, subtractions, negations or complements.\<close>

lemma operand_values:
  assumes "wf_graph fp g \<rho>" "operand (Suc n) g \<rho> i T x" "is_int_type T"
  shows "opcode_of g x = Op_Neg \<Longrightarrow> val T (\<rho> x) = wrap T (- val T (\<rho> (GetInput g x 0)))"
    "opcode_of g x = Op_Not \<Longrightarrow> val T (\<rho> x) = wrap T (NOT (val T (\<rho> (GetInput g x 0))))"
    "opcode_of g x = Op_Add \<Longrightarrow> val T (\<rho> x) = wrap T (val T (\<rho> (GetInput g x 0)) + val T (\<rho> (GetInput g x 1)))"
    "opcode_of g x = Op_Sub \<Longrightarrow> val T (\<rho> x) = wrap T (val T (\<rho> (GetInput g x 0)) - val T (\<rho> (GetInput g x 1)))"
    "opcode_of g x = Op_Mul \<Longrightarrow> val T (\<rho> x) = wrap T (val T (\<rho> (GetInput g x 0)) * val T (\<rho> (GetInput g x 1)))"
  using operand_op [OF assms] assms(3) by (auto simp: val_canon)

lemma operand_input:
  assumes "operand (Suc n) g \<rho> i T x" "opcode_of g x = op" "arith_opcode op" "k < arity op"
  shows "operand n g \<rho> i T (GetInput g x k)"
  using operand_arith(3) [OF assms(1)] assms by simp

lemma VisitNot_sound: "visit_ready fp Op_Not g i \<rho> \<Longrightarrow> sound fp i g \<rho> (VisitNot g i)"
  unfolding VisitNot_def by (rule fold_only, assumption, simp, rule Not_ok [where fp = fp]) (simp_all add: visit_ready_def)

lemma VisitMod_sound: "visit_ready fp Op_Mod g i \<rho> \<Longrightarrow> sound fp i g \<rho> (VisitMod fp g i)"
  unfolding VisitMod_def by (rule fold_only, assumption, simp, rule Mod_ok) (simp_all add: visit_ready_def)

lemma VisitNeg_sound:
  assumes "visit_ready fp Op_Neg g i \<rho>"
  shows "sound fp i g \<rho> (VisitNeg osr g i)"
proof (rule visit_fold [OF assms arith_opcodes(1)])
  show "fold_ok g i \<rho> (ConstFoldingNeg g i)" using assms by (intro Neg_ok [of fp]) (simp_all add: visit_ready_def)
  let ?T = "type_of g i" and ?x = "GetInput g i 0"
  note wf = visit_ready_wf(1) [OF assms arith_opcodes(1)]
  assume fold: "ConstFoldingNeg g i = Some (g, False)"
  show "sound fp i g \<rho> (VisitNeg osr g i)"
  proof (cases "IsFloatType ?T")
    case True
    then show ?thesis using wf fold by (simp add: VisitNeg_def kept_def sound_same)
  next
    case False
    note T = visit_ready_num [OF assms False]
    have x: "operand (Suc 1) g \<rho> i ?T ?x" using visit_ready_unop(2) [OF assms False] by (simp add: numeral_2_eq_2)
    note i = visit_ready_visited [OF assms False arith_opcodes(1)]
    have v: "\<rho> i = canon ?T (- val ?T (\<rho> ?x))" by (rule unop_value [OF assms False]) simp_all
    have neg: "sound fp i g \<rho> (Some (applied (ReplaceUsers g i (GetInput g ?x 0))))" if "opcode_of g ?x = Op_Neg"
    proof -
      note y = operand_input [OF x that]
      have "\<rho> i = canon ?T (val ?T (\<rho> (GetInput g ?x 0)))"
        unfolding v operand_values(1) [OF wf x conjunct1 [OF T] that] using T by (intro canonI) (simp add: wrap_ring)
      then have "\<rho> (GetInput g ?x 0) = \<rho> i" using operand_val(1) [OF wf y] T by simp
      with y show ?thesis unfolding applied_def using wf by (intro sound_sim [OF sim_replace]) (auto dest: operandD(1))
    qed
    have sub: "sound fp i g \<rho> (Some (applied (fst (CreateAndInsertInst g Op_Sub i [GetInput g ?x 1, GetInput g ?x 0]))))"
      if "opcode_of g ?x = Op_Sub"
    proof (rule create_sound [OF i])
      show "\<rho> i = canon ?T (val ?T (\<rho> (GetInput g ?x 1)) - val ?T (\<rho> (GetInput g ?x 0)))"
        unfolding v operand_values(4) [OF wf x conjunct1 [OF T] that] using T by (intro canonI) (simp add: wrap_ring)
    qed (use operand_input [OF x that, of 0] operand_input [OF x that, of 1] in \<open>auto dest: operandD(1,2)\<close>)
    show ?thesis using False neg sub fold sound_same [OF wf] by (simp add: VisitNeg_def kept_def Let_def)
  qed
qed (simp add: VisitNeg_def)

lemma VisitAbs_sound:
  assumes "visit_ready fp Op_Abs g i \<rho>"
  shows "sound fp i g \<rho> (VisitAbs osr g i)"
proof (cases "IsTypeSigned (type_of g i)")
  case True
  then show ?thesis unfolding VisitAbs_def using assms
    by (auto simp: visit_ready_def intro!: fold_only [OF assms] Abs_ok)
next
  case False
  let ?T = "type_of g i" and ?x = "GetInput g i 0"
  note wf = visit_ready_wf(1) [OF assms arith_opcodes(2)]
  have F: "\<not> IsFloatType ?T" using False by (auto simp: IsTypeSigned_def IsFloatType_def)
  note T = visit_ready_num [OF assms F]
  note x = visit_ready_unop(2) [OF assms F]
  have "0 \<le> val ?T (\<rho> ?x)" using False by (simp add: val_def wrap_def)
  moreover have "\<rho> i = canon ?T \<bar>val ?T (\<rho> ?x)\<bar>" by (rule unop_value [OF assms F]) simp_all
  ultimately have "\<rho> ?x = \<rho> i" using operand_val(1) [OF wf x] T by simp
  then have "sound fp i g \<rho> (Some (applied (ReplaceUsers g i ?x)))" unfolding applied_def
    using operandD(1) [OF x] wf by (intro sound_sim [OF sim_replace]) simp_all
  then show ?thesis using False wf by (simp add: VisitAbs_def kept_def sound_same)
qed

subsection \<open>Swapped constants, minimum and maximum\<close>

definition commutes :: "opcode \<Rightarrow> bool" where
  "commutes op \<longleftrightarrow> op \<in> {Op_Add, Op_And, Op_Or, Op_Xor, Op_Min, Op_Max, Op_Mul}"

lemma commutes_ops [simp]:
  "commutes Op_Add" "commutes Op_And" "commutes Op_Or" "commutes Op_Xor" "commutes Op_Min" "commutes Op_Max" "commutes Op_Mul"
  by (simp_all add: commutes_def)

lemma eval_int_commute: "commutes op \<Longrightarrow> eval_int op T x y = eval_int op T y x"
  by (auto simp: commutes_def add.commute mult.commute min.commute max.commute and.commute or.commute xor.commute)

lemma TrySwapInputs_sound:
  assumes "bin_inst n fp op T g i x y \<rho>" "commutes op"
  obtains g' a x' y' where "TrySwapInputs g i = Some (g', a)" "sim fp i g \<rho> g' \<rho>" "bin_inst n fp op T g' i x' y' \<rho>"
    "a \<longleftrightarrow> IsConst g x" "g' = (if a then swap_inputs g i else g)"
    "\<forall>z. z \<noteq> i \<longrightarrow> the_inst g' z = the_inst g z" "{x', y'} = {x, y}"
proof -
  note B = bin_instD [OF assms(1)]
  have op: "op \<in> {Op_Add, Op_And, Op_Or, Op_Xor, Op_Min, Op_Max, Op_Mul, Op_AddOverflowCheck}" using assms(2) by (auto simp: commutes_def)
  obtain v where v: "eval_int op T (\<rho> x) (\<rho> y) = Some v" "\<rho> i = canon T v"
    using assms(2) bin_inst_value [OF assms(1)] by (fastforce simp: commutes_def)
  show thesis
  proof (cases "IsConst g x")
    case True
    have s: "swap_inputs g i = put g i op y x" using put_eqs(6) [OF assms(1)] .
    have v': "eval_int op T (\<rho> y) (\<rho> x) = Some v" using v(1) eval_int_commute [OF assms(2)] by simp
    note P = put_bin_inst [OF assms(1) B(4,11,10) v' v(2)]
    have "TrySwapInputs g i = Some (put g i op y x, True)" using True op B(3,8) s by (simp add: TrySwapInputs_def applied_def)
    moreover have "x \<noteq> i" using operandD(2) [OF B(10)] .
    ultimately show thesis using that [OF _ P] True s B(2) by (auto simp: put_def IsConst_def)
  next
    case False
    then have "TrySwapInputs g i = Some (g, False)" using op B(3,8) by (simp add: TrySwapInputs_def kept_def)
    then show thesis using that [OF _ sim_refl [OF B(1)] assms(1)] False by auto
  qed
qed

lemma Min_Max_sound:
  assumes "visit_ready fp op g i \<rho>" "\<not> IsFloatType (type_of g i)" "op = Op_Min \<or> op = Op_Max"
  shows "sound fp i g \<rho> (TrySwapInputs g i)"
proof -
  have "arity op = 2" "arith_opcode op" "commutes op" using assms(3) by (auto simp: commutes_def)
  then show ?thesis using TrySwapInputs_sound [OF visit_ready_bin_inst [OF assms(1,2)]] sound_sim by metis
qed

lemma VisitMin_sound:
  assumes "visit_ready fp Op_Min g i \<rho>"
  shows "sound fp i g \<rho> (VisitMin g i)"
proof (rule visit_fold [OF assms])
  show "fold_ok g i \<rho> (ConstFoldingMin g i)" using assms by (intro Min_ok [of fp]) (simp_all add: visit_ready_def)
  show "sound fp i g \<rho> (VisitMin g i)" if "ConstFoldingMin g i = Some (g, False)"
    using that Min_Max_sound [OF assms] visit_ready_wf(1) [OF assms] by (simp add: VisitMin_def kept_def sound_same)
qed (simp_all add: VisitMin_def)

lemma VisitMax_sound:
  assumes "visit_ready fp Op_Max g i \<rho>"
  shows "sound fp i g \<rho> (VisitMax g i)"
proof (rule visit_fold [OF assms])
  show "fold_ok g i \<rho> (ConstFoldingMax g i)" using assms by (intro Max_ok [of fp]) (simp_all add: visit_ready_def)
  show "sound fp i g \<rho> (VisitMax g i)" if "ConstFoldingMax g i = Some (g, False)"
    using that Min_Max_sound [OF assms] visit_ready_wf(1) [OF assms] by (simp add: VisitMax_def kept_def sound_same)
qed (simp_all add: VisitMax_def)

subsection \<open>Multiplication\<close>

text \<open>\<^verbatim>\<open>GetPowerOfTwo\<close> finds the exponent.\<close>

lemma nat_power_of_two: "0 < n \<Longrightarrow> n AND (n - 1) = 0 \<Longrightarrow> \<exists>k. n = 2 ^ k" for n :: nat
proof (induction n rule: less_induct)
  case (less n)
  show ?case
  proof (cases "even n")
    case True
    then obtain m where m: "n = 2 * m" by blast
    with less.prems(1) have "0 < m" by simp
    then have d: "(2 * m - Suc 0) div 2 = m - Suc 0" by simp
    have "n AND (n - 1) = 2 * (m AND (m - 1))" unfolding m by (subst and_rec) (simp add: d)
    then have "m AND (m - 1) = 0" using less.prems(2) by simp
    then obtain k where "m = 2 ^ k" using less.IH [of m] m \<open>0 < m\<close> by auto
    with m show ?thesis by (intro exI [of _ "Suc k"]) simp
  next
    case False
    then obtain m where m: "n = 2 * m + 1" using oddE by blast
    have "n AND (n - 1) = 2 * m" unfolding m by (subst and_rec) simp
    with less.prems(2) m show ?thesis by (intro exI [of _ 0]) simp
  qed
qed

lemma count_shifts_power: "k < 64 \<Longrightarrow> count_shifts (2 ^ k) r = r + 1 + int k"
proof (induction k arbitrary: r)
  case 0
  show ?case by (subst count_shifts.simps) (simp add: count_shifts.simps)
next
  case (Suc k)
  have z: "(2 ^ Suc k :: u64) \<noteq> 0" using Suc.prems unfolding exp_eq_zero_iff by simp
  have "drop_bit 1 (2 ^ Suc k :: u64) = 2 ^ k" using Suc.prems z
    by (intro bit_word_eqI) (simp only: bit_drop_bit_eq comp_apply bit_exp_iff possible_bit_def, auto)
  then show ?case using Suc z by (subst count_shifts.simps) simp
qed

lemma GetPowerOfTwo_power:
  assumes "GetPowerOfTwo w \<noteq> - 1"
  obtains k where "k < 64" "w = 2 ^ k" "GetPowerOfTwo w = int k"
proof -
  have w: "w \<noteq> 0" "w AND (w - 1) = 0" using assms by (auto simp: GetPowerOfTwo_def split: if_splits)
  have "unat w AND (unat w - 1) = unat (w AND (w - 1))" using w(1) by (simp add: unsigned_and_eq unat_minus_one)
  then obtain k where k: "unat w = 2 ^ k" using nat_power_of_two [of "unat w"] w by (auto simp: unat_gt_0)
  have "(2::nat) ^ k < 2 ^ LENGTH(64)" using unsigned_less [of w, where 'a = nat] unfolding k .
  then have "k < 64" by (simp only: power_strict_increasing_iff) simp
  moreover have "w = 2 ^ k" using k by (metis of_nat_numeral of_nat_power of_nat_unat ucast_id)
  ultimately show thesis using that [of k] w count_shifts_power [of k "- 1"] by (simp add: GetPowerOfTwo_def)
qed

lemma small_word: "k < 64 \<Longrightarrow> (of_nat k :: u64) < 64" "k < 64 \<Longrightarrow> unat (of_nat k :: u64) = k"
proof -
  assume k: "k < 64"
  then have "k < 2 ^ 64" by (rule less_trans) simp
  then show u: "unat (of_nat k :: u64) = k" by (simp add: unsigned_of_nat take_bit_nat_eq_self)
  show "(of_nat k :: u64) < 64" using k by (simp add: word_less_nat_alt u)
qed

lemma canonical_power:
  assumes "num_type T" "canonical T (2 ^ k)" "k < 64"
  shows "k < type_bits T" "val T (2 ^ k) = wrap T (2 ^ k)"
proof -
  have p: "(2 ^ k :: u64) = word_of_int (2 ^ k)" by simp
  show v: "val T (2 ^ k) = wrap T (2 ^ k)" unfolding val_def p using assms(1) by (simp only: wrap_word_int not_False_eq_True)
  show "k < type_bits T"
  proof (rule ccontr)
    assume "\<not> k < type_bits T"
    then have "wrap T (2 ^ k) = wrap T 0" using assms(1) by (intro wrap_cong) (simp_all add: take_bit_of_exp)
    moreover have "wrap T 0 = 0" by (simp add: wrap_def)
    ultimately have "(2 ^ k :: u64) = 0" using assms(2) v by (simp add: canonical_def)
    then show False using assms(3) unfolding exp_eq_zero_iff by simp
  qed
qed

text \<open>Two constants of a sum, a difference or a product become one.\<close>

lemma const_operand:
  assumes "bin_inst (Suc n) fp op T g i x y \<rho>" "opcode_of g x = op'" "arith_opcode op'" "arity op' = 2"
  shows "operand n g \<rho> i T (GetInput g x 0)" "operand n g \<rho> i T (GetInput g x 1)" "type_of g x = T"
  using operand_input [OF bin_instD(10) [OF assms(1)] assms(2,3)] operand_arith(1) [OF bin_instD(10) [OF assms(1)]] assms by simp_all

lemma TryCombineConst_sound:
  assumes "bin_inst (Suc n) fp op T g i x y \<rho>" "opcode_of g x = op'" "arith_opcode op'" "arity op' = 2" "IsConst g y"
    "op \<in> {Op_Add, Op_Sub, Op_Mul}"
    "\<And>c. IsConst g (GetInput g x 1) \<Longrightarrow> val T c = val T (combine (\<rho> y) (\<rho> (GetInput g x 1))) \<Longrightarrow> eval_int op T (\<rho> (GetInput g x 0)) c = Some (v c) \<and> \<rho> i = canon T (v c)"
  shows "\<exists>g' a b \<rho>'. TryCombineConst osr g i y combine fcombine = Some (g', a, b) \<and> sim fp i g \<rho> g' \<rho>' \<and> (\<not> a \<longrightarrow> g' = g)"
proof -
  note B = bin_instD [OF assms(1)]
  note X = const_operand [OF assms(1-4)]
  let ?z = "GetInput g x 0" and ?c = "GetInput g x 1"
  show ?thesis
  proof (cases "IsConst g ?c \<and> \<not> SkipThisPeepholeInOSR osr g i ?z")
    case False
    then show ?thesis using sim_refl [OF B(1)] B(8) by (auto simp: TryCombineConst_def Let_def)
  next
    case True
    have y: "GetIntValue g y = \<rho> y" "GetIntValue g ?c = \<rho> ?c" using operand_val(2) [OF B(1)] X(2) B(6,11) True assms(5) by blast+
    obtain g' c \<rho>' where C: "ConstFoldingCreateIntConst g i (combine (\<rho> y) (\<rho> ?c)) False = (g', c)" "extends g \<rho> g' \<rho>'" "wf_graph fp g' \<rho>'"
      "c < length (insts g')" "val T (\<rho>' c) = val T (combine (\<rho> y) (\<rho> ?c))"
      by (rule CreateIntConst_sound [OF bin_inst_visited [OF assms(1)]])
    note E = bin_inst_extends [OF assms(1) C(2,3)]
    have z: "\<rho>' ?z = \<rho> ?z" "?z < length (insts g')" "\<rho>' i = \<rho> i" "GetInput g' x 0 = ?z"
      using C(2) operandD(1) [OF X(1)] operandD(1) [OF B(10)] B(2) by (auto simp: extends_def GetInput_def)
    have "sim fp i g' \<rho>' (put g' i op ?z c) \<rho>'"
      using assms(7) [OF conjunct1 [OF True] C(5)] z C(4) by (intro put_sim [OF E(2) B(4)]) auto
    then have "sim fp i g \<rho> (put g' i op ?z c) \<rho>'" using E(1) sim_trans by blast
    moreover have "TryCombineConst osr g i y combine fcombine = Some (put g' i op ?z c, True, False)"
      using True X(3) B(5,8) operandD(4) [OF B(11)] y C(1) put_eqs(4) [OF E(2)] z(4) by (simp add: TryCombineConst_def)
    ultimately show ?thesis by blast
  qed
qed

lemma TryCombineMulConst_sound:
  assumes "bin_inst (Suc n) fp Op_Mul T g i x y \<rho>" "opcode_of g x = Op_Mul" "IsConst g y"
  shows "\<exists>g' a b \<rho>'. TryCombineMulConst fp osr g i y = Some (g', a, b) \<and> sim fp i g \<rho> g' \<rho>' \<and> (\<not> a \<longrightarrow> g' = g)"
proof -
  note B = bin_instD [OF assms(1)]
  have x: "val T (\<rho> x) = wrap T (val T (\<rho> (GetInput g x 0)) * val T (\<rho> (GetInput g x 1)))"
    using operand_values(5) [OF B(1,10,6) assms(2)] .
  have "\<exists>g' a b \<rho>'. TryCombineConst osr g i y (\<lambda>x y. x * y) (fp_mul fp) = Some (g', a, b) \<and> sim fp i g \<rho> g' \<rho>' \<and> (\<not> a \<longrightarrow> g' = g)"
  proof (rule TryCombineConst_sound [OF assms(1,2) _ _ assms(3)])
    fix c
    assume c: "val T c = val T (\<rho> y * \<rho> (GetInput g x 1))"
    have "val T (\<rho> y * \<rho> (GetInput g x 1)) = wrap T (val T (\<rho> y) * val T (\<rho> (GetInput g x 1)))"
      using wrap_word_int [of T "sint (\<rho> y) * sint (\<rho> (GetInput g x 1))"] B(6,7) by (simp add: val_def wrap_ring)
    then have "canon T (val T (\<rho> x) * val T (\<rho> y)) = canon T (val T (\<rho> (GetInput g x 0)) * val T c)"
      unfolding x c using B(6,7) by (intro canonI) (simp add: wrap_ring ac_simps)
    then show "eval_int Op_Mul T (\<rho> (GetInput g x 0)) c = Some (val T (\<rho> (GetInput g x 0)) * val T c)
        \<and> \<rho> i = canon T (val T (\<rho> (GetInput g x 0)) * val T c)"
      using bin_inst_value [OF assms(1)] by simp
  qed simp_all
  then show ?thesis using B(3) by (simp add: TryCombineMulConst_def)
qed

lemma VisitMulOneConst_sound:
  assumes "bin_inst n fp Op_Mul T g i x y \<rho>"
  shows "sound fp i g \<rho> (Some (VisitMulOneConst osr g i x y))"
proof (cases "IsConst g y")
  case True
  note B = bin_instD [OF assms]
  have x: "x < length (insts g)" "x \<noteq> i" "canon T (val T (\<rho> x)) = \<rho> x"
    using operandD(1,2) [OF B(10)] operand_val(1) [OF B(1,10,6)] by auto
  have i: "\<rho> i = canon T (val T (\<rho> x) * val T (\<rho> y))" using bin_inst_value [OF assms] by simp
  have c: "\<rho> i = canon T (val T (\<rho> x) * v)" if "IsEqualConstAllTypes g y v" for v
  proof -
    have "val T (\<rho> y) = wrap T v" using operand_val(3) [OF B(1,11,6) True that] B(6,7) by (simp add: val_def wrap_word_int)
    then show ?thesis unfolding i using B(6,7) by (intro canonI) (simp add: wrap_ring)
  qed
  note mk = create_sound [OF bin_inst_visited [OF assms]]
  have 1: "sound fp i g \<rho> (Some (applied (ReplaceUsers g i x)))" if "IsEqualConstAllTypes g y 1"
    unfolding applied_def using c [OF that] x by (intro sound_sim [OF bin_inst_replace(1) [OF assms]]) simp_all
  have 2: "sound fp i g \<rho> (Some (applied (fst (CreateAndInsertInst g Op_Neg i [x]))))" if "IsEqualConstAllTypes g y (- 1)"
    using c [OF that] x by (intro mk) simp_all
  have 3: "sound fp i g \<rho> (Some (applied (fst (CreateAndInsertInst g Op_Add i [x, x]))))" if "IsEqualConstAllTypes g y 2"
    using c [OF that] x by (intro mk) simp_all
  have 4: "sound fp i g \<rho> (Some (let (g, power) = ConstFoldingCreateIntConst g i (word_of_int (GetPowerOfTwo (GetIntValue g y))) False
      in applied (fst (CreateAndInsertInst g Op_Shl i [x, power]))))" if "GetPowerOfTwo (GetIntValue g y) \<noteq> - 1"
  proof -
    from that obtain k where k: "k < 64" "\<rho> y = 2 ^ k" "GetPowerOfTwo (GetIntValue g y) = int k"
      using GetPowerOfTwo_power operand_val(2) [OF B(1,11,6) True] by metis
    obtain g' c \<rho>' where C: "ConstFoldingCreateIntConst g i (of_nat k) False = (g', c)" "extends g \<rho> g' \<rho>'" "wf_graph fp g' \<rho>'"
      "c < length (insts g')" "(of_nat k :: u64) < 64 \<longrightarrow> \<rho>' c = of_nat k" "c \<noteq> i"
      by (rule CreateIntConst_sound [OF bin_inst_visited [OF assms], of "of_nat k"])
    note E = bin_inst_extends [OF assms C(2,3)]
    note p = canonical_power [OF conjI [OF B(6,7)] operandD(3) [OF B(11), unfolded k(2)] k(1)]
    have u: "unat (\<rho>' c) mod type_bits T = k" using C(5) small_word [OF k(1)] p(1) by simp
    have x': "\<rho>' x = \<rho> x" "\<rho>' i = \<rho> i" "x < length (insts g')" using C(2) x(1) B(2) by (auto simp: extends_def)
    have "sound fp i g' \<rho>' (Some (applied (fst (CreateAndInsertInst g' Op_Shl i [x, c]))))"
    proof (rule create_sound [OF bin_inst_visited [OF E(2)]])
      show "\<rho>' i = canon T (val T (\<rho>' x) * 2 ^ (unat (\<rho>' c) mod type_bits T))"
        unfolding x' u i k(2) p(2) using B(6,7) by (intro canonI) (simp add: wrap_ring)
    qed (use x x' C(4,6) in simp_all)
    then show ?thesis using sound_step [OF E(1)] C(1) k(3) by simp
  qed
  show ?thesis using True 1 2 3 4 sound_same [OF B(1)] by (simp add: VisitMulOneConst_def kept_def Let_def)
next
  case False
  then show ?thesis using sound_same [OF bin_instD(1) [OF assms]] by (simp add: VisitMulOneConst_def kept_def Let_def)
qed

lemma VisitMul_sound:
  assumes "visit_ready fp Op_Mul g i \<rho>"
  shows "sound fp i g \<rho> (VisitMul fp osr g i)"
proof (rule visit_fold [OF assms])
  show "fold_ok g i \<rho> (ConstFoldingMul fp g i)" using assms by (intro Mul_ok) (simp_all add: visit_ready_def)
  assume fold: "ConstFoldingMul fp g i = Some (g, False)"
  show "sound fp i g \<rho> (VisitMul fp osr g i)"
  proof (cases "IsFloatType (type_of g i)")
    case True
    then show ?thesis using visit_ready_wf(1) [OF assms] fold by (simp add: VisitMul_def kept_def sound_same)
  next
    case False
    have "bin_inst (Suc 1) fp Op_Mul (type_of g i) g i (GetInput g i 0) (GetInput g i 1) \<rho>"
      using visit_ready_bin_inst [OF assms False] by (simp add: numeral_2_eq_2)
    then obtain g1 a x y where S: "TrySwapInputs g i = Some (g1, a)" "sim fp i g \<rho> g1 \<rho>" "bin_inst (Suc 1) fp Op_Mul (type_of g i) g1 i x y \<rho>"
      by (rule TrySwapInputs_sound [OF _ commutes_ops(7)])
    note B = bin_instD [OF S(3)]
    have "sound fp i g1 \<rho> (do {
        (g, combined, osrBlocked) \<leftarrow>
          (if IsConst g1 y \<and> opcode_of g1 x = Op_Mul then TryCombineMulConst fp osr g1 i y else Some (g1, False, False));
        if combined then Some (applied g)
        else if osrBlocked then Some (g, a)
        else let (g, b) = VisitMulOneConst osr g i x y in Some (g, a \<or> b) })"
    proof (cases "IsConst g1 y \<and> opcode_of g1 x = Op_Mul")
      case True
      then obtain g' c b \<rho>' where C: "TryCombineMulConst fp osr g1 i y = Some (g', c, b)" "sim fp i g1 \<rho> g' \<rho>'" "\<not> c \<longrightarrow> g' = g1"
        using TryCombineMulConst_sound [OF S(3)] by blast
      then show ?thesis using True VisitMulOneConst_sound [OF S(3), of osr] sound_same [OF B(1)] sound_sim [OF C(2)]
        by (cases c; cases b; cases "VisitMulOneConst osr g1 i x y") (auto simp: applied_def sound_def)
    next
      case False
      then show ?thesis using VisitMulOneConst_sound [OF S(3), of osr]
        by (cases "VisitMulOneConst osr g1 i x y") (auto simp: sound_def)
    qed
    then show ?thesis using sound_step [OF S(2)] S(1) fold False B(8,9) by (simp add: VisitMul_def)
  qed
qed (simp_all add: VisitMul_def)

subsection \<open>Bit operations\<close>

text \<open>De Morgan's laws.\<close>

lemma map_renamed_fresh:
  assumes "wf_inputs g"
  shows "map (renamed (length (insts g)) m) (insts g) = insts g"
proof (rule map_idI)
  fix s
  assume "s \<in> set (insts g)"
  then have "\<forall>x \<in> set (inputs s). x \<noteq> length (insts g)" using assms by (fastforce simp: wf_inputs_def in_set_conv_nth)
  then have "map (\<lambda>y. if y = length (insts g) then m else y) (inputs s) = inputs s" by (simp add: map_idI)
  then show "renamed (length (insts g)) m s = s" by (simp add: renamed_def)
qed

lemma renamed_comp:
  assumes "wf_inputs g"
  shows "map (renamed (length (insts g)) m) (map (renamed i (length (insts g))) (insts g)) = map (renamed i m) (insts g)"
proof -
  have "renamed (length (insts g)) m (renamed i (length (insts g)) s) = renamed i m s" if "s \<in> set (insts g)" for s
  proof -
    have "\<forall>x \<in> set (inputs s). x \<noteq> length (insts g)" using assms that by (fastforce simp: wf_inputs_def in_set_conv_nth)
    then show ?thesis by (simp add: renamed_def comp_def)
  qed
  then show ?thesis by simp
qed

text \<open>A new instruction \<open>s\<close> is added, then another one that reads it takes over the users of \<open>i\<close>.\<close>

lemma sim_created2:
  assumes "visited fp T g i \<rho>" "insts g' = map (renamed i (Suc (length (insts g)))) (insts g) @ [s, t]" "constList g' = constList g"
    "GetOpcode s \<noteq> Op_Constant" "\<forall>x \<in> set (inputs s). x < length (insts g) \<and> x \<noteq> i" "\<And>w. eval_op fp s (map \<rho> (inputs s)) = Some w \<Longrightarrow> v = w"
    "GetOpcode t \<noteq> Op_Constant" "\<forall>x \<in> set (inputs t). x \<le> length (insts g) \<and> x \<noteq> i"
    "\<And>w. eval_op fp t (map (\<rho>(length (insts g) := v)) (inputs t)) = Some w \<Longrightarrow> \<rho> i = w"
  shows "sim fp i g \<rho> g' (\<rho>(length (insts g) := v, Suc (length (insts g)) := \<rho> i))"
proof -
  note V = visitedD [OF assms(1)]
  let ?g = "g\<lparr>insts := insts g @ [s]\<rparr>" and ?\<rho> = "\<rho>(length (insts g) := v)"
  have ins: "\<forall>x \<in> set (inputs s). x < length (insts g)" using assms(5) by blast
  have A: "extends g \<rho> ?g ?\<rho>" "wf_graph fp ?g ?\<rho>" using append_extends [OF V(1) assms(4) ins assms(6)] by auto
  have "map (\<lambda>y. if y = i then Suc (length (insts g)) else y) (inputs s) = inputs s" using assms(5) by (simp add: map_idI)
  then have "renamed i (Suc (length (insts g))) s = s" by (simp add: renamed_def)
  then have "sim fp i ?g ?\<rho> g' (?\<rho>(length (insts ?g) := ?\<rho> i))"
    using assms(2,3,7,8,9) V(2) by (intro sim_created [OF A(2)]) (auto simp: less_Suc_eq_le)
  then show ?thesis using sim_trans [OF extends_sim [OF A(1) V(1) A(2)]] V(2) by simp
qed

lemma renamed_id: "i \<notin> set (inputs s) \<Longrightarrow> renamed i m s = s"
proof -
  assume "i \<notin> set (inputs s)"
  then have "map (\<lambda>y. if y = i then m else y) (inputs s) = inputs s" by (auto intro: map_idI)
  then show ?thesis by (simp add: renamed_def)
qed

lemma de_morgan_sound:
  assumes "bin_inst (Suc n) fp op T g i x y \<rho>" "opcode_of g x = Op_Not" "opcode_of g y = Op_Not"
    "op = Op_And \<and> dual = Op_Or \<or> op = Op_Or \<and> dual = Op_And"
  shows "sound fp i g \<rho> (Some (de_morgan osr g i dual x y))"
proof -
  note B = bin_instD [OF assms(1)]
  let ?a = "GetInput g x 0" and ?b = "GetInput g y 0" and ?n = "length (insts g)"
  have dual: "arith_opcode dual" "dual \<noteq> Op_Constant" using assms(4) by auto
  have ab: "operand n g \<rho> i T ?a" "operand n g \<rho> i T ?b" using operand_input [OF B(10) assms(2)] operand_input [OF B(11) assms(3)] by simp_all
  note l = operandD(1,2) [OF ab(1)] operandD(1,2) [OF ab(2)]
  obtain g1 n1 where 1: "CreateAndInsertInst g dual i [?a, ?b] = (g1, n1)" by fastforce
  note C = Create_insts [OF 1 B(2)]
  have n1: "n1 < length (insts g1)" "type_of g1 n1 = T" using C(1,6) B(5) by (simp_all add: nth_append)
  obtain g2 n2 where 2: "CreateAndInsertInst g1 Op_Not n1 [n1] = (g2, n2)" by fastforce
  note D = Create_insts [OF 2 n1(1)]
  define s where "s = (new_inst dual T [?a, ?b])\<lparr>GetBasicBlock := GetBasicBlock (the_inst g i)\<rparr>"
  define t where "t = (new_inst Op_Not T [n1])\<lparr>GetBasicBlock := GetBasicBlock (the_inst g1 n1)\<rparr>"
  obtain v where v: "eval_int dual T (\<rho> ?a) (\<rho> ?b) = Some v" "\<rho> i = canon T (NOT v)"
  proof -
    note x = operand_values(2) [OF B(1,10,6) assms(2)] and y = operand_values(2) [OF B(1,11,6) assms(3)]
    from assms(4) show thesis
    proof
      assume op: "op = Op_And \<and> dual = Op_Or"
      have "canon T (val T (\<rho> x) AND val T (\<rho> y)) = canon T (NOT (val T (\<rho> ?a) OR val T (\<rho> ?b)))"
        unfolding x y using B(6,7) by (intro canonI) (simp add: wrap_ring)
      then show thesis using that op bin_inst_value [OF assms(1)] by simp
    next
      assume op: "op = Op_Or \<and> dual = Op_And"
      have "canon T (val T (\<rho> x) OR val T (\<rho> y)) = canon T (NOT (val T (\<rho> ?a) AND val T (\<rho> ?b)))"
        unfolding x y using B(6,7) by (intro canonI) (simp add: wrap_ring)
      then show thesis using that op bin_inst_value [OF assms(1)] by simp
    qed
  qed
  have "map (renamed n1 n2) (insts g1) = map (renamed i n2) (insts g) @ [s]"
    using C(1,6) renamed_comp [OF wf_graph_inputs [OF B(1)], of n2 i] l B(5) by (simp add: s_def renamed_id)
  then have g2: "insts g2 = map (renamed i (Suc ?n)) (insts g) @ [s, t]" using D(1,6) C(1,6) n1(2) by (simp add: t_def)
  have "sim fp i g \<rho> g2 (\<rho>(?n := canon T v, Suc ?n := \<rho> i))"
  proof (rule sim_created2 [OF bin_inst_visited [OF assms(1)] g2])
    show "constList g2 = constList g" using C(2) D(2) by simp
    show "canon T v = w" if "eval_op fp s (map \<rho> (inputs s)) = Some w" for w
      using that new_inst_value [OF dual(1) B(6) _ , of fp "[?a, ?b]" "[\<rho> ?a, \<rho> ?b]" w v] v(1) by (simp add: s_def eval_op_block)
    show "\<rho> i = w" if "eval_op fp t (map (\<rho>(?n := canon T v)) (inputs t)) = Some w" for w
    proof -
      have "w = canon T (NOT (val T (canon T v)))"
        using that C(1) by (intro new_inst_value [OF arith_opcodes(3) B(6), of fp "[n1]" "[canon T v]"]) (simp_all add: t_def eval_op_block)
      also have "\<dots> = canon T (NOT v)" using B(6,7) by (intro canonI) (simp add: val_canon wrap_ring)
      finally show ?thesis using v(2) by simp
    qed
  qed (use l B(2) C(1) dual in \<open>auto simp: s_def t_def\<close>)
  then have "sound fp i g \<rho> (Some (applied g2))" unfolding applied_def by (rule sound_sim)
  then show ?thesis using 1 2 sound_same [OF B(1)] by (simp add: de_morgan_def kept_def Let_def)
qed

text \<open>A cast takes over the users.\<close>

definition created_cast :: "graph \<Rightarrow> inst_id \<Rightarrow> inst_id \<Rightarrow> ir_type \<Rightarrow> graph" where
  "created_cast g i x t =
     (let (g, cast) = CreateAndInsertInst g Op_Cast i [x]; g = SetType g cast t in SetOperandsType g cast (type_of g x))"

lemma created_cast_sound:
  assumes "visited fp T g i \<rho>" "x < length (insts g)" "x \<noteq> i" "is_int_type (type_of g x)" "is_int_type t"
    "\<rho> i = canon t (val (type_of g x) (\<rho> x))"
  shows "sound fp i g \<rho> (Some (applied (created_cast g i x t)))"
proof -
  note V = visitedD [OF assms(1)]
  obtain g1 c where 1: "CreateAndInsertInst g Op_Cast i [x] = (g1, c)" by fastforce
  note C = Create_insts [OF 1 V(2)]
  define s where "s = (new_inst Op_Cast T [x])\<lparr>GetBasicBlock := GetBasicBlock (the_inst g i), GetType := t, operandsType := type_of g x\<rparr>"
  have "type_of g1 x = type_of g x" "x \<noteq> c" using assms(2) C(1,6) by (simp_all add: nth_append)
  then have "created_cast g i x t = g1\<lparr>insts := map (renamed i (length (insts g))) (insts g) @ [s]\<rparr>"
    using 1 C(1,6) V(4) assms(2) by (simp add: created_cast_def s_def SetType_def SetOperandsType_def update_inst_def nth_append list_update_append)
  moreover have "sim fp i g \<rho> (g1\<lparr>insts := map (renamed i (length (insts g))) (insts g) @ [s]\<rparr>) (\<rho>(length (insts g) := \<rho> i))"
  proof (rule sim_created [OF V(1,2)])
    fix w
    assume "eval_op fp s (map \<rho> (inputs s)) = Some w"
    then show "\<rho> i = w" using assms(4-6) by (simp add: eval_op_def s_def eval_cast_def)
  qed (use C(2) assms(2,3) in \<open>auto simp: s_def\<close>)
  ultimately show ?thesis unfolding applied_def by (simp add: sound_sim)
qed

lemma u16_mask:
  assumes "num_type T'" "16 < type_bits T'" "T \<in> {UINT16, UINT32, INT32}"
  shows "canon T (val T (canon T' q) AND 0xFFFF) = canon UINT16 q"
proof -
  have T: "num_type T" using assms(3) by auto
  have m: "(0xFFFF :: int) = mask 16" by (simp add: mask_eq_exp_minus_1)
  have "wrap T' q AND mask 16 = take_bit 16 q"
    using assms(1,2) by (cases T') (auto simp: wrap_def IsTypeSigned_def bit_simps min_def intro!: bit_eqI)
  note low = this
  have "take_bit 16 q < 2 ^ 16" using take_bit_int_less_exp [of 16 q] by simp
  moreover have "- (2 ^ 31) \<le> take_bit 16 q" by (rule order_trans [OF _ take_bit_nonnegative]) simp
  ultimately have "signed_take_bit 31 (take_bit 16 q) = take_bit 16 q" by (intro signed_take_bit_int_eq_self) simp_all
  then have "wrap T (take_bit 16 q) = wrap UINT16 q"
    using assms(3) by (auto simp: wrap_def IsTypeSigned_def)
  then have "wrap T (wrap T (sint (word_of_int (wrap T' q) :: u64)) AND mask 16) = wrap UINT16 q"
    using T low wrap_word_int by (simp add: wrap_ring)
  then show ?thesis by (simp add: canon_def val_def m)
qed

text \<open>Neutral and repeated operands.\<close>

lemma neutral_sound:
  assumes "bin_inst n fp op T g i x y \<rho>" "eval_int op T (\<rho> x) (\<rho> y) = Some v" "wrap T v = val T (\<rho> x)"
  shows "sound fp i g \<rho> (Some (applied (ReplaceUsers g i x)))"
proof -
  note B = bin_instD [OF assms(1)]
  have "\<rho> i = word_of_int (val T (\<rho> x))" using bin_inst_value [OF assms(1,2)] assms(3) by (simp add: canon_def)
  then have "\<rho> x = \<rho> i" using canonicalD [OF operandD(3) [OF B(10)]] by simp
  then show ?thesis unfolding applied_def by (intro sound_sim [OF bin_inst_replace(1) [OF assms(1) operandD(1) [OF B(10)]]])
qed

lemma val_zero_one: "num_type T \<Longrightarrow> val T 0 = 0" "num_type T \<Longrightarrow> val T (- 1) = wrap T (- 1)"
  by (simp_all add: val_def wrap_def)

lemma wrap_and_minus_one: "num_type T \<Longrightarrow> wrap T (x AND wrap T (- 1)) = wrap T x"
  by (simp add: wrap_ring)

lemma ApplyForCastU16_sound:
  assumes "bin_inst (Suc n) fp Op_And T g i x y \<rho>"
  obtains b where "ApplyForCastU16 g i x y = Some b"
    "b \<and> GetIntValue g y = 0xFFFF \<longrightarrow> sound fp i g \<rho> (Some (applied (created_cast g i (GetInput g x 0) UINT16)))"
proof (cases "IsConst g y \<and> opcode_of g x = Op_Cast \<and> is_int_type (type_of g (GetInput g x 0)) \<and> IsInt32Bit T")
  case False
  then show thesis using that [of False] bin_instD(5) [OF assms] by (auto simp: ApplyForCastU16_def)
next
  case True
  note B = bin_instD [OF assms]
  let ?z = "GetInput g x 0" and ?T = "type_of g x"
  have z: "length (inputs (the_inst g x)) = 1" "operandsType (the_inst g x) = type_of g ?z" "typed g \<rho> i ?z"
    using B(10) True by (auto simp: operand.simps)
  note x = operandD [OF B(10)]
  have size: "GetTypeSize (objectPointerSize g) ?T (GetArch g) = Some (if ?T = BOOL then 8 else type_bits ?T)"
    using x(4) by (cases ?T) (simp_all add: GetTypeSize_def ShiftByType_def ShiftByType_int_def)
  have "sound fp i g \<rho> (Some (applied (created_cast g i ?z UINT16)))" if "16 < (if ?T = BOOL then 8 else type_bits ?T)" "GetIntValue g y = 0xFFFF"
  proof -
    have T': "num_type ?T" "16 < type_bits ?T" using that(1) x(4) by (auto split: if_splits)
    have "\<rho> y = 0xFFFF" using operand_val(2) [OF B(1,11,6)] that(2) True by simp
    then have "canonical T 0xFFFF" using operandD(3) [OF B(11)] by simp
    then have T: "T \<in> {UINT16, UINT32, INT32}"
      using True B(7) by (cases T) (auto simp: IsInt32Bit_def canonical_def val_def wrap_def IsTypeSigned_def)
    have v: "val T (\<rho> y) = 0xFFFF" using \<open>\<rho> y = _\<close> T by (auto simp: val_def wrap_def IsTypeSigned_def)
    have "inputs (the_inst g x) = [?z]" using z(1) by (cases "inputs (the_inst g x)") (auto simp: GetInput_def)
    then have "\<rho> x = canon ?T (val (type_of g ?z) (\<rho> ?z))"
      using B(1) x(1,4) z(2) True by (simp add: wf_graph_def consistent_iff eval_op_def eval_cast_def)
    then have "\<rho> i = canon UINT16 (val (type_of g ?z) (\<rho> ?z))"
      using bin_inst_value [OF assms, of "val T (\<rho> x) AND val T (\<rho> y)"] u16_mask [OF T' T] v by simp
    then show ?thesis using True z(3) by (intro created_cast_sound [OF bin_inst_visited [OF assms]]) (auto simp: typed_def)
  qed
  then show thesis using that True size B(5) by (simp add: ApplyForCastU16_def)
qed

lemma VisitAnd_sound:
  assumes "visit_ready fp Op_And g i \<rho>"
  shows "sound fp i g \<rho> (VisitAnd osr g i)"
proof (rule visit_fold [OF assms])
  have int: "is_int_type (type_of g i)" using assms by (simp add: visit_ready_def)
  then show "fold_ok g i \<rho> (ConstFoldingAnd g i)" using assms by (intro And_ok [of fp]) (simp_all add: visit_ready_def)
  assume fold: "ConstFoldingAnd g i = Some (g, False)"
  have False: "\<not> IsFloatType (type_of g i)" using int by (auto simp: IsFloatType_def)
  have "bin_inst (Suc 1) fp Op_And (type_of g i) g i (GetInput g i 0) (GetInput g i 1) \<rho>"
    using visit_ready_bin_inst [OF assms False] by (simp add: numeral_2_eq_2)
  then obtain g1 a x y where S: "TrySwapInputs g i = Some (g1, a)" "sim fp i g \<rho> g1 \<rho>" "bin_inst (Suc 1) fp Op_And (type_of g i) g1 i x y \<rho>"
    by (rule TrySwapInputs_sound [OF _ commutes_ops(2)])
  note B = bin_instD [OF S(3)]
  have one: "sound fp i g1 \<rho> (Some (applied (ReplaceUsers g1 i x)))" if "IsConst g1 y" "GetIntValue g1 y = - 1"
  proof (rule neutral_sound [OF S(3)])
    have "\<rho> y = - 1" using operand_val(2) [OF B(1,11,6)] that by simp
    then show "wrap (type_of g i) (val (type_of g i) (\<rho> x) AND val (type_of g i) (\<rho> y)) = val (type_of g i) (\<rho> x)"
      using B(6,7) by (simp add: val_zero_one wrap_and_minus_one val_wrapped)
  qed simp
  have same: "sound fp i g1 \<rho> (Some (applied (ReplaceUsers g1 i x)))" if "x = y"
    unfolding that [symmetric] using B(6) S(3) that by (intro neutral_sound [of _ fp _ "type_of g i" g1 i x x]) (simp, simp, simp add: val_wrapped)
  have dm: "sound fp i g1 \<rho> (let (g, b) = de_morgan osr g1 i Op_Or x y in Some (g, a \<or> b))" if "opcode_of g1 x = Op_Not" "opcode_of g1 y = Op_Not"
    using de_morgan_sound [OF S(3) that, of Op_Or osr] by (cases "de_morgan osr g1 i Op_Or x y") (auto simp: sound_def)
  obtain u where u: "ApplyForCastU16 g1 i x y = Some u"
    "u \<and> GetIntValue g1 y = 0xFFFF \<longrightarrow> sound fp i g1 \<rho> (Some (applied (created_cast g1 i (GetInput g1 x 0) UINT16)))"
    by (rule ApplyForCastU16_sound [OF S(3)])
  show "sound fp i g \<rho> (VisitAnd osr g i)"
  proof (rule sound_step [OF S(2)])
    show "sound fp i g1 \<rho> (VisitAnd osr g i)" using fold S(1) B(8,9) one same dm u sound_same [OF B(1)]
      by (simp add: VisitAnd_def Let_def created_cast_def case_prod_unfold)
  qed
qed (simp_all add: VisitAnd_def)

lemma VisitOr_sound:
  assumes "visit_ready fp Op_Or g i \<rho>"
  shows "sound fp i g \<rho> (VisitOr osr g i)"
proof (rule visit_fold [OF assms])
  have int: "is_int_type (type_of g i)" using assms by (simp add: visit_ready_def)
  then show "fold_ok g i \<rho> (ConstFoldingOr g i)" using assms by (intro Or_ok [of fp]) (simp_all add: visit_ready_def)
  assume fold: "ConstFoldingOr g i = Some (g, False)"
  have False: "\<not> IsFloatType (type_of g i)" using int by (auto simp: IsFloatType_def)
  have "bin_inst (Suc 1) fp Op_Or (type_of g i) g i (GetInput g i 0) (GetInput g i 1) \<rho>"
    using visit_ready_bin_inst [OF assms False] by (simp add: numeral_2_eq_2)
  then obtain g1 a x y where S: "TrySwapInputs g i = Some (g1, a)" "sim fp i g \<rho> g1 \<rho>" "bin_inst (Suc 1) fp Op_Or (type_of g i) g1 i x y \<rho>"
    by (rule TrySwapInputs_sound [OF _ commutes_ops(3)])
  note B = bin_instD [OF S(3)]
  have zero: "sound fp i g1 \<rho> (Some (applied (ReplaceUsers g1 i x)))" if "IsConst g1 y" "GetIntValue g1 y = 0"
  proof (rule neutral_sound [OF S(3)])
    have "\<rho> y = 0" using operand_val(2) [OF B(1,11,6)] that by simp
    then show "wrap (type_of g i) (val (type_of g i) (\<rho> x) OR val (type_of g i) (\<rho> y)) = val (type_of g i) (\<rho> x)"
      using B(6,7) by (simp add: val_zero_one val_wrapped)
  qed simp
  have same: "sound fp i g1 \<rho> (Some (applied (ReplaceUsers g1 i x)))" if "x = y"
    unfolding that [symmetric] using B(6) S(3) that by (intro neutral_sound [of _ fp _ "type_of g i" g1 i x x]) (simp, simp, simp add: val_wrapped)
  have dm: "sound fp i g1 \<rho> (let (g, b) = de_morgan osr g1 i Op_And x y in Some (g, a \<or> b))" if "opcode_of g1 x = Op_Not" "opcode_of g1 y = Op_Not"
    using de_morgan_sound [OF S(3) that, of Op_And osr] by (cases "de_morgan osr g1 i Op_And x y") (auto simp: sound_def)
  show "sound fp i g \<rho> (VisitOr osr g i)"
  proof (rule sound_step [OF S(2)])
    show "sound fp i g1 \<rho> (VisitOr osr g i)" using fold S(1) B(8,9) zero same dm sound_same [OF B(1)]
      by (simp add: VisitOr_def Let_def)
  qed
qed (simp_all add: VisitOr_def)

text \<open>The exclusive or of a boolean with one.\<close>

lemma u32_const_zero: "wf_consts g \<Longrightarrow> const_result g 0 (FindOrCreateConstant_u32 g 0)"
proof (cases "IsBytecodeOptimizer g")
  case False
  assume "wf_consts g"
  then show ?thesis unfolding FindOrCreateConstant_u32_def using False by (auto intro!: find_or_create_result simp: IsEqualConst_32_def)
qed (simp add: u32_const_result)

lemma bool_xor_one:
  assumes "num_type T" "canonical BOOL x"
  shows "canon T (val T x XOR val T 1) = of_bool (x = 0)"
proof -
  have "x = 0 \<or> x = 1" using assms(2) by (cases "sint x = 0") (auto simp: canonical_def val_def wrap_def)
  then show ?thesis using assms(1) by (cases T) (auto simp: canon_def val_def wrap_def IsTypeSigned_def)
qed

lemma created_compare:
  assumes "visited fp T g i \<rho>" "x < length (insts g)" "x \<noteq> i" "c < length (insts g)" "c \<noteq> i" "\<rho> c = 0" "canonical BOOL (\<rho> x)"
    "\<rho> i = of_bool (\<rho> x = 0)"
  defines "s \<equiv> (new_inst Op_Compare T [x, c])\<lparr>GetBasicBlock := GetBasicBlock (the_inst g i), GetType := BOOL, GetCc := CC_EQ, operandsType := BOOL\<rparr>"
  shows "\<exists>g1 n. CreateAndInsertInst g Op_Compare i [x, c] = (g1, n) \<and> n = length (insts g) \<and> constList g1 = constList g
      \<and> insts (SetOperandsType (SetCc n CC_EQ (SetType g1 n BOOL)) n BOOL) = map (renamed i (length (insts g))) (insts g) @ [s]
      \<and> constList (SetOperandsType (SetCc n CC_EQ (SetType g1 n BOOL)) n BOOL) = constList g"
    "eval_op fp s (map \<rho> (inputs s)) = Some w \<Longrightarrow> \<rho> i = w"
proof -
  note V = visitedD [OF assms(1)]
  obtain g1 n where 1: "CreateAndInsertInst g Op_Compare i [x, c] = (g1, n)" by fastforce
  note C = Create_insts [OF 1 V(2)]
  show "\<exists>g1 n. CreateAndInsertInst g Op_Compare i [x, c] = (g1, n) \<and> n = length (insts g) \<and> constList g1 = constList g
      \<and> insts (SetOperandsType (SetCc n CC_EQ (SetType g1 n BOOL)) n BOOL) = map (renamed i (length (insts g))) (insts g) @ [s]
      \<and> constList (SetOperandsType (SetCc n CC_EQ (SetType g1 n BOOL)) n BOOL) = constList g"
    using 1 C(1,2,6) V(4) by (intro exI [of _ g1] exI [of _ n]) (simp add: s_def SetType_def SetOperandsType_def SetCc_def update_inst_def nth_append list_update_append)
  assume "eval_op fp s (map \<rho> (inputs s)) = Some w"
  moreover have "canon BOOL (sint (\<rho> x)) = \<rho> x" using assms(7) by (simp add: canonical_def canon_def val_def)
  moreover have "canon BOOL 0 = 0" by (simp add: canon_def wrap_def)
  ultimately show "\<rho> i = w" using assms(6,8) by (simp add: eval_op_def s_def)
qed

lemma CreateCompareInsteadOfXorAdd_sound:
  assumes "bin_inst n fp Op_Xor T g i x y \<rho>" "type_of g x = BOOL" "IsConst g y" "GetIntValue g y = 1"
  shows "\<exists>g' \<rho>'. CreateCompareInsteadOfXorAdd osr g i = Some (g', True) \<and> sim fp i g \<rho> g' \<rho>'"
proof -
  note B = bin_instD [OF assms(1)]
  obtain g0 c where 0: "FindOrCreateConstant_u32 g 0 = (g0, c)" by fastforce
  have wf: "wf_consts g" using B(1) by (simp add: wf_graph_def)
  define \<rho>0 where "\<rho>0 = \<rho>(c := 0)"
  note E = const_result_extends [OF B(1) u32_const_zero [OF wf, unfolded 0], folded \<rho>0_def]
  note X = bin_inst_extends [OF assms(1) E(1,2)]
  note B0 = bin_instD [OF X(2)]
  have bool: "canonical BOOL (\<rho>0 x)" using operandD(5) [OF B0(10)] assms(2) E(1) operandD(1) [OF B(10)] by (simp add: extends_def)
  have "\<rho>0 y = 1" using operand_val(2) [OF B(1,11,6)] assms(3,4) E(1) operandD(1) [OF B(11)] by (simp add: extends_def)
  then have i: "\<rho>0 i = of_bool (\<rho>0 x = 0)" using bin_inst_value [OF X(2)] bool_xor_one [OF conjI [OF B(6,7)] bool] by simp
  have ci: "c \<noteq> i" using E(1,5) B(2) bin_inst_not_const [OF assms(1)] by (auto simp: extends_def IsConst_def)
  note K = created_compare [OF bin_inst_visited [OF X(2)] operandD(1,2) [OF B0(10)] E(3) ci E(4) bool i]
  define s where "s = (new_inst Op_Compare T [x, c])\<lparr>GetBasicBlock := GetBasicBlock (the_inst g0 i), GetType := BOOL, GetCc := CC_EQ, operandsType := BOOL\<rparr>"
  obtain g1 m where 1: "CreateAndInsertInst g0 Op_Compare i [x, c] = (g1, m)" "m = length (insts g0)" "constList g1 = constList g0"
    using K(1) by blast
  define g2 where "g2 = SetOperandsType (SetCc m CC_EQ (SetType g1 m BOOL)) m BOOL"
  have g2: "insts g2 = map (renamed i m) (insts g0) @ [s]" "constList g2 = constList g0" using K(1) 1 by (auto simp: g2_def s_def)
  have s: "GetOpcode s \<noteq> Op_Constant" "\<forall>z \<in> set (inputs s). z < length (insts g0) \<and> z \<noteq> i"
    "\<And>w. eval_op fp s (map \<rho>0 (inputs s)) = Some w \<Longrightarrow> \<rho>0 i = w"
    using operandD(1,2) [OF B0(10)] E(3) ci K(2) by (auto simp: s_def)
  have T: "type_of g2 i = T" using g2(1) B0(2,5) by (simp add: nth_append)
  have pre: "opcode_of g i = Op_Xor" "GetInput g i 0 = x" "GetInput g i 1 = y" using B by simp_all
  show ?thesis
  proof (cases "T = UINT64 \<or> T = INT64")
    case False
    have "sim fp i g0 \<rho>0 g2 (\<rho>0(length (insts g0) := \<rho>0 i))" by (rule sim_created [OF B0(1,2) g2(1) [unfolded 1(2)] g2(2) s])
    moreover have "CreateCompareInsteadOfXorAdd osr g i = Some (g2, True)"
      using pre assms(2-4) 0 1(1) T False by (simp add: CreateCompareInsteadOfXorAdd_def Let_def g2_def)
    ultimately show ?thesis using sim_trans [OF X(1)] by blast
  next
    case True
    define t where "t = (new_inst Op_Cast T [m])\<lparr>GetBasicBlock := GetBasicBlock s, operandsType := BOOL\<rparr>"
    define g3 where "g3 = (let (g, cast) = CreateInst g2 Op_Cast T []; g = ReplaceUsers (InsertAfter g cast m) m cast
        in SetOperandsType (update_inst g cast (\<lambda>s. s\<lparr>inputs := [m]\<rparr>)) cast BOOL)"
    have 3: "CreateCompareInsteadOfXorAdd osr g i = Some (g3, True)"
      using pre assms(2-4) 0 1(1) T True by (simp add: CreateCompareInsteadOfXorAdd_def Let_def g2_def g3_def CreateInst_def)
    have "map (renamed m (Suc m)) (map (renamed i m) (insts g0)) = map (renamed i (Suc m)) (insts g0)"
      using renamed_comp [OF wf_graph_inputs [OF B0(1)], of "Suc m" i] 1(2) by simp
    moreover have "renamed m (Suc m) s = s" using s(2) 1(2) by (intro renamed_id) auto
    moreover have "(renamed m (Suc m) ((new_inst Op_Cast T [])\<lparr>GetBasicBlock := GetBasicBlock s\<rparr>))\<lparr>inputs := [m], operandsType := BOOL\<rparr> = t"
      by (simp add: renamed_def new_inst_def t_def)
    ultimately have g3: "insts g3 = map (renamed i (Suc (length (insts g0)))) (insts g0) @ [s, t]" "constList g3 = constList g0"
      using g2 1(2) by (simp_all add: g3_def CreateInst_def InsertAfter_def SetOperandsType_def update_inst_def ReplaceUsers_renamed
          nth_append list_update_append Let_def)
    have "sim fp i g0 \<rho>0 g3 (\<rho>0(length (insts g0) := \<rho>0 i, Suc (length (insts g0)) := \<rho>0 i))"
    proof (rule sim_created2 [OF bin_inst_visited [OF X(2)] g3 s])
      fix w
      assume "eval_op fp t (map (\<rho>0(length (insts g0) := \<rho>0 i)) (inputs t)) = Some w"
      then show "\<rho>0 i = w" using 1(2) True i by (auto simp: t_def eval_op_def eval_cast_def val_def canon_def wrap_def IsTypeSigned_def)
    qed (use 1(2) B0(2) in \<open>auto simp: t_def\<close>)
    then show ?thesis using sim_trans [OF X(1)] 3 by blast
  qed
qed

lemma VisitXor_sound:
  assumes "visit_ready fp Op_Xor g i \<rho>"
  shows "sound fp i g \<rho> (VisitXor osr g i)"
proof (rule visit_fold [OF assms])
  have int: "is_int_type (type_of g i)" using assms by (simp add: visit_ready_def)
  then show "fold_ok g i \<rho> (ConstFoldingXor g i)" using assms by (intro Xor_ok [of fp]) (simp_all add: visit_ready_def)
  assume fold: "ConstFoldingXor g i = Some (g, False)"
  have False: "\<not> IsFloatType (type_of g i)" using int by (auto simp: IsFloatType_def)
  have "bin_inst (Suc 1) fp Op_Xor (type_of g i) g i (GetInput g i 0) (GetInput g i 1) \<rho>"
    using visit_ready_bin_inst [OF assms False] by (simp add: numeral_2_eq_2)
  then obtain g1 a x y where S: "TrySwapInputs g i = Some (g1, a)" "sim fp i g \<rho> g1 \<rho>" "bin_inst (Suc 1) fp Op_Xor (type_of g i) g1 i x y \<rho>"
    by (rule TrySwapInputs_sound [OF _ commutes_ops(4)])
  note B = bin_instD [OF S(3)]
  let ?T = "type_of g i"
  have zero: "sound fp i g1 \<rho> (Some (applied (ReplaceUsers g1 i x)))" if "IsConst g1 y" "GetIntValue g1 y = 0"
  proof (rule neutral_sound [OF S(3)])
    have "\<rho> y = 0" using operand_val(2) [OF B(1,11,6)] that by simp
    then show "wrap ?T (val ?T (\<rho> x) XOR val ?T (\<rho> y)) = val ?T (\<rho> x)" using B(6,7) by (simp add: val_zero_one val_wrapped)
  qed simp
  have ones: "sound fp i g1 \<rho> (Some (applied (fst (CreateAndInsertInst g1 Op_Not i [x]))))" if "IsConst g1 y" "GetIntValue g1 y = - 1"
  proof (rule create_sound [OF bin_inst_visited [OF S(3)]])
    have y: "\<rho> y = - 1" using operand_val(2) [OF B(1,11,6)] that by simp
    have "canon ?T (val ?T (\<rho> x) XOR val ?T (\<rho> y)) = canon ?T (NOT (val ?T (\<rho> x)))"
      unfolding y val_zero_one(2) [OF conjI [OF B(6,7)]] using B(6,7) by (intro canonI) (simp add: wrap_ring)
    then show "\<rho> i = canon ?T (NOT (val ?T (\<rho> x)))" using bin_inst_value [OF S(3)] by simp
  qed (use operandD(1,2) [OF B(10)] in simp_all)
  have bool: "sound fp i g1 \<rho> (do { (g, created) \<leftarrow> CreateCompareInsteadOfXorAdd osr g1 i; Some (applied g) })"
    if "IsConst g1 y" "GetIntValue g1 y = 1" "type_of g1 x = BOOL"
    using CreateCompareInsteadOfXorAdd_sound [OF S(3) that(3,1,2), of osr] by (auto simp: applied_def intro: sound_sim)
  show "sound fp i g \<rho> (VisitXor osr g i)"
  proof (rule sound_step [OF S(2)])
    show "sound fp i g1 \<rho> (VisitXor osr g i)" using fold S(1) B(8,9) zero ones bool sound_same [OF B(1)]
      by (simp add: VisitXor_def Let_def)
  qed
qed (simp_all add: VisitXor_def)

end
