(* ===== verification/PeepholeAddSub.thy ===== *)
theory PeepholeAddSub
  imports PeepholeLogic
begin

unbundle bit_operations_syntax

text \<open>
  Soundness of the peephole rules of addition and subtraction: constants, negated operands, operands that undo each other, common
  operands of two sums, and the reassociation of shifted operands.
\<close>

section \<open>Addition and subtraction\<close>

text \<open>An instruction without users may compute anything.\<close>

lemma sim_free:
  assumes "wf_graph fp g \<rho>" "i < length (insts g)" "\<not> IsConst g i" "\<forall>j < length (insts g). i \<notin> set (inputs (the_inst g j))"
    "GetOpcode (f (the_inst g i)) \<noteq> Op_Constant" "\<forall>x \<in> set (inputs (f (the_inst g i))). x < length (insts g) \<and> x \<noteq> i"
    "\<And>w. eval_op fp (f (the_inst g i)) (map \<rho> (inputs (f (the_inst g i)))) = Some w \<Longrightarrow> v = w"
  shows "sim fp i g \<rho> (update_inst g i f) (\<rho>(i := v))"
proof -
  let ?g = "update_inst g i f" and ?\<rho> = "\<rho>(i := v)"
  have m: "map ?\<rho> xs = map \<rho> xs" if "i \<notin> set xs" for xs using that by auto
  have "consistent fp ?g ?\<rho>" unfolding consistent_iff
  proof (intro allI impI)
    fix j w
    assume j: "j < length (insts ?g)" "eval_op fp (the_inst ?g j) (map ?\<rho> (inputs (the_inst ?g j))) = Some w"
    show "?\<rho> j = w"
    proof (cases "j = i")
      case True
      have "i \<notin> set (inputs (f (the_inst g i)))" using assms(6) by blast
      with True j(2) assms(2,7) m show ?thesis by simp
    next
      case False
      then have "eval_op fp (the_inst g j) (map \<rho> (inputs (the_inst g j))) = Some w" using j assms(2,4) m by simp
      then show ?thesis using False j(1) assms(1) by (simp add: wf_graph_def consistent_iff)
    qed
  qed
  moreover have "wf_consts ?g" using assms(1-3,5) by (auto simp: wf_graph_def wf_consts_def IsConst_def)
  moreover have "wf_inputs ?g" using assms(1,2,6) by (auto simp: wf_graph_def wf_inputs_def)
  ultimately show ?thesis using assms(2,4) m by (simp add: sim_def bystander_def)
qed

text \<open>A single user.\<close>

lemma single_user:
  assumes "IsSingleUser g y" "i < length (insts g)" "inputs (the_inst g i) = [x, y]"
  shows "x \<noteq> y" "\<And>j. j < length (insts g) \<Longrightarrow> j \<noteq> i \<Longrightarrow> y \<notin> set (inputs (the_inst g j))"
proof -
  define f where "f j = length (filter (\<lambda>z. z = y) (inputs (the_inst g j)))" for j
  have "length (filter (\<lambda>z. z = y) (concat (map inputs (insts g)))) = (\<Sum>j < length (insts g). f j)"
    by (simp add: filter_concat length_concat sum_list_sum_nth atLeast0LessThan f_def comp_def)
  then have one: "(\<Sum>j < length (insts g). f j) = 1" using assms(1) by (simp add: IsSingleUser_def UsersCount_def)
  have "f i \<le> (\<Sum>j < length (insts g). f j)" using assms(2) by (intro member_le_sum) simp_all
  then show "x \<noteq> y" using one assms(3) by (auto simp: f_def)
  fix j
  assume j: "j < length (insts g)" "j \<noteq> i"
  have "sum f {i, j} \<le> (\<Sum>j < length (insts g). f j)" using assms(2) j by (intro sum_mono2) auto
  then have "f i + f j \<le> 1" using one j(2) by simp
  moreover have "1 \<le> f i" using assms(3) by (simp add: f_def)
  ultimately have "f j = 0" by simp
  then show "y \<notin> set (inputs (the_inst g j))" by (auto simp: f_def filter_empty_conv)
qed

text \<open>The sum or difference with a sum or difference of two shifts is computed from the left.\<close>

definition signed_op :: "opcode \<Rightarrow> int \<Rightarrow> int \<Rightarrow> int" where
  "signed_op op a b = (if op = Op_Add then a + b else a - b)"

lemma eval_signed: "op = Op_Add \<or> op = Op_Sub \<Longrightarrow> eval_int op T x y = Some (signed_op op (val T x) (val T y))"
  by (auto simp: signed_op_def)

lemma reassociate_sim:
  assumes "bin_inst (Suc n) fp op T g i x y \<rho>" "opcode_of g y = op'" "op = Op_Add \<or> op = Op_Sub" "op' = Op_Add \<or> op' = Op_Sub" "IsSingleUser g y"
    "opc = Op_Add \<or> opc = Op_Sub" "opc' = Op_Add \<or> opc' = Op_Sub"
    "\<And>a b c. signed_op op a (signed_op op' b c) = signed_op opc' (signed_op opc a b) c"
    "CreateAndInsertInst g opc y [x, GetInput g y 0] = (g1, n1)" "CreateAndInsertInst g1 opc' i [n1, GetInput g y 1] = (g2, n2)"
  shows "\<exists>\<rho>'. sim fp i g \<rho> g2 \<rho>'"
proof -
  note B = bin_instD [OF assms(1)]
  let ?a = "GetInput g y 0" and ?b = "GetInput g y 1" and ?n = "length (insts g)"
  have op': "arith_opcode op'" "arity op' = 2" "arith_opcode opc" "arith_opcode opc'" using assms(4,6,7) by auto
  have y: "y < length (insts g)" "type_of g y = T" using operandD(1) [OF B(11)] operand_arith(1) [OF B(11)] assms(2) op'(1) by simp_all
  have ab: "operand n g \<rho> i T ?a" "operand n g \<rho> i T ?b" using operand_input [OF B(11) assms(2) op'(1)] op'(2) by simp_all
  note l = operandD(1,2) [OF ab(1)] operandD(1,2) [OF ab(2)] operandD(1,2) [OF B(10)]
  note U = single_user [OF assms(5) B(2,12)]
  define s where "s = (new_inst opc T [x, ?a])\<lparr>GetBasicBlock := GetBasicBlock (the_inst g y)\<rparr>"
  note C = Create_insts [OF assms(9) y(1), unfolded y(2), folded s_def]
  have i1: "i < length (insts g1)" "type_of g1 i = T" using C(6) B(2,5) by (simp_all add: nth_append)
  define t where "t = (new_inst opc' T [n1, ?b])\<lparr>GetBasicBlock := GetBasicBlock (the_inst g1 i)\<rparr>"
  note D = Create_insts [OF assms(10) i1(1), unfolded i1(2), folded t_def]
  define v where "v = canon T (signed_op opc (val T (\<rho> x)) (val T (\<rho> ?a)))"
  have v: "val T v = wrap T (signed_op opc (val T (\<rho> x)) (val T (\<rho> ?a)))" using B(6) by (simp add: v_def val_canon)
  define h where "h = g\<lparr>insts := map (renamed i (Suc ?n)) (insts g) @ [s, t]\<rparr>"
  define \<rho>1 where "\<rho>1 = \<rho>(?n := v, Suc ?n := \<rho> i)"
  have "val T (\<rho> y) = wrap T (signed_op op' (val T (\<rho> ?a)) (val T (\<rho> ?b)))"
    using operand_op(2) [OF B(1,11,6)] eval_signed [OF assms(4)] assms(2) op'(1,2) B(6) by (simp add: val_canon)
  then have "\<rho> i = canon T (signed_op op (val T (\<rho> x)) (signed_op op' (val T (\<rho> ?a)) (val T (\<rho> ?b))))"
    using bin_inst_value [OF assms(1) eval_signed [OF assms(3)]] B(6,7) by (simp add: signed_op_def canon_def wrap_ring)
  then have i: "\<rho> i = canon T (signed_op opc' (val T v) (val T (\<rho> ?b)))"
    unfolding assms(8) v using B(6,7) by (simp add: signed_op_def canon_def wrap_ring)
  have 1: "sim fp i g \<rho> h \<rho>1" unfolding \<rho>1_def
  proof (rule sim_created2 [OF bin_inst_visited [OF assms(1)]])
    show "v = w" if "eval_op fp s (map \<rho> (inputs s)) = Some w" for w
      using that new_inst_value [OF op'(3) B(6), of fp "[x, ?a]" "[\<rho> x, \<rho> ?a]" w] eval_signed [OF assms(6)] by (simp add: s_def v_def eval_op_block)
    show "\<rho> i = w" if "eval_op fp t (map (\<rho>(?n := v)) (inputs t)) = Some w" for w
      using that new_inst_value [OF op'(4) B(6), of fp "[n1, ?b]" "[v, \<rho> ?b]" w] eval_signed [OF assms(7)] C(1) l i by (simp add: t_def eval_op_block)
  qed (use l op' C(1) B(2) in \<open>auto simp: h_def s_def t_def\<close>)
  have h: "i < length (insts h)" "\<not> IsConst h i" "\<forall>j < length (insts h). i \<notin> set (inputs (the_inst h j))" "opcode_of h i = op" "type_of h i = T"
    using B(2,3,5) bin_inst_not_const [OF assms(1)] l C(1) by (auto simp: h_def nth_append IsConst_def renamed_def s_def t_def less_Suc_eq nth_Cons')
  obtain w where w: "\<And>w'. eval_op fp ((the_inst h i)\<lparr>inputs := [x, ?n]\<rparr>) (map \<rho>1 [x, ?n]) = Some w' \<Longrightarrow> w = w'"
    by (cases "eval_op fp ((the_inst h i)\<lparr>inputs := [x, ?n]\<rparr>) (map \<rho>1 [x, ?n])") auto
  have 2: "sim fp i h \<rho>1 (update_inst h i (\<lambda>s. s\<lparr>inputs := [x, ?n]\<rparr>)) (\<rho>1(i := w))"
    using h w l B(2) assms(3) by (intro sim_free [OF sim_wf [OF 1]]) (auto simp: h_def)
  have "insts g2 = insts (update_inst h i (\<lambda>s. s\<lparr>inputs := [x, ?n]\<rparr>))"
  proof -
    have "map (renamed i (Suc ?n)) (map (renamed y ?n) (insts g))
        = (map (renamed i (Suc ?n)) (insts g))[i := (renamed i (Suc ?n) (the_inst g i))\<lparr>inputs := [x, ?n]\<rparr>]"
    proof (rule nth_equalityI)
      fix j
      assume "j < length (map (renamed i (Suc ?n)) (map (renamed y ?n) (insts g)))"
      then have j: "j < length (insts g)" by simp
      show "map (renamed i (Suc ?n)) (map (renamed y ?n) (insts g)) ! j
          = (map (renamed i (Suc ?n)) (insts g))[i := (renamed i (Suc ?n) (the_inst g i))\<lparr>inputs := [x, ?n]\<rparr>] ! j"
      proof (cases "j = i")
        case True
        then show ?thesis using j B(2,12) U(1) l by (simp add: renamed_def)
      next
        case False
        then show ?thesis using j renamed_id [OF U(2) [OF j False]] by simp
      qed
    qed simp
    moreover have "renamed i (Suc ?n) s = s" using l by (intro renamed_id) (simp add: s_def)
    ultimately show ?thesis using D(1,6) C(1,6) B(2) by (simp add: h_def update_inst_def nth_append list_update_append)
  qed
  then have "sim fp i g \<rho> g2 (\<rho>1(i := w))"
    using sim_trans [OF 1 2] sim_cong [of g2 "update_inst h i (\<lambda>s. s\<lparr>inputs := [x, ?n]\<rparr>)"] C(2) D(2) by (simp add: h_def)
  then show ?thesis by blast
qed

lemma TryReassociate_sound:
  assumes "bin_inst (Suc n) fp op T g i x y \<rho>"
  shows "\<exists>g' b \<rho>'. TryReassociateShlShlAddSub osr g i = (g', b) \<and> sim fp i g \<rho> g' \<rho>' \<and> (\<not> b \<longrightarrow> g' = g)"
proof -
  note B = bin_instD [OF assms]
  let ?op = "opcode_of g y"
  define opc where "opc = (if op = Op_Sub then Op_Sub else Op_Add)"
  define opc' where "opc' = (if op = Op_Sub \<and> ?op = Op_Sub \<or> op = Op_Add \<and> ?op = Op_Add then Op_Add else Op_Sub)"
  obtain g1 n1 where 1: "CreateAndInsertInst g opc y [x, GetInput g y 0] = (g1, n1)" by fastforce
  obtain g2 n2 where 2: "CreateAndInsertInst g1 opc' i [n1, GetInput g y 1] = (g2, n2)" by fastforce
  show ?thesis
  proof (cases "(op = Op_Sub \<or> op = Op_Add) \<and> (?op = Op_Sub \<or> ?op = Op_Add) \<and> IsSingleUser g y
      \<and> snd (TryReassociateShlShlAddSub osr g i) \<and> \<not> SkipThisPeepholeInOSR osr g i y")
    case True
    have "\<exists>\<rho>'. sim fp i g \<rho> g2 \<rho>'"
    proof (rule reassociate_sim [OF assms refl _ _ _ _ _ _ 1 2])
      show "signed_op op a (signed_op ?op b c) = signed_op opc' (signed_op opc a b) c" for a b c
        using True by (auto simp: signed_op_def opc_def opc'_def)
    qed (use True in \<open>auto simp: opc_def opc'_def\<close>)
    moreover have "TryReassociateShlShlAddSub osr g i = (g2, True)"
    proof -
      have "TryReassociateShlShlAddSub osr g i = (fst (CreateAndInsertInst (fst (CreateAndInsertInst g opc y [x, GetInput g y 0])) opc' i
          [snd (CreateAndInsertInst g opc y [x, GetInput g y 0]), GetInput g y 1]), True)"
        using True B(3,8,9) by (auto simp: TryReassociateShlShlAddSub_def Let_def opc_def opc'_def case_prod_unfold split: if_splits)
      then show ?thesis using 1 2 by simp
    qed
    ultimately show ?thesis by blast
  next
    case False
    then have "fst (TryReassociateShlShlAddSub osr g i) = g" using B(3,8,9)
      by (auto simp: TryReassociateShlShlAddSub_def Let_def case_prod_unfold split: if_splits)
    then show ?thesis using sim_refl [OF B(1)] by (metis prod.collapse)
  qed
qed

text \<open>Constant operands.\<close>

lemma TryCombineAddSubConst_sound:
  assumes "bin_inst (Suc n) fp op T g i x y \<rho>" "op = Op_Add \<or> op = Op_Sub" "opcode_of g x = op'" "op' = Op_Add \<or> op' = Op_Sub" "IsConst g y"
  shows "\<exists>g' a b \<rho>'. TryCombineAddSubConst fp osr g i y = Some (g', a, b) \<and> sim fp i g \<rho> g' \<rho>' \<and> (\<not> a \<longrightarrow> g' = g)"
proof -
  note B = bin_instD [OF assms(1)]
  let ?z = "GetInput g x 0" and ?c = "GetInput g x 1"
  let ?f = "\<lambda>x y. if op = op' then x + y else x - y :: u64"
  have op': "arith_opcode op'" "arity op' = 2" using assms(4) by auto
  have x: "val T (\<rho> x) = wrap T (signed_op op' (val T (\<rho> ?z)) (val T (\<rho> ?c)))"
    using operand_op(2) [OF B(1,10,6)] eval_signed [OF assms(4)] assms(3) op' B(6) by (simp add: val_canon)
  have "\<exists>g' a b \<rho>'. TryCombineConst osr g i y ?f (\<lambda>f x y. if op = op' then fp_add fp f x y else fp_sub fp f x y) = Some (g', a, b)
      \<and> sim fp i g \<rho> g' \<rho>' \<and> (\<not> a \<longrightarrow> g' = g)"
  proof (rule TryCombineConst_sound [OF assms(1,3) op' assms(5)])
    fix c
    assume c: "val T c = val T (?f (\<rho> y) (\<rho> ?c))"
    have "val T (a + b) = wrap T (val T a + val T b)" "val T (a - b) = wrap T (val T a - val T b)" for a b
      using wrap_word_int [of T "sint a + sint b"] wrap_word_int [of T "sint a - sint b"] B(6,7) by (simp_all add: val_def wrap_ring)
    then have "val T (?f (\<rho> y) (\<rho> ?c)) = wrap T (if op = op' then val T (\<rho> y) + val T (\<rho> ?c) else val T (\<rho> y) - val T (\<rho> ?c))" by simp
    then have "wrap T (signed_op op (val T (\<rho> x)) (val T (\<rho> y))) = wrap T (signed_op op (val T (\<rho> ?z)) (val T c))"
      unfolding x c using B(6,7) assms(2,4) by (auto simp: signed_op_def wrap_ring algebra_simps)
    then show "eval_int op T (\<rho> ?z) c = Some (signed_op op (val T (\<rho> ?z)) (val T c)) \<and> \<rho> i = canon T (signed_op op (val T (\<rho> ?z)) (val T c))"
      using bin_inst_value [OF assms(1) eval_signed [OF assms(2)]] eval_signed [OF assms(2)] by (simp add: canon_def)
  qed (use assms(2) in auto)
  then show ?thesis using B(3,8) assms(2,3) by (simp add: TryCombineAddSubConst_def cong: if_cong)
qed

definition step_sound :: "fpu \<Rightarrow> inst_id \<Rightarrow> graph \<Rightarrow> (inst_id \<Rightarrow> u64) \<Rightarrow> (graph \<times> bool \<times> bool) option \<Rightarrow> bool" where
  "step_sound fp i g \<rho> r \<longleftrightarrow> (\<exists>g' a ret \<rho>'. r = Some (g', a, ret) \<and> sim fp i g \<rho> g' \<rho>' \<and> (\<not> ret \<longrightarrow> g' = g \<and> \<not> a))"

lemma step_sound_same: "wf_graph fp g \<rho> \<Longrightarrow> step_sound fp i g \<rho> (Some (g, False, b))"
  unfolding step_sound_def using sim_refl by blast

lemma step_sound_ret: "sound fp i g \<rho> (Some (g', b)) \<Longrightarrow> step_sound fp i g \<rho> (Some (g', a, True))"
  unfolding step_sound_def sound_def by blast

lemma TrySimplifyAddSubWithConstInput_sound:
  assumes "bin_inst (Suc n) fp op T g i x y \<rho>" "op = Op_Add \<or> op = Op_Sub"
  shows "step_sound fp i g \<rho> (TrySimplifyAddSubWithConstInput fp osr g i)"
proof -
  note B = bin_instD [OF assms(1)]
  have T: "num_type T" using B(6,7) by simp
  note defs = TrySimplifyAddSubWithConstInput_def TrySimplifyAddSubWithZeroInput_def kept_def applied_def
  show ?thesis
  proof (cases "IsConst g y \<and> IsEqualConstAllTypes g y 0 \<and> \<not> SkipThisPeepholeInOSR osr g i x")
    case True
    then have "val T (\<rho> y) = 0" using operand_val(3) [OF B(1,11,6), of 0] T by (simp add: val_zero_one)
    then have "sound fp i g \<rho> (Some (applied (ReplaceUsers g i x)))"
      using B(6) by (intro neutral_sound [OF assms(1) eval_signed [OF assms(2)]]) (simp add: signed_op_def val_wrapped)
    then show ?thesis using True B(8,9) step_sound_ret by (simp add: defs)
  next
    case zero: False
    show ?thesis
    proof (cases "IsConst g y")
      case y: True
      have fin: "TrySimplifyAddSubWithConstInput fp osr g i =
          (if opcode_of g x = Op_Add \<or> opcode_of g x = Op_Sub then do {
              (g, combined, osrBlocked) \<leftarrow> TryCombineAddSubConst fp osr g i y;
              Some (if combined then (g, True, True) else if osrBlocked then (g, False, True) else (g, False, False)) }
            else Some (g, False, False))"
        using zero y B(8,9) by (cases "IsEqualConstAllTypes g y 0") (simp_all add: defs)
      show ?thesis
      proof (cases "opcode_of g x = Op_Add \<or> opcode_of g x = Op_Sub")
        case True
        obtain g' a b \<rho>' where "TryCombineAddSubConst fp osr g i y = Some (g', a, b)" "sim fp i g \<rho> g' \<rho>'" "\<not> a \<longrightarrow> g' = g"
          using TryCombineAddSubConst_sound [OF assms refl True y, of osr] by blast
        then show ?thesis using fin True step_sound_same [OF B(1)] step_sound_ret [OF sound_sim]
          by (cases a; cases b) simp_all
      next
        case False
        then show ?thesis using fin step_sound_same [OF B(1)] by simp
      qed
    next
      case y: False
      show ?thesis
      proof (cases "IsConst g x \<and> op = Op_Sub \<and> \<not> IsFloatType T \<and> IsEqualConstAllTypes g x 0")
        case True
        then have "val T (\<rho> x) = 0" using operand_val(3) [OF B(1,10,6), of 0] T by (simp add: val_zero_one)
        then have "\<rho> i = canon T (- val T (\<rho> y))" using bin_inst_value [OF assms(1)] True by simp
        then have "sound fp i g \<rho> (Some (applied (fst (CreateAndInsertInst g Op_Neg i [y]))))"
          using operandD(1,2) [OF B(11)] by (intro create_sound [OF bin_inst_visited [OF assms(1)]]) simp_all
        then show ?thesis using True y B(3,5,8,9) step_sound_ret by (simp add: defs)
      next
        case False
        then have "TrySimplifyAddSubWithConstInput fp osr g i = Some (g, False, False)" using y B(3,5,8,9) by (auto simp: defs)
        then show ?thesis using step_sound_same [OF B(1)] by simp
      qed
    qed
  qed
qed

text \<open>One operand undoes the other.\<close>

definition result_at :: "nat \<Rightarrow> fpu \<Rightarrow> ir_type \<Rightarrow> graph \<Rightarrow> inst_id \<Rightarrow> inst_id \<Rightarrow> inst_id \<Rightarrow> (inst_id \<Rightarrow> u64) \<Rightarrow> int \<Rightarrow> bool" where
  "result_at n fp T g i x y \<rho> v \<longleftrightarrow> visited fp T g i \<rho> \<and> operand n g \<rho> i T x \<and> operand n g \<rho> i T y \<and> \<rho> i = canon T v"

lemma bin_inst_result: "bin_inst n fp op T g i x y \<rho> \<Longrightarrow> eval_int op T (\<rho> x) (\<rho> y) = Some v \<Longrightarrow> result_at n fp T g i x y \<rho> v"
  by (simp add: result_at_def bin_inst_value bin_inst_visited bin_instD(10,11) [where y = y and x = x])

definition replaced_by :: "inst_id \<Rightarrow> (inst_id \<Rightarrow> u64) \<Rightarrow> graph \<Rightarrow> graph \<Rightarrow> bool" where
  "replaced_by i \<rho> g g' \<longleftrightarrow> g' = g \<or> (\<exists>z < length (insts g). \<rho> z = \<rho> i \<and> z \<noteq> i \<and> g' = ReplaceUsers g i z)"

lemma replaced_by_sim: "wf_graph fp g \<rho> \<Longrightarrow> replaced_by i \<rho> g g' \<Longrightarrow> sim fp i g \<rho> g' \<rho>"
  by (auto simp: replaced_by_def intro: sim_refl sim_replace)

lemma replaced_by_result: "replaced_by i \<rho> g g' \<Longrightarrow> result_at n fp T g i x y \<rho> v \<Longrightarrow> result_at n fp T g' i x y \<rho> v"
proof -
  assume R: "replaced_by i \<rho> g g'" "result_at n fp T g i x y \<rho> v"
  then have V: "wf_graph fp g \<rho>" "i < length (insts g)" "\<not> IsConst g i" "type_of g i = T" "num_type T"
    by (simp_all add: result_at_def visited_def)
  show ?thesis using R sim_wf [OF replaced_by_sim [OF V(1) R(1)]] V
    by (auto simp: replaced_by_def result_at_def visited_def ReplaceUsers_inst IsConst_def intro: operand_replace wf_graph_inputs)
qed

lemma replaced_by_bin_inst: "replaced_by i \<rho> g g' \<Longrightarrow> bin_inst n fp op T g i x y \<rho> \<Longrightarrow> bin_inst n fp op T g' i x y \<rho>"
  using bin_inst_replace(2) by (auto simp: replaced_by_def)

lemma TrySimplifyAddSub_sound:
  assumes "result_at (Suc n) fp T g i x y \<rho> v" "opc = Op_Add \<or> opc = Op_Sub" "idx \<le> 1"
    "opcode_of g x = opc \<Longrightarrow> GetInput g x (1 - idx) = y \<Longrightarrow> wrap T v = val T (\<rho> (GetInput g x idx))"
  obtains g' b where "TrySimplifyAddSub opc idx osr g i x y = (g', b)" "replaced_by i \<rho> g g'"
proof (cases "opcode_of g x = opc \<and> GetInput g x (1 - idx) = y \<and> type_of g i = type_of g (GetInput g x idx)
    \<and> \<not> SkipThisPeepholeInOSR osr g i (GetInput g x idx)")
  case False
  then have "TrySimplifyAddSub opc idx osr g i x y = (g, False)" by (auto simp: TrySimplifyAddSub_def kept_def Let_def)
  moreover have "replaced_by i \<rho> g g" by (simp add: replaced_by_def)
  ultimately show thesis using that by blast
next
  case True
  have x: "operand (Suc n) g \<rho> i T x" "\<rho> i = canon T v" using assms(1) by (simp_all add: result_at_def)
  have opc: "arith_opcode opc" "idx < arity opc" using assms(2,3) by auto
  have z: "operand n g \<rho> i T (GetInput g x idx)" using operand_input [OF x(1) _ opc] True by simp
  have "\<rho> (GetInput g x idx) = \<rho> i"
    using assms(4) True x(2) canonicalD [OF operandD(3) [OF z]] by (simp add: canon_def)
  then have "replaced_by i \<rho> g (ReplaceUsers g i (GetInput g x idx))" using operandD(1,2) [OF z] by (auto simp: replaced_by_def)
  moreover have "TrySimplifyAddSub opc idx osr g i x y = (ReplaceUsers g i (GetInput g x idx), True)"
    using True by (simp add: TrySimplifyAddSub_def applied_def)
  ultimately show thesis using that by blast
qed

text \<open>Two new inputs.\<close>

lemma new_inputs_sound:
  assumes "bin_inst n fp op T g i x y \<rho>" "opc = Op_Add \<or> opc = Op_Sub" "operand m g \<rho> i T a" "operand m g \<rho> i T b"
    "\<rho> i = canon T (signed_op opc (val T (\<rho> a)) (val T (\<rho> b)))"
  shows "step_sound fp i g \<rho> (Some (new_inputs osr g i opc a b))"
proof -
  note B = bin_instD [OF assms(1)]
  have "arith_opcode opc" using assms(2) by auto
  then have "sim fp i g \<rho> (put g i opc a b) \<rho>"
    using put_sim [OF assms(1) _ operandD(1) [OF assms(3)] operandD(1) [OF assms(4)] eval_signed [OF assms(2)] assms(5)] by simp
  then show ?thesis using put_eqs(1) [OF assms(1)] step_sound_same [OF B(1)] step_sound_ret [OF sound_sim]
    by (simp add: new_inputs_def)
qed

lemma two_sums:
  assumes "bin_inst (Suc n) fp op T g i x y \<rho>" "op = Op_Add \<or> op = Op_Sub" "opcode_of g x = p" "opcode_of g y = q"
    "p = Op_Add \<or> p = Op_Sub" "q = Op_Add \<or> q = Op_Sub"
  shows "operand n g \<rho> i T (GetInput g x 0)" "operand n g \<rho> i T (GetInput g x 1)" "operand n g \<rho> i T (GetInput g y 0)" "operand n g \<rho> i T (GetInput g y 1)"
    "\<rho> i = canon T (signed_op op (signed_op p (val T (\<rho> (GetInput g x 0))) (val T (\<rho> (GetInput g x 1))))
              (signed_op q (val T (\<rho> (GetInput g y 0))) (val T (\<rho> (GetInput g y 1)))))"
proof -
  note B = bin_instD [OF assms(1)]
  have pq: "arith_opcode p" "arity p = 2" "arith_opcode q" "arity q = 2" using assms(5,6) by auto
  show "operand n g \<rho> i T (GetInput g x 0)" "operand n g \<rho> i T (GetInput g x 1)" "operand n g \<rho> i T (GetInput g y 0)" "operand n g \<rho> i T (GetInput g y 1)"
    using operand_input [OF B(10) assms(3) pq(1)] operand_input [OF B(11) assms(4) pq(3)] pq(2,4) by simp_all
  have "val T (\<rho> x) = wrap T (signed_op p (val T (\<rho> (GetInput g x 0))) (val T (\<rho> (GetInput g x 1))))"
    "val T (\<rho> y) = wrap T (signed_op q (val T (\<rho> (GetInput g y 0))) (val T (\<rho> (GetInput g y 1))))"
    using operand_op(2) [OF B(1,10,6)] operand_op(2) [OF B(1,11,6)] eval_signed [OF assms(5)] eval_signed [OF assms(6)] assms(3,4) pq B(6)
    by (simp_all add: val_canon)
  then show "\<rho> i = canon T (signed_op op (signed_op p (val T (\<rho> (GetInput g x 0))) (val T (\<rho> (GetInput g x 1))))
              (signed_op q (val T (\<rho> (GetInput g y 0))) (val T (\<rho> (GetInput g y 1)))))"
    using bin_inst_value [OF assms(1) eval_signed [OF assms(2)]] B(6,7) by (simp add: signed_op_def canon_def wrap_ring)
qed

lemma TrySimplifySubAddAdd_sound:
  assumes "bin_inst (Suc n) fp Op_Sub T g i x y \<rho>" "opcode_of g x = Op_Add" "opcode_of g y = Op_Add"
  shows "step_sound fp i g \<rho> (Some (TrySimplifySubAddAdd osr g i x y))"
proof -
  note B = bin_instD [OF assms(1)]
  note W = two_sums [OF assms(1) _ assms(2,3), simplified]
  note N = new_inputs_sound [OF assms(1), of Op_Sub n, simplified]
  show ?thesis using B(3) N [OF W(2,4)] N [OF W(2,3)] N [OF W(1,4)] N [OF W(1,3)] W(5) step_sound_same [OF B(1), of i False]
    by (simp add: TrySimplifySubAddAdd_def Let_def signed_op_def)
qed

lemma VisitSubFinalize_sound:
  assumes "bin_inst (Suc n) fp Op_Sub T g i x y \<rho>"
  shows "sound fp i g \<rho> (Some (VisitSubFinalize osr g i x y))"
proof -
  note B = bin_instD [OF assms]
  obtain g' b \<rho>' where R: "TryReassociateShlShlAddSub osr g i = (g', b)" "sim fp i g \<rho> g' \<rho>'" "\<not> b \<longrightarrow> g' = g"
    using TryReassociate_sound [OF assms, of osr] by blast
  have add: "sound fp i g \<rho> (Some (let (g, a, ret) = TrySimplifySubAddAdd osr g i x y in (g, a)))" if "opcode_of g x = Op_Add" "opcode_of g y = Op_Add"
    using TrySimplifySubAddAdd_sound [OF assms that, of osr] by (auto simp: step_sound_def sound_def)
  show ?thesis
  proof (cases b)
    case True
    then show ?thesis using R B(3) sound_sim [OF R(2)] by (simp add: VisitSubFinalize_def applied_def)
  next
    case False
    then have "TryReassociateShlShlAddSub osr g i = (g, False)" using R(1,3) by simp
    then show ?thesis using B(3) add sound_same [OF B(1)] by (simp add: VisitSubFinalize_def kept_def)
  qed
qed

lemma wrap_val_id: "is_int_type T \<Longrightarrow> wrap T x = wrap T (val T w) \<Longrightarrow> wrap T x = val T w"
  by (simp add: val_wrapped)

text \<open>The rules of a subtraction: of negations, of a negation, with a sum or difference of the other operand.\<close>

lemma sub_negs:
  assumes "bin_inst (Suc n) fp Op_Sub T g i x y \<rho>" "opcode_of g x = Op_Neg" "opcode_of g y = Op_Neg"
  shows "sound fp i g \<rho> (Some (applied (set_input (set_input g i 0 (GetInput g y 0)) i 1 (GetInput g x 0))))"
proof -
  note B = bin_instD [OF assms(1)]
  have "canon T (val T (\<rho> x) - val T (\<rho> y)) = canon T (val T (\<rho> (GetInput g y 0)) - val T (\<rho> (GetInput g x 0)))"
    unfolding operand_values(1) [OF B(1,10,6) assms(2)] operand_values(1) [OF B(1,11,6) assms(3)]
    using B(6,7) by (intro canonI) (simp add: wrap_ring)
  moreover have "GetInput g y 0 < length (insts g)" "GetInput g x 0 < length (insts g)"
    using operandD(1) [OF operand_input [OF B(11) assms(3)]] operandD(1) [OF operand_input [OF B(10) assms(2)]] by simp_all
  ultimately show ?thesis unfolding put_eqs(4) [OF assms(1)] applied_def
    using bin_inst_value [OF assms(1)] by (intro sound_sim [OF put_sim [OF assms(1)]]) simp_all
qed

lemma sub_neg:
  assumes "bin_inst (Suc n) fp Op_Sub T g i x y \<rho>" "opcode_of g y = Op_Neg"
  shows "sound fp i g \<rho> (Some (applied (SetOpcode (set_input g i 1 (GetInput g y 0)) i Op_Add)))"
proof -
  note B = bin_instD [OF assms(1)]
  have "canon T (val T (\<rho> x) - val T (\<rho> y)) = canon T (val T (\<rho> x) + val T (\<rho> (GetInput g y 0)))"
    unfolding operand_values(1) [OF B(1,11,6) assms(2)] using B(6,7) by (intro canonI) (simp add: wrap_ring)
  moreover have "x < length (insts g)" "GetInput g y 0 < length (insts g)"
    using operandD(1) [OF B(10)] operandD(1) [OF operand_input [OF B(11) assms(2)]] by simp_all
  ultimately show ?thesis unfolding put_eqs(2) [OF assms(1)] applied_def
    using bin_inst_value [OF assms(1)] by (intro sound_sim [OF put_sim [OF assms(1)]]) simp_all
qed

lemma sub_sub:
  assumes "bin_inst (Suc n) fp Op_Sub T g i x y \<rho>" "opcode_of g y = Op_Sub" "GetInput g y 0 = x"
  shows "sound fp i g \<rho> (Some (applied (ReplaceUsers g i (GetInput g y 1))))"
proof -
  note B = bin_instD [OF assms(1)]
  have z: "operand n g \<rho> i T (GetInput g y 1)" using operand_input [OF B(11) assms(2)] by simp
  have "wrap T (val T (\<rho> x) - val T (\<rho> y)) = val T (\<rho> (GetInput g y 1))"
    using operand_values(4) [OF B(1,11,6) assms(2)] assms(3) B(6,7) by (intro wrap_val_id) (simp_all add: wrap_ring)
  then have "\<rho> (GetInput g y 1) = \<rho> i" using bin_inst_value [OF assms(1)] canonicalD [OF operandD(3) [OF z]] by (simp add: canon_def)
  then show ?thesis unfolding applied_def using operandD(1) [OF z] B(1) by (intro sound_sim [OF sim_replace]) simp_all
qed

lemma sub_undo:
  assumes "bin_inst (Suc n) fp Op_Sub T g i x y \<rho>"
  obtains g1 g2 b c where "TrySimplifyAddSub Op_Add 0 osr g i x y = (g1, b)" "TrySimplifyAddSub Op_Add 1 osr g1 i x y = (g2, c)"
    "bin_inst (Suc n) fp Op_Sub T g2 i x y \<rho>" "sim fp i g \<rho> g2 \<rho>"
proof -
  note B = bin_instD [OF assms]
  have R: "result_at (Suc n) fp T g i x y \<rho> (val T (\<rho> x) - val T (\<rho> y))" using bin_inst_result [OF assms] by simp
  obtain g1 b where 1: "TrySimplifyAddSub Op_Add 0 osr g i x y = (g1, b)" "replaced_by i \<rho> g g1"
  proof (rule TrySimplifyAddSub_sound [OF R, of Op_Add 0 osr])
    assume "opcode_of g x = Op_Add" "GetInput g x (1 - 0) = y"
    then show "wrap T (val T (\<rho> x) - val T (\<rho> y)) = val T (\<rho> (GetInput g x 0))"
      using operand_values(3) [OF B(1,10,6)] B(6,7) by (intro wrap_val_id) (simp_all add: wrap_ring)
  qed (simp_all add: that)
  note P1 = replaced_by_bin_inst [OF 1(2) assms]
  note B1 = bin_instD [OF P1]
  obtain g2 c where 2: "TrySimplifyAddSub Op_Add 1 osr g1 i x y = (g2, c)" "replaced_by i \<rho> g1 g2"
  proof (rule TrySimplifyAddSub_sound [OF replaced_by_result [OF 1(2) R], of Op_Add 1 osr])
    assume "opcode_of g1 x = Op_Add" "GetInput g1 x (1 - 1) = y"
    then show "wrap T (val T (\<rho> x) - val T (\<rho> y)) = val T (\<rho> (GetInput g1 x 1))"
      using operand_values(3) [OF B1(1,10,6)] B(6,7) by (intro wrap_val_id) (simp_all add: wrap_ring)
  qed (simp_all add: that)
  show thesis using that [OF 1(1) 2(1) replaced_by_bin_inst [OF 2(2) P1]]
      sim_trans [OF replaced_by_sim [OF B(1) 1(2)] replaced_by_sim [OF B1(1) 2(2)]] by blast
qed

lemma VisitSub_sound:
  assumes "visit_ready fp Op_Sub g i \<rho>"
  shows "sound fp i g \<rho> (VisitSub fp osr g i)"
proof (rule visit_fold [OF assms])
  show "fold_ok g i \<rho> (ConstFoldingSub fp g i)" using assms by (intro Sub_ok) (simp_all add: visit_ready_def)
  assume fold: "ConstFoldingSub fp g i = Some (g, False)"
  show "sound fp i g \<rho> (VisitSub fp osr g i)"
  proof (cases "IsFloatType (type_of g i)")
    case True
    then show ?thesis using visit_ready_wf(1) [OF assms] fold by (simp add: VisitSub_def kept_def sound_same)
  next
    case nf: False
    have P: "bin_inst (Suc 1) fp Op_Sub (type_of g i) g i (GetInput g i 0) (GetInput g i 1) \<rho>"
      using visit_ready_bin_inst [OF assms nf] by (simp add: numeral_2_eq_2)
    note wf = bin_instD(1) [OF P]
    obtain g0 a r \<rho>0 where K: "TrySimplifyAddSubWithConstInput fp osr g i = Some (g0, a, r)" "sim fp i g \<rho> g0 \<rho>0" "\<not> r \<longrightarrow> g0 = g \<and> \<not> a"
      using TrySimplifyAddSubWithConstInput_sound [OF P, of osr] by (auto simp: step_sound_def)
    show ?thesis
    proof (cases r)
      case True
      then show ?thesis using fold nf K sound_sim [OF K(2)] by (simp add: VisitSub_def Let_def)
    next
      case False
      then have K': "TrySimplifyAddSubWithConstInput fp osr g i = Some (g, False, False)" using K by simp
      obtain g1 g2 b c where U: "TrySimplifyAddSub Op_Add 0 osr g i (GetInput g i 0) (GetInput g i 1) = (g1, b)"
        "TrySimplifyAddSub Op_Add 1 osr g1 i (GetInput g i 0) (GetInput g i 1) = (g2, c)"
        "bin_inst (Suc 1) fp Op_Sub (type_of g i) g2 i (GetInput g i 0) (GetInput g i 1) \<rho>" "sim fp i g \<rho> g2 \<rho>"
        by (rule sub_undo [OF P, of osr])
      have "sound fp i g2 \<rho> (let (g, d) = VisitSubFinalize osr g2 i (GetInput g i 0) (GetInput g i 1) in Some (g, b \<or> c \<or> d))"
        using VisitSubFinalize_sound [OF U(3), of osr] by (auto simp: sound_def split: prod.splits)
      then show ?thesis
        using fold nf K' U(1,2) sub_negs [OF P] sub_neg [OF P] sub_sub [OF U(3)] sound_step [OF U(4)] sound_same [OF wf] sound_same [OF bin_instD(1) [OF U(3)]]
        by (simp add: VisitSub_def Let_def kept_def)
    qed
  qed
qed (simp_all add: VisitSub_def)

text \<open>The sum of two negations is negated.\<close>

lemma sim_trans_new: "sim fp i g \<rho> g1 \<rho>1 \<Longrightarrow> sim fp n g1 \<rho>1 g2 \<rho>2 \<Longrightarrow> length (insts g) \<le> n \<Longrightarrow> sim fp i g \<rho> g2 \<rho>2"
  by (auto simp: sim_def bystander_def)

lemma add_negs:
  assumes "bin_inst (Suc n) fp Op_Add T g i x y \<rho>" "opcode_of g x = Op_Neg" "opcode_of g y = Op_Neg"
  shows "sound fp i g \<rho> (Some (applied (fst (CreateAndInsertInst (set_input (set_input g i 0 (GetInput g x 0)) i 1 (GetInput g y 0)) Op_Neg i [i]))))"
proof -
  note B = bin_instD [OF assms(1)]
  let ?a = "GetInput g x 0" and ?b = "GetInput g y 0" and ?n = "length (insts g)"
  have l: "?a < ?n" "?a \<noteq> i" "?b < ?n" "?b \<noteq> i"
    using operandD(1,2) [OF operand_input [OF B(10) assms(2)]] operandD(1,2) [OF operand_input [OF B(11) assms(3)]] by simp_all
  obtain g' c where 1: "CreateAndInsertInst (put g i Op_Add ?a ?b) Op_Neg i [i] = (g', c)" by fastforce
  have ip: "i < length (insts (put g i Op_Add ?a ?b))" using B(2) by (simp add: put_def)
  note C = Create_insts [OF 1 ip]
  define s where "s = (new_inst Op_Neg T [i])\<lparr>GetBasicBlock := GetBasicBlock (the_inst g i)\<rparr>"
  define v where "v = canon T (val T (\<rho> ?a) + val T (\<rho> ?b))"
  define h where "h = g\<lparr>insts := map (renamed i ?n) (insts g) @ [new_inst Op_Parameter T []]\<rparr>"
  define f where "f = (\<lambda>s :: inst. s\<lparr>GetOpcode := Op_Add, inputs := [?a, ?b]\<rparr>)"
  let ?\<rho> = "\<rho>(?n := \<rho> i)" and ?h = "update_inst h i f"
  have 2: "sim fp i g \<rho> h ?\<rho>"
    using B(6) by (intro sim_created [OF B(1,2), of _ "new_inst Op_Parameter T []"]) (simp_all add: h_def eval_op_def eval_int_def)
  have h: "i < length (insts h)" "\<not> IsConst h i" "\<forall>j < length (insts h). i \<notin> set (inputs (the_inst h j))" "type_of h i = T"
    using B(2,5) bin_inst_not_const [OF assms(1)] by (auto simp: h_def nth_append IsConst_def renamed_def less_Suc_eq)
  have 3: "sim fp i h ?\<rho> ?h (?\<rho>(i := v))"
  proof (rule sim_free [OF sim_wf [OF 2] h(1-3)])
    show "v = w" if "eval_op fp (f (the_inst h i)) (map ?\<rho> (inputs (f (the_inst h i)))) = Some w" for w
      using that l h(4) B(6) by (simp add: f_def eval_op_arith v_def)
  qed (use l in \<open>auto simp: f_def h_def\<close>)
  have "\<rho> i = canon T (- val T v)"
  proof -
    have "canon T (val T (\<rho> x) + val T (\<rho> y)) = canon T (- val T v)"
      unfolding operand_values(1) [OF B(1,10,6) assms(2)] operand_values(1) [OF B(1,11,6) assms(3)] v_def val_canon [OF B(6)]
      using B(6,7) by (intro canonI) (simp add: wrap_ring)
    then show ?thesis using bin_inst_value [OF assms(1)] by simp
  qed
  then have 4: "sim fp ?n ?h (?\<rho>(i := v)) (update_inst ?h ?n (\<lambda>_. s)) (?\<rho>(i := v))"
    using B(2,6) h(1) by (intro sim_update [OF sim_wf [OF 3]]) (auto simp: s_def h_def nth_append IsConst_def eval_op_block eval_op_arith)
  have "insts g' = insts (update_inst ?h ?n (\<lambda>_. s))"
  proof -
    have "(map (renamed i ?n) (insts g))[i := f (renamed i ?n (the_inst g i))] = map (renamed i ?n) ((insts g)[i := f (the_inst g i)])"
      using l by (simp add: map_update renamed_def f_def)
    then show ?thesis using C(1,6) B(2,5) by (simp add: put_def update_inst_def h_def f_def s_def nth_append list_update_append)
  qed
  then have "sim fp i g \<rho> g' (?\<rho>(i := v))"
    using sim_trans_new [OF sim_trans [OF 2 3] 4] sim_cong [of g' "update_inst ?h ?n (\<lambda>_. s)"] C(2) by (simp add: put_def h_def)
  then show ?thesis unfolding put_eqs(4) [OF assms(1)] 1 applied_def by (simp add: sound_sim)
qed

text \<open>A negated operand is subtracted.\<close>

lemma TrySimplifyNeg_cases:
  assumes "bin_inst (Suc n) fp Op_Add T g i x y \<rho>"
  shows "TrySimplifyNeg osr g i = (g, False)
    \<or> (\<exists>p q. TrySimplifyNeg osr g i = (put g i Op_Sub p q, True) \<and> p < length (insts g) \<and> q < length (insts g)
          \<and> \<rho> i = canon T (val T (\<rho> p) - val T (\<rho> q)))"
proof -
  note B = bin_instD [OF assms]
  have neg: "GetInput g u 0 < length (insts g)" "\<rho> i = canon T (val T (\<rho> w) - val T (\<rho> (GetInput g u 0)))"
    if "u = x \<and> w = y \<or> u = y \<and> w = x" "opcode_of g u = Op_Neg" for u w
  proof -
    have u: "operand (Suc n) g \<rho> i T u" using that(1) B(10,11) by auto
    show "GetInput g u 0 < length (insts g)" using operandD(1) [OF operand_input [OF u that(2)]] by simp
    have "\<rho> i = canon T (val T (\<rho> w) + val T (\<rho> u))" using bin_inst_value [OF assms] that(1) by (auto simp: add.commute)
    also have "\<dots> = canon T (val T (\<rho> w) - val T (\<rho> (GetInput g u 0)))"
      unfolding operand_values(1) [OF B(1) u B(6) that(2)] using B(6,7) by (intro canonI) (simp add: wrap_ring)
    finally show "\<rho> i = canon T (val T (\<rho> w) - val T (\<rho> (GetInput g u 0)))" .
  qed
  let ?skip = "opcode_of g x = Op_Neg \<and> SkipThisPeepholeInOSR osr g i (GetInput g x 0)
      \<or> opcode_of g y = Op_Neg \<and> SkipThisPeepholeInOSR osr g i (GetInput g y 0)"
  consider ?skip | "\<not> ?skip" "opcode_of g x = Op_Neg" "\<not> IsConst g y" | "\<not> ?skip" "\<not> (opcode_of g x = Op_Neg \<and> \<not> IsConst g y)" by blast
  then show ?thesis
  proof cases
    case 1
    then show ?thesis using B(8,9) by (simp add: TrySimplifyNeg_def kept_def Let_def)
  next
    case 2
    have "eval_int Op_Add T (\<rho> y) (\<rho> x) = Some (val T (\<rho> x) + val T (\<rho> y))" by simp
    note P = put_bin_inst(2) [OF assms B(4,11,10) this]
    have P': "bin_inst (Suc n) fp Op_Add T (put g i Op_Add y x) i y x \<rho>" by (rule P) (use bin_inst_value [OF assms] in simp)
    have xi: "x \<noteq> i" using operandD(2) [OF B(10)] .
    then have x: "opcode_of (put g i Op_Add y x) x = Op_Neg" "GetInput (put g i Op_Add y x) x 0 = GetInput g x 0"
      using 2(2) B(2) by (simp_all add: put_def GetInput_def)
    have "TrySimplifyNeg osr g i = (put g i Op_Sub y (GetInput g x 0), True)"
      using 2 x B(8,9) put_eqs(4) [OF assms] put_eqs(3) [OF P'] put_eqs(7) [OF assms] by (auto simp: TrySimplifyNeg_def applied_def Let_def)
    then show ?thesis using neg [of x y] 2(2) operandD(1) [OF B(11)] by blast
  next
    case 3
    show ?thesis
    proof (cases "opcode_of g y = Op_Neg")
      case True
      have "TrySimplifyNeg osr g i = (put g i Op_Sub x (GetInput g y 0), True)"
        using 3 True B(8,9) put_eqs(3) [OF assms] by (auto simp: TrySimplifyNeg_def applied_def Let_def)
      then show ?thesis using neg [of y x] True operandD(1) [OF B(10)] by blast
    next
      case False
      then have "TrySimplifyNeg osr g i = (g, False)" using 3 B(8,9) by (auto simp: TrySimplifyNeg_def kept_def Let_def)
      then show ?thesis by blast
    qed
  qed
qed

text \<open>The value stays the sum of \<open>x\<close> and \<open>y\<close>, whatever computes it.\<close>

definition sum_at :: "nat \<Rightarrow> fpu \<Rightarrow> ir_type \<Rightarrow> graph \<Rightarrow> inst_id \<Rightarrow> inst_id \<Rightarrow> inst_id \<Rightarrow> (inst_id \<Rightarrow> u64) \<Rightarrow> bool" where
  "sum_at n fp T g i x y \<rho> \<longleftrightarrow>
     result_at n fp T g i x y \<rho> (val T (\<rho> x) + val T (\<rho> y)) \<and> (opcode_of g i = Op_Add \<longrightarrow> bin_inst n fp Op_Add T g i x y \<rho>)"

lemma sum_at_bin_inst: "bin_inst n fp Op_Add T g i x y \<rho> \<Longrightarrow> sum_at n fp T g i x y \<rho>"
  using bin_inst_result by (simp add: sum_at_def)

lemma TrySimplifyNeg_sound:
  assumes "bin_inst (Suc n) fp Op_Add T g i x y \<rho>"
  obtains g' d where "TrySimplifyNeg osr g i = (g', d)" "sim fp i g \<rho> g' \<rho>" "sum_at (Suc n) fp T g' i x y \<rho>"
proof -
  note B = bin_instD [OF assms]
  consider "TrySimplifyNeg osr g i = (g, False)" | p q where "TrySimplifyNeg osr g i = (put g i Op_Sub p q, True)" "p < length (insts g)"
    "q < length (insts g)" "\<rho> i = canon T (val T (\<rho> p) - val T (\<rho> q))" using TrySimplifyNeg_cases [OF assms, of osr] by blast
  then show thesis
  proof cases
    case 1
    then show thesis using that sim_refl [OF B(1)] sum_at_bin_inst [OF assms] by blast
  next
    case 2
    have s: "sim fp i g \<rho> (put g i Op_Sub p q) \<rho>" using 2 by (intro put_sim [OF assms]) simp_all
    have "result_at (Suc n) fp T g i x y \<rho> (val T (\<rho> x) + val T (\<rho> y))" using bin_inst_result [OF assms] by simp
    then have "sum_at (Suc n) fp T (put g i Op_Sub p q) i x y \<rho>"
      using sim_wf [OF s] B(2) operand_update [OF B(10) wf_graph_inputs [OF B(1)] B(2)] operand_update [OF B(11) wf_graph_inputs [OF B(1)] B(2)]
      by (simp add: sum_at_def result_at_def visited_def put_def IsConst_def)
    then show thesis using that [OF 2(1) s] by blast
  qed
qed

lemma replaced_by_sum: "replaced_by i \<rho> g g' \<Longrightarrow> sum_at n fp T g i x y \<rho> \<Longrightarrow> sum_at n fp T g' i x y \<rho>"
proof -
  assume R: "replaced_by i \<rho> g g'" "sum_at n fp T g i x y \<rho>"
  then have "i < length (insts g)" by (simp add: sum_at_def result_at_def visited_def)
  then have "opcode_of g' i = opcode_of g i" using R(1) by (auto simp: replaced_by_def ReplaceUsers_inst)
  then show ?thesis using R replaced_by_result replaced_by_bin_inst by (auto simp: sum_at_def)
qed

lemma sum_at_swap: "sum_at n fp T g i x y \<rho> \<Longrightarrow> result_at n fp T g i y x \<rho> (val T (\<rho> x) + val T (\<rho> y))"
  by (simp add: sum_at_def result_at_def)

lemma add_undo:
  assumes "sum_at (Suc n) fp T g i x y \<rho>"
  obtains g1 g2 b c where "TrySimplifyAddSub Op_Sub 0 osr g i x y = (g1, b)" "TrySimplifyAddSub Op_Sub 0 osr g1 i y x = (g2, c)"
    "sum_at (Suc n) fp T g2 i x y \<rho>" "sim fp i g \<rho> g2 \<rho>"
proof -
  have wf: "wf_graph fp g \<rho>" "num_type T" using assms by (simp_all add: sum_at_def result_at_def visited_def)
  have R: "result_at (Suc n) fp T g i x y \<rho> (val T (\<rho> x) + val T (\<rho> y))" using assms by (simp add: sum_at_def)
  obtain g1 b where 1: "TrySimplifyAddSub Op_Sub 0 osr g i x y = (g1, b)" "replaced_by i \<rho> g g1"
  proof (rule TrySimplifyAddSub_sound [OF R, of Op_Sub 0 osr])
    have x: "operand (Suc n) g \<rho> i T x" using R by (simp add: result_at_def)
    assume "opcode_of g x = Op_Sub" "GetInput g x (1 - 0) = y"
    then show "wrap T (val T (\<rho> x) + val T (\<rho> y)) = val T (\<rho> (GetInput g x 0))"
      using operand_values(4) [OF wf(1) x] wf(2) by (intro wrap_val_id) (simp_all add: wrap_ring)
  qed (simp_all add: that)
  note S1 = replaced_by_sum [OF 1(2) assms]
  have wf1: "wf_graph fp g1 \<rho>" using S1 by (simp add: sum_at_def result_at_def visited_def)
  obtain g2 c where 2: "TrySimplifyAddSub Op_Sub 0 osr g1 i y x = (g2, c)" "replaced_by i \<rho> g1 g2"
  proof (rule TrySimplifyAddSub_sound [OF sum_at_swap [OF S1], of Op_Sub 0 osr])
    have y: "operand (Suc n) g1 \<rho> i T y" using S1 by (simp add: sum_at_def result_at_def)
    assume "opcode_of g1 y = Op_Sub" "GetInput g1 y (1 - 0) = x"
    then show "wrap T (val T (\<rho> x) + val T (\<rho> y)) = val T (\<rho> (GetInput g1 y 0))"
      using operand_values(4) [OF wf1 y] wf(2) by (intro wrap_val_id) (simp_all add: wrap_ring)
  qed (simp_all add: that)
  show thesis using that [OF 1(1) 2(1) replaced_by_sum [OF 2(2) S1]] sim_trans [OF replaced_by_sim [OF wf(1) 1(2)] replaced_by_sim [OF wf1 2(2)]] by blast
qed

text \<open>Sums of a difference and a sum, and of two differences.\<close>

lemma TrySimplifyAddSubAdd_sound:
  assumes "bin_inst (Suc n) fp Op_Add T g i x y \<rho>" "u = x \<and> w = y \<or> u = y \<and> w = x" "opcode_of g u = Op_Sub" "opcode_of g w = Op_Add"
  shows "step_sound fp i g \<rho> (Some (TrySimplifyAddSubAdd osr g i u w))"
proof -
  note B = bin_instD [OF assms(1)]
  note N = new_inputs_sound [OF assms(1), of Op_Add n, simplified]
  have W: "operand n g \<rho> i T (GetInput g u 0)" "operand n g \<rho> i T (GetInput g w 0)" "operand n g \<rho> i T (GetInput g w 1)"
    "\<rho> i = canon T ((val T (\<rho> (GetInput g u 0)) - val T (\<rho> (GetInput g u 1))) + (val T (\<rho> (GetInput g w 0)) + val T (\<rho> (GetInput g w 1))))"
    using assms(2-4) two_sums [OF assms(1) disjI1 [OF refl] refl refl] by (auto simp: signed_op_def add.commute)
  show ?thesis using B(3) N [OF W(1,3)] N [OF W(1,2)] W(4) step_sound_same [OF B(1), of i False]
    by (simp add: TrySimplifyAddSubAdd_def signed_op_def)
qed

lemma TrySimplifyAddSubSub_sound:
  assumes "bin_inst (Suc n) fp Op_Add T g i x y \<rho>" "opcode_of g x = Op_Sub" "opcode_of g y = Op_Sub"
  shows "step_sound fp i g \<rho> (Some (TrySimplifyAddSubSub osr g i x y))"
proof -
  note B = bin_instD [OF assms(1)]
  note W = two_sums [OF assms(1) disjI1 [OF refl] assms(2,3) disjI2 [OF refl] disjI2 [OF refl]]
  note N = new_inputs_sound [OF assms(1), of Op_Sub n, simplified]
  show ?thesis using N [OF W(1,4)] N [OF W(3,2)] W(5) step_sound_same [OF B(1), of i False]
    by (simp add: TrySimplifyAddSubSub_def signed_op_def algebra_simps)
qed

lemma step_sound_fst: "step_sound fp i g \<rho> (Some r) \<Longrightarrow> sound fp i g \<rho> (Some (fst r, b))"
  by (auto simp: step_sound_def sound_def)

lemma VisitAddFinalize_sound:
  assumes "sum_at (Suc n) fp T g i x y \<rho>"
  shows "sound fp i g \<rho> (Some (VisitAddFinalize osr g i x y))"
proof (cases "opcode_of g i = Op_Add")
  case False
  have "wf_graph fp g \<rho>" using assms by (simp add: sum_at_def result_at_def visited_def)
  then show ?thesis using False by (simp add: VisitAddFinalize_def kept_def sound_same)
next
  case True
  then have P: "bin_inst (Suc n) fp Op_Add T g i x y \<rho>" using assms by (simp add: sum_at_def)
  note wf = bin_instD(1) [OF P]
  obtain g' b \<rho>' where R: "TryReassociateShlShlAddSub osr g i = (g', b)" "sim fp i g \<rho> g' \<rho>'" "\<not> b \<longrightarrow> g' = g"
    using TryReassociate_sound [OF P, of osr] by blast
  show ?thesis
  proof (cases b)
    case b: True
    then show ?thesis using R True sound_sim [OF R(2)] by (simp add: VisitAddFinalize_def applied_def)
  next
    case False
    then have F: "TryReassociateShlShlAddSub osr g i = (g, False)" using R(1,3) by simp
    define u where "u = (if opcode_of g x = Op_Add \<and> opcode_of g y = Op_Sub then y else x)"
    define w where "w = (if opcode_of g x = Op_Add \<and> opcode_of g y = Op_Sub then x else y)"
    have uw: "u = x \<and> w = y \<or> u = y \<and> w = x" by (simp add: u_def w_def)
    have sw: "(if opcode_of g x = Op_Add \<and> opcode_of g y = Op_Sub then (y, x) else (x, y)) = (u, w)" by (simp add: u_def w_def)
    have fin: "VisitAddFinalize osr g i x y =
        (let (g, a, ret) = (if opcode_of g u = Op_Sub \<and> opcode_of g w = Op_Add then TrySimplifyAddSubAdd osr g i u w else (g, False, False))
         in if ret then (g, a)
            else if opcode_of g u = Op_Sub \<and> opcode_of g w = Op_Sub
                 then (let (g, a, ret) = TrySimplifyAddSubSub osr g i u w in (g, a)) else (g, a))"
      using True F sw unfolding VisitAddFinalize_def by (simp only: Let_def prod.case if_False if_True simp_thms not_False_eq_True)
    show ?thesis
    proof (cases "opcode_of g u = Op_Sub \<and> opcode_of g w = Op_Add")
      case True
      then obtain g1 a r \<rho>1 where S: "TrySimplifyAddSubAdd osr g i u w = (g1, a, r)" "sim fp i g \<rho> g1 \<rho>1" "\<not> r \<longrightarrow> g1 = g \<and> \<not> a"
        using TrySimplifyAddSubAdd_sound [OF P uw, of osr] by (auto simp: step_sound_def)
      then show ?thesis using fin True sound_sim [OF S(2)] sound_same [OF wf] by (cases r) simp_all
    next
      case False
      have "sound fp i g \<rho> (Some (let (g, a, ret) = TrySimplifyAddSubSub osr g i u w in (g, a)))" if "opcode_of g u = Op_Sub" "opcode_of g w = Op_Sub"
      proof -
        have "u = x" "w = y" using that uw by (auto simp: u_def w_def)
        then show ?thesis using step_sound_fst [OF TrySimplifyAddSubSub_sound [OF P, of osr]] that by (simp add: case_prod_unfold Let_def)
      qed
      then show ?thesis using fin False sound_same [OF wf] by simp
    qed
  qed
qed

text \<open>
  The rule for the negation of a boolean is left to theory \<open>CompareNegation\<close>: here the instruction does not have that form, once its
  constant is the second operand.
\<close>

definition no_negation :: "user_lists \<Rightarrow> graph \<Rightarrow> inst_id \<Rightarrow> bool" where
  "no_negation ls g i \<longleftrightarrow>
     (if IsConst g (GetInput g i 0)
      then (case SwapInputs i ls of None \<Rightarrow> False | Some ls' \<Rightarrow> IsNegationPattern (swap_inputs g i) ls' i = Some False)
      else IsNegationPattern g ls i = Some False)"

lemma VisitAdd_sound:
  assumes "visit_ready fp Op_Add g i \<rho>" "no_negation ls g i"
  shows "sound fp i g \<rho> (VisitAdd fp fuel osr ls g i)"
proof (rule visit_fold [OF assms(1)])
  show "fold_ok g i \<rho> (ConstFoldingAdd fp g i)" using assms by (intro Add_ok) (simp_all add: visit_ready_def)
  assume fold: "ConstFoldingAdd fp g i = Some (g, False)"
  show "sound fp i g \<rho> (VisitAdd fp fuel osr ls g i)"
  proof (cases "IsFloatType (type_of g i)")
    case True
    then show ?thesis using visit_ready_wf(1) [OF assms(1)] fold by (simp add: VisitAdd_def kept_def sound_same)
  next
    case nf: False
    have "bin_inst (Suc 1) fp Op_Add (type_of g i) g i (GetInput g i 0) (GetInput g i 1) \<rho>"
      using visit_ready_bin_inst [OF assms(1) nf] by (simp add: numeral_2_eq_2)
    then obtain g1 a x y where S: "TrySwapInputs g i = Some (g1, a)" "sim fp i g \<rho> g1 \<rho>" "bin_inst (Suc 1) fp Op_Add (type_of g i) g1 i x y \<rho>"
      "a \<longleftrightarrow> IsConst g (GetInput g i 0)" "g1 = (if a then swap_inputs g i else g)"
      by (rule TrySwapInputs_sound [OF _ commutes_ops(1)])
    note B = bin_instD [OF S(3)]
    obtain ls1 where L: "(if a then SwapInputs i ls else Some ls) = Some ls1" "IsNegationPattern g1 ls1 i = Some False"
      using assms(2) S(4,5) by (auto simp: no_negation_def split: if_splits option.splits)
    obtain g2 b r \<rho>2 where K: "TrySimplifyAddSubWithConstInput fp osr g1 i = Some (g2, b, r)" "sim fp i g1 \<rho> g2 \<rho>2" "\<not> r \<longrightarrow> g2 = g1 \<and> \<not> b"
      using TrySimplifyAddSubWithConstInput_sound [OF S(3), of osr] by (auto simp: step_sound_def)
    have "sound fp i g1 \<rho> (VisitAdd fp fuel osr ls g i)"
    proof (cases r)
      case True
      then show ?thesis using fold nf S(1) L(1) K sound_sim [OF K(2)] by (simp add: VisitAdd_def)
    next
      case False
      then have K': "TrySimplifyAddSubWithConstInput fp osr g1 i = Some (g1, False, False)" using K by simp
      let ?both = "opcode_of g1 x = Op_Neg \<and> opcode_of g1 y = Op_Neg"
      show ?thesis
      proof (cases "?both \<and> IsSingleUser g1 x \<and> IsSingleUser g1 y")
        case True
        then show ?thesis using fold nf S(1) L(1) K' B(8,9) add_negs [OF S(3)] sound_same [OF B(1)] by (simp add: VisitAdd_def Let_def)
      next
        case single: False
        obtain g3 d where N: "(if ?both then kept g1 else TrySimplifyNeg osr g1 i) = (g3, d)" "sim fp i g1 \<rho> g3 \<rho>"
          "sum_at (Suc 1) fp (type_of g i) g3 i x y \<rho>"
        proof (cases ?both)
          case True
          then show thesis using that [of g1 False] sim_refl [OF B(1)] sum_at_bin_inst [OF S(3)] by (simp add: kept_def)
        next
          case False
          then show thesis using that TrySimplifyNeg_sound [OF S(3), of osr] by (metis (full_types))
        qed
        obtain g4 g5 e f where U: "TrySimplifyAddSub Op_Sub 0 osr g3 i x y = (g4, e)" "TrySimplifyAddSub Op_Sub 0 osr g4 i y x = (g5, f)"
          "sum_at (Suc 1) fp (type_of g i) g5 i x y \<rho>" "sim fp i g3 \<rho> g5 \<rho>"
          by (rule add_undo [OF N(3), of osr])
        obtain g6 h where F: "VisitAddFinalize osr g5 i x y = (g6, h)" by fastforce
        have neg: "TrySimplifyNegationPattern fuel osr ls1 g1 i = Some (g1, False, False)" using L(2) by (simp add: TrySimplifyNegationPattern_def)
        have "VisitAdd fp fuel osr ls g i = Some (g6, a \<or> d \<or> e \<or> f \<or> h)"
          using fold nf S(1) L(1) K' B(8,9) single N(1) U(1,2) F neg by (auto simp: VisitAdd_def Let_def)
        moreover have "sound fp i g5 \<rho> (Some (g6, b))" for b using VisitAddFinalize_sound [OF U(3), of osr] F by (auto simp: sound_def)
        ultimately show ?thesis using sound_step [OF sim_trans [OF N(2) U(4)]] by simp
      qed
    qed
    then show ?thesis by (rule sound_step [OF S(2)])
  qed
qed (simp_all add: VisitAdd_def)

end
