(* ===== verification/PeepholeShifts.thy ===== *)
theory PeepholeShifts
  imports PeepholeLogic
begin

unbundle bit_operations_syntax

text \<open>
  Soundness of the peephole rules of the three shifts: shifts by zero and by more than the width, repeated shifts, and the shift
  back that becomes a mask or a cast.
\<close>

section \<open>Shifts\<close>

lemma type_bits_pos: "0 < type_bits T" "type_bits T \<le> 64"
  by (cases T; simp)+

lemma wrap_zero [simp]: "wrap T 0 = 0" "canon T 0 = 0"
  by (simp_all add: wrap_def canon_def)

text \<open>Shifting twice is shifting by the sum.\<close>

lemma shl_shl: "num_type T \<Longrightarrow> wrap T (wrap T (a * 2 ^ k) * 2 ^ l) = wrap T (a * 2 ^ (k + l))"
  by (simp add: wrap_ring power_add mult.assoc)

lemma shl_all: "num_type T \<Longrightarrow> type_bits T \<le> k \<Longrightarrow> wrap T (a * 2 ^ k) = 0"
proof -
  assume T: "num_type T" "type_bits T \<le> k"
  have "take_bit (type_bits T) (a * 2 ^ k) = take_bit (type_bits T) (push_bit k a)" by (simp add: push_bit_eq_mult)
  also have "\<dots> = 0" using T(2) by (simp add: take_bit_push_bit)
  finally have "wrap T (a * 2 ^ k) = wrap T 0" using T(1) by (intro wrap_cong) simp_all
  then show ?thesis by simp
qed

lemma shr_wrap: "num_type T \<Longrightarrow> take_bit (type_bits T) (wrap T (take_bit (type_bits T) a div 2 ^ k)) = take_bit (type_bits T) a div 2 ^ k"
proof -
  assume T: "num_type T"
  have "take_bit (type_bits T) a div 2 ^ k = take_bit (type_bits T - k) (drop_bit k a)"
    by (simp add: drop_bit_take_bit flip: drop_bit_eq_div)
  moreover have "take_bit (type_bits T) (take_bit (type_bits T - k) (drop_bit k a)) = take_bit (type_bits T - k) (drop_bit k a)"
    by (simp add: min.absorb2)
  ultimately show ?thesis using T by (simp add: take_bits_wrap)
qed

lemma shr_shr: "num_type T \<Longrightarrow> take_bit (type_bits T) (wrap T (take_bit (type_bits T) a div 2 ^ k)) div 2 ^ l = take_bit (type_bits T) a div 2 ^ (k + l)"
  by (simp add: shr_wrap power_add zdiv_zmult2_eq)

lemma shr_all: "type_bits T \<le> k \<Longrightarrow> take_bit (type_bits T) a div 2 ^ k = 0"
  by (simp add: drop_bit_take_bit flip: drop_bit_eq_div)

lemma val_signed_range:
  assumes "num_type T" "IsTypeSigned T"
  shows "val T w = signed_take_bit (type_bits T - 1) (sint w)" "wrap T x = signed_take_bit (type_bits T - 1) x"
  using assms by (simp_all add: val_def wrap_def)

lemma ashr_wrap:
  assumes "num_type T" "IsTypeSigned T"
  shows "wrap T (val T w div 2 ^ k) = val T w div 2 ^ k"
proof -
  let ?n = "type_bits T - 1" and ?a = "val T w"
  have "- (2 ^ ?n) \<le> ?a" "?a < 2 ^ ?n" using val_signed_range(1) [OF assms]
    by (simp_all add: signed_take_bit_int_greater_eq_minus_exp signed_take_bit_int_less_exp)
  moreover have "- (2 ^ ?n) \<le> ?a div 2 ^ k" if "- (2 ^ ?n) \<le> ?a"
  proof -
    have "- (2 ^ ?n) * 2 ^ k \<le> - (2 ^ ?n) * (1 :: int)" by (rule mult_left_mono_neg) simp_all
    also have "\<dots> \<le> ?a" using that by simp
    finally have "- (2 ^ ?n) * 2 ^ k div 2 ^ k \<le> ?a div 2 ^ k" by (rule zdiv_mono1) simp
    moreover have "- (2 ^ ?n) * 2 ^ k div 2 ^ k = - (2 ^ ?n :: int)" by (rule nonzero_mult_div_cancel_right) simp
    ultimately show ?thesis by (simp only:)
  qed
  moreover have "?a div 2 ^ k < 2 ^ ?n" if "?a < 2 ^ ?n"
  proof (cases "0 \<le> ?a")
    case True
    then have "?a div 2 ^ k \<le> ?a" using zdiv_mono2 [of ?a 1 "2 ^ k"] by simp
    then show ?thesis using that by simp
  next
    case False
    then have "?a div 2 ^ k < 0" by (simp add: div_neg_pos_less0)
    then show ?thesis by (rule less_le_trans) simp
  qed
  ultimately show ?thesis unfolding val_signed_range(2) [OF assms] by (simp add: signed_take_bit_int_eq_self)
qed

lemma ashr_ashr: "num_type T \<Longrightarrow> IsTypeSigned T \<Longrightarrow> wrap T (val T w div 2 ^ k) div 2 ^ l = val T w div 2 ^ (k + l)"
  by (simp add: ashr_wrap power_add zdiv_zmult2_eq)

lemma ashr_all:
  assumes "num_type T" "IsTypeSigned T" "type_bits T - 1 \<le> k"
  shows "val T w div 2 ^ k = val T w div 2 ^ (type_bits T - 1)"
proof -
  have d: "val T w div 2 ^ l = (if val T w < 0 then - 1 else 0)" if "type_bits T - 1 \<le> l" for l
  proof -
    have p: "(2 :: int) ^ (type_bits T - 1) \<le> 2 ^ l" using that by (rule power_increasing) simp
    have "- (2 ^ l) \<le> val T w" "val T w < 2 ^ l"
      using p signed_take_bit_int_greater_eq_minus_exp [of "type_bits T - 1" "sint w"] signed_take_bit_int_less_exp [of "type_bits T - 1" "sint w"]
      unfolding val_signed_range(1) [OF assms(1,2)] by linarith+
    then show ?thesis by (cases "val T w < 0") (auto intro: int_div_pos_eq [of _ _ _ "val T w + 2 ^ l"] simp: div_pos_pos_trivial)
  qed
  show ?thesis using d [OF assms(3)] d [OF order_refl] by simp
qed

text \<open>The three shifts of a value by a number of bits.\<close>

definition shift :: "opcode \<Rightarrow> ir_type \<Rightarrow> int \<Rightarrow> nat \<Rightarrow> int" where
  "shift op T a k = (if op = Op_Shl then a * 2 ^ k else if op = Op_Shr then take_bit (type_bits T) a div 2 ^ k else a div 2 ^ k)"

definition is_shift :: "opcode \<Rightarrow> ir_type \<Rightarrow> bool" where
  "is_shift op T \<longleftrightarrow> op = Op_Shl \<or> op = Op_Shr \<or> op = Op_AShr \<and> IsTypeSigned T"

lemma eval_shift: "is_shift op T \<Longrightarrow> eval_int op T x y = Some (shift op T (val T x) (unat y mod type_bits T))"
  by (auto simp: is_shift_def shift_def)

lemma shift_shift: "num_type T \<Longrightarrow> is_shift op T \<Longrightarrow> canon T (shift op T (wrap T (shift op T (val T w) k)) l) = canon T (shift op T (val T w) (k + l))"
  by (auto simp: is_shift_def shift_def shl_shl shr_shr ashr_ashr intro!: canonI)

lemma shift_zero: "num_type T \<Longrightarrow> is_shift op T \<Longrightarrow> wrap T (shift op T (val T w) 0) = val T w"
proof -
  assume T: "num_type T"
  then have "wrap T (take_bit (type_bits T) (val T w)) = wrap T (val T w)" by (intro wrap_cong) simp_all
  then show ?thesis using T by (simp add: shift_def val_wrapped)
qed

lemma shift_all:
  assumes "num_type T" "is_shift op T" "type_bits T \<le> k"
  shows "op \<noteq> Op_AShr \<Longrightarrow> canon T (shift op T (val T w) k) = 0"
    "op = Op_AShr \<Longrightarrow> canon T (shift op T (val T w) k) = canon T (shift op T (val T w) (type_bits T - 1))"
  using assms ashr_all [of T k w] by (auto simp: is_shift_def shift_def shl_all shr_all canon_def)

text \<open>What is known of the amounts: a word below the width, or the masked word.\<close>

lemma mask_amount:
  assumes "num_type T"
  shows "unat (of_nat (type_bits T) - 1 :: u64) = type_bits T - 1"
  using assms by (cases T) simp_all

lemma amount_sum:
  assumes "num_type T"
  shows "unat ((y AND (of_nat (type_bits T) - 1)) + (z AND (of_nat (type_bits T) - 1)) :: u64) = unat y mod type_bits T + unat z mod type_bits T"
proof -
  have "unat y mod type_bits T < 64" "unat z mod type_bits T < 64" using type_bits_pos [of T] by (meson mod_less_divisor order_less_le_trans)+
  then show ?thesis using shift_count(1) [of T] assms by (simp add: unat_word_ariths)
qed

lemma operand_mono: "operand (Suc n) g \<rho> i T x \<Longrightarrow> operand n g \<rho> i T x"
proof (induction n arbitrary: x)
  case 0
  then show ?case by (rule operand_base)
next
  case (Suc n)
  have "operand 0 g \<rho> i T x" by (rule operand_base [OF Suc.prems])
  with Suc show ?case unfolding operand.simps(2) by blast
qed

lemma bin_inst_less: "bin_inst (Suc n) fp op T g i x y \<rho> \<Longrightarrow> bin_inst n fp op T g i x y \<rho>"
  unfolding bin_inst_def using operand_mono by blast

lemma CreateIntConst_type: "ConstFoldingCreateIntConst g i v False = (g', c) \<Longrightarrow> is_int_type (type_of g' c)"
  by (auto simp: ConstFoldingCreateIntConst_def FindOrCreateConstant_u32_def FindOrCreateConstant_u64_def find_or_create_def new_const_def
      AddConstInStartBlock_def Let_def find_Some_iff IsEqualConst_32_def IsEqualConst_typed_def split: if_splits option.splits)

text \<open>A small constant is an operand of every type.\<close>

lemma small_canonical:
  assumes "is_int_type T" "T \<noteq> BOOL" "w < 64"
  shows "canonical T w"
proof -
  have u: "uint w < 64" using assms(3) by (simp add: word_less_def)
  have st: "signed_take_bit n (uint w) = uint w" if "6 \<le> n" for n
  proof (rule signed_take_bit_int_eq_self)
    have "(2 :: int) ^ 6 \<le> 2 ^ n" using that by (rule power_increasing) simp
    then show "uint w < 2 ^ n" using u by simp
    show "- (2 ^ n) \<le> uint w" by (rule order_trans [OF _ unsigned_greater_eq]) simp
  qed
  have s: "sint w = uint w" using st [of 63] by (simp add: sint_uint)
  have "wrap T (uint w) = uint w"
    using assms(1,2) u by (cases T) (simp_all add: wrap_def IsTypeSigned_def st take_bit_int_eq_self)
  then show ?thesis using s by (simp add: canonical_def val_def)
qed

lemma small_const_operand:
  assumes "visited fp T g i \<rho>" "k < 64"
  obtains g' c \<rho>' where "ConstFoldingCreateIntConst g i (of_nat k) False = (g', c)" "extends g \<rho> g' \<rho>'" "wf_graph fp g' \<rho>'"
    "IsConst g' c" "\<rho>' c = of_nat k" "\<forall>n. operand n g' \<rho>' i T c"
proof -
  obtain g' c \<rho>' where C: "ConstFoldingCreateIntConst g i (of_nat k) False = (g', c)" "extends g \<rho> g' \<rho>'" "wf_graph fp g' \<rho>'" "c < length (insts g')"
    "(of_nat k :: u64) < 64 \<longrightarrow> \<rho>' c = of_nat k" "IsConst g' c" "c \<noteq> i"
    by (rule CreateIntConst_sound [OF assms(1), of "of_nat k"])
  have v: "\<rho>' c = of_nat k" "(of_nat k :: u64) < 64" using C(5) small_word(1) [OF assms(2)] by auto
  have T: "is_int_type (type_of g' c)" by (rule CreateIntConst_type [OF C(1)])
  have "opcode_of g' c = Op_Constant" using C(6) by (simp add: IsConst_def)
  moreover have "type_of g' c \<noteq> BOOL"
    using C(1) by (auto simp: ConstFoldingCreateIntConst_def FindOrCreateConstant_u32_def FindOrCreateConstant_u64_def find_or_create_def new_const_def
        AddConstInStartBlock_def Let_def find_Some_iff IsEqualConst_32_def IsEqualConst_typed_def split: if_splits option.splits)
  ultimately have "operand n g' \<rho>' i T c" for n
    using C(4,7) T v visitedD(5,6) [OF assms(1)] by (cases n) (auto simp: operand.simps typed_def intro!: small_canonical)
  then show thesis using that C(1-3,6) v(1) by blast
qed

lemma no_users: "z \<noteq> i \<Longrightarrow> UsersCount (ReplaceUsers g i z) i = 0"
  by (auto simp: UsersCount_def ReplaceUsers_def filter_empty_conv)

definition only :: "inst_id \<Rightarrow> graph \<Rightarrow> (inst_id \<Rightarrow> u64) \<Rightarrow> graph \<Rightarrow> (inst_id \<Rightarrow> u64) \<Rightarrow> bool" where
  "only i g \<rho> g' \<rho>' \<longleftrightarrow> (\<forall>j < length (insts g). \<rho>' j = \<rho> j \<and> (j \<noteq> i \<longrightarrow> the_inst g' j = the_inst g j))"

text \<open>After the simplification the shift has no users, or it is still one, by less than the width unless its operand is the same shift.\<close>

definition shifted :: "nat \<Rightarrow> fpu \<Rightarrow> opcode \<Rightarrow> ir_type \<Rightarrow> graph \<Rightarrow> inst_id \<Rightarrow> inst_id \<Rightarrow> (inst_id \<Rightarrow> u64) \<Rightarrow> graph \<Rightarrow> (inst_id \<Rightarrow> u64) \<Rightarrow> bool" where
  "shifted n fp op T g i y \<rho> g' \<rho>' \<longleftrightarrow>
     UsersCount g' i = 0
     \<or> (\<exists>x' y'. bin_inst n fp op T g' i x' y' \<rho>' \<and> x' < length (insts g) \<and> only i g \<rho> g' \<rho>'
          \<and> (IsConst g' y' \<longrightarrow> opcode_of g' x' = op \<or>
               IsConst g y \<and> unat (\<rho>' y') < type_bits T \<and> (unat (\<rho> y) mod type_bits T \<noteq> 0 \<longrightarrow> unat (\<rho>' y') \<noteq> 0)))"

lemma put_amount:
  assumes "bin_inst (Suc n) fp op T g i x y \<rho>" "is_shift op T" "operand n g \<rho> i T z" "k < type_bits T" "\<rho> i = canon T (shift op T (val T (\<rho> z)) k)"
    "IsConst g y" "unat (\<rho> y) mod type_bits T \<noteq> 0 \<longrightarrow> k \<noteq> 0"
  obtains g' c \<rho>' where "ConstFoldingCreateIntConst g i (of_nat k) False = (g', c)" "sim fp i g \<rho> (put g' i op z c) \<rho>'"
    "shifted n fp op T g i y \<rho> (put g' i op z c) \<rho>'" "extends g \<rho> g' \<rho>'" "bin_inst n fp op T g' i x y \<rho>'"
proof -
  note B = bin_instD [OF assms(1)]
  have k: "k < 64" using assms(4) type_bits_pos(2) [of T] by linarith
  obtain g' c \<rho>' where C: "ConstFoldingCreateIntConst g i (of_nat k) False = (g', c)" "extends g \<rho> g' \<rho>'" "wf_graph fp g' \<rho>'"
    "IsConst g' c" "\<rho>' c = of_nat k" "\<forall>n. operand n g' \<rho>' i T c"
    by (rule small_const_operand [OF bin_inst_visited [OF assms(1)] k])
  note E = bin_inst_extends [OF bin_inst_less [OF assms(1)] C(2,3)]
  have z: "\<rho>' z = \<rho> z" "\<rho>' i = \<rho> i" using C(2) operandD(1) [OF assms(3)] B(2) by (auto simp: extends_def)
  have u: "unat (\<rho>' c) = k" using C(5) small_word(2) [OF k] by simp
  have zo: "operand n g' \<rho>' i T z" by (rule operand_extends [OF assms(3) wf_graph_inputs [OF B(1)] C(2)])
  have "eval_int op T (\<rho>' z) (\<rho>' c) = Some (shift op T (val T (\<rho> z)) k)" using eval_shift [OF assms(2)] z(1) u assms(4) by simp
  note P = put_bin_inst [OF E(2) B(4) zo spec [OF C(6)] this, unfolded z(2), OF assms(5)]
  have "only i g \<rho> (put g' i op z c) \<rho>'" using C(2) bin_instD(2) [OF E(2)] by (auto simp: only_def put_def extends_def)
  moreover have "IsConst (put g' i op z c) c" using C(4) bin_instD(2) [OF E(2)] bin_inst_not_const [OF E(2)] by (auto simp: put_def IsConst_def)
  ultimately have "shifted n fp op T g i y \<rho> (put g' i op z c) \<rho>'"
    unfolding shifted_def using P(2) operandD(1) [OF assms(3)] u assms(4,6,7) by blast
  then show thesis using that [OF C(1) sim_trans [OF E(1) P(1)] _ C(2) E(2)] by blast
qed

lemma TryCombineShiftConst_sound:
  assumes "bin_inst (Suc n) fp op T g i x y \<rho>" "is_shift op T" "opcode_of g x = op" "IsConst g y"
  shows "\<exists>g' a b \<rho>'. TryCombineShiftConst osr g i y = Some (g', a, b)
    \<and> (if a then sim fp i g \<rho> g' \<rho>' \<and> shifted n fp op T g i y \<rho> g' \<rho>' else g' = g)"
proof -
  note B = bin_instD [OF assms(1)]
  let ?z = "GetInput g x 0" and ?c = "GetInput g x 1" and ?n = "type_bits T"
  let ?k = "unat (\<rho> ?c) mod ?n" and ?l = "unat (\<rho> y) mod ?n"
  have op: "arith_opcode op" "arity op = 2" "op \<in> {Op_Shl, Op_Shr, Op_AShr}" using assms(2) by (auto simp: is_shift_def)
  note X = const_operand [OF assms(1,3) op(1,2)]
  define mask where "mask = (of_nat ?n - 1 :: u64)"
  define w where "w = (\<rho> y AND mask) + (\<rho> ?c AND mask)"
  have w: "unat w = ?l + ?k" unfolding w_def mask_def using amount_sum B(6,7) by simp
  have m: "unat mask = ?n - 1" unfolding mask_def using mask_amount B(6,7) by simp
  have le: "w \<le> mask \<longleftrightarrow> ?l + ?k < ?n" using w m type_bits_pos(1) [of T] by (simp add: word_le_nat_alt) linarith
  have "\<rho> x = canon T (shift op T (val T (\<rho> ?z)) ?k)"
    using operand_op(2) [OF B(1,10,6)] eval_shift [OF assms(2)] assms(3) op(1,2) by simp
  then have i: "\<rho> i = canon T (shift op T (val T (\<rho> ?z)) (?k + ?l))"
    using bin_inst_value [OF assms(1) eval_shift [OF assms(2)]] shift_shift [OF conjI [OF B(6,7)] assms(2)] B(6) by (simp add: val_canon)
  show ?thesis
  proof (cases "IsConst g ?c")
    case False
    then show ?thesis using B(3,8) op(3) by (auto simp: TryCombineShiftConst_def Let_def)
  next
    case True
    have y: "GetIntValue g y = \<rho> y" "GetIntValue g ?c = \<rho> ?c" using operand_val(2) [OF B(1)] X(2) B(6,11) True assms(4) by blast+
    have unfold: "TryCombineShiftConst osr g i y =
        (if w \<le> mask \<or> op = Op_AShr then
           (if SkipThisPeepholeInOSR osr g i ?z then Some (g, False, True)
            else let (g, newCnst) = ConstFoldingCreateIntConst g i (min w mask) False
                 in Some (set_input (set_input g i 0 (GetInput g x 0)) i 1 newCnst, True, False))
         else let (g, newCnst) = ConstFoldingCreateIntConst g i 0 False in Some (ReplaceUsers g i newCnst, True, False))"
      using op(3) True B(3,5,6,7,8) X(3) y
      by (elim insertE emptyE) (simp_all add: TryCombineShiftConst_def GetTypeSize_int w_def mask_def Let_def)
    show ?thesis
    proof (cases "w \<le> mask \<or> op = Op_AShr")
      case fits: True
      let ?m = "min (?l + ?k) (?n - 1)"
      have "min w mask = of_nat (unat (min w mask))" by simp
      also have "unat (min w mask) = ?m" using w m by (simp add: min_def word_le_nat_alt)
      finally have mw: "min w mask = of_nat ?m" .
      have lt: "?m < ?n" using type_bits_pos(1) [of T] by linarith
      have nz: "?l \<noteq> 0 \<longrightarrow> ?m \<noteq> 0" using mod_less_divisor [OF type_bits_pos(1), of "unat (\<rho> y)" T] by linarith
      have v: "\<rho> i = canon T (shift op T (val T (\<rho> ?z)) ?m)"
      proof (cases "?l + ?k < ?n")
        case True
        then have "?m = ?k + ?l" by simp
        then show ?thesis using i by simp
      next
        case False
        then have "op = Op_AShr" "?n \<le> ?k + ?l" "?m = ?n - 1" using fits le by auto
        then show ?thesis using i shift_all(2) [OF conjI [OF B(6,7)] assms(2)] by simp
      qed
      obtain g' c \<rho>' where C: "ConstFoldingCreateIntConst g i (of_nat ?m) False = (g', c)" "sim fp i g \<rho> (put g' i op ?z c) \<rho>'"
        "shifted n fp op T g i y \<rho> (put g' i op ?z c) \<rho>'" "extends g \<rho> g' \<rho>'" "bin_inst n fp op T g' i x y \<rho>'"
        by (rule put_amount [OF assms(1,2) X(1) lt v assms(4) nz])
      have "GetInput g' x 0 = ?z" using C(4) operandD(1) [OF B(10)] by (simp add: extends_def GetInput_def)
      then show ?thesis using unfold fits C mw put_eqs(4) [OF C(5)] by (auto simp: Let_def)
    next
      case False
      then have "?n \<le> ?k + ?l" "op \<noteq> Op_AShr" using le by auto
      then have 0: "\<rho> i = 0" using i shift_all(1) [OF conjI [OF B(6,7)] assms(2)] by simp
      obtain g' c \<rho>' where C: "ConstFoldingCreateIntConst g i (of_nat 0) False = (g', c)" "extends g \<rho> g' \<rho>'" "wf_graph fp g' \<rho>'"
        "\<rho>' c = of_nat 0" "\<forall>n. operand n g' \<rho>' i T c"
        by (rule small_const_operand [OF bin_inst_visited [OF assms(1)], of 0]) simp_all
      note E = bin_inst_extends [OF assms(1) C(2,3)]
      have "\<rho>' i = 0" using 0 C(2) B(2) by (simp add: extends_def)
      then have "sim fp i g \<rho> (ReplaceUsers g' i c) \<rho>'"
        using sim_trans [OF E(1) bin_inst_replace(1) [OF E(2)]] C(4) operandD(1) [OF spec [OF C(5)]] by simp
      moreover have "shifted n fp op T g i y \<rho> (ReplaceUsers g' i c) \<rho>'"
        using no_users operandD(2) [OF spec [OF C(5)]] by (simp add: shifted_def)
      ultimately show ?thesis using unfold False C(1) by (auto simp: Let_def)
    qed
  qed
qed

text \<open>The test of the bytecode optimizer looks at the low half of the word only.\<close>

lemma narrow_amount:
  assumes "num_type T" "IsInt32Bit T" "canonical T w" "unat (ucast (ucast w :: u32) :: u64) < 64"
  shows "ucast (ucast w :: u32) = w"
proof -
  have w: "w = word_of_int (wrap T (sint w))" using assms(3) by (simp add: canonical_def val_def)
  have hi: "bit w 31" if "32 \<le> n" "bit w n" for n
  proof -
    have "bit (word_of_int (wrap T (sint w)) :: u64) n" using that(2) w by simp
    then have "bit (wrap T (sint w)) 31" using assms(1,2) that(1) by (cases T) (auto simp: wrap_def IsTypeSigned_def IsInt32Bit_def bit_simps min_def split: if_splits)
    then have "bit (word_of_int (wrap T (sint w)) :: u64) 31" by (simp add: bit_simps)
    then show ?thesis using w by simp
  qed
  have "take_bit 6 (unat (ucast (ucast w :: u32) :: u64)) = unat (ucast (ucast w :: u32) :: u64)" using assms(4) by (simp add: take_bit_nat_eq_self)
  moreover have "\<not> bit (take_bit 6 (unat (ucast (ucast w :: u32) :: u64))) 31" by (simp add: bit_take_bit_iff)
  ultimately have "\<not> bit (unat (ucast (ucast w :: u32) :: u64)) 31" by simp
  then have "\<not> bit w 31" by (simp add: bit_simps)
  then have "n < 32" if "bit w n" for n using hi [of n] that by (cases "n < 32") auto
  then show ?thesis by (intro bit_word_eqI) (auto simp: bit_simps)
qed

lemma shifted_same:
  assumes "bin_inst (Suc n) fp op T g i x y \<rho>" "IsConst g y \<Longrightarrow> opcode_of g x = op \<or> unat (\<rho> y) < type_bits T"
  shows "shifted n fp op T g i y \<rho> g \<rho>"
proof -
  have "x < length (insts g)" using operandD(1) [OF bin_instD(10) [OF assms(1)]] .
  moreover have "unat (\<rho> y) mod type_bits T \<noteq> 0 \<longrightarrow> unat (\<rho> y) \<noteq> 0" by (cases "unat (\<rho> y) = 0") simp_all
  ultimately show ?thesis unfolding shifted_def only_def using bin_inst_less [OF assms(1)] assms(2) by blast
qed

lemma TrySimplifyShifts_sound:
  assumes "bin_inst (Suc n) fp op T g i x y \<rho>" "is_shift op T"
  shows "\<exists>g' a \<rho>'. TrySimplifyShifts osr g i = Some (g', a) \<and> sim fp i g \<rho> g' \<rho>' \<and> shifted n fp op T g i y \<rho> g' \<rho>'"
proof -
  note B = bin_instD [OF assms(1)]
  have op: "op \<in> {Op_Shl, Op_Shr, Op_AShr}" using assms(2) by (auto simp: is_shift_def)
  have T: "num_type T" using B(6,7) by simp
  define narrow where "narrow = (IsBytecodeOptimizer g \<and> IsInt32Bit T)"
  define sm :: u64 where "sm = (if narrow then ucast (ucast (of_nat (type_bits T) - 1 :: u64) :: u32) else of_nat (type_bits T) - 1)"
  define cv where "cv = (if narrow then ucast (ucast (\<rho> y) :: u32) else \<rho> y)"
  have sm: "sm = of_nat (type_bits T) - 1" using T by (cases T) (simp_all add: sm_def)
  show ?thesis
  proof (cases "IsConst g y")
    case False
    then have "TrySimplifyShifts osr g i = Some (g, False)" using op B(3,8,9) by (auto simp: TrySimplifyShifts_def kept_def)
    then show ?thesis using sim_refl [OF B(1)] shifted_same [OF assms(1)] False by blast
  next
    case C: True
    have y: "GetIntValue g y = \<rho> y" using operand_val(2) [OF B(1,11,6) C] .
    have unfold: "TrySimplifyShifts osr g i =
        (if IsEqualConst_int g y 0 then
           (if SkipThisPeepholeInOSR osr g i x then Some (kept g) else Some (applied (ReplaceUsers g i x)))
         else do {
           (g, combined, osrBlocked) \<leftarrow> (if op = opcode_of g x then TryCombineShiftConst osr g i y else Some (g, False, False));
           if combined then Some (applied g)
           else if osrBlocked then Some (kept g)
           else do {
             size \<leftarrow> GetTypeSize (objectPointerSize g) (type_of g i) (GetArch g);
             let narrow = IsBytecodeOptimizer g \<and> IsInt32Bit (type_of g i);
             let sizeMask = (if narrow then ucast (ucast (of_nat size - 1 :: u64) :: u32) else of_nat size - 1);
             let cnstValue = (if narrow then ucast (ucast (GetIntValue g y) :: u32) else GetIntValue g y);
             if sizeMask < cnstValue then
               let (g, shift) = ConstFoldingCreateIntConst g i (sizeMask AND cnstValue) False in Some (applied (set_input g i 1 shift))
             else Some (kept g) } })"
      using op C B(3,8,9) by (elim insertE emptyE) (simp_all add: TrySimplifyShifts_def Let_def)
    have rest: "\<exists>g' a \<rho>'. (if sm < cv then let (g, shift) = ConstFoldingCreateIntConst g i (sm AND cv) False in Some (applied (set_input g i 1 shift))
          else Some (kept g)) = Some (g', a) \<and> sim fp i g \<rho> g' \<rho>' \<and> shifted n fp op T g i y \<rho> g' \<rho>'"
    proof (cases "sm < cv")
      case True
      let ?k = "unat (\<rho> y) mod type_bits T"
      have "unat cv mod type_bits T = ?k"
      proof (cases narrow)
        case True
        have "unat cv = unat (\<rho> y) mod 2 ^ 32" using True by (simp add: cv_def unsigned_ucast_eq unsigned_take_bit_eq) (simp add: take_bit_eq_mod)
        moreover have "type_bits T dvd 2 ^ 32" using T True by (cases T) (simp_all add: narrow_def IsInt32Bit_def)
        ultimately show ?thesis by (simp add: mod_mod_cancel)
      qed (simp add: cv_def)
      then have "unat (sm AND cv) = ?k" using shift_count(1) [of T cv] T by (simp add: sm and.commute)
      then have w: "sm AND cv = of_nat ?k" by (metis of_nat_unat ucast_id)
      have k: "?k < type_bits T" using type_bits_pos(1) by simp
      have v: "\<rho> i = canon T (shift op T (val T (\<rho> x)) ?k)" using bin_inst_value [OF assms(1) eval_shift [OF assms(2)]] .
      obtain g' c \<rho>' where P: "ConstFoldingCreateIntConst g i (of_nat ?k) False = (g', c)" "sim fp i g \<rho> (put g' i op x c) \<rho>'"
        "shifted n fp op T g i y \<rho> (put g' i op x c) \<rho>'" "extends g \<rho> g' \<rho>'" "bin_inst n fp op T g' i x y \<rho>'"
        by (rule put_amount [OF assms operand_mono [OF B(10)] k v C]) blast
      show ?thesis using True w P(1-3) put_eqs(5) [OF P(5)] by (auto simp: applied_def)
    next
      case False
      then have "unat cv \<le> unat sm" by (simp add: word_le_nat_alt not_less)
      then have u: "unat cv < type_bits T" using mask_amount [OF T] type_bits_pos(1) [of T] by (simp add: sm)
      then have "cv = \<rho> y" using narrow_amount [OF T _ operandD(3) [OF B(11)]] type_bits_pos(2) [of T] by (auto simp: cv_def narrow_def)
      then show ?thesis using False u sim_refl [OF B(1)] shifted_same [OF assms(1)] by (auto simp: kept_def)
    qed
    show ?thesis
    proof (cases "IsEqualConst_int g y 0")
      case True
      then have "\<rho> y = 0" using operand_val(4) [OF B(1,11,6) C] by simp
      then have z: "\<rho> i = canon T (shift op T (val T (\<rho> x)) 0)" "unat (\<rho> y) < type_bits T"
        using bin_inst_value [OF assms(1) eval_shift [OF assms(2)]] type_bits_pos(1) [of T] by simp_all
      have "\<rho> x = \<rho> i" using z(1) shift_zero [OF T assms(2)] canonicalD [OF operandD(3) [OF B(10)]] by (simp add: canon_def)
      then have "sim fp i g \<rho> (ReplaceUsers g i x) \<rho>" "shifted n fp op T g i y \<rho> (ReplaceUsers g i x) \<rho>"
        using bin_inst_replace(1) [OF assms(1)] operandD(1,2) [OF B(10)] no_users by (simp_all add: shifted_def)
      moreover have "shifted n fp op T g i y \<rho> g \<rho>" using z(2) by (intro shifted_same [OF assms(1)]) simp
      ultimately show ?thesis using unfold True sim_refl [OF B(1)] by (auto simp: kept_def applied_def)
    next
      case nz: False
      have fin: "TrySimplifyShifts osr g i = (if sm < cv then let (g, shift) = ConstFoldingCreateIntConst g i (sm AND cv) False
          in Some (applied (set_input g i 1 shift)) else Some (kept g))"
        if "(if op = opcode_of g x then TryCombineShiftConst osr g i y else Some (g, False, False)) = Some (g, False, False)"
        using unfold nz that y T B(5) by (simp add: GetTypeSize_int Let_def sm_def cv_def narrow_def)
      show ?thesis
      proof (cases "op = opcode_of g x")
        case False
        then show ?thesis using fin rest by simp
      next
        case True
        obtain g' a b \<rho>' where K: "TryCombineShiftConst osr g i y = Some (g', a, b)"
          "if a then sim fp i g \<rho> g' \<rho>' \<and> shifted n fp op T g i y \<rho> g' \<rho>' else g' = g"
          using TryCombineShiftConst_sound [OF assms True [symmetric] C, of osr] by blast
        consider a | "\<not> a" b | "\<not> a" "\<not> b" by blast
        then show ?thesis
        proof cases
          case 1
          then show ?thesis using unfold nz True K by (auto simp: applied_def)
        next
          case 2
          have "shifted n fp op T g i y \<rho> g \<rho>" using True by (intro shifted_same [OF assms(1)]) simp
          then show ?thesis using 2 unfold nz True K sim_refl [OF B(1)] by (auto simp: kept_def)
        next
          case 3
          then show ?thesis using fin rest True K by simp
        qed
      qed
    qed
  qed
qed

lemma visit_ready_shift:
  assumes "visit_ready fp op g i \<rho>" "op \<in> {Op_Shl, Op_Shr, Op_AShr}"
  shows "bin_inst (Suc 1) fp op (type_of g i) g i (GetInput g i 0) (GetInput g i 1) \<rho>" "is_shift op (type_of g i)" "is_int_type (type_of g i)"
proof -
  show int: "is_int_type (type_of g i)" using assms by (auto simp: visit_ready_def)
  have "\<not> IsFloatType (type_of g i)" using int by (auto simp: IsFloatType_def)
  then show "bin_inst (Suc 1) fp op (type_of g i) g i (GetInput g i 0) (GetInput g i 1) \<rho>"
    using visit_ready_bin_inst [OF assms(1)] assms(2) by (auto simp: numeral_2_eq_2)
  show "is_shift op (type_of g i)" using assms by (auto simp: is_shift_def visit_ready_def)
qed

lemma VisitShl_sound:
  assumes "visit_ready fp Op_Shl g i \<rho>"
  shows "sound fp i g \<rho> (VisitShl osr g i)"
proof (rule visit_fold [OF assms])
  note R = visit_ready_shift [OF assms insertI1]
  show "fold_ok g i \<rho> (ConstFoldingShl g i)" using assms by (intro Shl_ok [of fp]) (simp_all add: visit_ready_def)
  show "sound fp i g \<rho> (VisitShl osr g i)" if "ConstFoldingShl g i = Some (g, False)"
    using that TrySimplifyShifts_sound [OF R(1,2), of osr] by (auto simp: VisitShl_def intro: sound_sim)
qed (simp_all add: VisitShl_def)

text \<open>A logical shift back is a mask.\<close>

lemma shl_shr:
  assumes "num_type T" "0 < k" "k < type_bits T"
  shows "canon T (take_bit (type_bits T) (wrap T (a * 2 ^ k)) div 2 ^ k) = canon T (a AND (2 ^ (type_bits T - k) - 1))"
proof -
  have "take_bit (type_bits T) (wrap T (a * 2 ^ k)) div 2 ^ k = drop_bit k (take_bit (type_bits T) (push_bit k a))"
    using assms(1) by (simp add: take_bits_wrap push_bit_eq_mult drop_bit_eq_div)
  also have "\<dots> = take_bit (type_bits T - k) (drop_bit k (push_bit k a))" by (simp add: drop_bit_take_bit)
  also have "\<dots> = take_bit (type_bits T - k) a" by (simp add: push_bit_eq_mult drop_bit_eq_div)
  also have "\<dots> = a AND (2 ^ (type_bits T - k) - 1)" by (simp add: take_bit_eq_mask mask_eq_exp_minus_1)
  finally show ?thesis by simp
qed

lemma val_mask:
  assumes "num_type T" "0 < t" "t < type_bits T"
  shows "val T (2 ^ t - 1) = 2 ^ t - 1"
proof -
  have "(2 ^ t - 1 :: u64) = word_of_int (2 ^ t - 1)" by simp
  then have "val T (2 ^ t - 1) = wrap T (2 ^ t - 1)" unfolding val_def using assms(1) by (simp only: wrap_word_int not_False_eq_True)
  also have "\<dots> = wrap T (mask t)" by (simp add: mask_eq_exp_minus_1)
  also have "\<dots> = mask t"
  proof -
    have "(2 :: int) ^ t \<le> 2 ^ (type_bits T - 1)" using assms(3) by (intro power_increasing) simp_all
    then have "mask t < (2 :: int) ^ (type_bits T - 1)" unfolding mask_eq_exp_minus_1 by linarith
    moreover have "- (2 ^ (type_bits T - 1)) \<le> (mask t :: int)" by (rule order_trans [OF _ mask_nonnegative_int]) simp
    ultimately have "signed_take_bit (type_bits T - 1) (mask t :: int) = mask t" by (rule signed_take_bit_int_eq_self [rotated])
    moreover have "take_bit (type_bits T) (mask t :: int) = mask t" using assms(3) by (simp add: min.absorb2)
    ultimately show ?thesis using assms(1) by (simp add: wrap_def)
  qed
  finally show ?thesis by (simp add: mask_eq_exp_minus_1)
qed

lemma mask_const:
  assumes "visited fp T g i \<rho>" "t < type_bits T" "0 < t"
  obtains g1 c1 g2 c2 \<rho>' where "FindOrCreateConstant_u64 g (2 ^ t - 1) = (g1, c1)"
    "(if IsBytecodeOptimizer g1 \<and> IsInt32Bit T then FindOrCreateConstant_u32 g1 (2 ^ t - 1) else (g1, c1)) = (g2, c2)"
    "extends g \<rho> g2 \<rho>'" "wf_graph fp g2 \<rho>'" "\<rho>' c2 = 2 ^ t - 1" "c2 < length (insts g2)" "c2 \<noteq> i" "type_of g1 i = T"
proof -
  note V = visitedD [OF assms(1)]
  obtain g1 c1 where 1: "FindOrCreateConstant_u64 g (2 ^ t - 1) = (g1, c1)" by fastforce
  have wf: "wf_consts g" using V(1) by (simp add: wf_graph_def)
  note E = const_result_extends [OF V(1) u64_const_result [OF wf, of "2 ^ t - 1", unfolded 1]]
  have T: "type_of g1 i = T" using E(1) V(2,4) by (simp add: extends_def)
  have ne: "c \<noteq> i" if "extends g \<rho> g' \<rho>'" "IsConst g' c" for g' \<rho>' c using that V(2,3) by (auto simp: extends_def IsConst_def)
  show thesis
  proof (cases "IsBytecodeOptimizer g1 \<and> IsInt32Bit T")
    case False
    then have "(if IsBytecodeOptimizer g1 \<and> IsInt32Bit T then FindOrCreateConstant_u32 g1 (2 ^ t - 1) else (g1, c1)) = (g1, c1)" by auto
    then show thesis using that [OF 1 _ E(1,2,4,3)] ne [OF E(1,5)] T by blast
  next
    case True
    obtain g2 c2 where 2: "FindOrCreateConstant_u32 g1 (2 ^ t - 1) = (g2, c2)" by fastforce
    have t: "t < 32" using True assms(2) V(6) by (cases T) (auto simp: IsInt32Bit_def)
    have "scast (mask t :: u32) = (mask t :: u64)" using t by (intro bit_word_eqI) (auto simp: bit_simps min_def)
    then have v: "scast (2 ^ t - 1 :: u32) = (2 ^ t - 1 :: u64)" by (simp add: mask_eq_exp_minus_1)
    have wf1: "wf_consts g1" using E(2) by (simp add: wf_graph_def)
    note F = const_result_extends [OF E(2) u32_const_result [OF wf1 conjunct1 [OF True] v [symmetric], unfolded 2]]
    note G = extends_trans [OF E(1) F(1)]
    show thesis using that [OF 1 _ G F(2,4,3)] True 2 ne [OF G F(5)] T by simp
  qed
qed

text \<open>A left shift that the simplified shift reads is one of the graph before, by the same amount.\<close>

lemma shifted_shl:
  assumes "bin_inst m fp op T g i x0 y0 \<rho>" "bin_inst (Suc n) fp op T g1 i x y \<rho>1" "x < length (insts g)" "only i g \<rho> g1 \<rho>1"
    "opcode_of g1 x = Op_Shl" "GetInput g1 x 1 = y"
  shows "opcode_of g x = Op_Shl" "type_of g x = T" "\<rho>1 y = \<rho> (GetInput g x 1)"
proof -
  note B = bin_instD [OF assms(2)]
  have s: "the_inst g1 x = the_inst g x" using assms(3,4) operandD(2) [OF B(10)] by (simp add: only_def)
  then show "opcode_of g x = Op_Shl" "type_of g x = T" using assms(5) operand_arith(1) [OF B(10)] by simp_all
  have "length (inputs (the_inst g1 x)) = 2" using operand_arith(2) [OF B(10)] assms(5) by simp
  then have "y \<in> set (inputs (the_inst g x))" using s assms(6) by (auto simp: GetInput_def)
  then have "y < length (insts g)" using wf_graph_inputs [OF bin_instD(1) [OF assms(1)]] assms(3) by (simp add: wf_inputs_def)
  then show "\<rho>1 y = \<rho> (GetInput g x 1)" using assms(4) s assms(6) by (simp add: only_def GetInput_def)
qed

text \<open>
  The mask for a pair of shifts by zero would be shifted by the width of the type.  It is not computed when the shift by the constant
  zero is removed before; a multiple of the width becomes zero, and with an OSR method the removal may be skipped: in these
  two cases the graph must have no left shift by zero of the type.
\<close>

definition shr_ok :: "bool \<Rightarrow> graph \<Rightarrow> inst_id \<Rightarrow> (inst_id \<Rightarrow> u64) \<Rightarrow> bool" where
  "shr_ok osr g i \<rho> \<longleftrightarrow>
     (IsConst g (GetInput g i 1) \<and> unat (\<rho> (GetInput g i 1)) mod type_bits (type_of g i) = 0 \<and> \<not> (IsEqualConst_int g (GetInput g i 1) 0 \<and> \<not> osr)
        \<longrightarrow> (\<forall>z < length (insts g). opcode_of g z = Op_Shl \<and> type_of g z = type_of g i \<longrightarrow> \<rho> (GetInput g z 1) \<noteq> 0))"

lemma shr_mask_sound:
  assumes "bin_inst (Suc n) fp Op_Shr T g i x y \<rho>" "opcode_of g x = Op_Shl" "GetInput g x 1 = y" "unat (\<rho> y) < type_bits T" "unat (\<rho> y) \<noteq> 0"
  obtains g1 c1 g2 c2 \<rho>' where "FindOrCreateConstant_u64 g (2 ^ (type_bits T - unat (\<rho> y)) - 1) = (g1, c1)"
    "(if IsBytecodeOptimizer g1 \<and> IsInt32Bit T then FindOrCreateConstant_u32 g1 (2 ^ (type_bits T - unat (\<rho> y)) - 1) else (g1, c1)) = (g2, c2)"
    "sound fp i g \<rho> (Some (applied (fst (CreateAndInsertInst g2 Op_And i [GetInput g x 0, c2]))))" "sim fp i g \<rho> g2 \<rho>'" "extends g \<rho> g2 \<rho>'"
    "type_of g1 i = T"
proof -
  note B = bin_instD [OF assms(1)]
  let ?k = "unat (\<rho> y)" and ?z = "GetInput g x 0"
  let ?t = "type_bits T - ?k"
  have T: "num_type T" and t: "?t < type_bits T" "0 < ?t" using B(6,7) assms(4,5) by simp_all
  obtain g1 c1 g2 c2 \<rho>' where M: "FindOrCreateConstant_u64 g (2 ^ ?t - 1) = (g1, c1)"
    "(if IsBytecodeOptimizer g1 \<and> IsInt32Bit T then FindOrCreateConstant_u32 g1 (2 ^ ?t - 1) else (g1, c1)) = (g2, c2)"
    "extends g \<rho> g2 \<rho>'" "wf_graph fp g2 \<rho>'" "\<rho>' c2 = 2 ^ ?t - 1" "c2 < length (insts g2)" "c2 \<noteq> i" "type_of g1 i = T"
    by (rule mask_const [OF bin_inst_visited [OF assms(1)] t])
  have z: "operand n g \<rho> i T ?z" using operand_input [OF B(10) assms(2)] by simp
  have x: "val T (\<rho> x) = wrap T (val T (\<rho> ?z) * 2 ^ ?k)"
    using operand_op(2) [OF B(1,10,6)] assms(2-4) B(6) by (simp add: val_canon)
  have "\<rho> i = canon T (take_bit (type_bits T) (val T (\<rho> x)) div 2 ^ ?k)" using bin_inst_value [OF assms(1)] assms(4) by simp
  then have v: "\<rho> i = canon T (val T (\<rho> ?z) AND (2 ^ ?t - 1))" unfolding x using shl_shr [OF T _ assms(4)] assms(5) by simp
  note E = bin_inst_extends [OF assms(1) M(3,4)]
  have z': "\<rho>' ?z = \<rho> ?z" "\<rho>' i = \<rho> i" "?z < length (insts g2)" using M(3) operandD(1) [OF z] B(2) by (auto simp: extends_def)
  have "sound fp i g2 \<rho>' (Some (applied (fst (CreateAndInsertInst g2 Op_And i [?z, c2]))))"
    using z' v val_mask [OF T t(2,1)] M(5-7) operandD(2) [OF z] by (intro create_sound [OF bin_inst_visited [OF E(2)]]) simp_all
  then show thesis using that [OF M(1,2) sound_step [OF E(1)] E(1) M(3,8)] by blast
qed

lemma VisitShr_sound:
  assumes "visit_ready fp Op_Shr g i \<rho>" "shr_ok osr g i \<rho>"
  shows "sound fp i g \<rho> (VisitShr osr g i)"
proof (rule visit_fold [OF assms(1)])
  let ?T = "type_of g i" and ?y = "GetInput g i 1"
  note R = visit_ready_shift [OF assms(1) insertI2 [OF insertI1]]
  show "fold_ok g i \<rho> (ConstFoldingShr g i)" using assms(1) by (intro Shr_ok [of fp]) (simp_all add: visit_ready_def)
  assume fold: "ConstFoldingShr g i = Some (g, False)"
  obtain g1 a \<rho>1 where S: "TrySimplifyShifts osr g i = Some (g1, a)" "sim fp i g \<rho> g1 \<rho>1" "shifted 1 fp Op_Shr ?T g i ?y \<rho> g1 \<rho>1"
    using TrySimplifyShifts_sound [OF R(1,2), of osr] by blast
  have same: "sound fp i g \<rho> (Some (g1, a))" by (rule sound_sim [OF S(2)])
  show "sound fp i g \<rho> (VisitShr osr g i)"
  proof (cases "UsersCount g1 i = 0 \<or> \<not> (opcode_of g1 (GetInput g1 i 0) = Op_Shl \<and> IsConst g1 (GetInput g1 i 1)
      \<and> GetInput g1 (GetInput g1 i 0) 1 = GetInput g1 i 1)")
    case True
    then show ?thesis using fold S(1) same by (auto simp: VisitShr_def Let_def)
  next
    case False
    then obtain x y where P: "bin_inst (Suc 0) fp Op_Shr ?T g1 i x y \<rho>1" "x < length (insts g)" "only i g \<rho> g1 \<rho>1"
      and k: "IsConst g1 y \<longrightarrow> opcode_of g1 x = Op_Shr \<or> IsConst g ?y \<and> unat (\<rho>1 y) < type_bits ?T \<and> (unat (\<rho> ?y) mod type_bits ?T \<noteq> 0 \<longrightarrow> unat (\<rho>1 y) \<noteq> 0)"
      using S(3) by (auto simp: shifted_def)
    note B = bin_instD [OF P(1)]
    have x: "opcode_of g1 x = Op_Shl" "IsConst g1 y" "GetInput g1 x 1 = y" using False B(8,9) by auto
    have zero: "\<not> (IsEqualConst_int g ?y 0 \<and> \<not> osr)"
    proof
      assume z: "IsEqualConst_int g ?y 0 \<and> \<not> osr"
      have "IsConst g ?y" using k x by auto
      then have "g1 = ReplaceUsers g i (GetInput g i 0)"
        using z S(1) bin_instD(3) [OF R(1)] by (simp add: TrySimplifyShifts_def Let_def SkipThisPeepholeInOSR_def applied_def)
      then show False using False no_users operandD(2) [OF bin_instD(10) [OF R(1)]] by simp
    qed
    have y: "unat (\<rho>1 y) < type_bits ?T" "unat (\<rho>1 y) \<noteq> 0"
      using k x zero assms(2) P(2) shifted_shl [OF R(1) P x(1,3)] by (auto simp: shr_ok_def unat_eq_zero)
    obtain g2 c2 g3 c3 \<rho>3 where M: "FindOrCreateConstant_u64 g1 (2 ^ (type_bits ?T - unat (\<rho>1 y)) - 1) = (g2, c2)"
      "(if IsBytecodeOptimizer g2 \<and> IsInt32Bit ?T then FindOrCreateConstant_u32 g2 (2 ^ (type_bits ?T - unat (\<rho>1 y)) - 1) else (g2, c2)) = (g3, c3)"
      "sound fp i g1 \<rho>1 (Some (applied (fst (CreateAndInsertInst g3 Op_And i [GetInput g1 x 0, c3]))))" "sim fp i g1 \<rho>1 g3 \<rho>3" "extends g1 \<rho>1 g3 \<rho>3"
      "type_of g2 i = ?T"
      by (rule shr_mask_sound [OF P(1) x(1,3) y])
    let ?t = "type_bits ?T - unat (\<rho>1 y)"
    have t: "?t < 64" "unat (\<rho>1 y) \<le> type_bits ?T" using y type_bits_pos(2) [of ?T] by linarith+
    have t32: "?t < 32" if "IsInt32Bit ?T" using that y B(7) by (cases ?T) (auto simp: IsInt32Bit_def)
    have type: "type_of g1 x = ?T" using operand_arith(1) [OF B(10)] x(1) by simp
    have v: "GetIntValue g1 y = \<rho>1 y" using operand_val(2) [OF B(1,11,6) x(2)] .
    have z: "GetInput g3 x 0 = GetInput g1 x 0" using M(5) operandD(1) [OF B(10)] by (simp add: extends_def GetInput_def)
    have "VisitShr osr g i =
        (if SkipThisPeepholeInOSR osr g3 (GetInput g1 x 0) i then Some (g3, a)
         else Some (applied (fst (CreateAndInsertInst g3 Op_And i [GetInput g1 x 0, c3]))))"
      using fold S(1) False B(5,6,7,8,9) x type v t t32 M(1,2,6) z by (auto simp: VisitShr_def GetTypeSize_int Let_def)
    then show ?thesis using sound_step [OF S(2)] M(3) sound_sim [OF M(4)] by simp
  qed
qed (simp_all add: VisitShr_def)

text \<open>
  An arithmetic shift back of the upper bits is a cast: of 24 or 16 bits at 32 bits, to 8 or 16 bits.  The other pairs of shifts by
  8, 16 and 24 bits, for which the rule makes a wrong cast, are left out.
\<close>

definition wrong_pair :: "ir_type \<Rightarrow> u64 \<Rightarrow> bool" where
  "wrong_pair T k \<longleftrightarrow> T \<noteq> INT8 \<and> k = 8 \<or> T = INT64 \<and> (k = 16 \<or> k = 24)"

definition ashr_ok :: "graph \<Rightarrow> inst_id \<Rightarrow> (inst_id \<Rightarrow> u64) \<Rightarrow> bool" where
  "ashr_ok g i \<rho> \<longleftrightarrow>
     IsBytecodeOptimizer g
     \<or> (\<forall>z < length (insts g). opcode_of g z = Op_Shl \<and> type_of g z = type_of g i \<longrightarrow> \<not> wrong_pair (type_of g i) (\<rho> (GetInput g z 1)))"

lemma shl_ashr:
  assumes "k = 24 \<and> t = INT8 \<or> k = 16 \<and> t = INT16" "is_int_type S" "canonical S w"
  shows "canon INT32 (wrap INT32 (val INT32 w * 2 ^ k) div 2 ^ k) = canon t (val S w)"
proof -
  have t: "num_type t" "k < 32" "type_bits t = 32 - k" "IsTypeSigned t" using assms(1) by (auto simp: IsTypeSigned_def)
  have "wrap t (sint w) = wrap t (val S w)" using wrap_word_int [of t "val S w"] t(1) canonicalD [OF assms(3)] by simp
  then have r: "signed_take_bit (31 - k) (sint w) = wrap t (val S w)" using assms(1) by (auto simp: wrap_def IsTypeSigned_def)
  have "wrap INT32 (val INT32 w * 2 ^ k) div 2 ^ k = drop_bit k (signed_take_bit 31 (push_bit k (signed_take_bit 31 (sint w))))"
    by (simp add: val_def wrap_def IsTypeSigned_def push_bit_eq_mult drop_bit_eq_div)
  also have "\<dots> = signed_take_bit (31 - k) (sint w)"
    using t(2) assms(1) by (intro bit_eqI) (auto simp: bit_simps min_def)
  finally have d: "wrap INT32 (val INT32 w * 2 ^ k) div 2 ^ k = wrap t (val S w)" using r by simp
  have "wrap INT32 (wrap t (val S w)) = wrap t (val S w)"
    using assms(1) by (auto simp: wrap_def IsTypeSigned_def)
  then show ?thesis unfolding d by (simp add: canon_def)
qed

lemma VisitAShr_sound:
  assumes "visit_ready fp Op_AShr g i \<rho>" "ashr_ok g i \<rho>"
  shows "sound fp i g \<rho> (VisitAShr osr g i)"
proof (rule visit_fold [OF assms(1)])
  let ?T = "type_of g i" and ?y = "GetInput g i 1"
  note R = visit_ready_shift [OF assms(1) insertI2 [OF insertI2 [OF insertI1]]]
  show "fold_ok g i \<rho> (ConstFoldingAShr g i)" using assms(1) by (intro AShr_ok [of fp]) (simp_all add: visit_ready_def)
  assume fold: "ConstFoldingAShr g i = Some (g, False)"
  obtain g1 a \<rho>1 where S: "TrySimplifyShifts osr g i = Some (g1, a)" "sim fp i g \<rho> g1 \<rho>1" "shifted 1 fp Op_AShr ?T g i ?y \<rho> g1 \<rho>1"
    using TrySimplifyShifts_sound [OF R(1,2), of osr] by blast
  have same: "sound fp i g \<rho> (Some (g1, a))" by (rule sound_sim [OF S(2)])
  show "sound fp i g \<rho> (VisitAShr osr g i)"
  proof (cases "IsBytecodeOptimizer g \<or> UsersCount g1 i = 0 \<or> \<not> (opcode_of g1 (GetInput g1 i 0) = Op_Shl \<and> IsConst g1 (GetInput g1 i 1)
      \<and> GetInput g1 (GetInput g1 i 0) 1 = GetInput g1 i 1)")
    case True
    then show ?thesis using fold S(1) same sound_same [OF bin_instD(1) [OF R(1)]] by (auto simp: VisitAShr_def Let_def kept_def)
  next
    case False
    then obtain x y where P: "bin_inst (Suc 0) fp Op_AShr ?T g1 i x y \<rho>1" "x < length (insts g)" "only i g \<rho> g1 \<rho>1"
      and k: "IsConst g1 y \<longrightarrow> opcode_of g1 x = Op_AShr \<or> unat (\<rho>1 y) < type_bits ?T"
      using S(3) by (auto simp: shifted_def)
    note B = bin_instD [OF P(1)]
    have x: "opcode_of g1 x = Op_Shl" "IsConst g1 y" "GetInput g1 x 1 = y" using False B(8,9) by auto
    let ?z = "GetInput g1 x 0"
    have type: "type_of g1 x = ?T" "operand 0 g1 \<rho>1 i ?T ?z" using operand_arith [OF B(10)] x(1) by simp_all
    have v: "GetIntValue g1 y = \<rho>1 y" using operand_val(2) [OF B(1,11,6) x(2)] .
    have u: "unat (\<rho>1 y) < type_bits ?T" using k x by simp
    have wp: "\<not> wrong_pair ?T (\<rho>1 y)"
      using False assms(2) P(2) shifted_shl [OF R(1) P x(1,3)] by (auto simp: ashr_ok_def)
    have sg: "?T \<in> {INT8, INT16, INT32, INT64}" using assms(1) R(3) by (cases ?T) (auto simp: visit_ready_def IsTypeSigned_def)
    have eight: "\<rho>1 y \<noteq> 8" using wp sg u by (auto simp: wrong_pair_def)
    have cast: "sound fp i g1 \<rho>1 (Some (applied (created_cast g1 i ?z t)))"
      if "\<rho>1 y = 24 \<and> t = INT8 \<or> \<rho>1 y = 16 \<and> t = INT16" for t
    proof (rule created_cast_sound [OF bin_inst_visited [OF P(1)]])
      have T: "?T = INT32" using wp sg u that by (auto simp: wrong_pair_def)
      define n where "n = unat (\<rho>1 y)"
      have n: "n = 24 \<and> t = INT8 \<or> n = 16 \<and> t = INT16" "n mod 32 = n" using that by (auto simp: n_def)
      have "val INT32 (\<rho>1 x) = wrap INT32 (val INT32 (\<rho>1 ?z) * 2 ^ n)"
        using operand_op(2) [OF B(1,10,6)] x(1,3) T n(2) by (simp add: val_canon n_def)
      then have "\<rho>1 i = canon INT32 (wrap INT32 (val INT32 (\<rho>1 ?z) * 2 ^ n) div 2 ^ n)"
        using bin_inst_value [OF P(1), of "val INT32 (\<rho>1 x) div 2 ^ n"] T n(2) by (simp add: IsTypeSigned_def n_def)
      then show "\<rho>1 i = canon t (val (type_of g1 ?z) (\<rho>1 ?z))" using shl_ashr [OF n(1)] operandD(4,5) [OF type(2)] by simp
    qed (use operandD(1,2,4) [OF type(2)] that in auto)
    have "VisitAShr osr g i =
        (if \<rho>1 y = 16 \<or> \<rho>1 y = 24 then
           (if SkipThisPeepholeInOSR osr g1 ?z i then Some (g1, a)
            else Some (applied (created_cast g1 i ?z (if \<rho>1 y = 24 then INT8 else INT16))))
         else Some (g1, a))"
      using fold S(1) False B(5,8,9) x type v eight by (auto simp: VisitAShr_def Let_def created_cast_def case_prod_unfold)
    then show ?thesis using sound_step [OF S(2)] cast same by auto
  qed
qed (simp_all add: VisitAShr_def)

end
