(* ===== verification/PeepholeDiv.thy ===== *)
theory PeepholeDiv
  imports PeepholeShifts
begin

unbundle bit_operations_syntax

text \<open>
  Soundness of the peephole rules of division: by one and minus one, and by a power of two, which becomes a logical shift at an
  unsigned type and a chain of shifts that rounds towards zero at a signed type.
\<close>

section \<open>Division\<close>

text \<open>Division by a power of two rounds towards zero.\<close>

lemma sdiv_power: "a sdiv 2 ^ k = (a + (if a < 0 then 2 ^ k - 1 else 0)) div 2 ^ k" for a :: int
proof (cases "a < 0")
  case True
  have "(a + (2 ^ k - 1)) div 2 ^ k = - (- a div 2 ^ k)"
  proof -
    have d: "- a = 2 ^ k * (- a div 2 ^ k) + - a mod 2 ^ k" by simp
    have m: "0 \<le> - a mod 2 ^ k" "- a mod 2 ^ k < 2 ^ k" by simp_all
    show ?thesis
    proof (rule int_div_pos_eq [where r = "2 ^ k - 1 - - a mod 2 ^ k"])
      show "a + (2 ^ k - 1) = 2 ^ k * - (- a div 2 ^ k) + (2 ^ k - 1 - - a mod 2 ^ k)" using d by (simp add: algebra_simps)
    qed (use m in linarith)+
  qed
  then show ?thesis using True by (simp add: signed_divide_int_def)
qed (auto simp: signed_divide_int_def sgn_if)

lemma sdiv_minus: "a sdiv - b = - (a sdiv b)" for a b :: int
  by (simp add: signed_divide_int_def)

text \<open>The bias: the upper bits of the sign.\<close>

lemma sign_bias: "k \<le> n \<Longrightarrow> take_bit n (- 1 :: int) div 2 ^ (n - k) = 2 ^ k - 1"
proof -
  assume k: "k \<le> n"
  have "take_bit n (- 1 :: int) div 2 ^ (n - k) = drop_bit (n - k) (mask n)" by (simp add: take_bit_minus_one_eq_mask drop_bit_eq_div)
  also have "\<dots> = mask k" using k by (intro bit_eqI) (auto simp: bit_simps)
  finally show ?thesis by (simp add: mask_eq_exp_minus_1)
qed

lemma signed_val_range:
  assumes "num_type T" "IsTypeSigned T"
  shows "- (2 ^ (type_bits T - 1)) \<le> val T w" "val T w < 2 ^ (type_bits T - 1)"
  using val_signed_range(1) [OF assms] by (simp_all add: signed_take_bit_int_greater_eq_minus_exp signed_take_bit_int_less_exp)

lemma wrap_fits:
  assumes "num_type T" "IsTypeSigned T" "- (2 ^ (type_bits T - 1)) \<le> x" "x < 2 ^ (type_bits T - 1)"
  shows "wrap T x = x"
  using val_signed_range(2) [OF assms(1,2)] assms(3,4) by (simp add: signed_take_bit_int_eq_self)

text \<open>The four steps at a signed type.\<close>

lemma div_steps:
  fixes w :: u64
  assumes "num_type T" "IsTypeSigned T" "0 < k" "k < type_bits T"
  defines "a \<equiv> val T w" and "n \<equiv> type_bits T"
  defines "s \<equiv> canon T (a div 2 ^ (n - 1))"
  defines "b \<equiv> canon T (take_bit n (val T s) div 2 ^ (n - k))"
  defines "c \<equiv> canon T (val T b + a)"
  shows "canon T (val T c div 2 ^ k) = canon T (a sdiv 2 ^ k)"
proof -
  have T: "is_int_type T" using assms(1) by simp
  note r = signed_val_range [OF assms(1,2), of w, folded a_def n_def]
  have n: "0 < n" "k \<le> n - 1" "k \<le> n" using assms(4) by (simp_all add: n_def)
  have pk: "(1 :: int) < 2 ^ k" "(2 :: int) ^ k \<le> 2 ^ (n - 1)" using assms(3) n(2) by (simp, intro power_increasing) simp_all
  note W = wrap_fits [OF assms(1,2), folded n_def]
  have s: "val T s = (if a < 0 then - 1 else 0)"
  proof -
    have "a div 2 ^ (n - 1) = (if a < 0 then - 1 else 0)"
      using r by (cases "a < 0") (auto intro: int_div_pos_eq [of _ _ _ "a + 2 ^ (n - 1)"] simp: div_pos_pos_trivial)
    moreover have "wrap T (- 1) = - 1" by (rule W) (use pk in linarith)+
    ultimately show ?thesis by (simp add: s_def val_canon [OF T])
  qed
  have b: "val T b = (if a < 0 then 2 ^ k - 1 else 0)"
  proof -
    have "take_bit n (val T s) div 2 ^ (n - k) = (if a < 0 then 2 ^ k - 1 else 0)" using s sign_bias [OF n(3)] by simp
    moreover have "- (2 ^ (n - 1)) \<le> 2 ^ k - (1 :: int)" "2 ^ k - (1 :: int) < 2 ^ (n - 1)" using pk by linarith+
    then have "wrap T (2 ^ k - 1) = 2 ^ k - 1" by (rule W)
    ultimately show ?thesis by (simp add: b_def val_canon [OF T])
  qed
  have "- (2 ^ (n - 1)) \<le> val T b + a \<and> val T b + a < 2 ^ (n - 1)"
  proof (cases "a < 0")
    case True
    then have "val T b = 2 ^ k - 1" using b by simp
    then show ?thesis using r pk True by linarith
  next
    case False
    then show ?thesis using r b by simp
  qed
  then have "wrap T (val T b + a) = val T b + a" by (intro W) simp_all
  then have "val T c = a + (if a < 0 then 2 ^ k - 1 else 0)" using b by (simp add: c_def val_canon [OF T])
  then show ?thesis by (simp add: sdiv_power)
qed

text \<open>An instruction is created and inserted.\<close>

lemma insert_new:
  fixes j :: inst_id
  assumes "visited fp T g i \<rho>" "arith_opcode opc" "\<forall>a \<in> set ins. a < length (insts g)" "eval_int opc T (map \<rho> ins ! 0) (map \<rho> ins ! 1) = Some v"
    "CreateInst g opc T ins = (g0, c)"
  defines "g' \<equiv> InsertAfter g0 c j" and "\<rho>' \<equiv> \<rho>(c := canon T v)"
  shows "c = length (insts g)" "extends g \<rho> g' \<rho>'" "visited fp T g' i \<rho>'" "c < length (insts g')"
proof -
  note V = visitedD [OF assms(1)]
  define s where "s = (new_inst opc T ins)\<lparr>GetBasicBlock := GetBasicBlock (the_inst g0 j)\<rparr>"
  show c: "c = length (insts g)" using assms(5) by (simp add: CreateInst_def)
  have g': "insts g' = insts (g\<lparr>insts := insts g @ [s]\<rparr>)" "constList g' = constList (g\<lparr>insts := insts g @ [s]\<rparr>)"
    "GetArch g' = GetArch g" "objectPointerSize g' = objectPointerSize g" "IsBytecodeOptimizer g' = IsBytecodeOptimizer g"
    using assms(5) by (auto simp: g'_def s_def CreateInst_def InsertAfter_def update_inst_def Let_def nth_append list_update_append)
  have s: "GetOpcode s \<noteq> Op_Constant" "\<forall>x \<in> set (inputs s). x < length (insts g)" using assms(2,3) by (auto simp: s_def)
  have "canon T v = w" if "eval_op fp s (map \<rho> (inputs s)) = Some w" for w
    using that new_inst_value [OF assms(2) V(5) _ assms(4)] by (simp add: s_def eval_op_block)
  note A = append_extends [OF V(1) s this, folded c, folded \<rho>'_def]
  show E: "extends g \<rho> g' \<rho>'" using A(1) g' by (simp add: extends_def)
  have "wf_graph fp g' \<rho>'" using A(2) g'(1,2) by (simp add: wf_graph_def consistent_def wf_consts_def wf_inputs_def IsConst_def)
  then show "visited fp T g' i \<rho>'" using V E by (auto simp: visited_def extends_def IsConst_def)
  show "c < length (insts g')" using c g'(1) by simp
qed

lemma visited_extends: "visited fp T g i \<rho> \<Longrightarrow> extends g \<rho> g' \<rho>' \<Longrightarrow> wf_graph fp g' \<rho>' \<Longrightarrow> visited fp T g' i \<rho>'"
  by (auto simp: visited_def extends_def IsConst_def)

lemma const_step:
  assumes "visited fp T g i \<rho>" "const_result g v (g', c)"
  obtains \<rho>' where "extends g \<rho> g' \<rho>'" "visited fp T g' i \<rho>'" "\<rho>' c = v" "c < length (insts g')" "c \<noteq> i"
proof -
  note V = visitedD [OF assms(1)]
  note E = const_result_extends [OF V(1) assms(2)]
  have "c \<noteq> i" using E(1,5) V(2,3) by (auto simp: extends_def IsConst_def)
  then show thesis using that [OF E(1) visited_extends [OF assms(1) E(1,2)] E(4,3)] by blast
qed

lemma u32_const_wide: "wf_consts g \<Longrightarrow> \<not> IsBytecodeOptimizer g \<Longrightarrow> const_result g (ucast v) (FindOrCreateConstant_u32 g v)"
  unfolding FindOrCreateConstant_u32_def by (auto intro!: find_or_create_result simp: IsEqualConst_32_def)

lemma visited_consts: "visited fp T g i \<rho> \<Longrightarrow> wf_consts g"
  by (simp add: visited_def wf_graph_def)

lemma shift_step:
  assumes "visited fp T g i \<rho>" "const_result g (of_nat k) (g1, c)" "k < type_bits T" "is_shift opc T" "x < length (insts g)"
    "CreateInst g1 opc T [x, c] = (g2, r)"
  obtains \<rho>' where "extends g \<rho> (InsertAfter g2 r j) \<rho>'" "visited fp T (InsertAfter g2 r j) i \<rho>'" "r < length (insts (InsertAfter g2 r j))"
    "\<rho>' r = canon T (shift opc T (val T (\<rho> x)) k)" "length (insts g) \<le> r"
proof -
  obtain \<rho>1 where 1: "extends g \<rho> g1 \<rho>1" "visited fp T g1 i \<rho>1" "\<rho>1 c = of_nat k" "c < length (insts g1)" "c \<noteq> i"
    by (rule const_step [OF assms(1,2)])
  have x: "x < length (insts g1)" "\<rho>1 x = \<rho> x" "length (insts g) \<le> length (insts g1)" using 1(1) assms(5) by (auto simp: extends_def)
  have k: "k < 64" using assms(3) type_bits_pos(2) [of T] by linarith
  have opc: "arith_opcode opc" using assms(4) by (auto simp: is_shift_def)
  have "eval_int opc T (map \<rho>1 [x, c] ! 0) (map \<rho>1 [x, c] ! 1) = Some (shift opc T (val T (\<rho> x)) k)"
    using eval_shift [OF assms(4)] x(2) 1(3) small_word(2) [OF k] assms(3) by simp
  note N = insert_new(1) [OF 1(2) opc _ this assms(6)] insert_new(2-4) [OF 1(2) opc _ this assms(6), where j = j]
  have ins_ok: "\<forall>a \<in> set [x, c]. a < length (insts g1)" using x(1) 1(4) by simp
  show thesis using that [OF extends_trans [OF 1(1) N(2) [OF ins_ok]] N(3,4) [OF ins_ok]] N(1) [OF ins_ok] x(3) by simp
qed

lemma div_chain:
  assumes "visited fp T g i \<rho>" "IsTypeSigned T" "\<not> IsBytecodeOptimizer g" "x < length (insts g)"
    "0 < k" "k < type_bits T" "GetPowerOfTwo (word_of_int \<bar>sint u\<bar>) = int k" "sint u \<noteq> - (2 ^ 63)"
  obtains h r \<rho>' where "extends g \<rho> h \<rho>'" "visited fp T h i \<rho>'" "r < length (insts h)" "r \<noteq> i" "\<rho>' r = canon T (val T (\<rho> x) sdiv 2 ^ k)"
    "TryReplaceDivByShrAndAshr g i u x =
       (if sint u < 0 then let (g, result) = CreateInst h Op_Neg T [r]; g = InsertAfter g result r in Some (applied (ReplaceUsers g i result))
        else Some (applied (ReplaceUsers h i r)))"
proof -
  note V = visitedD [OF assms(1)]
  let ?n = "type_bits T" and ?a = "val T (\<rho> x)"
  have sh: "is_shift Op_AShr T" "is_shift Op_Shr T" using assms(2) by (simp_all add: is_shift_def)
  obtain g1 c1 where 1: "FindOrCreateConstant_u32 g (of_nat (?n - 1)) = (g1, c1)" by fastforce
  obtain g1' r1 where m1: "CreateInst g1 Op_AShr T [x, c1] = (g1', r1)" by fastforce
  have "(ucast (of_nat (?n - 1) :: u32) :: u64) = of_nat (?n - 1)" using V(5,6) by (cases T) simp_all
  then have C1: "const_result g (of_nat (?n - 1)) (g1, c1)" using u32_const_wide [OF visited_consts [OF assms(1)] assms(3), of "of_nat (?n - 1)"] 1 by simp
  have lt: "?n - 1 < ?n" "?n - k < ?n" using type_bits_pos(1) [of T] assms(5,6) by simp_all
  obtain \<rho>1 where A: "extends g \<rho> (InsertAfter g1' r1 i) \<rho>1" "visited fp T (InsertAfter g1' r1 i) i \<rho>1" "r1 < length (insts (InsertAfter g1' r1 i))"
    "\<rho>1 r1 = canon T (shift Op_AShr T ?a (?n - 1))" "length (insts g) \<le> r1"
    by (rule shift_step [OF assms(1) C1 lt(1) sh(1) assms(4) m1, of i])
  define h1 where "h1 = InsertAfter g1' r1 i"
  note A = A [folded h1_def]
  obtain g2 c2 where 2: "FindOrCreateConstant_u64 h1 (of_nat (?n - k)) = (g2, c2)" by fastforce
  obtain g2' r2 where m2: "CreateInst g2 Op_Shr T [r1, c2] = (g2', r2)" by fastforce
  have C2: "const_result h1 (of_nat (?n - k)) (g2, c2)" using u64_const_result [OF visited_consts [OF A(2)]] 2 by metis
  obtain \<rho>2 where D: "extends h1 \<rho>1 (InsertAfter g2' r2 r1) \<rho>2" "visited fp T (InsertAfter g2' r2 r1) i \<rho>2" "r2 < length (insts (InsertAfter g2' r2 r1))"
    "\<rho>2 r2 = canon T (shift Op_Shr T (val T (\<rho>1 r1)) (?n - k))" "length (insts h1) \<le> r2"
    by (rule shift_step [OF A(2) C2 lt(2) sh(2) A(3) m2, of r1])
  define h2 where "h2 = InsertAfter g2' r2 r1"
  note D = D [folded h2_def]
  note E2 = extends_trans [OF A(1) D(1)]
  have x2: "x < length (insts h2)" "\<rho>2 x = \<rho> x" using E2 assms(4) by (auto simp: extends_def)
  obtain g3 r3 where 3: "CreateInst h2 Op_Add T [r2, x] = (g3, r3)" by fastforce
  have ins3: "\<forall>a \<in> set [r2, x]. a < length (insts h2)" using D(3) x2(1) by simp
  have e3: "eval_int Op_Add T (map \<rho>2 [r2, x] ! 0) (map \<rho>2 [r2, x] ! 1) = Some (val T (\<rho>2 r2) + ?a)" using x2(2) by simp
  define h3 where "h3 = InsertAfter g3 r3 r2"
  define \<rho>3 where "\<rho>3 = \<rho>2(r3 := canon T (val T (\<rho>2 r2) + ?a))"
  note F = insert_new(1) [OF D(2) arith_opcodes(4) ins3 e3 3] insert_new(2-4) [OF D(2) arith_opcodes(4) ins3 e3 3, where j = r2, folded h3_def \<rho>3_def]
  obtain g4 c4 where 4: "FindOrCreateConstant_u64 h3 (of_nat k) = (g4, c4)" by fastforce
  obtain g4' r4 where m4: "CreateInst g4 Op_AShr T [r3, c4] = (g4', r4)" by fastforce
  have C4: "const_result h3 (of_nat k) (g4, c4)" using u64_const_result [OF visited_consts [OF F(3)]] 4 by metis
  obtain \<rho>4 where G: "extends h3 \<rho>3 (InsertAfter g4' r4 r3) \<rho>4" "visited fp T (InsertAfter g4' r4 r3) i \<rho>4" "r4 < length (insts (InsertAfter g4' r4 r3))"
    "\<rho>4 r4 = canon T (shift Op_AShr T (val T (\<rho>3 r3)) k)" "length (insts h3) \<le> r4"
    by (rule shift_step [OF F(3) C4 assms(6) sh(1) F(4) m4, of r3])
  define h4 where "h4 = InsertAfter g4' r4 r3"
  note G = G [folded h4_def]
  have E4: "extends g \<rho> h4 \<rho>4" using extends_trans [OF extends_trans [OF E2 F(2)] G(1)] .
  have q: "\<rho>4 r4 = canon T (?a sdiv 2 ^ k)"
    unfolding G(4) using div_steps [OF _ assms(2,5,6), of "\<rho> x"] V(5,6) A(4) D(4) by (simp add: shift_def \<rho>3_def)
  have i4: "\<rho>4 i = \<rho> i" "r4 \<noteq> i" using E4 V(2) F(1,4) E2 D(5) G(5) by (auto simp: extends_def)
  have k: "word_of_int (int ?n - int k) = (of_nat (?n - k) :: u64)" "word_of_int (int k) = (of_nat k :: u64)"
    using assms(6) by (simp_all add: of_nat_diff)
  have "TryReplaceDivByShrAndAshr g i u x =
       (if sint u < 0 then let (g, result) = CreateInst h4 Op_Neg T [r4]; g = InsertAfter g result r4 in Some (applied (ReplaceUsers g i result))
        else Some (applied (ReplaceUsers h4 i r4)))"
    unfolding TryReplaceDivByShrAndAshr_def using assms(7,8) V(4,5,6) 1 m1 2 m2 3 4 m4 k
    by (simp add: GetTypeSize_int h1_def h2_def h3_def h4_def)
  then show thesis using that [OF E4 G(2,3) i4(2) q] by blast
qed

lemma TryReplaceDivByShrAndAshr_sound:
  assumes "visited fp T g i \<rho>" "IsTypeSigned T" "\<not> IsBytecodeOptimizer g" "x < length (insts g)"
    "0 < k" "k < type_bits T" "GetPowerOfTwo (word_of_int \<bar>sint u\<bar>) = int k" "sint u \<noteq> - (2 ^ 63)" "\<bar>sint u\<bar> = 2 ^ k"
    "\<rho> i = canon T (val T (\<rho> x) sdiv sint u)"
  shows "sound fp i g \<rho> (TryReplaceDivByShrAndAshr g i u x)"
proof -
  note V = visitedD [OF assms(1)]
  obtain h r \<rho>' where H: "extends g \<rho> h \<rho>'" "visited fp T h i \<rho>'" "r < length (insts h)" "r \<noteq> i" "\<rho>' r = canon T (val T (\<rho> x) sdiv 2 ^ k)"
    "TryReplaceDivByShrAndAshr g i u x =
       (if sint u < 0 then let (g, result) = CreateInst h Op_Neg T [r]; g = InsertAfter g result r in Some (applied (ReplaceUsers g i result))
        else Some (applied (ReplaceUsers h i r)))"
    by (rule div_chain [OF assms(1-8)])
  have i: "\<rho>' i = \<rho> i" using H(1) V(2) by (simp add: extends_def)
  have s: "sim fp i g \<rho> h \<rho>'" by (rule extends_sim [OF H(1) V(1) visitedD(1) [OF H(2)]])
  show ?thesis
  proof (cases "sint u < 0")
    case False
    then have "\<rho>' r = \<rho>' i" using H(5) i assms(9,10) by simp
    then have "sim fp i h \<rho>' (ReplaceUsers h i r) \<rho>'" using visitedD(1) [OF H(2)] H(3) by (intro sim_replace)
    then show ?thesis using False H(6) sound_sim [OF sim_trans [OF s]] by (simp add: applied_def)
  next
    case True
    obtain g5 r5 where 5: "CreateInst h Op_Neg T [r] = (g5, r5)" by fastforce
    have "\<forall>a \<in> set [r]. a < length (insts h)" "eval_int Op_Neg T (map \<rho>' [r] ! 0) (map \<rho>' [r] ! 1) = Some (- val T (\<rho>' r))" using H(3) by simp_all
    note N = insert_new(2-4) [OF H(2) arith_opcodes(1) this 5, where j = r]
    define h5 where "h5 = InsertAfter g5 r5 r"
    define \<rho>5 where "\<rho>5 = \<rho>'(r5 := canon T (- val T (\<rho>' r)))"
    note N = N [folded h5_def \<rho>5_def]
    have u: "sint u = - (2 ^ k)" using True assms(9) by simp
    have "\<rho> i = canon T (- (val T (\<rho> x) sdiv 2 ^ k))" unfolding assms(10) u sdiv_minus ..
    also have "\<dots> = canon T (- val T (\<rho>' r))" unfolding H(5) val_canon [OF V(5)] using V(5,6) by (intro canonI) (simp add: wrap_ring)
    also have "\<dots> = \<rho>5 r5" by (simp add: \<rho>5_def)
    finally have "\<rho>5 r5 = \<rho>5 i" using i N(1) visitedD(2) [OF H(2)] by (simp add: extends_def)
    then have "sim fp i h5 \<rho>5 (ReplaceUsers h5 i r5) \<rho>5" using visitedD(1) [OF N(2)] N(3) by (intro sim_replace)
    then have "sim fp i g \<rho> (ReplaceUsers h5 i r5) \<rho>5"
      using sim_trans [OF sim_trans [OF s extends_sim [OF N(1) visitedD(1) [OF H(2)] visitedD(1) [OF N(2)]]]] by blast
    then show ?thesis using True H(6) 5 sound_sim by (simp add: applied_def h5_def)
  qed
qed

definition div_const_ok :: "graph \<Rightarrow> inst_id \<Rightarrow> bool" where
  "div_const_ok g i \<longleftrightarrow>
     (IsConst g (GetInput g i 1) \<and> \<not> IsBytecodeOptimizer g \<longrightarrow> type_of g (GetInput g i 1) = INT64 \<and> sint (GetIntValue g (GetInput g i 1)) \<noteq> - (2 ^ 63))
     \<and> (IsConst g (GetInput g i 1) \<and> GetIntValue g (GetInput g i 1) = - 1 \<longrightarrow> IsTypeSigned (type_of g i) \<or> IsFloatType (type_of g i))"

lemma sdiv_one: "a sdiv 1 = a" "a sdiv - 1 = - a" for a :: int
  by (simp_all add: signed_divide_int_def sgn_mult_abs)

lemma div_inst_value:
  assumes "bin_inst n fp Op_Div T g i x y \<rho>" "val T (\<rho> y) \<noteq> 0"
  shows "\<rho> i = canon T (val T (\<rho> x) sdiv val T (\<rho> y))"
  using bin_inst_value [OF assms(1)] assms(2) by (simp add: eval_int_def)

lemma unsigned_div_sound:
  assumes "bin_inst n fp Op_Div T g i x y \<rho>" "\<not> IsTypeSigned T" "IsConst g y" "GetPowerOfTwo (GetIntValue g y) \<noteq> - 1"
  shows "sound fp i g \<rho> (let (g, power) = FindOrCreateConstant_u64 g (word_of_int (GetPowerOfTwo (GetIntValue g y)))
      in Some (applied (fst (CreateAndInsertInst g Op_Shr i [x, power]))))"
proof -
  note B = bin_instD [OF assms(1)]
  from assms(4) obtain k where k: "k < 64" "\<rho> y = 2 ^ k" "GetPowerOfTwo (GetIntValue g y) = int k"
    using GetPowerOfTwo_power operand_val(2) [OF B(1,11,6) assms(3)] by metis
  note p = canonical_power [OF conjI [OF B(6,7)] operandD(3) [OF B(11), unfolded k(2)] k(1)]
  have vy: "val T (\<rho> y) = 2 ^ k" unfolding k(2) p(2) using assms(2) B(7) p(1) by (simp add: wrap_def take_bit_of_exp)
  obtain g' c where C: "FindOrCreateConstant_u64 g (of_nat k) = (g', c)" by fastforce
  have "const_result g (of_nat k) (g', c)" using u64_const_result [OF visited_consts [OF bin_inst_visited [OF assms(1)]]] C by metis
  then obtain \<rho>' where E: "extends g \<rho> g' \<rho>'" "visited fp T g' i \<rho>'" "\<rho>' c = of_nat k" "c < length (insts g')" "c \<noteq> i"
    by (rule const_step [OF bin_inst_visited [OF assms(1)]])
  have x: "\<rho>' x = \<rho> x" "\<rho>' i = \<rho> i" "x < length (insts g')" "x \<noteq> i" using E(1) operandD(1,2) [OF B(10)] B(2) by (auto simp: extends_def)
  have "0 \<le> val T (\<rho> x)" "take_bit (type_bits T) (val T (\<rho> x)) = val T (\<rho> x)" using assms(2) B(7) by (simp_all add: val_def wrap_def)
  then have "\<rho> i = canon T (take_bit (type_bits T) (val T (\<rho> x)) div 2 ^ k)" using div_inst_value [OF assms(1)] vy by (simp add: sdiv_power)
  then have "sound fp i g' \<rho>' (Some (applied (fst (CreateAndInsertInst g' Op_Shr i [x, c]))))"
    using x E(3-5) small_word(2) [OF k(1)] p(1) by (intro create_sound [OF E(2)]) simp_all
  then show ?thesis using sound_step [OF extends_sim [OF E(1) B(1) visitedD(1) [OF E(2)]]] C k(3) by simp
qed

lemma signed_power:
  assumes "num_type T" "IsTypeSigned T" "canonical T w" "GetPowerOfTwo (word_of_int \<bar>sint w\<bar>) \<noteq> - 1" "sint w \<noteq> - (2 ^ 63)" "w \<noteq> 1" "w \<noteq> - 1"
  obtains k where "0 < k" "k < type_bits T" "GetPowerOfTwo (word_of_int \<bar>sint w\<bar>) = int k" "\<bar>sint w\<bar> = 2 ^ k" "val T w = sint w"
proof -
  have v: "val T w = sint w" using sint_canonical [of T w] assms(1-3) by simp
  obtain k where k: "k < 64" "(word_of_int \<bar>sint w\<bar> :: u64) = 2 ^ k" "GetPowerOfTwo (word_of_int \<bar>sint w\<bar>) = int k"
    using GetPowerOfTwo_power [OF assms(4)] by metis
  have r: "- (2 ^ 63) \<le> sint w" "sint w < 2 ^ 63" using sint_ge [of w] sint_lt [of w] by simp_all
  have a: "\<bar>sint w\<bar> = 2 ^ k"
  proof -
    have "\<bar>sint w\<bar> = uint (word_of_int \<bar>sint w\<bar> :: u64)" using r assms(5) by (simp add: unsigned_of_int take_bit_int_eq_self)
    also have "\<dots> = uint (word_of_int (2 ^ k) :: u64)" using k(2) by simp
    also have "\<dots> = 2 ^ k" using k(1) by (simp only: unsigned_of_int take_bit_of_exp) simp
    finally show ?thesis .
  qed
  have "0 < k"
  proof (rule ccontr)
    assume "\<not> 0 < k"
    then have "sint w = 1 \<or> sint w = - 1" using a by auto
    moreover have "word_of_int (sint w) = w" by simp
    ultimately have "w = word_of_int 1 \<or> w = word_of_int (- 1)" by metis
    then show False using assms(6,7) by simp
  qed
  moreover have "(2 :: int) ^ k \<le> 2 ^ (type_bits T - 1)" using signed_val_range [OF assms(1,2), of w] v a by linarith
  then have "k \<le> type_bits T - 1" by (simp add: power_increasing_iff)
  ultimately show thesis using that [OF _ _ k(3) a v] type_bits_pos(1) [of T] by simp
qed

lemma TryReplaceDivByShift_sound:
  assumes "bin_inst n fp Op_Div T g i x y \<rho>" "IsConst g y" "div_const_ok g i" "\<not> IsEqualConstAllTypes g y 1" "\<not> IsEqualConstAllTypes g y (- 1)"
  shows "sound fp i g \<rho> (TryReplaceDivByShift g i)"
proof -
  note B = bin_instD [OF assms(1)]
  have T: "num_type T" using B(6,7) by simp
  note same = sound_same [OF B(1)]
  have v: "GetIntValue g y = \<rho> y" using operand_val(2) [OF B(1,11,6) assms(2)] .
  consider "IsBytecodeOptimizer g" | "\<not> IsBytecodeOptimizer g" "\<not> IsTypeSigned T" | "\<not> IsBytecodeOptimizer g" "IsTypeSigned T" by blast
  then show ?thesis
  proof cases
    case 1
    then show ?thesis using same by (simp add: TryReplaceDivByShift_def kept_def Let_def)
  next
    case 2
    then show ?thesis using assms(2) B(5,8,9) same unsigned_div_sound [OF assms(1) 2(2) assms(2)] by (simp add: TryReplaceDivByShift_def kept_def Let_def)
  next
    case 3
    have c: "type_of g y = INT64" "sint (\<rho> y) \<noteq> - (2 ^ 63)" using assms(2,3) 3(1) B(9) v by (auto simp: div_const_ok_def)
    have ne: "\<rho> y \<noteq> 1" "\<rho> y \<noteq> - 1" using assms(4,5) c(1) v by (auto simp: IsEqualConstAllTypes_def IsEqualConst_int_def GetIntValue_def)
    have e: "TryReplaceDivByShift g i = TryReplaceDivByShrAndAshr g i (\<rho> y) x"
      using 3 assms(2) B(5,8,9) v by (simp add: TryReplaceDivByShift_def Let_def)
    show ?thesis
    proof (cases "GetPowerOfTwo (word_of_int \<bar>sint (\<rho> y)\<bar>) = - 1")
      case True
      then show ?thesis using e c(2) same by (simp add: TryReplaceDivByShrAndAshr_def kept_def Let_def)
    next
      case False
      obtain k where k: "0 < k" "k < type_bits T" "GetPowerOfTwo (word_of_int \<bar>sint (\<rho> y)\<bar>) = int k" "\<bar>sint (\<rho> y)\<bar> = 2 ^ k" "val T (\<rho> y) = sint (\<rho> y)"
        by (rule signed_power [OF T 3(2) operandD(3) [OF B(11)] False c(2) ne])
      then have "val T (\<rho> y) \<noteq> 0" by auto
      then have "\<rho> i = canon T (val T (\<rho> x) sdiv sint (\<rho> y))" using div_inst_value [OF assms(1)] k(5) by simp
      then show ?thesis unfolding e
        by (rule TryReplaceDivByShrAndAshr_sound [OF bin_inst_visited [OF assms(1)] 3(2,1) operandD(1) [OF B(10)] k(1-3) c(2) k(4)])
    qed
  qed
qed

lemma VisitDiv_sound:
  assumes "visit_ready fp Op_Div g i \<rho>" "div_const_ok g i"
  shows "sound fp i g \<rho> (VisitDiv fp osr g i)"
proof (rule visit_fold [OF assms(1)])
  show "fold_ok g i \<rho> (ConstFoldingDiv fp g i)" using assms(1) by (intro Div_ok) (simp_all add: visit_ready_def)
  assume fold: "ConstFoldingDiv fp g i = Some (g, False)"
  let ?T = "type_of g i" and ?x = "GetInput g i 0" and ?y = "GetInput g i 1"
  note wf = visit_ready_wf(1) [OF assms(1) arith_opcodes(7)]
  show "sound fp i g \<rho> (VisitDiv fp osr g i)"
  proof (cases "IsFloatType ?T \<or> \<not> IsConst g ?y")
    case True
    then show ?thesis using wf fold by (auto simp: VisitDiv_def kept_def Let_def sound_same)
  next
    case False
    then have P: "bin_inst 2 fp Op_Div ?T g i ?x ?y \<rho>" and C: "IsConst g ?y" using visit_ready_bin_inst [OF assms(1)] by simp_all
    note B = bin_instD [OF P]
    have T: "num_type ?T" using B(6,7) by simp
    have x: "?x < length (insts g)" "?x \<noteq> i" using operandD(1,2) [OF B(10)] by auto
    have one: "sound fp i g \<rho> (Some (applied (ReplaceUsers g i ?x)))" if "IsEqualConstAllTypes g ?y 1"
    proof (rule neutral_sound [OF P])
      have "\<rho> ?y = 1" using operand_val(3) [OF B(1,11,6) C that] by simp
      then have "val ?T (\<rho> ?y) = 1" using T by (cases ?T) (simp_all add: val_def wrap_def IsTypeSigned_def)
      then show "eval_int Op_Div ?T (\<rho> ?x) (\<rho> ?y) = Some (val ?T (\<rho> ?x))" by (simp add: eval_int_def sdiv_one)
    qed (use B(6) in \<open>simp add: val_wrapped\<close>)
    have minus: "sound fp i g \<rho> (Some (applied (fst (CreateAndInsertInst g Op_Neg i [?x]))))" if "IsEqualConstAllTypes g ?y (- 1)"
    proof (rule create_sound [OF bin_inst_visited [OF P]])
      have y: "\<rho> ?y = - 1" using operand_val(3) [OF B(1,11,6) C that] by simp
      then have "IsTypeSigned ?T" using assms(2) C False operand_val(2) [OF B(1,11,6) C] by (simp add: div_const_ok_def)
      then have v: "val ?T (\<rho> ?y) = - 1" using y T by (simp add: val_def wrap_def)
      then have "val ?T (\<rho> ?y) \<noteq> 0" by simp
      from div_inst_value [OF P this] show "\<rho> i = canon ?T (- val ?T (\<rho> ?x))" unfolding v sdiv_one(2) .
    qed (use x in simp_all)
    show ?thesis using fold False C B(6) one minus TryReplaceDivByShift_sound [OF P C assms(2)] sound_same [OF wf] by (simp add: VisitDiv_def Let_def kept_def)
  qed
qed (simp_all add: VisitDiv_def)

end
