(* ===== verification/PeepholesSound.thy ===== *)
theory PeepholesSound
  imports PeepholeAddSub PeepholeDiv
begin

unbundle bit_operations_syntax

text \<open>
  The arithmetic peephole rules preserve the values of the graph: the contract of a rule as the locale \<open>peephole_rule\<close>, its
  interpretation for each of the sixteen visitors, and the theorem over all of them; then the graphs on which rules are wrong.
\<close>

section \<open>The contract of a rule\<close>

locale peephole_rule =
  fixes fp :: fpu and visit :: "graph \<Rightarrow> inst_id \<Rightarrow> (graph \<times> bool) option" and ready :: "graph \<Rightarrow> inst_id \<Rightarrow> (inst_id \<Rightarrow> u64) \<Rightarrow> bool"
  assumes visit_sound: "ready g i \<rho> \<Longrightarrow> sound fp i g \<rho> (visit g i)"
begin

lemma visit_preserves:
  assumes "ready g i \<rho>"
  shows "\<exists>g' b \<rho>'. visit g i = Some (g', b) \<and> consistent fp g' \<rho>' \<and> wf_consts g' \<and> wf_inputs g'
    \<and> (\<forall>j < length (insts g). j \<noteq> i \<longrightarrow> \<rho>' j = \<rho> j \<and> map \<rho>' (inputs (the_inst g' j)) = map \<rho> (inputs (the_inst g j))
         \<and> (the_inst g' j)\<lparr>inputs := []\<rparr> = (the_inst g j)\<lparr>inputs := []\<rparr>)"
  using visit_sound [OF assms] unfolding sound_def sim_def bystander_def by blast

text \<open>Two visits in a row, of the same or of different instructions, keep what all others read.\<close>

lemma visit_twice:
  assumes "ready g i \<rho>" "\<And>g' b \<rho>'. visit g i = Some (g', b) \<Longrightarrow> sim fp i g \<rho> g' \<rho>' \<Longrightarrow> ready g' k \<rho>'"
  shows "\<exists>g' b g'' b' \<rho>''. visit g i = Some (g', b) \<and> visit g' k = Some (g'', b') \<and> consistent fp g'' \<rho>''
    \<and> (\<forall>j < length (insts g). j \<noteq> i \<longrightarrow> j \<noteq> k \<longrightarrow> \<rho>'' j = \<rho> j \<and> map \<rho>'' (inputs (the_inst g'' j)) = map \<rho> (inputs (the_inst g j)))"
proof -
  obtain g' b \<rho>' where 1: "visit g i = Some (g', b)" "sim fp i g \<rho> g' \<rho>'" using visit_sound [OF assms(1)] by (auto simp: sound_def)
  obtain g'' b' \<rho>'' where 2: "visit g' k = Some (g'', b')" "sim fp k g' \<rho>' g'' \<rho>''"
    using visit_sound [OF assms(2) [OF 1]] by (auto simp: sound_def)
  have "\<rho>'' j = \<rho> j \<and> map \<rho>'' (inputs (the_inst g'' j)) = map \<rho> (inputs (the_inst g j))" if "j < length (insts g)" "j \<noteq> i" "j \<noteq> k" for j
    using 1(2) 2(2) that by (auto simp: sim_def bystander_def)
  then show ?thesis using 1(1) 2 by (auto simp: sim_def)
qed

end

interpretation neg_rule: peephole_rule fp "VisitNeg osr" "visit_ready fp Op_Neg" for fp osr
  by unfold_locales (rule VisitNeg_sound)

interpretation abs_rule: peephole_rule fp "VisitAbs osr" "visit_ready fp Op_Abs" for fp osr
  by unfold_locales (rule VisitAbs_sound)

interpretation not_rule: peephole_rule fp VisitNot "visit_ready fp Op_Not" for fp
  by unfold_locales (rule VisitNot_sound)

interpretation add_rule: peephole_rule fp "VisitAdd fp fuel osr ls" "\<lambda>g i \<rho>. visit_ready fp Op_Add g i \<rho> \<and> no_negation ls g i" for fp fuel osr ls
  by unfold_locales (auto intro: VisitAdd_sound)

interpretation sub_rule: peephole_rule fp "VisitSub fp osr" "visit_ready fp Op_Sub" for fp osr
  by unfold_locales (rule VisitSub_sound)

interpretation mul_rule: peephole_rule fp "VisitMul fp osr" "visit_ready fp Op_Mul" for fp osr
  by unfold_locales (rule VisitMul_sound)

interpretation div_rule: peephole_rule fp "VisitDiv fp osr" "\<lambda>g i \<rho>. visit_ready fp Op_Div g i \<rho> \<and> div_const_ok g i" for fp osr
  by unfold_locales (auto intro: VisitDiv_sound)

interpretation mod_rule: peephole_rule fp "VisitMod fp" "visit_ready fp Op_Mod" for fp
  by unfold_locales (rule VisitMod_sound)

interpretation min_rule: peephole_rule fp VisitMin "visit_ready fp Op_Min" for fp
  by unfold_locales (rule VisitMin_sound)

interpretation max_rule: peephole_rule fp VisitMax "visit_ready fp Op_Max" for fp
  by unfold_locales (rule VisitMax_sound)

interpretation shl_rule: peephole_rule fp "VisitShl osr" "visit_ready fp Op_Shl" for fp osr
  by unfold_locales (rule VisitShl_sound)

interpretation shr_rule: peephole_rule fp "VisitShr osr" "\<lambda>g i \<rho>. visit_ready fp Op_Shr g i \<rho> \<and> shr_ok osr g i \<rho>" for fp osr
  by unfold_locales (auto intro: VisitShr_sound)

interpretation ashr_rule: peephole_rule fp "VisitAShr osr" "\<lambda>g i \<rho>. visit_ready fp Op_AShr g i \<rho> \<and> ashr_ok g i \<rho>" for fp osr
  by unfold_locales (auto intro: VisitAShr_sound)

interpretation and_rule: peephole_rule fp "VisitAnd osr" "visit_ready fp Op_And" for fp osr
  by unfold_locales (rule VisitAnd_sound)

interpretation or_rule: peephole_rule fp "VisitOr osr" "visit_ready fp Op_Or" for fp osr
  by unfold_locales (rule VisitOr_sound)

interpretation xor_rule: peephole_rule fp "VisitXor osr" "visit_ready fp Op_Xor" for fp osr
  by unfold_locales (rule VisitXor_sound)

section \<open>The theorem over all visitors\<close>

text \<open>The visitor of an opcode, and what it asks beside the operands.\<close>

definition visit_of :: "fpu \<Rightarrow> nat \<Rightarrow> bool \<Rightarrow> user_lists \<Rightarrow> opcode \<Rightarrow> graph \<Rightarrow> inst_id \<Rightarrow> (graph \<times> bool) option" where
  "visit_of fp fuel osr ls op =
     (case op of
        Op_Neg \<Rightarrow> VisitNeg osr | Op_Abs \<Rightarrow> VisitAbs osr | Op_Not \<Rightarrow> VisitNot
      | Op_Add \<Rightarrow> VisitAdd fp fuel osr ls | Op_Sub \<Rightarrow> VisitSub fp osr | Op_Mul \<Rightarrow> VisitMul fp osr | Op_Div \<Rightarrow> VisitDiv fp osr
      | Op_Mod \<Rightarrow> VisitMod fp | Op_Min \<Rightarrow> VisitMin | Op_Max \<Rightarrow> VisitMax
      | Op_Shl \<Rightarrow> VisitShl osr | Op_Shr \<Rightarrow> VisitShr osr | Op_AShr \<Rightarrow> VisitAShr osr
      | Op_And \<Rightarrow> VisitAnd osr | Op_Or \<Rightarrow> VisitOr osr | Op_Xor \<Rightarrow> VisitXor osr
      | _ \<Rightarrow> (\<lambda>g i. Some (kept g)))"

definition rule_ready :: "fpu \<Rightarrow> bool \<Rightarrow> user_lists \<Rightarrow> opcode \<Rightarrow> graph \<Rightarrow> inst_id \<Rightarrow> (inst_id \<Rightarrow> u64) \<Rightarrow> bool" where
  "rule_ready fp osr ls op g i \<rho> \<longleftrightarrow>
     visit_ready fp op g i \<rho> \<and> (op = Op_Add \<longrightarrow> no_negation ls g i) \<and> (op = Op_Div \<longrightarrow> div_const_ok g i)
     \<and> (op = Op_Shr \<longrightarrow> shr_ok osr g i \<rho>) \<and> (op = Op_AShr \<longrightarrow> ashr_ok g i \<rho>)"

lemma no_rule: "visit_ready fp op g i \<rho> \<Longrightarrow> sound fp i g \<rho> (Some (kept g))"
  using visit_ready_fold(1) by (auto simp: kept_def fold_pre_def wf_graph_def intro: sound_same)

lemma visit_of_rule: "peephole_rule fp (visit_of fp fuel osr ls op) (rule_ready fp osr ls op)"
proof (cases op)
qed (unfold_locales; auto simp: visit_of_def rule_ready_def intro: neg_rule.visit_sound abs_rule.visit_sound not_rule.visit_sound
    add_rule.visit_sound sub_rule.visit_sound mul_rule.visit_sound div_rule.visit_sound mod_rule.visit_sound min_rule.visit_sound
    max_rule.visit_sound shl_rule.visit_sound shr_rule.visit_sound ashr_rule.visit_sound and_rule.visit_sound or_rule.visit_sound
    xor_rule.visit_sound no_rule)+

text \<open>
  C2: the arithmetic peephole rules preserve the meaning of the graph.  For each of the sixteen visitors and every graph,
  valuation and operands it is ready for, the visitor returns (no failed assertion, no undefined behaviour); afterwards there is a
  valuation of the new graph in which every instruction but the visited one has the value it had, reads the same values
  through its inputs and is otherwise unchanged, and the graph and its constants stay well formed.

  \<open>rule_ready\<close> asks that the operands, to the depth of two that the rules look into, have the type of the instruction and values canonical at it
  (a multiplication visited before may have left a constant that is not: see the two visits of a multiplication below).  It leaves out: the type \<^verbatim>\<open>BOOL\<close>;
  results of type \<^verbatim>\<open>UINT32\<close> in the bytecode optimizer; an \<^verbatim>\<open>Add\<close> that is the negation of a boolean (theory \<open>CompareNegation\<close>); a \<^verbatim>\<open>Div\<close> by a
  constant that is the 64-bit minimum or not of type \<^verbatim>\<open>INT64\<close>, outside the bytecode optimizer, and by the word -1 at an unsigned type (wrong, see below); an \<^verbatim>\<open>AShr\<close> in a graph that shifts left, at its type, by 8 (but for \<^verbatim>\<open>INT8\<close>) or, for \<^verbatim>\<open>INT64\<close>, by 16 or 24, outside the
  bytecode optimizer (wrong, see below); a \<^verbatim>\<open>Shr\<close> by a constant multiple of the width, unless it is the constant zero and the method is not OSR, in
  a graph that shifts left by zero at its type.
\<close>

theorem peepholes_preserve:
  assumes "rule_ready fp osr ls op g i \<rho>"
  shows "\<exists>g' b \<rho>'. visit_of fp fuel osr ls op g i = Some (g', b) \<and> consistent fp g' \<rho>' \<and> wf_consts g' \<and> wf_inputs g'
    \<and> (\<forall>j < length (insts g). j \<noteq> i \<longrightarrow> \<rho>' j = \<rho> j \<and> map \<rho>' (inputs (the_inst g' j)) = map \<rho> (inputs (the_inst g j))
         \<and> (the_inst g' j)\<lparr>inputs := []\<rparr> = (the_inst g j)\<lparr>inputs := []\<rparr>)"
  using peephole_rule.visit_preserves [OF visit_of_rule assms] .

text \<open>Graphs of one block.\<close>

definition rule_graph :: "bool \<Rightarrow> inst list \<Rightarrow> inst_id list \<Rightarrow> graph" where
  "rule_graph bco ins cs =
     \<lparr>insts = ins,
      blocks = [\<lparr>GetPredsBlocks = [], GetSuccsBlocks = [], GetDominator = None, GetDominatedBlocks = [], GetLoop = 0, AllInsts = [0..<length ins]\<rparr>],
      loops = [], GetBlocksRPO = [0], GetStartBlock = 0, constList = cs, IsBytecodeOptimizer = bco,
      IsDynamicMethod = False, GetArch = AARCH64, objectPointerSize = 4, rtMaxArrayLength = \<lambda>i. None, rtIsMethodStatic = True\<rparr>"

text \<open>\<^verbatim>\<open>v2 = Mul.i32 v0, 8\<close>, used by \<^verbatim>\<open>v3 = Neg.i32 v2\<close>.\<close>

definition scale_graph :: graph where
  "scale_graph = rule_graph False
     [ex_inst Op_Parameter INT32 [] 0, ex_inst Op_Constant INT64 [] 8, ex_inst Op_Mul INT32 [0, 1] 0, ex_inst Op_Neg INT32 [2] 0] [1]"

definition scale_values :: "inst_id \<Rightarrow> u64" where
  "scale_values i = [5, 8, 40, - 40] ! i"

lemmas eval_ex = consistent_def eval_op_def eval_int_def val_def canon_def wrap_def IsTypeSigned_def All_less_Suc rule_graph_def ex_inst_def
  new_inst_def new_const_def mask_eq_exp_minus_1 signed_divide_int_def

lemma scale_consistent: "consistent ex_fpu scale_graph scale_values"
  by (simp add: eval_ex scale_graph_def scale_values_def)

lemma scale_ready: "rule_ready ex_fpu False ls Op_Mul scale_graph 2 scale_values"
proof -
  note ex = scale_graph_def rule_graph_def ex_inst_def scale_values_def IsConst_def
  have wf: "wf_consts scale_graph" "wf_inputs scale_graph" by (auto simp: wf_consts_def wf_inputs_def ex less_Suc_eq)
  have "arith_ok scale_graph 2" by (simp add: arith_ok_def operand_ok_def ex) (simp add: canonical_def val_def wrap_def IsTypeSigned_def)
  moreover have "operand 2 scale_graph scale_values 2 INT32 x" if "x = 0 \<or> x = 1" for x
    using that by (elim disjE; simp add: numeral_2_eq_2 operand.simps typed_def arith_opcode_def ex; simp add: canonical_def val_def wrap_def IsTypeSigned_def)
  ultimately show ?thesis using wf scale_consistent by (simp add: rule_ready_def visit_ready_def fold_pre_def) (simp add: ex)
qed

theorem peepholes_preserve_witness:
  "(\<forall>ls. rule_ready ex_fpu False ls Op_Mul scale_graph 2 scale_values) \<and>
   (\<exists>g' b \<rho>'. VisitMul ex_fpu False scale_graph 2 = Some (g', b) \<and> consistent ex_fpu g' \<rho>' \<and> \<rho>' 3 = - 40)"
proof -
  have 3: "3 < length (insts scale_graph)" "scale_values 3 = - 40" by (simp_all add: scale_graph_def rule_graph_def scale_values_def)
  from peepholes_preserve [OF scale_ready, of 0] obtain g' b \<rho>'
    where r: "visit_of ex_fpu 0 False undefined Op_Mul scale_graph 2 = Some (g', b)" "consistent ex_fpu g' \<rho>'"
      and v: "\<forall>j < length (insts scale_graph). j \<noteq> 2 \<longrightarrow> \<rho>' j = scale_values j" by blast
  then have "VisitMul ex_fpu False scale_graph 2 = Some (g', b)" "\<rho>' 3 = - 40" using 3 by (simp_all add: visit_of_def)
  with r(2) scale_ready show ?thesis by blast
qed

section \<open>Rules that change the value\<close>

text \<open>What a visit leaves of the instructions.\<close>

lemma visited_insts: "map_option (\<lambda>(g, b). (insts g, b)) r = Some (ins, b) \<Longrightarrow> \<exists>g. r = Some (g, b) \<and> insts g = ins"
  by (cases r) auto

text \<open>\<^verbatim>\<open>v3 = Mul.i32 (Mul.i32 v0, 65536), 65536\<close>, used by \<^verbatim>\<open>v4 = Neg.i32 v3\<close>; its value is 0.\<close>

definition mul_graph :: graph where
  "mul_graph = rule_graph False
     [ex_inst Op_Parameter INT32 [] 0, ex_inst Op_Constant INT64 [] 65536, ex_inst Op_Mul INT32 [0, 1] 0, ex_inst Op_Mul INT32 [2, 1] 0,
      ex_inst Op_Neg INT32 [3] 0] [1]"

definition mul_before :: "inst_id \<Rightarrow> u64" where
  "mul_before i = [1, 65536, 65536, 0, 0] ! i"

definition mul_after :: "inst_id \<Rightarrow> u64" where
  "mul_after i = [1, 65536, 65536, 0, - 1, 4294967296, 32, 1] ! i"

definition mul_result :: "inst list" where
  "mul_result =
     [ex_inst Op_Parameter INT32 [] 0, ex_inst Op_Constant INT64 [] 65536, ex_inst Op_Mul INT32 [0, 1] 0, ex_inst Op_Mul INT32 [0, 5] 0,
      ex_inst Op_Neg INT32 [7] 0, new_const mul_graph INT64 4294967296, new_const mul_graph INT64 32, new_inst Op_Shl INT32 [0, 6]]"

lemma mul_visits:
  "map_option (\<lambda>(g, b). (insts g, b)) (Option.bind (VisitMul ex_fpu False mul_graph 3) (\<lambda>(g, b). if b then VisitMul ex_fpu False g 3 else None)) =
   Some (mul_result, True)"
  by code_simp

text \<open>
  C26: two visits of a multiplication lose the value.  The first one turns \<open>(v * 65536) * 65536\<close> into \<open>v * 2\<^sup>3\<^sup>2\<close>, whose
  constant is not wrapped to the 32-bit type; the second one finds a power of two and shifts by 32 bits, which the masked shift
  amount makes a shift by none.  The user reads \<open>v\<close> instead of 0.
\<close>

theorem mul_const_twice:
  "\<exists>g1 g2. VisitMul ex_fpu False mul_graph 3 = Some (g1, True) \<and> VisitMul ex_fpu False g1 3 = Some (g2, True)
    \<and> consistent ex_fpu mul_graph mul_before \<and> mul_before 0 = 1 \<and> mul_before (GetInput mul_graph 4 0) = 0
    \<and> consistent ex_fpu g2 mul_after \<and> mul_after 0 = 1 \<and> mul_after (GetInput g2 4 0) = 1"
proof -
  obtain g1 g2 where g: "VisitMul ex_fpu False mul_graph 3 = Some (g1, True)" "VisitMul ex_fpu False g1 3 = Some (g2, True)" "insts g2 = mul_result"
    using visited_insts [OF mul_visits] by (auto simp: bind_eq_Some_conv split: if_splits)
  have "consistent ex_fpu mul_graph mul_before"
    by (simp add: eval_ex mul_graph_def mul_before_def)
  moreover have "consistent ex_fpu g2 mul_after"
    by (simp add: eval_ex g(3) mul_result_def mul_after_def)
  moreover have "mul_before 0 = 1" "mul_before (GetInput mul_graph 4 0) = 0" "mul_after 0 = 1" by code_simp+
  moreover have "mul_after (GetInput g2 4 0) = 1" using g(3) by (simp add: GetInput_def mul_result_def ex_inst_def mul_after_def)
  ultimately show ?thesis using g(1,2) by blast
qed

text \<open>\<^verbatim>\<open>v3 = AShr.i64 (Shl.i64 v0, 8), 8\<close>, used by \<^verbatim>\<open>v4 = Neg.i64 v3\<close>.\<close>

definition ashr_graph :: graph where
  "ashr_graph = rule_graph False
     [ex_inst Op_Parameter INT64 [] 0, ex_inst Op_Constant INT64 [] 8, ex_inst Op_Shl INT64 [0, 1] 0, ex_inst Op_AShr INT64 [2, 1] 0,
      ex_inst Op_Neg INT64 [3] 0] [1]"

definition ashr_before :: "inst_id \<Rightarrow> u64" where
  "ashr_before i = [4294967296, 8, 1099511627776, 4294967296, - 4294967296] ! i"

definition ashr_after :: "inst_id \<Rightarrow> u64" where
  "ashr_after i = [4294967296, 8, 1099511627776, 4294967296, 0, 0] ! i"

definition ashr_result :: "inst list" where
  "ashr_result =
     [ex_inst Op_Parameter INT64 [] 0, ex_inst Op_Constant INT64 [] 8, ex_inst Op_Shl INT64 [0, 1] 0, ex_inst Op_AShr INT64 [2, 1] 0,
      ex_inst Op_Neg INT64 [5] 0, (new_inst Op_Cast INT32 [0])\<lparr>operandsType := INT64\<rparr>]"

lemma ashr_visit: "map_option (\<lambda>(g, b). (insts g, b)) (VisitAShr False ashr_graph 3) = Some (ashr_result, True)"
  by code_simp

text \<open>
  C27: shifting left and arithmetically right by eight is taken for a cast to 32 bits.  The shifts keep the low 56 bits of a 64-bit
  value, the cast that the visit puts in their place keeps 32: of \<open>2\<^sup>3\<^sup>2\<close> the user reads 0.
\<close>

theorem ashr_cast_wrong:
  "\<exists>g'. VisitAShr False ashr_graph 3 = Some (g', True)
    \<and> consistent ex_fpu ashr_graph ashr_before \<and> ashr_before 0 = 2 ^ 32 \<and> ashr_before (GetInput ashr_graph 4 0) = 2 ^ 32
    \<and> consistent ex_fpu g' ashr_after \<and> ashr_after 0 = 2 ^ 32 \<and> ashr_after (GetInput g' 4 0) = 0"
proof -
  obtain g' where g: "VisitAShr False ashr_graph 3 = Some (g', True)" "insts g' = ashr_result" using visited_insts [OF ashr_visit] by blast
  have "consistent ex_fpu ashr_graph ashr_before" by (simp add: eval_ex ashr_graph_def ashr_before_def)
  moreover have "consistent ex_fpu g' ashr_after" by (simp add: eval_ex g(2) ashr_result_def ashr_after_def eval_cast_def)
  moreover have "ashr_before 0 = 2 ^ 32" "ashr_before (GetInput ashr_graph 4 0) = 2 ^ 32" "ashr_after 0 = 2 ^ 32" by code_simp+
  moreover have "ashr_after (GetInput g' 4 0) = 0" using g(2) by (simp add: GetInput_def ashr_result_def ex_inst_def ashr_after_def)
  ultimately show ?thesis using g(1) by blast
qed

text \<open>\<^verbatim>\<open>v2 = Div.u64 v0, -1\<close>, used by \<^verbatim>\<open>v3 = Not.u64 v2\<close>.\<close>

definition div_graph :: graph where
  "div_graph = rule_graph False
     [ex_inst Op_Parameter UINT64 [] 0, ex_inst Op_Constant INT64 [] (- 1), ex_inst Op_Div UINT64 [0, 1] 0, ex_inst Op_Not UINT64 [2] 0] [1]"

definition div_before :: "inst_id \<Rightarrow> u64" where
  "div_before i = [5, - 1, 0, - 1] ! i"

definition div_after :: "inst_id \<Rightarrow> u64" where
  "div_after i = [5, - 1, 0, 4, - 5] ! i"

definition div_result :: "inst list" where
  "div_result =
     [ex_inst Op_Parameter UINT64 [] 0, ex_inst Op_Constant INT64 [] (- 1), ex_inst Op_Div UINT64 [0, 1] 0, ex_inst Op_Not UINT64 [4] 0,
      new_inst Op_Neg UINT64 [0]]"

lemma div_visit: "map_option (\<lambda>(g, b). (insts g, b)) (VisitDiv ex_fpu False div_graph 2) = Some (div_result, True)"
  by code_simp

text \<open>
  C28: an unsigned division by the largest number is taken for a division by minus one.  The rule looks at the bits of the constant
  and not at the signedness of the division: the user of \<open>5 / (2\<^sup>6\<^sup>4 - 1)\<close> reads \<open>- 5\<close> instead of 0.
\<close>

theorem div_minus_one_unsigned:
  "\<exists>g'. VisitDiv ex_fpu False div_graph 2 = Some (g', True)
    \<and> consistent ex_fpu div_graph div_before \<and> div_before 0 = 5 \<and> div_before (GetInput div_graph 3 0) = 0
    \<and> consistent ex_fpu g' div_after \<and> div_after 0 = 5 \<and> div_after (GetInput g' 3 0) = - 5"
proof -
  obtain g' where g: "VisitDiv ex_fpu False div_graph 2 = Some (g', True)" "insts g' = div_result" using visited_insts [OF div_visit] by blast
  have "consistent ex_fpu div_graph div_before"
    by (simp add: eval_ex div_graph_def div_before_def)
  moreover have "consistent ex_fpu g' div_after" by (simp add: eval_ex g(2) div_result_def div_after_def)
  moreover have "div_before 0 = 5" "div_before (GetInput div_graph 3 0) = 0" "div_after 0 = 5" by code_simp+
  moreover have "div_after (GetInput g' 3 0) = - 5" using g(2) by (simp add: GetInput_def div_result_def ex_inst_def div_after_def)
  ultimately show ?thesis using g(1) by blast
qed

text \<open>\<^verbatim>\<open>v3 = Shr.i32 (Shl.i32 v0, 0), 0\<close> in the bytecode optimizer, whose constant has the type \<^verbatim>\<open>INT32\<close>.\<close>

definition shr_graph :: graph where
  "shr_graph = rule_graph True
     [ex_inst Op_Parameter INT32 [] 0, ex_inst Op_Constant INT32 [] 0, ex_inst Op_Shl INT32 [0, 1] 0, ex_inst Op_Shr INT32 [2, 1] 0,
      ex_inst Op_Neg INT32 [3] 0] [1]"

text \<open>
  Shifts by zero are undefined behaviour in the bytecode optimizer.  The test for a zero amount only knows constants of 64
  bits, so the shifts stay, and the mask of the rule for a logical shift back is \<^verbatim>\<open>1U << 32\<close>.
\<close>

theorem shr_zero_undefined:
  "VisitShl False shr_graph 2 = Some (shr_graph, False) \<and> VisitShr False shr_graph 3 = None"
proof
  show "VisitShl False shr_graph 2 = Some (shr_graph, False)"
    by (simp add: VisitShl_def ConstFoldingShl_def TrySimplifyShifts_def IsConst_def GetInput_def kept_def IsEqualConst_int_def GetTypeSize_def
        ShiftByType_def ShiftByType_int_def GetIntValue_def IsInt32Bit_def Let_def shr_graph_def rule_graph_def ex_inst_def)
  show "VisitShr False shr_graph 3 = None" by code_simp
qed
end
