(* ===== verification/Spec2Isabelle.thy ===== *)
theory Spec2Isabelle
  imports Leb128 BoundsAnalysis ConstFoldingSound SpillPairs UtfSound MutexSound InterpreterSound InterpreterArrays InterpreterSafe PhiOperands
    CompareNegation PeepholesSound
begin

text \<open>
  A verification library for the ArkCompiler runtime core, the C++ sources under \<^verbatim>\<open>src/static_core\<close>.

  \<^bold>\<open>The program.\<close>  The runtime core compiles and runs bytecode of statically typed languages.  Base libraries
  (\<^verbatim>\<open>libpandabase\<close>) hold bit manipulation, variable-length integers, string codings and locks; the optimizing compiler
  (\<^verbatim>\<open>compiler/optimizer\<close>) builds a graph of instructions in static single assignment form, analyses and transforms it, allocates
  registers and emits machine code; the runtime interprets bytecode, manages memory and links classes.  The development
  follows the base libraries, the value-level core of the compiler and the interpreter, whose arithmetic is compared with the compiler's.

  \<^bold>\<open>Theories and sources.\<close>

  \<^item> \<open>Prelude\<close>: names of the machine integers, reads through a pointer (\<open>rd\<close>), facts on words and bits shared by all.
  \<^item> \<open>BitUtils\<close>: \<^verbatim>\<open>libpandabase/utils/bit_utils.h\<close> and the integer part of \<^verbatim>\<open>math_helpers.h\<close>.
  \<^item> \<open>Leb128\<close>: \<^verbatim>\<open>libpandabase/utils/leb128.h\<close>, at every integer width.
  \<^item> \<open>Utf\<close>, \<open>UtfSound\<close>: \<^verbatim>\<open>libpandabase/utils/utf.cpp\<close>, modified UTF-8 and UTF-16, comparison, decimal printing.
  \<^item> \<open>Mutex\<close>, \<open>MutexSound\<close>: \<^verbatim>\<open>platforms/unix/libpandabase/futex/fmutex.cpp\<close>, the mutex as interleaved atomic actions.
  \<^item> \<open>IrTypes\<close>: value types and condition codes (\<^verbatim>\<open>ir/datatype.h\<close>, \<^verbatim>\<open>ir/inst.h\<close>, \<^verbatim>\<open>utils/arch.h\<close>).
  \<^item> \<open>IrGraph\<close>: the graph as the passes below see it: instructions in a table with inputs and users, blocks with predecessors,
    successors and dominators, the list of constants (\<^verbatim>\<open>ir/graph.h\<close>, \<^verbatim>\<open>ir/basicblock.h\<close>, \<^verbatim>\<open>ir/inst.cpp\<close>, \<^verbatim>\<open>ir/analysis.cpp\<close>).
  \<^item> \<open>UserLists\<close>: the intrusive lists of users of instructions as pointers (\<^verbatim>\<open>User\<close>, \<^verbatim>\<open>SetInput\<close>, \<^verbatim>\<open>ReplaceUsers\<close> and the other
    operations of \<^verbatim>\<open>ir/inst.h\<close>), which \<open>IrGraph\<close> abstracts from; \<open>PhiOperands\<close>: the growing storage of inputs of phis and save states
    (\<^verbatim>\<open>DynamicOperands\<close> of \<^verbatim>\<open>ir/inst.cpp\<close>) and the removal of an edge into a block with phis (\<^verbatim>\<open>ir/graph.cpp\<close>);
    \<open>CompareNegation\<close>: a rule of \<^verbatim>\<open>optimizations/peepholes.cpp\<close> that changes the list of users it follows.
  \<^item> \<open>RangeDomain\<close>: the class \<^verbatim>\<open>BoundsRange\<close> of \<^verbatim>\<open>analysis/bounds_analysis.cpp\<close>, integer intervals with an optional array length.
  \<^item> \<open>CountableLoop\<close>: \<^verbatim>\<open>analysis/countable_loop_parser.cpp\<close>.
  \<^item> \<open>BoundsAnalysis\<close>: the table of ranges, the visitors and the driver of \<^verbatim>\<open>analysis/bounds_analysis.cpp\<close>; it calls the three above.
  \<^item> \<open>ConstFolding\<close>, \<open>ConstFoldingSound\<close>: \<^verbatim>\<open>optimizations/const_folding.cpp\<close>; it shares constants of the graph and replaces users.
  \<^item> \<open>Peepholes\<close>: the arithmetic visitors of \<^verbatim>\<open>optimizations/peepholes.cpp\<close> (negation to exclusive or) with their helpers and the
    operations that edit the graph; they call the folding functions above and, for the negation of a boolean, \<open>CompareNegation\<close>.
    \<open>PeepholeEdits\<close> (what each edit does to a valuation), \<open>PeepholeLogic\<close> (bit operations, minimum and maximum), \<open>PeepholeShifts\<close>,
    \<open>PeepholeAddSub\<close>, \<open>PeepholeDiv\<close> (division and multiplication) prove the visitors one by one; \<open>PeepholesSound\<close> states the
    contract, the theorem over all visitors and the rules that are wrong.
  \<^item> \<open>SpillFills\<close>: \<^verbatim>\<open>optimizations/regalloc/spill_fills_resolver.cpp\<close>, with \<^verbatim>\<open>ir/locations.h\<close> and \<^verbatim>\<open>ir/spill_fill_data.h\<close>; \<open>SpillFillsSound\<close>: the table of moves
    and its walks, on whole locations; \<open>SpillPairs\<close>: the meaning of moves on cells (a register, or half of a stack slot), in which a 64-bit move on a
    32-bit architecture copies a pair, and the correctness of the resolver there.
  \<^item> \<open>Registers\<close>: the registers of the interpreter with their tags and its arithmetic (\<^verbatim>\<open>runtime/interpreter/vregister.h\<close>,
    \<^verbatim>\<open>math_helpers.h\<close>).
  \<^item> \<open>Interpreter\<close>, \<open>InterpreterObjects\<close>: the handlers of \<^verbatim>\<open>runtime/interpreter/interpreter-inl.h\<close> for static languages, one definition
    for each, over the state of \<^verbatim>\<open>instruction_handler_base.h\<close>, \<^verbatim>\<open>frame.h\<close> and \<^verbatim>\<open>cache.h\<close>: accumulator, chain of frames, position, pending
    exception, heap and cache; the second theory holds those that touch objects, frames or exceptions, and the exception handler of the
    generated dispatch loop.
  \<^item> \<open>InterpreterExample\<close>: a small runtime and state for examples; \<open>InterpreterSound\<close>: arithmetic handlers against the semantics
    of the intermediate representation; \<open>InterpreterArrays\<close>: array accesses; \<open>InterpreterCalls\<close>: calls, returns, exceptions;
    \<open>InterpreterSafe\<close>: truthful tags, the invariant the garbage collector relies on.

  \<^bold>\<open>Conventions.\<close>  A class is a record, an enumeration a datatype, a method a definition of the same name that takes the record and
  returns it updated.  Fixed-width integers are words, or integers with the wrap-around written out where the code relies on
  it; a failed assertion, an \<^verbatim>\<open>UNREACHABLE()\<close>, undefined signed arithmetic or a read outside a buffer is \<open>None\<close> (the range domain computes with the wrapped
  corner of a product, and the visitor of the multiplication is \<open>None\<close> where this is undefined; the assertions of debug builds on the tags of moved registers are dropped).  Loops are recursive functions with a proof of termination.
  Loops the code bounds by assertions have fuel: as many steps as the graph has instructions (chains of instructions that are
  skipped), blocks (walks up the dominator tree) or loops (the nesting of loops), or as the table of moves has entries (the walk around a
  cycle of moves); a longer walk would visit something twice, and where a result is claimed it is shown that the fuel suffices.
  The loop of \<open>CompareNegation\<close> has as fuel the number of iterations, because it need not end; the loops over lists of users are partial
  functions, and it is proved that they return.
  Code outside the repository is a parameter: the rounding operations of the floating-point unit, the answers of the
  runtime about classes, the registers of the target.  The interpreter calls the class linker, the allocator, safepoints and compiled code
  through the record \<open>rt\<close>, and reads operands that the generated decoder would return.  The futex calls are modelled by their documentation.

  \<^bold>\<open>What is shown.\<close>

  \<^item> Codings: unsigned and signed LEB128 and modified UTF-8 decode to what was encoded and have the announced size; the
    hand-unrolled decoder equals the generic one; string comparison is an order; decimal printing writes the digits.
  \<^item> Arithmetic helpers return the least power, width or multiple they promise, and table lookups agree with the builtins.
  \<^item> Ranges: every operation on ranges contains the results of the machine operation (but for the least 64-bit value and the other conditions that the theorems
    state), keeps ranges well formed, and narrowing by a condition keeps every pair that satisfies it, for the unsigned codes in non-negative
    ranges; under such conditions the analysis itself keeps a sound table through arithmetic, branches, phis and
    countable loops, and its queries (not null, not negative, below an array length) may be trusted.
  \<^item> The number of iterations of a countable loop is exact.
  \<^item> Constant folding keeps the value of every instruction that uses the folded one, shares constants, and saturates conversions; the graphs and operands
    it is ready for are those of \<open>fold_ready\<close>: canonical integer constants of types but \<^verbatim>\<open>BOOL\<close>, conversions to integers, comparisons of floating-point values with
    NaN and of references for identity included.
  \<^item> Peephole rules: each of the sixteen arithmetic visitors returns and keeps the value of every instruction but the visited one and
    what it reads, for operands of the types that the compiler builds; the divisors, shift amounts and shift pairs for which the code is
    wrong, and the negation of a boolean (\<open>CompareNegation\<close>), are excluded by the predicate \<open>rule_ready\<close>.
  \<^item> The spill-fill resolver terminates, and the list it returns, executed in order, does what the moves do at once, register pairs included, when
    pairs overlap in whole operands and fewer than 256 moves read one location; both conditions are needed.
  \<^item> The interpreter: every binary, unary and conversion handler computes what the compiler's semantics gives for the
    corresponding instruction, or is undefined where C++ leaves a signed overflow undefined; calls pass each argument to its register and returns resume the
    caller, with the object of the allocator after a constructor; exceptions reach the nearest handler;
    array accesses are checked and loads read what stores wrote; every handler keeps tags truthful, given the operand types that a
    verified program provides.
  \<^item> Users and phis: the pointer operations keep every list of users equal to the inputs that mention the instruction, replacing users ends
    and implements the replacement of inputs that the other theories use; adding and removing edges keeps the input that each phi has for each
    other predecessor.
  \<^item> The mutex excludes, refines an abstract lock and loses no wake-up, in every interleaving.
  \<^item> Places where the code does not do what it means to are stated as theorems: the overflow that the signed decoder reports as
    complete, unsigned narrowing and the minimum value in ranges, the array length of a remainder, literal data in casts, the
    eight-bit counters of the resolver and the upper half of a register pair, adjacent lead surrogates and unaligned regions of strings, signed overflow in the
    interpreter's negation and increment, a peephole loop that never ends, peephole rules
    that change the result of repeated multiplications, of unsigned division by the largest number and of shifts back by eight.

  \<^bold>\<open>Interfaces.\<close>  The locales state contracts and are interpreted on the definitions of the code: \<open>const_fold\<close> (what a
  folding function of one opcode owes to the graph; one interpretation for each opcode), \<open>peephole_rule\<close> (what a peephole visitor owes
  to the graph; one for each of the sixteen visitors), \<open>move_pass\<close> (a pass that rewrites lists
  of moves, interpreted on the resolver), \<open>resolver\<close> (what a handler may rely on after the resolution of a method, field or class;
  interpreted on the three resolvers), \<open>node_lists\<close> (lists that hold a node at most once, with what adding and removing promise;
  interpreted on the lists of users), and those of the range domain and the decoders in their theories.

  \<^bold>\<open>Not modelled.\<close>  Memory orders of atomics (threads interleave sequentially consistently); floating-point rounding; printing and dumping; the read-write lock and the condition variable; handlers of dynamic languages,
  profiling and debug instrumentation of the interpreter; the override of \<^verbatim>\<open>RemoveInput\<close> for catch phis and the packing of a node of a
  list of users into bits (the limits of its fields are kept).
  Whole components that are not modelled, and why, are listed in the manifest: code that is generated by the build or written
  against third-party libraries (encoders, LLVM backend, decoders of instructions), the rest of the runtime on its managed heap, and passes that
  change the control flow of the graph.  Of the peepholes, the visitors of comparisons, branches, casts, phis,
  stores and intrinsics are left out: they need control flow, memory or the runtime beyond the semantics of arithmetic instructions.
  The dispatch of the pass over all blocks and the program counters of new instructions are not modelled either.

  \<^bold>\<open>Order of the development.\<close>  The theories were built from the values up: words and codings, types and ranges, the graph and its
  analyses, constant folding and peephole rules on one semantics of instructions, and the interpreter against the same semantics.  What
  would extend it in the same way: the read-write lock on the scheme of the mutex; the dominator tree and the loop analysis, now inputs
  of the bounds analysis; the checks elimination that consumes the ranges; the readers of bytecode files on the LEB128 decoders.
\<close>

end
